(* ===== verification/Prelude.thy ===== *)
theory Prelude
  imports Complex_Main "HOL-Library.AList" "HOL-Library.List_Lexorder"
    "HOL-Library.Product_Lexorder"
begin

text \<open>
  Shared vocabulary of the development: Python errors as values of a sum type, Python
  dictionaries as association lists in insertion order, Python tuples as lists compared
  lexicographically, the builtins min and max with a key, floats as rational numbers,
  and the generic lemmas the component theories rely on.
\<close>

named_theorems dict_simps \<open>rewriting of Python dictionary operations\<close>

section \<open>Errors as values\<close>

datatype py_error =
    AssertionError
  | ValueError
  | KeyError
  | IndexError
  | TypeError
  | AttributeError
  | ZeroDivisionError
  | NotImplementedError
  | NoFreeBlocksError
  | NumpyNaN
  | UnboundLocalError
  | RuntimeError
  | Diverges

text \<open>
  \<open>NumpyNaN\<close> stands for a score that is not a number, \<open>Diverges\<close> for a loop that is entered
  and never left; both are outcomes the callers do not handle, like an uncaught exception.
\<close>

type_synonym 'a result = "py_error + 'a"

definition res_bind :: "'a result \<Rightarrow> ('a \<Rightarrow> 'b result) \<Rightarrow> 'b result" where
  "res_bind m f = (case m of Inl e \<Rightarrow> Inl e | Inr x \<Rightarrow> f x)"

definition py_assert :: "bool \<Rightarrow> unit result" where
  "py_assert b = (if b then Inr () else Inl AssertionError)"

lemma res_bind_simps [simp]:
  "res_bind (Inl e) f = Inl e"
  "res_bind (Inr x) f = f x"
  by (simp_all add: res_bind_def)

lemma res_bind_cong [fundef_cong]:
  "m = m' \<Longrightarrow> (\<And>x. m' = Inr x \<Longrightarrow> f x = f' x) \<Longrightarrow> res_bind m f = res_bind m' f'"
  by (cases m') auto

primrec res_map :: "('a \<Rightarrow> 'b result) \<Rightarrow> 'a list \<Rightarrow> 'b list result" where
  "res_map f [] = Inr []"
| "res_map f (x # xs) = res_bind (f x) (\<lambda>y. res_bind (res_map f xs) (\<lambda>ys. Inr (y # ys)))"

primrec res_fold :: "('a \<Rightarrow> 's \<Rightarrow> 's result) \<Rightarrow> 'a list \<Rightarrow> 's \<Rightarrow> 's result" where
  "res_fold f [] s = Inr s"
| "res_fold f (x # xs) s = res_bind (f x s) (res_fold f xs)"

lemma res_bind_Inr_iff:
  "res_bind m f = Inr y \<longleftrightarrow> (\<exists>x. m = Inr x \<and> f x = Inr y)"
  by (cases m) auto

lemma res_bind_InrE [elim]:
  assumes "res_bind m f = Inr y"
  obtains x where "m = Inr x" "f x = Inr y"
  using assms by (auto simp: res_bind_Inr_iff)

text \<open>A computation returns, and its value has the property: the form in which a concrete run is evaluated.\<close>

definition run_shows :: "'a result \<Rightarrow> ('a \<Rightarrow> bool) \<Rightarrow> bool" where
  "run_shows x P = (case x of Inl _ \<Rightarrow> False | Inr y \<Rightarrow> P y)"

lemma run_showsE: "run_shows x P \<Longrightarrow> (\<And>y. x = Inr y \<Longrightarrow> P y \<Longrightarrow> R) \<Longrightarrow> R"
  by (cases x) (simp_all add: run_shows_def)

lemma res_map_length: "res_map f xs = Inr ys \<Longrightarrow> length ys = length xs"
  by (induction xs arbitrary: ys) (auto elim!: res_bind_InrE simp: res_bind_def split: sum.splits)

lemma res_map_nth: "res_map f xs = Inr ys \<Longrightarrow> i < length xs \<Longrightarrow> f (xs ! i) = Inr (ys ! i)"
proof (induction xs arbitrary: ys i)
  case (Cons x xs)
  then show ?case by (cases i) (auto simp: res_bind_def split: sum.splits)
qed simp

lemma res_map_ok: "(\<And>x. x \<in> set xs \<Longrightarrow> f x = Inr (g x)) \<Longrightarrow> res_map f xs = Inr (map g xs)"
  by (induction xs) auto

text \<open>An invariant that every step of a fold keeps holds after the fold.\<close>

lemma res_fold_inv:
  assumes "res_fold f xs s = Inr s'" "P s"
    "\<And>x s s'. x \<in> set xs \<Longrightarrow> P s \<Longrightarrow> f x s = Inr s' \<Longrightarrow> P s'"
  shows "P s'"
  using assms
proof (induction xs arbitrary: s)
  case (Cons x xs)
  from Cons.prems(1) obtain t where t: "f x s = Inr t" "res_fold f xs t = Inr s'" by auto
  have "P t" using Cons.prems(3)[of x s t] Cons.prems(2) t(1) by simp
  with Cons.IH[OF t(2)] Cons.prems(3) show ?case by auto
qed simp

lemma res_fold_total:
  assumes "P s" "\<And>x s. x \<in> set xs \<Longrightarrow> P s \<Longrightarrow> \<exists>s'. f x s = Inr s' \<and> P s'"
  shows "\<exists>s'. res_fold f xs s = Inr s' \<and> P s'"
  using assms
proof (induction xs arbitrary: s)
  case (Cons x xs)
  obtain t where "f x s = Inr t" "P t" using Cons.prems by fastforce
  with Cons.IH[of t] Cons.prems(2) show ?case by auto
qed simp

lemma py_assert_Inr [simp]: "py_assert b = Inr u \<longleftrightarrow> b"
  by (simp add: py_assert_def)

lemma py_assert_simps [simp]:
  "b \<Longrightarrow> py_assert b = Inr ()"
  "\<not> b \<Longrightarrow> py_assert b = Inl AssertionError"
  by (simp_all add: py_assert_def)

section \<open>Dictionaries\<close>

text \<open>
  A Python dictionary iterates in insertion order and keeps the position of a key whose
  value is overwritten, which is what \<^const>\<open>AList.update\<close> and \<^const>\<open>AList.delete\<close> do on an
  association list with distinct keys.
\<close>

type_synonym ('k, 'v) dict = "('k \<times> 'v) list"

abbreviation dict_get :: "('k, 'v) dict \<Rightarrow> 'k \<Rightarrow> 'v option" where
  "dict_get \<equiv> map_of"

abbreviation dict_set :: "'k \<Rightarrow> 'v \<Rightarrow> ('k, 'v) dict \<Rightarrow> ('k, 'v) dict" where
  "dict_set \<equiv> AList.update"

abbreviation dict_pop :: "'k \<Rightarrow> ('k, 'v) dict \<Rightarrow> ('k, 'v) dict" where
  "dict_pop \<equiv> AList.delete"

abbreviation dict_keys :: "('k, 'v) dict \<Rightarrow> 'k list" where
  "dict_keys d \<equiv> map fst d"

abbreviation dict_values :: "('k, 'v) dict \<Rightarrow> 'v list" where
  "dict_values d \<equiv> map snd d"

abbreviation dict_has :: "('k, 'v) dict \<Rightarrow> 'k \<Rightarrow> bool" where
  "dict_has d k \<equiv> dict_get d k \<noteq> None"

definition dict_get_default :: "('k, 'v) dict \<Rightarrow> 'k \<Rightarrow> 'v \<Rightarrow> 'v" where
  "dict_get_default d k v = (case dict_get d k of None \<Rightarrow> v | Some w \<Rightarrow> w)"

definition dict_item :: "('k, 'v) dict \<Rightarrow> 'k \<Rightarrow> 'v result" where
  "dict_item d k = (case dict_get d k of None \<Rightarrow> Inl KeyError | Some v \<Rightarrow> Inr v)"

definition dict_ok :: "('k, 'v) dict \<Rightarrow> bool" where
  "dict_ok d \<longleftrightarrow> distinct (dict_keys d)"

lemma dict_ok_Nil [simp]: "dict_ok []"
  by (simp add: dict_ok_def)

lemma dict_ok_set [simp]: "dict_ok d \<Longrightarrow> dict_ok (dict_set k v d)"
  by (simp add: dict_ok_def distinct_update)

lemma dict_ok_pop [simp]: "dict_ok d \<Longrightarrow> dict_ok (dict_pop k d)"
  by (simp add: dict_ok_def distinct_delete)

lemma dict_get_set [simp]: "dict_get (dict_set k v d) = (dict_get d)(k \<mapsto> v)"
  by (simp add: update_conv')

lemma dict_get_pop [simp]: "dict_get (dict_pop k d) = (dict_get d)(k := None)"
  by (simp add: delete_conv')

lemma dict_has_keys: "dict_has d k \<longleftrightarrow> k \<in> set (dict_keys d)"
  by (simp add: map_of_eq_None_iff)

lemma dict_get_mem: "dict_ok d \<Longrightarrow> (k, v) \<in> set d \<longleftrightarrow> dict_get d k = Some v"
  by (simp add: dict_ok_def map_of_eq_Some_iff)

lemma dict_keys_set [simp]: "fst ` set (dict_set k v d) = insert k (fst ` set d)"
  using dom_map_of_conv_image_fst[of "dict_set k v d"] dom_map_of_conv_image_fst[of d]
  by simp

lemma dict_keys_pop [simp]: "fst ` set (dict_pop k d) = fst ` set d - {k}"
  using dom_map_of_conv_image_fst[of "dict_pop k d"] dom_map_of_conv_image_fst[of d]
  by simp

lemma dict_set_fresh: "k \<notin> fst ` set d \<Longrightarrow> dict_set k v d = d @ [(k, v)]"
  by (induction d) auto

lemma dict_get_map: "dict_get (map (\<lambda>(k, v). (k, f k v)) d) k = map_option (f k) (dict_get d k)"
  by (induction d) auto

text \<open>Writing a value for every entry of a dictionary, as a loop over its items does.\<close>

lemma dict_get_fold_set:
  assumes "dict_ok cs"
  shows "dict_get (fold (\<lambda>(k, v). dict_set k (g v)) cs d) k =
     (case dict_get cs k of Some v \<Rightarrow> Some (g v) | None \<Rightarrow> dict_get d k)"
  using assms
proof (induction cs arbitrary: d)
  case (Cons kv cs)
  then have ok: "dict_ok cs" "fst kv \<notin> fst ` set cs" by (auto simp: dict_ok_def)
  then have "dict_get cs (fst kv) = None" by (simp add: map_of_eq_None_iff)
  then show ?case using Cons.IH[OF ok(1)] by (cases kv) (auto split: option.splits)
qed simp

lemma dict_ok_fold_set: "dict_ok d \<Longrightarrow> dict_ok (fold (\<lambda>(k, v). dict_set k (g v)) cs d)"
  by (induction cs arbitrary: d) auto

lemma dict_length_card: "dict_ok d \<Longrightarrow> length d = card (fst ` set d)"
  by (metis dict_ok_def distinct_card length_map list.set_map)

lemma dict_length_set:
  "dict_ok d \<Longrightarrow> length (dict_set k v d) = (if dict_has d k then length d else Suc (length d))"
  using dict_has_keys[of d k] by (auto simp: dict_length_card insert_absorb)

lemma dict_length_pop:
  assumes "dict_ok d" "dict_has d k"
  shows "Suc (length (dict_pop k d)) = length d"
proof -
  have "k \<in> fst ` set d" using assms(2) dict_has_keys[of d k] by simp
  then show ?thesis using assms(1) by (simp add: dict_length_card card_Suc_Diff1 del: card_Diff_insert)
qed

lemma dict_pop_length_less: "k \<in> fst ` set d \<Longrightarrow> length (dict_pop k d) < length d"
proof (induction d)
  case (Cons x d)
  have "length (dict_pop k d) \<le> length d" by (rule length_delete_le)
  then show ?case using Cons by (cases x) auto
qed simp

lemmas dict_rules [dict_simps] = dict_get_set dict_get_pop dict_keys_set dict_keys_pop

section \<open>The builtins min and max with a key\<close>

text \<open>Both return the first extremal element of the iterable and raise on an empty one.\<close>

primrec min_from :: "('a \<Rightarrow> 'k::linorder) \<Rightarrow> 'a \<Rightarrow> 'a list \<Rightarrow> 'a" where
  "min_from key b [] = b"
| "min_from key b (x # xs) = min_from key (if key x < key b then x else b) xs"

fun py_min :: "('a \<Rightarrow> 'k::linorder) \<Rightarrow> 'a list \<Rightarrow> 'a result" where
  "py_min key [] = Inl ValueError"
| "py_min key (x # xs) = Inr (min_from key x xs)"

primrec max_from :: "('a \<Rightarrow> 'k::linorder) \<Rightarrow> 'a \<Rightarrow> 'a list \<Rightarrow> 'a" where
  "max_from key b [] = b"
| "max_from key b (x # xs) = max_from key (if key b < key x then x else b) xs"

fun py_max :: "('a \<Rightarrow> 'k::linorder) \<Rightarrow> 'a list \<Rightarrow> 'a result" where
  "py_max key [] = Inl ValueError"
| "py_max key (x # xs) = Inr (max_from key x xs)"

lemma min_from_mem: "min_from key b xs \<in> insert b (set xs)"
  by (induction xs arbitrary: b) auto

lemma min_from_le: "y \<in> insert b (set xs) \<Longrightarrow> key (min_from key b xs) \<le> key y"
proof (induction xs arbitrary: b y)
  case (Cons x xs)
  let ?c = "if key x < key b then x else b"
  have "key (min_from key ?c xs) \<le> key ?c" using Cons.IH[of ?c ?c] by simp
  moreover have "key ?c \<le> key x" "key ?c \<le> key b" by auto
  moreover have "y \<in> set xs \<Longrightarrow> key (min_from key ?c xs) \<le> key y"
    using Cons.IH[of y ?c] by simp
  ultimately show ?case using Cons.prems by (auto intro: order_trans)
qed simp

lemma max_from_mem: "max_from key b xs \<in> insert b (set xs)"
  by (induction xs arbitrary: b) auto

lemma max_from_ge: "y \<in> insert b (set xs) \<Longrightarrow> key y \<le> key (max_from key b xs)"
proof (induction xs arbitrary: b y)
  case (Cons x xs)
  let ?c = "if key b < key x then x else b"
  have "key ?c \<le> key (max_from key ?c xs)" using Cons.IH[of ?c ?c] by simp
  moreover have "key x \<le> key ?c" "key b \<le> key ?c" by auto
  moreover have "y \<in> set xs \<Longrightarrow> key y \<le> key (max_from key ?c xs)"
    using Cons.IH[of y ?c] by simp
  ultimately show ?case using Cons.prems by (auto intro: order_trans)
qed simp

lemma py_min_mem: "py_min key xs = Inr m \<Longrightarrow> m \<in> set xs"
  using min_from_mem by (cases xs) force+

lemma py_min_le: "py_min key xs = Inr m \<Longrightarrow> y \<in> set xs \<Longrightarrow> key m \<le> key y"
  using min_from_le by (cases xs) force+

lemma py_min_ok: "xs \<noteq> [] \<Longrightarrow> \<exists>m. py_min key xs = Inr m"
  by (cases xs) auto

lemma py_max_mem: "py_max key xs = Inr m \<Longrightarrow> m \<in> set xs"
  using max_from_mem by (cases xs) force+

lemma py_max_ge: "py_max key xs = Inr m \<Longrightarrow> y \<in> set xs \<Longrightarrow> key y \<le> key m"
  using max_from_ge by (cases xs) force+

lemma py_max_ok: "xs \<noteq> [] \<Longrightarrow> \<exists>m. py_max key xs = Inr m"
  by (cases xs) auto

section \<open>Slices, ceiling division and full chunks\<close>

text \<open>
  The slice \<open>xs[i:j]\<close>, negative bounds counted from the end; the ceiling division of utils.py, with
  Python's division rounding down as \<open>div\<close> on the integers does; and the full chunks of a list,
  the remainder dropped.
\<close>

definition slice_index :: "'x list \<Rightarrow> int \<Rightarrow> nat" where
  "slice_index xs i = nat (if i < 0 then int (length xs) + i else min i (int (length xs)))"

definition py_slice :: "'x list \<Rightarrow> int \<Rightarrow> int \<Rightarrow> 'x list" where
  "py_slice xs i j = drop (slice_index xs i) (take (slice_index xs j) xs)"

lemma py_slice_nat: "py_slice xs (int i) (int j) = drop i (take j xs)"
proof (cases "i \<le> length xs")
  case True
  then show ?thesis by (cases "j \<le> length xs") (simp_all add: py_slice_def slice_index_def)
qed (simp add: py_slice_def slice_index_def)

definition py_getitem :: "'x list \<Rightarrow> int \<Rightarrow> 'x result" where
  "py_getitem xs i = (if - int (length xs) \<le> i \<and> i < int (length xs)
     then Inr (xs ! nat (if i < 0 then int (length xs) + i else i)) else Inl IndexError)"

lemma py_getitem_nat: "i < length xs \<Longrightarrow> py_getitem xs (int i) = Inr (xs ! i)"
  by (simp add: py_getitem_def)

definition cdiv :: "int \<Rightarrow> int \<Rightarrow> int" where
  "cdiv a b = - (a div - b)"

lemma cdiv_bounds:
  assumes "0 < b"
  shows "a \<le> cdiv a b * b" "cdiv a b * b < a + b"
proof -
  have e: "cdiv a b = - ((- a) div b)" using assms by (simp add: cdiv_def div_minus_right)
  have m: "cdiv a b * b = a + (- a) mod b"
    unfolding e using minus_mod_eq_div_mult[of "- a" b] by simp
  have "0 \<le> (- a) mod b" "(- a) mod b < b" using assms by simp_all
  then show "a \<le> cdiv a b * b" "cdiv a b * b < a + b" unfolding m by linarith+
qed

lemma cdiv_least: "0 < b \<Longrightarrow> cdiv a b \<le> n \<longleftrightarrow> a \<le> n * b"
proof
  assume b: "0 < b"
  show "a \<le> n * b" if "cdiv a b \<le> n"
    using cdiv_bounds(1)[OF b, of a] that b by (meson mult_right_mono order_trans order_less_imp_le)
  show "cdiv a b \<le> n" if "a \<le> n * b"
  proof (rule ccontr)
    assume "\<not> cdiv a b \<le> n"
    then have "(n + 1) * b \<le> cdiv a b * b" using b by (intro mult_right_mono) auto
    then show False using cdiv_bounds(2)[OF b, of a] that by (simp add: distrib_right)
  qed
qed

fun full_chunks :: "nat \<Rightarrow> 'x list \<Rightarrow> 'x list list" where
  "full_chunks n toks = (if n = 0 \<or> length toks < n then [] else take n toks # full_chunks n (drop n toks))"

declare full_chunks.simps [simp del]

lemma full_chunks_nth: "0 < n \<Longrightarrow> full_chunks n toks = map (\<lambda>i. take n (drop (i * n) toks)) [0..<length toks div n]"
proof (induction n toks rule: full_chunks.induct)
  case (1 n toks)
  show ?case
  proof (cases "length toks < n")
    case True
    then show ?thesis by (simp add: full_chunks.simps)
  next
    case False
    then have d: "length toks div n = Suc ((length toks - n) div n)" using 1(2) by (simp add: le_div_geq)
    have "full_chunks n toks = take n toks # map (\<lambda>i. take n (drop (i * n) (drop n toks))) [0..<length (drop n toks) div n]"
      using 1 False by (subst full_chunks.simps) auto
    also have "\<dots> = map (\<lambda>i. take n (drop (i * n) toks)) [0..<length toks div n]"
      unfolding d upt_conv_Cons[OF zero_less_Suc] by (simp add: map_Suc_upt[symmetric] add.commute del: upt_Suc)
    finally show ?thesis .
  qed
qed

lemma full_chunks_length: "0 < n \<Longrightarrow> length (full_chunks n toks) = length toks div n"
  by (simp add: full_chunks_nth)

lemma chunks_prefix:
  assumes "0 < n" "old @ new = toks"
  shows "full_chunks n toks = full_chunks n old @
     map (\<lambda>i. take n (drop (i * n) toks)) [length old div n..<length toks div n]"
proof -
  have le: "length old div n \<le> length toks div n" using assms(2) by (intro div_le_mono) auto
  have "take n (drop (i * n) toks) = take n (drop (i * n) old)" if "i < length old div n" for i
  proof -
    have "(i + 1) * n \<le> length old div n * n" using that by (intro mult_le_mono1) simp
    also have "\<dots> \<le> length old" by simp
    finally have "i * n + n \<le> length old" by simp
    then show ?thesis using assms(2) by (auto simp: take_append drop_append)
  qed
  then have "map (\<lambda>i. take n (drop (i * n) toks)) [0..<length old div n] = full_chunks n old"
    unfolding full_chunks_nth[OF assms(1)] by (intro map_cong) auto
  moreover have "[0..<length toks div n] = [0..<length old div n] @ [length old div n..<length toks div n]"
    using le upt_add_eq_append[of 0 "length old div n" "length toks div n - length old div n"] by simp
  ultimately show ?thesis by (simp add: full_chunks_nth[OF assms(1), of toks])
qed

section \<open>Parsing numbers from configuration strings\<close>

text \<open>
  The builtins int and float on the strings of an evictor configuration: blanks around the
  literal are dropped, a sign is optional, single underscores may separate digits. A float
  literal denotes its exact rational value; the literals inf and nan have none and are
  refused here, as malformed text is.
\<close>

definition py_space :: "char \<Rightarrow> bool" where
  "py_space c \<longleftrightarrow> c \<in> set [CHR '' '', CHR 0x09, CHR 0x0A, CHR 0x0B, CHR 0x0C, CHR 0x0D,
     CHR 0x1C, CHR 0x1D, CHR 0x1E, CHR 0x1F]"

definition py_strip :: "string \<Rightarrow> string" where
  "py_strip s = rev (dropWhile py_space (rev (dropWhile py_space s)))"

definition py_digit :: "char \<Rightarrow> bool" where
  "py_digit c \<longleftrightarrow> 48 \<le> (of_char c :: nat) \<and> (of_char c :: nat) \<le> 57"

fun digits_value :: "int \<Rightarrow> string \<Rightarrow> int option" where
  "digits_value acc [] = Some acc"
| "digits_value acc (c # cs) =
     (if py_digit c then digits_value (acc * 10 + (of_char c - 48)) cs
      else if c = CHR ''_'' then
        (case cs of d # ds \<Rightarrow>
           if py_digit d then digits_value (acc * 10 + (of_char d - 48)) ds else None
         | [] \<Rightarrow> None)
      else None)"

fun py_nat :: "string \<Rightarrow> int option" where
  "py_nat [] = None"
| "py_nat (c # cs) = (if py_digit c then digits_value (of_char c - 48) cs else None)"

definition py_sign :: "string \<Rightarrow> int \<times> string" where
  "py_sign s = (case s of
       [] \<Rightarrow> (1, [])
     | c # cs \<Rightarrow> if c = CHR ''-'' then (-1, cs) else if c = CHR ''+'' then (1, cs) else (1, s))"

definition py_int :: "string \<Rightarrow> int result" where
  "py_int s = (case py_sign (py_strip s) of (sg, ds) \<Rightarrow>
     (case py_nat ds of None \<Rightarrow> Inl ValueError | Some n \<Rightarrow> Inr (sg * n)))"

definition count_digits :: "string \<Rightarrow> nat" where
  "count_digits s = length (filter py_digit s)"

definition py_mantissa :: "string \<Rightarrow> rat option" where
  "py_mantissa s =
     (let whole = takeWhile (\<lambda>c. c \<noteq> CHR ''.'') s;
          frac = drop (Suc (length whole)) s
      in if whole = s then map_option rat_of_int (py_nat s)
         else if whole = [] \<and> frac = [] then None
         else case (if whole = [] then Some 0 else py_nat whole,
                    if frac = [] then Some 0 else py_nat frac) of
                (Some w, Some f) \<Rightarrow> Some (rat_of_int w + rat_of_int f / 10 ^ count_digits frac)
              | _ \<Rightarrow> None)"

definition py_float :: "string \<Rightarrow> rat result" where
  "py_float s = (case py_sign (py_strip s) of (sg, body) \<Rightarrow>
     (let mant = takeWhile (\<lambda>c. c \<noteq> CHR ''e'' \<and> c \<noteq> CHR ''E'') body;
          rest = drop (length mant) body
      in case py_mantissa mant of
           None \<Rightarrow> Inl ValueError
         | Some m \<Rightarrow>
             (if rest = [] then Inr (rat_of_int sg * m)
              else case py_sign (tl rest) of (esg, eds) \<Rightarrow>
                (case py_nat eds of
                   None \<Rightarrow> Inl ValueError
                 | Some e \<Rightarrow> Inr (rat_of_int sg *
                     (if esg = 1 then m * 10 ^ nat e else m / 10 ^ nat e))))))"

lemma py_int_examples:
  "py_int ''32'' = Inr 32" "py_int '' -7 '' = Inr (-7)" "py_int ''1_000'' = Inr 1000"
  "py_int ''4.0'' = Inl ValueError" "py_int '''' = Inl ValueError"
  by code_simp+

lemma py_float_examples:
  "py_float ''0.10'' = Inr (1 / 10)" "py_float ''100'' = Inr 100" "py_float ''1e3'' = Inr 1000"
  by code_simp+

section \<open>Splitting text\<close>

text \<open>The method \<open>str.split\<close> with a separator of one character.\<close>

fun split_on :: "char \<Rightarrow> string \<Rightarrow> string list" where
  "split_on c [] = [[]]"
| "split_on c (x # xs) =
     (if x = c then [] # split_on c xs
      else case split_on c xs of [] \<Rightarrow> [[x]] | y # ys \<Rightarrow> (x # y) # ys)"

lemma split_on_no_sep: "c \<notin> set s \<Longrightarrow> split_on c s = [s]"
  by (induction s) auto

lemma split_on_append: "c \<notin> set s \<Longrightarrow> split_on c (s @ c # t) = s # split_on c t"
  by (induction s) auto

end
