(* ===== verification/Evictor_Base.thy ===== *)
theory Evictor_Base
  imports Prelude
begin

text \<open>
  The parts of vllm/core/evictor.py that every eviction policy shares: the configuration
  parser, the arrival probability of the learned policy, cache hints, survival statistics,
  and the metadata kept for a block that waits in an evictor. The locale \<open>evictor_contract\<close>
  is the interface the prefix-caching allocator relies on (the abstract class Evictor).
\<close>

section \<open>Evictor configuration\<close>

definition split_pair :: "string \<Rightarrow> (string \<times> string) result" where
  "split_pair pair =
     (let key = takeWhile (\<lambda>c. c \<noteq> CHR ''='') pair
      in if key = pair then Inl ValueError else Inr (key, drop (Suc (length key)) pair))"

fun parse_pairs :: "(string, string) dict \<Rightarrow> string list \<Rightarrow> (string, string) dict result" where
  "parse_pairs d [] = Inr d"
| "parse_pairs d (pair # pairs) =
     (if pair = [] then parse_pairs d pairs
      else res_bind (split_pair pair) (\<lambda>(key, value). parse_pairs (dict_set key value d) pairs))"

definition parse_evictor_config :: "string \<Rightarrow> (string, string) dict result" where
  "parse_evictor_config config =
     (if config = [] then Inr [] else parse_pairs [] (split_on (CHR '','') config))"

text \<open>The configuration string the scheduler benchmark builds, values already formatted.\<close>

fun config_join :: "(string, string) dict \<Rightarrow> string" where
  "config_join [] = []"
| "config_join [(k, v)] = k @ ''='' @ v"
| "config_join ((k, v) # kv # kvs) = k @ ''='' @ v @ '','' @ config_join (kv # kvs)"

fun bar_join :: "string list \<Rightarrow> string" where
  "bar_join [] = []"
| "bar_join [p] = p"
| "bar_join (p # q # ps) = p @ ''|'' @ bar_join (q # ps)"

record scheduler_args =
  a_warmup :: string
  a_min_events :: string
  a_small_threshold :: string
  a_large_threshold :: string
  a_observe_stride :: string
  a_shadow_policies :: "string list"
  a_initial_policy :: string
  a_pdp_initial_pd :: string
  a_pdp_max_distance :: string
  a_pdp_recompute_interval :: string
  a_pdp_bucket_size :: string
  a_pdp_eviction_distance :: string

definition scheduler_config_dict :: "string \<Rightarrow> scheduler_args \<Rightarrow> (string, string) dict" where
  "scheduler_config_dict model_size args =
     [(''enable_scheduler'', ''1''),
      (''scheduler_warmup'', a_warmup args),
      (''scheduler_min_events'', a_min_events args),
      (''scheduler_small_threshold'', a_small_threshold args),
      (''scheduler_large_threshold'', a_large_threshold args),
      (''scheduler_observe_stride'', a_observe_stride args),
      (''scheduler_shadow_policies'', bar_join (a_shadow_policies args)),
      (''model_size_b'', model_size),
      (''scheduler_initial_policy'', a_initial_policy args),
      (''pdp_initial_pd'', a_pdp_initial_pd args),
      (''pdp_max_distance'', a_pdp_max_distance args),
      (''pdp_recompute_interval'', a_pdp_recompute_interval args),
      (''pdp_bucket_size'', a_pdp_bucket_size args),
      (''pdp_eviction_distance'', a_pdp_eviction_distance args)]"

definition build_scheduler_config :: "string \<Rightarrow> scheduler_args \<Rightarrow> string" where
  "build_scheduler_config model_size args = config_join (scheduler_config_dict model_size args)"

definition config_int :: "(string, string) dict \<Rightarrow> string \<Rightarrow> int \<Rightarrow> int result" where
  "config_int cfg key dflt = (case dict_get cfg key of None \<Rightarrow> Inr dflt | Some s \<Rightarrow> py_int s)"

definition config_float :: "(string, string) dict \<Rightarrow> string \<Rightarrow> rat \<Rightarrow> rat result" where
  "config_float cfg key dflt = (case dict_get cfg key of None \<Rightarrow> Inr dflt | Some s \<Rightarrow> py_float s)"

lemma split_pair_join: "CHR ''='' \<notin> set k \<Longrightarrow> split_pair (k @ ''='' @ v) = Inr (k, v)"
proof -
  assume "CHR ''='' \<notin> set k"
  then have "takeWhile (\<lambda>c. c \<noteq> CHR ''='') (k @ CHR ''='' # v) = k"
    by (subst takeWhile_append2) auto
  then show ?thesis by (simp add: split_pair_def)
qed

definition config_pair_ok :: "string \<times> string \<Rightarrow> bool" where
  "config_pair_ok kv \<longleftrightarrow> CHR ''='' \<notin> set (fst kv) \<and> CHR '','' \<notin> set (fst kv) \<and> CHR '','' \<notin> set (snd kv)"

lemma parse_pairs_join:
  assumes "kvs \<noteq> []" "\<forall>kv \<in> set kvs. config_pair_ok kv"
  shows "parse_pairs d (split_on (CHR '','') (config_join kvs)) =
           Inr (fold (\<lambda>(k, v). dict_set k v) kvs d)"
  using assms
proof (induction kvs arbitrary: d rule: config_join.induct)
  case (2 k v)
  then have "CHR '','' \<notin> set (k @ ''='' @ v)" by (auto simp: config_pair_ok_def)
  from split_on_no_sep[OF this] show ?case
    using 2 split_pair_join[of k v] by (auto simp: config_pair_ok_def)
next
  case (3 k v kv kvs)
  then have "CHR '','' \<notin> set (k @ ''='' @ v)" by (auto simp: config_pair_ok_def)
  from split_on_append[OF this, of "config_join (kv # kvs)"] show ?case
    using 3 split_pair_join[of k v] by (auto simp: config_pair_ok_def)
qed simp

lemma fold_dict_set_fresh:
  "distinct (map fst kvs) \<Longrightarrow> fst ` set kvs \<inter> fst ` set d = {} \<Longrightarrow>
   fold (\<lambda>(k, v). dict_set k v) kvs d = d @ kvs"
proof (induction kvs arbitrary: d)
  case (Cons kv kvs)
  have "dict_set (fst kv) (snd kv) d = d @ [kv]"
    using Cons.prems(2) by (subst dict_set_fresh) auto
  then show ?case using Cons by (cases kv) auto
qed simp

section \<open>Cache hints\<close>

text \<open>
  A cache hint is a dictionary sent with a request. The record has one field per key the
  program reads; \<^const>\<open>None\<close> is an absent key.
\<close>

record cache_hint =
  ch_id :: "int option"
  ch_turns :: "int option"
  ch_use_lru :: "int option"
  ch_use_rrip :: "int option"
  ch_use_fifo :: "int option"
  ch_scheduler_policy :: "string option"
  ch_next_timestamp :: "rat option"
  ch_prob_has_next :: "rat option"
  ch_exp_scale :: "rat option"

definition empty_hint :: cache_hint where
  "empty_hint = \<lparr>ch_id = None, ch_turns = None, ch_use_lru = None, ch_use_rrip = None,
     ch_use_fifo = None, ch_scheduler_policy = None, ch_next_timestamp = None,
     ch_prob_has_next = None, ch_exp_scale = None\<rparr>"

definition truthy :: "int option \<Rightarrow> bool" where
  "truthy v \<longleftrightarrow> (case v of None \<Rightarrow> False | Some n \<Rightarrow> n \<noteq> 0)"

definition truthy_str :: "string option \<Rightarrow> bool" where
  "truthy_str v \<longleftrightarrow> (case v of None \<Rightarrow> False | Some s \<Rightarrow> s \<noteq> [])"

definition hint_item :: "'a option \<Rightarrow> 'a result" where
  "hint_item v = (case v of None \<Rightarrow> Inl KeyError | Some x \<Rightarrow> Inr x)"

lemma hint_item_simps [simp]:
  "hint_item (Some x) = Inr x" "hint_item None = Inl KeyError"
  by (simp_all add: hint_item_def)

section \<open>Probability that a conversation returns\<close>

text \<open>
  The exponential is numpy's, hence an argument. Division by a zero numpy float gives a nan,
  which is reported as the error value \<^const>\<open>NumpyNaN\<close>.
\<close>

definition probability_of_future_arrival ::
    "(rat \<Rightarrow> rat) \<Rightarrow> rat \<Rightarrow> rat \<Rightarrow> rat \<Rightarrow> rat result" where
  "probability_of_future_arrival np_exp prob_has_next exp_scale elapsed_time =
     (if prob_has_next = 0 \<or> exp_scale = 0 then Inr 0
      else let prob_not_accessed_till_now = np_exp (- elapsed_time / exp_scale);
               denominator = prob_has_next * prob_not_accessed_till_now + (1 - prob_has_next)
           in if denominator = 0 then Inl NumpyNaN
              else Inr (prob_has_next * prob_not_accessed_till_now / denominator))"

section \<open>Survival statistics\<close>

record CacheStat =
  cs_stat :: "(string, rat list) dict"
  cs_average :: "(string, rat) dict"
  cs_last_log_time :: rat
  cs_log_interval :: rat

definition CacheStat_init :: CacheStat where
  "CacheStat_init = \<lparr>cs_stat = [], cs_average = [], cs_last_log_time = 0, cs_log_interval = 10000\<rparr>"

definition CacheStat_get_average :: "CacheStat \<Rightarrow> string \<Rightarrow> rat" where
  "CacheStat_get_average st key =
     (case dict_get (cs_average st) key of Some a \<Rightarrow> a | None \<Rightarrow> 1)"

definition CacheStat_append :: "CacheStat \<Rightarrow> string \<Rightarrow> rat \<Rightarrow> CacheStat" where
  "CacheStat_append st key value =
     (let avg = dict_get_default (cs_average st) key 0;
          data = dict_get_default (cs_stat st) key [];
          n = rat_of_nat (length data)
      in st\<lparr>cs_average := dict_set key ((avg * n + value) / (n + 1)) (cs_average st),
            cs_stat := dict_set key (data @ [value]) (cs_stat st)\<rparr>)"

definition CacheStat_summary :: "rat \<Rightarrow> CacheStat \<Rightarrow> int \<times> CacheStat" where
  "CacheStat_summary current_time st =
     (if current_time - cs_last_log_time st < cs_log_interval st then (0, st)
      else (if \<exists>data \<in> set (dict_values (cs_stat st)). data \<noteq> [] then 1 else 0,
            st\<lparr>cs_last_log_time := current_time\<rparr>))"

definition mean_of :: "rat list \<Rightarrow> rat" where
  "mean_of data = sum_list data / rat_of_nat (length data)"

definition CacheStat_ok :: "CacheStat \<Rightarrow> bool" where
  "CacheStat_ok st \<longleftrightarrow> dict_ok (cs_stat st) \<and> dict_ok (cs_average st) \<and>
     (\<forall>key. dict_get (cs_stat st) key \<noteq> Some [] \<and>
        dict_get (cs_average st) key = map_option mean_of (dict_get (cs_stat st) key))"

lemma CacheStat_ok_init: "CacheStat_ok CacheStat_init"
  by (simp add: CacheStat_ok_def CacheStat_init_def)

lemma mean_of_snoc:
  "data \<noteq> [] \<Longrightarrow> (mean_of data * rat_of_nat (length data) + v) / (rat_of_nat (length data) + 1)
     = mean_of (data @ [v])"
  by (simp add: mean_of_def add.commute)

lemma CacheStat_ok_append:
  assumes ok: "CacheStat_ok st"
  shows "CacheStat_ok (CacheStat_append st key v)"
proof (cases "dict_get (cs_stat st) key")
  case None
  then show ?thesis using ok
    by (simp add: CacheStat_ok_def CacheStat_append_def dict_get_default_def Let_def mean_of_def)
next
  case (Some data)
  moreover have "data \<noteq> []" using ok Some by (auto simp: CacheStat_ok_def)
  ultimately show ?thesis using ok mean_of_snoc[of data v]
    by (simp add: CacheStat_ok_def CacheStat_append_def dict_get_default_def Let_def)
qed

section \<open>Block metadata\<close>

record BlockMetaData =
  bm_content_hash :: int
  bm_num_hashed_tokens :: int
  bm_last_accessed :: rat
  bm_cache_hint :: "cache_hint option"
  bm_score :: rat

definition hash_view :: "(int, ('b) BlockMetaData_scheme) dict \<Rightarrow> int \<rightharpoonup> int" where
  "hash_view t = (\<lambda>b. map_option bm_content_hash (dict_get t b))"

lemma hash_view_set: "hash_view (dict_set b m t) = (hash_view t)(b \<mapsto> bm_content_hash m)"
  by (auto simp: hash_view_def)

lemma hash_view_pop: "hash_view (dict_pop b t) = (hash_view t)(b := None)"
  by (auto simp: hash_view_def)

lemma hash_view_Nil: "hash_view [] = Map.empty"
  by (simp add: hash_view_def fun_eq_iff)

lemma hash_view_None: "hash_view t b = None \<longleftrightarrow> dict_get t b = None"
  by (simp add: hash_view_def)

lemma dom_hash_view: "dom (hash_view t) = fst ` set t"
  by (auto simp: hash_view_def dom_def simp flip: dom_map_of_conv_image_fst)

lemmas hash_view_simps = hash_view_set hash_view_pop hash_view_Nil hash_view_None

section \<open>The Evictor interface\<close>

text \<open>
  What the prefix-caching allocator relies on. The view of an evictor maps the ids of the
  blocks that wait in it to their content hashes. Adding inserts a block, removing takes out
  a block that is there and refuses any other, evicting takes out some waiting block and
  reports its id and content hash, and fails exactly when nothing waits.
\<close>

locale evictor_contract =
  fixes view :: "'e \<Rightarrow> int \<rightharpoonup> int"
    and inv :: "'e \<Rightarrow> bool"
    and contains :: "'e \<Rightarrow> int \<Rightarrow> bool"
    and num_blocks :: "'e \<Rightarrow> nat"
    and can_add :: "'e \<Rightarrow> int \<Rightarrow> int \<Rightarrow> int \<Rightarrow> rat \<Rightarrow> cache_hint option \<Rightarrow> bool"
    and add :: "rat \<Rightarrow> 'e \<Rightarrow> int \<Rightarrow> int \<Rightarrow> int \<Rightarrow> rat \<Rightarrow> cache_hint option \<Rightarrow> 'e result"
    and remove :: "'e \<Rightarrow> int \<Rightarrow> 'e result"
    and evict :: "rat \<Rightarrow> 'e \<Rightarrow> ((int \<times> int) \<times> 'e) result"
  assumes contains_iff: "contains e b \<longleftrightarrow> view e b \<noteq> None"
    and finite_view: "finite (dom (view e))"
    and num_blocks_card: "inv e \<Longrightarrow> num_blocks e = card (dom (view e))"
    and add_law: "inv e \<Longrightarrow> can_add e b h n t c \<Longrightarrow>
      \<exists>e'. add now e b h n t c = Inr e' \<and> inv e' \<and> view e' = (view e)(b \<mapsto> h)"
    and remove_law: "inv e \<Longrightarrow> view e b \<noteq> None \<Longrightarrow>
      \<exists>e'. remove e b = Inr e' \<and> inv e' \<and> view e' = (view e)(b := None)"
    and remove_absent: "view e b = None \<Longrightarrow> remove e b = Inl ValueError"
    and evict_law: "inv e \<Longrightarrow> view e \<noteq> Map.empty \<Longrightarrow>
      \<exists>b h e'. evict now e = Inr ((b, h), e') \<and> view e b = Some h \<and>
        inv e' \<and> view e' = (view e)(b := None)"
    and evict_empty: "view e = Map.empty \<Longrightarrow> evict now e = Inl ValueError"
begin

text \<open>Repeated eviction, as memory pressure drives it, stopping at the first error.\<close>

fun drain :: "rat list \<Rightarrow> 'e \<Rightarrow> ((int \<times> int) list \<times> 'e) result" where
  "drain [] e = Inr ([], e)"
| "drain (now # nows) e =
     res_bind (evict now e) (\<lambda>(bh, e'). res_bind (drain nows e') (\<lambda>(bhs, e''). Inr (bh # bhs, e'')))"

lemma evict_decreases:
  assumes "inv e" "evict now e = Inr ((b, h), e')"
  shows "inv e'" "view e b = Some h" "view e' = (view e)(b := None)" "Suc (num_blocks e') = num_blocks e"
proof -
  have "view e \<noteq> Map.empty" using assms(2) evict_empty[of e now] by auto
  with assms evict_law[OF assms(1), of now] show i: "inv e'" and v: "view e b = Some h"
    and w: "view e' = (view e)(b := None)" by auto
  have "b \<in> dom (view e)" using v by auto
  moreover have "dom (view e') = dom (view e) - {b}" using w by auto
  ultimately show "Suc (num_blocks e') = num_blocks e"
    using finite_view[of e] by (simp add: num_blocks_card assms(1) i card_Suc_Diff1 del: card_Diff_insert)
qed

lemma drain_all:
  "inv e \<Longrightarrow> length nows = num_blocks e \<Longrightarrow>
   \<exists>bhs e'. drain nows e = Inr (bhs, e') \<and> view e' = Map.empty \<and> distinct (map fst bhs) \<and>
     map_of bhs = view e"
proof (induction nows arbitrary: e)
  case Nil
  then show ?case using finite_view[of e] by (auto simp: num_blocks_card)
next
  case (Cons now nows)
  have ne: "view e \<noteq> Map.empty" using Cons.prems by (auto simp: num_blocks_card)
  obtain b h e' where ev: "evict now e = Inr ((b, h), e')"
    using evict_law[OF Cons.prems(1) ne] by blast
  note d = evict_decreases[OF Cons.prems(1) ev]
  obtain bhs e'' where r: "drain nows e' = Inr (bhs, e'')" "view e'' = Map.empty"
      "distinct (map fst bhs)" "map_of bhs = view e'"
    using Cons.IH[OF d(1)] Cons.prems(2) d(4) by auto
  have "b \<notin> fst ` set bhs" using r(4) d(3) by (metis fun_upd_same map_of_eq_None_iff)
  moreover have "map_of ((b, h) # bhs) = view e" using r(4) d(2,3) by (auto simp: fun_eq_iff)
  ultimately show ?case using ev r by simp
qed

end

section \<open>Properties\<close>

lemma config_keys_ok:
  "distinct (map fst (scheduler_config_dict m args))"
  "\<forall>kv \<in> set (scheduler_config_dict m args). CHR ''='' \<notin> set (fst kv) \<and> CHR '','' \<notin> set (fst kv)"
  by (simp_all add: scheduler_config_dict_def)

text \<open>
  The configuration string of the benchmark survives the trip through the evictor: parsing
  what build_scheduler_config printed gives back exactly the dictionary it was printed from, in
  the same order, for all argument values whose printed form contains no comma.
\<close>

theorem build_config_roundtrip:
  assumes "\<forall>v \<in> set (map snd (scheduler_config_dict model_size args)). CHR '','' \<notin> set v"
  shows "parse_evictor_config (build_scheduler_config model_size args) =
           Inr (scheduler_config_dict model_size args)"
proof -
  let ?d = "scheduler_config_dict model_size args"
  have ne: "?d \<noteq> []" "config_join ?d \<noteq> []" by (simp_all add: scheduler_config_dict_def)
  have ok: "\<forall>kv \<in> set ?d. config_pair_ok kv"
    using config_keys_ok(2)[of model_size args] assms by (auto simp: config_pair_ok_def)
  show ?thesis
    using ne parse_pairs_join[OF ne(1) ok, of "[]"] fold_dict_set_fresh[OF config_keys_ok(1), of model_size args "[]"]
    by (simp add: parse_evictor_config_def build_scheduler_config_def)
qed

definition default_scheduler_args :: scheduler_args where
  "default_scheduler_args = \<lparr>a_warmup = ''100'', a_min_events = ''0'', a_small_threshold = ''0.1'',
     a_large_threshold = ''0.05'', a_observe_stride = ''4'',
     a_shadow_policies = [''lru'', ''rrip'', ''fifo'', ''pdp''], a_initial_policy = ''ml'',
     a_pdp_initial_pd = ''32'', a_pdp_max_distance = ''256'', a_pdp_recompute_interval = ''512'',
     a_pdp_bucket_size = ''1'', a_pdp_eviction_distance = ''1''\<rparr>"

theorem build_config_roundtrip_witness:
  "parse_evictor_config (build_scheduler_config ''7.0'' default_scheduler_args) =
     Inr (scheduler_config_dict ''7.0'' default_scheduler_args)"
  by (rule build_config_roundtrip) (simp add: scheduler_config_dict_def default_scheduler_args_def)

lemma future_arrival_mono:
  fixes p x y :: rat
  assumes "0 < p" "p \<le> 1" "0 < x" "x \<le> y"
  shows "p * x / (p * x + (1 - p)) \<le> p * y / (p * y + (1 - p))"
proof -
  have pos: "0 < p * x + (1 - p)" "0 < p * y + (1 - p)" using assms by (simp_all add: add_pos_nonneg)
  have "p * (1 - p) * x \<le> p * (1 - p) * y" using assms by (intro mult_left_mono) auto
  then have "p * x * (p * y + (1 - p)) \<le> p * y * (p * x + (1 - p))" by (simp add: algebra_simps)
  with pos show ?thesis by (simp add: divide_le_eq pos_le_divide_eq mult.commute mult.assoc)
qed

text \<open>
  The probability that a conversation returns, for a prior in [0,1], a positive time scale
  and an exponential that is monotone and positive with value 1 at 0: it is always a number,
  lies between 0 and the prior, equals the prior at elapsed time 0, and never grows while the
  conversation stays silent.
\<close>

theorem probability_of_future_arrival_decays:
  assumes "mono np_exp" "\<forall>x. 0 < np_exp x" "np_exp 0 = 1" "0 \<le> p" "p \<le> 1" "0 < scale" "0 \<le> t" "t \<le> u"
  shows "\<exists>q r. probability_of_future_arrival np_exp p scale t = Inr q \<and>
     probability_of_future_arrival np_exp p scale u = Inr r \<and> 0 \<le> r \<and> r \<le> q \<and> q \<le> p \<and>
     probability_of_future_arrival np_exp p scale 0 = Inr p"
proof (cases "p = 0")
  case True
  then show ?thesis by (simp add: probability_of_future_arrival_def)
next
  case False
  then have p: "0 < p" using assms(4) by simp
  let ?x = "np_exp (- t / scale)" and ?y = "np_exp (- u / scale)"
  have le: "?y \<le> ?x" "?x \<le> 1"
    using monoD[OF assms(1), of "- u / scale" "- t / scale"] monoD[OF assms(1), of "- t / scale" 0] assms(3,6-8)
    by (simp_all add: divide_right_mono)
  have pos: "0 < ?y" "0 < ?x" using assms(2) by auto
  have d: "p * z + (1 - p) \<noteq> 0" if "0 < z" for z using that p assms(5) by (smt (verit) add_pos_nonneg diff_ge_0_iff_ge less_irrefl mult_pos_pos)
  have r: "p * ?y / (p * ?y + (1 - p)) \<le> p * ?x / (p * ?x + (1 - p))" "p * ?x / (p * ?x + (1 - p)) \<le> p"
    using future_arrival_mono[OF p assms(5) pos(1) le(1)] future_arrival_mono[OF p assms(5) pos(2) le(2)] by simp_all
  moreover have "0 \<le> p * ?y / (p * ?y + (1 - p))" using p pos assms(5) by simp
  ultimately show ?thesis using False assms(3,6) d[OF pos(1)] d[OF pos(2)]
    by (simp add: probability_of_future_arrival_def Let_def)
qed

definition step_exp :: "rat \<Rightarrow> rat" where
  "step_exp x = (if x < 0 then 1 / 4 else 1)"

lemma step_exp_ok: "mono step_exp" "\<forall>x. 0 < step_exp x" "step_exp 0 = 1"
  by (auto simp: mono_def step_exp_def)

theorem probability_of_future_arrival_decays_witness:
  "\<exists>q r. probability_of_future_arrival step_exp (1 / 2) 10 0 = Inr q \<and>
     probability_of_future_arrival step_exp (1 / 2) 10 5 = Inr r \<and> 0 \<le> r \<and> r \<le> q"
proof -
  have b: "0 \<le> (1 / 2 :: rat)" "(1 / 2 :: rat) \<le> 1" "0 < (10 :: rat)" "0 \<le> (0 :: rat)" "(0 :: rat) \<le> 5" by simp_all
  show ?thesis using probability_of_future_arrival_decays[OF step_exp_ok b] by blast
qed

lemma CacheStat_append_data:
  "dict_get (cs_stat (CacheStat_append st k v)) key =
     (if key = k then Some (dict_get_default (cs_stat st) k [] @ [v]) else dict_get (cs_stat st) key)"
  by (simp add: CacheStat_append_def Let_def)

lemma CacheStat_appends:
  "CacheStat_ok st \<Longrightarrow> CacheStat_ok (fold (\<lambda>(k, v) s. CacheStat_append s k v) kvs st) \<and>
   dict_get_default (cs_stat (fold (\<lambda>(k, v) s. CacheStat_append s k v) kvs st)) key [] =
     dict_get_default (cs_stat st) key [] @ map snd (filter (\<lambda>kv. fst kv = key) kvs)"
proof (induction kvs arbitrary: st)
  case (Cons kv kvs)
  obtain k v where "kv = (k, v)" by (cases kv)
  with Cons.IH[OF CacheStat_ok_append[OF Cons.prems, of k v]] show ?case
    by (auto simp: dict_get_default_def CacheStat_append_data)
qed simp

text \<open>
  The running average of the survival statistics is the exact mean: after any sequence of
  appended values, the average kept for a key is the arithmetic mean of all values appended for
  it, and 1 when there are none.
\<close>

theorem CacheStat_average_is_mean:
  "CacheStat_get_average (fold (\<lambda>(k, v) s. CacheStat_append s k v) kvs CacheStat_init) key =
     (let data = map snd (filter (\<lambda>kv. fst kv = key) kvs) in if data = [] then 1 else mean_of data)"
proof -
  let ?s = "fold (\<lambda>(k, v) s. CacheStat_append s k v) kvs CacheStat_init"
  have ok: "CacheStat_ok ?s" and d: "dict_get_default (cs_stat ?s) key [] = map snd (filter (\<lambda>kv. fst kv = key) kvs)"
    using CacheStat_appends[OF CacheStat_ok_init, of kvs key] by (simp_all add: CacheStat_init_def dict_get_default_def)
  show ?thesis
  proof (cases "dict_get (cs_stat ?s) key")
    case None
    then show ?thesis using ok d by (simp add: CacheStat_get_average_def CacheStat_ok_def dict_get_default_def)
  next
    case (Some data)
    then have "data \<noteq> []" using ok by (auto simp: CacheStat_ok_def)
    then show ?thesis using ok d Some
      by (simp add: CacheStat_get_average_def CacheStat_ok_def dict_get_default_def Let_def)
  qed
qed

end
