(* ===== verification/Heapq.thy ===== *)
theory Heapq
  imports Prelude "HOL-Library.Multiset"
begin

text \<open>
  The standard library's heapq, at the level its documentation promises: pushing adds an
  element, popping takes out a smallest one and raises IndexError on an empty heap, heapify
  keeps the elements. The array layout of the heap is never looked at by the evictors, so a
  heap is kept as the sorted list of its elements.
\<close>

locale min_heap =
  fixes items :: "'h \<Rightarrow> ('a::linorder) multiset"
    and good :: "'h \<Rightarrow> bool"
    and push :: "'a \<Rightarrow> 'h \<Rightarrow> 'h"
    and pop :: "'h \<Rightarrow> ('a \<times> 'h) result"
    and build :: "'a list \<Rightarrow> 'h"
  assumes items_push: "items (push x h) = add_mset x (items h)"
    and good_push: "good h \<Longrightarrow> good (push x h)"
    and items_build: "items (build xs) = mset xs"
    and good_build: "good (build xs)"
    and pop_empty: "items h = {#} \<Longrightarrow> pop h = Inl IndexError"
    and pop_min: "good h \<Longrightarrow> items h \<noteq> {#} \<Longrightarrow>
      \<exists>x h'. pop h = Inr (x, h') \<and> good h' \<and> items h = add_mset x (items h') \<and> (\<forall>y \<in># items h. x \<le> y)"
begin

lemma pop_Inr:
  assumes "good h" "pop h = Inr (x, h')"
  shows "good h'" "items h = add_mset x (items h')" "y \<in># items h \<Longrightarrow> x \<le> y"
proof -
  have "items h \<noteq> {#}" using assms(2) pop_empty[of h] by auto
  from pop_min[OF assms(1) this] assms(2)
  show "good h'" "items h = add_mset x (items h')" "y \<in># items h \<Longrightarrow> x \<le> y" by auto
qed

lemma pop_push_min:
  assumes "good h" "pop (push x h) = Inr (y, h')"
  shows "y \<le> x"
  using pop_Inr(3)[OF good_push[OF assms(1)] assms(2), of x] by (simp add: items_push)

lemma size_pop: "good h \<Longrightarrow> pop h = Inr (x, h') \<Longrightarrow> size (items h) = Suc (size (items h'))"
  using pop_Inr(2) by fastforce

end

definition heappush :: "('a::linorder) \<Rightarrow> 'a list \<Rightarrow> 'a list" where
  "heappush x q = insort x q"

definition heappop :: "'a list \<Rightarrow> ('a \<times> 'a list) result" where
  "heappop q = (case q of [] \<Rightarrow> Inl IndexError | x # xs \<Rightarrow> Inr (x, xs))"

definition heapify :: "('a::linorder) list \<Rightarrow> 'a list" where
  "heapify xs = sort xs"

interpretation hq: min_heap mset sorted heappush heappop heapify
  by unfold_locales
    (auto simp: heappush_def heappop_def heapify_def sorted_insort split: list.splits)

lemma set_heappush [simp]: "set (heappush x q) = insert x (set q)"
  by (simp add: heappush_def set_insort_key)

lemma set_heapify [simp]: "set (heapify xs) = set xs"
  by (simp add: heapify_def)

lemma length_heappush [simp]: "length (heappush x q) = Suc (length q)"
  by (simp add: heappush_def)

lemma length_heapify [simp]: "length (heapify xs) = length xs"
  by (simp add: heapify_def)

end
