(* ===== verification/LRU_Evictor.thy ===== *)
theory LRU_Evictor
  imports Evictor_Base Heapq
begin

text \<open>
  The class LRUEvictor of vllm/core/evictor.py: a table of free blocks and a priority queue
  whose entries are never deleted when a block leaves or is touched, but filtered out when
  they are popped (lazy deletion), with a cleanup that bounds the queue.
\<close>

type_synonym lru_entry = "rat \<times> int \<times> int \<times> int"

record LRUEvictor =
  lru_free_table :: "(int, BlockMetaData) dict"
  lru_priority_queue :: "lru_entry list"
  lru_stat :: CacheStat

definition CLEANUP_THRESHOLD :: nat where
  "CLEANUP_THRESHOLD = 50"

definition LRUEvictor_init :: LRUEvictor where
  "LRUEvictor_init = \<lparr>lru_free_table = [], lru_priority_queue = [], lru_stat = CacheStat_init\<rparr>"

definition LRUEvictor_contains :: "LRUEvictor \<Rightarrow> int \<Rightarrow> bool" where
  "LRUEvictor_contains e block_id = dict_has (lru_free_table e) block_id"

definition LRUEvictor_num_blocks :: "LRUEvictor \<Rightarrow> nat" where
  "LRUEvictor_num_blocks e = length (lru_free_table e)"

fun LRUEvictor_evict_loop ::
    "rat \<Rightarrow> LRUEvictor \<Rightarrow> lru_entry list \<Rightarrow> ((int \<times> int) \<times> LRUEvictor) result" where
  "LRUEvictor_evict_loop now e [] = Inl ValueError"
| "LRUEvictor_evict_loop now e ((last_accessed, _, block_id, content_hash) # q) =
     (case dict_get (lru_free_table e) block_id of
        Some block \<Rightarrow>
          (if bm_last_accessed block = last_accessed
           then Inr ((block_id, content_hash),
                  e\<lparr>lru_free_table := dict_pop block_id (lru_free_table e),
                    lru_priority_queue := q,
                    lru_stat := CacheStat_append (lru_stat e) ''survival_times''
                      (now - bm_last_accessed block)\<rparr>)
           else LRUEvictor_evict_loop now e q)
      | None \<Rightarrow> LRUEvictor_evict_loop now e q)"

definition LRUEvictor_evict :: "rat \<Rightarrow> LRUEvictor \<Rightarrow> ((int \<times> int) \<times> LRUEvictor) result" where
  "LRUEvictor_evict now e =
     (if length (lru_free_table e) = 0 then Inl ValueError
      else LRUEvictor_evict_loop now e (lru_priority_queue e))"

definition lru_entry_of :: "int \<times> BlockMetaData \<Rightarrow> lru_entry" where
  "lru_entry_of bm = (bm_last_accessed (snd bm), - bm_num_hashed_tokens (snd bm), fst bm,
     bm_content_hash (snd bm))"

definition LRUEvictor_cleanup :: "LRUEvictor \<Rightarrow> LRUEvictor" where
  "LRUEvictor_cleanup e = e\<lparr>lru_priority_queue := heapify (map lru_entry_of (lru_free_table e))\<rparr>"

definition LRUEvictor_cleanup_if_necessary :: "LRUEvictor \<Rightarrow> LRUEvictor" where
  "LRUEvictor_cleanup_if_necessary e =
     (if length (lru_priority_queue e) > CLEANUP_THRESHOLD * length (lru_free_table e)
      then LRUEvictor_cleanup e else e)"

definition LRUEvictor_add ::
    "LRUEvictor \<Rightarrow> int \<Rightarrow> int \<Rightarrow> int \<Rightarrow> rat \<Rightarrow> cache_hint option \<Rightarrow> LRUEvictor" where
  "LRUEvictor_add e block_id content_hash num_hashed_tokens last_accessed cache_hint =
     LRUEvictor_cleanup_if_necessary
       (e\<lparr>lru_free_table := dict_set block_id
            \<lparr>bm_content_hash = content_hash, bm_num_hashed_tokens = num_hashed_tokens,
             bm_last_accessed = last_accessed, bm_cache_hint = cache_hint, bm_score = 0\<rparr>
            (lru_free_table e),
          lru_priority_queue := heappush
            (last_accessed, - num_hashed_tokens, block_id, content_hash) (lru_priority_queue e)\<rparr>)"

definition LRUEvictor_update ::
    "LRUEvictor \<Rightarrow> int \<Rightarrow> rat \<Rightarrow> cache_hint option \<Rightarrow> LRUEvictor result" where
  "LRUEvictor_update e block_id last_accessed cache_hint =
     (case cache_hint of None \<Rightarrow> Inl TypeError
      | Some hint \<Rightarrow>
          res_bind (dict_item (lru_free_table e) block_id) (\<lambda>block.
            let block' = (if ch_use_fifo hint = None \<or> ch_use_fifo hint = Some 0
                          then block\<lparr>bm_last_accessed := last_accessed\<rparr> else block)
            in Inr (e\<lparr>lru_free_table := dict_set block_id
                        (block'\<lparr>bm_cache_hint := cache_hint\<rparr>) (lru_free_table e)\<rparr>)))"

definition LRUEvictor_remove :: "LRUEvictor \<Rightarrow> int \<Rightarrow> LRUEvictor result" where
  "LRUEvictor_remove e block_id =
     (if dict_has (lru_free_table e) block_id
      then Inr (e\<lparr>lru_free_table := dict_pop block_id (lru_free_table e)\<rparr>)
      else Inl ValueError)"

section \<open>Invariant\<close>

text \<open>
  The queue is sorted, every waiting block has its current entry in it, and an entry that
  carries a block's current access time is that block's current entry.
\<close>

definition lru_queue_sound :: "(int, BlockMetaData) dict \<Rightarrow> lru_entry list \<Rightarrow> bool" where
  "lru_queue_sound ft q \<longleftrightarrow>
     (\<forall>b m. dict_get ft b = Some m \<longrightarrow> lru_entry_of (b, m) \<in> set q \<and>
        (\<forall>n h. (bm_last_accessed m, n, b, h) \<in> set q \<longrightarrow>
           n = - bm_num_hashed_tokens m \<and> h = bm_content_hash m))"

definition lru_inv :: "LRUEvictor \<Rightarrow> bool" where
  "lru_inv e \<longleftrightarrow> dict_ok (lru_free_table e) \<and> sorted (lru_priority_queue e) \<and>
     lru_queue_sound (lru_free_table e) (lru_priority_queue e) \<and> CacheStat_ok (lru_stat e)"

definition lru_view :: "LRUEvictor \<Rightarrow> int \<rightharpoonup> int" where
  "lru_view e = hash_view (lru_free_table e)"

definition lru_can_add ::
    "LRUEvictor \<Rightarrow> int \<Rightarrow> int \<Rightarrow> int \<Rightarrow> rat \<Rightarrow> cache_hint option \<Rightarrow> bool" where
  "lru_can_add e b h n t c \<longleftrightarrow>
     (\<forall>(t', n', b', h') \<in> set (lru_priority_queue e). t' = t \<and> b' = b \<longrightarrow> n' = - n \<and> h' = h)"

lemma lru_inv_init: "lru_inv LRUEvictor_init"
  by (simp add: lru_inv_def LRUEvictor_init_def lru_queue_sound_def CacheStat_ok_init)

lemma lru_queue_sound_rebuild:
  assumes "dict_ok ft"
  shows "lru_queue_sound ft (heapify (map lru_entry_of ft))"
  unfolding lru_queue_sound_def
proof (intro allI impI conjI)
  fix b m
  assume m: "dict_get ft b = Some m"
  then show "lru_entry_of (b, m) \<in> set (heapify (map lru_entry_of ft))"
    by (auto dest: map_of_SomeD)
  fix n h
  assume "(bm_last_accessed m, n, b, h) \<in> set (heapify (map lru_entry_of ft))"
  then obtain m' where "dict_get ft b = Some m'" "n = - bm_num_hashed_tokens m'" "h = bm_content_hash m'"
    using assms by (auto simp: lru_entry_of_def dict_get_mem)
  then show "n = - bm_num_hashed_tokens m" "h = bm_content_hash m" using m by auto
qed

lemma lru_inv_cleanup: "lru_inv e \<Longrightarrow> lru_inv (LRUEvictor_cleanup e)"
  using hq.good_build lru_queue_sound_rebuild
  by (auto simp: lru_inv_def LRUEvictor_cleanup_def)

lemma cleanup_frame [simp]:
  "lru_free_table (LRUEvictor_cleanup e) = lru_free_table e"
  "lru_free_table (LRUEvictor_cleanup_if_necessary e) = lru_free_table e"
  by (simp_all add: LRUEvictor_cleanup_def LRUEvictor_cleanup_if_necessary_def)

lemma lru_inv_cleanup_if: "lru_inv e \<Longrightarrow> lru_inv (LRUEvictor_cleanup_if_necessary e)"
  by (simp add: LRUEvictor_cleanup_if_necessary_def lru_inv_cleanup)

lemma lru_queue_sound_add:
  "lru_queue_sound ft q \<Longrightarrow>
   \<forall>(t', n', b', h') \<in> set q. t' = t \<and> b' = b \<longrightarrow> n' = - n \<and> h' = h \<Longrightarrow>
   bm_last_accessed m = t \<Longrightarrow> bm_num_hashed_tokens m = n \<Longrightarrow> bm_content_hash m = h \<Longrightarrow>
   lru_queue_sound (dict_set b m ft) (heappush (t, - n, b, h) q)"
  by (fastforce simp: lru_queue_sound_def lru_entry_of_def)

lemma lru_inv_add:
  assumes "lru_inv e" "lru_can_add e b h n t c"
  shows "lru_inv (LRUEvictor_add e b h n t c)"
  unfolding LRUEvictor_add_def
  using assms lru_queue_sound_add hq.good_push
  by (intro lru_inv_cleanup_if) (auto simp: lru_inv_def lru_can_add_def)

lemma lru_view_add: "lru_view (LRUEvictor_add e b h n t c) = (lru_view e)(b \<mapsto> h)"
  by (simp add: lru_view_def LRUEvictor_add_def hash_view_set)

lemma lru_queue_sound_pop: "lru_queue_sound ft q \<Longrightarrow> lru_queue_sound (dict_pop b ft) q"
  by (auto simp: lru_queue_sound_def)

lemma lru_evict_loop_ok:
  assumes "lru_queue_sound (lru_free_table e) q" "sorted q" "lru_free_table e \<noteq> []"
    "dict_ok (lru_free_table e)"
  shows "\<exists>b m q'. LRUEvictor_evict_loop now e q = Inr ((b, bm_content_hash m),
            e\<lparr>lru_free_table := dict_pop b (lru_free_table e), lru_priority_queue := q',
              lru_stat := CacheStat_append (lru_stat e) ''survival_times''
                (now - bm_last_accessed m)\<rparr>) \<and>
           dict_get (lru_free_table e) b = Some m \<and> sorted q' \<and>
           lru_queue_sound (dict_pop b (lru_free_table e)) q' \<and>
           (\<forall>b' m'. dict_get (lru_free_table e) b' = Some m' \<longrightarrow>
              lru_entry_of (b, m) \<le> lru_entry_of (b', m'))"
  using assms
proof (induction q)
  case Nil
  then obtain b m where "(b, m) \<in> set (lru_free_table e)"
    by (metis list.set_intros(1) neq_Nil_conv surj_pair)
  then show ?case using Nil by (auto simp: lru_queue_sound_def dict_get_mem)
next
  case (Cons x q)
  obtain t n b h where x: "x = (t, n, b, h)" by (cases x)
  show ?case
  proof (cases "\<exists>m. dict_get (lru_free_table e) b = Some m \<and> bm_last_accessed m = t")
    case True
    then obtain m where m: "dict_get (lru_free_table e) b = Some m" "bm_last_accessed m = t" by blast
    then have nh: "n = - bm_num_hashed_tokens m" "h = bm_content_hash m"
      using Cons.prems(1) x by (auto simp: lru_queue_sound_def)
    have least: "lru_entry_of (b, m) \<le> lru_entry_of (b', m')"
      if "dict_get (lru_free_table e) b' = Some m'" for b' m'
    proof -
      have "lru_entry_of (b', m') \<in> set (x # q)"
        using that Cons.prems(1) by (auto simp: lru_queue_sound_def)
      moreover have "lru_entry_of (b, m) = x" using m nh x by (simp add: lru_entry_of_def)
      ultimately show ?thesis using Cons.prems(2) by auto
    qed
    have "lru_queue_sound (dict_pop b (lru_free_table e)) q"
      using Cons.prems(1) x by (fastforce simp: lru_queue_sound_def lru_entry_of_def)
    then show ?thesis using m nh x least Cons.prems(2) by auto
  next
    case False
    then have "lru_queue_sound (lru_free_table e) q"
      using Cons.prems(1) x by (fastforce simp: lru_queue_sound_def lru_entry_of_def)
    moreover have "LRUEvictor_evict_loop now e (x # q) = LRUEvictor_evict_loop now e q"
      using False x by (auto split: option.splits)
    ultimately show ?thesis using Cons by simp
  qed
qed

lemma LRUEvictor_evict_ok:
  assumes "lru_inv e" "lru_free_table e \<noteq> []"
  obtains b m e' where "LRUEvictor_evict now e = Inr ((b, bm_content_hash m), e')" "lru_inv e'"
    "dict_get (lru_free_table e) b = Some m"
    "lru_free_table e' = dict_pop b (lru_free_table e)"
    "\<And>b' m'. dict_get (lru_free_table e) b' = Some m' \<Longrightarrow> lru_entry_of (b, m) \<le> lru_entry_of (b', m')"
  using lru_evict_loop_ok[of e "lru_priority_queue e" now] assms
  by (fastforce simp: LRUEvictor_evict_def lru_inv_def CacheStat_ok_append)

lemma lru_view_empty: "lru_view e = Map.empty \<longleftrightarrow> lru_free_table e = []"
  using dom_hash_view[of "lru_free_table e"] by (auto simp: lru_view_def hash_view_Nil)

interpretation lru: evictor_contract lru_view lru_inv LRUEvictor_contains LRUEvictor_num_blocks
  lru_can_add "\<lambda>now e b h n t c. Inr (LRUEvictor_add e b h n t c)" LRUEvictor_remove LRUEvictor_evict
proof (unfold_locales, goal_cases)
  case (1 e b)
  then show ?case by (simp add: LRUEvictor_contains_def lru_view_def hash_view_None)
next
  case (2 e)
  then show ?case by (simp add: lru_view_def dom_hash_view)
next
  case (3 e)
  then show ?case
    by (simp add: lru_view_def dom_hash_view LRUEvictor_num_blocks_def lru_inv_def dict_length_card)
next
  case (4 e b h n t c now)
  then show ?case by (simp add: lru_inv_add lru_view_add)
next
  case (5 e b)
  then show ?case
    by (auto simp: LRUEvictor_remove_def lru_view_def hash_view_simps lru_inv_def lru_queue_sound_pop)
next
  case (6 e b)
  then show ?case by (simp add: LRUEvictor_remove_def lru_view_def hash_view_None)
next
  case (7 e now)
  then have "lru_free_table e \<noteq> []" by (simp add: lru_view_empty)
  from LRUEvictor_evict_ok[OF 7(1) this, of now] show ?case
    by (metis hash_view_def hash_view_pop lru_view_def option.simps(9))
next
  case (8 e now)
  then show ?case by (simp add: lru_view_empty LRUEvictor_evict_def)
qed

section \<open>Properties\<close>

text \<open>
  C31. In every state the evictor's invariant describes, evicting from a non-empty table
  succeeds, returns a block of the table with its own content hash, removes exactly that
  block and keeps the invariant; the victim has the oldest access time, and among the blocks
  with that time one with the most hashed tokens.
\<close>

theorem LRUEvictor_evict_least_recently_used:
  assumes "lru_inv e" "lru_free_table e \<noteq> []"
  shows "\<exists>b m e'. LRUEvictor_evict now e = Inr ((b, bm_content_hash m), e') \<and>
           dict_get (lru_free_table e) b = Some m \<and> lru_inv e' \<and>
           lru_free_table e' = dict_pop b (lru_free_table e) \<and>
           (\<forall>b' m'. dict_get (lru_free_table e) b' = Some m' \<longrightarrow>
              bm_last_accessed m < bm_last_accessed m' \<or>
              bm_last_accessed m = bm_last_accessed m' \<and>
                bm_num_hashed_tokens m' \<le> bm_num_hashed_tokens m)"
proof -
  obtain b m e' where r: "LRUEvictor_evict now e = Inr ((b, bm_content_hash m), e')" "lru_inv e'"
    "dict_get (lru_free_table e) b = Some m" "lru_free_table e' = dict_pop b (lru_free_table e)"
    and least: "\<And>b' m'. dict_get (lru_free_table e) b' = Some m' \<Longrightarrow>
      lru_entry_of (b, m) \<le> lru_entry_of (b', m')"
    using LRUEvictor_evict_ok[OF assms] by blast
  have "bm_last_accessed m < bm_last_accessed m' \<or>
      bm_last_accessed m = bm_last_accessed m' \<and> bm_num_hashed_tokens m' \<le> bm_num_hashed_tokens m"
    if "dict_get (lru_free_table e) b' = Some m'" for b' m'
    using least[OF that] by (auto simp: lru_entry_of_def)
  with r show ?thesis by blast
qed

definition lru_example :: LRUEvictor where
  "lru_example = LRUEvictor_add (LRUEvictor_add LRUEvictor_init 7 70 16 5 None) 8 80 16 3 None"

lemma lru_example_inv: "lru_inv lru_example"
  unfolding lru_example_def
  by (intro lru_inv_add lru_inv_init)
    (auto simp: lru_can_add_def LRUEvictor_init_def LRUEvictor_add_def CLEANUP_THRESHOLD_def
      LRUEvictor_cleanup_if_necessary_def)

theorem LRUEvictor_evict_least_recently_used_witness:
  "\<exists>b m e'. LRUEvictor_evict 9 lru_example = Inr ((b, bm_content_hash m), e') \<and>
     dict_get (lru_free_table lru_example) b = Some m \<and> lru_inv e'"
proof -
  have "lru_free_table lru_example \<noteq> []" by code_simp
  from LRUEvictor_evict_least_recently_used[OF lru_example_inv this, of 9] show ?thesis by blast
qed

text \<open>
  Lazy deletion and memory: after every insertion the priority queue holds at most
  CLEANUP_THRESHOLD entries per block that waits in the table.
\<close>

theorem LRUEvictor_queue_bounded:
  "length (lru_priority_queue (LRUEvictor_add e b h n t c)) \<le>
     CLEANUP_THRESHOLD * length (lru_free_table (LRUEvictor_add e b h n t c))"
  by (auto simp: LRUEvictor_add_def LRUEvictor_cleanup_if_necessary_def LRUEvictor_cleanup_def
      CLEANUP_THRESHOLD_def)

text \<open>
  C32. Updating a waiting block's access time leaves no matching queue entry: the next
  eviction fails with ValueError although a block still waits.
\<close>

theorem LRUEvictor_update_strands_block:
  assumes "t \<noteq> t'" "ch_use_fifo hint = None"
  shows "\<exists>e. LRUEvictor_update (LRUEvictor_add LRUEvictor_init b h n t c) b t' (Some hint) = Inr e \<and>
           LRUEvictor_num_blocks e = 1 \<and> LRUEvictor_evict now e = Inl ValueError"
  using assms
  by (simp add: LRUEvictor_update_def LRUEvictor_add_def LRUEvictor_init_def heappush_def
      LRUEvictor_cleanup_if_necessary_def CLEANUP_THRESHOLD_def dict_item_def
      LRUEvictor_evict_def LRUEvictor_num_blocks_def)

theorem LRUEvictor_update_strands_block_witness:
  "\<exists>e. LRUEvictor_update (LRUEvictor_add LRUEvictor_init 7 70 16 5 None) 7 6 (Some empty_hint) = Inr e \<and>
     LRUEvictor_num_blocks e = 1 \<and> LRUEvictor_evict 9 e = Inl ValueError"
  by (rule LRUEvictor_update_strands_block) (simp_all add: empty_hint_def)

end
