(* ===== verification/PDP_Distance.thy ===== *)
theory PDP_Distance
  imports Evictor_Base "HOL-Library.Multiset"
begin

text \<open>
  The arithmetic of the protecting-distance policy. vllm/core/evictor.py has three copies of
  it (PDPEvictor, ShadowPolicyCache and LRUMLEvictor), which differ only in the attributes
  they read: the bucketing of a reuse distance and the sweep that picks the next protecting
  distance. The sweep is shown to return the first maximiser of its score.
\<close>

definition py_floordiv :: "int \<Rightarrow> int \<Rightarrow> int result" where
  "py_floordiv a b = (if b = 0 then Inl ZeroDivisionError else Inr (a div b))"

definition py_mod :: "int \<Rightarrow> int \<Rightarrow> int result" where
  "py_mod a b = (if b = 0 then Inl ZeroDivisionError else Inr (a mod b))"

definition py_range :: "int \<Rightarrow> int \<Rightarrow> int \<Rightarrow> int list result" where
  "py_range start stop step =
     (if step = 0 then Inl ValueError
      else let n = (if step > 0 then (stop - start + step - 1) div step
                    else (start - stop - step - 1) div (- step))
           in Inr (map (\<lambda>i. start + int i * step) [0..<nat n]))"

definition bucket_distance :: "int \<Rightarrow> int \<Rightarrow> int \<Rightarrow> int result" where
  "bucket_distance max_distance bucket_size distance0 =
     (let distance = max 1 (min distance0 max_distance)
      in if bucket_size = 1 then Inr distance
         else res_bind (py_floordiv (distance + bucket_size - 1) bucket_size)
                (\<lambda>q. Inr (min max_distance (q * bucket_size))))"

fun consume_distances ::
    "int \<Rightarrow> (int \<times> int) list \<Rightarrow> int \<Rightarrow> int \<Rightarrow> int \<times> int \<times> (int \<times> int) list" where
  "consume_distances distance [] hits cost = (hits, cost, [])"
| "consume_distances distance ((reuse_distance, cnt) # ds) hits cost =
     (if reuse_distance \<le> distance
      then consume_distances distance ds (hits + cnt) (cost + reuse_distance * cnt)
      else (hits, cost, (reuse_distance, cnt) # ds))"

definition distance_score :: "int \<Rightarrow> int \<Rightarrow> int \<Rightarrow> int \<Rightarrow> int \<Rightarrow> rat" where
  "distance_score tot eviction_distance hits cost distance =
     (let misses = max 0 (tot - hits);
          denominator = cost + misses * (distance + eviction_distance)
      in if denominator > 0 then rat_of_int hits / rat_of_int denominator else 0)"

fun distance_sweep ::
    "int \<Rightarrow> int \<Rightarrow> int list \<Rightarrow> (int \<times> int) list \<Rightarrow> int \<Rightarrow> int \<Rightarrow> int \<Rightarrow> rat \<Rightarrow> int" where
  "distance_sweep tot ev [] ds hits cost best_distance best_score = best_distance"
| "distance_sweep tot ev (distance # rest) ds hits cost best_distance best_score =
     (case consume_distances distance ds hits cost of (hits', cost', ds') \<Rightarrow>
        (let score = distance_score tot ev hits' cost' distance
         in if score > best_score
            then distance_sweep tot ev rest ds' hits' cost' distance score
            else distance_sweep tot ev rest ds' hits' cost' best_distance best_score))"

definition recompute_distance ::
    "int \<Rightarrow> int \<Rightarrow> int \<Rightarrow> int \<Rightarrow> (int, int) dict \<Rightarrow> int \<Rightarrow> int result" where
  "recompute_distance max_distance bucket_size eviction_distance tot counts protecting_distance =
     (if counts = [] \<or> tot = 0 then Inr protecting_distance
      else res_bind (py_range 1 (max_distance + 1) bucket_size) (\<lambda>rng.
        Inr (distance_sweep tot eviction_distance rng (sort counts) 0 0 protecting_distance (-1))))"

section \<open>Reference definition of the score\<close>

definition reuse_hits :: "(int \<times> int) list \<Rightarrow> int \<Rightarrow> int" where
  "reuse_hits counts d = (\<Sum>(rd, c) \<leftarrow> filter (\<lambda>(rd, c). rd \<le> d) counts. c)"

definition reuse_cost :: "(int \<times> int) list \<Rightarrow> int \<Rightarrow> int" where
  "reuse_cost counts d = (\<Sum>(rd, c) \<leftarrow> filter (\<lambda>(rd, c). rd \<le> d) counts. rd * c)"

definition reference_score :: "int \<Rightarrow> int \<Rightarrow> (int \<times> int) list \<Rightarrow> int \<Rightarrow> rat" where
  "reference_score tot ev counts d =
     distance_score tot ev (reuse_hits counts d) (reuse_cost counts d) d"

lemma bucket_distance_range:
  assumes "1 \<le> max_distance" "1 \<le> bucket_size"
  shows "\<exists>d. bucket_distance max_distance bucket_size x = Inr d \<and> 1 \<le> d \<and> d \<le> max_distance \<and>
           min x max_distance \<le> d"
proof -
  let ?d = "max 1 (min x max_distance)"
  let ?q = "(?d + bucket_size - 1) div bucket_size"
  have "?q * bucket_size + (?d + bucket_size - 1) mod bucket_size = ?d + bucket_size - 1"
    by (rule div_mult_mod_eq)
  moreover have "(?d + bucket_size - 1) mod bucket_size < bucket_size" using assms(2) by simp
  ultimately have "?d + bucket_size - 1 < ?q * bucket_size + bucket_size" by linarith
  then have "?d \<le> ?q * bucket_size" by linarith
  then show ?thesis using assms by (auto simp: bucket_distance_def py_floordiv_def Let_def)
qed

section \<open>The sweep computes the reference score\<close>

definition pending :: "int \<Rightarrow> (int \<times> int) list \<Rightarrow> (int \<times> int) list" where
  "pending d ds = filter (\<lambda>(rd, c). d < rd) ds"

lemma sorted_pending: "sorted ds \<Longrightarrow> sorted (pending d ds)"
  by (simp add: pending_def sorted_wrt_filter)

lemma consume_distances_eq:
  "sorted ds \<Longrightarrow> consume_distances d ds hits cost =
     (hits + reuse_hits ds d, cost + reuse_cost ds d, pending d ds)"
proof (induction d ds hits cost rule: consume_distances.induct)
  case (2 d rd c ds hits cost)
  show ?case
  proof (cases "rd \<le> d")
    case False
    then have "\<forall>y \<in> set ((rd, c) # ds). d < fst y" using 2(2) by fastforce
    then have "filter (\<lambda>(rd, c). rd \<le> d) ((rd, c) # ds) = []" "pending d ((rd, c) # ds) = (rd, c) # ds"
      by (auto simp: pending_def filter_empty_conv filter_id_conv split_beta)
    then show ?thesis using False unfolding reuse_hits_def reuse_cost_def by simp
  qed (use 2 in \<open>auto simp: reuse_hits_def reuse_cost_def pending_def\<close>)
qed (simp add: reuse_hits_def reuse_cost_def pending_def)

lemma reuse_split:
  assumes "d0 \<le> d"
  shows "reuse_hits ds d0 + reuse_hits (pending d0 ds) d = reuse_hits ds d"
    "reuse_cost ds d0 + reuse_cost (pending d0 ds) d = reuse_cost ds d"
  using assms by (induction ds) (auto simp: reuse_hits_def reuse_cost_def pending_def)

lemma pending_pending: "d0 \<le> d \<Longrightarrow> pending d (pending d0 ds) = pending d ds"
  by (induction ds) (auto simp: pending_def)

text \<open>The running state of the sweep after distance \<open>d0\<close> holds exactly the sums up to it.\<close>

lemma distance_sweep_eq:
  assumes "sorted ds" "sorted rng" "\<forall>d \<in> set rng. d0 \<le> d"
    "best_score = reference_score tot ev ds best \<or> (\<forall>d \<in> set rng. best_score < reference_score tot ev ds d)"
  shows "distance_sweep tot ev rng (pending d0 ds) (reuse_hits ds d0) (reuse_cost ds d0) best best_score =
         (if best_score = reference_score tot ev ds best
          then max_from (reference_score tot ev ds) best rng
          else case rng of [] \<Rightarrow> best | d # rest \<Rightarrow> max_from (reference_score tot ev ds) d rest)"
  using assms
proof (induction rng arbitrary: d0 best best_score)
  case (Cons d rng)
  let ?ref = "reference_score tot ev ds"
  have d: "d0 \<le> d" using Cons.prems(3) by simp
  have c: "consume_distances d (pending d0 ds) (reuse_hits ds d0) (reuse_cost ds d0)
      = (reuse_hits ds d, reuse_cost ds d, pending d ds)"
    by (simp add: consume_distances_eq sorted_pending Cons.prems(1) reuse_split[OF d] pending_pending[OF d])
  have IH: "distance_sweep tot ev rng (pending d ds) (reuse_hits ds d)
      (reuse_cost ds d) b (?ref b) = max_from ?ref b rng" for b
    using Cons.IH[of d "?ref b" b] Cons.prems by simp
  have step: "distance_sweep tot ev (d # rng) (pending d0 ds) (reuse_hits ds d0) (reuse_cost ds d0) best best_score =
      (if best_score < ?ref d then max_from ?ref d rng
       else distance_sweep tot ev rng (pending d ds) (reuse_hits ds d) (reuse_cost ds d) best best_score)"
    using IH[of d] by (simp add: c Let_def flip: reference_score_def)
  show ?case
  proof (cases "best_score = ?ref best")
    case True
    then show ?thesis using step IH[of best] by (simp del: distance_sweep.simps)
  next
    case False
    then have "best_score < ?ref d" using Cons.prems(4) by simp
    then show ?thesis using step False by (simp del: distance_sweep.simps)
  qed
qed simp

lemma reference_score_sort: "reference_score tot ev (sort counts) = reference_score tot ev counts"
proof -
  have s: "sum_list (map f (filter P (sort counts))) = sum_list (map f (filter P counts))"
    for f :: "int \<times> int \<Rightarrow> int" and P
    by (metis (no_types) filter_sort mset_map mset_sort sum_mset_sum_list)
  show ?thesis unfolding reference_score_def reuse_hits_def reuse_cost_def s ..
qed

lemma distance_score_nonneg: "0 \<le> hits \<Longrightarrow> 0 \<le> distance_score tot ev hits cost d"
  by (auto simp: distance_score_def Let_def simp del: of_int_add of_int_mult intro!: divide_nonneg_pos)

lemma reference_score_nonneg:
  assumes "\<forall>(rd, c) \<in> set counts. 0 \<le> c"
  shows "0 \<le> reference_score tot ev counts d"
proof -
  have "0 \<le> reuse_hits counts d"
    using assms by (auto simp: reuse_hits_def intro!: sum_list_nonneg)
  then show ?thesis by (simp add: reference_score_def distance_score_nonneg)
qed

lemma py_range_pos:
  assumes "1 \<le> step" "1 \<le> m"
  obtains rng where "py_range 1 (m + 1) step = Inr (1 # rng)" "sorted (1 # rng)"
    "\<forall>d \<in> set (1 # rng). 1 \<le> d \<and> d \<le> m"
proof -
  let ?n = "nat ((m + 1 - 1 + step - 1) div step)"
  let ?l = "map (\<lambda>i. 1 + int i * step) [0..<?n]"
  have "1 \<le> (m + 1 - 1 + step - 1) div step"
    using assms zdiv_mono1[of step "m + 1 - 1 + step - 1" step] by simp
  then have n: "1 \<le> ?n" by simp
  have "[0..<?n] = 0 # [1..<?n]" using n by (simp add: upt_conv_Cons)
  then have l: "?l = 1 # map (\<lambda>i. 1 + int i * step) [1..<?n]" by simp
  have srt: "sorted ?l" using assms(1)
    by (simp add: sorted_iff_nth_mono mult_right_mono)
  have up: "1 + int i * step \<le> m" if "i < ?n" for i
  proof -
    have "int i + 1 \<le> (m + step - 1) div step" using that by auto
    then have "(int i + 1) * step \<le> (m + step - 1) div step * step"
      using assms(1) by (simp add: mult_right_mono)
    also have "\<dots> \<le> m + step - 1"
      using div_mult_mod_eq[of "m + step - 1" step] pos_mod_sign[of step "m + step - 1"] assms(1)
      by linarith
    finally show ?thesis by (simp add: distrib_right)
  qed
  have "\<forall>d \<in> set ?l. 1 \<le> d \<and> d \<le> m" using up assms(1) by auto
  moreover have "py_range 1 (m + 1) step = Inr ?l" using assms by (simp add: py_range_def)
  ultimately show ?thesis
    using that[of "map (\<lambda>i. 1 + int i * step) [1..<?n]"] srt unfolding l by blast
qed

lemma recompute_distance_eq:
  assumes "1 \<le> bucket" "1 \<le> m" "counts \<noteq> []" "tot \<noteq> 0" "\<forall>(rd, c) \<in> set counts. 0 \<le> c \<and> 0 < rd"
  shows "\<exists>rng d. py_range 1 (m + 1) bucket = Inr rng \<and>
           recompute_distance m bucket ev tot counts pd = Inr d \<and>
           py_max (reference_score tot ev counts) rng = Inr d \<and> 1 \<le> d \<and> d \<le> m"
proof -
  obtain rng where r: "py_range 1 (m + 1) bucket = Inr (1 # rng)" "sorted (1 # rng)"
    "\<forall>d \<in> set (1 # rng). 1 \<le> d \<and> d \<le> m"
    using py_range_pos[OF assms(1,2)] .
  have pos: "(-1::rat) < reference_score tot ev counts d" for d
    using reference_score_nonneg[of counts tot ev d] assms(5) by fastforce
  have "filter (\<lambda>(rd, c). rd \<le> 0) (sort counts) = []" using assms(5) by (auto simp: filter_empty_conv)
  moreover have "pending 0 (sort counts) = sort counts"
    using assms(5) by (auto simp: filter_id_conv pending_def)
  ultimately have f: "pending 0 (sort counts) = sort counts"
    "reuse_hits (sort counts) 0 = 0" "reuse_cost (sort counts) 0 = 0"
    by (simp_all add: reuse_hits_def reuse_cost_def)
  let ?d = "max_from (reference_score tot ev counts) 1 rng"
  have "\<forall>d \<in> set (1 # rng). 0 \<le> d" using r(3) by fastforce
  then have "distance_sweep tot ev (1 # rng) (sort counts) 0 0 pd (-1) = ?d"
    using distance_sweep_eq[of "sort counts" "1 # rng" 0 "-1" tot ev pd] r(2) f pos pos[of pd]
    by (simp add: reference_score_sort del: distance_sweep.simps)
  moreover have "?d \<in> set (1 # rng)" using max_from_mem by force
  with r(3) have "1 \<le> ?d \<and> ?d \<le> m" by blast
  ultimately show ?thesis using r assms(3,4) by (simp add: recompute_distance_def del: distance_sweep.simps)
qed

section \<open>Well-formed histograms\<close>

definition counts_ok :: "int \<Rightarrow> (int, int) dict \<Rightarrow> bool" where
  "counts_ok max_distance counts \<longleftrightarrow> dict_ok counts \<and>
     (\<forall>d c. dict_get counts d = Some c \<longrightarrow> 1 \<le> d \<and> d \<le> max_distance \<and> 1 \<le> c)"

lemma counts_ok_Nil [simp]: "counts_ok m []"
  by (simp add: counts_ok_def)

lemma counts_ok_bump:
  "counts_ok m counts \<Longrightarrow> 1 \<le> d \<Longrightarrow> d \<le> m \<Longrightarrow>
   counts_ok m (dict_set d (dict_get_default counts d 0 + 1) counts)"
  by (auto simp: counts_ok_def dict_get_default_def split: option.splits) force

lemma counts_ok_nonneg: "counts_ok m counts \<Longrightarrow> \<forall>(rd, c) \<in> set counts. 0 \<le> c \<and> 0 < rd"
  by (fastforce simp: counts_ok_def dict_get_mem)

lemma recompute_distance_total:
  assumes "1 \<le> bucket" "1 \<le> m" "counts_ok m counts"
  shows "\<exists>d. recompute_distance m bucket ev tot counts pd = Inr d \<and> (0 \<le> pd \<longrightarrow> 0 \<le> d)"
proof (cases "counts = [] \<or> tot = 0")
  case True
  then show ?thesis by (simp add: recompute_distance_def)
next
  case False
  then show ?thesis
    using recompute_distance_eq[OF assms(1,2) _ _ counts_ok_nonneg[OF assms(3)], of tot ev pd]
    by (auto intro: order_trans[of 0 1])
qed

end
