(* ===== verification/PDP_Evictor.thy ===== *)
theory PDP_Evictor
  imports PDP_Distance
begin

text \<open>
  The class PDPEvictor of vllm/core/evictor.py: blocks are protected for a number of request
  epochs after an access; the protecting distance is recomputed from a histogram of observed
  reuse distances; eviction scans for the block with the least victim key.
\<close>

record PDPBlockMetaData = BlockMetaData +
  pm_first_access_epoch :: int
  pm_last_access_epoch :: int
  pm_protected_until_epoch :: int
  pm_reused :: bool

record PDPEvictor =
  pdp_free_table :: "(int, PDPBlockMetaData) dict"
  pdp_content_hash_to_block_id :: "(int, int) dict"
  pdp_last_seen_epoch :: "(int, int) dict"
  pdp_reuse_distance_counts :: "(int, int) dict"
  pdp_protecting_distance :: int
  pdp_max_distance :: int
  pdp_recompute_interval :: int
  pdp_bucket_size :: int
  pdp_eviction_distance :: int
  pdp_capacity :: int
  pdp_request_epoch :: int
  pdp_total_observed_accesses :: int
  pdp_stat :: CacheStat

definition DEFAULT_INITIAL_PD :: int where "DEFAULT_INITIAL_PD = 32"
definition DEFAULT_MAX_DISTANCE :: int where "DEFAULT_MAX_DISTANCE = 256"
definition DEFAULT_RECOMPUTE_INTERVAL :: int where "DEFAULT_RECOMPUTE_INTERVAL = 512"
definition DEFAULT_BUCKET_SIZE :: int where "DEFAULT_BUCKET_SIZE = 1"
definition DEFAULT_EVICTION_DISTANCE :: int where "DEFAULT_EVICTION_DISTANCE = 1"

definition PDPEvictor_init :: "string \<Rightarrow> PDPEvictor result" where
  "PDPEvictor_init config =
     res_bind (parse_evictor_config config) (\<lambda>cfg.
     res_bind (config_int cfg ''pdp_initial_pd'' DEFAULT_INITIAL_PD) (\<lambda>pd.
     res_bind (config_int cfg ''pdp_max_distance'' DEFAULT_MAX_DISTANCE) (\<lambda>md.
     res_bind (config_int cfg ''pdp_recompute_interval'' DEFAULT_RECOMPUTE_INTERVAL) (\<lambda>ri.
     res_bind (config_int cfg ''pdp_bucket_size'' DEFAULT_BUCKET_SIZE) (\<lambda>bs.
     res_bind (config_int cfg ''pdp_eviction_distance'' DEFAULT_EVICTION_DISTANCE) (\<lambda>ed.
     Inr \<lparr>pdp_free_table = [], pdp_content_hash_to_block_id = [], pdp_last_seen_epoch = [],
        pdp_reuse_distance_counts = [], pdp_protecting_distance = max 0 pd,
        pdp_max_distance = max 1 md, pdp_recompute_interval = max 1 ri,
        pdp_bucket_size = max 1 bs, pdp_eviction_distance = max 1 ed, pdp_capacity = 0,
        pdp_request_epoch = 0, pdp_total_observed_accesses = 0, pdp_stat = CacheStat_init\<rparr>))))))"

definition PDPEvictor_contains :: "PDPEvictor \<Rightarrow> int \<Rightarrow> bool" where
  "PDPEvictor_contains e block_id = dict_has (pdp_free_table e) block_id"

definition PDPEvictor_set_capacity :: "PDPEvictor \<Rightarrow> int \<Rightarrow> PDPEvictor" where
  "PDPEvictor_set_capacity e capacity = e\<lparr>pdp_capacity := capacity\<rparr>"

definition PDPEvictor_should_predict_cache_hint :: "PDPEvictor \<Rightarrow> bool" where
  "PDPEvictor_should_predict_cache_hint e = False"

definition PDPEvictor_should_observe_cache_accesses :: "PDPEvictor \<Rightarrow> bool" where
  "PDPEvictor_should_observe_cache_accesses e = True"

definition PDPEvictor_bucket_distance :: "PDPEvictor \<Rightarrow> int \<Rightarrow> int result" where
  "PDPEvictor_bucket_distance e distance =
     bucket_distance (pdp_max_distance e) (pdp_bucket_size e) distance"

definition PDPEvictor_protect_block :: "PDPEvictor \<Rightarrow> int \<Rightarrow> bool \<Rightarrow> PDPEvictor" where
  "PDPEvictor_protect_block e block_id reused =
     (case dict_get (pdp_free_table e) block_id of
        None \<Rightarrow> e
      | Some block \<Rightarrow>
          e\<lparr>pdp_free_table := dict_set block_id
              (block\<lparr>pm_last_access_epoch := pdp_request_epoch e,
                 pm_protected_until_epoch := pdp_request_epoch e + pdp_protecting_distance e,
                 pm_reused := pm_reused block \<or> reused\<rparr>) (pdp_free_table e)\<rparr>)"

definition forget_hash :: "int \<Rightarrow> int \<Rightarrow> (int, int) dict \<Rightarrow> (int, int) dict" where
  "forget_hash content_hash block_id d =
     (if dict_get d content_hash = Some block_id then dict_pop content_hash d else d)"

definition PDPEvictor_forget_hash_mapping :: "PDPEvictor \<Rightarrow> int \<Rightarrow> int \<Rightarrow> PDPEvictor" where
  "PDPEvictor_forget_hash_mapping e content_hash block_id =
     e\<lparr>pdp_content_hash_to_block_id :=
        forget_hash content_hash block_id (pdp_content_hash_to_block_id e)\<rparr>"

definition real_hit_at :: "bool list option \<Rightarrow> nat \<Rightarrow> bool result" where
  "real_hit_at real_hits index =
     (case real_hits of None \<Rightarrow> Inr False
      | Some hits \<Rightarrow> if hits = [] then Inr False
                     else if index < length hits then Inr (hits ! index) else Inl IndexError)"

definition PDPEvictor_record_reuse :: "PDPEvictor \<Rightarrow> int \<Rightarrow> PDPEvictor result" where
  "PDPEvictor_record_reuse e previous_epoch =
     res_bind (PDPEvictor_bucket_distance e (pdp_request_epoch e - previous_epoch)) (\<lambda>d.
       Inr (e\<lparr>pdp_reuse_distance_counts :=
         dict_set d (dict_get_default (pdp_reuse_distance_counts e) d 0 + 1)
           (pdp_reuse_distance_counts e)\<rparr>))"

definition PDPEvictor_observe_one :: "int \<Rightarrow> bool \<Rightarrow> PDPEvictor \<Rightarrow> PDPEvictor result" where
  "PDPEvictor_observe_one content_hash real_hit e0 =
     (let e = e0\<lparr>pdp_total_observed_accesses := pdp_total_observed_accesses e0 + 1\<rparr>;
          previous_epoch = dict_get (pdp_last_seen_epoch e) content_hash
      in res_bind (case previous_epoch of None \<Rightarrow> Inr e | Some p \<Rightarrow> PDPEvictor_record_reuse e p) (\<lambda>e1.
         let e2 = e1\<lparr>pdp_last_seen_epoch :=
                    dict_set content_hash (pdp_request_epoch e1) (pdp_last_seen_epoch e1)\<rparr>
         in Inr (case dict_get (pdp_content_hash_to_block_id e2) content_hash of
                   None \<Rightarrow> e2
                 | Some block_id \<Rightarrow>
                     PDPEvictor_protect_block e2 block_id (real_hit \<or> previous_epoch \<noteq> None))))"

fun PDPEvictor_observe_loop ::
    "bool list option \<Rightarrow> nat \<Rightarrow> int list \<Rightarrow> int list \<Rightarrow> PDPEvictor \<Rightarrow> PDPEvictor result" where
  "PDPEvictor_observe_loop real_hits index seen [] e = Inr e"
| "PDPEvictor_observe_loop real_hits index seen (content_hash # hashes) e =
     (if content_hash \<in> set seen
      then PDPEvictor_observe_loop real_hits (Suc index) seen hashes e
      else res_bind (real_hit_at real_hits index) (\<lambda>real_hit.
           res_bind (PDPEvictor_observe_one content_hash real_hit e) (\<lambda>e'.
             PDPEvictor_observe_loop real_hits (Suc index) (content_hash # seen) hashes e')))"

definition PDPEvictor_recompute_protecting_distance :: "PDPEvictor \<Rightarrow> PDPEvictor result" where
  "PDPEvictor_recompute_protecting_distance e =
     res_bind (recompute_distance (pdp_max_distance e) (pdp_bucket_size e) (pdp_eviction_distance e)
        (pdp_total_observed_accesses e) (pdp_reuse_distance_counts e) (pdp_protecting_distance e))
       (\<lambda>d. Inr (e\<lparr>pdp_protecting_distance := d\<rparr>))"

definition PDPEvictor_observe_cache_accesses ::
    "PDPEvictor \<Rightarrow> int list \<Rightarrow> bool list option \<Rightarrow> PDPEvictor result" where
  "PDPEvictor_observe_cache_accesses e block_hashes real_hits =
     (if block_hashes = [] then Inr e
      else res_bind (PDPEvictor_observe_loop real_hits 0 [] block_hashes
               (e\<lparr>pdp_request_epoch := pdp_request_epoch e + 1\<rparr>)) (\<lambda>e'.
           res_bind (py_mod (pdp_total_observed_accesses e') (pdp_recompute_interval e')) (\<lambda>r.
             if r = 0 then PDPEvictor_recompute_protecting_distance e' else Inr e')))"

definition PDPEvictor_observe_cache_access ::
    "PDPEvictor \<Rightarrow> int \<Rightarrow> bool option \<Rightarrow> PDPEvictor result" where
  "PDPEvictor_observe_cache_access e content_hash real_hit =
     PDPEvictor_observe_cache_accesses e [content_hash] (map_option (\<lambda>h. [h]) real_hit)"

definition PDPEvictor_victim_key :: "PDPEvictor \<Rightarrow> int \<Rightarrow> PDPBlockMetaData \<Rightarrow> rat list" where
  "PDPEvictor_victim_key e block_id block =
     (let remaining = max 0 (pm_protected_until_epoch block - pdp_request_epoch e)
      in if pm_protected_until_epoch block \<le> pdp_request_epoch e
         then [0, of_int (pm_last_access_epoch block), bm_last_accessed block, of_int block_id]
         else [1, if pm_reused block then 1 else 0, - of_int remaining,
               - of_int (pm_last_access_epoch block), - bm_last_accessed block, of_int block_id])"

definition PDPEvictor_evict :: "rat \<Rightarrow> PDPEvictor \<Rightarrow> ((int \<times> int) \<times> PDPEvictor) result" where
  "PDPEvictor_evict now e =
     (if length (pdp_free_table e) = 0 then Inl ValueError
      else res_bind (py_min (\<lambda>(b, m). PDPEvictor_victim_key e b m) (pdp_free_table e))
        (\<lambda>(block_id, block).
          Inr ((block_id, bm_content_hash block),
            PDPEvictor_forget_hash_mapping
              (e\<lparr>pdp_stat := CacheStat_append (pdp_stat e) ''survival_times'' (now - bm_last_accessed block),
                 pdp_free_table := dict_pop block_id (pdp_free_table e)\<rparr>)
              (bm_content_hash block) block_id)))"

definition PDPEvictor_add ::
    "PDPEvictor \<Rightarrow> int \<Rightarrow> int \<Rightarrow> int \<Rightarrow> rat \<Rightarrow> cache_hint option \<Rightarrow> PDPEvictor" where
  "PDPEvictor_add e0 block_id content_hash num_hashed_tokens last_accessed cache_hint =
     (let e = (case dict_get (pdp_free_table e0) block_id of
                 None \<Rightarrow> e0
               | Some previous \<Rightarrow> PDPEvictor_forget_hash_mapping e0 (bm_content_hash previous) block_id);
          last_access_epoch = dict_get_default (pdp_last_seen_epoch e) content_hash (pdp_request_epoch e);
          reused = dict_has (pdp_last_seen_epoch e) content_hash;
          block = \<lparr>bm_content_hash = content_hash, bm_num_hashed_tokens = num_hashed_tokens,
                   bm_last_accessed = last_accessed, bm_cache_hint = cache_hint, bm_score = 0,
                   pm_first_access_epoch = last_access_epoch, pm_last_access_epoch = last_access_epoch,
                   pm_protected_until_epoch = pdp_request_epoch e + pdp_protecting_distance e,
                   pm_reused = reused\<rparr>
      in e\<lparr>pdp_free_table := dict_set block_id block (pdp_free_table e),
           pdp_content_hash_to_block_id :=
             dict_set content_hash block_id (pdp_content_hash_to_block_id e)\<rparr>)"

definition PDPEvictor_update ::
    "PDPEvictor \<Rightarrow> int \<Rightarrow> rat \<Rightarrow> cache_hint option \<Rightarrow> PDPEvictor result" where
  "PDPEvictor_update e block_id last_accessed cache_hint =
     (case dict_get (pdp_free_table e) block_id of
        None \<Rightarrow> Inl ValueError
      | Some block \<Rightarrow>
          Inr (PDPEvictor_protect_block
            (e\<lparr>pdp_free_table := dict_set block_id
                (block\<lparr>bm_last_accessed := last_accessed, bm_cache_hint := cache_hint\<rparr>)
                (pdp_free_table e)\<rparr>) block_id True))"

definition PDPEvictor_remove :: "PDPEvictor \<Rightarrow> int \<Rightarrow> PDPEvictor result" where
  "PDPEvictor_remove e block_id =
     (case dict_get (pdp_free_table e) block_id of
        None \<Rightarrow> Inl ValueError
      | Some block \<Rightarrow>
          Inr (PDPEvictor_forget_hash_mapping
            (e\<lparr>pdp_free_table := dict_pop block_id (pdp_free_table e)\<rparr>)
            (bm_content_hash block) block_id))"

definition PDPEvictor_num_blocks :: "PDPEvictor \<Rightarrow> nat" where
  "PDPEvictor_num_blocks e = length (pdp_free_table e)"

section \<open>Invariant\<close>

definition hash_map_sound :: "(int, 'b BlockMetaData_scheme) dict \<Rightarrow> (int, int) dict \<Rightarrow> bool" where
  "hash_map_sound ft c2b \<longleftrightarrow>
     (\<forall>h b. dict_get c2b h = Some b \<longrightarrow> hash_view ft b = Some h)"

definition epochs_ok :: "int \<Rightarrow> (int, int) dict \<Rightarrow> bool" where
  "epochs_ok epoch d \<longleftrightarrow> (\<forall>h ep. dict_get d h = Some ep \<longrightarrow> ep \<le> epoch)"

definition pdp_inv :: "PDPEvictor \<Rightarrow> bool" where
  "pdp_inv e \<longleftrightarrow> dict_ok (pdp_free_table e) \<and>
     hash_map_sound (pdp_free_table e) (pdp_content_hash_to_block_id e) \<and>
     counts_ok (pdp_max_distance e) (pdp_reuse_distance_counts e) \<and>
     epochs_ok (pdp_request_epoch e) (pdp_last_seen_epoch e) \<and>
     1 \<le> pdp_max_distance e \<and> 1 \<le> pdp_recompute_interval e \<and> 1 \<le> pdp_bucket_size e \<and>
     1 \<le> pdp_eviction_distance e \<and> 0 \<le> pdp_protecting_distance e \<and>
     0 \<le> pdp_total_observed_accesses e \<and> CacheStat_ok (pdp_stat e)"

definition pdp_view :: "PDPEvictor \<Rightarrow> int \<rightharpoonup> int" where
  "pdp_view e = hash_view (pdp_free_table e)"

lemma pdp_inv_init: "PDPEvictor_init config = Inr e \<Longrightarrow> pdp_inv e \<and> pdp_free_table e = []"
  by (auto simp: PDPEvictor_init_def pdp_inv_def hash_map_sound_def epochs_ok_def
      CacheStat_ok_init elim!: res_bind_InrE)

lemma hash_map_soundD: "hash_map_sound ft c2b \<Longrightarrow> dict_get c2b h = Some b \<Longrightarrow> hash_view ft b = Some h"
  by (simp add: hash_map_sound_def)

lemma hash_map_sound_forget:
  assumes s: "hash_map_sound ft c2b" and h: "hash_view ft b = Some h"
  shows "hash_map_sound (dict_pop b ft) (forget_hash h b c2b)"
  unfolding hash_map_sound_def
proof (intro allI impI)
  fix h' b'
  assume a: "dict_get (forget_hash h b c2b) h' = Some b'"
  then have c: "dict_get c2b h' = Some b'" by (simp add: forget_hash_def split: if_splits)
  have "b' \<noteq> b"
  proof
    assume "b' = b"
    then have "h' = h" using hash_map_soundD[OF s c] h by simp
    then show False using a c \<open>b' = b\<close> by (simp add: forget_hash_def)
  qed
  then show "hash_view (dict_pop b ft) b' = Some h'"
    using hash_map_soundD[OF s c] by (simp add: hash_view_pop)
qed

lemma hash_map_sound_replace:
  "hash_map_sound ft c2b \<Longrightarrow> hash_view ft b = Some (bm_content_hash m) \<Longrightarrow>
   hash_map_sound (dict_set b m ft) c2b"
  by (auto simp: hash_map_sound_def hash_view_simps)

text \<open>Inserting a block: any old mapping of its id has been forgotten before.\<close>

lemma hash_map_sound_insert:
  assumes s: "hash_map_sound ft c2b"
  shows "hash_map_sound (dict_set b m ft)
    (dict_set (bm_content_hash m) b (case hash_view ft b of None \<Rightarrow> c2b | Some h \<Rightarrow> forget_hash h b c2b))"
    (is "hash_map_sound _ (dict_set _ _ ?c)")
  unfolding hash_map_sound_def
proof (intro allI impI)
  fix h' b'
  assume a: "dict_get (dict_set (bm_content_hash m) b ?c) h' = Some b'"
  show "hash_view (dict_set b m ft) b' = Some h'"
  proof (cases "h' = bm_content_hash m")
    case True
    then show ?thesis using a by (simp add: hash_view_set)
  next
    case False
    then have c: "dict_get ?c h' = Some b'" using a by simp
    then have c': "dict_get c2b h' = Some b'"
      by (auto simp: forget_hash_def split: option.splits if_splits)
    have "b' \<noteq> b" using hash_map_soundD[OF s c'] c by (auto simp: forget_hash_def split: if_splits)
    then show ?thesis using hash_map_soundD[OF s c'] by (simp add: hash_view_set)
  qed
qed

lemma hash_map_sound_new:
  "hash_map_sound ft c2b \<Longrightarrow> hash_view ft b = None \<Longrightarrow> bm_content_hash m = h \<Longrightarrow>
   hash_map_sound (dict_set b m ft) (dict_set h b c2b)"
  using hash_map_sound_insert[of ft c2b b m] by simp

lemma hash_map_sound_renew:
  "hash_map_sound ft c2b \<Longrightarrow> hash_view ft b = Some h' \<Longrightarrow> bm_content_hash m = h \<Longrightarrow>
   hash_map_sound (dict_set b m ft) (dict_set h b (forget_hash h' b c2b))"
  using hash_map_sound_insert[of ft c2b b m] by simp

lemma pdp_protect_block_frame:
  assumes "pdp_inv e"
  shows "pdp_inv (PDPEvictor_protect_block e b r)"
    "pdp_view (PDPEvictor_protect_block e b r) = pdp_view e"
  using assms
  by (auto simp: PDPEvictor_protect_block_def pdp_inv_def pdp_view_def hash_view_set hash_view_def
      intro!: hash_map_sound_replace split: option.splits)

lemma pdp_inv_add: "pdp_inv e \<Longrightarrow> pdp_inv (PDPEvictor_add e b h n t c)"
  by (auto simp: PDPEvictor_add_def pdp_inv_def Let_def PDPEvictor_forget_hash_mapping_def hash_view_def
      intro!: hash_map_sound_new hash_map_sound_renew split: option.splits)

lemma pdp_view_add: "pdp_view (PDPEvictor_add e b h n t c) = (pdp_view e)(b \<mapsto> h)"
  by (auto simp: PDPEvictor_add_def pdp_view_def Let_def PDPEvictor_forget_hash_mapping_def
      hash_view_set split: option.splits)

lemma pdp_remove_ok:
  assumes "pdp_inv e" "dict_get (pdp_free_table e) b = Some m"
  shows "\<exists>e'. PDPEvictor_remove e b = Inr e' \<and> pdp_inv e' \<and> pdp_view e' = (pdp_view e)(b := None)"
proof -
  have "hash_view (pdp_free_table e) b = Some (bm_content_hash m)" using assms(2) by (simp add: hash_view_def)
  then show ?thesis using assms hash_map_sound_forget[of "pdp_free_table e" _ b "bm_content_hash m"]
    by (simp add: PDPEvictor_remove_def PDPEvictor_forget_hash_mapping_def pdp_inv_def pdp_view_def hash_view_pop)
qed

lemma pdp_update_ok:
  assumes "pdp_inv e" "dict_get (pdp_free_table e) b = Some m"
  shows "\<exists>e'. PDPEvictor_update e b t c = Inr e' \<and> pdp_inv e' \<and> pdp_view e' = pdp_view e"
proof -
  let ?e = "e\<lparr>pdp_free_table := dict_set b (m\<lparr>bm_last_accessed := t, bm_cache_hint := c\<rparr>) (pdp_free_table e)\<rparr>"
  have "hash_view (pdp_free_table e) b = Some (bm_content_hash m)" using assms(2) by (simp add: hash_view_def)
  then have "pdp_inv ?e" "pdp_view ?e = pdp_view e" using assms
    by (auto simp: pdp_inv_def pdp_view_def hash_view_set intro!: hash_map_sound_replace)
  with pdp_protect_block_frame[of ?e b True] assms(2) show ?thesis
    by (simp add: PDPEvictor_update_def)
qed

lemma pdp_evict_ok:
  assumes "pdp_inv e" "pdp_free_table e \<noteq> []"
  obtains b m e' where "PDPEvictor_evict now e = Inr ((b, bm_content_hash m), e')" "pdp_inv e'"
    "dict_get (pdp_free_table e) b = Some m" "pdp_free_table e' = dict_pop b (pdp_free_table e)"
    "\<And>b' m'. dict_get (pdp_free_table e) b' = Some m' \<Longrightarrow>
       PDPEvictor_victim_key e b m \<le> PDPEvictor_victim_key e b' m'"
proof -
  obtain b m where min: "py_min (\<lambda>(b, m). PDPEvictor_victim_key e b m) (pdp_free_table e) = Inr (b, m)"
    using py_min_ok[OF assms(2)] by (metis surj_pair)
  have ok: "dict_ok (pdp_free_table e)" using assms(1) by (simp add: pdp_inv_def)
  have bm: "dict_get (pdp_free_table e) b = Some m"
    using py_min_mem[OF min] ok by (simp add: dict_get_mem)
  have least: "PDPEvictor_victim_key e b m \<le> PDPEvictor_victim_key e b' m'"
    if "dict_get (pdp_free_table e) b' = Some m'" for b' m'
    using py_min_le[OF min, of "(b', m')"] that ok by (simp add: dict_get_mem)
  have "hash_map_sound (dict_pop b (pdp_free_table e))
      (forget_hash (bm_content_hash m) b (pdp_content_hash_to_block_id e))"
    using assms(1) bm by (intro hash_map_sound_forget) (simp_all add: pdp_inv_def hash_view_def)
  then show ?thesis using that[of b m] bm least min assms
    by (simp add: PDPEvictor_evict_def PDPEvictor_forget_hash_mapping_def pdp_inv_def CacheStat_ok_append)
qed

lemma pdp_view_empty: "pdp_view e = Map.empty \<longleftrightarrow> pdp_free_table e = []"
  using dom_hash_view[of "pdp_free_table e"] by (auto simp: pdp_view_def hash_view_Nil)

interpretation pdp: evictor_contract pdp_view pdp_inv PDPEvictor_contains PDPEvictor_num_blocks
  "\<lambda>e b h n t c. True" "\<lambda>now e b h n t c. Inr (PDPEvictor_add e b h n t c)" PDPEvictor_remove
  PDPEvictor_evict
proof (unfold_locales, goal_cases)
  case (1 e b)
  then show ?case by (simp add: PDPEvictor_contains_def pdp_view_def hash_view_None)
next
  case (2 e)
  then show ?case by (simp add: pdp_view_def dom_hash_view)
next
  case (3 e)
  then show ?case
    by (simp add: pdp_view_def dom_hash_view PDPEvictor_num_blocks_def pdp_inv_def dict_length_card)
next
  case (4 e b h n t c now)
  then show ?case by (simp add: pdp_inv_add pdp_view_add)
next
  case (5 e b)
  then show ?case using pdp_remove_ok by (auto simp: pdp_view_def hash_view_def)
next
  case (6 e b)
  then show ?case by (simp add: PDPEvictor_remove_def pdp_view_def hash_view_None)
next
  case (7 e now)
  then have "pdp_free_table e \<noteq> []" by (simp add: pdp_view_empty)
  from pdp_evict_ok[OF 7(1) this, of now] show ?case
    by (metis hash_view_def hash_view_pop pdp_view_def option.simps(9))
next
  case (8 e now)
  then show ?case by (simp add: pdp_view_empty PDPEvictor_evict_def)
qed

section \<open>Observing accesses\<close>

lemma pdp_record_reuse_ok:
  assumes "pdp_inv e"
  obtains e' where "PDPEvictor_record_reuse e p = Inr e'" "pdp_inv e'"
    "pdp_view e' = pdp_view e" "pdp_request_epoch e' = pdp_request_epoch e"
    "pdp_last_seen_epoch e' = pdp_last_seen_epoch e"
    "pdp_content_hash_to_block_id e' = pdp_content_hash_to_block_id e"
    "pdp_total_observed_accesses e' = pdp_total_observed_accesses e"
proof -
  obtain d where d: "bucket_distance (pdp_max_distance e) (pdp_bucket_size e) (pdp_request_epoch e - p) = Inr d"
    "1 \<le> d" "d \<le> pdp_max_distance e"
    using bucket_distance_range assms unfolding pdp_inv_def by blast
  have "counts_ok (pdp_max_distance e) (dict_set d (dict_get_default (pdp_reuse_distance_counts e) d 0 + 1)
      (pdp_reuse_distance_counts e))"
    using assms d by (intro counts_ok_bump) (simp_all add: pdp_inv_def)
  then show ?thesis using that d(1) assms
    by (simp add: PDPEvictor_record_reuse_def PDPEvictor_bucket_distance_def pdp_inv_def pdp_view_def)
qed

lemma pdp_seen_ok:
  "pdp_inv e \<Longrightarrow> pdp_inv (e\<lparr>pdp_last_seen_epoch := dict_set h (pdp_request_epoch e) (pdp_last_seen_epoch e)\<rparr>)"
  by (auto simp: pdp_inv_def epochs_ok_def)

lemma pdp_protect_epoch [simp]:
  "pdp_request_epoch (PDPEvictor_protect_block e b r) = pdp_request_epoch e"
  "pdp_last_seen_epoch (PDPEvictor_protect_block e b r) = pdp_last_seen_epoch e"
  "pdp_total_observed_accesses (PDPEvictor_protect_block e b r) = pdp_total_observed_accesses e"
  by (auto simp: PDPEvictor_protect_block_def split: option.splits)

lemma pdp_observe_one_ok:
  assumes "pdp_inv e"
  obtains e' where "PDPEvictor_observe_one h r e = Inr e'" "pdp_inv e'" "pdp_view e' = pdp_view e"
    "pdp_request_epoch e' = pdp_request_epoch e"
    "dict_get (pdp_last_seen_epoch e') = (dict_get (pdp_last_seen_epoch e))(h \<mapsto> pdp_request_epoch e)"
    "pdp_total_observed_accesses e' = pdp_total_observed_accesses e + 1"
proof -
  let ?e = "e\<lparr>pdp_total_observed_accesses := pdp_total_observed_accesses e + 1\<rparr>"
  let ?m = "case dict_get (pdp_last_seen_epoch ?e) h of None \<Rightarrow> Inr ?e | Some p \<Rightarrow> PDPEvictor_record_reuse ?e p"
  have i: "pdp_inv ?e" using assms by (simp add: pdp_inv_def)
  obtain e1 where e1: "?m = Inr e1" "pdp_inv e1" "pdp_view e1 = pdp_view e"
    "pdp_request_epoch e1 = pdp_request_epoch e" "pdp_last_seen_epoch e1 = pdp_last_seen_epoch e"
    "pdp_total_observed_accesses e1 = pdp_total_observed_accesses e + 1"
  proof (cases "dict_get (pdp_last_seen_epoch ?e) h")
    case None
    then show ?thesis using that[of ?e] i by (simp add: pdp_view_def)
  next
    case (Some p)
    obtain e' where "PDPEvictor_record_reuse ?e p = Inr e'" "pdp_inv e'" "pdp_view e' = pdp_view ?e"
      "pdp_request_epoch e' = pdp_request_epoch ?e" "pdp_last_seen_epoch e' = pdp_last_seen_epoch ?e"
      "pdp_total_observed_accesses e' = pdp_total_observed_accesses ?e"
      using pdp_record_reuse_ok[OF i] by blast
    then show ?thesis using that[of e'] Some by (simp add: pdp_view_def)
  qed
  let ?e2 = "e1\<lparr>pdp_last_seen_epoch := dict_set h (pdp_request_epoch e1) (pdp_last_seen_epoch e1)\<rparr>"
  have i2: "pdp_inv ?e2" using e1(2) by (rule pdp_seen_ok)
  show ?thesis
    using that e1 i2 pdp_protect_block_frame[OF i2]
    by (simp add: PDPEvictor_observe_one_def Let_def pdp_view_def split: option.splits)
qed

lemma pdp_observe_loop_ok:
  assumes "pdp_inv e" "\<forall>hits. rh = Some hits \<longrightarrow> hits = [] \<or> length hits = i + length hs"
  shows "\<exists>e'. PDPEvictor_observe_loop rh i seen hs e = Inr e' \<and> pdp_inv e' \<and> pdp_view e' = pdp_view e \<and>
           pdp_request_epoch e' = pdp_request_epoch e \<and>
           (\<forall>h \<in> set hs - set seen. dict_get (pdp_last_seen_epoch e') h = Some (pdp_request_epoch e)) \<and>
           (\<forall>h. h \<notin> set hs - set seen \<longrightarrow>
              dict_get (pdp_last_seen_epoch e') h = dict_get (pdp_last_seen_epoch e) h) \<and>
           pdp_total_observed_accesses e' = pdp_total_observed_accesses e + int (card (set hs - set seen))"
  using assms
proof (induction hs arbitrary: i seen e)
  case (Cons h hs)
  show ?case
  proof (cases "h \<in> set seen")
    case True
    then have "set (h # hs) - set seen = set hs - set seen" by auto
    then show ?thesis using Cons.IH[of e "Suc i" seen] Cons.prems True by simp
  next
    case False
    have "\<exists>r. real_hit_at rh i = Inr r"
      using Cons.prems(2) by (cases rh) (auto simp: real_hit_at_def)
    then obtain r where r: "real_hit_at rh i = Inr r" by blast
    obtain e1 where e1: "PDPEvictor_observe_one h r e = Inr e1" "pdp_inv e1" "pdp_view e1 = pdp_view e"
      "pdp_request_epoch e1 = pdp_request_epoch e"
      "dict_get (pdp_last_seen_epoch e1) = (dict_get (pdp_last_seen_epoch e))(h \<mapsto> pdp_request_epoch e)"
      "pdp_total_observed_accesses e1 = pdp_total_observed_accesses e + 1"
      using pdp_observe_one_ok[OF Cons.prems(1)] by blast
    have c: "set (h # hs) - set seen = insert h (set hs - set (h # seen))" using False by auto
    show ?thesis
      using Cons.IH[OF e1(2), of "Suc i" "h # seen"] Cons.prems(2) False r e1 unfolding c by fastforce
  qed
qed simp

lemma pdp_recompute_ok:
  assumes "pdp_inv e"
  shows "\<exists>e'. PDPEvictor_recompute_protecting_distance e = Inr e' \<and> pdp_inv e' \<and> pdp_view e' = pdp_view e \<and>
    pdp_request_epoch e' = pdp_request_epoch e \<and> pdp_last_seen_epoch e' = pdp_last_seen_epoch e"
proof -
  obtain d where "recompute_distance (pdp_max_distance e) (pdp_bucket_size e) (pdp_eviction_distance e)
       (pdp_total_observed_accesses e) (pdp_reuse_distance_counts e) (pdp_protecting_distance e) = Inr d" "0 \<le> d"
    using recompute_distance_total assms unfolding pdp_inv_def by meson
  then show ?thesis using assms
    by (simp add: PDPEvictor_recompute_protecting_distance_def pdp_inv_def pdp_view_def)
qed

lemma pdp_observe_accesses_ok:
  assumes "pdp_inv e" "hashes \<noteq> []" "\<forall>hits. real_hits = Some hits \<longrightarrow> length hits = length hashes"
  shows "\<exists>e'. PDPEvictor_observe_cache_accesses e hashes real_hits = Inr e' \<and> pdp_inv e' \<and>
           pdp_view e' = pdp_view e \<and> pdp_request_epoch e' = pdp_request_epoch e + 1 \<and>
           (\<forall>h. dict_get (pdp_last_seen_epoch e') h =
              (if h \<in> set hashes then Some (pdp_request_epoch e + 1) else dict_get (pdp_last_seen_epoch e) h))"
proof -
  let ?e = "e\<lparr>pdp_request_epoch := pdp_request_epoch e + 1\<rparr>"
  have i: "pdp_inv ?e" using assms(1) by (force simp: pdp_inv_def epochs_ok_def)
  obtain e1 where e1: "PDPEvictor_observe_loop real_hits 0 [] hashes ?e = Inr e1" "pdp_inv e1"
    "pdp_view e1 = pdp_view ?e" "pdp_request_epoch e1 = pdp_request_epoch ?e"
    "\<forall>h \<in> set hashes. dict_get (pdp_last_seen_epoch e1) h = Some (pdp_request_epoch ?e)"
    "\<forall>h. h \<notin> set hashes \<longrightarrow> dict_get (pdp_last_seen_epoch e1) h = dict_get (pdp_last_seen_epoch ?e) h"
    using pdp_observe_loop_ok[OF i, of real_hits 0 hashes "[]"] assms(3) by auto
  have m: "py_mod (pdp_total_observed_accesses e1) (pdp_recompute_interval e1) =
      Inr (pdp_total_observed_accesses e1 mod pdp_recompute_interval e1)"
    using e1(2) by (auto simp: py_mod_def pdp_inv_def)
  show ?thesis
    using pdp_recompute_ok[OF e1(2)] e1 m assms(2)
    by (auto simp: PDPEvictor_observe_cache_accesses_def pdp_view_def)
qed

section \<open>Properties\<close>

definition pdp_base :: PDPEvictor where
  "pdp_base = projr (PDPEvictor_init ''pdp_recompute_interval=2'')"

definition pdp_example :: PDPEvictor where
  "pdp_example = PDPEvictor_add (PDPEvictor_add pdp_base 7 70 16 5 None) 8 80 16 3 None"

lemma pdp_base_inv: "pdp_inv pdp_base"
proof -
  have "isl (PDPEvictor_init ''pdp_recompute_interval=2'') = False" by code_simp
  then have "PDPEvictor_init ''pdp_recompute_interval=2'' = Inr pdp_base"
    by (simp add: pdp_base_def)
  from pdp_inv_init[OF this] show ?thesis by simp
qed

lemma pdp_example_inv: "pdp_inv pdp_example"
  by (simp add: pdp_example_def pdp_inv_add pdp_base_inv)

text \<open>
  C29. Eviction under the protecting-distance policy succeeds on a non-empty table, removes
  exactly the returned block, and takes a block that is still protected only when every
  block of the table is; among the blocks whose protection has expired it takes one with
  the oldest access epoch.
\<close>

theorem PDPEvictor_evict_respects_protection:
  assumes "pdp_inv e" "pdp_free_table e \<noteq> []"
  shows "\<exists>b m e'. PDPEvictor_evict now e = Inr ((b, bm_content_hash m), e') \<and> pdp_inv e' \<and>
           dict_get (pdp_free_table e) b = Some m \<and>
           pdp_free_table e' = dict_pop b (pdp_free_table e) \<and>
           (\<forall>b' m'. dict_get (pdp_free_table e) b' = Some m' \<and>
              pm_protected_until_epoch m' \<le> pdp_request_epoch e \<longrightarrow>
              pm_protected_until_epoch m \<le> pdp_request_epoch e \<and>
              pm_last_access_epoch m \<le> pm_last_access_epoch m')"
proof -
  obtain b m e' where r: "PDPEvictor_evict now e = Inr ((b, bm_content_hash m), e')" "pdp_inv e'"
    "dict_get (pdp_free_table e) b = Some m" "pdp_free_table e' = dict_pop b (pdp_free_table e)"
    and least: "\<And>b' m'. dict_get (pdp_free_table e) b' = Some m' \<Longrightarrow>
       PDPEvictor_victim_key e b m \<le> PDPEvictor_victim_key e b' m'"
    using pdp_evict_ok[OF assms] by blast
  have "pm_protected_until_epoch m \<le> pdp_request_epoch e \<and> pm_last_access_epoch m \<le> pm_last_access_epoch m'"
    if "dict_get (pdp_free_table e) b' = Some m'" "pm_protected_until_epoch m' \<le> pdp_request_epoch e" for b' m'
    using least[OF that(1)] that(2) by (auto simp: PDPEvictor_victim_key_def Let_def split: if_splits)
  with r show ?thesis by blast
qed

theorem PDPEvictor_evict_respects_protection_witness:
  "\<exists>b m e'. PDPEvictor_evict 9 pdp_example = Inr ((b, bm_content_hash m), e') \<and> pdp_inv e' \<and>
     dict_get (pdp_free_table pdp_example) b = Some m"
proof -
  have "pdp_free_table pdp_example \<noteq> []" by code_simp
  from PDPEvictor_evict_respects_protection[OF pdp_example_inv this, of 9] show ?thesis by blast
qed

text \<open>
  C30. The single sweep over the reuse-distance histogram returns the first protecting
  distance of the candidate range that maximises the score computed from scratch, and that
  distance lies between 1 and the configured maximum.
\<close>

theorem PDPEvictor_recompute_is_argmax:
  assumes "pdp_inv e" "pdp_reuse_distance_counts e \<noteq> []" "pdp_total_observed_accesses e \<noteq> 0"
  shows "\<exists>e' rng. PDPEvictor_recompute_protecting_distance e = Inr e' \<and>
           py_range 1 (pdp_max_distance e + 1) (pdp_bucket_size e) = Inr rng \<and>
           py_max (reference_score (pdp_total_observed_accesses e) (pdp_eviction_distance e)
             (pdp_reuse_distance_counts e)) rng = Inr (pdp_protecting_distance e') \<and>
           1 \<le> pdp_protecting_distance e' \<and> pdp_protecting_distance e' \<le> pdp_max_distance e"
proof -
  have c: "\<forall>(rd, c) \<in> set (pdp_reuse_distance_counts e). 0 \<le> c \<and> 0 < rd"
    using assms(1) by (intro counts_ok_nonneg[of "pdp_max_distance e"]) (simp add: pdp_inv_def)
  have p: "1 \<le> pdp_bucket_size e" "1 \<le> pdp_max_distance e" using assms(1) by (auto simp: pdp_inv_def)
  show ?thesis
    using recompute_distance_eq[OF p assms(2,3) c, of "pdp_eviction_distance e" "pdp_protecting_distance e"]
    by (auto simp: PDPEvictor_recompute_protecting_distance_def)
qed

text \<open>
  One lookup of a list of prefix hashes advances the request epoch once, marks every
  hash of the list as seen in the new epoch and leaves the other marks alone, and neither
  adds nor drops blocks.
\<close>

theorem PDPEvictor_observe_advances_epoch:
  assumes "pdp_inv e" "hashes \<noteq> []" "\<forall>hits. real_hits = Some hits \<longrightarrow> length hits = length hashes"
  shows "\<exists>e'. PDPEvictor_observe_cache_accesses e hashes real_hits = Inr e' \<and> pdp_inv e' \<and>
           pdp_view e' = pdp_view e \<and> pdp_request_epoch e' = pdp_request_epoch e + 1 \<and>
           (\<forall>h. dict_get (pdp_last_seen_epoch e') h =
              (if h \<in> set hashes then Some (pdp_request_epoch e + 1) else dict_get (pdp_last_seen_epoch e) h))"
  using pdp_observe_accesses_ok[OF assms] .

theorem PDPEvictor_observe_advances_epoch_witness:
  "\<exists>e'. PDPEvictor_observe_cache_accesses pdp_example [70, 90, 70] (Some [True, False, True]) = Inr e' \<and>
     pdp_inv e' \<and> pdp_view e' = pdp_view pdp_example \<and>
     pdp_request_epoch e' = pdp_request_epoch pdp_example + 1"
  using PDPEvictor_observe_advances_epoch[OF pdp_example_inv, of "[70, 90, 70]" "Some [True, False, True]"]
  by auto

definition pdp_observed :: PDPEvictor where
  "pdp_observed = projr (PDPEvictor_observe_cache_accesses
     (projr (PDPEvictor_observe_cache_accesses pdp_example [70, 90] None)) [70, 80] None)"

theorem PDPEvictor_recompute_is_argmax_witness:
  "\<exists>e' rng. PDPEvictor_recompute_protecting_distance pdp_observed = Inr e' \<and>
     py_range 1 257 1 = Inr rng \<and> pdp_protecting_distance e' \<in> set rng"
proof -
  obtain e1 where e1: "PDPEvictor_observe_cache_accesses pdp_example [70, 90] None = Inr e1" "pdp_inv e1"
    using pdp_observe_accesses_ok[OF pdp_example_inv, of "[70, 90]" None] by auto
  then obtain e2 where e2: "PDPEvictor_observe_cache_accesses e1 [70, 80] None = Inr e2" "pdp_inv e2"
    using pdp_observe_accesses_ok[OF e1(2), of "[70, 80]" None] by auto
  have "pdp_inv pdp_observed" using e1 e2 by (simp add: pdp_observed_def)
  moreover have "pdp_reuse_distance_counts pdp_observed \<noteq> []" "pdp_total_observed_accesses pdp_observed \<noteq> 0"
    "pdp_max_distance pdp_observed = 256" "pdp_bucket_size pdp_observed = 1"
    by code_simp+
  ultimately show ?thesis
    using PDPEvictor_recompute_is_argmax[of pdp_observed] by (auto dest: py_max_mem)
qed

end
