(* ===== verification/Shadow_Cache.thy ===== *)
theory Shadow_Cache
  imports PDP_Evictor
begin

text \<open>
  The class ShadowPolicyCache of vllm/core/evictor.py: a metadata-only cache that replays the
  observed accesses under one eviction policy (fifo, rrip, pdp, ml, and lru for any other
  name) to measure the hit rate that policy would have had.
\<close>

definition RRIP_MAX_RRPV :: int where "RRIP_MAX_RRPV = 3"
definition RRIP_INSERT_RRPV :: int where "RRIP_INSERT_RRPV = RRIP_MAX_RRPV - 1"
definition RRIP_HIT_RRPV :: int where "RRIP_HIT_RRPV = 0"

record shadow_entry =
  se_first_accessed :: rat
  se_last_accessed :: rat
  se_rrpv :: int
  se_score :: rat
  se_cache_hint :: "cache_hint option"
  se_pdp_protected_until :: "int option"
  se_pdp_last_access_epoch :: "int option"
  se_pdp_reused :: "bool option"

type_synonym shadow_table = "(int, shadow_entry) dict"

record ShadowPolicyCache =
  sh_policy :: string
  sh_capacity :: int
  sh_table :: shadow_table
  sh_events :: "(rat \<times> int) list"
  sh_pdp_epoch :: int
  sh_pdp_protecting_distance :: int
  sh_pdp_max_distance :: int
  sh_pdp_recompute_interval :: int
  sh_pdp_bucket_size :: int
  sh_pdp_eviction_distance :: int
  sh_pdp_last_seen_epoch :: "(int, int) dict"
  sh_pdp_reuse_distance_counts :: "(int, int) dict"
  sh_pdp_total_accesses :: int

definition ShadowPolicyCache_plain :: "string \<Rightarrow> int \<Rightarrow> ShadowPolicyCache" where
  "ShadowPolicyCache_plain policy capacity =
     \<lparr>sh_policy = policy, sh_capacity = capacity, sh_table = [], sh_events = [],
      sh_pdp_epoch = 0, sh_pdp_protecting_distance = 0, sh_pdp_max_distance = 0,
      sh_pdp_recompute_interval = 0, sh_pdp_bucket_size = 0, sh_pdp_eviction_distance = 0,
      sh_pdp_last_seen_epoch = [], sh_pdp_reuse_distance_counts = [], sh_pdp_total_accesses = 0\<rparr>"

text \<open>The attributes with prefix pdp exist only for that policy; the others keep zeros unread.\<close>

definition ShadowPolicyCache_init ::
    "string \<Rightarrow> int \<Rightarrow> (string, string) dict \<Rightarrow> ShadowPolicyCache result" where
  "ShadowPolicyCache_init policy capacity cfg =
     (let c = ShadowPolicyCache_plain policy capacity
      in if policy = ''pdp'' then
           res_bind (config_int cfg ''pdp_initial_pd'' DEFAULT_INITIAL_PD) (\<lambda>pd.
           res_bind (config_int cfg ''pdp_max_distance'' DEFAULT_MAX_DISTANCE) (\<lambda>md.
           res_bind (config_int cfg ''pdp_recompute_interval'' DEFAULT_RECOMPUTE_INTERVAL) (\<lambda>ri.
           res_bind (config_int cfg ''pdp_bucket_size'' DEFAULT_BUCKET_SIZE) (\<lambda>bs.
           res_bind (config_int cfg ''pdp_eviction_distance'' DEFAULT_EVICTION_DISTANCE) (\<lambda>ed.
             Inr (c\<lparr>sh_pdp_protecting_distance := pd, sh_pdp_max_distance := md,
                sh_pdp_recompute_interval := ri, sh_pdp_bucket_size := bs,
                sh_pdp_eviction_distance := ed\<rparr>))))))
         else Inr c)"

definition ShadowPolicyCache_hit_rate :: "ShadowPolicyCache \<Rightarrow> rat" where
  "ShadowPolicyCache_hit_rate c =
     (if sh_events c = [] then 0
      else rat_of_int (sum_list (map snd (sh_events c))) / rat_of_nat (length (sh_events c)))"

definition ShadowPolicyCache_num_events :: "ShadowPolicyCache \<Rightarrow> nat" where
  "ShadowPolicyCache_num_events c = length (sh_events c)"

definition ShadowPolicyCache_ml_score ::
    "(rat \<Rightarrow> rat) \<Rightarrow> shadow_entry \<Rightarrow> cache_hint option \<Rightarrow> rat \<Rightarrow> rat result" where
  "ShadowPolicyCache_ml_score np_exp entry cache_hint now =
     (case cache_hint of None \<Rightarrow> Inr (se_last_accessed entry)
      | Some hint \<Rightarrow>
         (case ch_prob_has_next hint of None \<Rightarrow> Inr (se_last_accessed entry)
          | Some p \<Rightarrow> probability_of_future_arrival np_exp p
              (case ch_exp_scale hint of None \<Rightarrow> 1 | Some s \<Rightarrow> s) (now - se_last_accessed entry)))"

section \<open>Victim selection\<close>

definition rrip_candidates :: "shadow_table \<Rightarrow> shadow_table" where
  "rrip_candidates t = filter (\<lambda>(h, entry). se_rrpv entry \<ge> RRIP_MAX_RRPV) t"

definition rrip_age :: "shadow_table \<Rightarrow> shadow_table" where
  "rrip_age t = map (\<lambda>(h, entry). (h, entry\<lparr>se_rrpv := min RRIP_MAX_RRPV (se_rrpv entry + 1)\<rparr>)) t"

definition lru_key :: "int \<times> shadow_entry \<Rightarrow> rat list" where
  "lru_key he = [se_last_accessed (snd he), of_int (fst he)]"

definition rrip_room :: "shadow_table \<Rightarrow> nat" where
  "rrip_room t = sum_list (map (\<lambda>(h, entry). nat (RRIP_MAX_RRPV - se_rrpv entry)) t)"

lemma rrip_age_decreases:
  assumes "t \<noteq> []" "rrip_candidates t = []"
  shows "rrip_room (rrip_age t) < rrip_room t"
  using assms
proof (induction t)
  case (Cons x t)
  have x: "se_rrpv (snd x) < RRIP_MAX_RRPV" and t: "rrip_candidates t = []"
    using Cons.prems(2) by (auto simp: rrip_candidates_def split_beta split: if_splits)
  have "rrip_room (rrip_age t) \<le> rrip_room t"
    using Cons.IH[OF _ t] by (cases "t = []") (auto simp: rrip_age_def)
  then show ?case using x by (simp add: rrip_room_def rrip_age_def split_beta)
qed simp

text \<open>On an empty table the loop of the source never ends; its caller excludes that case.\<close>

function ShadowPolicyCache_rrip_victim :: "shadow_table \<Rightarrow> (int \<times> shadow_table) result" where
  "ShadowPolicyCache_rrip_victim t =
     (if t = [] then Inl Diverges
      else if rrip_candidates t \<noteq> []
           then res_bind (py_min lru_key (rrip_candidates t)) (\<lambda>he. Inr (fst he, t))
           else ShadowPolicyCache_rrip_victim (rrip_age t))"
  by pat_completeness auto
termination
  by (relation "measure rrip_room") (auto intro: rrip_age_decreases)

declare ShadowPolicyCache_rrip_victim.simps [simp del]

definition ShadowPolicyCache_pdp_victim_key ::
    "ShadowPolicyCache \<Rightarrow> int \<times> shadow_entry \<Rightarrow> rat list" where
  "ShadowPolicyCache_pdp_victim_key c he =
     (let entry = snd he;
          protected_until = (case se_pdp_protected_until entry of None \<Rightarrow> 0 | Some p \<Rightarrow> p);
          last_epoch = (case se_pdp_last_access_epoch entry of None \<Rightarrow> 0 | Some p \<Rightarrow> p);
          reused = (case se_pdp_reused entry of None \<Rightarrow> False | Some r \<Rightarrow> r)
      in if protected_until \<le> sh_pdp_epoch c
         then [0, of_int last_epoch, se_last_accessed entry, of_int (fst he)]
         else [1, if reused then 1 else 0, - of_int (protected_until - sh_pdp_epoch c),
               - of_int last_epoch, of_int (fst he)])"

definition shadow_victim ::
    "(rat \<Rightarrow> rat) \<Rightarrow> rat \<Rightarrow> ShadowPolicyCache \<Rightarrow> (int \<times> shadow_table) result" where
  "shadow_victim np_exp now c =
     (let t = sh_table c in
      if sh_policy c = ''fifo''
      then res_bind (py_min (\<lambda>he. [se_first_accessed (snd he), of_int (fst he)]) t) (\<lambda>he. Inr (fst he, t))
      else if sh_policy c = ''rrip'' then ShadowPolicyCache_rrip_victim t
      else if sh_policy c = ''pdp''
      then res_bind (py_min (ShadowPolicyCache_pdp_victim_key c) t) (\<lambda>he. Inr (fst he, t))
      else if sh_policy c = ''ml''
      then res_bind (res_map (\<lambda>(h, entry).
               res_bind (ShadowPolicyCache_ml_score np_exp entry (se_cache_hint entry) now) (\<lambda>s.
                 Inr ([s, se_last_accessed entry, of_int h], h))) t) (\<lambda>keys.
             res_bind (py_min fst keys) (\<lambda>kh. Inr (snd kh, t)))
      else res_bind (py_min lru_key t) (\<lambda>he. Inr (fst he, t)))"

definition ShadowPolicyCache_evict ::
    "(rat \<Rightarrow> rat) \<Rightarrow> rat \<Rightarrow> ShadowPolicyCache \<Rightarrow> ShadowPolicyCache result" where
  "ShadowPolicyCache_evict np_exp now c =
     (if sh_table c = [] then Inr c
      else res_bind (shadow_victim np_exp now c) (\<lambda>(victim, table).
        Inr (c\<lparr>sh_table := dict_pop victim table\<rparr>)))"

lemma rrip_age_keys [simp]:
  "map fst (rrip_age t) = map fst t" "length (rrip_age t) = length t" "rrip_age t = [] \<longleftrightarrow> t = []"
  by (auto simp: rrip_age_def)

lemma rrip_age_dom [simp]: "fst ` set (rrip_age t) = fst ` set t"
  by (metis list.set_map rrip_age_keys(1))

lemma rrip_victim_ok:
  "t \<noteq> [] \<Longrightarrow> \<exists>h t'. ShadowPolicyCache_rrip_victim t = Inr (h, t') \<and> h \<in> fst ` set t \<and>
     map fst t' = map fst t"
proof (induction t rule: ShadowPolicyCache_rrip_victim.induct)
  case (1 t)
  show ?case
  proof (cases "rrip_candidates t = []")
    case True
    then show ?thesis using 1 by (subst ShadowPolicyCache_rrip_victim.simps) auto
  next
    case False
    obtain he where he: "py_min lru_key (rrip_candidates t) = Inr he" using py_min_ok[OF False] by blast
    then have "he \<in> set t" using py_min_mem[OF he] by (auto simp: rrip_candidates_def)
    then show ?thesis using he False 1(2) by (subst ShadowPolicyCache_rrip_victim.simps) auto
  qed
qed

lemma shadow_victim_mem:
  assumes "shadow_victim np_exp now c = Inr (h, t')" "sh_table c \<noteq> []"
  shows "h \<in> fst ` set (sh_table c)" "map fst t' = map fst (sh_table c)"
proof -
  have m: "py_min key (sh_table c) = Inr he \<Longrightarrow> fst he \<in> fst ` set (sh_table c)" for key :: "_ \<Rightarrow> rat list" and he
    by (drule py_min_mem) simp
  have ml: "snd kh \<in> fst ` set (sh_table c)"
    if a: "res_map (\<lambda>(h, entry). res_bind (g entry) (\<lambda>s. Inr ([s, se_last_accessed entry, of_int h], h)))
          (sh_table c) = Inr keys" and b: "py_min fst keys = Inr kh" for g :: "_ \<Rightarrow> rat result" and keys kh
  proof -
    obtain i where i: "i < length keys" "kh = keys ! i"
      using py_min_mem[OF b] by (auto simp: in_set_conv_nth)
    have "i < length (sh_table c)" using i res_map_length[OF a] by simp
    moreover from res_map_nth[OF a this] have "snd kh = fst (sh_table c ! i)"
      using i by (auto simp: split_beta res_bind_Inr_iff) (metis snd_conv)
    ultimately show ?thesis by (metis imageI nth_mem)
  qed
  show "h \<in> fst ` set (sh_table c)" "map fst t' = map fst (sh_table c)"
    using assms rrip_victim_ok[of "sh_table c"]
    by (auto simp: shadow_victim_def Let_def split: if_splits elim!: res_bind_InrE dest: m ml)
qed

lemma shadow_evict_shrinks:
  assumes "ShadowPolicyCache_evict np_exp now c = Inr c'" "sh_table c \<noteq> []"
  shows "length (sh_table c') < length (sh_table c)"
proof -
  obtain h t' where v: "shadow_victim np_exp now c = Inr (h, t')" "c' = c\<lparr>sh_table := dict_pop h t'\<rparr>"
    using assms by (auto simp: ShadowPolicyCache_evict_def elim!: res_bind_InrE)
  have "h \<in> set (map fst t')" using shadow_victim_mem[OF v(1) assms(2)] by simp
  then have "length (dict_pop h t') < length t'" by (intro dict_pop_length_less) simp
  moreover have "length t' = length (sh_table c)"
    using shadow_victim_mem(2)[OF v(1) assms(2)] by (metis length_map)
  ultimately show ?thesis using v(2) by simp
qed

text \<open>
  Evicting while the table holds more than \<open>limit\<close> entries. With a negative limit the loop of
  the source would spin on an empty table.
\<close>

function ShadowPolicyCache_evict_to ::
    "(rat \<Rightarrow> rat) \<Rightarrow> rat \<Rightarrow> int \<Rightarrow> ShadowPolicyCache \<Rightarrow> ShadowPolicyCache result" where
  "ShadowPolicyCache_evict_to np_exp now limit c =
     (if int (length (sh_table c)) > limit
      then if sh_table c = [] then Inl Diverges
           else res_bind (ShadowPolicyCache_evict np_exp now c)
                  (ShadowPolicyCache_evict_to np_exp now limit)
      else Inr c)"
  by pat_completeness auto
termination
  by (relation "measure (\<lambda>(f, now, limit, c). length (sh_table c))") (auto intro: shadow_evict_shrinks)

declare ShadowPolicyCache_evict_to.simps [simp del]

definition ShadowPolicyCache_set_capacity ::
    "(rat \<Rightarrow> rat) \<Rightarrow> rat \<Rightarrow> ShadowPolicyCache \<Rightarrow> int \<Rightarrow> ShadowPolicyCache result" where
  "ShadowPolicyCache_set_capacity np_exp now c capacity =
     ShadowPolicyCache_evict_to np_exp now capacity (c\<lparr>sh_capacity := capacity\<rparr>)"

section \<open>Observing an access\<close>

definition ShadowPolicyCache_pdp_bucket_distance :: "ShadowPolicyCache \<Rightarrow> int \<Rightarrow> int result" where
  "ShadowPolicyCache_pdp_bucket_distance c distance =
     bucket_distance (sh_pdp_max_distance c) (sh_pdp_bucket_size c) distance"

definition ShadowPolicyCache_pdp_recompute :: "ShadowPolicyCache \<Rightarrow> ShadowPolicyCache result" where
  "ShadowPolicyCache_pdp_recompute c =
     res_bind (recompute_distance (sh_pdp_max_distance c) (sh_pdp_bucket_size c)
        (sh_pdp_eviction_distance c) (sh_pdp_total_accesses c)
        (sh_pdp_reuse_distance_counts c) (sh_pdp_protecting_distance c))
       (\<lambda>d. Inr (c\<lparr>sh_pdp_protecting_distance := d\<rparr>))"

definition shadow_pdp_observe :: "ShadowPolicyCache \<Rightarrow> int \<Rightarrow> ShadowPolicyCache result" where
  "shadow_pdp_observe c0 content_hash =
     (let c = c0\<lparr>sh_pdp_epoch := sh_pdp_epoch c0 + 1, sh_pdp_total_accesses := sh_pdp_total_accesses c0 + 1\<rparr>
      in res_bind (case dict_get (sh_pdp_last_seen_epoch c) content_hash of
             None \<Rightarrow> Inr c
           | Some prev_epoch \<Rightarrow>
               res_bind (ShadowPolicyCache_pdp_bucket_distance c (sh_pdp_epoch c - prev_epoch)) (\<lambda>dist.
                 Inr (c\<lparr>sh_pdp_reuse_distance_counts := dict_set dist
                   (dict_get_default (sh_pdp_reuse_distance_counts c) dist 0 + 1)
                   (sh_pdp_reuse_distance_counts c)\<rparr>))) (\<lambda>c1.
         let c2 = c1\<lparr>sh_pdp_last_seen_epoch :=
                    dict_set content_hash (sh_pdp_epoch c1) (sh_pdp_last_seen_epoch c1)\<rparr>
         in res_bind (py_mod (sh_pdp_total_accesses c2) (sh_pdp_recompute_interval c2)) (\<lambda>r.
              if r = 0 then ShadowPolicyCache_pdp_recompute c2 else Inr c2)))"

definition shadow_hit_entry ::
    "(rat \<Rightarrow> rat) \<Rightarrow> ShadowPolicyCache \<Rightarrow> shadow_entry \<Rightarrow> rat \<Rightarrow> cache_hint option \<Rightarrow> shadow_entry result" where
  "shadow_hit_entry np_exp c entry0 now cache_hint =
     (let entry = entry0\<lparr>se_last_accessed := now, se_cache_hint := cache_hint\<rparr>
      in if sh_policy c = ''rrip'' then Inr (entry\<lparr>se_rrpv := RRIP_HIT_RRPV\<rparr>)
         else if sh_policy c = ''ml''
         then res_bind (ShadowPolicyCache_ml_score np_exp entry cache_hint now) (\<lambda>s. Inr (entry\<lparr>se_score := s\<rparr>))
         else if sh_policy c = ''pdp''
         then Inr (entry\<lparr>se_pdp_protected_until := Some (sh_pdp_epoch c + sh_pdp_protecting_distance c),
                 se_pdp_last_access_epoch := Some (sh_pdp_epoch c), se_pdp_reused := Some True\<rparr>)
         else Inr entry)"

definition shadow_new_entry ::
    "(rat \<Rightarrow> rat) \<Rightarrow> ShadowPolicyCache \<Rightarrow> rat \<Rightarrow> cache_hint option \<Rightarrow> shadow_entry result" where
  "shadow_new_entry np_exp c now cache_hint =
     (let entry = \<lparr>se_first_accessed = now, se_last_accessed = now, se_rrpv = RRIP_INSERT_RRPV,
                   se_score = 0, se_cache_hint = cache_hint, se_pdp_protected_until = None,
                   se_pdp_last_access_epoch = None, se_pdp_reused = None\<rparr>
      in if sh_policy c = ''pdp''
         then Inr (entry\<lparr>se_pdp_protected_until := Some (sh_pdp_epoch c + sh_pdp_protecting_distance c),
                 se_pdp_last_access_epoch := Some (sh_pdp_epoch c), se_pdp_reused := Some False\<rparr>)
         else if sh_policy c = ''ml''
         then res_bind (ShadowPolicyCache_ml_score np_exp entry cache_hint now) (\<lambda>s. Inr (entry\<lparr>se_score := s\<rparr>))
         else Inr entry)"

definition shadow_touch ::
    "(rat \<Rightarrow> rat) \<Rightarrow> ShadowPolicyCache \<Rightarrow> int \<Rightarrow> rat \<Rightarrow> cache_hint option \<Rightarrow> ShadowPolicyCache result" where
  "shadow_touch np_exp c content_hash now cache_hint =
     (case dict_get (sh_table c) content_hash of
        Some entry \<Rightarrow>
          res_bind (shadow_hit_entry np_exp c entry now cache_hint) (\<lambda>entry'.
            Inr (c\<lparr>sh_table := dict_set content_hash entry' (sh_table c)\<rparr>))
      | None \<Rightarrow>
          if sh_capacity c \<le> 0 then Inr c
          else res_bind (ShadowPolicyCache_evict_to np_exp now (sh_capacity c - 1) c) (\<lambda>c'.
               res_bind (shadow_new_entry np_exp c' now cache_hint) (\<lambda>entry'.
                 Inr (c'\<lparr>sh_table := dict_set content_hash entry' (sh_table c')\<rparr>))))"

definition ShadowPolicyCache_access ::
    "(rat \<Rightarrow> rat) \<Rightarrow> ShadowPolicyCache \<Rightarrow> int \<Rightarrow> rat \<Rightarrow> cache_hint option \<Rightarrow> ShadowPolicyCache result" where
  "ShadowPolicyCache_access np_exp c content_hash now cache_hint =
     (let hit = dict_has (sh_table c) content_hash;
          c' = c\<lparr>sh_events := sh_events c @ [(now, if hit then 1 else 0)]\<rparr>
      in res_bind (if sh_policy c' = ''pdp'' then shadow_pdp_observe c' content_hash else Inr c')
           (\<lambda>c''. shadow_touch np_exp c'' content_hash now cache_hint))"

section \<open>Invariant\<close>

definition shadow_pdp_ok :: "ShadowPolicyCache \<Rightarrow> bool" where
  "shadow_pdp_ok c \<longleftrightarrow> 1 \<le> sh_pdp_max_distance c \<and> 1 \<le> sh_pdp_recompute_interval c \<and>
     1 \<le> sh_pdp_bucket_size c \<and> counts_ok (sh_pdp_max_distance c) (sh_pdp_reuse_distance_counts c)"

definition shadow_inv :: "ShadowPolicyCache \<Rightarrow> bool" where
  "shadow_inv c \<longleftrightarrow> dict_ok (sh_table c) \<and> int (length (sh_table c)) \<le> max 0 (sh_capacity c) \<and>
     (\<forall>e \<in> set (sh_events c). snd e = 0 \<or> snd e = 1) \<and> sh_policy c \<noteq> ''ml'' \<and>
     (sh_policy c = ''pdp'' \<longrightarrow> shadow_pdp_ok c)"

lemma shadow_victim_total:
  "sh_policy c \<noteq> ''ml'' \<Longrightarrow> sh_table c \<noteq> [] \<Longrightarrow> \<exists>v. shadow_victim np_exp now c = Inr v"
  using py_min_ok[of "sh_table c" "\<lambda>he. [se_first_accessed (snd he), of_int (fst he)]"]
    py_min_ok[of "sh_table c" lru_key] py_min_ok[of "sh_table c" "ShadowPolicyCache_pdp_victim_key c"]
    rrip_victim_ok[of "sh_table c"]
  by (auto simp: shadow_victim_def Let_def)

lemma shadow_evict_total:
  assumes "sh_policy c \<noteq> ''ml''" "dict_ok (sh_table c)"
  shows "\<exists>t. ShadowPolicyCache_evict np_exp now c = Inr (c\<lparr>sh_table := t\<rparr>) \<and> dict_ok t \<and>
           fst ` set t \<subseteq> fst ` set (sh_table c)"
proof (cases "sh_table c = []")
  case True
  then show ?thesis using assms(2)
    by (intro exI[of _ "sh_table c"]) (simp add: ShadowPolicyCache_evict_def)
next
  case False
  obtain h t' where v: "shadow_victim np_exp now c = Inr (h, t')"
    using shadow_victim_total[OF assms(1) False] by (metis surj_pair)
  note m = shadow_victim_mem[OF v False]
  have "dict_ok t'" using m(2) assms(2) by (simp add: dict_ok_def)
  moreover have "fst ` set t' = fst ` set (sh_table c)" by (metis list.set_map m(2))
  then have "fst ` set (dict_pop h t') \<subseteq> fst ` set (sh_table c)" unfolding dict_keys_pop by blast
  ultimately show ?thesis using v False
    by (intro exI[of _ "dict_pop h t'"]) (simp add: ShadowPolicyCache_evict_def)
qed

lemma shadow_evict_to_total:
  assumes "sh_policy c \<noteq> ''ml''" "dict_ok (sh_table c)" "0 \<le> limit"
  shows "\<exists>t. ShadowPolicyCache_evict_to np_exp now limit c = Inr (c\<lparr>sh_table := t\<rparr>) \<and> dict_ok t \<and>
           fst ` set t \<subseteq> fst ` set (sh_table c) \<and> int (length t) \<le> limit"
  using assms
proof (induction np_exp now limit c rule: ShadowPolicyCache_evict_to.induct)
  case (1 np_exp now limit c)
  show ?case
  proof (cases "int (length (sh_table c)) > limit")
    case True
    then have ne: "sh_table c \<noteq> []" using 1(4) by auto
    obtain t where t: "ShadowPolicyCache_evict np_exp now c = Inr (c\<lparr>sh_table := t\<rparr>)" "dict_ok t"
      "fst ` set t \<subseteq> fst ` set (sh_table c)"
      using shadow_evict_total 1(2,3) by blast
    obtain t' where "ShadowPolicyCache_evict_to np_exp now limit (c\<lparr>sh_table := t\<rparr>) = Inr (c\<lparr>sh_table := t'\<rparr>)"
      "dict_ok t'" "fst ` set t' \<subseteq> fst ` set t" "int (length t') \<le> limit"
      using 1(1)[OF True ne t(1)] 1(2,4) t(2) by auto
    then show ?thesis using True ne t
      by (subst ShadowPolicyCache_evict_to.simps) (auto intro!: exI[of _ t'])
  next
    case False
    then show ?thesis using 1(3)
      by (subst ShadowPolicyCache_evict_to.simps) (auto intro!: exI[of _ "sh_table c"])
  qed
qed

lemma shadow_pdp_observe_total:
  assumes "shadow_pdp_ok c"
  shows "\<exists>c'. shadow_pdp_observe c h = Inr c' \<and> shadow_pdp_ok c' \<and> sh_policy c' = sh_policy c \<and>
    sh_table c' = sh_table c \<and> sh_events c' = sh_events c \<and> sh_capacity c' = sh_capacity c"
proof -
  let ?c = "c\<lparr>sh_pdp_epoch := sh_pdp_epoch c + 1, sh_pdp_total_accesses := sh_pdp_total_accesses c + 1\<rparr>"
  let ?m = "case dict_get (sh_pdp_last_seen_epoch ?c) h of None \<Rightarrow> Inr ?c
     | Some p \<Rightarrow> res_bind (ShadowPolicyCache_pdp_bucket_distance ?c (sh_pdp_epoch ?c - p)) (\<lambda>dist.
         Inr (?c\<lparr>sh_pdp_reuse_distance_counts := dict_set dist
            (dict_get_default (sh_pdp_reuse_distance_counts ?c) dist 0 + 1) (sh_pdp_reuse_distance_counts ?c)\<rparr>))"
  obtain c1 where c1: "?m = Inr c1" "shadow_pdp_ok c1" "sh_policy c1 = sh_policy c"
    "sh_table c1 = sh_table c" "sh_events c1 = sh_events c" "sh_capacity c1 = sh_capacity c"
  proof (cases "dict_get (sh_pdp_last_seen_epoch ?c) h")
    case None
    then show ?thesis using that[of ?c] assms by (simp add: shadow_pdp_ok_def)
  next
    case (Some p)
    obtain d where d: "bucket_distance (sh_pdp_max_distance c) (sh_pdp_bucket_size c) (sh_pdp_epoch c + 1 - p) = Inr d"
      "1 \<le> d" "d \<le> sh_pdp_max_distance c"
      using bucket_distance_range assms unfolding shadow_pdp_ok_def by blast
    let ?c1 = "?c\<lparr>sh_pdp_reuse_distance_counts := dict_set d
       (dict_get_default (sh_pdp_reuse_distance_counts c) d 0 + 1) (sh_pdp_reuse_distance_counts c)\<rparr>"
    have "counts_ok (sh_pdp_max_distance c) (sh_pdp_reuse_distance_counts ?c1)"
      using assms d counts_ok_bump by (simp add: shadow_pdp_ok_def)
    with d(1) Some assms show ?thesis
      by (intro that[of ?c1]) (simp_all add: ShadowPolicyCache_pdp_bucket_distance_def shadow_pdp_ok_def)
  qed
  let ?c2 = "c1\<lparr>sh_pdp_last_seen_epoch := dict_set h (sh_pdp_epoch c1) (sh_pdp_last_seen_epoch c1)\<rparr>"
  have "\<exists>d. recompute_distance (sh_pdp_max_distance c1) (sh_pdp_bucket_size c1) (sh_pdp_eviction_distance c1)
      (sh_pdp_total_accesses c1) (sh_pdp_reuse_distance_counts c1) (sh_pdp_protecting_distance c1) = Inr d"
    using recompute_distance_total c1(2) unfolding shadow_pdp_ok_def by meson
  moreover have "py_mod (sh_pdp_total_accesses c1) (sh_pdp_recompute_interval c1) =
      Inr (sh_pdp_total_accesses c1 mod sh_pdp_recompute_interval c1)"
    using c1(2) by (auto simp: py_mod_def shadow_pdp_ok_def)
  ultimately show ?thesis using c1
    by (auto simp: shadow_pdp_observe_def Let_def ShadowPolicyCache_pdp_recompute_def shadow_pdp_ok_def)
qed

lemma shadow_hit_entry_total: "sh_policy c \<noteq> ''ml'' \<Longrightarrow> \<exists>e'. shadow_hit_entry np_exp c e now hint = Inr e'"
  by (auto simp: shadow_hit_entry_def Let_def)

lemma shadow_new_entry_total: "sh_policy c \<noteq> ''ml'' \<Longrightarrow> \<exists>e'. shadow_new_entry np_exp c now hint = Inr e'"
  by (auto simp: shadow_new_entry_def Let_def)

lemma shadow_access_prepare:
  assumes "shadow_inv c"
  obtains c1 where
    "(if sh_policy c = ''pdp'' then shadow_pdp_observe (c\<lparr>sh_events := ev\<rparr>) h else Inr (c\<lparr>sh_events := ev\<rparr>)) = Inr c1"
    "sh_policy c1 = sh_policy c" "sh_table c1 = sh_table c" "sh_events c1 = ev"
    "sh_capacity c1 = sh_capacity c" "sh_policy c = ''pdp'' \<longrightarrow> shadow_pdp_ok c1"
proof (cases "sh_policy c = ''pdp''")
  case True
  then have "shadow_pdp_ok (c\<lparr>sh_events := ev\<rparr>)" using assms by (simp add: shadow_inv_def shadow_pdp_ok_def)
  from shadow_pdp_observe_total[OF this, of h] True that show ?thesis by auto
qed (use that[of "c\<lparr>sh_events := ev\<rparr>"] in auto)

lemma shadow_access_total:
  assumes "shadow_inv c"
  shows "\<exists>c'. ShadowPolicyCache_access np_exp c h now hint = Inr c' \<and> shadow_inv c' \<and>
           sh_policy c' = sh_policy c \<and> sh_capacity c' = sh_capacity c \<and>
           sh_events c' = sh_events c @ [(now, if dict_has (sh_table c) h then 1 else 0)] \<and>
           (0 < sh_capacity c \<longrightarrow> dict_has (sh_table c') h)"
proof -
  let ?ev = "sh_events c @ [(now, if dict_has (sh_table c) h then 1 else 0)]"
  have ml: "sh_policy c \<noteq> ''ml''" using assms by (simp add: shadow_inv_def)
  obtain c1 where c1: "(if sh_policy c = ''pdp'' then shadow_pdp_observe (c\<lparr>sh_events := ?ev\<rparr>) h
      else Inr (c\<lparr>sh_events := ?ev\<rparr>)) = Inr c1"
    "sh_policy c1 = sh_policy c" "sh_table c1 = sh_table c" "sh_events c1 = ?ev"
    "sh_capacity c1 = sh_capacity c" "sh_policy c = ''pdp'' \<longrightarrow> shadow_pdp_ok c1"
    using shadow_access_prepare[OF assms] by metis
  have i1: "shadow_inv c1" using assms c1 by (auto simp: shadow_inv_def)
  have acc: "ShadowPolicyCache_access np_exp c h now hint = shadow_touch np_exp c1 h now hint"
    using c1(1) by (simp add: ShadowPolicyCache_access_def Let_def del: not_None_eq split del: if_split)
  show ?thesis
  proof (cases "dict_get (sh_table c1) h")
    case (Some e)
    obtain e' where e': "shadow_hit_entry np_exp c1 e now hint = Inr e'"
      using shadow_hit_entry_total ml c1(2) by metis
    let ?c = "c1\<lparr>sh_table := dict_set h e' (sh_table c1)\<rparr>"
    have "ShadowPolicyCache_access np_exp c h now hint = Inr ?c"
      using Some e' by (simp add: acc shadow_touch_def)
    moreover have "length (dict_set h e' (sh_table c1)) = length (sh_table c1)"
      using i1 Some by (simp add: shadow_inv_def dict_length_set)
    then have "shadow_inv ?c" using i1 by (simp add: shadow_inv_def shadow_pdp_ok_def)
    ultimately show ?thesis using c1 by simp
  next
    case None
    show ?thesis
    proof (cases "sh_capacity c1 \<le> 0")
      case True
      have "ShadowPolicyCache_access np_exp c h now hint = Inr c1"
        using None True by (simp add: acc shadow_touch_def)
      then show ?thesis using i1 c1 True by simp
    next
      case False
      obtain t where t: "ShadowPolicyCache_evict_to np_exp now (sh_capacity c1 - 1) c1 = Inr (c1\<lparr>sh_table := t\<rparr>)"
        "dict_ok t" "fst ` set t \<subseteq> fst ` set (sh_table c1)" "int (length t) \<le> sh_capacity c1 - 1"
        using shadow_evict_to_total[of c1 "sh_capacity c1 - 1" np_exp now] i1 False by (auto simp: shadow_inv_def)
      obtain e' where e': "shadow_new_entry np_exp (c1\<lparr>sh_table := t\<rparr>) now hint = Inr e'"
        using shadow_new_entry_total[of "c1\<lparr>sh_table := t\<rparr>" np_exp now hint] ml c1(2) by auto
      let ?c = "c1\<lparr>sh_table := dict_set h e' t\<rparr>"
      have "ShadowPolicyCache_access np_exp c h now hint = Inr ?c"
        using None False t(1) e' by (simp add: acc shadow_touch_def)
      moreover have "int (length (dict_set h e' t)) \<le> sh_capacity c1"
        using t(2,4) by (simp add: dict_length_set)
      then have "shadow_inv ?c" using i1 t(2) by (simp add: shadow_inv_def shadow_pdp_ok_def)
      ultimately show ?thesis using c1 by simp
    qed
  qed
qed

section \<open>Properties\<close>

text \<open>
  Replaying one access in a shadow cache (of a policy other than ml) succeeds, records a
  hit exactly when the hash was present, keeps the number of entries within the capacity, and
  leaves the hash cached when the capacity is positive.
\<close>

theorem ShadowPolicyCache_access_correct:
  assumes "shadow_inv c"
  shows "\<exists>c'. ShadowPolicyCache_access np_exp c h now hint = Inr c' \<and> shadow_inv c' \<and>
           int (length (sh_table c')) \<le> max 0 (sh_capacity c) \<and>
           sh_events c' = sh_events c @ [(now, if dict_has (sh_table c) h then 1 else 0)] \<and>
           (0 < sh_capacity c \<longrightarrow> dict_has (sh_table c') h)"
  using shadow_access_total[OF assms, of np_exp h now hint] by (auto simp: shadow_inv_def)

lemma shadow_inv_plain: "policy \<notin> {''ml'', ''pdp''} \<Longrightarrow> shadow_inv (ShadowPolicyCache_plain policy n)"
  by (simp add: shadow_inv_def ShadowPolicyCache_plain_def)

theorem ShadowPolicyCache_access_correct_witness:
  "\<exists>c'. ShadowPolicyCache_access id (ShadowPolicyCache_plain ''rrip'' 2) 70 5 None = Inr c' \<and> shadow_inv c'"
  using ShadowPolicyCache_access_correct[OF shadow_inv_plain[of "''rrip''" 2], of id 70 5 None] by auto

lemma rrip_victim_best:
  assumes "ShadowPolicyCache_rrip_victim t = Inr (h, t')" "\<forall>(h, e) \<in> set t. se_rrpv e \<le> RRIP_MAX_RRPV"
  shows "\<exists>e. (h, e) \<in> set t \<and> (\<forall>(h', e') \<in> set t. se_rrpv e' \<le> se_rrpv e \<and>
           (se_rrpv e' = se_rrpv e \<longrightarrow> se_last_accessed e \<le> se_last_accessed e'))"
  using assms
proof (induction t rule: ShadowPolicyCache_rrip_victim.induct)
  case (1 t)
  have ne: "t \<noteq> []" using 1(2) by (auto simp: ShadowPolicyCache_rrip_victim.simps)
  show ?case
  proof (cases "rrip_candidates t = []")
    case False
    obtain he where he: "py_min lru_key (rrip_candidates t) = Inr he" "h = fst he"
      using 1(2) ne False by (subst (asm) ShadowPolicyCache_rrip_victim.simps) auto
    have m: "he \<in> set t" "se_rrpv (snd he) \<ge> RRIP_MAX_RRPV"
      using py_min_mem[OF he(1)] by (auto simp: rrip_candidates_def)
    have mx: "se_rrpv e' \<le> RRIP_MAX_RRPV" if "(h', e') \<in> set t" for h' e' using 1(3) that by auto
    have "se_last_accessed (snd he) \<le> se_last_accessed e'"
      if "(h', e') \<in> set t" "se_rrpv e' = RRIP_MAX_RRPV" for h' e'
      using py_min_le[OF he(1), of "(h', e')"] that by (auto simp: rrip_candidates_def lru_key_def)
    moreover have "se_rrpv (snd he) = RRIP_MAX_RRPV" using m mx[of "fst he" "snd he"] by simp
    ultimately show ?thesis using m(1) mx he(2) by (intro exI[of _ "snd he"]) auto
  next
    case True
    have lt: "se_rrpv e < RRIP_MAX_RRPV" if "(h, e) \<in> set t" for h e
      using True that by (auto simp: rrip_candidates_def filter_empty_conv)
    have r: "ShadowPolicyCache_rrip_victim (rrip_age t) = Inr (h, t')"
      using 1(2) ne True by (subst (asm) ShadowPolicyCache_rrip_victim.simps) auto
    have "\<forall>(h, e) \<in> set (rrip_age t). se_rrpv e \<le> RRIP_MAX_RRPV" by (auto simp: rrip_age_def)
    from 1(1)[OF ne _ r this] True obtain e where e: "(h, e) \<in> set (rrip_age t)"
      "\<forall>(h', e') \<in> set (rrip_age t). se_rrpv e' \<le> se_rrpv e \<and>
         (se_rrpv e' = se_rrpv e \<longrightarrow> se_last_accessed e \<le> se_last_accessed e')" by auto
    obtain e0 where e0: "(h, e0) \<in> set t" "e = e0\<lparr>se_rrpv := se_rrpv e0 + 1\<rparr>"
      using e(1) lt by (fastforce simp: rrip_age_def min_def)
    have aged: "(h', e'\<lparr>se_rrpv := se_rrpv e' + 1\<rparr>) \<in> set (rrip_age t)" if "(h', e') \<in> set t" for h' e'
      using that lt[OF that] by (force simp: rrip_age_def min_def image_iff)
    have "se_rrpv e' \<le> se_rrpv e0 \<and> (se_rrpv e' = se_rrpv e0 \<longrightarrow> se_last_accessed e0 \<le> se_last_accessed e')"
      if "(h', e') \<in> set t" for h' e'
      using bspec[OF e(2) aged[OF that]] e0(2) by simp
    then show ?thesis using e0(1) by auto
  qed
qed

text \<open>
  The aging loop of the RRIP shadow policy returns on every non-empty table, and its
  victim had the largest re-reference value of the table before aging; among those it was
  the least recently accessed.
\<close>

theorem ShadowPolicyCache_rrip_victim_largest_rrpv:
  assumes "t \<noteq> []" "\<forall>(h, e) \<in> set t. se_rrpv e \<le> RRIP_MAX_RRPV"
  shows "\<exists>h t' e. ShadowPolicyCache_rrip_victim t = Inr (h, t') \<and> (h, e) \<in> set t \<and>
           map fst t' = map fst t \<and>
           (\<forall>(h', e') \<in> set t. se_rrpv e' \<le> se_rrpv e \<and>
              (se_rrpv e' = se_rrpv e \<longrightarrow> se_last_accessed e \<le> se_last_accessed e'))"
proof -
  obtain h t' where v: "ShadowPolicyCache_rrip_victim t = Inr (h, t')" "map fst t' = map fst t"
    using rrip_victim_ok[OF assms(1)] by blast
  with rrip_victim_best[OF v(1) assms(2)] show ?thesis by blast
qed

definition shadow_example_entry :: shadow_entry where
  "shadow_example_entry = \<lparr>se_first_accessed = 1, se_last_accessed = 4, se_rrpv = 0, se_score = 0,
     se_cache_hint = None, se_pdp_protected_until = None, se_pdp_last_access_epoch = None,
     se_pdp_reused = None\<rparr>"

theorem ShadowPolicyCache_rrip_victim_largest_rrpv_witness:
  "\<exists>h t'. ShadowPolicyCache_rrip_victim
     [(1, shadow_example_entry), (2, shadow_example_entry\<lparr>se_rrpv := 2\<rparr>)] = Inr (h, t')"
  using ShadowPolicyCache_rrip_victim_largest_rrpv[of "[(1, shadow_example_entry),
     (2, shadow_example_entry\<lparr>se_rrpv := 2\<rparr>)]"]
  by (auto simp: shadow_example_entry_def RRIP_MAX_RRPV_def)

end
