(* ===== verification/Policy_Scheduler.thy ===== *)
theory Policy_Scheduler
  imports Shadow_Cache
begin

text \<open>
  The class EvictionPolicyScheduler of vllm/core/evictor.py: during a warmup period the real
  cache runs the learned policy while shadow caches replay a sample of the accesses; at the
  first sampled access after the warmup the scheduler picks one policy and freezes it.
\<close>

definition SCHEDULER_POLICIES :: "string list" where
  "SCHEDULER_POLICIES = [''ml'', ''lru'', ''rrip'', ''fifo'', ''pdp'']"

definition SHADOW_POLICIES :: "string list" where
  "SHADOW_POLICIES = [''lru'', ''rrip'', ''fifo'', ''pdp'']"

record EvictionPolicyScheduler =
  sc_enabled :: bool
  sc_warmup_s :: rat
  sc_min_events :: int
  sc_small_threshold :: rat
  sc_large_threshold :: rat
  sc_model_size_b :: rat
  sc_current_policy :: string
  sc_start_time :: rat
  sc_finalized :: bool
  sc_capacity :: int
  sc_observe_stride :: int
  sc_num_observed_accesses :: int
  sc_ml_events :: "(rat \<times> int) list"
  sc_shadow_policies :: "string list"
  sc_shadow_caches :: "(string, ShadowPolicyCache) dict"

definition char_lower :: "char \<Rightarrow> char" where
  "char_lower c = (if 65 \<le> (of_char c :: nat) \<and> (of_char c :: nat) \<le> 90
     then char_of (of_char c + 32 :: nat) else c)"

definition as_bool :: "string \<Rightarrow> bool" where
  "as_bool value = (map char_lower value \<in> set [''1'', ''true'', ''yes'', ''on''])"

definition parse_shadow_policies :: "string option \<Rightarrow> string list result" where
  "parse_shadow_policies value =
     (case value of None \<Rightarrow> Inr SHADOW_POLICIES
      | Some v \<Rightarrow>
          if v = [] then Inr SHADOW_POLICIES
          else let policies = filter (\<lambda>p. p \<noteq> []) (map py_strip (split_on (CHR ''|'') v));
                   invalid = filter (\<lambda>p. p \<notin> set SCHEDULER_POLICIES) policies;
                   others = filter (\<lambda>p. p \<noteq> ''ml'') policies
               in if invalid \<noteq> [] then Inl ValueError
                  else if others = [] then Inl ValueError else Inr others)"

fun init_shadow_caches ::
    "int \<Rightarrow> (string, string) dict \<Rightarrow> string list \<Rightarrow> (string, ShadowPolicyCache) dict \<Rightarrow>
     (string, ShadowPolicyCache) dict result" where
  "init_shadow_caches capacity cfg [] d = Inr d"
| "init_shadow_caches capacity cfg (policy # policies) d =
     res_bind (ShadowPolicyCache_init policy capacity (if policy = ''pdp'' then cfg else []))
       (\<lambda>c. init_shadow_caches capacity cfg policies (dict_set policy c d))"

definition EvictionPolicyScheduler_init ::
    "rat \<Rightarrow> (string, string) dict \<Rightarrow> EvictionPolicyScheduler result" where
  "EvictionPolicyScheduler_init now cfg =
     res_bind (config_float cfg ''scheduler_warmup'' 100) (\<lambda>warmup.
     res_bind (config_int cfg ''scheduler_min_events'' 1000) (\<lambda>min_events.
     res_bind (config_float cfg ''scheduler_small_threshold'' (10 / 100)) (\<lambda>small.
     res_bind (config_float cfg ''scheduler_large_threshold'' (5 / 100)) (\<lambda>large.
     res_bind (config_float cfg ''model_size_b'' 7) (\<lambda>size.
     res_bind (config_int cfg ''scheduler_capacity'' 0) (\<lambda>capacity.
     res_bind (config_int cfg ''scheduler_observe_stride'' 4) (\<lambda>stride.
     res_bind (parse_shadow_policies (dict_get cfg ''scheduler_shadow_policies'')) (\<lambda>policies.
     res_bind (init_shadow_caches capacity cfg policies []) (\<lambda>caches.
       Inr \<lparr>sc_enabled = as_bool (dict_get_default cfg ''enable_scheduler'' ''0''),
            sc_warmup_s = warmup, sc_min_events = min_events, sc_small_threshold = small,
            sc_large_threshold = large, sc_model_size_b = size,
            sc_current_policy = dict_get_default cfg ''scheduler_initial_policy'' ''ml'',
            sc_start_time = now, sc_finalized = False, sc_capacity = capacity,
            sc_observe_stride = max 1 stride, sc_num_observed_accesses = 0, sc_ml_events = [],
            sc_shadow_policies = policies, sc_shadow_caches = caches\<rparr>)))))))))"

fun map_caches ::
    "(ShadowPolicyCache \<Rightarrow> ShadowPolicyCache result) \<Rightarrow> (string, ShadowPolicyCache) dict \<Rightarrow>
     (string, ShadowPolicyCache) dict result" where
  "map_caches f [] = Inr []"
| "map_caches f ((p, c) # cs) =
     res_bind (f c) (\<lambda>c'. res_bind (map_caches f cs) (\<lambda>cs'. Inr ((p, c') # cs')))"

definition EvictionPolicyScheduler_set_capacity ::
    "(rat \<Rightarrow> rat) \<Rightarrow> rat \<Rightarrow> EvictionPolicyScheduler \<Rightarrow> int \<Rightarrow> EvictionPolicyScheduler result" where
  "EvictionPolicyScheduler_set_capacity np_exp now s capacity =
     res_bind (map_caches (\<lambda>c. ShadowPolicyCache_set_capacity np_exp now c capacity) (sc_shadow_caches s))
       (\<lambda>caches. Inr (s\<lparr>sc_capacity := capacity, sc_shadow_caches := caches\<rparr>))"

definition EvictionPolicyScheduler_should_predict :: "EvictionPolicyScheduler \<Rightarrow> bool" where
  "EvictionPolicyScheduler_should_predict s =
     (if \<not> sc_enabled s then True else \<not> sc_finalized s \<or> sc_current_policy s = ''ml'')"

definition EvictionPolicyScheduler_ml_hit_rate :: "EvictionPolicyScheduler \<Rightarrow> rat" where
  "EvictionPolicyScheduler_ml_hit_rate s =
     (if sc_ml_events s = [] then 0
      else rat_of_int (sum_list (map snd (sc_ml_events s))) / rat_of_nat (length (sc_ml_events s)))"

definition scheduler_hit_rates :: "EvictionPolicyScheduler \<Rightarrow> (string, rat) dict" where
  "scheduler_hit_rates s =
     fold (\<lambda>(p, c). dict_set p (ShadowPolicyCache_hit_rate c)) (sc_shadow_caches s)
       [(''ml'', EvictionPolicyScheduler_ml_hit_rate s)]"

definition scheduler_threshold :: "EvictionPolicyScheduler \<Rightarrow> rat" where
  "scheduler_threshold s = (if sc_model_size_b s \<le> 14 then sc_small_threshold s else sc_large_threshold s)"

definition EvictionPolicyScheduler_finalize_policy ::
    "EvictionPolicyScheduler \<Rightarrow> (bool \<times> EvictionPolicyScheduler) result" where
  "EvictionPolicyScheduler_finalize_policy s =
     (let num_events = min_list (length (sc_ml_events s) #
            map ShadowPolicyCache_num_events (dict_values (sc_shadow_caches s)))
      in if num_events = 0 then Inr (True, s\<lparr>sc_current_policy := ''ml'', sc_finalized := True\<rparr>)
         else let hit_rates = scheduler_hit_rates s in
           res_bind (res_map (\<lambda>p. res_bind (dict_item hit_rates p) (\<lambda>r. Inr (r, p))) (sc_shadow_policies s)) (\<lambda>rated.
           res_bind (py_max fst rated) (\<lambda>(best_other, best_shadow_policy).
           res_bind (dict_item hit_rates ''ml'') (\<lambda>ml_rate.
             Inr (True, s\<lparr>sc_current_policy :=
                   (if ml_rate \<ge> best_other + scheduler_threshold s then ''ml'' else best_shadow_policy),
                 sc_finalized := True\<rparr>)))))"

definition EvictionPolicyScheduler_observe ::
    "(rat \<Rightarrow> rat) \<Rightarrow> rat \<Rightarrow> EvictionPolicyScheduler \<Rightarrow> int \<Rightarrow> cache_hint option \<Rightarrow> bool option \<Rightarrow>
     (bool \<times> EvictionPolicyScheduler) result" where
  "EvictionPolicyScheduler_observe np_exp now s content_hash cache_hint real_hit =
     (if \<not> sc_enabled s then Inr (False, s)
      else if sc_finalized s then Inr (False, s)
      else let s1 = s\<lparr>sc_num_observed_accesses := sc_num_observed_accesses s + 1\<rparr>
        in if sc_num_observed_accesses s1 mod sc_observe_stride s1 \<noteq> 0 then Inr (False, s1)
           else let s2 = (case real_hit of None \<Rightarrow> s1
                   | Some h \<Rightarrow> s1\<lparr>sc_ml_events := sc_ml_events s1 @ [(now, if h then 1 else 0)]\<rparr>)
             in res_bind (map_caches (\<lambda>c. ShadowPolicyCache_access np_exp c content_hash now cache_hint)
                    (sc_shadow_caches s2)) (\<lambda>caches.
                  let s3 = s2\<lparr>sc_shadow_caches := caches\<rparr>
                  in if now - sc_start_time s3 \<ge> sc_warmup_s s3
                     then EvictionPolicyScheduler_finalize_policy s3
                     else Inr (False, s3)))"

section \<open>Invariant\<close>

definition sched_inv :: "EvictionPolicyScheduler \<Rightarrow> bool" where
  "sched_inv s \<longleftrightarrow> dict_ok (sc_shadow_caches s) \<and> 1 \<le> sc_observe_stride s \<and>
     sc_shadow_policies s \<noteq> [] \<and>
     set (sc_shadow_policies s) = fst ` set (sc_shadow_caches s) \<and>
     ''ml'' \<notin> set (sc_shadow_policies s) \<and>
     (\<forall>p c. (p, c) \<in> set (sc_shadow_caches s) \<longrightarrow> shadow_inv c)"

lemma map_caches_total:
  assumes "\<And>c. Q c \<Longrightarrow> \<exists>c'. f c = Inr c' \<and> R c c'" "\<forall>p c. (p, c) \<in> set cs \<longrightarrow> Q c"
  shows "\<exists>cs'. map_caches f cs = Inr cs' \<and> map fst cs' = map fst cs \<and>
           list_all2 (\<lambda>x y. R (snd x) (snd y)) cs cs'"
  using assms(2)
proof (induction cs)
  case (Cons pc cs)
  then obtain c' where c': "f (snd pc) = Inr c'" "R (snd pc) c'" using assms(1)[of "snd pc"] by (cases pc) auto
  obtain cs' where "map_caches f cs = Inr cs'" "map fst cs' = map fst cs"
    "list_all2 (\<lambda>x y. R (snd x) (snd y)) cs cs'" using Cons by auto
  with c' show ?case by (cases pc) auto
qed simp

lemma scheduler_hit_rates_get:
  assumes "dict_ok (sc_shadow_caches s)"
  shows "dict_get (scheduler_hit_rates s) p =
     (case dict_get (sc_shadow_caches s) p of
        Some c \<Rightarrow> Some (ShadowPolicyCache_hit_rate c)
      | None \<Rightarrow> if p = ''ml'' then Some (EvictionPolicyScheduler_ml_hit_rate s) else None)"
  using dict_get_fold_set[OF assms, of ShadowPolicyCache_hit_rate "[(''ml'', EvictionPolicyScheduler_ml_hit_rate s)]" p]
  by (simp add: scheduler_hit_rates_def split: option.split)

text \<open>The choice made at the end of the warmup.\<close>

lemma finalize_policy_choice:
  assumes i: "sched_inv s" and ne: "sc_ml_events s \<noteq> []"
    "\<forall>p c. (p, c) \<in> set (sc_shadow_caches s) \<longrightarrow> sh_events c \<noteq> []"
  shows "\<exists>best c. best \<in> set (sc_shadow_policies s) \<and> dict_get (sc_shadow_caches s) best = Some c \<and>
     (\<forall>p c'. dict_get (sc_shadow_caches s) p = Some c' \<longrightarrow>
        ShadowPolicyCache_hit_rate c' \<le> ShadowPolicyCache_hit_rate c) \<and>
     EvictionPolicyScheduler_finalize_policy s = Inr (True, s\<lparr>sc_current_policy :=
        (if EvictionPolicyScheduler_ml_hit_rate s \<ge> ShadowPolicyCache_hit_rate c + scheduler_threshold s
         then ''ml'' else best), sc_finalized := True\<rparr>)"
proof -
  have ok: "dict_ok (sc_shadow_caches s)" using i by (simp add: sched_inv_def)
  note get = scheduler_hit_rates_get[OF ok]
  let ?rate = "\<lambda>p. case dict_get (sc_shadow_caches s) p of Some c \<Rightarrow> ShadowPolicyCache_hit_rate c | None \<Rightarrow> 0"
  have has: "\<exists>c. dict_get (sc_shadow_caches s) p = Some c" if "p \<in> set (sc_shadow_policies s)" for p
    using that i dict_has_keys[of "sc_shadow_caches s" p] by (auto simp: sched_inv_def)
  have rm: "res_map (\<lambda>p. res_bind (dict_item (scheduler_hit_rates s) p) (\<lambda>r. Inr (r, p))) (sc_shadow_policies s)
      = Inr (map (\<lambda>p. (?rate p, p)) (sc_shadow_policies s))"
    by (rule res_map_ok) (use has in \<open>fastforce simp: dict_item_def get\<close>)
  obtain r best where mx: "py_max fst (map (\<lambda>p. (?rate p, p)) (sc_shadow_policies s)) = Inr (r, best)"
    using py_max_ok[of "map (\<lambda>p. (?rate p, p)) (sc_shadow_policies s)" fst] i
    by (auto simp: sched_inv_def)
  have b: "best \<in> set (sc_shadow_policies s)" "r = ?rate best" using py_max_mem[OF mx] by auto
  obtain c where c: "dict_get (sc_shadow_caches s) best = Some c" using has[OF b(1)] by blast
  have best: "ShadowPolicyCache_hit_rate c' \<le> ShadowPolicyCache_hit_rate c"
    if "dict_get (sc_shadow_caches s) p = Some c'" for p c'
  proof -
    have "p \<in> fst ` set (sc_shadow_caches s)" using that by (metis dict_has_keys list.set_map option.discI)
    then have "(?rate p, p) \<in> set (map (\<lambda>p. (?rate p, p)) (sc_shadow_policies s))"
      using i by (auto simp: sched_inv_def)
    from py_max_ge[OF mx this] show ?thesis using that b(2) c by simp
  qed
  have ml: "dict_item (scheduler_hit_rates s) ''ml'' = Inr (EvictionPolicyScheduler_ml_hit_rate s)"
  proof -
    have "dict_get (sc_shadow_caches s) ''ml'' = None"
      using i by (auto simp: sched_inv_def map_of_eq_None_iff)
    then show ?thesis by (simp add: dict_item_def get)
  qed
  have "min_list (length (sc_ml_events s) # map ShadowPolicyCache_num_events (dict_values (sc_shadow_caches s))) \<noteq> 0"
    using ne by (subst min_list_Min) (auto simp: ShadowPolicyCache_num_events_def Min_eq_iff)
  then have "EvictionPolicyScheduler_finalize_policy s = Inr (True, s\<lparr>sc_current_policy :=
        (if EvictionPolicyScheduler_ml_hit_rate s \<ge> ShadowPolicyCache_hit_rate c + scheduler_threshold s
         then ''ml'' else best), sc_finalized := True\<rparr>)"
    using rm mx ml b(2) c
    by (simp add: EvictionPolicyScheduler_finalize_policy_def Let_def)
  with b(1) c best show ?thesis by blast
qed

section \<open>Totality of the operations\<close>

lemma sched_inv_caches:
  assumes "sched_inv s" "map fst caches = map fst (sc_shadow_caches s)"
    "\<forall>p c. (p, c) \<in> set caches \<longrightarrow> shadow_inv c"
  shows "sched_inv (s\<lparr>sc_shadow_caches := caches\<rparr>)"
proof -
  have "fst ` set caches = fst ` set (sc_shadow_caches s)" by (metis assms(2) list.set_map)
  then show ?thesis using assms by (auto simp: sched_inv_def dict_ok_def)
qed

lemma sched_inv_other:
  "sched_inv (s\<lparr>sc_num_observed_accesses := n\<rparr>) = sched_inv s"
  "sched_inv (s\<lparr>sc_ml_events := ev\<rparr>) = sched_inv s"
  "sched_inv (s\<lparr>sc_current_policy := p, sc_finalized := f\<rparr>) = sched_inv s"
  "sched_inv (s\<lparr>sc_capacity := k\<rparr>) = sched_inv s"
  by (simp_all add: sched_inv_def)

lemma list_all2_inv:
  assumes "list_all2 (\<lambda>x y. R (snd x) (snd y) \<and> Q (snd y)) cs cs'"
  shows "\<forall>p c. (p, c) \<in> set cs' \<longrightarrow> Q c"
  using assms by (induction rule: list_all2_induct) auto

text \<open>Every shadow cache replays the access, whatever its policy.\<close>

definition replayed ::
    "int \<Rightarrow> rat \<Rightarrow> ShadowPolicyCache \<Rightarrow> ShadowPolicyCache \<Rightarrow> bool" where
  "replayed h now c c' \<longleftrightarrow> sh_policy c' = sh_policy c \<and>
     sh_events c' = sh_events c @ [(now, if dict_has (sh_table c) h then 1 else 0)]"

lemma observe_caches_total:
  assumes "sched_inv s"
  obtains caches where
    "map_caches (\<lambda>c. ShadowPolicyCache_access np_exp c h now hint) (sc_shadow_caches s) = Inr caches"
    "sched_inv (s\<lparr>sc_shadow_caches := caches\<rparr>)" "map fst caches = map fst (sc_shadow_caches s)"
    "list_all2 (\<lambda>x y. replayed h now (snd x) (snd y)) (sc_shadow_caches s) caches"
proof -
  have step: "\<exists>c'. ShadowPolicyCache_access np_exp c h now hint = Inr c' \<and> replayed h now c c' \<and> shadow_inv c'"
    if "shadow_inv c" for c
    using shadow_access_total[OF that, of np_exp h now hint] by (auto simp: replayed_def)
  have all: "\<forall>p c. (p, c) \<in> set (sc_shadow_caches s) \<longrightarrow> shadow_inv c"
    using assms by (simp add: sched_inv_def)
  obtain caches where c: "map_caches (\<lambda>c. ShadowPolicyCache_access np_exp c h now hint) (sc_shadow_caches s) = Inr caches"
    "map fst caches = map fst (sc_shadow_caches s)"
    "list_all2 (\<lambda>x y. replayed h now (snd x) (snd y) \<and> shadow_inv (snd y)) (sc_shadow_caches s) caches"
    using map_caches_total[where Q = shadow_inv and f = "\<lambda>c. ShadowPolicyCache_access np_exp c h now hint"
        and R = "\<lambda>c c'. replayed h now c c' \<and> shadow_inv c'", OF step all]
    by auto
  have "list_all2 (\<lambda>x y. replayed h now (snd x) (snd y)) (sc_shadow_caches s) caches"
    by (rule list_all2_mono[OF c(3)]) simp
  moreover have "\<forall>p c. (p, c) \<in> set caches \<longrightarrow> shadow_inv c"
    by (rule list_all2_inv[where R = "replayed h now", OF c(3)])
  ultimately show ?thesis using that[OF c(1) sched_inv_caches[OF assms c(2)] c(2)] by simp
qed

lemma replayed_events:
  assumes "list_all2 (\<lambda>x y. replayed h now (snd x) (snd y)) cs cs'"
  shows "\<forall>p c. (p, c) \<in> set cs' \<longrightarrow> sh_events c \<noteq> []"
  using assms by (induction rule: list_all2_induct) (auto simp: replayed_def)

lemma finalize_policy_total:
  assumes "sched_inv s"
    "\<forall>p c. (p, c) \<in> set (sc_shadow_caches s) \<longrightarrow> sh_events c \<noteq> []"
  shows "\<exists>p. EvictionPolicyScheduler_finalize_policy s =
           Inr (True, s\<lparr>sc_current_policy := p, sc_finalized := True\<rparr>) \<and>
           p \<in> insert ''ml'' (set (sc_shadow_policies s))"
proof (cases "sc_ml_events s = []")
  case True
  have "min_list (0 # ns) = 0" for ns :: "nat list" by (subst min_list_Min) (auto intro: Min_eqI)
  then show ?thesis using True by (auto simp: EvictionPolicyScheduler_finalize_policy_def Let_def)
next
  case False
  from finalize_policy_choice[OF assms(1) False assms(2)] obtain best c where
    "best \<in> set (sc_shadow_policies s)"
    "EvictionPolicyScheduler_finalize_policy s = Inr (True, s\<lparr>sc_current_policy :=
        (if EvictionPolicyScheduler_ml_hit_rate s \<ge> ShadowPolicyCache_hit_rate c + scheduler_threshold s
         then ''ml'' else best), sc_finalized := True\<rparr>)" by blast
  then show ?thesis by auto
qed

definition count_access :: "rat \<Rightarrow> bool option \<Rightarrow> EvictionPolicyScheduler \<Rightarrow> EvictionPolicyScheduler" where
  "count_access now real_hit s =
     (let s1 = s\<lparr>sc_num_observed_accesses := sc_num_observed_accesses s + 1\<rparr>
      in case real_hit of None \<Rightarrow> s1
         | Some h \<Rightarrow> s1\<lparr>sc_ml_events := sc_ml_events s1 @ [(now, if h then 1 else 0)]\<rparr>)"

definition sampled :: "EvictionPolicyScheduler \<Rightarrow> bool" where
  "sampled s \<longleftrightarrow> (sc_num_observed_accesses s + 1) mod sc_observe_stride s = 0"

lemma count_access_simps [simp]:
  "sched_inv (count_access now rh s) = sched_inv s"
  "sc_shadow_caches (count_access now rh s) = sc_shadow_caches s"
  "sc_current_policy (count_access now rh s) = sc_current_policy s"
  "sc_finalized (count_access now rh s) = sc_finalized s"
  "sc_start_time (count_access now rh s) = sc_start_time s"
  "sc_warmup_s (count_access now rh s) = sc_warmup_s s"
  "sc_shadow_policies (count_access now rh s) = sc_shadow_policies s"
  "sc_enabled (count_access now rh s) = sc_enabled s"
  "sc_num_observed_accesses (count_access now rh s) = sc_num_observed_accesses s + 1"
  by (simp_all add: count_access_def Let_def sched_inv_other split: option.split)

lemma observe_sampled:
  assumes "sc_enabled s" "\<not> sc_finalized s" "sampled s"
    "map_caches (\<lambda>c. ShadowPolicyCache_access np_exp c h now hint) (sc_shadow_caches s) = Inr caches"
  shows "EvictionPolicyScheduler_observe np_exp now s h hint rh =
     (let s3 = (count_access now rh s)\<lparr>sc_shadow_caches := caches\<rparr>
      in if now - sc_start_time s \<ge> sc_warmup_s s then EvictionPolicyScheduler_finalize_policy s3
         else Inr (False, s3))"
  using assms
  by (simp add: EvictionPolicyScheduler_observe_def sampled_def count_access_def Let_def split: option.split)

lemma observe_not_sampled:
  assumes "sc_enabled s" "\<not> sc_finalized s" "\<not> sampled s"
  shows "EvictionPolicyScheduler_observe np_exp now s h hint rh = Inr (False, count_access now None s)"
  using assms by (simp add: EvictionPolicyScheduler_observe_def sampled_def count_access_def Let_def)

lemma observe_idle:
  assumes "\<not> sc_enabled s \<or> sc_finalized s"
  shows "EvictionPolicyScheduler_observe np_exp now s h hint rh = Inr (False, s)"
  using assms by (auto simp: EvictionPolicyScheduler_observe_def)

lemma scheduler_observe_total:
  assumes "sched_inv s"
  shows "\<exists>changed s'. EvictionPolicyScheduler_observe np_exp now s h hint rh = Inr (changed, s') \<and>
     sched_inv s' \<and> changed = (sc_finalized s' \<and> \<not> sc_finalized s) \<and>
     (sc_finalized s \<longrightarrow> s' = s) \<and>
     sc_enabled s' = sc_enabled s \<and> sc_shadow_policies s' = sc_shadow_policies s \<and>
     (if sc_finalized s' \<and> \<not> sc_finalized s
      then sc_current_policy s' \<in> insert ''ml'' (set (sc_shadow_policies s))
      else sc_current_policy s' = sc_current_policy s)"
proof -
  consider "\<not> sc_enabled s \<or> sc_finalized s" | "sc_enabled s" "\<not> sc_finalized s" "\<not> sampled s"
    | "sc_enabled s" "\<not> sc_finalized s" "sampled s" by blast
  then show ?thesis
  proof cases
    case 1
    then show ?thesis using assms observe_idle by auto
  next
    case 2
    then show ?thesis using assms observe_not_sampled[OF 2] by auto
  next
    case 3
    obtain caches where c:
      "map_caches (\<lambda>c. ShadowPolicyCache_access np_exp c h now hint) (sc_shadow_caches s) = Inr caches"
      "sched_inv (count_access now rh s\<lparr>sc_shadow_caches := caches\<rparr>)"
      "list_all2 (\<lambda>x y. replayed h now (snd x) (snd y)) (sc_shadow_caches s) caches"
      using observe_caches_total[of "count_access now rh s" np_exp h now hint] assms by auto
    obtain p where p: "EvictionPolicyScheduler_finalize_policy (count_access now rh s\<lparr>sc_shadow_caches := caches\<rparr>) =
         Inr (True, count_access now rh s\<lparr>sc_shadow_caches := caches, sc_current_policy := p, sc_finalized := True\<rparr>)"
      "p \<in> insert ''ml'' (set (sc_shadow_policies s))"
      using finalize_policy_total[OF c(2)] replayed_events[OF c(3)] by auto
    show ?thesis using c(2) p(2) 3
      by (auto simp: observe_sampled[OF 3 c(1)] p(1) Let_def sched_inv_other)
  qed
qed


lemma scheduler_set_capacity_total:
  assumes "sched_inv s" "0 \<le> capacity"
  shows "\<exists>caches. EvictionPolicyScheduler_set_capacity np_exp now s capacity =
           Inr (s\<lparr>sc_capacity := capacity, sc_shadow_caches := caches\<rparr>) \<and>
           sched_inv (s\<lparr>sc_capacity := capacity, sc_shadow_caches := caches\<rparr>) \<and>
           (\<forall>p c. (p, c) \<in> set caches \<longrightarrow> sh_capacity c = capacity \<and> int (length (sh_table c)) \<le> capacity)"
proof -
  have step: "\<exists>c'. ShadowPolicyCache_set_capacity np_exp now c capacity = Inr c' \<and> True \<and>
          shadow_inv c' \<and> sh_capacity c' = capacity \<and> int (length (sh_table c')) \<le> capacity"
    if i: "shadow_inv c" for c
  proof -
    obtain t where "ShadowPolicyCache_evict_to np_exp now capacity (c\<lparr>sh_capacity := capacity\<rparr>) =
        Inr (c\<lparr>sh_capacity := capacity, sh_table := t\<rparr>)" "dict_ok t" "int (length t) \<le> capacity"
      using shadow_evict_to_total[of "c\<lparr>sh_capacity := capacity\<rparr>" capacity np_exp now] i assms(2)
      by (auto simp: shadow_inv_def)
    then show ?thesis using i by (auto simp: ShadowPolicyCache_set_capacity_def shadow_inv_def shadow_pdp_ok_def)
  qed
  have all: "\<forall>p c. (p, c) \<in> set (sc_shadow_caches s) \<longrightarrow> shadow_inv c"
    using assms by (simp add: sched_inv_def)
  obtain caches where c:
    "map_caches (\<lambda>c. ShadowPolicyCache_set_capacity np_exp now c capacity) (sc_shadow_caches s) = Inr caches"
    "map fst caches = map fst (sc_shadow_caches s)"
    "list_all2 (\<lambda>x y. True \<and> (shadow_inv (snd y) \<and> sh_capacity (snd y) = capacity \<and>
        int (length (sh_table (snd y))) \<le> capacity)) (sc_shadow_caches s) caches"
    using map_caches_total[where Q = shadow_inv and f = "\<lambda>c. ShadowPolicyCache_set_capacity np_exp now c capacity"
        and R = "\<lambda>c c'. True \<and> (shadow_inv c' \<and> sh_capacity c' = capacity \<and>
        int (length (sh_table c')) \<le> capacity)", OF step all] by auto
  note inv = list_all2_inv[where R = "\<lambda>_ _. True", OF c(3)]
  have "sched_inv (s\<lparr>sc_capacity := capacity, sc_shadow_caches := caches\<rparr>)"
    using sched_inv_caches[of "s\<lparr>sc_capacity := capacity\<rparr>" caches] assms(1) c(2) inv
    by (simp add: sched_inv_other)
  with c(1) inv show ?thesis by (auto simp: EvictionPolicyScheduler_set_capacity_def)
qed

section \<open>Construction\<close>

lemma init_shadow_caches_keys:
  assumes "init_shadow_caches capacity cfg policies d = Inr d'" "dict_ok d"
  shows "dict_ok d' \<and> fst ` set d' = fst ` set d \<union> set policies"
  using assms
proof (induction policies arbitrary: d)
  case (Cons p ps)
  then obtain c where "init_shadow_caches capacity cfg ps (dict_set p c d) = Inr d'" by auto
  from Cons.IH[OF this] Cons.prems(2) show ?case by simp
qed simp

definition shadow_fresh :: "string \<Rightarrow> ShadowPolicyCache \<Rightarrow> bool" where
  "shadow_fresh policy c \<longleftrightarrow> sh_policy c = policy \<and> sh_table c = [] \<and> sh_events c = [] \<and>
     sh_pdp_reuse_distance_counts c = []"

lemma shadow_init_fresh:
  assumes "ShadowPolicyCache_init policy capacity cfg = Inr c"
  shows "shadow_fresh policy c"
proof (cases "policy = ''pdp''")
  case True
  then obtain pd md ri bs ed where "c = ShadowPolicyCache_plain policy capacity\<lparr>sh_pdp_protecting_distance := pd,
      sh_pdp_max_distance := md, sh_pdp_recompute_interval := ri, sh_pdp_bucket_size := bs,
      sh_pdp_eviction_distance := ed\<rparr>"
    using assms by (auto simp: ShadowPolicyCache_init_def Let_def res_bind_Inr_iff)
  then show ?thesis by (simp add: ShadowPolicyCache_plain_def shadow_fresh_def)
next
  case False
  then show ?thesis using assms
    by (auto simp: ShadowPolicyCache_init_def ShadowPolicyCache_plain_def shadow_fresh_def Let_def)
qed

lemma init_shadow_caches_fresh:
  assumes "init_shadow_caches capacity cfg policies d = Inr d'"
    "\<forall>p c. dict_get d p = Some c \<longrightarrow> shadow_fresh p c"
  shows "\<forall>p c. dict_get d' p = Some c \<longrightarrow> shadow_fresh p c"
  using assms
proof (induction policies arbitrary: d)
  case (Cons p ps)
  from Cons.prems(1) obtain c where c: "ShadowPolicyCache_init p capacity (if p = ''pdp'' then cfg else []) = Inr c"
    "init_shadow_caches capacity cfg ps (dict_set p c d) = Inr d'"
    unfolding init_shadow_caches.simps by (elim res_bind_InrE)
  have "shadow_fresh p c" using shadow_init_fresh[OF c(1)] .
  then have "shadow_fresh q e" if "dict_get (dict_set p c d) q = Some e" for q e
    using that Cons.prems(2) by (cases "q = p") simp_all
  with Cons.IH[OF c(2)] show ?case by blast
qed simp

lemma parse_shadow_policies_ok:
  assumes "parse_shadow_policies v = Inr ps"
  shows "ps \<noteq> []" "''ml'' \<notin> set ps" "set ps \<subseteq> set SHADOW_POLICIES"
  using assms
  by (auto simp: parse_shadow_policies_def SHADOW_POLICIES_def SCHEDULER_POLICIES_def Let_def filter_empty_conv
      split: option.splits if_splits)

lemma scheduler_init_inv:
  assumes init: "EvictionPolicyScheduler_init now cfg = Inr s"
    and pdp: "\<And>c. dict_get (sc_shadow_caches s) ''pdp'' = Some c \<Longrightarrow> 1 \<le> sh_pdp_max_distance c \<and>
       1 \<le> sh_pdp_recompute_interval c \<and> 1 \<le> sh_pdp_bucket_size c"
  shows "sched_inv s" "\<not> sc_finalized s" "sc_current_policy s = dict_get_default cfg ''scheduler_initial_policy'' ''ml''"
proof -
  obtain capacity where c: "init_shadow_caches capacity cfg (sc_shadow_policies s) [] = Inr (sc_shadow_caches s)"
    and p: "parse_shadow_policies (dict_get cfg ''scheduler_shadow_policies'') = Inr (sc_shadow_policies s)"
    and st: "1 \<le> sc_observe_stride s" "\<not> sc_finalized s"
      "sc_current_policy s = dict_get_default cfg ''scheduler_initial_policy'' ''ml''"
    using init by (auto simp: EvictionPolicyScheduler_init_def elim!: res_bind_InrE)
  note k = init_shadow_caches_keys[OF c] and ps = parse_shadow_policies_ok[OF p]
  have "shadow_inv e" if m: "(q, e) \<in> set (sc_shadow_caches s)" for q e
  proof -
    have get: "dict_get (sc_shadow_caches s) q = Some e" using m k by (simp add: dict_get_mem)
    have "shadow_fresh q e" using init_shadow_caches_fresh[OF c] get by simp
    moreover have "q \<noteq> ''ml''" using m k ps(2) by force
    ultimately show ?thesis using pdp[of e] get
      by (auto simp: shadow_inv_def shadow_fresh_def shadow_pdp_ok_def counts_ok_def)
  qed
  then show "sched_inv s" using k ps st(1) by (auto simp: sched_inv_def)
  show "\<not> sc_finalized s" "sc_current_policy s = dict_get_default cfg ''scheduler_initial_policy'' ''ml''"
    using st by auto
qed


section \<open>Runs of the scheduler\<close>

text \<open>
  The evictor drives the scheduler through two operations: an observation at some time, and a
  change of the capacity.
\<close>

inductive sched_step :: "(rat \<Rightarrow> rat) \<Rightarrow> EvictionPolicyScheduler \<Rightarrow> EvictionPolicyScheduler \<Rightarrow> bool"
  for np_exp where
  observe: "EvictionPolicyScheduler_observe np_exp now s h hint rh = Inr (changed, s') \<Longrightarrow>
     sched_step np_exp s s'"
| resize: "0 \<le> capacity \<Longrightarrow> EvictionPolicyScheduler_set_capacity np_exp now s capacity = Inr s' \<Longrightarrow>
     sched_step np_exp s s'"

lemma sched_step_keeps:
  assumes "sched_step np_exp s s'" "sched_inv s"
  shows "sched_inv s'" "sc_finalized s \<Longrightarrow> sc_finalized s' \<and> sc_current_policy s' = sc_current_policy s"
    "\<not> sc_finalized s' \<Longrightarrow> sc_current_policy s' = sc_current_policy s"
    "sc_shadow_policies s' = sc_shadow_policies s"
    "sc_current_policy s' = sc_current_policy s \<or> sc_current_policy s' \<in> insert ''ml'' (set (sc_shadow_policies s))"
proof -
  have "sched_inv s' \<and> (sc_finalized s \<longrightarrow> sc_finalized s' \<and> sc_current_policy s' = sc_current_policy s) \<and>
      (\<not> sc_finalized s' \<longrightarrow> sc_current_policy s' = sc_current_policy s) \<and>
      sc_shadow_policies s' = sc_shadow_policies s \<and>
      (sc_current_policy s' = sc_current_policy s \<or> sc_current_policy s' \<in> insert ''ml'' (set (sc_shadow_policies s)))"
    using assms(1)
  proof cases
    case (observe now h hint rh changed)
    then show ?thesis using scheduler_observe_total[OF assms(2), of np_exp now h hint rh]
      by (auto split: if_splits)
  next
    case (resize capacity now)
    then show ?thesis using scheduler_set_capacity_total[OF assms(2) resize(1), of np_exp now] by auto
  qed
  then show "sched_inv s'" "sc_finalized s \<Longrightarrow> sc_finalized s' \<and> sc_current_policy s' = sc_current_policy s"
    "\<not> sc_finalized s' \<Longrightarrow> sc_current_policy s' = sc_current_policy s"
    "sc_shadow_policies s' = sc_shadow_policies s"
    "sc_current_policy s' = sc_current_policy s \<or> sc_current_policy s' \<in> insert ''ml'' (set (sc_shadow_policies s))"
    by blast+
qed

lemma sched_run_keeps:
  assumes "(sched_step np_exp)\<^sup>*\<^sup>* s s'" "sched_inv s"
  shows "sched_inv s' \<and> sc_shadow_policies s' = sc_shadow_policies s \<and>
    (sc_finalized s \<longrightarrow> sc_finalized s' \<and> sc_current_policy s' = sc_current_policy s) \<and>
    (\<not> sc_finalized s' \<longrightarrow> \<not> sc_finalized s \<and> sc_current_policy s' = sc_current_policy s) \<and>
    sc_current_policy s' \<in> {sc_current_policy s, ''ml''} \<union> set (sc_shadow_policies s)"
  using assms
proof (induction rule: rtranclp_induct)
  case (step s' s'')
  note k = sched_step_keeps[OF step(2)]
  show ?case using step.IH[OF step.prems] k by auto
qed simp

section \<open>Properties\<close>

text \<open>
  C27. The sampled access at which the warmup is over ends it: the scheduler reports a change
  and is finalised, and it has chosen the learned policy exactly when its measured hit rate is
  at least the best shadow hit rate plus the threshold for the size of the model; otherwise it
  has chosen a shadow policy whose replayed hit rate is the best one.
\<close>

theorem EvictionPolicyScheduler_observe_finalizes:
  assumes "sched_inv s" "sc_enabled s" "\<not> sc_finalized s"
    "(sc_num_observed_accesses s + 1) mod sc_observe_stride s = 0"
    "now - sc_start_time s \<ge> sc_warmup_s s"
  shows "\<exists>s' best c. EvictionPolicyScheduler_observe np_exp now s h hint (Some real_hit) = Inr (True, s') \<and>
     sc_finalized s' \<and> best \<in> set (sc_shadow_policies s) \<and>
     dict_get (sc_shadow_caches s') best = Some c \<and>
     (\<forall>p c'. dict_get (sc_shadow_caches s') p = Some c' \<longrightarrow>
        ShadowPolicyCache_hit_rate c' \<le> ShadowPolicyCache_hit_rate c) \<and>
     sc_ml_events s' = sc_ml_events s @ [(now, if real_hit then 1 else 0)] \<and>
     sc_current_policy s' =
       (if EvictionPolicyScheduler_ml_hit_rate s' \<ge> ShadowPolicyCache_hit_rate c +
             (if sc_model_size_b s \<le> 14 then sc_small_threshold s else sc_large_threshold s)
        then ''ml'' else best)"
proof -
  have sm: "sampled s" using assms(4) by (simp add: sampled_def)
  let ?s1 = "count_access now (Some real_hit) s"
  obtain caches where c:
    "map_caches (\<lambda>c. ShadowPolicyCache_access np_exp c h now hint) (sc_shadow_caches s) = Inr caches"
    "sched_inv (?s1\<lparr>sc_shadow_caches := caches\<rparr>)"
    "list_all2 (\<lambda>x y. replayed h now (snd x) (snd y)) (sc_shadow_caches s) caches"
    using observe_caches_total[of ?s1 np_exp h now hint] assms(1) by auto
  let ?s = "?s1\<lparr>sc_shadow_caches := caches\<rparr>"
  have f: "sc_ml_events ?s = sc_ml_events s @ [(now, if real_hit then 1 else 0)]"
    "sc_model_size_b ?s = sc_model_size_b s" "sc_small_threshold ?s = sc_small_threshold s"
    "sc_large_threshold ?s = sc_large_threshold s"
    by (simp_all add: count_access_def Let_def)
  have e: "sc_ml_events ?s \<noteq> []" unfolding f(1) by simp
  have "\<forall>p c. (p, c) \<in> set (sc_shadow_caches ?s) \<longrightarrow> sh_events c \<noteq> []" using replayed_events[OF c(3)] by simp
  from finalize_policy_choice[OF c(2) e this] obtain best cb where b: "best \<in> set (sc_shadow_policies ?s)"
    "dict_get (sc_shadow_caches ?s) best = Some cb"
    "\<forall>p c'. dict_get (sc_shadow_caches ?s) p = Some c' \<longrightarrow> ShadowPolicyCache_hit_rate c' \<le> ShadowPolicyCache_hit_rate cb"
    "EvictionPolicyScheduler_finalize_policy ?s = Inr (True, ?s\<lparr>sc_current_policy :=
        (if EvictionPolicyScheduler_ml_hit_rate ?s \<ge> ShadowPolicyCache_hit_rate cb + scheduler_threshold ?s
         then ''ml'' else best), sc_finalized := True\<rparr>)" by blast
  have o: "EvictionPolicyScheduler_observe np_exp now s h hint (Some real_hit) = EvictionPolicyScheduler_finalize_policy ?s"
    using observe_sampled[OF assms(2,3) sm c(1)] assms(5) by simp
  let ?p = "if EvictionPolicyScheduler_ml_hit_rate ?s \<ge> ShadowPolicyCache_hit_rate cb + scheduler_threshold ?s
    then ''ml'' else best"
  show ?thesis unfolding o b(4)
    using b(1-3) f
    by (intro exI[of _ "?s\<lparr>sc_current_policy := ?p, sc_finalized := True\<rparr>"] exI[of _ best] exI[of _ cb])
      (simp add: EvictionPolicyScheduler_ml_hit_rate_def scheduler_threshold_def)
qed

definition example_scheduler :: EvictionPolicyScheduler where
  "example_scheduler = \<lparr>sc_enabled = True, sc_warmup_s = 100, sc_min_events = 0,
     sc_small_threshold = 1 / 10, sc_large_threshold = 1 / 20, sc_model_size_b = 7,
     sc_current_policy = ''ml'', sc_start_time = 0, sc_finalized = False, sc_capacity = 8,
     sc_observe_stride = 1, sc_num_observed_accesses = 0, sc_ml_events = [],
     sc_shadow_policies = [''lru'', ''rrip''],
     sc_shadow_caches = [(''lru'', ShadowPolicyCache_plain ''lru'' 8), (''rrip'', ShadowPolicyCache_plain ''rrip'' 8)]\<rparr>"

lemma example_scheduler_inv: "sched_inv example_scheduler"
  using shadow_inv_plain[of "''lru''" 8] shadow_inv_plain[of "''rrip''" 8]
  by (auto simp: sched_inv_def example_scheduler_def dict_ok_def)

theorem EvictionPolicyScheduler_observe_finalizes_witness:
  "\<exists>s'. EvictionPolicyScheduler_observe id 120 example_scheduler 70 None (Some True) = Inr (True, s') \<and>
     sc_finalized s'"
  using EvictionPolicyScheduler_observe_finalizes[OF example_scheduler_inv, where now = 120 and np_exp = id
      and h = 70 and hint = None and real_hit = True]
  by (auto simp: example_scheduler_def)

text \<open>
  C28. The policy is decided once. From a scheduler just built from its configuration, every
  run of observations and capacity changes keeps the configured initial policy until the
  scheduler is finalised; the policy it then has is that one, ml, or a configured shadow
  policy, and no later run changes it.
\<close>

theorem EvictionPolicyScheduler_policy_frozen:
  assumes "EvictionPolicyScheduler_init now cfg = Inr s"
    and "\<And>c. dict_get (sc_shadow_caches s) ''pdp'' = Some c \<Longrightarrow> 1 \<le> sh_pdp_max_distance c \<and>
       1 \<le> sh_pdp_recompute_interval c \<and> 1 \<le> sh_pdp_bucket_size c"
    and "(sched_step np_exp)\<^sup>*\<^sup>* s t" "(sched_step np_exp)\<^sup>*\<^sup>* t u"
  shows "(\<not> sc_finalized t \<longrightarrow>
        sc_current_policy t = dict_get_default cfg ''scheduler_initial_policy'' ''ml'') \<and>
     sc_current_policy t \<in> {dict_get_default cfg ''scheduler_initial_policy'' ''ml'', ''ml''} \<union>
        set (sc_shadow_policies s) \<and>
     (sc_finalized t \<longrightarrow> sc_finalized u \<and> sc_current_policy u = sc_current_policy t \<and>
        EvictionPolicyScheduler_should_predict u = (\<not> sc_enabled u \<or> sc_current_policy t = ''ml''))"
proof -
  note i = scheduler_init_inv[OF assms(1,2)]
  note t = sched_run_keeps[OF assms(3) i(1)]
  then have "sched_inv t" by blast
  from t i(2,3) sched_run_keeps[OF assms(4) this] show ?thesis
    by (auto simp: EvictionPolicyScheduler_should_predict_def)
qed


lemma example_scheduler_built:
  "EvictionPolicyScheduler_init 0 [(''enable_scheduler'', ''1''), (''scheduler_capacity'', ''8''),
     (''scheduler_shadow_policies'', ''lru|rrip''), (''scheduler_min_events'', ''0''),
     (''scheduler_observe_stride'', ''1'')] = Inr (example_scheduler)"
  by (simp add: EvictionPolicyScheduler_init_def) code_simp

lemma example_scheduler_step:
  "sched_inv s \<Longrightarrow> \<exists>t. sched_step id s t"
  using scheduler_observe_total[of s id 50 70 None "Some True"] sched_step.observe by blast

theorem EvictionPolicyScheduler_policy_frozen_witness:
  "\<exists>t u. sched_step id example_scheduler t \<and> sched_step id t u \<and>
     (if sc_finalized t then sc_current_policy u = sc_current_policy t else sc_current_policy t = ''ml'')"
proof -
  obtain t where t: "sched_step id example_scheduler t"
    using example_scheduler_step example_scheduler_inv by blast
  obtain u where u: "sched_step id t u"
    using example_scheduler_step sched_step_keeps(1)[OF t example_scheduler_inv] by blast
  from EvictionPolicyScheduler_policy_frozen[OF example_scheduler_built, of id t u] t u
  have "if sc_finalized t then sc_current_policy u = sc_current_policy t else sc_current_policy t = ''ml''"
    by (auto simp: example_scheduler_def dict_get_default_def)
  with t u show ?thesis by blast
qed

end
