(* ===== verification/LRUML_Evictor.thy ===== *)
theory LRUML_Evictor
  imports Policy_Scheduler "HOL-Library.RBT"
begin

text \<open>
  The class LRUMLEvictor of vllm/core/evictor.py: the evictor that hosts the policy scheduler.
  Waiting blocks are kept in a table and in a sorted dictionary ordered by score, last access
  and block id; the policy of a block comes from its cache hint or from the scheduler.

  The sorted dictionary is the third-party class SortedDict: its operations are an argument of
  the definitions, and what the evictor relies on is the locale \<open>sorted_dict\<close>. Every operation
  reads the clock once, its value is the argument \<open>now\<close>.
\<close>

section \<open>The interface of the sorted dictionary\<close>

record ('k, 'v, 'd) sorted_dict_ops =
  sd_new :: 'd
  sd_setitem :: "'k \<Rightarrow> 'v \<Rightarrow> 'd \<Rightarrow> 'd"
  sd_delitem :: "'k \<Rightarrow> 'd \<Rightarrow> 'd"
  sd_contains :: "'d \<Rightarrow> 'k \<Rightarrow> bool"
  sd_len :: "'d \<Rightarrow> nat"
  sd_peekitem0 :: "'d \<Rightarrow> 'k \<times> 'v"
  sd_popitem0 :: "'d \<Rightarrow> 'd"

text \<open>The items of a sorted dictionary, in ascending order of their keys.\<close>

locale sorted_dict =
  fixes ops :: "('k::linorder, 'v, 'd) sorted_dict_ops"
    and items :: "'d \<Rightarrow> ('k \<times> 'v) list"
  assumes items_sorted: "sorted (map fst (items d))"
    and items_distinct: "distinct (map fst (items d))"
    and items_new: "items (sd_new ops) = []"
    and items_set: "map_of (items (sd_setitem ops k v d)) = (map_of (items d))(k \<mapsto> v)"
    and items_del: "map_of (items d) k \<noteq> None \<Longrightarrow>
      map_of (items (sd_delitem ops k d)) = (map_of (items d))(k := None)"
    and contains_items: "sd_contains ops d k \<longleftrightarrow> map_of (items d) k \<noteq> None"
    and len_items: "sd_len ops d = length (items d)"
    and peek_items: "items d \<noteq> [] \<Longrightarrow> sd_peekitem0 ops d = hd (items d)"
    and pop_items: "items d \<noteq> [] \<Longrightarrow>
      map_of (items (sd_popitem0 ops d)) = (map_of (items d))(fst (hd (items d)) := None)"
begin

lemma len_card: "sd_len ops d = card (dom (map_of (items d)))"
  using items_distinct[of d] by (simp add: len_items dom_map_of_conv_image_fst) (metis distinct_card length_map list.set_map)

lemma pop_shrinks: "items d \<noteq> [] \<Longrightarrow> Suc (sd_len ops (sd_popitem0 ops d)) = sd_len ops d"
proof -
  assume ne: "items d \<noteq> []"
  then have "fst (hd (items d)) \<in> dom (map_of (items d))" by (simp add: dom_map_of_conv_image_fst)
  with pop_items[OF ne] show ?thesis
    by (simp add: len_card card_Suc_Diff1 finite_dom_map_of del: card_Diff_insert)
qed

lemma peek_least:
  assumes "map_of (items d) k = Some v"
  shows "items d \<noteq> []" "fst (sd_peekitem0 ops d) \<le> k"
    "map_of (items d) (fst (sd_peekitem0 ops d)) = Some (snd (sd_peekitem0 ops d))"
proof -
  have m: "(k, v) \<in> set (items d)" using assms by (rule map_of_SomeD)
  then show ne: "items d \<noteq> []" by auto
  obtain x xs where x: "items d = x # xs" using ne by (cases "items d") auto
  then show "fst (sd_peekitem0 ops d) \<le> k" unfolding peek_items[OF ne] using m items_sorted[of d] by auto
  show "map_of (items d) (fst (sd_peekitem0 ops d)) = Some (snd (sd_peekitem0 ops d))"
    using x peek_items[OF ne] by (cases x) simp
qed

end

text \<open>Red-black trees of the library provide the interface.\<close>

definition rbt_sorted_dict :: "('k::linorder, 'v, ('k, 'v) rbt) sorted_dict_ops" where
  "rbt_sorted_dict = \<lparr>sd_new = RBT.empty, sd_setitem = RBT.insert, sd_delitem = RBT.delete,
     sd_contains = (\<lambda>d k. RBT.lookup d k \<noteq> None), sd_len = (\<lambda>d. length (RBT.entries d)),
     sd_peekitem0 = (\<lambda>d. hd (RBT.entries d)),
     sd_popitem0 = (\<lambda>d. RBT.delete (fst (hd (RBT.entries d))) d)\<rparr>"

lemma rbt_entries_empty: "RBT.entries RBT.empty = []"
  by (metis RBT.lookup_empty RBT.map_of_entries map_of_eq_empty_iff)

interpretation rbt_sd: sorted_dict rbt_sorted_dict RBT.entries
  by unfold_locales (auto simp: rbt_sorted_dict_def RBT.map_of_entries RBT.sorted_entries RBT.distinct_entries
      rbt_entries_empty)

section \<open>State\<close>

type_synonym score_key = "rat \<times> rat \<times> int"
type_synonym 'd score_dict = "(score_key, int \<times> int, 'd) sorted_dict_ops"

record 'd LRUMLEvictor =
  ml_free_table :: "(int, BlockMetaData) dict"
  ml_sorted_dict :: 'd
  ml_id_to_last_access :: "(int, rat) dict"
  ml_id_to_first_access :: "(int, rat) dict"
  ml_rrip_values :: "(int, int) dict"
  ml_to_delete_blocks :: "(int \<times> int \<times> rat) list"
  ml_stat :: CacheStat
  ml_last_refresh_time :: rat
  ml_INSPECT_INTERVAL :: rat
  ml_scheduler :: EvictionPolicyScheduler
  ml_pdp_request_epoch :: int
  ml_pdp_protecting_distance :: int
  ml_pdp_max_distance :: int
  ml_pdp_recompute_interval :: int
  ml_pdp_bucket_size :: int
  ml_pdp_eviction_distance :: int
  ml_pdp_last_seen_epoch :: "(int, int) dict"
  ml_pdp_reuse_distance_counts :: "(int, int) dict"
  ml_pdp_total_accesses :: int
  ml_pdp_protected_until_epoch :: "(int, int) dict"
  ml_pdp_reused :: "(int, bool) dict"
  ml_pdp_last_access_epoch :: "(int, int) dict"
  ml_pdp_content_hash_to_block_id :: "(int, int) dict"

definition LRUMLEvictor_init :: "'d score_dict \<Rightarrow> rat \<Rightarrow> string \<Rightarrow> 'd LRUMLEvictor result" where
  "LRUMLEvictor_init ops now config =
     res_bind (parse_evictor_config config) (\<lambda>cfg.
     res_bind (EvictionPolicyScheduler_init now cfg) (\<lambda>scheduler.
     res_bind (config_int cfg ''pdp_initial_pd'' DEFAULT_INITIAL_PD) (\<lambda>pd.
     res_bind (config_int cfg ''pdp_max_distance'' DEFAULT_MAX_DISTANCE) (\<lambda>md.
     res_bind (config_int cfg ''pdp_recompute_interval'' DEFAULT_RECOMPUTE_INTERVAL) (\<lambda>ri.
     res_bind (config_int cfg ''pdp_bucket_size'' DEFAULT_BUCKET_SIZE) (\<lambda>bs.
     res_bind (config_int cfg ''pdp_eviction_distance'' DEFAULT_EVICTION_DISTANCE) (\<lambda>ed.
     Inr \<lparr>ml_free_table = [], ml_sorted_dict = sd_new ops, ml_id_to_last_access = [],
        ml_id_to_first_access = [], ml_rrip_values = [], ml_to_delete_blocks = [],
        ml_stat = CacheStat_init, ml_last_refresh_time = now, ml_INSPECT_INTERVAL = 5,
        ml_scheduler = scheduler, ml_pdp_request_epoch = 0, ml_pdp_protecting_distance = pd,
        ml_pdp_max_distance = md, ml_pdp_recompute_interval = ri, ml_pdp_bucket_size = bs,
        ml_pdp_eviction_distance = ed, ml_pdp_last_seen_epoch = [],
        ml_pdp_reuse_distance_counts = [], ml_pdp_total_accesses = 0,
        ml_pdp_protected_until_epoch = [], ml_pdp_reused = [], ml_pdp_last_access_epoch = [],
        ml_pdp_content_hash_to_block_id = []\<rparr>)))))))"

definition LRUMLEvictor_contains :: "'d LRUMLEvictor \<Rightarrow> int \<Rightarrow> bool" where
  "LRUMLEvictor_contains e block_id = dict_has (ml_free_table e) block_id"

definition LRUMLEvictor_num_blocks :: "'d LRUMLEvictor \<Rightarrow> nat" where
  "LRUMLEvictor_num_blocks e = length (ml_free_table e)"

section \<open>Policies and scores\<close>

definition policy_of :: "EvictionPolicyScheduler \<Rightarrow> cache_hint option \<Rightarrow> string" where
  "policy_of scheduler cache_hint =
     (case cache_hint of None \<Rightarrow> ''lru''
      | Some hint \<Rightarrow>
          if truthy (ch_use_rrip hint) then ''rrip''
          else if truthy (ch_use_lru hint) then ''lru''
          else if truthy (ch_use_fifo hint) then ''fifo''
          else if truthy_str (ch_scheduler_policy hint)
               then (case ch_scheduler_policy hint of Some p \<Rightarrow> p | None \<Rightarrow> [])
          else if sc_enabled scheduler then sc_current_policy scheduler
          else if ch_next_timestamp hint \<noteq> None then ''belady''
          else ''ml'')"

definition LRUMLEvictor_get_policy :: "'d LRUMLEvictor \<Rightarrow> cache_hint option \<Rightarrow> string" where
  "LRUMLEvictor_get_policy e cache_hint = policy_of (ml_scheduler e) cache_hint"

definition LRUMLEvictor_set_capacity ::
    "(rat \<Rightarrow> rat) \<Rightarrow> rat \<Rightarrow> 'd LRUMLEvictor \<Rightarrow> int \<Rightarrow> 'd LRUMLEvictor result" where
  "LRUMLEvictor_set_capacity np_exp now e capacity =
     res_bind (EvictionPolicyScheduler_set_capacity np_exp now (ml_scheduler e) capacity)
       (\<lambda>s. Inr (e\<lparr>ml_scheduler := s\<rparr>))"

definition LRUMLEvictor_should_predict_cache_hint :: "'d LRUMLEvictor \<Rightarrow> bool" where
  "LRUMLEvictor_should_predict_cache_hint e = EvictionPolicyScheduler_should_predict (ml_scheduler e)"

definition LRUMLEvictor_should_observe_cache_accesses :: "'d LRUMLEvictor \<Rightarrow> bool" where
  "LRUMLEvictor_should_observe_cache_accesses e =
     (if sc_enabled (ml_scheduler e) \<and> \<not> sc_finalized (ml_scheduler e) then True
      else if sc_finalized (ml_scheduler e) \<and> sc_current_policy (ml_scheduler e) = ''pdp'' then True
      else False)"

definition LRUMLEvictor_should_record_post_warmup_metric :: "'d LRUMLEvictor \<Rightarrow> bool" where
  "LRUMLEvictor_should_record_post_warmup_metric e \<longleftrightarrow>
     sc_enabled (ml_scheduler e) \<and> sc_finalized (ml_scheduler e)"

definition bind_policy ::
    "EvictionPolicyScheduler \<Rightarrow> cache_hint option \<Rightarrow> cache_hint option result" where
  "bind_policy scheduler cache_hint =
     (if \<not> sc_enabled scheduler then Inr cache_hint
      else case cache_hint of None \<Rightarrow> Inl AttributeError
      | Some hint \<Rightarrow>
          if truthy (ch_use_lru hint) \<or> truthy (ch_use_rrip hint) \<or> truthy (ch_use_fifo hint) \<or>
             truthy_str (ch_scheduler_policy hint)
          then Inr cache_hint
          else Inr (Some (hint\<lparr>ch_scheduler_policy := Some (sc_current_policy scheduler)\<rparr>)))"

definition LRUMLEvictor_bind_scheduler_policy ::
    "'d LRUMLEvictor \<Rightarrow> cache_hint option \<Rightarrow> cache_hint option result" where
  "LRUMLEvictor_bind_scheduler_policy e cache_hint = bind_policy (ml_scheduler e) cache_hint"

definition LRUMLEvictor_pdp_score :: "'d LRUMLEvictor \<Rightarrow> int \<Rightarrow> rat" where
  "LRUMLEvictor_pdp_score e block_id =
     (let protected_until = dict_get_default (ml_pdp_protected_until_epoch e) block_id 0
      in if protected_until \<le> ml_pdp_request_epoch e
         then - 3000000000000000 + of_int (dict_get_default (ml_pdp_last_access_epoch e) block_id 0)
         else let remaining = max 0 (protected_until - ml_pdp_request_epoch e)
              in if \<not> dict_get_default (ml_pdp_reused e) block_id False
                 then - 2000000000000000 - of_int remaining
                 else - 1000000000000000 - of_int remaining)"

definition LRUMLEvictor_pdp_victim_key :: "'d LRUMLEvictor \<Rightarrow> int \<times> BlockMetaData \<Rightarrow> rat list" where
  "LRUMLEvictor_pdp_victim_key e bm =
     (let block_id = fst bm;
          protected_until = dict_get_default (ml_pdp_protected_until_epoch e) block_id 0
      in if protected_until \<le> ml_pdp_request_epoch e
         then [0, of_int (dict_get_default (ml_pdp_last_access_epoch e) block_id 0),
               bm_last_accessed (snd bm), of_int block_id]
         else [1, if dict_get_default (ml_pdp_reused e) block_id False then 1 else 0,
               - of_int (max 0 (protected_until - ml_pdp_request_epoch e)),
               - of_int (dict_get_default (ml_pdp_last_access_epoch e) block_id 0), of_int block_id])"

definition LRUMLEvictor_calc_score ::
    "(rat \<Rightarrow> rat) \<Rightarrow> rat \<Rightarrow> 'd LRUMLEvictor \<Rightarrow> int \<Rightarrow> rat \<Rightarrow> cache_hint option \<Rightarrow> rat result" where
  "LRUMLEvictor_calc_score np_exp now e block_id last_accessed cache_hint =
     (let policy = LRUMLEvictor_get_policy e cache_hint in
      if policy = ''rrip''
      then Inr (- of_int (dict_get_default (ml_rrip_values e) block_id RRIP_INSERT_RRPV))
      else if policy = ''lru'' then Inr last_accessed
      else if policy = ''fifo'' then dict_item (ml_id_to_first_access e) block_id
      else if policy = ''pdp'' then Inr (LRUMLEvictor_pdp_score e block_id)
      else case cache_hint of None \<Rightarrow> Inl TypeError
      | Some hint \<Rightarrow>
          if policy = ''belady'' then res_bind (hint_item (ch_next_timestamp hint)) (\<lambda>t. Inr (- t))
          else case ch_prob_has_next hint of
                 Some p \<Rightarrow> res_bind (hint_item (ch_exp_scale hint)) (\<lambda>scale.
                   probability_of_future_arrival np_exp p scale (now - last_accessed))
               | None \<Rightarrow> Inr last_accessed)"

definition score_block ::
    "(rat \<Rightarrow> rat) \<Rightarrow> rat \<Rightarrow> 'd LRUMLEvictor \<Rightarrow> int \<times> BlockMetaData \<Rightarrow> (int \<times> BlockMetaData) result" where
  "score_block np_exp now e bm =
     res_bind (LRUMLEvictor_calc_score np_exp now e (fst bm) (bm_last_accessed (snd bm)) (bm_cache_hint (snd bm)))
       (\<lambda>score. Inr (fst bm, (snd bm)\<lparr>bm_score := score\<rparr>))"

definition ml_key :: "int \<Rightarrow> BlockMetaData \<Rightarrow> score_key" where
  "ml_key block_id block = (bm_score block, bm_last_accessed block, block_id)"

definition insert_block :: "'d score_dict \<Rightarrow> int \<times> BlockMetaData \<Rightarrow> 'd \<Rightarrow> 'd" where
  "insert_block ops bm d = sd_setitem ops (ml_key (fst bm) (snd bm)) (fst bm, bm_content_hash (snd bm)) d"

definition LRUMLEvictor_rebuild_sorted_dict ::
    "'d score_dict \<Rightarrow> (rat \<Rightarrow> rat) \<Rightarrow> rat \<Rightarrow> 'd LRUMLEvictor \<Rightarrow> 'd LRUMLEvictor result" where
  "LRUMLEvictor_rebuild_sorted_dict ops np_exp now e =
     res_bind (res_map (score_block np_exp now e) (ml_free_table e)) (\<lambda>table.
       Inr (e\<lparr>ml_free_table := table, ml_sorted_dict := fold (insert_block ops) table (sd_new ops)\<rparr>))"

definition LRUMLEvictor_age_rrip_blocks ::
    "'d score_dict \<Rightarrow> (rat \<Rightarrow> rat) \<Rightarrow> rat \<Rightarrow> 'd LRUMLEvictor \<Rightarrow> 'd LRUMLEvictor result" where
  "LRUMLEvictor_age_rrip_blocks ops np_exp now e =
     LRUMLEvictor_rebuild_sorted_dict ops np_exp now
       (e\<lparr>ml_rrip_values := fold (\<lambda>(block_id, block) values.
            if LRUMLEvictor_get_policy e (bm_cache_hint block) \<noteq> ''rrip'' then values
            else dict_set block_id (min RRIP_MAX_RRPV (dict_get_default values block_id RRIP_INSERT_RRPV + 1)) values)
          (ml_free_table e) (ml_rrip_values e)\<rparr>)"

section \<open>PDP helpers\<close>

definition LRUMLEvictor_pdp_bucket_distance :: "'d LRUMLEvictor \<Rightarrow> int \<Rightarrow> int result" where
  "LRUMLEvictor_pdp_bucket_distance e distance =
     bucket_distance (ml_pdp_max_distance e) (ml_pdp_bucket_size e) distance"

definition LRUMLEvictor_pdp_protect_block :: "'d LRUMLEvictor \<Rightarrow> int \<Rightarrow> bool \<Rightarrow> 'd LRUMLEvictor" where
  "LRUMLEvictor_pdp_protect_block e block_id reused =
     (if \<not> dict_has (ml_free_table e) block_id then e
      else let e1 = e\<lparr>ml_pdp_protected_until_epoch := dict_set block_id
                  (ml_pdp_request_epoch e + ml_pdp_protecting_distance e) (ml_pdp_protected_until_epoch e),
                ml_pdp_last_access_epoch := dict_set block_id (ml_pdp_request_epoch e) (ml_pdp_last_access_epoch e)\<rparr>
           in if reused then e1\<lparr>ml_pdp_reused := dict_set block_id True (ml_pdp_reused e1)\<rparr> else e1)"

definition LRUMLEvictor_pdp_recompute_protecting_distance :: "'d LRUMLEvictor \<Rightarrow> 'd LRUMLEvictor result" where
  "LRUMLEvictor_pdp_recompute_protecting_distance e =
     res_bind (recompute_distance (ml_pdp_max_distance e) (ml_pdp_bucket_size e)
        (ml_pdp_eviction_distance e) (ml_pdp_total_accesses e)
        (ml_pdp_reuse_distance_counts e) (ml_pdp_protecting_distance e))
       (\<lambda>d. Inr (e\<lparr>ml_pdp_protecting_distance := d\<rparr>))"

definition LRUMLEvictor_pdp_observe :: "'d LRUMLEvictor \<Rightarrow> int \<Rightarrow> bool option \<Rightarrow> 'd LRUMLEvictor result" where
  "LRUMLEvictor_pdp_observe e0 content_hash real_hit =
     (let e = e0\<lparr>ml_pdp_request_epoch := ml_pdp_request_epoch e0 + 1,
                 ml_pdp_total_accesses := ml_pdp_total_accesses e0 + 1\<rparr>;
          previous_epoch = dict_get (ml_pdp_last_seen_epoch e) content_hash
      in res_bind (case previous_epoch of None \<Rightarrow> Inr e
           | Some p \<Rightarrow>
               res_bind (LRUMLEvictor_pdp_bucket_distance e (ml_pdp_request_epoch e - p)) (\<lambda>dist.
                 Inr (e\<lparr>ml_pdp_reuse_distance_counts := dict_set dist
                   (dict_get_default (ml_pdp_reuse_distance_counts e) dist 0 + 1)
                   (ml_pdp_reuse_distance_counts e)\<rparr>))) (\<lambda>e1.
         let e2 = e1\<lparr>ml_pdp_last_seen_epoch :=
                    dict_set content_hash (ml_pdp_request_epoch e1) (ml_pdp_last_seen_epoch e1)\<rparr>;
             e3 = (case dict_get (ml_pdp_content_hash_to_block_id e2) content_hash of
                     None \<Rightarrow> e2
                   | Some block_id \<Rightarrow>
                       if dict_has (ml_free_table e2) block_id
                       then LRUMLEvictor_pdp_protect_block e2 block_id
                              (real_hit = Some True \<or> previous_epoch \<noteq> None)
                       else e2)
         in res_bind (py_mod (ml_pdp_total_accesses e3) (ml_pdp_recompute_interval e3)) (\<lambda>r.
              if r = 0 then LRUMLEvictor_pdp_recompute_protecting_distance e3 else Inr e3)))"

definition pdp_forget_block :: "int \<Rightarrow> int \<Rightarrow> 'd LRUMLEvictor \<Rightarrow> 'd LRUMLEvictor" where
  "pdp_forget_block content_hash block_id e =
     e\<lparr>ml_pdp_content_hash_to_block_id := forget_hash content_hash block_id (ml_pdp_content_hash_to_block_id e),
       ml_pdp_protected_until_epoch := dict_pop block_id (ml_pdp_protected_until_epoch e),
       ml_pdp_last_access_epoch := dict_pop block_id (ml_pdp_last_access_epoch e),
       ml_pdp_reused := dict_pop block_id (ml_pdp_reused e)\<rparr>"

section \<open>Rebinding the waiting blocks when the scheduler is finalised\<close>

definition rebind_hint :: "string \<Rightarrow> cache_hint option \<Rightarrow> cache_hint option result" where
  "rebind_hint final_policy cache_hint =
     (case cache_hint of None \<Rightarrow> Inl TypeError
      | Some hint \<Rightarrow> Inr (Some (hint\<lparr>ch_use_lru := None, ch_use_rrip := None, ch_use_fifo := None,
           ch_scheduler_policy := Some final_policy\<rparr>)))"

definition rebind_block ::
    "string \<Rightarrow> int \<times> BlockMetaData \<Rightarrow> 'd LRUMLEvictor \<Rightarrow> 'd LRUMLEvictor result" where
  "rebind_block final_policy bm e =
     (let block_id = fst bm; block = snd bm in
      res_bind (rebind_hint final_policy (bm_cache_hint block)) (\<lambda>hint.
        let e1 = e\<lparr>ml_free_table := dict_set block_id (block\<lparr>bm_cache_hint := hint\<rparr>) (ml_free_table e)\<rparr>
        in if final_policy = ''rrip''
           then Inr (e1\<lparr>ml_rrip_values := dict_set block_id RRIP_INSERT_RRPV (ml_rrip_values e1)\<rparr>)
           else if final_policy = ''pdp''
           then Inr (e1\<lparr>ml_pdp_protected_until_epoch := dict_set block_id
                     (ml_pdp_request_epoch e1 + ml_pdp_protecting_distance e1) (ml_pdp_protected_until_epoch e1),
                   ml_pdp_last_access_epoch := dict_set block_id (ml_pdp_request_epoch e1) (ml_pdp_last_access_epoch e1),
                   ml_pdp_reused := dict_set block_id True (ml_pdp_reused e1),
                   ml_pdp_content_hash_to_block_id :=
                     dict_set (bm_content_hash block) block_id (ml_pdp_content_hash_to_block_id e1)\<rparr>)
           else Inr e1))"

definition LRUMLEvictor_rebind_scheduler_policy_for_existing_blocks ::
    "'d score_dict \<Rightarrow> (rat \<Rightarrow> rat) \<Rightarrow> rat \<Rightarrow> 'd LRUMLEvictor \<Rightarrow> 'd LRUMLEvictor result" where
  "LRUMLEvictor_rebind_scheduler_policy_for_existing_blocks ops np_exp now e =
     (if \<not> sc_enabled (ml_scheduler e) then Inr e
      else let final_policy = sc_current_policy (ml_scheduler e);
               e1 = e\<lparr>ml_rrip_values := []\<rparr>;
               e2 = (if final_policy = ''pdp''
                     then (case dict_get (sc_shadow_caches (ml_scheduler e1)) ''pdp'' of
                             None \<Rightarrow> e1
                           | Some shadow_pdp \<Rightarrow>
                               e1\<lparr>ml_pdp_protecting_distance := sh_pdp_protecting_distance shadow_pdp\<rparr>)
                          \<lparr>ml_pdp_content_hash_to_block_id := []\<rparr>
                     else e1)
           in res_bind (res_fold (rebind_block final_policy) (ml_free_table e2) e2) (\<lambda>e3.
                LRUMLEvictor_rebuild_sorted_dict ops np_exp now (e3\<lparr>ml_to_delete_blocks := []\<rparr>)))"

definition LRUMLEvictor_observe_cache_access ::
    "'d score_dict \<Rightarrow> (rat \<Rightarrow> rat) \<Rightarrow> rat \<Rightarrow> 'd LRUMLEvictor \<Rightarrow> int \<Rightarrow> cache_hint option \<Rightarrow> bool option \<Rightarrow>
     'd LRUMLEvictor result" where
  "LRUMLEvictor_observe_cache_access ops np_exp now e content_hash cache_hint real_hit =
     (if sc_enabled (ml_scheduler e) \<and> \<not> sc_finalized (ml_scheduler e)
      then res_bind (EvictionPolicyScheduler_observe np_exp now (ml_scheduler e) content_hash cache_hint real_hit)
             (\<lambda>(finalized_now, s).
               let e1 = e\<lparr>ml_scheduler := s\<rparr>
               in if finalized_now
                  then LRUMLEvictor_rebind_scheduler_policy_for_existing_blocks ops np_exp now e1
                  else Inr e1)
      else if sc_finalized (ml_scheduler e) \<and> sc_current_policy (ml_scheduler e) = ''pdp''
      then LRUMLEvictor_pdp_observe e content_hash real_hit
      else Inr e)"

section \<open>Eviction\<close>

text \<open>
  The loop that drops outdated entries from the front of the sorted dictionary; its fuel is the
  number of entries, of which every iteration removes one.
\<close>

fun LRUMLEvictor_peek_valid_candidate ::
    "'d score_dict \<Rightarrow> nat \<Rightarrow> 'd LRUMLEvictor \<Rightarrow> ((int \<times> int) option \<times> 'd LRUMLEvictor) result" where
  "LRUMLEvictor_peek_valid_candidate ops 0 e =
     (if sd_len ops (ml_sorted_dict e) = 0 then Inr (None, e) else Inl Diverges)"
| "LRUMLEvictor_peek_valid_candidate ops (Suc fuel) e =
     (if sd_len ops (ml_sorted_dict e) = 0 then Inr (None, e)
      else case sd_peekitem0 ops (ml_sorted_dict e) of (key, (block_id, content_hash)) \<Rightarrow>
        (case dict_get (ml_free_table e) block_id of
           Some block \<Rightarrow>
             if bm_score block = fst key \<and> bm_last_accessed block = fst (snd key)
             then Inr (Some (block_id, content_hash), e)
             else LRUMLEvictor_peek_valid_candidate ops fuel
                    (e\<lparr>ml_sorted_dict := sd_popitem0 ops (ml_sorted_dict e)\<rparr>)
         | None \<Rightarrow> LRUMLEvictor_peek_valid_candidate ops fuel
                    (e\<lparr>ml_sorted_dict := sd_popitem0 ops (ml_sorted_dict e)\<rparr>)))"

definition LRUMLEvictor_remove_from_sorted_dict ::
    "'d score_dict \<Rightarrow> 'd LRUMLEvictor \<Rightarrow> int \<Rightarrow> 'd LRUMLEvictor result" where
  "LRUMLEvictor_remove_from_sorted_dict ops e block_id =
     res_bind (dict_item (ml_free_table e) block_id) (\<lambda>block.
       if sd_contains ops (ml_sorted_dict e) (ml_key block_id block)
       then Inr (e\<lparr>ml_sorted_dict := sd_delitem ops (ml_key block_id block) (ml_sorted_dict e)\<rparr>)
       else Inl ValueError)"

definition ml_evict_pdp ::
    "'d score_dict \<Rightarrow> rat \<Rightarrow> 'd LRUMLEvictor \<Rightarrow> ((int \<times> int) \<times> 'd LRUMLEvictor) result" where
  "ml_evict_pdp ops now e =
     res_bind (py_min (LRUMLEvictor_pdp_victim_key e) (ml_free_table e)) (\<lambda>(block_id, block).
       let content_hash = bm_content_hash block;
           e1 = e\<lparr>ml_stat := CacheStat_append (ml_stat e) ''survival_times'' (now - bm_last_accessed block)\<rparr>
       in res_bind (LRUMLEvictor_remove_from_sorted_dict ops e1 block_id) (\<lambda>e2.
            let e3 = pdp_forget_block content_hash block_id e2
            in Inr ((block_id, content_hash),
                 e3\<lparr>ml_free_table := dict_pop block_id (ml_free_table e3),
                    ml_id_to_first_access := dict_pop block_id (ml_id_to_first_access e3)\<rparr>)))"

text \<open>
  The loop of evict. Every iteration but the last either takes an entry from the list of
  blocks to delete or ages the RRIP blocks, which happens at most RRIP_MAX_RRPV times per
  block; this is the fuel of the caller.
\<close>

fun ml_evict_loop ::
    "'d score_dict \<Rightarrow> (rat \<Rightarrow> rat) \<Rightarrow> rat \<Rightarrow> nat \<Rightarrow> 'd LRUMLEvictor \<Rightarrow>
     ((int \<times> int) \<times> 'd LRUMLEvictor) result" where
  "ml_evict_loop ops np_exp now 0 e = Inl Diverges"
| "ml_evict_loop ops np_exp now (Suc fuel) e =
     (if ml_to_delete_blocks e \<noteq> []
      then case last (ml_to_delete_blocks e) of (block_id, content_hash, last_accessed) \<Rightarrow>
        let e1 = e\<lparr>ml_to_delete_blocks := butlast (ml_to_delete_blocks e)\<rparr>
        in (case dict_get (ml_free_table e1) block_id of
              None \<Rightarrow> ml_evict_loop ops np_exp now fuel e1
            | Some block \<Rightarrow>
                if bm_last_accessed block \<noteq> last_accessed then ml_evict_loop ops np_exp now fuel e1
                else Inr ((block_id, content_hash), e1))
      else res_bind (LRUMLEvictor_peek_valid_candidate ops (sd_len ops (ml_sorted_dict e)) e) (\<lambda>(candidate, e1).
        case candidate of None \<Rightarrow> Inl ValueError
        | Some (block_id, content_hash) \<Rightarrow>
            res_bind (dict_item (ml_free_table e1) block_id) (\<lambda>block.
              if LRUMLEvictor_get_policy e1 (bm_cache_hint block) = ''rrip'' \<and>
                 dict_get_default (ml_rrip_values e1) block_id RRIP_INSERT_RRPV < RRIP_MAX_RRPV
              then res_bind (LRUMLEvictor_age_rrip_blocks ops np_exp now e1)
                     (ml_evict_loop ops np_exp now fuel)
              else res_bind (LRUMLEvictor_remove_from_sorted_dict ops e1 block_id) (\<lambda>e2.
                     Inr ((block_id, content_hash), e2)))))"

definition ml_evict_fuel :: "'d LRUMLEvictor \<Rightarrow> nat" where
  "ml_evict_fuel e = Suc (length (ml_to_delete_blocks e) + 3 * length (ml_free_table e))"

definition ml_evict_finish ::
    "rat \<Rightarrow> int \<times> int \<Rightarrow> 'd LRUMLEvictor \<Rightarrow> ((int \<times> int) \<times> 'd LRUMLEvictor) result" where
  "ml_evict_finish now bh e =
     (case dict_get (ml_free_table e) (fst bh) of
        None \<Rightarrow> Inl ValueError
      | Some block \<Rightarrow>
          let e1 = e\<lparr>ml_stat := CacheStat_append (ml_stat e) ''survival_times'' (now - bm_last_accessed block)\<rparr>;
              e2 = (if LRUMLEvictor_get_policy e1 (bm_cache_hint block) = ''rrip''
                    then e1\<lparr>ml_rrip_values := dict_pop (fst bh) (ml_rrip_values e1)\<rparr> else e1)
          in Inr (bh, e2\<lparr>ml_free_table := dict_pop (fst bh) (ml_free_table e2),
                         ml_id_to_first_access := dict_pop (fst bh) (ml_id_to_first_access e2)\<rparr>))"

definition LRUMLEvictor_evict ::
    "'d score_dict \<Rightarrow> (rat \<Rightarrow> rat) \<Rightarrow> rat \<Rightarrow> 'd LRUMLEvictor \<Rightarrow> ((int \<times> int) \<times> 'd LRUMLEvictor) result" where
  "LRUMLEvictor_evict ops np_exp now e =
     (case ml_free_table e of [] \<Rightarrow> Inl ValueError
      | (_, sample) # _ \<Rightarrow>
          if LRUMLEvictor_get_policy e (bm_cache_hint sample) = ''pdp'' then ml_evict_pdp ops now e
          else res_bind (ml_evict_loop ops np_exp now (ml_evict_fuel e) e) (\<lambda>(bh, e1). ml_evict_finish now bh e1))"

section \<open>Adding, updating and removing blocks\<close>

definition hint_id :: "cache_hint option \<Rightarrow> int result" where
  "hint_id cache_hint = (case cache_hint of None \<Rightarrow> Inl TypeError | Some hint \<Rightarrow> hint_item (ch_id hint))"

definition outdated_entry ::
    "'d LRUMLEvictor \<Rightarrow> int \<times> BlockMetaData \<Rightarrow> (int \<times> int \<times> rat) list result" where
  "outdated_entry e bm =
     (let block_id = fst bm; block = snd bm in
      if LRUMLEvictor_get_policy e (bm_cache_hint block) \<in> {''rrip'', ''pdp''} then Inr []
      else res_bind (hint_id (bm_cache_hint block)) (\<lambda>i.
           res_bind (dict_item (ml_id_to_last_access e) i) (\<lambda>last.
             if last = bm_last_accessed block then Inr []
             else Inr [(block_id, bm_content_hash block, bm_last_accessed block)])))"

definition LRUMLEvictor_refresh ::
    "'d score_dict \<Rightarrow> (rat \<Rightarrow> rat) \<Rightarrow> rat \<Rightarrow> 'd LRUMLEvictor \<Rightarrow> 'd LRUMLEvictor result" where
  "LRUMLEvictor_refresh ops np_exp now e =
     res_bind (LRUMLEvictor_rebuild_sorted_dict ops np_exp now e) (\<lambda>e1.
     let e2 = e1\<lparr>ml_last_refresh_time := now\<rparr> in
     res_bind (res_map (\<lambda>bm. res_bind (hint_id (bm_cache_hint (snd bm))) (\<lambda>i. Inr (i, bm))) (ml_free_table e2))
       (\<lambda>survival_list.
     res_bind (res_map (\<lambda>(i, bm). outdated_entry e2 bm)
         (sort_key (\<lambda>(i, bm). (bm_last_accessed (snd bm), i)) survival_list)) (\<lambda>outdated.
       Inr (e2\<lparr>ml_to_delete_blocks := ml_to_delete_blocks e2 @ concat outdated\<rparr>))))"

definition ml_add_pdp :: "int \<Rightarrow> int \<Rightarrow> 'd LRUMLEvictor \<Rightarrow> 'd LRUMLEvictor" where
  "ml_add_pdp block_id content_hash e0 =
     (let e = (case dict_get (ml_free_table e0) block_id of
                 None \<Rightarrow> e0
               | Some old_block \<Rightarrow> e0\<lparr>ml_pdp_content_hash_to_block_id :=
                   forget_hash (bm_content_hash old_block) block_id (ml_pdp_content_hash_to_block_id e0)\<rparr>)
      in e\<lparr>ml_pdp_protected_until_epoch := dict_set block_id
              (ml_pdp_request_epoch e + ml_pdp_protecting_distance e) (ml_pdp_protected_until_epoch e),
           ml_pdp_last_access_epoch := dict_set block_id
              (dict_get_default (ml_pdp_last_seen_epoch e) content_hash (ml_pdp_request_epoch e))
              (ml_pdp_last_access_epoch e),
           ml_pdp_reused := dict_set block_id (dict_has (ml_pdp_last_seen_epoch e) content_hash) (ml_pdp_reused e),
           ml_pdp_content_hash_to_block_id :=
             dict_set content_hash block_id (ml_pdp_content_hash_to_block_id e)\<rparr>)"

definition ml_add_prepare :: "int \<Rightarrow> int \<Rightarrow> rat \<Rightarrow> cache_hint option \<Rightarrow> 'd LRUMLEvictor \<Rightarrow> 'd LRUMLEvictor" where
  "ml_add_prepare block_id content_hash last_accessed hint e =
     (let policy = LRUMLEvictor_get_policy e hint;
          e1 = (if policy = ''rrip'' \<and> \<not> dict_has (ml_rrip_values e) block_id
                then e\<lparr>ml_rrip_values := dict_set block_id RRIP_INSERT_RRPV (ml_rrip_values e)\<rparr> else e);
          e2 = (if policy = ''pdp'' then ml_add_pdp block_id content_hash e1 else e1)
      in if \<not> dict_has (ml_id_to_first_access e2) block_id
         then e2\<lparr>ml_id_to_first_access := dict_set block_id last_accessed (ml_id_to_first_access e2)\<rparr>
         else e2)"

definition LRUMLEvictor_add ::
    "'d score_dict \<Rightarrow> (rat \<Rightarrow> rat) \<Rightarrow> rat \<Rightarrow> 'd LRUMLEvictor \<Rightarrow> int \<Rightarrow> int \<Rightarrow> int \<Rightarrow> rat \<Rightarrow> cache_hint option \<Rightarrow>
     'd LRUMLEvictor result" where
  "LRUMLEvictor_add ops np_exp now e block_id content_hash num_hashed_tokens last_accessed cache_hint =
     res_bind (LRUMLEvictor_bind_scheduler_policy e cache_hint) (\<lambda>hint.
     let e1 = ml_add_prepare block_id content_hash last_accessed hint e in
     res_bind (LRUMLEvictor_calc_score np_exp now e1 block_id last_accessed hint) (\<lambda>score.
     let block = \<lparr>bm_content_hash = content_hash, bm_num_hashed_tokens = num_hashed_tokens,
                  bm_last_accessed = last_accessed, bm_cache_hint = hint, bm_score = score\<rparr>;
         e2 = e1\<lparr>ml_free_table := dict_set block_id block (ml_free_table e1),
                 ml_sorted_dict := insert_block ops (block_id, block) (ml_sorted_dict e1)\<rparr>
     in res_bind (hint_id hint) (\<lambda>i.
        let e3 = e2\<lparr>ml_id_to_last_access := dict_set i last_accessed (ml_id_to_last_access e2)\<rparr>
        in if now - ml_last_refresh_time e3 > ml_INSPECT_INTERVAL e3
           then LRUMLEvictor_refresh ops np_exp now e3 else Inr e3)))"

definition LRUMLEvictor_update ::
    "'d score_dict \<Rightarrow> (rat \<Rightarrow> rat) \<Rightarrow> rat \<Rightarrow> 'd LRUMLEvictor \<Rightarrow> int \<Rightarrow> rat \<Rightarrow> cache_hint option \<Rightarrow>
     'd LRUMLEvictor result" where
  "LRUMLEvictor_update ops np_exp now e block_id last_accessed cache_hint =
     (case dict_get (ml_free_table e) block_id of
        None \<Rightarrow> Inl ValueError
      | Some block \<Rightarrow>
          res_bind (LRUMLEvictor_bind_scheduler_policy e cache_hint) (\<lambda>hint.
          res_bind (LRUMLEvictor_remove_from_sorted_dict ops e block_id) (\<lambda>e1.
          let policy = LRUMLEvictor_get_policy e1 hint;
              e2 = (if policy = ''rrip''
                    then e1\<lparr>ml_rrip_values := dict_set block_id RRIP_HIT_RRPV (ml_rrip_values e1)\<rparr>
                    else if policy = ''pdp'' then LRUMLEvictor_pdp_protect_block e1 block_id True
                    else e1)
          in res_bind (LRUMLEvictor_calc_score np_exp now e2 block_id last_accessed hint) (\<lambda>score.
             let block' = block\<lparr>bm_last_accessed := last_accessed, bm_cache_hint := hint, bm_score := score\<rparr>;
                 e3 = e2\<lparr>ml_free_table := dict_set block_id block' (ml_free_table e2),
                         ml_sorted_dict := insert_block ops (block_id, block') (ml_sorted_dict e2)\<rparr>
             in res_bind (hint_id hint) (\<lambda>i.
                  Inr (e3\<lparr>ml_id_to_last_access := dict_set i last_accessed (ml_id_to_last_access e3)\<rparr>))))))"

definition LRUMLEvictor_remove ::
    "'d score_dict \<Rightarrow> 'd LRUMLEvictor \<Rightarrow> int \<Rightarrow> 'd LRUMLEvictor result" where
  "LRUMLEvictor_remove ops e block_id =
     (case dict_get (ml_free_table e) block_id of
        None \<Rightarrow> Inl ValueError
      | Some block \<Rightarrow>
          let policy = LRUMLEvictor_get_policy e (bm_cache_hint block);
              e1 = (if policy = ''rrip''
                    then e\<lparr>ml_rrip_values := dict_set block_id RRIP_HIT_RRPV (ml_rrip_values e)\<rparr>
                    else if policy = ''pdp'' then pdp_forget_block (bm_content_hash block) block_id e
                    else e)
          in res_bind (LRUMLEvictor_remove_from_sorted_dict ops e1 block_id) (\<lambda>e2.
               Inr (e2\<lparr>ml_free_table := dict_pop block_id (ml_free_table e2)\<rparr>)))"

end
