(* ===== verification/LRUML_Correct.thy ===== *)
theory LRUML_Correct
  imports LRUML_Evictor
begin

text \<open>
  Correctness of LRUMLEvictor: the invariant that ties the table of waiting blocks to the sorted
  dictionary, totality and effect of every operation, termination of the eviction loops, and the
  evictor contract.
\<close>

section \<open>Invariant\<close>

definition hint_ok :: "cache_hint option \<Rightarrow> bool" where
  "hint_ok cache_hint = (case cache_hint of None \<Rightarrow> False
     | Some hint \<Rightarrow> ch_id hint \<noteq> None \<and>
         (ch_scheduler_policy hint = Some ''belady'' \<longrightarrow> ch_next_timestamp hint \<noteq> None) \<and>
         (case ch_prob_has_next hint of None \<Rightarrow> True
          | Some p \<Rightarrow> 0 \<le> p \<and> p \<le> 1 \<and> ch_exp_scale hint \<noteq> None))"

definition hint_known :: "(int, rat) dict \<Rightarrow> cache_hint option \<Rightarrow> bool" where
  "hint_known last_access cache_hint =
     (case cache_hint of None \<Rightarrow> False
      | Some hint \<Rightarrow> (case ch_id hint of None \<Rightarrow> False | Some i \<Rightarrow> dict_has last_access i))"

definition blocks_ok :: "(int, rat) dict \<Rightarrow> (int, rat) dict \<Rightarrow> (int, BlockMetaData) dict \<Rightarrow> bool" where
  "blocks_ok first_access last_access table \<longleftrightarrow>
     (\<forall>b m. dict_get table b = Some m \<longrightarrow>
        hint_ok (bm_cache_hint m) \<and> dict_has first_access b \<and> hint_known last_access (bm_cache_hint m))"

definition deletes_ok :: "(int \<times> int \<times> rat) list \<Rightarrow> (int, BlockMetaData) dict \<Rightarrow> bool" where
  "deletes_ok dels table \<longleftrightarrow>
     (\<forall>b h l m. (b, h, l) \<in> set dels \<and> dict_get table b = Some m \<and> bm_last_accessed m = l \<longrightarrow>
        bm_content_hash m = h)"

definition rrpvs_ok :: "(int, int) dict \<Rightarrow> bool" where
  "rrpvs_ok vals \<longleftrightarrow> (\<forall>b r. dict_get vals b = Some r \<longrightarrow> 0 \<le> r \<and> r \<le> RRIP_MAX_RRPV)"

definition scheduler_ok :: "EvictionPolicyScheduler \<Rightarrow> bool" where
  "scheduler_ok s \<longleftrightarrow> sched_inv s \<and> sc_current_policy s \<in> set SCHEDULER_POLICIES \<and>
     set (sc_shadow_policies s) \<subseteq> set SHADOW_POLICIES"

definition ml_pdp_ok :: "'d LRUMLEvictor \<Rightarrow> bool" where
  "ml_pdp_ok e \<longleftrightarrow> 1 \<le> ml_pdp_max_distance e \<and> 1 \<le> ml_pdp_recompute_interval e \<and>
     1 \<le> ml_pdp_bucket_size e \<and> counts_ok (ml_pdp_max_distance e) (ml_pdp_reuse_distance_counts e)"

definition lruml_core :: "'d LRUMLEvictor \<Rightarrow> bool" where
  "lruml_core e \<longleftrightarrow> dict_ok (ml_free_table e) \<and>
     blocks_ok (ml_id_to_first_access e) (ml_id_to_last_access e) (ml_free_table e) \<and>
     rrpvs_ok (ml_rrip_values e) \<and> deletes_ok (ml_to_delete_blocks e) (ml_free_table e) \<and>
     scheduler_ok (ml_scheduler e) \<and> ml_pdp_ok e"

definition entries_ok :: "('d \<Rightarrow> (score_key \<times> (int \<times> int)) list) \<Rightarrow> (int, BlockMetaData) dict \<Rightarrow> 'd \<Rightarrow> bool" where
  "entries_ok items table d \<longleftrightarrow>
     (\<forall>b m. dict_get table b = Some m \<longrightarrow> map_of (items d) (ml_key b m) = Some (b, bm_content_hash m)) \<and>
     (\<forall>k v. map_of (items d) k = Some v \<longrightarrow> snd (snd k) = fst v)"

definition lruml_inv :: "('d \<Rightarrow> (score_key \<times> (int \<times> int)) list) \<Rightarrow> 'd LRUMLEvictor \<Rightarrow> bool" where
  "lruml_inv items e \<longleftrightarrow> lruml_core e \<and> entries_ok items (ml_free_table e) (ml_sorted_dict e)"

definition lruml_view :: "'d LRUMLEvictor \<Rightarrow> int \<rightharpoonup> int" where
  "lruml_view e = hash_view (ml_free_table e)"

definition rescored :: "(int, BlockMetaData) dict \<Rightarrow> (int, BlockMetaData) dict \<Rightarrow> bool" where
  "rescored t t' \<longleftrightarrow> (\<exists>f. t' = map (\<lambda>(b, m). (b, m\<lparr>bm_score := f b m\<rparr>)) t)"

lemma rescored_refl: "rescored t t"
  unfolding rescored_def by (rule exI[of _ "\<lambda>b m. bm_score m"]) (simp add: case_prod_beta)

lemma rescored_trans: "rescored t u \<Longrightarrow> rescored u v \<Longrightarrow> rescored t v"
  unfolding rescored_def by (auto simp: case_prod_beta)

lemma rescored_get:
  assumes "rescored t t'" "dict_get t' b = Some m'"
  obtains m where "dict_get t b = Some m" "m' = m\<lparr>bm_score := bm_score m'\<rparr>"
  using assms by (auto simp: rescored_def dict_get_map)

lemma rescored_keys: "rescored t t' \<Longrightarrow> map fst t' = map fst t"
  by (auto simp: rescored_def)

lemma rescored_view: "rescored t t' \<Longrightarrow> hash_view t' = hash_view t"
  by (auto simp: rescored_def hash_view_def dict_get_map fun_eq_iff option.map_comp comp_def)

lemma rescored_ok:
  assumes "rescored t t'"
  shows "dict_ok t \<Longrightarrow> dict_ok t'" "blocks_ok fa la t \<Longrightarrow> blocks_ok fa la t'"
    "deletes_ok dels t \<Longrightarrow> deletes_ok dels t'" "length t' = length t" "t' = [] \<longleftrightarrow> t = []"
proof -
  show "dict_ok t \<Longrightarrow> dict_ok t'" using rescored_keys[OF assms] by (simp add: dict_ok_def)
  show "length t' = length t" using rescored_keys[OF assms] by (metis length_map)
  then show "t' = [] \<longleftrightarrow> t = []" by auto
  show "blocks_ok fa la t'" if b: "blocks_ok fa la t"
    unfolding blocks_ok_def
  proof (intro allI impI)
    fix b m assume "dict_get t' b = Some m"
    from rescored_get[OF assms this] obtain m0 where "dict_get t b = Some m0" "m = m0\<lparr>bm_score := bm_score m\<rparr>" .
    with b show "hint_ok (bm_cache_hint m) \<and> dict_has fa b \<and> hint_known la (bm_cache_hint m)"
      unfolding blocks_ok_def by (metis BlockMetaData.simps(4) BlockMetaData.update_convs(5) BlockMetaData.surjective)
  qed
  show "deletes_ok dels t'" if d: "deletes_ok dels t"
    unfolding deletes_ok_def
  proof (intro allI impI, elim conjE)
    fix b h l m assume a: "(b, h, l) \<in> set dels" "dict_get t' b = Some m" "bm_last_accessed m = l"
    from rescored_get[OF assms a(2)] obtain m0 where m0: "dict_get t b = Some m0" "m = m0\<lparr>bm_score := bm_score m\<rparr>" .
    have "bm_last_accessed m0 = l" "bm_content_hash m0 = bm_content_hash m"
      using a(3) arg_cong[OF m0(2), of bm_last_accessed] arg_cong[OF m0(2), of bm_content_hash] by simp_all
    then show "bm_content_hash m = h" using d a(1) m0(1) unfolding deletes_ok_def by metis
  qed
qed

section \<open>Scores\<close>

lemma probability_total:
  assumes "\<And>x. 0 < np_exp x" "0 \<le> p" "p \<le> 1"
  shows "\<exists>q. probability_of_future_arrival np_exp p scale t = Inr q"
proof (cases "p = 0 \<or> scale = 0")
  case False
  then have "0 < p * np_exp (- t / scale) + (1 - p)"
    using assms by (intro add_pos_nonneg mult_pos_pos) auto
  then show ?thesis by (auto simp: probability_of_future_arrival_def Let_def)
qed (simp add: probability_of_future_arrival_def)

lemma policy_of_known:
  assumes "scheduler_ok s" "policy_of s hint = ''belady''"
  shows "\<exists>h. hint = Some h \<and> (ch_next_timestamp h \<noteq> None \<or> ch_scheduler_policy h = Some ''belady'')"
  using assms
  by (auto simp: policy_of_def scheduler_ok_def SCHEDULER_POLICIES_def truthy_str_def split: option.splits if_splits)

lemma calc_score_total:
  assumes "\<And>x. 0 < np_exp x" "scheduler_ok (ml_scheduler e)" "hint_ok hint" "dict_has (ml_id_to_first_access e) b"
  shows "\<exists>score. LRUMLEvictor_calc_score np_exp now e b t hint = Inr score"
proof -
  obtain h where h: "hint = Some h" using assms(3) by (auto simp: hint_ok_def split: option.splits)
  have bel: "ch_next_timestamp h \<noteq> None" if "policy_of (ml_scheduler e) hint = ''belady''"
    using policy_of_known[OF assms(2) that] h assms(3) by (auto simp: hint_ok_def)
  have fifo: "\<exists>x. dict_item (ml_id_to_first_access e) b = Inr x" using assms(4) by (auto simp: dict_item_def)
  have ml: "\<exists>score. (case ch_prob_has_next h of Some p \<Rightarrow> res_bind (hint_item (ch_exp_scale h)) (\<lambda>scale.
      probability_of_future_arrival np_exp p scale (now - t)) | None \<Rightarrow> Inr t) = Inr score"
    using assms(3) h probability_total[OF assms(1)] by (auto simp: hint_ok_def split: option.splits)
  show ?thesis using bel fifo ml h
    by (auto simp: LRUMLEvictor_calc_score_def LRUMLEvictor_get_policy_def Let_def)
qed

lemma bind_policy_total:
  assumes "scheduler_ok s" "hint_ok hint"
  shows "\<exists>hint'. bind_policy s hint = Inr hint' \<and> hint_ok hint' \<and> hint_id hint' = hint_id hint"
proof -
  have "sc_current_policy s \<noteq> ''belady''" using assms(1) by (auto simp: scheduler_ok_def SCHEDULER_POLICIES_def)
  then show ?thesis using assms(2)
    by (auto simp: bind_policy_def hint_ok_def hint_id_def split: option.splits)
qed

lemma hint_id_total: "hint_ok hint \<Longrightarrow> \<exists>i. hint_id hint = Inr i"
  by (auto simp: hint_ok_def hint_id_def split: option.splits)

lemma hint_known_id:
  assumes "hint_known la hint"
  shows "\<exists>i x. hint_id hint = Inr i \<and> dict_item la i = Inr x"
  using assms by (auto simp: hint_known_def hint_id_def dict_item_def split: option.splits)

lemma hint_known_set: "hint_known la hint \<Longrightarrow> hint_known (dict_set i t la) hint"
  by (auto simp: hint_known_def split: option.splits)

lemma hint_known_new: "hint_id hint = Inr i \<Longrightarrow> hint_known (dict_set i t la) hint"
  by (auto simp: hint_known_def hint_id_def hint_item_def split: option.splits)

section \<open>The environment of the evictor\<close>

text \<open>What the evictor relies on: a sorted dictionary and a positive exponential.\<close>

locale lruml_env = sorted_dict ops items
  for ops :: "'d score_dict" and items :: "'d \<Rightarrow> (score_key \<times> (int \<times> int)) list" +
  fixes np_exp :: "rat \<Rightarrow> rat"
  assumes exp_pos: "0 < np_exp x"
begin

lemma entries_ok_insert:
  assumes "entries_ok items t d"
  shows "entries_ok items (dict_set b m t) (insert_block ops (b, m) d)"
  using assms by (auto simp: entries_ok_def insert_block_def items_set ml_key_def split: if_splits)

lemma entries_ok_pop: "entries_ok items t d \<Longrightarrow> entries_ok items (dict_pop b t) d"
  by (auto simp: entries_ok_def split: if_splits)

lemma entries_ok_del:
  assumes "entries_ok items t d" "dict_get t b = Some m"
  shows "entries_ok items (dict_pop b t) (sd_delitem ops (ml_key b m) d)"
proof -
  have "map_of (items d) (ml_key b m) \<noteq> None" using assms by (auto simp: entries_ok_def)
  from items_del[OF this] assms(1) show ?thesis
    by (auto simp: entries_ok_def ml_key_def split: if_splits)
qed

lemma entries_ok_fold:
  assumes "dict_ok (t0 @ t)" "entries_ok items t0 d"
  shows "entries_ok items (t0 @ t) (fold (insert_block ops) t d)"
  using assms
proof (induction t arbitrary: t0 d)
  case (Cons bm t)
  obtain b m where bm: "bm = (b, m)" by (cases bm)
  have "b \<notin> fst ` set t0" using Cons.prems(1) bm by (auto simp: dict_ok_def)
  then have "dict_set b m t0 = t0 @ [bm]" using bm by (simp add: dict_set_fresh)
  then have "entries_ok items (t0 @ [bm]) (insert_block ops bm d)"
    using entries_ok_insert[OF Cons.prems(2), of b m] bm by simp
  from Cons.IH[OF _ this] Cons.prems(1) show ?case by simp
qed simp

lemma entries_ok_rebuilt: "dict_ok t \<Longrightarrow> entries_ok items t (fold (insert_block ops) t (sd_new ops))"
  using entries_ok_fold[of "[]" t "sd_new ops"] by (simp add: entries_ok_def items_new)

lemma rebuild_total:
  assumes "dict_ok (ml_free_table e)" "scheduler_ok (ml_scheduler e)"
    "blocks_ok (ml_id_to_first_access e) la (ml_free_table e)"
  shows "\<exists>t d. LRUMLEvictor_rebuild_sorted_dict ops np_exp now e = Inr (e\<lparr>ml_free_table := t, ml_sorted_dict := d\<rparr>) \<and>
           rescored (ml_free_table e) t \<and> entries_ok items t d \<and>
           (\<forall>b m. dict_get t b = Some m \<longrightarrow>
              LRUMLEvictor_calc_score np_exp now e b (bm_last_accessed m) (bm_cache_hint m) = Inr (bm_score m))"
proof -
  let ?f = "\<lambda>b m. case LRUMLEvictor_calc_score np_exp now e b (bm_last_accessed m) (bm_cache_hint m) of Inr x \<Rightarrow> x | Inl _ \<Rightarrow> 0"
  let ?t = "map (\<lambda>(b, m). (b, m\<lparr>bm_score := ?f b m\<rparr>)) (ml_free_table e)"
  have tot: "LRUMLEvictor_calc_score np_exp now e b (bm_last_accessed m) (bm_cache_hint m) = Inr (?f b m)"
    if "dict_get (ml_free_table e) b = Some m" for b m
  proof -
    have "hint_ok (bm_cache_hint m)" "dict_has (ml_id_to_first_access e) b"
      using assms(3) that by (auto simp: blocks_ok_def)
    from calc_score_total[where np_exp = np_exp, OF exp_pos assms(2) this, of now "bm_last_accessed m"]
    show ?thesis by fastforce
  qed
  have "res_map (score_block np_exp now e) (ml_free_table e) = Inr ?t"
  proof (rule res_map_ok)
    fix bm assume "bm \<in> set (ml_free_table e)"
    then have "dict_get (ml_free_table e) (fst bm) = Some (snd bm)" using assms(1) by (simp add: dict_get_mem[symmetric])
    from tot[OF this] show "score_block np_exp now e bm = Inr (case bm of (b, m) \<Rightarrow> (b, m\<lparr>bm_score := ?f b m\<rparr>))"
      by (cases bm) (auto simp: score_block_def res_bind_def split: sum.splits)
  qed
  then have r: "LRUMLEvictor_rebuild_sorted_dict ops np_exp now e =
      Inr (e\<lparr>ml_free_table := ?t, ml_sorted_dict := fold (insert_block ops) ?t (sd_new ops)\<rparr>)"
    by (simp add: LRUMLEvictor_rebuild_sorted_dict_def)
  have sc: "rescored (ml_free_table e) ?t" unfolding rescored_def by (rule exI) (rule refl)
  have sco: "LRUMLEvictor_calc_score np_exp now e b (bm_last_accessed m) (bm_cache_hint m) = Inr (bm_score m)"
    if "dict_get ?t b = Some m" for b m
    using that tot by (auto simp: dict_get_map)
  show ?thesis using r sc entries_ok_rebuilt[OF rescored_ok(1)[OF sc assms(1)]] sco by blast
qed

lemma core_rebuild:
  assumes "lruml_core e"
  shows "\<exists>t d. LRUMLEvictor_rebuild_sorted_dict ops np_exp now e = Inr (e\<lparr>ml_free_table := t, ml_sorted_dict := d\<rparr>) \<and>
           rescored (ml_free_table e) t \<and> lruml_inv items (e\<lparr>ml_free_table := t, ml_sorted_dict := d\<rparr>) \<and>
           (\<forall>b m. dict_get t b = Some m \<longrightarrow>
              LRUMLEvictor_calc_score np_exp now e b (bm_last_accessed m) (bm_cache_hint m) = Inr (bm_score m))"
proof -
  have c: "dict_ok (ml_free_table e)" "scheduler_ok (ml_scheduler e)"
    "blocks_ok (ml_id_to_first_access e) (ml_id_to_last_access e) (ml_free_table e)"
    using assms by (auto simp: lruml_core_def)
  from rebuild_total[OF c, of now] obtain t d where t:
    "LRUMLEvictor_rebuild_sorted_dict ops np_exp now e = Inr (e\<lparr>ml_free_table := t, ml_sorted_dict := d\<rparr>)"
    "rescored (ml_free_table e) t" "entries_ok items t d"
    "\<forall>b m. dict_get t b = Some m \<longrightarrow>
        LRUMLEvictor_calc_score np_exp now e b (bm_last_accessed m) (bm_cache_hint m) = Inr (bm_score m)" by blast
  have "lruml_inv items (e\<lparr>ml_free_table := t, ml_sorted_dict := d\<rparr>)"
    using assms rescored_ok[OF t(2)] t(3) by (simp add: lruml_inv_def lruml_core_def ml_pdp_ok_def)
  with t show ?thesis by blast
qed

end

section \<open>RRIP aging\<close>

definition rrpv_of :: "(int, int) dict \<Rightarrow> int \<Rightarrow> int" where
  "rrpv_of vals b = dict_get_default vals b RRIP_INSERT_RRPV"

definition age_values :: "EvictionPolicyScheduler \<Rightarrow> (int, BlockMetaData) dict \<Rightarrow> (int, int) dict \<Rightarrow> (int, int) dict" where
  "age_values s table vals = fold (\<lambda>(b, m) vals.
     if policy_of s (bm_cache_hint m) \<noteq> ''rrip'' then vals
     else dict_set b (min RRIP_MAX_RRPV (dict_get_default vals b RRIP_INSERT_RRPV + 1)) vals) table vals"

lemma rrpv_of_range: "rrpvs_ok vals \<Longrightarrow> 0 \<le> rrpv_of vals b \<and> rrpv_of vals b \<le> RRIP_MAX_RRPV"
  by (auto simp: rrpvs_ok_def rrpv_of_def dict_get_default_def RRIP_INSERT_RRPV_def RRIP_MAX_RRPV_def split: option.splits)

lemma rrpvs_ok_age: "rrpvs_ok vals \<Longrightarrow> rrpvs_ok (age_values s table vals)"
proof (induction table arbitrary: vals)
  case (Cons bm table)
  obtain b m where bm: "bm = (b, m)" by (cases bm)
  let ?v = "dict_set b (min RRIP_MAX_RRPV (dict_get_default vals b RRIP_INSERT_RRPV + 1)) vals"
  have "0 \<le> min RRIP_MAX_RRPV (rrpv_of vals b + 1)"
    using rrpv_of_range[OF Cons.prems, of b] by (simp add: RRIP_MAX_RRPV_def)
  then have "rrpvs_ok ?v" using Cons.prems by (auto simp: rrpvs_ok_def rrpv_of_def)
  with Cons show ?case by (simp add: bm age_values_def)
qed (simp add: age_values_def)

lemma rrpv_of_age:
  assumes "dict_ok table"
  shows "rrpv_of (age_values s table vals) b =
     (case dict_get table b of
        Some m \<Rightarrow> if policy_of s (bm_cache_hint m) = ''rrip'' then min RRIP_MAX_RRPV (rrpv_of vals b + 1) else rrpv_of vals b
      | None \<Rightarrow> rrpv_of vals b)"
  using assms
proof (induction table arbitrary: vals)
  case (Cons bm table)
  obtain c m where bm: "bm = (c, m)" by (cases bm)
  have ok: "dict_ok table" "c \<notin> fst ` set table" using Cons.prems bm by (auto simp: dict_ok_def)
  have n: "dict_get table c = None" using ok(2) by (simp add: map_of_eq_None_iff)
  have st: "age_values s (bm # table) vals = age_values s table
      (if policy_of s (bm_cache_hint m) \<noteq> ''rrip'' then vals
       else dict_set c (min RRIP_MAX_RRPV (dict_get_default vals c RRIP_INSERT_RRPV + 1)) vals)"
    by (simp add: bm age_values_def)
  show ?case unfolding st Cons.IH[OF ok(1)] using n
    by (auto simp: bm rrpv_of_def dict_get_default_def split: option.splits)
qed (simp add: age_values_def)

definition aging_room :: "EvictionPolicyScheduler \<Rightarrow> (int, int) dict \<Rightarrow> (int, BlockMetaData) dict \<Rightarrow> nat" where
  "aging_room s vals table = sum_list (map (\<lambda>(b, m).
     if policy_of s (bm_cache_hint m) = ''rrip'' then nat (RRIP_MAX_RRPV - rrpv_of vals b) else 0) table)"

lemma aging_room_bound: "rrpvs_ok vals \<Longrightarrow> aging_room s vals table \<le> 3 * length table"
proof (induction table)
  case (Cons bm table)
  have "nat (RRIP_MAX_RRPV - rrpv_of vals (fst bm)) \<le> 3"
    using rrpv_of_range[OF Cons.prems, of "fst bm"] by (auto simp: RRIP_MAX_RRPV_def nat_le_iff)
  with Cons show ?case by (cases bm) (simp add: aging_room_def)
qed (simp add: aging_room_def)

lemma aging_room_rescored: "rescored t t' \<Longrightarrow> aging_room s vals t' = aging_room s vals t"
  by (auto simp: rescored_def aging_room_def comp_def case_prod_beta intro!: arg_cong[of _ _ sum_list])

lemma aging_room_decreases:
  assumes "dict_ok table" "dict_get table b = Some m" "policy_of s (bm_cache_hint m) = ''rrip''"
    "rrpv_of vals b < RRIP_MAX_RRPV"
  shows "aging_room s (age_values s table vals) table < aging_room s vals table"
proof -
  let ?v = "age_values s table vals"
  let ?g = "\<lambda>v (c, m). if policy_of s (bm_cache_hint m) = ''rrip'' then nat (RRIP_MAX_RRPV - rrpv_of v c) else 0"
  have le: "?g ?v cm \<le> ?g vals cm" if "cm \<in> set table" for cm
  proof -
    have "dict_get table (fst cm) = Some (snd cm)" using that assms(1) by (simp add: dict_get_mem[symmetric])
    then show ?thesis using rrpv_of_age[OF assms(1), of s vals "fst cm"] by (cases cm) auto
  qed
  have lt: "?g ?v (b, m) < ?g vals (b, m)"
    using rrpv_of_age[OF assms(1), of s vals b] assms(2-4) by auto
  have "(b, m) \<in> set table" using assms(2) by (rule map_of_SomeD)
  then obtain xs ys where t: "table = xs @ (b, m) # ys" by (meson split_list)
  have "sum_list (map (?g ?v) xs) \<le> sum_list (map (?g vals) xs)"
    "sum_list (map (?g ?v) ys) \<le> sum_list (map (?g vals) ys)"
    using le by (auto intro!: sum_list_mono simp: t)
  moreover have "aging_room s v table = sum_list (map (?g v) xs) + (?g v (b, m) + sum_list (map (?g v) ys))" for v
    by (simp add: aging_room_def t)
  ultimately show ?thesis using lt by (metis add_le_less_mono add_less_le_mono)
qed

section \<open>Eviction\<close>

context lruml_env
begin

lemma age_total:
  assumes "lruml_core e"
  shows "\<exists>t d. LRUMLEvictor_age_rrip_blocks ops np_exp now e =
      Inr (e\<lparr>ml_rrip_values := age_values (ml_scheduler e) (ml_free_table e) (ml_rrip_values e),
             ml_free_table := t, ml_sorted_dict := d\<rparr>) \<and>
      rescored (ml_free_table e) t \<and>
      lruml_inv items (e\<lparr>ml_rrip_values := age_values (ml_scheduler e) (ml_free_table e) (ml_rrip_values e),
             ml_free_table := t, ml_sorted_dict := d\<rparr>)"
proof -
  let ?e = "e\<lparr>ml_rrip_values := age_values (ml_scheduler e) (ml_free_table e) (ml_rrip_values e)\<rparr>"
  have "lruml_core ?e" using assms by (simp add: lruml_core_def ml_pdp_ok_def rrpvs_ok_age)
  from core_rebuild[OF this, of now] show ?thesis
    by (auto simp: LRUMLEvictor_age_rrip_blocks_def age_values_def LRUMLEvictor_get_policy_def cong: if_cong)
qed

lemma peek_valid_total:
  assumes "entries_ok items (ml_free_table e) (ml_sorted_dict e)" "ml_free_table e \<noteq> []"
    "fuel = sd_len ops (ml_sorted_dict e)"
  shows "\<exists>b m d. LRUMLEvictor_peek_valid_candidate ops fuel e =
        Inr (Some (b, bm_content_hash m), e\<lparr>ml_sorted_dict := d\<rparr>) \<and>
      dict_get (ml_free_table e) b = Some m \<and> entries_ok items (ml_free_table e) d \<and>
      (\<forall>b' m'. dict_get (ml_free_table e) b' = Some m' \<longrightarrow> ml_key b m \<le> ml_key b' m')"
  using assms
proof (induction fuel arbitrary: e)
  case 0
  obtain b m where "dict_get (ml_free_table e) b = Some m" using 0(2)
    by (metis list.exhaust map_of_eq_empty_iff not_None_eq)
  then have "map_of (items (ml_sorted_dict e)) (ml_key b m) \<noteq> None" using 0(1) by (auto simp: entries_ok_def)
  then show ?case using 0(3) len_items[of "ml_sorted_dict e"] by auto
next
  case (Suc fuel)
  let ?d = "ml_sorted_dict e" and ?t = "ml_free_table e"
  have ne: "items ?d \<noteq> []" using Suc.prems(3) len_items[of ?d] by auto
  obtain k b h where p: "sd_peekitem0 ops ?d = (k, (b, h))" by (metis surj_pair)
  have it: "map_of (items ?d) k = Some (b, h)" using peek_items[OF ne] p ne
    by (cases "items ?d") auto
  have ids: "\<forall>k v. map_of (items ?d) k = Some v \<longrightarrow> snd (snd k) = fst v"
    using Suc.prems(1) unfolding entries_ok_def by blast
  with it have kb: "snd (snd k) = b" by (metis fst_conv)
  define valid where "valid \<longleftrightarrow> (\<exists>m. dict_get ?t b = Some m \<and> bm_score m = fst k \<and> bm_last_accessed m = fst (snd k))"
  show ?case
  proof (cases valid)
    case True
    then obtain m where m: "dict_get ?t b = Some m" "bm_score m = fst k" "bm_last_accessed m = fst (snd k)"
      by (auto simp: valid_def)
    have k: "k = ml_key b m" using m kb by (cases k) (auto simp: ml_key_def)
    have h: "h = bm_content_hash m" using Suc.prems(1) m(1) it k by (auto simp: entries_ok_def)
    have "k \<le> ml_key b' m'" if "dict_get ?t b' = Some m'" for b' m'
      using peek_least(2)[of ?d "ml_key b' m'"] Suc.prems(1) that p by (auto simp: entries_ok_def)
    moreover have "e\<lparr>ml_sorted_dict := ?d\<rparr> = e" by simp
    ultimately show ?thesis using m p Suc.prems(1) Suc.prems(3)[symmetric] k h
      by (intro exI[of _ b] exI[of _ m] exI[of _ ?d]) auto
  next
    case False
    let ?e = "e\<lparr>ml_sorted_dict := sd_popitem0 ops ?d\<rparr>"
    have hd: "fst (hd (items ?d)) = k" using peek_items[OF ne] p by (metis fst_conv)
    have ok: "entries_ok items ?t (sd_popitem0 ops ?d)"
      unfolding entries_ok_def pop_items[OF ne] hd
    proof (intro conjI allI impI)
      fix b' m' assume g: "dict_get ?t b' = Some m'"
      have "ml_key b' m' \<noteq> k"
      proof
        assume k: "ml_key b' m' = k"
        then have "b' = b" using kb by (auto simp: ml_key_def)
        with k g False show False by (auto simp: valid_def ml_key_def)
      qed
      then show "((map_of (items ?d))(k := None)) (ml_key b' m') = Some (b', bm_content_hash m')"
        using Suc.prems(1) g by (simp add: entries_ok_def)
    next
      fix k' v assume "((map_of (items ?d))(k := None)) k' = Some v"
      then show "snd (snd k') = fst v" using ids by (metis fun_upd_apply option.discI)
    qed
    have len: "fuel = sd_len ops (sd_popitem0 ops ?d)" using pop_shrinks[OF ne] Suc.prems(3) by simp
    have step: "LRUMLEvictor_peek_valid_candidate ops (Suc fuel) e = LRUMLEvictor_peek_valid_candidate ops fuel ?e"
      using False Suc.prems(3)[symmetric] p by (auto simp: valid_def split: option.splits)
    from Suc.IH[of ?e] ok len Suc.prems(2) show ?thesis unfolding step by auto
  qed
qed

lemma remove_from_sorted_total:
  assumes "entries_ok items (ml_free_table e) (ml_sorted_dict e)" "dict_get (ml_free_table e) b = Some m"
  shows "LRUMLEvictor_remove_from_sorted_dict ops e b =
      Inr (e\<lparr>ml_sorted_dict := sd_delitem ops (ml_key b m) (ml_sorted_dict e)\<rparr>)"
  using assms
  by (auto simp: LRUMLEvictor_remove_from_sorted_dict_def dict_item_def contains_items entries_ok_def)

lemma core_frame:
  assumes "lruml_core e"
  shows "lruml_core (e\<lparr>ml_sorted_dict := d\<rparr>)" "lruml_core (e\<lparr>ml_stat := st\<rparr>)"
    "set dels \<subseteq> set (ml_to_delete_blocks e) \<Longrightarrow> lruml_core (e\<lparr>ml_to_delete_blocks := dels\<rparr>)"
  using assms by (auto simp: lruml_core_def ml_pdp_ok_def deletes_ok_def)

text \<open>The outcome of the loop: a waiting block whose entry may be dropped with it.\<close>

definition evict_candidate :: "'d LRUMLEvictor \<Rightarrow> (int \<times> int) \<times> 'd LRUMLEvictor \<Rightarrow> bool" where
  "evict_candidate e r \<longleftrightarrow> (case r of ((b, h), e1) \<Rightarrow>
     (\<exists>m. dict_get (ml_free_table e1) b = Some m \<and> bm_content_hash m = h) \<and>
     lruml_core e1 \<and> rescored (ml_free_table e) (ml_free_table e1) \<and>
     entries_ok items (dict_pop b (ml_free_table e1)) (ml_sorted_dict e1))"

lemma evict_loop_total:
  assumes "lruml_inv items e" "ml_free_table e \<noteq> []"
    "length (ml_to_delete_blocks e) + aging_room (ml_scheduler e) (ml_rrip_values e) (ml_free_table e) < fuel"
  shows "\<exists>r. ml_evict_loop ops np_exp now fuel e = Inr r \<and> evict_candidate e r"
  using assms
proof (induction fuel arbitrary: e)
  case (Suc fuel)
  have core: "lruml_core e" and ent: "entries_ok items (ml_free_table e) (ml_sorted_dict e)"
    using Suc.prems(1) by (auto simp: lruml_inv_def)
  show ?case
  proof (cases "ml_to_delete_blocks e = []")
    case False
    obtain b h l where l: "last (ml_to_delete_blocks e) = (b, h, l)" by (metis surj_pair)
    let ?e = "e\<lparr>ml_to_delete_blocks := butlast (ml_to_delete_blocks e)\<rparr>"
    have c: "lruml_core ?e" using core_frame(3)[OF core] in_set_butlastD by (metis subsetI)
    show ?thesis
    proof (cases "\<exists>m. dict_get (ml_free_table e) b = Some m \<and> bm_last_accessed m = l")
      case True
      then obtain m where m: "dict_get (ml_free_table e) b = Some m" "bm_last_accessed m = l" by blast
      have "(b, h, l) \<in> set (ml_to_delete_blocks e)" using l False by (metis last_in_set)
      then have "bm_content_hash m = h" using core m by (auto simp: lruml_core_def deletes_ok_def)
      then show ?thesis using l m False c entries_ok_pop[OF ent]
        by (auto simp: evict_candidate_def rescored_refl)
    next
      case skip: False
      have "ml_evict_loop ops np_exp now (Suc fuel) e = ml_evict_loop ops np_exp now fuel ?e"
        using l False skip by (auto simp: Let_def split: option.splits)
      moreover have "\<exists>r. ml_evict_loop ops np_exp now fuel ?e = Inr r \<and> evict_candidate ?e r"
      proof (rule Suc.IH)
        show "lruml_inv items ?e" using c ent by (simp add: lruml_inv_def)
        have "length (ml_to_delete_blocks e) = Suc (length (ml_to_delete_blocks ?e))" using False by simp
        then show "length (ml_to_delete_blocks ?e) + aging_room (ml_scheduler ?e) (ml_rrip_values ?e) (ml_free_table ?e) < fuel"
          using Suc.prems(3) by simp
      qed (use Suc.prems(2) in simp)
      ultimately show ?thesis by (simp add: evict_candidate_def)
    qed
  next
    case True
    obtain b m d where p: "LRUMLEvictor_peek_valid_candidate ops (sd_len ops (ml_sorted_dict e)) e =
        Inr (Some (b, bm_content_hash m), e\<lparr>ml_sorted_dict := d\<rparr>)" "dict_get (ml_free_table e) b = Some m"
      "entries_ok items (ml_free_table e) d"
      using peek_valid_total[OF ent Suc.prems(2) refl] by blast
    let ?e = "e\<lparr>ml_sorted_dict := d\<rparr>"
    have c: "lruml_core ?e" using core_frame(1)[OF core] .
    show ?thesis
    proof (cases "policy_of (ml_scheduler e) (bm_cache_hint m) = ''rrip'' \<and> rrpv_of (ml_rrip_values e) b < RRIP_MAX_RRPV")
      case age: True
      obtain t d' where a: "LRUMLEvictor_age_rrip_blocks ops np_exp now ?e =
          Inr (?e\<lparr>ml_rrip_values := age_values (ml_scheduler e) (ml_free_table e) (ml_rrip_values e),
             ml_free_table := t, ml_sorted_dict := d'\<rparr>)" "rescored (ml_free_table e) t"
          "lruml_inv items (?e\<lparr>ml_rrip_values := age_values (ml_scheduler e) (ml_free_table e) (ml_rrip_values e),
             ml_free_table := t, ml_sorted_dict := d'\<rparr>)"
        using age_total[OF c, of now] by auto
      let ?a = "?e\<lparr>ml_rrip_values := age_values (ml_scheduler e) (ml_free_table e) (ml_rrip_values e),
             ml_free_table := t, ml_sorted_dict := d'\<rparr>"
      have "dict_ok (ml_free_table e)" using core by (simp add: lruml_core_def)
      from aging_room_decreases[OF this p(2)] age
      have "aging_room (ml_scheduler ?a) (ml_rrip_values ?a) (ml_free_table ?a) <
          aging_room (ml_scheduler e) (ml_rrip_values e) (ml_free_table e)"
        using aging_room_rescored[OF a(2)] by simp
      then have lt: "length (ml_to_delete_blocks ?a) + aging_room (ml_scheduler ?a) (ml_rrip_values ?a) (ml_free_table ?a) < fuel"
        using Suc.prems(3) True by simp
      have ne: "ml_free_table ?a \<noteq> []" using rescored_ok(5)[OF a(2)] Suc.prems(2) by simp
      obtain r where r: "ml_evict_loop ops np_exp now fuel ?a = Inr r" "evict_candidate ?a r"
        using Suc.IH[OF a(3) ne lt] by blast
      have "ml_evict_loop ops np_exp now (Suc fuel) e = ml_evict_loop ops np_exp now fuel ?a"
        using True p a(1) age by (simp add: dict_item_def LRUMLEvictor_get_policy_def rrpv_of_def)
      then show ?thesis using r rescored_trans[OF a(2)] by (auto simp: evict_candidate_def split: prod.splits)
    next
      case take: False
      have rm: "LRUMLEvictor_remove_from_sorted_dict ops ?e b =
          Inr (?e\<lparr>ml_sorted_dict := sd_delitem ops (ml_key b m) d\<rparr>)"
        using remove_from_sorted_total[of ?e b m] p(2,3) by simp
      have "ml_evict_loop ops np_exp now (Suc fuel) e =
          Inr ((b, bm_content_hash m), e\<lparr>ml_sorted_dict := sd_delitem ops (ml_key b m) d\<rparr>)"
        using True p take rm by (auto simp: dict_item_def LRUMLEvictor_get_policy_def rrpv_of_def)
      then show ?thesis using p(2) core_frame(1)[OF core] entries_ok_del[OF p(3,2)]
        by (auto simp: evict_candidate_def rescored_refl)
    qed
  qed
qed simp

lemma core_pop:
  assumes "lruml_core e"
  shows "lruml_core (e\<lparr>ml_free_table := dict_pop b (ml_free_table e),
      ml_id_to_first_access := dict_pop b (ml_id_to_first_access e)\<rparr>)"
    "lruml_core (e\<lparr>ml_free_table := dict_pop b (ml_free_table e)\<rparr>)"
    "lruml_core (e\<lparr>ml_rrip_values := dict_pop b (ml_rrip_values e)\<rparr>)"
    "lruml_core (pdp_forget_block h b e)"
  using assms
  by (auto simp: lruml_core_def ml_pdp_ok_def blocks_ok_def deletes_ok_def rrpvs_ok_def pdp_forget_block_def
      split: if_splits)

lemma evict_finish_total:
  assumes "evict_candidate e ((b, h), e1)"
  shows "\<exists>e'. ml_evict_finish now (b, h) e1 = Inr ((b, h), e') \<and> lruml_inv items e' \<and>
      lruml_view e b = Some h \<and> lruml_view e' = (lruml_view e)(b := None)"
proof -
  obtain m where m: "dict_get (ml_free_table e1) b = Some m" "bm_content_hash m = h"
    using assms by (auto simp: evict_candidate_def)
  have c: "lruml_core e1" "rescored (ml_free_table e) (ml_free_table e1)"
    "entries_ok items (dict_pop b (ml_free_table e1)) (ml_sorted_dict e1)"
    using assms by (auto simp: evict_candidate_def)
  let ?e1 = "e1\<lparr>ml_stat := CacheStat_append (ml_stat e1) ''survival_times'' (now - bm_last_accessed m)\<rparr>"
  let ?e2 = "if policy_of (ml_scheduler e1) (bm_cache_hint m) = ''rrip''
     then ?e1\<lparr>ml_rrip_values := dict_pop b (ml_rrip_values e1)\<rparr> else ?e1"
  let ?e = "?e2\<lparr>ml_free_table := dict_pop b (ml_free_table ?e2),
      ml_id_to_first_access := dict_pop b (ml_id_to_first_access ?e2)\<rparr>"
  have "lruml_core ?e1" using core_frame(2)[OF c(1)] .
  then have "lruml_core ?e2" using core_pop(3)[of ?e1 b] by auto
  from core_pop(1)[OF this] have "lruml_core ?e" .
  moreover have "ml_free_table ?e2 = ml_free_table e1" "ml_sorted_dict ?e2 = ml_sorted_dict e1" by auto
  ultimately have "lruml_inv items ?e" using c(3) by (simp add: lruml_inv_def)
  moreover have "ml_evict_finish now (b, h) e1 = Inr ((b, h), ?e)"
    using m(1) by (simp add: ml_evict_finish_def Let_def LRUMLEvictor_get_policy_def)
  moreover have "hash_view (ml_free_table e1) b = Some h" using m by (simp add: hash_view_def)
  then have "lruml_view e b = Some h" "lruml_view ?e = (lruml_view e)(b := None)"
    by (simp_all add: lruml_view_def rescored_view[OF c(2)] hash_view_pop)
  ultimately show ?thesis by blast
qed

lemma evict_pdp_total:
  assumes "lruml_inv items e" "ml_free_table e \<noteq> []"
  shows "\<exists>b h e'. ml_evict_pdp ops now e = Inr ((b, h), e') \<and> lruml_inv items e' \<and>
      lruml_view e b = Some h \<and> lruml_view e' = (lruml_view e)(b := None) \<and>
      (\<exists>m. dict_get (ml_free_table e) b = Some m \<and> (\<forall>b' m'. dict_get (ml_free_table e) b' = Some m' \<longrightarrow>
         LRUMLEvictor_pdp_victim_key e (b, m) \<le> LRUMLEvictor_pdp_victim_key e (b', m')))"
proof -
  have core: "lruml_core e" and ent: "entries_ok items (ml_free_table e) (ml_sorted_dict e)"
    and ok: "dict_ok (ml_free_table e)"
    using assms(1) by (auto simp: lruml_inv_def lruml_core_def)
  obtain b m where mn: "py_min (LRUMLEvictor_pdp_victim_key e) (ml_free_table e) = Inr (b, m)"
    using py_min_ok[OF assms(2), of "LRUMLEvictor_pdp_victim_key e"] by auto
  have g: "dict_get (ml_free_table e) b = Some m" using py_min_mem[OF mn] ok by (simp add: dict_get_mem)
  have least: "LRUMLEvictor_pdp_victim_key e (b, m) \<le> LRUMLEvictor_pdp_victim_key e (b', m')"
    if "dict_get (ml_free_table e) b' = Some m'" for b' m'
    using py_min_le[OF mn] map_of_SomeD[OF that] by blast
  let ?e1 = "e\<lparr>ml_stat := CacheStat_append (ml_stat e) ''survival_times'' (now - bm_last_accessed m)\<rparr>"
  let ?e2 = "?e1\<lparr>ml_sorted_dict := sd_delitem ops (ml_key b m) (ml_sorted_dict e)\<rparr>"
  let ?e3 = "pdp_forget_block (bm_content_hash m) b ?e2"
  let ?e = "?e3\<lparr>ml_free_table := dict_pop b (ml_free_table ?e3), ml_id_to_first_access := dict_pop b (ml_id_to_first_access ?e3)\<rparr>"
  have "LRUMLEvictor_remove_from_sorted_dict ops ?e1 b = Inr ?e2"
    using remove_from_sorted_total[of ?e1 b m] ent g by simp
  then have r: "ml_evict_pdp ops now e = Inr ((b, bm_content_hash m), ?e)"
    using mn by (simp add: ml_evict_pdp_def Let_def)
  have "lruml_core ?e"
    using core_pop(1)[OF core_pop(4)[OF core_frame(1)[OF core_frame(2)[OF core]]]] .
  moreover have "ml_free_table ?e3 = ml_free_table e" "ml_sorted_dict ?e3 = ml_sorted_dict ?e2"
    by (simp_all add: pdp_forget_block_def)
  ultimately have "lruml_inv items ?e" using entries_ok_del[OF ent g] by (simp add: lruml_inv_def)
  with r g least show ?thesis
    by (intro exI[of _ b] exI[of _ "bm_content_hash m"] exI[of _ ?e])
      (auto simp: lruml_view_def hash_view_def pdp_forget_block_def fun_eq_iff)
qed

lemma evict_total:
  assumes "lruml_inv items e" "ml_free_table e \<noteq> []"
  shows "\<exists>b h e'. LRUMLEvictor_evict ops np_exp now e = Inr ((b, h), e') \<and> lruml_view e b = Some h \<and>
      lruml_inv items e' \<and> lruml_view e' = (lruml_view e)(b := None)"
proof -
  obtain c s rest where t: "ml_free_table e = (c, s) # rest" using assms(2) by (metis list.exhaust surj_pair)
  show ?thesis
  proof (cases "policy_of (ml_scheduler e) (bm_cache_hint s) = ''pdp''")
    case True
    then show ?thesis using evict_pdp_total[OF assms, of now] t
      by (auto simp: LRUMLEvictor_evict_def LRUMLEvictor_get_policy_def)
  next
    case False
    have "rrpvs_ok (ml_rrip_values e)" using assms(1) by (simp add: lruml_inv_def lruml_core_def)
    from aging_room_bound[OF this, of "ml_scheduler e" "ml_free_table e"]
    have "length (ml_to_delete_blocks e) + aging_room (ml_scheduler e) (ml_rrip_values e) (ml_free_table e) < ml_evict_fuel e"
      by (simp add: ml_evict_fuel_def)
    from evict_loop_total[OF assms this, of now] obtain b h e1
      where l: "ml_evict_loop ops np_exp now (ml_evict_fuel e) e = Inr ((b, h), e1)" "evict_candidate e ((b, h), e1)"
      by auto
    from evict_finish_total[OF l(2), of now] l(1) False t show ?thesis
      by (auto simp: LRUMLEvictor_evict_def LRUMLEvictor_get_policy_def)
  qed
qed

end

section \<open>Adding, updating and removing blocks\<close>

definition lruml_can_add ::
    "'d LRUMLEvictor \<Rightarrow> int \<Rightarrow> int \<Rightarrow> int \<Rightarrow> rat \<Rightarrow> cache_hint option \<Rightarrow> bool" where
  "lruml_can_add e b h n t hint \<longleftrightarrow> hint_ok hint \<and>
     (\<forall>(b', h', t') \<in> set (ml_to_delete_blocks e). b' = b \<and> t' = t \<longrightarrow> h' = h)"

lemma ml_add_prepare_frame:
  fixes e :: "'d LRUMLEvictor"
  assumes e1: "e1 = ml_add_prepare b h t hint e"
  shows "ml_free_table e1 = ml_free_table e" "ml_sorted_dict e1 = ml_sorted_dict e"
    "ml_scheduler e1 = ml_scheduler e" "ml_to_delete_blocks e1 = ml_to_delete_blocks e"
    "ml_id_to_last_access e1 = ml_id_to_last_access e"
    "dict_has (ml_id_to_first_access e1) b"
    "dict_has (ml_id_to_first_access e) c \<Longrightarrow> dict_has (ml_id_to_first_access e1) c"
    "ml_pdp_ok e1 = ml_pdp_ok e" "rrpvs_ok (ml_rrip_values e) \<Longrightarrow> rrpvs_ok (ml_rrip_values e1)"
  unfolding e1
  by (auto simp: ml_add_prepare_def ml_add_pdp_def Let_def ml_pdp_ok_def rrpvs_ok_def RRIP_INSERT_RRPV_def
      RRIP_MAX_RRPV_def split: option.splits)

lemma blocks_ok_set:
  assumes "blocks_ok fa la t" "hint_ok (bm_cache_hint m)" "hint_id (bm_cache_hint m) = Inr i" "dict_has fa' b"
    "\<And>c. dict_has fa c \<Longrightarrow> dict_has fa' c"
  shows "blocks_ok fa' (dict_set i x la) (dict_set b m t)"
  using assms hint_known_set hint_known_new[OF assms(3)] by (auto simp: blocks_ok_def simp del: not_None_eq)

lemma deletes_ok_set:
  assumes "deletes_ok dels t" "\<And>h l. (b, h, l) \<in> set dels \<Longrightarrow> bm_last_accessed m = l \<Longrightarrow> bm_content_hash m = h"
  shows "deletes_ok dels (dict_set b m t)"
  using assms by (auto simp: deletes_ok_def)

context lruml_env
begin

lemma refresh_total:
  assumes "lruml_core e"
  shows "\<exists>e'. LRUMLEvictor_refresh ops np_exp now e = Inr e' \<and> lruml_inv items e' \<and> lruml_view e' = lruml_view e"
proof -
  obtain t d where r: "LRUMLEvictor_rebuild_sorted_dict ops np_exp now e = Inr (e\<lparr>ml_free_table := t, ml_sorted_dict := d\<rparr>)"
    "rescored (ml_free_table e) t" "lruml_inv items (e\<lparr>ml_free_table := t, ml_sorted_dict := d\<rparr>)"
    using core_rebuild[OF assms, of now] by blast
  let ?e2 = "e\<lparr>ml_free_table := t, ml_sorted_dict := d, ml_last_refresh_time := now\<rparr>"
  have ok: "dict_ok t" and bl: "blocks_ok (ml_id_to_first_access e) (ml_id_to_last_access e) t"
    using r(3) by (simp_all add: lruml_inv_def lruml_core_def)
  have get: "dict_get t (fst bm) = Some (snd bm)" if "bm \<in> set t" for bm
    using that ok by (simp add: dict_get_mem[symmetric])
  have known: "hint_known (ml_id_to_last_access e) (bm_cache_hint (snd bm))" if "bm \<in> set t" for bm
    using bl get[OF that] by (auto simp: blocks_ok_def)
  let ?sl = "map (\<lambda>bm. (case hint_id (bm_cache_hint (snd bm)) of Inr i \<Rightarrow> i | Inl _ \<Rightarrow> 0, bm)) t"
  have sl: "res_map (\<lambda>bm. res_bind (hint_id (bm_cache_hint (snd bm))) (\<lambda>i. Inr (i, bm))) t = Inr ?sl"
    by (rule res_map_ok) (use hint_known_id[OF known] in fastforce)
  let ?ss = "sort_key (\<lambda>(i, bm). (bm_last_accessed (snd bm), i)) ?sl"
  let ?o = "\<lambda>x. case outdated_entry ?e2 (snd x) of Inr y \<Rightarrow> y | Inl _ \<Rightarrow> []"
  have out: "outdated_entry ?e2 (snd x) = Inr (?o x) \<and>
      (\<forall>y \<in> set (?o x). y = (fst (snd x), bm_content_hash (snd (snd x)), bm_last_accessed (snd (snd x))))"
    if "x \<in> set ?ss" for x
  proof -
    have "snd x \<in> set t" using that by auto
    from hint_known_id[OF known[OF this]] obtain i l where
      "hint_id (bm_cache_hint (snd (snd x))) = Inr i" "dict_item (ml_id_to_last_access e) i = Inr l" by blast
    then show ?thesis by (simp add: outdated_entry_def Let_def)
  qed
  then have "res_map (\<lambda>(i, bm). outdated_entry ?e2 bm) ?ss = Inr (map ?o ?ss)"
    by (intro res_map_ok) (simp add: case_prod_beta)
  then have res: "LRUMLEvictor_refresh ops np_exp now e =
      Inr (?e2\<lparr>ml_to_delete_blocks := ml_to_delete_blocks e @ concat (map ?o ?ss)\<rparr>)"
    using r(1) sl by (simp add: LRUMLEvictor_refresh_def Let_def)
  have "bm_content_hash m = h"
    if mem: "(b, h, l) \<in> set (concat (map ?o ?ss))" and g: "dict_get t b = Some m" for b h l m
  proof -
    obtain x where x: "x \<in> set ?ss" "(b, h, l) \<in> set (?o x)"
      using mem unfolding set_concat set_map by blast
    then have "(b, h, l) = (fst (snd x), bm_content_hash (snd (snd x)), bm_last_accessed (snd (snd x)))"
      using out by blast
    moreover have "dict_get t (fst (snd x)) = Some (snd (snd x))" using get x(1) by auto
    ultimately show ?thesis using g by simp
  qed
  then have "deletes_ok (ml_to_delete_blocks e @ concat (map ?o ?ss)) t"
    using r(3) by (fastforce simp: deletes_ok_def lruml_inv_def lruml_core_def)
  then have "lruml_inv items (?e2\<lparr>ml_to_delete_blocks := ml_to_delete_blocks e @ concat (map ?o ?ss)\<rparr>)"
    using r(3) by (simp add: lruml_inv_def lruml_core_def ml_pdp_ok_def)
  then show ?thesis using res rescored_view[OF r(2)] by (simp add: lruml_view_def)
qed

lemma add_total:
  assumes "lruml_inv items e" "lruml_can_add e b h n t hint"
  shows "\<exists>e'. LRUMLEvictor_add ops np_exp now e b h n t hint = Inr e' \<and> lruml_inv items e' \<and>
      lruml_view e' = (lruml_view e)(b \<mapsto> h)"
proof -
  have core: "lruml_core e" and ent: "entries_ok items (ml_free_table e) (ml_sorted_dict e)"
    and so: "scheduler_ok (ml_scheduler e)" and hk: "hint_ok hint"
    using assms by (auto simp: lruml_inv_def lruml_core_def lruml_can_add_def)
  obtain hint' where h': "bind_policy (ml_scheduler e) hint = Inr hint'" "hint_ok hint'"
    using bind_policy_total[OF so hk] by blast
  obtain i where i: "hint_id hint' = Inr i" using hint_id_total[OF h'(2)] by blast
  let ?e1 = "ml_add_prepare b h t hint' e"
  note fr = ml_add_prepare_frame[of "ml_add_prepare b h t hint' e" b h t hint' e, OF refl]
  obtain score where sc: "LRUMLEvictor_calc_score np_exp now ?e1 b t hint' = Inr score"
    using calc_score_total[where np_exp = np_exp, OF exp_pos, of ?e1 hint' b now t] so h'(2) fr(3,6) by auto
  let ?m = "\<lparr>bm_content_hash = h, bm_num_hashed_tokens = n, bm_last_accessed = t, bm_cache_hint = hint', bm_score = score\<rparr>"
  let ?e3 = "?e1\<lparr>ml_free_table := dict_set b ?m (ml_free_table e), ml_sorted_dict := insert_block ops (b, ?m) (ml_sorted_dict e),
     ml_id_to_last_access := dict_set i t (ml_id_to_last_access e)\<rparr>"
  have bl: "blocks_ok (ml_id_to_first_access ?e1) (dict_set i t (ml_id_to_last_access e)) (dict_set b ?m (ml_free_table e))"
    using core h'(2) i fr(6,7)
    by (intro blocks_ok_set[where fa = "ml_id_to_first_access e"]) (auto simp: lruml_core_def simp del: not_None_eq)
  have "deletes_ok (ml_to_delete_blocks e) (dict_set b ?m (ml_free_table e))"
    using core assms(2) by (intro deletes_ok_set) (auto simp: lruml_core_def lruml_can_add_def)
  then have c3: "lruml_core ?e3" using core bl fr by (simp add: lruml_core_def ml_pdp_ok_def)
  then have inv: "lruml_inv items ?e3" using entries_ok_insert[OF ent] by (simp add: lruml_inv_def)
  have v: "lruml_view ?e3 = (lruml_view e)(b \<mapsto> h)" by (simp add: lruml_view_def hash_view_set)
  have "LRUMLEvictor_add ops np_exp now e b h n t hint =
      (if now - ml_last_refresh_time ?e3 > ml_INSPECT_INTERVAL ?e3 then LRUMLEvictor_refresh ops np_exp now ?e3 else Inr ?e3)"
    using h' i sc fr(1,2,5) by (simp add: LRUMLEvictor_add_def LRUMLEvictor_bind_scheduler_policy_def Let_def)
  then show ?thesis using refresh_total[OF c3, of now] inv v by (cases "now - ml_last_refresh_time ?e3 > ml_INSPECT_INTERVAL ?e3") auto
qed

lemma remove_total:
  assumes "lruml_inv items e" "dict_get (ml_free_table e) b = Some m"
  shows "\<exists>e'. LRUMLEvictor_remove ops e b = Inr e' \<and> lruml_inv items e' \<and> lruml_view e' = (lruml_view e)(b := None)"
proof -
  have core: "lruml_core e" and ent: "entries_ok items (ml_free_table e) (ml_sorted_dict e)"
    using assms by (auto simp: lruml_inv_def)
  define e1 where "e1 = (if policy_of (ml_scheduler e) (bm_cache_hint m) = ''rrip''
     then e\<lparr>ml_rrip_values := dict_set b RRIP_HIT_RRPV (ml_rrip_values e)\<rparr>
     else if policy_of (ml_scheduler e) (bm_cache_hint m) = ''pdp'' then pdp_forget_block (bm_content_hash m) b e else e)"
  have f: "ml_free_table e1 = ml_free_table e" "ml_sorted_dict e1 = ml_sorted_dict e"
    by (auto simp: e1_def pdp_forget_block_def)
  have "lruml_core (e\<lparr>ml_rrip_values := dict_set b RRIP_HIT_RRPV (ml_rrip_values e)\<rparr>)"
    using core by (auto simp: lruml_core_def ml_pdp_ok_def rrpvs_ok_def RRIP_HIT_RRPV_def RRIP_MAX_RRPV_def)
  then have c1: "lruml_core e1" using core core_pop(4)[OF core] by (simp add: e1_def)
  let ?e = "e1\<lparr>ml_sorted_dict := sd_delitem ops (ml_key b m) (ml_sorted_dict e), ml_free_table := dict_pop b (ml_free_table e)\<rparr>"
  have "LRUMLEvictor_remove ops e b = Inr ?e"
    using assms(2) remove_from_sorted_total[of e1 b m] ent f
    by (simp add: LRUMLEvictor_remove_def LRUMLEvictor_get_policy_def Let_def e1_def[symmetric] cong: if_cong)
  moreover have "lruml_core ?e" using core_pop(2)[OF core_frame(1)[OF c1]] f by simp
  then have "lruml_inv items ?e" using entries_ok_del[OF ent assms(2)] by (simp add: lruml_inv_def)
  ultimately show ?thesis by (simp add: lruml_view_def hash_view_pop)
qed

lemma update_total:
  assumes "lruml_inv items e" "dict_get (ml_free_table e) b = Some m" "hint_ok hint"
    "\<And>h l. (b, h, l) \<in> set (ml_to_delete_blocks e) \<Longrightarrow> l = t \<Longrightarrow> h = bm_content_hash m"
  shows "\<exists>e' m'. LRUMLEvictor_update ops np_exp now e b t hint = Inr e' \<and> lruml_inv items e' \<and>
      lruml_view e' = lruml_view e \<and> dict_get (ml_free_table e') b = Some m' \<and> bm_last_accessed m' = t"
proof -
  have core: "lruml_core e" and ent: "entries_ok items (ml_free_table e) (ml_sorted_dict e)"
    and so: "scheduler_ok (ml_scheduler e)"
    using assms by (auto simp: lruml_inv_def lruml_core_def)
  have fa: "dict_has (ml_id_to_first_access e) b" using core assms(2) by (auto simp: lruml_core_def blocks_ok_def)
  obtain hint' where h': "bind_policy (ml_scheduler e) hint = Inr hint'" "hint_ok hint'"
    using bind_policy_total[OF so assms(3)] by blast
  obtain i where i: "hint_id hint' = Inr i" using hint_id_total[OF h'(2)] by blast
  let ?e1 = "e\<lparr>ml_sorted_dict := sd_delitem ops (ml_key b m) (ml_sorted_dict e)\<rparr>"
  define e2 where "e2 = (if policy_of (ml_scheduler e) hint' = ''rrip''
     then ?e1\<lparr>ml_rrip_values := dict_set b RRIP_HIT_RRPV (ml_rrip_values e)\<rparr>
     else if policy_of (ml_scheduler e) hint' = ''pdp'' then LRUMLEvictor_pdp_protect_block ?e1 b True else ?e1)"
  have f: "ml_free_table e2 = ml_free_table e" "ml_sorted_dict e2 = ml_sorted_dict ?e1"
    "ml_scheduler e2 = ml_scheduler e" "ml_id_to_first_access e2 = ml_id_to_first_access e"
    "ml_id_to_last_access e2 = ml_id_to_last_access e" "ml_to_delete_blocks e2 = ml_to_delete_blocks e"
    "rrpvs_ok (ml_rrip_values e2)" "ml_pdp_ok e2"
    using core by (auto simp: e2_def LRUMLEvictor_pdp_protect_block_def Let_def lruml_core_def rrpvs_ok_def
        ml_pdp_ok_def RRIP_HIT_RRPV_def RRIP_MAX_RRPV_def)
  obtain score where sc: "LRUMLEvictor_calc_score np_exp now e2 b t hint' = Inr score"
    using calc_score_total[where np_exp = np_exp, OF exp_pos, of e2 hint' b now t] so h'(2) f(3,4) fa by auto
  let ?m = "m\<lparr>bm_last_accessed := t, bm_cache_hint := hint', bm_score := score\<rparr>"
  let ?e = "e2\<lparr>ml_free_table := dict_set b ?m (ml_free_table e), ml_sorted_dict := insert_block ops (b, ?m) (ml_sorted_dict ?e1),
     ml_id_to_last_access := dict_set i t (ml_id_to_last_access e)\<rparr>"
  have bl: "blocks_ok (ml_id_to_first_access e) (dict_set i t (ml_id_to_last_access e)) (dict_set b ?m (ml_free_table e))"
    using core h'(2) i fa by (intro blocks_ok_set) (auto simp: lruml_core_def simp del: not_None_eq)
  have "deletes_ok (ml_to_delete_blocks e) (dict_set b ?m (ml_free_table e))"
    using core assms(4) by (intro deletes_ok_set) (auto simp: lruml_core_def)
  then have "lruml_core ?e" using core bl f by (simp add: lruml_core_def ml_pdp_ok_def)
  moreover have "entries_ok items (dict_set b ?m (ml_free_table e)) (insert_block ops (b, ?m) (ml_sorted_dict ?e1))"
  proof -
    have "dict_get (dict_set b ?m (dict_pop b (ml_free_table e))) = dict_get (dict_set b ?m (ml_free_table e))" by (auto simp: fun_eq_iff)
    then show ?thesis using entries_ok_insert[OF entries_ok_del[OF ent assms(2)], of b ?m]
      by (simp add: entries_ok_def)
  qed
  ultimately have inv: "lruml_inv items ?e" by (simp add: lruml_inv_def)
  have "LRUMLEvictor_update ops np_exp now e b t hint = Inr ?e"
    using assms(2) h' i sc f remove_from_sorted_total[OF ent assms(2)]
    by (simp add: LRUMLEvictor_update_def LRUMLEvictor_bind_scheduler_policy_def LRUMLEvictor_get_policy_def Let_def
        e2_def[symmetric] cong: if_cong split del: if_split)
  then show ?thesis using inv assms(2) by (auto simp: lruml_view_def hash_view_def fun_eq_iff)
qed

end

section \<open>Rebinding and observing\<close>

definition rebound :: "string \<Rightarrow> cache_hint option \<Rightarrow> cache_hint option" where
  "rebound p hint = map_option (\<lambda>h. h\<lparr>ch_use_lru := None, ch_use_rrip := None, ch_use_fifo := None,
     ch_scheduler_policy := Some p\<rparr>) hint"

lemma rebound_ok:
  assumes "hint_ok hint" "p \<noteq> ''belady''"
  shows "rebind_hint p hint = Inr (rebound p hint)" "hint_ok (rebound p hint)"
    "hint_known la (rebound p hint) = hint_known la hint"
  using assms by (auto simp: hint_ok_def rebind_hint_def rebound_def hint_known_def split: option.splits)

lemma policy_of_rebound: "hint_ok hint \<Longrightarrow> p \<noteq> [] \<Longrightarrow> policy_of s (rebound p hint) = p"
  by (auto simp: policy_of_def rebound_def truthy_def truthy_str_def hint_ok_def split: option.splits)

definition rebind_table :: "string \<Rightarrow> (int, BlockMetaData) dict \<Rightarrow> (int, BlockMetaData) dict \<Rightarrow> (int, BlockMetaData) dict" where
  "rebind_table p bms t = fold (\<lambda>(b, m). dict_set b (m\<lparr>bm_cache_hint := rebound p (bm_cache_hint m)\<rparr>)) bms t"

lemma rebind_fold:
  assumes "\<And>bm. bm \<in> set bms \<Longrightarrow> hint_ok (bm_cache_hint (snd bm))" "p \<noteq> ''belady''"
    "rrpvs_ok (ml_rrip_values e)" "ml_pdp_ok e"
  shows "\<exists>e'. res_fold (rebind_block p) bms e = Inr e' \<and> ml_free_table e' = rebind_table p bms (ml_free_table e) \<and>
     ml_scheduler e' = ml_scheduler e \<and> ml_id_to_first_access e' = ml_id_to_first_access e \<and>
     ml_id_to_last_access e' = ml_id_to_last_access e \<and> rrpvs_ok (ml_rrip_values e') \<and> ml_pdp_ok e'"
  using assms
proof (induction bms arbitrary: e)
  case (Cons bm bms)
  obtain b m where bm: "bm = (b, m)" by (cases bm)
  have hk: "hint_ok (bm_cache_hint m)" using Cons.prems(1)[of bm] bm by simp
  have "\<exists>e1. rebind_block p bm e = Inr e1 \<and>
    ml_free_table e1 = dict_set b (m\<lparr>bm_cache_hint := rebound p (bm_cache_hint m)\<rparr>) (ml_free_table e) \<and>
    ml_scheduler e1 = ml_scheduler e \<and> ml_id_to_first_access e1 = ml_id_to_first_access e \<and>
    ml_id_to_last_access e1 = ml_id_to_last_access e \<and> rrpvs_ok (ml_rrip_values e1) \<and> ml_pdp_ok e1"
    using Cons.prems(3,4) rebound_ok(1)[OF hk Cons.prems(2)] bm
    by (simp add: rebind_block_def Let_def)
      (auto simp: rrpvs_ok_def ml_pdp_ok_def RRIP_INSERT_RRPV_def RRIP_MAX_RRPV_def)
  then obtain e1 where e1: "rebind_block p bm e = Inr e1"
    "ml_free_table e1 = dict_set b (m\<lparr>bm_cache_hint := rebound p (bm_cache_hint m)\<rparr>) (ml_free_table e)"
    "ml_scheduler e1 = ml_scheduler e" "ml_id_to_first_access e1 = ml_id_to_first_access e"
    "ml_id_to_last_access e1 = ml_id_to_last_access e" "rrpvs_ok (ml_rrip_values e1)" "ml_pdp_ok e1"
    by blast
  obtain e' where "res_fold (rebind_block p) bms e1 = Inr e'" "ml_free_table e' = rebind_table p bms (ml_free_table e1)"
    "ml_scheduler e' = ml_scheduler e1" "ml_id_to_first_access e' = ml_id_to_first_access e1"
    "ml_id_to_last_access e' = ml_id_to_last_access e1" "rrpvs_ok (ml_rrip_values e')" "ml_pdp_ok e'"
    using Cons.IH[of e1] Cons.prems(1,2) e1(6,7) by auto
  with e1 bm show ?case by (simp add: rebind_table_def)
qed (simp add: rebind_table_def)

lemma rebind_table_get:
  assumes "dict_ok t"
  shows "dict_get (rebind_table p t t) b = map_option (\<lambda>m. m\<lparr>bm_cache_hint := rebound p (bm_cache_hint m)\<rparr>) (dict_get t b)"
  using dict_get_fold_set[OF assms, of "\<lambda>m. m\<lparr>bm_cache_hint := rebound p (bm_cache_hint m)\<rparr>" t b]
  by (simp add: rebind_table_def split: option.split)

lemma rebind_table_ok:
  assumes "dict_ok t" "blocks_ok fa la t" "p \<noteq> ''belady''"
  shows "dict_ok (rebind_table p t t)" "blocks_ok fa la (rebind_table p t t)"
    "hash_view (rebind_table p t t) = hash_view t"
    "p \<noteq> [] \<Longrightarrow> dict_get (rebind_table p t t) b = Some m \<Longrightarrow> policy_of s (bm_cache_hint m) = p"
proof -
  show "dict_ok (rebind_table p t t)" using dict_ok_fold_set[OF assms(1)] by (simp add: rebind_table_def)
  show "blocks_ok fa la (rebind_table p t t)"
    using assms(2) rebound_ok[OF _ assms(3)] by (auto simp: blocks_ok_def rebind_table_get[OF assms(1)])
  show "hash_view (rebind_table p t t) = hash_view t"
    by (auto simp: hash_view_def rebind_table_get[OF assms(1)] option.map_comp comp_def)
  assume "p \<noteq> []" "dict_get (rebind_table p t t) b = Some m"
  then show "policy_of s (bm_cache_hint m) = p"
    using assms(2) policy_of_rebound by (auto simp: blocks_ok_def rebind_table_get[OF assms(1)])
qed

context lruml_env
begin

lemma rebind_total:
  assumes "lruml_core e"
  shows "\<exists>e'. LRUMLEvictor_rebind_scheduler_policy_for_existing_blocks ops np_exp now e = Inr e' \<and>
     (entries_ok items (ml_free_table e) (ml_sorted_dict e) \<longrightarrow> lruml_inv items e') \<and>
     lruml_view e' = lruml_view e \<and> ml_scheduler e' = ml_scheduler e \<and>
     (sc_enabled (ml_scheduler e) \<longrightarrow> lruml_inv items e' \<and> ml_to_delete_blocks e' = [] \<and>
        (\<forall>b m. dict_get (ml_free_table e') b = Some m \<longrightarrow>
           LRUMLEvictor_get_policy e' (bm_cache_hint m) = sc_current_policy (ml_scheduler e)))"
proof (cases "sc_enabled (ml_scheduler e)")
  case False
  then show ?thesis using assms
    by (simp add: LRUMLEvictor_rebind_scheduler_policy_for_existing_blocks_def lruml_inv_def)
next
  case True
  let ?p = "sc_current_policy (ml_scheduler e)" and ?t = "ml_free_table e"
  have so: "scheduler_ok (ml_scheduler e)" and ok: "dict_ok ?t"
    and bl: "blocks_ok (ml_id_to_first_access e) (ml_id_to_last_access e) ?t" and pd: "ml_pdp_ok e"
    using assms by (auto simp: lruml_core_def)
  have p: "?p \<noteq> ''belady''" "?p \<noteq> []" using so by (auto simp: scheduler_ok_def SCHEDULER_POLICIES_def)
  define e2 where "e2 = (if ?p = ''pdp''
     then (case dict_get (sc_shadow_caches (ml_scheduler e)) ''pdp'' of None \<Rightarrow> e\<lparr>ml_rrip_values := []\<rparr>
           | Some c \<Rightarrow> e\<lparr>ml_rrip_values := [], ml_pdp_protecting_distance := sh_pdp_protecting_distance c\<rparr>)
          \<lparr>ml_pdp_content_hash_to_block_id := []\<rparr>
     else e\<lparr>ml_rrip_values := []\<rparr>)"
  have f2: "ml_free_table e2 = ?t" "ml_scheduler e2 = ml_scheduler e" "ml_id_to_first_access e2 = ml_id_to_first_access e"
    "ml_id_to_last_access e2 = ml_id_to_last_access e" "rrpvs_ok (ml_rrip_values e2)" "ml_pdp_ok e2"
    using pd by (auto simp: e2_def rrpvs_ok_def ml_pdp_ok_def split: option.splits)
  have hk: "hint_ok (bm_cache_hint (snd bm))" if "bm \<in> set ?t" for bm
  proof -
    have "dict_get ?t (fst bm) = Some (snd bm)" using that ok by (simp add: dict_get_mem[symmetric])
    then show ?thesis using bl by (auto simp: blocks_ok_def)
  qed
  obtain e3 where e3: "res_fold (rebind_block ?p) ?t e2 = Inr e3" "ml_free_table e3 = rebind_table ?p ?t ?t"
    "ml_scheduler e3 = ml_scheduler e" "ml_id_to_first_access e3 = ml_id_to_first_access e"
    "ml_id_to_last_access e3 = ml_id_to_last_access e" "rrpvs_ok (ml_rrip_values e3)" "ml_pdp_ok e3"
    using rebind_fold[OF hk p(1) f2(5,6)] f2 by auto
  note rt = rebind_table_ok[OF ok bl p(1)]
  let ?e4 = "e3\<lparr>ml_to_delete_blocks := []\<rparr>"
  have "lruml_core ?e4" using rt(1,2) e3 so by (simp add: lruml_core_def ml_pdp_ok_def deletes_ok_def)
  from core_rebuild[OF this, of now] obtain t d where r:
    "LRUMLEvictor_rebuild_sorted_dict ops np_exp now ?e4 = Inr (?e4\<lparr>ml_free_table := t, ml_sorted_dict := d\<rparr>)"
    "rescored (rebind_table ?p ?t ?t) t" "lruml_inv items (?e4\<lparr>ml_free_table := t, ml_sorted_dict := d\<rparr>)"
    using e3(2) by auto
  have "LRUMLEvictor_rebind_scheduler_policy_for_existing_blocks ops np_exp now e =
      Inr (?e4\<lparr>ml_free_table := t, ml_sorted_dict := d\<rparr>)"
    using True r(1) e3(1) f2(1)
    by (simp add: LRUMLEvictor_rebind_scheduler_policy_for_existing_blocks_def Let_def e2_def[symmetric]
        cong: if_cong option.case_cong split del: if_split)
  moreover have "policy_of (ml_scheduler e) (bm_cache_hint m) = ?p" if g: "dict_get t b = Some m" for b m
  proof -
    obtain m0 where "dict_get (rebind_table ?p ?t ?t) b = Some m0" "m = m0\<lparr>bm_score := bm_score m\<rparr>"
      using rescored_get[OF r(2) g] .
    then show ?thesis using rt(4)[OF p(2)] by (metis BlockMetaData.select_convs(4) BlockMetaData.surjective BlockMetaData.update_convs(5))
  qed
  ultimately show ?thesis using r(3) e3(3) rescored_view[OF r(2)] rt(3)
    by (auto simp: lruml_view_def LRUMLEvictor_get_policy_def)
qed

end

lemma pdp_protect_frame:
  "ml_free_table (LRUMLEvictor_pdp_protect_block e b r) = ml_free_table e"
  "ml_sorted_dict (LRUMLEvictor_pdp_protect_block e b r) = ml_sorted_dict e"
  "ml_pdp_request_epoch (LRUMLEvictor_pdp_protect_block e b r) = ml_pdp_request_epoch e"
  "ml_pdp_total_accesses (LRUMLEvictor_pdp_protect_block e b r) = ml_pdp_total_accesses e"
  "lruml_core (LRUMLEvictor_pdp_protect_block e b r) = lruml_core e"
  by (simp_all add: LRUMLEvictor_pdp_protect_block_def Let_def lruml_core_def ml_pdp_ok_def)

lemma ml_pdp_observe_total:
  assumes "lruml_core e"
  shows "\<exists>e'. LRUMLEvictor_pdp_observe e h rh = Inr e' \<and> lruml_core e' \<and> ml_free_table e' = ml_free_table e \<and>
     ml_sorted_dict e' = ml_sorted_dict e \<and> ml_pdp_request_epoch e' = ml_pdp_request_epoch e + 1"
proof -
  let ?e = "e\<lparr>ml_pdp_request_epoch := ml_pdp_request_epoch e + 1, ml_pdp_total_accesses := ml_pdp_total_accesses e + 1\<rparr>"
  let ?prev = "dict_get (ml_pdp_last_seen_epoch e) h"
  let ?m = "case ?prev of None \<Rightarrow> Inr ?e
     | Some p \<Rightarrow> res_bind (LRUMLEvictor_pdp_bucket_distance ?e (ml_pdp_request_epoch ?e - p)) (\<lambda>dist.
         Inr (?e\<lparr>ml_pdp_reuse_distance_counts := dict_set dist
            (dict_get_default (ml_pdp_reuse_distance_counts ?e) dist 0 + 1) (ml_pdp_reuse_distance_counts ?e)\<rparr>))"
  have pd: "1 \<le> ml_pdp_max_distance e" "1 \<le> ml_pdp_bucket_size e" "1 \<le> ml_pdp_recompute_interval e"
    "counts_ok (ml_pdp_max_distance e) (ml_pdp_reuse_distance_counts e)"
    using assms by (auto simp: lruml_core_def ml_pdp_ok_def)
  have "\<exists>c. ?m = Inr (?e\<lparr>ml_pdp_reuse_distance_counts := c\<rparr>) \<and> counts_ok (ml_pdp_max_distance e) c"
  proof (cases ?prev)
    case None
    then show ?thesis using pd(4) by (intro exI[of _ "ml_pdp_reuse_distance_counts e"]) simp
  next
    case (Some p)
    obtain d where d: "bucket_distance (ml_pdp_max_distance e) (ml_pdp_bucket_size e) (ml_pdp_request_epoch e + 1 - p) = Inr d"
      "1 \<le> d" "d \<le> ml_pdp_max_distance e"
      using bucket_distance_range[OF pd(1,2)] by blast
    have "counts_ok (ml_pdp_max_distance e) (dict_set d (dict_get_default (ml_pdp_reuse_distance_counts e) d 0 + 1)
        (ml_pdp_reuse_distance_counts e))" using counts_ok_bump[OF pd(4) d(2,3)] .
    then show ?thesis using Some d(1)
      by (intro exI[of _ "dict_set d (dict_get_default (ml_pdp_reuse_distance_counts e) d 0 + 1) (ml_pdp_reuse_distance_counts e)"])
        (simp add: LRUMLEvictor_pdp_bucket_distance_def)
  qed
  then obtain c where c: "?m = Inr (?e\<lparr>ml_pdp_reuse_distance_counts := c\<rparr>)" "counts_ok (ml_pdp_max_distance e) c" by blast
  let ?e2 = "?e\<lparr>ml_pdp_reuse_distance_counts := c, ml_pdp_last_seen_epoch := dict_set h (ml_pdp_request_epoch e + 1) (ml_pdp_last_seen_epoch e)\<rparr>"
  define e3 where "e3 = (case dict_get (ml_pdp_content_hash_to_block_id e) h of None \<Rightarrow> ?e2
     | Some b \<Rightarrow> if dict_has (ml_free_table e) b
                  then LRUMLEvictor_pdp_protect_block ?e2 b (rh = Some True \<or> ?prev \<noteq> None) else ?e2)"
  have "lruml_core ?e2" using assms c(2) by (simp add: lruml_core_def ml_pdp_ok_def)
  then have f3: "lruml_core e3" "ml_free_table e3 = ml_free_table e" "ml_sorted_dict e3 = ml_sorted_dict e"
    "ml_pdp_request_epoch e3 = ml_pdp_request_epoch e + 1"
    by (auto simp: e3_def pdp_protect_frame split: option.splits)
  then have pd3: "1 \<le> ml_pdp_max_distance e3" "1 \<le> ml_pdp_bucket_size e3" "1 \<le> ml_pdp_recompute_interval e3"
    "counts_ok (ml_pdp_max_distance e3) (ml_pdp_reuse_distance_counts e3)"
    by (auto simp: lruml_core_def ml_pdp_ok_def)
  obtain pd' where r: "recompute_distance (ml_pdp_max_distance e3) (ml_pdp_bucket_size e3) (ml_pdp_eviction_distance e3)
      (ml_pdp_total_accesses e3) (ml_pdp_reuse_distance_counts e3) (ml_pdp_protecting_distance e3) = Inr pd'"
    using recompute_distance_total pd3 by meson
  let ?r = "ml_pdp_total_accesses e3 mod ml_pdp_recompute_interval e3"
  have md: "py_mod (ml_pdp_total_accesses e3) (ml_pdp_recompute_interval e3) = Inr ?r"
    using pd3(3) by (simp add: py_mod_def)
  have "LRUMLEvictor_pdp_observe e h rh =
      res_bind ?m (\<lambda>e1. let e2 = e1\<lparr>ml_pdp_last_seen_epoch := dict_set h (ml_pdp_request_epoch e1) (ml_pdp_last_seen_epoch e1)\<rparr>;
        e3 = (case dict_get (ml_pdp_content_hash_to_block_id e2) h of None \<Rightarrow> e2
              | Some b \<Rightarrow> if dict_has (ml_free_table e2) b
                  then LRUMLEvictor_pdp_protect_block e2 b (rh = Some True \<or> ?prev \<noteq> None) else e2)
        in res_bind (py_mod (ml_pdp_total_accesses e3) (ml_pdp_recompute_interval e3)) (\<lambda>r.
             if r = 0 then LRUMLEvictor_pdp_recompute_protecting_distance e3 else Inr e3))"
    by (simp add: LRUMLEvictor_pdp_observe_def Let_def cong: if_cong option.case_cong)
  also have "\<dots> = (if ?r = 0 then Inr (e3\<lparr>ml_pdp_protecting_distance := pd'\<rparr>) else Inr e3)"
    unfolding c(1) using md r
    by (simp add: Let_def e3_def[symmetric] LRUMLEvictor_pdp_recompute_protecting_distance_def
        cong: if_cong option.case_cong split del: if_split del: not_None_eq)
  finally show ?thesis using f3 by (auto simp: lruml_core_def ml_pdp_ok_def)
qed

lemma scheduler_ok_observe:
  assumes "scheduler_ok s"
  shows "\<exists>changed s'. EvictionPolicyScheduler_observe np_exp now s h hint rh = Inr (changed, s') \<and> scheduler_ok s' \<and>
     changed = (sc_finalized s' \<and> \<not> sc_finalized s) \<and> sc_enabled s' = sc_enabled s"
proof -
  have "sched_inv s" using assms by (simp add: scheduler_ok_def)
  from scheduler_observe_total[OF this, of np_exp now h hint rh] obtain changed s' where o:
    "EvictionPolicyScheduler_observe np_exp now s h hint rh = Inr (changed, s')" "sched_inv s'"
    "changed = (sc_finalized s' \<and> \<not> sc_finalized s)" "sc_enabled s' = sc_enabled s"
    "sc_shadow_policies s' = sc_shadow_policies s"
    "if sc_finalized s' \<and> \<not> sc_finalized s then sc_current_policy s' \<in> insert ''ml'' (set (sc_shadow_policies s))
     else sc_current_policy s' = sc_current_policy s" by blast
  have "set (sc_shadow_policies s) \<subseteq> set SCHEDULER_POLICIES" "''ml'' \<in> set SCHEDULER_POLICIES"
    using assms by (auto simp: scheduler_ok_def SCHEDULER_POLICIES_def SHADOW_POLICIES_def)
  with o(2,5,6) assms have "scheduler_ok s'" by (auto simp: scheduler_ok_def split: if_splits)
  with o show ?thesis by blast
qed

context lruml_env
begin

lemma observe_total:
  assumes "lruml_inv items e"
  shows "\<exists>e'. LRUMLEvictor_observe_cache_access ops np_exp now e h hint rh = Inr e' \<and> lruml_inv items e' \<and>
     lruml_view e' = lruml_view e \<and>
     (sc_finalized (ml_scheduler e') \<and> \<not> sc_finalized (ml_scheduler e) \<longrightarrow>
       (\<forall>b m. dict_get (ml_free_table e') b = Some m \<longrightarrow>
          LRUMLEvictor_get_policy e' (bm_cache_hint m) = sc_current_policy (ml_scheduler e')))"
proof -
  have core: "lruml_core e" and ent: "entries_ok items (ml_free_table e) (ml_sorted_dict e)"
    and so: "scheduler_ok (ml_scheduler e)" using assms by (auto simp: lruml_inv_def lruml_core_def)
  show ?thesis
  proof (cases "sc_enabled (ml_scheduler e) \<and> \<not> sc_finalized (ml_scheduler e)")
    case True
    obtain changed s where s: "EvictionPolicyScheduler_observe np_exp now (ml_scheduler e) h hint rh = Inr (changed, s)"
      "scheduler_ok s" "changed = (sc_finalized s \<and> \<not> sc_finalized (ml_scheduler e))" "sc_enabled s"
      using scheduler_ok_observe[OF so, of np_exp now h hint rh] True by auto
    have c: "lruml_core (e\<lparr>ml_scheduler := s\<rparr>)" using core s(2) by (simp add: lruml_core_def ml_pdp_ok_def)
    show ?thesis
    proof (cases changed)
      case ch: True
      from rebind_total[OF c, of now] obtain e' where
        "LRUMLEvictor_rebind_scheduler_policy_for_existing_blocks ops np_exp now (e\<lparr>ml_scheduler := s\<rparr>) = Inr e'"
        "lruml_inv items e'" "lruml_view e' = lruml_view e" "ml_scheduler e' = s"
        "\<forall>b m. dict_get (ml_free_table e') b = Some m \<longrightarrow> LRUMLEvictor_get_policy e' (bm_cache_hint m) = sc_current_policy s"
        using s(4) by (auto simp: lruml_view_def)
      then show ?thesis using True s(1) ch by (auto simp: LRUMLEvictor_observe_cache_access_def Let_def)
    next
      case nc: False
      then have "LRUMLEvictor_observe_cache_access ops np_exp now e h hint rh = Inr (e\<lparr>ml_scheduler := s\<rparr>)"
        using True s(1) by (simp add: LRUMLEvictor_observe_cache_access_def Let_def)
      then show ?thesis using nc s(3) True c ent by (simp add: lruml_inv_def lruml_view_def)
    qed
  next
    case False
    then show ?thesis using ml_pdp_observe_total[OF core, of h rh] assms ent
      by (auto simp: LRUMLEvictor_observe_cache_access_def lruml_inv_def lruml_view_def LRUMLEvictor_pdp_observe_def)
  qed
qed

end

section \<open>The evictor contract\<close>

lemma lruml_view_empty: "lruml_view e = Map.empty \<longleftrightarrow> ml_free_table e = []"
  using dom_hash_view[of "ml_free_table e"] by (auto simp: lruml_view_def)

sublocale lruml_env \<subseteq> ml: evictor_contract lruml_view "lruml_inv items" LRUMLEvictor_contains
  LRUMLEvictor_num_blocks lruml_can_add "LRUMLEvictor_add ops np_exp" "LRUMLEvictor_remove ops"
  "LRUMLEvictor_evict ops np_exp"
proof
  fix e :: "'d LRUMLEvictor" and b h n t hint now
  show "LRUMLEvictor_contains e b \<longleftrightarrow> lruml_view e b \<noteq> None"
    by (simp add: LRUMLEvictor_contains_def lruml_view_def hash_view_None)
  show "finite (dom (lruml_view e))" by (simp add: lruml_view_def dom_hash_view)
  show "LRUMLEvictor_num_blocks e = card (dom (lruml_view e))" if "lruml_inv items e"
    using that by (simp add: LRUMLEvictor_num_blocks_def lruml_view_def dom_hash_view dict_length_card
        lruml_inv_def lruml_core_def)
  show "\<exists>e'. LRUMLEvictor_add ops np_exp now e b h n t hint = Inr e' \<and> lruml_inv items e' \<and>
      lruml_view e' = (lruml_view e)(b \<mapsto> h)"
    if "lruml_inv items e" "lruml_can_add e b h n t hint"
    using add_total[OF that] by blast
  show "\<exists>e'. LRUMLEvictor_remove ops e b = Inr e' \<and> lruml_inv items e' \<and> lruml_view e' = (lruml_view e)(b := None)"
    if a: "lruml_inv items e" and b: "lruml_view e b \<noteq> None"
  proof -
    obtain m where "dict_get (ml_free_table e) b = Some m" using b by (auto simp: lruml_view_def hash_view_def)
    from remove_total[OF a this] show ?thesis .
  qed
  show "LRUMLEvictor_remove ops e b = Inl ValueError" if "lruml_view e b = None"
    using that by (simp add: LRUMLEvictor_remove_def lruml_view_def hash_view_None)
  show "\<exists>b h e'. LRUMLEvictor_evict ops np_exp now e = Inr ((b, h), e') \<and> lruml_view e b = Some h \<and>
      lruml_inv items e' \<and> lruml_view e' = (lruml_view e)(b := None)"
    if "lruml_inv items e" "lruml_view e \<noteq> Map.empty"
    using evict_total that by (simp add: lruml_view_empty)
  show "LRUMLEvictor_evict ops np_exp now e = Inl ValueError" if "lruml_view e = Map.empty"
    using that by (simp add: lruml_view_empty LRUMLEvictor_evict_def)
qed

interpretation rbt_ml: lruml_env rbt_sorted_dict RBT.entries step_exp
  by unfold_locales (use step_exp_ok(2) in simp)

lemma lruml_init_inv:
  assumes "LRUMLEvictor_init ops now config = Inr e" "items (sd_new ops) = []"
    "1 \<le> ml_pdp_max_distance e" "1 \<le> ml_pdp_recompute_interval e" "1 \<le> ml_pdp_bucket_size e"
    "scheduler_ok (ml_scheduler e)"
  shows "lruml_inv items e" "ml_free_table e = []"
  using assms
  by (auto simp: LRUMLEvictor_init_def lruml_inv_def lruml_core_def ml_pdp_ok_def blocks_ok_def rrpvs_ok_def
      deletes_ok_def entries_ok_def elim!: res_bind_InrE)

section \<open>Properties\<close>

context lruml_env
begin

lemma evict_least_score:
  assumes "lruml_inv items e" "ml_free_table e \<noteq> []" "ml_to_delete_blocks e = []"
    "\<forall>b m. dict_get (ml_free_table e) b = Some m \<longrightarrow> LRUMLEvictor_get_policy e (bm_cache_hint m) \<notin> {''rrip'', ''pdp''}"
  shows "\<exists>b m e'. LRUMLEvictor_evict ops np_exp now e = Inr ((b, bm_content_hash m), e') \<and>
     dict_get (ml_free_table e) b = Some m \<and> ml_free_table e' = dict_pop b (ml_free_table e) \<and>
     (\<forall>b' m'. dict_get (ml_free_table e) b' = Some m' \<longrightarrow>
        (bm_score m, bm_last_accessed m, b) \<le> (bm_score m', bm_last_accessed m', b'))"
proof -
  have ent: "entries_ok items (ml_free_table e) (ml_sorted_dict e)" using assms(1) by (simp add: lruml_inv_def)
  obtain c s rest where t: "ml_free_table e = (c, s) # rest" using assms(2) by (metis list.exhaust surj_pair)
  have "dict_get (ml_free_table e) c = Some s" using t by simp
  with assms(4) have np: "policy_of (ml_scheduler e) (bm_cache_hint s) \<noteq> ''pdp''"
    by (metis LRUMLEvictor_get_policy_def insertCI)
  obtain b m d where p: "LRUMLEvictor_peek_valid_candidate ops (sd_len ops (ml_sorted_dict e)) e =
      Inr (Some (b, bm_content_hash m), e\<lparr>ml_sorted_dict := d\<rparr>)" "dict_get (ml_free_table e) b = Some m"
    "entries_ok items (ml_free_table e) d"
    "\<forall>b' m'. dict_get (ml_free_table e) b' = Some m' \<longrightarrow> ml_key b m \<le> ml_key b' m'"
    using peek_valid_total[OF ent assms(2) refl] by blast
  have pol: "policy_of (ml_scheduler e) (bm_cache_hint m) \<noteq> ''rrip''"
    using assms(4) p(2) by (auto simp: LRUMLEvictor_get_policy_def)
  let ?e = "e\<lparr>ml_sorted_dict := sd_delitem ops (ml_key b m) d\<rparr>"
  have rm: "LRUMLEvictor_remove_from_sorted_dict ops (e\<lparr>ml_sorted_dict := d\<rparr>) b = Inr ?e"
    using remove_from_sorted_total[of "e\<lparr>ml_sorted_dict := d\<rparr>" b m] p(2,3) by simp
  have "ml_evict_loop ops np_exp now (ml_evict_fuel e) e = Inr ((b, bm_content_hash m), ?e)"
    using assms(3) p(1,2) pol rm by (simp add: ml_evict_fuel_def dict_item_def LRUMLEvictor_get_policy_def)
  then have "LRUMLEvictor_evict ops np_exp now e = ml_evict_finish now (b, bm_content_hash m) ?e"
    using t np by (simp add: LRUMLEvictor_evict_def LRUMLEvictor_get_policy_def)
  then show ?thesis using p(2,4) pol
    by (intro exI[of _ b] exI[of _ m]) (auto simp: ml_evict_finish_def Let_def LRUMLEvictor_get_policy_def ml_key_def)
qed

end

definition ml_base :: "(score_key, int \<times> int) rbt LRUMLEvictor" where
  "ml_base = \<lparr>ml_free_table = [], ml_sorted_dict = RBT.empty, ml_id_to_last_access = [],
     ml_id_to_first_access = [], ml_rrip_values = [], ml_to_delete_blocks = [],
     ml_stat = CacheStat_init, ml_last_refresh_time = 0, ml_INSPECT_INTERVAL = 5,
     ml_scheduler = example_scheduler, ml_pdp_request_epoch = 0, ml_pdp_protecting_distance = 32,
     ml_pdp_max_distance = 256, ml_pdp_recompute_interval = 512, ml_pdp_bucket_size = 1,
     ml_pdp_eviction_distance = 1, ml_pdp_last_seen_epoch = [],
     ml_pdp_reuse_distance_counts = [], ml_pdp_total_accesses = 0,
     ml_pdp_protected_until_epoch = [], ml_pdp_reused = [], ml_pdp_last_access_epoch = [],
     ml_pdp_content_hash_to_block_id = []\<rparr>"

definition ml_hint :: cache_hint where
  "ml_hint = empty_hint\<lparr>ch_id := Some 1\<rparr>"

definition ml_block :: BlockMetaData where
  "ml_block = \<lparr>bm_content_hash = 70, bm_num_hashed_tokens = 16, bm_last_accessed = 3,
     bm_cache_hint = Some (ml_hint\<lparr>ch_scheduler_policy := Some ''ml''\<rparr>), bm_score = 3\<rparr>"

definition ml_example :: "(score_key, int \<times> int) rbt LRUMLEvictor" where
  "ml_example = ml_base\<lparr>ml_free_table := [(7, ml_block)],
     ml_sorted_dict := RBT.insert (3, 3, 7) (7, 70) RBT.empty,
     ml_id_to_last_access := [(1, 3)], ml_id_to_first_access := [(7, 3)]\<rparr>"

lemma example_scheduler_ok: "scheduler_ok example_scheduler"
  using example_scheduler_inv
  by (simp add: scheduler_ok_def) (simp add: example_scheduler_def SCHEDULER_POLICIES_def SHADOW_POLICIES_def)

lemma ml_base_inv: "lruml_inv RBT.entries ml_base"
  using example_scheduler_ok
  by (simp add: lruml_inv_def lruml_core_def ml_base_def ml_pdp_ok_def blocks_ok_def rrpvs_ok_def deletes_ok_def
      entries_ok_def rbt_entries_empty)

lemma ml_example_added:
  "LRUMLEvictor_add rbt_sorted_dict step_exp 4 ml_base 7 70 16 3 (Some ml_hint) = Inr ml_example"
  by (simp add: LRUMLEvictor_add_def LRUMLEvictor_bind_scheduler_policy_def bind_policy_def ml_base_def
      example_scheduler_def ml_hint_def empty_hint_def truthy_def truthy_str_def ml_add_prepare_def
      LRUMLEvictor_get_policy_def policy_of_def LRUMLEvictor_calc_score_def hint_id_def insert_block_def
      ml_key_def rbt_sorted_dict_def ml_example_def ml_block_def)

lemma ml_example_inv: "lruml_inv RBT.entries ml_example"
  using rbt_ml.add_total[OF ml_base_inv, of 7 70 16 3 "Some ml_hint" 4] ml_example_added
  by (auto simp: lruml_can_add_def ml_base_def ml_hint_def hint_ok_def empty_hint_def)

lemma ml_example_table: "ml_free_table ml_example = [(7, ml_block)]" "ml_to_delete_blocks ml_example = []"
  by (simp_all add: ml_example_def ml_base_def)

text \<open>
  C25. Eviction by score. When no block is marked for deletion and every waiting block is under a
  policy kept in the sorted dictionary (lru, fifo, ml, belady), evict returns, drops the
  outdated entries it meets, and takes exactly the block with the least score, the least last
  access among equal scores, and the least id among equals.
\<close>

theorem LRUMLEvictor_evict_least_score:
  assumes "lruml_env ops items np_exp" "lruml_inv items e" "ml_free_table e \<noteq> []" "ml_to_delete_blocks e = []"
    "\<forall>b m. dict_get (ml_free_table e) b = Some m \<longrightarrow> LRUMLEvictor_get_policy e (bm_cache_hint m) \<notin> {''rrip'', ''pdp''}"
  shows "\<exists>b m e'. LRUMLEvictor_evict ops np_exp now e = Inr ((b, bm_content_hash m), e') \<and>
     dict_get (ml_free_table e) b = Some m \<and> ml_free_table e' = dict_pop b (ml_free_table e) \<and>
     (\<forall>b' m'. dict_get (ml_free_table e) b' = Some m' \<longrightarrow>
        (bm_score m, bm_last_accessed m, b) \<le> (bm_score m', bm_last_accessed m', b'))"
  by (rule lruml_env.evict_least_score[OF assms])

theorem LRUMLEvictor_evict_least_score_witness:
  "\<exists>b (m :: BlockMetaData) e'. LRUMLEvictor_evict rbt_sorted_dict step_exp 9 ml_example = Inr ((b, bm_content_hash m), e') \<and>
     ml_free_table e' = dict_pop b (ml_free_table ml_example)"
proof -
  have "LRUMLEvictor_get_policy ml_example (bm_cache_hint ml_block) = ''ml''"
    by (simp add: LRUMLEvictor_get_policy_def policy_of_def ml_block_def ml_hint_def empty_hint_def truthy_def truthy_str_def)
  then have pol: "\<forall>b m. dict_get (ml_free_table ml_example) b = Some m \<longrightarrow>
      LRUMLEvictor_get_policy ml_example (bm_cache_hint m) \<notin> {''rrip'', ''pdp''}"
    by (auto simp: ml_example_table split: if_splits)
  have ne: "ml_free_table ml_example \<noteq> []" by (simp add: ml_example_table)
  show ?thesis
    using LRUMLEvictor_evict_least_score[OF rbt_ml.lruml_env_axioms ml_example_inv ne ml_example_table(2) pol, of 9] by blast
qed

text \<open>
  C26. Every eviction ends and gives a block. From a state that satisfies the invariant, with
  blocks of any mixture of policies waiting and any list of blocks marked for deletion, the
  loops of evict terminate within their fuel, the result is a block that waited together with
  its content hash, and exactly that block is gone afterwards.
\<close>

theorem LRUMLEvictor_evict_terminates:
  assumes "lruml_env ops items np_exp" "lruml_inv items e" "ml_free_table e \<noteq> []"
  shows "\<exists>b h e'. LRUMLEvictor_evict ops np_exp now e = Inr ((b, h), e') \<and> lruml_view e b = Some h \<and>
     lruml_inv items e' \<and> lruml_view e' = (lruml_view e)(b := None)"
  by (rule lruml_env.evict_total[OF assms])

theorem LRUMLEvictor_evict_terminates_witness:
  "\<exists>b h e'. LRUMLEvictor_evict rbt_sorted_dict step_exp 9 ml_example = Inr ((b, h), e') \<and> lruml_inv RBT.entries e'"
  using LRUMLEvictor_evict_terminates[OF rbt_ml.lruml_env_axioms ml_example_inv, of 9] by (auto simp: ml_example_table)

text \<open>
  The end of the warmup reaches every waiting block. Observing an access always succeeds and
  keeps the set of waiting blocks and the invariant; when it finalises the scheduler, every
  waiting block is from then on under the policy the scheduler has chosen, whatever policy its
  hint asked for before.
\<close>

theorem LRUMLEvictor_observe_rebinds:
  assumes "lruml_env ops items np_exp" "lruml_inv items e"
  shows "\<exists>e'. LRUMLEvictor_observe_cache_access ops np_exp now e h hint rh = Inr e' \<and> lruml_inv items e' \<and>
     lruml_view e' = lruml_view e \<and>
     (sc_finalized (ml_scheduler e') \<and> \<not> sc_finalized (ml_scheduler e) \<longrightarrow>
       (\<forall>b m. dict_get (ml_free_table e') b = Some m \<longrightarrow>
          LRUMLEvictor_get_policy e' (bm_cache_hint m) = sc_current_policy (ml_scheduler e')))"
  by (rule lruml_env.observe_total[OF assms])

theorem LRUMLEvictor_observe_rebinds_witness:
  "\<exists>e'. LRUMLEvictor_observe_cache_access rbt_sorted_dict step_exp 120 ml_example 70 None (Some True) = Inr e' \<and>
     lruml_view e' = lruml_view ml_example"
  using LRUMLEvictor_observe_rebinds[OF rbt_ml.lruml_env_axioms ml_example_inv, of 120 70 None "Some True"] by auto

text \<open>
  Updating a waiting block (an access while it waits) always succeeds with a well-formed
  hint: the block stays, carries the new access time, and the sorted dictionary has its entry
  under the new score, so that the invariant holds again.
\<close>

theorem LRUMLEvictor_update_keeps_block:
  assumes "lruml_env ops items np_exp" "lruml_inv items e" "dict_get (ml_free_table e) b = Some m" "hint_ok hint"
    "\<And>h l. (b, h, l) \<in> set (ml_to_delete_blocks e) \<Longrightarrow> l = t \<Longrightarrow> h = bm_content_hash m"
  shows "\<exists>e' m'. LRUMLEvictor_update ops np_exp now e b t hint = Inr e' \<and> lruml_inv items e' \<and>
     lruml_view e' = lruml_view e \<and> dict_get (ml_free_table e') b = Some m' \<and> bm_last_accessed m' = t"
  by (rule lruml_env.update_total[OF assms])

theorem LRUMLEvictor_update_keeps_block_witness:
  "\<exists>e' m'. LRUMLEvictor_update rbt_sorted_dict step_exp 9 ml_example 7 8 (Some ml_hint) = Inr e' \<and>
     dict_get (ml_free_table e') 7 = Some m' \<and> bm_last_accessed m' = 8"
  using LRUMLEvictor_update_keeps_block[OF rbt_ml.lruml_env_axioms ml_example_inv, of 7 ml_block "Some ml_hint" 8 9]
  by (auto simp: ml_example_table hint_ok_def ml_hint_def empty_hint_def)

end
