(* ===== verification/Evictors.thy ===== *)
theory Evictors
  imports LRU_Evictor LRUML_Correct
begin

text \<open>
  make_evictor of vllm/core/evictor.py and the calls the block allocator makes through the
  abstract class Evictor: one value type over the three evictor classes, the dispatch of every
  operation, and the contract that all of them satisfy.
\<close>

datatype 'd evictor = LRU LRUEvictor | PDP PDPEvictor | LRUML "'d LRUMLEvictor"

definition make_evictor :: "'d score_dict \<Rightarrow> rat \<Rightarrow> string \<Rightarrow> string \<Rightarrow> 'd evictor result" where
  "make_evictor ops now eviction_algorithm config =
     (if eviction_algorithm = ''lru'' then Inr (LRU LRUEvictor_init)
      else if eviction_algorithm = ''pdp'' then res_bind (PDPEvictor_init config) (\<lambda>e. Inr (PDP e))
      else res_bind (LRUMLEvictor_init ops now config) (\<lambda>e. Inr (LRUML e)))"

fun evictor_contains :: "'d evictor \<Rightarrow> int \<Rightarrow> bool" where
  "evictor_contains (LRU e) b = LRUEvictor_contains e b"
| "evictor_contains (PDP e) b = PDPEvictor_contains e b"
| "evictor_contains (LRUML e) b = LRUMLEvictor_contains e b"

fun evictor_num_blocks :: "'d evictor \<Rightarrow> nat" where
  "evictor_num_blocks (LRU e) = LRUEvictor_num_blocks e"
| "evictor_num_blocks (PDP e) = PDPEvictor_num_blocks e"
| "evictor_num_blocks (LRUML e) = LRUMLEvictor_num_blocks e"

definition res_wrap :: "('a \<Rightarrow> 'b) \<Rightarrow> 'a result \<Rightarrow> 'b result" where
  "res_wrap f m = res_bind m (\<lambda>x. Inr (f x))"

fun evictor_add ::
    "'d score_dict \<Rightarrow> (rat \<Rightarrow> rat) \<Rightarrow> rat \<Rightarrow> 'd evictor \<Rightarrow> int \<Rightarrow> int \<Rightarrow> int \<Rightarrow> rat \<Rightarrow> cache_hint option \<Rightarrow>
     'd evictor result" where
  "evictor_add ops np_exp now (LRU e) b h n t c = Inr (LRU (LRUEvictor_add e b h n t c))"
| "evictor_add ops np_exp now (PDP e) b h n t c = Inr (PDP (PDPEvictor_add e b h n t c))"
| "evictor_add ops np_exp now (LRUML e) b h n t c = res_wrap LRUML (LRUMLEvictor_add ops np_exp now e b h n t c)"

fun evictor_update ::
    "'d score_dict \<Rightarrow> (rat \<Rightarrow> rat) \<Rightarrow> rat \<Rightarrow> 'd evictor \<Rightarrow> int \<Rightarrow> rat \<Rightarrow> cache_hint option \<Rightarrow> 'd evictor result" where
  "evictor_update ops np_exp now (LRU e) b t c = res_wrap LRU (LRUEvictor_update e b t c)"
| "evictor_update ops np_exp now (PDP e) b t c = res_wrap PDP (PDPEvictor_update e b t c)"
| "evictor_update ops np_exp now (LRUML e) b t c = res_wrap LRUML (LRUMLEvictor_update ops np_exp now e b t c)"

fun evictor_remove :: "'d score_dict \<Rightarrow> 'd evictor \<Rightarrow> int \<Rightarrow> 'd evictor result" where
  "evictor_remove ops (LRU e) b = res_wrap LRU (LRUEvictor_remove e b)"
| "evictor_remove ops (PDP e) b = res_wrap PDP (PDPEvictor_remove e b)"
| "evictor_remove ops (LRUML e) b = res_wrap LRUML (LRUMLEvictor_remove ops e b)"

fun evictor_evict ::
    "'d score_dict \<Rightarrow> (rat \<Rightarrow> rat) \<Rightarrow> rat \<Rightarrow> 'd evictor \<Rightarrow> ((int \<times> int) \<times> 'd evictor) result" where
  "evictor_evict ops np_exp now (LRU e) = res_wrap (map_prod id LRU) (LRUEvictor_evict now e)"
| "evictor_evict ops np_exp now (PDP e) = res_wrap (map_prod id PDP) (PDPEvictor_evict now e)"
| "evictor_evict ops np_exp now (LRUML e) = res_wrap (map_prod id LRUML) (LRUMLEvictor_evict ops np_exp now e)"

section \<open>The contract\<close>

fun evictor_view :: "'d evictor \<Rightarrow> int \<rightharpoonup> int" where
  "evictor_view (LRU e) = lru_view e"
| "evictor_view (PDP e) = pdp_view e"
| "evictor_view (LRUML e) = lruml_view e"

fun evictor_inv :: "('d \<Rightarrow> (score_key \<times> (int \<times> int)) list) \<Rightarrow> 'd evictor \<Rightarrow> bool" where
  "evictor_inv items (LRU e) = lru_inv e"
| "evictor_inv items (PDP e) = pdp_inv e"
| "evictor_inv items (LRUML e) = lruml_inv items e"

fun evictor_can_add :: "'d evictor \<Rightarrow> int \<Rightarrow> int \<Rightarrow> int \<Rightarrow> rat \<Rightarrow> cache_hint option \<Rightarrow> bool" where
  "evictor_can_add (LRU e) b h n t c = lru_can_add e b h n t c"
| "evictor_can_add (PDP e) b h n t c = True"
| "evictor_can_add (LRUML e) b h n t c = lruml_can_add e b h n t c"

lemma res_wrap_Inr [simp]: "res_wrap f (Inr x) = Inr (f x)" "res_wrap f (Inl err) = Inl err"
  by (simp_all add: res_wrap_def)

sublocale lruml_env \<subseteq> ev: evictor_contract evictor_view "evictor_inv items" evictor_contains
  evictor_num_blocks evictor_can_add "evictor_add ops np_exp" "evictor_remove ops" "evictor_evict ops np_exp"
proof
  fix e :: "'d evictor" and b h n t c now
  show "evictor_contains e b \<longleftrightarrow> evictor_view e b \<noteq> None"
    by (cases e) (simp_all add: lru.contains_iff pdp.contains_iff ml.contains_iff)
  show "finite (dom (evictor_view e))"
    by (cases e) (simp_all add: lru.finite_view pdp.finite_view ml.finite_view)
  show "evictor_num_blocks e = card (dom (evictor_view e))" if "evictor_inv items e"
    using that by (cases e) (simp_all add: lru.num_blocks_card pdp.num_blocks_card ml.num_blocks_card)
  show "\<exists>e'. evictor_add ops np_exp now e b h n t c = Inr e' \<and> evictor_inv items e' \<and>
      evictor_view e' = (evictor_view e)(b \<mapsto> h)"
    if "evictor_inv items e" "evictor_can_add e b h n t c"
  proof (cases e)
    case (LRU x)
    then show ?thesis using that lru.add_law[of x b h n t c] by simp
  next
    case (PDP x)
    then show ?thesis using that pdp.add_law[of x b h n t c] by simp
  next
    case (LRUML x)
    then show ?thesis using that ml.add_law[of x b h n t c now] by auto
  qed
  show "\<exists>e'. evictor_remove ops e b = Inr e' \<and> evictor_inv items e' \<and> evictor_view e' = (evictor_view e)(b := None)"
    if "evictor_inv items e" "evictor_view e b \<noteq> None"
  proof (cases e)
    case (LRU x)
    then show ?thesis using that lru.remove_law[of x b] by auto
  next
    case (PDP x)
    then show ?thesis using that pdp.remove_law[of x b] by auto
  next
    case (LRUML x)
    then show ?thesis using that ml.remove_law[of x b] by auto
  qed
  show "evictor_remove ops e b = Inl ValueError" if "evictor_view e b = None"
    using that by (cases e) (simp_all add: lru.remove_absent pdp.remove_absent ml.remove_absent)
  show "\<exists>b h e'. evictor_evict ops np_exp now e = Inr ((b, h), e') \<and> evictor_view e b = Some h \<and>
      evictor_inv items e' \<and> evictor_view e' = (evictor_view e)(b := None)"
    if "evictor_inv items e" "evictor_view e \<noteq> Map.empty"
  proof (cases e)
    case (LRU x)
    then show ?thesis using that lru.evict_law[of x now] by fastforce
  next
    case (PDP x)
    then show ?thesis using that pdp.evict_law[of x now] by fastforce
  next
    case (LRUML x)
    then show ?thesis using that ml.evict_law[of x now] by fastforce
  qed
  show "evictor_evict ops np_exp now e = Inl ValueError" if "evictor_view e = Map.empty"
    using that by (cases e) (simp_all add: lru.evict_empty pdp.evict_empty ml.evict_empty)
qed

section \<open>Properties\<close>

text \<open>Repeated eviction through the dispatch, as memory pressure drives it.\<close>

fun evict_all ::
    "'d score_dict \<Rightarrow> (rat \<Rightarrow> rat) \<Rightarrow> rat list \<Rightarrow> 'd evictor \<Rightarrow> ((int \<times> int) list \<times> 'd evictor) result" where
  "evict_all ops np_exp [] e = Inr ([], e)"
| "evict_all ops np_exp (now # nows) e =
     res_bind (evictor_evict ops np_exp now e) (\<lambda>(bh, e').
       res_bind (evict_all ops np_exp nows e') (\<lambda>(bhs, e''). Inr (bh # bhs, e'')))"

context lruml_env
begin

lemma evict_all_drain: "evict_all ops np_exp nows e = ev.drain nows e"
  by (induction nows arbitrary: e) (auto intro!: arg_cong2[of _ _ _ _ res_bind])

lemma evict_all_complete:
  "evictor_inv items e \<Longrightarrow> length nows = evictor_num_blocks e \<Longrightarrow>
   \<exists>bhs e'. evict_all ops np_exp nows e = Inr (bhs, e') \<and> evictor_view e' = Map.empty \<and>
     distinct (map fst bhs) \<and> map_of bhs = evictor_view e"
  unfolding evict_all_drain by (rule ev.drain_all)

end

text \<open>
  C24. No block is lost or evicted twice. For every evictor class that make_evictor can build, in
  any state satisfying its invariant, evicting as often as blocks wait always succeeds, empties
  the evictor, and returns every waiting block exactly once with its own content hash.
\<close>

theorem evict_all_returns_each_block_once:
  assumes "lruml_env ops items np_exp" "evictor_inv items e" "length nows = evictor_num_blocks e"
  shows "\<exists>bhs e'. evict_all ops np_exp nows e = Inr (bhs, e') \<and> evictor_view e' = Map.empty \<and>
     distinct (map fst bhs) \<and> map_of bhs = evictor_view e"
  by (rule lruml_env.evict_all_complete[OF assms])

theorem evict_all_returns_each_block_once_witness:
  "\<exists>bhs e'. evict_all rbt_sorted_dict step_exp [9] (LRUML ml_example) = Inr (bhs, e') \<and>
     evictor_view e' = Map.empty"
proof -
  have "evictor_inv RBT.entries (LRUML ml_example)" by (simp add: ml_example_inv)
  from evict_all_returns_each_block_once[OF rbt_ml.lruml_env_axioms this, of "[9]"] show ?thesis
    by (auto simp: LRUMLEvictor_num_blocks_def ml_example_table)
qed

end
