(* ===== verification/Block_Common.thy ===== *)
theory Block_Common
  imports Prelude
begin

text \<open>
  The helpers of vllm/core/block/common.py: reference counters, the copy-on-write tracker, the
  pool of block objects, the list of blocks with its cached ids, the cache metric, and the walk
  along the previous-block pointers.

  Block objects are mutable and shared, so they live in a store: the pool. A reference to a
  block object is its index in the pool, which the source keeps as pool_id; the previous block
  of a block is such a reference. The record of a block is extensible, the prefix-caching block
  adds its fields to it.
\<close>

section \<open>Reference counters\<close>

type_synonym RefCounter = "(int, int) dict"

definition RefCounter_init :: "int list \<Rightarrow> RefCounter" where
  "RefCounter_init all_block_indices = map (\<lambda>index. (index, 0)) (remdups all_block_indices)"

definition RefCounter_incr :: "RefCounter \<Rightarrow> int \<Rightarrow> (int \<times> RefCounter) result" where
  "RefCounter_incr rc block_id =
     (case dict_get rc block_id of
        None \<Rightarrow> Inl AssertionError
      | Some pre \<Rightarrow> if pre \<ge> 0 then Inr (pre + 1, dict_set block_id (pre + 1) rc) else Inl AssertionError)"

definition RefCounter_decr :: "RefCounter \<Rightarrow> int \<Rightarrow> (int \<times> RefCounter) result" where
  "RefCounter_decr rc block_id =
     (case dict_get rc block_id of
        None \<Rightarrow> Inl AssertionError
      | Some refcount \<Rightarrow>
          if refcount > 0 then Inr (refcount - 1, dict_set block_id (refcount - 1) rc) else Inl AssertionError)"

definition RefCounter_get :: "RefCounter \<Rightarrow> int \<Rightarrow> int result" where
  "RefCounter_get rc block_id = (case dict_get rc block_id of None \<Rightarrow> Inl AssertionError | Some r \<Rightarrow> Inr r)"

definition ReadOnlyRefCounter_incr :: "RefCounter \<Rightarrow> int \<Rightarrow> (int \<times> RefCounter) result" where
  "ReadOnlyRefCounter_incr rc block_id = Inl ValueError"

definition ReadOnlyRefCounter_decr :: "RefCounter \<Rightarrow> int \<Rightarrow> (int \<times> RefCounter) result" where
  "ReadOnlyRefCounter_decr rc block_id = Inl ValueError"

definition ReadOnlyRefCounter_get :: "RefCounter \<Rightarrow> int \<Rightarrow> int result" where
  "ReadOnlyRefCounter_get rc block_id = RefCounter_get rc block_id"

section \<open>Copy on write\<close>

record CopyOnWriteTracker =
  copy_on_writes :: "(int \<times> int) list"

definition CopyOnWriteTracker_init :: CopyOnWriteTracker where
  "CopyOnWriteTracker_init = \<lparr>copy_on_writes = []\<rparr>"

definition CopyOnWriteTracker_is_appendable :: "RefCounter \<Rightarrow> int option \<Rightarrow> bool result" where
  "CopyOnWriteTracker_is_appendable rc block_id =
     (case block_id of None \<Rightarrow> Inr True
      | Some b \<Rightarrow> res_bind (ReadOnlyRefCounter_get rc b) (\<lambda>refcount. Inr (refcount \<le> 1)))"

definition CopyOnWriteTracker_record_cow ::
    "CopyOnWriteTracker \<Rightarrow> int option \<Rightarrow> int option \<Rightarrow> CopyOnWriteTracker result" where
  "CopyOnWriteTracker_record_cow t src_block_id trg_block_id =
     (case (src_block_id, trg_block_id) of
        (Some src, Some trg) \<Rightarrow> Inr (t\<lparr>copy_on_writes := copy_on_writes t @ [(src, trg)]\<rparr>)
      | _ \<Rightarrow> Inl AssertionError)"

definition CopyOnWriteTracker_clear_cows ::
    "CopyOnWriteTracker \<Rightarrow> (int \<times> int) list \<times> CopyOnWriteTracker" where
  "CopyOnWriteTracker_clear_cows t = (copy_on_writes t, t\<lparr>copy_on_writes := []\<rparr>)"

section \<open>Block objects and their pool\<close>

type_synonym block_ref = nat

record block_obj =
  bl_prev_block :: "block_ref option"
  bl_token_ids :: "int list"
  bl_block_size :: int
  bl_block_id :: "int option"

text \<open>The constructor of a block class, given the objects that exist.\<close>

type_synonym 'b block_factory =
  "'b list \<Rightarrow> block_ref option \<Rightarrow> int list \<Rightarrow> int \<Rightarrow> int option \<Rightarrow> int option \<Rightarrow> 'b result"

record 'b BlockPool =
  bp_block_size :: int
  bp_pool_size :: nat
  bp_free_ids :: "block_ref list"
  bp_pool :: "'b list"

fun grow_pool :: "'b block_factory \<Rightarrow> int \<Rightarrow> nat \<Rightarrow> 'b list \<Rightarrow> 'b list result" where
  "grow_pool create_block block_size 0 pool = Inr pool"
| "grow_pool create_block block_size (Suc n) pool =
     res_bind (create_block pool None [] block_size None None) (\<lambda>b.
       grow_pool create_block block_size n (pool @ [b]))"

definition BlockPool_init :: "'b block_factory \<Rightarrow> int \<Rightarrow> int \<Rightarrow> 'b BlockPool result" where
  "BlockPool_init create_block block_size pool_size =
     res_bind (py_assert (pool_size \<ge> 0)) (\<lambda>_.
     res_bind (grow_pool create_block block_size (nat pool_size) []) (\<lambda>pool.
       Inr \<lparr>bp_block_size = block_size, bp_pool_size = nat pool_size,
            bp_free_ids = [0..<nat pool_size], bp_pool = pool\<rparr>))"

definition BlockPool_increase_pool :: "'b block_factory \<Rightarrow> 'b BlockPool \<Rightarrow> 'b BlockPool result" where
  "BlockPool_increase_pool create_block p =
     (let cur_pool_size = bp_pool_size p; new_pool_size = cur_pool_size * 2
      in res_bind (grow_pool create_block (bp_block_size p) (new_pool_size - cur_pool_size) (bp_pool p)) (\<lambda>pool.
           Inr (p\<lparr>bp_pool_size := new_pool_size,
                  bp_free_ids := bp_free_ids p @ [cur_pool_size..<new_pool_size], bp_pool := pool\<rparr>)))"

definition BlockPool_init_block ::
    "'b block_factory \<Rightarrow> 'b BlockPool \<Rightarrow> block_ref option \<Rightarrow> int list \<Rightarrow> int \<Rightarrow> int option \<Rightarrow> int option \<Rightarrow>
     (block_ref \<times> 'b BlockPool) result" where
  "BlockPool_init_block create_block p0 prev_block token_ids block_size physical_block_id extra_hash =
     res_bind (if bp_free_ids p0 = [] then BlockPool_increase_pool create_block p0 else Inr p0) (\<lambda>p.
       case bp_free_ids p of [] \<Rightarrow> Inl AssertionError
       | pool_id # free_ids \<Rightarrow>
           if pool_id < length (bp_pool p)
           then res_bind (create_block (bp_pool p) prev_block token_ids block_size physical_block_id extra_hash) (\<lambda>b.
                  Inr (pool_id, p\<lparr>bp_free_ids := free_ids, bp_pool := (bp_pool p)[pool_id := b]\<rparr>))
           else Inl IndexError)"

definition BlockPool_free_block :: "'b BlockPool \<Rightarrow> block_ref \<Rightarrow> 'b BlockPool" where
  "BlockPool_free_block p pool_id = p\<lparr>bp_free_ids := pool_id # bp_free_ids p\<rparr>"

definition pool_get :: "'b BlockPool \<Rightarrow> block_ref \<Rightarrow> 'b result" where
  "pool_get p r = (if r < length (bp_pool p) then Inr (bp_pool p ! r) else Inl AttributeError)"

definition pool_set :: "'b BlockPool \<Rightarrow> block_ref \<Rightarrow> 'b \<Rightarrow> 'b BlockPool" where
  "pool_set p r b = p\<lparr>bp_pool := (bp_pool p)[r := b]\<rparr>"

section \<open>The list of blocks of a sequence\<close>

record BlockList =
  bls_blocks :: "block_ref list"
  bls_block_ids :: "int list"

definition BlockList_add_block_id :: "BlockList \<Rightarrow> int option \<Rightarrow> BlockList result" where
  "BlockList_add_block_id l block_id =
     (case block_id of None \<Rightarrow> Inl AssertionError
      | Some b \<Rightarrow> Inr (l\<lparr>bls_block_ids := bls_block_ids l @ [b]\<rparr>))"

definition BlockList_update_block_id :: "BlockList \<Rightarrow> nat \<Rightarrow> int option \<Rightarrow> BlockList result" where
  "BlockList_update_block_id l block_index new_block_id =
     (case new_block_id of None \<Rightarrow> Inl AssertionError
      | Some b \<Rightarrow> if block_index < length (bls_block_ids l)
                   then Inr (l\<lparr>bls_block_ids := (bls_block_ids l)[block_index := b]\<rparr>)
                   else Inl IndexError)"

definition block_id_of :: "'a block_obj_scheme BlockPool \<Rightarrow> block_ref \<Rightarrow> int option result" where
  "block_id_of p r = res_bind (pool_get p r) (\<lambda>b. Inr (bl_block_id b))"

definition BlockList_update ::
    "'a block_obj_scheme BlockPool \<Rightarrow> BlockList \<Rightarrow> block_ref list \<Rightarrow> BlockList result" where
  "BlockList_update p l blocks =
     res_fold (\<lambda>r l. res_bind (block_id_of p r) (BlockList_add_block_id l)) blocks
       (l\<lparr>bls_blocks := blocks, bls_block_ids := []\<rparr>)"

definition BlockList_init :: "'a block_obj_scheme BlockPool \<Rightarrow> block_ref list \<Rightarrow> BlockList result" where
  "BlockList_init p blocks = BlockList_update p \<lparr>bls_blocks = [], bls_block_ids = []\<rparr> blocks"

definition BlockList_append :: "'a block_obj_scheme BlockPool \<Rightarrow> BlockList \<Rightarrow> block_ref \<Rightarrow> BlockList result" where
  "BlockList_append p l new_block =
     res_bind (block_id_of p new_block) (\<lambda>i.
       BlockList_add_block_id (l\<lparr>bls_blocks := bls_blocks l @ [new_block]\<rparr>) i)"

definition BlockList_len :: "BlockList \<Rightarrow> nat" where
  "BlockList_len l = length (bls_blocks l)"

definition BlockList_getitem :: "BlockList \<Rightarrow> nat \<Rightarrow> block_ref result" where
  "BlockList_getitem l block_index =
     (if block_index < length (bls_blocks l) then Inr (bls_blocks l ! block_index) else Inl IndexError)"

definition BlockList_setitem ::
    "'a block_obj_scheme BlockPool \<Rightarrow> BlockList \<Rightarrow> nat \<Rightarrow> block_ref \<Rightarrow> BlockList result" where
  "BlockList_setitem p l block_index new_block =
     (if block_index < length (bls_blocks l)
      then res_bind (block_id_of p new_block) (\<lambda>i.
             BlockList_update_block_id (l\<lparr>bls_blocks := (bls_blocks l)[block_index := new_block]\<rparr>) block_index i)
      else Inl IndexError)"

text \<open>
  Appending tokens to a block of the list: the block's own operation changes the state \<open>s\<close> of
  the allocator, whose objects \<open>pool_of\<close> gives; afterwards the cached id follows the block.
\<close>

definition BlockList_append_token_ids ::
    "('s \<Rightarrow> block_ref \<Rightarrow> int list \<Rightarrow> 's result) \<Rightarrow> ('s \<Rightarrow> 'a block_obj_scheme BlockPool) \<Rightarrow>
     's \<Rightarrow> BlockList \<Rightarrow> nat \<Rightarrow> int list \<Rightarrow> (BlockList \<times> 's) result" where
  "BlockList_append_token_ids append_op pool_of s l block_index token_ids =
     res_bind (BlockList_getitem l block_index) (\<lambda>block.
     res_bind (block_id_of (pool_of s) block) (\<lambda>prev_block_id.
     res_bind (append_op s block token_ids) (\<lambda>s'.
     res_bind (block_id_of (pool_of s') block) (\<lambda>i.
       if prev_block_id \<noteq> i
       then res_bind (BlockList_update_block_id l block_index i) (\<lambda>l'. Inr (l', s'))
       else Inr (l, s')))))"

definition BlockList_reset :: "BlockList \<Rightarrow> BlockList" where
  "BlockList_reset l = l\<lparr>bls_blocks := [], bls_block_ids := []\<rparr>"

definition BlockList_list :: "BlockList \<Rightarrow> block_ref list" where
  "BlockList_list l = bls_blocks l"

definition BlockList_ids :: "BlockList \<Rightarrow> int list" where
  "BlockList_ids l = bls_block_ids l"

section \<open>Cache metric\<close>

record CacheMetricData =
  num_completed_blocks :: nat
  completed_block_cache_hit_rate :: rat
  num_incompleted_block_queries :: nat
  num_incompleted_block_hit :: nat
  cm_block_size :: nat

definition CacheMetricData_init :: CacheMetricData where
  "CacheMetricData_init = \<lparr>num_completed_blocks = 0, completed_block_cache_hit_rate = 0,
     num_incompleted_block_queries = 0, num_incompleted_block_hit = 0, cm_block_size = 1000\<rparr>"

definition CacheMetricData_query :: "CacheMetricData \<Rightarrow> bool \<Rightarrow> CacheMetricData" where
  "CacheMetricData_query m0 hit =
     (let m = m0\<lparr>num_incompleted_block_queries := num_incompleted_block_queries m0 + 1,
                 num_incompleted_block_hit := num_incompleted_block_hit m0 + (if hit then 1 else 0)\<rparr>
      in if num_incompleted_block_queries m = cm_block_size m
         then let hit_rate = rat_of_nat (num_incompleted_block_hit m) / rat_of_nat (num_incompleted_block_queries m)
              in m\<lparr>completed_block_cache_hit_rate :=
                     (completed_block_cache_hit_rate m * rat_of_nat (num_completed_blocks m) + hit_rate) /
                     rat_of_nat (num_completed_blocks m + 1),
                   num_incompleted_block_queries := 0, num_incompleted_block_hit := 0,
                   num_completed_blocks := num_completed_blocks m + 1\<rparr>
         else m)"

definition CacheMetricData_get_hit_rate :: "CacheMetricData \<Rightarrow> rat result" where
  "CacheMetricData_get_hit_rate m =
     (if cm_block_size m = 0 then Inl ZeroDivisionError
      else let incomplete_ratio = rat_of_nat (num_incompleted_block_queries m) / rat_of_nat (cm_block_size m);
               total_blocks = rat_of_nat (num_completed_blocks m) + incomplete_ratio
           in if total_blocks = 0 then Inr 0
              else let completed_block_hit = (if num_completed_blocks m > 0
                         then completed_block_cache_hit_rate m * rat_of_nat (num_completed_blocks m) else 0);
                       incompleted_block_hit = (if num_incompleted_block_queries m > 0
                         then rat_of_nat (num_incompleted_block_hit m) / rat_of_nat (num_incompleted_block_queries m)
                              * incomplete_ratio else 0)
                   in Inr ((completed_block_hit + incompleted_block_hit) / total_blocks))"

section \<open>The blocks of a sequence\<close>

text \<open>
  The recursion follows the previous-block pointers; its fuel is the number of block objects,
  which a chain without a cycle cannot exceed.
\<close>

fun recurse_blocks :: "'a block_obj_scheme BlockPool \<Rightarrow> nat \<Rightarrow> block_ref \<Rightarrow> block_ref list result" where
  "recurse_blocks p 0 r = Inl Diverges"
| "recurse_blocks p (Suc fuel) r =
     res_bind (pool_get p r) (\<lambda>b.
       case bl_prev_block b of None \<Rightarrow> Inr [r]
       | Some q \<Rightarrow> res_bind (recurse_blocks p fuel q) (\<lambda>lst. Inr (lst @ [r])))"

definition get_all_blocks_recursively :: "'a block_obj_scheme BlockPool \<Rightarrow> block_ref \<Rightarrow> block_ref list result" where
  "get_all_blocks_recursively p last_block = recurse_blocks p (length (bp_pool p)) last_block"

section \<open>Laws of the reference counter\<close>

definition rc_ok :: "RefCounter \<Rightarrow> bool" where
  "rc_ok rc \<longleftrightarrow> dict_ok rc \<and> (\<forall>b n. dict_get rc b = Some n \<longrightarrow> 0 \<le> n)"

lemma RefCounter_init_get: "dict_get (RefCounter_init ids) b = (if b \<in> set ids then Some 0 else None)"
  by (simp add: RefCounter_init_def map_of_map_restrict restrict_map_def)

lemma rc_ok_init: "rc_ok (RefCounter_init ids)"
proof -
  have "dict_ok (RefCounter_init ids)" by (simp add: RefCounter_init_def dict_ok_def comp_def)
  then show ?thesis by (auto simp: rc_ok_def RefCounter_init_get split: if_splits)
qed

lemma incr_ok:
  assumes "rc_ok rc" "dict_get rc b = Some n"
  shows "RefCounter_incr rc b = Inr (n + 1, dict_set b (n + 1) rc)" "rc_ok (dict_set b (n + 1) rc)"
  using assms by (auto simp: rc_ok_def RefCounter_incr_def)

lemma decr_ok:
  assumes "rc_ok rc" "dict_get rc b = Some n" "0 < n"
  shows "RefCounter_decr rc b = Inr (n - 1, dict_set b (n - 1) rc)" "rc_ok (dict_set b (n - 1) rc)"
  using assms by (auto simp: rc_ok_def RefCounter_decr_def)

lemma incr_InrD:
  "RefCounter_incr rc b = Inr (n, rc') \<Longrightarrow> dict_get rc b = Some (n - 1) \<and> 0 \<le> n - 1 \<and> rc' = dict_set b n rc"
  by (auto simp: RefCounter_incr_def split: option.splits if_splits)

lemma decr_InrD:
  "RefCounter_decr rc b = Inr (n, rc') \<Longrightarrow> dict_get rc b = Some (n + 1) \<and> 0 \<le> n \<and> rc' = dict_set b n rc"
  by (auto simp: RefCounter_decr_def split: option.splits if_splits)

section \<open>Laws of the pool\<close>

definition pool_ok :: "'b BlockPool \<Rightarrow> bool" where
  "pool_ok p \<longleftrightarrow> length (bp_pool p) = bp_pool_size p \<and> distinct (bp_free_ids p) \<and>
     (\<forall>r \<in> set (bp_free_ids p). r < bp_pool_size p)"

definition pool_live :: "'b BlockPool \<Rightarrow> block_ref set" where
  "pool_live p = {r. r < bp_pool_size p \<and> r \<notin> set (bp_free_ids p)}"

lemma grow_pool_appends:
  "grow_pool f sz n pool = Inr pool' \<Longrightarrow> \<exists>new. pool' = pool @ new \<and> length new = n"
proof (induction n arbitrary: pool)
  case (Suc n)
  then obtain b where "grow_pool f sz n (pool @ [b]) = Inr pool'" by auto
  from Suc.IH[OF this] show ?case by auto
qed simp

lemma pool_ok_init: "BlockPool_init f sz n = Inr p \<Longrightarrow> pool_ok p \<and> pool_live p = {}"
  using grow_pool_appends[of f sz "nat n" "[]"]
  by (auto simp: BlockPool_init_def pool_ok_def pool_live_def elim!: res_bind_InrE)

lemma increase_pool_ok:
  assumes "pool_ok p" "BlockPool_increase_pool f p = Inr p'"
  shows "pool_ok p'" "pool_live p' = pool_live p" "\<And>r. r < length (bp_pool p) \<Longrightarrow> bp_pool p' ! r = bp_pool p ! r"
    "bp_pool_size p' = 2 * bp_pool_size p"
proof -
  obtain pool where g: "grow_pool f (bp_block_size p) (bp_pool_size p) (bp_pool p) = Inr pool"
    "p' = p\<lparr>bp_pool_size := bp_pool_size p * 2, bp_free_ids := bp_free_ids p @ [bp_pool_size p..<bp_pool_size p * 2],
            bp_pool := pool\<rparr>"
    using assms(2) by (auto simp: BlockPool_increase_pool_def Let_def)
  obtain new where new: "pool = bp_pool p @ new" "length new = bp_pool_size p" using grow_pool_appends[OF g(1)] by blast
  show "pool_ok p'" "pool_live p' = pool_live p" "bp_pool_size p' = 2 * bp_pool_size p"
    using assms(1) new g(2) by (auto simp: pool_ok_def pool_live_def)
  show "\<And>r. r < length (bp_pool p) \<Longrightarrow> bp_pool p' ! r = bp_pool p ! r"
    using new g(2) by (simp add: nth_append)
qed

text \<open>A block object that is handed out was not in use, and no object in use is changed.\<close>

lemma init_block_ok:
  assumes "pool_ok p" "BlockPool_init_block f p prev toks sz i x = Inr (r, p')"
  shows "pool_ok p'" "r \<notin> pool_live p" "pool_live p' = insert r (pool_live p)"
    "\<And>q. q \<in> pool_live p \<Longrightarrow> bp_pool p' ! q = bp_pool p ! q"
    "\<exists>pool. f pool prev toks sz i x = Inr (bp_pool p' ! r) \<and>
       (\<forall>q < length (bp_pool p). pool ! q = bp_pool p ! q)"
    "r < length (bp_pool p')" "length (bp_pool p) \<le> length (bp_pool p')"
proof -
  obtain p1 where p1: "(if bp_free_ids p = [] then BlockPool_increase_pool f p else Inr p) = Inr p1"
    using assms(2) by (auto simp: BlockPool_init_block_def)
  have k: "pool_ok p1" "pool_live p1 = pool_live p" "\<And>q. q < length (bp_pool p) \<Longrightarrow> bp_pool p1 ! q = bp_pool p ! q"
    "length (bp_pool p) \<le> length (bp_pool p1)"
    using assms(1) p1 increase_pool_ok[OF assms(1)] by (auto simp: pool_ok_def split: if_splits)
  obtain free b where f: "bp_free_ids p1 = r # free" "r < length (bp_pool p1)"
    "f (bp_pool p1) prev toks sz i x = Inr b"
    "p' = p1\<lparr>bp_free_ids := free, bp_pool := (bp_pool p1)[r := b]\<rparr>"
    using assms(2) p1 by (auto simp: BlockPool_init_block_def split: list.splits if_splits elim!: res_bind_InrE)
  show "pool_ok p'" using k(1) f by (auto simp: pool_ok_def)
  show rn: "r \<notin> pool_live p" using k(2) f by (auto simp: pool_live_def)
  show "pool_live p' = insert r (pool_live p)" using k(1) f unfolding k(2)[symmetric] by (auto simp: pool_live_def pool_ok_def)
  show "bp_pool p' ! q = bp_pool p ! q" if "q \<in> pool_live p" for q
  proof -
    have "q \<noteq> r" "q < length (bp_pool p)" using that rn assms(1) by (auto simp: pool_live_def pool_ok_def)
    then show ?thesis using k(3) f(4) by simp
  qed
  show "\<exists>pool. f pool prev toks sz i x = Inr (bp_pool p' ! r) \<and> (\<forall>q < length (bp_pool p). pool ! q = bp_pool p ! q)"
    using f k(3) by auto
  show "r < length (bp_pool p')" "length (bp_pool p) \<le> length (bp_pool p')" using f k(4) by auto
qed

lemma free_block_ok:
  assumes "pool_ok p" "r \<in> pool_live p"
  shows "pool_ok (BlockPool_free_block p r)" "pool_live (BlockPool_free_block p r) = pool_live p - {r}"
  using assms by (auto simp: pool_ok_def pool_live_def BlockPool_free_block_def)

section \<open>Chains of blocks\<close>

inductive block_chain :: "'a block_obj_scheme BlockPool \<Rightarrow> block_ref \<Rightarrow> block_ref list \<Rightarrow> bool" for p where
  first: "r < length (bp_pool p) \<Longrightarrow> bl_prev_block (bp_pool p ! r) = None \<Longrightarrow> block_chain p r [r]"
| next_block: "r < length (bp_pool p) \<Longrightarrow> bl_prev_block (bp_pool p ! r) = Some q \<Longrightarrow> block_chain p q rs \<Longrightarrow>
     block_chain p r (rs @ [r])"

inductive_cases block_chainE: "block_chain p r rs"

lemma block_chain_unique: "block_chain p r rs \<Longrightarrow> block_chain p r rs' \<Longrightarrow> rs = rs'"
proof (induction arbitrary: rs' rule: block_chain.induct)
  case (first r)
  from first(3) show ?case using first(2) by (auto elim: block_chainE)
next
  case (next_block r q rs)
  from next_block(5) obtain rs'' where "rs' = rs'' @ [r]" "block_chain p q rs''"
    using next_block(2) by (auto elim: block_chainE)
  with next_block.IH show ?case by simp
qed

lemma block_chain_mem: "block_chain p r rs \<Longrightarrow> x \<in> set rs \<Longrightarrow>
  \<exists>xs. block_chain p x xs \<and> length xs \<le> length rs \<and> (x \<noteq> r \<longrightarrow> length xs < length rs) \<and> x < length (bp_pool p)"
proof (induction rule: block_chain.induct)
  case (first r)
  then show ?case using block_chain.first[of r p] by fastforce
next
  case (next_block r q rs)
  show ?case
  proof (cases "x \<in> set rs")
    case True
    then show ?thesis using next_block.IH by fastforce
  next
    case False
    then have "x = r" using next_block.prems by simp
    then show ?thesis using block_chain.next_block[OF next_block(1-3)] next_block(1) by fastforce
  qed
qed

lemma block_chain_distinct: "block_chain p r rs \<Longrightarrow> distinct rs"
proof (induction rule: block_chain.induct)
  case (next_block r q rs)
  have c: "block_chain p r (rs @ [r])" using next_block by (intro block_chain.next_block)
  have "r \<notin> set rs"
  proof
    assume "r \<in> set rs"
    from block_chain_mem[OF next_block(3) this] obtain xs where "block_chain p r xs" "length xs \<le> length rs" by blast
    with block_chain_unique[OF c] show False by fastforce
  qed
  with next_block.IH show ?case by simp
qed simp

lemma block_chain_length: "block_chain p r rs \<Longrightarrow> length rs \<le> length (bp_pool p)"
proof -
  assume c: "block_chain p r rs"
  have "set rs \<subseteq> {..<length (bp_pool p)}" using block_chain_mem[OF c] by auto
  from card_mono[OF _ this] show ?thesis using block_chain_distinct[OF c] by (simp add: distinct_card)
qed

lemma recurse_blocks_chain: "block_chain p r rs \<Longrightarrow> length rs \<le> fuel \<Longrightarrow> recurse_blocks p fuel r = Inr rs"
proof (induction arbitrary: fuel rule: block_chain.induct)
  case (first r)
  then show ?case by (cases fuel) (auto simp: pool_get_def)
next
  case (next_block r q rs)
  then show ?case by (cases fuel) (auto simp: pool_get_def)
qed

lemma get_all_blocks_chain: "block_chain p r rs \<Longrightarrow> get_all_blocks_recursively p r = Inr rs"
  unfolding get_all_blocks_recursively_def by (rule recurse_blocks_chain) (auto intro: block_chain_length)

lemma recurse_blocks_sound: "recurse_blocks p fuel r = Inr rs \<Longrightarrow> block_chain p r rs"
proof (induction p fuel r arbitrary: rs rule: recurse_blocks.induct)
  case (2 p fuel r)
  have r: "r < length (bp_pool p)" using 2(2) by (auto simp: pool_get_def split: if_splits)
  show ?case
  proof (cases "bl_prev_block (bp_pool p ! r)")
    case None
    then show ?thesis using 2(2) r by (auto simp: pool_get_def intro: block_chain.first)
  next
    case (Some q)
    then obtain xs where x: "recurse_blocks p fuel q = Inr xs" "rs = xs @ [r]" using 2(2) r by (auto simp: pool_get_def)
    have "block_chain p q xs" using 2(1)[of "bp_pool p ! r" q xs] r Some x(1) by (simp add: pool_get_def)
    then show ?thesis using r Some x(2) by (auto intro: block_chain.next_block)
  qed
qed simp

section \<open>Properties\<close>

definition metric_inv :: "CacheMetricData \<Rightarrow> nat \<Rightarrow> nat \<Rightarrow> bool" where
  "metric_inv m hits queries \<longleftrightarrow> 0 < cm_block_size m \<and> num_incompleted_block_queries m < cm_block_size m \<and>
     queries = num_completed_blocks m * cm_block_size m + num_incompleted_block_queries m \<and>
     rat_of_nat hits = completed_block_cache_hit_rate m * rat_of_nat (num_completed_blocks m * cm_block_size m) +
       rat_of_nat (num_incompleted_block_hit m) \<and>
     num_incompleted_block_hit m \<le> num_incompleted_block_queries m"

lemma rate_step:
  fixes x n h b :: rat
  assumes "b \<noteq> 0" "n + 1 \<noteq> 0"
  shows "x * (n * b) + h = (x * n + h / b) / (n + 1) * ((n + 1) * b)"
proof -
  have "(x * n + h / b) / (n + 1) * ((n + 1) * b) = (x * n + h / b) * b" using assms(2) by simp
  also have "\<dots> = x * (n * b) + h" using assms(1) by (simp add: distrib_right)
  finally show ?thesis ..
qed

lemma metric_inv_query:
  assumes "metric_inv m hits queries"
  shows "metric_inv (CacheMetricData_query m hit) (hits + (if hit then 1 else 0)) (queries + 1)"
proof -
  let ?h = "num_incompleted_block_hit m + (if hit then 1 else 0)"
  let ?n = "rat_of_nat (num_completed_blocks m)" and ?bs = "rat_of_nat (cm_block_size m)"
  have m: "0 < cm_block_size m" "num_incompleted_block_queries m < cm_block_size m"
    "queries = num_completed_blocks m * cm_block_size m + num_incompleted_block_queries m"
    "rat_of_nat hits = completed_block_cache_hit_rate m * (?n * ?bs) + rat_of_nat (num_incompleted_block_hit m)"
    "num_incompleted_block_hit m \<le> num_incompleted_block_queries m"
    using assms by (auto simp: metric_inv_def)
  show ?thesis
  proof (cases "num_incompleted_block_queries m + 1 = cm_block_size m")
    case True
    have pos: "?bs \<noteq> 0" "?n + 1 \<noteq> 0" using m(1) by (auto simp: add_nonneg_pos)
    let ?r = "(completed_block_cache_hit_rate m * ?n + rat_of_nat ?h / ?bs) / rat_of_nat (num_completed_blocks m + 1)"
    have q: "CacheMetricData_query m hit = m\<lparr>completed_block_cache_hit_rate := ?r, num_incompleted_block_queries := 0,
        num_incompleted_block_hit := 0, num_completed_blocks := num_completed_blocks m + 1\<rparr>"
      using True by (simp add: CacheMetricData_query_def Let_def del: of_nat_add)
    have "rat_of_nat (hits + (if hit then 1 else 0)) = completed_block_cache_hit_rate m * (?n * ?bs) + rat_of_nat ?h"
      using m(4) by simp
    also have "\<dots> = ?r * rat_of_nat ((num_completed_blocks m + 1) * cm_block_size m)"
      unfolding of_nat_mult of_nat_add of_nat_1
      using rate_step[OF pos, of "completed_block_cache_hit_rate m" "rat_of_nat ?h"] unfolding of_nat_add .
    finally show ?thesis using m(1,3) True by (simp add: metric_inv_def q)
  next
    case False
    then show ?thesis using m by (auto simp: metric_inv_def CacheMetricData_query_def Let_def)
  qed
qed

lemma metric_inv_fold:
  "metric_inv m h q \<Longrightarrow> metric_inv (fold (\<lambda>hit m. CacheMetricData_query m hit) hs m) (h + length (filter id hs)) (q + length hs)"
proof (induction hs arbitrary: m h q)
  case (Cons hit hs)
  from Cons.IH[OF metric_inv_query[OF Cons.prems, of hit]] show ?case by (simp add: add.commute add.left_commute split: if_splits)
qed simp

lemma metric_rate:
  assumes "metric_inv m hits queries"
  shows "CacheMetricData_get_hit_rate m = Inr (if queries = 0 then 0 else rat_of_nat hits / rat_of_nat queries)"
proof -
  let ?n = "rat_of_nat (num_completed_blocks m)" and ?bs = "rat_of_nat (cm_block_size m)"
  let ?q = "rat_of_nat (num_incompleted_block_queries m)" and ?h = "rat_of_nat (num_incompleted_block_hit m)"
  have m: "?bs > 0" "queries = num_completed_blocks m * cm_block_size m + num_incompleted_block_queries m"
    "rat_of_nat hits = completed_block_cache_hit_rate m * (?n * ?bs) + ?h"
    "num_incompleted_block_hit m \<le> num_incompleted_block_queries m"
    using assms by (auto simp: metric_inv_def)
  have q: "rat_of_nat queries = ?n * ?bs + ?q" using m(2) by simp
  have t0: "?n + ?q / ?bs = 0 \<longleftrightarrow> queries = 0"
  proof -
    have "?n + ?q / ?bs = rat_of_nat queries / ?bs" using m(1) q by (simp add: field_simps)
    then show ?thesis using m(1) by simp
  qed
  have c: "(if num_completed_blocks m > 0 then completed_block_cache_hit_rate m * ?n else 0) = completed_block_cache_hit_rate m * ?n" by simp
  have i: "(if num_incompleted_block_queries m > 0 then ?h / ?q * (?q / ?bs) else 0) = ?h / ?bs"
    using m(4) by auto
  show ?thesis
  proof (cases "queries = 0")
    case True
    then show ?thesis using t0 m(1) by (auto simp: CacheMetricData_get_hit_rate_def Let_def)
  next
    case False
    have "(completed_block_cache_hit_rate m * ?n + ?h / ?bs) / (?n + ?q / ?bs) = rat_of_nat hits / rat_of_nat queries"
    proof -
      have "?n + ?q / ?bs = rat_of_nat queries / ?bs" "completed_block_cache_hit_rate m * ?n + ?h / ?bs = rat_of_nat hits / ?bs"
        using m(1,3) q by (simp_all add: field_simps)
      then show ?thesis using m(1) by simp
    qed
    then show ?thesis using False t0 m(1) c i by (simp add: CacheMetricData_get_hit_rate_def Let_def)
  qed
qed

text \<open>
  The block-wise cache metric loses nothing: after any sequence of queries on a fresh metric
  the reported rate is the exact number of hits divided by the number of queries.
\<close>

theorem CacheMetricData_hit_rate_exact:
  "CacheMetricData_get_hit_rate (fold (\<lambda>hit m. CacheMetricData_query m hit) hs CacheMetricData_init) =
     Inr (if hs = [] then 0 else rat_of_nat (length (filter id hs)) / rat_of_nat (length hs))"
proof -
  have "metric_inv CacheMetricData_init 0 0" by (simp add: metric_inv_def CacheMetricData_init_def)
  from metric_rate[OF metric_inv_fold[OF this, of hs]] show ?thesis by simp
qed

text \<open>
  The walk along the previous-block pointers returns a list exactly when the chain of blocks
  that ends in the given block is finite, and then the blocks of that chain in sequence order.
\<close>

theorem get_all_blocks_recursively_iff:
  "get_all_blocks_recursively p r = Inr rs \<longleftrightarrow> block_chain p r rs"
  using get_all_blocks_chain[of p r rs] recurse_blocks_sound[of p "length (bp_pool p)" r rs]
  by (auto simp: get_all_blocks_recursively_def)

text \<open>
  The pool of block objects never hands out an object in use: a successful init_block
  returns an object that was free, adds exactly it to the objects in use, leaves every object
  in use as it was (growing the pool when it is exhausted) and keeps the pool well-formed.
\<close>

theorem BlockPool_init_block_fresh:
  assumes "pool_ok p" "BlockPool_init_block f p prev toks sz i x = Inr (r, p')"
  shows "r \<notin> pool_live p \<and> pool_live p' = insert r (pool_live p) \<and> pool_ok p' \<and>
     (\<forall>q \<in> pool_live p. bp_pool p' ! q = bp_pool p ! q)"
  using init_block_ok[OF assms] by blast

definition example_factory :: "block_obj block_factory" where
  "example_factory pool prev toks sz i x =
     Inr \<lparr>bl_prev_block = prev, bl_token_ids = toks, bl_block_size = sz, bl_block_id = i\<rparr>"

definition example_pool :: "block_obj BlockPool" where
  "example_pool = \<lparr>bp_block_size = 16, bp_pool_size = 2, bp_free_ids = [1],
     bp_pool = [\<lparr>bl_prev_block = None, bl_token_ids = [7], bl_block_size = 16, bl_block_id = Some 3\<rparr>,
                \<lparr>bl_prev_block = None, bl_token_ids = [], bl_block_size = 16, bl_block_id = None\<rparr>]\<rparr>"

theorem BlockPool_init_block_fresh_witness:
  "\<exists>p'. BlockPool_init_block example_factory example_pool (Some 0) [1, 2] 16 (Some 5) None = Inr (1, p') \<and>
     1 \<notin> pool_live example_pool"
proof -
  have ok: "pool_ok example_pool" by (simp add: pool_ok_def example_pool_def)
  obtain p' where r: "BlockPool_init_block example_factory example_pool (Some 0) [1, 2] 16 (Some 5) None = Inr (1, p')"
    by (simp add: BlockPool_init_block_def example_factory_def example_pool_def)
  from BlockPool_init_block_fresh[OF ok r] r show ?thesis by blast
qed

text \<open>The cached ids of a block list follow its blocks.\<close>

definition list_in_sync :: "'a block_obj_scheme BlockPool \<Rightarrow> BlockList \<Rightarrow> bool" where
  "list_in_sync p l \<longleftrightarrow> (\<forall>r \<in> set (bls_blocks l). r < length (bp_pool p)) \<and>
     map (\<lambda>r. bl_block_id (bp_pool p ! r)) (bls_blocks l) = map Some (bls_block_ids l)"

lemma block_id_of_InrD: "block_id_of p r = Inr i \<Longrightarrow> r < length (bp_pool p) \<and> i = bl_block_id (bp_pool p ! r)"
  by (auto simp: block_id_of_def pool_get_def split: if_splits)

lemma BlockList_update_sync:
  assumes "BlockList_update p l blocks = Inr l'"
  shows "list_in_sync p l' \<and> bls_blocks l' = blocks"
proof -
  have "res_fold (\<lambda>r l. res_bind (block_id_of p r) (BlockList_add_block_id l)) rs l = Inr l' \<Longrightarrow>
      bls_blocks l' = bls_blocks l \<and> (\<forall>r \<in> set rs. r < length (bp_pool p)) \<and>
      map Some (bls_block_ids l') = map Some (bls_block_ids l) @ map (\<lambda>r. bl_block_id (bp_pool p ! r)) rs" for rs l
  proof (induction rs arbitrary: l)
    case (Cons r rs)
    then obtain i l1 where "block_id_of p r = Inr i" "BlockList_add_block_id l i = Inr l1"
      "res_fold (\<lambda>r l. res_bind (block_id_of p r) (BlockList_add_block_id l)) rs l1 = Inr l'"
      by (auto simp: res_bind_Inr_iff)
    moreover from this obtain b where "i = Some b" "l1 = l\<lparr>bls_block_ids := bls_block_ids l @ [b]\<rparr>"
      by (auto simp: BlockList_add_block_id_def split: option.splits)
    ultimately show ?case using Cons.IH[of l1] by (auto dest!: block_id_of_InrD)
  qed simp
  from this[of blocks "l\<lparr>bls_blocks := blocks, bls_block_ids := []\<rparr>"] assms show ?thesis
    by (auto simp: BlockList_update_def list_in_sync_def)
qed

lemma BlockList_append_sync:
  assumes "list_in_sync p l" "BlockList_append p l r = Inr l'"
  shows "list_in_sync p l' \<and> bls_blocks l' = bls_blocks l @ [r]"
  using assms by (auto simp: BlockList_append_def BlockList_add_block_id_def list_in_sync_def
      dest!: block_id_of_InrD elim!: res_bind_InrE split: option.splits)

lemma BlockList_setitem_sync:
  assumes "list_in_sync p l" "BlockList_setitem p l k r = Inr l'"
  shows "list_in_sync p l' \<and> bls_blocks l' = (bls_blocks l)[k := r]"
proof -
  obtain b where b: "k < length (bls_blocks l)" "r < length (bp_pool p)" "bl_block_id (bp_pool p ! r) = Some b"
    "l' = l\<lparr>bls_blocks := (bls_blocks l)[k := r], bls_block_ids := (bls_block_ids l)[k := b]\<rparr>"
    using assms(2) by (auto simp: BlockList_setitem_def BlockList_update_block_id_def
        dest!: block_id_of_InrD elim!: res_bind_InrE split: option.splits if_splits)
  then show ?thesis using assms(1) by (auto simp: list_in_sync_def map_update dest: set_update_subset_insert[THEN subsetD])
qed

end
