(* ===== verification/Naive_Allocator.thy ===== *)
theory Naive_Allocator
  imports Block_Common
begin

text \<open>
  The classes NaiveBlockAllocator and NaiveBlock of vllm/core/block/naive_block.py: physical
  block ids with reference counts, block objects that point to them, sharing by fork, and copy
  on write when a shared block is appended to.
\<close>

record 'b NaiveBlockAllocator =
  na_free_block_indices :: "int list"
  na_all_block_indices :: "int list"
  na_refcounter :: RefCounter
  na_block_size :: int
  na_cow_tracker :: CopyOnWriteTracker
  na_block_pool :: "'b BlockPool"

section \<open>Naive blocks\<close>

definition num_empty_slots :: "'a block_obj_scheme \<Rightarrow> int" where
  "num_empty_slots b = bl_block_size b - int (length (bl_token_ids b))"

definition is_full :: "'a block_obj_scheme \<Rightarrow> bool" where
  "is_full b \<longleftrightarrow> num_empty_slots b = 0"

definition append_token_ids_no_cow :: "'a block_obj_scheme \<Rightarrow> int list \<Rightarrow> 'a block_obj_scheme result" where
  "append_token_ids_no_cow b token_ids =
     (if token_ids = [] then Inr b
      else if int (length token_ids) \<le> num_empty_slots b
           then Inr (b\<lparr>bl_token_ids := bl_token_ids b @ token_ids\<rparr>) else Inl AssertionError)"

definition NaiveBlock_init :: "block_obj block_factory" where
  "NaiveBlock_init pool prev_block token_ids block_size block_id extra_hash =
     append_token_ids_no_cow \<lparr>bl_prev_block = prev_block, bl_token_ids = [], bl_block_size = block_size,
       bl_block_id = block_id\<rparr> token_ids"

section \<open>Allocation of ids and objects\<close>

definition NaiveBlockAllocator_init ::
    "'b block_factory \<Rightarrow> int \<Rightarrow> int \<Rightarrow> int list option \<Rightarrow> 'b BlockPool option \<Rightarrow> 'b NaiveBlockAllocator result" where
  "NaiveBlockAllocator_init create_block num_blocks block_size block_ids block_pool =
     (let ids = (case block_ids of None \<Rightarrow> map int [0..<nat num_blocks] | Some l \<Rightarrow> l);
          all_ids = remdups ids
      in res_bind (py_assert (int (length all_ids) = num_blocks)) (\<lambda>_.
         res_bind (case block_pool of Some p \<Rightarrow> Inr p
                   | None \<Rightarrow> BlockPool_init create_block block_size (num_blocks * 4)) (\<lambda>pool.
           Inr \<lparr>na_free_block_indices = ids, na_all_block_indices = all_ids,
                na_refcounter = RefCounter_init ids, na_block_size = block_size,
                na_cow_tracker = CopyOnWriteTracker_init, na_block_pool = pool\<rparr>)))"

definition NaiveBlockAllocator_allocate_block_id ::
    "'b NaiveBlockAllocator \<Rightarrow> (int \<times> 'b NaiveBlockAllocator) result" where
  "NaiveBlockAllocator_allocate_block_id a =
     (case na_free_block_indices a of [] \<Rightarrow> Inl NoFreeBlocksError
      | block_id # free \<Rightarrow>
          res_bind (RefCounter_incr (na_refcounter a) block_id) (\<lambda>(_, rc).
            Inr (block_id, a\<lparr>na_free_block_indices := free, na_refcounter := rc\<rparr>)))"

definition NaiveBlockAllocator_init_block ::
    "'b block_factory \<Rightarrow> 'b NaiveBlockAllocator \<Rightarrow> block_ref option \<Rightarrow> int list \<Rightarrow> int option \<Rightarrow>
     (block_ref \<times> 'b NaiveBlockAllocator) result" where
  "NaiveBlockAllocator_init_block create_block a prev_block token_ids physical_block_id =
     res_bind (BlockPool_init_block create_block (na_block_pool a) prev_block token_ids (na_block_size a)
        physical_block_id None) (\<lambda>(r, p). Inr (r, a\<lparr>na_block_pool := p\<rparr>))"

definition NaiveBlockAllocator_allocate_mutable_block ::
    "'b block_factory \<Rightarrow> 'b NaiveBlockAllocator \<Rightarrow> block_ref option \<Rightarrow> (block_ref \<times> 'b NaiveBlockAllocator) result" where
  "NaiveBlockAllocator_allocate_mutable_block create_block a prev_block =
     res_bind (NaiveBlockAllocator_allocate_block_id a) (\<lambda>(block_id, a1).
       NaiveBlockAllocator_init_block create_block a1 prev_block [] (Some block_id))"

fun allocate_ids :: "'b NaiveBlockAllocator \<Rightarrow> nat \<Rightarrow> (int list \<times> 'b NaiveBlockAllocator) result" where
  "allocate_ids a 0 = Inr ([], a)"
| "allocate_ids a (Suc n) =
     res_bind (NaiveBlockAllocator_allocate_block_id a) (\<lambda>(b, a1).
     res_bind (allocate_ids a1 n) (\<lambda>(bs, a2). Inr (b # bs, a2)))"

fun init_blocks ::
    "'b block_factory \<Rightarrow> 'b NaiveBlockAllocator \<Rightarrow> block_ref option \<Rightarrow> (int list \<times> int) list \<Rightarrow>
     (block_ref list \<times> 'b NaiveBlockAllocator) result" where
  "init_blocks create_block a prev_block [] = Inr ([], a)"
| "init_blocks create_block a prev_block ((token_ids, block_id) # rest) =
     res_bind (NaiveBlockAllocator_init_block create_block a prev_block token_ids (Some block_id)) (\<lambda>(r, a1).
     res_bind (init_blocks create_block a1 (Some r) rest) (\<lambda>(rs, a2). Inr (r # rs, a2)))"

definition NaiveBlockAllocator_allocate_immutable_blocks ::
    "'b block_factory \<Rightarrow> 'b NaiveBlockAllocator \<Rightarrow> block_ref option \<Rightarrow> int list list \<Rightarrow>
     (block_ref list \<times> 'b NaiveBlockAllocator) result" where
  "NaiveBlockAllocator_allocate_immutable_blocks create_block a prev_block block_token_ids =
     res_bind (allocate_ids a (length block_token_ids)) (\<lambda>(block_ids, a1).
       init_blocks create_block a1 prev_block (zip block_token_ids block_ids))"

section \<open>Releasing ids and objects\<close>

definition NaiveBlockAllocator_free_block_id :: "'b NaiveBlockAllocator \<Rightarrow> int \<Rightarrow> 'b NaiveBlockAllocator result" where
  "NaiveBlockAllocator_free_block_id a block_id =
     res_bind (RefCounter_decr (na_refcounter a) block_id) (\<lambda>(refcount, rc).
       let a1 = a\<lparr>na_refcounter := rc\<rparr>
       in Inr (if refcount = 0 then a1\<lparr>na_free_block_indices := block_id # na_free_block_indices a1\<rparr> else a1))"

definition set_block_id :: "'a block_obj_scheme BlockPool \<Rightarrow> block_ref \<Rightarrow> int option \<Rightarrow> 'a block_obj_scheme BlockPool result" where
  "set_block_id p r i = res_bind (pool_get p r) (\<lambda>b. Inr (pool_set p r (b\<lparr>bl_block_id := i\<rparr>)))"

definition NaiveBlockAllocator_free_block_object_id ::
    "'a block_obj_scheme NaiveBlockAllocator \<Rightarrow> block_ref \<Rightarrow> 'a block_obj_scheme NaiveBlockAllocator result" where
  "NaiveBlockAllocator_free_block_object_id a block =
     res_bind (block_id_of (na_block_pool a) block) (\<lambda>i.
     res_bind (set_block_id (na_block_pool a) block None) (\<lambda>p.
       case i of None \<Rightarrow> Inl AssertionError
       | Some block_id \<Rightarrow> NaiveBlockAllocator_free_block_id (a\<lparr>na_block_pool := p\<rparr>) block_id))"

definition NaiveBlockAllocator_free ::
    "'a block_obj_scheme NaiveBlockAllocator \<Rightarrow> block_ref \<Rightarrow> bool \<Rightarrow> 'a block_obj_scheme NaiveBlockAllocator result" where
  "NaiveBlockAllocator_free a block keep_block_object =
     res_bind (NaiveBlockAllocator_free_block_object_id a block) (\<lambda>a1.
       Inr (if keep_block_object then a1
            else a1\<lparr>na_block_pool := BlockPool_free_block (na_block_pool a1) block\<rparr>))"

section \<open>Copy on write and appending\<close>

definition NaiveBlockAllocator_cow_block_if_not_appendable ::
    "'a block_obj_scheme NaiveBlockAllocator \<Rightarrow> block_ref \<Rightarrow> (int \<times> 'a block_obj_scheme NaiveBlockAllocator) result" where
  "NaiveBlockAllocator_cow_block_if_not_appendable a block =
     res_bind (block_id_of (na_block_pool a) block) (\<lambda>i.
       case i of None \<Rightarrow> Inl AssertionError
       | Some src_block_id \<Rightarrow>
           res_bind (CopyOnWriteTracker_is_appendable (na_refcounter a) i) (\<lambda>appendable.
             if appendable then Inr (src_block_id, a)
             else res_bind (NaiveBlockAllocator_free_block_object_id a block) (\<lambda>a1.
                  res_bind (NaiveBlockAllocator_allocate_block_id a1) (\<lambda>(trg_block_id, a2).
                  res_bind (CopyOnWriteTracker_record_cow (na_cow_tracker a2) (Some src_block_id) (Some trg_block_id)) (\<lambda>t.
                    Inr (trg_block_id, a2\<lparr>na_cow_tracker := t\<rparr>))))))"

definition NaiveBlock_append_token_ids ::
    "'a block_obj_scheme NaiveBlockAllocator \<Rightarrow> block_ref \<Rightarrow> int list \<Rightarrow> 'a block_obj_scheme NaiveBlockAllocator result" where
  "NaiveBlock_append_token_ids a block token_ids =
     res_bind (pool_get (na_block_pool a) block) (\<lambda>b.
     res_bind (append_token_ids_no_cow b token_ids) (\<lambda>b1.
       let a1 = a\<lparr>na_block_pool := pool_set (na_block_pool a) block b1\<rparr>
       in if bl_block_id b1 = None then Inr a1
          else res_bind (NaiveBlockAllocator_cow_block_if_not_appendable a1 block) (\<lambda>(block_id, a2).
               res_bind (set_block_id (na_block_pool a2) block (Some block_id)) (\<lambda>p.
                 Inr (a2\<lparr>na_block_pool := p\<rparr>)))))"

definition NaiveBlockAllocator_allocate_immutable_block ::
    "'a block_obj_scheme block_factory \<Rightarrow> 'a block_obj_scheme NaiveBlockAllocator \<Rightarrow> block_ref option \<Rightarrow> int list \<Rightarrow>
     (block_ref \<times> 'a block_obj_scheme NaiveBlockAllocator) result" where
  "NaiveBlockAllocator_allocate_immutable_block create_block a prev_block token_ids =
     res_bind (NaiveBlockAllocator_allocate_mutable_block create_block a prev_block) (\<lambda>(r, a1).
     res_bind (NaiveBlock_append_token_ids a1 r token_ids) (\<lambda>a2. Inr (r, a2)))"

definition NaiveBlockAllocator_clear_copy_on_writes ::
    "'b NaiveBlockAllocator \<Rightarrow> (int \<times> int) list \<times> 'b NaiveBlockAllocator" where
  "NaiveBlockAllocator_clear_copy_on_writes a =
     (case CopyOnWriteTracker_clear_cows (na_cow_tracker a) of (cows, t) \<Rightarrow> (cows, a\<lparr>na_cow_tracker := t\<rparr>))"

section \<open>Fork\<close>

fun fork_blocks ::
    "'a block_obj_scheme block_factory \<Rightarrow> block_ref option \<Rightarrow> block_ref list \<Rightarrow> 'a block_obj_scheme NaiveBlockAllocator \<Rightarrow>
     (block_ref list \<times> 'a block_obj_scheme NaiveBlockAllocator) result" where
  "fork_blocks create_block prev_block [] a = Inr ([], a)"
| "fork_blocks create_block prev_block (block # blocks) a =
     res_bind (pool_get (na_block_pool a) block) (\<lambda>b.
       case bl_block_id b of None \<Rightarrow> Inl AssertionError
       | Some block_id \<Rightarrow>
           res_bind (RefCounter_incr (na_refcounter a) block_id) (\<lambda>(refcount, rc).
           res_bind (py_assert (refcount \<noteq> 1)) (\<lambda>_.
           res_bind (NaiveBlockAllocator_init_block create_block (a\<lparr>na_refcounter := rc\<rparr>) prev_block
               (bl_token_ids b) (Some block_id)) (\<lambda>(forked_block, a1).
           res_bind (fork_blocks create_block (Some forked_block) blocks a1) (\<lambda>(forked_blocks, a2).
             Inr (forked_block # forked_blocks, a2))))))"

definition NaiveBlockAllocator_fork ::
    "'a block_obj_scheme block_factory \<Rightarrow> 'a block_obj_scheme NaiveBlockAllocator \<Rightarrow> block_ref \<Rightarrow>
     (block_ref list \<times> 'a block_obj_scheme NaiveBlockAllocator) result" where
  "NaiveBlockAllocator_fork create_block a last_block =
     res_bind (get_all_blocks_recursively (na_block_pool a) last_block) (\<lambda>source_blocks.
       fork_blocks create_block None source_blocks a)"

section \<open>Queries and swapping\<close>

definition NaiveBlockAllocator_get_num_free_blocks :: "'b NaiveBlockAllocator \<Rightarrow> nat" where
  "NaiveBlockAllocator_get_num_free_blocks a = length (na_free_block_indices a)"

definition NaiveBlockAllocator_get_num_total_blocks :: "'b NaiveBlockAllocator \<Rightarrow> nat" where
  "NaiveBlockAllocator_get_num_total_blocks a = length (na_all_block_indices a)"

fun list_index :: "'x list \<Rightarrow> 'x \<Rightarrow> nat result" where
  "list_index [] y = Inl ValueError"
| "list_index (x # xs) y = (if x = y then Inr 0 else res_bind (list_index xs y) (\<lambda>n. Inr (Suc n)))"

definition NaiveBlockAllocator_get_physical_block_id :: "'b NaiveBlockAllocator \<Rightarrow> int \<Rightarrow> nat result" where
  "NaiveBlockAllocator_get_physical_block_id a absolute_id = list_index (sort (na_all_block_indices a)) absolute_id"

definition NaiveBlockAllocator_get_num_full_blocks_touched ::
    "'a block_obj_scheme NaiveBlockAllocator \<Rightarrow> block_ref list \<Rightarrow> nat result" where
  "NaiveBlockAllocator_get_num_full_blocks_touched a blocks =
     res_bind (res_map (\<lambda>r. res_bind (pool_get (na_block_pool a) r) (\<lambda>b. Inr (r, is_full b))) blocks) (\<lambda>flags.
       Inr (length (remdups (map fst (filter snd flags)))))"

definition NaiveBlockAllocator_mark_blocks_as_accessed :: "'b NaiveBlockAllocator \<Rightarrow> int list \<Rightarrow> 'b NaiveBlockAllocator" where
  "NaiveBlockAllocator_mark_blocks_as_accessed a block_ids = a"

definition NaiveBlockAllocator_mark_blocks_as_computed :: "'b NaiveBlockAllocator \<Rightarrow> int list \<Rightarrow> 'b NaiveBlockAllocator" where
  "NaiveBlockAllocator_mark_blocks_as_computed a block_ids = a"

definition NaiveBlockAllocator_get_common_computed_block_ids :: "int list list \<Rightarrow> int list" where
  "NaiveBlockAllocator_get_common_computed_block_ids computed_seq_block_ids = []"

definition NaiveBlockAllocator_promote_to_immutable_block :: "'b NaiveBlockAllocator \<Rightarrow> block_ref \<Rightarrow> int result" where
  "NaiveBlockAllocator_promote_to_immutable_block a block = Inl NotImplementedError"

definition NaiveBlockAllocator_find_cached_blocks_prefix :: "'b NaiveBlockAllocator \<Rightarrow> int list \<Rightarrow> int list" where
  "NaiveBlockAllocator_find_cached_blocks_prefix a block_hashes = []"

definition NaiveBlockAllocator_get_prefix_cache_hit_rate :: "'b NaiveBlockAllocator \<Rightarrow> rat" where
  "NaiveBlockAllocator_get_prefix_cache_hit_rate a = - 1"

definition NaiveBlockAllocator_reset_prefix_cache :: "'b NaiveBlockAllocator \<Rightarrow> bool \<times> 'b NaiveBlockAllocator" where
  "NaiveBlockAllocator_reset_prefix_cache a = (True, a)"

definition NaiveBlockAllocator_swap_out ::
    "'a block_obj_scheme NaiveBlockAllocator \<Rightarrow> block_ref list \<Rightarrow> 'a block_obj_scheme NaiveBlockAllocator result" where
  "NaiveBlockAllocator_swap_out a blocks =
     res_fold (\<lambda>block a. NaiveBlockAllocator_free_block_object_id a block) blocks a"

definition naive_swap_in_block ::
    "'a block_obj_scheme block_factory \<Rightarrow> block_ref \<Rightarrow> 'a block_obj_scheme NaiveBlockAllocator \<Rightarrow>
     'a block_obj_scheme NaiveBlockAllocator result" where
  "naive_swap_in_block create_block block a =
     res_bind (pool_get (na_block_pool a) block) (\<lambda>b.
     res_bind (if is_full b
               then NaiveBlockAllocator_allocate_immutable_block create_block a (bl_prev_block b) (bl_token_ids b)
               else res_bind (NaiveBlockAllocator_allocate_mutable_block create_block a (bl_prev_block b)) (\<lambda>(r, a1).
                    res_bind (NaiveBlock_append_token_ids a1 r (bl_token_ids b)) (\<lambda>a2. Inr (r, a2))))
       (\<lambda>(tmp_block, a1).
     res_bind (block_id_of (na_block_pool a1) tmp_block) (\<lambda>block_id.
     res_bind (set_block_id (na_block_pool a1) tmp_block None) (\<lambda>p.
     res_bind (set_block_id (BlockPool_free_block p tmp_block) block block_id) (\<lambda>p'.
       Inr (a1\<lparr>na_block_pool := p'\<rparr>))))))"

definition NaiveBlockAllocator_swap_in ::
    "'a block_obj_scheme block_factory \<Rightarrow> 'a block_obj_scheme NaiveBlockAllocator \<Rightarrow> block_ref list \<Rightarrow>
     'a block_obj_scheme NaiveBlockAllocator result" where
  "NaiveBlockAllocator_swap_in create_block a blocks = res_fold (naive_swap_in_block create_block) blocks a"

section \<open>The interface: a source of block ids\<close>

text \<open>
  What the block manager relies on when it asks how many blocks are free before it allocates:
  allocation hands out an id that nothing refers to, counts one reference to it, touches no
  other id, and fails exactly when no block is free.
\<close>

locale block_source =
  fixes inv :: "'s \<Rightarrow> bool"
    and refs :: "'s \<Rightarrow> int \<Rightarrow> int option"
    and num_free :: "'s \<Rightarrow> nat"
    and alloc :: "rat \<Rightarrow> 's \<Rightarrow> (int \<times> 's) result"
  assumes alloc_law: "inv s \<Longrightarrow> 0 < num_free s \<Longrightarrow> \<exists>b s'. alloc now s = Inr (b, s') \<and> inv s' \<and>
      refs s b = Some 0 \<and> refs s' = (refs s)(b \<mapsto> 1) \<and> Suc (num_free s') = num_free s"
    and alloc_none: "inv s \<Longrightarrow> num_free s = 0 \<Longrightarrow> alloc now s = Inl NoFreeBlocksError"
begin

fun alloc_many :: "rat list \<Rightarrow> 's \<Rightarrow> (int list \<times> 's) result" where
  "alloc_many [] s = Inr ([], s)"
| "alloc_many (now # nows) s = res_bind (alloc now s) (\<lambda>(b, s1).
     res_bind (alloc_many nows s1) (\<lambda>(bs, s2). Inr (b # bs, s2)))"

lemma alloc_many_enough:
  "inv s \<Longrightarrow> length nows \<le> num_free s \<Longrightarrow> \<exists>bs s'. alloc_many nows s = Inr (bs, s') \<and> inv s' \<and>
     distinct bs \<and> length bs = length nows \<and> (\<forall>b \<in> set bs. refs s b = Some 0) \<and>
     refs s' = (\<lambda>b. if b \<in> set bs then Some 1 else refs s b) \<and> num_free s' = num_free s - length nows"
proof (induction nows arbitrary: s)
  case (Cons now nows)
  have "0 < num_free s" using Cons.prems(2) by simp
  from alloc_law[OF Cons.prems(1) this, of now] obtain b s1 where b: "alloc now s = Inr (b, s1)" "inv s1"
    "refs s b = Some 0" "refs s1 = (refs s)(b \<mapsto> 1)" "Suc (num_free s1) = num_free s" by blast
  have "length nows \<le> num_free s1" using Cons.prems(2) b(5) by simp
  from Cons.IH[OF b(2) this] obtain bs s' where r: "alloc_many nows s1 = Inr (bs, s')" "inv s'" "distinct bs"
    "length bs = length nows" "\<forall>c \<in> set bs. refs s1 c = Some 0"
    "refs s' = (\<lambda>c. if c \<in> set bs then Some 1 else refs s1 c)" "num_free s' = num_free s1 - length nows" by blast
  have nb: "b \<notin> set bs" using r(5) b(4) by auto
  have "\<forall>c \<in> set bs. refs s c = Some 0" using r(5) b(4) nb by (auto split: if_splits)
  then show ?case using b r nb by (intro exI[of _ "b # bs"] exI[of _ s']) (auto simp: fun_eq_iff)
qed simp

lemma alloc_many_short:
  "inv s \<Longrightarrow> num_free s < length nows \<Longrightarrow> alloc_many nows s = Inl NoFreeBlocksError"
proof (induction nows arbitrary: s)
  case (Cons now nows)
  show ?case
  proof (cases "num_free s = 0")
    case True
    then show ?thesis using alloc_none[OF Cons.prems(1)] by simp
  next
    case False
    then obtain b s1 where "alloc now s = Inr (b, s1)" "inv s1" "Suc (num_free s1) = num_free s"
      using alloc_law[OF Cons.prems(1), of now] by blast
    then show ?thesis using Cons.IH[of s1] Cons.prems(2) by simp
  qed
qed simp

end

section \<open>Invariant\<close>

definition ids_ok :: "'b NaiveBlockAllocator \<Rightarrow> bool" where
  "ids_ok a \<longleftrightarrow> distinct (na_free_block_indices a) \<and> distinct (na_all_block_indices a) \<and>
     rc_ok (na_refcounter a) \<and> dom (dict_get (na_refcounter a)) = set (na_all_block_indices a)"

definition na_inv :: "'b NaiveBlockAllocator \<Rightarrow> bool" where
  "na_inv a \<longleftrightarrow> ids_ok a \<and> set (na_free_block_indices a) = {b. dict_get (na_refcounter a) b = Some 0} \<and>
     pool_ok (na_block_pool a) \<and> 0 < bp_pool_size (na_block_pool a)"

definition na_refs :: "'b NaiveBlockAllocator \<Rightarrow> int \<Rightarrow> int option" where
  "na_refs a = dict_get (na_refcounter a)"

lemma na_inv_init:
  assumes "NaiveBlockAllocator_init f n sz ids p = Inr a" "\<forall>l. ids = Some l \<longrightarrow> distinct l"
    "0 < n" "\<forall>q. p = Some q \<longrightarrow> pool_ok q \<and> 0 < bp_pool_size q"
  shows "na_inv a"
proof -
  obtain l pool where l: "distinct l" "a = \<lparr>na_free_block_indices = l, na_all_block_indices = remdups l,
      na_refcounter = RefCounter_init l, na_block_size = sz, na_cow_tracker = CopyOnWriteTracker_init, na_block_pool = pool\<rparr>"
    "(case p of Some p \<Rightarrow> Inr p | None \<Rightarrow> BlockPool_init f sz (n * 4)) = Inr pool"
  proof (rule that)
    let ?l = "case ids of None \<Rightarrow> map int [0..<nat n] | Some l \<Rightarrow> l"
    show "distinct ?l" using assms(2) by (auto simp: distinct_map split: option.splits)
    obtain pool where pl: "(case p of Some p \<Rightarrow> Inr p | None \<Rightarrow> BlockPool_init f sz (n * 4)) = Inr pool"
      using assms(1) by (auto simp: NaiveBlockAllocator_init_def Let_def elim!: res_bind_InrE)
    then show "(case p of Some p \<Rightarrow> Inr p | None \<Rightarrow> BlockPool_init f sz (n * 4)) = Inr (na_block_pool a)"
      using assms(1) by (auto simp: NaiveBlockAllocator_init_def Let_def elim!: res_bind_InrE)
    show "a = \<lparr>na_free_block_indices = ?l, na_all_block_indices = remdups ?l,
      na_refcounter = RefCounter_init ?l, na_block_size = sz, na_cow_tracker = CopyOnWriteTracker_init,
      na_block_pool = na_block_pool a\<rparr>"
      using assms(1) by (auto simp: NaiveBlockAllocator_init_def Let_def elim!: res_bind_InrE)
  qed
  have "pool_ok pool \<and> 0 < bp_pool_size pool"
  proof (cases p)
    case None
    then have i: "BlockPool_init f sz (n * 4) = Inr pool" using l(3) by simp
    then have "bp_pool_size pool = nat (n * 4)" by (auto simp: BlockPool_init_def elim!: res_bind_InrE)
    then show ?thesis using pool_ok_init[OF i] assms(3) by simp
  next
    case (Some q)
    then show ?thesis using l(3) assms(4) by simp
  qed
  moreover have "dom (dict_get (RefCounter_init l)) = set l" by (auto simp: RefCounter_init_get dom_def)
  moreover have "set l = {b. dict_get (RefCounter_init l) b = Some 0}" by (auto simp: RefCounter_init_get)
  ultimately show ?thesis using l(1,2) rc_ok_init[of l] by (simp add: na_inv_def ids_ok_def)
qed

lemma allocate_block_id_ok:
  assumes "na_inv a" "na_free_block_indices a = b # free"
  shows "NaiveBlockAllocator_allocate_block_id a =
      Inr (b, a\<lparr>na_free_block_indices := free, na_refcounter := dict_set b 1 (na_refcounter a)\<rparr>)"
    "na_refs a b = Some 0"
    "na_inv (a\<lparr>na_free_block_indices := free, na_refcounter := dict_set b 1 (na_refcounter a)\<rparr>)"
proof -
  have z: "dict_get (na_refcounter a) b = Some 0" and rc: "rc_ok (na_refcounter a)"
    and eq: "insert b (set free) = {c. dict_get (na_refcounter a) c = Some 0}"
    and d: "distinct (b # free)" and dm: "dom (dict_get (na_refcounter a)) = set (na_all_block_indices a)"
    using assms by (auto simp: na_inv_def ids_ok_def)
  from incr_ok[OF rc z] show "NaiveBlockAllocator_allocate_block_id a =
      Inr (b, a\<lparr>na_free_block_indices := free, na_refcounter := dict_set b 1 (na_refcounter a)\<rparr>)"
    using assms(2) by (simp add: NaiveBlockAllocator_allocate_block_id_def)
  show "na_refs a b = Some 0" using z by (simp add: na_refs_def)
  have "set free = {c. ((dict_get (na_refcounter a))(b \<mapsto> 1)) c = Some 0}" using eq d by (auto split: if_splits)
  moreover have "b \<in> set (na_all_block_indices a)" using z dm by auto
  ultimately show "na_inv (a\<lparr>na_free_block_indices := free, na_refcounter := dict_set b 1 (na_refcounter a)\<rparr>)"
    using assms d dm incr_ok(2)[OF rc z] by (auto simp: na_inv_def ids_ok_def insert_absorb)
qed

interpretation naive_source: block_source na_inv na_refs NaiveBlockAllocator_get_num_free_blocks
  "\<lambda>now. NaiveBlockAllocator_allocate_block_id"
proof
  fix a :: "'a NaiveBlockAllocator"
  assume i: "na_inv a"
  show "\<exists>b a'. NaiveBlockAllocator_allocate_block_id a = Inr (b, a') \<and> na_inv a' \<and> na_refs a b = Some 0 \<and>
      na_refs a' = (na_refs a)(b \<mapsto> 1) \<and>
      Suc (NaiveBlockAllocator_get_num_free_blocks a') = NaiveBlockAllocator_get_num_free_blocks a"
    if "0 < NaiveBlockAllocator_get_num_free_blocks a"
  proof -
    obtain b free where f: "na_free_block_indices a = b # free"
      using \<open>0 < NaiveBlockAllocator_get_num_free_blocks a\<close>
      by (cases "na_free_block_indices a") (auto simp: NaiveBlockAllocator_get_num_free_blocks_def)
    from allocate_block_id_ok[OF i f] f show ?thesis
      by (auto simp: na_refs_def NaiveBlockAllocator_get_num_free_blocks_def)
  qed
  show "NaiveBlockAllocator_allocate_block_id a = Inl NoFreeBlocksError"
    if "NaiveBlockAllocator_get_num_free_blocks a = 0"
    using that by (simp add: NaiveBlockAllocator_get_num_free_blocks_def NaiveBlockAllocator_allocate_block_id_def)
qed

lemma allocate_ids_many: "allocate_ids a (length nows) = naive_source.alloc_many nows a"
  by (induction nows arbitrary: a) (auto intro!: arg_cong2[of _ _ _ _ res_bind])

lemma free_block_id_ok:
  assumes "na_inv a" "na_refs a b = Some n" "0 < n"
  shows "\<exists>a'. NaiveBlockAllocator_free_block_id a b = Inr a' \<and> na_inv a' \<and> na_refs a' = (na_refs a)(b \<mapsto> n - 1) \<and>
     na_block_pool a' = na_block_pool a \<and> na_cow_tracker a' = na_cow_tracker a \<and> na_block_size a' = na_block_size a \<and>
     na_free_block_indices a' = (if n = 1 then b # na_free_block_indices a else na_free_block_indices a)"
proof -
  have g: "dict_get (na_refcounter a) b = Some n" and rc: "rc_ok (na_refcounter a)"
    and eq: "set (na_free_block_indices a) = {c. dict_get (na_refcounter a) c = Some 0}"
    and dm: "dom (dict_get (na_refcounter a)) = set (na_all_block_indices a)"
    using assms by (auto simp: na_inv_def ids_ok_def na_refs_def)
  note d = decr_ok[OF rc g assms(3)]
  have nf: "b \<notin> set (na_free_block_indices a)" using eq g assms(3) by auto
  have b: "b \<in> set (na_all_block_indices a)" using g dm by auto
  let ?a = "a\<lparr>na_refcounter := dict_set b (n - 1) (na_refcounter a),
     na_free_block_indices := (if n = 1 then b # na_free_block_indices a else na_free_block_indices a)\<rparr>"
  have "na_inv ?a" using assms(1) d(2) nf b eq dm by (auto simp: na_inv_def ids_ok_def insert_absorb)
  then show ?thesis using d(1)
    by (intro exI[of _ ?a]) (auto simp: NaiveBlockAllocator_free_block_id_def na_refs_def Let_def)
qed

lemma free_block_id_error:
  assumes "na_inv a" "na_refs a b \<noteq> None \<Longrightarrow> na_refs a b = Some 0"
  shows "NaiveBlockAllocator_free_block_id a b = Inl AssertionError"
  using assms by (auto simp: NaiveBlockAllocator_free_block_id_def RefCounter_decr_def na_refs_def split: option.splits)

section \<open>Objects\<close>

lemma pool_get_ok [simp]: "r < length (bp_pool p) \<Longrightarrow> pool_get p r = Inr (bp_pool p ! r)"
  by (simp add: pool_get_def)

lemma block_id_of_ok [simp]: "r < length (bp_pool p) \<Longrightarrow> block_id_of p r = Inr (bl_block_id (bp_pool p ! r))"
  by (simp add: block_id_of_def)

lemma set_block_id_ok [simp]:
  "r < length (bp_pool p) \<Longrightarrow> set_block_id p r i = Inr (pool_set p r ((bp_pool p ! r)\<lparr>bl_block_id := i\<rparr>))"
  by (simp add: set_block_id_def)

lemma pool_set_simps [simp]:
  "pool_ok (pool_set p r b) = pool_ok p" "pool_live (pool_set p r b) = pool_live p"
  "bp_pool_size (pool_set p r b) = bp_pool_size p" "length (bp_pool (pool_set p r b)) = length (bp_pool p)"
  "bp_free_ids (pool_set p r b) = bp_free_ids p" "bp_block_size (pool_set p r b) = bp_block_size p"
  "r < length (bp_pool p) \<Longrightarrow> bp_pool (pool_set p r b) ! r = b"
  "q \<noteq> r \<Longrightarrow> bp_pool (pool_set p r b) ! q = bp_pool p ! q"
  "pool_set (pool_set p r b) r c = pool_set p r c"
  by (simp_all add: pool_set_def pool_ok_def pool_live_def)

lemma na_inv_pool:
  "na_inv a \<Longrightarrow> pool_ok p \<Longrightarrow> 0 < bp_pool_size p \<Longrightarrow> na_inv (a\<lparr>na_block_pool := p\<rparr>)"
  "na_inv (a\<lparr>na_cow_tracker := t\<rparr>) = na_inv a"
  by (simp_all add: na_inv_def ids_ok_def)

lemma na_inv_poolD: "na_inv a \<Longrightarrow> pool_ok (na_block_pool a)" "na_inv a \<Longrightarrow> 0 < bp_pool_size (na_block_pool a)"
  by (simp_all add: na_inv_def)

lemma live_ref: "na_inv a \<Longrightarrow> r \<in> pool_live (na_block_pool a) \<Longrightarrow> r < length (bp_pool (na_block_pool a))"
  by (simp add: na_inv_def pool_ok_def pool_live_def)

lemma free_object_id_ok:
  fixes a :: "'a block_obj_scheme NaiveBlockAllocator"
  assumes "na_inv a" "r < length (bp_pool (na_block_pool a))"
    "bl_block_id (bp_pool (na_block_pool a) ! r) = Some b" "na_refs a b = Some n" "0 < n"
  shows "\<exists>a'. NaiveBlockAllocator_free_block_object_id a r = Inr a' \<and> na_inv a' \<and> na_refs a' = (na_refs a)(b \<mapsto> n - 1) \<and>
     na_block_pool a' = pool_set (na_block_pool a) r ((bp_pool (na_block_pool a) ! r)\<lparr>bl_block_id := None\<rparr>) \<and>
     na_cow_tracker a' = na_cow_tracker a \<and> na_block_size a' = na_block_size a \<and>
     na_free_block_indices a' = (if n = 1 then b # na_free_block_indices a else na_free_block_indices a)"
proof -
  let ?p = "pool_set (na_block_pool a) r ((bp_pool (na_block_pool a) ! r)\<lparr>bl_block_id := None\<rparr>)"
  have i: "na_inv (a\<lparr>na_block_pool := ?p\<rparr>)" using na_inv_poolD[OF assms(1)] by (intro na_inv_pool(1)[OF assms(1)]) simp_all
  have g: "na_refs (a\<lparr>na_block_pool := ?p\<rparr>) b = Some n" using assms(4) by (simp add: na_refs_def)
  from free_block_id_ok[OF i g assms(5)] show ?thesis
    using assms(2,3) by (auto simp: NaiveBlockAllocator_free_block_object_id_def na_refs_def)
qed

text \<open>
  Appending to a block of the sequence. Either the physical block has this object as its only
  reference and keeps its id, or it is shared and the object moves to a fresh id.
\<close>

definition append_outcome ::
    "'a block_obj_scheme NaiveBlockAllocator \<Rightarrow> block_ref \<Rightarrow> int list \<Rightarrow> int \<Rightarrow> int \<Rightarrow> 'a block_obj_scheme NaiveBlockAllocator \<Rightarrow> bool" where
  "append_outcome a r toks b n a' \<longleftrightarrow>
     (let old = bp_pool (na_block_pool a) ! r; new = bp_pool (na_block_pool a') ! r in
      na_inv a' \<and> bl_token_ids new = bl_token_ids old @ toks \<and>
      (\<forall>q. q \<noteq> r \<longrightarrow> bp_pool (na_block_pool a') ! q = bp_pool (na_block_pool a) ! q) \<and>
      (if n \<le> 1 then bl_block_id new = Some b \<and> na_refs a' = na_refs a \<and> na_cow_tracker a' = na_cow_tracker a
       else \<exists>c. bl_block_id new = Some c \<and> c \<noteq> b \<and> na_refs a c = Some 0 \<and>
              na_refs a' = (na_refs a)(b \<mapsto> n - 1, c \<mapsto> 1) \<and>
              copy_on_writes (na_cow_tracker a') = copy_on_writes (na_cow_tracker a) @ [(b, c)]))"

lemma block_id_same: "bl_block_id b = i \<Longrightarrow> b\<lparr>bl_block_id := i\<rparr> = b"
  by (cases b) simp

lemma append_token_ids_ok:
  fixes a :: "'a block_obj_scheme NaiveBlockAllocator"
  assumes inv: "na_inv a" and r: "r < length (bp_pool (na_block_pool a))"
    and b: "bl_block_id (bp_pool (na_block_pool a) ! r) = Some b" and n: "na_refs a b = Some n" "0 < n"
    and fits: "int (length toks) \<le> num_empty_slots (bp_pool (na_block_pool a) ! r)"
    and room: "1 < n \<Longrightarrow> 0 < NaiveBlockAllocator_get_num_free_blocks a"
  shows "\<exists>a'. NaiveBlock_append_token_ids a r toks = Inr a' \<and> append_outcome a r toks b n a'"
proof -
  let ?p = "na_block_pool a"
  let ?b1 = "(bp_pool ?p ! r)\<lparr>bl_token_ids := bl_token_ids (bp_pool ?p ! r) @ toks\<rparr>"
  have nc: "append_token_ids_no_cow (bp_pool ?p ! r) toks = Inr ?b1"
    using fits by (simp add: append_token_ids_no_cow_def)
  let ?a1 = "a\<lparr>na_block_pool := pool_set ?p r ?b1\<rparr>"
  have i1: "na_inv ?a1" using na_inv_poolD[OF inv] by (intro na_inv_pool(1)[OF inv]) simp_all
  have rf1: "na_refs ?a1 = na_refs a" by (simp add: na_refs_def)
  have get: "RefCounter_get (na_refcounter a) b = Inr n" using n(1) by (simp add: RefCounter_get_def na_refs_def)
  show ?thesis
  proof (cases "n \<le> 1")
    case True
    have same: "?b1\<lparr>bl_block_id := Some b\<rparr> = ?b1" using b by (intro block_id_same) simp
    have "NaiveBlock_append_token_ids a r toks = Inr (a\<lparr>na_block_pool := pool_set ?p r (?b1\<lparr>bl_block_id := Some b\<rparr>)\<rparr>)"
      using r b nc get True
      by (simp add: NaiveBlock_append_token_ids_def NaiveBlockAllocator_cow_block_if_not_appendable_def
          CopyOnWriteTracker_is_appendable_def ReadOnlyRefCounter_get_def Let_def)
    then have "NaiveBlock_append_token_ids a r toks = Inr ?a1" unfolding same .
    then show ?thesis using i1 rf1 r b True by (auto simp: append_outcome_def Let_def)
  next
    case False
    obtain a2 where a2: "NaiveBlockAllocator_free_block_object_id ?a1 r = Inr a2" "na_inv a2"
      "na_refs a2 = (na_refs a)(b \<mapsto> n - 1)" "na_block_pool a2 = pool_set ?p r (?b1\<lparr>bl_block_id := None\<rparr>)"
      "na_cow_tracker a2 = na_cow_tracker a" "na_free_block_indices a2 = na_free_block_indices a"
      using free_object_id_ok[OF i1, of r b n] r b n False rf1 by auto
    obtain c free where f: "na_free_block_indices a = c # free"
      using room False by (cases "na_free_block_indices a") (auto simp: NaiveBlockAllocator_get_num_free_blocks_def)
    let ?a3 = "a2\<lparr>na_free_block_indices := free, na_refcounter := dict_set c 1 (na_refcounter a2)\<rparr>"
    have al: "NaiveBlockAllocator_allocate_block_id a2 = Inr (c, ?a3)" "na_refs a2 c = Some 0" "na_inv ?a3"
      using allocate_block_id_ok[OF a2(2), of c free] a2(6) f by simp_all
    have cb: "c \<noteq> b" using al(2) a2(3) False by auto
    let ?t = "(na_cow_tracker a)\<lparr>copy_on_writes := copy_on_writes (na_cow_tracker a) @ [(b, c)]\<rparr>"
    let ?a' = "?a3\<lparr>na_cow_tracker := ?t, na_block_pool := pool_set ?p r (?b1\<lparr>bl_block_id := Some c\<rparr>)\<rparr>"
    have cow: "NaiveBlockAllocator_cow_block_if_not_appendable ?a1 r = Inr (c, ?a3\<lparr>na_cow_tracker := ?t\<rparr>)"
      using r b get False a2(1,5) al(1)
      by (simp add: NaiveBlockAllocator_cow_block_if_not_appendable_def CopyOnWriteTracker_is_appendable_def
          ReadOnlyRefCounter_get_def CopyOnWriteTracker_record_cow_def)
    have res: "NaiveBlock_append_token_ids a r toks = Inr ?a'"
      using r b nc cow a2(4) by (simp add: NaiveBlock_append_token_ids_def Let_def)
    have "na_inv (?a3\<lparr>na_cow_tracker := ?t\<rparr>)" using al(3) by (simp add: na_inv_pool(2))
    from na_inv_pool(1)[OF this] have "na_inv ?a'" using na_inv_poolD[OF inv] by simp
    moreover have "na_refs ?a' = (na_refs a)(b \<mapsto> n - 1, c \<mapsto> 1)" using a2(3) by (simp add: na_refs_def)
    moreover have "na_refs a c = Some 0" using al(2) a2(3) cb by simp
    ultimately show ?thesis using res r cb False
      by (intro exI[of _ ?a']) (auto simp: append_outcome_def Let_def)
  qed
qed

section \<open>Creating chains of blocks\<close>

lemma NaiveBlock_init_ok:
  "int (length toks) \<le> sz \<or> toks = [] \<Longrightarrow> NaiveBlock_init pool prev toks sz i x =
     Inr \<lparr>bl_prev_block = prev, bl_token_ids = toks, bl_block_size = sz, bl_block_id = i\<rparr>"
  by (auto simp: NaiveBlock_init_def append_token_ids_no_cow_def num_empty_slots_def)

lemma grow_pool_naive: "\<exists>pool'. grow_pool NaiveBlock_init sz n pool = Inr pool'"
  by (induction n arbitrary: pool) (auto simp: NaiveBlock_init_ok)

lemma naive_init_block_total:
  assumes "pool_ok p" "0 < bp_pool_size p" "int (length toks) \<le> sz \<or> toks = []"
  shows "\<exists>r p'. BlockPool_init_block NaiveBlock_init p prev toks sz i x = Inr (r, p')"
proof -
  obtain p1 where p1: "(if bp_free_ids p = [] then BlockPool_increase_pool NaiveBlock_init p else Inr p) = Inr p1"
    "pool_ok p1" "bp_free_ids p1 \<noteq> []"
  proof (cases "bp_free_ids p = []")
    case True
    obtain pool where g: "grow_pool NaiveBlock_init (bp_block_size p) (bp_pool_size p * 2 - bp_pool_size p) (bp_pool p) = Inr pool"
      using grow_pool_naive by blast
    let ?q = "p\<lparr>bp_pool_size := bp_pool_size p * 2, bp_free_ids := bp_free_ids p @ [bp_pool_size p..<bp_pool_size p * 2], bp_pool := pool\<rparr>"
    have q: "BlockPool_increase_pool NaiveBlock_init p = Inr ?q" using g by (simp add: BlockPool_increase_pool_def Let_def)
    show ?thesis using that[of ?q] True q increase_pool_ok(1)[OF assms(1) q] assms(2) by simp
  qed (use that[of p] assms(1) in simp)
  obtain r free where r: "bp_free_ids p1 = r # free" using p1(3) by (cases "bp_free_ids p1") auto
  then have "r < length (bp_pool p1)" using p1(2) by (auto simp: pool_ok_def)
  then show ?thesis using p1(1) r assms(3) by (simp add: BlockPool_init_block_def NaiveBlock_init_ok)
qed

lemma naive_init_block_ok:
  fixes a :: "block_obj NaiveBlockAllocator"
  assumes "na_inv a" "int (length toks) \<le> na_block_size a \<or> toks = []"
  shows "\<exists>r p. NaiveBlockAllocator_init_block NaiveBlock_init a prev toks i = Inr (r, a\<lparr>na_block_pool := p\<rparr>) \<and>
     na_inv (a\<lparr>na_block_pool := p\<rparr>) \<and> r \<notin> pool_live (na_block_pool a) \<and> pool_live p = insert r (pool_live (na_block_pool a)) \<and>
     (\<forall>q \<in> pool_live (na_block_pool a). bp_pool p ! q = bp_pool (na_block_pool a) ! q) \<and>
     bp_pool p ! r = \<lparr>bl_prev_block = prev, bl_token_ids = toks, bl_block_size = na_block_size a, bl_block_id = i\<rparr>"
proof -
  obtain r p where i: "BlockPool_init_block NaiveBlock_init (na_block_pool a) prev toks (na_block_size a) i None = Inr (r, p)"
    using naive_init_block_total[OF na_inv_poolD[OF assms(1)] assms(2)] by blast
  note k = init_block_ok[OF na_inv_poolD(1)[OF assms(1)] i]
  have "0 < bp_pool_size p" using k(1,6) by (simp add: pool_ok_def)
  then have "na_inv (a\<lparr>na_block_pool := p\<rparr>)" using na_inv_pool(1)[OF assms(1) k(1)] by simp
  moreover have "bp_pool p ! r = \<lparr>bl_prev_block = prev, bl_token_ids = toks, bl_block_size = na_block_size a, bl_block_id = i\<rparr>"
    using k(5) NaiveBlock_init_ok[OF assms(2)] by auto
  ultimately show ?thesis using i k by (auto simp: NaiveBlockAllocator_init_block_def)
qed

text \<open>A list of fresh objects, linked to each other and to a previous block.\<close>

fun linked :: "block_obj list \<Rightarrow> int \<Rightarrow> block_ref option \<Rightarrow> (int list \<times> int) list \<Rightarrow> block_ref list \<Rightarrow> bool" where
  "linked pool sz prev [] [] = True"
| "linked pool sz prev ((toks, i) # spec) (r # rs) \<longleftrightarrow>
     pool ! r = \<lparr>bl_prev_block = prev, bl_token_ids = toks, bl_block_size = sz, bl_block_id = Some i\<rparr> \<and>
     linked pool sz (Some r) spec rs"
| "linked pool sz prev spec rs = False"

lemma linked_cong: "\<forall>q \<in> set rs. pool ! q = pool' ! q \<Longrightarrow> linked pool sz prev spec rs = linked pool' sz prev spec rs"
  by (induction pool sz prev spec rs rule: linked.induct) auto

lemma linked_length: "linked pool sz prev spec rs \<Longrightarrow> length rs = length spec"
  by (induction pool sz prev spec rs rule: linked.induct) auto

lemma init_blocks_ok:
  fixes a :: "block_obj NaiveBlockAllocator"
  assumes "na_inv a" "\<forall>(toks, i) \<in> set spec. int (length toks) \<le> na_block_size a"
  shows "\<exists>rs p. init_blocks NaiveBlock_init a prev spec = Inr (rs, a\<lparr>na_block_pool := p\<rparr>) \<and> na_inv (a\<lparr>na_block_pool := p\<rparr>) \<and>
     distinct rs \<and> set rs \<inter> pool_live (na_block_pool a) = {} \<and> pool_live p = set rs \<union> pool_live (na_block_pool a) \<and>
     (\<forall>q \<in> pool_live (na_block_pool a). bp_pool p ! q = bp_pool (na_block_pool a) ! q) \<and>
     linked (bp_pool p) (na_block_size a) prev spec rs"
  using assms
proof (induction spec arbitrary: a prev)
  case Nil
  show ?case by (intro exI[of _ "[]"] exI[of _ "na_block_pool a"]) (simp add: Nil)
next
  case (Cons ti spec)
  obtain toks i where ti: "ti = (toks, i)" by (cases ti)
  have fit: "int (length toks) \<le> na_block_size a \<or> toks = []" using Cons.prems(2) ti by auto
  obtain r p1 where r: "NaiveBlockAllocator_init_block NaiveBlock_init a prev toks (Some i) = Inr (r, a\<lparr>na_block_pool := p1\<rparr>)"
    "na_inv (a\<lparr>na_block_pool := p1\<rparr>)" "r \<notin> pool_live (na_block_pool a)"
    "pool_live p1 = insert r (pool_live (na_block_pool a))"
    "\<forall>q \<in> pool_live (na_block_pool a). bp_pool p1 ! q = bp_pool (na_block_pool a) ! q"
    "bp_pool p1 ! r = \<lparr>bl_prev_block = prev, bl_token_ids = toks, bl_block_size = na_block_size a, bl_block_id = Some i\<rparr>"
    using naive_init_block_ok[OF Cons.prems(1) fit, of prev "Some i"] by blast
  let ?a = "a\<lparr>na_block_pool := p1\<rparr>"
  obtain rs p where rs: "init_blocks NaiveBlock_init ?a (Some r) spec = Inr (rs, ?a\<lparr>na_block_pool := p\<rparr>)"
    "na_inv (?a\<lparr>na_block_pool := p\<rparr>)" "distinct rs" "set rs \<inter> pool_live p1 = {}" "pool_live p = set rs \<union> pool_live p1"
    "\<forall>q \<in> pool_live p1. bp_pool p ! q = bp_pool p1 ! q" "linked (bp_pool p) (na_block_size a) (Some r) spec rs"
    using Cons.IH[OF r(2), of "Some r"] Cons.prems(2) by auto
  have "bp_pool p ! r = bp_pool p1 ! r" using rs(6) r(4) by blast
  then show ?case using r rs ti by (intro exI[of _ "r # rs"] exI[of _ p]) auto
qed

section \<open>Sharing\<close>

lemma live_append: "q \<in> pool_live p \<Longrightarrow> pool_ok p \<Longrightarrow> q < length (bp_pool p)"
  by (simp add: pool_live_def pool_ok_def)

text \<open>What a block object holds, as the specification of its copy.\<close>

definition block_spec :: "block_obj list \<Rightarrow> block_ref \<Rightarrow> (int list \<times> int) option" where
  "block_spec pool r = map_option (\<lambda>i. (bl_token_ids (pool ! r), i)) (bl_block_id (pool ! r))"

lemma fork_blocks_ok:
  fixes a :: "block_obj NaiveBlockAllocator"
  assumes "na_inv a" "set rs \<subseteq> pool_live (na_block_pool a)"
    "map (block_spec (bp_pool (na_block_pool a))) rs = map Some spec"
    "\<forall>(toks, i) \<in> set spec. int (length toks) \<le> na_block_size a \<and> (\<exists>n > 0. na_refs a i = Some n)"
  shows "\<exists>fs a'. fork_blocks NaiveBlock_init prev rs a = Inr (fs, a') \<and> na_inv a' \<and>
     set fs \<inter> pool_live (na_block_pool a) = {} \<and>
     pool_live (na_block_pool a') = set fs \<union> pool_live (na_block_pool a) \<and>
     (\<forall>q \<in> pool_live (na_block_pool a). bp_pool (na_block_pool a') ! q = bp_pool (na_block_pool a) ! q) \<and>
     linked (bp_pool (na_block_pool a')) (na_block_size a) prev spec fs \<and>
     na_free_block_indices a' = na_free_block_indices a \<and>
     na_refs a' = (\<lambda>b. map_option (\<lambda>n. n + int (length (filter (\<lambda>s. snd s = b) spec))) (na_refs a b))"
  using assms
proof (induction rs arbitrary: a prev spec)
  case Nil
  then show ?case by (simp add: option.map_ident)
next
  case (Cons r rs)
  obtain toks i spec' where sp: "spec = (toks, i) # spec'" "block_spec (bp_pool (na_block_pool a)) r = Some (toks, i)"
    "map (block_spec (bp_pool (na_block_pool a))) rs = map Some spec'"
    using Cons.prems(3) by (cases spec) auto
  have b: "bl_token_ids (bp_pool (na_block_pool a) ! r) = toks" "bl_block_id (bp_pool (na_block_pool a) ! r) = Some i"
    using sp(2) by (auto simp: block_spec_def)
  have rl: "r < length (bp_pool (na_block_pool a))" using Cons.prems(1,2) live_ref by auto
  obtain n where n: "na_refs a i = Some n" "0 < n" and fit: "int (length toks) \<le> na_block_size a \<or> toks = []"
    using Cons.prems(4) sp(1) by auto
  let ?a1 = "a\<lparr>na_refcounter := dict_set i (n + 1) (na_refcounter a)\<rparr>"
  have rc: "rc_ok (na_refcounter a)" "dict_get (na_refcounter a) i = Some n"
    using Cons.prems(1) n(1) by (auto simp: na_inv_def ids_ok_def na_refs_def)
  have i1: "na_inv ?a1"
    using Cons.prems(1) incr_ok(2)[OF rc] n rc(2)
    by (auto simp: na_inv_def ids_ok_def insert_absorb dom_def split: if_splits)
  obtain f p where f: "NaiveBlockAllocator_init_block NaiveBlock_init ?a1 prev toks (Some i) = Inr (f, ?a1\<lparr>na_block_pool := p\<rparr>)"
    "na_inv (?a1\<lparr>na_block_pool := p\<rparr>)" "f \<notin> pool_live (na_block_pool a)" "pool_live p = insert f (pool_live (na_block_pool a))"
    "\<forall>q \<in> pool_live (na_block_pool a). bp_pool p ! q = bp_pool (na_block_pool a) ! q"
    "bp_pool p ! f = \<lparr>bl_prev_block = prev, bl_token_ids = toks, bl_block_size = na_block_size a, bl_block_id = Some i\<rparr>"
    using naive_init_block_ok[OF i1, of toks prev "Some i"] fit by auto
  let ?a2 = "?a1\<lparr>na_block_pool := p\<rparr>"
  have rf: "na_refs ?a2 = (na_refs a)(i \<mapsto> n + 1)" by (simp add: na_refs_def)
  have sub: "set rs \<subseteq> pool_live (na_block_pool ?a2)" using Cons.prems(2) f(4) by auto
  have same: "map (block_spec (bp_pool (na_block_pool ?a2))) rs = map Some spec'"
    unfolding sp(3)[symmetric] using Cons.prems(2) f(5) by (auto simp: block_spec_def)
  have cond: "\<forall>(toks, i) \<in> set spec'. int (length toks) \<le> na_block_size ?a2 \<and> (\<exists>n > 0. na_refs ?a2 i = Some n)"
    using Cons.prems(4) sp(1) n(2) unfolding rf by (fastforce split: if_splits)
  obtain fs a' where fs: "fork_blocks NaiveBlock_init (Some f) rs ?a2 = Inr (fs, a')" "na_inv a'"
    "set fs \<inter> pool_live p = {}" "pool_live (na_block_pool a') = set fs \<union> pool_live p"
    "\<forall>q \<in> pool_live p. bp_pool (na_block_pool a') ! q = bp_pool p ! q"
    "linked (bp_pool (na_block_pool a')) (na_block_size a) (Some f) spec' fs"
    "na_free_block_indices a' = na_free_block_indices a"
    "na_refs a' = (\<lambda>b. map_option (\<lambda>n. n + int (length (filter (\<lambda>s. snd s = b) spec'))) (na_refs ?a2 b))"
    using Cons.IH[OF f(2) sub same cond, of "Some f"] by auto
  have step: "fork_blocks NaiveBlock_init prev (r # rs) a = Inr (f # fs, a')"
    using rl b incr_ok(1)[OF rc] n(2) f(1) fs(1) by simp
  have ff: "bp_pool (na_block_pool a') ! f = bp_pool p ! f" using fs(5) f(4) by blast
  have refs: "na_refs a' = (\<lambda>b. map_option (\<lambda>n. n + int (length (filter (\<lambda>s. snd s = b) spec))) (na_refs a b))"
    unfolding fs(8) rf sp(1) using n(1) by (auto simp: fun_eq_iff)
  show ?case
    using step fs(2-7) f(3-6) ff refs sp(1) by (intro exI[of _ "f # fs"] exI[of _ a']) auto
qed

section \<open>Properties\<close>

lemma naive_allocate_blocks_ok:
  fixes a :: "block_obj NaiveBlockAllocator"
  assumes "na_inv a" "length toks \<le> NaiveBlockAllocator_get_num_free_blocks a"
    "\<forall>ts \<in> set toks. int (length ts) \<le> na_block_size a"
  shows "\<exists>rs ids a'. NaiveBlockAllocator_allocate_immutable_blocks NaiveBlock_init a prev toks = Inr (rs, a') \<and> na_inv a' \<and>
     distinct ids \<and> length ids = length toks \<and> (\<forall>b \<in> set ids. na_refs a b = Some 0) \<and>
     na_refs a' = (\<lambda>b. if b \<in> set ids then Some 1 else na_refs a b) \<and>
     distinct rs \<and> set rs \<inter> pool_live (na_block_pool a) = {} \<and>
     linked (bp_pool (na_block_pool a')) (na_block_size a) prev (zip toks ids) rs"
proof -
  have sz: "allocate_ids a n = Inr (ids, a1) \<Longrightarrow> na_block_size a1 = na_block_size a \<and> na_block_pool a1 = na_block_pool a" for n ids a1
  proof (induction n arbitrary: a ids)
    case (Suc n)
    then obtain b a2 bs where "NaiveBlockAllocator_allocate_block_id a = Inr (b, a2)" "allocate_ids a2 n = Inr (bs, a1)"
      by (auto elim!: res_bind_InrE)
    with Suc.IH[of a2 bs] show ?case
      by (auto simp: NaiveBlockAllocator_allocate_block_id_def split: list.splits elim!: res_bind_InrE)
  qed simp
  let ?nows = "map (\<lambda>_. 0) toks"
  obtain ids a1 where ids: "allocate_ids a (length toks) = Inr (ids, a1)" "na_inv a1" "distinct ids" "length ids = length toks"
    "\<forall>b \<in> set ids. na_refs a b = Some 0" "na_refs a1 = (\<lambda>b. if b \<in> set ids then Some 1 else na_refs a b)"
    using naive_source.alloc_many_enough[OF assms(1), of ?nows] assms(2) allocate_ids_many[of a ?nows] by auto
  note s = sz[OF ids(1)]
  have "\<forall>(ts, i) \<in> set (zip toks ids). int (length ts) \<le> na_block_size a1"
    using assms(3) s by (auto dest: set_zip_leftD)
  from init_blocks_ok[OF ids(2) this, of prev] obtain rs p where
    "init_blocks NaiveBlock_init a1 prev (zip toks ids) = Inr (rs, a1\<lparr>na_block_pool := p\<rparr>)"
    "na_inv (a1\<lparr>na_block_pool := p\<rparr>)" "distinct rs" "set rs \<inter> pool_live (na_block_pool a) = {}"
    "linked (bp_pool p) (na_block_size a) prev (zip toks ids) rs" using s by auto
  then show ?thesis using ids
    by (intro exI[of _ rs] exI[of _ ids] exI[of _ "a1\<lparr>na_block_pool := p\<rparr>"])
      (auto simp: NaiveBlockAllocator_allocate_immutable_blocks_def na_refs_def)
qed

text \<open>
  Allocating blocks for a prompt succeeds whenever as many blocks are free as are asked for:
  the ids are distinct and were referenced by nobody, each has exactly one reference afterwards,
  no other id is touched, and the block objects are new, hold the given tokens and are linked
  in order to each other and to the given previous block.
\<close>

theorem NaiveBlockAllocator_allocate_immutable_blocks_fresh:
  fixes a :: "block_obj NaiveBlockAllocator"
  assumes "na_inv a" "length toks \<le> NaiveBlockAllocator_get_num_free_blocks a"
    "\<forall>ts \<in> set toks. int (length ts) \<le> na_block_size a"
  shows "\<exists>rs ids a'. NaiveBlockAllocator_allocate_immutable_blocks NaiveBlock_init a prev toks = Inr (rs, a') \<and> na_inv a' \<and>
     distinct ids \<and> length ids = length toks \<and> (\<forall>b \<in> set ids. na_refs a b = Some 0) \<and>
     na_refs a' = (\<lambda>b. if b \<in> set ids then Some 1 else na_refs a b) \<and>
     distinct rs \<and> set rs \<inter> pool_live (na_block_pool a) = {} \<and>
     linked (bp_pool (na_block_pool a')) (na_block_size a) prev (zip toks ids) rs"
  by (rule naive_allocate_blocks_ok[OF assms])

definition naive_example :: "block_obj NaiveBlockAllocator" where
  "naive_example = \<lparr>na_free_block_indices = [2, 3], na_all_block_indices = [1, 2, 3],
     na_refcounter = [(1, 2), (2, 0), (3, 0)], na_block_size = 4,
     na_cow_tracker = \<lparr>copy_on_writes = []\<rparr>,
     na_block_pool = \<lparr>bp_block_size = 4, bp_pool_size = 3, bp_free_ids = [2],
       bp_pool = [\<lparr>bl_prev_block = None, bl_token_ids = [7, 8], bl_block_size = 4, bl_block_id = Some 1\<rparr>,
                  \<lparr>bl_prev_block = None, bl_token_ids = [7, 8], bl_block_size = 4, bl_block_id = Some 1\<rparr>,
                  \<lparr>bl_prev_block = None, bl_token_ids = [], bl_block_size = 4, bl_block_id = None\<rparr>]\<rparr>\<rparr>"

lemma naive_example_inv: "na_inv naive_example"
  by (auto simp: na_inv_def ids_ok_def naive_example_def rc_ok_def dict_ok_def pool_ok_def split: if_splits)

theorem NaiveBlockAllocator_allocate_immutable_blocks_fresh_witness:
  "\<exists>rs a'. NaiveBlockAllocator_allocate_immutable_blocks NaiveBlock_init naive_example None [[1, 2, 3, 4], [5]] = Inr (rs, a') \<and>
     na_inv a'"
  using NaiveBlockAllocator_allocate_immutable_blocks_fresh[OF naive_example_inv, of "[[1, 2, 3, 4], [5]]" None]
  by (auto simp: naive_example_def NaiveBlockAllocator_get_num_free_blocks_def)

text \<open>
  Releasing a block. Freeing an object that refers to an id with n references lowers the
  count of that id to n - 1 and changes no other count; the id returns to the free list exactly
  when n was 1; freeing the same object again is refused with an assertion.
\<close>

theorem NaiveBlockAllocator_free_returns_last_reference:
  fixes a :: "'a block_obj_scheme NaiveBlockAllocator"
  assumes "na_inv a" "r \<in> pool_live (na_block_pool a)" "bl_block_id (bp_pool (na_block_pool a) ! r) = Some b"
    "na_refs a b = Some n" "0 < n"
  shows "\<exists>a'. NaiveBlockAllocator_free a r keep = Inr a' \<and> na_inv a' \<and> na_refs a' = (na_refs a)(b \<mapsto> n - 1) \<and>
     na_free_block_indices a' = (if n = 1 then b # na_free_block_indices a else na_free_block_indices a) \<and>
     pool_live (na_block_pool a') = (if keep then pool_live (na_block_pool a) else pool_live (na_block_pool a) - {r}) \<and>
     NaiveBlockAllocator_free a' r keep = Inl AssertionError"
proof -
  have rl: "r < length (bp_pool (na_block_pool a))" using live_ref[OF assms(1,2)] .
  obtain a1 where a1: "NaiveBlockAllocator_free_block_object_id a r = Inr a1" "na_inv a1" "na_refs a1 = (na_refs a)(b \<mapsto> n - 1)"
    "na_block_pool a1 = pool_set (na_block_pool a) r ((bp_pool (na_block_pool a) ! r)\<lparr>bl_block_id := None\<rparr>)"
    "na_free_block_indices a1 = (if n = 1 then b # na_free_block_indices a else na_free_block_indices a)"
    using free_object_id_ok[OF assms(1) rl assms(3-5)] by blast
  let ?p = "BlockPool_free_block (na_block_pool a1) r"
  have lv: "r \<in> pool_live (na_block_pool a1)" using a1(4) assms(2) by simp
  have "0 < bp_pool_size ?p" using na_inv_poolD(2)[OF a1(2)] by (simp add: BlockPool_free_block_def)
  then have i: "na_inv (a1\<lparr>na_block_pool := ?p\<rparr>)"
    using na_inv_pool(1)[OF a1(2) free_block_ok(1)[OF na_inv_poolD(1)[OF a1(2)] lv]] by simp
  have again: "NaiveBlockAllocator_free (a1\<lparr>na_block_pool := q\<rparr>) r keep = Inl AssertionError"
    if "bp_pool q = bp_pool (na_block_pool a1)" for q
    using that a1(4) rl
    by (simp add: NaiveBlockAllocator_free_def NaiveBlockAllocator_free_block_object_id_def block_id_of_def set_block_id_def
        pool_get_def)
  have e: "bp_pool ?p = bp_pool (na_block_pool a1)" by (simp add: BlockPool_free_block_def)
  show ?thesis
  proof (cases keep)
    case True
    have ag: "NaiveBlockAllocator_free a1 r keep = Inl AssertionError" using again[OF refl] by simp
    have "NaiveBlockAllocator_free a r keep = Inr a1" using True a1(1) by (simp add: NaiveBlockAllocator_free_def)
    then show ?thesis using True a1(2-5) ag lv by (intro exI[of _ a1]) simp
  next
    case False
    then have "NaiveBlockAllocator_free a r keep = Inr (a1\<lparr>na_block_pool := ?p\<rparr>)"
      using a1(1) by (simp add: NaiveBlockAllocator_free_def)
    then show ?thesis using False a1(3-5) again[OF e] i free_block_ok(2)[OF na_inv_poolD(1)[OF a1(2)] lv]
      by (intro exI[of _ "a1\<lparr>na_block_pool := ?p\<rparr>"]) (simp add: na_refs_def)
  qed
qed

theorem NaiveBlockAllocator_free_returns_last_reference_witness:
  "\<exists>a'. NaiveBlockAllocator_free naive_example 0 False = Inr a' \<and> na_refs a' 1 = Some 1"
  using NaiveBlockAllocator_free_returns_last_reference[OF naive_example_inv, of 0 1 2 False]
  by (auto simp: naive_example_def pool_live_def na_refs_def)

text \<open>
  Copy on write. Appending tokens to a block object whose physical block has one reference
  keeps the block; when it is shared, the object moves to a block that nobody referred to, the
  old one loses one reference but stays with the other holders, the pair is recorded for the
  copy, and in both cases every other block object is left as it was.
\<close>

theorem NaiveBlock_append_copies_on_write:
  fixes a :: "'a block_obj_scheme NaiveBlockAllocator"
  assumes "na_inv a" "r < length (bp_pool (na_block_pool a))" "bl_block_id (bp_pool (na_block_pool a) ! r) = Some b"
    "na_refs a b = Some n" "0 < n" "int (length toks) \<le> num_empty_slots (bp_pool (na_block_pool a) ! r)"
    "1 < n \<Longrightarrow> 0 < NaiveBlockAllocator_get_num_free_blocks a"
  shows "\<exists>a'. NaiveBlock_append_token_ids a r toks = Inr a' \<and> na_inv a' \<and>
     bl_token_ids (bp_pool (na_block_pool a') ! r) = bl_token_ids (bp_pool (na_block_pool a) ! r) @ toks \<and>
     (\<forall>q. q \<noteq> r \<longrightarrow> bp_pool (na_block_pool a') ! q = bp_pool (na_block_pool a) ! q) \<and>
     (if n \<le> 1 then bl_block_id (bp_pool (na_block_pool a') ! r) = Some b \<and> na_refs a' = na_refs a
      else \<exists>c. bl_block_id (bp_pool (na_block_pool a') ! r) = Some c \<and> c \<noteq> b \<and> na_refs a c = Some 0 \<and>
             na_refs a' = (na_refs a)(b \<mapsto> n - 1, c \<mapsto> 1) \<and>
             copy_on_writes (na_cow_tracker a') = copy_on_writes (na_cow_tracker a) @ [(b, c)])"
  using append_token_ids_ok[OF assms] by (auto simp: append_outcome_def Let_def split: if_splits)

theorem NaiveBlock_append_copies_on_write_witness:
  "\<exists>a' c. NaiveBlock_append_token_ids naive_example 0 [9] = Inr a' \<and>
     bl_block_id (bp_pool (na_block_pool a') ! 0) = Some c \<and> c \<noteq> 1"
proof -
  have n: "na_refs naive_example 1 = Some 2" by (simp add: naive_example_def na_refs_def)
  from NaiveBlock_append_copies_on_write[OF naive_example_inv _ _ n, of 0 "[9]"] show ?thesis
    by (auto simp: naive_example_def num_empty_slots_def NaiveBlockAllocator_get_num_free_blocks_def)
qed

text \<open>
  Forking a sequence copies the chain of block objects, not the memory: the new objects are
  fresh, hold the same tokens and the same physical ids in the same order, every id gains one
  reference per occurrence, no block is taken from the free list, and no existing object changes.
\<close>

theorem NaiveBlockAllocator_fork_shares_blocks:
  fixes a :: "block_obj NaiveBlockAllocator"
  assumes "na_inv a" "block_chain (na_block_pool a) last_block rs" "set rs \<subseteq> pool_live (na_block_pool a)"
    "map (block_spec (bp_pool (na_block_pool a))) rs = map Some spec"
    "\<forall>(toks, i) \<in> set spec. int (length toks) \<le> na_block_size a \<and> (\<exists>n > 0. na_refs a i = Some n)"
  shows "\<exists>fs a'. NaiveBlockAllocator_fork NaiveBlock_init a last_block = Inr (fs, a') \<and> na_inv a' \<and>
     set fs \<inter> pool_live (na_block_pool a) = {} \<and> linked (bp_pool (na_block_pool a')) (na_block_size a) None spec fs \<and>
     (\<forall>q \<in> pool_live (na_block_pool a). bp_pool (na_block_pool a') ! q = bp_pool (na_block_pool a) ! q) \<and>
     na_free_block_indices a' = na_free_block_indices a \<and>
     na_refs a' = (\<lambda>b. map_option (\<lambda>n. n + int (length (filter (\<lambda>s. snd s = b) spec))) (na_refs a b))"
  using fork_blocks_ok[OF assms(1,3-5), of None] get_all_blocks_chain[OF assms(2)]
  by (auto simp: NaiveBlockAllocator_fork_def)

theorem NaiveBlockAllocator_fork_shares_blocks_witness:
  "\<exists>fs a'. NaiveBlockAllocator_fork NaiveBlock_init naive_example 0 = Inr (fs, a') \<and> na_refs a' 1 = Some 3"
proof -
  have c: "block_chain (na_block_pool naive_example) 0 [0]"
    by (rule block_chain.first) (simp_all add: naive_example_def)
  from NaiveBlockAllocator_fork_shares_blocks[OF naive_example_inv c, of "[([7, 8], 1)]"] show ?thesis
    by (auto simp: naive_example_def pool_live_def block_spec_def na_refs_def)
qed

end
