(* ===== verification/Prefix_Block.thy ===== *)
theory Prefix_Block
  imports Naive_Allocator Evictors
begin

text \<open>
  The block objects and the per-block state of vllm/core/block/prefix_caching_block.py: the class
  BlockTracker, the class PrefixCachingBlock with its incrementally computed token total and its
  memoised content hash, and its constructor as the factory the block pool calls.

  The builtin hash is randomised per process, so it is an argument: the hash of the tuple
  \<open>(is_first_block, prev_block_hash, *token_ids, extra_hash)\<close> and the hash of the string None.
\<close>

section \<open>BlockTracker\<close>

record BlockTracker =
  bt_active :: bool
  bt_last_accessed :: rat
  bt_computed :: bool
  bt_cache_hint :: "cache_hint option"

definition DEFAULT_LAST_ACCESSED_TIME :: rat where
  "DEFAULT_LAST_ACCESSED_TIME = - 1"

definition BlockTracker_reset :: "BlockTracker \<Rightarrow> BlockTracker" where
  "BlockTracker_reset t = t\<lparr>bt_last_accessed := DEFAULT_LAST_ACCESSED_TIME, bt_cache_hint := None, bt_computed := False\<rparr>"

definition BlockTracker_init :: BlockTracker where
  "BlockTracker_init = \<lparr>bt_active = False, bt_last_accessed = DEFAULT_LAST_ACCESSED_TIME, bt_computed = False,
     bt_cache_hint = None\<rparr>"

definition BlockTracker_enable :: "BlockTracker \<Rightarrow> BlockTracker result" where
  "BlockTracker_enable t =
     (if bt_active t then Inl AssertionError else Inr (BlockTracker_reset (t\<lparr>bt_active := True\<rparr>)))"

definition BlockTracker_disable :: "BlockTracker \<Rightarrow> BlockTracker result" where
  "BlockTracker_disable t =
     (if bt_active t then Inr (BlockTracker_reset (t\<lparr>bt_active := False\<rparr>)) else Inl AssertionError)"

definition hint_key :: "('c \<Rightarrow> 'v option) \<Rightarrow> 'c option \<Rightarrow> 'v result" where
  "hint_key key h = (case h of None \<Rightarrow> Inl TypeError
     | Some c \<Rightarrow> (case key c of None \<Rightarrow> Inl KeyError | Some v \<Rightarrow> Inr v))"

text \<open>
  Which cache hint a block keeps when another request touches it. The hint of the same
  conversation advances with its turns; between conversations the later next use wins, or, with
  predicted hints, the new hint takes over with the larger of the two return probabilities.
\<close>

definition merge_cache_hint ::
    "(rat \<Rightarrow> rat) \<Rightarrow> BlockTracker \<Rightarrow> rat \<Rightarrow> cache_hint option \<Rightarrow> cache_hint option result" where
  "merge_cache_hint np_exp t last_accessed new_hint =
     (case bt_cache_hint t of None \<Rightarrow> Inr new_hint
      | Some old \<Rightarrow>
          res_bind (hint_key ch_id (Some old)) (\<lambda>old_id.
          res_bind (hint_key ch_id new_hint) (\<lambda>new_id.
            if old_id = new_id
            then res_bind (hint_key ch_turns (Some old)) (\<lambda>old_turns.
                 res_bind (hint_key ch_turns new_hint) (\<lambda>new_turns.
                   Inr (if old_turns < new_turns then new_hint else Some old)))
            else case new_hint of None \<Rightarrow> Inl TypeError
            | Some new \<Rightarrow>
                if ch_next_timestamp new \<noteq> None
                then res_bind (hint_key ch_next_timestamp (Some old)) (\<lambda>old_next.
                     res_bind (hint_key ch_next_timestamp new_hint) (\<lambda>new_next.
                       Inr (if old_next < new_next then new_hint else Some old)))
                else res_bind (hint_key ch_prob_has_next (Some old)) (\<lambda>old_prob.
                     res_bind (hint_key ch_exp_scale (Some old)) (\<lambda>old_scale.
                     res_bind (probability_of_future_arrival np_exp old_prob old_scale
                         (last_accessed - bt_last_accessed t)) (\<lambda>p.
                     res_bind (hint_key ch_prob_has_next new_hint) (\<lambda>new_prob.
                       Inr (Some (if p > new_prob then new\<lparr>ch_prob_has_next := Some p\<rparr> else new)))))))))"

definition BlockTracker_overwrite_block_metadata ::
    "(rat \<Rightarrow> rat) \<Rightarrow> BlockTracker \<Rightarrow> rat \<Rightarrow> cache_hint option \<Rightarrow> BlockTracker result" where
  "BlockTracker_overwrite_block_metadata np_exp t last_accessed new_hint =
     res_bind (merge_cache_hint np_exp t last_accessed new_hint) (\<lambda>hint.
       Inr (t\<lparr>bt_cache_hint := hint, bt_last_accessed := last_accessed\<rparr>))"

section \<open>PrefixCachingBlock\<close>

record prefix_block = block_obj +
  pb_cached_content_hash :: "int option"
  pb_cached_num_tokens_total :: int
  pb_last_accessed :: rat
  pb_computed :: bool
  pb_extra_hash :: "int option"

record py_hash =
  hash_tuple :: "bool \<Rightarrow> int option \<Rightarrow> int list \<Rightarrow> int option \<Rightarrow> int"
  none_hash :: int

definition hash_block_tokens :: "py_hash \<Rightarrow> bool \<Rightarrow> int option \<Rightarrow> int list \<Rightarrow> int option \<Rightarrow> int" where
  "hash_block_tokens H is_first_block prev_block_hash cur_block_token_ids extra_hash =
     (let prev = (if is_first_block \<and> prev_block_hash = None then Some (none_hash H) else prev_block_hash)
      in hash_tuple H is_first_block prev cur_block_token_ids extra_hash)"

definition num_tokens_total_from :: "prefix_block list \<Rightarrow> prefix_block \<Rightarrow> int result" where
  "num_tokens_total_from pool b =
     (case bl_prev_block b of None \<Rightarrow> Inr (int (length (bl_token_ids b)))
      | Some q \<Rightarrow> if q < length pool then Inr (pb_cached_num_tokens_total (pool ! q) + int (length (bl_token_ids b)))
                  else Inl AttributeError)"

definition PrefixCachingBlock_update_num_tokens_total ::
    "prefix_block BlockPool \<Rightarrow> block_ref \<Rightarrow> prefix_block BlockPool result" where
  "PrefixCachingBlock_update_num_tokens_total p r =
     res_bind (pool_get p r) (\<lambda>b.
     res_bind (num_tokens_total_from (bp_pool p) b) (\<lambda>n.
       Inr (pool_set p r (b\<lparr>pb_cached_num_tokens_total := n\<rparr>))))"

definition PrefixCachingBlock_init :: "prefix_block block_factory" where
  "PrefixCachingBlock_init pool prev_block token_ids block_size block_id extra_hash =
     res_bind (append_token_ids_no_cow \<lparr>bl_prev_block = prev_block, bl_token_ids = [], bl_block_size = block_size,
         bl_block_id = block_id, pb_cached_content_hash = None, pb_cached_num_tokens_total = 0,
         pb_last_accessed = DEFAULT_LAST_ACCESSED_TIME, pb_computed = False, pb_extra_hash = extra_hash\<rparr> token_ids) (\<lambda>b.
     res_bind (num_tokens_total_from pool b) (\<lambda>n. Inr (b\<lparr>pb_cached_num_tokens_total := n\<rparr>)))"

text \<open>
  The content hash of a block, with the hashes of the previous blocks it memoises on the way.
  The recursion follows the previous-block pointers, its fuel is the number of objects.
\<close>

fun content_hash_from :: "py_hash \<Rightarrow> nat \<Rightarrow> prefix_block BlockPool \<Rightarrow> block_ref \<Rightarrow>
    (int option \<times> prefix_block BlockPool) result" where
  "content_hash_from H 0 p r = Inl Diverges"
| "content_hash_from H (Suc fuel) p r =
     res_bind (pool_get p r) (\<lambda>b.
       case pb_cached_content_hash b of Some h \<Rightarrow> Inr (Some h, p)
       | None \<Rightarrow>
           if \<not> is_full b then Inr (None, p)
           else res_bind (case bl_prev_block b of None \<Rightarrow> Inr (Some (none_hash H), p)
                          | Some q \<Rightarrow> content_hash_from H fuel p q) (\<lambda>(prev_block_hash, p1).
                let is_first_block = (bl_prev_block b = None)
                in if prev_block_hash = Some (none_hash H) \<and> \<not> is_first_block then Inr (None, p1)
                   else let h = hash_block_tokens H is_first_block prev_block_hash (bl_token_ids b) (pb_extra_hash b)
                        in res_bind (pool_get p1 r) (\<lambda>b1.
                             Inr (Some h, pool_set p1 r (b1\<lparr>pb_cached_content_hash := Some h\<rparr>)))))"

definition PrefixCachingBlock_content_hash ::
    "py_hash \<Rightarrow> prefix_block BlockPool \<Rightarrow> block_ref \<Rightarrow> (int option \<times> prefix_block BlockPool) result" where
  "PrefixCachingBlock_content_hash H p r = content_hash_from H (length (bp_pool p)) p r"

end
