(* ===== verification/Prefix_Allocator.thy ===== *)
theory Prefix_Allocator
  imports Prefix_Block
begin

text \<open>
  The class PrefixCachingBlockAllocator of vllm/core/block/prefix_caching_block.py: physical
  blocks that are reused by content hash. A block id is free in the hashless allocator, in use
  with a reference count, or cached and waiting in the evictor.

  The pool of block objects and the reference counter are shared with the hashless allocator and
  live in its record. The record \<open>runtime\<close> holds the code that is not part of the repository: the
  sorted dictionary of the evictor, the exponential, the builtin hash. The predictor thread and
  the log output are left out. An operation that reads the clock has the reading as its argument.
\<close>

record 'd runtime =
  rt_ops :: "'d score_dict"
  rt_exp :: "rat \<Rightarrow> rat"
  rt_hash :: py_hash

record 'd PrefixCachingBlockAllocator =
  pa_block_table :: "(int, block_ref) dict"
  pa_block_size :: int
  pa_cached_blocks :: "(int, int) dict"
  pa_touched_blocks :: "int list"
  pa_block_tracker :: "(int, BlockTracker) dict"
  pa_hashless :: "prefix_block NaiveBlockAllocator"
  pa_eviction_algorithm :: string
  pa_eviction_algorithm_config :: string
  pa_evictor :: "'d evictor"
  pa_cow_tracker :: CopyOnWriteTracker
  pa_metric_data :: CacheMetricData
  pa_scheduler_post_warmup_metric_data :: CacheMetricData

abbreviation pa_pool :: "'d PrefixCachingBlockAllocator \<Rightarrow> prefix_block BlockPool" where
  "pa_pool a \<equiv> na_block_pool (pa_hashless a)"

abbreviation pa_refcounter :: "'d PrefixCachingBlockAllocator \<Rightarrow> RefCounter" where
  "pa_refcounter a \<equiv> na_refcounter (pa_hashless a)"

definition pa_set_pool :: "prefix_block BlockPool \<Rightarrow> 'd PrefixCachingBlockAllocator \<Rightarrow> 'd PrefixCachingBlockAllocator" where
  "pa_set_pool p a = a\<lparr>pa_hashless := (pa_hashless a)\<lparr>na_block_pool := p\<rparr>\<rparr>"

definition pa_set_refcounter :: "RefCounter \<Rightarrow> 'd PrefixCachingBlockAllocator \<Rightarrow> 'd PrefixCachingBlockAllocator" where
  "pa_set_refcounter rc a = a\<lparr>pa_hashless := (pa_hashless a)\<lparr>na_refcounter := rc\<rparr>\<rparr>"

section \<open>Construction\<close>

fun evictor_set_capacity :: "'d runtime \<Rightarrow> rat \<Rightarrow> 'd evictor \<Rightarrow> int \<Rightarrow> 'd evictor result" where
  "evictor_set_capacity E now (LRU e) capacity = Inr (LRU e)"
| "evictor_set_capacity E now (PDP e) capacity = Inr (PDP (PDPEvictor_set_capacity e capacity))"
| "evictor_set_capacity E now (LRUML e) capacity =
     res_wrap LRUML (LRUMLEvictor_set_capacity (rt_exp E) now e capacity)"

definition new_evictor :: "'d runtime \<Rightarrow> rat \<Rightarrow> string \<Rightarrow> string \<Rightarrow> int \<Rightarrow> 'd evictor result" where
  "new_evictor E now eviction_algorithm config capacity =
     res_bind (make_evictor (rt_ops E) now eviction_algorithm config) (\<lambda>e. evictor_set_capacity E now e capacity)"

definition PrefixCachingBlockAllocator_init ::
    "'d runtime \<Rightarrow> rat \<Rightarrow> int \<Rightarrow> int \<Rightarrow> int list option \<Rightarrow> string \<Rightarrow> string \<Rightarrow> 'd PrefixCachingBlockAllocator result" where
  "PrefixCachingBlockAllocator_init E now num_blocks block_size block_ids eviction_algorithm config =
     (let ids = (case block_ids of None \<Rightarrow> map int [0..<nat num_blocks] | Some l \<Rightarrow> l)
      in res_bind (BlockPool_init PrefixCachingBlock_init block_size (num_blocks * 4)) (\<lambda>pool.
         res_bind (NaiveBlockAllocator_init PrefixCachingBlock_init num_blocks block_size (Some ids) (Some pool)) (\<lambda>hashless.
         res_bind (new_evictor E now eviction_algorithm config num_blocks) (\<lambda>e.
           Inr \<lparr>pa_block_table = [], pa_block_size = block_size, pa_cached_blocks = [], pa_touched_blocks = [],
                pa_block_tracker = map (\<lambda>b. (b, BlockTracker_init)) (remdups ids), pa_hashless = hashless,
                pa_eviction_algorithm = eviction_algorithm, pa_eviction_algorithm_config = config,
                pa_evictor = e, pa_cow_tracker = CopyOnWriteTracker_init,
                pa_metric_data = CacheMetricData_init, pa_scheduler_post_warmup_metric_data = CacheMetricData_init\<rparr>))))"

section \<open>Tracking\<close>

definition set_tracker :: "int \<Rightarrow> BlockTracker \<Rightarrow> 'd PrefixCachingBlockAllocator \<Rightarrow> 'd PrefixCachingBlockAllocator" where
  "set_tracker block_id t a = a\<lparr>pa_block_tracker := dict_set block_id t (pa_block_tracker a)\<rparr>"

definition PrefixCachingBlockAllocator_track_block_id ::
    "'d PrefixCachingBlockAllocator \<Rightarrow> int \<Rightarrow> bool \<Rightarrow> 'd PrefixCachingBlockAllocator result" where
  "PrefixCachingBlockAllocator_track_block_id a block_id computed =
     res_bind (dict_item (pa_block_tracker a) block_id) (\<lambda>t.
     res_bind (BlockTracker_enable t) (\<lambda>t1. Inr (set_tracker block_id (t1\<lparr>bt_computed := computed\<rparr>) a)))"

definition PrefixCachingBlockAllocator_untrack_block_id ::
    "'d PrefixCachingBlockAllocator \<Rightarrow> int \<Rightarrow> 'd PrefixCachingBlockAllocator result" where
  "PrefixCachingBlockAllocator_untrack_block_id a block_id =
     res_bind (dict_item (pa_block_tracker a) block_id) (\<lambda>t.
     res_bind (BlockTracker_disable t) (\<lambda>t1. Inr (set_tracker block_id t1 a)))"

definition pa_block_id :: "'d PrefixCachingBlockAllocator \<Rightarrow> block_ref \<Rightarrow> int result" where
  "pa_block_id a r = res_bind (block_id_of (pa_pool a) r) (\<lambda>i. case i of None \<Rightarrow> Inl AssertionError | Some b \<Rightarrow> Inr b)"

definition pa_set_block_id :: "'d PrefixCachingBlockAllocator \<Rightarrow> block_ref \<Rightarrow> int option \<Rightarrow> 'd PrefixCachingBlockAllocator result" where
  "pa_set_block_id a r i = res_bind (set_block_id (pa_pool a) r i) (\<lambda>p. Inr (pa_set_pool p a))"

definition pa_content_hash :: "'d runtime \<Rightarrow> 'd PrefixCachingBlockAllocator \<Rightarrow> block_ref \<Rightarrow>
    (int option \<times> 'd PrefixCachingBlockAllocator) result" where
  "pa_content_hash E a r =
     res_bind (PrefixCachingBlock_content_hash (rt_hash E) (pa_pool a) r) (\<lambda>(h, p). Inr (h, pa_set_pool p a))"

section \<open>Reference counting of cached and hashless blocks\<close>

definition PrefixCachingBlockAllocator_incr_refcount_cached_block ::
    "'d runtime \<Rightarrow> 'd PrefixCachingBlockAllocator \<Rightarrow> block_ref \<Rightarrow> 'd PrefixCachingBlockAllocator result" where
  "PrefixCachingBlockAllocator_incr_refcount_cached_block E a block =
     res_bind (pool_get (pa_pool a) block) (\<lambda>b.
     let a0 = pa_set_pool (pool_set (pa_pool a) block (b\<lparr>pb_computed := True\<rparr>)) a
     in res_bind (pa_block_id a0 block) (\<lambda>block_id.
        res_bind (RefCounter_incr (pa_refcounter a0) block_id) (\<lambda>(refcount, rc).
        let a1 = pa_set_refcounter rc a0
        in if refcount = 1
           then res_bind (if evictor_contains (pa_evictor a1) block_id
                          then res_bind (evictor_remove (rt_ops E) (pa_evictor a1) block_id) (\<lambda>e.
                                 Inr (a1\<lparr>pa_evictor := e\<rparr>))
                          else Inr a1) (\<lambda>a2.
                PrefixCachingBlockAllocator_track_block_id a2 block_id True)
           else Inr a1)))"

text \<open>The caller has found the content hash of the block.\<close>

definition PrefixCachingBlockAllocator_decr_refcount_cached_block ::
    "'d runtime \<Rightarrow> rat \<Rightarrow> 'd PrefixCachingBlockAllocator \<Rightarrow> block_ref \<Rightarrow> int \<Rightarrow> 'd PrefixCachingBlockAllocator result" where
  "PrefixCachingBlockAllocator_decr_refcount_cached_block E now a block content_hash =
     res_bind (pa_block_id a block) (\<lambda>block_id.
     res_bind (RefCounter_decr (pa_refcounter a) block_id) (\<lambda>(refcount, rc).
     let a1 = pa_set_refcounter rc a
     in if refcount > 0 then pa_set_block_id a1 block None
        else if \<not> dict_has (pa_cached_blocks a1) content_hash then Inl AssertionError
        else res_bind (pool_get (pa_pool a1) block) (\<lambda>b.
             res_bind (dict_item (pa_block_tracker a1) block_id) (\<lambda>t.
             res_bind (evictor_add (rt_ops E) (rt_exp E) now (pa_evictor a1) block_id content_hash
                 (pb_cached_num_tokens_total b) (bt_last_accessed t) (bt_cache_hint t)) (\<lambda>e.
             res_bind (PrefixCachingBlockAllocator_untrack_block_id (a1\<lparr>pa_evictor := e\<rparr>) block_id) (\<lambda>a2.
               pa_set_block_id a2 block None))))))"

definition PrefixCachingBlockAllocator_decr_refcount_hashless_block ::
    "'d PrefixCachingBlockAllocator \<Rightarrow> block_ref \<Rightarrow> 'd PrefixCachingBlockAllocator result" where
  "PrefixCachingBlockAllocator_decr_refcount_hashless_block a block =
     res_bind (pa_block_id a block) (\<lambda>block_id.
     res_bind (RefCounter_get (pa_refcounter a) block_id) (\<lambda>refcount.
     res_bind (if refcount = 1 then PrefixCachingBlockAllocator_untrack_block_id a block_id else Inr a) (\<lambda>a1.
     res_bind (NaiveBlockAllocator_free (pa_hashless a1) block True) (\<lambda>h. Inr (a1\<lparr>pa_hashless := h\<rparr>)))))"

section \<open>Allocation of ids\<close>

definition PrefixCachingBlockAllocator_maybe_allocate_hashless_block_id ::
    "'d PrefixCachingBlockAllocator \<Rightarrow> (int option \<times> 'd PrefixCachingBlockAllocator) result" where
  "PrefixCachingBlockAllocator_maybe_allocate_hashless_block_id a =
     (case NaiveBlockAllocator_allocate_mutable_block PrefixCachingBlock_init (pa_hashless a) None of
        Inl e \<Rightarrow> if e = NoFreeBlocksError then Inr (None, a) else Inl e
      | Inr (block, h) \<Rightarrow>
          res_bind (pa_block_id (a\<lparr>pa_hashless := h\<rparr>) block) (\<lambda>block_id.
          let a1 = pa_set_pool (BlockPool_free_block (na_block_pool h) block) (a\<lparr>pa_hashless := h\<rparr>)
          in res_bind (PrefixCachingBlockAllocator_track_block_id a1 block_id False) (\<lambda>a2. Inr (Some block_id, a2))))"

text \<open>
  The loop takes blocks from the evictor until one is still the cached block of its hash. It
  ends by itself or by the error of the empty evictor, so the number of waiting blocks bounds it.
\<close>

fun evict_cached_loop :: "'d runtime \<Rightarrow> rat \<Rightarrow> nat \<Rightarrow> int option \<Rightarrow> 'd PrefixCachingBlockAllocator \<Rightarrow>
    (int option \<times> 'd PrefixCachingBlockAllocator) result" where
  "evict_cached_loop E now 0 block_id a = Inl Diverges"
| "evict_cached_loop E now (Suc fuel) block_id a =
     (if pa_cached_blocks a = [] then Inr (block_id, a)
      else res_bind (evictor_evict (rt_ops E) (rt_exp E) now (pa_evictor a)) (\<lambda>((evicted, content_hash_to_evict), e).
        let a1 = a\<lparr>pa_evictor := e\<rparr>
        in case dict_get (pa_cached_blocks a1) content_hash_to_evict of
             None \<Rightarrow> evict_cached_loop E now fuel (Some evicted) a1
           | Some cached_id \<Rightarrow>
               if cached_id = evicted
               then res_bind (RefCounter_get (pa_refcounter a1) cached_id) (\<lambda>refcount.
                    if refcount = 0
                    then Inr (Some evicted, a1\<lparr>pa_cached_blocks := dict_pop content_hash_to_evict (pa_cached_blocks a1)\<rparr>)
                    else evict_cached_loop E now fuel (Some evicted) a1)
               else evict_cached_loop E now fuel (Some evicted) a1))"

definition PrefixCachingBlockAllocator_maybe_allocate_evicted_block_id ::
    "'d runtime \<Rightarrow> rat \<Rightarrow> 'd PrefixCachingBlockAllocator \<Rightarrow> (int option \<times> 'd PrefixCachingBlockAllocator) result" where
  "PrefixCachingBlockAllocator_maybe_allocate_evicted_block_id E now a =
     (if evictor_num_blocks (pa_evictor a) = 0 then Inr (None, a)
      else res_bind (evict_cached_loop E now (Suc (evictor_num_blocks (pa_evictor a))) None a) (\<lambda>(found, a1).
           case found of None \<Rightarrow> Inl UnboundLocalError
           | Some block_id \<Rightarrow>
               res_bind (RefCounter_incr (pa_refcounter a1) block_id) (\<lambda>(_, rc).
               res_bind (PrefixCachingBlockAllocator_track_block_id (pa_set_refcounter rc a1) block_id False) (\<lambda>a2.
                 Inr (Some block_id, a2)))))"

definition PrefixCachingBlockAllocator_allocate_block_id ::
    "'d runtime \<Rightarrow> rat \<Rightarrow> 'd PrefixCachingBlockAllocator \<Rightarrow> (int \<times> 'd PrefixCachingBlockAllocator) result" where
  "PrefixCachingBlockAllocator_allocate_block_id E now a =
     res_bind (PrefixCachingBlockAllocator_maybe_allocate_hashless_block_id a) (\<lambda>(hashless, a1).
       case hashless of Some b \<Rightarrow> Inr (b, a1)
       | None \<Rightarrow>
           res_bind (PrefixCachingBlockAllocator_maybe_allocate_evicted_block_id E now a1) (\<lambda>(evicted, a2).
             case evicted of Some b \<Rightarrow> Inr (b, a2) | None \<Rightarrow> Inl NoFreeBlocksError))"

section \<open>Releasing\<close>

text \<open>
  The object passed to the private operation is either a PrefixCachingBlock, whose content hash
  the wrapper computes, or, on the copy-on-write path, the NaiveBlock inside it, whose content
  hash is None by definition.
\<close>

definition free_block_id_with ::
    "'d runtime \<Rightarrow> rat \<Rightarrow> 'd PrefixCachingBlockAllocator \<Rightarrow> block_ref \<Rightarrow> int option \<Rightarrow> 'd PrefixCachingBlockAllocator result" where
  "free_block_id_with E now a block content_hash =
     res_bind (case content_hash of
         Some h \<Rightarrow> PrefixCachingBlockAllocator_decr_refcount_cached_block E now a block h
       | None \<Rightarrow> PrefixCachingBlockAllocator_decr_refcount_hashless_block a block) (\<lambda>a1.
     res_bind (block_id_of (pa_pool a1) block) (\<lambda>i.
     res_bind (py_assert (i = None)) (\<lambda>_. Inr a1)))"

definition PrefixCachingBlockAllocator_free_block_id ::
    "'d runtime \<Rightarrow> rat \<Rightarrow> 'd PrefixCachingBlockAllocator \<Rightarrow> block_ref \<Rightarrow> 'd PrefixCachingBlockAllocator result" where
  "PrefixCachingBlockAllocator_free_block_id E now a block =
     res_bind (pa_block_id a block) (\<lambda>_.
     res_bind (pa_content_hash E a block) (\<lambda>(content_hash, a1). free_block_id_with E now a1 block content_hash))"

definition PrefixCachingBlockAllocator_free ::
    "'d runtime \<Rightarrow> rat \<Rightarrow> 'd PrefixCachingBlockAllocator \<Rightarrow> block_ref \<Rightarrow> bool \<Rightarrow> 'd PrefixCachingBlockAllocator result" where
  "PrefixCachingBlockAllocator_free E now a block keep_block_object =
     res_bind (PrefixCachingBlockAllocator_free_block_id E now a block) (\<lambda>a1.
       Inr (if keep_block_object then a1 else pa_set_pool (BlockPool_free_block (pa_pool a1) block) a1))"

section \<open>Promotion and appending\<close>

definition PrefixCachingBlockAllocator_promote_to_immutable_block ::
    "'d runtime \<Rightarrow> 'd PrefixCachingBlockAllocator \<Rightarrow> block_ref \<Rightarrow> (int \<times> 'd PrefixCachingBlockAllocator) result" where
  "PrefixCachingBlockAllocator_promote_to_immutable_block E a0 block =
     res_bind (pa_content_hash E a0 block) (\<lambda>(content_hash, a).
     case content_hash of None \<Rightarrow> Inl AssertionError
     | Some h \<Rightarrow>
         res_bind (pa_block_id a block) (\<lambda>block_id.
         res_bind (RefCounter_get (pa_refcounter a) block_id) (\<lambda>refcount.
         res_bind (py_assert (refcount > 0)) (\<lambda>_.
           case dict_get (pa_cached_blocks a) h of
             None \<Rightarrow> Inr (block_id, a\<lparr>pa_block_table := dict_set block_id block (pa_block_table a),
                pa_cached_blocks := dict_set h block_id (pa_cached_blocks a),
                pa_touched_blocks := List.insert block_id (pa_touched_blocks a)\<rparr>)
           | Some cached_id \<Rightarrow>
               res_bind (PrefixCachingBlockAllocator_decr_refcount_hashless_block a block) (\<lambda>a1.
               res_bind (pa_set_block_id a1 block (Some cached_id)) (\<lambda>a2.
               res_bind (PrefixCachingBlockAllocator_incr_refcount_cached_block E a2 block) (\<lambda>a3.
                 Inr (cached_id, a3))))))))"

definition cow_block_with ::
    "'d runtime \<Rightarrow> rat \<Rightarrow> 'd PrefixCachingBlockAllocator \<Rightarrow> block_ref \<Rightarrow>
     ('d PrefixCachingBlockAllocator \<Rightarrow> 'd PrefixCachingBlockAllocator result) \<Rightarrow>
     (int \<times> 'd PrefixCachingBlockAllocator) result" where
  "cow_block_with E now a block release =
     res_bind (pa_block_id a block) (\<lambda>src_block_id.
     res_bind (CopyOnWriteTracker_is_appendable (pa_refcounter a) (Some src_block_id)) (\<lambda>appendable.
       if appendable then Inr (src_block_id, a)
       else res_bind (release a) (\<lambda>a1.
            res_bind (PrefixCachingBlockAllocator_allocate_block_id E now a1) (\<lambda>(trg_block_id, a2).
            res_bind (CopyOnWriteTracker_record_cow (pa_cow_tracker a2) (Some src_block_id) (Some trg_block_id)) (\<lambda>t.
              Inr (trg_block_id, a2\<lparr>pa_cow_tracker := t\<rparr>))))))"

definition PrefixCachingBlockAllocator_cow_block_if_not_appendable ::
    "'d runtime \<Rightarrow> rat \<Rightarrow> 'd PrefixCachingBlockAllocator \<Rightarrow> block_ref \<Rightarrow> (int \<times> 'd PrefixCachingBlockAllocator) result" where
  "PrefixCachingBlockAllocator_cow_block_if_not_appendable E now a block =
     cow_block_with E now a block (\<lambda>a. PrefixCachingBlockAllocator_free_block_id E now a block)"

text \<open>
  NaiveBlock.append_token_ids on the block inside a PrefixCachingBlock: the copy on write gets
  that inner block, so the release takes the hashless path.
\<close>

definition inner_append_token_ids ::
    "'d runtime \<Rightarrow> rat \<Rightarrow> 'd PrefixCachingBlockAllocator \<Rightarrow> block_ref \<Rightarrow> int list \<Rightarrow> 'd PrefixCachingBlockAllocator result" where
  "inner_append_token_ids E now a block token_ids =
     res_bind (pool_get (pa_pool a) block) (\<lambda>b.
     res_bind (append_token_ids_no_cow b token_ids) (\<lambda>b1.
       let a1 = pa_set_pool (pool_set (pa_pool a) block b1) a
       in if bl_block_id b1 = None then Inr a1
          else res_bind (cow_block_with E now a1 block (\<lambda>a. free_block_id_with E now a block None)) (\<lambda>(block_id, a2).
                 pa_set_block_id a2 block (Some block_id))))"

definition PrefixCachingBlock_append_token_ids ::
    "'d runtime \<Rightarrow> rat \<Rightarrow> 'd PrefixCachingBlockAllocator \<Rightarrow> block_ref \<Rightarrow> int list \<Rightarrow> 'd PrefixCachingBlockAllocator result" where
  "PrefixCachingBlock_append_token_ids E now a0 block token_ids =
     res_bind (pa_content_hash E a0 block) (\<lambda>(content_hash, a).
     res_bind (py_assert (content_hash = None)) (\<lambda>_.
     res_bind (pool_get (pa_pool a) block) (\<lambda>b.
     res_bind (py_assert (\<not> pb_computed b)) (\<lambda>_.
       if token_ids = [] then Inr a
       else res_bind (inner_append_token_ids E now a block token_ids) (\<lambda>a1.
            res_bind (PrefixCachingBlock_update_num_tokens_total (pa_pool a1) block) (\<lambda>p.
            res_bind (pa_content_hash E (pa_set_pool p a1) block) (\<lambda>(new_hash, a2).
              if new_hash = None then Inr a2
              else res_bind (PrefixCachingBlockAllocator_promote_to_immutable_block E a2 block) (\<lambda>(block_id, a3).
                     pa_set_block_id a3 block (Some block_id)))))))))"

end
