(* ===== verification/Prefix_Operations.thy ===== *)
theory Prefix_Operations
  imports Prefix_Allocator
begin

text \<open>
  The public operations of PrefixCachingBlockAllocator: allocation of mutable and immutable
  blocks, fork, swapping, the access and observation hooks, reset, and the lookup of the cached
  prefix of a list of block hashes.
\<close>

section \<open>Allocation\<close>

definition pa_init_block ::
    "'d PrefixCachingBlockAllocator \<Rightarrow> block_ref option \<Rightarrow> int list \<Rightarrow> int option \<Rightarrow> int option \<Rightarrow>
     (block_ref \<times> 'd PrefixCachingBlockAllocator) result" where
  "pa_init_block a prev_block token_ids physical_block_id extra_hash =
     res_bind (BlockPool_init_block PrefixCachingBlock_init (pa_pool a) prev_block token_ids (pa_block_size a)
        physical_block_id extra_hash) (\<lambda>(r, p). Inr (r, pa_set_pool p a))"

definition PrefixCachingBlockAllocator_allocate_mutable_block ::
    "'d runtime \<Rightarrow> rat \<Rightarrow> 'd PrefixCachingBlockAllocator \<Rightarrow> block_ref option \<Rightarrow> int option \<Rightarrow>
     (block_ref \<times> 'd PrefixCachingBlockAllocator) result" where
  "PrefixCachingBlockAllocator_allocate_mutable_block E now a prev_block extra_hash =
     res_bind (PrefixCachingBlockAllocator_allocate_block_id E now a) (\<lambda>(block_id, a1).
     res_bind (pa_init_block a1 prev_block [] (Some block_id) extra_hash) (\<lambda>(block, a2).
     res_bind (pool_get (pa_pool a2) block) (\<lambda>b.
     res_bind (py_assert (\<not> pb_computed b)) (\<lambda>_.
     res_bind (pa_content_hash E a2 block) (\<lambda>(content_hash, a3).
     res_bind (py_assert (content_hash = None)) (\<lambda>_. Inr (block, a3)))))))"

definition PrefixCachingBlockAllocator_query_scheduler_post_warmup_metric ::
    "'d PrefixCachingBlockAllocator \<Rightarrow> bool \<Rightarrow> 'd PrefixCachingBlockAllocator" where
  "PrefixCachingBlockAllocator_query_scheduler_post_warmup_metric a hit =
     (case pa_evictor a of
        LRUML e \<Rightarrow> if LRUMLEvictor_should_record_post_warmup_metric e
                    then a\<lparr>pa_scheduler_post_warmup_metric_data :=
                             CacheMetricData_query (pa_scheduler_post_warmup_metric_data a) hit\<rparr>
                    else a
      | _ \<Rightarrow> a)"

definition record_query :: "'d PrefixCachingBlockAllocator \<Rightarrow> bool \<Rightarrow> 'd PrefixCachingBlockAllocator" where
  "record_query a hit = PrefixCachingBlockAllocator_query_scheduler_post_warmup_metric
     (a\<lparr>pa_metric_data := CacheMetricData_query (pa_metric_data a) hit\<rparr>) hit"

definition PrefixCachingBlockAllocator_allocate_immutable_block ::
    "'d runtime \<Rightarrow> rat \<Rightarrow> 'd PrefixCachingBlockAllocator \<Rightarrow> block_ref option \<Rightarrow> int list \<Rightarrow> int option \<Rightarrow>
     (block_ref \<times> 'd PrefixCachingBlockAllocator) result" where
  "PrefixCachingBlockAllocator_allocate_immutable_block E now a0 prev_block token_ids extra_hash =
     res_bind (pa_init_block a0 prev_block token_ids None extra_hash) (\<lambda>(block, a1).
     res_bind (pa_content_hash E a1 block) (\<lambda>(content_hash, a).
     case content_hash of None \<Rightarrow> Inl AssertionError
     | Some h \<Rightarrow>
         (case dict_get (pa_cached_blocks a) h of
            Some cached_block_id \<Rightarrow>
              res_bind (dict_item (pa_block_table a) cached_block_id) (\<lambda>_.
              res_bind (pa_set_block_id (record_query a True) block (Some cached_block_id)) (\<lambda>a2.
              res_bind (PrefixCachingBlockAllocator_incr_refcount_cached_block E a2 block) (\<lambda>a3.
                Inr (block, a3))))
          | None \<Rightarrow>
              let a2 = record_query a False;
                  a3 = pa_set_pool (BlockPool_free_block (pa_pool a2) block) a2
              in res_bind (PrefixCachingBlockAllocator_allocate_mutable_block E now a3 prev_block extra_hash)
                   (\<lambda>(new_block, a4).
                 res_bind (PrefixCachingBlock_append_token_ids E now a4 new_block token_ids) (\<lambda>a5.
                   Inr (new_block, a5))))))"

text \<open>Each block of a prompt comes with the clock reading of its allocation.\<close>

fun PrefixCachingBlockAllocator_allocate_immutable_blocks ::
    "'d runtime \<Rightarrow> 'd PrefixCachingBlockAllocator \<Rightarrow> block_ref option \<Rightarrow> (rat \<times> int list) list \<Rightarrow> int option \<Rightarrow>
     (block_ref list \<times> 'd PrefixCachingBlockAllocator) result" where
  "PrefixCachingBlockAllocator_allocate_immutable_blocks E a prev_block [] extra_hash = Inr ([], a)"
| "PrefixCachingBlockAllocator_allocate_immutable_blocks E a prev_block ((now, token_ids) # rest) extra_hash =
     res_bind (PrefixCachingBlockAllocator_allocate_immutable_block E now a prev_block token_ids extra_hash) (\<lambda>(block, a1).
     res_bind (PrefixCachingBlockAllocator_allocate_immutable_blocks E a1 (Some block) rest extra_hash) (\<lambda>(blocks, a2).
       Inr (block # blocks, a2)))"

section \<open>Fork, swapping, copy on write\<close>

fun prefix_fork_blocks ::
    "block_ref option \<Rightarrow> block_ref list \<Rightarrow> 'd PrefixCachingBlockAllocator \<Rightarrow>
     (block_ref list \<times> 'd PrefixCachingBlockAllocator) result" where
  "prefix_fork_blocks prev_block [] a = Inr ([], a)"
| "prefix_fork_blocks prev_block (block # blocks) a =
     res_bind (pool_get (pa_pool a) block) (\<lambda>b.
     res_bind (pa_block_id a block) (\<lambda>block_id.
     res_bind (RefCounter_incr (pa_refcounter a) block_id) (\<lambda>(refcount, rc).
     res_bind (py_assert (refcount \<noteq> 1)) (\<lambda>_.
     res_bind (pa_init_block (pa_set_refcounter rc a) prev_block (bl_token_ids b) (Some block_id) (pb_extra_hash b))
       (\<lambda>(forked_block, a1).
     res_bind (prefix_fork_blocks (Some forked_block) blocks a1) (\<lambda>(forked_blocks, a2).
       Inr (forked_block # forked_blocks, a2)))))))"

definition PrefixCachingBlockAllocator_fork ::
    "'d PrefixCachingBlockAllocator \<Rightarrow> block_ref \<Rightarrow> (block_ref list \<times> 'd PrefixCachingBlockAllocator) result" where
  "PrefixCachingBlockAllocator_fork a last_block =
     res_bind (get_all_blocks_recursively (pa_pool a) last_block) (\<lambda>source_blocks.
       prefix_fork_blocks None source_blocks a)"

definition PrefixCachingBlockAllocator_clear_copy_on_writes ::
    "'d PrefixCachingBlockAllocator \<Rightarrow> (int \<times> int) list \<times> 'd PrefixCachingBlockAllocator" where
  "PrefixCachingBlockAllocator_clear_copy_on_writes a =
     (case CopyOnWriteTracker_clear_cows (pa_cow_tracker a) of (cows, t) \<Rightarrow> (cows, a\<lparr>pa_cow_tracker := t\<rparr>))"

definition PrefixCachingBlockAllocator_swap_out ::
    "'d runtime \<Rightarrow> 'd PrefixCachingBlockAllocator \<Rightarrow> (rat \<times> block_ref) list \<Rightarrow> 'd PrefixCachingBlockAllocator result" where
  "PrefixCachingBlockAllocator_swap_out E a blocks =
     res_fold (\<lambda>(now, block) a. PrefixCachingBlockAllocator_free_block_id E now a block) blocks a"

definition prefix_swap_in_block ::
    "'d runtime \<Rightarrow> rat \<Rightarrow> block_ref \<Rightarrow> 'd PrefixCachingBlockAllocator \<Rightarrow> 'd PrefixCachingBlockAllocator result" where
  "prefix_swap_in_block E now block a =
     res_bind (pool_get (pa_pool a) block) (\<lambda>b.
     res_bind (if is_full b
               then PrefixCachingBlockAllocator_allocate_immutable_block E now a (bl_prev_block b) (bl_token_ids b) (pb_extra_hash b)
               else res_bind (PrefixCachingBlockAllocator_allocate_mutable_block E now a (bl_prev_block b) (pb_extra_hash b))
                      (\<lambda>(r, a1). res_bind (PrefixCachingBlock_append_token_ids E now a1 r (bl_token_ids b)) (\<lambda>a2. Inr (r, a2))))
       (\<lambda>(tmp_block, a1).
     res_bind (block_id_of (pa_pool a1) tmp_block) (\<lambda>block_id.
       pa_set_block_id (pa_set_pool (BlockPool_free_block (pa_pool a1) tmp_block) a1) block block_id)))"

definition PrefixCachingBlockAllocator_swap_in ::
    "'d runtime \<Rightarrow> 'd PrefixCachingBlockAllocator \<Rightarrow> (rat \<times> block_ref) list \<Rightarrow> 'd PrefixCachingBlockAllocator result" where
  "PrefixCachingBlockAllocator_swap_in E a blocks = res_fold (\<lambda>(now, block). prefix_swap_in_block E now block) blocks a"

section \<open>Queries\<close>

definition PrefixCachingBlockAllocator_get_num_free_blocks :: "'d PrefixCachingBlockAllocator \<Rightarrow> nat" where
  "PrefixCachingBlockAllocator_get_num_free_blocks a =
     NaiveBlockAllocator_get_num_free_blocks (pa_hashless a) + evictor_num_blocks (pa_evictor a)"

definition PrefixCachingBlockAllocator_get_num_total_blocks :: "'d PrefixCachingBlockAllocator \<Rightarrow> nat" where
  "PrefixCachingBlockAllocator_get_num_total_blocks a = NaiveBlockAllocator_get_num_total_blocks (pa_hashless a)"

definition PrefixCachingBlockAllocator_get_physical_block_id :: "'d PrefixCachingBlockAllocator \<Rightarrow> int \<Rightarrow> nat result" where
  "PrefixCachingBlockAllocator_get_physical_block_id a absolute_id =
     list_index (sort (na_all_block_indices (pa_hashless a))) absolute_id"

fun evictor_stat_summary :: "rat \<Rightarrow> 'd evictor \<Rightarrow> 'd evictor" where
  "evictor_stat_summary clock (LRU e) = LRU (e\<lparr>lru_stat := snd (CacheStat_summary clock (lru_stat e))\<rparr>)"
| "evictor_stat_summary clock (PDP e) = PDP (e\<lparr>pdp_stat := snd (CacheStat_summary clock (pdp_stat e))\<rparr>)"
| "evictor_stat_summary clock (LRUML e) = LRUML (e\<lparr>ml_stat := snd (CacheStat_summary clock (ml_stat e))\<rparr>)"

definition PrefixCachingBlockAllocator_get_prefix_cache_hit_rate ::
    "rat \<Rightarrow> 'd PrefixCachingBlockAllocator \<Rightarrow> (rat \<times> 'd PrefixCachingBlockAllocator) result" where
  "PrefixCachingBlockAllocator_get_prefix_cache_hit_rate clock a =
     res_bind (CacheMetricData_get_hit_rate (pa_metric_data a)) (\<lambda>rate.
       Inr (rate, a\<lparr>pa_evictor := evictor_stat_summary clock (pa_evictor a)\<rparr>))"

definition PrefixCachingBlockAllocator_get_scheduler_post_warmup_prefix_cache_hit_rate ::
    "'d PrefixCachingBlockAllocator \<Rightarrow> rat result" where
  "PrefixCachingBlockAllocator_get_scheduler_post_warmup_prefix_cache_hit_rate a =
     (case pa_evictor a of
        LRUML e \<Rightarrow> if LRUMLEvictor_should_record_post_warmup_metric e
                    then CacheMetricData_get_hit_rate (pa_scheduler_post_warmup_metric_data a) else Inr (- 1)
      | _ \<Rightarrow> Inr (- 1))"

definition PrefixCachingBlockAllocator_is_block_cached ::
    "'d runtime \<Rightarrow> 'd PrefixCachingBlockAllocator \<Rightarrow> block_ref \<Rightarrow> (bool \<times> 'd PrefixCachingBlockAllocator) result" where
  "PrefixCachingBlockAllocator_is_block_cached E a block =
     res_bind (pa_content_hash E a block) (\<lambda>(content_hash, a1).
       case content_hash of None \<Rightarrow> Inl AssertionError
       | Some h \<Rightarrow> Inr (dict_has (pa_cached_blocks a1) h, a1))"

definition PrefixCachingBlockAllocator_block_is_computed :: "'d PrefixCachingBlockAllocator \<Rightarrow> int \<Rightarrow> bool result" where
  "PrefixCachingBlockAllocator_block_is_computed a block_id =
     res_bind (dict_item (pa_block_tracker a) block_id) (\<lambda>t.
       Inr (if bt_active t then bt_computed t else evictor_contains (pa_evictor a) block_id))"

definition touched_block ::
    "'d runtime \<Rightarrow> 'd PrefixCachingBlockAllocator \<Rightarrow> block_ref \<Rightarrow> (nat \<times> 'd PrefixCachingBlockAllocator) result" where
  "touched_block E a block =
     res_bind (pool_get (pa_pool a) block) (\<lambda>b.
       if \<not> is_full b then Inr (0, a)
       else res_bind (PrefixCachingBlockAllocator_is_block_cached E a block) (\<lambda>(cached, a1).
            if \<not> cached then Inr (1, a1)
            else res_bind (pa_content_hash E a1 block) (\<lambda>(content_hash, a2).
                 case content_hash of None \<Rightarrow> Inr (0, a2)
                 | Some h \<Rightarrow> res_bind (dict_item (pa_cached_blocks a2) h) (\<lambda>b.
                     Inr (if evictor_contains (pa_evictor a2) b then 1 else 0, a2)))))"

fun PrefixCachingBlockAllocator_get_num_full_blocks_touched ::
    "'d runtime \<Rightarrow> 'd PrefixCachingBlockAllocator \<Rightarrow> block_ref list \<Rightarrow> (nat \<times> 'd PrefixCachingBlockAllocator) result" where
  "PrefixCachingBlockAllocator_get_num_full_blocks_touched E a [] = Inr (0, a)"
| "PrefixCachingBlockAllocator_get_num_full_blocks_touched E a (block # blocks) =
     res_bind (touched_block E a block) (\<lambda>(n, a1).
     res_bind (PrefixCachingBlockAllocator_get_num_full_blocks_touched E a1 blocks) (\<lambda>(k, a2). Inr (n + k, a2)))"

text \<open>os.path.commonprefix compares the least and the greatest of the lists.\<close>

fun shared_prefix :: "'x list \<Rightarrow> 'x list \<Rightarrow> 'x list" where
  "shared_prefix (x # xs) (y # ys) = (if x = y then x # shared_prefix xs ys else [])"
| "shared_prefix xs ys = []"

definition commonprefix :: "int list list \<Rightarrow> int list" where
  "commonprefix m = (if m = [] then []
     else shared_prefix (min_from id (hd m) (tl m)) (max_from id (hd m) (tl m)))"

definition PrefixCachingBlockAllocator_get_common_computed_block_ids :: "int list list \<Rightarrow> int list" where
  "PrefixCachingBlockAllocator_get_common_computed_block_ids computed_seq_block_ids =
     (if length computed_seq_block_ids = 1 then hd computed_seq_block_ids
      else commonprefix (filter (\<lambda>ids. ids \<noteq> []) computed_seq_block_ids))"

section \<open>Access and observation hooks\<close>

definition mark_block_as_accessed ::
    "'d runtime \<Rightarrow> rat \<Rightarrow> rat \<Rightarrow> cache_hint option \<Rightarrow> int \<Rightarrow> 'd PrefixCachingBlockAllocator \<Rightarrow>
     'd PrefixCachingBlockAllocator result" where
  "mark_block_as_accessed E clock now cache_hint block_id a =
     res_bind (dict_item (pa_block_tracker a) block_id) (\<lambda>t.
       if bt_active t
       then res_bind (BlockTracker_overwrite_block_metadata (rt_exp E) t now cache_hint) (\<lambda>t1.
              Inr (set_tracker block_id t1 a))
       else if evictor_contains (pa_evictor a) block_id
       then res_bind (evictor_update (rt_ops E) (rt_exp E) clock (pa_evictor a) block_id now cache_hint) (\<lambda>e.
              Inr (a\<lparr>pa_evictor := e\<rparr>))
       else Inl ValueError)"

definition PrefixCachingBlockAllocator_mark_blocks_as_accessed ::
    "'d runtime \<Rightarrow> rat \<Rightarrow> 'd PrefixCachingBlockAllocator \<Rightarrow> int list \<Rightarrow> rat \<Rightarrow> cache_hint option \<Rightarrow>
     'd PrefixCachingBlockAllocator result" where
  "PrefixCachingBlockAllocator_mark_blocks_as_accessed E clock a block_ids now cache_hint =
     res_fold (mark_block_as_accessed E clock now cache_hint) block_ids a"

fun evictor_should_observe_cache_accesses :: "'d evictor \<Rightarrow> bool" where
  "evictor_should_observe_cache_accesses (LRU e) = False"
| "evictor_should_observe_cache_accesses (PDP e) = PDPEvictor_should_observe_cache_accesses e"
| "evictor_should_observe_cache_accesses (LRUML e) = LRUMLEvictor_should_observe_cache_accesses e"

definition observe_each ::
    "'d runtime \<Rightarrow> rat \<Rightarrow> (int \<Rightarrow> bool) \<Rightarrow> cache_hint option \<Rightarrow> int list \<Rightarrow> 'd LRUMLEvictor \<Rightarrow>
     'd LRUMLEvictor result" where
  "observe_each E now is_cached cache_hint block_hashes e =
     res_fold (\<lambda>block_hash e. LRUMLEvictor_observe_cache_access (rt_ops E) (rt_exp E) now e block_hash cache_hint
       (Some (is_cached block_hash))) block_hashes e"

definition PrefixCachingBlockAllocator_observe_cache_accesses ::
    "'d runtime \<Rightarrow> rat \<Rightarrow> 'd PrefixCachingBlockAllocator \<Rightarrow> int list \<Rightarrow> cache_hint option \<Rightarrow>
     'd PrefixCachingBlockAllocator result" where
  "PrefixCachingBlockAllocator_observe_cache_accesses E now a block_hashes cache_hint =
     (if \<not> evictor_should_observe_cache_accesses (pa_evictor a) then Inr a
      else case pa_evictor a of
        LRU e \<Rightarrow> Inr a
      | PDP e \<Rightarrow>
          res_bind (PDPEvictor_observe_cache_accesses e block_hashes
              (Some (map (\<lambda>h. dict_has (pa_cached_blocks a) h) block_hashes))) (\<lambda>e1. Inr (a\<lparr>pa_evictor := PDP e1\<rparr>))
      | LRUML e \<Rightarrow>
          res_bind (observe_each E now (\<lambda>h. dict_has (pa_cached_blocks a) h) cache_hint block_hashes e) (\<lambda>e1.
            Inr (a\<lparr>pa_evictor := LRUML e1\<rparr>)))"

definition PrefixCachingBlockAllocator_should_predict_cache_hint :: "'d PrefixCachingBlockAllocator \<Rightarrow> bool" where
  "PrefixCachingBlockAllocator_should_predict_cache_hint a =
     (case pa_evictor a of LRU e \<Rightarrow> True
      | PDP e \<Rightarrow> PDPEvictor_should_predict_cache_hint e
      | LRUML e \<Rightarrow> LRUMLEvictor_should_predict_cache_hint e)"

text \<open>Whether the constructor starts the predictor thread.\<close>

definition should_start_predictor :: "'d PrefixCachingBlockAllocator \<Rightarrow> bool" where
  "should_start_predictor a \<longleftrightarrow> pa_eviction_algorithm a \<noteq> ''lru'' \<and> PrefixCachingBlockAllocator_should_predict_cache_hint a"

definition mark_block_as_computed :: "int \<Rightarrow> 'd PrefixCachingBlockAllocator \<Rightarrow> 'd PrefixCachingBlockAllocator result" where
  "mark_block_as_computed block_id a =
     res_bind (dict_item (pa_block_tracker a) block_id) (\<lambda>t. Inr (set_tracker block_id (t\<lparr>bt_computed := True\<rparr>) a))"

definition PrefixCachingBlockAllocator_mark_blocks_as_computed ::
    "'d PrefixCachingBlockAllocator \<Rightarrow> int list \<Rightarrow> 'd PrefixCachingBlockAllocator result" where
  "PrefixCachingBlockAllocator_mark_blocks_as_computed a block_ids =
     res_bind (res_fold mark_block_as_computed (pa_touched_blocks a) a) (\<lambda>a1. Inr (a1\<lparr>pa_touched_blocks := []\<rparr>))"

section \<open>Reset\<close>

fun reset_evict_loop :: "'d runtime \<Rightarrow> rat \<Rightarrow> nat \<Rightarrow> 'd PrefixCachingBlockAllocator \<Rightarrow> 'd PrefixCachingBlockAllocator result" where
  "reset_evict_loop E now 0 a = Inl Diverges"
| "reset_evict_loop E now (Suc fuel) a =
     res_bind (PrefixCachingBlockAllocator_maybe_allocate_evicted_block_id E now a) (\<lambda>(found, a1).
       case found of None \<Rightarrow> Inr a1
       | Some block_id \<Rightarrow>
           res_bind (NaiveBlockAllocator_free_block_id (pa_hashless a1) block_id) (\<lambda>h.
             reset_evict_loop E now fuel (a1\<lparr>pa_hashless := h\<rparr>)))"

definition PrefixCachingBlockAllocator_reset_prefix_cache ::
    "'d runtime \<Rightarrow> rat \<Rightarrow> 'd PrefixCachingBlockAllocator \<Rightarrow> (bool \<times> 'd PrefixCachingBlockAllocator) result" where
  "PrefixCachingBlockAllocator_reset_prefix_cache E now a0 =
     (let a = a0\<lparr>pa_metric_data := CacheMetricData_init, pa_scheduler_post_warmup_metric_data := CacheMetricData_init\<rparr>;
          num_used_blocks = int (PrefixCachingBlockAllocator_get_num_total_blocks a)
            - int (PrefixCachingBlockAllocator_get_num_free_blocks a)
      in if num_used_blocks > 0 then Inr (False, a)
         else res_bind (reset_evict_loop E now (Suc (evictor_num_blocks (pa_evictor a))) a) (\<lambda>a1.
              res_bind (py_assert (pa_cached_blocks a1 = [])) (\<lambda>_.
              res_bind (new_evictor E now (pa_eviction_algorithm a1) (pa_eviction_algorithm_config a1)
                  (int (PrefixCachingBlockAllocator_get_num_total_blocks a1))) (\<lambda>e.
                Inr (True, a1\<lparr>pa_evictor := e,
                  pa_block_tracker := map (\<lambda>(b, _). (b, BlockTracker_init)) (pa_block_tracker a1)\<rparr>)))))"

section \<open>The cached prefix of a list of block hashes\<close>

definition block_is_cached :: "'d PrefixCachingBlockAllocator \<Rightarrow> int \<Rightarrow> bool result" where
  "block_is_cached a block_hash =
     (case dict_get (pa_cached_blocks a) block_hash of None \<Rightarrow> Inr False
      | Some cached_block_id \<Rightarrow> PrefixCachingBlockAllocator_block_is_computed a cached_block_id)"

text \<open>bisect_left of the standard library, for the sought value True.\<close>

function bisect_left_true :: "('x \<Rightarrow> bool result) \<Rightarrow> 'x list \<Rightarrow> nat \<Rightarrow> nat \<Rightarrow> nat result" where
  "bisect_left_true key xs lo hi =
     (if lo < hi
      then let mid = (lo + hi) div 2
           in res_bind (key (xs ! mid)) (\<lambda>k.
                if \<not> k then bisect_left_true key xs (mid + 1) hi else bisect_left_true key xs lo mid)
      else Inr lo)"
  by pat_completeness auto
termination by (relation "measure (\<lambda>(key, xs, lo, hi). hi - lo)") auto

declare bisect_left_true.simps [simp del]

definition PrefixCachingBlockAllocator_find_cached_blocks_prefix ::
    "'d PrefixCachingBlockAllocator \<Rightarrow> int list \<Rightarrow> int list result" where
  "PrefixCachingBlockAllocator_find_cached_blocks_prefix a block_hashes =
     res_bind (bisect_left_true (\<lambda>h. res_bind (block_is_cached a h) (\<lambda>c. Inr (\<not> c))) block_hashes 0 (length block_hashes))
       (\<lambda>idx. Inr (take idx block_hashes))"

end
