(* ===== verification/Prefix_Correct.thy ===== *)
theory Prefix_Correct
  imports Prefix_Operations
begin

text \<open>
  Correctness of the prefix-caching allocator at the level of block ids: every block is free in
  the hashless allocator, in use, or cached and waiting in the evictor, and each operation moves
  blocks between these states as its contract says.
\<close>

definition pa_refs :: "'d PrefixCachingBlockAllocator \<Rightarrow> int \<Rightarrow> int option" where
  "pa_refs a = dict_get (pa_refcounter a)"

definition pa_view :: "'d PrefixCachingBlockAllocator \<Rightarrow> int \<rightharpoonup> int" where
  "pa_view a = evictor_view (pa_evictor a)"

definition pa_cached :: "'d PrefixCachingBlockAllocator \<Rightarrow> int \<rightharpoonup> int" where
  "pa_cached a = dict_get (pa_cached_blocks a)"

abbreviation pa_free :: "'d PrefixCachingBlockAllocator \<Rightarrow> int list" where
  "pa_free a \<equiv> na_free_block_indices (pa_hashless a)"

text \<open>
  The invariant. A tracker is active exactly for a referenced block; an unreferenced block is
  free or waits in the evictor; a waiting block is the cached block of the hash it waits with;
  a cached block is referenced or waits with its hash; no block is cached under two hashes.
\<close>

definition pa_states_ok ::
    "(int \<rightharpoonup> int) \<Rightarrow> (int \<rightharpoonup> int) \<Rightarrow> (int \<rightharpoonup> int) \<Rightarrow> int set \<Rightarrow> (int \<rightharpoonup> BlockTracker) \<Rightarrow> bool" where
  "pa_states_ok refs view cached free tracker \<longleftrightarrow>
     dom tracker = dom refs \<and>
     (\<forall>b t. tracker b = Some t \<longrightarrow> bt_active t = (refs b \<noteq> Some 0)) \<and>
     free = {b. refs b = Some 0 \<and> view b = None} \<and>
     (\<forall>b h. view b = Some h \<longrightarrow> refs b = Some 0 \<and> cached h = Some b) \<and>
     (\<forall>h b. cached h = Some b \<longrightarrow> refs b \<noteq> None \<and> (refs b = Some 0 \<longrightarrow> view b = Some h)) \<and>
     (\<forall>h h' b. cached h = Some b \<longrightarrow> cached h' = Some b \<longrightarrow> h = h')"

definition pa_inv :: "('d \<Rightarrow> (score_key \<times> (int \<times> int)) list) \<Rightarrow> 'd PrefixCachingBlockAllocator \<Rightarrow> bool" where
  "pa_inv items a \<longleftrightarrow>
     ids_ok (pa_hashless a) \<and> pool_ok (pa_pool a) \<and> 0 < bp_pool_size (pa_pool a) \<and> na_block_size (pa_hashless a) = pa_block_size a \<and>
     evictor_inv items (pa_evictor a) \<and> dict_ok (pa_block_tracker a) \<and> dict_ok (pa_cached_blocks a) \<and>
     pa_states_ok (pa_refs a) (pa_view a) (pa_cached a) (set (pa_free a)) (dict_get (pa_block_tracker a)) \<and>
     (\<forall>b \<in> ran (pa_cached a). dict_has (pa_block_table a) b)"

lemma pa_set_simps [simp]:
  "pa_pool (pa_set_pool p a) = p" "pa_refcounter (pa_set_pool p a) = pa_refcounter a"
  "pa_free (pa_set_pool p a) = pa_free a" "pa_evictor (pa_set_pool p a) = pa_evictor a"
  "pa_cached_blocks (pa_set_pool p a) = pa_cached_blocks a" "pa_block_tracker (pa_set_pool p a) = pa_block_tracker a"
  "pa_block_table (pa_set_pool p a) = pa_block_table a" "pa_cow_tracker (pa_set_pool p a) = pa_cow_tracker a"
  "pa_block_size (pa_set_pool p a) = pa_block_size a" "pa_metric_data (pa_set_pool p a) = pa_metric_data a"
  "pa_touched_blocks (pa_set_pool p a) = pa_touched_blocks a"
  "pa_refs (pa_set_pool p a) = pa_refs a" "pa_view (pa_set_pool p a) = pa_view a" "pa_cached (pa_set_pool p a) = pa_cached a"
  "pa_set_pool p (pa_set_pool q a) = pa_set_pool p a" "pa_set_pool (pa_pool a) a = a"
  "na_all_block_indices (pa_hashless (pa_set_pool p a)) = na_all_block_indices (pa_hashless a)"
  "na_block_size (pa_hashless (pa_set_pool p a)) = na_block_size (pa_hashless a)"
  by (simp_all add: pa_set_pool_def pa_refs_def pa_view_def pa_cached_def)

lemma pa_rc_simps [simp]:
  "pa_pool (pa_set_refcounter rc a) = pa_pool a" "pa_refcounter (pa_set_refcounter rc a) = rc"
  "pa_free (pa_set_refcounter rc a) = pa_free a" "pa_evictor (pa_set_refcounter rc a) = pa_evictor a"
  "pa_cached_blocks (pa_set_refcounter rc a) = pa_cached_blocks a" "pa_block_tracker (pa_set_refcounter rc a) = pa_block_tracker a"
  "pa_block_table (pa_set_refcounter rc a) = pa_block_table a" "pa_cow_tracker (pa_set_refcounter rc a) = pa_cow_tracker a"
  "pa_block_size (pa_set_refcounter rc a) = pa_block_size a" "pa_metric_data (pa_set_refcounter rc a) = pa_metric_data a"
  "pa_touched_blocks (pa_set_refcounter rc a) = pa_touched_blocks a"
  "pa_refs (pa_set_refcounter rc a) = dict_get rc" "pa_view (pa_set_refcounter rc a) = pa_view a"
  "pa_cached (pa_set_refcounter rc a) = pa_cached a"
  "na_all_block_indices (pa_hashless (pa_set_refcounter rc a)) = na_all_block_indices (pa_hashless a)"
  "na_block_size (pa_hashless (pa_set_refcounter rc a)) = na_block_size (pa_hashless a)"
  by (simp_all add: pa_set_refcounter_def pa_refs_def pa_view_def pa_cached_def)

lemma pa_tracker_simps [simp]:
  "pa_hashless (set_tracker b t a) = pa_hashless a" "pa_evictor (set_tracker b t a) = pa_evictor a"
  "pa_cached_blocks (set_tracker b t a) = pa_cached_blocks a"
  "pa_block_tracker (set_tracker b t a) = dict_set b t (pa_block_tracker a)"
  "pa_block_table (set_tracker b t a) = pa_block_table a" "pa_cow_tracker (set_tracker b t a) = pa_cow_tracker a"
  "pa_block_size (set_tracker b t a) = pa_block_size a" "pa_metric_data (set_tracker b t a) = pa_metric_data a"
  "pa_touched_blocks (set_tracker b t a) = pa_touched_blocks a"
  "pa_refs (set_tracker b t a) = pa_refs a" "pa_view (set_tracker b t a) = pa_view a" "pa_cached (set_tracker b t a) = pa_cached a"
  by (simp_all add: set_tracker_def pa_refs_def pa_view_def pa_cached_def)

lemma pa_inv_pool:
  "pa_inv items a \<Longrightarrow> pool_ok p \<Longrightarrow> 0 < bp_pool_size p \<Longrightarrow> pa_inv items (pa_set_pool p a)"
  by (simp add: pa_inv_def ids_ok_def)

lemma pa_inv_poolD: "pa_inv items a \<Longrightarrow> pool_ok (pa_pool a)" "pa_inv items a \<Longrightarrow> 0 < bp_pool_size (pa_pool a)"
  by (simp_all add: pa_inv_def)

lemma pa_inv_rc: "pa_inv items a \<Longrightarrow> rc_ok (pa_refcounter a)"
  by (simp add: pa_inv_def ids_ok_def)

lemma pa_states_okD:
  assumes "pa_states_ok refs view cached free tracker"
  shows "dom tracker = dom refs" "\<And>b t. tracker b = Some t \<Longrightarrow> bt_active t = (refs b \<noteq> Some 0)"
    "free = {b. refs b = Some 0 \<and> view b = None}" "\<And>b h. view b = Some h \<Longrightarrow> refs b = Some 0 \<and> cached h = Some b"
    "\<And>h b. cached h = Some b \<Longrightarrow> refs b \<noteq> None" "\<And>h b. cached h = Some b \<Longrightarrow> refs b = Some 0 \<Longrightarrow> view b = Some h"
    "\<And>h h' b. cached h = Some b \<Longrightarrow> cached h' = Some b \<Longrightarrow> h = h'"
  using assms unfolding pa_states_ok_def by blast+

lemma pa_inv_states: "pa_inv items a \<Longrightarrow>
    pa_states_ok (pa_refs a) (pa_view a) (pa_cached a) (set (pa_free a)) (dict_get (pa_block_tracker a))"
  by (simp add: pa_inv_def)

lemma pa_tracker_active:
  assumes "pa_inv items a" "pa_refs a b = Some n"
  shows "\<exists>t. dict_get (pa_block_tracker a) b = Some t \<and> bt_active t = (n \<noteq> 0)"
proof -
  note s = pa_states_okD[OF pa_inv_states[OF assms(1)]]
  have "b \<in> dom (dict_get (pa_block_tracker a))" using s(1) assms(2) by auto
  then obtain t where "dict_get (pa_block_tracker a) b = Some t" by auto
  then show ?thesis using s(2)[of b t] assms(2) by auto
qed

lemma track_ok:
  assumes "dict_get (pa_block_tracker a) b = Some t" "\<not> bt_active t"
  shows "\<exists>t'. PrefixCachingBlockAllocator_track_block_id a b c = Inr (set_tracker b t' a) \<and> bt_active t' \<and> bt_computed t' = c"
  using assms by (auto simp: PrefixCachingBlockAllocator_track_block_id_def dict_item_def BlockTracker_enable_def BlockTracker_reset_def
      intro!: exI[of _ "t\<lparr>bt_active := True, bt_last_accessed := DEFAULT_LAST_ACCESSED_TIME, bt_cache_hint := None, bt_computed := c\<rparr>"])

lemma untrack_ok:
  assumes "dict_get (pa_block_tracker a) b = Some t" "bt_active t"
  shows "\<exists>t'. PrefixCachingBlockAllocator_untrack_block_id a b = Inr (set_tracker b t' a) \<and> \<not> bt_active t'"
  using assms by (auto simp: PrefixCachingBlockAllocator_untrack_block_id_def dict_item_def BlockTracker_disable_def BlockTracker_reset_def
      intro!: exI[of _ "t\<lparr>bt_active := False, bt_last_accessed := DEFAULT_LAST_ACCESSED_TIME, bt_cache_hint := None, bt_computed := False\<rparr>"])

section \<open>Moves between the states\<close>

lemma pa_states_okI:
  assumes "dom tracker = dom refs" "\<And>b t. tracker b = Some t \<Longrightarrow> bt_active t = (refs b \<noteq> Some 0)"
    "\<And>b. b \<in> free \<longleftrightarrow> refs b = Some 0 \<and> view b = None" "\<And>b h. view b = Some h \<Longrightarrow> refs b = Some 0 \<and> cached h = Some b"
    "\<And>h b. cached h = Some b \<Longrightarrow> refs b \<noteq> None" "\<And>h b. cached h = Some b \<Longrightarrow> refs b = Some 0 \<Longrightarrow> view b = Some h"
    "\<And>h h' b. cached h = Some b \<Longrightarrow> cached h' = Some b \<Longrightarrow> h = h'"
  shows "pa_states_ok refs view cached free tracker"
  using assms unfolding pa_states_ok_def by blast

lemma states_take_free:
  assumes st: "pa_states_ok refs view cached free tracker" and a: "b \<in> free" "bt_active t"
  shows "pa_states_ok (refs(b \<mapsto> 1)) view cached (free - {b}) (tracker(b \<mapsto> t))"
proof -
  note s = pa_states_okD[OF st]
  show ?thesis
  proof (rule pa_states_okI, goal_cases)
    case 1 show ?case using s(1) a by auto
  next
    case (2 c u) then show ?case using s(2)[of c u] a by (auto split: if_splits)
  next
    case (3 c) then show ?case using s(3) a by (auto split: if_splits)
  next
    case (4 c h') then show ?case using s(3) s(4)[of c h'] a by (auto split: if_splits)
  next
    case (5 h' c) then show ?case using s(5)[of h' c] a by (auto split: if_splits)
  next
    case (6 h' c) then show ?case using s(6)[of h' c] s(6)[of h' b] a by (auto split: if_splits)
  next
    case (7 h1 h2 c) then show ?case using s(7)[of h1 c h2] a by (auto split: if_splits)
  qed
qed

lemma states_take_cached:
  assumes st: "pa_states_ok refs view cached free tracker" and a: "view b = Some h" "bt_active t"
  shows "pa_states_ok (refs(b \<mapsto> 1)) (view(b := None)) (cached(h := None)) free (tracker(b \<mapsto> t))"
proof -
  note s = pa_states_okD[OF st]
  show ?thesis
  proof (rule pa_states_okI, goal_cases)
    case 1 show ?case using s(1) a by auto
  next
    case (2 c u) then show ?case using s(2)[of c u] a by (auto split: if_splits)
  next
    case (3 c) then show ?case using s(3) a by (auto split: if_splits)
  next
    case (4 c h') then show ?case using s(4)[of c h'] s(4)[of b h] s(7)[of h' b] a by (auto split: if_splits)
  next
    case (5 h' c) then show ?case using s(5)[of h' c] a by (auto split: if_splits)
  next
    case (6 h' c) then show ?case using s(6)[of h' c] a by (auto split: if_splits)
  next
    case (7 h1 h2 c) then show ?case using s(7)[of h1 c h2] a by (auto split: if_splits)
  qed
qed

lemma states_revive:
  assumes st: "pa_states_ok refs view cached free tracker" and a: "view b = Some h" "bt_active t"
  shows "pa_states_ok (refs(b \<mapsto> 1)) (view(b := None)) cached free (tracker(b \<mapsto> t))"
proof -
  note s = pa_states_okD[OF st]
  show ?thesis
  proof (rule pa_states_okI, goal_cases)
    case 1 show ?case using s(1) a by auto
  next
    case (2 c u) then show ?case using s(2)[of c u] a by (auto split: if_splits)
  next
    case (3 c) then show ?case using s(3) a by (auto split: if_splits)
  next
    case (4 c h') then show ?case using s(4)[of c h'] s(4)[of b h] s(7)[of h' b] a by (auto split: if_splits)
  next
    case (5 h' c) then show ?case using s(5)[of h' c] a by (auto split: if_splits)
  next
    case (6 h' c) then show ?case using s(6)[of h' c] s(4)[of b h] s(7)[of h' b h] a by (auto split: if_splits)
  next
    case (7 h1 h2 c) then show ?case using s(7)[of h1 c h2] a by (auto split: if_splits)
  qed
qed

lemma states_count:
  assumes st: "pa_states_ok refs view cached free tracker" and a: "refs b = Some n" "n \<noteq> 0" "m \<noteq> 0"
  shows "pa_states_ok (refs(b \<mapsto> m)) view cached free tracker"
proof -
  note s = pa_states_okD[OF st]
  show ?thesis
  proof (rule pa_states_okI, goal_cases)
    case 1 show ?case using s(1) a by auto
  next
    case (2 c u) then show ?case using s(2)[of c u] a by (auto split: if_splits)
  next
    case (3 c) then show ?case using s(3) a by (auto split: if_splits)
  next
    case (4 c h') then show ?case using s(4)[of c h'] a by (auto split: if_splits)
  next
    case (5 h' c) then show ?case using s(5)[of h' c] a by (auto split: if_splits)
  next
    case (6 h' c) then show ?case using s(6)[of h' c] a by (auto split: if_splits)
  next
    case (7 h1 h2 c) then show ?case using s(7)[of h1 c h2] a by (auto split: if_splits)
  qed
qed

lemma states_rest:
  assumes st: "pa_states_ok refs view cached free tracker" and a: "refs b = Some n" "n \<noteq> 0" "cached h = Some b" "\<not> bt_active t"
  shows "pa_states_ok (refs(b \<mapsto> 0)) (view(b \<mapsto> h)) cached free (tracker(b \<mapsto> t))"
proof -
  note s = pa_states_okD[OF st]
  show ?thesis
  proof (rule pa_states_okI, goal_cases)
    case 1 show ?case using s(1) a by auto
  next
    case (2 c u) then show ?case using s(2)[of c u] a by (auto split: if_splits)
  next
    case (3 c) then show ?case using s(3) a by (auto split: if_splits)
  next
    case (4 c h') then show ?case using s(4)[of c h'] a by (auto split: if_splits)
  next
    case (5 h' c) then show ?case using s(5)[of h' c] a by (auto split: if_splits)
  next
    case (6 h' c) then show ?case using s(6)[of h' c] s(4)[of b h] s(7)[of h' b h] a by (auto split: if_splits)
  next
    case (7 h1 h2 c) then show ?case using s(7)[of h1 c h2] a by (auto split: if_splits)
  qed
qed

lemma states_drop:
  assumes st: "pa_states_ok refs view cached free tracker" and a: "refs b = Some n" "n \<noteq> 0" "b \<notin> ran cached" "\<not> bt_active t"
  shows "pa_states_ok (refs(b \<mapsto> 0)) view cached (insert b free) (tracker(b \<mapsto> t))"
proof -
  note s = pa_states_okD[OF st]
  show ?thesis
  proof (rule pa_states_okI, goal_cases)
    case 1 show ?case using s(1) a by auto
  next
    case (2 c u) then show ?case using s(2)[of c u] a by (auto simp: ran_def split: if_splits)
  next
    case (3 c) then show ?case using s(3) s(4)[of b "the (view b)"] a by (cases "view b") (auto split: if_splits)
  next
    case (4 c h') then show ?case using s(4)[of c h'] a by (auto simp: ran_def split: if_splits)
  next
    case (5 h' c) then show ?case using s(5)[of h' c] a by (auto simp: ran_def split: if_splits)
  next
    case (6 h' c) then show ?case using s(6)[of h' c] a by (auto simp: ran_def split: if_splits)
  next
    case (7 h1 h2 c) then show ?case using s(7)[of h1 c h2] a by (auto simp: ran_def split: if_splits)
  qed
qed

lemma states_cache:
  assumes st: "pa_states_ok refs view cached free tracker" and a: "refs b = Some n" "n \<noteq> 0" "b \<notin> ran cached" "cached h = None"
  shows "pa_states_ok refs view (cached(h \<mapsto> b)) free tracker"
proof -
  note s = pa_states_okD[OF st]
  show ?thesis
  proof (rule pa_states_okI, goal_cases)
    case 1 show ?case using s(1) a by auto
  next
    case (2 c u) then show ?case using s(2)[of c u] a by (auto simp: ran_def split: if_splits)
  next
    case (3 c) then show ?case using s(3) a by (auto simp: ran_def split: if_splits)
  next
    case (4 c h') then show ?case using s(4)[of c h'] s(4)[of b h] s(7)[of h' b] a by (auto simp: ran_def split: if_splits)
  next
    case (5 h' c) then show ?case using s(5)[of h' c] a by (auto simp: ran_def split: if_splits)
  next
    case (6 h' c) then show ?case using s(6)[of h' c] s(4)[of b h] s(7)[of h' b h] a by (auto simp: ran_def split: if_splits)
  next
    case (7 h1 h2 c) then show ?case using s(7)[of h1 c h2] a by (auto simp: ran_def split: if_splits)
  qed
qed

section \<open>Block objects\<close>

definition prev_ok :: "prefix_block BlockPool \<Rightarrow> block_ref option \<Rightarrow> bool" where
  "prev_ok p prev \<longleftrightarrow> (case prev of None \<Rightarrow> True | Some q \<Rightarrow> q < length (bp_pool p))"

lemma prefix_factory_ok:
  assumes "int (length toks) \<le> sz \<or> toks = []" "case prev of None \<Rightarrow> True | Some q \<Rightarrow> q < length pool"
  shows "\<exists>b. PrefixCachingBlock_init pool prev toks sz i x = Inr b \<and> bl_prev_block b = prev \<and> bl_token_ids b = toks \<and>
     bl_block_size b = sz \<and> bl_block_id b = i \<and> pb_cached_content_hash b = None \<and> \<not> pb_computed b \<and> pb_extra_hash b = x"
  using assms by (auto simp: PrefixCachingBlock_init_def append_token_ids_no_cow_def num_empty_slots_def num_tokens_total_from_def
      split: option.splits)

lemma grow_pool_prefix: "\<exists>pool'. grow_pool PrefixCachingBlock_init sz n pool = Inr pool'"
proof (induction n arbitrary: pool)
  case (Suc n)
  obtain b where "PrefixCachingBlock_init pool None [] sz None None = Inr b"
    using prefix_factory_ok[of "[]" sz pool None None None] by auto
  then show ?case using Suc.IH[of "pool @ [b]"] by simp
qed simp

lemma prefix_init_total:
  assumes "pool_ok p" "0 < bp_pool_size p" "int (length toks) \<le> sz \<or> toks = []" "prev_ok p prev"
  shows "\<exists>r p'. BlockPool_init_block PrefixCachingBlock_init p prev toks sz i x = Inr (r, p')"
proof -
  obtain p1 where p1: "(if bp_free_ids p = [] then BlockPool_increase_pool PrefixCachingBlock_init p else Inr p) = Inr p1"
    "pool_ok p1" "bp_free_ids p1 \<noteq> []" "length (bp_pool p) \<le> length (bp_pool p1)"
  proof (cases "bp_free_ids p = []")
    case True
    obtain pool where g: "grow_pool PrefixCachingBlock_init (bp_block_size p) (bp_pool_size p * 2 - bp_pool_size p) (bp_pool p) = Inr pool"
      using grow_pool_prefix by blast
    let ?q = "p\<lparr>bp_pool_size := bp_pool_size p * 2, bp_free_ids := bp_free_ids p @ [bp_pool_size p..<bp_pool_size p * 2], bp_pool := pool\<rparr>"
    have q: "BlockPool_increase_pool PrefixCachingBlock_init p = Inr ?q" using g by (simp add: BlockPool_increase_pool_def Let_def)
    have "length (bp_pool p) \<le> length pool" using grow_pool_appends[OF g] by auto
    then show ?thesis using that[of ?q] True q increase_pool_ok(1)[OF assms(1) q] assms(2) by simp
  qed (use that[of p] assms(1) in simp)
  obtain r free where r: "bp_free_ids p1 = r # free" using p1(3) by (cases "bp_free_ids p1") auto
  then have rl: "r < length (bp_pool p1)" using p1(2) by (auto simp: pool_ok_def)
  have "case prev of None \<Rightarrow> True | Some q \<Rightarrow> q < length (bp_pool p1)" using assms(4) p1(4) by (auto simp: prev_ok_def split: option.splits)
  from prefix_factory_ok[OF assms(3) this] obtain b where "PrefixCachingBlock_init (bp_pool p1) prev toks sz i x = Inr b" by blast
  then show ?thesis using p1(1) r rl by (simp add: BlockPool_init_block_def)
qed

text \<open>A fresh object as the pool hands it out.\<close>

lemma prefix_init_block_ok:
  assumes "pool_ok p" "0 < bp_pool_size p" "int (length toks) \<le> sz \<or> toks = []" "prev_ok p prev"
  shows "\<exists>r p'. BlockPool_init_block PrefixCachingBlock_init p prev toks sz i x = Inr (r, p') \<and>
     pool_ok p' \<and> 0 < bp_pool_size p' \<and> r \<notin> pool_live p \<and> r < length (bp_pool p') \<and> pool_live p' = insert r (pool_live p) \<and>
     length (bp_pool p) \<le> length (bp_pool p') \<and> (\<forall>q \<in> pool_live p. bp_pool p' ! q = bp_pool p ! q) \<and>
     bl_prev_block (bp_pool p' ! r) = prev \<and> bl_token_ids (bp_pool p' ! r) = toks \<and> bl_block_size (bp_pool p' ! r) = sz \<and>
     bl_block_id (bp_pool p' ! r) = i \<and> pb_cached_content_hash (bp_pool p' ! r) = None \<and>
     \<not> pb_computed (bp_pool p' ! r) \<and> pb_extra_hash (bp_pool p' ! r) = x"
proof -
  obtain r p' where i: "BlockPool_init_block PrefixCachingBlock_init p prev toks sz i x = Inr (r, p')"
    using prefix_init_total[OF assms] by blast
  note k = init_block_ok[OF assms(1) i]
  have fit: "case prev of None \<Rightarrow> True | Some q \<Rightarrow> q < length pool"
    if "PrefixCachingBlock_init pool prev toks sz i x = Inr b" for pool b
    using that by (auto simp: PrefixCachingBlock_init_def append_token_ids_no_cow_def num_tokens_total_from_def
        split: option.splits if_splits elim!: res_bind_InrE)
  obtain pool where pl: "PrefixCachingBlock_init pool prev toks sz i x = Inr (bp_pool p' ! r)" using k(5) by blast
  from prefix_factory_ok[OF assms(3) fit[OF pl], of i x] pl
  have "bl_prev_block (bp_pool p' ! r) = prev \<and> bl_token_ids (bp_pool p' ! r) = toks \<and> bl_block_size (bp_pool p' ! r) = sz \<and>
     bl_block_id (bp_pool p' ! r) = i \<and> pb_cached_content_hash (bp_pool p' ! r) = None \<and>
     \<not> pb_computed (bp_pool p' ! r) \<and> pb_extra_hash (bp_pool p' ! r) = x" by simp
  moreover have "0 < bp_pool_size p'" using k(1,6) by (simp add: pool_ok_def)
  ultimately show ?thesis using i k(1-4,6,7) by blast
qed

section \<open>Allocation of an id\<close>

lemma pa_inv_ids:
  assumes "pa_inv items a"
  shows "distinct (pa_free a)" "dom (pa_refs a) = set (na_all_block_indices (pa_hashless a))" "rc_ok (pa_refcounter a)"
    "dict_ok (pa_block_tracker a)" "dict_ok (pa_cached_blocks a)"
  using assms by (simp_all add: pa_inv_def ids_ok_def pa_refs_def)

definition same_objects :: "prefix_block BlockPool \<Rightarrow> prefix_block BlockPool \<Rightarrow> bool" where
  "same_objects p p' \<longleftrightarrow> pool_live p' = pool_live p \<and> length (bp_pool p) \<le> length (bp_pool p') \<and>
     (\<forall>q \<in> pool_live p. bp_pool p' ! q = bp_pool p ! q)"

text \<open>What the allocation of an id leaves alone.\<close>

definition pa_frame :: "'d PrefixCachingBlockAllocator \<Rightarrow> 'd PrefixCachingBlockAllocator \<Rightarrow> bool" where
  "pa_frame a a' \<longleftrightarrow> same_objects (pa_pool a) (pa_pool a') \<and> pa_block_size a' = pa_block_size a \<and>
     pa_cow_tracker a' = pa_cow_tracker a \<and> pa_metric_data a' = pa_metric_data a \<and>
     pa_block_table a' = pa_block_table a \<and> pa_touched_blocks a' = pa_touched_blocks a \<and>
     na_all_block_indices (pa_hashless a') = na_all_block_indices (pa_hashless a)"

lemma pa_frame_refl [simp]: "pa_frame a a"
  by (simp add: pa_frame_def same_objects_def)

lemma naive_mutable_prefix:
  assumes inv: "pa_inv items a" and f: "pa_free a = b # free"
  shows "\<exists>r p. NaiveBlockAllocator_allocate_mutable_block PrefixCachingBlock_init (pa_hashless a) None =
       Inr (r, (pa_hashless a)\<lparr>na_free_block_indices := free, na_refcounter := dict_set b 1 (pa_refcounter a), na_block_pool := p\<rparr>) \<and>
     bl_block_id (bp_pool p ! r) = Some b \<and> r < length (bp_pool p) \<and>
     pool_ok (BlockPool_free_block p r) \<and> 0 < bp_pool_size p \<and> same_objects (pa_pool a) (BlockPool_free_block p r)"
proof -
  have z: "pa_refs a b = Some 0" using pa_states_okD(3)[OF pa_inv_states[OF inv]] f by auto
  have al: "NaiveBlockAllocator_allocate_block_id (pa_hashless a) = Inr (b, (pa_hashless a)\<lparr>na_free_block_indices := free,
      na_refcounter := dict_set b 1 (pa_refcounter a)\<rparr>)"
    using incr_ok(1)[OF pa_inv_ids(3)[OF inv], of b 0] z f by (simp add: NaiveBlockAllocator_allocate_block_id_def pa_refs_def)
  obtain r p where r: "BlockPool_init_block PrefixCachingBlock_init (pa_pool a) None [] (na_block_size (pa_hashless a)) (Some b) None = Inr (r, p)"
    "pool_ok p" "0 < bp_pool_size p" "r \<notin> pool_live (pa_pool a)" "r < length (bp_pool p)" "pool_live p = insert r (pool_live (pa_pool a))"
    "length (bp_pool (pa_pool a)) \<le> length (bp_pool p)" "\<forall>q \<in> pool_live (pa_pool a). bp_pool p ! q = bp_pool (pa_pool a) ! q"
    "bl_block_id (bp_pool p ! r) = Some b"
    using prefix_init_block_ok[OF pa_inv_poolD[OF inv], of "[]" "na_block_size (pa_hashless a)" None "Some b" None]
    by (auto simp: prev_ok_def)
  have lv: "r \<in> pool_live p" using r(6) by simp
  note fr = free_block_ok[OF r(2) lv]
  have "same_objects (pa_pool a) (BlockPool_free_block p r)"
    using fr(2) r(4,6,7,8) by (auto simp: same_objects_def BlockPool_free_block_def)
  then show ?thesis using al r(1,2,3,5,9) fr(1)
    by (intro exI[of _ r] exI[of _ p])
      (simp add: NaiveBlockAllocator_allocate_mutable_block_def NaiveBlockAllocator_init_block_def)
qed

lemma maybe_hashless_ok:
  assumes inv: "pa_inv items a" and f: "pa_free a = b # free"
  shows "\<exists>a'. PrefixCachingBlockAllocator_maybe_allocate_hashless_block_id a = Inr (Some b, a') \<and> pa_inv items a' \<and>
     pa_refs a b = Some 0 \<and> pa_refs a' = (pa_refs a)(b \<mapsto> 1) \<and> pa_free a' = free \<and>
     pa_evictor a' = pa_evictor a \<and> pa_cached_blocks a' = pa_cached_blocks a \<and> pa_frame a a'"
proof -
  obtain r p where n: "NaiveBlockAllocator_allocate_mutable_block PrefixCachingBlock_init (pa_hashless a) None =
       Inr (r, (pa_hashless a)\<lparr>na_free_block_indices := free, na_refcounter := dict_set b 1 (pa_refcounter a), na_block_pool := p\<rparr>)"
     "bl_block_id (bp_pool p ! r) = Some b" "r < length (bp_pool p)"
     "pool_ok (BlockPool_free_block p r)" "0 < bp_pool_size p" "same_objects (pa_pool a) (BlockPool_free_block p r)"
    using naive_mutable_prefix[OF assms] by blast
  let ?h = "(pa_hashless a)\<lparr>na_free_block_indices := free, na_refcounter := dict_set b 1 (pa_refcounter a), na_block_pool := BlockPool_free_block p r\<rparr>"
  let ?a1 = "a\<lparr>pa_hashless := ?h\<rparr>"
  note st = pa_inv_states[OF inv]
  have z: "pa_refs a b = Some 0" using pa_states_okD(3)[OF st] f by auto
  obtain t where t: "dict_get (pa_block_tracker a) b = Some t" "\<not> bt_active t" using pa_tracker_active[OF inv z] by auto
  then have "dict_get (pa_block_tracker ?a1) b = Some t" by simp
  from track_ok[OF this t(2), of False] obtain t' where t':
    "PrefixCachingBlockAllocator_track_block_id ?a1 b False = Inr (set_tracker b t' ?a1)" "bt_active t'" by blast
  let ?a2 = "set_tracker b t' ?a1"
  have run: "PrefixCachingBlockAllocator_maybe_allocate_hashless_block_id a = Inr (Some b, ?a2)"
    using n t'(1) by (simp add: PrefixCachingBlockAllocator_maybe_allocate_hashless_block_id_def pa_block_id_def pa_set_pool_def Let_def)
  have ids: "distinct (b # free)" "dom (pa_refs a) = set (na_all_block_indices (pa_hashless a))" "rc_ok (pa_refcounter a)"
    using pa_inv_ids[OF inv] f by simp_all
  have fr: "set (pa_free a) - {b} = set free" using ids(1) f by auto
  have rf: "pa_refs ?a2 = (pa_refs a)(b \<mapsto> 1)" by (simp add: pa_refs_def)
  have "pa_states_ok (pa_refs ?a2) (pa_view ?a2) (pa_cached ?a2) (set (pa_free ?a2)) (dict_get (pa_block_tracker ?a2))"
    using states_take_free[OF st _ t'(2), of b] f unfolding rf fr by (simp add: pa_view_def pa_cached_def)
  moreover have "b \<in> set (na_all_block_indices (pa_hashless a))" using ids(2) z by auto
  then have "dom ((dict_get (pa_refcounter a))(b \<mapsto> 1)) = set (na_all_block_indices (pa_hashless a))"
    using ids(2) by (auto simp: pa_refs_def)
  then have "ids_ok (pa_hashless ?a2)"
    using ids(1) inv incr_ok(2)[OF ids(3), of b 0] z by (simp add: ids_ok_def pa_inv_def pa_refs_def)
  ultimately have "pa_inv items ?a2" using inv n(4,5) by (simp add: pa_inv_def pa_cached_def BlockPool_free_block_def)
  moreover have "pa_frame a ?a2" using n(6) by (simp add: pa_frame_def)
  ultimately show ?thesis using run z rf by (intro exI[of _ ?a2]) simp
qed

lemma maybe_hashless_none:
  "pa_free a = [] \<Longrightarrow> PrefixCachingBlockAllocator_maybe_allocate_hashless_block_id a = Inr (None, a)"
  by (simp add: PrefixCachingBlockAllocator_maybe_allocate_hashless_block_id_def NaiveBlockAllocator_allocate_mutable_block_def
      NaiveBlockAllocator_allocate_block_id_def)

section \<open>The environment of the allocator\<close>

text \<open>The evictor in the allocator needs what it needs alone.\<close>

locale prefix_env = env: lruml_env "rt_ops E" items "rt_exp E"
  for E :: "'d runtime" and items :: "'d \<Rightarrow> (score_key \<times> (int \<times> int)) list"
begin

lemma evictor_of_inv: "pa_inv items a \<Longrightarrow> evictor_inv items (pa_evictor a)"
  by (simp add: pa_inv_def)

lemma num_blocks_zero: "pa_inv items a \<Longrightarrow> evictor_num_blocks (pa_evictor a) = 0 \<longleftrightarrow> pa_view a = Map.empty"
  using env.ev.num_blocks_card[OF evictor_of_inv, of a] env.ev.finite_view[of "pa_evictor a"]
  by (auto simp: pa_view_def)

text \<open>
  The first block the evictor gives is the cached block of its hash and nothing refers to it, so
  the loop stops at once and the block leaves the cache.
\<close>

lemma maybe_evicted_ok:
  assumes inv: "pa_inv items a" and ne: "pa_view a \<noteq> Map.empty"
  shows "\<exists>b h a'. PrefixCachingBlockAllocator_maybe_allocate_evicted_block_id E now a = Inr (Some b, a') \<and> pa_inv items a' \<and>
     pa_view a b = Some h \<and> pa_view a' = (pa_view a)(b := None) \<and> pa_cached a' = (pa_cached a)(h := None) \<and>
     pa_refs a b = Some 0 \<and> pa_refs a' = (pa_refs a)(b \<mapsto> 1) \<and> pa_free a' = pa_free a \<and> pa_frame a a' \<and>
     Suc (evictor_num_blocks (pa_evictor a')) = evictor_num_blocks (pa_evictor a) \<and> pa_pool a' = pa_pool a"
proof -
  note st = pa_inv_states[OF inv] and e = evictor_of_inv[OF inv]
  obtain b h e' where ev: "evictor_evict (rt_ops E) (rt_exp E) now (pa_evictor a) = Inr ((b, h), e')"
    "pa_view a b = Some h" "evictor_inv items e'" "evictor_view e' = (pa_view a)(b := None)"
    using env.ev.evict_law[OF e, of now] ne unfolding pa_view_def by blast
  note dec = env.ev.evict_decreases(4)[OF e ev(1)]
  have z: "pa_refs a b = Some 0" and c: "pa_cached a h = Some b" using pa_states_okD(4)[OF st ev(2)] by auto
  have cne: "pa_cached_blocks a \<noteq> []" using c by (auto simp: pa_cached_def)
  let ?a1 = "a\<lparr>pa_evictor := e', pa_cached_blocks := dict_pop h (pa_cached_blocks a)\<rparr>"
  have loop: "evict_cached_loop E now (Suc (evictor_num_blocks (pa_evictor a))) None a = Inr (Some b, ?a1)"
    using cne ev(1) c z by (simp add: pa_cached_def pa_refs_def RefCounter_get_def Let_def)
  have nz: "evictor_num_blocks (pa_evictor a) \<noteq> 0" using num_blocks_zero[OF inv] ne by simp
  have incr: "RefCounter_incr (pa_refcounter ?a1) b = Inr (1, dict_set b 1 (pa_refcounter a))"
    using incr_ok(1)[OF pa_inv_rc[OF inv], of b 0] z by (simp add: pa_refs_def)
  let ?a2 = "pa_set_refcounter (dict_set b 1 (pa_refcounter a)) ?a1"
  obtain t where t: "dict_get (pa_block_tracker a) b = Some t" "\<not> bt_active t" using pa_tracker_active[OF inv z] by auto
  then have "dict_get (pa_block_tracker ?a2) b = Some t" by simp
  from track_ok[OF this t(2), of False] obtain t' where t':
    "PrefixCachingBlockAllocator_track_block_id ?a2 b False = Inr (set_tracker b t' ?a2)" "bt_active t'" by blast
  let ?a3 = "set_tracker b t' ?a2"
  have run: "PrefixCachingBlockAllocator_maybe_allocate_evicted_block_id E now a = Inr (Some b, ?a3)"
    using nz incr t'(1) by (simp add: PrefixCachingBlockAllocator_maybe_allocate_evicted_block_id_def loop del: evict_cached_loop.simps)
  have rf: "pa_refs ?a3 = (pa_refs a)(b \<mapsto> 1)" by (simp add: pa_refs_def)
  have vw: "pa_view ?a3 = (pa_view a)(b := None)" using ev(4) by (simp add: pa_view_def)
  have ca: "pa_cached ?a3 = (pa_cached a)(h := None)" by (simp add: pa_cached_def)
  have fr: "pa_free ?a3 = pa_free a" by simp
  have tr: "dict_get (pa_block_tracker ?a3) = (dict_get (pa_block_tracker a))(b \<mapsto> t')" by simp
  have s: "pa_states_ok (pa_refs ?a3) (pa_view ?a3) (pa_cached ?a3) (set (pa_free ?a3)) (dict_get (pa_block_tracker ?a3))"
    unfolding rf vw ca fr tr by (rule states_take_cached[OF st ev(2) t'(2)])
  have i: "ids_ok (pa_hashless ?a3)"
  proof -
    have "b \<in> set (na_all_block_indices (pa_hashless a))" using pa_inv_ids(2)[OF inv] z by auto
    then have "dom ((dict_get (pa_refcounter a))(b \<mapsto> 1)) = set (na_all_block_indices (pa_hashless a))"
      using pa_inv_ids(2)[OF inv] by (auto simp: pa_refs_def)
    then show ?thesis
      using inv incr_ok(2)[OF pa_inv_rc[OF inv], of b 0] z by (simp add: ids_ok_def pa_inv_def pa_refs_def pa_set_refcounter_def)
  qed
  have "\<forall>c \<in> ran (pa_cached ?a3). dict_has (pa_block_table a) c"
    unfolding ca using inv by (auto simp: pa_inv_def ran_def split: if_splits)
  then have "pa_inv items ?a3" using inv s i ev(3) by (simp add: pa_inv_def)
  moreover have "pa_frame a ?a3" by (simp add: pa_frame_def same_objects_def)
  ultimately show ?thesis
    using run ev(2) vw ca z rf dec by (intro exI[of _ b] exI[of _ h] exI[of _ ?a3]) simp
qed

lemma maybe_evicted_none:
  "pa_inv items a \<Longrightarrow> pa_view a = Map.empty \<Longrightarrow>
   PrefixCachingBlockAllocator_maybe_allocate_evicted_block_id E now a = Inr (None, a)"
  using num_blocks_zero[of a] by (simp add: PrefixCachingBlockAllocator_maybe_allocate_evicted_block_id_def)

text \<open>
  Allocation of an id: from the hashless list while it lasts, and then the cache is untouched;
  otherwise the victim of the evictor, which loses its cache entry.
\<close>

definition alloc_outcome :: "'d PrefixCachingBlockAllocator \<Rightarrow> int \<Rightarrow> 'd PrefixCachingBlockAllocator \<Rightarrow> bool" where
  "alloc_outcome a b a' \<longleftrightarrow> pa_inv items a' \<and> pa_refs a b = Some 0 \<and> pa_refs a' = (pa_refs a)(b \<mapsto> 1) \<and>
     b \<notin> ran (pa_cached a') \<and> pa_view a' = (pa_view a)(b := None) \<and> pa_frame a a' \<and>
     (if pa_free a \<noteq> [] then pa_cached a' = pa_cached a \<and> pa_free a = b # pa_free a'
      else pa_free a' = [] \<and> (\<exists>h. pa_view a b = Some h \<and> pa_cached a' = (pa_cached a)(h := None)))"

lemma in_use_not_cached:
  assumes "pa_inv items a" "pa_refs a b = Some 0" "pa_view a b = None"
  shows "b \<notin> ran (pa_cached a)"
  using pa_states_okD(6)[OF pa_inv_states[OF assms(1)]] assms(2,3) by (fastforce simp: ran_def)

lemma take_block_id_ok:
  assumes inv: "pa_inv items a" and pos: "0 < PrefixCachingBlockAllocator_get_num_free_blocks a"
  shows "\<exists>b a'. PrefixCachingBlockAllocator_allocate_block_id E now a = Inr (b, a') \<and> alloc_outcome a b a' \<and>
     Suc (PrefixCachingBlockAllocator_get_num_free_blocks a') = PrefixCachingBlockAllocator_get_num_free_blocks a"
proof (cases "pa_free a")
  case (Cons b free)
  obtain a' where a': "PrefixCachingBlockAllocator_maybe_allocate_hashless_block_id a = Inr (Some b, a')" "pa_inv items a'"
     "pa_refs a b = Some 0" "pa_refs a' = (pa_refs a)(b \<mapsto> 1)" "pa_free a' = free"
     "pa_evictor a' = pa_evictor a" "pa_cached_blocks a' = pa_cached_blocks a" "pa_frame a a'"
    using maybe_hashless_ok[OF inv Cons] by blast
  have v: "pa_view a b = None" using pa_states_okD(3)[OF pa_inv_states[OF inv]] Cons by auto
  have "alloc_outcome a b a'"
    using a' v in_use_not_cached[OF inv a'(3) v] Cons by (auto simp: alloc_outcome_def pa_view_def pa_cached_def)
  then show ?thesis using a' Cons
    by (auto simp: PrefixCachingBlockAllocator_allocate_block_id_def PrefixCachingBlockAllocator_get_num_free_blocks_def
        NaiveBlockAllocator_get_num_free_blocks_def)
next
  case Nil
  then have ne: "pa_view a \<noteq> Map.empty" using pos num_blocks_zero[OF inv]
    by (simp add: PrefixCachingBlockAllocator_get_num_free_blocks_def NaiveBlockAllocator_get_num_free_blocks_def)
  obtain b h a' where a': "PrefixCachingBlockAllocator_maybe_allocate_evicted_block_id E now a = Inr (Some b, a')" "pa_inv items a'"
     "pa_view a b = Some h" "pa_view a' = (pa_view a)(b := None)" "pa_cached a' = (pa_cached a)(h := None)"
     "pa_refs a b = Some 0" "pa_refs a' = (pa_refs a)(b \<mapsto> 1)" "pa_free a' = pa_free a" "pa_frame a a'"
     "Suc (evictor_num_blocks (pa_evictor a')) = evictor_num_blocks (pa_evictor a)"
    using maybe_evicted_ok[OF inv ne, of now] by blast
  have "pa_cached a h = Some b" using pa_states_okD(4)[OF pa_inv_states[OF inv] a'(3)] by simp
  then have "b \<notin> ran ((pa_cached a)(h := None))"
    using pa_states_okD(7)[OF pa_inv_states[OF inv]] by (auto simp: ran_def)
  then have "alloc_outcome a b a'" using a' Nil by (auto simp: alloc_outcome_def)
  then show ?thesis using a' Nil maybe_hashless_none[OF Nil]
    by (auto simp: PrefixCachingBlockAllocator_allocate_block_id_def PrefixCachingBlockAllocator_get_num_free_blocks_def
        NaiveBlockAllocator_get_num_free_blocks_def)
qed

lemma take_block_id_none:
  assumes inv: "pa_inv items a" and z: "PrefixCachingBlockAllocator_get_num_free_blocks a = 0"
  shows "PrefixCachingBlockAllocator_allocate_block_id E now a = Inl NoFreeBlocksError"
proof -
  have f: "pa_free a = []" and v: "pa_view a = Map.empty"
    using z num_blocks_zero[OF inv]
    by (auto simp: PrefixCachingBlockAllocator_get_num_free_blocks_def NaiveBlockAllocator_get_num_free_blocks_def)
  show ?thesis using maybe_hashless_none[OF f] maybe_evicted_none[OF inv v]
    by (simp add: PrefixCachingBlockAllocator_allocate_block_id_def)
qed

end

text \<open>The allocator is a source of block ids in the sense of the naive one.\<close>

sublocale prefix_env \<subseteq> source: block_source "pa_inv items" pa_refs PrefixCachingBlockAllocator_get_num_free_blocks
  "PrefixCachingBlockAllocator_allocate_block_id E"
proof
  fix a now
  assume i: "pa_inv items a"
  show "\<exists>b a'. PrefixCachingBlockAllocator_allocate_block_id E now a = Inr (b, a') \<and> pa_inv items a' \<and> pa_refs a b = Some 0 \<and>
      pa_refs a' = (pa_refs a)(b \<mapsto> 1) \<and>
      Suc (PrefixCachingBlockAllocator_get_num_free_blocks a') = PrefixCachingBlockAllocator_get_num_free_blocks a"
    if "0 < PrefixCachingBlockAllocator_get_num_free_blocks a"
    using take_block_id_ok[OF i that, of now] by (auto simp: alloc_outcome_def)
  show "PrefixCachingBlockAllocator_allocate_block_id E now a = Inl NoFreeBlocksError"
    if "PrefixCachingBlockAllocator_get_num_free_blocks a = 0"
    using take_block_id_none[OF i that] .
qed

end
