(* ===== verification/Prefix_Refcount.thy ===== *)
theory Prefix_Refcount
  imports Prefix_Correct
begin

text \<open>
  Correctness of the reference counting, promotion, appending, allocation and release of the
  prefix-caching allocator.
\<close>

section \<open>Reference counting\<close>

lemma ids_ok_set:
  assumes "ids_ok h" "dict_get (na_refcounter h) b = Some n" "0 \<le> m" "distinct free"
  shows "ids_ok (h\<lparr>na_free_block_indices := free, na_refcounter := dict_set b m (na_refcounter h), na_block_pool := p\<rparr>)"
    "ids_ok (h\<lparr>na_refcounter := dict_set b m (na_refcounter h)\<rparr>)"
proof -
  have "dom (dict_get (na_refcounter h)) = set (na_all_block_indices h)" using assms(1) by (simp add: ids_ok_def)
  moreover from this have "b \<in> set (na_all_block_indices h)" using assms(2) by auto
  ultimately have d: "dom ((dict_get (na_refcounter h))(b \<mapsto> m)) = set (na_all_block_indices h)" by auto
  have rc: "rc_ok (dict_set b m (na_refcounter h))" using assms(1,3) by (auto simp: ids_ok_def rc_ok_def)
  show "ids_ok (h\<lparr>na_free_block_indices := free, na_refcounter := dict_set b m (na_refcounter h), na_block_pool := p\<rparr>)"
    "ids_ok (h\<lparr>na_refcounter := dict_set b m (na_refcounter h)\<rparr>)"
    using assms(1,4) d rc by (simp_all add: ids_ok_def)
qed

text \<open>What is common to the operations on one block object.\<close>

definition pa_rest_same :: "'d PrefixCachingBlockAllocator \<Rightarrow> 'd PrefixCachingBlockAllocator \<Rightarrow> bool" where
  "pa_rest_same a a' \<longleftrightarrow> pa_block_size a' = pa_block_size a \<and>
     pa_cow_tracker a' = pa_cow_tracker a \<and> pa_metric_data a' = pa_metric_data a \<and>
     pa_block_table a' = pa_block_table a \<and> pa_touched_blocks a' = pa_touched_blocks a \<and>
     na_all_block_indices (pa_hashless a') = na_all_block_indices (pa_hashless a)"

text \<open>The evictor of the allocator accepts block \<open>b\<close> when its last reference goes.\<close>

definition rest_can_add :: "'d PrefixCachingBlockAllocator \<Rightarrow> block_ref \<Rightarrow> int \<Rightarrow> int \<Rightarrow> bool" where
  "rest_can_add a r b h \<longleftrightarrow> (\<forall>t. dict_get (pa_block_tracker a) b = Some t \<longrightarrow>
     evictor_can_add (pa_evictor a) b h (pb_cached_num_tokens_total (bp_pool (pa_pool a) ! r))
       (bt_last_accessed t) (bt_cache_hint t))"

context prefix_env
begin

lemma incr_cached_ok:
  assumes inv: "pa_inv items a" and r: "r < length (bp_pool (pa_pool a))" "bl_block_id (bp_pool (pa_pool a) ! r) = Some b"
    and c: "pa_cached a h = Some b"
  shows "\<exists>n a'. PrefixCachingBlockAllocator_incr_refcount_cached_block E a r = Inr a' \<and> pa_inv items a' \<and>
     pa_refs a b = Some n \<and> pa_refs a' = (pa_refs a)(b \<mapsto> n + 1) \<and> pa_view a' = (pa_view a)(b := None) \<and>
     pa_cached_blocks a' = pa_cached_blocks a \<and> pa_free a' = pa_free a \<and> pa_rest_same a a' \<and>
     pa_pool a' = pool_set (pa_pool a) r ((bp_pool (pa_pool a) ! r)\<lparr>pb_computed := True\<rparr>) \<and> 0 \<le> n"
proof -
  note st = pa_inv_states[OF inv] and e = evictor_of_inv[OF inv]
  obtain n where n: "pa_refs a b = Some n" using pa_states_okD(5)[OF st c] by auto
  have n0: "0 \<le> n" using pa_inv_rc[OF inv] n by (auto simp: rc_ok_def pa_refs_def)
  let ?p = "pool_set (pa_pool a) r ((bp_pool (pa_pool a) ! r)\<lparr>pb_computed := True\<rparr>)"
  let ?rc = "dict_set b (n + 1) (pa_refcounter a)"
  let ?a1 = "pa_set_refcounter ?rc (pa_set_pool ?p a)"
  have incr: "RefCounter_incr (pa_refcounter a) b = Inr (n + 1, ?rc)"
    using incr_ok(1)[OF pa_inv_rc[OF inv], of b n] n by (simp add: pa_refs_def)
  have ids: "ids_ok (pa_hashless ?a1)"
    using ids_ok_set(1)[of "pa_hashless a" b n "n + 1" "pa_free a" ?p] inv n n0
    by (simp add: pa_inv_def pa_refs_def pa_set_refcounter_def pa_set_pool_def ids_ok_def)
  have rf: "dict_get ?rc = (pa_refs a)(b \<mapsto> n + 1)" by (simp add: pa_refs_def)
  note pl = pa_inv_poolD[OF inv]
  show ?thesis
  proof (cases "n = 0")
    case False
    then have v: "pa_view a b = None" using pa_states_okD(4)[OF st, of b] n by (cases "pa_view a b") auto
    have run: "PrefixCachingBlockAllocator_incr_refcount_cached_block E a r = Inr ?a1"
      using r incr False by (simp add: PrefixCachingBlockAllocator_incr_refcount_cached_block_def pa_block_id_def Let_def)
    have "pa_states_ok (pa_refs ?a1) (pa_view ?a1) (pa_cached ?a1) (set (pa_free ?a1)) (dict_get (pa_block_tracker ?a1))"
      using states_count[OF st n False, of "n + 1"] n0 rf by simp
    then have "pa_inv items ?a1" using inv ids pl by (simp add: pa_inv_def)
    moreover have "(pa_view a)(b := None) = pa_view a" using v by auto
    ultimately show ?thesis using run n rf n0
      by (intro exI[of _ n] exI[of _ ?a1]) (simp add: pa_rest_same_def)
  next
    case True
    have v: "pa_view a b = Some h" using pa_states_okD(6)[OF st c] n True by simp
    then have con: "evictor_contains (pa_evictor a) b" using env.ev.contains_iff by (simp add: pa_view_def)
    obtain e' where e': "evictor_remove (rt_ops E) (pa_evictor a) b = Inr e'" "evictor_inv items e'"
      "evictor_view e' = (pa_view a)(b := None)"
      using env.ev.remove_law[OF e, of b] v unfolding pa_view_def by auto
    let ?a2 = "?a1\<lparr>pa_evictor := e'\<rparr>"
    obtain t where t: "dict_get (pa_block_tracker a) b = Some t" "\<not> bt_active t" using pa_tracker_active[OF inv n] True by auto
    then have "dict_get (pa_block_tracker ?a2) b = Some t" by simp
    from track_ok[OF this t(2), of True] obtain t' where t':
      "PrefixCachingBlockAllocator_track_block_id ?a2 b True = Inr (set_tracker b t' ?a2)" "bt_active t'" by blast
    let ?a3 = "set_tracker b t' ?a2"
    have run: "PrefixCachingBlockAllocator_incr_refcount_cached_block E a r = Inr ?a3"
      using r incr True con e'(1) t'(1)
      by (simp add: PrefixCachingBlockAllocator_incr_refcount_cached_block_def pa_block_id_def Let_def)
    have rf3: "pa_refs ?a3 = (pa_refs a)(b \<mapsto> 1)" using True by (simp add: pa_refs_def)
    have vw: "pa_view ?a3 = (pa_view a)(b := None)" using e'(3) by (simp add: pa_view_def)
    have ca: "pa_cached ?a3 = pa_cached a" by (simp add: pa_cached_def)
    have tr: "dict_get (pa_block_tracker ?a3) = (dict_get (pa_block_tracker a))(b \<mapsto> t')" by simp
    have fr: "pa_free ?a3 = pa_free a" by simp
    have "pa_states_ok (pa_refs ?a3) (pa_view ?a3) (pa_cached ?a3) (set (pa_free ?a3)) (dict_get (pa_block_tracker ?a3))"
      unfolding rf3 vw ca fr tr by (rule states_revive[OF st v t'(2)])
    then have "pa_inv items ?a3" using inv ids pl e'(2) unfolding pa_inv_def ca by simp
    then show ?thesis using run n rf3 vw True
      by (intro exI[of _ n] exI[of _ ?a3]) (simp add: pa_rest_same_def)
  qed
qed

text \<open>Releasing one reference of a cached block: the last one sends it to the evictor.\<close>

lemma decr_cached_ok:
  assumes inv: "pa_inv items a" and r: "r < length (bp_pool (pa_pool a))" "bl_block_id (bp_pool (pa_pool a) ! r) = Some b"
    and c: "pa_cached a h = Some b" and n: "pa_refs a b = Some n" "0 < n" and can: "n = 1 \<Longrightarrow> rest_can_add a r b h"
  shows "\<exists>a'. PrefixCachingBlockAllocator_decr_refcount_cached_block E now a r h = Inr a' \<and> pa_inv items a' \<and>
     pa_refs a' = (pa_refs a)(b \<mapsto> n - 1) \<and> pa_view a' = (if n = 1 then (pa_view a)(b \<mapsto> h) else pa_view a) \<and>
     pa_cached_blocks a' = pa_cached_blocks a \<and> pa_free a' = pa_free a \<and> pa_rest_same a a' \<and>
     pa_pool a' = pool_set (pa_pool a) r ((bp_pool (pa_pool a) ! r)\<lparr>bl_block_id := None\<rparr>)"
proof -
  note st = pa_inv_states[OF inv] and e = evictor_of_inv[OF inv] and pl = pa_inv_poolD[OF inv]
  let ?p = "pool_set (pa_pool a) r ((bp_pool (pa_pool a) ! r)\<lparr>bl_block_id := None\<rparr>)"
  let ?rc = "dict_set b (n - 1) (pa_refcounter a)"
  let ?a1 = "pa_set_refcounter ?rc a"
  have decr: "RefCounter_decr (pa_refcounter a) b = Inr (n - 1, ?rc)"
    using decr_ok(1)[OF pa_inv_rc[OF inv], of b n] n by (simp add: pa_refs_def)
  have ids: "ids_ok (pa_hashless (pa_set_pool ?p ?a1))"
    using ids_ok_set(1)[of "pa_hashless a" b n "n - 1" "pa_free a" ?p] inv n
    by (simp add: pa_inv_def pa_refs_def pa_set_refcounter_def pa_set_pool_def ids_ok_def)
  have rf: "dict_get ?rc = (pa_refs a)(b \<mapsto> n - 1)" by (simp add: pa_refs_def)
  show ?thesis
  proof (cases "n = 1")
    case False
    have run: "PrefixCachingBlockAllocator_decr_refcount_cached_block E now a r h = Inr (pa_set_pool ?p ?a1)"
      using r decr False n(2)
      by (simp add: PrefixCachingBlockAllocator_decr_refcount_cached_block_def pa_block_id_def pa_set_block_id_def Let_def)
    have "pa_states_ok (pa_refs (pa_set_pool ?p ?a1)) (pa_view (pa_set_pool ?p ?a1)) (pa_cached (pa_set_pool ?p ?a1))
        (set (pa_free (pa_set_pool ?p ?a1))) (dict_get (pa_block_tracker (pa_set_pool ?p ?a1)))"
      using states_count[OF st n(1), of "n - 1"] n(2) False rf by simp
    then have "pa_inv items (pa_set_pool ?p ?a1)" using inv ids pl by (simp add: pa_inv_def)
    then show ?thesis using run rf False by (intro exI[of _ "pa_set_pool ?p ?a1"]) (simp add: pa_rest_same_def)
  next
    case True
    obtain t where t: "dict_get (pa_block_tracker a) b = Some t" "bt_active t" using pa_tracker_active[OF inv n(1)] n(2) by auto
    let ?tot = "pb_cached_num_tokens_total (bp_pool (pa_pool a) ! r)"
    have "evictor_can_add (pa_evictor a) b h ?tot (bt_last_accessed t) (bt_cache_hint t)"
      using can[OF True] t(1) by (simp add: rest_can_add_def)
    from env.ev.add_law[OF e this, of now] obtain e' where e':
      "evictor_add (rt_ops E) (rt_exp E) now (pa_evictor a) b h ?tot (bt_last_accessed t) (bt_cache_hint t) = Inr e'"
      "evictor_inv items e'" "evictor_view e' = (pa_view a)(b \<mapsto> h)" unfolding pa_view_def by auto
    let ?a2 = "?a1\<lparr>pa_evictor := e'\<rparr>"
    have "dict_get (pa_block_tracker ?a2) b = Some t" using t by simp
    from untrack_ok[OF this t(2)] obtain t' where t':
      "PrefixCachingBlockAllocator_untrack_block_id ?a2 b = Inr (set_tracker b t' ?a2)" "\<not> bt_active t'" by blast
    let ?a3 = "pa_set_pool ?p (set_tracker b t' ?a2)"
    have has: "dict_has (pa_cached_blocks a) h" using c by (simp add: pa_cached_def)
    have run: "PrefixCachingBlockAllocator_decr_refcount_cached_block E now a r h = Inr ?a3"
      using r decr True has t(1) e'(1) t'(1)
      by (simp add: PrefixCachingBlockAllocator_decr_refcount_cached_block_def pa_block_id_def pa_set_block_id_def dict_item_def Let_def)
    have rf3: "pa_refs ?a3 = (pa_refs a)(b \<mapsto> 0)" using True by (simp add: pa_refs_def)
    have vw: "pa_view ?a3 = (pa_view a)(b \<mapsto> h)" using e'(3) by (simp add: pa_view_def)
    have ca: "pa_cached ?a3 = pa_cached a" by (simp add: pa_cached_def)
    have tr: "dict_get (pa_block_tracker ?a3) = (dict_get (pa_block_tracker a))(b \<mapsto> t')" by simp
    have fr: "pa_free ?a3 = pa_free a" by simp
    have "pa_states_ok (pa_refs ?a3) (pa_view ?a3) (pa_cached ?a3) (set (pa_free ?a3)) (dict_get (pa_block_tracker ?a3))"
      unfolding rf3 vw ca fr tr using states_rest[OF st n(1) _ c t'(2)] n(2) by simp
    then have "pa_inv items ?a3" using inv ids pl e'(2) unfolding pa_inv_def ca by (simp add: pa_set_pool_def set_tracker_def)
    then show ?thesis using run rf3 vw True
      by (intro exI[of _ ?a3]) (simp add: pa_rest_same_def)
  qed
qed

text \<open>Releasing one reference of a block outside the cache: the last one frees it.\<close>

lemma decr_hashless_ok:
  assumes inv: "pa_inv items a" and r: "r < length (bp_pool (pa_pool a))" "bl_block_id (bp_pool (pa_pool a) ! r) = Some b"
    and n: "pa_refs a b = Some n" "0 < n" and nc: "n = 1 \<Longrightarrow> b \<notin> ran (pa_cached a)"
  shows "\<exists>a'. PrefixCachingBlockAllocator_decr_refcount_hashless_block a r = Inr a' \<and> pa_inv items a' \<and>
     pa_refs a' = (pa_refs a)(b \<mapsto> n - 1) \<and> pa_evictor a' = pa_evictor a \<and>
     pa_cached_blocks a' = pa_cached_blocks a \<and> pa_free a' = (if n = 1 then b # pa_free a else pa_free a) \<and> pa_rest_same a a' \<and>
     pa_pool a' = pool_set (pa_pool a) r ((bp_pool (pa_pool a) ! r)\<lparr>bl_block_id := None\<rparr>)"
proof -
  note st = pa_inv_states[OF inv] and pl = pa_inv_poolD[OF inv]
  let ?p = "pool_set (pa_pool a) r ((bp_pool (pa_pool a) ! r)\<lparr>bl_block_id := None\<rparr>)"
  let ?rc = "dict_set b (n - 1) (pa_refcounter a)"
  let ?free = "if n = 1 then b # pa_free a else pa_free a"
  let ?h = "(pa_hashless a)\<lparr>na_free_block_indices := ?free, na_refcounter := ?rc, na_block_pool := ?p\<rparr>"
  have get: "RefCounter_get (pa_refcounter a) b = Inr n" using n(1) by (simp add: RefCounter_get_def pa_refs_def)
  have decr: "RefCounter_decr (pa_refcounter a) b = Inr (n - 1, ?rc)"
    using decr_ok(1)[OF pa_inv_rc[OF inv], of b n] n by (simp add: pa_refs_def)
  have fr: "NaiveBlockAllocator_free (pa_hashless a) r True = Inr ?h"
    using r decr by (simp add: NaiveBlockAllocator_free_def NaiveBlockAllocator_free_block_object_id_def
        NaiveBlockAllocator_free_block_id_def Let_def)
  have nf: "b \<notin> set (pa_free a)" using pa_states_okD(3)[OF st] n by auto
  have ids: "ids_ok ?h"
    using ids_ok_set(1)[of "pa_hashless a" b n "n - 1" ?free ?p] inv n nf pa_inv_ids(1)[OF inv]
    by (simp add: pa_inv_def pa_refs_def)
  show ?thesis
  proof (cases "n = 1")
    case False
    let ?a1 = "a\<lparr>pa_hashless := ?h\<rparr>"
    have run: "PrefixCachingBlockAllocator_decr_refcount_hashless_block a r = Inr ?a1"
      using r get fr False by (simp add: PrefixCachingBlockAllocator_decr_refcount_hashless_block_def pa_block_id_def)
    have rf: "pa_refs ?a1 = (pa_refs a)(b \<mapsto> n - 1)" by (simp add: pa_refs_def)
    have vw: "pa_view ?a1 = pa_view a" and ca: "pa_cached ?a1 = pa_cached a" by (simp_all add: pa_view_def pa_cached_def)
    have "pa_states_ok (pa_refs ?a1) (pa_view ?a1) (pa_cached ?a1) (set (pa_free ?a1)) (dict_get (pa_block_tracker ?a1))"
      unfolding rf vw ca using states_count[OF st n(1), of "n - 1"] n(2) False by simp
    then have "pa_inv items ?a1" using inv ids pl False unfolding pa_inv_def ca by simp
    then show ?thesis using run rf False by (intro exI[of _ ?a1]) (simp add: pa_rest_same_def)
  next
    case True
    obtain t where t: "dict_get (pa_block_tracker a) b = Some t" "bt_active t" using pa_tracker_active[OF inv n(1)] n(2) by auto
    from untrack_ok[OF t] obtain t' where t':
      "PrefixCachingBlockAllocator_untrack_block_id a b = Inr (set_tracker b t' a)" "\<not> bt_active t'" by blast
    let ?a1 = "(set_tracker b t' a)\<lparr>pa_hashless := ?h\<rparr>"
    have run: "PrefixCachingBlockAllocator_decr_refcount_hashless_block a r = Inr ?a1"
      using r get fr True t'(1)
      by (simp add: PrefixCachingBlockAllocator_decr_refcount_hashless_block_def pa_block_id_def)
    have rf: "pa_refs ?a1 = (pa_refs a)(b \<mapsto> 0)" using True by (simp add: pa_refs_def)
    have vw: "pa_view ?a1 = pa_view a" and ca: "pa_cached ?a1 = pa_cached a"
      by (simp_all add: pa_view_def pa_cached_def set_tracker_def)
    have tr: "dict_get (pa_block_tracker ?a1) = (dict_get (pa_block_tracker a))(b \<mapsto> t')" by simp
    have fs: "set (pa_free ?a1) = insert b (set (pa_free a))" using True by simp
    have "pa_states_ok (pa_refs ?a1) (pa_view ?a1) (pa_cached ?a1) (set (pa_free ?a1)) (dict_get (pa_block_tracker ?a1))"
      unfolding rf vw ca tr fs using states_drop[OF st n(1) _ nc[OF True] t'(2)] n(2) by simp
    then have "pa_inv items ?a1" using inv ids pl True unfolding pa_inv_def ca by simp
    then show ?thesis using run rf True by (intro exI[of _ ?a1]) (simp add: pa_rest_same_def)
  qed
qed

end

end
