(* ===== verification/Prefix_Reuse.thy ===== *)
theory Prefix_Reuse
  imports Prefix_Refcount
begin

text \<open>
  Correctness of the public operations of the prefix-caching allocator: an allocation that hits
  the cache shares the cached block, one that misses caches a fresh block, a released block stays
  cached, and allocating the same content again finds it.
\<close>

section \<open>One step of the content hash\<close>

definition prev_ready :: "py_hash \<Rightarrow> prefix_block BlockPool \<Rightarrow> block_ref option \<Rightarrow> bool" where
  "prev_ready H p prev \<longleftrightarrow> (case prev of None \<Rightarrow> True
     | Some q \<Rightarrow> q \<in> pool_live p \<and> (\<exists>ph. pb_cached_content_hash (bp_pool p ! q) = Some ph \<and> ph \<noteq> none_hash H))"

definition next_hash :: "py_hash \<Rightarrow> prefix_block BlockPool \<Rightarrow> block_ref option \<Rightarrow> int list \<Rightarrow> int option \<Rightarrow> int" where
  "next_hash H p prev toks x = (case prev of None \<Rightarrow> hash_tuple H True (Some (none_hash H)) toks x
     | Some q \<Rightarrow> hash_tuple H False (pb_cached_content_hash (bp_pool p ! q)) toks x)"

lemma content_hash_memo:
  "r < length (bp_pool p) \<Longrightarrow> pb_cached_content_hash (bp_pool p ! r) = Some h \<Longrightarrow>
   PrefixCachingBlock_content_hash H p r = Inr (Some h, p)"
  by (cases "length (bp_pool p)") (auto simp: PrefixCachingBlock_content_hash_def)

lemma content_hash_partial:
  "r < length (bp_pool p) \<Longrightarrow> pb_cached_content_hash (bp_pool p ! r) = None \<Longrightarrow> \<not> is_full (bp_pool p ! r) \<Longrightarrow>
   PrefixCachingBlock_content_hash H p r = Inr (None, p)"
  by (cases "length (bp_pool p)") (auto simp: PrefixCachingBlock_content_hash_def)

lemma content_hash_full:
  assumes r: "r < length (bp_pool p)" "pb_cached_content_hash (bp_pool p ! r) = None" "is_full (bp_pool p ! r)"
    and prev: "bl_prev_block (bp_pool p ! r) = prev" "prev_ready H p prev" "prev \<noteq> Some r" and ok: "pool_ok p"
  shows "PrefixCachingBlock_content_hash H p r =
     (let h = next_hash H p prev (bl_token_ids (bp_pool p ! r)) (pb_extra_hash (bp_pool p ! r))
      in Inr (Some h, pool_set p r ((bp_pool p ! r)\<lparr>pb_cached_content_hash := Some h\<rparr>)))"
proof -
  obtain f where f: "length (bp_pool p) = Suc f" using r(1) by (cases "length (bp_pool p)") auto
  show ?thesis
  proof (cases prev)
    case None
    then show ?thesis using r prev f
      by (simp add: PrefixCachingBlock_content_hash_def next_hash_def hash_block_tokens_def Let_def)
  next
    case (Some q)
    then obtain ph where q: "q \<in> pool_live p" "pb_cached_content_hash (bp_pool p ! q) = Some ph" "ph \<noteq> none_hash H"
      using prev(2) by (auto simp: prev_ready_def)
    have ql: "q < length (bp_pool p)" using q(1) ok by (simp add: pool_live_def pool_ok_def)
    obtain g where g: "f = Suc g" using ql r(1) f prev(3) Some by (cases f) auto
    show ?thesis using Some r prev f g q ql
      by (simp add: PrefixCachingBlock_content_hash_def next_hash_def hash_block_tokens_def Let_def)
  qed
qed

lemma pa_content_hash_of:
  "PrefixCachingBlock_content_hash (rt_hash E) (pa_pool a) r = Inr (h, p) \<Longrightarrow> pa_content_hash E a r = Inr (h, pa_set_pool p a)"
  by (simp add: pa_content_hash_def)

lemma prev_ready_same:
  assumes "prev_ready H p prev" "pool_live p \<subseteq> pool_live p'" "\<forall>q \<in> pool_live p. bp_pool p' ! q = bp_pool p ! q"
  shows "prev_ready H p' prev" "next_hash H p' prev toks x = next_hash H p prev toks x"
  using assms by (auto simp: prev_ready_def next_hash_def split: option.splits)

section \<open>Allocation\<close>

lemma pa_init_block_ok:
  assumes inv: "pa_inv items a" and fit: "int (length toks) \<le> pa_block_size a \<or> toks = []" and prev: "prev_ready H (pa_pool a) prev"
  shows "\<exists>r p. pa_init_block a prev toks i x = Inr (r, pa_set_pool p a) \<and> pa_inv items (pa_set_pool p a) \<and>
     r \<notin> pool_live (pa_pool a) \<and> r < length (bp_pool p) \<and> pool_live p = insert r (pool_live (pa_pool a)) \<and>
     pool_ok p \<and> 0 < bp_pool_size p \<and>
     (\<forall>q \<in> pool_live (pa_pool a). bp_pool p ! q = bp_pool (pa_pool a) ! q) \<and>
     bl_prev_block (bp_pool p ! r) = prev \<and> bl_token_ids (bp_pool p ! r) = toks \<and> bl_block_size (bp_pool p ! r) = pa_block_size a \<and>
     bl_block_id (bp_pool p ! r) = i \<and> pb_cached_content_hash (bp_pool p ! r) = None \<and>
     \<not> pb_computed (bp_pool p ! r) \<and> pb_extra_hash (bp_pool p ! r) = x"
proof -
  have "prev_ok (pa_pool a) prev" using prev pa_inv_poolD(1)[OF inv]
    by (auto simp: prev_ready_def prev_ok_def pool_live_def pool_ok_def split: option.splits)
  from prefix_init_block_ok[OF pa_inv_poolD[OF inv] fit this, of i x] obtain r p where
    "BlockPool_init_block PrefixCachingBlock_init (pa_pool a) prev toks (pa_block_size a) i x = Inr (r, p)"
    "pool_ok p" "0 < bp_pool_size p" "r \<notin> pool_live (pa_pool a)" "r < length (bp_pool p)" "pool_live p = insert r (pool_live (pa_pool a))"
    "\<forall>q \<in> pool_live (pa_pool a). bp_pool p ! q = bp_pool (pa_pool a) ! q"
    "bl_prev_block (bp_pool p ! r) = prev" "bl_token_ids (bp_pool p ! r) = toks" "bl_block_size (bp_pool p ! r) = pa_block_size a"
    "bl_block_id (bp_pool p ! r) = i" "pb_cached_content_hash (bp_pool p ! r) = None"
    "\<not> pb_computed (bp_pool p ! r)" "pb_extra_hash (bp_pool p ! r) = x" by blast
  then show ?thesis using pa_inv_pool[OF inv, of p] by (auto simp: pa_init_block_def)
qed

lemma record_query_simps [simp]:
  "pa_hashless (record_query a hit) = pa_hashless a" "pa_evictor (record_query a hit) = pa_evictor a"
  "pa_cached_blocks (record_query a hit) = pa_cached_blocks a" "pa_block_tracker (record_query a hit) = pa_block_tracker a"
  "pa_block_table (record_query a hit) = pa_block_table a" "pa_block_size (record_query a hit) = pa_block_size a"
  "pa_metric_data (record_query a hit) = CacheMetricData_query (pa_metric_data a) hit"
  "pa_cow_tracker (record_query a hit) = pa_cow_tracker a" "pa_touched_blocks (record_query a hit) = pa_touched_blocks a"
  "pa_refs (record_query a hit) = pa_refs a" "pa_view (record_query a hit) = pa_view a" "pa_cached (record_query a hit) = pa_cached a"
  "pa_inv items (record_query a hit) = pa_inv items a"
  by (auto simp: record_query_def PrefixCachingBlockAllocator_query_scheduler_post_warmup_metric_def pa_refs_def pa_view_def
      pa_cached_def pa_inv_def split: evictor.splits)

text \<open>What an allocation leaves alone: the objects in use, and the fields it does not own.\<close>

definition new_object ::
    "'d PrefixCachingBlockAllocator \<Rightarrow> block_ref \<Rightarrow> 'd PrefixCachingBlockAllocator \<Rightarrow> block_ref option \<Rightarrow> int list \<Rightarrow>
     int option \<Rightarrow> int \<Rightarrow> int \<Rightarrow> bool" where
  "new_object a r a' prev toks x b h \<longleftrightarrow>
     (let o' = bp_pool (pa_pool a') ! r in
      r \<notin> pool_live (pa_pool a) \<and> pool_live (pa_pool a') = insert r (pool_live (pa_pool a)) \<and>
      (\<forall>q \<in> pool_live (pa_pool a). bp_pool (pa_pool a') ! q = bp_pool (pa_pool a) ! q) \<and>
      bl_prev_block o' = prev \<and> bl_token_ids o' = toks \<and> pb_extra_hash o' = x \<and> bl_block_id o' = Some b \<and>
      pb_cached_content_hash o' = Some h)"

context prefix_env
begin

lemma allocate_immutable_hit:
  assumes inv: "pa_inv items a" and prev: "prev_ready (rt_hash E) (pa_pool a) prev"
    and full: "int (length toks) = pa_block_size a" and h: "h = next_hash (rt_hash E) (pa_pool a) prev toks x"
    and c: "pa_cached a h = Some b"
  shows "\<exists>r a' n. PrefixCachingBlockAllocator_allocate_immutable_block E now a prev toks x = Inr (r, a') \<and> pa_inv items a' \<and>
     new_object a r a' prev toks x b h \<and> pa_refs a b = Some n \<and> pa_refs a' = (pa_refs a)(b \<mapsto> n + 1) \<and>
     pa_view a' = (pa_view a)(b := None) \<and> pa_cached a' = pa_cached a \<and> pa_free a' = pa_free a \<and>
     pa_metric_data a' = CacheMetricData_query (pa_metric_data a) True"
proof -
  obtain r p where i: "pa_init_block a prev toks None x = Inr (r, pa_set_pool p a)" "pa_inv items (pa_set_pool p a)"
     "r \<notin> pool_live (pa_pool a)" "r < length (bp_pool p)" "pool_live p = insert r (pool_live (pa_pool a))" "pool_ok p" "0 < bp_pool_size p"
     "\<forall>q \<in> pool_live (pa_pool a). bp_pool p ! q = bp_pool (pa_pool a) ! q"
     "bl_prev_block (bp_pool p ! r) = prev" "bl_token_ids (bp_pool p ! r) = toks" "bl_block_size (bp_pool p ! r) = pa_block_size a"
     "pb_cached_content_hash (bp_pool p ! r) = None" "pb_extra_hash (bp_pool p ! r) = x"
    using pa_init_block_ok[OF inv _ prev, of toks None x] full by auto
  have sub: "pool_live (pa_pool a) \<subseteq> pool_live p" using i(5) by auto
  have pr: "prev_ready (rt_hash E) p prev" and nh: "next_hash (rt_hash E) p prev toks x = h"
    using prev_ready_same[OF prev sub i(8)] h by auto
  have ne: "prev \<noteq> Some r" using prev i(3) by (auto simp: prev_ready_def)
  have fl: "is_full (bp_pool p ! r)" using i(10,11) full by (simp add: is_full_def num_empty_slots_def)
  let ?p = "pool_set p r ((bp_pool p ! r)\<lparr>pb_cached_content_hash := Some h\<rparr>)"
  have ch: "pa_content_hash E (pa_set_pool p a) r = Inr (Some h, pa_set_pool ?p a)"
    using content_hash_full[OF i(4,12) fl i(9) pr ne i(6)] i(10,13) nh by (simp add: pa_content_hash_def)
  let ?a = "record_query (pa_set_pool ?p a) True"
  let ?q = "pool_set ?p r ((bp_pool ?p ! r)\<lparr>bl_block_id := Some b\<rparr>)"
  have si: "pa_set_block_id ?a r (Some b) = Inr (pa_set_pool ?q ?a)" using i(4) by (simp add: pa_set_block_id_def)
  have inv2: "pa_inv items (pa_set_pool ?q ?a)" using i(2,6,7) pa_inv_pool[OF inv, of ?p] by (intro pa_inv_pool) simp_all
  have c2: "pa_cached (pa_set_pool ?q ?a) h = Some b" using c by simp
  obtain n a' where a': "PrefixCachingBlockAllocator_incr_refcount_cached_block E (pa_set_pool ?q ?a) r = Inr a'" "pa_inv items a'"
     "pa_refs a b = Some n" "pa_refs a' = (pa_refs a)(b \<mapsto> n + 1)" "pa_view a' = (pa_view a)(b := None)"
     "pa_cached_blocks a' = pa_cached_blocks a" "pa_free a' = pa_free a" "pa_rest_same (pa_set_pool ?q ?a) a'"
     "pa_pool a' = pool_set ?q r ((bp_pool ?q ! r)\<lparr>pb_computed := True\<rparr>)"
    using incr_cached_ok[OF inv2 _ _ c2, of r] i(4) by auto
  have "b \<in> ran (pa_cached a)" using c by (auto simp: ran_def)
  then have bt: "dict_has (pa_block_table a) b" using inv by (simp add: pa_inv_def)
  have run: "PrefixCachingBlockAllocator_allocate_immutable_block E now a prev toks x = Inr (r, a')"
    using i(1) ch c bt si a'(1) by (auto simp: PrefixCachingBlockAllocator_allocate_immutable_block_def pa_cached_def dict_item_def)
  have other: "q \<in> pool_live (pa_pool a) \<Longrightarrow> q \<noteq> r" for q using i(3) by auto
  have "new_object a r a' prev toks x b h"
    using i(3-5,8-10,13) a'(9) other by (auto simp: new_object_def Let_def)
  moreover have "pa_metric_data a' = CacheMetricData_query (pa_metric_data a) True"
    using a'(8) by (simp add: pa_rest_same_def)
  ultimately show ?thesis using run a'(2-7) by (intro exI[of _ r] exI[of _ a'] exI[of _ n]) (simp add: pa_cached_def)
qed

lemma promote_new:
  assumes inv: "pa_inv items a" and r: "r < length (bp_pool (pa_pool a))" "bl_block_id (bp_pool (pa_pool a) ! r) = Some b"
    and h: "pb_cached_content_hash (bp_pool (pa_pool a) ! r) = Some h" and n: "pa_refs a b = Some n" "0 < n"
    and nc: "b \<notin> ran (pa_cached a)" "pa_cached a h = None"
  shows "\<exists>a'. PrefixCachingBlockAllocator_promote_to_immutable_block E a r = Inr (b, a') \<and> pa_inv items a' \<and>
     pa_cached a' = (pa_cached a)(h \<mapsto> b) \<and> pa_hashless a' = pa_hashless a \<and> pa_evictor a' = pa_evictor a \<and>
     pa_metric_data a' = pa_metric_data a \<and> pa_block_size a' = pa_block_size a"
proof -
  let ?a = "a\<lparr>pa_block_table := dict_set b r (pa_block_table a),
     pa_cached_blocks := dict_set h b (pa_cached_blocks a), pa_touched_blocks := List.insert b (pa_touched_blocks a)\<rparr>"
  have get: "RefCounter_get (pa_refcounter a) b = Inr n" using n(1) by (simp add: RefCounter_get_def pa_refs_def)
  have ch: "pa_content_hash E a r = Inr (Some h, a)" using content_hash_memo[OF r(1) h] by (simp add: pa_content_hash_def)
  have run: "PrefixCachingBlockAllocator_promote_to_immutable_block E a r = Inr (b, ?a)"
    using r ch get n(2) nc(2) by (simp add: PrefixCachingBlockAllocator_promote_to_immutable_block_def pa_block_id_def pa_cached_def)
  have ca: "pa_cached ?a = (pa_cached a)(h \<mapsto> b)" by (simp add: pa_cached_def)
  have rf: "pa_refs ?a = pa_refs a" and vw: "pa_view ?a = pa_view a" by (simp_all add: pa_refs_def pa_view_def)
  have "pa_states_ok (pa_refs ?a) (pa_view ?a) (pa_cached ?a) (set (pa_free ?a)) (dict_get (pa_block_tracker ?a))"
    unfolding ca rf vw using states_cache[OF pa_inv_states[OF inv] n(1) _ nc] n(2) by simp
  moreover have "\<forall>c \<in> ran (pa_cached ?a). dict_has (pa_block_table ?a) c"
    unfolding ca using inv nc(2) by (auto simp: pa_inv_def ran_def)
  ultimately have "pa_inv items ?a" using inv by (simp add: pa_inv_def)
  then show ?thesis using run ca by (intro exI[of _ ?a]) simp
qed

lemma inner_append_alone:
  assumes r: "r < length (bp_pool (pa_pool a))" "bl_block_id (bp_pool (pa_pool a) ! r) = Some b"
    and n: "pa_refs a b = Some 1" and fit: "int (length toks) \<le> num_empty_slots (bp_pool (pa_pool a) ! r)"
  shows "inner_append_token_ids E now a r toks =
     Inr (pa_set_pool (pool_set (pa_pool a) r ((bp_pool (pa_pool a) ! r)\<lparr>bl_token_ids := bl_token_ids (bp_pool (pa_pool a) ! r) @ toks\<rparr>)) a)"
proof -
  let ?b = "(bp_pool (pa_pool a) ! r)\<lparr>bl_token_ids := bl_token_ids (bp_pool (pa_pool a) ! r) @ toks\<rparr>"
  have nc: "append_token_ids_no_cow (bp_pool (pa_pool a) ! r) toks = Inr ?b"
    using fit by (simp add: append_token_ids_no_cow_def)
  have get: "RefCounter_get (pa_refcounter a) b = Inr 1" using n by (simp add: RefCounter_get_def pa_refs_def)
  let ?a = "pa_set_pool (pool_set (pa_pool a) r ?b) a"
  have cow: "cow_block_with E now ?a r release = Inr (b, ?a)" for release
    using r get by (simp add: cow_block_with_def pa_block_id_def CopyOnWriteTracker_is_appendable_def ReadOnlyRefCounter_get_def)
  have same: "?b\<lparr>bl_block_id := Some b\<rparr> = ?b" using r(2) by (intro block_id_same) simp
  have "pa_set_block_id ?a r (Some b) = Inr (pa_set_pool (pool_set (pa_pool a) r (?b\<lparr>bl_block_id := Some b\<rparr>)) a)"
    using r(1) by (simp add: pa_set_block_id_def)
  then have "pa_set_block_id ?a r (Some b) = Inr ?a" unfolding same .
  then show ?thesis using r nc cow by (simp add: inner_append_token_ids_def Let_def)
qed

lemma append_full_alone:
  assumes inv: "pa_inv items a" and r: "r \<in> pool_live (pa_pool a)" "bl_block_id (bp_pool (pa_pool a) ! r) = Some b"
      "bl_token_ids (bp_pool (pa_pool a) ! r) = []" "bl_block_size (bp_pool (pa_pool a) ! r) = int (length toks)"
      "pb_cached_content_hash (bp_pool (pa_pool a) ! r) = None" "\<not> pb_computed (bp_pool (pa_pool a) ! r)"
    and prev: "bl_prev_block (bp_pool (pa_pool a) ! r) = prev" "prev_ready (rt_hash E) (pa_pool a) prev" "prev \<noteq> Some r"
    and n: "pa_refs a b = Some 1" and ne: "toks \<noteq> []"
    and h: "h = next_hash (rt_hash E) (pa_pool a) prev toks (pb_extra_hash (bp_pool (pa_pool a) ! r))"
    and nc: "b \<notin> ran (pa_cached a)" "pa_cached a h = None"
  shows "\<exists>a' o'. PrefixCachingBlock_append_token_ids E now a r toks = Inr a' \<and> pa_inv items a' \<and>
     pa_refs a' = pa_refs a \<and> pa_evictor a' = pa_evictor a \<and> pa_cached a' = (pa_cached a)(h \<mapsto> b) \<and> pa_free a' = pa_free a \<and>
     pa_metric_data a' = pa_metric_data a \<and> pa_pool a' = pool_set (pa_pool a) r o' \<and>
     bl_prev_block o' = prev \<and> bl_token_ids o' = toks \<and> pb_extra_hash o' = pb_extra_hash (bp_pool (pa_pool a) ! r) \<and>
     bl_block_id o' = Some b \<and> pb_cached_content_hash o' = Some h"
proof -
  let ?p = "pa_pool a" and ?o = "bp_pool (pa_pool a) ! r"
  have rl: "r < length (bp_pool ?p)" using r(1) pa_inv_poolD(1)[OF inv] by (simp add: pool_live_def pool_ok_def)
  have "\<not> is_full ?o" using r(3,4) ne by (simp add: is_full_def num_empty_slots_def)
  then have h0: "pa_content_hash E a r = Inr (None, a)" using content_hash_partial[OF rl r(5)] by (simp add: pa_content_hash_def)
  let ?o1 = "?o\<lparr>bl_token_ids := toks\<rparr>"
  have app: "inner_append_token_ids E now a r toks = Inr (pa_set_pool (pool_set ?p r ?o1) a)"
    using inner_append_alone[OF rl r(2) n, of toks] r(3,4) by (simp add: num_empty_slots_def)
  have ql: "prev = Some q \<Longrightarrow> q < length (bp_pool ?p)" for q
    using prev(2) pa_inv_poolD(1)[OF inv] by (auto simp: prev_ready_def pool_live_def pool_ok_def)
  obtain k where k: "num_tokens_total_from (bp_pool (pool_set ?p r ?o1)) ?o1 = Inr k"
    using ql prev(1) by (cases prev) (auto simp: num_tokens_total_from_def)
  let ?o2 = "?o1\<lparr>pb_cached_num_tokens_total := k\<rparr>"
  let ?p2 = "pool_set ?p r ?o2"
  have upd: "PrefixCachingBlock_update_num_tokens_total (pool_set ?p r ?o1) r = Inr ?p2"
    using rl k by (simp add: PrefixCachingBlock_update_num_tokens_total_def)
  have oth: "\<forall>q \<in> pool_live ?p. q \<noteq> r \<longrightarrow> bp_pool ?p2 ! q = bp_pool ?p ! q" by simp
  have pr: "prev_ready (rt_hash E) ?p2 prev" and nh: "next_hash (rt_hash E) ?p2 prev toks x = next_hash (rt_hash E) ?p prev toks x" for x
    using prev(2,3) oth by (auto simp: prev_ready_def next_hash_def split: option.splits)
  let ?o3 = "?o2\<lparr>pb_cached_content_hash := Some h\<rparr>"
  have "PrefixCachingBlock_content_hash (rt_hash E) ?p2 r = Inr (Some h, pool_set ?p2 r ?o3)"
    using content_hash_full[of r ?p2 prev "rt_hash E"] rl r(4,5) prev(1,3) pr pa_inv_poolD(1)[OF inv] nh h
    by (simp add: is_full_def num_empty_slots_def Let_def)
  then have h1: "pa_content_hash E (pa_set_pool ?p2 a) r = Inr (Some h, pa_set_pool (pool_set ?p r ?o3) a)"
    by (simp add: pa_content_hash_def)
  let ?a3 = "pa_set_pool (pool_set ?p r ?o3) a"
  have i3: "pa_inv items ?a3" using pa_inv_poolD[OF inv] by (intro pa_inv_pool[OF inv]) simp_all
  obtain a' where a': "PrefixCachingBlockAllocator_promote_to_immutable_block E ?a3 r = Inr (b, a')" "pa_inv items a'"
     "pa_cached a' = (pa_cached a)(h \<mapsto> b)" "pa_hashless a' = pa_hashless ?a3" "pa_evictor a' = pa_evictor a"
     "pa_metric_data a' = pa_metric_data a" "pa_block_size a' = pa_block_size a"
    using promote_new[OF i3, of r b h 1] rl r(2) n nc by auto
  have same: "?o3\<lparr>bl_block_id := Some b\<rparr> = ?o3" using r(2) by (intro block_id_same) simp
  have p': "pa_pool a' = pool_set ?p r ?o3" using a'(4) by (simp add: pa_set_pool_def)
  then have "pa_set_block_id a' r (Some b) = Inr (pa_set_pool (pool_set ?p r (?o3\<lparr>bl_block_id := Some b\<rparr>)) a')"
    using rl by (simp add: pa_set_block_id_def)
  then have "pa_set_block_id a' r (Some b) = Inr (pa_set_pool (pa_pool a') a')" unfolding same p' .
  then have si: "pa_set_block_id a' r (Some b) = Inr a'" by simp
  have run: "PrefixCachingBlock_append_token_ids E now a r toks = Inr a'"
    using h0 rl r(6) ne app upd h1 a'(1) si by (simp add: PrefixCachingBlock_append_token_ids_def)
  have "pa_refs a' = pa_refs a" "pa_free a' = pa_free a" using a'(4) by (simp_all add: pa_refs_def pa_set_pool_def)
  then show ?thesis using run a'(2,3,5,6) p' prev(1) r(2)
    by (intro exI[of _ a'] exI[of _ ?o3]) simp
qed

lemma num_free_same:
  "pa_free a' = pa_free a \<Longrightarrow> pa_evictor a' = pa_evictor a \<Longrightarrow>
   PrefixCachingBlockAllocator_get_num_free_blocks a' = PrefixCachingBlockAllocator_get_num_free_blocks a"
  by (simp add: PrefixCachingBlockAllocator_get_num_free_blocks_def NaiveBlockAllocator_get_num_free_blocks_def)

lemma allocate_mutable_ok:
  assumes inv: "pa_inv items a" and prev: "prev_ready (rt_hash E) (pa_pool a) prev" and sz: "0 < pa_block_size a"
    and pos: "0 < PrefixCachingBlockAllocator_get_num_free_blocks a"
  shows "\<exists>r b a1 p. PrefixCachingBlockAllocator_allocate_mutable_block E now a prev x = Inr (r, pa_set_pool p a1) \<and>
     alloc_outcome a b a1 \<and> pa_inv items (pa_set_pool p a1) \<and>
     r \<notin> pool_live (pa_pool a) \<and> r < length (bp_pool p) \<and> pool_live p = insert r (pool_live (pa_pool a)) \<and>
     (\<forall>q \<in> pool_live (pa_pool a). bp_pool p ! q = bp_pool (pa_pool a) ! q) \<and>
     bl_prev_block (bp_pool p ! r) = prev \<and> bl_token_ids (bp_pool p ! r) = [] \<and> bl_block_size (bp_pool p ! r) = pa_block_size a \<and>
     bl_block_id (bp_pool p ! r) = Some b \<and> pb_cached_content_hash (bp_pool p ! r) = None \<and>
     \<not> pb_computed (bp_pool p ! r) \<and> pb_extra_hash (bp_pool p ! r) = x"
proof -
  obtain b a1 where a1: "PrefixCachingBlockAllocator_allocate_block_id E now a = Inr (b, a1)" "alloc_outcome a b a1"
    using take_block_id_ok[OF inv pos, of now] by blast
  have i1: "pa_inv items a1" and so: "same_objects (pa_pool a) (pa_pool a1)" and bs: "pa_block_size a1 = pa_block_size a"
    using a1(2) by (simp_all add: alloc_outcome_def pa_frame_def)
  have "prev_ready (rt_hash E) (pa_pool a1) prev"
    using prev_ready_same(1)[OF prev, of "pa_pool a1"] so by (simp add: same_objects_def)
  from pa_init_block_ok[OF i1 _ this, of "[]" "Some b" x] obtain r p where i:
    "pa_init_block a1 prev [] (Some b) x = Inr (r, pa_set_pool p a1)" "pa_inv items (pa_set_pool p a1)"
     "r \<notin> pool_live (pa_pool a1)" "r < length (bp_pool p)" "pool_live p = insert r (pool_live (pa_pool a1))"
     "\<forall>q \<in> pool_live (pa_pool a1). bp_pool p ! q = bp_pool (pa_pool a1) ! q"
     "bl_prev_block (bp_pool p ! r) = prev" "bl_token_ids (bp_pool p ! r) = []" "bl_block_size (bp_pool p ! r) = pa_block_size a1"
     "bl_block_id (bp_pool p ! r) = Some b" "pb_cached_content_hash (bp_pool p ! r) = None"
     "\<not> pb_computed (bp_pool p ! r)" "pb_extra_hash (bp_pool p ! r) = x" by auto
  have "\<not> is_full (bp_pool p ! r)" using i(8,9) bs sz by (simp add: is_full_def num_empty_slots_def)
  then have "pa_content_hash E (pa_set_pool p a1) r = Inr (None, pa_set_pool p a1)"
    using content_hash_partial[OF i(4,11)] by (simp add: pa_content_hash_def)
  then have "PrefixCachingBlockAllocator_allocate_mutable_block E now a prev x = Inr (r, pa_set_pool p a1)"
    using a1(1) i(1,4,12) by (simp add: PrefixCachingBlockAllocator_allocate_mutable_block_def)
  then show ?thesis using a1(2) i so bs
    by (intro exI[of _ r] exI[of _ b] exI[of _ a1] exI[of _ p]) (simp add: same_objects_def)
qed

lemma allocate_immutable_miss:
  assumes inv: "pa_inv items a" and prev: "prev_ready (rt_hash E) (pa_pool a) prev"
    and full: "int (length toks) = pa_block_size a" "toks \<noteq> []" and h: "h = next_hash (rt_hash E) (pa_pool a) prev toks x"
    and c: "pa_cached a h = None" and pos: "0 < PrefixCachingBlockAllocator_get_num_free_blocks a"
  shows "\<exists>r a' b. PrefixCachingBlockAllocator_allocate_immutable_block E now a prev toks x = Inr (r, a') \<and> pa_inv items a' \<and>
     new_object a r a' prev toks x b h \<and> pa_refs a b = Some 0 \<and> pa_refs a' = (pa_refs a)(b \<mapsto> 1) \<and>
     pa_view a' = (pa_view a)(b := None) \<and>
     (if pa_free a \<noteq> [] then pa_free a = b # pa_free a' \<and> pa_cached a' = (pa_cached a)(h \<mapsto> b)
      else pa_free a' = [] \<and> (\<exists>h'. pa_view a b = Some h' \<and> pa_cached a' = (pa_cached a)(h' := None, h \<mapsto> b))) \<and>
     pa_metric_data a' = CacheMetricData_query (pa_metric_data a) False"
proof -
  obtain r0 p0 where i: "pa_init_block a prev toks None x = Inr (r0, pa_set_pool p0 a)" "pa_inv items (pa_set_pool p0 a)"
     "r0 \<notin> pool_live (pa_pool a)" "r0 < length (bp_pool p0)" "pool_live p0 = insert r0 (pool_live (pa_pool a))" "pool_ok p0" "0 < bp_pool_size p0"
     "\<forall>q \<in> pool_live (pa_pool a). bp_pool p0 ! q = bp_pool (pa_pool a) ! q"
     "bl_prev_block (bp_pool p0 ! r0) = prev" "bl_token_ids (bp_pool p0 ! r0) = toks" "bl_block_size (bp_pool p0 ! r0) = pa_block_size a"
     "pb_cached_content_hash (bp_pool p0 ! r0) = None" "pb_extra_hash (bp_pool p0 ! r0) = x"
    using pa_init_block_ok[OF inv _ prev, of toks None x] full by auto
  have sub: "pool_live (pa_pool a) \<subseteq> pool_live p0" using i(5) by auto
  have pr: "prev_ready (rt_hash E) p0 prev" and nh: "next_hash (rt_hash E) p0 prev toks x = h"
    using prev_ready_same[OF prev sub i(8)] h by auto
  have ne: "prev \<noteq> Some r0" using prev i(3) by (auto simp: prev_ready_def)
  have fl: "is_full (bp_pool p0 ! r0)" using i(10,11) full by (simp add: is_full_def num_empty_slots_def)
  let ?p1 = "pool_set p0 r0 ((bp_pool p0 ! r0)\<lparr>pb_cached_content_hash := Some h\<rparr>)"
  have ch: "pa_content_hash E (pa_set_pool p0 a) r0 = Inr (Some h, pa_set_pool ?p1 a)"
    using content_hash_full[OF i(4,12) fl i(9) pr ne i(6)] i(10,13) nh by (simp add: pa_content_hash_def Let_def)
  let ?p2 = "BlockPool_free_block ?p1 r0"
  let ?a2 = "pa_set_pool ?p2 (record_query a False)"
  have rq: "record_query (pa_set_pool p a) hit = pa_set_pool p (record_query a hit)" for p hit
    by (cases "pa_evictor a") (simp_all add: record_query_def pa_set_pool_def
        PrefixCachingBlockAllocator_query_scheduler_post_warmup_metric_def)
  have fb: "pool_ok ?p2" "pool_live ?p2 = pool_live (pa_pool a)" "0 < bp_pool_size ?p2"
    using free_block_ok[of ?p1 r0] i(3,5,6,7) by (auto simp: BlockPool_free_block_def)
  have obj: "\<forall>q \<in> pool_live (pa_pool a). bp_pool ?p2 ! q = bp_pool (pa_pool a) ! q"
  proof
    fix q assume q: "q \<in> pool_live (pa_pool a)"
    then have "q \<noteq> r0" using i(3) by auto
    then show "bp_pool ?p2 ! q = bp_pool (pa_pool a) ! q" using i(8) q by (simp add: BlockPool_free_block_def)
  qed
  have inv2: "pa_inv items ?a2" using inv fb by (intro pa_inv_pool) simp_all
  have pr2: "prev_ready (rt_hash E) (pa_pool ?a2) prev"
    using prev_ready_same(1)[OF prev, of ?p2] fb(2) obj by simp
  have nf2: "PrefixCachingBlockAllocator_get_num_free_blocks ?a2 = PrefixCachingBlockAllocator_get_num_free_blocks a"
    by (rule num_free_same) simp_all
  have bs: "0 < pa_block_size ?a2" using full by (cases toks) auto
  obtain r b a3 p3 where m: "PrefixCachingBlockAllocator_allocate_mutable_block E now ?a2 prev x = Inr (r, pa_set_pool p3 a3)"
     "alloc_outcome ?a2 b a3" "pa_inv items (pa_set_pool p3 a3)"
     "r \<notin> pool_live ?p2" "r < length (bp_pool p3)" "pool_live p3 = insert r (pool_live ?p2)"
     "\<forall>q \<in> pool_live ?p2. bp_pool p3 ! q = bp_pool ?p2 ! q"
     "bl_prev_block (bp_pool p3 ! r) = prev" "bl_token_ids (bp_pool p3 ! r) = []" "bl_block_size (bp_pool p3 ! r) = pa_block_size a"
     "bl_block_id (bp_pool p3 ! r) = Some b" "pb_cached_content_hash (bp_pool p3 ! r) = None"
     "\<not> pb_computed (bp_pool p3 ! r)" "pb_extra_hash (bp_pool p3 ! r) = x"
    using allocate_mutable_ok[OF inv2 pr2 bs, of now x] nf2 pos by auto
  note out = m(2)[unfolded alloc_outcome_def]
  have sub3: "pool_live (pa_pool a) \<subseteq> pool_live p3" using m(6) fb(2) by auto
  have obj3: "\<forall>q \<in> pool_live (pa_pool a). bp_pool p3 ! q = bp_pool (pa_pool a) ! q" using m(7) fb(2) obj by simp
  have pr3: "prev_ready (rt_hash E) p3 prev" and nh3: "next_hash (rt_hash E) p3 prev toks x = h"
    using prev_ready_same[OF prev sub3 obj3] h by auto
  have ne3: "prev \<noteq> Some r" using prev m(4) fb(2) by (auto simp: prev_ready_def)
  have rf3: "pa_refs a3 = (pa_refs a)(b \<mapsto> 1)" using out by simp
  have ch3: "pa_cached a3 h = None" using out c by (auto split: if_splits)
  have rl: "r \<in> pool_live p3" using m(6) by simp
  have ran3: "b \<notin> ran (pa_cached a3)" using out by simp
  obtain a' o' where a': "PrefixCachingBlock_append_token_ids E now (pa_set_pool p3 a3) r toks = Inr a'" "pa_inv items a'"
     "pa_refs a' = pa_refs a3" "pa_evictor a' = pa_evictor a3" "pa_cached a' = (pa_cached a3)(h \<mapsto> b)" "pa_free a' = pa_free a3"
     "pa_metric_data a' = pa_metric_data a3" "pa_pool a' = pool_set p3 r o'"
     "bl_prev_block o' = prev" "bl_token_ids o' = toks" "pb_extra_hash o' = x" "bl_block_id o' = Some b" "pb_cached_content_hash o' = Some h"
    using append_full_alone[OF m(3), of r b toks prev h now] rl m(8-14) pr3 ne3 rf3 full nh3 ch3 ran3 by auto
  have run: "PrefixCachingBlockAllocator_allocate_immutable_block E now a prev toks x = Inr (r, a')"
    using i(1) ch c m(1) a'(1)
    by (simp add: PrefixCachingBlockAllocator_allocate_immutable_block_def pa_cached_def rq Let_def)
  have rn: "r \<notin> pool_live (pa_pool a)" using m(4) fb(2) by simp
  have other: "q \<in> pool_live (pa_pool a) \<Longrightarrow> q \<noteq> r" for q using rn by auto
  have "new_object a r a' prev toks x b h"
    using a'(8-13) m(5,6) fb(2) rn obj3 other by (auto simp: new_object_def Let_def)
  moreover have "pa_view a' = (pa_view a)(b := None)" using out a'(4) by (simp add: pa_view_def)
  moreover have "if pa_free a \<noteq> [] then pa_free a = b # pa_free a' \<and> pa_cached a' = (pa_cached a)(h \<mapsto> b)
      else pa_free a' = [] \<and> (\<exists>h'. pa_view a b = Some h' \<and> pa_cached a' = (pa_cached a)(h' := None, h \<mapsto> b))"
    using out a'(5,6) by (auto split: if_splits)
  moreover have "pa_metric_data a' = CacheMetricData_query (pa_metric_data a) False"
    using out a'(7) by (simp add: pa_frame_def)
  ultimately show ?thesis using run a'(2,3) rf3 out
    by (intro exI[of _ r] exI[of _ a'] exI[of _ b]) simp
qed

section \<open>Release\<close>

lemma free_block_same: "bp_pool (BlockPool_free_block p r) = bp_pool p"
  by (simp add: BlockPool_free_block_def)

lemma pa_release_object:
  assumes "pa_inv items a" "r \<in> pool_live (pa_pool a)"
  shows "pa_inv items (pa_set_pool (BlockPool_free_block (pa_pool a) r) a)"
    "pool_live (BlockPool_free_block (pa_pool a) r) = pool_live (pa_pool a) - {r}"
proof -
  note k = free_block_ok[OF pa_inv_poolD(1)[OF assms(1)] assms(2)]
  have "0 < bp_pool_size (BlockPool_free_block (pa_pool a) r)"
    using pa_inv_poolD(2)[OF assms(1)] by (simp add: BlockPool_free_block_def)
  then show "pa_inv items (pa_set_pool (BlockPool_free_block (pa_pool a) r) a)" by (rule pa_inv_pool[OF assms(1) k(1)])
  show "pool_live (BlockPool_free_block (pa_pool a) r) = pool_live (pa_pool a) - {r}" by (rule k(2))
qed

lemma free_cached_ok:
  assumes inv: "pa_inv items a" and r: "r \<in> pool_live (pa_pool a)" "bl_block_id (bp_pool (pa_pool a) ! r) = Some b"
      "pb_cached_content_hash (bp_pool (pa_pool a) ! r) = Some h"
    and c: "pa_cached a h = Some b" and n: "pa_refs a b = Some n" "0 < n" and can: "n = 1 \<Longrightarrow> rest_can_add a r b h"
  shows "\<exists>a'. PrefixCachingBlockAllocator_free E now a r keep = Inr a' \<and> pa_inv items a' \<and>
     pa_refs a' = (pa_refs a)(b \<mapsto> n - 1) \<and> pa_view a' = (if n = 1 then (pa_view a)(b \<mapsto> h) else pa_view a) \<and>
     pa_cached a' = pa_cached a \<and> pa_free a' = pa_free a \<and> pa_block_size a' = pa_block_size a \<and>
     pool_live (pa_pool a') = (if keep then pool_live (pa_pool a) else pool_live (pa_pool a) - {r}) \<and>
     (\<forall>q. q \<noteq> r \<longrightarrow> bp_pool (pa_pool a') ! q = bp_pool (pa_pool a) ! q)"
proof -
  have rl: "r < length (bp_pool (pa_pool a))" using r(1) pa_inv_poolD(1)[OF inv] by (simp add: pool_live_def pool_ok_def)
  obtain a1 where a1: "PrefixCachingBlockAllocator_decr_refcount_cached_block E now a r h = Inr a1" "pa_inv items a1"
     "pa_refs a1 = (pa_refs a)(b \<mapsto> n - 1)" "pa_view a1 = (if n = 1 then (pa_view a)(b \<mapsto> h) else pa_view a)"
     "pa_cached_blocks a1 = pa_cached_blocks a" "pa_free a1 = pa_free a" "pa_rest_same a a1"
     "pa_pool a1 = pool_set (pa_pool a) r ((bp_pool (pa_pool a) ! r)\<lparr>bl_block_id := None\<rparr>)"
    using decr_cached_ok[OF inv rl r(2) c n can, of now] by blast
  have ch: "pa_content_hash E a r = Inr (Some h, a)" using content_hash_memo[OF rl r(3)] by (simp add: pa_content_hash_def)
  have run: "PrefixCachingBlockAllocator_free_block_id E now a r = Inr a1"
    using rl r(2) ch a1(1,8)
    by (simp add: PrefixCachingBlockAllocator_free_block_id_def free_block_id_with_def pa_block_id_def)
  show ?thesis
  proof (cases keep)
    case True
    then show ?thesis using run a1
      by (intro exI[of _ a1]) (simp add: PrefixCachingBlockAllocator_free_def pa_cached_def pa_rest_same_def)
  next
    case False
    let ?a2 = "pa_set_pool (BlockPool_free_block (pa_pool a1) r) a1"
    have "r \<in> pool_live (pa_pool a1)" using r(1) a1(8) by simp
    note rel = pa_release_object[OF a1(2) this]
    have "PrefixCachingBlockAllocator_free E now a r keep = Inr ?a2" using run False by (simp add: PrefixCachingBlockAllocator_free_def)
    then show ?thesis using False rel a1(3-8)
      by (intro exI[of _ ?a2]) (simp add: pa_cached_def pa_rest_same_def free_block_same)
  qed
qed

lemma free_hashless_ok:
  assumes inv: "pa_inv items a" and r: "r \<in> pool_live (pa_pool a)" "bl_block_id (bp_pool (pa_pool a) ! r) = Some b"
      "pb_cached_content_hash (bp_pool (pa_pool a) ! r) = None" "\<not> is_full (bp_pool (pa_pool a) ! r)"
    and n: "pa_refs a b = Some n" "0 < n" and nc: "n = 1 \<Longrightarrow> b \<notin> ran (pa_cached a)"
  shows "\<exists>a'. PrefixCachingBlockAllocator_free E now a r False = Inr a' \<and> pa_inv items a' \<and>
     pa_refs a' = (pa_refs a)(b \<mapsto> n - 1) \<and> pa_evictor a' = pa_evictor a \<and> pa_cached a' = pa_cached a \<and>
     pa_free a' = (if n = 1 then b # pa_free a else pa_free a) \<and> pool_live (pa_pool a') = pool_live (pa_pool a) - {r} \<and>
     (\<forall>q. q \<noteq> r \<longrightarrow> bp_pool (pa_pool a') ! q = bp_pool (pa_pool a) ! q)"
proof -
  have rl: "r < length (bp_pool (pa_pool a))" using r(1) pa_inv_poolD(1)[OF inv] by (simp add: pool_live_def pool_ok_def)
  obtain a1 where a1: "PrefixCachingBlockAllocator_decr_refcount_hashless_block a r = Inr a1" "pa_inv items a1"
     "pa_refs a1 = (pa_refs a)(b \<mapsto> n - 1)" "pa_evictor a1 = pa_evictor a"
     "pa_cached_blocks a1 = pa_cached_blocks a" "pa_free a1 = (if n = 1 then b # pa_free a else pa_free a)"
     "pa_pool a1 = pool_set (pa_pool a) r ((bp_pool (pa_pool a) ! r)\<lparr>bl_block_id := None\<rparr>)"
    using decr_hashless_ok[OF inv rl r(2) n nc] by blast
  have ch: "pa_content_hash E a r = Inr (None, a)" using content_hash_partial[OF rl r(3,4)] by (simp add: pa_content_hash_def)
  have run: "PrefixCachingBlockAllocator_free_block_id E now a r = Inr a1"
    using rl r(2) ch a1(1,7)
    by (simp add: PrefixCachingBlockAllocator_free_block_id_def free_block_id_with_def pa_block_id_def)
  let ?a2 = "pa_set_pool (BlockPool_free_block (pa_pool a1) r) a1"
  have "r \<in> pool_live (pa_pool a1)" using r(1) a1(7) by simp
  note rel = pa_release_object[OF a1(2) this]
  have "PrefixCachingBlockAllocator_free E now a r False = Inr ?a2" using run by (simp add: PrefixCachingBlockAllocator_free_def)
  then show ?thesis using rel a1(3-7) by (intro exI[of _ ?a2]) (simp add: pa_cached_def free_block_same)
qed

text \<open>
  What is freed is found again: after the last release the block waits in the evictor, and the
  next allocation of the same content takes it back, without taking a block from anyone.
\<close>

lemma free_then_allocate:
  assumes inv: "pa_inv items a" and r: "r \<in> pool_live (pa_pool a)" "bl_block_id (bp_pool (pa_pool a) ! r) = Some b"
      "pb_cached_content_hash (bp_pool (pa_pool a) ! r) = Some h"
    and c: "pa_cached a h = Some b" and n: "pa_refs a b = Some 1" and can: "rest_can_add a r b h"
    and prev: "prev_ready (rt_hash E) (pa_pool a) prev" "prev \<noteq> Some r"
    and full: "int (length toks) = pa_block_size a" and h: "h = next_hash (rt_hash E) (pa_pool a) prev toks x"
  shows "\<exists>a1 s a2. PrefixCachingBlockAllocator_free E now a r False = Inr a1 \<and> pa_refs a1 b = Some 0 \<and>
     PrefixCachingBlockAllocator_allocate_immutable_block E now' a1 prev toks x = Inr (s, a2) \<and> pa_inv items a2 \<and>
     bl_block_id (bp_pool (pa_pool a2) ! s) = Some b \<and> pa_refs a2 = pa_refs a \<and> pa_cached a2 = pa_cached a \<and> pa_free a2 = pa_free a"
proof -
  obtain a1 where a1: "PrefixCachingBlockAllocator_free E now a r False = Inr a1" "pa_inv items a1"
     "pa_refs a1 = (pa_refs a)(b \<mapsto> 0)" "pa_cached a1 = pa_cached a" "pa_free a1 = pa_free a" "pa_block_size a1 = pa_block_size a"
     "pool_live (pa_pool a1) = pool_live (pa_pool a) - {r}" "\<forall>q. q \<noteq> r \<longrightarrow> bp_pool (pa_pool a1) ! q = bp_pool (pa_pool a) ! q"
    using free_cached_ok[OF inv r c n, of now False] can by auto
  have pr: "prev_ready (rt_hash E) (pa_pool a1) prev" and nh: "next_hash (rt_hash E) (pa_pool a1) prev toks x = h"
    using prev a1(7,8) h by (auto simp: prev_ready_def next_hash_def split: option.splits)
  obtain s a2 m where s: "PrefixCachingBlockAllocator_allocate_immutable_block E now' a1 prev toks x = Inr (s, a2)" "pa_inv items a2"
     "new_object a1 s a2 prev toks x b h" "pa_refs a1 b = Some m" "pa_refs a2 = (pa_refs a1)(b \<mapsto> m + 1)"
     "pa_cached a2 = pa_cached a1" "pa_free a2 = pa_free a1"
    using allocate_immutable_hit[OF a1(2) pr, of toks h x b now'] full a1(4,6) nh c by auto
  have "m = 0" using s(4) a1(3) by simp
  then have "pa_refs a2 = pa_refs a" using s(5) a1(3) n by auto
  then show ?thesis using a1 s by (intro exI[of _ a1] exI[of _ s] exI[of _ a2]) (simp add: new_object_def Let_def)
qed

section \<open>Accounting\<close>

lemma free_and_used:
  assumes inv: "pa_inv items a"
  shows "PrefixCachingBlockAllocator_get_num_free_blocks a + card {b. \<exists>n > 0. pa_refs a b = Some n} =
     PrefixCachingBlockAllocator_get_num_total_blocks a"
proof -
  note st = pa_states_okD[OF pa_inv_states[OF inv]]
  let ?used = "{b. \<exists>n > 0. pa_refs a b = Some n}"
  have dm: "dom (pa_refs a) = set (na_all_block_indices (pa_hashless a))" by (rule pa_inv_ids(2)[OF inv])
  have d: "distinct (na_all_block_indices (pa_hashless a))" using inv by (simp add: pa_inv_def ids_ok_def)
  have nn: "pa_refs a b = Some n \<Longrightarrow> 0 \<le> n" for b n using pa_inv_rc[OF inv] by (auto simp: rc_ok_def pa_refs_def)
  have split: "dom (pa_refs a) = (set (pa_free a) \<union> dom (pa_view a)) \<union> ?used"
  proof (intro equalityI subsetI)
    fix b assume "b \<in> dom (pa_refs a)"
    then obtain n where "pa_refs a b = Some n" by auto
    then show "b \<in> (set (pa_free a) \<union> dom (pa_view a)) \<union> ?used"
      using st(3) nn[of b n] by (cases "n = 0") (auto simp: dom_def)
  qed (use st(3,4) in auto)
  have fin: "finite (dom (pa_refs a))" by (simp add: dm)
  have fs: "finite (set (pa_free a) \<union> dom (pa_view a))" "finite ?used" using fin unfolding split by auto
  have disj: "set (pa_free a) \<inter> dom (pa_view a) = {}" "(set (pa_free a) \<union> dom (pa_view a)) \<inter> ?used = {}"
    using st(3,4) by fastforce+
  have "card (dom (pa_refs a)) = card (set (pa_free a)) + card (dom (pa_view a)) + card ?used"
    unfolding split using fs disj by (simp add: card_Un_disjoint)
  moreover have "card (set (pa_free a)) = length (pa_free a)" using pa_inv_ids(1)[OF inv] by (rule distinct_card)
  moreover have "card (dom (pa_view a)) = evictor_num_blocks (pa_evictor a)"
    using env.ev.num_blocks_card[OF evictor_of_inv[OF inv]] by (simp add: pa_view_def)
  moreover have "card (dom (pa_refs a)) = length (na_all_block_indices (pa_hashless a))"
    unfolding dm using d by (rule distinct_card)
  ultimately show ?thesis
    by (simp add: PrefixCachingBlockAllocator_get_num_free_blocks_def NaiveBlockAllocator_get_num_free_blocks_def
        PrefixCachingBlockAllocator_get_num_total_blocks_def NaiveBlockAllocator_get_num_total_blocks_def)
qed

end

end
