(* ===== verification/Prefix_Lifecycle.thy ===== *)
theory Prefix_Lifecycle
  imports Prefix_Reuse
begin

text \<open>
  The life cycle of the prefix-caching allocator: the constructor establishes the invariant, and
  a reset empties the cache and gives every block back, exactly when no block is in use.
\<close>

section \<open>Construction\<close>

text \<open>
  The settings an evictor is built from. The ml evictor needs positive settings of its pdp policy,
  also in its shadow cache, and an initial policy that the scheduler knows; the constructor does
  not check either.
\<close>

definition ml_settings_ok :: "'d LRUMLEvictor \<Rightarrow> bool" where
  "ml_settings_ok e \<longleftrightarrow> 1 \<le> ml_pdp_max_distance e \<and> 1 \<le> ml_pdp_recompute_interval e \<and> 1 \<le> ml_pdp_bucket_size e \<and>
     sc_current_policy (ml_scheduler e) \<in> set SCHEDULER_POLICIES \<and>
     (case dict_get (sc_shadow_caches (ml_scheduler e)) ''pdp'' of None \<Rightarrow> True
      | Some c \<Rightarrow> 1 \<le> sh_pdp_max_distance c \<and> 1 \<le> sh_pdp_recompute_interval c \<and> 1 \<le> sh_pdp_bucket_size c)"

definition evictor_settings_ok :: "'d runtime \<Rightarrow> rat \<Rightarrow> string \<Rightarrow> string \<Rightarrow> bool" where
  "evictor_settings_ok E now alg config \<longleftrightarrow> alg \<in> {''lru'', ''pdp''} \<or>
     (case LRUMLEvictor_init (rt_ops E) now config of Inl _ \<Rightarrow> True | Inr e \<Rightarrow> ml_settings_ok e)"

lemma scheduler_init_policies:
  assumes "EvictionPolicyScheduler_init now cfg = Inr s"
  shows "set (sc_shadow_policies s) \<subseteq> set SHADOW_POLICIES"
proof -
  have "parse_shadow_policies (dict_get cfg ''scheduler_shadow_policies'') = Inr (sc_shadow_policies s)"
    using assms by (auto simp: EvictionPolicyScheduler_init_def elim!: res_bind_InrE)
  then show ?thesis by (rule parse_shadow_policies_ok)
qed

context prefix_env
begin

lemma new_lruml_fresh:
  assumes "LRUMLEvictor_init (rt_ops E) now config = Inr x" "ml_settings_ok x"
    "LRUMLEvictor_set_capacity (rt_exp E) now x cap = Inr y" "0 \<le> cap"
  shows "lruml_inv items y" "ml_free_table y = []"
proof -
  obtain cfg where cfg: "EvictionPolicyScheduler_init now cfg = Inr (ml_scheduler x)"
    using assms(1) by (auto simp: LRUMLEvictor_init_def elim!: res_bind_InrE)
  note sub = scheduler_init_policies[OF cfg]
  have si: "sched_inv (ml_scheduler x)"
    by (rule scheduler_init_inv[OF cfg]) (use assms(2) in \<open>simp_all add: ml_settings_ok_def\<close>)
  then have so: "scheduler_ok (ml_scheduler x)" using assms(2) sub by (simp add: scheduler_ok_def ml_settings_ok_def)
  have "1 \<le> ml_pdp_max_distance x" "1 \<le> ml_pdp_recompute_interval x" "1 \<le> ml_pdp_bucket_size x"
    using assms(2) by (simp_all add: ml_settings_ok_def)
  note i = lruml_init_inv[of "rt_ops E" now config x items, OF assms(1) env.items_new this so]
  obtain caches where c: "EvictionPolicyScheduler_set_capacity (rt_exp E) now (ml_scheduler x) cap =
      Inr (ml_scheduler x\<lparr>sc_capacity := cap, sc_shadow_caches := caches\<rparr>)"
    "sched_inv (ml_scheduler x\<lparr>sc_capacity := cap, sc_shadow_caches := caches\<rparr>)"
    using scheduler_set_capacity_total[OF si assms(4)] by blast
  have y: "y = x\<lparr>ml_scheduler := ml_scheduler x\<lparr>sc_capacity := cap, sc_shadow_caches := caches\<rparr>\<rparr>"
    using assms(3) c(1) by (simp add: LRUMLEvictor_set_capacity_def)
  have "scheduler_ok (ml_scheduler x\<lparr>sc_capacity := cap, sc_shadow_caches := caches\<rparr>)" using so c(2) by (simp add: scheduler_ok_def)
  with i show "lruml_inv items y" "ml_free_table y = []" by (simp_all add: y lruml_inv_def lruml_core_def ml_pdp_ok_def)
qed

lemma new_evictor_fresh:
  assumes "new_evictor E now alg config cap = Inr e" "evictor_settings_ok E now alg config" "0 \<le> cap"
  shows "evictor_inv items e \<and> evictor_view e = Map.empty"
proof -
  consider "alg = ''lru''" | "alg = ''pdp''" | "alg \<notin> {''lru'', ''pdp''}" by blast
  then show ?thesis
  proof cases
    case 1
    then have "e = LRU LRUEvictor_init" using assms(1) by (simp add: new_evictor_def make_evictor_def)
    then show ?thesis using lru_inv_init by (auto simp: lru_view_def LRUEvictor_init_def hash_view_def)
  next
    case 2
    then obtain x where x: "PDPEvictor_init config = Inr x" "e = PDP (PDPEvictor_set_capacity x cap)"
      using assms(1) by (auto simp: new_evictor_def make_evictor_def elim!: res_bind_InrE)
    then show ?thesis using pdp_inv_init[OF x(1)]
      by (auto simp: pdp_inv_def pdp_view_def PDPEvictor_set_capacity_def hash_view_def)
  next
    case 3
    then obtain x y where x: "LRUMLEvictor_init (rt_ops E) now config = Inr x" "LRUMLEvictor_set_capacity (rt_exp E) now x cap = Inr y"
      "e = LRUML y"
      using assms(1) by (auto simp: new_evictor_def make_evictor_def res_wrap_def elim!: res_bind_InrE)
    have "ml_settings_ok x" using assms(2) 3 x(1) by (simp add: evictor_settings_ok_def)
    from new_lruml_fresh[OF x(1) this x(2) assms(3)] show ?thesis by (simp add: x(3) lruml_view_def hash_view_def)
  qed
qed

lemma pa_init_inv:
  assumes run: "PrefixCachingBlockAllocator_init E now num_blocks block_size block_ids alg config = Inr a"
    and ids: "\<forall>l. block_ids = Some l \<longrightarrow> distinct l" and pos: "0 < num_blocks" and alg: "evictor_settings_ok E now alg config"
  shows "pa_inv items a \<and> (\<forall>b n. pa_refs a b = Some n \<longrightarrow> n = 0) \<and> pa_cached a = Map.empty \<and>
     int (PrefixCachingBlockAllocator_get_num_free_blocks a) = num_blocks + int (evictor_num_blocks (pa_evictor a)) \<and>
     pa_view a = Map.empty \<and> pa_block_size a = block_size"
proof -
  let ?l = "case block_ids of None \<Rightarrow> map int [0..<nat num_blocks] | Some l \<Rightarrow> l"
  have dl: "distinct ?l" using ids by (auto simp: distinct_map split: option.splits)
  obtain pool h e where p: "BlockPool_init PrefixCachingBlock_init block_size (num_blocks * 4) = Inr pool"
    "NaiveBlockAllocator_init PrefixCachingBlock_init num_blocks block_size (Some ?l) (Some pool) = Inr h"
    "new_evictor E now alg config num_blocks = Inr e"
    and a: "a = \<lparr>pa_block_table = [], pa_block_size = block_size, pa_cached_blocks = [], pa_touched_blocks = [],
                pa_block_tracker = map (\<lambda>b. (b, BlockTracker_init)) (remdups ?l), pa_hashless = h,
                pa_eviction_algorithm = alg, pa_eviction_algorithm_config = config,
                pa_evictor = e, pa_cow_tracker = CopyOnWriteTracker_init,
                pa_metric_data = CacheMetricData_init, pa_scheduler_post_warmup_metric_data = CacheMetricData_init\<rparr>"
    using run by (auto simp: PrefixCachingBlockAllocator_init_def Let_def elim!: res_bind_InrE)
  have h: "h = \<lparr>na_free_block_indices = ?l, na_all_block_indices = ?l, na_refcounter = RefCounter_init ?l,
      na_block_size = block_size, na_cow_tracker = CopyOnWriteTracker_init, na_block_pool = pool\<rparr>" and len: "int (length ?l) = num_blocks"
    using p(2) dl by (auto simp: NaiveBlockAllocator_init_def Let_def distinct_remdups_id elim!: res_bind_InrE)
  have "bp_pool_size pool = nat (num_blocks * 4)" using p(1) by (auto simp: BlockPool_init_def elim!: res_bind_InrE)
  then have po: "pool_ok pool" "0 < bp_pool_size pool" using pool_ok_init[OF p(1)] pos by auto
  have e: "evictor_inv items e" "evictor_view e = Map.empty" using new_evictor_fresh[OF p(3) alg] pos by auto
  have rf: "pa_refs a b = (if b \<in> set ?l then Some 0 else None)" for b by (simp add: a h pa_refs_def RefCounter_init_get)
  have tr: "dict_get (pa_block_tracker a) b = (if b \<in> set ?l then Some BlockTracker_init else None)" for b
    by (simp add: a map_of_map_restrict restrict_map_def)
  have vw: "pa_view a = Map.empty" and ca: "pa_cached a = Map.empty" by (simp_all add: a pa_view_def pa_cached_def e(2))
  have fr: "pa_free a = ?l" by (simp add: a h)
  have "pa_states_ok (pa_refs a) (pa_view a) (pa_cached a) (set (pa_free a)) (dict_get (pa_block_tracker a))"
    unfolding vw ca fr by (rule pa_states_okI) (auto simp: rf tr dom_def BlockTracker_init_def split: if_splits)
  moreover have "ids_ok h"
  proof -
    have "dom (dict_get (RefCounter_init ?l)) = set ?l" by (auto simp: RefCounter_init_get dom_def)
    then show ?thesis using dl rc_ok_init[of ?l] by (simp add: h ids_ok_def)
  qed
  moreover have "dict_ok (pa_block_tracker a)" by (simp add: a dict_ok_def comp_def)
  ultimately have "pa_inv items a" using po e(1) by (simp add: pa_inv_def ca) (simp add: a h)
  moreover have "int (PrefixCachingBlockAllocator_get_num_free_blocks a) = num_blocks + int (evictor_num_blocks (pa_evictor a))"
    using len fr by (simp add: PrefixCachingBlockAllocator_get_num_free_blocks_def NaiveBlockAllocator_get_num_free_blocks_def)
  ultimately show ?thesis using vw ca rf by (simp add: a)
qed

end

section \<open>Reset\<close>

definition all_idle :: "'d PrefixCachingBlockAllocator \<Rightarrow> bool" where
  "all_idle a \<longleftrightarrow> (\<forall>b n. pa_refs a b = Some n \<longrightarrow> n = 0)"

text \<open>
  The state between two rounds of the reset loop. The trackers of the blocks already given back
  are left active until the loop ends, so only those of the waiting blocks are constrained.
\<close>

definition reset_inv :: "('d \<Rightarrow> (score_key \<times> (int \<times> int)) list) \<Rightarrow> 'd PrefixCachingBlockAllocator \<Rightarrow> bool" where
  "reset_inv items a \<longleftrightarrow> ids_ok (pa_hashless a) \<and> evictor_inv items (pa_evictor a) \<and> dict_ok (pa_cached_blocks a) \<and>
     all_idle a \<and> set (pa_free a) = {b. pa_refs a b = Some 0 \<and> pa_view a b = None} \<and>
     (\<forall>b h. pa_view a b = Some h \<longleftrightarrow> pa_cached a h = Some b) \<and>
     (\<forall>b \<in> dom (pa_view a). pa_refs a b = Some 0 \<and> (\<exists>t. dict_get (pa_block_tracker a) b = Some t \<and> \<not> bt_active t)) \<and>
     dom (dict_get (pa_block_tracker a)) = dom (pa_refs a) \<and> dict_ok (pa_block_tracker a)"

definition reset_kept :: "'d PrefixCachingBlockAllocator \<Rightarrow> 'd PrefixCachingBlockAllocator \<Rightarrow> bool" where
  "reset_kept a a' \<longleftrightarrow> pa_pool a' = pa_pool a \<and> pa_refs a' = pa_refs a \<and>
     pa_eviction_algorithm a' = pa_eviction_algorithm a \<and> pa_eviction_algorithm_config a' = pa_eviction_algorithm_config a \<and>
     pa_block_size a' = pa_block_size a \<and> na_block_size (pa_hashless a') = na_block_size (pa_hashless a) \<and>
     na_all_block_indices (pa_hashless a') = na_all_block_indices (pa_hashless a) \<and>
     map fst (pa_block_tracker a') = map fst (pa_block_tracker a) \<and>
     pa_block_table a' = pa_block_table a \<and> pa_touched_blocks a' = pa_touched_blocks a \<and>
     pa_metric_data a' = pa_metric_data a \<and> pa_scheduler_post_warmup_metric_data a' = pa_scheduler_post_warmup_metric_data a"

lemma update_keys: "k \<in> fst ` set d \<Longrightarrow> map fst (AList.update k v d) = map fst d"
  by (induction d) auto

context prefix_env
begin

lemma reset_step:
  assumes inv: "reset_inv items a" and ne: "pa_view a \<noteq> Map.empty"
  shows "\<exists>b a1 h a2. PrefixCachingBlockAllocator_maybe_allocate_evicted_block_id E now a = Inr (Some b, a1) \<and>
     NaiveBlockAllocator_free_block_id (pa_hashless a1) b = Inr h \<and> a2 = a1\<lparr>pa_hashless := h\<rparr> \<and>
     reset_inv items a2 \<and> reset_kept a a2 \<and> Suc (evictor_num_blocks (pa_evictor a2)) = evictor_num_blocks (pa_evictor a)"
proof -
  have e: "evictor_inv items (pa_evictor a)" and rc: "rc_ok (pa_refcounter a)" and io: "ids_ok (pa_hashless a)"
    using inv by (simp_all add: reset_inv_def ids_ok_def)
  obtain b h e' where ev: "evictor_evict (rt_ops E) (rt_exp E) now (pa_evictor a) = Inr ((b, h), e')"
    "pa_view a b = Some h" "evictor_inv items e'" "evictor_view e' = (pa_view a)(b := None)"
    using env.ev.evict_law[OF e, of now] ne unfolding pa_view_def by blast
  note dec = env.ev.evict_decreases(4)[OF e ev(1)]
  have bd: "b \<in> dom (pa_view a)" using ev(2) by auto
  have z: "pa_refs a b = Some 0" and c: "pa_cached a h = Some b" using inv bd ev(2) by (auto simp: reset_inv_def)
  obtain t where t: "dict_get (pa_block_tracker a) b = Some t" "\<not> bt_active t"
    using inv bd unfolding reset_inv_def by blast
  have cne: "pa_cached_blocks a \<noteq> []" using c by (auto simp: pa_cached_def)
  let ?a1 = "a\<lparr>pa_evictor := e', pa_cached_blocks := dict_pop h (pa_cached_blocks a)\<rparr>"
  have loop: "evict_cached_loop E now (Suc (evictor_num_blocks (pa_evictor a))) None a = Inr (Some b, ?a1)"
    using cne ev(1) c z by (simp add: pa_cached_def pa_refs_def RefCounter_get_def Let_def)
  have nz: "evictor_num_blocks (pa_evictor a) \<noteq> 0" using dec by linarith
  have incr: "RefCounter_incr (pa_refcounter ?a1) b = Inr (1, dict_set b 1 (pa_refcounter a))"
    using incr_ok(1)[OF rc, of b 0] z by (simp add: pa_refs_def)
  let ?a2 = "pa_set_refcounter (dict_set b 1 (pa_refcounter a)) ?a1"
  have "dict_get (pa_block_tracker ?a2) b = Some t" using t by simp
  from track_ok[OF this t(2), of False] obtain t' where t':
    "PrefixCachingBlockAllocator_track_block_id ?a2 b False = Inr (set_tracker b t' ?a2)" by blast
  let ?a3 = "set_tracker b t' ?a2"
  have run: "PrefixCachingBlockAllocator_maybe_allocate_evicted_block_id E now a = Inr (Some b, ?a3)"
    using nz incr t' by (simp add: PrefixCachingBlockAllocator_maybe_allocate_evicted_block_id_def loop del: evict_cached_loop.simps)
  let ?rc = "dict_set b 0 (dict_set b 1 (pa_refcounter a))"
  let ?h = "(pa_hashless a)\<lparr>na_free_block_indices := b # pa_free a, na_refcounter := ?rc\<rparr>"
  have "rc_ok (dict_set b 1 (pa_refcounter a))" using incr_ok(2)[OF rc, of b 0] z by (simp add: pa_refs_def)
  then have "RefCounter_decr (pa_refcounter ?a3) b = Inr (0, ?rc)" using decr_ok(1)[of "dict_set b 1 (pa_refcounter a)" b 1] by simp
  then have fr: "NaiveBlockAllocator_free_block_id (pa_hashless ?a3) b = Inr ?h"
    by (simp add: NaiveBlockAllocator_free_block_id_def pa_set_refcounter_def Let_def)
  let ?a4 = "?a3\<lparr>pa_hashless := ?h\<rparr>"
  have rf: "pa_refs ?a4 = pa_refs a" using z by (auto simp: pa_refs_def)
  have vw: "pa_view ?a4 = (pa_view a)(b := None)" using ev(4) by (simp add: pa_view_def set_tracker_def pa_set_refcounter_def)
  have ca: "pa_cached ?a4 = (pa_cached a)(h := None)" by (simp add: pa_cached_def set_tracker_def pa_set_refcounter_def)
  have tr: "dict_get (pa_block_tracker ?a4) = (dict_get (pa_block_tracker a))(b \<mapsto> t')" by simp
  have nf: "b \<notin> set (pa_free a)" using inv ev(2) by (auto simp: reset_inv_def)
  have io4: "ids_ok (pa_hashless ?a4)"
  proof -
    have "ids_ok ((pa_hashless a)\<lparr>na_refcounter := dict_set b 1 (pa_refcounter a)\<rparr>)"
      using ids_ok_set(2)[OF io, of b 0 1 "[]"] z by (simp add: pa_refs_def)
    from ids_ok_set(1)[OF this, of b 1 0 "b # pa_free a" "pa_pool a"] nf io show ?thesis by (simp add: ids_ok_def)
  qed
  have "set (pa_free ?a4) = {b. pa_refs ?a4 b = Some 0 \<and> pa_view ?a4 b = None}"
    unfolding rf vw using inv z by (auto simp: reset_inv_def)
  moreover have "pa_view ?a4 c = Some k \<longleftrightarrow> pa_cached ?a4 k = Some c" for c k
  proof -
    have iff: "pa_view a d = Some k \<longleftrightarrow> pa_cached a k = Some d" for d k using inv by (simp add: reset_inv_def)
    have "pa_cached a k = Some b \<Longrightarrow> k = h" using iff[of b k] ev(2) by simp
    moreover have "pa_view ?a4 c = Some k \<longleftrightarrow> c \<noteq> b \<and> pa_view a c = Some k" unfolding vw by simp
    moreover have "pa_cached ?a4 k = Some c \<longleftrightarrow> k \<noteq> h \<and> pa_cached a k = Some c" unfolding ca by simp
    ultimately show ?thesis using iff[of c k] c by auto
  qed
  moreover have "\<forall>c \<in> dom (pa_view ?a4). pa_refs ?a4 c = Some 0 \<and> (\<exists>t. dict_get (pa_block_tracker ?a4) c = Some t \<and> \<not> bt_active t)"
    unfolding vw rf tr using inv by (auto simp: reset_inv_def)
  moreover have "dom (dict_get (pa_block_tracker ?a4)) = dom (pa_refs ?a4)"
    unfolding tr rf using inv t(1) by (auto simp: reset_inv_def)
  moreover have "all_idle ?a4" unfolding all_idle_def rf using inv by (simp add: reset_inv_def all_idle_def)
  ultimately have "reset_inv items ?a4" using inv io4 ev(3) unfolding reset_inv_def by simp
  moreover have "reset_kept a ?a4"
    using rf update_keys[of b "pa_block_tracker a" t'] t(1) dict_has_keys[of "pa_block_tracker a" b]
    by (simp add: reset_kept_def set_tracker_def pa_set_refcounter_def)
  ultimately show ?thesis using run fr dec
    by (intro exI[of _ b] exI[of _ ?a3] exI[of _ ?h] exI[of _ ?a4]) simp
qed

lemma reset_loop:
  "reset_inv items a \<Longrightarrow> fuel = Suc (evictor_num_blocks (pa_evictor a)) \<Longrightarrow>
   \<exists>a'. reset_evict_loop E now fuel a = Inr a' \<and> reset_inv items a' \<and> reset_kept a a' \<and> pa_view a' = Map.empty"
proof (induction fuel arbitrary: a)
  case (Suc fuel)
  have e: "evictor_inv items (pa_evictor a)" using Suc.prems(1) by (simp add: reset_inv_def)
  show ?case
  proof (cases "pa_view a = Map.empty")
    case True
    then have "evictor_num_blocks (pa_evictor a) = 0" using env.ev.num_blocks_card[OF e] by (simp add: pa_view_def)
    then have "reset_evict_loop E now (Suc fuel) a = Inr a"
      by (simp add: PrefixCachingBlockAllocator_maybe_allocate_evicted_block_id_def)
    then show ?thesis using Suc.prems(1) True by (auto simp: reset_kept_def)
  next
    case False
    obtain b a1 h a2 where s: "PrefixCachingBlockAllocator_maybe_allocate_evicted_block_id E now a = Inr (Some b, a1)"
     "NaiveBlockAllocator_free_block_id (pa_hashless a1) b = Inr h" "a2 = a1\<lparr>pa_hashless := h\<rparr>"
     "reset_inv items a2" "reset_kept a a2" "Suc (evictor_num_blocks (pa_evictor a2)) = evictor_num_blocks (pa_evictor a)"
      using reset_step[OF Suc.prems(1) False, of now] by blast
    obtain a' where a': "reset_evict_loop E now fuel a2 = Inr a'" "reset_inv items a'" "reset_kept a2 a'" "pa_view a' = Map.empty"
      using Suc.IH[OF s(4)] Suc.prems(2) s(6) by auto
    have "reset_evict_loop E now (Suc fuel) a = Inr a'" using s(1-3) a'(1) by simp
    then show ?thesis using a' s(5) by (auto simp: reset_kept_def)
  qed
qed simp

lemma pa_inv_reset_inv:
  assumes inv: "pa_inv items a" and idle: "all_idle a"
  shows "reset_inv items a"
proof -
  note st = pa_states_okD[OF pa_inv_states[OF inv]]
  have z: "pa_refs a b \<noteq> None \<Longrightarrow> pa_refs a b = Some 0" for b using idle by (auto simp: all_idle_def)
  have "pa_view a b = Some h \<longleftrightarrow> pa_cached a h = Some b" for b h using st(4)[of b h] st(5)[of h b] st(6)[of h b] z[of b] by blast
  moreover have "pa_refs a b = Some 0 \<and> (\<exists>t. dict_get (pa_block_tracker a) b = Some t \<and> \<not> bt_active t)" if "b \<in> dom (pa_view a)" for b
  proof -
    obtain h where "pa_view a b = Some h" using \<open>b \<in> dom (pa_view a)\<close> by blast
    then have "pa_refs a b = Some 0" using st(4) by auto
    then show ?thesis using pa_tracker_active[OF inv, of b 0] by auto
  qed
  moreover have "ids_ok (pa_hashless a) \<and> evictor_inv items (pa_evictor a) \<and> dict_ok (pa_cached_blocks a) \<and> dict_ok (pa_block_tracker a)"
    using inv by (simp add: pa_inv_def)
  ultimately show ?thesis using idle st(1,3) unfolding reset_inv_def by simp
qed

lemma reset_ok:
  assumes inv: "pa_inv items a" and idle: "all_idle a"
    and alg: "evictor_settings_ok E now (pa_eviction_algorithm a) (pa_eviction_algorithm_config a)"
    and new: "new_evictor E now (pa_eviction_algorithm a) (pa_eviction_algorithm_config a)
       (int (PrefixCachingBlockAllocator_get_num_total_blocks a)) = Inr e"
  shows "\<exists>a'. PrefixCachingBlockAllocator_reset_prefix_cache E now a = Inr (True, a') \<and> pa_inv items a' \<and>
     pa_cached a' = Map.empty \<and> pa_evictor a' = e \<and> pa_view a' = Map.empty \<and> pa_refs a' = pa_refs a \<and> set (pa_free a') = dom (pa_refs a) \<and>
     (\<forall>b. dict_get (pa_block_tracker a') b = (if b \<in> dom (pa_refs a) then Some BlockTracker_init else None)) \<and>
     pa_metric_data a' = CacheMetricData_init \<and> pa_scheduler_post_warmup_metric_data a' = CacheMetricData_init \<and>
     pa_pool a' = pa_pool a \<and> pa_block_table a' = pa_block_table a \<and> pa_touched_blocks a' = pa_touched_blocks a"
proof -
  let ?a = "a\<lparr>pa_metric_data := CacheMetricData_init, pa_scheduler_post_warmup_metric_data := CacheMetricData_init\<rparr>"
  have same: "pa_refs ?a = pa_refs a" "pa_view ?a = pa_view a" "pa_cached ?a = pa_cached a"
    by (simp_all add: pa_refs_def pa_view_def pa_cached_def)
  have inv1: "pa_inv items ?a" using inv by (simp add: pa_inv_def same)
  have "reset_inv items ?a" by (rule pa_inv_reset_inv[OF inv1]) (use idle in \<open>simp add: all_idle_def same\<close>)
  from reset_loop[OF this refl, of now] obtain a1 where a1:
    "reset_evict_loop E now (Suc (evictor_num_blocks (pa_evictor ?a))) ?a = Inr a1" "reset_inv items a1" "reset_kept ?a a1"
    "pa_view a1 = Map.empty" by blast
  have nu: "{b. \<exists>n > 0. pa_refs a b = Some n} = {}" using idle by (auto simp: all_idle_def)
  then have none: "PrefixCachingBlockAllocator_get_num_free_blocks ?a = PrefixCachingBlockAllocator_get_num_total_blocks ?a"
    using free_and_used[OF inv1] unfolding same nu by simp
  have "pa_cached a1 = Map.empty"
  proof
    fix h show "pa_cached a1 h = None" using a1(2,4) by (cases "pa_cached a1 h") (auto simp: reset_inv_def)
  qed
  then have ce: "pa_cached_blocks a1 = []" by (simp add: pa_cached_def)
  have kept: "pa_pool a1 = pa_pool a" "pa_refs a1 = pa_refs a" "pa_eviction_algorithm a1 = pa_eviction_algorithm a"
     "pa_eviction_algorithm_config a1 = pa_eviction_algorithm_config a" "pa_block_size a1 = pa_block_size a"
     "na_block_size (pa_hashless a1) = na_block_size (pa_hashless a)"
     "na_all_block_indices (pa_hashless a1) = na_all_block_indices (pa_hashless a)" "pa_metric_data a1 = CacheMetricData_init"
     "pa_scheduler_post_warmup_metric_data a1 = CacheMetricData_init" "pa_block_table a1 = pa_block_table a"
     "pa_touched_blocks a1 = pa_touched_blocks a"
    using a1(3) same by (simp_all add: reset_kept_def)
  have tot: "PrefixCachingBlockAllocator_get_num_total_blocks a1 = PrefixCachingBlockAllocator_get_num_total_blocks a"
    by (simp add: PrefixCachingBlockAllocator_get_num_total_blocks_def NaiveBlockAllocator_get_num_total_blocks_def kept(7))
  let ?a2 = "a1\<lparr>pa_evictor := e, pa_block_tracker := map (\<lambda>(b, _). (b, BlockTracker_init)) (pa_block_tracker a1)\<rparr>"
  have run: "PrefixCachingBlockAllocator_reset_prefix_cache E now a = Inr (True, ?a2)"
    using none a1(1) ce new kept(3,4) tot
    by (simp add: PrefixCachingBlockAllocator_reset_prefix_cache_def Let_def)
  have e: "evictor_inv items e" "evictor_view e = Map.empty" using new_evictor_fresh[OF new alg] by auto
  have rf: "pa_refs ?a2 = pa_refs a" using kept(2) by (simp add: pa_refs_def)
  have vw: "pa_view ?a2 = Map.empty" and ca: "pa_cached ?a2 = Map.empty" by (simp_all add: pa_view_def pa_cached_def e(2) ce)
  have tr: "dict_get (pa_block_tracker ?a2) = (\<lambda>b. map_option (\<lambda>_. BlockTracker_init) (dict_get (pa_block_tracker a1) b))"
    using dict_get_map[where f = "\<lambda>_ _. BlockTracker_init" and d = "pa_block_tracker a1"] by (auto simp: fun_eq_iff)
  have fr: "set (pa_free a1) = dom (pa_refs a)" using a1(2,4) kept(2) by (auto simp: reset_inv_def all_idle_def)
  have z: "pa_refs a b \<noteq> None \<Longrightarrow> pa_refs a b = Some 0" for b using idle by (auto simp: all_idle_def)
  have dt: "dom (dict_get (pa_block_tracker a1)) = dom (pa_refs a)" using a1(2) kept(2) by (simp add: reset_inv_def)
  have "pa_states_ok (pa_refs ?a2) (pa_view ?a2) (pa_cached ?a2) (set (pa_free ?a2)) (dict_get (pa_block_tracker ?a2))"
  proof (unfold rf vw ca tr, rule pa_states_okI, goal_cases)
    case 1 then show ?case using dt by (simp add: dom_map_option_comp[unfolded comp_def])
  next
    case (2 b t)
    then have "b \<in> dom (pa_refs a)" using dt by auto
    then show ?case using 2 z[of b] by (auto simp: BlockTracker_init_def)
  next
    case (3 b) then show ?case using fr z[of b] by auto
  qed auto
  moreover have "dict_ok (pa_block_tracker ?a2)" using a1(2) by (simp add: reset_inv_def dict_ok_def comp_def case_prod_beta)
  ultimately have "pa_inv items ?a2" using inv a1(2) e(1) kept ce unfolding pa_inv_def ca by (simp add: reset_inv_def)
  moreover have "dict_get (pa_block_tracker ?a2) b = (if b \<in> dom (pa_refs a) then Some BlockTracker_init else None)" for b
    unfolding dt[symmetric] tr by (simp add: domIff map_option_case split: option.split)
  ultimately show ?thesis using run rf vw ca fr kept(1,8-11) by (intro exI[of _ ?a2]) simp
qed

lemma reset_refused:
  assumes inv: "pa_inv items a" and used: "pa_refs a b = Some n" "0 < n"
  shows "PrefixCachingBlockAllocator_reset_prefix_cache E now a =
     Inr (False, a\<lparr>pa_metric_data := CacheMetricData_init, pa_scheduler_post_warmup_metric_data := CacheMetricData_init\<rparr>)"
proof -
  let ?a = "a\<lparr>pa_metric_data := CacheMetricData_init, pa_scheduler_post_warmup_metric_data := CacheMetricData_init\<rparr>"
  have s: "PrefixCachingBlockAllocator_get_num_free_blocks ?a = PrefixCachingBlockAllocator_get_num_free_blocks a"
    "PrefixCachingBlockAllocator_get_num_total_blocks ?a = PrefixCachingBlockAllocator_get_num_total_blocks a"
    by (simp_all add: PrefixCachingBlockAllocator_get_num_free_blocks_def PrefixCachingBlockAllocator_get_num_total_blocks_def)
  let ?used = "{b. \<exists>n > 0. pa_refs a b = Some n}"
  have "?used \<subseteq> dom (pa_refs a)" by auto
  then have "finite ?used" using pa_inv_ids(2)[OF inv] by (metis finite_set finite_subset)
  moreover have "b \<in> ?used" using used by auto
  ultimately have "0 < card ?used" by (auto simp: card_gt_0_iff)
  then show ?thesis using free_and_used[OF inv] s
    by (simp add: PrefixCachingBlockAllocator_reset_prefix_cache_def Let_def)
qed

end

end
