(* ===== verification/Prefix_Runs.thy ===== *)
theory Prefix_Runs
  imports Prefix_Lifecycle
begin

text \<open>
  Runs of the prefix-caching allocator from its constructor. In every state of a run the
  references of a block are the block objects in use that point to it, and a block without
  such an object is free or waits in the evictor: no operation loses a block.
\<close>

section \<open>Appending to a block that nobody else holds\<close>

context prefix_env
begin

text \<open>The tokens are in the object; the content hash, and with it the promotion, is what follows.\<close>

lemma append_tokens_alone:
  assumes r: "r < length (bp_pool (pa_pool a))" "bl_block_id (bp_pool (pa_pool a) ! r) = Some b"
      "pb_cached_content_hash (bp_pool (pa_pool a) ! r) = None" "\<not> is_full (bp_pool (pa_pool a) ! r)" "\<not> pb_computed (bp_pool (pa_pool a) ! r)"
    and n: "pa_refs a b = Some 1" and fit: "toks \<noteq> []" "int (length toks) \<le> num_empty_slots (bp_pool (pa_pool a) ! r)"
    and prev: "\<And>q. bl_prev_block (bp_pool (pa_pool a) ! r) = Some q \<Longrightarrow> q < length (bp_pool (pa_pool a))"
  obtains k o' where
    "o' = (bp_pool (pa_pool a) ! r)\<lparr>bl_token_ids := bl_token_ids (bp_pool (pa_pool a) ! r) @ toks, pb_cached_num_tokens_total := k\<rparr>"
    "PrefixCachingBlock_append_token_ids E now a r toks =
       res_bind (pa_content_hash E (pa_set_pool (pool_set (pa_pool a) r o') a) r) (\<lambda>(new_hash, a2).
         if new_hash = None then Inr a2
         else res_bind (PrefixCachingBlockAllocator_promote_to_immutable_block E a2 r) (\<lambda>(block_id, a3).
                pa_set_block_id a3 r (Some block_id)))"
proof -
  let ?p = "pa_pool a" and ?o = "bp_pool (pa_pool a) ! r"
  let ?o1 = "?o\<lparr>bl_token_ids := bl_token_ids ?o @ toks\<rparr>"
  have h0: "pa_content_hash E a r = Inr (None, a)" using content_hash_partial[OF r(1,3,4)] by (simp add: pa_content_hash_def)
  have app: "inner_append_token_ids E now a r toks = Inr (pa_set_pool (pool_set ?p r ?o1) a)" by (rule inner_append_alone[OF r(1,2) n fit(2)])
  obtain k where k: "num_tokens_total_from (bp_pool (pool_set ?p r ?o1)) ?o1 = Inr k"
    using prev by (cases "bl_prev_block ?o") (auto simp: num_tokens_total_from_def)
  let ?o2 = "?o1\<lparr>pb_cached_num_tokens_total := k\<rparr>"
  have upd: "PrefixCachingBlock_update_num_tokens_total (pool_set ?p r ?o1) r = Inr (pool_set ?p r ?o2)"
    using r(1) k by (simp add: PrefixCachingBlock_update_num_tokens_total_def)
  show ?thesis
    by (rule that[of ?o2 k]) (use h0 r(1,5) fit(1) app upd in \<open>simp_all add: PrefixCachingBlock_append_token_ids_def\<close>)
qed

text \<open>The block is not full afterwards: only the object changes.\<close>

lemma append_partial:
  assumes inv: "pa_inv items a"
    and r: "r < length (bp_pool (pa_pool a))" "bl_block_id (bp_pool (pa_pool a) ! r) = Some b"
      "pb_cached_content_hash (bp_pool (pa_pool a) ! r) = None" "\<not> is_full (bp_pool (pa_pool a) ! r)" "\<not> pb_computed (bp_pool (pa_pool a) ! r)"
    and n: "pa_refs a b = Some 1" and fit: "toks \<noteq> []" "int (length toks) < num_empty_slots (bp_pool (pa_pool a) ! r)"
    and prev: "\<And>q. bl_prev_block (bp_pool (pa_pool a) ! r) = Some q \<Longrightarrow> q < length (bp_pool (pa_pool a))"
  shows "\<exists>o'. PrefixCachingBlock_append_token_ids E now a r toks = Inr (pa_set_pool (pool_set (pa_pool a) r o') a) \<and>
     pa_inv items (pa_set_pool (pool_set (pa_pool a) r o') a) \<and> bl_block_id o' = Some b \<and>
     pb_cached_content_hash o' = None \<and> \<not> is_full o' \<and> \<not> pb_computed o'"
proof -
  have le: "int (length toks) \<le> num_empty_slots (bp_pool (pa_pool a) ! r)" using fit(2) by simp
  obtain k o' where o': "o' = (bp_pool (pa_pool a) ! r)\<lparr>bl_token_ids := bl_token_ids (bp_pool (pa_pool a) ! r) @ toks, pb_cached_num_tokens_total := k\<rparr>"
    "PrefixCachingBlock_append_token_ids E now a r toks =
       res_bind (pa_content_hash E (pa_set_pool (pool_set (pa_pool a) r o') a) r) (\<lambda>(new_hash, a2).
         if new_hash = None then Inr a2
         else res_bind (PrefixCachingBlockAllocator_promote_to_immutable_block E a2 r) (\<lambda>(block_id, a3).
                pa_set_block_id a3 r (Some block_id)))"
    using append_tokens_alone[OF r n fit(1) le prev] by blast
  have nf: "\<not> is_full o'" using fit(2) by (simp add: o'(1) is_full_def num_empty_slots_def)
  have "PrefixCachingBlock_content_hash (rt_hash E) (pool_set (pa_pool a) r o') r = Inr (None, pool_set (pa_pool a) r o')"
    using r(1,3) nf by (intro content_hash_partial) (simp_all add: o'(1))
  then have run: "PrefixCachingBlock_append_token_ids E now a r toks = Inr (pa_set_pool (pool_set (pa_pool a) r o') a)"
    unfolding o'(2) by (simp add: pa_content_hash_def)
  have "pa_inv items (pa_set_pool (pool_set (pa_pool a) r o') a)" using pa_inv_poolD[OF inv] by (intro pa_inv_pool[OF inv]) simp_all
  then show ?thesis using run nf r(2,3,5) by (intro exI[of _ o']) (simp add: o'(1))
qed

text \<open>The block becomes full: the object has its hash, and the promotion decides.\<close>

lemma append_until_full:
  assumes inv: "pa_inv items a"
    and r: "r < length (bp_pool (pa_pool a))" "bl_block_id (bp_pool (pa_pool a) ! r) = Some b"
      "pb_cached_content_hash (bp_pool (pa_pool a) ! r) = None" "\<not> is_full (bp_pool (pa_pool a) ! r)" "\<not> pb_computed (bp_pool (pa_pool a) ! r)"
    and n: "pa_refs a b = Some 1" and fit: "toks \<noteq> []" "int (length toks) = num_empty_slots (bp_pool (pa_pool a) ! r)"
    and prev: "bl_prev_block (bp_pool (pa_pool a) ! r) = prev" "prev_ready (rt_hash E) (pa_pool a) prev" "prev \<noteq> Some r"
  obtains o' h a3 where "a3 = pa_set_pool (pool_set (pa_pool a) r o') a" "pa_inv items a3" "bl_block_id o' = Some b" "pb_cached_content_hash o' = Some h"
    "PrefixCachingBlock_append_token_ids E now a r toks =
       res_bind (PrefixCachingBlockAllocator_promote_to_immutable_block E a3 r) (\<lambda>(block_id, a4). pa_set_block_id a4 r (Some block_id))"
proof -
  let ?p = "pa_pool a" and ?o = "bp_pool (pa_pool a) ! r"
  have le: "int (length toks) \<le> num_empty_slots ?o" using fit(2) by simp
  have ql: "bl_prev_block ?o = Some q \<Longrightarrow> q < length (bp_pool ?p)" for q
    using prev(1,2) pa_inv_poolD(1)[OF inv] by (auto simp: prev_ready_def pool_live_def pool_ok_def)
  obtain k o1 where o1: "o1 = ?o\<lparr>bl_token_ids := bl_token_ids ?o @ toks, pb_cached_num_tokens_total := k\<rparr>"
    "PrefixCachingBlock_append_token_ids E now a r toks =
       res_bind (pa_content_hash E (pa_set_pool (pool_set ?p r o1) a) r) (\<lambda>(new_hash, a2).
         if new_hash = None then Inr a2
         else res_bind (PrefixCachingBlockAllocator_promote_to_immutable_block E a2 r) (\<lambda>(block_id, a3).
                pa_set_block_id a3 r (Some block_id)))"
    using append_tokens_alone[OF r n fit(1) le ql] by blast
  let ?p1 = "pool_set ?p r o1"
  have fl: "is_full o1" using fit(2) by (simp add: o1(1) is_full_def num_empty_slots_def)
  have pr: "prev_ready (rt_hash E) ?p1 prev"
    using prev(2,3) by (auto simp: prev_ready_def split: option.splits)
  have at: "r < length (bp_pool ?p1)" "bp_pool ?p1 ! r = o1" using r(1) by (simp_all add: pool_set_def)
  define h where "h = next_hash (rt_hash E) ?p1 prev (bl_token_ids o1) (pb_extra_hash o1)"
  let ?o2 = "o1\<lparr>pb_cached_content_hash := Some h\<rparr>"
  have o1h: "pb_cached_content_hash o1 = None" and o1p: "bl_prev_block o1 = prev" using r(3) prev(1) by (simp_all add: o1(1))
  have pool1: "pool_ok ?p1" using pa_inv_poolD(1)[OF inv] by simp
  have "PrefixCachingBlock_content_hash (rt_hash E) ?p1 r = Inr (Some h, pool_set ?p1 r ?o2)"
    using content_hash_full[OF at(1), unfolded at(2), OF o1h fl o1p pr prev(3) pool1] by (simp add: h_def Let_def)
  then have ch: "pa_content_hash E (pa_set_pool ?p1 a) r = Inr (Some h, pa_set_pool (pool_set ?p r ?o2) a)"
    by (simp add: pa_content_hash_def)
  let ?a3 = "pa_set_pool (pool_set ?p r ?o2) a"
  have "pa_inv items ?a3" using pa_inv_poolD[OF inv] by (intro pa_inv_pool[OF inv]) simp_all
  then show ?thesis
    by (rule that[OF refl]) (use o1(2) ch r(2) in \<open>simp_all add: o1(1)\<close>)
qed

text \<open>Promotion when the content is cached already: the object moves to the cached block, its own is freed.\<close>

lemma promote_known:
  assumes inv: "pa_inv items a" and r: "r < length (bp_pool (pa_pool a))" "bl_block_id (bp_pool (pa_pool a) ! r) = Some b"
    and h: "pb_cached_content_hash (bp_pool (pa_pool a) ! r) = Some h" and n: "pa_refs a b = Some 1"
    and nc: "b \<notin> ran (pa_cached a)" and c: "pa_cached a h = Some c"
  shows "\<exists>a' m o'. PrefixCachingBlockAllocator_promote_to_immutable_block E a r = Inr (c, a') \<and> pa_inv items a' \<and>
     pa_refs a c = Some m \<and> pa_refs a' = (pa_refs a)(b \<mapsto> 0, c \<mapsto> m + 1) \<and> pa_cached a' = pa_cached a \<and>
     pa_pool a' = pool_set (pa_pool a) r o' \<and> bl_block_id o' = Some c \<and> pb_cached_content_hash o' = Some h"
proof -
  have cb: "c \<noteq> b" using nc c by (auto simp: ran_def)
  have get: "RefCounter_get (pa_refcounter a) b = Inr 1" using n by (simp add: RefCounter_get_def pa_refs_def)
  have ch: "pa_content_hash E a r = Inr (Some h, a)" using content_hash_memo[OF r(1) h] by (simp add: pa_content_hash_def)
  let ?o = "bp_pool (pa_pool a) ! r"
  obtain a1 where a1: "PrefixCachingBlockAllocator_decr_refcount_hashless_block a r = Inr a1" "pa_inv items a1"
     "pa_refs a1 = (pa_refs a)(b \<mapsto> 0)" "pa_cached_blocks a1 = pa_cached_blocks a"
     "pa_pool a1 = pool_set (pa_pool a) r (?o\<lparr>bl_block_id := None\<rparr>)"
    using decr_hashless_ok[OF inv r n] nc by auto
  let ?q = "pool_set (pa_pool a) r (?o\<lparr>bl_block_id := Some c\<rparr>)"
  have "pool_set (pa_pool a1) r ((bp_pool (pa_pool a1) ! r)\<lparr>bl_block_id := Some c\<rparr>) = ?q"
    using r(1) by (simp add: a1(5) pool_set_def)
  then have si: "pa_set_block_id a1 r (Some c) = Inr (pa_set_pool ?q a1)" using r(1) a1(5) by (simp add: pa_set_block_id_def)
  have q: "pool_ok ?q" "0 < bp_pool_size ?q" using pa_inv_poolD[OF inv] by simp_all
  have i2: "pa_inv items (pa_set_pool ?q a1)" by (rule pa_inv_pool[OF a1(2) q])
  have c2: "pa_cached (pa_set_pool ?q a1) h = Some c" using c a1(4) by (simp add: pa_cached_def)
  obtain m a' where a': "PrefixCachingBlockAllocator_incr_refcount_cached_block E (pa_set_pool ?q a1) r = Inr a'" "pa_inv items a'"
     "pa_refs a1 c = Some m" "pa_refs a' = (pa_refs a1)(c \<mapsto> m + 1)" "pa_cached_blocks a' = pa_cached_blocks a1"
     "pa_pool a' = pool_set ?q r ((bp_pool ?q ! r)\<lparr>pb_computed := True\<rparr>)"
    using incr_cached_ok[OF i2 _ _ c2, of r] r(1) by auto
  have run: "PrefixCachingBlockAllocator_promote_to_immutable_block E a r = Inr (c, a')"
    using r ch get c a1(1) si a'(1) by (simp add: PrefixCachingBlockAllocator_promote_to_immutable_block_def pa_block_id_def pa_cached_def)
  have "pa_pool a' = pool_set (pa_pool a) r (?o\<lparr>bl_block_id := Some c, pb_computed := True\<rparr>)"
    using a'(6) r(1) by (simp add: pool_set_def)
  then show ?thesis using run a'(2-5) a1(3,4) cb h
    by (intro exI[of _ a'] exI[of _ m] exI[of _ "?o\<lparr>bl_block_id := Some c, pb_computed := True\<rparr>"]) (simp add: pa_cached_def)
qed

end

section \<open>The objects that hold a block\<close>

definition holders_of :: "'d PrefixCachingBlockAllocator \<Rightarrow> int \<Rightarrow> block_ref set" where
  "holders_of a b = {r \<in> pool_live (pa_pool a). bl_block_id (bp_pool (pa_pool a) ! r) = Some b}"

text \<open>An object with a memoised hash points to the cached block of that hash; one without is not full and alone on its block.\<close>

definition object_ok :: "'d PrefixCachingBlockAllocator \<Rightarrow> block_ref \<Rightarrow> bool" where
  "object_ok a r \<longleftrightarrow> (\<exists>b. bl_block_id (bp_pool (pa_pool a) ! r) = Some b \<and>
     (case pb_cached_content_hash (bp_pool (pa_pool a) ! r) of
        Some h \<Rightarrow> pa_cached a h = Some b
      | None \<Rightarrow> \<not> is_full (bp_pool (pa_pool a) ! r) \<and> \<not> pb_computed (bp_pool (pa_pool a) ! r) \<and> b \<notin> ran (pa_cached a) \<and> pa_refs a b = Some 1))"

definition held_ok :: "'d PrefixCachingBlockAllocator \<Rightarrow> bool" where
  "held_ok a \<longleftrightarrow> (\<forall>r \<in> pool_live (pa_pool a). object_ok a r) \<and>
     (\<forall>b. int (card (holders_of a b)) = (case pa_refs a b of None \<Rightarrow> 0 | Some n \<Rightarrow> n))"

lemma pool_live_finite [simp]: "finite (pool_live p)"
  by (rule finite_subset[of _ "{..<bp_pool_size p}"]) (auto simp: pool_live_def)

lemma holders_finite [simp]: "finite (holders_of a b)"
  by (rule finite_subset[OF _ pool_live_finite]) (auto simp: holders_of_def)

lemma holder_refs:
  assumes "held_ok a" "r \<in> pool_live (pa_pool a)" "bl_block_id (bp_pool (pa_pool a) ! r) = Some b"
  obtains n where "pa_refs a b = Some n" "0 < n"
proof -
  have "r \<in> holders_of a b" using assms(2,3) by (simp add: holders_of_def)
  then have "0 < card (holders_of a b)" by (auto simp: card_gt_0_iff)
  then show ?thesis using assms(1) that by (cases "pa_refs a b") (auto simp: held_ok_def dest: spec[of _ b])
qed

text \<open>
  A change of one object: it comes (from nothing or from another block), goes, or stays. What the other objects
  rely on is that the cache entries of their blocks stay, and that nobody joins a block without an entry.
\<close>

lemma held_move:
  fixes a a' :: "'d PrefixCachingBlockAllocator"
  assumes held: "held_ok a"
    and others: "\<And>q. q \<in> pool_live (pa_pool a') \<Longrightarrow> q \<noteq> r \<Longrightarrow> q \<in> pool_live (pa_pool a) \<and> bp_pool (pa_pool a') ! q = bp_pool (pa_pool a) ! q"
      "\<And>q. q \<in> pool_live (pa_pool a) \<Longrightarrow> q \<noteq> r \<Longrightarrow> q \<in> pool_live (pa_pool a')"
    and cached: "\<And>q h b. q \<in> pool_live (pa_pool a) \<Longrightarrow> q \<noteq> r \<Longrightarrow> bl_block_id (bp_pool (pa_pool a) ! q) = Some b \<Longrightarrow>
        pa_cached a h = Some b \<Longrightarrow> pa_cached a' h = Some b"
    and alone: "\<And>q b. q \<in> pool_live (pa_pool a) \<Longrightarrow> q \<noteq> r \<Longrightarrow> bl_block_id (bp_pool (pa_pool a) ! q) = Some b \<Longrightarrow> b \<notin> ran (pa_cached a) \<Longrightarrow>
        pa_refs a b = Some 1 \<Longrightarrow> b \<notin> ran (pa_cached a') \<and> pa_refs a' b = Some 1"
    and new: "r \<in> pool_live (pa_pool a') \<Longrightarrow> object_ok a' r"
    and count: "\<And>b. (case pa_refs a' b of None \<Rightarrow> 0 | Some n \<Rightarrow> n) = (case pa_refs a b of None \<Rightarrow> 0 | Some n \<Rightarrow> n)
        - (if r \<in> holders_of a b then 1 else 0) + (if r \<in> holders_of a' b then 1 else 0)"
  shows "held_ok a'"
proof -
  have "object_ok a' q" if q: "q \<in> pool_live (pa_pool a')" "q \<noteq> r" for q
  proof -
    have o: "q \<in> pool_live (pa_pool a)" "bp_pool (pa_pool a') ! q = bp_pool (pa_pool a) ! q" using others(1)[OF q] by auto
    have "object_ok a q" using held o(1) by (simp add: held_ok_def)
    then obtain b where b: "bl_block_id (bp_pool (pa_pool a) ! q) = Some b"
      "case pb_cached_content_hash (bp_pool (pa_pool a) ! q) of Some h \<Rightarrow> pa_cached a h = Some b
       | None \<Rightarrow> \<not> is_full (bp_pool (pa_pool a) ! q) \<and> \<not> pb_computed (bp_pool (pa_pool a) ! q) \<and> b \<notin> ran (pa_cached a) \<and> pa_refs a b = Some 1"
      unfolding object_ok_def by blast
    show ?thesis unfolding object_ok_def o(2)
      using b cached[OF o(1) q(2) b(1)] alone[OF o(1) q(2) b(1)] by (intro exI[of _ b]) (auto split: option.splits)
  qed
  moreover have "int (card (holders_of a' b)) = (case pa_refs a' b of None \<Rightarrow> 0 | Some n \<Rightarrow> n)" for b
  proof -
    have "q \<in> holders_of a' b - {r} \<longleftrightarrow> q \<in> holders_of a b - {r}" for q
      using others[of q] unfolding holders_of_def by (cases "q = r") auto
    then have rest: "holders_of a' b - {r} = holders_of a b - {r}" by blast
    have split: "int (card (holders_of x b)) = int (card (holders_of x b - {r})) + (if r \<in> holders_of x b then 1 else 0)"
      for x :: "'d PrefixCachingBlockAllocator"
    proof (cases "r \<in> holders_of x b")
      case True
      then have "card (holders_of x b) = Suc (card (holders_of x b - {r}))" by (intro card.remove) simp_all
      then show ?thesis using True by (simp only: of_nat_Suc if_True)
    qed simp
    have "int (card (holders_of a b)) = (case pa_refs a b of None \<Rightarrow> 0 | Some n \<Rightarrow> n)" using held by (simp add: held_ok_def)
    then show ?thesis using split[of a] split[of a', unfolded rest] count[of b] by linarith
  qed
  ultimately show ?thesis using new unfolding held_ok_def by blast
qed

lemma alone_holder:
  assumes "held_ok a" "pa_refs a b = Some 1" "r \<in> holders_of a b" "q \<in> holders_of a b"
  shows "q = r"
proof -
  have "int (card (holders_of a b)) = (case pa_refs a b of None \<Rightarrow> 0 | Some n \<Rightarrow> n)" using assms(1) unfolding held_ok_def by blast
  then have "card (holders_of a b) = 1" using assms(2) by simp
  then show ?thesis using assms(3,4) by (auto simp: card_1_singleton_iff)
qed

lemma no_holder:
  assumes "held_ok a" "pa_refs a b = Some 0"
  shows "holders_of a b = {}"
proof -
  have "int (card (holders_of a b)) = (case pa_refs a b of None \<Rightarrow> 0 | Some n \<Rightarrow> n)" using assms(1) unfolding held_ok_def by blast
  then show ?thesis using assms(2) by simp
qed

text \<open>A new object joins block b.\<close>

lemma held_new:
  fixes a a' :: "'d PrefixCachingBlockAllocator"
  assumes held: "held_ok a" and live: "r \<notin> pool_live (pa_pool a)" "pool_live (pa_pool a') = insert r (pool_live (pa_pool a))"
      "\<forall>q \<in> pool_live (pa_pool a). bp_pool (pa_pool a') ! q = bp_pool (pa_pool a) ! q"
    and b: "bl_block_id (bp_pool (pa_pool a') ! r) = Some b" "pa_refs a b = Some n" "pa_refs a' = (pa_refs a)(b \<mapsto> n + 1)"
    and new: "object_ok a' r"
    and cached: "\<And>h c. holders_of a c \<noteq> {} \<Longrightarrow> pa_cached a h = Some c \<Longrightarrow> pa_cached a' h = Some c"
    and alone: "\<And>c. holders_of a c \<noteq> {} \<Longrightarrow> c \<notin> ran (pa_cached a) \<Longrightarrow> c \<notin> ran (pa_cached a') \<and> c \<noteq> b"
  shows "held_ok a'"
proof (rule held_move[where r = r, OF held])
  fix q c h
  assume q: "q \<in> pool_live (pa_pool a)" "bl_block_id (bp_pool (pa_pool a) ! q) = Some c"
  then have ne: "holders_of a c \<noteq> {}" by (auto simp: holders_of_def)
  show "pa_cached a' h = Some c" if "pa_cached a h = Some c" by (rule cached[OF ne that])
  show "c \<notin> ran (pa_cached a') \<and> pa_refs a' c = Some 1" if "c \<notin> ran (pa_cached a)" "pa_refs a c = Some 1"
    using alone[OF ne that(1)] that(2) b(3) by simp
next
  fix c
  have "r \<notin> holders_of a c" using live(1) by (simp add: holders_of_def)
  moreover have "r \<in> holders_of a' c \<longleftrightarrow> c = b" using live(2) b(1) by (auto simp: holders_of_def)
  ultimately show "(case pa_refs a' c of None \<Rightarrow> 0 | Some n \<Rightarrow> n) = (case pa_refs a c of None \<Rightarrow> 0 | Some n \<Rightarrow> n)
        - (if r \<in> holders_of a c then 1 else 0) + (if r \<in> holders_of a' c then 1 else 0)" using b(2,3) by simp
qed (use live new in auto)

text \<open>An object leaves its block and is given back.\<close>

lemma held_gone:
  fixes a a' :: "'d PrefixCachingBlockAllocator"
  assumes held: "held_ok a" and r: "r \<in> pool_live (pa_pool a)" "bl_block_id (bp_pool (pa_pool a) ! r) = Some b"
    and live: "pool_live (pa_pool a') = pool_live (pa_pool a) - {r}" "\<forall>q. q \<noteq> r \<longrightarrow> bp_pool (pa_pool a') ! q = bp_pool (pa_pool a) ! q"
    and b: "pa_refs a b = Some n" "pa_refs a' = (pa_refs a)(b \<mapsto> n - 1)" and cached: "pa_cached a' = pa_cached a"
  shows "held_ok a'"
proof (rule held_move[where r = r, OF held])
  fix q c h
  assume q: "q \<in> pool_live (pa_pool a)" "q \<noteq> r" "bl_block_id (bp_pool (pa_pool a) ! q) = Some c"
  show "pa_cached a' h = Some c" if "pa_cached a h = Some c" using that cached by simp
  show "c \<notin> ran (pa_cached a') \<and> pa_refs a' c = Some 1" if "c \<notin> ran (pa_cached a)" "pa_refs a c = Some 1"
  proof -
    have "c \<noteq> b" using alone_holder[OF held that(2), of r q] r q by (auto simp: holders_of_def)
    then show ?thesis using that b(2) cached by simp
  qed
next
  fix c
  have "r \<in> holders_of a c \<longleftrightarrow> c = b" using r by (auto simp: holders_of_def)
  moreover have "r \<notin> holders_of a' c" using live(1) by (simp add: holders_of_def)
  ultimately show "(case pa_refs a' c of None \<Rightarrow> 0 | Some n \<Rightarrow> n) = (case pa_refs a c of None \<Rightarrow> 0 | Some n \<Rightarrow> n)
        - (if r \<in> holders_of a c then 1 else 0) + (if r \<in> holders_of a' c then 1 else 0)" using b by simp
qed (use live in auto)

text \<open>An object changes in its pool, alone on its block b before and on block c afterwards.\<close>

lemma held_change:
  fixes a a' :: "'d PrefixCachingBlockAllocator"
  assumes held: "held_ok a" and r: "r \<in> pool_live (pa_pool a)" "bl_block_id (bp_pool (pa_pool a) ! r) = Some b" "pa_refs a b = Some 1"
    and pool: "pa_pool a' = pool_set (pa_pool a) r o'" "r < length (bp_pool (pa_pool a))" "bl_block_id o' = Some c"
    and refs: "\<And>d. d \<noteq> b \<Longrightarrow> d \<noteq> c \<Longrightarrow> pa_refs a' d = pa_refs a d"
      "if c = b then pa_refs a' b = Some 1 else pa_refs a' b = Some 0 \<and> (\<exists>m. pa_refs a c = Some m \<and> pa_refs a' c = Some (m + 1))"
    and cached: "\<And>h d. d \<noteq> b \<Longrightarrow> pa_cached a h = Some d \<Longrightarrow> pa_cached a' h = Some d"
      "\<And>d. d \<noteq> b \<Longrightarrow> d \<notin> ran (pa_cached a) \<Longrightarrow> d \<notin> ran (pa_cached a') \<and> d \<noteq> c"
    and new: "object_ok a' r"
  shows "held_ok a'"
proof (rule held_move[where r = r, OF held])
  fix q d h
  assume q: "q \<in> pool_live (pa_pool a)" "q \<noteq> r" "bl_block_id (bp_pool (pa_pool a) ! q) = Some d"
  have ne: "d \<noteq> b" using alone_holder[OF held r(3), of r q] r(1,2) q by (auto simp: holders_of_def)
  show "pa_cached a' h = Some d" if "pa_cached a h = Some d" by (rule cached(1)[OF ne that])
  show "d \<notin> ran (pa_cached a') \<and> pa_refs a' d = Some 1" if "d \<notin> ran (pa_cached a)" "pa_refs a d = Some 1"
    using cached(2)[OF ne that(1)] refs(1)[OF ne] that(2) by simp
next
  fix d
  have "r \<in> holders_of a d \<longleftrightarrow> d = b" using r by (auto simp: holders_of_def)
  moreover have "r \<in> holders_of a' d \<longleftrightarrow> d = c" using r(1) pool by (auto simp: holders_of_def)
  ultimately show "(case pa_refs a' d of None \<Rightarrow> 0 | Some n \<Rightarrow> n) = (case pa_refs a d of None \<Rightarrow> 0 | Some n \<Rightarrow> n)
        - (if r \<in> holders_of a d then 1 else 0) + (if r \<in> holders_of a' d then 1 else 0)"
    using refs(1)[of d] refs(2) r(3) by (cases "d = b"; cases "d = c") (auto split: if_splits)
qed (use r(1) pool new in auto)

section \<open>The operations keep the objects on their blocks\<close>

definition run_ok :: "('d \<Rightarrow> (score_key \<times> (int \<times> int)) list) \<Rightarrow> nat \<Rightarrow> 'd PrefixCachingBlockAllocator \<Rightarrow> bool" where
  "run_ok items N a \<longleftrightarrow> pa_inv items a \<and> held_ok a \<and> card (dom (pa_refs a)) = N"

lemma dom_refs_update: "pa_refs a b = Some n \<Longrightarrow> dom ((pa_refs a)(b \<mapsto> m)) = dom (pa_refs a)"
  by auto

text \<open>Nothing that concerns the objects, the references and the cache changes.\<close>

lemma held_same:
  fixes a a' :: "'d PrefixCachingBlockAllocator"
  assumes "pa_pool a' = pa_pool a" "pa_refs a' = pa_refs a" "pa_cached a' = pa_cached a"
  shows "held_ok a' = held_ok a"
  unfolding held_ok_def object_ok_def holders_of_def assms by (rule refl)

lemma pa_inv_tracker:
  assumes "pa_inv items a" "dict_get (pa_block_tracker a) b = Some t" "bt_active t' = bt_active t"
  shows "pa_inv items (set_tracker b t' a)"
proof -
  note st = pa_states_okD[OF pa_inv_states[OF assms(1)]]
  have "pa_states_ok (pa_refs a) (pa_view a) (pa_cached a) (set (pa_free a)) ((dict_get (pa_block_tracker a))(b \<mapsto> t'))"
  proof (rule pa_states_okI, goal_cases)
    case 1 show ?case using st(1) assms(2) by auto
  next
    case (2 c u) then show ?case using st(2)[of c] st(2)[OF assms(2)] assms(3) by (auto split: if_splits)
  next
    case (3 c) show ?case using st(3) by simp
  next
    case (4 c h) then show ?case by (rule st(4))
  next
    case (5 h c) then show ?case by (rule st(5))
  next
    case (6 h c) then show ?case by (rule st(6))
  next
    case (7 h h' c) then show ?case by (rule st(7))
  qed
  then show ?thesis using assms(1) unfolding pa_inv_def by simp
qed

lemma run_ok_tracker:
  "run_ok items N a \<Longrightarrow> dict_get (pa_block_tracker a) b = Some t \<Longrightarrow> bt_active t' = bt_active t \<Longrightarrow> run_ok items N (set_tracker b t' a)"
  using pa_inv_tracker[of items a b t t'] held_same[of "set_tracker b t' a" a] by (simp add: run_ok_def)

context prefix_env
begin

lemma run_immutable:
  assumes ok: "run_ok items N a" and prev: "prev_ready (rt_hash E) (pa_pool a) prev"
    and full: "int (length toks) = pa_block_size a" "toks \<noteq> []"
    and room: "pa_cached a (next_hash (rt_hash E) (pa_pool a) prev toks x) \<noteq> None \<or> 0 < PrefixCachingBlockAllocator_get_num_free_blocks a"
    and run: "PrefixCachingBlockAllocator_allocate_immutable_block E now a prev toks x = Inr (r, a')"
  shows "run_ok items N a'"
proof -
  have inv: "pa_inv items a" and held: "held_ok a" and N: "card (dom (pa_refs a)) = N" using ok by (simp_all add: run_ok_def)
  note st = pa_states_okD[OF pa_inv_states[OF inv]]
  define h where "h = next_hash (rt_hash E) (pa_pool a) prev toks x"
  show ?thesis
  proof (cases "pa_cached a h")
    case (Some b)
    obtain n where a': "pa_inv items a'" "new_object a r a' prev toks x b h" "pa_refs a b = Some n" "pa_refs a' = (pa_refs a)(b \<mapsto> n + 1)"
      "pa_cached a' = pa_cached a"
      using allocate_immutable_hit[OF inv prev full(1) h_def Some, of now] run by auto
    have o: "r \<notin> pool_live (pa_pool a)" "pool_live (pa_pool a') = insert r (pool_live (pa_pool a))"
      "\<forall>q \<in> pool_live (pa_pool a). bp_pool (pa_pool a') ! q = bp_pool (pa_pool a) ! q"
      "bl_block_id (bp_pool (pa_pool a') ! r) = Some b" "pb_cached_content_hash (bp_pool (pa_pool a') ! r) = Some h"
      using a'(2) by (simp_all add: new_object_def Let_def)
    have "held_ok a'"
    proof (rule held_new[OF held o(1-4) a'(3,4)])
      show "object_ok a' r" using o(4,5) a'(5) Some by (simp add: object_ok_def)
    qed (use a'(5) Some in \<open>auto simp: ran_def\<close>)
    then show ?thesis using a'(1,4) dom_refs_update[OF a'(3)] N by (simp add: run_ok_def)
  next
    case None
    then have free: "0 < PrefixCachingBlockAllocator_get_num_free_blocks a" using room by (simp add: h_def)
    obtain b where a': "pa_inv items a'" "new_object a r a' prev toks x b h" "pa_refs a b = Some 0" "pa_refs a' = (pa_refs a)(b \<mapsto> 1)"
      "if pa_free a \<noteq> [] then pa_free a = b # pa_free a' \<and> pa_cached a' = (pa_cached a)(h \<mapsto> b)
      else pa_free a' = [] \<and> (\<exists>h'. pa_view a b = Some h' \<and> pa_cached a' = (pa_cached a)(h' := None, h \<mapsto> b))"
      using allocate_immutable_miss[OF inv prev full h_def None free, of now] run by auto
    have o: "r \<notin> pool_live (pa_pool a)" "pool_live (pa_pool a') = insert r (pool_live (pa_pool a))"
      "\<forall>q \<in> pool_live (pa_pool a). bp_pool (pa_pool a') ! q = bp_pool (pa_pool a) ! q"
      "bl_block_id (bp_pool (pa_pool a') ! r) = Some b" "pb_cached_content_hash (bp_pool (pa_pool a') ! r) = Some h"
      using a'(2) by (simp_all add: new_object_def Let_def)
    have nb: "holders_of a b = {}" by (rule no_holder[OF held a'(3)])
    have ch: "pa_cached a' h = Some b" using a'(5) by (auto split: if_splits)
    have keep: "pa_cached a' k = Some c" if "pa_cached a k = Some c" "c \<noteq> b" for k c
      using a'(5) that None st(4)[of b] by (auto split: if_splits)
    have older: "pa_cached a k = Some c \<or> c = b" if "pa_cached a' k = Some c" for k c
      using a'(5) that by (auto split: if_splits)
    have "held_ok a'"
    proof (rule held_new[OF held o(1-4) a'(3)])
      show "pa_refs a' = (pa_refs a)(b \<mapsto> 0 + 1)" using a'(4) by simp
      show "object_ok a' r" using o(4,5) ch by (simp add: object_ok_def)
      fix c assume c: "holders_of a c \<noteq> {}"
      then have cb: "c \<noteq> b" using nb by auto
      show "pa_cached a' k = Some c" if "pa_cached a k = Some c" for k by (rule keep[OF that cb])
      show "c \<notin> ran (pa_cached a') \<and> c \<noteq> b" if "c \<notin> ran (pa_cached a)" using that older cb by (auto simp: ran_def)
    qed
    then show ?thesis using a'(1,4) dom_refs_update[OF a'(3)] N by (simp add: run_ok_def)
  qed
qed

lemma run_mutable:
  assumes ok: "run_ok items N a" and prev: "prev_ready (rt_hash E) (pa_pool a) prev" and sz: "0 < pa_block_size a"
    and room: "0 < PrefixCachingBlockAllocator_get_num_free_blocks a"
    and run: "PrefixCachingBlockAllocator_allocate_mutable_block E now a prev x = Inr (r, a')"
  shows "run_ok items N a'"
proof -
  have inv: "pa_inv items a" and held: "held_ok a" and N: "card (dom (pa_refs a)) = N" using ok by (simp_all add: run_ok_def)
  note st = pa_states_okD[OF pa_inv_states[OF inv]]
  obtain b a1 p where m: "a' = pa_set_pool p a1" "alloc_outcome a b a1" "pa_inv items a'" "r \<notin> pool_live (pa_pool a)"
     "pool_live p = insert r (pool_live (pa_pool a))" "\<forall>q \<in> pool_live (pa_pool a). bp_pool p ! q = bp_pool (pa_pool a) ! q"
     "bl_token_ids (bp_pool p ! r) = []" "bl_block_size (bp_pool p ! r) = pa_block_size a"
     "bl_block_id (bp_pool p ! r) = Some b" "pb_cached_content_hash (bp_pool p ! r) = None" "\<not> pb_computed (bp_pool p ! r)"
    using allocate_mutable_ok[OF inv prev sz room, of now x] run by auto
  have o: "pa_refs a b = Some 0" "pa_refs a1 = (pa_refs a)(b \<mapsto> 1)" "b \<notin> ran (pa_cached a1)"
    "if pa_free a \<noteq> [] then pa_cached a1 = pa_cached a \<and> pa_free a = b # pa_free a1
      else pa_free a1 = [] \<and> (\<exists>h. pa_view a b = Some h \<and> pa_cached a1 = (pa_cached a)(h := None))"
    using m(2) by (simp_all add: alloc_outcome_def)
  have nb: "holders_of a b = {}" by (rule no_holder[OF held o(1)])
  have "held_ok a'"
  proof (rule held_new[where r = r and b = b and n = 0, OF held m(4)])
    show "object_ok a' r" using m(7-11) o(2,3) sz by (simp add: object_ok_def m(1) is_full_def num_empty_slots_def)
    fix c assume "holders_of a c \<noteq> {}"
    then have cb: "c \<noteq> b" using nb by auto
    show "pa_cached a' k = Some c" if "pa_cached a k = Some c" for k using o(4) that cb st(4)[of b] by (auto simp: m(1) split: if_splits)
    show "c \<notin> ran (pa_cached a') \<and> c \<noteq> b" if "c \<notin> ran (pa_cached a)" using o(4) that cb by (auto simp: m(1) ran_def split: if_splits)
  qed (use m o in simp_all)
  then show ?thesis using m(1,3) o(2) dom_refs_update[OF o(1)] N by (simp add: run_ok_def)
qed

lemma run_append:
  assumes ok: "run_ok items N a" and r: "r \<in> pool_live (pa_pool a)" "pb_cached_content_hash (bp_pool (pa_pool a) ! r) = None"
    and fit: "toks \<noteq> []" "int (length toks) \<le> num_empty_slots (bp_pool (pa_pool a) ! r)"
    and prev: "prev_ready (rt_hash E) (pa_pool a) (bl_prev_block (bp_pool (pa_pool a) ! r))" "bl_prev_block (bp_pool (pa_pool a) ! r) \<noteq> Some r"
    and run: "PrefixCachingBlock_append_token_ids E now a r toks = Inr a'"
  shows "run_ok items N a'"
proof -
  have inv: "pa_inv items a" and held: "held_ok a" and N: "card (dom (pa_refs a)) = N" using ok by (simp_all add: run_ok_def)
  let ?p = "pa_pool a" and ?o = "bp_pool (pa_pool a) ! r"
  have "object_ok a r" using held r(1) by (simp add: held_ok_def)
  then obtain b where b: "bl_block_id ?o = Some b" "\<not> is_full ?o" "\<not> pb_computed ?o" "b \<notin> ran (pa_cached a)" "pa_refs a b = Some 1"
    using r(2) by (auto simp: object_ok_def)
  have rl: "r < length (bp_pool ?p)" using r(1) pa_inv_poolD(1)[OF inv] by (simp add: pool_live_def pool_ok_def)
  have ql: "bl_prev_block ?o = Some q \<Longrightarrow> q < length (bp_pool ?p)" for q
    using prev(1) pa_inv_poolD(1)[OF inv] by (auto simp: prev_ready_def pool_live_def pool_ok_def)
  show ?thesis
  proof (cases "int (length toks) < num_empty_slots ?o")
    case True
    obtain o' where o': "a' = pa_set_pool (pool_set ?p r o') a" "pa_inv items a'" "bl_block_id o' = Some b"
      "pb_cached_content_hash o' = None" "\<not> is_full o'" "\<not> pb_computed o'"
      using append_partial[OF inv rl b(1) r(2) b(2,3,5) fit(1) True ql, of now] run by auto
    have "held_ok a'"
    proof (rule held_change[OF held r(1) b(1,5) _ rl o'(3)])
      show "object_ok a' r" using o' b rl by (simp add: object_ok_def)
    qed (use o'(1) b in auto)
    then show ?thesis using o'(1,2) N by (simp add: run_ok_def)
  next
    case False
    then have full: "int (length toks) = num_empty_slots ?o" using fit(2) by simp
    obtain o' h a3 where f: "a3 = pa_set_pool (pool_set ?p r o') a" "pa_inv items a3" "bl_block_id o' = Some b" "pb_cached_content_hash o' = Some h"
      "PrefixCachingBlock_append_token_ids E now a r toks =
       res_bind (PrefixCachingBlockAllocator_promote_to_immutable_block E a3 r) (\<lambda>(block_id, a4). pa_set_block_id a4 r (Some block_id))"
      using append_until_full[OF inv rl b(1) r(2) b(2,3,5) fit(1) full refl prev, of now] by blast
    have r3: "r < length (bp_pool (pa_pool a3))" "bp_pool (pa_pool a3) ! r = o'" "pa_refs a3 = pa_refs a" "pa_cached a3 = pa_cached a"
      using rl by (simp_all add: f(1) pool_set_def)
    show ?thesis
    proof (cases "pa_cached a h")
      case None
      obtain a4 where p: "PrefixCachingBlockAllocator_promote_to_immutable_block E a3 r = Inr (b, a4)" "pa_inv items a4"
        "pa_cached a4 = (pa_cached a)(h \<mapsto> b)" "pa_hashless a4 = pa_hashless a3"
        using promote_new[OF f(2) r3(1), of b h 1] f(3,4) r3(2-4) b(4,5) None by auto
      have same: "o'\<lparr>bl_block_id := Some b\<rparr> = o'" using f(3) by (intro block_id_same) simp
      have p4: "pa_pool a4 = pool_set ?p r o'" using p(4) by (simp add: f(1) pa_set_pool_def)
      have "a' = pa_set_pool (pool_set (pa_pool a4) r (o'\<lparr>bl_block_id := Some b\<rparr>)) a4"
        using run f(5) p(1) rl by (simp add: pa_set_block_id_def p4 pool_set_def)
      then have a': "a' = a4" unfolding same by (simp add: p4 pool_set_def) (simp add: pool_set_def[symmetric] p4[symmetric])
      have rf: "pa_refs a4 = pa_refs a" using p(4) by (simp add: pa_refs_def f(1) pa_set_pool_def)
      have "held_ok a'" unfolding a'
      proof (rule held_change[OF held r(1) b(1,5) p4 rl f(3)])
        show "object_ok a4 r" using f(3,4) rl by (simp add: object_ok_def p4 p(3))
        fix d assume "d \<noteq> b"
        then show "d \<notin> ran (pa_cached a4) \<and> d \<noteq> b" if "d \<notin> ran (pa_cached a)" using that None by (auto simp: p(3) ran_def)
        show "pa_cached a4 k = Some d" if "pa_cached a k = Some d" for k using that None by (auto simp: p(3))
      qed (use rf b in simp_all)
      then show ?thesis using a' p(2) rf N by (simp add: run_ok_def)
    next
      case (Some c)
      obtain a4 m o4 where p: "PrefixCachingBlockAllocator_promote_to_immutable_block E a3 r = Inr (c, a4)" "pa_inv items a4"
        "pa_refs a c = Some m" "pa_refs a4 = (pa_refs a)(b \<mapsto> 0, c \<mapsto> m + 1)" "pa_cached a4 = pa_cached a"
        "pa_pool a4 = pool_set (pa_pool a3) r o4" "bl_block_id o4 = Some c" "pb_cached_content_hash o4 = Some h"
        using promote_known[OF f(2) r3(1), of b h c] f(3,4) r3(2-4) b(4,5) Some by auto
      have cb: "c \<noteq> b" using b(4) Some by (auto simp: ran_def)
      have same: "o4\<lparr>bl_block_id := Some c\<rparr> = o4" using p(7) by (intro block_id_same) simp
      have p4: "pa_pool a4 = pool_set ?p r o4" using p(6) by (simp add: f(1))
      have "a' = pa_set_pool (pool_set (pa_pool a4) r (o4\<lparr>bl_block_id := Some c\<rparr>)) a4"
        using run f(5) p(1) rl by (simp add: pa_set_block_id_def p4 pool_set_def)
      then have a': "a' = a4" unfolding same by (simp add: p4 pool_set_def) (simp add: pool_set_def[symmetric] p4[symmetric])
      have "held_ok a'" unfolding a'
      proof (rule held_change[OF held r(1) b(1,5) p4 rl p(7)])
        show "object_ok a4 r" using p(5,7,8) Some rl by (simp add: object_ok_def p4)
        show "if c = b then pa_refs a4 b = Some 1 else pa_refs a4 b = Some 0 \<and> (\<exists>m. pa_refs a c = Some m \<and> pa_refs a4 c = Some (m + 1))"
          using p(3,4) cb by simp
        fix d assume "d \<noteq> b"
        then show "d \<notin> ran (pa_cached a4) \<and> d \<noteq> c" if "d \<notin> ran (pa_cached a)" using that Some by (auto simp: p(5) ran_def)
      qed (use p in simp_all)
      moreover have "dom (pa_refs a4) = dom (pa_refs a)" using p(3,4) b(5) by auto
      ultimately show ?thesis using a' p(2) N by (simp add: run_ok_def)
    qed
  qed
qed

lemma run_free:
  assumes ok: "run_ok items N a" and r: "r \<in> pool_live (pa_pool a)"
    and can: "\<And>b h. bl_block_id (bp_pool (pa_pool a) ! r) = Some b \<Longrightarrow> pb_cached_content_hash (bp_pool (pa_pool a) ! r) = Some h \<Longrightarrow>
        pa_refs a b = Some 1 \<Longrightarrow> rest_can_add a r b h"
    and run: "PrefixCachingBlockAllocator_free E now a r False = Inr a'"
  shows "run_ok items N a'"
proof -
  have inv: "pa_inv items a" and held: "held_ok a" and N: "card (dom (pa_refs a)) = N" using ok by (simp_all add: run_ok_def)
  have "object_ok a r" using held r by (simp add: held_ok_def)
  then obtain b where b: "bl_block_id (bp_pool (pa_pool a) ! r) = Some b"
      "case pb_cached_content_hash (bp_pool (pa_pool a) ! r) of Some h \<Rightarrow> pa_cached a h = Some b
       | None \<Rightarrow> \<not> is_full (bp_pool (pa_pool a) ! r) \<and> \<not> pb_computed (bp_pool (pa_pool a) ! r) \<and> b \<notin> ran (pa_cached a) \<and> pa_refs a b = Some 1"
    unfolding object_ok_def by blast
  obtain n where n: "pa_refs a b = Some n" "0 < n" using holder_refs[OF held r b(1)] by blast
  have "pa_inv items a' \<and> pa_refs a' = (pa_refs a)(b \<mapsto> n - 1) \<and> pa_cached a' = pa_cached a \<and>
     pool_live (pa_pool a') = pool_live (pa_pool a) - {r} \<and> (\<forall>q. q \<noteq> r \<longrightarrow> bp_pool (pa_pool a') ! q = bp_pool (pa_pool a) ! q)"
  proof (cases "pb_cached_content_hash (bp_pool (pa_pool a) ! r)")
    case None
    then have "\<not> is_full (bp_pool (pa_pool a) ! r)" "n = 1 \<Longrightarrow> b \<notin> ran (pa_cached a)" using b(2) by simp_all
    from free_hashless_ok[OF inv r b(1) None this(1) n this(2), of now] run show ?thesis by auto
  next
    case (Some h)
    then have "pa_cached a h = Some b" "n = 1 \<Longrightarrow> rest_can_add a r b h" using b n can by simp_all
    from free_cached_ok[OF inv r b(1) Some this(1) n this(2), of now False] run show ?thesis by auto
  qed
  then have a': "pa_inv items a'" "pa_refs a' = (pa_refs a)(b \<mapsto> n - 1)" "pa_cached a' = pa_cached a"
     "pool_live (pa_pool a') = pool_live (pa_pool a) - {r}" "\<forall>q. q \<noteq> r \<longrightarrow> bp_pool (pa_pool a') ! q = bp_pool (pa_pool a) ! q" by auto
  have "held_ok a'" by (rule held_gone[OF held r b(1) a'(4,5) n(1) a'(2,3)])
  then show ?thesis using a'(1,2) dom_refs_update[OF n(1)] N by (simp add: run_ok_def)
qed

lemma run_accessed:
  assumes ok: "run_ok items N a" and used: "\<forall>b \<in> set block_ids. \<exists>n > 0. pa_refs a b = Some n"
    and run: "PrefixCachingBlockAllocator_mark_blocks_as_accessed E clock a block_ids now hint = Inr a'"
  shows "run_ok items N a'"
proof -
  let ?P = "\<lambda>s. run_ok items N s \<and> pa_refs s = pa_refs a"
  have "?P a'"
  proof (rule res_fold_inv[OF run[unfolded PrefixCachingBlockAllocator_mark_blocks_as_accessed_def], of ?P])
    show "?P a" using ok by simp
    fix b s s' assume b: "b \<in> set block_ids" and s: "?P s" and step: "mark_block_as_accessed E clock now hint b s = Inr s'"
    have "pa_inv items s" using s by (simp add: run_ok_def)
    moreover obtain n where n: "pa_refs s b = Some n" "0 < n" using used b s by auto
    ultimately obtain t where t: "dict_get (pa_block_tracker s) b = Some t" "bt_active t"
      using pa_tracker_active[of items s b n] by auto
    obtain t' where t': "BlockTracker_overwrite_block_metadata (rt_exp E) t now hint = Inr t'" "s' = set_tracker b t' s"
      using step t by (auto simp: mark_block_as_accessed_def dict_item_def elim!: res_bind_InrE)
    have "bt_active t' = bt_active t" using t'(1) by (auto simp: BlockTracker_overwrite_block_metadata_def elim!: res_bind_InrE)
    from run_ok_tracker[OF conjunct1[OF s] t(1) this] show "?P s'" using s by (simp add: t'(2) pa_refs_def set_tracker_def)
  qed
  then show ?thesis by simp
qed

lemma run_computed:
  assumes ok: "run_ok items N a" and run: "PrefixCachingBlockAllocator_mark_blocks_as_computed a block_ids = Inr a'"
  shows "run_ok items N a'"
proof -
  obtain a1 where a1: "res_fold mark_block_as_computed (pa_touched_blocks a) a = Inr a1" "a' = a1\<lparr>pa_touched_blocks := []\<rparr>"
    using run by (auto simp: PrefixCachingBlockAllocator_mark_blocks_as_computed_def elim!: res_bind_InrE)
  have "run_ok items N a1"
  proof (rule res_fold_inv[OF a1(1), of "run_ok items N"])
    show "run_ok items N a" by (rule ok)
    fix b s s' assume s: "run_ok items N s" and step: "mark_block_as_computed b s = Inr s'"
    obtain t where t: "dict_get (pa_block_tracker s) b = Some t" "s' = set_tracker b (t\<lparr>bt_computed := True\<rparr>) s"
      using step by (auto simp: mark_block_as_computed_def dict_item_def elim!: res_bind_InrE split: option.splits)
    show "run_ok items N s'" unfolding t(2) by (rule run_ok_tracker[OF s t(1)]) simp
  qed
  moreover have "run_ok items N a' = run_ok items N a1"
    using held_same[of a' a1] by (simp add: a1(2) run_ok_def pa_inv_def pa_refs_def pa_view_def pa_cached_def)
  ultimately show ?thesis by simp
qed

lemma run_reset:
  assumes ok: "run_ok items N a"
    and alg: "evictor_settings_ok E now (pa_eviction_algorithm a) (pa_eviction_algorithm_config a)"
    and new: "new_evictor E now (pa_eviction_algorithm a) (pa_eviction_algorithm_config a)
       (int (PrefixCachingBlockAllocator_get_num_total_blocks a)) = Inr e"
    and run: "PrefixCachingBlockAllocator_reset_prefix_cache E now a = Inr (done, a')"
  shows "run_ok items N a'"
proof -
  have inv: "pa_inv items a" and held: "held_ok a" and N: "card (dom (pa_refs a)) = N" using ok by (simp_all add: run_ok_def)
  show ?thesis
  proof (cases "all_idle a")
    case True
    have a': "pa_inv items a'" "pa_refs a' = pa_refs a" "pa_pool a' = pa_pool a" using reset_ok[OF inv True alg new] run by auto
    have none: "r \<notin> pool_live (pa_pool a)" for r
    proof
      assume r: "r \<in> pool_live (pa_pool a)"
      then have "object_ok a r" using held by (simp add: held_ok_def)
      then obtain b where "bl_block_id (bp_pool (pa_pool a) ! r) = Some b" unfolding object_ok_def by blast
      from holder_refs[OF held r this] obtain n where "pa_refs a b = Some n" "0 < n" .
      then show False using True unfolding all_idle_def by fastforce
    qed
    have e: "holders_of a b = {}" "holders_of a' b = {}" for b using none by (simp_all add: holders_of_def a'(3))
    have "held_ok a'" using held none unfolding held_ok_def e a'(2,3) by blast
    then show ?thesis using a'(1,2) N by (simp add: run_ok_def)
  next
    case False
    then obtain b n where "pa_refs a b = Some n" "0 < n"
      using pa_inv_rc[OF inv] by (auto simp: all_idle_def pa_refs_def rc_ok_def) (metis linorder_neqE_linordered_idom not_less)
    from reset_refused[OF inv this, of now] run
    have a': "a' = a\<lparr>pa_metric_data := CacheMetricData_init, pa_scheduler_post_warmup_metric_data := CacheMetricData_init\<rparr>" by simp
    have same: "pa_refs a' = pa_refs a" "pa_view a' = pa_view a" "pa_cached a' = pa_cached a"
      by (simp_all add: a' pa_refs_def pa_view_def pa_cached_def)
    have "pa_inv items a'" using inv unfolding pa_inv_def same by (simp add: a')
    moreover have "held_ok a'" using held held_same[of a' a] same by (simp add: a')
    ultimately show ?thesis using N same by (simp add: run_ok_def)
  qed
qed

lemma total_card: "pa_inv items a \<Longrightarrow> PrefixCachingBlockAllocator_get_num_total_blocks a = card (dom (pa_refs a))"
  using pa_inv_ids(2)[of items a] distinct_card[of "na_all_block_indices (pa_hashless a)"]
  by (simp add: pa_inv_def ids_ok_def PrefixCachingBlockAllocator_get_num_total_blocks_def NaiveBlockAllocator_get_num_total_blocks_def)

lemma run_start:
  assumes run: "PrefixCachingBlockAllocator_init E now (int N) block_size block_ids alg config = Inr a"
    and ids: "\<forall>l. block_ids = Some l \<longrightarrow> distinct l" and pos: "0 < N" and alg: "evictor_settings_ok E now alg config"
  shows "run_ok items N a"
proof -
  have i: "pa_inv items a" "\<forall>b n. pa_refs a b = Some n \<longrightarrow> n = 0" "pa_view a = Map.empty"
     "int (PrefixCachingBlockAllocator_get_num_free_blocks a) = int N + int (evictor_num_blocks (pa_evictor a))"
    using pa_init_inv[OF run ids _ alg] pos by auto
  have "evictor_num_blocks (pa_evictor a) = 0"
    using env.ev.num_blocks_card[OF evictor_of_inv[OF i(1)]] i(3) by (simp add: pa_view_def)
  moreover have nu: "{b. \<exists>n > 0. pa_refs a b = Some n} = {}" using i(2) by auto
  ultimately have N: "card (dom (pa_refs a)) = N" using free_and_used[OF i(1)] i(4) total_card[OF i(1)] unfolding nu by simp
  obtain f n pool where "BlockPool_init f block_size n = Inr pool" "pa_pool a = pool"
    using run by (auto simp: PrefixCachingBlockAllocator_init_def NaiveBlockAllocator_init_def Let_def elim!: res_bind_InrE)
  then have none: "pool_live (pa_pool a) = {}" using pool_ok_init by blast
  then have e: "holders_of a b = {}" for b by (simp add: holders_of_def)
  have "held_ok a" using i(2) none unfolding held_ok_def e by (auto split: option.splits)
  then show ?thesis using i(1) N by (simp add: run_ok_def)
qed

end

section \<open>Runs\<close>

text \<open>
  The states that the constructor and the operations produce. The conditions are what callers
  keep to: a previous block is in use and has its hash, a full block has as many tokens as the
  block size, no append overfills a block, and a block is only asked for while one is free or
  the content is cached. An object is freed while in use, and the evictor accepts its block: for
  the lru evictor, no older heap entry of the same block has the same time and other data. Fork,
  swapping and the observation hook are not steps of these runs.
\<close>

inductive allocator_run :: "'d runtime \<Rightarrow> nat \<Rightarrow> 'd PrefixCachingBlockAllocator \<Rightarrow> bool"
  for E :: "'d runtime" and N :: nat where
  start: "PrefixCachingBlockAllocator_init E now (int N) block_size block_ids alg config = Inr a \<Longrightarrow>
    \<forall>l. block_ids = Some l \<longrightarrow> distinct l \<Longrightarrow> 0 < N \<Longrightarrow> evictor_settings_ok E now alg config \<Longrightarrow> allocator_run E N a"
| immutable: "allocator_run E N a \<Longrightarrow> prev_ready (rt_hash E) (pa_pool a) prev \<Longrightarrow>
    int (length toks) = pa_block_size a \<Longrightarrow> toks \<noteq> [] \<Longrightarrow>
    pa_cached a (next_hash (rt_hash E) (pa_pool a) prev toks x) \<noteq> None \<or> 0 < PrefixCachingBlockAllocator_get_num_free_blocks a \<Longrightarrow>
    PrefixCachingBlockAllocator_allocate_immutable_block E now a prev toks x = Inr (r, a') \<Longrightarrow> allocator_run E N a'"
| mutable: "allocator_run E N a \<Longrightarrow> prev_ready (rt_hash E) (pa_pool a) prev \<Longrightarrow> 0 < pa_block_size a \<Longrightarrow>
    0 < PrefixCachingBlockAllocator_get_num_free_blocks a \<Longrightarrow>
    PrefixCachingBlockAllocator_allocate_mutable_block E now a prev x = Inr (r, a') \<Longrightarrow> allocator_run E N a'"
| append: "allocator_run E N a \<Longrightarrow> r \<in> pool_live (pa_pool a) \<Longrightarrow> pb_cached_content_hash (bp_pool (pa_pool a) ! r) = None \<Longrightarrow>
    toks \<noteq> [] \<Longrightarrow> int (length toks) \<le> num_empty_slots (bp_pool (pa_pool a) ! r) \<Longrightarrow>
    prev_ready (rt_hash E) (pa_pool a) (bl_prev_block (bp_pool (pa_pool a) ! r)) \<Longrightarrow> bl_prev_block (bp_pool (pa_pool a) ! r) \<noteq> Some r \<Longrightarrow>
    PrefixCachingBlock_append_token_ids E now a r toks = Inr a' \<Longrightarrow> allocator_run E N a'"
| free: "allocator_run E N a \<Longrightarrow> r \<in> pool_live (pa_pool a) \<Longrightarrow>
    \<forall>b h. bl_block_id (bp_pool (pa_pool a) ! r) = Some b \<longrightarrow> pb_cached_content_hash (bp_pool (pa_pool a) ! r) = Some h \<longrightarrow>
      pa_refs a b = Some 1 \<longrightarrow> rest_can_add a r b h \<Longrightarrow>
    PrefixCachingBlockAllocator_free E now a r False = Inr a' \<Longrightarrow> allocator_run E N a'"
| accessed: "allocator_run E N a \<Longrightarrow> \<forall>b \<in> set block_ids. \<exists>n > 0. pa_refs a b = Some n \<Longrightarrow>
    PrefixCachingBlockAllocator_mark_blocks_as_accessed E clock a block_ids now hint = Inr a' \<Longrightarrow> allocator_run E N a'"
| computed: "allocator_run E N a \<Longrightarrow>
    PrefixCachingBlockAllocator_mark_blocks_as_computed a block_ids = Inr a' \<Longrightarrow> allocator_run E N a'"
| reset: "allocator_run E N a \<Longrightarrow> evictor_settings_ok E now (pa_eviction_algorithm a) (pa_eviction_algorithm_config a) \<Longrightarrow>
    new_evictor E now (pa_eviction_algorithm a) (pa_eviction_algorithm_config a)
       (int (PrefixCachingBlockAllocator_get_num_total_blocks a)) = Inr e \<Longrightarrow>
    PrefixCachingBlockAllocator_reset_prefix_cache E now a = Inr (succeeded, a') \<Longrightarrow> allocator_run E N a'"

context prefix_env
begin

lemma allocator_run_ok: "allocator_run E N a \<Longrightarrow> run_ok items N a"
proof (induction rule: allocator_run.induct)
  case start then show ?case by (rule run_start)
next
  case immutable then show ?case using run_immutable by blast
next
  case mutable then show ?case using run_mutable by blast
next
  case append then show ?case using run_append by blast
next
  case (free a r now a') then show ?case using run_free[of N a r now a'] by blast
next
  case accessed then show ?case using run_accessed by blast
next
  case computed then show ?case using run_computed by blast
next
  case reset then show ?case using run_reset by blast
qed

text \<open>The references of a block are the objects that hold it, so a block nobody holds is free.\<close>

lemma run_accounting:
  assumes "allocator_run E N a"
  shows "PrefixCachingBlockAllocator_get_num_free_blocks a + card {b. holders_of a b \<noteq> {}} = N"
    "PrefixCachingBlockAllocator_get_num_total_blocks a = N"
    "int (card (holders_of a b)) = (case pa_refs a b of None \<Rightarrow> 0 | Some n \<Rightarrow> n)"
proof -
  have ok: "pa_inv items a" "held_ok a" "card (dom (pa_refs a)) = N"
    using allocator_run_ok[OF assms] by (simp_all add: run_ok_def)
  have c: "int (card (holders_of a b)) = (case pa_refs a b of None \<Rightarrow> 0 | Some n \<Rightarrow> n)" for b
    using ok(2) unfolding held_ok_def by blast
  then show "int (card (holders_of a b)) = (case pa_refs a b of None \<Rightarrow> 0 | Some n \<Rightarrow> n)" .
  have "holders_of a b \<noteq> {} \<longleftrightarrow> (\<exists>n > 0. pa_refs a b = Some n)" for b
  proof -
    have "holders_of a b \<noteq> {} \<longleftrightarrow> 0 < int (card (holders_of a b))" by (simp add: card_gt_0_iff)
    then show ?thesis unfolding c by (auto split: option.splits)
  qed
  then show "PrefixCachingBlockAllocator_get_num_free_blocks a + card {b. holders_of a b \<noteq> {}} = N"
    using free_and_used[OF ok(1)] total_card[OF ok(1)] ok(3) by simp
  show "PrefixCachingBlockAllocator_get_num_total_blocks a = N" using total_card[OF ok(1)] ok(3) by simp
qed

end

end
