(* ===== verification/Prefix_Lookup.thy ===== *)
theory Prefix_Lookup
  imports Prefix_Reuse "HOL-Library.Sublist"
begin

text \<open>
  The lookups of the prefix-caching allocator: the binary search for the cached prefix of a list
  of block hashes agrees with a linear scan, and the common prefix of the block ids of a group,
  found from the least and the greatest list only, is the longest common prefix of all.
\<close>

section \<open>Binary search\<close>

lemma bisect_left_true_bounds:
  assumes "\<And>i. lo \<le> i \<Longrightarrow> i < hi \<Longrightarrow> key (xs ! i) = Inr (f (xs ! i))" "lo \<le> hi"
    "\<And>i j. lo \<le> i \<Longrightarrow> i < j \<Longrightarrow> j < hi \<Longrightarrow> f (xs ! i) \<Longrightarrow> f (xs ! j)"
  shows "\<exists>k. bisect_left_true key xs lo hi = Inr k \<and> lo \<le> k \<and> k \<le> hi \<and>
     (\<forall>i. lo \<le> i \<and> i < k \<longrightarrow> \<not> f (xs ! i)) \<and> (\<forall>i. k \<le> i \<and> i < hi \<longrightarrow> f (xs ! i))"
  using assms
proof (induction key xs lo hi rule: bisect_left_true.induct)
  case (1 key xs lo hi)
  show ?case
  proof (cases "lo < hi")
    case False
    then show ?thesis using 1(4) by (subst bisect_left_true.simps) auto
  next
    case True
    let ?mid = "(lo + hi) div 2"
    have m: "lo \<le> ?mid" "?mid < hi" using True by auto
    then have k: "key (xs ! ?mid) = Inr (f (xs ! ?mid))" using 1(3) by simp
    show ?thesis
    proof (cases "f (xs ! ?mid)")
      case False
      have "\<exists>k. bisect_left_true key xs (?mid + 1) hi = Inr k \<and> ?mid + 1 \<le> k \<and> k \<le> hi \<and>
          (\<forall>i. ?mid + 1 \<le> i \<and> i < k \<longrightarrow> \<not> f (xs ! i)) \<and> (\<forall>i. k \<le> i \<and> i < hi \<longrightarrow> f (xs ! i))"
      proof (rule 1(1)[OF True refl k False])
        show "f (xs ! j)" if "?mid + 1 \<le> i" "i < j" "j < hi" "f (xs ! i)" for i j using 1(5)[of i j] that m by simp
      qed (use 1(3) m in auto)
      then obtain n where n: "bisect_left_true key xs (?mid + 1) hi = Inr n" "?mid + 1 \<le> n" "n \<le> hi"
        "\<forall>i. ?mid + 1 \<le> i \<and> i < n \<longrightarrow> \<not> f (xs ! i)" "\<forall>i. n \<le> i \<and> i < hi \<longrightarrow> f (xs ! i)" by blast
      have low: "\<not> f (xs ! i)" if "lo \<le> i" "i < n" for i
      proof (cases "i < ?mid")
        case True
        then show ?thesis using 1(5)[OF that(1) True m(2)] False by blast
      next
        case nl: False
        then show ?thesis using n(4) that(2) False by (cases "i = ?mid") auto
      qed
      have "bisect_left_true key xs lo hi = Inr n" using True k False n(1) by (subst bisect_left_true.simps) simp
      then show ?thesis using n(2,3,5) low m by (intro exI[of _ n]) auto
    next
      case t: True
      have "\<exists>k. bisect_left_true key xs lo ?mid = Inr k \<and> lo \<le> k \<and> k \<le> ?mid \<and>
          (\<forall>i. lo \<le> i \<and> i < k \<longrightarrow> \<not> f (xs ! i)) \<and> (\<forall>i. k \<le> i \<and> i < ?mid \<longrightarrow> f (xs ! i))"
      proof (rule 1(2)[OF True refl k])
        show "f (xs ! j)" if "lo \<le> i" "i < j" "j < ?mid" "f (xs ! i)" for i j using 1(5)[of i j] that m by simp
      qed (use t 1(3) m in auto)
      then obtain n where n: "bisect_left_true key xs lo ?mid = Inr n" "lo \<le> n" "n \<le> ?mid"
        "\<forall>i. lo \<le> i \<and> i < n \<longrightarrow> \<not> f (xs ! i)" "\<forall>i. n \<le> i \<and> i < ?mid \<longrightarrow> f (xs ! i)" by blast
      have high: "f (xs ! i)" if "n \<le> i" "i < hi" for i
      proof (cases "i < ?mid")
        case True
        then show ?thesis using n(5) that(1) by blast
      next
        case nl: False
        then show ?thesis using 1(5)[of ?mid i] m t that(2) by (cases "i = ?mid") auto
      qed
      have "bisect_left_true key xs lo hi = Inr n" using True k t n(1) by (subst bisect_left_true.simps) simp
      then show ?thesis using n(2-4) high m by (intro exI[of _ n]) auto
    qed
  qed
qed

lemma take_first_false:
  assumes "k \<le> length xs" "\<And>i. i < k \<Longrightarrow> P (xs ! i)" "\<And>i. k \<le> i \<Longrightarrow> i < length xs \<Longrightarrow> \<not> P (xs ! i)"
  shows "take k xs = takeWhile P xs"
proof -
  have "takeWhile P xs = take k xs"
    by (rule takeWhile_eq_take_P_nth) (use assms in auto)
  then show ?thesis ..
qed

text \<open>A block hash counts as cached when its block is idle in the cache or marked as computed.\<close>

definition reusable :: "'d PrefixCachingBlockAllocator \<Rightarrow> int \<Rightarrow> bool" where
  "reusable a h \<longleftrightarrow> block_is_cached a h = Inr True"

context prefix_env
begin

lemma block_is_cached_total:
  assumes "pa_inv items a"
  shows "block_is_cached a h = Inr (reusable a h)"
proof (cases "pa_cached a h")
  case None
  then show ?thesis by (simp add: reusable_def block_is_cached_def pa_cached_def)
next
  case (Some b)
  then obtain n where "pa_refs a b = Some n" using pa_states_okD(5)[OF pa_inv_states[OF assms]] by blast
  then obtain t where "dict_get (pa_block_tracker a) b = Some t" using pa_tracker_active[OF assms] by blast
  then show ?thesis using Some
    by (simp add: reusable_def block_is_cached_def pa_cached_def PrefixCachingBlockAllocator_block_is_computed_def dict_item_def)
qed

lemma find_cached_prefix:
  assumes inv: "pa_inv items a"
    and closed: "\<And>i j. i < j \<Longrightarrow> j < length hs \<Longrightarrow> reusable a (hs ! j) \<Longrightarrow> reusable a (hs ! i)"
  shows "PrefixCachingBlockAllocator_find_cached_blocks_prefix a hs = Inr (takeWhile (reusable a) hs)"
proof -
  let ?key = "\<lambda>h. res_bind (block_is_cached a h) (\<lambda>c. Inr (\<not> c))"
  have "\<exists>k. bisect_left_true ?key hs 0 (length hs) = Inr k \<and> 0 \<le> k \<and> k \<le> length hs \<and>
      (\<forall>i. 0 \<le> i \<and> i < k \<longrightarrow> \<not> \<not> reusable a (hs ! i)) \<and> (\<forall>i. k \<le> i \<and> i < length hs \<longrightarrow> \<not> reusable a (hs ! i))"
    by (rule bisect_left_true_bounds) (use block_is_cached_total[OF inv] closed in auto)
  then obtain k where k: "bisect_left_true ?key hs 0 (length hs) = Inr k" "k \<le> length hs"
    "\<And>i. i < k \<Longrightarrow> reusable a (hs ! i)" "\<And>i. k \<le> i \<Longrightarrow> i < length hs \<Longrightarrow> \<not> reusable a (hs ! i)" by auto
  have "take k hs = takeWhile (reusable a) hs" using k(2-4) by (rule take_first_false)
  then show ?thesis using k(1) by (simp add: PrefixCachingBlockAllocator_find_cached_blocks_prefix_def)
qed

end

section \<open>Common prefixes\<close>

lemma shared_prefix_greatest: "prefix p xs \<and> prefix p ys \<longleftrightarrow> prefix p (shared_prefix xs ys)"
proof (induction xs ys arbitrary: p rule: shared_prefix.induct)
  case (1 x xs y ys)
  show ?case
  proof (cases p)
    case (Cons z zs)
    then show ?thesis using "1.IH"[of zs] by auto
  qed simp
qed auto

lemma prefix_between:
  fixes l :: "int list"
  assumes "prefix p lo" "prefix p hi" "lo \<le> l" "l \<le> hi"
  shows "prefix p l"
  using assms
proof (induction p arbitrary: lo l hi)
  case (Cons x p)
  obtain u v where e: "lo = x # u" "hi = x # v" "prefix p u" "prefix p v"
    using Cons.prems(1,2) by (auto simp: prefix_def)
  obtain y w where l: "l = y # w" using Cons.prems(3) e(1) by (cases l) auto
  have "x \<le> y" "y \<le> x" using Cons.prems(3,4) e(1,2) l by (auto split: if_splits)
  then have "y = x" "u \<le> w" "w \<le> v" using Cons.prems(3,4) e(1,2) l by auto
  then show ?case using Cons.IH[OF e(3,4)] l by simp
qed simp

lemma commonprefix_correct:
  assumes "m \<noteq> []"
  shows "(\<forall>l \<in> set m. prefix p l) \<longleftrightarrow> prefix p (commonprefix m)"
proof -
  let ?lo = "min_from id (hd m) (tl m)" and ?hi = "max_from id (hd m) (tl m)"
  have s: "insert (hd m) (set (tl m)) = set m" using assms by (cases m) auto
  have mem: "?lo \<in> set m" "?hi \<in> set m" using min_from_mem[of id "hd m" "tl m"] max_from_mem[of id "hd m" "tl m"] s by auto
  have le: "?lo \<le> l" "l \<le> ?hi" if "l \<in> set m" for l
    using min_from_le[of l "hd m" "tl m" id] max_from_ge[of l "hd m" "tl m" id] that s by auto
  have "(\<forall>l \<in> set m. prefix p l) \<longleftrightarrow> prefix p ?lo \<and> prefix p ?hi"
  proof
    assume "prefix p ?lo \<and> prefix p ?hi"
    then show "\<forall>l \<in> set m. prefix p l" using prefix_between le by blast
  qed (use mem in blast)
  then show ?thesis using assms by (simp add: commonprefix_def shared_prefix_greatest)
qed

lemma common_ids_longest:
  assumes "length ids \<noteq> 1" "\<exists>l \<in> set ids. l \<noteq> []"
  shows "prefix p (PrefixCachingBlockAllocator_get_common_computed_block_ids ids) \<longleftrightarrow> (\<forall>l \<in> set ids. l \<noteq> [] \<longrightarrow> prefix p l)"
proof -
  have ne: "filter (\<lambda>l. l \<noteq> []) ids \<noteq> []" using assms(2) by (simp add: filter_empty_conv)
  show ?thesis using commonprefix_correct[OF ne, of p] assms(1)
    by (auto simp: PrefixCachingBlockAllocator_get_common_computed_block_ids_def)
qed

end
