(* ===== verification/Prefix_Trackers.thy ===== *)
theory Prefix_Trackers
  imports Prefix_Reuse
begin

text \<open>
  The trackers of vllm/core/block/prefix_caching_block.py that connect sequences to the
  allocator: ComputedBlocksTracker keeps the block hashes of every sequence up to date and counts
  its cached tokens; LastAccessBlocksTracker keeps its last access and its cache hint. The
  allocator behind a tracker is an argument: the operations the tracker calls on its state.
\<close>

section \<open>Sequences\<close>

text \<open>What the trackers read of a Sequence.\<close>

record Sequence =
  sq_seq_id :: int
  sq_token_ids :: "int list"
  sq_extra_hash :: "int option"
  sq_is_prefill :: bool
  sq_cache_hint :: "cache_hint option"

section \<open>ComputedBlocksTracker\<close>

record ComputedBlocksTracker =
  ct_block_size :: nat
  ct_enable_caching :: bool
  ct_seq_id_to_blocks_hashes :: "(int, int list) dict"
  ct_seq_id_to_num_tokens_computed :: "(int, nat) dict"

definition ComputedBlocksTracker_init :: "nat \<Rightarrow> bool \<Rightarrow> ComputedBlocksTracker" where
  "ComputedBlocksTracker_init block_size enable_caching =
     \<lparr>ct_block_size = block_size, ct_enable_caching = enable_caching, ct_seq_id_to_blocks_hashes = [],
      ct_seq_id_to_num_tokens_computed = []\<rparr>"

fun record_block_hashes :: "py_hash \<Rightarrow> nat \<Rightarrow> int list \<Rightarrow> int option \<Rightarrow> int \<Rightarrow> nat list \<Rightarrow> int list \<Rightarrow> int list result" where
  "record_block_hashes H block_size token_ids extra_hash prev_block_hash [] recorded = Inr recorded"
| "record_block_hashes H block_size token_ids extra_hash prev_block_hash (i # is) recorded =
     res_bind (py_assert (length token_ids \<ge> (i + 1) * block_size)) (\<lambda>_.
     let block_token_ids = take block_size (drop (i * block_size) token_ids);
         block_hash = hash_block_tokens H (prev_block_hash = none_hash H) (Some prev_block_hash) block_token_ids extra_hash
     in record_block_hashes H block_size token_ids extra_hash block_hash is (recorded @ [block_hash]))"

definition ComputedBlocksTracker_update_seq_hashes ::
    "py_hash \<Rightarrow> ComputedBlocksTracker \<Rightarrow> Sequence \<Rightarrow> ComputedBlocksTracker result" where
  "ComputedBlocksTracker_update_seq_hashes H t seq =
     res_bind (py_assert (ct_enable_caching t)) (\<lambda>_.
     let block_hashes_recorded = dict_get_default (ct_seq_id_to_blocks_hashes t) (sq_seq_id seq) [];
         cur_num_blocks_recorded = length block_hashes_recorded;
         token_ids = sq_token_ids seq
     in res_bind (py_assert (length token_ids \<ge> cur_num_blocks_recorded * ct_block_size t)) (\<lambda>_.
        if ct_block_size t = 0 then Inl ZeroDivisionError
        else let num_computed_blocks = length token_ids div ct_block_size t;
                 prev_block_hash = (if cur_num_blocks_recorded = 0 then none_hash H else last block_hashes_recorded)
             in res_bind (record_block_hashes H (ct_block_size t) token_ids (sq_extra_hash seq) prev_block_hash
                    [cur_num_blocks_recorded..<num_computed_blocks] block_hashes_recorded) (\<lambda>hashes.
                  Inr (t\<lparr>ct_seq_id_to_blocks_hashes := dict_set (sq_seq_id seq) hashes (ct_seq_id_to_blocks_hashes t)\<rparr>))))"

definition ComputedBlocksTracker_get_num_cached_tokens ::
    "py_hash \<Rightarrow> ('s \<Rightarrow> int list \<Rightarrow> cache_hint option \<Rightarrow> 's result) \<Rightarrow> ('s \<Rightarrow> int list \<Rightarrow> int list result) \<Rightarrow>
     's \<Rightarrow> ComputedBlocksTracker \<Rightarrow> Sequence \<Rightarrow> (nat \<times> ComputedBlocksTracker \<times> 's) result" where
  "ComputedBlocksTracker_get_num_cached_tokens H observe find_prefix s t seq =
     (if \<not> ct_enable_caching t then Inr (0, t, s)
      else res_bind (ComputedBlocksTracker_update_seq_hashes H t seq) (\<lambda>t1.
        case (dict_get (ct_seq_id_to_num_tokens_computed t1) (sq_seq_id seq), sq_is_prefill seq) of
          (Some num_computed_tokens_prev, True) \<Rightarrow> Inr (num_computed_tokens_prev, t1, s)
        | _ \<Rightarrow>
            res_bind (dict_item (ct_seq_id_to_blocks_hashes t1) (sq_seq_id seq)) (\<lambda>block_hashes.
            res_bind (observe s block_hashes (sq_cache_hint seq)) (\<lambda>s1.
            res_bind (find_prefix s1 block_hashes) (\<lambda>cached.
            let num_cached_tokens = length cached * ct_block_size t1
            in Inr (num_cached_tokens, t1\<lparr>ct_seq_id_to_num_tokens_computed :=
                 dict_set (sq_seq_id seq) num_cached_tokens (ct_seq_id_to_num_tokens_computed t1)\<rparr>, s1))))))"

text \<open>The tracker on the prefix-caching allocator.\<close>

definition prefix_get_num_cached_tokens ::
    "'d runtime \<Rightarrow> rat \<Rightarrow> 'd PrefixCachingBlockAllocator \<Rightarrow> ComputedBlocksTracker \<Rightarrow> Sequence \<Rightarrow>
     (nat \<times> ComputedBlocksTracker \<times> 'd PrefixCachingBlockAllocator) result" where
  "prefix_get_num_cached_tokens E now = ComputedBlocksTracker_get_num_cached_tokens (rt_hash E)
     (PrefixCachingBlockAllocator_observe_cache_accesses E now) PrefixCachingBlockAllocator_find_cached_blocks_prefix"

definition ComputedBlocksTracker_remove_seq :: "ComputedBlocksTracker \<Rightarrow> int \<Rightarrow> ComputedBlocksTracker result" where
  "ComputedBlocksTracker_remove_seq t seq_id =
     (if \<not> ct_enable_caching t then Inr t
      else res_bind (py_assert (dict_has (ct_seq_id_to_blocks_hashes t) seq_id)) (\<lambda>_.
           res_bind (py_assert (dict_has (ct_seq_id_to_num_tokens_computed t) seq_id)) (\<lambda>_.
             Inr (t\<lparr>ct_seq_id_to_blocks_hashes := dict_pop seq_id (ct_seq_id_to_blocks_hashes t),
                    ct_seq_id_to_num_tokens_computed := dict_pop seq_id (ct_seq_id_to_num_tokens_computed t)\<rparr>))))"

section \<open>LastAccessBlocksTracker\<close>

record LastAccessBlocksTracker =
  lt_seq_last_access :: "(int, rat option) dict"
  lt_seq_cache_hint :: "(int, cache_hint option) dict"

definition LastAccessBlocksTracker_init :: LastAccessBlocksTracker where
  "LastAccessBlocksTracker_init = \<lparr>lt_seq_last_access = [], lt_seq_cache_hint = []\<rparr>"

definition LastAccessBlocksTracker_add_seq :: "LastAccessBlocksTracker \<Rightarrow> int \<Rightarrow> LastAccessBlocksTracker result" where
  "LastAccessBlocksTracker_add_seq t seq_id =
     res_bind (py_assert (\<not> dict_has (lt_seq_last_access t) seq_id)) (\<lambda>_.
       Inr (t\<lparr>lt_seq_last_access := dict_set seq_id None (lt_seq_last_access t),
              lt_seq_cache_hint := dict_set seq_id None (lt_seq_cache_hint t)\<rparr>))"

definition LastAccessBlocksTracker_remove_seq :: "LastAccessBlocksTracker \<Rightarrow> int \<Rightarrow> LastAccessBlocksTracker result" where
  "LastAccessBlocksTracker_remove_seq t seq_id =
     res_bind (py_assert (dict_has (lt_seq_last_access t) seq_id)) (\<lambda>_.
     res_bind (dict_item (lt_seq_cache_hint t) seq_id) (\<lambda>_.
       Inr (t\<lparr>lt_seq_last_access := dict_pop seq_id (lt_seq_last_access t),
              lt_seq_cache_hint := dict_pop seq_id (lt_seq_cache_hint t)\<rparr>)))"

definition LastAccessBlocksTracker_update_last_access ::
    "LastAccessBlocksTracker \<Rightarrow> int \<Rightarrow> rat \<Rightarrow> LastAccessBlocksTracker result" where
  "LastAccessBlocksTracker_update_last_access t seq_id time =
     res_bind (py_assert (dict_has (lt_seq_last_access t) seq_id)) (\<lambda>_.
       Inr (t\<lparr>lt_seq_last_access := dict_set seq_id (Some time) (lt_seq_last_access t)\<rparr>))"

text \<open>
  The result has the hint as the caller sees it afterwards (the operation completes it in place)
  and whether it was put into the queue of the predictor.
\<close>

definition LastAccessBlocksTracker_update_cache_hint ::
    "bool \<Rightarrow> LastAccessBlocksTracker \<Rightarrow> int \<Rightarrow> cache_hint option \<Rightarrow>
     (cache_hint \<times> bool \<times> LastAccessBlocksTracker) result" where
  "LastAccessBlocksTracker_update_cache_hint should_predict t seq_id cache_hint =
     (case cache_hint of None \<Rightarrow> Inl TypeError
      | Some c \<Rightarrow>
          let hint = (if \<not> should_predict \<and> ch_prob_has_next c = None then c\<lparr>ch_prob_has_next := Some 0\<rparr> else c);
              queued = (should_predict \<and> ch_prob_has_next hint = None);
              t1 = t\<lparr>lt_seq_cache_hint := dict_set seq_id (Some hint) (lt_seq_cache_hint t)\<rparr>
          in case dict_get (lt_seq_cache_hint t) seq_id of
               Some (Some old) \<Rightarrow>
                 res_bind (hint_key ch_turns (Some old)) (\<lambda>old_turns.
                 res_bind (hint_key ch_turns (Some hint)) (\<lambda>turns.
                   if old_turns < turns then Inr (hint, queued, t1) else Inr (hint, False, t)))
             | _ \<Rightarrow> Inr (hint, queued, t1))"

definition LastAccessBlocksTracker_update_blocks_metadata_using_seq_metadata ::
    "('s \<Rightarrow> int list \<Rightarrow> rat \<Rightarrow> cache_hint option \<Rightarrow> 's result) \<Rightarrow> 's \<Rightarrow> LastAccessBlocksTracker \<Rightarrow> int \<Rightarrow> int list \<Rightarrow>
     (LastAccessBlocksTracker \<times> 's) result" where
  "LastAccessBlocksTracker_update_blocks_metadata_using_seq_metadata mark_accessed s t seq_id block_ids =
     res_bind (dict_item (lt_seq_cache_hint t) seq_id) (\<lambda>h.
     case h of None \<Rightarrow> Inl TypeError
     | Some c \<Rightarrow>
         let hint = (if ch_prob_has_next c = None then c\<lparr>ch_prob_has_next := Some 0\<rparr> else c);
             t1 = t\<lparr>lt_seq_cache_hint := dict_set seq_id (Some hint) (lt_seq_cache_hint t)\<rparr>
         in res_bind (dict_item (lt_seq_last_access t) seq_id) (\<lambda>ts.
              case ts of None \<Rightarrow> Inr (t1, s)
              | Some now \<Rightarrow> res_bind (mark_accessed s block_ids now (Some hint)) (\<lambda>s1. Inr (t1, s1))))"

section \<open>The hashes of a sequence\<close>

text \<open>The hashes of consecutive full blocks, each over the one before: the reference.\<close>

definition step_hash :: "py_hash \<Rightarrow> int option \<Rightarrow> int list \<Rightarrow> int option \<Rightarrow> int" where
  "step_hash H prev toks x = (case prev of None \<Rightarrow> hash_tuple H True (Some (none_hash H)) toks x
     | Some ph \<Rightarrow> hash_tuple H False (Some ph) toks x)"

fun chain_hashes :: "py_hash \<Rightarrow> int option \<Rightarrow> int option \<Rightarrow> int list list \<Rightarrow> int list" where
  "chain_hashes H prev x [] = []"
| "chain_hashes H prev x (toks # rest) =
     step_hash H prev toks x # chain_hashes H (Some (step_hash H prev toks x)) x rest"

definition seq_hashes :: "py_hash \<Rightarrow> nat \<Rightarrow> int list \<Rightarrow> int option \<Rightarrow> int list" where
  "seq_hashes H n toks x = chain_hashes H None x (full_chunks n toks)"

text \<open>
  A hash in the middle of a chain that happens to be the one of the string None marks the start of a
  chain, for the tracker as for the blocks; the hashes agree for chains without such a collision.
\<close>

definition collision_free :: "py_hash \<Rightarrow> int list \<Rightarrow> bool" where
  "collision_free H hs \<longleftrightarrow> none_hash H \<notin> set (butlast hs)"

lemma collision_free_Cons: "collision_free H (h # hs) \<longleftrightarrow> (hs \<noteq> [] \<longrightarrow> h \<noteq> none_hash H) \<and> collision_free H hs"
  by (auto simp: collision_free_def)

lemma collision_free_append:
  "collision_free H (hs @ ks) \<Longrightarrow> collision_free H hs \<and> collision_free H ks \<and> (hs \<noteq> [] \<longrightarrow> ks \<noteq> [] \<longrightarrow> last hs \<noteq> none_hash H)"
  by (induction hs) (auto simp: collision_free_Cons, auto simp: collision_free_def)

lemma chain_hashes_length [simp]: "length (chain_hashes H prev x ls) = length ls"
  by (induction ls arbitrary: prev) (simp_all add: Let_def)

lemma chain_hashes_Nil [simp]: "chain_hashes H prev x ls = [] \<longleftrightarrow> ls = []"
  by (cases ls) simp_all

lemma chain_hashes_append:
  "chain_hashes H prev x (ls @ ms) = chain_hashes H prev x ls @
     chain_hashes H (if ls = [] then prev else Some (last (chain_hashes H prev x ls))) x ms"
  by (induction ls arbitrary: prev) simp_all

text \<open>The loop over the new blocks continues the chain.\<close>

lemma record_block_hashes_ok:
  assumes "collision_free H (chain_hashes H prev x (map (\<lambda>i. take n (drop (i * n) toks)) is))" "\<forall>i \<in> set is. (i + 1) * n \<le> length toks"
    "prev = None \<longrightarrow> ph = none_hash H" "\<forall>q. prev = Some q \<longrightarrow> ph = q \<and> (is \<noteq> [] \<longrightarrow> q \<noteq> none_hash H)"
  shows "record_block_hashes H n toks x ph is recorded =
     Inr (recorded @ chain_hashes H prev x (map (\<lambda>i. take n (drop (i * n) toks)) is))"
  using assms
proof (induction "is" arbitrary: prev ph recorded)
  case (Cons i "is")
  let ?b = "take n (drop (i * n) toks)"
  let ?h = "step_hash H prev ?b x"
  have h: "hash_block_tokens H (ph = none_hash H) (Some ph) ?b x = ?h"
    using Cons.prems(3,4) by (cases prev) (auto simp: hash_block_tokens_def step_hash_def)
  have "record_block_hashes H n toks x ?h is (recorded @ [?h]) =
      Inr ((recorded @ [?h]) @ chain_hashes H (Some ?h) x (map (\<lambda>i. take n (drop (i * n) toks)) is))"
    using Cons.prems(1,2) by (intro Cons.IH) (auto simp: collision_free_Cons)
  then show ?case using Cons.prems(2) by (simp add: h Let_def)
qed simp

lemma update_seq_hashes_ok:
  assumes H: "collision_free H (seq_hashes H (ct_block_size t) (sq_token_ids seq) (sq_extra_hash seq))"
    and t: "ct_enable_caching t" "0 < ct_block_size t"
    and old: "dict_get_default (ct_seq_id_to_blocks_hashes t) (sq_seq_id seq) [] = seq_hashes H (ct_block_size t) old (sq_extra_hash seq)"
    and grow: "sq_token_ids seq = old @ new"
  shows "ComputedBlocksTracker_update_seq_hashes H t seq = Inr (t\<lparr>ct_seq_id_to_blocks_hashes :=
     dict_set (sq_seq_id seq) (seq_hashes H (ct_block_size t) (sq_token_ids seq) (sq_extra_hash seq)) (ct_seq_id_to_blocks_hashes t)\<rparr>)"
proof -
  let ?n = "ct_block_size t" and ?toks = "sq_token_ids seq" and ?x = "sq_extra_hash seq"
  let ?rec = "seq_hashes H ?n old ?x"
  let ?new = "map (\<lambda>i. take ?n (drop (i * ?n) ?toks)) [length old div ?n..<length ?toks div ?n]"
  have len: "length ?rec = length old div ?n" using t(2) by (simp add: seq_hashes_def full_chunks_length)
  have le: "length old div ?n * ?n \<le> length ?toks" using grow by (metis div_times_less_eq_dividend le_add1 le_trans length_append)
  let ?prev = "if ?rec = [] then None else Some (last ?rec)"
  let ?ph = "if length ?rec = 0 then none_hash H else last ?rec"
  have "?prev = (if full_chunks ?n old = [] then None else Some (last ?rec))"
    by (simp add: seq_hashes_def)
  then have whole: "seq_hashes H ?n ?toks ?x = ?rec @ chain_hashes H ?prev ?x ?new"
    unfolding seq_hashes_def chunks_prefix[OF t(2) grow[symmetric]] chain_hashes_append by simp
  note cf = collision_free_append[OF H[unfolded whole]]
  have "\<forall>i \<in> set [length old div ?n..<length ?toks div ?n]. (i + 1) * ?n \<le> length ?toks"
  proof
    fix i assume "i \<in> set [length old div ?n..<length ?toks div ?n]"
    then have "(i + 1) * ?n \<le> length ?toks div ?n * ?n" by (intro mult_le_mono1) auto
    also have "\<dots> \<le> length ?toks" by simp
    finally show "(i + 1) * ?n \<le> length ?toks" .
  qed
  then have r: "record_block_hashes H ?n ?toks ?x ?ph [length old div ?n..<length ?toks div ?n] ?rec =
      Inr (?rec @ chain_hashes H ?prev ?x ?new)"
    using cf by (intro record_block_hashes_ok) auto
  with whole have "record_block_hashes H ?n ?toks ?x ?ph [length ?rec..<length ?toks div ?n] ?rec = Inr (seq_hashes H ?n ?toks ?x)"
    unfolding len by simp
  moreover have "py_assert (length ?toks \<ge> length ?rec * ?n) = Inr ()" using le len by simp
  ultimately show ?thesis using t
    unfolding ComputedBlocksTracker_update_seq_hashes_def Let_def old by (simp del: length_0_conv)
qed

section \<open>The content hash of a chain of blocks\<close>

text \<open>Two pools that differ only in the hashes the blocks have memoised.\<close>

definition forget_hash_memo :: "prefix_block \<Rightarrow> prefix_block" where
  "forget_hash_memo b = b\<lparr>pb_cached_content_hash := None\<rparr>"

definition memo_only :: "prefix_block BlockPool \<Rightarrow> prefix_block BlockPool \<Rightarrow> bool" where
  "memo_only p p' \<longleftrightarrow> bp_free_ids p' = bp_free_ids p \<and> bp_pool_size p' = bp_pool_size p \<and>
     bp_block_size p' = bp_block_size p \<and> map forget_hash_memo (bp_pool p') = map forget_hash_memo (bp_pool p)"

lemma memo_only_nth:
  assumes "memo_only p p'" "r < length (bp_pool p)"
  shows "r < length (bp_pool p')" "forget_hash_memo (bp_pool p' ! r) = forget_hash_memo (bp_pool p ! r)"
proof -
  have m: "map forget_hash_memo (bp_pool p') = map forget_hash_memo (bp_pool p)" using assms(1) by (simp add: memo_only_def)
  then have l: "length (bp_pool p') = length (bp_pool p)" by (metis length_map)
  then show "r < length (bp_pool p')" using assms(2) by simp
  show "forget_hash_memo (bp_pool p' ! r) = forget_hash_memo (bp_pool p ! r)"
    using m l assms(2) by (metis nth_map)
qed

lemma memo_only_set:
  assumes "memo_only p p'" "r < length (bp_pool p')"
  shows "memo_only p (pool_set p' r ((bp_pool p' ! r)\<lparr>pb_cached_content_hash := h\<rparr>))"
proof -
  have "map forget_hash_memo ((bp_pool p')[r := (bp_pool p' ! r)\<lparr>pb_cached_content_hash := h\<rparr>]) = map forget_hash_memo (bp_pool p')"
    using assms(2) by (auto simp: map_update forget_hash_memo_def intro!: nth_equalityI simp: nth_list_update)
  then show ?thesis using assms(1) by (simp add: memo_only_def pool_set_def)
qed

fun coherent :: "py_hash \<Rightarrow> prefix_block list \<Rightarrow> int option \<Rightarrow> int option \<Rightarrow> block_ref list \<Rightarrow> bool" where
  "coherent H pool prev x [] = True"
| "coherent H pool prev x (r # rs) \<longleftrightarrow>
     (let b = pool ! r; h = step_hash H prev (bl_token_ids b) x
      in is_full b \<and> pb_extra_hash b = x \<and> (pb_cached_content_hash b \<noteq> None \<longrightarrow> pb_cached_content_hash b = Some h) \<and>
         coherent H pool (Some h) x rs)"

abbreviation chain_tokens :: "prefix_block list \<Rightarrow> block_ref list \<Rightarrow> int list list" where
  "chain_tokens pool rs \<equiv> map (\<lambda>r. bl_token_ids (pool ! r)) rs"

lemma coherent_snoc:
  "coherent H pool prev x (rs @ [r]) \<longleftrightarrow> coherent H pool prev x rs \<and>
     coherent H pool (if rs = [] then prev else Some (last (chain_hashes H prev x (chain_tokens pool rs)))) x [r]"
  by (induction rs arbitrary: prev) (auto simp: Let_def)

lemma content_hash_chain:
  shows "block_chain p r rs \<Longrightarrow> coherent H (bp_pool p) None x rs \<Longrightarrow>
     collision_free H (chain_hashes H None x (chain_tokens (bp_pool p) rs)) \<Longrightarrow> length rs \<le> fuel \<Longrightarrow>
     \<exists>p'. content_hash_from H fuel p r = Inr (Some (last (chain_hashes H None x (chain_tokens (bp_pool p) rs))), p') \<and> memo_only p p'"
proof (induction arbitrary: fuel rule: block_chain.induct)
  case (first r)
  let ?b = "bp_pool p ! r" and ?h = "step_hash H None (bl_token_ids (bp_pool p ! r)) x"
  obtain f where f: "fuel = Suc f" using first(5) by (cases fuel) auto
  have b: "is_full ?b" "pb_extra_hash ?b = x" "pb_cached_content_hash ?b \<noteq> None \<longrightarrow> pb_cached_content_hash ?b = Some ?h"
    using first(3) by (auto simp: Let_def)
  have same: "memo_only p p" by (simp add: memo_only_def)
  show ?case
  proof (cases "pb_cached_content_hash ?b")
    case None
    then have "content_hash_from H fuel p r = Inr (Some ?h, pool_set p r (?b\<lparr>pb_cached_content_hash := Some ?h\<rparr>))"
      using f first(1,2) b by (simp add: hash_block_tokens_def step_hash_def Let_def)
    then show ?thesis using memo_only_set[OF same first(1)] by auto
  next
    case (Some h)
    then show ?thesis using f first(1) b same by auto
  qed
next
  case (next_block r q rs)
  let ?b = "bp_pool p ! r" and ?ph = "last (chain_hashes H None x (chain_tokens (bp_pool p) rs))"
  have ne: "rs \<noteq> []" using next_block(3) by (cases rule: block_chain.cases) auto
  let ?h = "step_hash H (Some ?ph) (bl_token_ids ?b) x"
  have co: "coherent H (bp_pool p) None x rs" "is_full ?b" "pb_extra_hash ?b = x"
    "pb_cached_content_hash ?b \<noteq> None \<longrightarrow> pb_cached_content_hash ?b = Some ?h"
    using next_block(5) ne by (auto simp: coherent_snoc Let_def)
  obtain f where f: "fuel = Suc f" "length rs \<le> f" using next_block(7) by (cases fuel) auto
  have lst: "last (chain_hashes H None x (chain_tokens (bp_pool p) (rs @ [r]))) = ?h"
    using ne by (simp add: chain_hashes_append)
  have cf: "collision_free H (chain_hashes H None x (chain_tokens (bp_pool p) rs))" and nn: "?ph \<noteq> none_hash H"
    using collision_free_append[OF next_block(6)[unfolded map_append chain_hashes_append]] ne by auto
  have same: "memo_only p p" by (simp add: memo_only_def)
  show ?case
  proof (cases "pb_cached_content_hash ?b")
    case None
    obtain p1 where p1: "content_hash_from H f p q = Inr (Some ?ph, p1)" "memo_only p p1"
      using next_block(4)[OF co(1) cf f(2)] by auto
    note m = memo_only_nth[OF p1(2) next_block(1)]
    have "content_hash_from H fuel p r = Inr (Some ?h, pool_set p1 r ((bp_pool p1 ! r)\<lparr>pb_cached_content_hash := Some ?h\<rparr>))"
      using f(1) next_block(1,2) None co(2,3) p1(1) nn m(1) by (simp add: hash_block_tokens_def step_hash_def Let_def)
    then show ?thesis unfolding lst using memo_only_set[OF p1(2) m(1)] by auto
  next
    case (Some h)
    then show ?thesis unfolding lst using f(1) next_block(1) co same by auto
  qed
qed

lemma content_hash_of_chain:
  assumes "block_chain p r rs" "coherent H (bp_pool p) None x rs" "collision_free H (chain_hashes H None x (chain_tokens (bp_pool p) rs))"
  shows "\<exists>p'. PrefixCachingBlock_content_hash H p r =
     Inr (Some (last (chain_hashes H None x (chain_tokens (bp_pool p) rs))), p') \<and> memo_only p p'"
  unfolding PrefixCachingBlock_content_hash_def
  by (rule content_hash_chain[OF assms]) (rule block_chain_length[OF assms(1)])

section \<open>The tracker and the blocks agree\<close>

lemma full_chunks_concat:
  assumes "0 < n" "\<forall>l \<in> set ls. length l = n"
  shows "full_chunks n (concat ls @ rest) = ls @ full_chunks n rest"
  using assms by (induction ls) (simp_all add: full_chunks.simps[of n "_ @ _"])

lemma coherent_full: "coherent H pool prev x rs \<Longrightarrow> q \<in> set rs \<Longrightarrow> is_full (pool ! q)"
  by (induction rs arbitrary: prev) (auto simp: Let_def)

lemma tracker_hash_of_chain:
  assumes chain: "block_chain p r rs" "coherent H (bp_pool p) None x rs" "\<forall>q \<in> set rs. bl_block_size (bp_pool p ! q) = int n"
    and seq: "sq_token_ids seq = concat (chain_tokens (bp_pool p) rs) @ rest" "sq_extra_hash seq = x"
    and t: "ct_enable_caching t" "ct_block_size t = n" "0 < n" "sq_token_ids seq = old @ new"
      "dict_get_default (ct_seq_id_to_blocks_hashes t) (sq_seq_id seq) [] = seq_hashes H n old x"
    and H: "collision_free H (seq_hashes H n (sq_token_ids seq) x)"
  shows "\<exists>t' hs h p'. ComputedBlocksTracker_update_seq_hashes H t seq = Inr t' \<and>
     dict_get (ct_seq_id_to_blocks_hashes t') (sq_seq_id seq) = Some hs \<and> length hs = length (sq_token_ids seq) div n \<and>
     length rs \<le> length hs \<and> hs ! (length rs - 1) = h \<and>
     PrefixCachingBlock_content_hash H p r = Inr (Some h, p') \<and> memo_only p p'"
proof -
  let ?ls = "chain_tokens (bp_pool p) rs" and ?hs = "seq_hashes H n (sq_token_ids seq) x"
  have ne: "rs \<noteq> []" using chain(1) by (cases rule: block_chain.cases) auto
  have "\<forall>l \<in> set ?ls. length l = n"
    using chain(3) coherent_full[OF chain(2)] by (auto simp: is_full_def num_empty_slots_def)
  then have c: "full_chunks n (sq_token_ids seq) = ?ls @ full_chunks n rest" unfolding seq(1) by (rule full_chunks_concat[OF t(3)])
  have hs: "?hs = chain_hashes H None x ?ls @ chain_hashes H (Some (last (chain_hashes H None x ?ls))) x (full_chunks n rest)"
    unfolding seq_hashes_def c chain_hashes_append using ne by simp
  have "collision_free H (chain_hashes H None x ?ls)" using collision_free_append[OF H[unfolded hs]] ..
  then obtain p' where p': "PrefixCachingBlock_content_hash H p r = Inr (Some (last (chain_hashes H None x ?ls)), p')" "memo_only p p'"
    using content_hash_of_chain[OF chain(1,2)] by blast
  have l: "length ?hs = length (sq_token_ids seq) div n" using t(3) by (simp add: seq_hashes_def full_chunks_length)
  have le: "length rs \<le> length ?hs" unfolding hs by simp
  have "?hs ! (length rs - 1) = last (chain_hashes H None x ?ls)" unfolding hs using ne by (simp add: nth_append last_conv_nth)
  moreover have "ComputedBlocksTracker_update_seq_hashes H t seq =
      Inr (t\<lparr>ct_seq_id_to_blocks_hashes := dict_set (sq_seq_id seq) ?hs (ct_seq_id_to_blocks_hashes t)\<rparr>)"
    using update_seq_hashes_ok[of H t seq old new] H t seq(2) by simp
  ultimately show ?thesis using p' l le
    by (intro exI[of _ "t\<lparr>ct_seq_id_to_blocks_hashes := dict_set (sq_seq_id seq) ?hs (ct_seq_id_to_blocks_hashes t)\<rparr>"] exI[of _ ?hs]
        exI[of _ "last (chain_hashes H None x ?ls)"] exI[of _ p']) simp
qed

end
