(* ===== verification/Prefix_Properties.thy ===== *)
theory Prefix_Properties
  imports Prefix_Runs Prefix_Lookup Prefix_Trackers
begin

text \<open>
  The properties of the prefix-caching allocator and its trackers, each with its instance on a
  small allocator: block 1 is in use and cached, block 2 waits in the evictor, block 3 is free.
\<close>

section \<open>An allocator in the middle of its life\<close>

definition example_hash :: py_hash where
  "example_hash = \<lparr>hash_tuple = (\<lambda>f ph toks x. 1 + \<bar>case ph of None \<Rightarrow> 0 | Some h \<Rightarrow> 31 * h\<bar> + \<bar>sum_list toks\<bar>), none_hash = 0\<rparr>"

definition example_runtime :: "((score_key, int \<times> int) rbt) runtime" where
  "example_runtime = \<lparr>rt_ops = rbt_sorted_dict, rt_exp = step_exp, rt_hash = example_hash\<rparr>"

interpretation rbt_prefix: prefix_env example_runtime RBT.entries
  unfolding prefix_env_def example_runtime_def by (simp add: rbt_ml.lruml_env_axioms)

definition example_object :: "int list \<Rightarrow> int option \<Rightarrow> int option \<Rightarrow> prefix_block" where
  "example_object toks b h = \<lparr>bl_prev_block = None, bl_token_ids = toks, bl_block_size = 2, bl_block_id = b,
     pb_cached_content_hash = h, pb_cached_num_tokens_total = int (length toks), pb_last_accessed = -1,
     pb_computed = False, pb_extra_hash = None\<rparr>"

definition example_lru :: LRUEvictor where
  "example_lru = LRUEvictor_add LRUEvictor_init 2 20 2 5 None"

definition prefix_example :: "((score_key, int \<times> int) rbt) PrefixCachingBlockAllocator" where
  "prefix_example = \<lparr>pa_block_table = [(1, 0), (2, 1)], pa_block_size = 2, pa_cached_blocks = [(12, 1), (20, 2)],
     pa_touched_blocks = [],
     pa_block_tracker = [(1, \<lparr>bt_active = True, bt_last_accessed = -1, bt_computed = True, bt_cache_hint = None\<rparr>),
        (2, BlockTracker_init), (3, BlockTracker_init)],
     pa_hashless = \<lparr>na_free_block_indices = [3], na_all_block_indices = [1, 2, 3],
        na_refcounter = [(1, 1), (2, 0), (3, 0)], na_block_size = 2, na_cow_tracker = CopyOnWriteTracker_init,
        na_block_pool = \<lparr>bp_block_size = 2, bp_pool_size = 3, bp_free_ids = [1, 2],
          bp_pool = [example_object [5, 6] (Some 1) (Some 12), example_object [] None None, example_object [] None None]\<rparr>\<rparr>,
     pa_eviction_algorithm = ''lru'', pa_eviction_algorithm_config = '''',
     pa_evictor = LRU example_lru, pa_cow_tracker = CopyOnWriteTracker_init,
     pa_metric_data = CacheMetricData_init, pa_scheduler_post_warmup_metric_data = CacheMetricData_init\<rparr>"

lemma example_lru_ok: "lru_inv example_lru" "lru_view example_lru = [2 \<mapsto> 20]" "LRUEvictor_num_blocks example_lru = 1"
proof -
  show "lru_inv example_lru" unfolding example_lru_def
    by (intro lru_inv_add lru_inv_init) (auto simp: lru_can_add_def LRUEvictor_init_def)
  show "lru_view example_lru = [2 \<mapsto> 20]" "LRUEvictor_num_blocks example_lru = 1"
    by (simp_all add: example_lru_def LRUEvictor_add_def LRUEvictor_init_def LRUEvictor_cleanup_if_necessary_def
        CLEANUP_THRESHOLD_def lru_view_def hash_view_def LRUEvictor_num_blocks_def fun_eq_iff)
qed

lemma prefix_example_views:
  "pa_refs prefix_example = [1 \<mapsto> 1, 2 \<mapsto> 0, 3 \<mapsto> 0]" "pa_view prefix_example = [2 \<mapsto> 20]"
  "pa_cached prefix_example = [12 \<mapsto> 1, 20 \<mapsto> 2]" "pa_free prefix_example = [3]"
  "PrefixCachingBlockAllocator_get_num_free_blocks prefix_example = 2"
  by (auto simp: prefix_example_def pa_refs_def pa_view_def pa_cached_def example_lru_ok fun_eq_iff
      PrefixCachingBlockAllocator_get_num_free_blocks_def NaiveBlockAllocator_get_num_free_blocks_def)

lemma prefix_example_inv: "pa_inv RBT.entries prefix_example"
proof -
  have "pa_states_ok (pa_refs prefix_example) (pa_view prefix_example) (pa_cached prefix_example) (set (pa_free prefix_example))
      (dict_get (pa_block_tracker prefix_example))"
    unfolding prefix_example_views
    by (rule pa_states_okI) (auto simp: prefix_example_def BlockTracker_init_def split: if_splits)
  moreover have "ids_ok (pa_hashless prefix_example)"
    by (auto simp: ids_ok_def prefix_example_def rc_ok_def dict_ok_def split: if_splits)
  ultimately show ?thesis unfolding pa_inv_def prefix_example_views(3)
    by (auto simp: prefix_example_def pool_ok_def example_lru_ok(1) dict_ok_def ran_def split: if_splits)
qed

section \<open>Properties\<close>

text \<open>
  C33. Allocation of a physical block. An id is handed out exactly when the allocator reports a
  free block: it was referenced by nobody and has one reference afterwards, and it is in no cache
  entry. While the hashless list has blocks the cache stays as it is; otherwise the evictor's
  victim is taken and exactly its cache entry disappears. Without a free block the operation
  raises NoFreeBlocksError.
\<close>

theorem PrefixCachingBlockAllocator_allocate_block_id_contract:
  assumes "prefix_env E items" "pa_inv items a"
  shows "if PrefixCachingBlockAllocator_get_num_free_blocks a = 0
     then PrefixCachingBlockAllocator_allocate_block_id E now a = Inl NoFreeBlocksError
     else \<exists>b a'. PrefixCachingBlockAllocator_allocate_block_id E now a = Inr (b, a') \<and> pa_inv items a' \<and>
       pa_refs a b = Some 0 \<and> pa_refs a' = (pa_refs a)(b \<mapsto> 1) \<and> b \<notin> ran (pa_cached a') \<and>
       Suc (PrefixCachingBlockAllocator_get_num_free_blocks a') = PrefixCachingBlockAllocator_get_num_free_blocks a \<and>
       (if pa_free a \<noteq> [] then pa_cached a' = pa_cached a
        else \<exists>h. pa_view a b = Some h \<and> pa_cached a' = (pa_cached a)(h := None))"
  using prefix_env.take_block_id_ok[OF assms, of now] prefix_env.take_block_id_none[OF assms, of now]
  by (auto simp: prefix_env.alloc_outcome_def[OF assms(1)] split: if_splits)

theorem PrefixCachingBlockAllocator_allocate_block_id_contract_witness:
  "\<exists>b a'. PrefixCachingBlockAllocator_allocate_block_id example_runtime 9 prefix_example = Inr (b, a') \<and>
     pa_refs a' b = Some 1 \<and> pa_cached a' 12 = Some 1"
  using PrefixCachingBlockAllocator_allocate_block_id_contract[OF rbt_prefix.prefix_env_axioms prefix_example_inv, of 9]
  by (auto simp: prefix_example_views)

text \<open>
  C34. A cache hit. Allocating a full block whose content hash is cached succeeds without taking
  any block: the new object points to the cached block, which gains one reference and leaves the
  evictor if it was waiting there, the cache and the free list stay as they are, every object in
  use is unchanged, and the query counts as a hit.
\<close>

theorem PrefixCachingBlockAllocator_allocate_immutable_block_hit:
  assumes "prefix_env E items" "pa_inv items a" "prev_ready (rt_hash E) (pa_pool a) prev"
    "int (length toks) = pa_block_size a" "h = next_hash (rt_hash E) (pa_pool a) prev toks x" "pa_cached a h = Some b"
  shows "\<exists>r a' n. PrefixCachingBlockAllocator_allocate_immutable_block E now a prev toks x = Inr (r, a') \<and> pa_inv items a' \<and>
     new_object a r a' prev toks x b h \<and> pa_refs a b = Some n \<and> pa_refs a' = (pa_refs a)(b \<mapsto> n + 1) \<and>
     pa_view a' = (pa_view a)(b := None) \<and> pa_cached a' = pa_cached a \<and> pa_free a' = pa_free a \<and>
     pa_metric_data a' = CacheMetricData_query (pa_metric_data a) True"
  by (rule prefix_env.allocate_immutable_hit[OF assms])

theorem PrefixCachingBlockAllocator_allocate_immutable_block_hit_witness:
  "\<exists>r a'. PrefixCachingBlockAllocator_allocate_immutable_block example_runtime 9 prefix_example None [5, 6] None = Inr (r, a') \<and>
     pa_refs a' 1 = Some 2"
proof -
  have h: "12 = next_hash (rt_hash example_runtime) (pa_pool prefix_example) None [5, 6] None"
    by (simp add: next_hash_def example_runtime_def example_hash_def)
  from PrefixCachingBlockAllocator_allocate_immutable_block_hit[OF rbt_prefix.prefix_env_axioms prefix_example_inv _ _ h, of 1 9]
  show ?thesis by (auto simp: prefix_example_views prev_ready_def prefix_example_def[THEN arg_cong[of _ _ pa_block_size]])
qed

text \<open>
  C35. A cache miss. Allocating a full block whose content hash is not cached, with a free block
  left, takes one unreferenced block, from the free list while it has one and from the evictor
  otherwise, and enters it into the cache under the content hash of the new object.
\<close>

theorem PrefixCachingBlockAllocator_allocate_immutable_block_miss:
  assumes "prefix_env E items" "pa_inv items a" "prev_ready (rt_hash E) (pa_pool a) prev"
    "int (length toks) = pa_block_size a" "toks \<noteq> []" "h = next_hash (rt_hash E) (pa_pool a) prev toks x" "pa_cached a h = None"
    "0 < PrefixCachingBlockAllocator_get_num_free_blocks a"
  shows "\<exists>r a' b. PrefixCachingBlockAllocator_allocate_immutable_block E now a prev toks x = Inr (r, a') \<and> pa_inv items a' \<and>
     new_object a r a' prev toks x b h \<and> pa_refs a b = Some 0 \<and> pa_refs a' = (pa_refs a)(b \<mapsto> 1) \<and>
     pa_view a' = (pa_view a)(b := None) \<and>
     (if pa_free a \<noteq> [] then pa_free a = b # pa_free a' \<and> pa_cached a' = (pa_cached a)(h \<mapsto> b)
      else pa_free a' = [] \<and> (\<exists>h'. pa_view a b = Some h' \<and> pa_cached a' = (pa_cached a)(h' := None, h \<mapsto> b))) \<and>
     pa_metric_data a' = CacheMetricData_query (pa_metric_data a) False"
  by (rule prefix_env.allocate_immutable_miss[OF assms])

theorem PrefixCachingBlockAllocator_allocate_immutable_block_miss_witness:
  "\<exists>r a'. PrefixCachingBlockAllocator_allocate_immutable_block example_runtime 9 prefix_example None [7, 9] None = Inr (r, a') \<and>
     pa_cached a' 17 = Some 3"
proof -
  have h: "17 = next_hash (rt_hash example_runtime) (pa_pool prefix_example) None [7, 9] None"
    by (simp add: next_hash_def example_runtime_def example_hash_def)
  from PrefixCachingBlockAllocator_allocate_immutable_block_miss[OF rbt_prefix.prefix_env_axioms prefix_example_inv _ _ _ h, of 9]
  show ?thesis by (auto simp: prefix_example_views prev_ready_def prefix_example_def[THEN arg_cong[of _ _ pa_block_size]])
qed

text \<open>
  C36. What is freed is found again. When the last reference to a cached block is freed, the block
  waits with no reference, and allocating the same content again takes that very block back: the
  reference counts, the cache and the free list are those from before.
\<close>

theorem PrefixCachingBlockAllocator_freed_block_is_found_again:
  assumes "prefix_env E items" "pa_inv items a"
    "r \<in> pool_live (pa_pool a)" "bl_block_id (bp_pool (pa_pool a) ! r) = Some b"
    "pb_cached_content_hash (bp_pool (pa_pool a) ! r) = Some h" "pa_cached a h = Some b" "pa_refs a b = Some 1"
    "rest_can_add a r b h" "prev_ready (rt_hash E) (pa_pool a) prev" "prev \<noteq> Some r"
    "int (length toks) = pa_block_size a" "h = next_hash (rt_hash E) (pa_pool a) prev toks x"
  shows "\<exists>a1 s a2. PrefixCachingBlockAllocator_free E now a r False = Inr a1 \<and> pa_refs a1 b = Some 0 \<and>
     PrefixCachingBlockAllocator_allocate_immutable_block E now' a1 prev toks x = Inr (s, a2) \<and> pa_inv items a2 \<and>
     bl_block_id (bp_pool (pa_pool a2) ! s) = Some b \<and> pa_refs a2 = pa_refs a \<and> pa_cached a2 = pa_cached a \<and> pa_free a2 = pa_free a"
  by (rule prefix_env.free_then_allocate[OF assms])

theorem PrefixCachingBlockAllocator_freed_block_is_found_again_witness:
  "\<exists>a1 s a2. PrefixCachingBlockAllocator_free example_runtime 9 prefix_example 0 False = Inr a1 \<and>
     PrefixCachingBlockAllocator_allocate_immutable_block example_runtime 10 a1 None [5, 6] None = Inr (s, a2) \<and>
     bl_block_id (bp_pool (pa_pool a2) ! s) = Some 1"
proof -
  have h: "12 = next_hash (rt_hash example_runtime) (pa_pool prefix_example) None [5, 6] None"
    by (simp add: next_hash_def example_runtime_def example_hash_def)
  have can: "rest_can_add prefix_example 0 1 12"
    by (simp add: rest_can_add_def prefix_example_def example_lru_def LRUEvictor_add_def LRUEvictor_init_def
        LRUEvictor_cleanup_if_necessary_def CLEANUP_THRESHOLD_def lru_can_add_def heappush_def)
  have obj: "0 \<in> pool_live (pa_pool prefix_example)" "bl_block_id (bp_pool (pa_pool prefix_example) ! 0) = Some 1"
    "pb_cached_content_hash (bp_pool (pa_pool prefix_example) ! 0) = Some 12" "pa_block_size prefix_example = 2"
    by (simp_all add: prefix_example_def pool_live_def example_object_def)
  from PrefixCachingBlockAllocator_freed_block_is_found_again[OF rbt_prefix.prefix_env_axioms prefix_example_inv obj(1-3) _ _ can _ _ _ h, of 9 10]
  show ?thesis by (auto simp: prefix_example_views prev_ready_def obj(4))
qed

text \<open>
  C37. No block is lost. In every state that runs from the constructor reach (by allocating mutable
  and immutable blocks, appending tokens, freeing, marking blocks as accessed or computed, and
  resetting, under the conditions of \<open>allocator_run\<close>; fork and swapping are not steps), the
  reference count of a block is the number of block objects in use that point to it, and the free
  blocks the allocator reports together with the blocks that some object holds are all the blocks
  it was built with: a block that its last holder frees is available again.
\<close>

theorem PrefixCachingBlockAllocator_no_block_lost:
  assumes "prefix_env E items" "allocator_run E N a"
  shows "(\<forall>b. int (card (holders_of a b)) = (case pa_refs a b of None \<Rightarrow> 0 | Some n \<Rightarrow> n)) \<and>
     PrefixCachingBlockAllocator_get_num_free_blocks a + card {b. holders_of a b \<noteq> {}} = N \<and>
     PrefixCachingBlockAllocator_get_num_total_blocks a = N"
  using prefix_env.run_accounting[OF assms] by blast

definition last_reference_ok :: "'d PrefixCachingBlockAllocator \<Rightarrow> block_ref \<Rightarrow> bool" where
  "last_reference_ok a r \<longleftrightarrow> (case bl_block_id (bp_pool (pa_pool a) ! r) of None \<Rightarrow> True | Some b \<Rightarrow>
     (case dict_get (pa_block_tracker a) b of None \<Rightarrow> True
      | Some t \<Rightarrow> (case pb_cached_content_hash (bp_pool (pa_pool a) ! r) of None \<Rightarrow> True
          | Some h \<Rightarrow> evictor_can_add (pa_evictor a) b h (pb_cached_num_tokens_total (bp_pool (pa_pool a) ! r))
              (bt_last_accessed t) (bt_cache_hint t))))"

theorem PrefixCachingBlockAllocator_no_block_lost_witness:
  "\<exists>a r a1 a2. PrefixCachingBlockAllocator_init example_runtime 0 2 2 None ''lru'' '''' = Inr a \<and>
     PrefixCachingBlockAllocator_allocate_immutable_block example_runtime 1 a None [5, 6] None = Inr (r, a1) \<and>
     card {b. holders_of a1 b \<noteq> {}} = 1 \<and>
     PrefixCachingBlockAllocator_free example_runtime 2 a1 r False = Inr a2 \<and> card {b. holders_of a2 b \<noteq> {}} = 0 \<and>
     PrefixCachingBlockAllocator_get_num_free_blocks a2 = 2"
proof -
  have "run_shows (PrefixCachingBlockAllocator_init example_runtime 0 2 2 None ''lru'' '''') (\<lambda>a. pa_block_size a = 2 \<and>
      PrefixCachingBlockAllocator_get_num_free_blocks a = 2 \<and>
      run_shows (PrefixCachingBlockAllocator_allocate_immutable_block example_runtime 1 a None [5, 6] None) (\<lambda>x.
        fst x < bp_pool_size (pa_pool (snd x)) \<and> fst x \<notin> set (bp_free_ids (pa_pool (snd x))) \<and> last_reference_ok (snd x) (fst x) \<and>
        PrefixCachingBlockAllocator_get_num_free_blocks (snd x) = 1 \<and>
        run_shows (PrefixCachingBlockAllocator_free example_runtime 2 (snd x) (fst x) False) (\<lambda>a2.
          PrefixCachingBlockAllocator_get_num_free_blocks a2 = 2)))"
    by code_simp
  then obtain a x a2 where a: "PrefixCachingBlockAllocator_init example_runtime 0 2 2 None ''lru'' '''' = Inr a" "pa_block_size a = 2"
      "PrefixCachingBlockAllocator_get_num_free_blocks a = 2"
    and x: "PrefixCachingBlockAllocator_allocate_immutable_block example_runtime 1 a None [5, 6] None = Inr x"
      "fst x < bp_pool_size (pa_pool (snd x))" "fst x \<notin> set (bp_free_ids (pa_pool (snd x)))" "last_reference_ok (snd x) (fst x)"
      "PrefixCachingBlockAllocator_get_num_free_blocks (snd x) = 1"
    and a2: "PrefixCachingBlockAllocator_free example_runtime 2 (snd x) (fst x) False = Inr a2"
      "PrefixCachingBlockAllocator_get_num_free_blocks a2 = 2"
    by (elim run_showsE conjE) (rule that; assumption)
  have r0: "allocator_run example_runtime 2 a"
    using a(1) by (intro allocator_run.start[of _ 0 _ 2 None "''lru''" "''''"]) (simp_all add: evictor_settings_ok_def)
  have r1: "allocator_run example_runtime 2 (snd x)"
    by (rule allocator_run.immutable[OF r0, of None "[5, 6]" None 1 "fst x"]) (use a x(1) in \<open>simp_all add: prev_ready_def\<close>)
  have r2: "allocator_run example_runtime 2 a2"
    by (rule allocator_run.free[OF r1 _ _ a2(1)])
      (use x(2-4) in \<open>auto simp: pool_live_def rest_can_add_def last_reference_ok_def\<close>)
  note lost = PrefixCachingBlockAllocator_no_block_lost[OF rbt_prefix.prefix_env_axioms]
  show ?thesis using a(1) x(1) a2 lost[OF r1] lost[OF r2] x(5)
    by (intro exI[of _ a] exI[of _ "fst x"] exI[of _ "snd x"] exI[of _ a2]) simp
qed

text \<open>
  Construction. With distinct ids and settings its evictor can work with, whatever the constructor
  returns is well-formed: it satisfies the invariant, caches nothing and refers to no block.
\<close>

theorem PrefixCachingBlockAllocator_init_well_formed:
  assumes "prefix_env E items" "PrefixCachingBlockAllocator_init E now num_blocks block_size block_ids alg config = Inr a"
    "\<forall>l. block_ids = Some l \<longrightarrow> distinct l" "0 < num_blocks" "evictor_settings_ok E now alg config"
  shows "pa_inv items a \<and> (\<forall>b n. pa_refs a b = Some n \<longrightarrow> n = 0) \<and> pa_cached a = Map.empty \<and>
     int (PrefixCachingBlockAllocator_get_num_free_blocks a) = num_blocks \<and>
     pa_view a = Map.empty \<and> pa_block_size a = block_size"
  using prefix_env.pa_init_inv[OF assms] prefix_env.num_blocks_zero[OF assms(1), of a] by auto

definition fresh_example :: "((score_key, int \<times> int) rbt) PrefixCachingBlockAllocator result" where
  "fresh_example = PrefixCachingBlockAllocator_init example_runtime 0 1 2 (Some [4]) ''lru'' ''''"

theorem PrefixCachingBlockAllocator_init_well_formed_witness:
  "\<exists>a. fresh_example = Inr a \<and> pa_inv RBT.entries a"
proof -
  have "\<not> isl fresh_example" by code_simp
  then obtain a where a: "fresh_example = Inr a" by (metis sum.collapse(2))
  have "pa_inv RBT.entries a"
    using PrefixCachingBlockAllocator_init_well_formed[OF rbt_prefix.prefix_env_axioms a[unfolded fresh_example_def]]
    by (simp add: evictor_settings_ok_def)
  with a show ?thesis by blast
qed

text \<open>
  C38. Reset. When no block is in use, resetting succeeds: the loop over the evictor ends, the cache
  is empty, every block is in the hashless free list, the evictor is the newly built one and holds
  nothing, every tracker is a new one, both metrics start anew and the invariant holds. The block
  objects, the block table and the set of touched blocks stay as they are. When a block is in use,
  the reset is refused and only the metrics are cleared. This holds for every evictor whose
  settings are accepted: lru and pdp, and ml with positive pdp settings and an initial policy the
  scheduler knows.
\<close>

theorem PrefixCachingBlockAllocator_reset_prefix_cache_correct:
  assumes "prefix_env E items" "pa_inv items a"
    "evictor_settings_ok E now (pa_eviction_algorithm a) (pa_eviction_algorithm_config a)"
    "new_evictor E now (pa_eviction_algorithm a) (pa_eviction_algorithm_config a)
       (int (PrefixCachingBlockAllocator_get_num_total_blocks a)) = Inr e"
  shows "if all_idle a
     then \<exists>a'. PrefixCachingBlockAllocator_reset_prefix_cache E now a = Inr (True, a') \<and> pa_inv items a' \<and>
       pa_cached a' = Map.empty \<and> pa_evictor a' = e \<and> pa_view a' = Map.empty \<and> pa_refs a' = pa_refs a \<and> set (pa_free a') = dom (pa_refs a) \<and>
       (\<forall>b. dict_get (pa_block_tracker a') b = (if b \<in> dom (pa_refs a) then Some BlockTracker_init else None)) \<and>
       pa_metric_data a' = CacheMetricData_init \<and> pa_scheduler_post_warmup_metric_data a' = CacheMetricData_init \<and>
       pa_pool a' = pa_pool a \<and> pa_block_table a' = pa_block_table a \<and> pa_touched_blocks a' = pa_touched_blocks a
     else PrefixCachingBlockAllocator_reset_prefix_cache E now a =
       Inr (False, a\<lparr>pa_metric_data := CacheMetricData_init, pa_scheduler_post_warmup_metric_data := CacheMetricData_init\<rparr>)"
proof (cases "all_idle a")
  case True
  then show ?thesis using prefix_env.reset_ok[OF assms(1,2) True assms(3,4)] by (simp only: if_True)
next
  case False
  then obtain b n where "pa_refs a b = Some n" "0 < n"
    using pa_inv_rc[OF assms(2)] by (auto simp: all_idle_def pa_refs_def rc_ok_def) (metis linorder_neqE_linordered_idom not_less)
  from prefix_env.reset_refused[OF assms(1,2) this, of now] False show ?thesis by (simp only: if_False)
qed

text \<open>
  The cached block 1 is freed and waits beside block 2, then the reset gives all blocks back. An
  allocator with the ml evictor is reset as well.
\<close>

theorem PrefixCachingBlockAllocator_reset_prefix_cache_correct_witness:
  "(\<exists>a1 a2. PrefixCachingBlockAllocator_free example_runtime 9 prefix_example 0 False = Inr a1 \<and>
      pa_cached a1 = [12 \<mapsto> 1, 20 \<mapsto> 2] \<and> pa_view a1 = [1 \<mapsto> 12, 2 \<mapsto> 20] \<and>
      PrefixCachingBlockAllocator_reset_prefix_cache example_runtime 10 a1 = Inr (True, a2) \<and>
      pa_cached a2 = Map.empty \<and> pa_view a2 = Map.empty \<and> set (pa_free a2) = {1, 2, 3}) \<and>
   (\<exists>a a2. PrefixCachingBlockAllocator_init example_runtime 0 2 2 None ''ml'' '''' = Inr a \<and>
      PrefixCachingBlockAllocator_reset_prefix_cache example_runtime 10 a = Inr (True, a2) \<and> pa_view a2 = Map.empty)"
proof
  have can: "rest_can_add prefix_example 0 1 12"
    by (simp add: rest_can_add_def prefix_example_def example_lru_def LRUEvictor_add_def LRUEvictor_init_def
        LRUEvictor_cleanup_if_necessary_def CLEANUP_THRESHOLD_def lru_can_add_def heappush_def)
  have obj: "0 \<in> pool_live (pa_pool prefix_example)" "bl_block_id (bp_pool (pa_pool prefix_example) ! 0) = Some 1"
    "pb_cached_content_hash (bp_pool (pa_pool prefix_example) ! 0) = Some 12"
    by (simp_all add: prefix_example_def pool_live_def example_object_def)
  obtain a1 where a1: "PrefixCachingBlockAllocator_free example_runtime 9 prefix_example 0 False = Inr a1" "pa_inv RBT.entries a1"
     "pa_refs a1 = (pa_refs prefix_example)(1 \<mapsto> 0)" "pa_view a1 = (pa_view prefix_example)(1 \<mapsto> 12)" "pa_cached a1 = pa_cached prefix_example"
    using rbt_prefix.free_cached_ok[OF prefix_example_inv obj, of 1 9 False] can by (auto simp: prefix_example_views)
  have "run_shows (PrefixCachingBlockAllocator_free example_runtime 9 prefix_example 0 False) (\<lambda>a1. pa_eviction_algorithm a1 = ''lru'')"
    by code_simp
  then have lru: "pa_eviction_algorithm a1 = ''lru''" using a1(1) by (simp add: run_shows_def)
  have idle: "all_idle a1" by (simp add: all_idle_def a1(3) prefix_example_views)
  have new: "new_evictor example_runtime 10 (pa_eviction_algorithm a1) (pa_eviction_algorithm_config a1)
      (int (PrefixCachingBlockAllocator_get_num_total_blocks a1)) = Inr (LRU LRUEvictor_init)"
    by (simp add: lru new_evictor_def make_evictor_def)
  have "evictor_settings_ok example_runtime 10 (pa_eviction_algorithm a1) (pa_eviction_algorithm_config a1)"
    by (simp add: evictor_settings_ok_def lru)
  from PrefixCachingBlockAllocator_reset_prefix_cache_correct[OF rbt_prefix.prefix_env_axioms a1(2) this new] idle
  obtain a2 where a2: "PrefixCachingBlockAllocator_reset_prefix_cache example_runtime 10 a1 = Inr (True, a2)"
      "pa_cached a2 = Map.empty" "pa_view a2 = Map.empty" "set (pa_free a2) = dom (pa_refs a1)"
    by (simp only: if_True) blast
  have "dom (pa_refs a1) = {1, 2, 3}" by (auto simp: a1(3) prefix_example_views)
  then show "\<exists>a1 a2. PrefixCachingBlockAllocator_free example_runtime 9 prefix_example 0 False = Inr a1 \<and>
      pa_cached a1 = [12 \<mapsto> 1, 20 \<mapsto> 2] \<and> pa_view a1 = [1 \<mapsto> 12, 2 \<mapsto> 20] \<and>
      PrefixCachingBlockAllocator_reset_prefix_cache example_runtime 10 a1 = Inr (True, a2) \<and>
      pa_cached a2 = Map.empty \<and> pa_view a2 = Map.empty \<and> set (pa_free a2) = {1, 2, 3}"
    using a1 a2 by (intro exI[of _ a1] exI[of _ a2]) (simp add: prefix_example_views fun_upd_twist)
next
  have "run_shows (PrefixCachingBlockAllocator_init example_runtime 0 2 2 None ''ml'' '''') (\<lambda>a.
      pa_eviction_algorithm a = ''ml'' \<and> pa_eviction_algorithm_config a = '''' \<and>
      PrefixCachingBlockAllocator_get_num_total_blocks a = 2 \<and> run_shows (new_evictor example_runtime 10 ''ml'' '''' 2) (\<lambda>_. True))"
    by code_simp
  then obtain a e where a: "PrefixCachingBlockAllocator_init example_runtime 0 2 2 None ''ml'' '''' = Inr a"
     "pa_eviction_algorithm a = ''ml''" "pa_eviction_algorithm_config a = ''''" "PrefixCachingBlockAllocator_get_num_total_blocks a = 2"
     "new_evictor example_runtime 10 ''ml'' '''' 2 = Inr e"
    by (elim run_showsE conjE) (rule that; assumption)
  have ok: "evictor_settings_ok example_runtime 0 ''ml'' ''''" "evictor_settings_ok example_runtime 10 ''ml'' ''''"
    by code_simp+
  have i: "pa_inv RBT.entries a" "all_idle a" using rbt_prefix.pa_init_inv[OF a(1) _ _ ok(1)] by (simp_all add: all_idle_def)
  have "new_evictor example_runtime 10 (pa_eviction_algorithm a) (pa_eviction_algorithm_config a)
      (int (PrefixCachingBlockAllocator_get_num_total_blocks a)) = Inr e"
    by (simp add: a(2-5))
  from PrefixCachingBlockAllocator_reset_prefix_cache_correct[OF rbt_prefix.prefix_env_axioms i(1) ok(2)[folded a(2) a(3)] this] i(2)
  obtain a2 where "PrefixCachingBlockAllocator_reset_prefix_cache example_runtime 10 a = Inr (True, a2)" "pa_view a2 = Map.empty"
    by (simp only: if_True) blast
  then show "\<exists>a a2. PrefixCachingBlockAllocator_init example_runtime 0 2 2 None ''ml'' '''' = Inr a \<and>
      PrefixCachingBlockAllocator_reset_prefix_cache example_runtime 10 a = Inr (True, a2) \<and> pa_view a2 = Map.empty"
    using a(1) by blast
qed

text \<open>
  C39. The cached prefix. When the cached blocks among the given hashes form a prefix, the binary
  search returns exactly the hashes before the first one that is not cached, as a linear scan does.
\<close>

theorem PrefixCachingBlockAllocator_find_cached_blocks_prefix_linear:
  assumes "prefix_env E items" "pa_inv items a"
    "\<And>i j. i < j \<Longrightarrow> j < length hs \<Longrightarrow> reusable a (hs ! j) \<Longrightarrow> reusable a (hs ! i)"
  shows "PrefixCachingBlockAllocator_find_cached_blocks_prefix a hs = Inr (takeWhile (reusable a) hs)"
  by (rule prefix_env.find_cached_prefix[OF assms])

theorem PrefixCachingBlockAllocator_find_cached_blocks_prefix_linear_witness:
  "PrefixCachingBlockAllocator_find_cached_blocks_prefix prefix_example [12, 20, 99] =
     Inr (takeWhile (reusable prefix_example) [12, 20, 99])"
proof -
  have n: "\<not> reusable prefix_example 99" by (simp add: reusable_def block_is_cached_def prefix_example_def)
  have "reusable prefix_example 12"
    by (simp add: reusable_def block_is_cached_def PrefixCachingBlockAllocator_block_is_computed_def dict_item_def prefix_example_def)
  then have "reusable prefix_example ([12, 20, 99] ! i)" if "i < j" "j < 3" "reusable prefix_example ([12, 20, 99] ! j)" for i j
    using that n by (auto simp: less_Suc_eq numeral_3_eq_3 nth_Cons split: nat.splits)
  then show ?thesis
    by (intro PrefixCachingBlockAllocator_find_cached_blocks_prefix_linear[OF rbt_prefix.prefix_env_axioms prefix_example_inv]) auto
qed

text \<open>
  The common computed blocks of a group of several sequences are the longest common prefix of
  all their non-empty lists of computed blocks: a list is a prefix of the result exactly when it
  is a prefix of each of them.
\<close>

theorem PrefixCachingBlockAllocator_common_computed_block_ids_longest:
  assumes "length ids \<noteq> 1" "\<exists>l \<in> set ids. l \<noteq> []"
  shows "prefix p (PrefixCachingBlockAllocator_get_common_computed_block_ids ids) \<longleftrightarrow> (\<forall>l \<in> set ids. l \<noteq> [] \<longrightarrow> prefix p l)"
  by (rule common_ids_longest[OF assms])

theorem PrefixCachingBlockAllocator_common_computed_block_ids_longest_witness:
  "prefix [4, 5] (PrefixCachingBlockAllocator_get_common_computed_block_ids [[4, 5, 6], [], [4, 5, 7, 8]])"
  using PrefixCachingBlockAllocator_common_computed_block_ids_longest[of "[[4, 5, 6], [], [4, 5, 7, 8]]" "[4, 5]"] by simp

text \<open>
  Incremental block hashes. When a sequence has grown since its hashes were recorded, the
  update that hashes only the new full blocks records what hashing all full blocks from the
  start gives, provided that no hash inside the chain is the one of the string None.
\<close>

theorem ComputedBlocksTracker_update_seq_hashes_incremental:
  assumes "collision_free H (seq_hashes H (ct_block_size t) (sq_token_ids seq) (sq_extra_hash seq))"
    "ct_enable_caching t" "0 < ct_block_size t"
    "dict_get_default (ct_seq_id_to_blocks_hashes t) (sq_seq_id seq) [] = seq_hashes H (ct_block_size t) old (sq_extra_hash seq)"
    "sq_token_ids seq = old @ new"
  shows "ComputedBlocksTracker_update_seq_hashes H t seq = Inr (t\<lparr>ct_seq_id_to_blocks_hashes :=
     dict_set (sq_seq_id seq) (seq_hashes H (ct_block_size t) (sq_token_ids seq) (sq_extra_hash seq)) (ct_seq_id_to_blocks_hashes t)\<rparr>)"
  by (rule update_seq_hashes_ok[OF assms])

definition tracker_example :: ComputedBlocksTracker where
  "tracker_example = \<lparr>ct_block_size = 2, ct_enable_caching = True, ct_seq_id_to_blocks_hashes = [(3, [12])],
     ct_seq_id_to_num_tokens_computed = []\<rparr>"

definition sequence_example :: Sequence where
  "sequence_example = \<lparr>sq_seq_id = 3, sq_token_ids = [5, 6, 1, 2, 8], sq_extra_hash = None, sq_is_prefill = True, sq_cache_hint = None\<rparr>"

theorem ComputedBlocksTracker_update_seq_hashes_incremental_witness:
  "\<exists>t'. ComputedBlocksTracker_update_seq_hashes example_hash tracker_example sequence_example = Inr t' \<and>
     dict_get (ct_seq_id_to_blocks_hashes t') 3 = Some [12, 376]"
proof -
  have c: "full_chunks 2 [5, 6, 1] = [[5, 6]]" "full_chunks 2 [5, 6, 1, 2, 8] = [[5, 6], [1, 2]]"
    by (simp_all add: full_chunks.simps)
  have s: "seq_hashes example_hash 2 [5, 6, 1] None = [12]" "seq_hashes example_hash 2 [5, 6, 1, 2, 8] None = [12, 376]"
    by (simp_all add: seq_hashes_def c step_hash_def example_hash_def)
  have "collision_free example_hash [12, 376]" by (simp add: collision_free_def example_hash_def)
  then show ?thesis
    using ComputedBlocksTracker_update_seq_hashes_incremental[of example_hash tracker_example sequence_example "[5, 6, 1]" "[2, 8]"]
    by (simp add: tracker_example_def sequence_example_def dict_get_default_def s)
qed

text \<open>
  C40. The tracker and the allocator agree on hashes. For a chain of full blocks that holds the
  beginning of a sequence, the update of the tracker records at the position of the chain's last
  block exactly the content hash that this block computes, memoising on the way, so what the
  tracker looks up is what the allocator has cached. The condition is that no hash inside this
  sequence's chain equals the hash of the string None, which the code takes for the start of a
  chain (the block would then have no content hash while the tracker records one); a memoised
  hash is the one of the chain, and the tracker has recorded the hashes of a prefix.
\<close>

theorem PrefixCachingBlock_content_hash_is_chain_hash:
  assumes "block_chain p r rs" "coherent H (bp_pool p) None x rs" "\<forall>q \<in> set rs. bl_block_size (bp_pool p ! q) = int n"
    "sq_token_ids seq = concat (chain_tokens (bp_pool p) rs) @ rest" "sq_extra_hash seq = x"
    "ct_enable_caching t" "ct_block_size t = n" "0 < n" "sq_token_ids seq = old @ new"
    "dict_get_default (ct_seq_id_to_blocks_hashes t) (sq_seq_id seq) [] = seq_hashes H n old x"
    "collision_free H (seq_hashes H n (sq_token_ids seq) x)"
  shows "\<exists>t' hs h p'. ComputedBlocksTracker_update_seq_hashes H t seq = Inr t' \<and>
     dict_get (ct_seq_id_to_blocks_hashes t') (sq_seq_id seq) = Some hs \<and> length hs = length (sq_token_ids seq) div n \<and>
     length rs \<le> length hs \<and> hs ! (length rs - 1) = h \<and>
     PrefixCachingBlock_content_hash H p r = Inr (Some h, p') \<and> memo_only p p'"
  by (rule tracker_hash_of_chain[OF assms])

text \<open>The hashes of two full blocks: the first has memoised its hash, the second has not computed it yet.\<close>

definition chain_example :: "prefix_block BlockPool" where
  "chain_example = \<lparr>bp_block_size = 2, bp_pool_size = 2, bp_free_ids = [],
     bp_pool = [example_object [5, 6] (Some 1) (Some 12), (example_object [1, 2] (Some 2) None)\<lparr>bl_prev_block := Some 0\<rparr>]\<rparr>"

theorem PrefixCachingBlock_content_hash_is_chain_hash_witness:
  "\<exists>t' hs p'. ComputedBlocksTracker_update_seq_hashes example_hash tracker_example sequence_example = Inr t' \<and>
     dict_get (ct_seq_id_to_blocks_hashes t') 3 = Some hs \<and> length hs = 2 \<and>
     PrefixCachingBlock_content_hash example_hash chain_example 1 = Inr (Some (hs ! 1), p')"
proof -
  have "block_chain chain_example 0 [0]"
    by (rule block_chain.first) (simp_all add: chain_example_def example_object_def)
  then have "block_chain chain_example 1 ([0] @ [1])"
    by (rule block_chain.next_block[rotated -1]) (simp_all add: chain_example_def example_object_def)
  then have c: "block_chain chain_example 1 [0, 1]" by simp
  have k: "coherent example_hash (bp_pool chain_example) None None [0, 1]"
    by (simp add: chain_example_def example_object_def is_full_def num_empty_slots_def step_hash_def example_hash_def)
  have n: "\<forall>q \<in> set [0, 1]. bl_block_size (bp_pool chain_example ! q) = int 2" by (simp add: chain_example_def example_object_def)
  have q: "sq_token_ids sequence_example = concat (chain_tokens (bp_pool chain_example) [0, 1]) @ [8]" "sq_extra_hash sequence_example = None"
    "sq_token_ids sequence_example = [5, 6, 1] @ [2, 8]" "sq_seq_id sequence_example = 3" "sq_token_ids sequence_example = [5, 6, 1, 2, 8]"
    by (simp_all add: sequence_example_def chain_example_def example_object_def)
  have f: "full_chunks 2 [5, 6, 1] = [[5, 6]]" "full_chunks 2 [5, 6, 1, 2, 8] = [[5, 6], [1, 2]]"
    by (simp_all add: full_chunks.simps)
  have s: "seq_hashes example_hash 2 [5, 6, 1] None = [12]" "seq_hashes example_hash 2 [5, 6, 1, 2, 8] None = [12, 376]"
    by (simp_all add: seq_hashes_def f step_hash_def example_hash_def)
  have t: "ct_enable_caching tracker_example" "ct_block_size tracker_example = 2"
    "dict_get_default (ct_seq_id_to_blocks_hashes tracker_example) (sq_seq_id sequence_example) [] = seq_hashes example_hash 2 [5, 6, 1] None"
    unfolding s by (simp_all add: tracker_example_def q(4) dict_get_default_def)
  have cf: "collision_free example_hash (seq_hashes example_hash 2 (sq_token_ids sequence_example) None)"
    unfolding q(5) s by (simp add: collision_free_def example_hash_def)
  from PrefixCachingBlock_content_hash_is_chain_hash[OF c k n q(1,2) t(1,2) _ q(3) t(3) cf]
  obtain t' hs h p' where "ComputedBlocksTracker_update_seq_hashes example_hash tracker_example sequence_example = Inr t'"
    "dict_get (ct_seq_id_to_blocks_hashes t') 3 = Some hs" "length hs = 2" "hs ! 1 = h"
    "PrefixCachingBlock_content_hash example_hash chain_example 1 = Inr (Some h, p')"
    unfolding q(4,5) by auto
  then show ?thesis by blast
qed

end
