(* ===== verification/KV_Blocks.thy ===== *)
theory KV_Blocks
  imports Prelude
begin

text \<open>
  The block objects of the v1 engine and the queue of free blocks (KVCacheBlock and
  FreeKVCacheBlockQueue of v1/core/kv_cache_utils.py). The objects live in a store, a list indexed
  by reference; the queue is the doubly linked list the code threads through them, with its head
  and tail. The contract of the queue is the locale \<open>free_queue\<close>: the linked list implements a
  plain list of references.
\<close>

section \<open>Block objects\<close>

text \<open>The extra keys of a block hash are the id of a LoRA adapter and hashes of multi-modal inputs.\<close>

datatype extra_key = LoraId int | MMHash string

record BlockHashType =
  hash_value :: int
  hash_token_ids :: "int list"
  hash_extra_keys :: "extra_key list option"

type_synonym kv_ref = nat

record KVCacheBlock =
  kb_block_id :: nat
  kb_ref_cnt :: int
  kb_block_hash :: "BlockHashType option"
  kb_prev_free_block :: "kv_ref option"
  kb_next_free_block :: "kv_ref option"

definition KVCacheBlock_init :: "nat \<Rightarrow> KVCacheBlock" where
  "KVCacheBlock_init block_id = \<lparr>kb_block_id = block_id, kb_ref_cnt = 0, kb_block_hash = None,
     kb_prev_free_block = None, kb_next_free_block = None\<rparr>"

definition KVCacheBlock_incr_ref :: "KVCacheBlock \<Rightarrow> KVCacheBlock" where
  "KVCacheBlock_incr_ref b = b\<lparr>kb_ref_cnt := kb_ref_cnt b + 1\<rparr>"

definition KVCacheBlock_decr_ref :: "KVCacheBlock \<Rightarrow> KVCacheBlock" where
  "KVCacheBlock_decr_ref b = b\<lparr>kb_ref_cnt := kb_ref_cnt b - 1\<rparr>"

definition KVCacheBlock_set_block_hash :: "BlockHashType \<Rightarrow> KVCacheBlock \<Rightarrow> KVCacheBlock result" where
  "KVCacheBlock_set_block_hash h b =
     res_bind (py_assert (kb_block_hash b = None)) (\<lambda>_. Inr (b\<lparr>kb_block_hash := Some h\<rparr>))"

definition KVCacheBlock_reset_hash :: "KVCacheBlock \<Rightarrow> KVCacheBlock" where
  "KVCacheBlock_reset_hash b = b\<lparr>kb_block_hash := None\<rparr>"

type_synonym kv_store = "KVCacheBlock list"

text \<open>Mutation of one object of the store.\<close>

definition kv_update :: "kv_ref \<Rightarrow> (KVCacheBlock \<Rightarrow> KVCacheBlock) \<Rightarrow> kv_store \<Rightarrow> kv_store" where
  "kv_update r f bs = bs[r := f (bs ! r)]"

lemma kv_update_length [simp]: "length (kv_update r f bs) = length bs"
  by (simp add: kv_update_def)

lemma kv_update_nth: "s < length bs \<Longrightarrow> kv_update r f bs ! s = (if s = r then f (bs ! s) else bs ! s)"
  by (simp add: kv_update_def nth_list_update)

section \<open>FreeKVCacheBlockQueue\<close>

record FreeKVCacheBlockQueue =
  fq_num_free_blocks :: int
  fq_free_list_head :: "kv_ref option"
  fq_free_list_tail :: "kv_ref option"

definition link_free_block :: "kv_ref list \<Rightarrow> nat \<Rightarrow> kv_store \<Rightarrow> kv_store" where
  "link_free_block rs i bs =
     (let bs1 = (if 0 < i then kv_update (rs ! i) (\<lambda>b. b\<lparr>kb_prev_free_block := Some (rs ! (i - 1))\<rparr>) bs else bs)
      in if i < length rs - 1
         then kv_update (rs ! i) (\<lambda>b. b\<lparr>kb_next_free_block := Some (rs ! (i + 1))\<rparr>) bs1 else bs1)"

definition FreeKVCacheBlockQueue_init :: "kv_ref list \<Rightarrow> kv_store \<Rightarrow> (FreeKVCacheBlockQueue \<times> kv_store) result" where
  "FreeKVCacheBlockQueue_init blocks bs =
     (if blocks = [] then Inl IndexError
      else Inr (\<lparr>fq_num_free_blocks = int (length blocks), fq_free_list_head = Some (hd blocks),
                 fq_free_list_tail = Some (last blocks)\<rparr>,
                fold (link_free_block blocks) [0..<length blocks] bs))"

definition FreeKVCacheBlockQueue_remove :: "kv_ref \<Rightarrow> FreeKVCacheBlockQueue \<times> kv_store \<Rightarrow> FreeKVCacheBlockQueue \<times> kv_store" where
  "FreeKVCacheBlockQueue_remove block s =
     (let (q, bs) = s;
          bs1 = (case kb_prev_free_block (bs ! block) of None \<Rightarrow> bs
                 | Some p \<Rightarrow> kv_update p (\<lambda>b. b\<lparr>kb_next_free_block := kb_next_free_block (bs ! block)\<rparr>) bs);
          bs2 = (case kb_next_free_block (bs1 ! block) of None \<Rightarrow> bs1
                 | Some n \<Rightarrow> kv_update n (\<lambda>b. b\<lparr>kb_prev_free_block := kb_prev_free_block (bs1 ! block)\<rparr>) bs1);
          q1 = (if fq_free_list_head q = Some block then q\<lparr>fq_free_list_head := kb_next_free_block (bs2 ! block)\<rparr> else q);
          q2 = (if fq_free_list_tail q1 = Some block then q1\<lparr>fq_free_list_tail := kb_prev_free_block (bs2 ! block)\<rparr> else q1)
      in (q2\<lparr>fq_num_free_blocks := fq_num_free_blocks q2 - 1\<rparr>,
          kv_update block (\<lambda>b. b\<lparr>kb_prev_free_block := None, kb_next_free_block := None\<rparr>) bs2))"

definition FreeKVCacheBlockQueue_popleft ::
    "FreeKVCacheBlockQueue \<times> kv_store \<Rightarrow> (kv_ref \<times> (FreeKVCacheBlockQueue \<times> kv_store)) result" where
  "FreeKVCacheBlockQueue_popleft s =
     (case fq_free_list_head (fst s) of None \<Rightarrow> Inl ValueError
      | Some block \<Rightarrow> Inr (block, FreeKVCacheBlockQueue_remove block s))"

definition FreeKVCacheBlockQueue_append ::
    "kv_ref \<Rightarrow> FreeKVCacheBlockQueue \<times> kv_store \<Rightarrow> (FreeKVCacheBlockQueue \<times> kv_store) result" where
  "FreeKVCacheBlockQueue_append block s =
     (let (q, bs) = s
      in res_bind (case fq_free_list_tail q of
             Some t \<Rightarrow> Inr (q\<lparr>fq_free_list_tail := Some block\<rparr>,
                 kv_update block (\<lambda>b. b\<lparr>kb_prev_free_block := Some t\<rparr>)
                   (kv_update t (\<lambda>b. b\<lparr>kb_next_free_block := Some block\<rparr>) bs))
           | None \<Rightarrow> res_bind (py_assert (fq_free_list_head q = None)) (\<lambda>_.
                 Inr (q\<lparr>fq_free_list_head := Some block, fq_free_list_tail := Some block\<rparr>, bs)))
           (\<lambda>(q1, bs1). Inr (q1\<lparr>fq_num_free_blocks := fq_num_free_blocks q1 + 1\<rparr>,
                              kv_update block (\<lambda>b. b\<lparr>kb_next_free_block := None\<rparr>) bs1)))"

text \<open>The loop along the next pointers; its fuel is the number of objects.\<close>

fun walk_free_blocks :: "nat \<Rightarrow> kv_store \<Rightarrow> kv_ref option \<Rightarrow> kv_ref list result" where
  "walk_free_blocks fuel bs None = Inr []"
| "walk_free_blocks 0 bs (Some b) = Inl Diverges"
| "walk_free_blocks (Suc fuel) bs (Some b) =
     res_bind (walk_free_blocks fuel bs (kb_next_free_block (bs ! b))) (\<lambda>rs. Inr (b # rs))"

definition FreeKVCacheBlockQueue_get_all_free_blocks :: "FreeKVCacheBlockQueue \<times> kv_store \<Rightarrow> kv_ref list result" where
  "FreeKVCacheBlockQueue_get_all_free_blocks s = walk_free_blocks (length (snd s)) (snd s) (fq_free_list_head (fst s))"

section \<open>The linked list as a list\<close>

definition hd_opt :: "'x list \<Rightarrow> 'x option" where
  "hd_opt xs = (case xs of [] \<Rightarrow> None | x # _ \<Rightarrow> Some x)"

lemma hd_opt_simps [simp]: "hd_opt [] = None" "hd_opt (x # xs) = Some x" "hd_opt xs = None \<longleftrightarrow> xs = []"
  by (auto simp: hd_opt_def split: list.splits)

lemma hd_opt_append: "hd_opt (xs @ ys) = (if xs = [] then hd_opt ys else hd_opt xs)"
  by (cases xs) auto

fun next_in :: "'x list \<Rightarrow> 'x \<Rightarrow> 'x option" where
  "next_in [] r = None"
| "next_in (x # xs) r = (if x = r then hd_opt xs else next_in xs r)"

lemma next_in_notin [simp]: "r \<notin> set xs \<Longrightarrow> next_in xs r = None"
  by (induction xs) auto

lemma next_in_mem: "next_in xs r = Some s \<Longrightarrow> s \<in> set xs"
  by (induction xs) (auto split: if_splits simp: hd_opt_def split: list.splits)

lemma hd_opt_rev_Cons: "hd_opt (rev (x # xs)) = (if xs = [] then Some x else hd_opt (rev xs))"
  by (simp add: hd_opt_append)

lemma hd_opt_mem: "hd_opt xs = Some x \<Longrightarrow> x \<in> set xs"
  by (cases xs) auto

lemma hd_opt_rev_mem: "hd_opt (rev xs) = Some x \<Longrightarrow> x \<in> set xs"
  using hd_opt_mem[of "rev xs" x] by simp

lemma next_in_split:
  "distinct (as @ b # cs) \<Longrightarrow> next_in (as @ b # cs) r =
     (if r = b then hd_opt cs else if hd_opt (rev as) = Some r then Some b else next_in (as @ cs) r)"
proof (induction as)
  case (Cons a as)
  then have IH: "next_in (as @ b # cs) r =
      (if r = b then hd_opt cs else if hd_opt (rev as) = Some r then Some b else next_in (as @ cs) r)" and a: "a \<noteq> b" "a \<notin> set as"
    by auto
  show ?case
  proof (cases "as = []")
    case True
    then show ?thesis using a by auto
  next
    case False
    then have "hd_opt (rev as) \<noteq> Some a" using a hd_opt_rev_mem by metis
    then show ?thesis using IH a False by (auto simp: hd_opt_rev_Cons hd_opt_append simp del: rev.simps)
  qed
qed simp

lemma next_in_join:
  assumes "distinct (as @ cs)" "hd_opt (rev as) = Some r"
  shows "next_in (as @ cs) r = hd_opt cs"
proof -
  from assms(2) obtain as' where as: "as = as' @ [r]"
    by (cases "rev as") (auto simp: rev_eq_Cons_iff)
  then have "distinct (as' @ r # cs)" using assms(1) by simp
  from next_in_split[OF this, of r] show ?thesis using as by simp
qed

lemma next_in_snoc:
  assumes "distinct (xs @ [b])"
  shows "next_in (xs @ [b]) r = (if hd_opt (rev xs) = Some r then Some b else next_in xs r)"
  using next_in_split[of xs b "[]" r] assms hd_opt_rev_mem[of xs b] by auto

text \<open>
  The representation: the links of every object are those of its place in the list, and an object
  outside the list has none.
\<close>

definition queue_ok :: "FreeKVCacheBlockQueue \<times> kv_store \<Rightarrow> kv_ref list \<Rightarrow> bool" where
  "queue_ok s xs \<longleftrightarrow> distinct xs \<and> set xs \<subseteq> {..<length (snd s)} \<and> fq_num_free_blocks (fst s) = int (length xs) \<and>
     fq_free_list_head (fst s) = hd_opt xs \<and> fq_free_list_tail (fst s) = hd_opt (rev xs) \<and>
     (\<forall>r < length (snd s). kb_next_free_block (snd s ! r) = next_in xs r \<and>
        kb_prev_free_block (snd s ! r) = next_in (rev xs) r)"

text \<open>What the queue operations leave as it is.\<close>

definition kb_data :: "KVCacheBlock \<Rightarrow> nat \<times> int \<times> BlockHashType option" where
  "kb_data b = (kb_block_id b, kb_ref_cnt b, kb_block_hash b)"

definition same_data :: "kv_store \<Rightarrow> kv_store \<Rightarrow> bool" where
  "same_data bs bs' \<longleftrightarrow> length bs' = length bs \<and> (\<forall>r < length bs. kb_block_id (bs' ! r) = kb_block_id (bs ! r) \<and>
     kb_ref_cnt (bs' ! r) = kb_ref_cnt (bs ! r) \<and> kb_block_hash (bs' ! r) = kb_block_hash (bs ! r))"

lemma same_data_iff: "same_data bs bs' \<longleftrightarrow> map kb_data bs' = map kb_data bs"
  by (auto simp: same_data_def kb_data_def list_eq_iff_nth_eq)

lemma same_data_refl [simp]: "same_data bs bs"
  by (simp add: same_data_def)

lemma same_data_trans: "same_data as bs \<Longrightarrow> same_data bs cs \<Longrightarrow> same_data as cs"
  by (simp add: same_data_def)

lemma remove_ok:
  assumes ok: "queue_ok (q, bs) (as @ b # cs)"
  shows "queue_ok (FreeKVCacheBlockQueue_remove b (q, bs)) (as @ cs) \<and>
     same_data bs (snd (FreeKVCacheBlockQueue_remove b (q, bs)))"
proof -
  let ?xs = "as @ b # cs"
  have d: "distinct ?xs" and sub: "set ?xs \<subseteq> {..<length bs}" and b: "b < length bs"
    and lk: "r < length bs \<Longrightarrow> kb_next_free_block (bs ! r) = next_in ?xs r \<and> kb_prev_free_block (bs ! r) = next_in (rev ?xs) r" for r
    using ok by (auto simp: queue_ok_def)
  have dr: "distinct (rev cs @ b # rev as)" using d by auto
  have n: "next_in ?xs r = (if r = b then hd_opt cs else if hd_opt (rev as) = Some r then Some b else next_in (as @ cs) r)"
    and p: "next_in (rev ?xs) r = (if r = b then hd_opt (rev as) else if hd_opt cs = Some r then Some b else next_in (rev (as @ cs)) r)" for r
    using next_in_split[OF d, of r] next_in_split[OF dr, of r] by simp_all
  have jn: "hd_opt (rev as) = Some r \<Longrightarrow> next_in (as @ cs) r = hd_opt cs"
    and jp: "hd_opt cs = Some r \<Longrightarrow> next_in (rev (as @ cs)) r = hd_opt (rev as)" for r
    using next_in_join[of as cs r] next_in_join[of "rev cs" "rev as" r] d by auto
  have nb: "kb_next_free_block (bs ! b) = hd_opt cs" "kb_prev_free_block (bs ! b) = hd_opt (rev as)" 
    using lk[OF b] n[of b] p[of b] by simp_all
  have mem: "hd_opt cs = Some r \<Longrightarrow> r \<in> set cs" "hd_opt (rev as) = Some r \<Longrightarrow> r \<in> set as" for r
    by (rule hd_opt_mem hd_opt_rev_mem, assumption)+
  have bn: "b \<notin> set as" "b \<notin> set cs" and dj: "set as \<inter> set cs = {}" using d by auto
  define bs1 where "bs1 = (case hd_opt (rev as) of None \<Rightarrow> bs | Some p \<Rightarrow> kv_update p (\<lambda>x. x\<lparr>kb_next_free_block := hd_opt cs\<rparr>) bs)"
  have l1: "length bs1 = length bs" by (simp add: bs1_def split: option.splits)
  have s1: "r < length bs \<Longrightarrow> bs1 ! r = (if hd_opt (rev as) = Some r then (bs ! r)\<lparr>kb_next_free_block := hd_opt cs\<rparr> else bs ! r)" for r
    by (auto simp: bs1_def kv_update_nth split: option.splits)
  have b1: "bs1 ! b = bs ! b" using s1[OF b] mem(2)[of b] bn by auto
  define bs2 where "bs2 = (case hd_opt cs of None \<Rightarrow> bs1 | Some n \<Rightarrow> kv_update n (\<lambda>x. x\<lparr>kb_prev_free_block := hd_opt (rev as)\<rparr>) bs1)"
  have l2: "length bs2 = length bs" by (simp add: bs2_def l1 split: option.splits)
  have s2: "r < length bs \<Longrightarrow> bs2 ! r = (if hd_opt cs = Some r then (bs1 ! r)\<lparr>kb_prev_free_block := hd_opt (rev as)\<rparr> else bs1 ! r)" for r
    by (auto simp: bs2_def kv_update_nth l1 split: option.splits)
  have b2: "bs2 ! b = bs ! b" using s2[OF b] mem(1)[of b] bn b1 by auto
  define q1 where "q1 = (if fq_free_list_head q = Some b then q\<lparr>fq_free_list_head := hd_opt cs\<rparr> else q)"
  define q2 where "q2 = (if fq_free_list_tail q1 = Some b then q1\<lparr>fq_free_list_tail := hd_opt (rev as)\<rparr> else q1)"
  define q' where "q' = q2\<lparr>fq_num_free_blocks := fq_num_free_blocks q2 - 1\<rparr>"
  define bs' where "bs' = kv_update b (\<lambda>x. x\<lparr>kb_prev_free_block := None, kb_next_free_block := None\<rparr>) bs2"
  have run: "FreeKVCacheBlockQueue_remove b (q, bs) = (q', bs')"
    unfolding FreeKVCacheBlockQueue_remove_def Let_def prod.case nb bs1_def[symmetric] b1
    unfolding nb bs2_def[symmetric] b2 unfolding nb q1_def[symmetric] unfolding q2_def[symmetric] q'_def bs'_def by (rule refl)
  have q': "fq_num_free_blocks q' = fq_num_free_blocks q - 1"
      "fq_free_list_head q' = (if fq_free_list_head q = Some b then hd_opt cs else fq_free_list_head q)"
      "fq_free_list_tail q' = (if fq_free_list_tail q = Some b then hd_opt (rev as) else fq_free_list_tail q)"
    by (simp_all add: q'_def q2_def q1_def)
  have "kb_next_free_block (bs' ! r) = next_in (as @ cs) r \<and> kb_prev_free_block (bs' ! r) = next_in (rev (as @ cs)) r"
    if r: "r < length bs" for r
  proof (cases "r = b")
    case True
    then show ?thesis using r bn by (simp add: bs'_def kv_update_nth l2)
  next
    case False
    have "bs' ! r = bs2 ! r" using r False by (simp add: bs'_def kv_update_nth l2)
    then show ?thesis using s2[OF r] s1[OF r] lk[OF r] n[of r] p[of r] False jn[of r] jp[of r] by auto
  qed
  then have links: "\<forall>r < length bs'. kb_next_free_block (bs' ! r) = next_in (as @ cs) r \<and>
      kb_prev_free_block (bs' ! r) = next_in (rev (as @ cs)) r"
    by (simp add: bs'_def l2)
  have h: "hd_opt (as @ cs) = (if hd_opt ?xs = Some b then hd_opt cs else hd_opt ?xs)"
    using bn by (cases as) auto
  have t: "hd_opt (rev (as @ cs)) = (if hd_opt (rev ?xs) = Some b then hd_opt (rev as) else hd_opt (rev ?xs))"
    using bn by (cases cs rule: rev_cases) auto
  have hd: "fq_free_list_head q = hd_opt ?xs" "fq_free_list_tail q = hd_opt (rev ?xs)" "fq_num_free_blocks q = int (length ?xs)"
    using ok by (simp_all add: queue_ok_def)
  have "queue_ok (q', bs') (as @ cs)"
    unfolding queue_ok_def fst_conv snd_conv q' h t hd using d sub links by (simp add: bs'_def l2)
  moreover have "same_data bs bs'"
    unfolding same_data_def using s1 s2 by (auto simp: bs'_def kv_update_nth l2)
  ultimately show ?thesis using run by simp
qed

lemma append_ok:
  assumes ok: "queue_ok (q, bs) xs" and b: "b < length bs" "b \<notin> set xs"
  shows "\<exists>s'. FreeKVCacheBlockQueue_append b (q, bs) = Inr s' \<and> queue_ok s' (xs @ [b]) \<and> same_data bs (snd s')"
proof -
  have d: "distinct xs" "set xs \<subseteq> {..<length bs}"
    and lk: "r < length bs \<Longrightarrow> kb_next_free_block (bs ! r) = next_in xs r \<and> kb_prev_free_block (bs ! r) = next_in (rev xs) r" for r
    using ok by (auto simp: queue_ok_def)
  have n: "next_in (xs @ [b]) r = (if hd_opt (rev xs) = Some r then Some b else next_in xs r)"
    and p: "next_in (rev (xs @ [b])) r = (if b = r then hd_opt (rev xs) else next_in (rev xs) r)" for r
    using next_in_snoc[of xs b r] d b by auto
  define bs' where "bs' = (case hd_opt (rev xs) of
      Some t \<Rightarrow> kv_update b (\<lambda>b. b\<lparr>kb_next_free_block := None\<rparr>) (kv_update b (\<lambda>b. b\<lparr>kb_prev_free_block := Some t\<rparr>)
                   (kv_update t (\<lambda>x. x\<lparr>kb_next_free_block := Some b\<rparr>) bs))
    | None \<Rightarrow> kv_update b (\<lambda>b. b\<lparr>kb_next_free_block := None\<rparr>) bs)"
  define q' where "q' = (if xs = [] then q\<lparr>fq_free_list_head := Some b, fq_free_list_tail := Some b\<rparr>
      else q\<lparr>fq_free_list_tail := Some b\<rparr>)\<lparr>fq_num_free_blocks := fq_num_free_blocks q + 1\<rparr>"
  have run: "FreeKVCacheBlockQueue_append b (q, bs) = Inr (q', bs')" and
    q': "fq_num_free_blocks q' = fq_num_free_blocks q + 1" "fq_free_list_tail q' = Some b"
      "fq_free_list_head q' = (if xs = [] then Some b else fq_free_list_head q)"
    using ok by (cases "hd_opt (rev xs)"; auto simp: FreeKVCacheBlockQueue_append_def queue_ok_def bs'_def q'_def)+
  have l: "length bs' = length bs" by (simp add: bs'_def split: option.splits)
  have t: "hd_opt (rev xs) = Some t \<Longrightarrow> t \<noteq> b" for t using hd_opt_rev_mem[of xs t] b by auto
  have "kb_next_free_block (bs' ! r) = next_in (xs @ [b]) r \<and> kb_prev_free_block (bs' ! r) = next_in (rev (xs @ [b])) r"
    if r: "r < length bs" for r
    unfolding n p using lk[OF r] r t b by (auto simp: bs'_def kv_update_nth split: option.splits)
  moreover have "same_data bs bs'"
    unfolding same_data_def by (auto simp: bs'_def kv_update_nth split: option.splits)
  ultimately show ?thesis using ok run q' l b by (auto simp: queue_ok_def hd_opt_append)
qed

lemma next_in_Cons: "distinct (x # xs) \<Longrightarrow> next_in (x # xs) x = hd_opt xs"
  by simp

lemma walk_ok:
  assumes "distinct (pre @ xs)" "set (pre @ xs) \<subseteq> {..<length bs}" "length xs \<le> fuel"
    "\<forall>r < length bs. kb_next_free_block (bs ! r) = next_in (pre @ xs) r"
  shows "walk_free_blocks fuel bs (hd_opt xs) = Inr xs"
  using assms
proof (induction xs arbitrary: pre fuel)
  case (Cons x xs)
  then obtain k where k: "fuel = Suc k" by (cases fuel) auto
  have "next_in (pre @ x # xs) x = hd_opt xs"
    using next_in_split[of pre x xs x] Cons.prems(1) by simp
  then show ?case using Cons.IH[of "pre @ [x]" k] Cons.prems k by simp
qed simp

lemma get_all_free_blocks_ok:
  assumes "queue_ok s xs"
  shows "FreeKVCacheBlockQueue_get_all_free_blocks s = Inr xs"
proof -
  have "length xs \<le> length (snd s)"
    using assms by (metis card_lessThan card_mono distinct_card finite_lessThan queue_ok_def)
  then show ?thesis using assms walk_ok[of "[]" xs "snd s"]
    by (simp add: FreeKVCacheBlockQueue_get_all_free_blocks_def queue_ok_def)
qed

text \<open>The constructor links the objects in the order of the list, starting from unlinked ones.\<close>

lemma fold_link_ok:
  assumes d: "distinct rs" and sub: "set rs \<subseteq> {..<length bs}"
    and un: "\<forall>r < length bs. kb_next_free_block (bs ! r) = None \<and> kb_prev_free_block (bs ! r) = None" and k: "k \<le> length rs"
  shows "length (fold (link_free_block rs) [0..<k] bs) = length bs \<and> same_data bs (fold (link_free_block rs) [0..<k] bs) \<and>
     (\<forall>r < length bs. kb_next_free_block (fold (link_free_block rs) [0..<k] bs ! r) = (if r \<in> set (take k rs) then next_in rs r else None) \<and>
        kb_prev_free_block (fold (link_free_block rs) [0..<k] bs ! r) = (if r \<in> set (take k rs) then next_in (rev rs) r else None))"
  using k
proof (induction k)
  case 0
  then show ?case using un by simp
next
  case (Suc k)
  let ?bs = "fold (link_free_block rs) [0..<k] bs" and ?b = "rs ! k"
  have IH: "length ?bs = length bs" "same_data bs ?bs"
    "\<forall>r < length bs. kb_next_free_block (?bs ! r) = (if r \<in> set (take k rs) then next_in rs r else None) \<and>
        kb_prev_free_block (?bs ! r) = (if r \<in> set (take k rs) then next_in (rev rs) r else None)"
    using Suc by auto
  have tk: "take (Suc k) rs = take k rs @ [?b]" using Suc.prems by (simp add: take_Suc_conv_app_nth)
  have split: "rs = take k rs @ ?b # drop (Suc k) rs" using Suc.prems by (simp add: id_take_nth_drop)
  have dd: "distinct (take k rs @ ?b # drop (Suc k) rs)" using d split by simp
  then have dr: "distinct (rev (drop (Suc k) rs) @ ?b # rev (take k rs))" by auto
  have nx: "next_in rs ?b = hd_opt (drop (Suc k) rs)" and pv: "next_in (rev rs) ?b = hd_opt (rev (take k rs))"
    using next_in_split[OF dd, of ?b] next_in_split[OF dr, of ?b] split
    by (metis rev.simps(2) rev_append append.assoc append_Cons append_Nil)+
  have hn: "hd_opt (drop (Suc k) rs) = (if k < length rs - 1 then Some (rs ! (k + 1)) else None)"
    using Suc.prems by (auto simp: Cons_nth_drop_Suc[symmetric])
  have hp: "hd_opt (rev (take k rs)) = (if 0 < k then Some (rs ! (k - 1)) else None)"
    using Suc.prems by (cases k) (auto simp: take_Suc_conv_app_nth)
  have "?b \<in> set rs" using Suc.prems by simp
  then have b: "?b < length bs" "?b \<notin> set (take k rs)" using sub dd by auto
  let ?bs' = "link_free_block rs k ?bs"
  have st: "?bs' ! r = (if r = ?b then (?bs ! r)\<lparr>kb_prev_free_block := (if 0 < k then Some (rs ! (k - 1)) else kb_prev_free_block (?bs ! r)),
      kb_next_free_block := (if k < length rs - 1 then Some (rs ! (k + 1)) else kb_next_free_block (?bs ! r))\<rparr> else ?bs ! r)"
    if "r < length bs" for r using that IH(1) by (auto simp: link_free_block_def kv_update_nth Let_def)
  have ln: "length ?bs' = length bs" using IH(1) by (simp add: link_free_block_def Let_def)
  have sd: "same_data ?bs ?bs'" unfolding same_data_def using ln IH(1) st by auto
  have fs: "fold (link_free_block rs) [0..<Suc k] bs = ?bs'" by simp
  show ?case unfolding fs tk using IH ln same_data_trans[OF IH(2) sd] st nx pv hn hp b by auto
qed

lemma queue_init_ok:
  assumes "distinct rs" "set rs \<subseteq> {..<length bs}" "rs \<noteq> []"
    "\<forall>r < length bs. kb_next_free_block (bs ! r) = None \<and> kb_prev_free_block (bs ! r) = None"
  shows "\<exists>s. FreeKVCacheBlockQueue_init rs bs = Inr s \<and> queue_ok s rs \<and> same_data bs (snd s)"
  using fold_link_ok[OF assms(1,2,4), of "length rs"] assms
  by (auto simp: FreeKVCacheBlockQueue_init_def queue_ok_def hd_opt_def last_rev split: list.splits)

text \<open>A mutation that leaves the links alone leaves the queue alone.\<close>

lemma queue_ok_update:
  assumes "queue_ok (q, bs) xs" "\<And>b. kb_next_free_block (f b) = kb_next_free_block b"
    "\<And>b. kb_prev_free_block (f b) = kb_prev_free_block b"
  shows "queue_ok (q, kv_update r f bs) xs"
  using assms by (auto simp: queue_ok_def kv_update_nth)

section \<open>The contract of the free queue\<close>

primrec pop_many :: "('s \<Rightarrow> ('b \<times> 's) result) \<Rightarrow> nat \<Rightarrow> 's \<Rightarrow> ('b list \<times> 's) result" where
  "pop_many pop 0 s = Inr ([], s)"
| "pop_many pop (Suc n) s = res_bind (pop s) (\<lambda>(b, s1). res_bind (pop_many pop n s1) (\<lambda>(bs, s2). Inr (b # bs, s2)))"

locale free_queue =
  fixes holds :: "'s \<Rightarrow> kv_ref list \<Rightarrow> bool"
    and data :: "'s \<Rightarrow> 'd list"
    and pop :: "'s \<Rightarrow> (kv_ref \<times> 's) result"
    and remove :: "kv_ref \<Rightarrow> 's \<Rightarrow> 's"
    and append :: "kv_ref \<Rightarrow> 's \<Rightarrow> 's result"
  assumes pop_empty: "holds s [] \<Longrightarrow> pop s = Inl ValueError"
    and pop_law: "holds s (b # xs) \<Longrightarrow> \<exists>s'. pop s = Inr (b, s') \<and> holds s' xs \<and> data s' = data s"
    and remove_law: "holds s xs \<Longrightarrow> b \<in> set xs \<Longrightarrow> holds (remove b s) (remove1 b xs) \<and> data (remove b s) = data s"
    and append_law: "holds s xs \<Longrightarrow> b < length (data s) \<Longrightarrow> b \<notin> set xs \<Longrightarrow>
      \<exists>s'. append b s = Inr s' \<and> holds s' (xs @ [b]) \<and> data s' = data s"
begin

lemma pop_many_ok:
  "holds s (xs @ ys) \<Longrightarrow> \<exists>s'. pop_many pop (length xs) s = Inr (xs, s') \<and> holds s' ys \<and> data s' = data s"
proof (induction xs arbitrary: s)
  case (Cons x xs)
  from pop_law[of s x "xs @ ys"] Cons.prems obtain s1 where s1: "pop s = Inr (x, s1)" "holds s1 (xs @ ys)" "data s1 = data s"
    by auto
  from Cons.IH[OF s1(2)] s1 show ?case by auto
qed simp

text \<open>First in, first out: an appended block is the last of the blocks popped next.\<close>

lemma append_then_pop_all:
  assumes "holds s xs" "b < length (data s)" "b \<notin> set xs"
  shows "\<exists>s1 s2. append b s = Inr s1 \<and> pop_many pop (Suc (length xs)) s1 = Inr (xs @ [b], s2) \<and> holds s2 []"
proof -
  from append_law[OF assms] obtain s1 where s1: "append b s = Inr s1" "holds s1 ((xs @ [b]) @ [])" by auto
  from pop_many_ok[OF s1(2)] s1(1) show ?thesis by auto
qed

end

lemma queue_popleft_ok:
  assumes "queue_ok s (b # xs)"
  shows "\<exists>s'. FreeKVCacheBlockQueue_popleft s = Inr (b, s') \<and> queue_ok s' xs \<and> same_data (snd s) (snd s')"
  using remove_ok[of "fst s" "snd s" "[]" b xs] assms
  by (simp add: FreeKVCacheBlockQueue_popleft_def queue_ok_def)

lemma queue_remove_ok:
  assumes "queue_ok s xs" "b \<in> set xs"
  shows "queue_ok (FreeKVCacheBlockQueue_remove b s) (remove1 b xs) \<and> same_data (snd s) (snd (FreeKVCacheBlockQueue_remove b s))"
proof -
  from assms(2) obtain as cs where xs: "xs = as @ b # cs" "b \<notin> set as" by (meson split_list_first)
  from remove_ok[of "fst s" "snd s" as b cs] assms(1) xs show ?thesis by (simp add: remove1_append)
qed

interpretation fq: free_queue queue_ok "\<lambda>s. map kb_data (snd s)" FreeKVCacheBlockQueue_popleft
  FreeKVCacheBlockQueue_remove FreeKVCacheBlockQueue_append
proof
  fix s :: "FreeKVCacheBlockQueue \<times> kv_store" and xs b
  show "queue_ok s [] \<Longrightarrow> FreeKVCacheBlockQueue_popleft s = Inl ValueError"
    by (simp add: FreeKVCacheBlockQueue_popleft_def queue_ok_def)
  show "queue_ok s (b # xs) \<Longrightarrow> \<exists>s'. FreeKVCacheBlockQueue_popleft s = Inr (b, s') \<and> queue_ok s' xs \<and>
      map kb_data (snd s') = map kb_data (snd s)"
    using queue_popleft_ok[of s b xs] by (simp add: same_data_iff)
  show "queue_ok s xs \<Longrightarrow> b \<in> set xs \<Longrightarrow> queue_ok (FreeKVCacheBlockQueue_remove b s) (remove1 b xs) \<and>
      map kb_data (snd (FreeKVCacheBlockQueue_remove b s)) = map kb_data (snd s)"
    using queue_remove_ok[of s xs b] by (simp add: same_data_iff)
  show "queue_ok s xs \<Longrightarrow> b < length (map kb_data (snd s)) \<Longrightarrow> b \<notin> set xs \<Longrightarrow>
      \<exists>s'. FreeKVCacheBlockQueue_append b s = Inr s' \<and> queue_ok s' (xs @ [b]) \<and> map kb_data (snd s') = map kb_data (snd s)"
    using append_ok[of "fst s" "snd s" xs b] by (simp add: same_data_iff)
qed

end
