(* ===== verification/Sampling_Params.thy ===== *)
theory Sampling_Params
  imports Prelude
begin

text \<open>
  The sampling parameters of a request (sampling_params.py): construction from optional arguments,
  normalisation and validation, the stop tokens of the generation configuration, and the token
  lists of forbidden words. The tokenizer is an argument. Logits processors and the free-form
  extra arguments are opaque and left out; text is a list of characters.
\<close>

section \<open>Guided decoding\<close>

record GuidedDecodingParams =
  gd_json :: "string option"
  gd_regex :: "string option"
  gd_choice :: "string list option"
  gd_grammar :: "string option"
  gd_json_object :: "bool option"
  gd_backend :: "string option"
  gd_whitespace_pattern :: "string option"

definition GuidedDecodingParams_post_init :: "GuidedDecodingParams \<Rightarrow> GuidedDecodingParams result" where
  "GuidedDecodingParams_post_init g =
     (let guide_count = length (filter id [gd_json g \<noteq> None, gd_regex g \<noteq> None, gd_choice g \<noteq> None, gd_grammar g \<noteq> None,
            gd_json_object g \<noteq> None])
      in if guide_count > 1 then Inl ValueError else Inr g)"

definition GuidedDecodingParams_from_optional :: "GuidedDecodingParams \<Rightarrow> GuidedDecodingParams option result" where
  "GuidedDecodingParams_from_optional g =
     (if gd_json g = None \<and> gd_regex g = None \<and> gd_choice g = None \<and> gd_grammar g = None \<and> gd_json_object g = None then Inr None
      else res_bind (GuidedDecodingParams_post_init g) (\<lambda>g. Inr (Some g)))"

definition GuidedDecodingParams_backend_name :: "GuidedDecodingParams \<Rightarrow> string" where
  "GuidedDecodingParams_backend_name g = hd (split_on CHR '':'' (case gd_backend g of None \<Rightarrow> [] | Some b \<Rightarrow> b))"

definition GuidedDecodingParams_backend_options :: "GuidedDecodingParams \<Rightarrow> string list" where
  "GuidedDecodingParams_backend_options g =
     (case gd_backend g of None \<Rightarrow> []
      | Some b \<Rightarrow> if CHR '':'' \<notin> set b then [] else split_on CHR '','' (split_on CHR '':'' b ! 1))"

definition GuidedDecodingParams_no_fallback :: "GuidedDecodingParams \<Rightarrow> bool" where
  "GuidedDecodingParams_no_fallback g \<longleftrightarrow> ''no-fallback'' \<in> set (GuidedDecodingParams_backend_options g)"

section \<open>Sampling parameters\<close>

datatype SamplingType = GREEDY | RANDOM | RANDOM_SEED

datatype RequestOutputKind = CUMULATIVE | DELTA | FINAL_ONLY

record SamplingParams =
  sp_n :: int
  sp_best_of :: "int option"
  sp_real_n :: "int option"
  sp_presence_penalty :: rat
  sp_frequency_penalty :: rat
  sp_repetition_penalty :: rat
  sp_temperature :: rat
  sp_top_p :: rat
  sp_top_k :: int
  sp_min_p :: rat
  sp_seed :: "int option"
  sp_stop :: "string list"
  sp_stop_token_ids :: "int list"
  sp_ignore_eos :: bool
  sp_max_tokens :: "int option"
  sp_min_tokens :: int
  sp_logprobs :: "int option"
  sp_prompt_logprobs :: "int option"
  sp_detokenize :: bool
  sp_skip_special_tokens :: bool
  sp_spaces_between_special_tokens :: bool
  sp_include_stop_str_in_output :: bool
  sp_truncate_prompt_tokens :: "int option"
  sp_output_kind :: RequestOutputKind
  sp_output_text_buffer_length :: int
  sp_all_stop_token_ids :: "int set"
  sp_guided_decoding :: "GuidedDecodingParams option"
  sp_logit_bias :: "(int, rat) dict option"
  sp_allowed_token_ids :: "int list option"
  sp_bad_words :: "string list"
  sp_bad_words_token_ids :: "int list list"

definition sampling_eps :: rat where
  "sampling_eps = 1 / 100000"

definition max_temp :: rat where
  "max_temp = 1 / 100"

text \<open>The defaults of the fields.\<close>

definition SamplingParams_default :: SamplingParams where
  "SamplingParams_default =
     \<lparr>sp_n = 1, sp_best_of = None, sp_real_n = None, sp_presence_penalty = 0, sp_frequency_penalty = 0, sp_repetition_penalty = 1,
      sp_temperature = 1, sp_top_p = 1, sp_top_k = - 1, sp_min_p = 0, sp_seed = None, sp_stop = [], sp_stop_token_ids = [],
      sp_ignore_eos = False, sp_max_tokens = Some 16, sp_min_tokens = 0, sp_logprobs = None, sp_prompt_logprobs = None,
      sp_detokenize = True, sp_skip_special_tokens = True, sp_spaces_between_special_tokens = True,
      sp_include_stop_str_in_output = False, sp_truncate_prompt_tokens = None, sp_output_kind = CUMULATIVE,
      sp_output_text_buffer_length = 0, sp_all_stop_token_ids = {}, sp_guided_decoding = None, sp_logit_bias = None,
      sp_allowed_token_ids = None, sp_bad_words = [], sp_bad_words_token_ids = []\<rparr>"

lemma SamplingParams_default_simps [simp]:
  "sp_prompt_logprobs SamplingParams_default = None" "sp_logprobs SamplingParams_default = None"
  "sp_guided_decoding SamplingParams_default = None" "sp_max_tokens SamplingParams_default = Some 16"
  "sp_stop_token_ids SamplingParams_default = []" "sp_ignore_eos SamplingParams_default = False"
  by (simp_all add: SamplingParams_default_def)

text \<open>The checks, in the order of the code; those of the Python types have no counterpart.\<close>

definition SamplingParams_verify_args :: "SamplingParams \<Rightarrow> unit result" where
  "SamplingParams_verify_args p =
     (if sp_n p < 1 then Inl ValueError
      else if \<not> (- 2 \<le> sp_presence_penalty p \<and> sp_presence_penalty p \<le> 2) then Inl ValueError
      else if \<not> (- 2 \<le> sp_frequency_penalty p \<and> sp_frequency_penalty p \<le> 2) then Inl ValueError
      else if \<not> (0 < sp_repetition_penalty p \<and> sp_repetition_penalty p \<le> 2) then Inl ValueError
      else if sp_temperature p < 0 then Inl ValueError
      else if \<not> (0 < sp_top_p p \<and> sp_top_p p \<le> 1) then Inl ValueError
      else if sp_top_k p < - 1 \<or> sp_top_k p = 0 then Inl ValueError
      else if \<not> (0 \<le> sp_min_p p \<and> sp_min_p p \<le> 1) then Inl ValueError
      else if (case sp_max_tokens p of Some m \<Rightarrow> m < 1 | None \<Rightarrow> False) then Inl ValueError
      else if sp_min_tokens p < 0 then Inl ValueError
      else if (case sp_max_tokens p of Some m \<Rightarrow> sp_min_tokens p > m | None \<Rightarrow> False) then Inl ValueError
      else if (case sp_logprobs p of Some k \<Rightarrow> k < 0 | None \<Rightarrow> False) then Inl ValueError
      else if (case sp_prompt_logprobs p of Some k \<Rightarrow> k < 0 | None \<Rightarrow> False) then Inl ValueError
      else if (case sp_truncate_prompt_tokens p of Some k \<Rightarrow> k < 1 | None \<Rightarrow> False) then Inl ValueError
      else if [] \<in> set (sp_stop p) then Inl ValueError
      else if sp_stop p \<noteq> [] \<and> \<not> sp_detokenize p then Inl ValueError
      else if sp_best_of p \<noteq> sp_real_n p \<and> sp_output_kind p = DELTA then Inl ValueError
      else Inr ())"

definition SamplingParams_verify_greedy_sampling :: "SamplingParams \<Rightarrow> unit result" where
  "SamplingParams_verify_greedy_sampling p = (if sp_n p > 1 then Inl ValueError else Inr ())"

text \<open>A number is false in Python when it is zero.\<close>

definition resolve_best_of :: "SamplingParams \<Rightarrow> SamplingParams result" where
  "resolve_best_of p =
     (case sp_best_of p of None \<Rightarrow> Inr p
      | Some best_of \<Rightarrow>
          if best_of = 0 then Inr p
          else if best_of < sp_n p then Inl ValueError
          else if sp_real_n p = None \<or> sp_real_n p = Some 0 then Inr (p\<lparr>sp_real_n := Some (sp_n p), sp_n := best_of\<rparr>)
          else Inr p)"

definition SamplingParams_post_init :: "SamplingParams \<Rightarrow> SamplingParams result" where
  "SamplingParams_post_init p0 =
     res_bind (resolve_best_of p0) (\<lambda>p1.
     let p2 = (if 0 < sp_temperature p1 \<and> sp_temperature p1 < max_temp
               then p1\<lparr>sp_temperature := max (sp_temperature p1) max_temp\<rparr> else p1);
         p3 = (if sp_seed p2 = Some (- 1) then p2\<lparr>sp_seed := None\<rparr> else p2);
         p4 = (if sp_stop p3 \<noteq> [] \<and> \<not> sp_include_stop_str_in_output p3
               then p3\<lparr>sp_output_text_buffer_length := int (Max (length ` set (sp_stop p3))) - 1\<rparr> else p3)
     in res_bind (SamplingParams_verify_args p4) (\<lambda>_.
        let p5 = (if sp_temperature p4 < sampling_eps then p4\<lparr>sp_top_p := 1, sp_top_k := - 1, sp_min_p := 0\<rparr> else p4)
        in res_bind (if sp_temperature p4 < sampling_eps then SamplingParams_verify_greedy_sampling p5 else Inr ()) (\<lambda>_.
             Inr (p5\<lparr>sp_all_stop_token_ids := set (sp_stop_token_ids p5)\<rparr>))))"

text \<open>
  The arguments of the constructor function. \<open>sa_stop\<close> may be one string or a list. A bias of the
  logits is clamped to [-100, 100].
\<close>

datatype stop_arg = NoStop | StopString string | StopStrings "string list"

record sampling_args =
  sa_n :: "int option"
  sa_best_of :: "int option"
  sa_presence_penalty :: "rat option"
  sa_frequency_penalty :: "rat option"
  sa_repetition_penalty :: "rat option"
  sa_temperature :: "rat option"
  sa_top_p :: "rat option"
  sa_top_k :: int
  sa_min_p :: rat
  sa_seed :: "int option"
  sa_stop :: stop_arg
  sa_stop_token_ids :: "int list option"
  sa_bad_words :: "string list option"
  sa_include_stop_str_in_output :: bool
  sa_ignore_eos :: bool
  sa_max_tokens :: "int option"
  sa_min_tokens :: int
  sa_logprobs :: "int option"
  sa_prompt_logprobs :: "int option"
  sa_detokenize :: bool
  sa_skip_special_tokens :: bool
  sa_spaces_between_special_tokens :: bool
  sa_truncate_prompt_tokens :: "int option"
  sa_output_kind :: RequestOutputKind
  sa_guided_decoding :: "GuidedDecodingParams option"
  sa_logit_bias :: "(int, rat) dict option"
  sa_allowed_token_ids :: "int list option"

definition default_to :: "'a \<Rightarrow> 'a option \<Rightarrow> 'a" where
  "default_to d x = (case x of None \<Rightarrow> d | Some y \<Rightarrow> y)"

definition stop_list :: "stop_arg \<Rightarrow> string list" where
  "stop_list x = (case x of NoStop \<Rightarrow> [] | StopString t \<Rightarrow> [t] | StopStrings ts \<Rightarrow> ts)"

definition clamp_bias :: "(int, rat) dict \<Rightarrow> (int, rat) dict" where
  "clamp_bias d = map (\<lambda>(token, bias). (token, min 100 (max (- 100) bias))) d"

definition SamplingParams_from_optional :: "sampling_args \<Rightarrow> SamplingParams result" where
  "SamplingParams_from_optional a =
     SamplingParams_post_init
       \<lparr>sp_n = default_to 1 (sa_n a), sp_best_of = sa_best_of a, sp_real_n = None,
        sp_presence_penalty = default_to 0 (sa_presence_penalty a), sp_frequency_penalty = default_to 0 (sa_frequency_penalty a),
        sp_repetition_penalty = default_to 1 (sa_repetition_penalty a), sp_temperature = default_to 1 (sa_temperature a),
        sp_top_p = default_to 1 (sa_top_p a), sp_top_k = sa_top_k a, sp_min_p = sa_min_p a, sp_seed = sa_seed a,
        sp_stop = stop_list (sa_stop a), sp_stop_token_ids = default_to [] (sa_stop_token_ids a), sp_ignore_eos = sa_ignore_eos a,
        sp_max_tokens = sa_max_tokens a, sp_min_tokens = sa_min_tokens a, sp_logprobs = sa_logprobs a,
        sp_prompt_logprobs = sa_prompt_logprobs a, sp_detokenize = sa_detokenize a,
        sp_skip_special_tokens = sa_skip_special_tokens a, sp_spaces_between_special_tokens = sa_spaces_between_special_tokens a,
        sp_include_stop_str_in_output = sa_include_stop_str_in_output a, sp_truncate_prompt_tokens = sa_truncate_prompt_tokens a,
        sp_output_kind = sa_output_kind a, sp_output_text_buffer_length = 0, sp_all_stop_token_ids = {},
        sp_guided_decoding = sa_guided_decoding a, sp_logit_bias = map_option clamp_bias (sa_logit_bias a),
        sp_allowed_token_ids = sa_allowed_token_ids a, sp_bad_words = default_to [] (sa_bad_words a), sp_bad_words_token_ids = []\<rparr>"

text \<open>The tensors of the sampler need a finite temperature only when tokens are drawn.\<close>

definition SamplingParams_sampling_type :: "SamplingParams \<Rightarrow> SamplingType" where
  "SamplingParams_sampling_type p =
     (if sp_temperature p < sampling_eps then GREEDY else if sp_seed p \<noteq> None then RANDOM_SEED else RANDOM)"

section \<open>Updates by the engine\<close>

text \<open>
  The end-of-sequence tokens of the generation configuration, already a list when the
  configuration gives a single one; \<open>order\<close> is the order in which the set is turned into a list.
\<close>

definition SamplingParams_update_from_generation_config :: "(int set \<Rightarrow> int list) \<Rightarrow> int list option \<Rightarrow> int option \<Rightarrow> SamplingParams \<Rightarrow> SamplingParams" where
  "SamplingParams_update_from_generation_config order config_eos model_eos_token_id p =
     (let p1 = (case model_eos_token_id of None \<Rightarrow> p | Some e \<Rightarrow> p\<lparr>sp_all_stop_token_ids := insert e (sp_all_stop_token_ids p)\<rparr>)
      in case config_eos of None \<Rightarrow> p1
         | Some ids \<Rightarrow>
             let eos_ids = set ids - (case model_eos_token_id of None \<Rightarrow> {} | Some e \<Rightarrow> {e})
             in if eos_ids = {} then p1
                else let p2 = p1\<lparr>sp_all_stop_token_ids := sp_all_stop_token_ids p1 \<union> eos_ids\<rparr>
                     in if sp_ignore_eos p2 then p2
                        else p2\<lparr>sp_stop_token_ids := order (eos_ids \<union> set (sp_stop_token_ids p2))\<rparr>)"

definition py_lstrip :: "string \<Rightarrow> string" where
  "py_lstrip = dropWhile py_space"

text \<open>A forbidden word is encoded without and with a space before it; the second only counts if it is one other token.\<close>

definition add_bad_word :: "(string \<Rightarrow> int list) \<Rightarrow> string \<Rightarrow> int list list \<Rightarrow> int list list result" where
  "add_bad_word encode bad_word ids =
     (let plain = encode (py_lstrip bad_word); ids1 = ids @ [plain]; spaced = encode (CHR '' '' # py_lstrip bad_word)
      in res_bind (py_getitem spaced 0) (\<lambda>t. res_bind (py_getitem (last ids1) 0) (\<lambda>u.
           Inr (if t \<noteq> u \<and> length spaced = length (last ids1) then ids1 @ [spaced] else ids1))))"

definition SamplingParams_update_from_tokenizer :: "(string \<Rightarrow> int list) \<Rightarrow> int \<Rightarrow> SamplingParams \<Rightarrow> SamplingParams result" where
  "SamplingParams_update_from_tokenizer encode max_token_id p =
     res_bind (res_fold (add_bad_word encode) (sp_bad_words p) (sp_bad_words_token_ids p)) (\<lambda>ids.
     let invalid_token_ids = filter (\<lambda>t. t < 0 \<or> t > max_token_id) (concat ids)
     in if invalid_token_ids \<noteq> [] then Inl ValueError else Inr (p\<lparr>sp_bad_words_token_ids := ids\<rparr>))"

section \<open>What a constructed object satisfies\<close>

definition params_ok :: "SamplingParams \<Rightarrow> bool" where
  "params_ok p \<longleftrightarrow> 1 \<le> sp_n p \<and> \<bar>sp_presence_penalty p\<bar> \<le> 2 \<and> \<bar>sp_frequency_penalty p\<bar> \<le> 2 \<and>
     0 < sp_repetition_penalty p \<and> sp_repetition_penalty p \<le> 2 \<and> (sp_temperature p = 0 \<or> max_temp \<le> sp_temperature p) \<and>
     0 < sp_top_p p \<and> sp_top_p p \<le> 1 \<and> (sp_top_k p = - 1 \<or> 1 \<le> sp_top_k p) \<and> 0 \<le> sp_min_p p \<and> sp_min_p p \<le> 1 \<and>
     0 \<le> sp_min_tokens p \<and> (\<forall>m. sp_max_tokens p = Some m \<longrightarrow> 1 \<le> m \<and> sp_min_tokens p \<le> m) \<and>
     (\<forall>k. sp_logprobs p = Some k \<longrightarrow> 0 \<le> k) \<and> (\<forall>k. sp_prompt_logprobs p = Some k \<longrightarrow> 0 \<le> k) \<and>
     [] \<notin> set (sp_stop p) \<and> (sp_temperature p = 0 \<longrightarrow> sp_n p = 1 \<and> sp_top_p p = 1 \<and> sp_top_k p = - 1 \<and> sp_min_p p = 0) \<and>
     (sp_stop p \<noteq> [] \<and> \<not> sp_include_stop_str_in_output p \<longrightarrow>
        (\<forall>t \<in> set (sp_stop p). int (length t) \<le> sp_output_text_buffer_length p + 1)) \<and>
     sp_all_stop_token_ids p = set (sp_stop_token_ids p)"

lemma if_error_iff: "(if b then Inl e else m) = Inr u \<longleftrightarrow> \<not> b \<and> m = Inr u"
  by simp

lemma verify_args_iff:
  "SamplingParams_verify_args p = Inr () \<longleftrightarrow> 1 \<le> sp_n p \<and> \<bar>sp_presence_penalty p\<bar> \<le> 2 \<and> \<bar>sp_frequency_penalty p\<bar> \<le> 2 \<and>
     0 < sp_repetition_penalty p \<and> sp_repetition_penalty p \<le> 2 \<and> 0 \<le> sp_temperature p \<and> 0 < sp_top_p p \<and> sp_top_p p \<le> 1 \<and>
     (sp_top_k p = - 1 \<or> 1 \<le> sp_top_k p) \<and> 0 \<le> sp_min_p p \<and> sp_min_p p \<le> 1 \<and>
     0 \<le> sp_min_tokens p \<and> (\<forall>m. sp_max_tokens p = Some m \<longrightarrow> 1 \<le> m \<and> sp_min_tokens p \<le> m) \<and>
     (\<forall>k. sp_logprobs p = Some k \<longrightarrow> 0 \<le> k) \<and> (\<forall>k. sp_prompt_logprobs p = Some k \<longrightarrow> 0 \<le> k) \<and>
     (\<forall>k. sp_truncate_prompt_tokens p = Some k \<longrightarrow> 1 \<le> k) \<and> [] \<notin> set (sp_stop p) \<and> (sp_stop p \<noteq> [] \<longrightarrow> sp_detokenize p) \<and>
     (sp_output_kind p = DELTA \<longrightarrow> sp_best_of p = sp_real_n p)"
proof -
  have k: "\<not> (k < - 1 \<or> k = 0) \<longleftrightarrow> k = - 1 \<or> 1 \<le> k" for k :: int by auto
  have o: "\<not> (case x of Some m \<Rightarrow> Q m | None \<Rightarrow> False) \<longleftrightarrow> (\<forall>m. x = Some m \<longrightarrow> \<not> Q m)" for x :: "int option" and Q by (cases x) auto
  have a: "- 2 \<le> x \<and> x \<le> 2 \<longleftrightarrow> \<bar>x\<bar> \<le> 2" for x :: rat by (simp add: abs_le_iff) (auto simp: minus_le_iff)
  show ?thesis
    unfolding SamplingParams_verify_args_def if_error_iff not_not k o a by (simp add: not_less) blast
qed

lemma resolve_best_of_frame:
  assumes "resolve_best_of p = Inr p'"
  shows "p' = p\<lparr>sp_n := sp_n p', sp_real_n := sp_real_n p'\<rparr>" "sp_n p \<noteq> 0 \<Longrightarrow> sp_best_of p = None \<or> sp_best_of p = Some 0 \<or>
      (\<exists>b. sp_best_of p = Some b \<and> sp_n p' \<le> b \<and> sp_real_n p' \<noteq> None \<and> sp_real_n p' \<noteq> Some 0)"
  using assms unfolding resolve_best_of_def by (auto split: option.splits if_splits)

lemma post_init_cases:
  assumes "SamplingParams_post_init p = Inr q"
  obtains p1 where "resolve_best_of p = Inr p1" "SamplingParams_verify_args (q\<lparr>sp_top_p := sp_top_p p, sp_top_k := sp_top_k p, sp_min_p := sp_min_p p\<rparr>) = Inr ()"
    "sp_temperature q = (if 0 < sp_temperature p \<and> sp_temperature p < max_temp then max_temp else sp_temperature p)"
    "sp_seed q = (if sp_seed p = Some (- 1) then None else sp_seed p)" "sp_n q = sp_n p1" "sp_real_n q = sp_real_n p1" "sp_best_of q = sp_best_of p"
    "sp_stop q = sp_stop p" "sp_include_stop_str_in_output q = sp_include_stop_str_in_output p"
    "sp_output_text_buffer_length q = (if sp_stop p \<noteq> [] \<and> \<not> sp_include_stop_str_in_output p
       then int (Max (length ` set (sp_stop p))) - 1 else sp_output_text_buffer_length p)"
    "sp_all_stop_token_ids q = set (sp_stop_token_ids q)" "sp_stop_token_ids q = sp_stop_token_ids p" "sp_logit_bias q = sp_logit_bias p"
    "if sp_temperature q < sampling_eps then sp_n q \<le> 1 \<and> sp_top_p q = 1 \<and> sp_top_k q = - 1 \<and> sp_min_p q = 0
     else sp_top_p q = sp_top_p p \<and> sp_top_k q = sp_top_k p \<and> sp_min_p q = sp_min_p p"
proof -
  obtain p1 where p1: "resolve_best_of p = Inr p1"
    using assms unfolding SamplingParams_post_init_def by (cases "resolve_best_of p") auto
  note f = resolve_best_of_frame(1)[OF p1]
  have e: "sp_temperature p1 = sp_temperature p" "sp_seed p1 = sp_seed p" "sp_stop p1 = sp_stop p" "sp_best_of p1 = sp_best_of p"
     "sp_include_stop_str_in_output p1 = sp_include_stop_str_in_output p" "sp_output_text_buffer_length p1 = sp_output_text_buffer_length p"
     "sp_stop_token_ids p1 = sp_stop_token_ids p" "sp_logit_bias p1 = sp_logit_bias p" "sp_top_p p1 = sp_top_p p" "sp_top_k p1 = sp_top_k p"
     "sp_min_p p1 = sp_min_p p"
    by (subst f, simp)+
  define p2 where "p2 = (if 0 < sp_temperature p1 \<and> sp_temperature p1 < max_temp then p1\<lparr>sp_temperature := max (sp_temperature p1) max_temp\<rparr> else p1)"
  define p3 where "p3 = (if sp_seed p2 = Some (- 1) then p2\<lparr>sp_seed := None\<rparr> else p2)"
  define p4 where "p4 = (if sp_stop p3 \<noteq> [] \<and> \<not> sp_include_stop_str_in_output p3
    then p3\<lparr>sp_output_text_buffer_length := int (Max (length ` set (sp_stop p3))) - 1\<rparr> else p3)"
  define p5 where "p5 = (if sp_temperature p4 < sampling_eps then p4\<lparr>sp_top_p := 1, sp_top_k := - 1, sp_min_p := 0\<rparr> else p4)"
  have run: "res_bind (SamplingParams_verify_args p4) (\<lambda>_.
        res_bind (if sp_temperature p4 < sampling_eps then SamplingParams_verify_greedy_sampling p5 else Inr ()) (\<lambda>_.
             Inr (p5\<lparr>sp_all_stop_token_ids := set (sp_stop_token_ids p5)\<rparr>))) = Inr q"
    using assms unfolding SamplingParams_post_init_def p1 res_bind_simps Let_def p2_def[symmetric] p3_def[symmetric] p4_def[symmetric] p5_def[symmetric] .
  then have v: "SamplingParams_verify_args p4 = Inr ()" by (cases "SamplingParams_verify_args p4") auto
  then have g: "sp_temperature p4 < sampling_eps \<Longrightarrow> sp_n p4 \<le> 1" and q: "q = p5\<lparr>sp_all_stop_token_ids := set (sp_stop_token_ids p5)\<rparr>"
    using run by (auto simp: SamplingParams_verify_greedy_sampling_def p5_def split: if_splits)
  have c4: "sp_temperature p4 = (if 0 < sp_temperature p \<and> sp_temperature p < max_temp then max_temp else sp_temperature p)"
    "sp_seed p4 = (if sp_seed p = Some (- 1) then None else sp_seed p)" "sp_n p4 = sp_n p1" "sp_real_n p4 = sp_real_n p1" "sp_best_of p4 = sp_best_of p"
    "sp_stop p4 = sp_stop p" "sp_include_stop_str_in_output p4 = sp_include_stop_str_in_output p"
    "sp_output_text_buffer_length p4 = (if sp_stop p \<noteq> [] \<and> \<not> sp_include_stop_str_in_output p
       then int (Max (length ` set (sp_stop p))) - 1 else sp_output_text_buffer_length p)"
    "sp_stop_token_ids p4 = sp_stop_token_ids p" "sp_logit_bias p4 = sp_logit_bias p"
    "sp_top_p p4 = sp_top_p p" "sp_top_k p4 = sp_top_k p" "sp_min_p p4 = sp_min_p p"
    using e by (auto simp: p4_def p3_def p2_def)
  have ver: "SamplingParams_verify_args (q\<lparr>sp_top_p := sp_top_p p, sp_top_k := sp_top_k p, sp_min_p := sp_min_p p\<rparr>) = Inr ()"
    unfolding q p5_def using v by (cases "sp_temperature p4 < sampling_eps") (simp_all add: verify_args_iff c4(11-13))
  have fin: "if sp_temperature q < sampling_eps then sp_n q \<le> 1 \<and> sp_top_p q = 1 \<and> sp_top_k q = - 1 \<and> sp_min_p q = 0
     else sp_top_p q = sp_top_p p \<and> sp_top_k q = sp_top_k p \<and> sp_min_p q = sp_min_p p"
    using g by (cases "sp_temperature p4 < sampling_eps") (simp_all add: q p5_def c4(11-13))
  have e: "sp_temperature q = sp_temperature p4" "sp_seed q = sp_seed p4" "sp_n q = sp_n p4" "sp_real_n q = sp_real_n p4"
    "sp_best_of q = sp_best_of p4" "sp_stop q = sp_stop p4" "sp_include_stop_str_in_output q = sp_include_stop_str_in_output p4"
    "sp_output_text_buffer_length q = sp_output_text_buffer_length p4" "sp_all_stop_token_ids q = set (sp_stop_token_ids q)"
    "sp_stop_token_ids q = sp_stop_token_ids p4" "sp_logit_bias q = sp_logit_bias p4"
    by (simp_all add: q p5_def)
  show ?thesis
    by (rule that[OF p1 ver trans[OF e(1) c4(1)] trans[OF e(2) c4(2)] trans[OF e(3) c4(3)] trans[OF e(4) c4(4)] trans[OF e(5) c4(5)]
          trans[OF e(6) c4(6)] trans[OF e(7) c4(7)] trans[OF e(8) c4(8)] e(9) trans[OF e(10) c4(9)] trans[OF e(11) c4(10)] fin])
qed

lemma max_temp_eps: "sampling_eps < max_temp" "0 < sampling_eps"
  by (simp_all add: sampling_eps_def max_temp_def)

lemma post_init_ok:
  assumes "SamplingParams_post_init p = Inr q"
  shows "params_ok q"
proof -
  obtain p1 where c: "SamplingParams_verify_args (q\<lparr>sp_top_p := sp_top_p p, sp_top_k := sp_top_k p, sp_min_p := sp_min_p p\<rparr>) = Inr ()"
    "sp_temperature q = (if 0 < sp_temperature p \<and> sp_temperature p < max_temp then max_temp else sp_temperature p)"
    "sp_stop q = sp_stop p" "sp_include_stop_str_in_output q = sp_include_stop_str_in_output p"
    "sp_output_text_buffer_length q = (if sp_stop p \<noteq> [] \<and> \<not> sp_include_stop_str_in_output p
       then int (Max (length ` set (sp_stop p))) - 1 else sp_output_text_buffer_length p)"
    "sp_all_stop_token_ids q = set (sp_stop_token_ids q)"
    "if sp_temperature q < sampling_eps then sp_n q \<le> 1 \<and> sp_top_p q = 1 \<and> sp_top_k q = - 1 \<and> sp_min_p q = 0
     else sp_top_p q = sp_top_p p \<and> sp_top_k q = sp_top_k p \<and> sp_min_p q = sp_min_p p"
    by (rule post_init_cases[OF assms]) (rule that; assumption)
  note v = c(1)[unfolded verify_args_iff, simplified]
  have t: "sp_temperature q = 0 \<or> max_temp \<le> sp_temperature q" using c(2) v by (auto split: if_splits)
  have z: "sp_temperature q < sampling_eps \<longleftrightarrow> sp_temperature q = 0" using t max_temp_eps by auto
  have "int (length w) \<le> sp_output_text_buffer_length q + 1" if "sp_stop q \<noteq> [] \<and> \<not> sp_include_stop_str_in_output q" "w \<in> set (sp_stop q)" for w
  proof -
    have "length w \<le> Max (length ` set (sp_stop q))" using that(2) by (intro Max_ge) auto
    then show ?thesis using c(3,4,5) that(1) by auto
  qed
  moreover have "0 < sp_top_p q \<and> sp_top_p q \<le> 1" "sp_top_k q = - 1 \<or> 1 \<le> sp_top_k q" "0 \<le> sp_min_p q \<and> sp_min_p q \<le> 1"
    using c(7) v by (auto split: if_splits)
  ultimately show ?thesis unfolding params_ok_def using v t z c(6,7) by (auto split: if_splits)
qed

text \<open>Normalising twice, as decoding a serialised object does, changes nothing.\<close>

lemma post_init_idem:
  assumes "SamplingParams_post_init p = Inr q" "sp_n p \<noteq> 0"
  shows "SamplingParams_post_init q = Inr q"
proof -
  obtain p1 where c: "resolve_best_of p = Inr p1"
    "SamplingParams_verify_args (q\<lparr>sp_top_p := sp_top_p p, sp_top_k := sp_top_k p, sp_min_p := sp_min_p p\<rparr>) = Inr ()"
    "sp_temperature q = (if 0 < sp_temperature p \<and> sp_temperature p < max_temp then max_temp else sp_temperature p)"
    "sp_seed q = (if sp_seed p = Some (- 1) then None else sp_seed p)" "sp_n q = sp_n p1" "sp_real_n q = sp_real_n p1" "sp_best_of q = sp_best_of p"
    "sp_stop q = sp_stop p" "sp_include_stop_str_in_output q = sp_include_stop_str_in_output p"
    "sp_output_text_buffer_length q = (if sp_stop p \<noteq> [] \<and> \<not> sp_include_stop_str_in_output p
       then int (Max (length ` set (sp_stop p))) - 1 else sp_output_text_buffer_length p)"
    "sp_all_stop_token_ids q = set (sp_stop_token_ids q)"
    "if sp_temperature q < sampling_eps then sp_n q \<le> 1 \<and> sp_top_p q = 1 \<and> sp_top_k q = - 1 \<and> sp_min_p q = 0
     else sp_top_p q = sp_top_p p \<and> sp_top_k q = sp_top_k p \<and> sp_min_p q = sp_min_p p"
    by (rule post_init_cases[OF assms(1)]) (rule that; assumption)
  have b1: "sp_best_of p1 = sp_best_of p" by (subst resolve_best_of_frame(1)[OF c(1)]) simp
  have rb: "resolve_best_of q = Inr q"
    using resolve_best_of_frame(2)[OF c(1) assms(2)] c(5,6,7) b1 unfolding resolve_best_of_def by (auto split: option.splits if_splits)
  have t: "(if 0 < sp_temperature q \<and> sp_temperature q < max_temp then q\<lparr>sp_temperature := max (sp_temperature q) max_temp\<rparr> else q) = q"
    using c(3) by (auto split: if_splits)
  have s: "(if sp_seed q = Some (- 1) then q\<lparr>sp_seed := None\<rparr> else q) = q" using c(4) by auto
  have l: "(if sp_stop q \<noteq> [] \<and> \<not> sp_include_stop_str_in_output q
    then q\<lparr>sp_output_text_buffer_length := int (Max (length ` set (sp_stop q))) - 1\<rparr> else q) = q" using c(8,9,10) by simp
  have v: "SamplingParams_verify_args q = Inr ()"
    using c(2,12) unfolding verify_args_iff by (cases "sp_temperature q < sampling_eps") simp_all
  have g: "(if sp_temperature q < sampling_eps then q\<lparr>sp_top_p := 1, sp_top_k := - 1, sp_min_p := 0\<rparr> else q) = q" using c(12) by simp
  have gr: "(if sp_temperature q < sampling_eps then SamplingParams_verify_greedy_sampling q else Inr ()) = Inr ()"
    using c(12) by (auto simp add: SamplingParams_verify_greedy_sampling_def)
  have e: "q\<lparr>sp_all_stop_token_ids := set (sp_stop_token_ids q)\<rparr> = q" using c(11) by simp
  show ?thesis unfolding SamplingParams_post_init_def rb res_bind_simps Let_def t s l v g gr e ..
qed

text \<open>With \<open>best_of\<close> the number of sequences that was asked for is replaced before it is checked.\<close>

lemma best_of_hides_bad_n:
  "\<exists>p. SamplingParams_post_init (SamplingParams_default\<lparr>sp_n := - 3, sp_best_of := Some 2\<rparr>) = Inr p \<and> sp_real_n p = Some (- 3) \<and> sp_n p = 2"
proof -
  have "case SamplingParams_post_init (SamplingParams_default\<lparr>sp_n := - 3, sp_best_of := Some 2\<rparr>) of Inl _ \<Rightarrow> False
    | Inr p \<Rightarrow> sp_real_n p = Some (- 3) \<and> sp_n p = 2" by code_simp
  then show ?thesis by (auto split: sum.splits)
qed

section \<open>The property\<close>

definition default_sampling_args :: sampling_args where
  "default_sampling_args =
     \<lparr>sa_n = Some 1, sa_best_of = None, sa_presence_penalty = Some 0, sa_frequency_penalty = Some 0, sa_repetition_penalty = Some 1,
      sa_temperature = Some 1, sa_top_p = Some 1, sa_top_k = - 1, sa_min_p = 0, sa_seed = None, sa_stop = NoStop,
      sa_stop_token_ids = None, sa_bad_words = None, sa_include_stop_str_in_output = False, sa_ignore_eos = False,
      sa_max_tokens = Some 16, sa_min_tokens = 0, sa_logprobs = None, sa_prompt_logprobs = None, sa_detokenize = True,
      sa_skip_special_tokens = True, sa_spaces_between_special_tokens = True, sa_truncate_prompt_tokens = None,
      sa_output_kind = CUMULATIVE, sa_guided_decoding = None, sa_logit_bias = None, sa_allowed_token_ids = None\<rparr>"

text \<open>
  C23. Sampling parameters that the constructor accepts are in range. The penalties, probabilities
  and counts are in their documented ranges; the temperature is 0, and then the sampling is greedy,
  draws one sequence and filters nothing, or at least 1/100, so that dividing by it is safe; enough
  characters are held back for every stop string; the biases are clamped; and normalising the
  object once more changes nothing unless the number of sequences was given as 0.
\<close>

theorem SamplingParams_accepted_in_range:
  assumes "SamplingParams_from_optional a = Inr p"
  shows "params_ok p \<and> (SamplingParams_sampling_type p = GREEDY \<longleftrightarrow> sp_temperature p = 0) \<and>
     (\<forall>d. sp_logit_bias p = Some d \<longrightarrow> (\<forall>(token, bias) \<in> set d. - 100 \<le> bias \<and> bias \<le> 100)) \<and>
     (sa_n a \<noteq> Some 0 \<longrightarrow> SamplingParams_post_init p = Inr p)"
proof -
  define q where "q = \<lparr>sp_n = default_to 1 (sa_n a), sp_best_of = sa_best_of a, sp_real_n = None,
        sp_presence_penalty = default_to 0 (sa_presence_penalty a), sp_frequency_penalty = default_to 0 (sa_frequency_penalty a),
        sp_repetition_penalty = default_to 1 (sa_repetition_penalty a), sp_temperature = default_to 1 (sa_temperature a),
        sp_top_p = default_to 1 (sa_top_p a), sp_top_k = sa_top_k a, sp_min_p = sa_min_p a, sp_seed = sa_seed a,
        sp_stop = stop_list (sa_stop a), sp_stop_token_ids = default_to [] (sa_stop_token_ids a), sp_ignore_eos = sa_ignore_eos a,
        sp_max_tokens = sa_max_tokens a, sp_min_tokens = sa_min_tokens a, sp_logprobs = sa_logprobs a,
        sp_prompt_logprobs = sa_prompt_logprobs a, sp_detokenize = sa_detokenize a,
        sp_skip_special_tokens = sa_skip_special_tokens a, sp_spaces_between_special_tokens = sa_spaces_between_special_tokens a,
        sp_include_stop_str_in_output = sa_include_stop_str_in_output a, sp_truncate_prompt_tokens = sa_truncate_prompt_tokens a,
        sp_output_kind = sa_output_kind a, sp_output_text_buffer_length = 0, sp_all_stop_token_ids = {},
        sp_guided_decoding = sa_guided_decoding a, sp_logit_bias = map_option clamp_bias (sa_logit_bias a),
        sp_allowed_token_ids = sa_allowed_token_ids a, sp_bad_words = default_to [] (sa_bad_words a), sp_bad_words_token_ids = []\<rparr>"
  have q: "SamplingParams_post_init q = Inr p" using assms unfolding SamplingParams_from_optional_def q_def .
  note ok = post_init_ok[OF q]
  have "SamplingParams_sampling_type p = GREEDY \<longleftrightarrow> sp_temperature p = 0"
    using ok max_temp_eps by (auto simp: SamplingParams_sampling_type_def params_ok_def)
  moreover have "- 100 \<le> bias \<and> bias \<le> 100" if d: "sp_logit_bias p = Some d" "(token, bias) \<in> set d" for d token bias
  proof -
    have "sp_logit_bias p = sp_logit_bias q" by (rule post_init_cases[OF q])
    moreover have "sp_logit_bias q = map_option clamp_bias (sa_logit_bias a)" by (simp add: q_def)
    ultimately have "map_option clamp_bias (sa_logit_bias a) = Some d" using d(1) by simp
    then obtain e where "d = clamp_bias e" by (auto simp only: map_option_eq_Some)
    then show ?thesis using d(2) by (auto simp: clamp_bias_def)
  qed
  moreover have "SamplingParams_post_init p = Inr p" if "sa_n a \<noteq> Some 0"
    using post_init_idem[OF q] that by (cases "sa_n a") (simp_all add: q_def default_to_def)
  ultimately show ?thesis using ok by fastforce
qed

theorem SamplingParams_accepted_in_range_witness:
  "\<exists>p. SamplingParams_from_optional (default_sampling_args\<lparr>sa_temperature := Some (1 / 1000)\<rparr>) = Inr p \<and> sp_temperature p = 1 / 100 \<and> params_ok p"
proof -
  have "case SamplingParams_from_optional (default_sampling_args\<lparr>sa_temperature := Some (1 / 1000)\<rparr>) of Inl _ \<Rightarrow> False
    | Inr p \<Rightarrow> sp_temperature p = 1 / 100" by code_simp
  then obtain p where p: "SamplingParams_from_optional (default_sampling_args\<lparr>sa_temperature := Some (1 / 1000)\<rparr>) = Inr p" "sp_temperature p = 1 / 100"
    by (auto split: sum.splits)
  from SamplingParams_accepted_in_range[OF p(1)] p show ?thesis by simp
qed

end
