(* ===== verification/KV_Request.thy ===== *)
theory KV_Request
  imports KV_Blocks Sampling_Params
begin

text \<open>
  Requests of the v1 engine (v1/request.py) and the hashing of their token blocks
  (v1/core/kv_cache_utils.py). The builtin hash of tuples and of the string None are the record
  \<open>kv_hasher\<close>, an argument of the definitions that hash.
\<close>

section \<open>Requests\<close>

datatype RequestStatus = WAITING | WAITING_FOR_FSM | RUNNING | PREEMPTED
  | FINISHED_STOPPED | FINISHED_LENGTH_CAPPED | FINISHED_ABORTED | FINISHED_IGNORED

datatype FinishReason = STOP | LENGTH | ABORT

text \<open>The enumeration numbers its members from 1 in their order.\<close>

primrec status_value :: "RequestStatus \<Rightarrow> nat" where
  "status_value WAITING = 1" | "status_value WAITING_FOR_FSM = 2" | "status_value RUNNING = 3"
| "status_value PREEMPTED = 4" | "status_value FINISHED_STOPPED = 5" | "status_value FINISHED_LENGTH_CAPPED = 6"
| "status_value FINISHED_ABORTED = 7" | "status_value FINISHED_IGNORED = 8"

lemma status_value_inject: "status_value s = status_value t \<Longrightarrow> s = t"
  by (cases s; cases t) simp_all

text \<open>An IntEnum is compared by its numbers.\<close>

instantiation RequestStatus :: linorder
begin

definition less_eq_RequestStatus :: "RequestStatus \<Rightarrow> RequestStatus \<Rightarrow> bool" where
  "less_eq_RequestStatus s t \<longleftrightarrow> status_value s \<le> status_value t"

definition less_RequestStatus :: "RequestStatus \<Rightarrow> RequestStatus \<Rightarrow> bool" where
  "less_RequestStatus s t \<longleftrightarrow> status_value s < status_value t"

instance
  by standard (auto simp: less_eq_RequestStatus_def less_RequestStatus_def intro: status_value_inject)

end

definition RequestStatus_is_finished :: "RequestStatus \<Rightarrow> bool" where
  "RequestStatus_is_finished status \<longleftrightarrow> PREEMPTED < status"

definition RequestStatus_get_finished_reason :: "RequestStatus \<Rightarrow> FinishReason option" where
  "RequestStatus_get_finished_reason status = map_of [(FINISHED_STOPPED, STOP), (FINISHED_LENGTH_CAPPED, LENGTH),
     (FINISHED_ABORTED, ABORT), (FINISHED_IGNORED, LENGTH)] status"

record mm_position =
  mp_offset :: int
  mp_length :: int

text \<open>The events of a request, each with the time at which it is recorded.\<close>

datatype EngineCoreEventType = EV_QUEUED | EV_SCHEDULED | EV_PREEMPTED

text \<open>\<open>rq_grammar\<close> says whether the grammar of a structured-output request is compiled.\<close>

record Request =
  rq_request_id :: string
  rq_sampling_params :: SamplingParams
  rq_eos_token_id :: "int option"
  rq_lora_request :: "int option"
  rq_grammar :: bool
  rq_stop_reason :: "int option"
  rq_status :: RequestStatus
  rq_events :: "(EngineCoreEventType \<times> rat) list"
  rq_max_tokens :: int
  rq_num_prompt_tokens :: nat
  rq_output_token_ids :: "int list"
  rq_all_token_ids :: "int list"
  rq_spec_token_ids :: "int list"
  rq_num_computed_tokens :: int
  rq_mm_positions :: "mm_position list"
  rq_mm_hashes :: "string option list"

text \<open>
  Construction. The multi-modal inputs are opaque tensors: only how many there are counts, and the
  code asserts that their number fits the positions and the hashes.
\<close>

definition Request_init ::
    "string \<Rightarrow> int list \<Rightarrow> nat \<Rightarrow> string option list \<Rightarrow> mm_position list \<Rightarrow> SamplingParams \<Rightarrow> int option \<Rightarrow> int option \<Rightarrow> Request result" where
  "Request_init request_id prompt_token_ids num_mm_inputs mm_hashes mm_positions params eos_token_id lora_request =
     (case sp_max_tokens params of None \<Rightarrow> Inl AssertionError
      | Some max_tokens \<Rightarrow>
          res_bind (py_assert (num_mm_inputs = length mm_positions)) (\<lambda>_.
          res_bind (py_assert (mm_hashes = [] \<or> num_mm_inputs = length mm_hashes)) (\<lambda>_.
            Inr \<lparr>rq_request_id = request_id, rq_sampling_params = params, rq_eos_token_id = eos_token_id,
                 rq_lora_request = lora_request, rq_grammar = False, rq_stop_reason = None,
                 rq_status = (if sp_guided_decoding params \<noteq> None then WAITING_FOR_FSM else WAITING), rq_events = [],
                 rq_max_tokens = max_tokens, rq_num_prompt_tokens = length prompt_token_ids,
                 rq_output_token_ids = [], rq_all_token_ids = prompt_token_ids, rq_spec_token_ids = [],
                 rq_num_computed_tokens = 0, rq_mm_positions = mm_positions, rq_mm_hashes = mm_hashes\<rparr>)))"

definition Request_queued :: "Request \<Rightarrow> rat \<Rightarrow> Request" where
  "Request_queued r timestamp = r\<lparr>rq_events := rq_events r @ [(EV_QUEUED, timestamp)]\<rparr>"

definition Request_scheduled :: "Request \<Rightarrow> rat \<Rightarrow> Request" where
  "Request_scheduled r timestamp = r\<lparr>rq_events := rq_events r @ [(EV_SCHEDULED, timestamp)]\<rparr>"

definition Request_take_events :: "Request \<Rightarrow> (EngineCoreEventType \<times> rat) list option \<times> Request" where
  "Request_take_events r = (if rq_events r = [] then (None, r) else (Some (rq_events r), r\<lparr>rq_events := []\<rparr>))"

definition Request_use_structured_output :: "Request \<Rightarrow> bool" where
  "Request_use_structured_output r = (sp_guided_decoding (rq_sampling_params r) \<noteq> None)"

definition Request_append_output_token_ids :: "Request \<Rightarrow> int list \<Rightarrow> Request" where
  "Request_append_output_token_ids r token_ids =
     r\<lparr>rq_output_token_ids := rq_output_token_ids r @ token_ids, rq_all_token_ids := rq_all_token_ids r @ token_ids\<rparr>"

definition Request_num_tokens :: "Request \<Rightarrow> nat" where
  "Request_num_tokens r = length (rq_all_token_ids r)"

definition Request_num_tokens_with_spec :: "Request \<Rightarrow> nat" where
  "Request_num_tokens_with_spec r = length (rq_all_token_ids r) + length (rq_spec_token_ids r)"

definition Request_num_output_tokens :: "Request \<Rightarrow> nat" where
  "Request_num_output_tokens r = length (rq_output_token_ids r)"

definition Request_is_finished :: "Request \<Rightarrow> bool" where
  "Request_is_finished r = RequestStatus_is_finished (rq_status r)"

definition Request_get_finished_reason :: "Request \<Rightarrow> FinishReason option" where
  "Request_get_finished_reason r = RequestStatus_get_finished_reason (rq_status r)"

definition Request_has_encoder_inputs :: "Request \<Rightarrow> bool" where
  "Request_has_encoder_inputs r \<longleftrightarrow> 0 < length (rq_mm_positions r)"

definition Request_num_encoder_inputs :: "Request \<Rightarrow> nat" where
  "Request_num_encoder_inputs r = length (rq_mm_positions r)"

definition Request_get_num_encoder_tokens :: "Request \<Rightarrow> nat \<Rightarrow> int result" where
  "Request_get_num_encoder_tokens r input_id =
     res_bind (py_assert (input_id < length (rq_mm_positions r))) (\<lambda>_.
       Inr (mp_length (rq_mm_positions r ! input_id)))"

section \<open>Extra keys\<close>

definition need_extra_keys :: "Request \<Rightarrow> bool" where
  "need_extra_keys r \<longleftrightarrow> rq_mm_positions r \<noteq> [] \<or> rq_lora_request r \<noteq> None"

text \<open>The loop over the multi-modal inputs from the current one on.\<close>

fun mm_keys_loop :: "int \<Rightarrow> int \<Rightarrow> nat \<Rightarrow> (mm_position \<times> string option) list \<Rightarrow> (extra_key list \<times> nat) result" where
  "mm_keys_loop start_token_idx end_token_idx idx [] = Inr ([], idx)"
| "mm_keys_loop start_token_idx end_token_idx idx ((p, h) # rest) =
     (case h of None \<Rightarrow> Inl AssertionError
      | Some key \<Rightarrow>
          if end_token_idx > mp_offset p
          then if start_token_idx > mp_offset p + mp_length p
               then mm_keys_loop start_token_idx end_token_idx (Suc idx) rest
               else if end_token_idx \<ge> mp_offset p + mp_length p
               then res_bind (mm_keys_loop start_token_idx end_token_idx (Suc idx) rest) (\<lambda>(keys, i). Inr (MMHash key # keys, i))
               else Inr ([MMHash key], idx)
          else Inr ([], idx))"

definition gen_mm_extra_hash_keys :: "Request \<Rightarrow> int \<Rightarrow> int \<Rightarrow> int \<Rightarrow> (extra_key list \<times> int) result" where
  "gen_mm_extra_hash_keys r start_token_idx end_token_idx start_mm_idx =
     (let ps = rq_mm_positions r; hs = rq_mm_hashes r in
      if ps = [] then Inr ([], start_mm_idx)
      else if length ps \<noteq> length hs then Inl ValueError
      else if mp_offset (last ps) + mp_length (last ps) < start_token_idx then Inr ([], start_mm_idx)
      else res_bind (py_assert (0 \<le> start_mm_idx \<or> - start_mm_idx \<le> int (length ps))) (\<lambda>_.
           let idx = nat (if start_mm_idx < 0 then int (length ps) + start_mm_idx else start_mm_idx)
           in res_bind (mm_keys_loop start_token_idx end_token_idx idx (drop idx (zip ps hs))) (\<lambda>(keys, i).
                Inr (keys, int i))))"

definition gen_lora_extra_hash_keys :: "Request \<Rightarrow> extra_key list" where
  "gen_lora_extra_hash_keys r = (case rq_lora_request r of None \<Rightarrow> [] | Some i \<Rightarrow> [LoraId i])"

definition generate_block_hash_extra_keys :: "Request \<Rightarrow> int \<Rightarrow> int \<Rightarrow> int \<Rightarrow> (extra_key list option \<times> int) result" where
  "generate_block_hash_extra_keys r start_token_idx end_token_idx start_mm_idx =
     res_bind (gen_mm_extra_hash_keys r start_token_idx end_token_idx start_mm_idx) (\<lambda>(mm_keys, idx).
       let extra_keys = gen_lora_extra_hash_keys r @ mm_keys
       in Inr (if extra_keys = [] then None else Some extra_keys, idx))"

section \<open>Block hashes\<close>

record kv_hasher =
  kh_tuple :: "int \<Rightarrow> int list \<Rightarrow> extra_key list option \<Rightarrow> int"
  kh_none :: int

definition hash_block_tokens_v1 :: "kv_hasher \<Rightarrow> int option \<Rightarrow> int list \<Rightarrow> extra_key list option \<Rightarrow> BlockHashType" where
  "hash_block_tokens_v1 H parent_block_hash curr_block_token_ids extra_keys =
     (let parent = (case parent_block_hash of None \<Rightarrow> kh_none H | Some h \<Rightarrow> if h = 0 then kh_none H else h)
      in \<lparr>hash_value = kh_tuple H parent curr_block_token_ids extra_keys, hash_token_ids = curr_block_token_ids,
          hash_extra_keys = extra_keys\<rparr>)"

text \<open>The loop over the start indices; \<open>token_ids\<close> are the tokens from \<open>start\<close> on.\<close>

function hash_tokens_loop :: "kv_hasher \<Rightarrow> nat \<Rightarrow> Request \<Rightarrow> nat \<Rightarrow> int list \<Rightarrow> int option \<Rightarrow> int \<Rightarrow> BlockHashType list result" where
  "hash_tokens_loop H block_size r start token_ids parent_block_hash curr_mm_idx =
     (if block_size = 0 \<or> length token_ids < block_size then Inr []
      else res_bind (if need_extra_keys r
             then generate_block_hash_extra_keys r (int start) (int (start + block_size)) curr_mm_idx
             else Inr (None, curr_mm_idx)) (\<lambda>(extra_keys, mm_idx).
           let h = hash_block_tokens_v1 H parent_block_hash (take block_size token_ids) extra_keys
           in res_bind (hash_tokens_loop H block_size r (start + block_size) (drop block_size token_ids) (Some (hash_value h)) mm_idx)
                (\<lambda>hs. Inr (h # hs))))"
  by pat_completeness auto
termination by (relation "measure (\<lambda>(_, block_size, _, _, token_ids, _, _). length token_ids)") auto

declare hash_tokens_loop.simps [simp del]

definition hash_request_tokens :: "kv_hasher \<Rightarrow> nat \<Rightarrow> Request \<Rightarrow> BlockHashType list result" where
  "hash_request_tokens H block_size r =
     (if block_size = 0 then Inl ValueError else hash_tokens_loop H block_size r 0 (rq_all_token_ids r) None 0)"

end
