(* ===== verification/KV_Block_Pool.thy ===== *)
theory KV_Block_Pool
  imports KV_Request
begin

text \<open>
  The block pool of the v1 engine (v1/core/block_pool.py): reference counts, the map from block
  hashes to cached blocks and the queue of free blocks, and the invariant that ties them together.
\<close>

section \<open>State and construction\<close>

record BlockPool_v1 =
  vp_num_gpu_blocks :: nat
  vp_enable_caching :: bool
  vp_blocks :: kv_store
  vp_free_block_queue :: FreeKVCacheBlockQueue
  vp_cached_block_hash_to_block :: "(BlockHashType, (nat, kv_ref) dict) dict"

definition vp_queue :: "BlockPool_v1 \<Rightarrow> FreeKVCacheBlockQueue \<times> kv_store" where
  "vp_queue p = (vp_free_block_queue p, vp_blocks p)"

definition vp_set_queue :: "FreeKVCacheBlockQueue \<times> kv_store \<Rightarrow> BlockPool_v1 \<Rightarrow> BlockPool_v1" where
  "vp_set_queue s p = p\<lparr>vp_free_block_queue := fst s, vp_blocks := snd s\<rparr>"

definition vp_update :: "kv_ref \<Rightarrow> (KVCacheBlock \<Rightarrow> KVCacheBlock) \<Rightarrow> BlockPool_v1 \<Rightarrow> BlockPool_v1" where
  "vp_update r f p = p\<lparr>vp_blocks := kv_update r f (vp_blocks p)\<rparr>"

definition BlockPool_v1_init :: "nat \<Rightarrow> bool \<Rightarrow> BlockPool_v1 result" where
  "BlockPool_v1_init num_gpu_blocks enable_caching =
     res_bind (FreeKVCacheBlockQueue_init [0..<num_gpu_blocks] (map KVCacheBlock_init [0..<num_gpu_blocks])) (\<lambda>(q, bs).
       Inr \<lparr>vp_num_gpu_blocks = num_gpu_blocks, vp_enable_caching = enable_caching, vp_blocks = bs,
            vp_free_block_queue = q, vp_cached_block_hash_to_block = []\<rparr>)"

section \<open>Operations\<close>

definition BlockPool_v1_get_cached_block :: "BlockPool_v1 \<Rightarrow> BlockHashType \<Rightarrow> kv_ref option result" where
  "BlockPool_v1_get_cached_block p block_hash =
     (case dict_get (vp_cached_block_hash_to_block p) block_hash of
        None \<Rightarrow> Inr None
      | Some blocks \<Rightarrow> (case dict_keys blocks of [] \<Rightarrow> Inl IndexError
          | first_block_id # _ \<Rightarrow> res_bind (dict_item blocks first_block_id) (\<lambda>r. Inr (Some r))))"

definition BlockPool_v1_get_num_free_blocks :: "BlockPool_v1 \<Rightarrow> int" where
  "BlockPool_v1_get_num_free_blocks p = fq_num_free_blocks (vp_free_block_queue p)"

definition BlockPool_v1_get_usage :: "BlockPool_v1 \<Rightarrow> rat result" where
  "BlockPool_v1_get_usage p =
     (if vp_num_gpu_blocks p = 0 then Inl ZeroDivisionError
      else Inr (1 - of_int (BlockPool_v1_get_num_free_blocks p) / of_nat (vp_num_gpu_blocks p)))"

text \<open>Entering a block into the map, a defaultdict of dictionaries.\<close>

definition cache_block :: "BlockHashType \<Rightarrow> kv_ref \<Rightarrow> BlockPool_v1 \<Rightarrow> BlockPool_v1 result" where
  "cache_block h r p =
     res_bind (KVCacheBlock_set_block_hash h (vp_blocks p ! r)) (\<lambda>b.
       Inr (vp_update r (\<lambda>_. b) p\<lparr>vp_cached_block_hash_to_block :=
          dict_set h (dict_set (kb_block_id b) r (dict_get_default (vp_cached_block_hash_to_block p) h []))
            (vp_cached_block_hash_to_block p)\<rparr>))"

text \<open>The hash of the \<open>i\<close>-th new block: given, or computed from the tokens of the request.\<close>

definition new_block_hash :: "kv_hasher \<Rightarrow> Request \<Rightarrow> nat \<Rightarrow> int \<Rightarrow> int option \<Rightarrow> BlockHashType list \<Rightarrow> nat \<Rightarrow>
    BlockHashType list \<Rightarrow> (BlockHashType \<times> BlockHashType list) result" where
  "new_block_hash H r block_size num_cached_blocks prev new_block_hashes i block_hashes =
     (if i < length new_block_hashes then Inr (new_block_hashes ! i, block_hashes)
      else let blk_idx = num_cached_blocks + int i;
               start_token_idx = blk_idx * int block_size; end_token_idx = (blk_idx + 1) * int block_size;
               block_tokens = py_slice (rq_all_token_ids r) start_token_idx end_token_idx
           in res_bind (py_assert (length block_tokens = block_size)) (\<lambda>_.
              res_bind (generate_block_hash_extra_keys r start_token_idx end_token_idx (- 1)) (\<lambda>(extra_keys, _).
                let h = hash_block_tokens_v1 H prev block_tokens extra_keys in Inr (h, block_hashes @ [h]))))"

fun cache_blocks_loop :: "kv_hasher \<Rightarrow> Request \<Rightarrow> nat \<Rightarrow> int \<Rightarrow> BlockHashType list \<Rightarrow> int option \<Rightarrow> nat \<Rightarrow> kv_ref list \<Rightarrow>
    BlockHashType list \<Rightarrow> BlockPool_v1 \<Rightarrow> (BlockHashType list \<times> BlockPool_v1) result" where
  "cache_blocks_loop H r block_size num_cached_blocks new_block_hashes prev i [] block_hashes p = Inr (block_hashes, p)"
| "cache_blocks_loop H r block_size num_cached_blocks new_block_hashes prev i (blk # blks) block_hashes p =
     res_bind (py_assert (kb_block_hash (vp_blocks p ! blk) = None)) (\<lambda>_.
     res_bind (new_block_hash H r block_size num_cached_blocks prev new_block_hashes i block_hashes) (\<lambda>(h, block_hashes1).
     res_bind (cache_block h blk p) (\<lambda>p1.
       cache_blocks_loop H r block_size num_cached_blocks new_block_hashes (Some (hash_value h)) (Suc i) blks block_hashes1 p1)))"

text \<open>The hash of the last cached block, which the first new one continues.\<close>

definition last_cached_hash :: "BlockPool_v1 \<Rightarrow> kv_ref list \<Rightarrow> int \<Rightarrow> int option result" where
  "last_cached_hash p blocks num_cached_blocks =
     (if num_cached_blocks = 0 then Inr None
      else res_bind (py_getitem blocks (num_cached_blocks - 1)) (\<lambda>prev_block.
           case kb_block_hash (vp_blocks p ! prev_block) of
             None \<Rightarrow> Inl AssertionError | Some h \<Rightarrow> Inr (Some (hash_value h))))"

definition BlockPool_v1_cache_full_blocks :: "kv_hasher \<Rightarrow> Request \<Rightarrow> kv_ref list \<Rightarrow> BlockHashType list \<Rightarrow> int \<Rightarrow> int \<Rightarrow> nat \<Rightarrow>
    BlockPool_v1 \<Rightarrow> (BlockHashType list \<times> BlockPool_v1) result" where
  "BlockPool_v1_cache_full_blocks H r blocks block_hashes num_cached_blocks num_full_blocks block_size p =
     (if num_cached_blocks = num_full_blocks then Inr (block_hashes, p)
      else let new_full_blocks = py_slice blocks num_cached_blocks num_full_blocks
           in res_bind (py_assert (int (length block_hashes) \<ge> num_cached_blocks)) (\<lambda>_.
              let new_block_hashes = py_slice block_hashes num_cached_blocks (int (length block_hashes))
              in res_bind (last_cached_hash p blocks num_cached_blocks) (\<lambda>prev.
                   cache_blocks_loop H r block_size num_cached_blocks new_block_hashes prev 0 new_full_blocks block_hashes p)))"

definition BlockPool_v1_maybe_evict_cached_block :: "kv_ref \<Rightarrow> BlockPool_v1 \<Rightarrow> (bool \<times> BlockPool_v1) result" where
  "BlockPool_v1_maybe_evict_cached_block r p =
     (case kb_block_hash (vp_blocks p ! r) of
        None \<Rightarrow> Inr (False, p)
      | Some h \<Rightarrow>
          (case dict_get (vp_cached_block_hash_to_block p) h of
             None \<Rightarrow> Inr (False, p)
           | Some blocks \<Rightarrow>
               let block_id = kb_block_id (vp_blocks p ! r); p1 = vp_update r KVCacheBlock_reset_hash p
               in if \<not> dict_has blocks block_id then Inl KeyError
                  else let blocks1 = dict_pop block_id blocks
                       in Inr (True, p1\<lparr>vp_cached_block_hash_to_block :=
                            (if blocks1 = [] then dict_pop h (vp_cached_block_hash_to_block p)
                             else dict_set h blocks1 (vp_cached_block_hash_to_block p))\<rparr>)))"

text \<open>One round of the allocation loop, and the loop.\<close>

definition get_new_block :: "BlockPool_v1 \<Rightarrow> (kv_ref \<times> BlockPool_v1) result" where
  "get_new_block p =
     res_bind (FreeKVCacheBlockQueue_popleft (vp_queue p)) (\<lambda>(r, s).
       let p1 = vp_set_queue s p in
       res_bind (py_assert (kb_ref_cnt (vp_blocks p1 ! r) = 0)) (\<lambda>_.
       res_bind (if vp_enable_caching p1 then BlockPool_v1_maybe_evict_cached_block r p1 else Inr (False, p1)) (\<lambda>(_, p2).
         Inr (r, vp_update r KVCacheBlock_incr_ref p2))))"

definition BlockPool_v1_get_new_blocks :: "nat \<Rightarrow> BlockPool_v1 \<Rightarrow> (kv_ref list \<times> BlockPool_v1) result" where
  "BlockPool_v1_get_new_blocks num_blocks p =
     (if int num_blocks > BlockPool_v1_get_num_free_blocks p then Inl ValueError
      else pop_many get_new_block num_blocks p)"

primrec BlockPool_v1_touch :: "kv_ref list \<Rightarrow> BlockPool_v1 \<Rightarrow> BlockPool_v1" where
  "BlockPool_v1_touch [] p = p"
| "BlockPool_v1_touch (r # rs) p =
     (let p1 = (if kb_ref_cnt (vp_blocks p ! r) = 0
                then vp_set_queue (FreeKVCacheBlockQueue_remove r (vp_queue p)) p else p)
      in BlockPool_v1_touch rs (vp_update r KVCacheBlock_incr_ref p1))"

primrec BlockPool_v1_free_blocks :: "kv_ref list \<Rightarrow> BlockPool_v1 \<Rightarrow> BlockPool_v1 result" where
  "BlockPool_v1_free_blocks [] p = Inr p"
| "BlockPool_v1_free_blocks (r # rs) p =
     (let p1 = vp_update r KVCacheBlock_decr_ref p
      in if kb_ref_cnt (vp_blocks p1 ! r) = 0
         then res_bind (FreeKVCacheBlockQueue_append r (vp_queue p1)) (\<lambda>s. BlockPool_v1_free_blocks rs (vp_set_queue s p1))
         else BlockPool_v1_free_blocks rs p1)"

definition BlockPool_v1_reset_prefix_cache :: "BlockPool_v1 \<Rightarrow> bool \<times> BlockPool_v1" where
  "BlockPool_v1_reset_prefix_cache p =
     (if int (vp_num_gpu_blocks p) - BlockPool_v1_get_num_free_blocks p > 0 then (False, p)
      else (True, p\<lparr>vp_cached_block_hash_to_block := [], vp_blocks := map KVCacheBlock_reset_hash (vp_blocks p)\<rparr>))"

section \<open>The invariant\<close>

text \<open>
  The cache map lists exactly the blocks that carry a hash, each under its own hash and id, and
  has no empty entry; the free queue holds exactly the blocks nobody refers to.
\<close>

definition vp_refs :: "BlockPool_v1 \<Rightarrow> kv_ref \<Rightarrow> int" where
  "vp_refs p r = (if r < length (vp_blocks p) then kb_ref_cnt (vp_blocks p ! r) else 0)"

definition vp_hash :: "BlockPool_v1 \<Rightarrow> kv_ref \<Rightarrow> BlockHashType option" where
  "vp_hash p r = (if r < length (vp_blocks p) then kb_block_hash (vp_blocks p ! r) else None)"

definition in_cache :: "(BlockHashType, (nat, kv_ref) dict) dict \<Rightarrow> BlockHashType \<Rightarrow> kv_ref \<Rightarrow> bool" where
  "in_cache d h r \<longleftrightarrow> dict_get (dict_get_default d h []) r = Some r"

definition cache_ok :: "(BlockHashType, (nat, kv_ref) dict) dict \<Rightarrow> (kv_ref \<Rightarrow> BlockHashType option) \<Rightarrow> bool" where
  "cache_ok d hash \<longleftrightarrow> dict_ok d \<and>
     (\<forall>h e. dict_get d h = Some e \<longrightarrow> e \<noteq> [] \<and> dict_ok e \<and> (\<forall>k r. dict_get e k = Some r \<longrightarrow> k = r)) \<and>
     (\<forall>h r. in_cache d h r \<longleftrightarrow> hash r = Some h)"

definition pool_base :: "BlockPool_v1 \<Rightarrow> kv_ref list \<Rightarrow> bool" where
  "pool_base p xs \<longleftrightarrow> vp_num_gpu_blocks p = length (vp_blocks p) \<and> queue_ok (vp_queue p) xs \<and>
     cache_ok (vp_cached_block_hash_to_block p) (vp_hash p) \<and>
     (\<forall>r < length (vp_blocks p). kb_block_id (vp_blocks p ! r) = r) \<and>
     (vp_enable_caching p \<or> vp_hash p = (\<lambda>_. None))"

definition pool_state :: "BlockPool_v1 \<Rightarrow> kv_ref list \<Rightarrow> bool" where
  "pool_state p xs \<longleftrightarrow> pool_base p xs \<and> (\<forall>r. 0 \<le> vp_refs p r) \<and>
     (\<forall>r < length (vp_blocks p). vp_refs p r = 0 \<longleftrightarrow> r \<in> set xs)"

text \<open>What no operation changes.\<close>

definition same_pool :: "BlockPool_v1 \<Rightarrow> BlockPool_v1 \<Rightarrow> bool" where
  "same_pool p p' \<longleftrightarrow> length (vp_blocks p') = length (vp_blocks p) \<and> vp_num_gpu_blocks p' = vp_num_gpu_blocks p \<and>
     vp_enable_caching p' = vp_enable_caching p"

lemma same_pool_refl [simp]: "same_pool p p"
  by (simp add: same_pool_def)

lemma same_pool_trans: "same_pool p q \<Longrightarrow> same_pool q r \<Longrightarrow> same_pool p r"
  by (simp add: same_pool_def)

lemma vp_set_queue_simps [simp]:
  "vp_num_gpu_blocks (vp_set_queue s p) = vp_num_gpu_blocks p" "vp_enable_caching (vp_set_queue s p) = vp_enable_caching p"
  "vp_blocks (vp_set_queue s p) = snd s" "vp_queue (vp_set_queue s p) = s"
  "vp_cached_block_hash_to_block (vp_set_queue s p) = vp_cached_block_hash_to_block p"
  by (simp_all add: vp_set_queue_def vp_queue_def)

lemma vp_update_simps [simp]:
  "vp_num_gpu_blocks (vp_update r f p) = vp_num_gpu_blocks p" "vp_enable_caching (vp_update r f p) = vp_enable_caching p"
  "vp_blocks (vp_update r f p) = kv_update r f (vp_blocks p)" "vp_free_block_queue (vp_update r f p) = vp_free_block_queue p"
  "vp_cached_block_hash_to_block (vp_update r f p) = vp_cached_block_hash_to_block p"
  "vp_queue (vp_update r f p) = (vp_free_block_queue p, kv_update r f (vp_blocks p))"
  by (simp_all add: vp_update_def vp_queue_def)

lemma same_data_views:
  assumes "same_data (vp_blocks p) (snd s)"
  shows "vp_refs (vp_set_queue s p) = vp_refs p" "vp_hash (vp_set_queue s p) = vp_hash p" "length (snd s) = length (vp_blocks p)"
  using assms by (auto simp: same_data_def vp_refs_def vp_hash_def fun_eq_iff)

lemma pool_baseD:
  assumes "pool_base p xs"
  shows "queue_ok (vp_queue p) xs" "cache_ok (vp_cached_block_hash_to_block p) (vp_hash p)"
    "distinct xs" "set xs \<subseteq> {..<length (vp_blocks p)}"
    "vp_num_gpu_blocks p = length (vp_blocks p)" "\<forall>r < length (vp_blocks p). kb_block_id (vp_blocks p ! r) = r"
    "BlockPool_v1_get_num_free_blocks p = int (length xs)"
    "\<not> vp_enable_caching p \<Longrightarrow> vp_hash p = (\<lambda>_. None)"
  using assms by (auto simp: pool_base_def queue_ok_def vp_queue_def BlockPool_v1_get_num_free_blocks_def)

lemma pool_stateD:
  assumes "pool_state p xs"
  shows "pool_base p xs" "0 \<le> vp_refs p r" "r < length (vp_blocks p) \<Longrightarrow> vp_refs p r = 0 \<longleftrightarrow> r \<in> set xs"
  using assms by (auto simp: pool_state_def)

section \<open>The map from hashes to blocks\<close>

lemma in_cache_simps [simp]:
  "in_cache (dict_set h e d) h' r \<longleftrightarrow> (if h' = h then dict_get e r = Some r else in_cache d h' r)"
  "in_cache (dict_pop h d) h' r \<longleftrightarrow> h' \<noteq> h \<and> in_cache d h' r"
  by (simp_all add: in_cache_def dict_get_default_def)

lemma cache_okD:
  assumes "cache_ok d f"
  shows "dict_ok d" "dict_get d h = Some e \<Longrightarrow> e \<noteq> [] \<and> dict_ok e"
    "dict_get d h = Some e \<Longrightarrow> dict_get e k = Some r \<Longrightarrow> k = r \<and> f r = Some h"
    "in_cache d h r \<longleftrightarrow> f r = Some h"
proof -
  show "dict_ok d" "dict_get d h = Some e \<Longrightarrow> e \<noteq> [] \<and> dict_ok e" "in_cache d h r \<longleftrightarrow> f r = Some h"
    using assms unfolding cache_ok_def by blast+
  show "k = r \<and> f r = Some h" if "dict_get d h = Some e" "dict_get e k = Some r"
  proof -
    have "k = r" using assms that unfolding cache_ok_def by blast
    moreover have "in_cache d h r" using that \<open>k = r\<close> by (simp add: in_cache_def dict_get_default_def)
    ultimately show ?thesis using assms unfolding cache_ok_def by blast
  qed
qed

lemma cache_okI:
  assumes "dict_ok d" "\<And>h e. dict_get d h = Some e \<Longrightarrow> e \<noteq> [] \<and> dict_ok e \<and> (\<forall>k r. dict_get e k = Some r \<longrightarrow> k = r)"
    "\<And>h r. in_cache d h r \<longleftrightarrow> f r = Some h"
  shows "cache_ok d f"
  unfolding cache_ok_def using assms by blast

lemma cache_ok_entry:
  assumes "cache_ok d f"
  shows "dict_ok (dict_get_default d h [])" "dict_get (dict_get_default d h []) k = Some s \<Longrightarrow> k = s \<and> f s = Some h"
    "f s = Some h \<Longrightarrow> dict_get (dict_get_default d h []) s = Some s"
proof -
  show "dict_ok (dict_get_default d h [])" "dict_get (dict_get_default d h []) k = Some s \<Longrightarrow> k = s \<and> f s = Some h"
    using cache_okD(2,3)[OF assms] by (auto simp: dict_get_default_def split: option.splits)
  show "f s = Some h \<Longrightarrow> dict_get (dict_get_default d h []) s = Some s"
    using cache_okD(4)[OF assms] by (simp add: in_cache_def)
qed

lemma cache_ok_insert:
  assumes ok: "cache_ok d f" and f: "f r = None"
  shows "cache_ok (dict_set h (dict_set r r (dict_get_default d h [])) d) (f(r \<mapsto> h))"
proof (rule cache_okI)
  let ?e = "dict_get_default d h []"
  show "dict_ok (dict_set h (dict_set r r ?e) d)" using cache_okD(1)[OF ok] by simp
  have ne: "dict_set r r ?e \<noteq> []" by (metis dict_get_set fun_upd_same map_of.simps(1) option.distinct(1))
  show "e' \<noteq> [] \<and> dict_ok e' \<and> (\<forall>k s. dict_get e' k = Some s \<longrightarrow> k = s)"
    if "dict_get (dict_set h (dict_set r r ?e) d) h' = Some e'" for h' e'
  proof (cases "h' = h")
    case True
    then show ?thesis using that ne cache_ok_entry(1,2)[OF ok] by (auto split: if_splits)
  next
    case False
    then show ?thesis using that cache_okD(2,3)[OF ok, of h' e'] by auto
  qed
  show "in_cache (dict_set h (dict_set r r ?e) d) h' s \<longleftrightarrow> (f(r \<mapsto> h)) s = Some h'" for h' s
    using cache_ok_entry(2,3)[OF ok, where h = h] cache_okD(4)[OF ok, of h' s] f by auto
qed

lemma cache_ok_evict:
  assumes ok: "cache_ok d f" and f: "f r = Some h" and e: "dict_get d h = Some e"
  shows "dict_has e r" "cache_ok (if dict_pop r e = [] then dict_pop h d else dict_set h (dict_pop r e) d) (f(r := None))"
proof -
  have en: "dict_get_default d h [] = e" using e by (simp add: dict_get_default_def)
  note entry = cache_ok_entry[OF ok, where h = h, unfolded en]
  show "dict_has e r" using entry(3)[OF f] by simp
  have l: "dict_get e s = Some s \<Longrightarrow> s = r" if "dict_pop r e = []" for s
    using that by (metis dict_get_pop fun_upd_apply map_of.simps(1) option.distinct(1))
  let ?d = "if dict_pop r e = [] then dict_pop h d else dict_set h (dict_pop r e) d"
  show "cache_ok ?d (f(r := None))"
  proof (rule cache_okI)
    show "dict_ok ?d" using cache_okD(1)[OF ok] by simp
    show "e' \<noteq> [] \<and> dict_ok e' \<and> (\<forall>k s. dict_get e' k = Some s \<longrightarrow> k = s)" if "dict_get ?d h' = Some e'" for h' e'
    proof (cases "h' = h")
      case True
      then show ?thesis using that entry(1,2) by (auto split: if_splits)
    next
      case False
      then show ?thesis using that cache_okD(2,3)[OF ok, of h' e'] by (auto split: if_splits)
    qed
    show "in_cache ?d h' s \<longleftrightarrow> (f(r := None)) s = Some h'" for h' s
    proof (cases "h' = h")
      case True
      then show ?thesis using entry(2)[of s s] entry(3)[of s] l[of s] by auto
    next
      case False
      then show ?thesis using cache_okD(4)[OF ok, of h' s] f by auto
    qed
  qed
qed

lemma get_cached_block_ok:
  assumes "cache_ok (vp_cached_block_hash_to_block p) (vp_hash p)"
  shows "\<exists>x. BlockPool_v1_get_cached_block p h = Inr x \<and> (case x of Some r \<Rightarrow> vp_hash p r = Some h | None \<Rightarrow> \<forall>r. vp_hash p r \<noteq> Some h)"
proof (cases "dict_get (vp_cached_block_hash_to_block p) h")
  case None
  then have "vp_hash p r \<noteq> Some h" for r using cache_ok_entry(3)[OF assms, of r h] by (auto simp: dict_get_default_def)
  then show ?thesis using None by (simp add: BlockPool_v1_get_cached_block_def)
next
  case (Some e)
  then obtain k r e' where e: "e = (k, r) # e'" using cache_okD(2)[OF assms, of h e] by (cases e) auto
  then have "k = r \<and> vp_hash p r = Some h" using cache_okD(3)[OF assms Some, of k r] by simp
  then show ?thesis using Some e by (simp add: BlockPool_v1_get_cached_block_def dict_item_def)
qed

section \<open>What the steps do to the pool\<close>

lemma set_queue_base:
  assumes "pool_base p xs" "queue_ok s ys" "same_data (vp_blocks p) (snd s)"
  shows "pool_base (vp_set_queue s p) ys" "vp_refs (vp_set_queue s p) = vp_refs p" "vp_hash (vp_set_queue s p) = vp_hash p"
    "same_pool p (vp_set_queue s p)"
proof -
  note v = same_data_views[OF assms(3)]
  show "vp_refs (vp_set_queue s p) = vp_refs p" "vp_hash (vp_set_queue s p) = vp_hash p" by (rule v)+
  show "same_pool p (vp_set_queue s p)" using v(3) by (simp add: same_pool_def)
  show "pool_base (vp_set_queue s p) ys"
    using assms v unfolding pool_base_def by (simp add: same_data_def)
qed

lemma update_refs_base:
  assumes "pool_base p xs" "r < length (vp_blocks p)"
    "\<And>b. kb_next_free_block (f b) = kb_next_free_block b \<and> kb_prev_free_block (f b) = kb_prev_free_block b \<and>
       kb_block_id (f b) = kb_block_id b \<and> kb_block_hash (f b) = kb_block_hash b"
  shows "pool_base (vp_update r f p) xs" "vp_hash (vp_update r f p) = vp_hash p"
    "vp_refs (vp_update r f p) = (vp_refs p)(r := kb_ref_cnt (f (vp_blocks p ! r)))" "same_pool p (vp_update r f p)"
proof -
  show h: "vp_hash (vp_update r f p) = vp_hash p" using assms(3) by (auto simp: vp_hash_def kv_update_nth fun_eq_iff)
  show "vp_refs (vp_update r f p) = (vp_refs p)(r := kb_ref_cnt (f (vp_blocks p ! r)))"
    using assms(2) by (auto simp: vp_refs_def kv_update_nth fun_eq_iff)
  show "same_pool p (vp_update r f p)" by (simp add: same_pool_def)
  show "pool_base (vp_update r f p) xs"
    using assms(1,3) h queue_ok_update[of "vp_free_block_queue p" "vp_blocks p" xs f r]
    unfolding pool_base_def by (simp add: vp_queue_def kv_update_nth)
qed

lemma incr_base:
  assumes "pool_base p xs" "r < length (vp_blocks p)"
  shows "pool_base (vp_update r KVCacheBlock_incr_ref p) xs" "vp_hash (vp_update r KVCacheBlock_incr_ref p) = vp_hash p"
    "vp_refs (vp_update r KVCacheBlock_incr_ref p) = (vp_refs p)(r := vp_refs p r + 1)"
    "same_pool p (vp_update r KVCacheBlock_incr_ref p)"
  using update_refs_base[OF assms, of KVCacheBlock_incr_ref] assms(2) by (simp_all add: KVCacheBlock_incr_ref_def vp_refs_def)

lemma decr_base:
  assumes "pool_base p xs" "r < length (vp_blocks p)"
  shows "pool_base (vp_update r KVCacheBlock_decr_ref p) xs" "vp_hash (vp_update r KVCacheBlock_decr_ref p) = vp_hash p"
    "vp_refs (vp_update r KVCacheBlock_decr_ref p) = (vp_refs p)(r := vp_refs p r - 1)"
    "same_pool p (vp_update r KVCacheBlock_decr_ref p)"
  using update_refs_base[OF assms, of KVCacheBlock_decr_ref] assms(2) by (simp_all add: KVCacheBlock_decr_ref_def vp_refs_def)

text \<open>Changing the hash of one block together with the map.\<close>

lemma update_hash_base:
  assumes "pool_base p xs" "r < length (vp_blocks p)"
    "\<And>b. kb_next_free_block (f b) = kb_next_free_block b \<and> kb_prev_free_block (f b) = kb_prev_free_block b \<and>
       kb_block_id (f b) = kb_block_id b \<and> kb_ref_cnt (f b) = kb_ref_cnt b \<and> kb_block_hash (f b) = h"
    "cache_ok d ((vp_hash p)(r := h))" "vp_enable_caching p \<or> h = None"
  shows "pool_base (vp_update r f p\<lparr>vp_cached_block_hash_to_block := d\<rparr>) xs"
    "vp_hash (vp_update r f p\<lparr>vp_cached_block_hash_to_block := d\<rparr>) = (vp_hash p)(r := h)"
    "vp_refs (vp_update r f p\<lparr>vp_cached_block_hash_to_block := d\<rparr>) = vp_refs p"
    "same_pool p (vp_update r f p\<lparr>vp_cached_block_hash_to_block := d\<rparr>)"
proof -
  let ?p = "vp_update r f p\<lparr>vp_cached_block_hash_to_block := d\<rparr>"
  show h: "vp_hash ?p = (vp_hash p)(r := h)" using assms(2,3) by (auto simp: vp_hash_def kv_update_nth fun_eq_iff)
  show "vp_refs ?p = vp_refs p" using assms(3) by (auto simp: vp_refs_def kv_update_nth fun_eq_iff)
  show "same_pool p ?p" by (simp add: same_pool_def)
  have q: "queue_ok (vp_free_block_queue p, kv_update r f (vp_blocks p)) xs"
    using assms(1,3) queue_ok_update[of "vp_free_block_queue p" "vp_blocks p" xs f r] by (simp add: pool_base_def vp_queue_def)
  show "pool_base ?p xs"
    using assms(1,3-5) h q unfolding pool_base_def by (auto simp: vp_queue_def kv_update_nth)
qed

lemma reset_hash_frame:
  "kb_next_free_block (KVCacheBlock_reset_hash b) = kb_next_free_block b \<and>
   kb_prev_free_block (KVCacheBlock_reset_hash b) = kb_prev_free_block b \<and>
   kb_block_id (KVCacheBlock_reset_hash b) = kb_block_id b \<and> kb_ref_cnt (KVCacheBlock_reset_hash b) = kb_ref_cnt b \<and>
   kb_block_hash (KVCacheBlock_reset_hash b) = None"
  by (simp add: KVCacheBlock_reset_hash_def)

lemma maybe_evict_ok:
  assumes "pool_base p xs" "r < length (vp_blocks p)"
  shows "\<exists>e p'. BlockPool_v1_maybe_evict_cached_block r p = Inr (e, p') \<and> pool_base p' xs \<and> same_pool p p' \<and>
     vp_refs p' = vp_refs p \<and> vp_hash p' = (vp_hash p)(r := None) \<and> (e \<longleftrightarrow> vp_hash p r \<noteq> None)"
proof (cases "vp_hash p r")
  case None
  then show ?thesis using assms
    by (auto simp: BlockPool_v1_maybe_evict_cached_block_def vp_hash_def fun_eq_iff)
next
  case (Some h)
  have hash: "kb_block_hash (vp_blocks p ! r) = Some h" using Some assms(2) by (simp add: vp_hash_def)
  have id: "kb_block_id (vp_blocks p ! r) = r" using pool_baseD(6)[OF assms(1)] assms(2) by simp
  have ok: "cache_ok (vp_cached_block_hash_to_block p) (vp_hash p)" by (rule pool_baseD(2)[OF assms(1)])
  obtain e where e: "dict_get (vp_cached_block_hash_to_block p) h = Some e"
    using cache_ok_entry(3)[OF ok Some] by (auto simp: dict_get_default_def split: option.splits)
  note ev = cache_ok_evict[OF ok Some e]
  let ?p = "vp_update r KVCacheBlock_reset_hash p\<lparr>vp_cached_block_hash_to_block :=
      (if dict_pop r e = [] then dict_pop h (vp_cached_block_hash_to_block p)
       else dict_set h (dict_pop r e) (vp_cached_block_hash_to_block p))\<rparr>"
  obtain v where "dict_get e r = Some v" using ev(1) by auto
  then have "BlockPool_v1_maybe_evict_cached_block r p = Inr (True, ?p)"
    using hash id e by (simp add: BlockPool_v1_maybe_evict_cached_block_def Let_def)
  moreover note u = update_hash_base[OF assms reset_hash_frame ev(2) disjI2[OF refl]]
  ultimately show ?thesis using Some by (intro exI[of _ True] exI[of _ ?p]) simp
qed

lemma cache_block_ok:
  assumes "pool_base p xs" "r < length (vp_blocks p)" "vp_hash p r = None" "vp_enable_caching p"
  shows "\<exists>p'. cache_block h r p = Inr p' \<and> pool_base p' xs \<and> same_pool p p' \<and>
     vp_refs p' = vp_refs p \<and> vp_hash p' = (vp_hash p)(r \<mapsto> h)"
proof -
  have hash: "kb_block_hash (vp_blocks p ! r) = None" using assms(2,3) by (simp add: vp_hash_def)
  have id: "kb_block_id (vp_blocks p ! r) = r" using pool_baseD(6)[OF assms(1)] assms(2) by simp
  have eq: "kv_update r (\<lambda>_. (vp_blocks p ! r)\<lparr>kb_block_hash := Some h\<rparr>) (vp_blocks p) =
      kv_update r (\<lambda>b. b\<lparr>kb_block_hash := Some h\<rparr>) (vp_blocks p)" by (simp add: kv_update_def)
  then have eq2: "vp_update r (\<lambda>_. (vp_blocks p ! r)\<lparr>kb_block_hash := Some h\<rparr>) p = vp_update r (\<lambda>b. b\<lparr>kb_block_hash := Some h\<rparr>) p"
    by (simp add: vp_update_def)
  note ins = cache_ok_insert[OF pool_baseD(2)[OF assms(1)] assms(3), of h]
  show ?thesis using update_hash_base[OF assms(1,2) _ ins, of "\<lambda>b. b\<lparr>kb_block_hash := Some h\<rparr>"] hash id assms(4)
    by (simp add: cache_block_def KVCacheBlock_set_block_hash_def eq2)
qed

end
