(* ===== verification/KV_Pool_Correct.thy ===== *)
theory KV_Pool_Correct
  imports KV_Block_Pool
begin

text \<open>
  What the operations of the v1 block pool do to its free list, reference counts and block
  hashes, and that caching the full blocks of a request gives them the hashes of its tokens.
\<close>

section \<open>The operations on the invariant\<close>

lemma pool_init_ok:
  assumes "0 < n"
  shows "\<exists>p. BlockPool_v1_init n c = Inr p \<and> pool_state p [0..<n] \<and> (\<forall>r. vp_refs p r = 0 \<and> vp_hash p r = None) \<and>
     length (vp_blocks p) = n \<and> vp_enable_caching p = c"
proof -
  let ?bs = "map KVCacheBlock_init [0..<n]"
  obtain q bs where q: "FreeKVCacheBlockQueue_init [0..<n] ?bs = Inr (q, bs)" "queue_ok (q, bs) [0..<n]" "same_data ?bs bs"
    using queue_init_ok[of "[0..<n]" ?bs] assms by (auto simp: KVCacheBlock_init_def lessThan_atLeast0)
  let ?p = "\<lparr>vp_num_gpu_blocks = n, vp_enable_caching = c, vp_blocks = bs, vp_free_block_queue = q, vp_cached_block_hash_to_block = []\<rparr>"
  have d: "length bs = n" "\<forall>r < n. kb_block_id (bs ! r) = r \<and> kb_ref_cnt (bs ! r) = 0 \<and> kb_block_hash (bs ! r) = None"
    using q(3) by (auto simp: same_data_def KVCacheBlock_init_def)
  then have "vp_refs ?p r = 0" "vp_hash ?p r = None" for r by (auto simp: vp_refs_def vp_hash_def)
  moreover have "cache_ok [] (vp_hash ?p)" using calculation by (intro cache_okI) (auto simp: in_cache_def dict_get_default_def)
  ultimately have "pool_state ?p [0..<n]" using d q(2)
    by (auto simp: pool_state_def pool_base_def vp_queue_def fun_eq_iff)
  then show ?thesis using q(1) d \<open>\<And>r. vp_refs ?p r = 0\<close> \<open>\<And>r. vp_hash ?p r = None\<close>
    by (simp add: BlockPool_v1_init_def)
qed

lemma get_new_block_ok:
  assumes "pool_state p (b # xs)"
  shows "\<exists>p'. get_new_block p = Inr (b, p') \<and> pool_state p' xs \<and> same_pool p p' \<and>
     vp_refs p' = (vp_refs p)(b := 1) \<and> vp_hash p' = (vp_hash p)(b := None)"
proof -
  note base = pool_stateD(1)[OF assms]
  have b: "b < length (vp_blocks p)" "vp_refs p b = 0" "b \<notin> set xs"
    using pool_baseD(3,4)[OF base] pool_stateD(3)[OF assms, of b] by auto
  obtain s where s: "FreeKVCacheBlockQueue_popleft (vp_queue p) = Inr (b, s)" "queue_ok s xs" "same_data (vp_blocks p) (snd s)"
    using fq.pop_law[OF pool_baseD(1)[OF base]] by (auto simp: same_data_iff vp_queue_def)
  let ?p1 = "vp_set_queue s p"
  note p1 = set_queue_base[OF base s(2,3)]
  have b1: "b < length (vp_blocks ?p1)" using p1(4) b(1) by (simp add: same_pool_def)
  have z: "kb_ref_cnt (vp_blocks ?p1 ! b) = 0" using p1(2) b b1 by (metis vp_refs_def)
  obtain e p2 where p2: "(if vp_enable_caching ?p1 then BlockPool_v1_maybe_evict_cached_block b ?p1 else Inr (False, ?p1)) = Inr (e, p2)"
      "pool_base p2 xs" "same_pool ?p1 p2" "vp_refs p2 = vp_refs p" "vp_hash p2 = (vp_hash p)(b := None)"
  proof (cases "vp_enable_caching ?p1")
    case True
    then show ?thesis using that maybe_evict_ok[OF p1(1) b1] p1(2,3) by auto
  next
    case False
    then have "vp_hash p = (\<lambda>_. None)" using pool_baseD(8)[OF base] by simp
    then show ?thesis using that[of False ?p1] False p1 by auto
  qed
  have b2: "b < length (vp_blocks p2)" using p2(3) b1 by (simp add: same_pool_def)
  note p3 = incr_base[OF p2(2) b2]
  have "same_pool p (vp_update b KVCacheBlock_incr_ref p2)" by (meson p1(4) p2(3) p3(4) same_pool_trans)
  moreover have "pool_state (vp_update b KVCacheBlock_incr_ref p2) xs"
    unfolding pool_state_def p3(3) p2(4) using p3(1) assms b b2 p2(3) p1(4)
    by (auto simp: pool_state_def same_pool_def)
  ultimately show ?thesis using s(1) z p2(1,4,5) p3(2,3) b(2)
    by (simp add: get_new_block_def Let_def)
qed

lemma get_new_blocks_loop:
  assumes "pool_state p (xs @ ys)"
  shows "\<exists>p'. pop_many get_new_block (length xs) p = Inr (xs, p') \<and> pool_state p' ys \<and> same_pool p p' \<and>
     vp_refs p' = (\<lambda>r. if r \<in> set xs then 1 else vp_refs p r) \<and> vp_hash p' = (\<lambda>r. if r \<in> set xs then None else vp_hash p r)"
  using assms
proof (induction xs arbitrary: p)
  case (Cons x xs)
  from get_new_block_ok[of p x "xs @ ys"] Cons.prems obtain p1 where p1: "get_new_block p = Inr (x, p1)" "pool_state p1 (xs @ ys)"
    "same_pool p p1" "vp_refs p1 = (vp_refs p)(x := 1)" "vp_hash p1 = (vp_hash p)(x := None)" by auto
  from Cons.IH[OF p1(2)] obtain p2 where p2: "pop_many get_new_block (length xs) p1 = Inr (xs, p2)" "pool_state p2 ys" "same_pool p1 p2"
    "vp_refs p2 = (\<lambda>r. if r \<in> set xs then 1 else vp_refs p1 r)" "vp_hash p2 = (\<lambda>r. if r \<in> set xs then None else vp_hash p1 r)" by auto
  show ?case using p1 p2 same_pool_trans[OF p1(3) p2(3)] by (auto simp: fun_eq_iff)
qed auto

lemma get_new_blocks_ok:
  assumes "pool_state p xs"
  shows "if n \<le> length xs
     then \<exists>p'. BlockPool_v1_get_new_blocks n p = Inr (take n xs, p') \<and> pool_state p' (drop n xs) \<and> same_pool p p' \<and>
       vp_refs p' = (\<lambda>r. if r \<in> set (take n xs) then 1 else vp_refs p r) \<and>
       vp_hash p' = (\<lambda>r. if r \<in> set (take n xs) then None else vp_hash p r)
     else BlockPool_v1_get_new_blocks n p = Inl ValueError"
proof (cases "n \<le> length xs")
  case True
  then show ?thesis using get_new_blocks_loop[of p "take n xs" "drop n xs"] assms pool_baseD(7)[OF pool_stateD(1)[OF assms]]
    by (simp add: BlockPool_v1_get_new_blocks_def min_absorb2)
next
  case False
  then show ?thesis using pool_baseD(7)[OF pool_stateD(1)[OF assms]] by (simp add: BlockPool_v1_get_new_blocks_def)
qed

text \<open>Touching: one reference more for each occurrence, and the blocks leave the free queue.\<close>

lemma touch_ok:
  assumes "pool_state p xs" "set rs \<subseteq> {..<length (vp_blocks p)}"
  shows "pool_state (BlockPool_v1_touch rs p) (filter (\<lambda>r. r \<notin> set rs) xs) \<and> same_pool p (BlockPool_v1_touch rs p) \<and>
     vp_refs (BlockPool_v1_touch rs p) = (\<lambda>r. vp_refs p r + int (count_list rs r)) \<and> vp_hash (BlockPool_v1_touch rs p) = vp_hash p"
  using assms
proof (induction rs arbitrary: p xs)
  case (Cons r rs)
  note base = pool_stateD(1)[OF Cons.prems(1)]
  have r: "r < length (vp_blocks p)" using Cons.prems(2) by simp
  have cnt: "kb_ref_cnt (vp_blocks p ! r) = vp_refs p r" using r by (simp add: vp_refs_def)
  let ?p1 = "if kb_ref_cnt (vp_blocks p ! r) = 0 then vp_set_queue (FreeKVCacheBlockQueue_remove r (vp_queue p)) p else p"
  have p1: "pool_base ?p1 (removeAll r xs)" "vp_refs ?p1 = vp_refs p" "vp_hash ?p1 = vp_hash p" "same_pool p ?p1"
  proof -
    have d: "distinct xs" by (rule pool_baseD(3)[OF base])
    have "pool_base ?p1 (removeAll r xs) \<and> vp_refs ?p1 = vp_refs p \<and> vp_hash ?p1 = vp_hash p \<and> same_pool p ?p1"
    proof (cases "vp_refs p r = 0")
      case True
      then have mem: "r \<in> set xs" using pool_stateD(3)[OF Cons.prems(1) r] by simp
      note rm = queue_remove_ok[OF pool_baseD(1)[OF base] mem]
      have "same_data (vp_blocks p) (snd (FreeKVCacheBlockQueue_remove r (vp_queue p)))" using rm by (simp add: vp_queue_def)
      from set_queue_base[OF base conjunct1[OF rm] this] show ?thesis
        using True cnt by (simp add: distinct_remove1_removeAll[OF d])
    next
      case False
      then have "r \<notin> set xs" using pool_stateD(3)[OF Cons.prems(1) r] by simp
      then show ?thesis using False cnt base by simp
    qed
    then show "pool_base ?p1 (removeAll r xs)" "vp_refs ?p1 = vp_refs p" "vp_hash ?p1 = vp_hash p" "same_pool p ?p1" by simp_all
  qed
  have r1: "r < length (vp_blocks ?p1)" using p1(4) r by (simp add: same_pool_def)
  let ?p2 = "vp_update r KVCacheBlock_incr_ref ?p1"
  note p2 = incr_base[OF p1(1) r1]
  have len: "length (vp_blocks ?p2) = length (vp_blocks p)" using p1(4) by (simp add: same_pool_def)
  have st: "pool_state ?p2 (removeAll r xs)"
    unfolding pool_state_def p2(3) p1(2) len using p2(1) Cons.prems(1) by (auto simp: pool_state_def add_nonneg_eq_0_iff)
  have sub: "set rs \<subseteq> {..<length (vp_blocks ?p2)}" using Cons.prems(2) len by simp
  note IH = Cons.IH[OF st sub]
  have tr: "same_pool p ?p2" by (rule same_pool_trans[OF p1(4) p2(4)])
  have e: "BlockPool_v1_touch (r # rs) p = BlockPool_v1_touch rs ?p2" by (simp add: Let_def)
  have fl: "filter (\<lambda>x. x \<notin> set rs) (removeAll r xs) = filter (\<lambda>x. x \<notin> set (r # rs)) xs"
    by (induction xs) auto
  show ?case unfolding e using IH same_pool_trans[OF tr] p2(2,3) p1(2,3) unfolding fl
    by (auto simp: fun_eq_iff)
qed simp

text \<open>The blocks that lose their last reference, in the order in which they do.\<close>

fun released :: "(kv_ref \<Rightarrow> int) \<Rightarrow> kv_ref list \<Rightarrow> kv_ref list" where
  "released refs [] = []"
| "released refs (r # rs) = (if refs r = 1 then [r] else []) @ released (refs(r := refs r - 1)) rs"

lemma released_distinct: "distinct rs \<Longrightarrow> released refs rs = filter (\<lambda>r. refs r = 1) rs"
proof (induction rs arbitrary: refs)
  case (Cons r rs)
  then have "filter (\<lambda>s. (refs(r := refs r - 1)) s = 1) rs = filter (\<lambda>s. refs s = 1) rs" by (intro filter_cong) auto
  then show ?case using Cons by simp
qed simp

lemma free_blocks_ok:
  assumes "pool_state p xs" "set rs \<subseteq> {..<length (vp_blocks p)}" "\<forall>r. int (count_list rs r) \<le> vp_refs p r"
  shows "\<exists>p'. BlockPool_v1_free_blocks rs p = Inr p' \<and> pool_state p' (xs @ released (vp_refs p) rs) \<and> same_pool p p' \<and>
     vp_refs p' = (\<lambda>r. vp_refs p r - int (count_list rs r)) \<and> vp_hash p' = vp_hash p"
  using assms
proof (induction rs arbitrary: p xs)
  case (Cons r rs)
  note base = pool_stateD(1)[OF Cons.prems(1)]
  have r: "r < length (vp_blocks p)" using Cons.prems(2) by simp
  have pos: "1 \<le> vp_refs p r" using Cons.prems(3)[rule_format, of r] by simp
  then have nx: "r \<notin> set xs" using pool_stateD(3)[OF Cons.prems(1) r] by auto
  let ?p1 = "vp_update r KVCacheBlock_decr_ref p"
  note p1 = decr_base[OF base r]
  have len: "length (vp_blocks ?p1) = length (vp_blocks p)" by simp
  have cnt: "kb_ref_cnt (vp_blocks ?p1 ! r) = vp_refs p r - 1" using p1(3) r len by (metis fun_upd_same vp_refs_def)
  have "\<exists>p2. (if kb_ref_cnt (vp_blocks ?p1 ! r) = 0 then res_bind (FreeKVCacheBlockQueue_append r (vp_queue ?p1)) (\<lambda>s. Inr (vp_set_queue s ?p1))
      else Inr ?p1) = Inr p2 \<and> pool_state p2 (xs @ (if vp_refs p r = 1 then [r] else [])) \<and> same_pool p p2 \<and>
      vp_refs p2 = (vp_refs p)(r := vp_refs p r - 1) \<and> vp_hash p2 = vp_hash p"
  proof (cases "vp_refs p r = 1")
    case True
    obtain s where s: "FreeKVCacheBlockQueue_append r (vp_queue ?p1) = Inr s" "queue_ok s (xs @ [r])" "same_data (vp_blocks ?p1) (snd s)"
      using fq.append_law[OF pool_baseD(1)[OF p1(1)], of r] r nx by (auto simp: same_data_iff vp_queue_def)
    note p2 = set_queue_base[OF p1(1) s(2,3)]
    have "pool_state (vp_set_queue s ?p1) (xs @ [r])"
      unfolding pool_state_def p2(2) p1(3) using p2(1,4) p1(4) Cons.prems(1) True by (auto simp: pool_state_def same_pool_def)
    then show ?thesis using cnt True s(1) p2 p1 same_pool_trans[OF p1(4) p2(4)] by simp
  next
    case False
    then have "pool_state ?p1 xs"
      unfolding pool_state_def p1(3) using p1(1) Cons.prems(1) pos nx by (auto simp: pool_state_def)
    then show ?thesis using cnt False p1 by simp
  qed
  then obtain p2 where p2: "(if kb_ref_cnt (vp_blocks ?p1 ! r) = 0 then res_bind (FreeKVCacheBlockQueue_append r (vp_queue ?p1)) (\<lambda>s. Inr (vp_set_queue s ?p1))
      else Inr ?p1) = Inr p2" "pool_state p2 (xs @ (if vp_refs p r = 1 then [r] else []))" "same_pool p p2"
      "vp_refs p2 = (vp_refs p)(r := vp_refs p r - 1)" "vp_hash p2 = vp_hash p" by blast
  have e: "BlockPool_v1_free_blocks (r # rs) p = BlockPool_v1_free_blocks rs p2"
  proof (cases "kb_ref_cnt (vp_blocks ?p1 ! r) = 0")
    case True
    then have "res_bind (FreeKVCacheBlockQueue_append r (vp_queue ?p1)) (\<lambda>s. Inr (vp_set_queue s ?p1)) = Inr p2" using p2(1) by simp
    then obtain s where "FreeKVCacheBlockQueue_append r (vp_queue ?p1) = Inr s" "vp_set_queue s ?p1 = p2" by auto
    then show ?thesis using True by (simp add: Let_def)
  next
    case False
    then have "BlockPool_v1_free_blocks (r # rs) p = BlockPool_v1_free_blocks rs ?p1" by (simp add: Let_def)
    moreover have "?p1 = p2" using False p2(1) by simp
    ultimately show ?thesis by simp
  qed
  have c: "\<forall>s. int (count_list rs s) \<le> vp_refs p2 s"
  proof
    fix s
    show "int (count_list rs s) \<le> vp_refs p2 s"
      using Cons.prems(3)[rule_format, of s] unfolding p2(4) by (cases "r = s") simp_all
  qed
  have sub: "set rs \<subseteq> {..<length (vp_blocks p2)}" using Cons.prems(2) p2(3) by (simp add: same_pool_def)
  from Cons.IH[OF p2(2) sub c] obtain p' where p': "BlockPool_v1_free_blocks rs p2 = Inr p'"
      "pool_state p' ((xs @ (if vp_refs p r = 1 then [r] else [])) @ released (vp_refs p2) rs)" "same_pool p2 p'"
      "vp_refs p' = (\<lambda>s. vp_refs p2 s - int (count_list rs s))" "vp_hash p' = vp_hash p2" by blast
  have "vp_refs p' = (\<lambda>s. vp_refs p s - int (count_list (r # rs) s))"
    unfolding p'(4) p2(4) by (rule ext) simp
  then show ?case unfolding e using p' p2(3,4,5) same_pool_trans[OF p2(3) p'(3)] by (simp add: p2(4))
qed simp

lemma reset_prefix_cache_ok:
  assumes "pool_state p xs"
  shows "if length xs < length (vp_blocks p) then BlockPool_v1_reset_prefix_cache p = (False, p)
     else \<exists>p'. BlockPool_v1_reset_prefix_cache p = (True, p') \<and> pool_state p' xs \<and> same_pool p p' \<and>
       vp_refs p' = vp_refs p \<and> vp_hash p' = (\<lambda>_. None)"
proof -
  note base = pool_stateD(1)[OF assms]
  note D = pool_baseD[OF base]
  show ?thesis
  proof (cases "length xs < length (vp_blocks p)")
    case True
    then show ?thesis using D(5,7) by (simp add: BlockPool_v1_reset_prefix_cache_def)
  next
    case False
    let ?p = "p\<lparr>vp_cached_block_hash_to_block := [], vp_blocks := map KVCacheBlock_reset_hash (vp_blocks p)\<rparr>"
    have h: "vp_hash ?p = (\<lambda>_. None)" and rf: "vp_refs ?p = vp_refs p"
      by (auto simp: vp_hash_def vp_refs_def reset_hash_frame fun_eq_iff)
    have "queue_ok (vp_free_block_queue p, map KVCacheBlock_reset_hash (vp_blocks p)) xs"
      using D(1) by (auto simp: queue_ok_def vp_queue_def reset_hash_frame)
    moreover have "cache_ok [] (\<lambda>_. None)" by (rule cache_okI) (auto simp: in_cache_def dict_get_default_def)
    ultimately have "pool_state ?p xs" unfolding pool_state_def pool_base_def h rf
      using assms D(6) by (simp add: pool_state_def pool_base_def vp_queue_def reset_hash_frame)
    then show ?thesis using False D(5,7) h rf by (simp add: BlockPool_v1_reset_prefix_cache_def same_pool_def)
  qed
qed

section \<open>The hashes of a request\<close>

text \<open>The reference: consecutive full chunks, each hashed over the one before.\<close>

fun chain_v1 :: "kv_hasher \<Rightarrow> extra_key list option \<Rightarrow> int option \<Rightarrow> int list list \<Rightarrow> BlockHashType list" where
  "chain_v1 H x prev [] = []"
| "chain_v1 H x prev (c # cs) = hash_block_tokens_v1 H prev c x # chain_v1 H x (Some (hash_value (hash_block_tokens_v1 H prev c x))) cs"

definition text_keys :: "Request \<Rightarrow> extra_key list option" where
  "text_keys r = map_option (\<lambda>i. [LoraId i]) (rq_lora_request r)"

definition request_hashes :: "kv_hasher \<Rightarrow> nat \<Rightarrow> Request \<Rightarrow> BlockHashType list" where
  "request_hashes H block_size r = chain_v1 H (text_keys r) None (full_chunks block_size (rq_all_token_ids r))"

lemma chain_v1_length [simp]: "length (chain_v1 H x prev cs) = length cs"
  by (induction cs arbitrary: prev) auto

lemma chain_v1_append: "\<exists>prev'. chain_v1 H x prev (as @ bs) = chain_v1 H x prev as @ chain_v1 H x prev' bs"
  by (induction as arbitrary: prev) auto

lemma chain_v1_nth:
  "i < length cs \<Longrightarrow> chain_v1 H x prev cs ! i =
     hash_block_tokens_v1 H (if i = 0 then prev else Some (hash_value (chain_v1 H x prev cs ! (i - 1)))) (cs ! i) x"
proof (induction cs arbitrary: prev i)
  case (Cons c cs)
  show ?case
  proof (cases i)
    case (Suc j)
    then show ?thesis using Cons.IH[of j] Cons.prems by (cases j) auto
  qed simp
qed simp

lemma extra_keys_text:
  "rq_mm_positions r = [] \<Longrightarrow> generate_block_hash_extra_keys r s e i = Inr (text_keys r, i)"
  by (auto simp: generate_block_hash_extra_keys_def gen_mm_extra_hash_keys_def gen_lora_extra_hash_keys_def text_keys_def
      split: option.splits)

lemma hash_loop_text:
  assumes "rq_mm_positions r = []"
  shows "hash_tokens_loop H bs r start toks prev i = Inr (chain_v1 H (text_keys r) prev (full_chunks bs toks))"
proof (induction toks arbitrary: start prev i rule: length_induct)
  case (1 toks)
  have k: "(if need_extra_keys r then generate_block_hash_extra_keys r (int start) (int (start + bs)) i else Inr (None, i)) =
      Inr (text_keys r, i)" for start i
    using extra_keys_text[OF assms] assms by (auto simp: need_extra_keys_def text_keys_def)
  show ?case
  proof (cases "bs = 0 \<or> length toks < bs")
    case True
    then show ?thesis by (subst hash_tokens_loop.simps, subst full_chunks.simps) simp
  next
    case False
    have IH: "hash_tokens_loop H bs r s (drop bs toks) p j = Inr (chain_v1 H (text_keys r) p (full_chunks bs (drop bs toks)))" for s p j
      using 1[rule_format, of "drop bs toks" s p j] False by fastforce
    show ?thesis using False
      by (subst hash_tokens_loop.simps, subst full_chunks.simps) (simp add: k Let_def IH)
  qed
qed

lemma hash_request_tokens_text:
  assumes "rq_mm_positions r = []" "0 < bs"
  shows "hash_request_tokens H bs r = Inr (request_hashes H bs r)"
  using hash_loop_text[OF assms(1)] assms(2) by (simp add: hash_request_tokens_def request_hashes_def)

lemma request_hashes_length: "0 < bs \<Longrightarrow> length (request_hashes H bs r) = length (rq_all_token_ids r) div bs"
  by (simp add: request_hashes_def full_chunks_length)

text \<open>Computing the next hash of the chain from the tokens and the last hash.\<close>

lemma new_block_hash_ok:
  assumes "rq_mm_positions r = []" "0 < bs" and hs: "hs = request_hashes H bs r" and idx: "idx = n + i" "idx < length hs"
    and prev: "prev = (if idx = 0 then None else Some (hash_value (hs ! (idx - 1))))"
    and k: "n \<le> k0" "k0 \<le> length hs" and bh: "block_hashes = take (max k0 idx) hs"
  shows "new_block_hash H r bs (int n) prev (drop n (take k0 hs)) i block_hashes = Inr (hs ! idx, take (max k0 (Suc idx)) hs)"
proof (cases "idx < k0")
  case True
  then have "max k0 (Suc idx) = k0" "max k0 idx = k0" by simp_all
  then show ?thesis using True idx(1) k bh by (simp add: new_block_hash_def less_diff_conv add.commute)
next
  case False
  let ?toks = "rq_all_token_ids r"
  have lt: "idx < length ?toks div bs" using idx(2) hs assms(2) by (simp add: request_hashes_length)
  then have le: "Suc idx * bs \<le> length ?toks" using assms(2)
    by (meson Suc_leI div_times_less_eq_dividend le_trans mult_le_mono1)
  have ix: "(int n + int i) * int bs = int (idx * bs)" "(int n + int i + 1) * int bs = int ((idx + 1) * bs)"
    unfolding idx(1) by (simp_all add: distrib_right)
  have sl: "py_slice ?toks (int (idx * bs)) (int ((idx + 1) * bs)) = take bs (drop (idx * bs) ?toks)"
    unfolding py_slice_nat by (simp add: take_drop add.commute)
  have c: "full_chunks bs ?toks ! idx = take bs (drop (idx * bs) ?toks)"
    using lt by (simp add: full_chunks_nth[OF assms(2)])
  have h: "hs ! idx = hash_block_tokens_v1 H prev (take bs (drop (idx * bs) ?toks)) (text_keys r)"
    using chain_v1_nth[of idx "full_chunks bs ?toks" H "text_keys r" None] lt assms(2) prev
    by (simp add: hs request_hashes_def full_chunks_length c)
  have "min (length ?toks - idx * bs) bs = bs" using le by simp
  then show ?thesis using False idx k bh sl extra_keys_text[OF assms(1)] h
    unfolding new_block_hash_def Let_def ix by (simp add: max_def take_Suc_conv_app_nth)
qed

lemma cache_blocks_loop_ok:
  assumes "rq_mm_positions r = []" "0 < bs" and hs: "hs = request_hashes H bs r"
    and "pool_state p xs" "vp_enable_caching p" "n + i + length blks \<le> length hs"
    and blks: "distinct blks" "set blks \<subseteq> {..<length (vp_blocks p)}" "\<forall>b \<in> set blks. vp_hash p b = None"
    and prev: "prev = (if n + i = 0 then None else Some (hash_value (hs ! (n + i - 1))))"
    and k: "n \<le> k0" "k0 \<le> length hs" and bh: "block_hashes = take (max k0 (n + i)) hs"
  shows "\<exists>p'. cache_blocks_loop H r bs (int n) (drop n (take k0 hs)) prev i blks block_hashes p =
       Inr (take (max k0 (n + i + length blks)) hs, p') \<and> pool_state p' xs \<and> same_pool p p' \<and> vp_refs p' = vp_refs p \<and>
     (\<forall>j < length blks. vp_hash p' (blks ! j) = Some (hs ! (n + i + j))) \<and> (\<forall>b. b \<notin> set blks \<longrightarrow> vp_hash p' b = vp_hash p b)"
  using assms(4-)
proof (induction blks arbitrary: p i prev block_hashes)
  case (Cons b blks)
  note base = pool_stateD(1)[OF Cons.prems(1)]
  have b: "b < length (vp_blocks p)" "vp_hash p b = None" using Cons.prems(5,6) by auto
  then have un: "kb_block_hash (vp_blocks p ! b) = None" by (simp add: vp_hash_def)
  have nh: "new_block_hash H r bs (int n) prev (drop n (take k0 hs)) i block_hashes = Inr (hs ! (n + i), take (max k0 (Suc (n + i))) hs)"
    using Cons.prems by (intro new_block_hash_ok[OF assms(1,2) hs]) auto
  obtain p1 where p1: "cache_block (hs ! (n + i)) b p = Inr p1" "pool_base p1 xs" "same_pool p p1" "vp_refs p1 = vp_refs p"
      "vp_hash p1 = (vp_hash p)(b \<mapsto> hs ! (n + i))"
    using cache_block_ok[OF base b Cons.prems(2)] by blast
  have st: "pool_state p1 xs" using Cons.prems(1) p1(2,3,4) by (simp add: pool_state_def same_pool_def)
  have sm: "length (vp_blocks p1) = length (vp_blocks p)" "vp_enable_caching p1" using p1(3) Cons.prems(2) by (simp_all add: same_pool_def)
  have "\<exists>p'. cache_blocks_loop H r bs (int n) (drop n (take k0 hs)) (Some (hash_value (hs ! (n + i)))) (Suc i) blks (take (max k0 (Suc (n + i))) hs) p1 =
       Inr (take (max k0 (n + Suc i + length blks)) hs, p') \<and> pool_state p' xs \<and> same_pool p1 p' \<and> vp_refs p' = vp_refs p1 \<and>
     (\<forall>j < length blks. vp_hash p' (blks ! j) = Some (hs ! (n + Suc i + j))) \<and> (\<forall>b. b \<notin> set blks \<longrightarrow> vp_hash p' b = vp_hash p1 b)"
    using Cons.prems st sm p1(5) by (intro Cons.IH) auto
  then obtain p' where p': "cache_blocks_loop H r bs (int n) (drop n (take k0 hs)) (Some (hash_value (hs ! (n + i)))) (Suc i) blks
        (take (max k0 (Suc (n + i))) hs) p1 = Inr (take (max k0 (n + Suc i + length blks)) hs, p')" "pool_state p' xs" "same_pool p1 p'"
      "vp_refs p' = vp_refs p1" "\<forall>j < length blks. vp_hash p' (blks ! j) = Some (hs ! (n + Suc i + j))"
      "\<forall>b. b \<notin> set blks \<longrightarrow> vp_hash p' b = vp_hash p1 b" by blast
  have "vp_hash p' ((b # blks) ! j) = Some (hs ! (n + i + j))" if "j < length (b # blks)" for j
    using that p'(5,6) p1(5) Cons.prems(4) by (cases j) auto
  then show ?case using p1(1,4,5) p'(1,2,4,6) same_pool_trans[OF p1(3) p'(3)] un nh by simp
qed simp

text \<open>
  Caching the full blocks of a request whose first \<open>n\<close> blocks are cached: afterwards its first \<open>m\<close>
  blocks carry the hashes of its tokens.
\<close>

lemma cache_full_blocks_ok:
  assumes "rq_mm_positions r = []" "0 < bs" and hs: "hs = request_hashes H bs r"
    and "pool_state p xs" "vp_enable_caching p" and m: "n \<le> m" "m \<le> length hs" "m \<le> length blocks"
    and d: "distinct (drop n (take m blocks))" and sub: "set blocks \<subseteq> {..<length (vp_blocks p)}"
    and old: "\<forall>i < n. vp_hash p (blocks ! i) = Some (hs ! i)" and new: "\<forall>i. n \<le> i \<longrightarrow> i < m \<longrightarrow> vp_hash p (blocks ! i) = None"
    and k: "n \<le> k0" "k0 \<le> length hs"
  shows "\<exists>p'. BlockPool_v1_cache_full_blocks H r blocks (take k0 hs) (int n) (int m) bs p = Inr (take (max k0 m) hs, p') \<and>
     pool_state p' xs \<and> same_pool p p' \<and> vp_refs p' = vp_refs p \<and> (\<forall>i < m. vp_hash p' (blocks ! i) = Some (hs ! i)) \<and>
     (\<forall>b. b \<notin> set (drop n (take m blocks)) \<longrightarrow> vp_hash p' b = vp_hash p b)"
proof (cases "n = m")
  case True
  then show ?thesis using assms by (auto simp: BlockPool_v1_cache_full_blocks_def max_def)
next
  case False
  let ?blks = "drop n (take m blocks)"
  have len: "length ?blks = m - n" using m by simp
  have nth: "j < m - n \<Longrightarrow> ?blks ! j = blocks ! (n + j)" for j using m by simp
  have sub': "set ?blks \<subseteq> {..<length (vp_blocks p)}"
    using sub set_drop_subset[of n "take m blocks"] set_take_subset[of m blocks] by blast
  have un: "\<forall>b \<in> set ?blks. vp_hash p b = None"
  proof
    fix b assume "b \<in> set ?blks"
    then obtain j where "j < m - n" "b = blocks ! (n + j)" using nth len by (auto simp: in_set_conv_nth)
    then show "vp_hash p b = None" using new by simp
  qed
  have last: "last_cached_hash p blocks (int n) = Inr (if n = 0 then None else Some (hash_value (hs ! (n - 1))))"
  proof (cases "n = 0")
    case False
    then have i: "n - 1 < n" "n - 1 < length blocks" using m by simp_all
    then have "blocks ! (n - 1) < length (vp_blocks p)" using sub nth_mem by blast
    then have "kb_block_hash (vp_blocks p ! (blocks ! (n - 1))) = Some (hs ! (n - 1))"
      using old[rule_format, OF i(1)] by (simp add: vp_hash_def)
    moreover have "py_getitem blocks (int n - 1) = Inr (blocks ! (n - 1))"
      using py_getitem_nat[OF i(2)] False by (simp add: of_nat_diff)
    ultimately show ?thesis using False by (simp add: last_cached_hash_def)
  qed (simp add: last_cached_hash_def)
  have bound: "n + 0 + length ?blks \<le> length hs" using m len by simp
  have mx: "take k0 hs = take (max k0 (n + 0)) hs" using k by (simp add: max_absorb1)
  have pv: "(if n = 0 then None else Some (hash_value (hs ! (n - 1)))) = (if n + 0 = 0 then None else Some (hash_value (hs ! (n + 0 - 1))))"
    by simp
  from cache_blocks_loop_ok[OF assms(1,2) hs assms(4,5) bound d sub' un pv k mx]
  obtain p' where p': "cache_blocks_loop H r bs (int n) (drop n (take k0 hs)) (if n = 0 then None else Some (hash_value (hs ! (n - 1)))) 0
       ?blks (take k0 hs) p = Inr (take (max k0 (n + 0 + length ?blks)) hs, p')" "pool_state p' xs" "same_pool p p'" "vp_refs p' = vp_refs p"
     "\<forall>j < length ?blks. vp_hash p' (?blks ! j) = Some (hs ! (n + 0 + j))" "\<forall>b. b \<notin> set ?blks \<longrightarrow> vp_hash p' b = vp_hash p b"
    by blast
  have eq: "n + 0 + length ?blks = m" using len m by simp
  have run: "BlockPool_v1_cache_full_blocks H r blocks (take k0 hs) (int n) (int m) bs p = Inr (take (max k0 m) hs, p')"
    using False p'(1) last k unfolding eq by (simp add: BlockPool_v1_cache_full_blocks_def py_slice_nat Let_def min_absorb2 del: of_nat_diff)
  have "vp_hash p' (blocks ! i) = Some (hs ! i)" if i: "i < m" for i
  proof (cases "i < n")
    case True
    then have "blocks ! i \<notin> set ?blks" using old un by force
    then show ?thesis using p'(6) old True by simp
  next
    case False
    then have "i - n < length ?blks" using len i by simp
    then show ?thesis using p'(5)[rule_format, of "i - n"] nth[of "i - n"] len False by simp
  qed
  then show ?thesis using run p' by blast
qed

end
