(* ===== verification/KV_Cache_Manager.thy ===== *)
theory KV_Cache_Manager
  imports KV_Pool_Correct
begin

text \<open>
  The KV-cache manager of the v1 engine (v1/core/kv_cache_manager.py): the blocks each request
  holds, the hashes of its token blocks and the number of its cached blocks, on top of the block
  pool. A defaultdict gets an entry by being read; the model writes that entry too.
\<close>

section \<open>State\<close>

record PrefixCacheStats =
  ps_reset :: bool
  ps_requests :: nat
  ps_queries :: nat
  ps_hits :: nat

definition PrefixCacheStats_init :: PrefixCacheStats where
  "PrefixCacheStats_init = \<lparr>ps_reset = False, ps_requests = 0, ps_queries = 0, ps_hits = 0\<rparr>"

record KVCacheManager =
  km_block_size :: nat
  km_num_gpu_blocks :: nat
  km_max_model_len :: nat
  km_max_num_blocks_per_req :: int
  km_sliding_window :: "int option"
  km_enable_caching :: bool
  km_num_preallocate_tokens :: nat
  km_num_preallocate_blocks :: int
  km_block_pool :: BlockPool_v1
  km_req_to_blocks :: "(string, kv_ref list) dict"
  km_req_to_block_hashes :: "(string, BlockHashType list) dict"
  km_num_cached_block :: "(string, int) dict"
  km_prefix_cache_stats :: PrefixCacheStats

definition KVCacheManager_init :: "nat \<Rightarrow> nat \<Rightarrow> nat \<Rightarrow> int option \<Rightarrow> bool \<Rightarrow> nat \<Rightarrow> KVCacheManager result" where
  "KVCacheManager_init block_size num_gpu_blocks max_model_len sliding_window enable_caching num_preallocate_tokens =
     (if block_size = 0 then Inl ZeroDivisionError
      else res_bind (BlockPool_v1_init num_gpu_blocks enable_caching) (\<lambda>p.
        Inr \<lparr>km_block_size = block_size, km_num_gpu_blocks = num_gpu_blocks, km_max_model_len = max_model_len,
             km_max_num_blocks_per_req = cdiv (int max_model_len) (int block_size), km_sliding_window = sliding_window,
             km_enable_caching = enable_caching, km_num_preallocate_tokens = num_preallocate_tokens,
             km_num_preallocate_blocks = cdiv (int num_preallocate_tokens) (int block_size), km_block_pool = p,
             km_req_to_blocks = [], km_req_to_block_hashes = [], km_num_cached_block = [],
             km_prefix_cache_stats = PrefixCacheStats_init\<rparr>))"

definition KVCacheManager_usage :: "KVCacheManager \<Rightarrow> rat result" where
  "KVCacheManager_usage m = BlockPool_v1_get_usage (km_block_pool m)"

definition KVCacheManager_make_prefix_cache_stats :: "KVCacheManager \<Rightarrow> PrefixCacheStats \<times> KVCacheManager" where
  "KVCacheManager_make_prefix_cache_stats m =
     (km_prefix_cache_stats m, m\<lparr>km_prefix_cache_stats := PrefixCacheStats_init\<rparr>)"

abbreviation km_blocks_of :: "KVCacheManager \<Rightarrow> Request \<Rightarrow> kv_ref list" where
  "km_blocks_of m r \<equiv> dict_get_default (km_req_to_blocks m) (rq_request_id r) []"

abbreviation km_hashes_of :: "KVCacheManager \<Rightarrow> Request \<Rightarrow> BlockHashType list" where
  "km_hashes_of m r \<equiv> dict_get_default (km_req_to_block_hashes m) (rq_request_id r) []"

definition km_set_blocks :: "Request \<Rightarrow> kv_ref list \<Rightarrow> KVCacheManager \<Rightarrow> KVCacheManager" where
  "km_set_blocks r bs m = m\<lparr>km_req_to_blocks := dict_set (rq_request_id r) bs (km_req_to_blocks m)\<rparr>"

definition km_set_hashes :: "Request \<Rightarrow> BlockHashType list \<Rightarrow> KVCacheManager \<Rightarrow> KVCacheManager" where
  "km_set_hashes r hs m = m\<lparr>km_req_to_block_hashes := dict_set (rq_request_id r) hs (km_req_to_block_hashes m)\<rparr>"

section \<open>Computed blocks\<close>

fun cached_prefix :: "BlockPool_v1 \<Rightarrow> BlockHashType list \<Rightarrow> kv_ref list result" where
  "cached_prefix p [] = Inr []"
| "cached_prefix p (h # hs) = res_bind (BlockPool_v1_get_cached_block p h) (\<lambda>x.
     case x of None \<Rightarrow> Inr [] | Some r \<Rightarrow> res_bind (cached_prefix p hs) (\<lambda>rs. Inr (r # rs)))"

definition KVCacheManager_get_computed_blocks ::
    "kv_hasher \<Rightarrow> KVCacheManager \<Rightarrow> Request \<Rightarrow> ((kv_ref list \<times> nat) \<times> KVCacheManager) result" where
  "KVCacheManager_get_computed_blocks H m r =
     (if \<not> km_enable_caching m then Inr (([], 0), m)
      else res_bind (if km_hashes_of m r = [] then hash_request_tokens H (km_block_size m) r else Inr (km_hashes_of m r)) (\<lambda>hs.
        let m1 = km_set_hashes r hs m;
            st = (km_prefix_cache_stats m1)\<lparr>ps_requests := ps_requests (km_prefix_cache_stats m1) + 1\<rparr>
        in if sp_prompt_logprobs (rq_sampling_params r) = None
           then res_bind (cached_prefix (km_block_pool m1) hs) (\<lambda>rs.
                  Inr ((rs, length rs * km_block_size m1),
                       m1\<lparr>km_prefix_cache_stats := st\<lparr>ps_queries := ps_queries st + length hs, ps_hits := ps_hits st + length rs\<rparr>\<rparr>))
           else Inr (([], 0), m1\<lparr>km_prefix_cache_stats := st\<rparr>)))"

section \<open>Allocating and freeing slots\<close>

text \<open>The blocks taken for the new slots, preallocated ones included.\<close>

definition take_new_blocks :: "KVCacheManager \<Rightarrow> int \<Rightarrow> nat \<Rightarrow> BlockPool_v1 \<Rightarrow> (kv_ref list \<times> BlockPool_v1) result" where
  "take_new_blocks m num_new_blocks num_req_blocks p =
     (if num_new_blocks \<le> 0 then Inr ([], p)
      else let n = min (num_new_blocks + km_num_preallocate_blocks m)
                     (min (BlockPool_v1_get_num_free_blocks p) (km_max_num_blocks_per_req m - int num_req_blocks))
           in res_bind (py_assert (n > 0)) (\<lambda>_. BlockPool_v1_get_new_blocks (nat n) p))"

definition num_evictable :: "BlockPool_v1 \<Rightarrow> kv_ref list \<Rightarrow> nat" where
  "num_evictable p rs = length (filter (\<lambda>r. kb_ref_cnt (vp_blocks p ! r) = 0) rs)"

text \<open>The last part of the allocation: caching the blocks that are full now.\<close>

definition cache_slots :: "kv_hasher \<Rightarrow> Request \<Rightarrow> int \<Rightarrow> nat \<Rightarrow> kv_ref list \<Rightarrow> KVCacheManager \<Rightarrow> KVCacheManager result" where
  "cache_slots H r num_tokens_after num_new_computed req_blocks m =
     (let num_cached_blocks = dict_get_default (km_num_cached_block m) (rq_request_id r) (int num_new_computed);
          num_full_blocks = (num_tokens_after - int (length (rq_spec_token_ids r))) div int (km_block_size m)
      in res_bind (BlockPool_v1_cache_full_blocks H r req_blocks (km_hashes_of m r) num_cached_blocks num_full_blocks
           (km_block_size m) (km_block_pool m)) (\<lambda>(hs, p).
           Inr ((km_set_hashes r hs m)\<lparr>km_block_pool := p,
                km_num_cached_block := dict_set (rq_request_id r) num_full_blocks (km_num_cached_block m)\<rparr>)))"

definition KVCacheManager_allocate_slots ::
    "kv_hasher \<Rightarrow> KVCacheManager \<Rightarrow> Request \<Rightarrow> int \<Rightarrow> kv_ref list \<Rightarrow> (kv_ref list option \<times> KVCacheManager) result" where
  "KVCacheManager_allocate_slots H m r num_tokens new_computed_blocks =
     (if num_tokens = 0 then Inl ValueError
      else
        let num_computed_tokens = rq_num_computed_tokens r + int (length new_computed_blocks * km_block_size m);
            num_required_blocks = cdiv (num_computed_tokens + num_tokens) (int (km_block_size m));
            req_blocks = km_blocks_of m r; m1 = km_set_blocks r req_blocks m; p = km_block_pool m1;
            num_new_blocks = num_required_blocks - int (length req_blocks) - int (length new_computed_blocks)
        in if num_new_blocks > BlockPool_v1_get_num_free_blocks p - int (num_evictable p new_computed_blocks)
           then Inr (None, m1)
           else res_bind (if km_enable_caching m then Inr (BlockPool_v1_touch new_computed_blocks p)
                          else res_bind (py_assert (new_computed_blocks = [])) (\<lambda>_. Inr p)) (\<lambda>p1.
                let req_blocks1 = req_blocks @ new_computed_blocks in
                res_bind (take_new_blocks m1 num_new_blocks (length req_blocks1) p1) (\<lambda>(new_blocks, p2).
                let req_blocks2 = req_blocks1 @ new_blocks; m2 = (km_set_blocks r req_blocks2 m1)\<lparr>km_block_pool := p2\<rparr>
                in if \<not> km_enable_caching m then Inr (Some new_blocks, m2)
                   else res_bind (cache_slots H r (num_computed_tokens + num_tokens) (length new_computed_blocks) req_blocks2 m2) (\<lambda>m3.
                        Inr (Some new_blocks, m3)))))"

definition KVCacheManager_free :: "KVCacheManager \<Rightarrow> Request \<Rightarrow> KVCacheManager result" where
  "KVCacheManager_free m r =
     (let blocks = km_blocks_of m r; ordered_blocks = (if km_enable_caching m then rev blocks else blocks)
      in res_bind (BlockPool_v1_free_blocks ordered_blocks (km_block_pool m)) (\<lambda>p.
           Inr (m\<lparr>km_req_to_blocks := dict_pop (rq_request_id r) (km_req_to_blocks m), km_block_pool := p,
                  km_num_cached_block := dict_pop (rq_request_id r) (km_num_cached_block m)\<rparr>)))"

definition KVCacheManager_reset_prefix_cache :: "KVCacheManager \<Rightarrow> bool \<times> KVCacheManager" where
  "KVCacheManager_reset_prefix_cache m =
     (let (ok, p) = BlockPool_v1_reset_prefix_cache (km_block_pool m); m1 = m\<lparr>km_block_pool := p\<rparr>
      in if ok then (True, m1\<lparr>km_prefix_cache_stats := (km_prefix_cache_stats m1)\<lparr>ps_reset := True\<rparr>\<rparr>) else (False, m1))"

definition KVCacheManager_get_num_common_prefix_blocks :: "KVCacheManager \<Rightarrow> Request \<Rightarrow> int \<Rightarrow> (nat \<times> KVCacheManager) result" where
  "KVCacheManager_get_num_common_prefix_blocks m r num_running_requests =
     res_bind (py_assert (rq_status r = RUNNING)) (\<lambda>_.
       let blocks = km_blocks_of m r in
       Inr (length (takeWhile (\<lambda>b. kb_ref_cnt (vp_blocks (km_block_pool m) ! b) = num_running_requests) blocks),
            km_set_blocks r blocks m))"

definition KVCacheManager_free_block_hashes :: "KVCacheManager \<Rightarrow> Request \<Rightarrow> KVCacheManager" where
  "KVCacheManager_free_block_hashes m r =
     m\<lparr>km_req_to_block_hashes := dict_pop (rq_request_id r) (km_req_to_block_hashes m)\<rparr>"

section \<open>PrefixCachingMetrics\<close>

record PrefixCachingMetrics =
  cm_interval :: nat
  cm_aggregated_requests :: int
  cm_aggregated_query_total :: int
  cm_aggregated_query_hit :: int
  cm_query_queue :: "(nat \<times> nat \<times> nat) list"

definition PrefixCachingMetrics_init :: "nat \<Rightarrow> PrefixCachingMetrics" where
  "PrefixCachingMetrics_init interval = \<lparr>cm_interval = interval, cm_aggregated_requests = 0,
     cm_aggregated_query_total = 0, cm_aggregated_query_hit = 0, cm_query_queue = []\<rparr>"

definition PrefixCachingMetrics_reset :: "PrefixCachingMetrics \<Rightarrow> PrefixCachingMetrics" where
  "PrefixCachingMetrics_reset c = c\<lparr>cm_aggregated_requests := 0, cm_aggregated_query_total := 0,
     cm_aggregated_query_hit := 0, cm_query_queue := []\<rparr>"

definition PrefixCachingMetrics_observe :: "PrefixCachingMetrics \<Rightarrow> PrefixCacheStats \<Rightarrow> PrefixCachingMetrics result" where
  "PrefixCachingMetrics_observe c0 stats =
     (let c = (if ps_reset stats then PrefixCachingMetrics_reset c0 else c0);
          c1 = c\<lparr>cm_query_queue := cm_query_queue c @ [(ps_requests stats, ps_queries stats, ps_hits stats)],
                 cm_aggregated_requests := cm_aggregated_requests c + int (ps_requests stats),
                 cm_aggregated_query_total := cm_aggregated_query_total c + int (ps_queries stats),
                 cm_aggregated_query_hit := cm_aggregated_query_hit c + int (ps_hits stats)\<rparr>
      in if cm_aggregated_requests c1 > int (cm_interval c1)
         then (case cm_query_queue c1 of [] \<Rightarrow> Inl IndexError
           | (old_requests, old_queries, old_hits) # rest \<Rightarrow>
               Inr (c1\<lparr>cm_query_queue := rest, cm_aggregated_requests := cm_aggregated_requests c1 - int old_requests,
                      cm_aggregated_query_total := cm_aggregated_query_total c1 - int old_queries,
                      cm_aggregated_query_hit := cm_aggregated_query_hit c1 - int old_hits\<rparr>))
         else Inr c1)"

definition PrefixCachingMetrics_hit_rate :: "PrefixCachingMetrics \<Rightarrow> rat" where
  "PrefixCachingMetrics_hit_rate c =
     (if cm_aggregated_query_total c = 0 then 0 else of_int (cm_aggregated_query_hit c) / of_int (cm_aggregated_query_total c))"

end
