(* ===== verification/KV_Manager_Correct.thy ===== *)
theory KV_Manager_Correct
  imports KV_Cache_Manager
begin

text \<open>
  The invariant of the KV-cache manager: the reference count of a block is the number of times
  the requests hold it, and only hashed blocks are shared. Allocation and release keep it, and
  the blocks of a request carry the hashes of its tokens.
\<close>

section \<open>Who holds a block\<close>

definition holders :: "(string, kv_ref list) dict \<Rightarrow> kv_ref \<Rightarrow> nat" where
  "holders d b = sum_list (map (\<lambda>e. count_list (snd e) b) d)"

lemma holders_set:
  "dict_ok d \<Longrightarrow> holders (dict_set k bs d) b + count_list (dict_get_default d k []) b = holders d b + count_list bs b"
proof (induction d)
  case (Cons e d)
  show ?case
  proof (cases "fst e = k")
    case True
    then show ?thesis by (cases e) (simp add: holders_def dict_get_default_def)
  next
    case False
    then show ?thesis using Cons by (cases e) (simp add: holders_def dict_get_default_def dict_ok_def)
  qed
qed (simp add: holders_def dict_get_default_def)

lemma holders_pop:
  "dict_ok d \<Longrightarrow> holders (dict_pop k d) b + count_list (dict_get_default d k []) b = holders d b"
proof (induction d)
  case (Cons e d)
  show ?case
  proof (cases "fst e = k")
    case True
    then have "dict_get d k = None" using Cons.prems by (auto simp: dict_ok_def map_of_eq_None_iff)
    then show ?thesis using True Cons by (cases e) (simp add: holders_def dict_get_default_def dict_ok_def)
  next
    case False
    then show ?thesis using Cons by (cases e) (simp add: holders_def dict_get_default_def dict_ok_def)
  qed
qed (simp add: holders_def dict_get_default_def)

lemma holders_le: "dict_ok d \<Longrightarrow> count_list (dict_get_default d k []) b \<le> holders d b"
  using holders_pop[of d k b] by simp

definition km_inv :: "KVCacheManager \<Rightarrow> kv_ref list \<Rightarrow> bool" where
  "km_inv m xs \<longleftrightarrow> 0 < km_block_size m \<and> pool_state (km_block_pool m) xs \<and>
     km_enable_caching m = vp_enable_caching (km_block_pool m) \<and> dict_ok (km_req_to_blocks m) \<and>
     (\<forall>b. vp_refs (km_block_pool m) b = int (holders (km_req_to_blocks m) b)) \<and>
     (\<forall>b. vp_hash (km_block_pool m) b = None \<longrightarrow> holders (km_req_to_blocks m) b \<le> 1)"

lemma km_invD:
  assumes "km_inv m xs"
  shows "0 < km_block_size m" "pool_state (km_block_pool m) xs" "km_enable_caching m = vp_enable_caching (km_block_pool m)"
    "dict_ok (km_req_to_blocks m)" "vp_refs (km_block_pool m) b = int (holders (km_req_to_blocks m) b)"
    "vp_hash (km_block_pool m) b = None \<Longrightarrow> holders (km_req_to_blocks m) b \<le> 1"
  using assms by (auto simp: km_inv_def)

lemma held_refs:
  assumes "km_inv m xs" "b \<in> set (km_blocks_of m r)"
  shows "1 \<le> vp_refs (km_block_pool m) b" "b < length (vp_blocks (km_block_pool m))"
proof -
  have "0 < count_list (km_blocks_of m r) b" using assms(2) count_list_0_iff[of "km_blocks_of m r" b] by blast
  then have "1 \<le> holders (km_req_to_blocks m) b" using holders_le[OF km_invD(4)[OF assms(1)], of "rq_request_id r" b] by simp
  then show "1 \<le> vp_refs (km_block_pool m) b" using km_invD(5)[OF assms(1), of b] by simp
  then show "b < length (vp_blocks (km_block_pool m))" by (simp add: vp_refs_def split: if_splits)
qed

text \<open>What no operation of the manager changes.\<close>

definition same_config :: "KVCacheManager \<Rightarrow> KVCacheManager \<Rightarrow> bool" where
  "same_config m m' \<longleftrightarrow> km_block_size m' = km_block_size m \<and> km_enable_caching m' = km_enable_caching m \<and>
     km_max_num_blocks_per_req m' = km_max_num_blocks_per_req m \<and> km_num_preallocate_blocks m' = km_num_preallocate_blocks m \<and>
     length (vp_blocks (km_block_pool m')) = length (vp_blocks (km_block_pool m))"

lemma same_config_refl [simp]: "same_config m m"
  by (simp add: same_config_def)

lemma same_config_trans: "same_config a b \<Longrightarrow> same_config b c \<Longrightarrow> same_config a c"
  by (simp add: same_config_def)

lemma km_set_simps [simp]:
  "km_block_pool (km_set_blocks r bs m) = km_block_pool m" "km_block_size (km_set_blocks r bs m) = km_block_size m"
  "km_enable_caching (km_set_blocks r bs m) = km_enable_caching m" "km_req_to_block_hashes (km_set_blocks r bs m) = km_req_to_block_hashes m"
  "km_num_cached_block (km_set_blocks r bs m) = km_num_cached_block m"
  "km_num_preallocate_blocks (km_set_blocks r bs m) = km_num_preallocate_blocks m"
  "km_max_num_blocks_per_req (km_set_blocks r bs m) = km_max_num_blocks_per_req m"
  "km_req_to_blocks (km_set_blocks r bs m) = dict_set (rq_request_id r) bs (km_req_to_blocks m)"
  "km_block_pool (km_set_hashes r hs m) = km_block_pool m" "km_block_size (km_set_hashes r hs m) = km_block_size m"
  "km_enable_caching (km_set_hashes r hs m) = km_enable_caching m" "km_req_to_blocks (km_set_hashes r hs m) = km_req_to_blocks m"
  "km_req_to_block_hashes (km_set_hashes r hs m) = dict_set (rq_request_id r) hs (km_req_to_block_hashes m)"
  by (simp_all add: km_set_blocks_def km_set_hashes_def)

lemma dict_set_set [simp]: "dict_set k v (dict_set k w d) = dict_set k v d"
  by (induction d) auto

lemma dict_get_default_set [simp]: "dict_get_default (dict_set k v d) k' w = (if k' = k then v else dict_get_default d k' w)"
  by (simp add: dict_get_default_def)

lemma km_inv_touch_entry:
  assumes "km_inv m xs"
  shows "km_inv (km_set_blocks r (km_blocks_of m r) m) xs"
proof -
  have "holders (dict_set (rq_request_id r) (km_blocks_of m r) (km_req_to_blocks m)) b = holders (km_req_to_blocks m) b" for b
    using holders_set[OF km_invD(4)[OF assms], of "rq_request_id r" "km_blocks_of m r" b] by simp
  then show ?thesis using assms by (simp add: km_inv_def)
qed

section \<open>Freeing a request\<close>

lemma free_request_ok:
  assumes inv: "km_inv m xs"
  shows "\<exists>m'. KVCacheManager_free m r = Inr m' \<and>
     km_inv m' (xs @ released (vp_refs (km_block_pool m)) (if km_enable_caching m then rev (km_blocks_of m r) else km_blocks_of m r)) \<and>
     km_req_to_blocks m' = dict_pop (rq_request_id r) (km_req_to_blocks m) \<and>
     km_req_to_block_hashes m' = km_req_to_block_hashes m \<and>
     km_num_cached_block m' = dict_pop (rq_request_id r) (km_num_cached_block m) \<and> same_config m m' \<and>
     vp_hash (km_block_pool m') = vp_hash (km_block_pool m) \<and>
     vp_refs (km_block_pool m') = (\<lambda>b. vp_refs (km_block_pool m) b - int (count_list (km_blocks_of m r) b))"
proof -
  let ?p = "km_block_pool m"
  let ?rs = "if km_enable_caching m then rev (km_blocks_of m r) else km_blocks_of m r"
  have cnt: "count_list ?rs b = count_list (km_blocks_of m r) b" for b by (simp add: count_list_rev)
  have le: "\<forall>b. int (count_list ?rs b) \<le> vp_refs ?p b"
    unfolding cnt using holders_le[OF km_invD(4)[OF inv]] km_invD(5)[OF inv] by simp
  have "set ?rs \<subseteq> {..<length (vp_blocks ?p)}" using held_refs(2)[OF inv] by auto
  from free_blocks_ok[OF km_invD(2)[OF inv] this le] obtain p' where p': "BlockPool_v1_free_blocks ?rs ?p = Inr p'"
    "pool_state p' (xs @ released (vp_refs ?p) ?rs)" "same_pool ?p p'" "vp_refs p' = (\<lambda>b. vp_refs ?p b - int (count_list ?rs b))"
    "vp_hash p' = vp_hash ?p" by blast
  let ?m = "m\<lparr>km_req_to_blocks := dict_pop (rq_request_id r) (km_req_to_blocks m), km_block_pool := p',
      km_num_cached_block := dict_pop (rq_request_id r) (km_num_cached_block m)\<rparr>"
  have h: "vp_refs p' b = int (holders (dict_pop (rq_request_id r) (km_req_to_blocks m)) b)" for b
    unfolding p'(4) cnt km_invD(5)[OF inv] using holders_pop[OF km_invD(4)[OF inv], of "rq_request_id r" b] by simp
  have "holders (dict_pop (rq_request_id r) (km_req_to_blocks m)) b \<le> holders (km_req_to_blocks m) b" for b
    using holders_pop[OF km_invD(4)[OF inv], of "rq_request_id r" b] by simp
  then have "km_inv ?m (xs @ released (vp_refs ?p) ?rs)"
    using inv p'(2,3,5) h unfolding km_inv_def by (simp add: same_pool_def) (meson order_trans)
  then show ?thesis using p'(1,3,4,5) cnt by (simp add: KVCacheManager_free_def Let_def same_config_def same_pool_def)
qed

section \<open>Computed blocks\<close>

text \<open>The longest prefix of the hashes that is cached, each block with its own hash.\<close>

definition hash_cached :: "BlockPool_v1 \<Rightarrow> BlockHashType \<Rightarrow> bool" where
  "hash_cached p h \<longleftrightarrow> (\<exists>b. vp_hash p b = Some h)"

lemma cached_prefix_ok:
  assumes "pool_state p xs"
  shows "\<exists>rs. cached_prefix p hs = Inr rs \<and> length rs = length (takeWhile (hash_cached p) hs) \<and>
     (\<forall>i < length rs. vp_hash p (rs ! i) = Some (hs ! i))"
proof (induction hs)
  case (Cons h hs)
  obtain x where x: "BlockPool_v1_get_cached_block p h = Inr x"
    "case x of Some r \<Rightarrow> vp_hash p r = Some h | None \<Rightarrow> \<forall>r. vp_hash p r \<noteq> Some h"
    using get_cached_block_ok[OF pool_baseD(2)[OF pool_stateD(1)[OF assms]]] by blast
  show ?case
  proof (cases x)
    case None
    then have "\<not> hash_cached p h" using x(2) by (simp add: hash_cached_def)
    then show ?thesis using x None by simp
  next
    case (Some r)
    obtain rs where rs: "cached_prefix p hs = Inr rs" "length rs = length (takeWhile (hash_cached p) hs)"
      "\<forall>i < length rs. vp_hash p (rs ! i) = Some (hs ! i)" using Cons.IH by blast
    have "vp_hash p ((r # rs) ! i) = Some ((h # hs) ! i)" if "i < length (r # rs)" for i
      using that rs(3) x(2) Some by (cases i) auto
    moreover have "hash_cached p h" using x(2) Some by (auto simp: hash_cached_def)
    ultimately show ?thesis using x Some rs(1,2) by (intro exI[of _ "r # rs"]) simp
  qed
qed simp

lemma vp_hash_range: "vp_hash p b = Some h \<Longrightarrow> b < length (vp_blocks p)"
  by (simp add: vp_hash_def split: if_splits)

lemma get_computed_blocks_ok:
  assumes inv: "km_inv m xs" and r: "km_enable_caching m" "rq_mm_positions r = []" "sp_prompt_logprobs (rq_sampling_params r) = None"
    and hs: "hs = (if km_hashes_of m r = [] then request_hashes H (km_block_size m) r else km_hashes_of m r)"
  shows "\<exists>rs m'. KVCacheManager_get_computed_blocks H m r = Inr ((rs, length rs * km_block_size m), m') \<and> km_inv m' xs \<and>
     length rs = length (takeWhile (hash_cached (km_block_pool m)) hs) \<and>
     (\<forall>i < length rs. vp_hash (km_block_pool m) (rs ! i) = Some (hs ! i)) \<and>
     km_block_pool m' = km_block_pool m \<and> km_req_to_blocks m' = km_req_to_blocks m \<and>
     km_req_to_block_hashes m' = dict_set (rq_request_id r) hs (km_req_to_block_hashes m) \<and>
     km_num_cached_block m' = km_num_cached_block m \<and> km_block_size m' = km_block_size m \<and>
     km_max_num_blocks_per_req m' = km_max_num_blocks_per_req m \<and> km_num_preallocate_blocks m' = km_num_preallocate_blocks m \<and>
     km_enable_caching m' = km_enable_caching m"
proof -
  obtain rs where rs: "cached_prefix (km_block_pool m) hs = Inr rs" "length rs = length (takeWhile (hash_cached (km_block_pool m)) hs)"
    "\<forall>i < length rs. vp_hash (km_block_pool m) (rs ! i) = Some (hs ! i)"
    using cached_prefix_ok[OF km_invD(2)[OF inv]] by blast
  have h: "(if km_hashes_of m r = [] then hash_request_tokens H (km_block_size m) r else Inr (km_hashes_of m r)) = Inr hs"
    using hash_request_tokens_text[OF r(2) km_invD(1)[OF inv]] hs by simp
  show ?thesis using rs r h inv
    by (simp add: KVCacheManager_get_computed_blocks_def Let_def km_inv_def)
      (simp add: km_set_hashes_def)
qed

section \<open>Taking blocks\<close>

lemma count_list_distinct: "distinct xs \<Longrightarrow> count_list xs x = (if x \<in> set xs then 1 else 0)"
  by (induction xs) auto

lemma free_after_touch:
  assumes "pool_state p xs"
  shows "length xs \<le> length (filter (\<lambda>b. b \<notin> set rs) xs) + num_evictable p rs"
proof -
  have d: "distinct xs" and sub: "set xs \<subseteq> {..<length (vp_blocks p)}" using pool_baseD(3,4)[OF pool_stateD(1)[OF assms]] .
  have "set (filter (\<lambda>b. b \<in> set rs) xs) \<subseteq> set (filter (\<lambda>r. kb_ref_cnt (vp_blocks p ! r) = 0) rs)"
    using pool_stateD(3)[OF assms] sub by (auto simp: vp_refs_def)
  then have "length (filter (\<lambda>b. b \<in> set rs) xs) \<le> num_evictable p rs"
    unfolding num_evictable_def using d
    by (metis card_length card_mono distinct_card distinct_filter finite_set order_trans)
  then show ?thesis using sum_length_filter_compl[of "\<lambda>b. b \<in> set rs" xs] by simp
qed

lemma take_slots_ok:
  assumes "pool_state p xs" "set rs \<subseteq> {..<length (vp_blocks p)}" and n: "n \<le> int (length xs) - int (num_evictable p rs)"
    and mx: "0 < n \<Longrightarrow> n \<le> km_max_num_blocks_per_req m - int k" and pre: "0 \<le> km_num_preallocate_blocks m"
    and ys: "ys = filter (\<lambda>b. b \<notin> set rs) xs"
  shows "\<exists>new p'. take_new_blocks m n k (BlockPool_v1_touch rs p) = Inr (new, p') \<and> new = take (length new) ys \<and>
     pool_state p' (drop (length new) ys) \<and> same_pool p p' \<and> n \<le> int (length new) \<and> (n \<le> 0 \<longrightarrow> new = []) \<and>
     int (length new) \<le> max 0 (km_max_num_blocks_per_req m - int k) \<and>
     vp_refs p' = (\<lambda>b. vp_refs p b + int (count_list rs b) + int (count_list new b)) \<and>
     vp_hash p' = (\<lambda>b. if b \<in> set new then None else vp_hash p b)"
proof -
  let ?p1 = "BlockPool_v1_touch rs p"
  note p1 = touch_ok[OF assms(1,2)]
  have st: "pool_state ?p1 ys" using p1 ys by simp
  show ?thesis
  proof (cases "n \<le> 0")
    case True
    then show ?thesis using p1 ys by (intro exI[of _ "[]"] exI[of _ ?p1]) (simp add: take_new_blocks_def fun_eq_iff)
  next
    case False
    let ?n = "min (n + km_num_preallocate_blocks m) (min (int (length ys)) (km_max_num_blocks_per_req m - int k))"
    have fr: "BlockPool_v1_get_num_free_blocks ?p1 = int (length ys)" by (rule pool_baseD(7)[OF pool_stateD(1)[OF st]])
    have le: "n \<le> int (length ys)" using free_after_touch[OF assms(1), of rs] n ys by simp
    then have ge: "n \<le> ?n" using mx pre False by simp
    then have pos: "0 < ?n" using False by linarith
    have nl: "nat ?n \<le> length ys" by simp
    from get_new_blocks_ok[OF st, of "nat ?n"] nl obtain p2 where p2: "BlockPool_v1_get_new_blocks (nat ?n) ?p1 = Inr (take (nat ?n) ys, p2)"
      "pool_state p2 (drop (nat ?n) ys)" "same_pool ?p1 p2" "vp_refs p2 = (\<lambda>b. if b \<in> set (take (nat ?n) ys) then 1 else vp_refs ?p1 b)"
      "vp_hash p2 = (\<lambda>b. if b \<in> set (take (nat ?n) ys) then None else vp_hash ?p1 b)" by (auto simp: Let_def)
    let ?new = "take (nat ?n) ys"
    have len: "length ?new = nat ?n" using nl by simp
    have run: "take_new_blocks m n k ?p1 = Inr (?new, p2)"
      using False pos p2(1) by (simp add: take_new_blocks_def fr Let_def)
    have d: "distinct ?new" using pool_baseD(3)[OF pool_stateD(1)[OF st]] by simp
    have z: "vp_refs ?p1 b = 0" if "b \<in> set ?new" for b
      using that pool_stateD(3)[OF st, of b] pool_baseD(4)[OF pool_stateD(1)[OF st]] by (auto dest: in_set_takeD)
    have c: "count_list ?new b = (if b \<in> set ?new then 1 else 0)" for b
      by (rule count_list_distinct[OF d])
    have r1: "vp_refs ?p1 b = vp_refs p b + int (count_list rs b)" for b using p1 by simp
    have rf: "vp_refs p2 = (\<lambda>b. vp_refs p b + int (count_list rs b) + int (count_list ?new b))"
      unfolding p2(4) c by (rule ext) (use z r1 in auto)
    have hs: "vp_hash p2 = (\<lambda>b. if b \<in> set ?new then None else vp_hash p b)"
      unfolding p2(5) conjunct2[OF conjunct2[OF conjunct2[OF p1]]] by (rule refl)
    have sp: "same_pool p p2" using p1 p2(3) same_pool_trans by blast
    have tk: "?new = take (length ?new) ys" "pool_state p2 (drop (length ?new) ys)" unfolding len using p2(2) by simp_all
    have nn: "n \<le> int (length ?new)" unfolding len using ge pos by linarith
    have mxl: "int (length ?new) \<le> max 0 (km_max_num_blocks_per_req m - int k)" unfolding len using pos by linarith
    show ?thesis
      by (rule exI[of _ ?new], rule exI[of _ p2], intro conjI run tk sp nn mxl rf hs) (use False in simp)
  qed
qed

section \<open>Allocating slots\<close>

lemma distinct_tail_notin:
  assumes "distinct (drop n xs)" "n \<le> M" "M \<le> i" "i < length xs"
  shows "xs ! i \<notin> set (drop n (take M xs))"
proof
  assume "xs ! i \<in> set (drop n (take M xs))"
  then obtain j where j: "j < M - n" "xs ! i = xs ! (n + j)" using assms by (auto simp: in_set_conv_nth)
  then have "drop n xs ! (i - n) = drop n xs ! j" using assms by simp
  moreover have "i - n < length (drop n xs)" "j < length (drop n xs)" using j(1) assms by simp_all
  ultimately have "i - n = j" using nth_eq_iff_index_eq[OF assms(1)] by blast
  then show False using j(1) assms by simp
qed

lemma in_set_take_nth: "b \<in> set (take k xs) \<Longrightarrow> \<exists>j < k. b = xs ! j"
  by (auto simp: in_set_conv_nth)

text \<open>
  A request is ready for slots: it is a text request, its computed blocks are new to it only when
  it holds none, its tracked blocks carry the hashes of its tokens, the others are private to
  it, and the tokens to be cached are known.
\<close>

definition tokens_after :: "KVCacheManager \<Rightarrow> Request \<Rightarrow> int \<Rightarrow> kv_ref list \<Rightarrow> int" where
  "tokens_after m r num_tokens rs = rq_num_computed_tokens r + int (length rs * km_block_size m) + num_tokens"

definition full_after :: "KVCacheManager \<Rightarrow> Request \<Rightarrow> int \<Rightarrow> kv_ref list \<Rightarrow> int" where
  "full_after m r num_tokens rs = (tokens_after m r num_tokens rs - int (length (rq_spec_token_ids r))) div int (km_block_size m)"

definition blocks_needed :: "KVCacheManager \<Rightarrow> Request \<Rightarrow> int \<Rightarrow> kv_ref list \<Rightarrow> int" where
  "blocks_needed m r num_tokens rs =
     cdiv (tokens_after m r num_tokens rs) (int (km_block_size m)) - int (length (km_blocks_of m r)) - int (length rs)"

definition slots_ready :: "kv_hasher \<Rightarrow> KVCacheManager \<Rightarrow> Request \<Rightarrow> int \<Rightarrow> kv_ref list \<Rightarrow> nat \<Rightarrow> nat \<Rightarrow> bool" where
  "slots_ready H m r num_tokens rs n k \<longleftrightarrow>
     (let B = km_blocks_of m r @ rs; hs = request_hashes H (km_block_size m) r; p = km_block_pool m in
      num_tokens \<noteq> 0 \<and> rq_mm_positions r = [] \<and> km_enable_caching m \<and> 0 \<le> km_num_preallocate_blocks m \<and>
      (0 < blocks_needed m r num_tokens rs \<longrightarrow> blocks_needed m r num_tokens rs \<le> km_max_num_blocks_per_req m - int (length B)) \<and>
      (rs = [] \<or> km_blocks_of m r = [] \<and> n = length rs) \<and>
      dict_get_default (km_num_cached_block m) (rq_request_id r) (int (length rs)) = int n \<and>
      n \<le> length B \<and> int n \<le> full_after m r num_tokens rs \<and> full_after m r num_tokens rs \<le> int (length hs) \<and>
      (\<forall>i < n. vp_hash p (B ! i) = Some (hs ! i)) \<and> (\<forall>i. n \<le> i \<longrightarrow> i < length B \<longrightarrow> vp_hash p (B ! i) = None) \<and>
      distinct (drop n B) \<and> n \<le> k \<and> k \<le> length hs \<and> km_hashes_of m r = take k hs)"

text \<open>The blocks after the allocation suffice for the tokens, full blocks included.\<close>

lemma blocks_cover:
  assumes bs: "0 < km_block_size m" and len: "blocks_needed m r num_tokens rs \<le> int (length new)"
  shows "tokens_after m r num_tokens rs \<le> int (length (km_blocks_of m r @ rs @ new)) * int (km_block_size m)"
    "full_after m r num_tokens rs \<le> int (length (km_blocks_of m r @ rs @ new))"
proof -
  let ?T = "tokens_after m r num_tokens rs" and ?b = "int (km_block_size m)" and ?L = "int (length (km_blocks_of m r @ rs @ new))"
  have "cdiv ?T ?b \<le> ?L" using len by (simp add: blocks_needed_def)
  then show t: "?T \<le> ?L * ?b" using cdiv_least[of ?b ?T ?L] bs by simp
  have "(?T - int (length (rq_spec_token_ids r))) div ?b \<le> (?L * ?b) div ?b"
    using t bs by (intro zdiv_mono1) auto
  then show "full_after m r num_tokens rs \<le> ?L" using bs by (simp add: full_after_def)
qed

lemma allocate_slots_ok:
  assumes inv: "km_inv m xs" and ready: "slots_ready H m r num_tokens rs n k"
    and room: "blocks_needed m r num_tokens rs \<le> int (length xs) - int (num_evictable (km_block_pool m) rs)"
  shows "\<exists>new m'. KVCacheManager_allocate_slots H m r num_tokens rs = Inr (Some new, m') \<and>
     km_inv m' (drop (length new) (filter (\<lambda>b. b \<notin> set rs) xs)) \<and> new = take (length new) (filter (\<lambda>b. b \<notin> set rs) xs) \<and>
     km_req_to_blocks m' = dict_set (rq_request_id r) (km_blocks_of m r @ rs @ new) (km_req_to_blocks m) \<and>
     blocks_needed m r num_tokens rs \<le> int (length new) \<and>
     (\<forall>i < nat (full_after m r num_tokens rs). vp_hash (km_block_pool m') ((km_blocks_of m r @ rs @ new) ! i) =
        Some (request_hashes H (km_block_size m) r ! i)) \<and>
     (\<forall>b. b \<notin> set new \<longrightarrow> b \<notin> set (km_blocks_of m r) \<longrightarrow> vp_hash (km_block_pool m') b = vp_hash (km_block_pool m) b) \<and>
     km_req_to_block_hashes m' = dict_set (rq_request_id r)
       (take (max k (nat (full_after m r num_tokens rs))) (request_hashes H (km_block_size m) r)) (km_req_to_block_hashes m) \<and>
     km_num_cached_block m' = dict_set (rq_request_id r) (full_after m r num_tokens rs) (km_num_cached_block m) \<and>
     same_config m m' \<and>
     (\<forall>i. nat (full_after m r num_tokens rs) \<le> i \<longrightarrow> i < length (km_blocks_of m r @ rs @ new) \<longrightarrow>
        vp_hash (km_block_pool m') ((km_blocks_of m r @ rs @ new) ! i) = None) \<and>
     distinct (drop n (km_blocks_of m r @ rs @ new)) \<and>
     int (length (km_blocks_of m r @ rs @ new)) \<le> max (int (length (km_blocks_of m r @ rs))) (km_max_num_blocks_per_req m)"
proof -
  let ?id = "rq_request_id r" and ?p = "km_block_pool m" and ?bs = "km_block_size m" and ?old = "km_blocks_of m r"
  let ?hs = "request_hashes H ?bs r" and ?B = "km_blocks_of m r @ rs" and ?ys = "filter (\<lambda>b. b \<notin> set rs) xs"
  let ?need = "blocks_needed m r num_tokens rs" and ?f = "full_after m r num_tokens rs"
  define M where "M = nat ?f"
  have R: "num_tokens \<noteq> 0" "rq_mm_positions r = []" "km_enable_caching m" "0 \<le> km_num_preallocate_blocks m"
      "0 < ?need \<longrightarrow> ?need \<le> km_max_num_blocks_per_req m - int (length ?B)" "rs = [] \<or> ?old = [] \<and> n = length rs"
      "dict_get_default (km_num_cached_block m) ?id (int (length rs)) = int n" "n \<le> length ?B" "int n \<le> ?f" "?f \<le> int (length ?hs)"
      "\<forall>i < n. vp_hash ?p (?B ! i) = Some (?hs ! i)" "\<forall>i. n \<le> i \<longrightarrow> i < length ?B \<longrightarrow> vp_hash ?p (?B ! i) = None"
      "distinct (drop n ?B)" "n \<le> k" "k \<le> length ?hs" "km_hashes_of m r = take k ?hs"
    using ready unfolding slots_ready_def Let_def by - (elim conjE, assumption)+
  have fM: "?f = int M" using R(9) M_def by simp
  note bs = km_invD(1)[OF inv] and st = km_invD(2)[OF inv]
  let ?m1 = "km_set_blocks r ?old m"
  have rs_hash: "vp_hash ?p b \<noteq> None" if "b \<in> set rs" for b
  proof -
    obtain j where j: "j < length rs" "b = rs ! j" using \<open>b \<in> set rs\<close> by (auto simp: in_set_conv_nth)
    then have "?old = []" "n = length rs" using R(6) by auto
    then show ?thesis using R(11)[rule_format, of j] j by simp
  qed
  have sub: "set rs \<subseteq> {..<length (vp_blocks ?p)}" using rs_hash vp_hash_range by fastforce
  have mx: "0 < ?need \<Longrightarrow> ?need \<le> km_max_num_blocks_per_req ?m1 - int (length ?B)" using R(5) by simp
  have pre: "0 \<le> km_num_preallocate_blocks ?m1" using R(4) by simp
  obtain new p2 where tk: "take_new_blocks ?m1 ?need (length ?B) (BlockPool_v1_touch rs ?p) = Inr (new, p2)"
    "new = take (length new) ?ys" "pool_state p2 (drop (length new) ?ys)" "same_pool ?p p2" "?need \<le> int (length new)"
    "int (length new) \<le> max 0 (km_max_num_blocks_per_req ?m1 - int (length ?B))"
    "vp_refs p2 = (\<lambda>b. vp_refs ?p b + int (count_list rs b) + int (count_list new b))"
    "vp_hash p2 = (\<lambda>b. if b \<in> set new then None else vp_hash ?p b)"
    using take_slots_ok[OF st sub room mx pre refl] by blast
  have en2: "vp_enable_caching p2" using tk(4) R(3) km_invD(3)[OF inv] by (simp add: same_pool_def)
  let ?B2 = "?B @ new"
  have "set new \<subseteq> set ?ys" by (subst tk(2)) (rule set_take_subset)
  then have new_xs: "set new \<subseteq> set xs" "set new \<inter> set rs = {}" by auto
  have new_old: "set new \<inter> set ?old = {}"
  proof -
    have "b \<notin> set ?old" if "b \<in> set new" for b
    proof
      assume b: "b \<in> set ?old"
      have "b \<in> set xs" using that new_xs by blast
      then have "vp_refs ?p b = 0" using pool_stateD(3)[OF st held_refs(2)[OF inv b]] by simp
      then show False using held_refs(1)[OF inv b] by simp
    qed
    then show ?thesis by blast
  qed
  have dnew: "distinct new" by (subst tk(2)) (simp add: pool_baseD(3)[OF pool_stateD(1)[OF st]])
  have MB: "M \<le> length ?B2" using blocks_cover(2)[OF bs tk(5)] fM by simp
  have nM: "n \<le> M" using R(9) fM by simp
  have hash2: "vp_hash p2 (?B ! i) = vp_hash ?p (?B ! i)" if "i < length ?B" for i
  proof -
    have "?B ! i \<in> set ?B" using that by (rule nth_mem)
    then show ?thesis using new_old new_xs tk(8) by auto
  qed
  have old2: "\<forall>i < n. vp_hash p2 (?B2 ! i) = Some (?hs ! i)"
  proof (intro allI impI)
    fix i assume i: "i < n"
    then have "i < length ?B" using R(8) by simp
    then show "vp_hash p2 (?B2 ! i) = Some (?hs ! i)" using R(11)[rule_format, OF i] hash2 by (simp only: nth_append if_True)
  qed
  have un: "vp_hash p2 (?B2 ! i) = None" if i: "n \<le> i" "i < length ?B2" for i
  proof -
    show "vp_hash p2 (?B2 ! i) = None"
    proof (cases "i < length ?B")
      case True
      then show ?thesis using hash2[OF True] R(12)[rule_format, OF i(1) True] by (simp only: nth_append if_True)
    next
      case False
      have "i - length ?B < length new" using i False by simp
      moreover have "?B2 ! i = new ! (i - length ?B)" using False by (simp only: nth_append if_False)
      ultimately have "?B2 ! i \<in> set new" by simp
      then show ?thesis using tk(8) by simp
    qed
  qed
  have un2: "\<forall>i. n \<le> i \<longrightarrow> i < M \<longrightarrow> vp_hash p2 (?B2 ! i) = None" using un MB by (meson order_less_le_trans)
  have dB2: "distinct (drop n ?B2)"
  proof -
    have "distinct (drop n ?B @ new)" using R(13) dnew new_old new_xs set_drop_subset[of n ?B] by auto
    then show ?thesis using R(8) by (simp add: drop_append)
  qed
  have dd: "distinct (drop n (take M ?B2))" unfolding drop_take using dB2 by (rule distinct_take)
  have sub2: "set ?B2 \<subseteq> {..<length (vp_blocks p2)}"
    using sub held_refs(2)[OF inv] new_xs pool_baseD(4)[OF pool_stateD(1)[OF st]] tk(4) by (auto simp: same_pool_def)
  have Mh: "M \<le> length ?hs" using R(10) fM by simp
  from cache_full_blocks_ok[OF R(2) bs refl tk(3) en2 nM Mh MB dd sub2 old2 un2 R(14,15)]
  obtain p3 where p3: "BlockPool_v1_cache_full_blocks H r ?B2 (take k ?hs) (int n) (int M) ?bs p2 = Inr (take (max k M) ?hs, p3)"
    "pool_state p3 (drop (length new) ?ys)" "same_pool p2 p3" "vp_refs p3 = vp_refs p2" "\<forall>i < M. vp_hash p3 (?B2 ! i) = Some (?hs ! i)"
    "\<forall>b. b \<notin> set (drop n (take M ?B2)) \<longrightarrow> vp_hash p3 b = vp_hash p2 b" by blast
  let ?m2 = "(km_set_blocks r ?B2 ?m1)\<lparr>km_block_pool := p2\<rparr>"
  let ?m3 = "(km_set_hashes r (take (max k M) ?hs) ?m2)\<lparr>km_block_pool := p3, km_num_cached_block := dict_set ?id (int M) (km_num_cached_block m)\<rparr>"
  have fr: "BlockPool_v1_get_num_free_blocks ?p = int (length xs)" by (rule pool_baseD(7)[OF pool_stateD(1)[OF st]])
  have cs: "cache_slots H r (tokens_after m r num_tokens rs) (length rs) ?B2 ?m2 = Inr ?m3"
    using p3(1) R(7,16) fM by (simp add: cache_slots_def Let_def full_after_def)
  have run: "KVCacheManager_allocate_slots H m r num_tokens rs = Inr (Some new, ?m3)"
    unfolding KVCacheManager_allocate_slots_def Let_def tokens_after_def[symmetric] blocks_needed_def[symmetric] km_set_simps fr
    using R(1,3) room tk(1) cs by simp
  have "holders (dict_set ?id ?B2 (km_req_to_blocks m)) b = holders (km_req_to_blocks m) b + count_list rs b + count_list new b" for b
    using holders_set[OF km_invD(4)[OF inv], of ?id ?B2 b] by simp
  then have rf: "vp_refs p3 b = int (holders (dict_set ?id ?B2 (km_req_to_blocks m)) b)" for b
    unfolding p3(4) tk(7) km_invD(5)[OF inv] by simp
  have pr: "holders (dict_set ?id ?B2 (km_req_to_blocks m)) b \<le> 1" if "vp_hash p3 b = None" for b
  proof (cases "b \<in> set new")
    case True
    then have "vp_refs ?p b = 0" "b \<notin> set rs" using new_xs pool_stateD(3)[OF st, of b] pool_baseD(4)[OF pool_stateD(1)[OF st]] by auto
    then have "vp_refs p3 b = 1" unfolding p3(4) tk(7) count_list_distinct[OF dnew] using True by simp
    then show ?thesis using rf[of b] by simp
  next
    case False
    have "vp_hash ?p b = None"
    proof (rule ccontr)
      assume some: "vp_hash ?p b \<noteq> None"
      then have "vp_hash p2 b \<noteq> None" using tk(8) False by simp
      moreover have "vp_hash p3 b \<noteq> None"
      proof (cases "b \<in> set (drop n (take M ?B2))")
        case True
        then obtain j where j: "j < M" "b = ?B2 ! j" using in_set_take_nth[OF in_set_dropD] by metis
        then show ?thesis using p3(5)[rule_format, OF j(1)] by simp
      next
        case False
        then show ?thesis using p3(6) calculation by simp
      qed
      ultimately show False using that by simp
    qed
    moreover have "b \<notin> set rs" using rs_hash[of b] calculation by blast
    ultimately show ?thesis using False km_invD(6)[OF inv, of b] holders_set[OF km_invD(4)[OF inv], of ?id ?B2 b] by simp
  qed
  have km: "km_inv ?m3 (drop (length new) ?ys)"
    using inv p3(2,3) tk(4) rf pr unfolding km_inv_def by (simp add: same_pool_def)
  have keep: "vp_hash p3 b = vp_hash ?p b" if "b \<notin> set new" "b \<notin> set ?old" for b
  proof (cases "b \<in> set (drop n (take M ?B2))")
    case True
    then have "b \<in> set ?B2" by (meson in_set_dropD in_set_takeD)
    then have "b \<in> set rs" using that by auto
    then obtain j where j: "j < length rs" "b = rs ! j" by (auto simp: in_set_conv_nth)
    then have "?old = []" "n = length rs" using R(6) by auto
    then have "drop n ?B2 = new" by simp
    then have "set (drop n (take M ?B2)) \<subseteq> set new" unfolding drop_take by (simp add: set_take_subset)
    then show ?thesis using True that(1) by blast
  next
    case False
    then show ?thesis using p3(6) tk(8) that(1) by simp
  qed
  have vw: "km_block_pool ?m3 = p3" "km_req_to_blocks ?m3 = dict_set ?id (?old @ rs @ new) (km_req_to_blocks m)"
    "km_req_to_block_hashes ?m3 = dict_set ?id (take (max k M) ?hs) (km_req_to_block_hashes m)" "km_num_cached_block ?m3 = dict_set ?id (int M) (km_num_cached_block m)"
    by simp_all
  have tail: "vp_hash p3 (?B2 ! i) = None" if i: "M \<le> i" "i < length ?B2" for i
  proof -
    have "?B2 ! i \<notin> set (drop n (take M ?B2))" by (rule distinct_tail_notin[OF dB2 nM i])
    then show ?thesis using p3(6) un[OF order_trans[OF nM i(1)] i(2)] by simp
  qed
  have cfg: "same_config m ?m3" using p3(3) tk(4) by (simp add: same_config_def same_pool_def) (simp add: km_set_blocks_def km_set_hashes_def)
  have Blen: "int (length ?B2) \<le> max (int (length ?B)) (km_max_num_blocks_per_req m)" using tk(6) by simp
  have hh: "\<forall>i < M. vp_hash p3 ((?old @ rs @ new) ! i) = Some (?hs ! i)" using p3(5) by simp

  show ?thesis
    by (rule exI[of _ new], rule exI[of _ ?m3], unfold vw fM nat_int append_assoc[symmetric],
      intro conjI run km tk(2,5) hh[unfolded append_assoc[symmetric]] refl cfg dB2 Blen) (use keep tail in blast)+
qed

lemma allocate_slots_refused:
  assumes inv: "km_inv m xs" and "num_tokens \<noteq> 0"
    and room: "\<not> blocks_needed m r num_tokens rs \<le> int (length xs) - int (num_evictable (km_block_pool m) rs)"
  shows "\<exists>m'. KVCacheManager_allocate_slots H m r num_tokens rs = Inr (None, m') \<and> km_inv m' xs \<and>
     km_block_pool m' = km_block_pool m \<and> (\<forall>r'. km_blocks_of m' r' = km_blocks_of m r') \<and>
     km_req_to_block_hashes m' = km_req_to_block_hashes m \<and> km_num_cached_block m' = km_num_cached_block m \<and> same_config m m'"
proof -
  have fr: "BlockPool_v1_get_num_free_blocks (km_block_pool m) = int (length xs)"
    by (rule pool_baseD(7)[OF pool_stateD(1)[OF km_invD(2)[OF inv]]])
  have "KVCacheManager_allocate_slots H m r num_tokens rs = Inr (None, km_set_blocks r (km_blocks_of m r) m)"
    unfolding KVCacheManager_allocate_slots_def Let_def tokens_after_def[symmetric] blocks_needed_def[symmetric] km_set_simps fr
    using assms(2) room by simp
  then show ?thesis using km_inv_touch_entry[OF inv]
    by (simp add: same_config_def)
qed

section \<open>Construction\<close>

lemma manager_init_ok:
  assumes "0 < bs" "0 < n"
  shows "\<exists>m. KVCacheManager_init bs n len sw c pre = Inr m \<and> km_inv m [0..<n] \<and> km_req_to_blocks m = [] \<and>
     km_req_to_block_hashes m = [] \<and> km_num_cached_block m = [] \<and> km_enable_caching m = c \<and> km_block_size m = bs \<and>
     km_max_num_blocks_per_req m = cdiv (int len) (int bs) \<and> km_num_preallocate_blocks m = cdiv (int pre) (int bs) \<and>
     (\<forall>b. vp_hash (km_block_pool m) b = None) \<and> length (vp_blocks (km_block_pool m)) = n"
proof -
  obtain p where p: "BlockPool_v1_init n c = Inr p" "pool_state p [0..<n]" "\<forall>r. vp_refs p r = 0 \<and> vp_hash p r = None"
    "length (vp_blocks p) = n" "vp_enable_caching p = c"
    using pool_init_ok[OF assms(2)] by blast
  then show ?thesis using assms by (simp add: KVCacheManager_init_def km_inv_def holders_def)
qed

end
