(* ===== verification/Encoder_Cache.thy ===== *)
theory Encoder_Cache
  imports KV_Request
begin

text \<open>
  The cache of encoder outputs of the v1 engine (v1/core/encoder_cache_manager.py), its budget,
  and the choice of the encoder inputs of a step (\<open>_try_schedule_encoder_inputs\<close> of
  v1/core/scheduler.py). Python iterates a set of ids in an order of its own: the order is the
  argument \<open>order\<close> of the operation that does so. The registry of multi-modal models is an
  argument of the budget.
\<close>

section \<open>EncoderCacheManager\<close>

record EncoderCacheManager =
  ec_cache_size :: int
  ec_num_free_slots :: int
  ec_cached :: "(string, nat set) dict"
  ec_freed :: "(string \<times> nat) list"

definition EncoderCacheManager_init :: "int \<Rightarrow> EncoderCacheManager" where
  "EncoderCacheManager_init cache_size = \<lparr>ec_cache_size = cache_size, ec_num_free_slots = cache_size, ec_cached = [], ec_freed = []\<rparr>"

definition EncoderCacheManager_has_cache :: "EncoderCacheManager \<Rightarrow> Request \<Rightarrow> nat \<Rightarrow> bool" where
  "EncoderCacheManager_has_cache e r input_id \<longleftrightarrow>
     (case dict_get (ec_cached e) (rq_request_id r) of None \<Rightarrow> False | Some ids \<Rightarrow> input_id \<in> ids)"

definition EncoderCacheManager_can_allocate :: "EncoderCacheManager \<Rightarrow> Request \<Rightarrow> nat \<Rightarrow> bool result" where
  "EncoderCacheManager_can_allocate e r input_id =
     res_bind (Request_get_num_encoder_tokens r input_id) (\<lambda>num_tokens. Inr (num_tokens \<le> ec_num_free_slots e))"

definition EncoderCacheManager_get_cached_input_ids :: "EncoderCacheManager \<Rightarrow> Request \<Rightarrow> nat set" where
  "EncoderCacheManager_get_cached_input_ids e r = dict_get_default (ec_cached e) (rq_request_id r) {}"

definition EncoderCacheManager_allocate :: "EncoderCacheManager \<Rightarrow> Request \<Rightarrow> nat \<Rightarrow> EncoderCacheManager result" where
  "EncoderCacheManager_allocate e r input_id =
     (let ids = dict_get_default (ec_cached e) (rq_request_id r) {}
      in res_bind (Request_get_num_encoder_tokens r input_id) (\<lambda>num_tokens.
           Inr (e\<lparr>ec_cached := dict_set (rq_request_id r) (insert input_id ids) (ec_cached e),
                  ec_num_free_slots := ec_num_free_slots e - num_tokens\<rparr>)))"

definition EncoderCacheManager_free_encoder_input :: "EncoderCacheManager \<Rightarrow> Request \<Rightarrow> nat \<Rightarrow> EncoderCacheManager result" where
  "EncoderCacheManager_free_encoder_input e r input_id =
     (case dict_get (ec_cached e) (rq_request_id r) of
        None \<Rightarrow> Inr e
      | Some ids \<Rightarrow>
          let ids1 = ids - {input_id};
              cached1 = (if ids1 = {} then dict_pop (rq_request_id r) (ec_cached e)
                         else dict_set (rq_request_id r) ids1 (ec_cached e))
          in res_bind (Request_get_num_encoder_tokens r input_id) (\<lambda>num_tokens.
               Inr (e\<lparr>ec_cached := cached1, ec_num_free_slots := ec_num_free_slots e + num_tokens,
                      ec_freed := ec_freed e @ [(rq_request_id r, input_id)]\<rparr>)))"

definition EncoderCacheManager_free :: "(nat set \<Rightarrow> nat list) \<Rightarrow> EncoderCacheManager \<Rightarrow> Request \<Rightarrow> EncoderCacheManager result" where
  "EncoderCacheManager_free order e r =
     res_fold (\<lambda>input_id e. EncoderCacheManager_free_encoder_input e r input_id)
       (order (EncoderCacheManager_get_cached_input_ids e r)) e"

definition EncoderCacheManager_get_freed_ids :: "EncoderCacheManager \<Rightarrow> (string \<times> nat) list \<times> EncoderCacheManager" where
  "EncoderCacheManager_get_freed_ids e = (ec_freed e, e\<lparr>ec_freed := []\<rparr>)"

section \<open>The encoder budget\<close>

text \<open>
  \<open>max_tokens_by_modality\<close> is what the registry returns for the model: the largest number of
  tokens of one item of each enabled modality.
\<close>

definition compute_encoder_budget_multimodal :: "(string, int) dict \<Rightarrow> int \<Rightarrow> int \<Rightarrow> (int \<times> int) result" where
  "compute_encoder_budget_multimodal max_tokens_by_modality max_num_encoder_input_tokens encoder_cache_size =
     (if max_tokens_by_modality = [] then Inr (0, 0)
      else res_bind (py_max snd max_tokens_by_modality) (\<lambda>(_, max_tokens_per_mm_item).
        Inr (max max_num_encoder_input_tokens max_tokens_per_mm_item, max encoder_cache_size max_tokens_per_mm_item)))"

definition compute_encoder_budget :: "bool \<Rightarrow> (string, int) dict \<Rightarrow> int \<Rightarrow> int \<Rightarrow> (int \<times> int) result" where
  "compute_encoder_budget is_multimodal_model max_tokens_by_modality max_num_encoder_input_tokens encoder_cache_size =
     (if \<not> is_multimodal_model then Inr (0, 0)
      else compute_encoder_budget_multimodal max_tokens_by_modality max_num_encoder_input_tokens encoder_cache_size)"

section \<open>The encoder inputs of a step\<close>

text \<open>The loop over the inputs: the inputs chosen, the tokens and the budget left.\<close>

fun encoder_inputs_loop :: "EncoderCacheManager \<Rightarrow> Request \<Rightarrow> int \<Rightarrow> (nat \<times> mm_position) list \<Rightarrow> int \<Rightarrow> int \<Rightarrow>
    (nat list \<times> int \<times> int) result" where
  "encoder_inputs_loop e r num_computed_tokens [] num_new_tokens encoder_budget = Inr ([], num_new_tokens, encoder_budget)"
| "encoder_inputs_loop e r num_computed_tokens ((i, pos) # rest) num_new_tokens encoder_budget =
     (let start_pos = mp_offset pos; num_encoder_tokens = mp_length pos in
      if start_pos \<ge> num_computed_tokens + num_new_tokens then Inr ([], num_new_tokens, encoder_budget)
      else if start_pos + num_encoder_tokens \<le> num_computed_tokens \<or> EncoderCacheManager_has_cache e r i
      then encoder_inputs_loop e r num_computed_tokens rest num_new_tokens encoder_budget
      else res_bind (EncoderCacheManager_can_allocate e r i) (\<lambda>can_allocate.
        if \<not> can_allocate \<or> num_encoder_tokens > encoder_budget
        then Inr ([], if num_computed_tokens < start_pos then start_pos - num_computed_tokens else 0, encoder_budget)
        else res_bind (encoder_inputs_loop e r num_computed_tokens rest num_new_tokens (encoder_budget - num_encoder_tokens))
               (\<lambda>(ids, n, b). Inr (i # ids, n, b))))"

definition try_schedule_encoder_inputs :: "EncoderCacheManager \<Rightarrow> Request \<Rightarrow> int \<Rightarrow> int \<Rightarrow> int \<Rightarrow> (nat list \<times> int \<times> int) result" where
  "try_schedule_encoder_inputs e r num_computed_tokens num_new_tokens encoder_budget =
     (if \<not> Request_has_encoder_inputs r then Inr ([], num_new_tokens, encoder_budget)
      else encoder_inputs_loop e r num_computed_tokens (enumerate 0 (rq_mm_positions r)) num_new_tokens encoder_budget)"

text \<open>Allocating the inputs chosen, as the scheduler does after it got the blocks.\<close>

definition allocate_encoder_inputs :: "EncoderCacheManager \<Rightarrow> Request \<Rightarrow> nat list \<Rightarrow> EncoderCacheManager result" where
  "allocate_encoder_inputs e r ids = res_fold (\<lambda>i e. EncoderCacheManager_allocate e r i) ids e"

section \<open>Accounting\<close>

definition cached_tokens :: "(string \<Rightarrow> nat \<Rightarrow> int) \<Rightarrow> (string, nat set) dict \<Rightarrow> int" where
  "cached_tokens tokens d = sum_list (map (\<lambda>e. \<Sum>i \<in> snd e. tokens (fst e) i) d)"

lemma cached_tokens_set:
  "dict_ok d \<Longrightarrow> cached_tokens tokens (dict_set k S d) =
     cached_tokens tokens d - (\<Sum>i \<in> dict_get_default d k {}. tokens k i) + (\<Sum>i \<in> S. tokens k i)"
proof (induction d)
  case (Cons e d)
  show ?case
  proof (cases "fst e = k")
    case True
    then show ?thesis by (cases e) (simp add: cached_tokens_def dict_get_default_def)
  next
    case False
    then show ?thesis using Cons by (cases e) (simp add: cached_tokens_def dict_get_default_def dict_ok_def)
  qed
qed (simp add: cached_tokens_def dict_get_default_def)

lemma cached_tokens_pop:
  "dict_ok d \<Longrightarrow> cached_tokens tokens (dict_pop k d) = cached_tokens tokens d - (\<Sum>i \<in> dict_get_default d k {}. tokens k i)"
proof (induction d)
  case (Cons e d)
  show ?case
  proof (cases "fst e = k")
    case True
    then have "dict_get d k = None" using Cons.prems by (auto simp: dict_ok_def map_of_eq_None_iff)
    then show ?thesis using True Cons by (cases e) (simp add: cached_tokens_def dict_get_default_def dict_ok_def)
  next
    case False
    then show ?thesis using Cons by (cases e) (simp add: cached_tokens_def dict_get_default_def dict_ok_def)
  qed
qed (simp add: cached_tokens_def dict_get_default_def)

text \<open>
  The invariant: the free slots and the tokens of the cached inputs add up to the cache, where
  \<open>tokens\<close> gives the number of tokens of each input of each request.
\<close>

definition ec_inv :: "(string \<Rightarrow> nat \<Rightarrow> int) \<Rightarrow> EncoderCacheManager \<Rightarrow> bool" where
  "ec_inv tokens e \<longleftrightarrow> dict_ok (ec_cached e) \<and> (\<forall>k S. dict_get (ec_cached e) k = Some S \<longrightarrow> finite S \<and> S \<noteq> {}) \<and>
     ec_num_free_slots e + cached_tokens tokens (ec_cached e) = ec_cache_size e"

definition sizes_of :: "(string \<Rightarrow> nat \<Rightarrow> int) \<Rightarrow> Request \<Rightarrow> bool" where
  "sizes_of tokens r \<longleftrightarrow> (\<forall>i < length (rq_mm_positions r). mp_length (rq_mm_positions r ! i) = tokens (rq_request_id r) i)"

abbreviation ec_ids :: "EncoderCacheManager \<Rightarrow> Request \<Rightarrow> nat set" where
  "ec_ids e r \<equiv> dict_get_default (ec_cached e) (rq_request_id r) {}"

lemma ec_ids_finite: "ec_inv tokens e \<Longrightarrow> finite (ec_ids e r)"
  by (auto simp: ec_inv_def dict_get_default_def split: option.splits)

lemma has_cache_iff: "EncoderCacheManager_has_cache e r i \<longleftrightarrow> i \<in> ec_ids e r"
  by (simp add: EncoderCacheManager_has_cache_def dict_get_default_def split: option.splits)

lemma ec_init_inv: "ec_inv tokens (EncoderCacheManager_init n)"
  by (simp add: ec_inv_def EncoderCacheManager_init_def cached_tokens_def)

lemma allocate_input_ok:
  assumes inv: "ec_inv tokens e" and s: "sizes_of tokens r" and i: "i < length (rq_mm_positions r)" "i \<notin> ec_ids e r"
  shows "\<exists>e'. EncoderCacheManager_allocate e r i = Inr e' \<and> ec_inv tokens e' \<and> ec_ids e' r = insert i (ec_ids e r) \<and>
     ec_num_free_slots e' = ec_num_free_slots e - tokens (rq_request_id r) i \<and> ec_cache_size e' = ec_cache_size e \<and>
     (\<forall>r'. rq_request_id r' \<noteq> rq_request_id r \<longrightarrow> ec_ids e' r' = ec_ids e r') \<and> ec_freed e' = ec_freed e"
proof -
  have n: "Request_get_num_encoder_tokens r i = Inr (tokens (rq_request_id r) i)"
    using s i(1) by (simp add: Request_get_num_encoder_tokens_def sizes_of_def)
  have ok: "dict_ok (ec_cached e)" using inv by (simp add: ec_inv_def)
  show ?thesis using inv n ec_ids_finite[OF inv, of r] i(2)
    by (auto simp: EncoderCacheManager_allocate_def Let_def ec_inv_def cached_tokens_set[OF ok] dict_get_default_def)
qed

lemma free_input_ok:
  assumes inv: "ec_inv tokens e" and s: "sizes_of tokens r" and i: "i < length (rq_mm_positions r)" "i \<in> ec_ids e r"
  shows "\<exists>e'. EncoderCacheManager_free_encoder_input e r i = Inr e' \<and> ec_inv tokens e' \<and> ec_ids e' r = ec_ids e r - {i} \<and>
     ec_num_free_slots e' = ec_num_free_slots e + tokens (rq_request_id r) i \<and> ec_cache_size e' = ec_cache_size e \<and>
     (\<forall>r'. rq_request_id r' \<noteq> rq_request_id r \<longrightarrow> ec_ids e' r' = ec_ids e r') \<and>
     ec_freed e' = ec_freed e @ [(rq_request_id r, i)]"
proof -
  have n: "Request_get_num_encoder_tokens r i = Inr (tokens (rq_request_id r) i)"
    using s i(1) by (simp add: Request_get_num_encoder_tokens_def sizes_of_def)
  have ok: "dict_ok (ec_cached e)" using inv by (simp add: ec_inv_def)
  obtain S where S: "dict_get (ec_cached e) (rq_request_id r) = Some S" "i \<in> S"
    using i(2) by (auto simp: dict_get_default_def split: option.splits)
  have fin: "finite S" using inv S(1) by (auto simp: ec_inv_def)
  have sum: "(\<Sum>j \<in> S - {i}. tokens (rq_request_id r) j) = (\<Sum>j \<in> S. tokens (rq_request_id r) j) - tokens (rq_request_id r) i"
    using fin S(2) by (simp add: sum_diff1)
  show ?thesis
  proof (cases "S - {i} = {}")
    case True
    then have "S = {i}" using S(2) by blast
    then show ?thesis using inv n S(1)
      by (auto simp: EncoderCacheManager_free_encoder_input_def Let_def ec_inv_def cached_tokens_pop[OF ok] dict_get_default_def)
  next
    case False
    then show ?thesis using inv n S sum fin
      by (auto simp: EncoderCacheManager_free_encoder_input_def Let_def ec_inv_def cached_tokens_set[OF ok] dict_get_default_def)
  qed
qed

lemma free_inputs_ok:
  assumes "ec_inv tokens e" "sizes_of tokens r" "distinct is" "set is \<subseteq> ec_ids e r" "ec_ids e r \<subseteq> {..<length (rq_mm_positions r)}"
  shows "\<exists>e'. res_fold (\<lambda>i e. EncoderCacheManager_free_encoder_input e r i) is e = Inr e' \<and> ec_inv tokens e' \<and>
     ec_ids e' r = ec_ids e r - set is \<and> ec_cache_size e' = ec_cache_size e \<and>
     ec_num_free_slots e' = ec_num_free_slots e + (\<Sum>i \<in> set is. tokens (rq_request_id r) i) \<and>
     (\<forall>r'. rq_request_id r' \<noteq> rq_request_id r \<longrightarrow> ec_ids e' r' = ec_ids e r') \<and>
     ec_freed e' = ec_freed e @ map (Pair (rq_request_id r)) is"
  using assms
proof (induction "is" arbitrary: e)
  case (Cons i "is")
  have i: "i < length (rq_mm_positions r)" "i \<in> ec_ids e r" using Cons.prems by auto
  obtain e1 where e1: "EncoderCacheManager_free_encoder_input e r i = Inr e1" "ec_inv tokens e1" "ec_ids e1 r = ec_ids e r - {i}"
     "ec_num_free_slots e1 = ec_num_free_slots e + tokens (rq_request_id r) i" "ec_cache_size e1 = ec_cache_size e"
     "\<forall>r'. rq_request_id r' \<noteq> rq_request_id r \<longrightarrow> ec_ids e1 r' = ec_ids e r'" "ec_freed e1 = ec_freed e @ [(rq_request_id r, i)]"
    using free_input_ok[OF Cons.prems(1,2) i] by blast
  from Cons.IH[OF e1(2) Cons.prems(2)] Cons.prems e1(3) obtain e' where e': "res_fold (\<lambda>i e. EncoderCacheManager_free_encoder_input e r i) is e1 = Inr e'"
     "ec_inv tokens e'" "ec_ids e' r = ec_ids e1 r - set is" "ec_cache_size e' = ec_cache_size e1"
     "ec_num_free_slots e' = ec_num_free_slots e1 + (\<Sum>i \<in> set is. tokens (rq_request_id r) i)"
     "\<forall>r'. rq_request_id r' \<noteq> rq_request_id r \<longrightarrow> ec_ids e' r' = ec_ids e1 r'" "ec_freed e' = ec_freed e1 @ map (Pair (rq_request_id r)) is"
    by fastforce
  show ?case using e1 e' Cons.prems(3) by auto
qed simp

section \<open>Which inputs a step needs\<close>

text \<open>
  The positions are sorted. After the choice every input that overlaps the tokens of the step is
  cached or chosen, every chosen one is not cached and fits the budget, and the budget is spent
  on exactly the chosen ones.
\<close>

lemma encoder_inputs_loop_ok:
  assumes "sorted (map (mp_offset \<circ> snd) ps)" "\<forall>(i, p) \<in> set ps. i < length (rq_mm_positions r) \<and> rq_mm_positions r ! i = p"
    "distinct (map fst ps)" "0 \<le> k"
  shows "\<exists>ids n b. encoder_inputs_loop e r c ps k budget = Inr (ids, n, b) \<and> 0 \<le> n \<and> n \<le> k \<and>
     b = budget - (\<Sum>i \<leftarrow> ids. mp_length (rq_mm_positions r ! i)) \<and> (0 \<le> budget \<longrightarrow> 0 \<le> b) \<and> distinct ids \<and>
     (\<forall>i \<in> set ids. i \<in> fst ` set ps \<and> \<not> EncoderCacheManager_has_cache e r i \<and>
        mp_length (rq_mm_positions r ! i) \<le> ec_num_free_slots e) \<and>
     (\<forall>(i, p) \<in> set ps. 0 < n \<longrightarrow> mp_offset p < c + n \<longrightarrow> c < mp_offset p + mp_length p \<longrightarrow>
        EncoderCacheManager_has_cache e r i \<or> i \<in> set ids)"
  using assms
proof (induction ps arbitrary: budget)
  case (Cons x ps)
  obtain i p where x: "x = (i, p)" by fastforce
  have later: "mp_offset p \<le> mp_offset q" if "(j, q) \<in> set ps" for j q using Cons.prems(1) that x by fastforce
  have pos: "i < length (rq_mm_positions r)" "rq_mm_positions r ! i = p" using Cons.prems(2) x by auto
  have can: "EncoderCacheManager_can_allocate e r i = Inr (mp_length p \<le> ec_num_free_slots e)"
    using pos by (simp add: EncoderCacheManager_can_allocate_def Request_get_num_encoder_tokens_def)
  have sub: "sorted (map (mp_offset \<circ> snd) ps)" "\<forall>(i, p) \<in> set ps. i < length (rq_mm_positions r) \<and> rq_mm_positions r ! i = p"
    "distinct (map fst ps)" "i \<notin> fst ` set ps" using Cons.prems x by (auto simp: o_def)
  note IH = Cons.IH[OF sub(1-3) Cons.prems(4)]
  consider (beyond) "mp_offset p \<ge> c + k" | (skip) "mp_offset p < c + k" "mp_offset p + mp_length p \<le> c \<or> EncoderCacheManager_has_cache e r i"
    | (blocked) "mp_offset p < c + k" "\<not> (mp_offset p + mp_length p \<le> c \<or> EncoderCacheManager_has_cache e r i)"
        "\<not> mp_length p \<le> ec_num_free_slots e \<or> mp_length p > budget"
    | (chosen) "mp_offset p < c + k" "\<not> (mp_offset p + mp_length p \<le> c \<or> EncoderCacheManager_has_cache e r i)"
        "mp_length p \<le> ec_num_free_slots e" "mp_length p \<le> budget" by linarith
  then show ?case
  proof cases
    case beyond
    then have "encoder_inputs_loop e r c (x # ps) k budget = Inr ([], k, budget)" by (simp add: x)
    then show ?thesis using beyond later Cons.prems(4) x by fastforce
  next
    case skip
    then have e: "encoder_inputs_loop e r c (x # ps) k budget = encoder_inputs_loop e r c ps k budget" by (auto simp: x Let_def)
    obtain ids n b where r: "encoder_inputs_loop e r c ps k budget = Inr (ids, n, b)" "0 \<le> n" "n \<le> k"
       "b = budget - (\<Sum>i \<leftarrow> ids. mp_length (rq_mm_positions r ! i))" "0 \<le> budget \<longrightarrow> 0 \<le> b" "distinct ids"
       "\<forall>i \<in> set ids. i \<in> fst ` set ps \<and> \<not> EncoderCacheManager_has_cache e r i \<and> mp_length (rq_mm_positions r ! i) \<le> ec_num_free_slots e"
       "\<forall>(i, p) \<in> set ps. 0 < n \<longrightarrow> mp_offset p < c + n \<longrightarrow> c < mp_offset p + mp_length p \<longrightarrow> EncoderCacheManager_has_cache e r i \<or> i \<in> set ids"
      using IH[of budget] by blast
    then show ?thesis unfolding e using skip(2) x by (intro exI[of _ ids] exI[of _ n] exI[of _ b]) auto
  next
    case blocked
    let ?n = "if c < mp_offset p then mp_offset p - c else 0"
    have "encoder_inputs_loop e r c (x # ps) k budget = Inr ([], ?n, budget)"
      using blocked can by (auto simp: x Let_def)
    moreover have "mp_offset q \<ge> c + ?n" if "(j, q) \<in> set (x # ps)" "0 < ?n" for j q
      using that later x by (auto split: if_splits)
    moreover have "0 \<le> ?n \<and> ?n \<le> k" using blocked(1) Cons.prems(4) by auto
    ultimately show ?thesis by (intro exI[of _ "[]"] exI[of _ ?n] exI[of _ budget]) fastforce
  next
    case chosen
    have e: "encoder_inputs_loop e r c (x # ps) k budget =
        res_bind (encoder_inputs_loop e r c ps k (budget - mp_length p)) (\<lambda>(ids, n, b). Inr (i # ids, n, b))"
      using chosen can by (auto simp: x Let_def)
    obtain ids n b where r: "encoder_inputs_loop e r c ps k (budget - mp_length p) = Inr (ids, n, b)" "0 \<le> n" "n \<le> k"
       "b = (budget - mp_length p) - (\<Sum>i \<leftarrow> ids. mp_length (rq_mm_positions r ! i))" "0 \<le> budget - mp_length p \<longrightarrow> 0 \<le> b" "distinct ids"
       "\<forall>i \<in> set ids. i \<in> fst ` set ps \<and> \<not> EncoderCacheManager_has_cache e r i \<and> mp_length (rq_mm_positions r ! i) \<le> ec_num_free_slots e"
       "\<forall>(i, p) \<in> set ps. 0 < n \<longrightarrow> mp_offset p < c + n \<longrightarrow> c < mp_offset p + mp_length p \<longrightarrow> EncoderCacheManager_has_cache e r i \<or> i \<in> set ids"
      using IH[of "budget - mp_length p"] by blast
    have "i \<notin> set ids" using r(7) sub(4) by auto
    then show ?thesis unfolding e using r chosen pos x by (intro exI[of _ "i # ids"] exI[of _ n] exI[of _ b]) auto
  qed
qed simp

end
