(* ===== verification/KV_Config.thy ===== *)
theory KV_Config
  imports Prelude
begin

text \<open>
  The size of the KV cache: the specification of a layer (v1/kv_cache_interface.py) and the
  division of the memory among the layers (v1/core/kv_cache_utils.py). The size of a torch data
  type is a field of the specification; the type identifier, a string of two numbers, is the pair
  of the numbers.
\<close>

record FullAttentionSpec =
  fs_block_size :: int
  fs_num_kv_heads :: int
  fs_head_size :: int
  fs_dtype_size :: int
  fs_use_mla :: bool

definition FullAttentionSpec_page_size_bytes :: "FullAttentionSpec \<Rightarrow> int" where
  "FullAttentionSpec_page_size_bytes s =
     (if fs_use_mla s then 1 else 2) * fs_block_size s * fs_num_kv_heads s * fs_head_size s * fs_dtype_size s"

definition FullAttentionSpec_type_id :: "FullAttentionSpec \<Rightarrow> int \<times> int" where
  "FullAttentionSpec_type_id s = (fs_block_size s, FullAttentionSpec_page_size_bytes s)"

definition FullAttentionSpec_bytes_for_tokens :: "FullAttentionSpec \<Rightarrow> int \<Rightarrow> int result" where
  "FullAttentionSpec_bytes_for_tokens s num_tokens =
     (if fs_block_size s = 0 then Inl ZeroDivisionError
      else Inr (cdiv num_tokens (fs_block_size s) * FullAttentionSpec_page_size_bytes s))"

type_synonym KVCacheSpec = "(string, FullAttentionSpec) dict"

text \<open>What the functions read of the engine's configuration.\<close>

record VllmConfig =
  vc_max_model_len :: int
  vc_block_size :: int
  vc_num_gpu_blocks_override :: "int option"

record KVCacheConfig =
  kc_num_blocks :: int
  kc_tensors :: "(string, int) dict"
  kc_groups :: "string list list"
  kc_kv_cache_spec :: KVCacheSpec

definition check_enough_kv_cache_memory :: "VllmConfig \<Rightarrow> KVCacheSpec \<Rightarrow> int \<Rightarrow> unit result" where
  "check_enough_kv_cache_memory config spec available_memory =
     (if available_memory \<le> 0 then Inl ValueError
      else res_bind (res_fold (\<lambda>s needed. res_bind (FullAttentionSpec_bytes_for_tokens s (vc_max_model_len config)) (\<lambda>n. Inr (needed + n)))
             (dict_values spec) 0) (\<lambda>needed_memory.
           if needed_memory > available_memory then Inl ValueError else Inr ()))"

definition is_kv_cache_type_uniform :: "KVCacheSpec \<Rightarrow> bool" where
  "is_kv_cache_type_uniform spec \<longleftrightarrow> length (remdups (map FullAttentionSpec_type_id (dict_values spec))) = 1"

text \<open>The number of blocks: the memory divided by the page and the layers, unless overridden.\<close>

definition get_kv_cache_config_uniform_type :: "VllmConfig \<Rightarrow> KVCacheSpec \<Rightarrow> int \<Rightarrow> int \<Rightarrow> KVCacheConfig result" where
  "get_kv_cache_config_uniform_type config spec available_memory num_layers =
     (case remdups (map FullAttentionSpec_page_size_bytes (dict_values spec)) of
        [page_size] \<Rightarrow>
          if page_size = 0 \<or> num_layers = 0 then Inl ZeroDivisionError
          else let num_blocks0 = max (available_memory div page_size div num_layers) 0;
                   num_blocks = (case vc_num_gpu_blocks_override config of None \<Rightarrow> num_blocks0 | Some n \<Rightarrow> n)
               in if vc_max_model_len config = 0 then Inl ZeroDivisionError
                  else Inr \<lparr>kc_num_blocks = num_blocks, kc_tensors = map (\<lambda>(layer_name, _). (layer_name, page_size * num_blocks)) spec,
                            kc_groups = [dict_keys spec], kc_kv_cache_spec = spec\<rparr>
      | _ \<Rightarrow> Inl AssertionError)"

definition get_kv_cache_configs :: "VllmConfig \<Rightarrow> KVCacheSpec list \<Rightarrow> int \<Rightarrow> KVCacheConfig list result" where
  "get_kv_cache_configs config kv_cache_specs available_memory =
     res_bind (py_max id (map length kv_cache_specs)) (\<lambda>num_layers.
       res_map (\<lambda>spec. res_bind (check_enough_kv_cache_memory config spec available_memory) (\<lambda>_.
         if is_kv_cache_type_uniform spec
         then get_kv_cache_config_uniform_type config spec available_memory (int num_layers)
         else Inl NotImplementedError)) kv_cache_specs)"

section \<open>The configuration fits\<close>

lemma needed_memory_ok:
  assumes "\<forall>s \<in> set ss. FullAttentionSpec_type_id s = (b, page)" "0 < b"
  shows "res_fold (\<lambda>s needed. res_bind (FullAttentionSpec_bytes_for_tokens s n) (\<lambda>k. Inr (needed + k))) ss acc =
     Inr (acc + int (length ss) * (cdiv n b * page))"
  using assms
proof (induction ss arbitrary: acc)
  case (Cons s ss)
  then have "FullAttentionSpec_bytes_for_tokens s n = Inr (cdiv n b * page)"
    by (simp add: FullAttentionSpec_bytes_for_tokens_def FullAttentionSpec_type_id_def)
  then show ?case using Cons by (simp add: algebra_simps)
qed simp

lemma remdups_single:
  assumes "xs \<noteq> []" "\<forall>x \<in> set xs. x = y"
  shows "remdups xs = [y]"
proof -
  have "set xs \<subseteq> {y}" "set xs \<noteq> {}" using assms by blast+
  then have s: "set (remdups xs) = {y}" unfolding set_remdups subset_singleton_iff by simp
  have d: "distinct (remdups xs)" by simp
  show ?thesis
  proof (cases "remdups xs")
    case Nil
    then show ?thesis using s by simp
  next
    case (Cons z zs)
    then have "insert z (set zs) = {y}" "z \<notin> set zs" using s d by simp_all
    then have "z = y" by blast
    moreover have "zs = []" using \<open>insert z (set zs) = {y}\<close> \<open>z \<notin> set zs\<close> by (cases zs) auto
    ultimately show ?thesis using Cons by simp
  qed
qed

text \<open>A model whose layers are all alike, with blocks of b tokens and pages of positive size.\<close>

definition uniform_layers :: "KVCacheSpec \<Rightarrow> int \<Rightarrow> int \<Rightarrow> bool" where
  "uniform_layers spec b page \<longleftrightarrow>
     spec \<noteq> [] \<and> (\<forall>s \<in> set (dict_values spec). FullAttentionSpec_type_id s = (b, page)) \<and> 0 < b \<and> 0 < page"

lemma check_memory_ok:
  assumes "uniform_layers spec b page" "check_enough_kv_cache_memory config spec available_memory = Inr ()"
  shows "0 < available_memory" "int (length spec) * (cdiv (vc_max_model_len config) b * page) \<le> available_memory"
  using assms needed_memory_ok[of "dict_values spec" b page "vc_max_model_len config" 0]
  by (auto simp: uniform_layers_def check_enough_kv_cache_memory_def split: if_splits)

lemma granted_blocks:
  assumes spec: "uniform_layers spec b page" and cfg: "vc_num_gpu_blocks_override config = None" "0 < available_memory" "0 < L"
    and run: "get_kv_cache_config_uniform_type config spec available_memory L = Inr c"
  shows "kc_num_blocks c = available_memory div (page * L)" "kc_tensors c = map (\<lambda>(n, _). (n, page * kc_num_blocks c)) spec"
    "kc_num_blocks c * (page * L) \<le> available_memory" "available_memory < (kc_num_blocks c + 1) * (page * L)" "0 \<le> kc_num_blocks c"
proof -
  have pos: "0 < page" using spec by (simp add: uniform_layers_def)
  have p: "remdups (map FullAttentionSpec_page_size_bytes (dict_values spec)) = [page]"
    using spec by (intro remdups_single) (auto simp: uniform_layers_def FullAttentionSpec_type_id_def)
  have pl: "0 < page * L" using pos cfg(3) by simp
  have n0: "0 \<le> available_memory div page div L" using pos cfg(2,3) by (simp add: pos_imp_zdiv_nonneg_iff)
  have nd: "available_memory div page div L = available_memory div (page * L)" using cfg(3) by (simp add: zdiv_zmult2_eq)
  show bc: "kc_num_blocks c = available_memory div (page * L)" "kc_tensors c = map (\<lambda>(n, _). (n, page * kc_num_blocks c)) spec"
    using run p pos cfg n0 nd by (auto simp: get_kv_cache_config_uniform_type_def Let_def split: if_splits)
  show "0 \<le> kc_num_blocks c" using n0 nd bc(1) by simp
  show "kc_num_blocks c * (page * L) \<le> available_memory" "available_memory < (kc_num_blocks c + 1) * (page * L)"
    unfolding bc(1) distrib_right using pos_mod_sign[OF pl, of available_memory] pos_mod_bound[OF pl, of available_memory]
      minus_mod_eq_div_mult[of available_memory "page * L"] by linarith+
qed

lemma sum_equal_tensors: "sum_list (dict_values (map (\<lambda>(n, _). (n, k)) spec)) = int (length spec) * k"
  by (induction spec) (auto simp: algebra_simps)

text \<open>
  One configuration per worker: its tensors fit into the memory, and it cannot have one block more
  for the largest number of layers. A worker that has pages like one with the most layers holds a
  request of the largest length.
\<close>

lemma worker_configs_ok:
  assumes specs: "\<forall>i < length specs. uniform_layers (specs ! i) (bs i) (pg i)"
    and cfg: "vc_num_gpu_blocks_override config = None"
    and run: "get_kv_cache_configs config specs available_memory = Inr cs" and i: "i < length specs"
  shows "length cs = length specs"
    "kc_tensors (cs ! i) = map (\<lambda>(n, _). (n, pg i * kc_num_blocks (cs ! i))) (specs ! i)"
    "sum_list (dict_values (kc_tensors (cs ! i))) \<le> available_memory"
    "kc_num_blocks (cs ! i) * (pg i * int (Max (length ` set specs))) \<le> available_memory"
    "available_memory < (kc_num_blocks (cs ! i) + 1) * (pg i * int (Max (length ` set specs)))"
    "j < length specs \<Longrightarrow> length (specs ! j) = Max (length ` set specs) \<Longrightarrow> bs j = bs i \<Longrightarrow> pg j = pg i \<Longrightarrow>
       vc_max_model_len config \<le> kc_num_blocks (cs ! i) * bs i"
proof -
  let ?L = "Max (length ` set specs)"
  let ?w = "\<lambda>spec. res_bind (check_enough_kv_cache_memory config spec available_memory) (\<lambda>_.
         if is_kv_cache_type_uniform spec then get_kv_cache_config_uniform_type config spec available_memory (int ?L) else Inl NotImplementedError)"
  obtain m where m: "py_max id (map length specs) = Inr m" "res_map (\<lambda>spec. res_bind (check_enough_kv_cache_memory config spec available_memory) (\<lambda>_.
         if is_kv_cache_type_uniform spec then get_kv_cache_config_uniform_type config spec available_memory (int m) else Inl NotImplementedError)) specs = Inr cs"
    using run by (auto simp: get_kv_cache_configs_def elim!: res_bind_InrE)
  have mL: "m = ?L" using py_max_mem[OF m(1)] py_max_ge[OF m(1)] by (intro Max_eqI[symmetric]) auto
  have w: "res_map ?w specs = Inr cs" using m(2) unfolding mL .
  show "length cs = length specs" by (rule res_map_length[OF w])
  have check: "check_enough_kv_cache_memory config (specs ! k) available_memory = Inr ()" if "k < length specs" for k
    using res_map_nth[OF w that] by (auto simp: res_bind_Inr_iff)
  have grant: "get_kv_cache_config_uniform_type config (specs ! i) available_memory (int ?L) = Inr (cs ! i)"
    using res_map_nth[OF w i] by (auto simp: res_bind_Inr_iff split: if_splits)
  have u: "uniform_layers (specs ! i) (bs i) (pg i)" using specs i by blast
  have le: "length (specs ! i) \<le> ?L" using i by (intro Max_ge) auto
  have L: "0 < int ?L" using le u by (cases "specs ! i") (auto simp: uniform_layers_def)
  have av: "0 < available_memory" by (rule check_memory_ok(1)[OF u check[OF i]])
  note g = granted_blocks[OF u cfg av L grant]
  show "kc_tensors (cs ! i) = map (\<lambda>(n, _). (n, pg i * kc_num_blocks (cs ! i))) (specs ! i)" by (rule g(2))
  show fit: "kc_num_blocks (cs ! i) * (pg i * int ?L) \<le> available_memory" by (rule g(3))
  show lt: "available_memory < (kc_num_blocks (cs ! i) + 1) * (pg i * int ?L)" by (rule g(4))
  have pos: "0 < pg i" "0 < bs i" using u by (simp_all add: uniform_layers_def)
  have "int (length (specs ! i)) * (pg i * kc_num_blocks (cs ! i)) \<le> int ?L * (pg i * kc_num_blocks (cs ! i))"
    using le pos g(5) by (intro mult_right_mono) auto
  also have "\<dots> = kc_num_blocks (cs ! i) * (pg i * int ?L)" by (simp add: algebra_simps)
  finally show "sum_list (dict_values (kc_tensors (cs ! i))) \<le> available_memory" using fit unfolding g(2) sum_equal_tensors by simp
  show "vc_max_model_len config \<le> kc_num_blocks (cs ! i) * bs i"
    if j: "j < length specs" "length (specs ! j) = ?L" "bs j = bs i" "pg j = pg i"
  proof -
    have "uniform_layers (specs ! j) (bs j) (pg j)" using specs j(1) by blast
    from check_memory_ok(2)[OF this check[OF j(1)]]
    have "int ?L * (cdiv (vc_max_model_len config) (bs i) * pg i) \<le> available_memory" unfolding j(2-4) .
    then have "cdiv (vc_max_model_len config) (bs i) * (pg i * int ?L) < (kc_num_blocks (cs ! i) + 1) * (pg i * int ?L)"
      using lt by (simp add: algebra_simps)
    then have "cdiv (vc_max_model_len config) (bs i) \<le> kc_num_blocks (cs ! i)" using pos L by (simp add: mult_less_cancel_right)
    then show ?thesis using cdiv_least[OF pos(2)] by blast
  qed
qed

text \<open>
  With pages of different sizes the division by the largest number of layers leaves too little:
  the check of the first worker passes, a request needs five of its blocks, and it gets one.
\<close>

definition layer_of_page :: "int \<Rightarrow> FullAttentionSpec" where
  "layer_of_page n = \<lparr>fs_block_size = 1, fs_num_kv_heads = n, fs_head_size = 1, fs_dtype_size = 1, fs_use_mla = True\<rparr>"

lemma mixed_pages_too_few_blocks:
  "(case get_kv_cache_configs \<lparr>vc_max_model_len = 5, vc_block_size = 1, vc_num_gpu_blocks_override = None\<rparr>
      [[(''a'', layer_of_page 100)], map (\<lambda>n. (n, layer_of_page 10)) [''0'', ''1'', ''2'', ''3'', ''4'', ''5'', ''6'', ''7'', ''8'', ''9'']] 1000
    of Inr (c # _) \<Rightarrow> kc_num_blocks c | _ \<Rightarrow> 0) = 1"
  by code_simp

end
