(* ===== verification/KV_Properties.thy ===== *)
theory KV_Properties
  imports KV_Manager_Correct Encoder_Cache KV_Config
begin

text \<open>
  The properties of the v1 KV-cache management: the free queue, the block pool, the manager, the
  encoder cache and the size of the cache, each with its instance on a small example.
\<close>

section \<open>Examples\<close>

definition kv_example_hasher :: kv_hasher where
  "kv_example_hasher = \<lparr>kh_tuple = (\<lambda>p toks x. 1 + \<bar>3 * p\<bar> + \<bar>sum_list toks\<bar> + (case x of None \<Rightarrow> 0 | Some ks \<Rightarrow> int (length ks))),
     kh_none = 7\<rparr>"

definition kv_params :: SamplingParams where
  "kv_params = SamplingParams_default\<lparr>sp_max_tokens := Some 8\<rparr>"

definition kv_request :: "string \<Rightarrow> int list \<Rightarrow> Request" where
  "kv_request i toks = \<lparr>rq_request_id = i, rq_sampling_params = kv_params, rq_eos_token_id = None, rq_lora_request = None,
     rq_grammar = False, rq_stop_reason = None, rq_status = WAITING, rq_events = [],
     rq_max_tokens = 8, rq_num_prompt_tokens = length toks, rq_output_token_ids = [], rq_all_token_ids = toks,
     rq_spec_token_ids = [], rq_num_computed_tokens = 0, rq_mm_positions = [], rq_mm_hashes = []\<rparr>"

definition kv_manager :: "nat \<Rightarrow> KVCacheManager" where
  "kv_manager n = projr (KVCacheManager_init 2 n 8 None True 0)"

lemma kv_manager_ok:
  assumes "0 < n"
  shows "km_inv (kv_manager n) [0..<n]" "km_req_to_blocks (kv_manager n) = []" "km_req_to_block_hashes (kv_manager n) = []"
    "km_num_cached_block (kv_manager n) = []" "km_enable_caching (kv_manager n)" "km_block_size (kv_manager n) = 2"
    "km_max_num_blocks_per_req (kv_manager n) = 4" "km_num_preallocate_blocks (kv_manager n) = 0"
    "vp_hash (km_block_pool (kv_manager n)) b = None"
  using manager_init_ok[of 2 n 8 None True 0] assms by (auto simp: kv_manager_def cdiv_def)

lemma kv_example_ready: "slots_ready kv_example_hasher (kv_manager 3) (kv_request ''a'' [1, 2, 3]) 3 [] 0 0"
proof -
  have s: "full_chunks 2 [1, 2, 3::int] = [[1, 2]]" by (simp add: full_chunks.simps)
  show ?thesis
    by (simp add: slots_ready_def Let_def kv_manager_ok kv_request_def blocks_needed_def full_after_def tokens_after_def
        dict_get_default_def cdiv_def request_hashes_def s)
qed

lemma kv_example_room:
  "blocks_needed (kv_manager 3) (kv_request ''a'' [1, 2, 3]) 3 [] \<le>
     int (length [0, 1, 2::nat]) - int (num_evictable (km_block_pool (kv_manager 3)) [])"
  by (simp add: blocks_needed_def tokens_after_def kv_request_def kv_manager_ok dict_get_default_def cdiv_def num_evictable_def)

section \<open>Finding a prompt again\<close>

lemma queue_num: "queue_ok s xs \<Longrightarrow> fq_num_free_blocks (fst s) = int (length xs)"
  by (simp add: queue_ok_def)

text \<open>A text request that has not been scheduled, and two requests that ask for the same tokens.\<close>

definition new_request :: "KVCacheManager \<Rightarrow> Request \<Rightarrow> bool" where
  "new_request m r \<longleftrightarrow> rq_mm_positions r = [] \<and> sp_prompt_logprobs (rq_sampling_params r) = None \<and> rq_num_computed_tokens r = 0 \<and>
     rq_spec_token_ids r = [] \<and> km_blocks_of m r = [] \<and> km_hashes_of m r = [] \<and> dict_get (km_num_cached_block m) (rq_request_id r) = None"

definition same_prompt :: "Request \<Rightarrow> Request \<Rightarrow> bool" where
  "same_prompt r r2 \<longleftrightarrow> rq_all_token_ids r2 = rq_all_token_ids r \<and> rq_lora_request r2 = rq_lora_request r \<and>
     rq_mm_positions r2 = [] \<and> sp_prompt_logprobs (rq_sampling_params r2) = None"

lemma new_request_ready:
  assumes bs: "0 < km_block_size m" and en: "km_enable_caching m" "0 \<le> km_num_preallocate_blocks m"
    and r: "rq_mm_positions r = []" "rq_num_computed_tokens r = 0" "rq_spec_token_ids r = []" "km_blocks_of m r = []"
      "dict_get (km_num_cached_block m) (rq_request_id r) = None" "km_hashes_of m r = request_hashes H (km_block_size m) r"
    and rs: "length rs \<le> length (request_hashes H (km_block_size m) r)"
      "\<forall>i < length rs. vp_hash (km_block_pool m) (rs ! i) = Some (request_hashes H (km_block_size m) r ! i)"
    and n: "num_tokens = int (length (rq_all_token_ids r)) - int (length rs * km_block_size m)" "0 < num_tokens"
    and mx: "int (length (rq_all_token_ids r)) \<le> km_max_num_blocks_per_req m * int (km_block_size m)"
  shows "slots_ready H m r num_tokens rs (length rs) (length (request_hashes H (km_block_size m) r))"
    "full_after m r num_tokens rs = int (length (request_hashes H (km_block_size m) r))"
proof -
  have t: "tokens_after m r num_tokens rs = int (length (rq_all_token_ids r))" using r n by (simp add: tokens_after_def)
  show f: "full_after m r num_tokens rs = int (length (request_hashes H (km_block_size m) r))"
    using r bs by (simp add: full_after_def t request_hashes_length zdiv_int)
  have "blocks_needed m r num_tokens rs \<le> km_max_num_blocks_per_req m - int (length rs)"
    using cdiv_least[of "int (km_block_size m)" "int (length (rq_all_token_ids r))" "km_max_num_blocks_per_req m"] mx bs r
    by (simp add: blocks_needed_def t)
  then show "slots_ready H m r num_tokens rs (length rs) (length (request_hashes H (km_block_size m) r))"
    using r rs en n(2) f unfolding slots_ready_def Let_def by (simp add: dict_get_default_def[of "km_num_cached_block m"])
qed

lemma prompt_found_again:
  assumes inv: "km_inv m xs" and en: "km_enable_caching m" "0 \<le> km_num_preallocate_blocks m"
    and new: "new_request m r" and mx: "int (length (rq_all_token_ids r)) \<le> km_max_num_blocks_per_req m * int (km_block_size m)"
    and get: "KVCacheManager_get_computed_blocks H m r = Inr ((rs, num), m1)" and lt: "num < length (rq_all_token_ids r)"
    and alloc: "KVCacheManager_allocate_slots H m1 r (int (length (rq_all_token_ids r)) - int num) rs = Inr (Some new, m2)"
    and same: "same_prompt r r2" "km_hashes_of m2 r2 = []"
  shows "\<exists>rs2 m3. KVCacheManager_get_computed_blocks H m2 r2 = Inr ((rs2, length rs2 * km_block_size m), m3) \<and>
     length rs2 = length (rq_all_token_ids r) div km_block_size m \<and>
     (\<forall>i < length rs2. vp_hash (km_block_pool m2) (rs2 ! i) = Some (request_hashes H (km_block_size m) r ! i))"
proof -
  let ?bs = "km_block_size m" and ?T = "length (rq_all_token_ids r)"
  let ?hs = "request_hashes H ?bs r" and ?n = "int ?T - int num"
  have R: "rq_mm_positions r = []" "sp_prompt_logprobs (rq_sampling_params r) = None" "rq_num_computed_tokens r = 0"
     "rq_spec_token_ids r = []" "km_blocks_of m r = []" "km_hashes_of m r = []" "dict_get (km_num_cached_block m) (rq_request_id r) = None"
    using new by (simp_all add: new_request_def)
  have bs: "0 < ?bs" by (rule km_invD(1)[OF inv])
  have c: "num = length rs * ?bs" "km_inv m1 xs" "length rs = length (takeWhile (hash_cached (km_block_pool m)) ?hs)"
     "\<forall>i < length rs. vp_hash (km_block_pool m) (rs ! i) = Some (?hs ! i)" "km_block_pool m1 = km_block_pool m"
     "km_req_to_blocks m1 = km_req_to_blocks m" "km_hashes_of m1 r = ?hs" "km_num_cached_block m1 = km_num_cached_block m"
     "km_block_size m1 = ?bs" "km_max_num_blocks_per_req m1 = km_max_num_blocks_per_req m"
     "km_num_preallocate_blocks m1 = km_num_preallocate_blocks m" "km_enable_caching m1 = km_enable_caching m"
    using get_computed_blocks_ok[OF inv en(1) R(1,2), of ?hs H] R(6) get by auto
  have le: "length rs \<le> length ?hs" unfolding c(3) by (rule length_takeWhile_le)
  have n: "?n = int ?T - int (length rs * km_block_size m1)" "0 < ?n" using lt unfolding c(9) c(1)[symmetric] by simp_all
  have rdy: "slots_ready H m1 r ?n rs (length rs) (length ?hs)" "full_after m1 r ?n rs = int (length ?hs)"
    using new_request_ready[of m1 r H rs ?n, OF _ _ _ R(1,3,4) _ _ _ _ _ n] bs c le R en mx by simp_all
  have room: "blocks_needed m1 r ?n rs \<le> int (length xs) - int (num_evictable (km_block_pool m1) rs)"
  proof (rule ccontr)
    assume no: "\<not> ?thesis"
    have "?n \<noteq> 0" using n(2) by simp
    from allocate_slots_refused[OF c(2) this no, of H] alloc show False by auto
  qed
  from allocate_slots_ok[OF c(2) rdy(1) room] alloc have a: "km_inv m2 (drop (length new) (filter (\<lambda>b. b \<notin> set rs) xs))"
     "\<forall>i < length ?hs. vp_hash (km_block_pool m2) ((km_blocks_of m1 r @ rs @ new) ! i) = Some (?hs ! i)"
     unfolding rdy(2) c(9) nat_int by auto
  have m2: "km_block_size m2 = ?bs" "km_enable_caching m2"
    using alloc c(9,12) en(1) by (auto simp: KVCacheManager_allocate_slots_def Let_def cache_slots_def split: if_splits elim!: res_bind_InrE)
  have hs2: "request_hashes H ?bs r2 = ?hs" using same(1) by (simp add: same_prompt_def request_hashes_def text_keys_def)
  have all: "takeWhile (hash_cached (km_block_pool m2)) ?hs = ?hs"
    unfolding takeWhile_eq_all_conv using a(2) by (auto simp: hash_cached_def in_set_conv_nth) blast
  obtain rs2 m3 where "KVCacheManager_get_computed_blocks H m2 r2 = Inr ((rs2, length rs2 * km_block_size m2), m3)"
     "length rs2 = length (takeWhile (hash_cached (km_block_pool m2)) ?hs)" "\<forall>i < length rs2. vp_hash (km_block_pool m2) (rs2 ! i) = Some (?hs ! i)"
    using get_computed_blocks_ok[OF a(1) m2(2), of r2 ?hs H] same hs2 m2(1) by (auto simp: same_prompt_def)
  then show ?thesis using all m2(1) request_hashes_length[OF bs, of H r] by auto
qed

section \<open>Properties\<close>

text \<open>
  C16. The doubly linked queue of free blocks implements a plain list. Whenever the links
  represent a list, reading the queue gives that list, popleft takes its first element and raises
  ValueError on the empty list, remove deletes any element in the middle, append adds at the end;
  after each the links represent the new list, and no operation touches the other data of a block.
\<close>

theorem FreeKVCacheBlockQueue_refines_list:
  assumes "queue_ok s xs"
  shows "FreeKVCacheBlockQueue_get_all_free_blocks s = Inr xs \<and> fq_num_free_blocks (fst s) = int (length xs) \<and>
     (case xs of [] \<Rightarrow> FreeKVCacheBlockQueue_popleft s = Inl ValueError
      | b # ys \<Rightarrow> \<exists>s'. FreeKVCacheBlockQueue_popleft s = Inr (b, s') \<and> queue_ok s' ys \<and> same_data (snd s) (snd s')) \<and>
     (\<forall>b \<in> set xs. queue_ok (FreeKVCacheBlockQueue_remove b s) (remove1 b xs) \<and>
        same_data (snd s) (snd (FreeKVCacheBlockQueue_remove b s))) \<and>
     (\<forall>b < length (snd s). b \<notin> set xs \<longrightarrow> (\<exists>s'. FreeKVCacheBlockQueue_append b s = Inr s' \<and> queue_ok s' (xs @ [b]) \<and>
        same_data (snd s) (snd s')))"
  using get_all_free_blocks_ok[OF assms] queue_num[OF assms] fq.pop_empty[of s] fq.pop_law[of s] fq.remove_law[OF assms]
    fq.append_law[OF assms] assms
  by (auto simp: same_data_iff split: list.split)

theorem FreeKVCacheBlockQueue_refines_list_witness:
  "\<exists>s s'. FreeKVCacheBlockQueue_init [0, 1, 2] (map KVCacheBlock_init [0..<3]) = Inr s \<and>
     FreeKVCacheBlockQueue_get_all_free_blocks s = Inr [0, 1, 2] \<and>
     FreeKVCacheBlockQueue_popleft s = Inr (0, s') \<and> queue_ok s' [1, 2]"
proof -
  obtain s where s: "FreeKVCacheBlockQueue_init [0, 1, 2] (map KVCacheBlock_init [0..<3]) = Inr s" "queue_ok s [0, 1, 2]"
    using queue_init_ok[of "[0, 1, 2]" "map KVCacheBlock_init [0..<3]"] by (auto simp: KVCacheBlock_init_def)
  from FreeKVCacheBlockQueue_refines_list[OF s(2)] s(1) show ?thesis by auto
qed

text \<open>
  C17. Every free block is handed out again. The block at position \<open>i\<close> of the free queue is the last
  of the next \<open>i + 1\<close> blocks allocated, whatever hash it carries: the cache keeps no free block
  forever, and the blocks go out in the order in which they became free.
\<close>

theorem BlockPool_v1_free_block_is_handed_out:
  assumes "pool_state p xs" "i < length xs"
  shows "\<exists>rs p'. BlockPool_v1_get_new_blocks (Suc i) p = Inr (rs @ [xs ! i], p') \<and> rs = take i xs \<and>
     pool_state p' (drop (Suc i) xs) \<and> vp_refs p' (xs ! i) = 1 \<and> vp_hash p' (xs ! i) = None"
  using get_new_blocks_ok[OF assms(1), of "Suc i"] assms(2) by (auto simp: take_Suc_conv_app_nth)

theorem BlockPool_v1_free_block_is_handed_out_witness:
  "\<exists>p p'. BlockPool_v1_init 3 True = Inr p \<and> BlockPool_v1_get_new_blocks 2 p = Inr ([0, 1], p')"
proof -
  obtain p where p: "BlockPool_v1_init 3 True = Inr p" "pool_state p [0..<3]" using pool_init_ok[of 3 True] by auto
  have "(1::nat) < length [0..<3]" by simp
  from BlockPool_v1_free_block_is_handed_out[OF p(2) this] p(1) show ?thesis
    by (auto simp: numeral_2_eq_2 take_Suc_conv_app_nth)
qed

text \<open>
  C18. Allocating slots. For a request that is ready, the allocation succeeds exactly when the free
  blocks, less the computed blocks that are free themselves, cover the blocks needed. It then
  appends the computed blocks and new blocks to those of the request, the new ones in the order
  of the free queue, enough for all tokens; the full blocks carry the hashes of the tokens, no
  other block in use changes its hash, and every reference count is the number of holders.
  Otherwise nothing is allocated.
\<close>

theorem KVCacheManager_allocate_slots_correct:
  assumes "km_inv m xs" "slots_ready H m r num_tokens rs n k"
  shows "if blocks_needed m r num_tokens rs \<le> int (length xs) - int (num_evictable (km_block_pool m) rs)
     then \<exists>new m'. KVCacheManager_allocate_slots H m r num_tokens rs = Inr (Some new, m') \<and>
       km_inv m' (drop (length new) (filter (\<lambda>b. b \<notin> set rs) xs)) \<and> new = take (length new) (filter (\<lambda>b. b \<notin> set rs) xs) \<and>
       km_blocks_of m' r = km_blocks_of m r @ rs @ new \<and>
       tokens_after m r num_tokens rs \<le> int (length (km_blocks_of m' r)) * int (km_block_size m) \<and>
       (\<forall>i < nat (full_after m r num_tokens rs). vp_hash (km_block_pool m') (km_blocks_of m' r ! i) =
          Some (request_hashes H (km_block_size m) r ! i)) \<and>
       (\<forall>b. b \<notin> set new \<longrightarrow> b \<notin> set (km_blocks_of m r) \<longrightarrow> vp_hash (km_block_pool m') b = vp_hash (km_block_pool m) b)
     else \<exists>m'. KVCacheManager_allocate_slots H m r num_tokens rs = Inr (None, m') \<and> km_inv m' xs \<and>
       km_block_pool m' = km_block_pool m"
proof (cases "blocks_needed m r num_tokens rs \<le> int (length xs) - int (num_evictable (km_block_pool m) rs)")
  case True
  from allocate_slots_ok[OF assms True] obtain new m' where a: "KVCacheManager_allocate_slots H m r num_tokens rs = Inr (Some new, m')"
     "km_inv m' (drop (length new) (filter (\<lambda>b. b \<notin> set rs) xs))" "new = take (length new) (filter (\<lambda>b. b \<notin> set rs) xs)"
     "km_req_to_blocks m' = dict_set (rq_request_id r) (km_blocks_of m r @ rs @ new) (km_req_to_blocks m)"
     "blocks_needed m r num_tokens rs \<le> int (length new)"
     "\<forall>i < nat (full_after m r num_tokens rs). vp_hash (km_block_pool m') ((km_blocks_of m r @ rs @ new) ! i) =
        Some (request_hashes H (km_block_size m) r ! i)"
     "\<forall>b. b \<notin> set new \<longrightarrow> b \<notin> set (km_blocks_of m r) \<longrightarrow> vp_hash (km_block_pool m') b = vp_hash (km_block_pool m) b" by blast
  have b: "km_blocks_of m' r = km_blocks_of m r @ rs @ new" unfolding a(4) by simp
  show ?thesis unfolding if_P[OF True]
    by (rule exI[of _ new], rule exI[of _ m'], unfold b, intro conjI a(1,2,3,6,7) refl blocks_cover(1)[OF km_invD(1)[OF assms(1)] a(5)])
next
  case False
  have "num_tokens \<noteq> 0" using assms(2) by (simp add: slots_ready_def Let_def)
  from allocate_slots_refused[OF assms(1) this False] show ?thesis unfolding if_not_P[OF False] by blast
qed

theorem KVCacheManager_allocate_slots_correct_witness:
  "\<exists>new m'. KVCacheManager_allocate_slots kv_example_hasher (kv_manager 3) (kv_request ''a'' [1, 2, 3]) 3 [] = Inr (Some new, m') \<and>
     km_inv m' (drop (length new) [0, 1, 2]) \<and> 3 \<le> 2 * length (km_blocks_of m' (kv_request ''a'' [1, 2, 3]))"
proof -
  let ?m = "kv_manager 3" and ?r = "kv_request ''a'' [1, 2, 3]"
  have "[0..<3] = [0, 1, 2::nat]" by code_simp
  then have m: "km_inv ?m [0, 1, 2]" using kv_manager_ok(1)[of 3] by simp
  have t: "tokens_after ?m ?r 3 [] = 3" by (simp add: tokens_after_def kv_request_def)
  from KVCacheManager_allocate_slots_correct[OF m kv_example_ready] kv_example_room t kv_manager_ok(6)[of 3] show ?thesis
    by (auto simp: )
qed

text \<open>
  C19. A prompt is found again. When a new request has computed its cached blocks and got slots for
  the rest of its prompt, a request with the same tokens and adapter that comes next finds all
  full blocks of the prompt computed, each under the hash of its tokens.
\<close>

theorem KVCacheManager_prompt_is_found_again:
  assumes "km_inv m xs" "km_enable_caching m" "0 \<le> km_num_preallocate_blocks m"
    and "new_request m r" "int (length (rq_all_token_ids r)) \<le> km_max_num_blocks_per_req m * int (km_block_size m)"
    and "KVCacheManager_get_computed_blocks H m r = Inr ((rs, num), m1)" "num < length (rq_all_token_ids r)"
    and "KVCacheManager_allocate_slots H m1 r (int (length (rq_all_token_ids r)) - int num) rs = Inr (Some new, m2)"
    and "same_prompt r r2" "km_hashes_of m2 r2 = []"
  shows "\<exists>rs2 m3. KVCacheManager_get_computed_blocks H m2 r2 = Inr ((rs2, length rs2 * km_block_size m), m3) \<and>
     length rs2 = length (rq_all_token_ids r) div km_block_size m \<and>
     (\<forall>i < length rs2. vp_hash (km_block_pool m2) (rs2 ! i) = Some (request_hashes H (km_block_size m) r ! i))"
  by (rule prompt_found_again[OF assms])

theorem KVCacheManager_prompt_is_found_again_witness:
  "\<exists>m2 rs2 m3. KVCacheManager_get_computed_blocks kv_example_hasher m2 (kv_request ''b'' [1, 2, 3]) = Inr ((rs2, 2), m3) \<and>
     length rs2 = 1"
proof -
  let ?m = "kv_manager 3" and ?r = "kv_request ''a'' [1, 2, 3]" and ?r2 = "kv_request ''b'' [1, 2, 3]"
  have "case KVCacheManager_get_computed_blocks kv_example_hasher ?m ?r of Inl _ \<Rightarrow> False | Inr ((rs, num), m1) \<Rightarrow> num = 0 \<and>
      (case KVCacheManager_allocate_slots kv_example_hasher m1 ?r 3 rs of Inl _ \<Rightarrow> False
       | Inr (new, m2) \<Rightarrow> new \<noteq> None \<and> km_hashes_of m2 ?r2 = [])" by code_simp
  then obtain rs m1 new m2 where run: "KVCacheManager_get_computed_blocks kv_example_hasher ?m ?r = Inr ((rs, 0), m1)"
      "KVCacheManager_allocate_slots kv_example_hasher m1 ?r 3 rs = Inr (Some new, m2)" "km_hashes_of m2 ?r2 = []"
    by (auto split: sum.splits prod.splits)
  have new: "new_request ?m ?r" "same_prompt ?r ?r2"
    by (simp_all add: new_request_def same_prompt_def kv_request_def kv_params_def kv_manager_ok dict_get_default_def)
  have T: "length (rq_all_token_ids ?r) = 3" by (simp add: kv_request_def)
  show ?thesis
    using KVCacheManager_prompt_is_found_again[OF kv_manager_ok(1,5) _ new(1) _ run(1) _ _ new(2) run(3)] run(2)
    by (auto simp: kv_manager_ok T) blast
qed

text \<open>
  C20. Freeing a request. Every block the request holds loses one reference and stays in the cache
  under its hash; the blocks nobody else holds join the free queue at its end, the last block of
  the request first, so that the tail of a prompt is evicted before its beginning.
\<close>

theorem KVCacheManager_free_keeps_prefix:
  assumes "km_inv m xs" "km_enable_caching m" "distinct (km_blocks_of m r)"
  shows "\<exists>m'. KVCacheManager_free m r = Inr m' \<and>
     km_inv m' (xs @ filter (\<lambda>b. vp_refs (km_block_pool m) b = 1) (rev (km_blocks_of m r))) \<and>
     vp_hash (km_block_pool m') = vp_hash (km_block_pool m) \<and> km_blocks_of m' r = [] \<and>
     (\<forall>b. vp_refs (km_block_pool m') b = vp_refs (km_block_pool m) b - (if b \<in> set (km_blocks_of m r) then 1 else 0))"
proof -
  from free_request_ok[OF assms(1), of r] obtain m' where m': "KVCacheManager_free m r = Inr m'"
    "km_inv m' (xs @ released (vp_refs (km_block_pool m)) (rev (km_blocks_of m r)))"
    "km_req_to_blocks m' = dict_pop (rq_request_id r) (km_req_to_blocks m)" "vp_hash (km_block_pool m') = vp_hash (km_block_pool m)"
    "vp_refs (km_block_pool m') = (\<lambda>b. vp_refs (km_block_pool m) b - int (count_list (km_blocks_of m r) b))"
    using assms(2) by auto
  then show ?thesis using assms(3)
    by (simp add: released_distinct count_list_distinct dict_get_default_def)
qed

theorem KVCacheManager_free_keeps_prefix_witness:
  "\<exists>m new m1 m2. KVCacheManager_allocate_slots kv_example_hasher m (kv_request ''a'' [1, 2, 3]) 3 [] = Inr (Some new, m1) \<and>
     KVCacheManager_free m1 (kv_request ''a'' [1, 2, 3]) = Inr m2 \<and> km_inv m2 [2, 1, 0]"
proof -
  let ?m = "kv_manager 3" and ?r = "kv_request ''a'' [1, 2, 3]"
  have e: "case KVCacheManager_allocate_slots kv_example_hasher ?m ?r 3 [] of Inl _ \<Rightarrow> False
     | Inr (new, m1) \<Rightarrow> new = Some [0, 1] \<and> km_blocks_of m1 ?r = [0, 1] \<and> km_enable_caching m1 \<and>
         vp_refs (km_block_pool m1) 0 = 1 \<and> vp_refs (km_block_pool m1) 1 = 1" by code_simp
  then obtain m1 where m1: "KVCacheManager_allocate_slots kv_example_hasher ?m ?r 3 [] = Inr (Some [0, 1], m1)"
     "km_blocks_of m1 ?r = [0, 1]" "km_enable_caching m1" "vp_refs (km_block_pool m1) 0 = 1" "vp_refs (km_block_pool m1) 1 = 1"
    by (auto split: sum.splits prod.splits)
  have u: "[0..<3] = [0, 1, 2::nat]" by code_simp
  have "km_inv m1 [2]"
    using allocate_slots_ok[OF kv_manager_ok(1)[of 3, unfolded u] kv_example_ready kv_example_room] m1(1) by auto
  from KVCacheManager_free_keeps_prefix[OF this m1(3), of ?r] m1 show ?thesis by auto
qed

section \<open>Metrics\<close>

text \<open>The records of the window: those since the last reset.\<close>

definition stats_entry :: "PrefixCacheStats \<Rightarrow> nat \<times> nat \<times> nat" where
  "stats_entry s = (ps_requests s, ps_queries s, ps_hits s)"

definition since_reset :: "PrefixCacheStats list \<Rightarrow> (nat \<times> nat \<times> nat) list" where
  "since_reset ss = fold (\<lambda>s acc. if ps_reset s then [stats_entry s] else acc @ [stats_entry s]) ss []"

definition metrics_inv :: "(nat \<times> nat \<times> nat) list \<Rightarrow> PrefixCachingMetrics \<Rightarrow> bool" where
  "metrics_inv rec c \<longleftrightarrow> (\<exists>old. rec = old @ cm_query_queue c) \<and>
     cm_aggregated_requests c = int (sum_list (map fst (cm_query_queue c))) \<and>
     cm_aggregated_query_total c = int (sum_list (map (fst \<circ> snd) (cm_query_queue c))) \<and>
     cm_aggregated_query_hit c = int (sum_list (map (snd \<circ> snd) (cm_query_queue c)))"

lemma metrics_observe_ok:
  assumes "metrics_inv rec c"
  shows "\<exists>c'. PrefixCachingMetrics_observe c s = Inr c' \<and>
     metrics_inv (if ps_reset s then [stats_entry s] else rec @ [stats_entry s]) c'"
proof -
  define c0 where "c0 = (if ps_reset s then PrefixCachingMetrics_reset c else c)"
  define rec0 where "rec0 = (if ps_reset s then [] else rec)"
  have c0: "metrics_inv rec0 c0"
    using assms by (simp add: c0_def rec0_def metrics_inv_def PrefixCachingMetrics_reset_def)
  obtain old where old: "rec0 = old @ cm_query_queue c0" using c0 by (auto simp: metrics_inv_def)
  obtain x q where q: "cm_query_queue c0 @ [stats_entry s] = x # q" by (cases "cm_query_queue c0") auto
  have r: "(if ps_reset s then [stats_entry s] else rec @ [stats_entry s]) = old @ x # q"
  proof -
    have "rec0 @ [stats_entry s] = old @ x # q" unfolding old append_assoc q by (rule refl)
    then show ?thesis by (simp add: rec0_def split: if_splits)
  qed
  have sums: "sum_list (map f (x # q)) = sum_list (map f (cm_query_queue c0)) + f (stats_entry s)" for f :: "nat \<times> nat \<times> nat \<Rightarrow> nat"
    unfolding q[symmetric] by simp
  let ?c = "c0\<lparr>cm_query_queue := x # q, cm_aggregated_requests := cm_aggregated_requests c0 + int (ps_requests s),
     cm_aggregated_query_total := cm_aggregated_query_total c0 + int (ps_queries s),
     cm_aggregated_query_hit := cm_aggregated_query_hit c0 + int (ps_hits s)\<rparr>"
  have m: "metrics_inv (old @ x # q) ?c"
    using c0 sums[of fst] sums[of "fst \<circ> snd"] sums[of "snd \<circ> snd"] by (simp add: metrics_inv_def stats_entry_def)
  have run: "PrefixCachingMetrics_observe c s = (if cm_aggregated_requests ?c > int (cm_interval ?c)
      then Inr (?c\<lparr>cm_query_queue := q, cm_aggregated_requests := cm_aggregated_requests ?c - int (fst x),
          cm_aggregated_query_total := cm_aggregated_query_total ?c - int (fst (snd x)),
          cm_aggregated_query_hit := cm_aggregated_query_hit ?c - int (snd (snd x))\<rparr>) else Inr ?c)"
    using q by (cases x) (simp add: PrefixCachingMetrics_observe_def Let_def c0_def[symmetric] stats_entry_def)
  show ?thesis unfolding r run using m by (auto simp: metrics_inv_def)
qed

text \<open>
  The hit rate of the recent requests. However many statistics are observed, resets included,
  observing never fails, and the rate reported is the exact quotient of the hits and queries of a
  window of the most recent statistics since the last reset.
\<close>

theorem PrefixCachingMetrics_hit_rate_of_window:
  "\<exists>c window old. res_fold (\<lambda>s c. PrefixCachingMetrics_observe c s) ss (PrefixCachingMetrics_init interval) = Inr c \<and>
     since_reset ss = old @ window \<and> cm_query_queue c = window \<and>
     PrefixCachingMetrics_hit_rate c = (if sum_list (map (fst \<circ> snd) window) = 0 then 0
       else of_nat (sum_list (map (snd \<circ> snd) window)) / of_nat (sum_list (map (fst \<circ> snd) window)))"
proof -
  have "\<exists>c'. res_fold (\<lambda>s c. PrefixCachingMetrics_observe c s) ss c = Inr c' \<and>
      metrics_inv (fold (\<lambda>s acc. if ps_reset s then [stats_entry s] else acc @ [stats_entry s]) ss rec) c'"
    if "metrics_inv rec c" for rec c
    using that
  proof (induction ss arbitrary: rec c)
    case (Cons s ss)
    then show ?case using metrics_observe_ok[OF Cons.prems, of s] by force
  qed simp
  from this[of "[]" "PrefixCachingMetrics_init interval"] obtain c where
    c: "res_fold (\<lambda>s c. PrefixCachingMetrics_observe c s) ss (PrefixCachingMetrics_init interval) = Inr c" "metrics_inv (since_reset ss) c"
    by (auto simp: metrics_inv_def PrefixCachingMetrics_init_def since_reset_def)
  then show ?thesis by (auto simp: metrics_inv_def PrefixCachingMetrics_hit_rate_def)
qed

section \<open>The encoder cache\<close>

text \<open>
  The encoder cache is accounted exactly. Allocating an input that is not cached and freeing
  one that is keep the sum of the free slots and the tokens cached equal to the cache size;
  freeing a request frees all its inputs, gives back exactly their tokens, records them as freed
  in the order of the iteration and leaves other requests alone.
\<close>

theorem EncoderCacheManager_slots_accounted:
  assumes "ec_inv tokens e" "sizes_of tokens r"
  shows "(\<forall>i < length (rq_mm_positions r). i \<notin> ec_ids e r \<longrightarrow> (\<exists>e'. EncoderCacheManager_allocate e r i = Inr e' \<and>
        ec_inv tokens e' \<and> ec_ids e' r = insert i (ec_ids e r) \<and> ec_num_free_slots e' = ec_num_free_slots e - tokens (rq_request_id r) i)) \<and>
     (\<forall>i < length (rq_mm_positions r). i \<in> ec_ids e r \<longrightarrow> (\<exists>e'. EncoderCacheManager_free_encoder_input e r i = Inr e' \<and>
        ec_inv tokens e' \<and> ec_ids e' r = ec_ids e r - {i} \<and> ec_num_free_slots e' = ec_num_free_slots e + tokens (rq_request_id r) i)) \<and>
     (distinct (order (ec_ids e r)) \<and> set (order (ec_ids e r)) = ec_ids e r \<and> ec_ids e r \<subseteq> {..<length (rq_mm_positions r)} \<longrightarrow>
        (\<exists>e'. EncoderCacheManager_free order e r = Inr e' \<and> ec_inv tokens e' \<and> ec_ids e' r = {} \<and>
          ec_num_free_slots e' = ec_num_free_slots e + (\<Sum>i \<in> ec_ids e r. tokens (rq_request_id r) i) \<and>
          ec_freed e' = ec_freed e @ map (Pair (rq_request_id r)) (order (ec_ids e r)) \<and>
          (\<forall>r'. rq_request_id r' \<noteq> rq_request_id r \<longrightarrow> ec_ids e' r' = ec_ids e r')))"
proof (intro conjI allI impI)
  fix i assume "i < length (rq_mm_positions r)" "i \<notin> ec_ids e r"
  from allocate_input_ok[OF assms this] show "\<exists>e'. EncoderCacheManager_allocate e r i = Inr e' \<and>
        ec_inv tokens e' \<and> ec_ids e' r = insert i (ec_ids e r) \<and> ec_num_free_slots e' = ec_num_free_slots e - tokens (rq_request_id r) i"
    by blast
next
  fix i assume "i < length (rq_mm_positions r)" "i \<in> ec_ids e r"
  from free_input_ok[OF assms this] show "\<exists>e'. EncoderCacheManager_free_encoder_input e r i = Inr e' \<and>
        ec_inv tokens e' \<and> ec_ids e' r = ec_ids e r - {i} \<and> ec_num_free_slots e' = ec_num_free_slots e + tokens (rq_request_id r) i"
    by blast
next
  assume o: "distinct (order (ec_ids e r)) \<and> set (order (ec_ids e r)) = ec_ids e r \<and> ec_ids e r \<subseteq> {..<length (rq_mm_positions r)}"
  from free_inputs_ok[OF assms, of "order (ec_ids e r)"] o show "\<exists>e'. EncoderCacheManager_free order e r = Inr e' \<and> ec_inv tokens e' \<and>
     ec_ids e' r = {} \<and> ec_num_free_slots e' = ec_num_free_slots e + (\<Sum>i \<in> ec_ids e r. tokens (rq_request_id r) i) \<and>
     ec_freed e' = ec_freed e @ map (Pair (rq_request_id r)) (order (ec_ids e r)) \<and>
     (\<forall>r'. rq_request_id r' \<noteq> rq_request_id r \<longrightarrow> ec_ids e' r' = ec_ids e r')"
    by (auto simp: EncoderCacheManager_free_def EncoderCacheManager_get_cached_input_ids_def)
qed

definition mm_request :: "mm_position list \<Rightarrow> string option list \<Rightarrow> int list \<Rightarrow> Request" where
  "mm_request ps hs toks = (kv_request ''a'' toks)\<lparr>rq_mm_positions := ps, rq_mm_hashes := hs\<rparr>"

theorem EncoderCacheManager_slots_accounted_witness:
  "\<exists>e1 e2. EncoderCacheManager_allocate (EncoderCacheManager_init 5) (mm_request [\<lparr>mp_offset = 0, mp_length = 3\<rparr>] [Some ''h''] [1, 2, 3]) 0 = Inr e1 \<and>
     ec_num_free_slots e1 = 2 \<and>
     EncoderCacheManager_free (\<lambda>_. []) (EncoderCacheManager_init 5) (mm_request [\<lparr>mp_offset = 0, mp_length = 3\<rparr>] [Some ''h''] [1, 2, 3]) = Inr e2 \<and>
     ec_num_free_slots e2 = 5"
proof -
  let ?r = "mm_request [\<lparr>mp_offset = 0, mp_length = 3\<rparr>] [Some ''h''] [1, 2, 3]"
  have "sizes_of (\<lambda>_ _. 3) ?r" by (simp add: sizes_of_def mm_request_def)
  from EncoderCacheManager_slots_accounted[OF ec_init_inv this, where order = "\<lambda>_. []" and n1 = 5] show ?thesis
    by (simp add: EncoderCacheManager_init_def mm_request_def dict_get_default_def) blast
qed

text \<open>
  C21. The encoder inputs of a step. With the inputs of a request in the order of their offsets the
  choice always succeeds, never asks for more tokens than offered nor spends more than the budget,
  chooses only inputs that are not cached and that fit the free slots one by one, and leaves no
  token of the step over an input that is neither cached nor chosen.
\<close>

theorem try_schedule_encoder_inputs_covers_step:
  assumes "sorted (map mp_offset (rq_mm_positions r))" "0 \<le> num_new_tokens"
  shows "\<exists>ids n b. try_schedule_encoder_inputs e r c num_new_tokens budget = Inr (ids, n, b) \<and> 0 \<le> n \<and> n \<le> num_new_tokens \<and>
     b = budget - (\<Sum>i \<leftarrow> ids. mp_length (rq_mm_positions r ! i)) \<and> (0 \<le> budget \<longrightarrow> 0 \<le> b) \<and> distinct ids \<and>
     (\<forall>i \<in> set ids. i < length (rq_mm_positions r) \<and> \<not> EncoderCacheManager_has_cache e r i \<and>
        mp_length (rq_mm_positions r ! i) \<le> ec_num_free_slots e) \<and>
     (\<forall>i < length (rq_mm_positions r). 0 < n \<longrightarrow> mp_offset (rq_mm_positions r ! i) < c + n \<longrightarrow>
        c < mp_offset (rq_mm_positions r ! i) + mp_length (rq_mm_positions r ! i) \<longrightarrow> EncoderCacheManager_has_cache e r i \<or> i \<in> set ids)"
proof -
  let ?ps = "enumerate 0 (rq_mm_positions r)"
  have m: "(i, p) \<in> set ?ps \<longleftrightarrow> i < length (rq_mm_positions r) \<and> rq_mm_positions r ! i = p" for i p
    by (auto simp: in_set_enumerate_eq)
  have s: "sorted (map (mp_offset \<circ> snd) ?ps)" using assms(1) by (metis map_map map_snd_enumerate)
  have d: "distinct (map fst ?ps)" by simp
  have f: "i \<in> fst ` set ?ps \<Longrightarrow> i < length (rq_mm_positions r)" for i using m by auto
  show ?thesis
  proof (cases "rq_mm_positions r = []")
    case True
    then show ?thesis using assms(2) by (simp add: try_schedule_encoder_inputs_def Request_has_encoder_inputs_def)
  next
    case False
    obtain ids n b where r: "encoder_inputs_loop e r c ?ps num_new_tokens budget = Inr (ids, n, b)" "0 \<le> n" "n \<le> num_new_tokens"
       "b = budget - (\<Sum>i \<leftarrow> ids. mp_length (rq_mm_positions r ! i))" "0 \<le> budget \<longrightarrow> 0 \<le> b" "distinct ids"
       "\<forall>i \<in> set ids. i \<in> fst ` set ?ps \<and> \<not> EncoderCacheManager_has_cache e r i \<and> mp_length (rq_mm_positions r ! i) \<le> ec_num_free_slots e"
       "\<forall>(i, p) \<in> set ?ps. 0 < n \<longrightarrow> mp_offset p < c + n \<longrightarrow> c < mp_offset p + mp_length p \<longrightarrow> EncoderCacheManager_has_cache e r i \<or> i \<in> set ids"
      using encoder_inputs_loop_ok[OF s _ d assms(2), of r e c budget] m by blast
    have "EncoderCacheManager_has_cache e r i \<or> i \<in> set ids" if "i < length (rq_mm_positions r)" "0 < n"
       "mp_offset (rq_mm_positions r ! i) < c + n" "c < mp_offset (rq_mm_positions r ! i) + mp_length (rq_mm_positions r ! i)" for i
      using r(8) m that by blast
    then show ?thesis using r(1-7) f False
      by (intro exI[of _ ids] exI[of _ n] exI[of _ b]) (auto simp: try_schedule_encoder_inputs_def Request_has_encoder_inputs_def)
  qed
qed

theorem try_schedule_encoder_inputs_covers_step_witness:
  "\<exists>ids n b. try_schedule_encoder_inputs (EncoderCacheManager_init 5)
     (mm_request [\<lparr>mp_offset = 0, mp_length = 3\<rparr>, \<lparr>mp_offset = 3, mp_length = 3\<rparr>] [Some ''h'', Some ''k''] [1, 2, 3, 4, 5, 6]) 0 6 8 = Inr (ids, n, b) \<and>
     n \<le> 6 \<and> (0 < n \<longrightarrow> 0 \<in> set ids)"
  using try_schedule_encoder_inputs_covers_step[of "mm_request [\<lparr>mp_offset = 0, mp_length = 3\<rparr>, \<lparr>mp_offset = 3, mp_length = 3\<rparr>] [Some ''h'', Some ''k''] [1, 2, 3, 4, 5, 6]"
    6 "EncoderCacheManager_init 5" 0 8]
  by (auto simp: mm_request_def EncoderCacheManager_init_def EncoderCacheManager_has_cache_def)

text \<open>
  The capacity of the cache is tested for each input alone: two inputs of three tokens each are
  both chosen with five free slots, and allocating them overdraws the cache.
\<close>

lemma encoder_cache_overdrawn:
  "let r = mm_request [\<lparr>mp_offset = 0, mp_length = 3\<rparr>, \<lparr>mp_offset = 3, mp_length = 3\<rparr>] [Some ''h'', Some ''k''] [1, 2, 3, 4, 5, 6];
       e = EncoderCacheManager_init 5
   in try_schedule_encoder_inputs e r 0 6 8 = Inr ([0, 1], 6, 2) \<and>
      (case allocate_encoder_inputs e r [0, 1] of Inr e' \<Rightarrow> ec_num_free_slots e' = -1 | Inl _ \<Rightarrow> False)"
  by (simp add: Let_def mm_request_def EncoderCacheManager_init_def try_schedule_encoder_inputs_def Request_has_encoder_inputs_def
      EncoderCacheManager_has_cache_def EncoderCacheManager_can_allocate_def Request_get_num_encoder_tokens_def
      allocate_encoder_inputs_def EncoderCacheManager_allocate_def dict_get_default_def)

text \<open>
  The extra keys of a block that starts where the last multi-modal input ends: the block pool,
  which starts from the last input, adds its hash; the pass over the whole request, which has
  left the input behind, does not. The two hashes of such a block differ.
\<close>

lemma extra_keys_at_block_end:
  assumes "rq_mm_positions r = [p]" "rq_mm_hashes r = [Some h]" "mp_offset p + mp_length p = start" "mp_offset p < stop"
  shows "generate_block_hash_extra_keys r start stop (- 1) = (Inr (Some (gen_lora_extra_hash_keys r @ [MMHash h]),
       if start \<le> stop then 1 else 0))"
    "generate_block_hash_extra_keys r start stop 1 = Inr (text_keys r, 1)"
  using assms by (auto simp: generate_block_hash_extra_keys_def gen_mm_extra_hash_keys_def Let_def gen_lora_extra_hash_keys_def
      text_keys_def split: option.splits)

section \<open>The size of the cache\<close>

text \<open>
  C22. The memory suffices. Let the layers of every worker be all alike (worker i has blocks of
  bs i tokens and pages of pg i bytes) and let the number of blocks not be overridden. When the
  configurations are granted there is one per worker; all tensors of a worker together fit into the
  available memory; its blocks times the largest number of layers of a worker fit as well, and one
  block more would not; and a worker whose blocks and pages are those of a worker with the most
  layers, in particular every worker when all are alike, holds a request of the largest length.
\<close>

theorem get_kv_cache_configs_fits_memory:
  assumes "\<forall>i < length specs. uniform_layers (specs ! i) (bs i) (pg i)" "vc_num_gpu_blocks_override config = None"
    "get_kv_cache_configs config specs available_memory = Inr cs"
  shows "length cs = length specs \<and> (\<forall>i < length specs.
     kc_tensors (cs ! i) = map (\<lambda>(n, _). (n, pg i * kc_num_blocks (cs ! i))) (specs ! i) \<and>
     sum_list (dict_values (kc_tensors (cs ! i))) \<le> available_memory \<and>
     kc_num_blocks (cs ! i) * (pg i * int (Max (length ` set specs))) \<le> available_memory \<and>
     available_memory < (kc_num_blocks (cs ! i) + 1) * (pg i * int (Max (length ` set specs))) \<and>
     (\<forall>j < length specs. length (specs ! j) = Max (length ` set specs) \<and> bs j = bs i \<and> pg j = pg i \<longrightarrow>
        vc_max_model_len config \<le> kc_num_blocks (cs ! i) * bs i))"
proof (cases "specs = []")
  case True
  then show ?thesis using assms(3) by (simp add: get_kv_cache_configs_def)
next
  case False
  then show ?thesis using worker_configs_ok[OF assms] by blast
qed

text \<open>Two workers, with one and two layers: nine units of memory give both two blocks.\<close>

definition demo_layer :: FullAttentionSpec where
  "demo_layer = \<lparr>fs_block_size = 2, fs_num_kv_heads = 1, fs_head_size = 1, fs_dtype_size = 1, fs_use_mla = True\<rparr>"

definition demo_specs :: "KVCacheSpec list" where
  "demo_specs = [[(''l0'', demo_layer)], [(''l1'', demo_layer), (''l2'', demo_layer)]]"

definition demo_vllm_config :: VllmConfig where
  "demo_vllm_config = \<lparr>vc_max_model_len = 4, vc_block_size = 2, vc_num_gpu_blocks_override = None\<rparr>"

theorem get_kv_cache_configs_fits_memory_witness:
  "\<exists>c d. get_kv_cache_configs demo_vllm_config demo_specs 9 = Inr [c, d] \<and> 4 \<le> kc_num_blocks c * 2 \<and>
     sum_list (dict_values (kc_tensors d)) \<le> 9"
proof -
  have "\<not> isl (get_kv_cache_configs demo_vllm_config demo_specs 9)" by code_simp
  then obtain cs where cs: "get_kv_cache_configs demo_vllm_config demo_specs 9 = Inr cs" by (metis sum.collapse(2))
  have t: "\<forall>i < length demo_specs. uniform_layers (demo_specs ! i) 2 2"
    by (auto simp: demo_specs_def uniform_layers_def demo_layer_def FullAttentionSpec_type_id_def FullAttentionSpec_page_size_bytes_def
        less_Suc_eq)
  have l: "length demo_specs = 2" "Max (length ` set demo_specs) = 2" "length (demo_specs ! 1) = 2" by (simp_all add: demo_specs_def)
  have v: "vc_num_gpu_blocks_override demo_vllm_config = None" "vc_max_model_len demo_vllm_config = 4" by (simp_all add: demo_vllm_config_def)
  note f = get_kv_cache_configs_fits_memory[of demo_specs "\<lambda>_. 2" "\<lambda>_. 2", OF t v(1) cs, unfolded l(1,2) v(2)]
  obtain c d where "cs = [c, d]" using f by (cases cs; cases "tl cs") auto
  moreover have "4 \<le> kc_num_blocks (cs ! 0) * 2" using conjunct2[OF f] l(3) by (metis one_less_numeral_iff semiring_norm(76) zero_less_numeral)
  moreover have "sum_list (dict_values (kc_tensors (cs ! 1))) \<le> 9" using conjunct2[OF f] by (metis one_less_numeral_iff semiring_norm(76))
  ultimately show ?thesis using cs by auto
qed

end
