(* ===== verification/V1_Scheduler.thy ===== *)
theory V1_Scheduler
  imports KV_Manager_Correct Encoder_Cache
begin

text \<open>
  The scheduler of the v1 engine (v1/core/scheduler.py, v1/core/scheduler_output.py): in every step
  it gives tokens, KV-cache blocks and encoder inputs to the running requests, preempts the last
  ones when blocks run out, and admits waiting requests; then it takes the sampled tokens of the
  model runner and finishes requests.

  Requests are mutable objects shared by the queues and the dictionary of requests, so they live
  in a store (\<open>vs_objects\<close>) and a \<open>req_ref\<close> is an index in it. The prompt text and the
  multi-modal tensors are passed on unread and left out. The bitmask and the matcher of a
  grammar are third-party code: the bitmask is left out and the tokens a grammar accepts are
  part of the result. An operation that reads the clock has the reading as its argument.
\<close>

section \<open>Data\<close>

type_synonym req_ref = nat

record NewRequestData =
  nd_req_id :: string
  nd_prompt_token_ids :: "int list"
  nd_mm_hashes :: "string option list"
  nd_mm_positions :: "mm_position list"
  nd_sampling_params :: SamplingParams
  nd_block_ids :: "nat list"
  nd_num_computed_tokens :: int
  nd_lora_request :: "int option"

definition NewRequestData_from_request :: "Request \<Rightarrow> nat list \<Rightarrow> NewRequestData" where
  "NewRequestData_from_request r block_ids =
     \<lparr>nd_req_id = rq_request_id r, nd_prompt_token_ids = take (rq_num_prompt_tokens r) (rq_all_token_ids r),
      nd_mm_hashes = rq_mm_hashes r, nd_mm_positions = rq_mm_positions r, nd_sampling_params = rq_sampling_params r,
      nd_block_ids = block_ids, nd_num_computed_tokens = rq_num_computed_tokens r, nd_lora_request = rq_lora_request r\<rparr>"

record CachedRequestData =
  cd_req_id :: string
  cd_resumed_from_preemption :: bool
  cd_new_token_ids :: "int list"
  cd_new_block_ids :: "nat list"
  cd_num_computed_tokens :: int

definition CachedRequestData_from_request :: "Request \<Rightarrow> bool \<Rightarrow> int list \<Rightarrow> nat list \<Rightarrow> CachedRequestData" where
  "CachedRequestData_from_request r resumed new_token_ids new_block_ids =
     \<lparr>cd_req_id = rq_request_id r, cd_resumed_from_preemption = resumed, cd_new_token_ids = new_token_ids,
      cd_new_block_ids = new_block_ids, cd_num_computed_tokens = rq_num_computed_tokens r\<rparr>"

record SchedulerOutput =
  so_scheduled_new_reqs :: "NewRequestData list"
  so_scheduled_cached_reqs :: "CachedRequestData list"
  so_num_scheduled_tokens :: "(string, int) dict"
  so_total_num_scheduled_tokens :: int
  so_scheduled_spec_decode_tokens :: "(string, int list) dict"
  so_scheduled_encoder_inputs :: "(string, nat list) dict"
  so_num_common_prefix_blocks :: nat
  so_finished_req_ids :: "string set"
  so_free_encoder_input_ids :: "(string \<times> nat) list"
  so_structured_output_request_ids :: "(string, nat) dict"

text \<open>What the scheduler reads of its configuration.\<close>

record SchedulerConfig =
  cf_max_num_seqs :: nat
  cf_max_num_batched_tokens :: int
  cf_max_model_len :: nat
  cf_num_gpu_blocks :: nat
  cf_block_size :: nat
  cf_sliding_window :: "int option"
  cf_enable_prefix_caching :: bool
  cf_max_loras :: "int option"
  cf_log_stats :: bool
  cf_is_multimodal_model :: bool
  cf_max_tokens_by_modality :: "(string, int) dict"
  cf_max_num_encoder_input_tokens :: int
  cf_encoder_cache_size :: int

record V1Scheduler =
  vs_max_loras :: "int option"
  vs_log_stats :: bool
  vs_max_num_running_reqs :: nat
  vs_max_num_scheduled_tokens :: int
  vs_max_model_len :: nat
  vs_kv_cache_manager :: KVCacheManager
  vs_block_size :: nat
  vs_objects :: "Request list"
  vs_requests :: "(string, req_ref) dict"
  vs_waiting :: "req_ref list"
  vs_running :: "req_ref list"
  vs_scheduled_req_ids :: "string set"
  vs_finished_req_ids :: "string set"
  vs_cached_reqs_data :: "(string, CachedRequestData) dict"
  vs_max_num_encoder_input_tokens :: int
  vs_encoder_cache_manager :: EncoderCacheManager

text \<open>The scheduler passes no preallocation to the manager, whose default is 64 tokens.\<close>

definition Scheduler_init :: "SchedulerConfig \<Rightarrow> V1Scheduler result" where
  "Scheduler_init c =
     res_bind (py_assert (cf_num_gpu_blocks c > 0)) (\<lambda>_.
     res_bind (KVCacheManager_init (cf_block_size c) (cf_num_gpu_blocks c) (cf_max_model_len c) (cf_sliding_window c)
       (cf_enable_prefix_caching c) 64) (\<lambda>m.
     res_bind (compute_encoder_budget (cf_is_multimodal_model c) (cf_max_tokens_by_modality c)
       (cf_max_num_encoder_input_tokens c) (cf_encoder_cache_size c)) (\<lambda>(encoder_compute_budget, encoder_cache_size).
       Inr \<lparr>vs_max_loras = cf_max_loras c, vs_log_stats = cf_log_stats c, vs_max_num_running_reqs = cf_max_num_seqs c,
            vs_max_num_scheduled_tokens = cf_max_num_batched_tokens c, vs_max_model_len = cf_max_model_len c,
            vs_kv_cache_manager = m, vs_block_size = cf_block_size c, vs_objects = [], vs_requests = [], vs_waiting = [],
            vs_running = [], vs_scheduled_req_ids = {}, vs_finished_req_ids = {}, vs_cached_reqs_data = [],
            vs_max_num_encoder_input_tokens = encoder_compute_budget,
            vs_encoder_cache_manager = EncoderCacheManager_init encoder_cache_size\<rparr>)))"

abbreviation vs_obj :: "V1Scheduler \<Rightarrow> req_ref \<Rightarrow> Request" where
  "vs_obj s r \<equiv> vs_objects s ! r"

abbreviation vs_id :: "V1Scheduler \<Rightarrow> req_ref \<Rightarrow> string" where
  "vs_id s r \<equiv> rq_request_id (vs_obj s r)"

definition vs_put :: "req_ref \<Rightarrow> (Request \<Rightarrow> Request) \<Rightarrow> V1Scheduler \<Rightarrow> V1Scheduler" where
  "vs_put r f s = s\<lparr>vs_objects := (vs_objects s)[r := f (vs_obj s r)]\<rparr>"

section \<open>Events\<close>

definition record_event :: "EngineCoreEventType \<Rightarrow> rat \<Rightarrow> req_ref \<Rightarrow> V1Scheduler \<Rightarrow> V1Scheduler" where
  "record_event e timestamp r s =
     (if \<not> vs_log_stats s then s else vs_put r (\<lambda>q. q\<lparr>rq_events := rq_events q @ [(e, timestamp)]\<rparr>) s)"

definition Scheduler_request_queued :: "rat \<Rightarrow> req_ref \<Rightarrow> V1Scheduler \<Rightarrow> V1Scheduler" where
  "Scheduler_request_queued = record_event EV_QUEUED"

definition Scheduler_request_scheduled :: "rat \<Rightarrow> req_ref \<Rightarrow> V1Scheduler \<Rightarrow> V1Scheduler" where
  "Scheduler_request_scheduled = record_event EV_SCHEDULED"

definition Scheduler_request_preempted :: "rat \<Rightarrow> req_ref \<Rightarrow> V1Scheduler \<Rightarrow> V1Scheduler" where
  "Scheduler_request_preempted = record_event EV_PREEMPTED"

section \<open>The local state of a scheduling step\<close>

record schedule_vars =
  sv_req_index :: nat
  sv_new_reqs :: "req_ref list"
  sv_resumed_reqs :: "req_ref list"
  sv_running_reqs :: "req_ref list"
  sv_preempted_reqs :: "req_ref list"
  sv_structured_output :: "(string, nat) dict"
  sv_new_block_ids :: "(string, nat list) dict"
  sv_num_scheduled :: "(string, int) dict"
  sv_token_budget :: int
  sv_encoder_inputs :: "(string, nat list) dict"
  sv_encoder_budget :: int
  sv_spec_tokens :: "(string, int list) dict"

definition schedule_vars_init :: "V1Scheduler \<Rightarrow> schedule_vars" where
  "schedule_vars_init s = \<lparr>sv_req_index = 0, sv_new_reqs = [], sv_resumed_reqs = [], sv_running_reqs = [], sv_preempted_reqs = [],
     sv_structured_output = [], sv_new_block_ids = [], sv_num_scheduled = [], sv_token_budget = vs_max_num_scheduled_tokens s,
     sv_encoder_inputs = [], sv_encoder_budget = vs_max_num_encoder_input_tokens s, sv_spec_tokens = []\<rparr>"

definition block_ids_of :: "V1Scheduler \<Rightarrow> kv_ref list \<Rightarrow> nat list" where
  "block_ids_of s bs = map (\<lambda>b. kb_block_id (vp_blocks (km_block_pool (vs_kv_cache_manager s)) ! b)) bs"

text \<open>What both halves record for a scheduled request, and the encoder inputs they allocate.\<close>

definition note_scheduled :: "string \<Rightarrow> bool \<Rightarrow> nat list \<Rightarrow> int \<Rightarrow> schedule_vars \<Rightarrow> schedule_vars" where
  "note_scheduled req_id structured block_ids num_new_tokens v =
     v\<lparr>sv_structured_output := (if structured then dict_set req_id (sv_req_index v) (sv_structured_output v) else sv_structured_output v),
       sv_new_block_ids := dict_set req_id block_ids (sv_new_block_ids v),
       sv_num_scheduled := dict_set req_id num_new_tokens (sv_num_scheduled v),
       sv_token_budget := sv_token_budget v - num_new_tokens, sv_req_index := Suc (sv_req_index v)\<rparr>"

definition schedule_encoder :: "req_ref \<Rightarrow> nat list \<Rightarrow> int \<Rightarrow> V1Scheduler \<times> schedule_vars \<Rightarrow> (V1Scheduler \<times> schedule_vars) result" where
  "schedule_encoder r inputs new_encoder_budget sv =
     (let (s, v) = sv in
      if inputs = [] then Inr (s, v)
      else res_bind (allocate_encoder_inputs (vs_encoder_cache_manager s) (vs_obj s r) inputs) (\<lambda>e.
           Inr (s\<lparr>vs_encoder_cache_manager := e\<rparr>,
                v\<lparr>sv_encoder_inputs := dict_set (vs_id s r) inputs (sv_encoder_inputs v), sv_encoder_budget := new_encoder_budget\<rparr>)))"

section \<open>The running requests\<close>

text \<open>The last running request loses its blocks and goes to the head of the waiting queue.\<close>

definition preempt_last :: "rat \<Rightarrow> V1Scheduler \<Rightarrow> V1Scheduler result" where
  "preempt_last now s =
     (if vs_running s = [] then Inl IndexError
      else let r = last (vs_running s); s1 = s\<lparr>vs_running := butlast (vs_running s)\<rparr>
           in res_bind (KVCacheManager_free (vs_kv_cache_manager s1) (vs_obj s1 r)) (\<lambda>m.
                let s2 = vs_put r (\<lambda>q. q\<lparr>rq_status := PREEMPTED, rq_num_computed_tokens := 0\<rparr>) (s1\<lparr>vs_kv_cache_manager := m\<rparr>);
                    s3 = Scheduler_request_preempted now r s2
                in Inr (s3\<lparr>vs_waiting := r # vs_waiting s3\<rparr>)))"

text \<open>Allocating slots, preempting until it succeeds or the request itself is preempted.\<close>

lemma preempt_last_shorter: "preempt_last now s = Inr s' \<Longrightarrow> length (vs_running s') < length (vs_running s)"
  by (auto simp: preempt_last_def Let_def res_bind_def vs_put_def Scheduler_request_preempted_def record_event_def split: if_splits sum.splits)

function allocate_or_preempt :: "kv_hasher \<Rightarrow> rat \<Rightarrow> req_ref \<Rightarrow> int \<Rightarrow> V1Scheduler \<Rightarrow> req_ref list \<Rightarrow>
    (kv_ref list option \<times> V1Scheduler \<times> req_ref list) result" where
  "allocate_or_preempt H now r num_new_tokens s preempted =
     (case KVCacheManager_allocate_slots H (vs_kv_cache_manager s) (vs_obj s r) num_new_tokens [] of
        Inl e \<Rightarrow> Inl e
      | Inr (Some new_blocks, m) \<Rightarrow> Inr (Some new_blocks, s\<lparr>vs_kv_cache_manager := m\<rparr>, preempted)
      | Inr (None, m) \<Rightarrow>
          (case preempt_last now (s\<lparr>vs_kv_cache_manager := m\<rparr>) of
             Inl e \<Rightarrow> Inl e
           | Inr s' \<Rightarrow>
               if last (vs_running s) = r then Inr (None, s', preempted @ [last (vs_running s)])
               else allocate_or_preempt H now r num_new_tokens s' (preempted @ [last (vs_running s)])))"
  by pat_completeness auto
termination
  by (relation "measure (\<lambda>(_, _, _, _, s, _). length (vs_running s))") (auto dest: preempt_last_shorter)

declare allocate_or_preempt.simps [simp del]

definition trim_spec_tokens :: "req_ref \<Rightarrow> int \<Rightarrow> V1Scheduler \<times> schedule_vars \<Rightarrow> V1Scheduler \<times> schedule_vars" where
  "trim_spec_tokens r num_new_tokens sv =
     (let (s, v) = sv; q = vs_obj s r;
          num_spec = num_new_tokens + rq_num_computed_tokens q - int (Request_num_tokens q)
      in if rq_spec_token_ids q \<noteq> [] \<and> num_spec > 0
         then (let spec = take (nat num_spec) (rq_spec_token_ids q)
               in (vs_put r (\<lambda>q. q\<lparr>rq_spec_token_ids := spec\<rparr>) s, v\<lparr>sv_spec_tokens := dict_set (rq_request_id q) spec (sv_spec_tokens v)\<rparr>))
         else (s, v))"

text \<open>One round of the loop; the flag says whether the loop goes on.\<close>

definition schedule_running_step :: "kv_hasher \<Rightarrow> rat \<Rightarrow> V1Scheduler \<times> schedule_vars \<Rightarrow> (bool \<times> V1Scheduler \<times> schedule_vars) result" where
  "schedule_running_step H now sv =
     (let (s, v) = sv; r = vs_running s ! sv_req_index v; q = vs_obj s r; skip = v\<lparr>sv_req_index := Suc (sv_req_index v)\<rparr>
      in if rq_request_id q \<in> vs_scheduled_req_ids s then Inr (True, s, skip)
         else let num0 = min (int (Request_num_tokens_with_spec q) - rq_num_computed_tokens q) (sv_token_budget v)
              in res_bind (py_assert (num0 > 0)) (\<lambda>_.
                 res_bind (try_schedule_encoder_inputs (vs_encoder_cache_manager s) q (rq_num_computed_tokens q) num0 (sv_encoder_budget v))
                   (\<lambda>(inputs, num_new_tokens, new_encoder_budget).
                 if num_new_tokens = 0 then Inr (True, s, skip)
                 else res_bind (allocate_or_preempt H now r num_new_tokens s (sv_preempted_reqs v)) (\<lambda>(blocks, s1, preempted).
                   let v1 = v\<lparr>sv_preempted_reqs := preempted\<rparr>
                   in case blocks of None \<Rightarrow> Inr (False, s1, v1)
                      | Some new_blocks \<Rightarrow>
                          let q1 = vs_obj s1 r;
                              s2 = s1\<lparr>vs_scheduled_req_ids := insert (rq_request_id q1) (vs_scheduled_req_ids s1)\<rparr>;
                              v2 = note_scheduled (rq_request_id q1) (Request_use_structured_output q1) (block_ids_of s2 new_blocks)
                                     num_new_tokens (v1\<lparr>sv_running_reqs := sv_running_reqs v1 @ [r]\<rparr>)
                          in res_bind (schedule_encoder r inputs new_encoder_budget (trim_spec_tokens r num_new_tokens (s2, v2))) (\<lambda>sv'.
                               Inr (True, sv'))))))"

text \<open>The loop; every round but the last raises the index, so the number of running requests is enough fuel.\<close>

fun schedule_running :: "kv_hasher \<Rightarrow> rat \<Rightarrow> nat \<Rightarrow> V1Scheduler \<times> schedule_vars \<Rightarrow> (V1Scheduler \<times> schedule_vars) result" where
  "schedule_running H now fuel (s, v) =
     (if \<not> (sv_req_index v < length (vs_running s) \<and> sv_token_budget v > 0) then Inr (s, v)
      else case fuel of 0 \<Rightarrow> Inl Diverges
           | Suc fuel' \<Rightarrow> res_bind (schedule_running_step H now (s, v)) (\<lambda>(continue, sv').
               if continue then schedule_running H now fuel' sv' else Inr sv'))"

declare schedule_running.simps [simp del]

section \<open>The waiting requests\<close>

text \<open>What a round of the second loop does: it ends the loop, sets a request aside, or goes on.\<close>

datatype waiting_step = StopWaiting | SkipForGrammar req_ref | AdmittedRequest

text \<open>The tokens of a waiting request: when all are cached, the last block is computed again.\<close>

definition waiting_tokens :: "V1Scheduler \<Rightarrow> Request \<Rightarrow> kv_ref list \<Rightarrow> int \<Rightarrow> (kv_ref list \<times> int \<times> int) result" where
  "waiting_tokens s q computed_blocks num_computed_tokens =
     (let num_new_tokens = int (Request_num_tokens q) - num_computed_tokens
      in if num_new_tokens = 0
         then (if computed_blocks = [] then Inl IndexError
               else Inr (butlast computed_blocks, num_computed_tokens - int (vs_block_size s), int (vs_block_size s)))
         else Inr (computed_blocks, num_computed_tokens, num_new_tokens))"

definition lora_blocked :: "V1Scheduler \<Rightarrow> int set \<Rightarrow> Request \<Rightarrow> bool" where
  "lora_blocked s requested_loras q \<longleftrightarrow>
     (case (vs_max_loras s, rq_lora_request q) of
        (Some max_loras, Some lora_id) \<Rightarrow> int (card requested_loras) = max_loras \<and> lora_id \<notin> requested_loras
      | _ \<Rightarrow> False)"

text \<open>Entering an admitted request into the running queue and the records of the step.\<close>

definition admit_request :: "rat \<Rightarrow> req_ref \<Rightarrow> kv_ref list \<Rightarrow> int \<Rightarrow> int \<Rightarrow> nat list \<Rightarrow> int \<Rightarrow> V1Scheduler \<Rightarrow> schedule_vars \<Rightarrow>
    (V1Scheduler \<times> schedule_vars) result" where
  "admit_request now r blocks num_computed_tokens num_new_tokens inputs new_encoder_budget s v =
     (let q = vs_obj s r;
          s1 = s\<lparr>vs_waiting := tl (vs_waiting s), vs_running := vs_running s @ [r],
                 vs_scheduled_req_ids := insert (rq_request_id q) (vs_scheduled_req_ids s)\<rparr>;
          s2 = Scheduler_request_scheduled now r s1
      in res_bind (if rq_status q = WAITING then Inr (v\<lparr>sv_new_reqs := sv_new_reqs v @ [r]\<rparr>)
                   else if rq_status q = PREEMPTED then Inr (v\<lparr>sv_resumed_reqs := sv_resumed_reqs v @ [r]\<rparr>)
                   else Inl RuntimeError) (\<lambda>v1.
           let v2 = note_scheduled (rq_request_id q) (Request_use_structured_output q) (block_ids_of s2 blocks) num_new_tokens v1;
               s3 = vs_put r (\<lambda>q. q\<lparr>rq_status := RUNNING, rq_num_computed_tokens := num_computed_tokens\<rparr>) s2
           in schedule_encoder r inputs new_encoder_budget (s3, v2)))"

definition grammar_step :: "req_ref \<Rightarrow> V1Scheduler \<Rightarrow> V1Scheduler option" where
  "grammar_step r s =
     (if rq_status (vs_obj s r) = WAITING_FOR_FSM
      then (if rq_grammar (vs_obj s r) then Some (vs_put r (\<lambda>q. q\<lparr>rq_status := WAITING\<rparr>) s) else None)
      else Some s)"

definition schedule_waiting_step :: "kv_hasher \<Rightarrow> rat \<Rightarrow> int set \<Rightarrow> V1Scheduler \<times> schedule_vars \<Rightarrow>
    (waiting_step \<times> int set \<times> V1Scheduler \<times> schedule_vars) result" where
  "schedule_waiting_step H now requested_loras sv =
     (let (s0, v) = sv; r = hd (vs_waiting s0)
      in case grammar_step r s0 of
           None \<Rightarrow> Inr (SkipForGrammar r, requested_loras, s0\<lparr>vs_waiting := tl (vs_waiting s0)\<rparr>, v)
         | Some s \<Rightarrow>
             let q = vs_obj s r in
             if lora_blocked s requested_loras q then Inr (StopWaiting, requested_loras, s, v)
             else res_bind (KVCacheManager_get_computed_blocks H (vs_kv_cache_manager s) q) (\<lambda>((computed0, num_computed0), m).
                  let s1 = s\<lparr>vs_kv_cache_manager := m\<rparr> in
                  res_bind (waiting_tokens s1 q computed0 (int num_computed0)) (\<lambda>(computed_blocks, num_computed_tokens, num1).
                  let num0 = min num1 (sv_token_budget v) in
                  res_bind (py_assert (num0 > 0)) (\<lambda>_.
                  res_bind (try_schedule_encoder_inputs (vs_encoder_cache_manager s1) q num_computed_tokens num0 (sv_encoder_budget v))
                    (\<lambda>(inputs, num_new_tokens, new_encoder_budget).
                  if num_new_tokens = 0 then Inr (StopWaiting, requested_loras, s1, v)
                  else res_bind (KVCacheManager_allocate_slots H m q num_new_tokens computed_blocks) (\<lambda>(blocks, m1).
                       let s2 = s1\<lparr>vs_kv_cache_manager := m1\<rparr>
                       in case blocks of None \<Rightarrow> Inr (StopWaiting, requested_loras, s2, v)
                          | Some new_blocks \<Rightarrow>
                              res_bind (admit_request now r (computed_blocks @ new_blocks) num_computed_tokens num_new_tokens inputs
                                new_encoder_budget s2 v) (\<lambda>sv'.
                                Inr (AdmittedRequest,
                                  (case (vs_max_loras s2, rq_lora_request q) of (Some _, Some i) \<Rightarrow> insert i requested_loras | _ \<Rightarrow> requested_loras),
                                  sv'))))))))"

text \<open>
  The loop, with the requests set aside so far; every round that does not end it shortens the
  waiting queue, so its length is enough fuel.
\<close>

fun schedule_waiting :: "kv_hasher \<Rightarrow> rat \<Rightarrow> nat \<Rightarrow> int set \<Rightarrow> req_ref list \<Rightarrow> V1Scheduler \<times> schedule_vars \<Rightarrow>
    (req_ref list \<times> V1Scheduler \<times> schedule_vars) result" where
  "schedule_waiting H now fuel requested_loras skipped (s, v) =
     (if \<not> (vs_waiting s \<noteq> [] \<and> sv_token_budget v > 0) \<or> length (vs_running s) = vs_max_num_running_reqs s then Inr (skipped, s, v)
      else case fuel of 0 \<Rightarrow> Inl Diverges
           | Suc fuel' \<Rightarrow> res_bind (schedule_waiting_step H now requested_loras (s, v)) (\<lambda>(outcome, loras, sv').
               case outcome of StopWaiting \<Rightarrow> Inr (skipped, sv')
               | SkipForGrammar r \<Rightarrow> schedule_waiting H now fuel' loras (r # skipped) sv'
               | AdmittedRequest \<Rightarrow> schedule_waiting H now fuel' loras skipped sv'))"

declare schedule_waiting.simps [simp del]

section \<open>A scheduling step\<close>

definition scheduled_loras :: "V1Scheduler \<Rightarrow> req_ref list \<Rightarrow> int set result" where
  "scheduled_loras s rs =
     (case vs_max_loras s of None \<Rightarrow> Inr {}
      | Some max_loras \<Rightarrow>
          let loras = set (filter (\<lambda>i. i > 0) (List.map_filter (\<lambda>r. rq_lora_request (vs_obj s r)) rs))
          in res_bind (py_assert (int (card loras) \<le> max_loras)) (\<lambda>_. Inr loras))"

definition Scheduler_make_cached_request_data :: "req_ref \<Rightarrow> int \<Rightarrow> nat \<Rightarrow> nat list \<Rightarrow> bool \<Rightarrow> V1Scheduler \<Rightarrow> CachedRequestData \<times> V1Scheduler" where
  "Scheduler_make_cached_request_data r num_scheduled num_spec new_block_ids resumed s =
     (let q = vs_obj s r; num_computed_tokens = rq_num_computed_tokens q;
          new_token_ids = py_slice (rq_all_token_ids q) num_computed_tokens (num_computed_tokens + (num_scheduled - int num_spec));
          data = (case dict_get (vs_cached_reqs_data s) (rq_request_id q) of
                    Some d \<Rightarrow> d\<lparr>cd_resumed_from_preemption := resumed, cd_new_token_ids := new_token_ids,
                               cd_new_block_ids := new_block_ids, cd_num_computed_tokens := num_computed_tokens\<rparr>
                  | None \<Rightarrow> CachedRequestData_from_request q resumed new_token_ids new_block_ids)
      in (data, s\<lparr>vs_cached_reqs_data := dict_set (rq_request_id q) data (vs_cached_reqs_data s)\<rparr>))"

primrec make_cached_data :: "schedule_vars \<Rightarrow> bool \<Rightarrow> req_ref list \<Rightarrow> V1Scheduler \<Rightarrow> (CachedRequestData list \<times> V1Scheduler) result" where
  "make_cached_data v resumed [] s = Inr ([], s)"
| "make_cached_data v resumed (r # rs) s =
     (let i = vs_id s r in
      res_bind (dict_item (sv_num_scheduled v) i) (\<lambda>n.
      res_bind (dict_item (sv_new_block_ids v) i) (\<lambda>ids.
        let (d, s1) = Scheduler_make_cached_request_data r n (length (dict_get_default (sv_spec_tokens v) i [])) ids resumed s
        in res_bind (make_cached_data v resumed rs s1) (\<lambda>(ds, s2). Inr (d # ds, s2)))))"

text \<open>The checks after the loops and the output of the step.\<close>

definition schedule_checks :: "V1Scheduler \<Rightarrow> schedule_vars \<Rightarrow> unit result" where
  "schedule_checks s v =
     res_bind (py_assert (sum_list (dict_values (sv_num_scheduled v)) \<le> vs_max_num_scheduled_tokens s)) (\<lambda>_.
     res_bind (py_assert (sv_token_budget v \<ge> 0)) (\<lambda>_.
     res_bind (py_assert (length (vs_running s) \<le> vs_max_num_running_reqs s)) (\<lambda>_.
       py_assert (length (sv_new_reqs v) + length (sv_resumed_reqs v) + length (sv_running_reqs v) \<le> length (vs_running s)))))"

definition schedule_output :: "V1Scheduler \<times> schedule_vars \<Rightarrow> (SchedulerOutput \<times> V1Scheduler) result" where
  "schedule_output sv =
     (let (s, v) = sv in
      res_bind (case vs_running s of [] \<Rightarrow> Inr (0, vs_kv_cache_manager s)
                | r # _ \<Rightarrow> KVCacheManager_get_num_common_prefix_blocks (vs_kv_cache_manager s) (vs_obj s r) (int (length (vs_running s))))
        (\<lambda>(num_common, m).
      let s1 = s\<lparr>vs_kv_cache_manager := m\<rparr> in
      res_bind (res_map (\<lambda>r. res_bind (dict_item (sv_new_block_ids v) (vs_id s1 r)) (\<lambda>ids. Inr (NewRequestData_from_request (vs_obj s1 r) ids)))
        (sv_new_reqs v)) (\<lambda>new_reqs.
      res_bind (make_cached_data v True (sv_resumed_reqs v) s1) (\<lambda>(resumed, s2).
      res_bind (make_cached_data v False (sv_running_reqs v) s2) (\<lambda>(running, s3).
        let (freed, e) = EncoderCacheManager_get_freed_ids (vs_encoder_cache_manager s3)
        in Inr (\<lparr>so_scheduled_new_reqs = new_reqs, so_scheduled_cached_reqs = resumed @ running,
                 so_num_scheduled_tokens = sv_num_scheduled v, so_total_num_scheduled_tokens = sum_list (dict_values (sv_num_scheduled v)),
                 so_scheduled_spec_decode_tokens = sv_spec_tokens v, so_scheduled_encoder_inputs = sv_encoder_inputs v,
                 so_num_common_prefix_blocks = num_common, so_finished_req_ids = vs_finished_req_ids s3,
                 so_free_encoder_input_ids = freed, so_structured_output_request_ids = sv_structured_output v\<rparr>,
               s3\<lparr>vs_encoder_cache_manager := e, vs_finished_req_ids := {}\<rparr>))))))"

definition Scheduler_schedule :: "kv_hasher \<Rightarrow> rat \<Rightarrow> V1Scheduler \<Rightarrow> (SchedulerOutput \<times> V1Scheduler) result" where
  "Scheduler_schedule H now s =
     res_bind (schedule_running H now (length (vs_running s)) (s, schedule_vars_init s)) (\<lambda>(s1, v1).
     res_bind (scheduled_loras s1 (sv_running_reqs v1)) (\<lambda>loras.
     res_bind (if sv_preempted_reqs v1 = [] then schedule_waiting H now (length (vs_waiting s1)) loras [] (s1, v1) else Inr ([], s1, v1))
       (\<lambda>(skipped, s2, v2).
     let s3 = s2\<lparr>vs_waiting := rev skipped @ vs_waiting s2\<rparr>
     in res_bind (schedule_checks s3 v2) (\<lambda>_. schedule_output (s3, v2)))))"

end
