(* ===== verification/V1_Update.thy ===== *)
theory V1_Update
  imports V1_Scheduler
begin

text \<open>
  The other half of the v1 scheduler (v1/core/scheduler.py): taking the tokens the model runner
  sampled, finishing requests, adding and aborting them, the statistics; and the steps of the
  engine core (v1/engine/core.py) that alternate scheduling and execution.

  The tensors of log probabilities are opaque rows. Iterating a Python set is done in the order
  the arguments \<open>order\<close> (input ids) and \<open>id_order\<close> (request ids) give.
\<close>

section \<open>Results\<close>

record logprob_row =
  lp_token_ids :: "int list"
  lp_logprobs :: "rat list"
  lp_rank :: int

record ModelRunnerOutput =
  mo_req_id_to_index :: "(string, nat) dict"
  mo_sampled_token_ids :: "int list list"
  mo_spec_token_ids :: "int list list option"
  mo_logprobs :: "logprob_row list option"
  mo_prompt_logprobs :: "string set"

record EngineCoreOutput =
  eo_request_id :: string
  eo_new_token_ids :: "int list"
  eo_finish_reason :: "FinishReason option"
  eo_new_logprobs :: "logprob_row list option"
  eo_has_prompt_logprobs :: bool
  eo_stop_reason :: "int option"
  eo_events :: "(EngineCoreEventType \<times> rat) list option"

record SchedulerStats =
  st_num_running_reqs :: nat
  st_num_waiting_reqs :: nat
  st_gpu_cache_usage :: rat
  st_prefix_cache_stats :: PrefixCacheStats

record EngineCoreOutputs =
  os_outputs :: "EngineCoreOutput list"
  os_scheduler_stats :: "SchedulerStats option"

text \<open>\<open>os_accepted\<close> is not a field of the code: the tokens handed to the grammars of the requests.\<close>

record update_result = EngineCoreOutputs +
  os_accepted :: "(string \<times> int list) list"

definition Scheduler_make_stats :: "V1Scheduler \<Rightarrow> (SchedulerStats option \<times> V1Scheduler) result" where
  "Scheduler_make_stats s =
     (if \<not> vs_log_stats s then Inr (None, s)
      else res_bind (KVCacheManager_usage (vs_kv_cache_manager s)) (\<lambda>u.
        let (ps, m) = KVCacheManager_make_prefix_cache_stats (vs_kv_cache_manager s)
        in Inr (Some \<lparr>st_num_running_reqs = length (vs_running s), st_num_waiting_reqs = length (vs_waiting s),
                      st_gpu_cache_usage = u, st_prefix_cache_stats = ps\<rparr>, s\<lparr>vs_kv_cache_manager := m\<rparr>)))"

section \<open>Finishing a request\<close>

definition Scheduler_check_stop :: "V1Scheduler \<Rightarrow> Request \<Rightarrow> (bool \<times> Request) result" where
  "Scheduler_check_stop s q =
     (if Request_num_tokens q \<ge> vs_max_model_len s \<or> int (Request_num_output_tokens q) \<ge> rq_max_tokens q
      then Inr (True, q\<lparr>rq_status := FINISHED_LENGTH_CAPPED\<rparr>)
      else res_bind (py_getitem (rq_output_token_ids q) (- 1)) (\<lambda>last_token_id.
        if \<not> sp_ignore_eos (rq_sampling_params q) \<and> Some last_token_id = rq_eos_token_id q
        then Inr (True, q\<lparr>rq_status := FINISHED_STOPPED\<rparr>)
        else if last_token_id \<in> set (sp_stop_token_ids (rq_sampling_params q))
        then Inr (True, q\<lparr>rq_status := FINISHED_STOPPED, rq_stop_reason := Some last_token_id\<rparr>)
        else Inr (False, q)))"

definition Scheduler_free_request :: "(nat set \<Rightarrow> nat list) \<Rightarrow> req_ref \<Rightarrow> V1Scheduler \<Rightarrow> V1Scheduler result" where
  "Scheduler_free_request order r s =
     (let q = vs_obj s r in
      res_bind (py_assert (Request_is_finished q)) (\<lambda>_.
      res_bind (KVCacheManager_free (vs_kv_cache_manager s) q) (\<lambda>m.
      let m1 = KVCacheManager_free_block_hashes m q in
      res_bind (EncoderCacheManager_free order (vs_encoder_cache_manager s) q) (\<lambda>e.
        if \<not> dict_has (vs_requests s) (rq_request_id q) then Inl KeyError
        else Inr (s\<lparr>vs_kv_cache_manager := m1, vs_encoder_cache_manager := e,
                    vs_cached_reqs_data := dict_pop (rq_request_id q) (vs_cached_reqs_data s),
                    vs_requests := dict_pop (rq_request_id q) (vs_requests s),
                    vs_finished_req_ids := insert (rq_request_id q) (vs_finished_req_ids s)\<rparr>)))))"

section \<open>The output of the model runner\<close>

text \<open>Appending the sampled tokens one by one until one of them stops the request.\<close>

fun take_sampled :: "(nat set \<Rightarrow> nat list) \<Rightarrow> req_ref \<Rightarrow> int list \<Rightarrow> V1Scheduler \<Rightarrow> (int list \<times> bool \<times> V1Scheduler) result" where
  "take_sampled order r [] s = Inr ([], False, s)"
| "take_sampled order r (t # ts) s =
     (let s1 = vs_put r (\<lambda>q. Request_append_output_token_ids q [t]) s in
      res_bind (Scheduler_check_stop s1 (vs_obj s1 r)) (\<lambda>(stopped, q).
        let s2 = vs_put r (\<lambda>_. q) s1
        in if stopped then res_bind (Scheduler_free_request order r s2) (\<lambda>s3. Inr ([t], True, s3))
           else res_bind (take_sampled order r ts s2) (\<lambda>(toks, st, s3). Inr (t # toks, st, s3))))"

text \<open>The computed tokens: the tokens scheduled, less the speculative ones that were rejected.\<close>

definition advance_computed :: "SchedulerOutput \<Rightarrow> int \<Rightarrow> int list \<Rightarrow> Request \<Rightarrow> Request result" where
  "advance_computed out num_tokens_scheduled generated q =
     (case dict_get (so_scheduled_spec_decode_tokens out) (rq_request_id q) of
        None \<Rightarrow> let q1 = q\<lparr>rq_num_computed_tokens := rq_num_computed_tokens q + num_tokens_scheduled\<rparr>
                in res_bind (py_assert (rq_num_computed_tokens q1 \<le> int (Request_num_tokens q1))) (\<lambda>_. Inr q1)
      | Some spec \<Rightarrow> Inr (q\<lparr>rq_num_computed_tokens := rq_num_computed_tokens q +
             (num_tokens_scheduled - (int (length spec) + 1 - int (length generated)))\<rparr>))"

text \<open>The encoder outputs the decoder has passed are freed.\<close>

definition free_passed_inputs :: "(nat set \<Rightarrow> nat list) \<Rightarrow> Request \<Rightarrow> EncoderCacheManager \<Rightarrow> EncoderCacheManager result" where
  "free_passed_inputs order q e =
     res_fold (\<lambda>i e. res_bind (py_getitem (rq_mm_positions q) (int i)) (\<lambda>pos.
         if mp_offset pos + mp_length pos \<le> rq_num_computed_tokens q then EncoderCacheManager_free_encoder_input e q i else Inr e))
       (let ids = EncoderCacheManager_get_cached_input_ids e q in if ids = {} then [] else order ids) e"

definition request_output :: "ModelRunnerOutput \<Rightarrow> nat \<Rightarrow> req_ref \<Rightarrow> int list \<Rightarrow> logprob_row list option \<Rightarrow> V1Scheduler \<Rightarrow> EngineCoreOutput list \<times> V1Scheduler" where
  "request_output out req_index r new_token_ids new_logprobs s =
     (let q = vs_obj s r; prompt_logprobs = rq_request_id q \<in> mo_prompt_logprobs out
      in if new_token_ids \<noteq> [] \<or> prompt_logprobs
         then (let (events, q1) = Request_take_events q
               in ([\<lparr>eo_request_id = rq_request_id q, eo_new_token_ids = new_token_ids,
                     eo_finish_reason = Request_get_finished_reason q, eo_new_logprobs = new_logprobs,
                     eo_has_prompt_logprobs = prompt_logprobs, eo_stop_reason = rq_stop_reason q, eo_events = events\<rparr>],
                   vs_put r (\<lambda>_. q1) s))
         else ([], s))"

definition sampled_logprobs :: "ModelRunnerOutput \<Rightarrow> nat \<Rightarrow> Request \<Rightarrow> logprob_row list option result" where
  "sampled_logprobs out req_index q =
     (if sp_logprobs (rq_sampling_params q) = None then Inr None
      else case mo_logprobs out of None \<Rightarrow> Inl AssertionError
           | Some rows \<Rightarrow> Inr (Some (py_slice rows (int req_index) (int req_index + 1))))"

text \<open>One scheduled request: its outputs, the tokens its grammar accepts, and whether it stopped.\<close>

definition update_request :: "(nat set \<Rightarrow> nat list) \<Rightarrow> SchedulerOutput \<Rightarrow> ModelRunnerOutput \<Rightarrow> int \<Rightarrow> req_ref \<Rightarrow> V1Scheduler \<Rightarrow>
    (EngineCoreOutput list \<times> (string \<times> int list) list \<times> bool \<times> V1Scheduler) result" where
  "update_request order sched out num_tokens_scheduled r s =
     res_bind (dict_item (mo_req_id_to_index out) (vs_id s r)) (\<lambda>req_index.
     res_bind (py_getitem (mo_sampled_token_ids out) (int req_index)) (\<lambda>generated.
     res_bind (advance_computed sched num_tokens_scheduled generated (vs_obj s r)) (\<lambda>q.
     res_bind (free_passed_inputs order q (vs_encoder_cache_manager s)) (\<lambda>e.
     res_bind (case mo_spec_token_ids out of None \<Rightarrow> Inr q
               | Some specs \<Rightarrow> res_bind (py_getitem specs (int req_index)) (\<lambda>spec. Inr (q\<lparr>rq_spec_token_ids := spec\<rparr>))) (\<lambda>q1.
     let s1 = (vs_put r (\<lambda>_. q1) s)\<lparr>vs_encoder_cache_manager := e\<rparr> in
     res_bind (if rq_num_computed_tokens q1 \<ge> int (Request_num_tokens q1)
               then res_bind (take_sampled order r generated s1) (\<lambda>(toks, stopped, s2).
                    res_bind (sampled_logprobs out req_index (vs_obj s2 r)) (\<lambda>lps. Inr (toks, stopped, lps, s2)))
               else Inr ([], False, None, s1)) (\<lambda>(new_token_ids, stopped, new_logprobs, s2).
     let accepted = (if new_token_ids \<noteq> [] \<and> Request_use_structured_output (vs_obj s2 r) then [(vs_id s2 r, new_token_ids)] else []);
         (outputs, s3) = request_output out req_index r new_token_ids new_logprobs s2
     in if vs_id s3 r \<notin> vs_scheduled_req_ids s3 then Inl KeyError
        else Inr (outputs, accepted, stopped, s3\<lparr>vs_scheduled_req_ids := vs_scheduled_req_ids s3 - {vs_id s3 r}\<rparr>)))))))"

text \<open>The loop over the running requests; the first component collects those that keep running.\<close>

fun update_requests :: "(nat set \<Rightarrow> nat list) \<Rightarrow> SchedulerOutput \<Rightarrow> ModelRunnerOutput \<Rightarrow> req_ref list \<Rightarrow> V1Scheduler \<Rightarrow>
    (req_ref list \<times> EngineCoreOutput list \<times> (string \<times> int list) list \<times> V1Scheduler) result" where
  "update_requests order sched out [] s = Inr ([], [], [], s)"
| "update_requests order sched out (r # rs) s =
     (let n = dict_get_default (so_num_scheduled_tokens sched) (vs_id s r) 0 in
      if n = 0
      then res_bind (update_requests order sched out rs s) (\<lambda>(keep, outs, accepted, s1). Inr (r # keep, outs, accepted, s1))
      else res_bind (update_request order sched out n r s) (\<lambda>(outs1, accepted1, stopped, s1).
           res_bind (update_requests order sched out rs s1) (\<lambda>(keep, outs, accepted, s2).
             Inr (if stopped then keep else r # keep, outs1 @ outs, accepted1 @ accepted, s2))))"

definition Scheduler_update_from_output :: "(nat set \<Rightarrow> nat list) \<Rightarrow> SchedulerOutput \<Rightarrow> ModelRunnerOutput \<Rightarrow> V1Scheduler \<Rightarrow>
    (update_result \<times> V1Scheduler) result" where
  "Scheduler_update_from_output order sched out s =
     res_bind (update_requests order sched out (vs_running s) s) (\<lambda>(new_running, outputs, accepted, s1).
     res_bind (Scheduler_make_stats (s1\<lparr>vs_running := new_running\<rparr>)) (\<lambda>(stats, s2).
       Inr (\<lparr>os_outputs = outputs, os_scheduler_stats = stats, os_accepted = accepted\<rparr>, s2)))"

section \<open>Adding and aborting requests\<close>

text \<open>A new request object enters the store.\<close>

definition Scheduler_add_request :: "rat \<Rightarrow> Request \<Rightarrow> V1Scheduler \<Rightarrow> V1Scheduler" where
  "Scheduler_add_request now q s =
     (let r = length (vs_objects s)
      in Scheduler_request_queued now r (s\<lparr>vs_objects := vs_objects s @ [q], vs_waiting := vs_waiting s @ [r],
           vs_requests := dict_set (rq_request_id q) r (vs_requests s)\<rparr>))"

definition finish_request :: "(nat set \<Rightarrow> nat list) \<Rightarrow> RequestStatus \<Rightarrow> string \<Rightarrow> V1Scheduler \<Rightarrow> V1Scheduler result" where
  "finish_request order finished_status req_id s =
     (case dict_get (vs_requests s) req_id of None \<Rightarrow> Inr s
      | Some r \<Rightarrow>
          res_bind (if rq_status (vs_obj s r) = RUNNING
                    then (if r \<notin> set (vs_running s) then Inl ValueError
                          else Inr (s\<lparr>vs_running := remove1 r (vs_running s),
                                      vs_scheduled_req_ids := vs_scheduled_req_ids s - {vs_id s r}\<rparr>))
                    else (if r \<notin> set (vs_waiting s) then Inl ValueError
                          else Inr (s\<lparr>vs_waiting := remove1 r (vs_waiting s)\<rparr>))) (\<lambda>s1.
          Scheduler_free_request order r (vs_put r (\<lambda>q. q\<lparr>rq_status := finished_status\<rparr>) s1)))"

definition Scheduler_finish_requests :: "(string set \<Rightarrow> string list) \<Rightarrow> (nat set \<Rightarrow> nat list) \<Rightarrow> string list \<Rightarrow> RequestStatus \<Rightarrow> V1Scheduler \<Rightarrow> V1Scheduler result" where
  "Scheduler_finish_requests id_order order request_ids finished_status s =
     res_bind (py_assert (RequestStatus_is_finished finished_status)) (\<lambda>_.
       res_fold (finish_request order finished_status) (id_order (set request_ids)) s)"

section \<open>Queries\<close>

definition Scheduler_get_num_unfinished_requests :: "V1Scheduler \<Rightarrow> nat" where
  "Scheduler_get_num_unfinished_requests s = length (vs_waiting s) + length (vs_running s)"

definition Scheduler_has_unfinished_requests :: "V1Scheduler \<Rightarrow> bool" where
  "Scheduler_has_unfinished_requests s \<longleftrightarrow> Scheduler_get_num_unfinished_requests s > 0"

definition Scheduler_has_finished_requests :: "V1Scheduler \<Rightarrow> bool" where
  "Scheduler_has_finished_requests s \<longleftrightarrow> vs_finished_req_ids s \<noteq> {}"

definition Scheduler_has_requests :: "V1Scheduler \<Rightarrow> bool" where
  "Scheduler_has_requests s \<longleftrightarrow> Scheduler_has_unfinished_requests s \<or> Scheduler_has_finished_requests s"

definition Scheduler_get_num_unscheduled_requests :: "V1Scheduler \<Rightarrow> int" where
  "Scheduler_get_num_unscheduled_requests s =
     int (Scheduler_get_num_unfinished_requests s) - int (card (vs_scheduled_req_ids s))"

definition Scheduler_reset_prefix_cache :: "V1Scheduler \<Rightarrow> bool \<times> V1Scheduler" where
  "Scheduler_reset_prefix_cache s =
     (let (ok, m) = KVCacheManager_reset_prefix_cache (vs_kv_cache_manager s) in (ok, s\<lparr>vs_kv_cache_manager := m\<rparr>))"

section \<open>The engine core\<close>

text \<open>
  The executor is an argument: it maps the output of the scheduler to the tokens sampled. Without
  scheduled tokens nothing is executed.
\<close>

definition EngineCore_step :: "kv_hasher \<Rightarrow> (nat set \<Rightarrow> nat list) \<Rightarrow> (SchedulerOutput \<Rightarrow> ModelRunnerOutput) \<Rightarrow> rat \<Rightarrow> V1Scheduler \<Rightarrow>
    (update_result \<times> V1Scheduler) result" where
  "EngineCore_step H order execute_model now s =
     (if \<not> Scheduler_has_requests s
      then res_bind (Scheduler_make_stats s) (\<lambda>(stats, s1). Inr (\<lparr>os_outputs = [], os_scheduler_stats = stats, os_accepted = []\<rparr>, s1))
      else res_bind (Scheduler_schedule H now s) (\<lambda>(sched, s1).
        if so_total_num_scheduled_tokens sched = 0
        then res_bind (Scheduler_make_stats s1) (\<lambda>(stats, s2). Inr (\<lparr>os_outputs = [], os_scheduler_stats = stats, os_accepted = []\<rparr>, s2))
        else Scheduler_update_from_output order sched (execute_model sched) s1))"

text \<open>
  With pipeline parallelism the executed batches wait in a queue of bounded size; a batch is taken
  out when nothing new was scheduled, and an empty queue gives an empty result after a timeout.
\<close>

record EngineCore =
  en_scheduler :: V1Scheduler
  en_batch_queue :: "(ModelRunnerOutput \<times> SchedulerOutput) list"
  en_batch_queue_size :: nat

definition EngineCore_schedule_batch :: "kv_hasher \<Rightarrow> (SchedulerOutput \<Rightarrow> ModelRunnerOutput) \<Rightarrow> rat \<Rightarrow> EngineCore \<Rightarrow> (bool \<times> EngineCore) result" where
  "EngineCore_schedule_batch H execute_model now c =
     (if Scheduler_get_num_unscheduled_requests (en_scheduler c) > 0 \<and> length (en_batch_queue c) < en_batch_queue_size c
      then res_bind (Scheduler_schedule H now (en_scheduler c)) (\<lambda>(sched, s).
        if so_total_num_scheduled_tokens sched > 0
        then Inr (True, c\<lparr>en_scheduler := s, en_batch_queue := en_batch_queue c @ [(execute_model sched, sched)]\<rparr>)
        else Inr (False, c\<lparr>en_scheduler := s\<rparr>))
      else Inr (False, c))"

definition EngineCore_step_with_batch_queue :: "kv_hasher \<Rightarrow> (nat set \<Rightarrow> nat list) \<Rightarrow> (SchedulerOutput \<Rightarrow> ModelRunnerOutput) \<Rightarrow> rat \<Rightarrow> EngineCore \<Rightarrow>
    (update_result option \<times> EngineCore) result" where
  "EngineCore_step_with_batch_queue H order execute_model now c =
     res_bind (EngineCore_schedule_batch H execute_model now c) (\<lambda>(scheduled, c1).
     if scheduled then Inr (None, c1)
     else case en_batch_queue c1 of
       [] \<Rightarrow> res_bind (Scheduler_make_stats (en_scheduler c1)) (\<lambda>(stats, s).
              Inr (Some \<lparr>os_outputs = [], os_scheduler_stats = stats, os_accepted = []\<rparr>, c1\<lparr>en_scheduler := s\<rparr>))
     | (out, sched) # rest \<Rightarrow> res_bind (Scheduler_update_from_output order sched out (en_scheduler c1)) (\<lambda>(res, s).
              Inr (Some res, c1\<lparr>en_scheduler := s, en_batch_queue := rest\<rparr>)))"

end
