(* ===== verification/V1_Slots.thy ===== *)
theory V1_Slots
  imports KV_Manager_Correct
begin

text \<open>
  The KV-cache manager as the scheduler sees it: a running request has slots for its computed
  tokens, a waiting one has none, and every operation on one request leaves the others alone.
\<close>

section \<open>Requests and their slots\<close>

abbreviation km_hash :: "KVCacheManager \<Rightarrow> kv_ref \<Rightarrow> BlockHashType option" where
  "km_hash m \<equiv> vp_hash (km_block_pool m)"

abbreviation km_hashes :: "kv_hasher \<Rightarrow> KVCacheManager \<Rightarrow> Request \<Rightarrow> BlockHashType list" where
  "km_hashes H m q \<equiv> request_hashes H (km_block_size m) q"

definition known_hashes :: "kv_hasher \<Rightarrow> KVCacheManager \<Rightarrow> Request \<Rightarrow> nat \<Rightarrow> bool" where
  "known_hashes H m q n \<longleftrightarrow> (\<exists>k. n \<le> k \<and> k \<le> length (km_hashes H m q) \<and> km_hashes_of m q = take k (km_hashes H m q))"

definition run_slots :: "kv_hasher \<Rightarrow> KVCacheManager \<Rightarrow> Request \<Rightarrow> int \<Rightarrow> bool" where
  "run_slots H m q c \<longleftrightarrow> (let B = km_blocks_of m q; n = nat (c div int (km_block_size m)) in
     0 \<le> c \<and> c \<le> int (length (rq_all_token_ids q)) \<and> dict_get (km_num_cached_block m) (rq_request_id q) = Some (int n) \<and>
     c \<le> int (length B) * int (km_block_size m) \<and> int (length B) \<le> km_max_num_blocks_per_req m \<and>
     (\<forall>i < n. km_hash m (B ! i) = Some (km_hashes H m q ! i)) \<and>
     (\<forall>i. n \<le> i \<longrightarrow> i < length B \<longrightarrow> km_hash m (B ! i) = None) \<and> distinct (drop n B) \<and> known_hashes H m q n)"

definition wait_slots :: "kv_hasher \<Rightarrow> KVCacheManager \<Rightarrow> Request \<Rightarrow> bool" where
  "wait_slots H m q \<longleftrightarrow> km_blocks_of m q = [] \<and> dict_get (km_num_cached_block m) (rq_request_id q) = None \<and> known_hashes H m q 0"

definition kept :: "KVCacheManager \<Rightarrow> KVCacheManager \<Rightarrow> string \<Rightarrow> bool" where
  "kept m m' i \<longleftrightarrow> dict_get_default (km_req_to_blocks m') i [] = dict_get_default (km_req_to_blocks m) i [] \<and>
     (\<forall>b \<in> set (dict_get_default (km_req_to_blocks m) i []). km_hash m' b = km_hash m b) \<and>
     dict_get_default (km_req_to_block_hashes m') i [] = dict_get_default (km_req_to_block_hashes m) i [] \<and>
     dict_get (km_num_cached_block m') i = dict_get (km_num_cached_block m) i"

lemma kept_refl [simp]: "kept m m i"
  by (simp add: kept_def)

lemma kept_trans: "kept a b i \<Longrightarrow> kept b c i \<Longrightarrow> kept a c i"
  by (simp add: kept_def)

lemma same_configD:
  assumes "same_config m m'"
  shows "km_block_size m' = km_block_size m" "km_enable_caching m' = km_enable_caching m"
    "km_max_num_blocks_per_req m' = km_max_num_blocks_per_req m" "km_num_preallocate_blocks m' = km_num_preallocate_blocks m"
    "length (vp_blocks (km_block_pool m')) = length (vp_blocks (km_block_pool m))"
  using assms by (simp_all add: same_config_def)

lemma known_hashes_kept: "same_config m m' \<Longrightarrow> kept m m' (rq_request_id q) \<Longrightarrow> known_hashes H m' q n = known_hashes H m q n"
  by (simp add: known_hashes_def kept_def same_configD)

lemma run_slots_kept:
  assumes "same_config m m'" "kept m m' (rq_request_id q)" "run_slots H m q c"
  shows "run_slots H m' q c"
proof -
  have k: "km_blocks_of m' q = km_blocks_of m q" "\<And>i. i < length (km_blocks_of m q) \<Longrightarrow> km_hash m' (km_blocks_of m q ! i) = km_hash m (km_blocks_of m q ! i)"
    "dict_get (km_num_cached_block m') (rq_request_id q) = dict_get (km_num_cached_block m) (rq_request_id q)"
    using assms(2) by (simp_all add: kept_def)
  let ?n = "nat (c div int (km_block_size m))"
  have "?n \<le> length (km_blocks_of m q)"
  proof (cases "km_block_size m = 0")
    case False
    then show ?thesis using assms(3) unfolding run_slots_def Let_def
      by (metis nat_int nat_mono nonzero_mult_div_cancel_right of_nat_0_eq_iff of_nat_0_le_iff zdiv_mono1 of_nat_0_less_iff gr0I)
  qed simp
  then show ?thesis using assms(3) k known_hashes_kept[OF assms(1,2)] same_configD[OF assms(1)]
    unfolding run_slots_def Let_def by auto
qed

lemma wait_slots_kept: "same_config m m' \<Longrightarrow> kept m m' (rq_request_id q) \<Longrightarrow> wait_slots H m' q = wait_slots H m q"
  unfolding wait_slots_def by (simp add: known_hashes_kept) (simp add: kept_def)

text \<open>Only the identity, the tokens and the adapter of a request matter.\<close>

definition same_text :: "Request \<Rightarrow> Request \<Rightarrow> bool" where
  "same_text q q' \<longleftrightarrow> rq_request_id q' = rq_request_id q \<and> rq_all_token_ids q' = rq_all_token_ids q \<and> rq_lora_request q' = rq_lora_request q"

lemma same_text_hashes: "same_text q q' \<Longrightarrow> request_hashes H bs q' = request_hashes H bs q"
  by (simp add: same_text_def request_hashes_def text_keys_def)

lemma slots_same_text:
  assumes "same_text q q'"
  shows "run_slots H m q' c = run_slots H m q c" "wait_slots H m q' = wait_slots H m q"
  using assms same_text_hashes[OF assms]
  by (simp_all add: run_slots_def wait_slots_def known_hashes_def Let_def same_text_def)

text \<open>Appending tokens keeps the hashes of the full blocks.\<close>

lemma request_hashes_append:
  assumes "0 < bs" "rq_all_token_ids q' = rq_all_token_ids q @ ts" "rq_lora_request q' = rq_lora_request q"
  shows "\<exists>more. request_hashes H bs q' = request_hashes H bs q @ more"
proof -
  have "\<exists>cs. full_chunks bs (rq_all_token_ids q') = full_chunks bs (rq_all_token_ids q) @ cs"
    using chunks_prefix[OF assms(1), of "rq_all_token_ids q" ts "rq_all_token_ids q'"] assms(2) by auto
  then obtain cs where cs: "full_chunks bs (rq_all_token_ids q') = full_chunks bs (rq_all_token_ids q) @ cs" by blast
  have "text_keys q' = text_keys q" using assms(3) by (simp add: text_keys_def)
  then show ?thesis using chain_v1_append[of H "text_keys q" None "full_chunks bs (rq_all_token_ids q)" cs] cs
    by (auto simp: request_hashes_def)
qed

lemma slots_append:
  assumes bs: "0 < km_block_size m" and q': "rq_request_id q' = rq_request_id q" "rq_all_token_ids q' = rq_all_token_ids q @ ts"
    "rq_lora_request q' = rq_lora_request q" and s: "run_slots H m q c"
  shows "run_slots H m q' c"
proof -
  let ?n = "nat (c div int (km_block_size m))" and ?hs = "km_hashes H m q" and ?hs' = "km_hashes H m q'"
  obtain more where more: "?hs' = ?hs @ more" using request_hashes_append[OF bs q'(2,3)] by blast
  have "c div int (km_block_size m) \<le> int (length (rq_all_token_ids q)) div int (km_block_size m)"
    using s bs by (intro zdiv_mono1) (auto simp: run_slots_def Let_def)
  then have n: "?n \<le> length ?hs" using request_hashes_length[OF bs, of H q] by (simp add: zdiv_int[symmetric])
  have k: "known_hashes H m q' ?n" if "known_hashes H m q ?n"
    using that unfolding known_hashes_def more q'(1) by auto
  have "?hs' ! i = ?hs ! i" if "i < ?n" for i using that n more by (simp add: nth_append)
  then show ?thesis using s k q' unfolding run_slots_def Let_def by auto
qed

section \<open>Allocating\<close>

lemma holders_two:
  assumes "dict_ok d" "i \<noteq> j" "b \<in> set (dict_get_default d i [])" "b \<in> set (dict_get_default d j [])"
  shows "2 \<le> holders d b"
proof -
  have "1 \<le> count_list (dict_get_default d i []) b" "1 \<le> count_list (dict_get_default d j []) b"
    using assms(3,4) count_list_0_iff by (metis One_nat_def Suc_leI not_gr_zero)+
  moreover have "dict_get_default (dict_pop i d) j [] = dict_get_default d j []" using assms(2) by (simp add: dict_get_default_def)
  ultimately show ?thesis using holders_pop[OF assms(1), of i b] holders_le[of "dict_pop i d" j b] assms(1) by simp
qed

lemma distinct_drop_le: "distinct (drop n xs) \<Longrightarrow> n \<le> k \<Longrightarrow> distinct (drop k xs)"
  using distinct_drop[of "drop n xs" "k - n"] by simp

lemma refused_kept:
  assumes "km_inv m xs" "n \<noteq> 0" "\<not> blocks_needed m q n rs \<le> int (length xs) - int (num_evictable (km_block_pool m) rs)"
  shows "\<exists>m'. KVCacheManager_allocate_slots H m q n rs = Inr (None, m') \<and> km_inv m' xs \<and> same_config m m' \<and> (\<forall>i. kept m m' i)"
proof -
  obtain m' where m': "KVCacheManager_allocate_slots H m q n rs = Inr (None, m')" "km_inv m' xs" "km_block_pool m' = km_block_pool m"
    "\<And>r'. km_blocks_of m' r' = km_blocks_of m r'" "km_req_to_block_hashes m' = km_req_to_block_hashes m"
    "km_num_cached_block m' = km_num_cached_block m" "same_config m m'"
    using allocate_slots_refused[OF assms, of H] by blast
  have "kept m m' i" for i using m'(3,5,6) m'(4)[of "q\<lparr>rq_request_id := i\<rparr>"] by (simp add: kept_def)
  then show ?thesis using m'(1,2,7) by blast
qed

lemma granted_kept:
  assumes inv: "km_inv m xs" and ready: "slots_ready H m q num rs n k" and spec: "rq_spec_token_ids q = []"
    and bound: "0 \<le> tokens_after m q num rs" "tokens_after m q num rs \<le> int (length (rq_all_token_ids q))"
    and len: "int (length (km_blocks_of m q @ rs)) \<le> km_max_num_blocks_per_req m"
    and room: "blocks_needed m q num rs \<le> int (length xs) - int (num_evictable (km_block_pool m) rs)"
  shows "\<exists>new m' ys. KVCacheManager_allocate_slots H m q num rs = Inr (Some new, m') \<and> km_inv m' ys \<and>
     km_blocks_of m' q = km_blocks_of m q @ rs @ new \<and> run_slots H m' q (tokens_after m q num rs) \<and> same_config m m' \<and>
     (\<forall>i. i \<noteq> rq_request_id q \<longrightarrow> kept m m' i)"
proof -
  let ?id = "rq_request_id q" and ?p = "km_block_pool m" and ?bs = "km_block_size m" and ?old = "km_blocks_of m q"
  let ?hs = "km_hashes H m q" and ?T = "tokens_after m q num rs" and ?f = "full_after m q num rs"
  note bs = km_invD(1)[OF inv] and st = km_invD(2)[OF inv]
  have f: "?f = ?T div int ?bs" using spec by (simp add: full_after_def)
  have R: "n \<le> length (?old @ rs)" "int n \<le> ?f" "?f \<le> int (length ?hs)" "\<forall>i < n. vp_hash ?p ((?old @ rs) ! i) = Some (?hs ! i)"
    "\<forall>i. n \<le> i \<longrightarrow> i < length (?old @ rs) \<longrightarrow> vp_hash ?p ((?old @ rs) ! i) = None" "n \<le> k" "k \<le> length ?hs"
    using ready unfolding slots_ready_def Let_def by - (elim conjE, assumption)+
  obtain new m' where a: "KVCacheManager_allocate_slots H m q num rs = Inr (Some new, m')"
     "km_inv m' (drop (length new) (filter (\<lambda>b. b \<notin> set rs) xs))" "new = take (length new) (filter (\<lambda>b. b \<notin> set rs) xs)"
     "km_req_to_blocks m' = dict_set ?id (?old @ rs @ new) (km_req_to_blocks m)" "blocks_needed m q num rs \<le> int (length new)"
     "\<forall>i < nat ?f. vp_hash (km_block_pool m') ((?old @ rs @ new) ! i) = Some (?hs ! i)"
     "\<forall>b. b \<notin> set new \<longrightarrow> b \<notin> set ?old \<longrightarrow> vp_hash (km_block_pool m') b = vp_hash ?p b"
     "km_req_to_block_hashes m' = dict_set ?id (take (max k (nat ?f)) ?hs) (km_req_to_block_hashes m)"
     "km_num_cached_block m' = dict_set ?id ?f (km_num_cached_block m)" "same_config m m'"
     "\<forall>i. nat ?f \<le> i \<longrightarrow> i < length (?old @ rs @ new) \<longrightarrow> vp_hash (km_block_pool m') ((?old @ rs @ new) ! i) = None"
     "distinct (drop n (?old @ rs @ new))" "int (length (?old @ rs @ new)) \<le> max (int (length (?old @ rs))) (km_max_num_blocks_per_req m)"
    using allocate_slots_ok[OF inv ready room] by blast
  note cfg = same_configD[OF a(10)]
  have bl: "km_blocks_of m' q = ?old @ rs @ new" using a(4) by simp
  have nf: "n \<le> nat ?f" using R(2) by simp
  have dd: "distinct (drop (nat ?f) (?old @ rs @ new))" by (rule distinct_drop_le[OF a(12) nf])
  have kh: "known_hashes H m' q (nat ?f)"
  proof -
    have "max k (nat ?f) \<le> length ?hs" using R(3,7) by simp
    then show ?thesis unfolding known_hashes_def cfg(1) using a(8) by (intro exI[of _ "max k (nat ?f)"]) simp
  qed
  have num: "dict_get (km_num_cached_block m') ?id = Some (int (nat ?f))" using a(9) R(2) by simp
  have cover: "?T \<le> int (length (?old @ rs @ new)) * int ?bs" by (rule blocks_cover(1)[OF bs a(5)])
  have mx: "int (length (?old @ rs @ new)) \<le> km_max_num_blocks_per_req m" using a(13) len by simp
  have run: "run_slots H m' q ?T"
    unfolding run_slots_def Let_def bl cfg f[symmetric]
    using bound num cover mx a(6) a(11) dd kh by (intro conjI) blast+
  have keep: "kept m m' i" if i: "i \<noteq> ?id" for i
  proof -
    have "km_hash m' b = km_hash m b" if b: "b \<in> set (dict_get_default (km_req_to_blocks m) i [])" for b
    proof -
      have refs: "1 \<le> vp_refs ?p b" "b < length (vp_blocks ?p)"
        using held_refs[OF inv, of b "q\<lparr>rq_request_id := i\<rparr>"] b by simp_all
      have "b \<notin> set xs" using refs pool_stateD(3)[OF st refs(2)] by auto
      moreover have "set new \<subseteq> set xs" by (subst a(3)) (meson filter_is_subset set_take_subset subset_trans)
      ultimately have new: "b \<notin> set new" by blast
      show ?thesis
      proof (cases "b \<in> set ?old")
        case True
        then obtain j where j: "j < length ?old" "b = ?old ! j" by (auto simp: in_set_conv_nth)
        have "vp_hash ?p b \<noteq> None" using km_invD(6)[OF inv, of b] holders_two[OF km_invD(4)[OF inv] i b True] by auto
        then have "j < n" using R(5)[rule_format, of j] j by (fastforce simp: nth_append)
        then show ?thesis using R(4)[rule_format, of j] a(6)[rule_format, of j] nf j by (simp add: nth_append)
      qed (use a(7) new in blast)
    qed
    then show ?thesis using i a(4,8,9) by (simp add: kept_def)
  qed
  show ?thesis using a(1,2,10) bl run keep by blast
qed

section \<open>Running and waiting requests\<close>

text \<open>A running request gets slots for more of its tokens, or nothing changes.\<close>

lemma run_ready:
  assumes inv: "km_inv m xs" and cfg: "km_enable_caching m" "0 \<le> km_num_preallocate_blocks m"
    and q: "rq_mm_positions q = []" "rq_spec_token_ids q = []" and s: "run_slots H m q (rq_num_computed_tokens q)" and n: "0 < n"
    and le: "rq_num_computed_tokens q + n \<le> int (length (rq_all_token_ids q))"
      "rq_num_computed_tokens q + n \<le> km_max_num_blocks_per_req m * int (km_block_size m)"
  shows "\<exists>k. slots_ready H m q n [] (nat (rq_num_computed_tokens q div int (km_block_size m))) k"
    "tokens_after m q n [] = rq_num_computed_tokens q + n"
    "blocks_needed m q n [] \<le> km_max_num_blocks_per_req m - int (length (km_blocks_of m q))"
proof -
  let ?c = "rq_num_computed_tokens q" and ?b = "int (km_block_size m)" and ?B = "km_blocks_of m q"
  note bs = km_invD(1)[OF inv]
  show t: "tokens_after m q n [] = ?c + n" by (simp add: tokens_after_def)
  show need: "blocks_needed m q n [] \<le> km_max_num_blocks_per_req m - int (length ?B)"
    unfolding blocks_needed_def t using cdiv_least[of ?b "?c + n" "km_max_num_blocks_per_req m"] bs le(2) by simp
  have S: "0 \<le> ?c" "dict_get (km_num_cached_block m) (rq_request_id q) = Some (int (nat (?c div ?b)))" "?c \<le> int (length ?B) * ?b"
    "\<forall>i < nat (?c div ?b). km_hash m (?B ! i) = Some (km_hashes H m q ! i)"
    "\<forall>i. nat (?c div ?b) \<le> i \<longrightarrow> i < length ?B \<longrightarrow> km_hash m (?B ! i) = None" "distinct (drop (nat (?c div ?b)) ?B)"
    "known_hashes H m q (nat (?c div ?b))" using s by (simp_all add: run_slots_def Let_def)
  have le1: "nat (?c div ?b) \<le> length ?B"
  proof -
    have "?c div ?b \<le> (int (length ?B) * ?b) div ?b" using S(3) bs by (intro zdiv_mono1) auto
    then show ?thesis using bs by simp
  qed
  have f: "full_after m q n [] = (?c + n) div ?b" unfolding full_after_def t using q(2) by simp
  have le2: "int (nat (?c div ?b)) \<le> (?c + n) div ?b"
    using S(1) n bs zdiv_mono1[of ?c "?c + n" ?b] by (simp add: pos_imp_zdiv_nonneg_iff)
  have "(?c + n) div ?b \<le> int (length (rq_all_token_ids q)) div ?b" using le(1) bs by (intro zdiv_mono1) auto
  then have le3: "(?c + n) div ?b \<le> int (length (km_hashes H m q))" using request_hashes_length[OF bs, of H q] by (simp add: zdiv_int)
  obtain k where k: "nat (?c div ?b) \<le> k" "k \<le> length (km_hashes H m q)" "km_hashes_of m q = take k (km_hashes H m q)"
    using S(7) by (auto simp: known_hashes_def)
  have "slots_ready H m q n [] (nat (?c div ?b)) k"
    unfolding slots_ready_def Let_def f
    using n q cfg need S le1 le2 le3 k by (auto simp: dict_get_default_def)
  then show "\<exists>k. slots_ready H m q n [] (nat (?c div ?b)) k" by blast
qed

text \<open>The cached prefix of a waiting request.\<close>

lemma computed_view:
  assumes inv: "km_inv m xs" and cfg: "km_enable_caching m" and q: "rq_mm_positions q = []" and w: "wait_slots H m q"
  shows "\<exists>rs m' k. KVCacheManager_get_computed_blocks H m q = Inr ((rs, length rs * km_block_size m), m') \<and> km_inv m' xs \<and>
     same_config m m' \<and> (\<forall>i. i \<noteq> rq_request_id q \<longrightarrow> kept m m' i) \<and> km_block_pool m' = km_block_pool m \<and>
     km_blocks_of m' q = [] \<and> dict_get (km_num_cached_block m') (rq_request_id q) = None \<and>
     length rs \<le> k \<and> k \<le> length (km_hashes H m q) \<and> km_hashes_of m' q = take k (km_hashes H m q) \<and>
     (\<forall>i < length rs. km_hash m (rs ! i) = Some (km_hashes H m q ! i))"
proof -
  let ?hs = "if km_hashes_of m q = [] then km_hashes H m q else km_hashes_of m q"
  obtain k where k: "k \<le> length (km_hashes H m q)" "?hs = take k (km_hashes H m q)"
  proof (cases "km_hashes_of m q = []")
    case False
    then show ?thesis using that w by (auto simp: wait_slots_def known_hashes_def)
  qed (use that[of "length (km_hashes H m q)"] in simp)
  have w': "km_blocks_of m q = []" "dict_get (km_num_cached_block m) (rq_request_id q) = None"
    using w by (simp_all add: wait_slots_def)
  show ?thesis
  proof (cases "sp_prompt_logprobs (rq_sampling_params q) = None")
    case True
    obtain rs m' where a: "KVCacheManager_get_computed_blocks H m q = Inr ((rs, length rs * km_block_size m), m')" "km_inv m' xs"
      "length rs = length (takeWhile (hash_cached (km_block_pool m)) ?hs)"
      "\<forall>i < length rs. vp_hash (km_block_pool m) (rs ! i) = Some (?hs ! i)"
      "km_block_pool m' = km_block_pool m" "km_req_to_blocks m' = km_req_to_blocks m"
      "km_req_to_block_hashes m' = dict_set (rq_request_id q) ?hs (km_req_to_block_hashes m)"
      "km_num_cached_block m' = km_num_cached_block m" "km_block_size m' = km_block_size m"
      "km_max_num_blocks_per_req m' = km_max_num_blocks_per_req m" "km_num_preallocate_blocks m' = km_num_preallocate_blocks m"
      "km_enable_caching m' = km_enable_caching m"
      using get_computed_blocks_ok[OF inv cfg q True refl, of H] by blast
    have "length rs \<le> length ?hs" using a(3) length_takeWhile_le[of "hash_cached (km_block_pool m)" ?hs] by simp
    then have len: "length rs \<le> k" using k by simp
    have h: "\<forall>i < length rs. km_hash m (rs ! i) = Some (km_hashes H m q ! i)" using a(4) len k by simp
    have cf: "same_config m m'" using a by (simp add: same_config_def)
    have kp: "kept m m' i" if "i \<noteq> rq_request_id q" for i using a(5-8) that by (simp add: kept_def)
    have hk: "km_hashes_of m' q = take k (km_hashes H m q)" using a(7) k by simp
    have b0: "km_blocks_of m' q = []" "dict_get (km_num_cached_block m') (rq_request_id q) = None" using a(6,8) w' by simp_all
    show ?thesis using a(1,2,5) cf kp b0 len k(1) hk h by blast
  next
    case False
    let ?m = "(km_set_hashes q ?hs m)\<lparr>km_prefix_cache_stats := (km_prefix_cache_stats m)\<lparr>ps_requests := ps_requests (km_prefix_cache_stats m) + 1\<rparr>\<rparr>"
    have g: "KVCacheManager_get_computed_blocks H m q = Inr (([], length ([] :: kv_ref list) * km_block_size m), ?m)"
      using False[unfolded not_None_eq] cfg hash_request_tokens_text[OF q km_invD(1)[OF inv], of H]
      by (auto simp: KVCacheManager_get_computed_blocks_def Let_def km_set_hashes_def)
    have "km_inv ?m xs" "same_config m ?m" using inv by (simp_all add: km_inv_def same_config_def km_set_hashes_def)
    moreover have "\<forall>i. i \<noteq> rq_request_id q \<longrightarrow> kept m ?m i" by (simp add: kept_def km_set_hashes_def)
    moreover have "km_block_pool ?m = km_block_pool m" "km_blocks_of ?m q = []" "dict_get (km_num_cached_block ?m) (rq_request_id q) = None"
      "km_hashes_of ?m q = take k (km_hashes H m q)" using w' k(2) by (simp_all add: km_set_hashes_def)
    ultimately show ?thesis using g k(1) by (intro exI[of _ "[]"] exI[of _ ?m] exI[of _ k]) simp
  qed
qed

text \<open>A waiting request with a cached prefix is ready for slots.\<close>

lemma wait_ready:
  assumes inv: "km_inv m xs" and cfg: "km_enable_caching m" "0 \<le> km_num_preallocate_blocks m"
    and q: "rq_mm_positions q = []" "rq_spec_token_ids q = []" "rq_num_computed_tokens q = 0"
    and w: "km_blocks_of m q = []" "dict_get (km_num_cached_block m) (rq_request_id q) = None"
    and k: "length rs \<le> k" "k \<le> length (km_hashes H m q)" "km_hashes_of m q = take k (km_hashes H m q)"
      "\<forall>i < length rs. km_hash m (rs ! i) = Some (km_hashes H m q ! i)" and n: "0 < n"
    and le: "int (length rs * km_block_size m) + n \<le> int (length (rq_all_token_ids q))"
      "int (length rs * km_block_size m) + n \<le> km_max_num_blocks_per_req m * int (km_block_size m)"
  shows "slots_ready H m q n rs (length rs) k" "tokens_after m q n rs = int (length rs * km_block_size m) + n"
    "blocks_needed m q n rs \<le> km_max_num_blocks_per_req m - int (length rs)" "int (length rs) \<le> km_max_num_blocks_per_req m"
proof -
  let ?b = "int (km_block_size m)"
  note bs = km_invD(1)[OF inv]
  show t: "tokens_after m q n rs = int (length rs * km_block_size m) + n" using q(3) by (simp add: tokens_after_def)
  show need: "blocks_needed m q n rs \<le> km_max_num_blocks_per_req m - int (length rs)"
    unfolding blocks_needed_def t w using cdiv_least[of ?b "int (length rs * km_block_size m) + n" "km_max_num_blocks_per_req m"] bs le(2) by simp
  have "int (length rs) * ?b \<le> km_max_num_blocks_per_req m * ?b" using le(2) n by simp
  then show mx: "int (length rs) \<le> km_max_num_blocks_per_req m" using bs by simp
  have f: "full_after m q n rs = (int (length rs) * ?b + n) div ?b" unfolding full_after_def t using q(2) by simp
  have le2: "int (length rs) \<le> full_after m q n rs" unfolding f using bs n by (simp add: pos_imp_zdiv_nonneg_iff)
  have "full_after m q n rs \<le> int (length (rq_all_token_ids q)) div ?b"
    unfolding f using le(1) bs by (intro zdiv_mono1) auto
  then have le3: "full_after m q n rs \<le> int (length (km_hashes H m q))" using request_hashes_length[OF bs, of H q] by (simp add: zdiv_int)
  show "slots_ready H m q n rs (length rs) k"
    unfolding slots_ready_def Let_def w using n q cfg need le2 le3 k w by (auto simp: dict_get_default_def)
qed

section \<open>Freeing\<close>

lemma free_view:
  assumes inv: "km_inv m xs" and k: "known_hashes H m q n"
  shows "\<exists>m' ys. KVCacheManager_free m q = Inr m' \<and> km_inv m' ys \<and> same_config m m' \<and> wait_slots H m' q \<and>
     (\<forall>i. i \<noteq> rq_request_id q \<longrightarrow> kept m m' i) \<and> km_req_to_block_hashes m' = km_req_to_block_hashes m"
proof -
  obtain m' ys where a: "KVCacheManager_free m q = Inr m'" "km_inv m' ys" "km_req_to_blocks m' = dict_pop (rq_request_id q) (km_req_to_blocks m)"
    "km_req_to_block_hashes m' = km_req_to_block_hashes m" "km_num_cached_block m' = dict_pop (rq_request_id q) (km_num_cached_block m)"
    "same_config m m'" "km_hash m' = km_hash m"
    using free_request_ok[OF inv, of q] by blast
  have "known_hashes H m' q 0" using k a(4) same_configD(1)[OF a(6)] by (auto simp: known_hashes_def)
  then have "wait_slots H m' q" using a(3,5) by (simp add: wait_slots_def dict_get_default_def)
  moreover have "kept m m' i" if "i \<noteq> rq_request_id q" for i using that a(3-5,7) by (simp add: kept_def dict_get_default_def)
  ultimately show ?thesis using a(1,2,4,6) by blast
qed

end
