(* ===== verification/V1_Invariant.thy ===== *)
theory V1_Invariant
  imports V1_Update V1_Slots "HOL-Library.Multiset"
begin

text \<open>
  The invariant of the v1 scheduler for text requests with prefix caching: every live request is
  in exactly one queue, the running ones have slots for their computed tokens and the tokens
  scheduled (the function \<open>f\<close> of their ids), the waiting ones hold nothing. The queues are
  parameters, because a step takes requests out of them for a while.
\<close>

section \<open>The invariant\<close>

abbreviation vs_km :: "V1Scheduler \<Rightarrow> KVCacheManager" where
  "vs_km s \<equiv> vs_kv_cache_manager s"

definition text_request :: "nat \<Rightarrow> Request \<Rightarrow> bool" where
  "text_request max_len q \<longleftrightarrow> rq_mm_positions q = [] \<and> rq_spec_token_ids q = [] \<and> rq_all_token_ids q \<noteq> [] \<and>
     length (rq_all_token_ids q) \<le> max_len"

definition waiting_ok :: "kv_hasher \<Rightarrow> V1Scheduler \<Rightarrow> req_ref \<Rightarrow> bool" where
  "waiting_ok H s r \<longleftrightarrow> text_request (vs_max_model_len s) (vs_obj s r) \<and>
     rq_status (vs_obj s r) \<in> {WAITING, WAITING_FOR_FSM, PREEMPTED} \<and> rq_num_computed_tokens (vs_obj s r) = 0 \<and>
     wait_slots H (vs_km s) (vs_obj s r)"

definition running_ok :: "kv_hasher \<Rightarrow> V1Scheduler \<Rightarrow> (string \<Rightarrow> int) \<Rightarrow> req_ref \<Rightarrow> bool" where
  "running_ok H s f r \<longleftrightarrow> text_request (vs_max_model_len s) (vs_obj s r) \<and> rq_status (vs_obj s r) = RUNNING \<and>
     0 \<le> f (vs_id s r) \<and> 0 \<le> rq_num_computed_tokens (vs_obj s r) \<and>
     rq_num_computed_tokens (vs_obj s r) < int (length (rq_all_token_ids (vs_obj s r))) \<and>
     run_slots H (vs_km s) (vs_obj s r) (rq_num_computed_tokens (vs_obj s r) + f (vs_id s r))"

definition static_ok :: "V1Scheduler \<Rightarrow> bool" where
  "static_ok s \<longleftrightarrow> vs_max_loras s = None \<and> 0 < length (vp_blocks (km_block_pool (vs_km s))) \<and> ec_cached (vs_encoder_cache_manager s) = [] \<and> km_enable_caching (vs_km s) \<and>
     0 \<le> km_num_preallocate_blocks (vs_km s) \<and> km_block_size (vs_km s) = vs_block_size s \<and>
     km_max_num_blocks_per_req (vs_km s) = cdiv (int (vs_max_model_len s)) (int (vs_block_size s))"

definition queues_ok :: "req_ref list \<Rightarrow> req_ref list \<Rightarrow> V1Scheduler \<Rightarrow> bool" where
  "queues_ok W R s \<longleftrightarrow> distinct (map (vs_id s) (W @ R)) \<and> set (W @ R) \<subseteq> {..<length (vs_objects s)} \<and> dict_ok (vs_requests s) \<and>
     (\<forall>i r. dict_get (vs_requests s) i = Some r \<longleftrightarrow> r \<in> set (W @ R) \<and> vs_id s r = i)"

definition no_strays :: "req_ref list \<Rightarrow> req_ref list \<Rightarrow> V1Scheduler \<Rightarrow> bool" where
  "no_strays W R s \<longleftrightarrow> (\<forall>i. i \<notin> vs_id s ` set R \<longrightarrow> dict_get_default (km_req_to_blocks (vs_km s)) i [] = [] \<and>
       dict_get (km_num_cached_block (vs_km s)) i = None) \<and>
     (\<forall>i. i \<notin> vs_id s ` set (W @ R) \<longrightarrow> dict_get_default (km_req_to_block_hashes (vs_km s)) i [] = [])"

definition sched_ok :: "kv_hasher \<Rightarrow> (string \<Rightarrow> int) \<Rightarrow> req_ref list \<Rightarrow> req_ref list \<Rightarrow> V1Scheduler \<Rightarrow> bool" where
  "sched_ok H f W R s \<longleftrightarrow> static_ok s \<and> queues_ok W R s \<and> (\<exists>xs. km_inv (vs_km s) xs) \<and> length R \<le> vs_max_num_running_reqs s \<and>
     (\<forall>r \<in> set W. waiting_ok H s r) \<and> (\<forall>r \<in> set R. running_ok H s f r) \<and> no_strays W R s"

lemma sched_okD:
  assumes "sched_ok H f W R s"
  shows "static_ok s" "queues_ok W R s" "\<exists>xs. km_inv (vs_km s) xs" "length R \<le> vs_max_num_running_reqs s"
    "r \<in> set W \<Longrightarrow> waiting_ok H s r" "r \<in> set R \<Longrightarrow> running_ok H s f r" "no_strays W R s"
  using assms by (auto simp: sched_ok_def)

lemma queues_okD:
  assumes "queues_ok W R s"
  shows "distinct (W @ R)" "inj_on (vs_id s) (set (W @ R))" "r \<in> set (W @ R) \<Longrightarrow> r < length (vs_objects s)"
    "r \<in> set (W @ R) \<Longrightarrow> dict_get (vs_requests s) (vs_id s r) = Some r"
  using assms unfolding queues_ok_def by (auto simp del: map_append simp: distinct_map)

section \<open>Changing one request\<close>

lemma vs_put_simps [simp]:
  "vs_objects (vs_put r g s) = (vs_objects s)[r := g (vs_obj s r)]" "vs_km (vs_put r g s) = vs_km s"
  "vs_waiting (vs_put r g s) = vs_waiting s" "vs_running (vs_put r g s) = vs_running s"
  "vs_max_model_len (vs_put r g s) = vs_max_model_len s" "vs_requests (vs_put r g s) = vs_requests s"
  "vs_max_loras (vs_put r g s) = vs_max_loras s" "vs_encoder_cache_manager (vs_put r g s) = vs_encoder_cache_manager s"
  "vs_block_size (vs_put r g s) = vs_block_size s" "vs_max_num_running_reqs (vs_put r g s) = vs_max_num_running_reqs s"
  "vs_scheduled_req_ids (vs_put r g s) = vs_scheduled_req_ids s" "vs_finished_req_ids (vs_put r g s) = vs_finished_req_ids s"
  "vs_cached_reqs_data (vs_put r g s) = vs_cached_reqs_data s"
  "vs_max_num_scheduled_tokens (vs_put r g s) = vs_max_num_scheduled_tokens s" "vs_log_stats (vs_put r g s) = vs_log_stats s"
  by (simp_all add: vs_put_def)

lemma record_event_put: "record_event e t r s = vs_put r (\<lambda>q. if vs_log_stats s then q\<lparr>rq_events := rq_events q @ [(e, t)]\<rparr> else q) s"
  by (simp add: record_event_def vs_put_def)

text \<open>Everything but the request \<open>r\<close>, its slots, and the queues stays.\<close>

definition others_same :: "req_ref \<Rightarrow> V1Scheduler \<Rightarrow> V1Scheduler \<Rightarrow> bool" where
  "others_same r s s' \<longleftrightarrow> length (vs_objects s') = length (vs_objects s) \<and> (\<forall>k. k \<noteq> r \<longrightarrow> vs_obj s' k = vs_obj s k) \<and>
     vs_id s' r = vs_id s r \<and> vs_max_loras s' = vs_max_loras s \<and> vs_encoder_cache_manager s' = vs_encoder_cache_manager s \<and>
     vs_block_size s' = vs_block_size s \<and> vs_max_model_len s' = vs_max_model_len s \<and>
     vs_max_num_running_reqs s' = vs_max_num_running_reqs s \<and> vs_requests s' = vs_requests s \<and>
     same_config (vs_km s) (vs_km s') \<and> (\<forall>i. i \<noteq> vs_id s r \<longrightarrow> kept (vs_km s) (vs_km s') i)"

lemma others_same_id: "others_same r s s' \<Longrightarrow> vs_id s' k = vs_id s k"
  by (cases "k = r") (simp_all add: others_same_def)

lemma others_same_refl [simp]: "others_same r s s"
  by (simp add: others_same_def)

lemma others_same_trans: "others_same r s t \<Longrightarrow> others_same r t u \<Longrightarrow> others_same r s u"
  unfolding others_same_def by (auto intro: same_config_trans kept_trans)

lemma others_same_kept:
  assumes "others_same r s s'"
  shows "same_config (vs_km s) (vs_km s')" "i \<noteq> vs_id s r \<Longrightarrow> kept (vs_km s) (vs_km s') i" "k \<noteq> r \<Longrightarrow> vs_obj s' k = vs_obj s k"
    "vs_max_model_len s' = vs_max_model_len s"
  using assms by (simp_all add: others_same_def)

lemma others_same_static:
  assumes "others_same r s s'" "static_ok s"
  shows "static_ok s'"
  using same_configD[OF others_same_kept(1)[OF assms(1)]] assms by (simp add: others_same_def static_ok_def)

lemma others_waiting_ok:
  assumes "others_same r s s'" "k \<noteq> r" "vs_id s k \<noteq> vs_id s r"
  shows "waiting_ok H s' k = waiting_ok H s k"
  using wait_slots_kept[OF others_same_kept(1)[OF assms(1)] others_same_kept(2)[OF assms(1,3)]] others_same_kept(3)[OF assms(1,2)]
    others_same_kept(4)[OF assms(1)] by (simp add: waiting_ok_def)

lemma others_running_ok:
  assumes "others_same r s s'" "k \<noteq> r" "vs_id s k \<noteq> vs_id s r" "f' (vs_id s k) = f (vs_id s k)" "running_ok H s f k"
  shows "running_ok H s' f' k"
  using run_slots_kept[OF others_same_kept(1)[OF assms(1)] others_same_kept(2)[OF assms(1,3)]] others_same_kept(3)[OF assms(1,2)]
    others_same_kept(4)[OF assms(1)] assms(4,5) by (simp add: running_ok_def)

lemma sched_ok_change:
  assumes ok: "sched_ok H f W R s" and o: "others_same r s s'" and r: "r \<in> set (W @ R)" and inv: "km_inv (vs_km s') ys"
    and q: "mset (W' @ R') = mset (W @ R)" "set R' - {r} = set R - {r}" "length R' \<le> vs_max_num_running_reqs s"
    and ok': "r \<in> set W' \<Longrightarrow> waiting_ok H s' r" "r \<in> set R' \<Longrightarrow> running_ok H s' f' r" and f: "\<And>i. i \<noteq> vs_id s r \<Longrightarrow> f' i = f i"
  shows "sched_ok H f' W' R' s'"
proof -
  note Q = queues_okD[OF sched_okD(2)[OF ok]]
  note id = others_same_id[OF o]
  have s1: "set (W' @ R') = set (W @ R)" using q(1) mset_eq_setD by blast
  have "mset (map (vs_id s) (W' @ R')) = mset (map (vs_id s) (W @ R))" using q(1) by (metis mset_map)
  then have d: "distinct (map (vs_id s) (W' @ R'))" using sched_okD(2)[OF ok] unfolding queues_ok_def by (metis mset_eq_imp_distinct_iff)
  have qs: "queues_ok W' R' s'"
    using sched_okD(2)[OF ok] d o s1 id unfolding queues_ok_def others_same_def by simp
  have dW: "distinct (W' @ R')" by (rule queues_okD(1)[OF qs])
  have sW: "set W' - {r} = set W - {r}" using s1 q(2) dW Q(1) by auto
  have ne: "vs_id s k \<noteq> vs_id s r" if "k \<in> set (W @ R)" "k \<noteq> r" for k using inj_onD[OF Q(2)] that r by blast
  have W: "waiting_ok H s' k" if "k \<in> set W'" for k
  proof (cases "k = r")
    case False
    then have "k \<in> set W" using sW that by blast
    then show ?thesis using others_waiting_ok[OF o False ne] False sched_okD(5)[OF ok] by auto
  qed (use ok' that in blast)
  have R: "running_ok H s' f' k" if "k \<in> set R'" for k
  proof (cases "k = r")
    case False
    then have k: "k \<in> set R" using q(2) that by blast
    then have "vs_id s k \<noteq> vs_id s r" using ne False by simp
    show ?thesis by (rule others_running_ok[where f = f, OF o False \<open>vs_id s k \<noteq> vs_id s r\<close>]) (use f sched_okD(6)[OF ok k] \<open>vs_id s k \<noteq> vs_id s r\<close> in auto)
  qed (use ok' that in blast)
  have N: "no_strays W' R' s'"
  proof -
    have S: "\<And>i. i \<notin> vs_id s ` set R \<Longrightarrow> dict_get_default (km_req_to_blocks (vs_km s)) i [] = [] \<and> dict_get (km_num_cached_block (vs_km s)) i = None"
      "\<And>i. i \<notin> vs_id s ` set (W @ R) \<Longrightarrow> dict_get_default (km_req_to_block_hashes (vs_km s)) i [] = []"
      using sched_okD(7)[OF ok] unfolding no_strays_def by blast+
    have k: "\<And>i. i \<noteq> vs_id s r \<Longrightarrow> kept (vs_km s) (vs_km s') i" using o by (simp add: others_same_def)
    have 1: "dict_get_default (km_req_to_blocks (vs_km s')) i [] = [] \<and> dict_get (km_num_cached_block (vs_km s')) i = None"
      if i: "i \<notin> vs_id s' ` set R'" for i
    proof (cases "i = vs_id s r")
      case True
      then have "r \<notin> set R'" using i id by auto
      then have "r \<in> set W'" using s1 r by auto
      then show ?thesis using ok'(1) True id[of r] unfolding waiting_ok_def wait_slots_def by simp
    next
      case False
      have "i \<notin> vs_id s ` set R"
      proof
        assume "i \<in> vs_id s ` set R"
        then obtain k where k: "k \<in> set R" "i = vs_id s k" by blast
        then have "k \<in> set R'" using False q(2) by blast
        then show False using i id k(2) by force
      qed
      then show ?thesis using S(1) k[OF False] by (simp add: kept_def)
    qed
    have 2: "dict_get_default (km_req_to_block_hashes (vs_km s')) i [] = []" if i: "i \<notin> vs_id s' ` set (W' @ R')" for i
    proof -
      have i': "i \<notin> vs_id s ` set (W @ R)" using i id s1 by auto
      then have "i \<noteq> vs_id s r" using r by auto
      then show ?thesis using S(2)[OF i'] k by (simp add: kept_def)
    qed
    show ?thesis unfolding no_strays_def using 1 2 by blast
  qed
  show ?thesis
    unfolding sched_ok_def
  proof (intro conjI ballI)
    show "static_ok s'" by (rule others_same_static[OF o sched_okD(1)[OF ok]])
    show "\<exists>xs. km_inv (vs_km s') xs" using inv by blast
    show "length R' \<le> vs_max_num_running_reqs s'" using q(3) o by (simp add: others_same_def)
  qed (use qs W R N in blast)+
qed

text \<open>Every request keeps its slots.\<close>

lemma sched_ok_km:
  assumes ok: "sched_ok H f W R s" and m: "km_inv m xs" "same_config (vs_km s) m" "\<And>i. kept (vs_km s) m i"
  shows "sched_ok H f W R (s\<lparr>vs_kv_cache_manager := m\<rparr>)"
proof -
  let ?s = "s\<lparr>vs_kv_cache_manager := m\<rparr>"
  have w: "waiting_ok H ?s r = waiting_ok H s r" for r using wait_slots_kept[OF m(2,3)] by (simp add: waiting_ok_def)
  have r: "running_ok H s f r \<Longrightarrow> running_ok H ?s f r" for r using run_slots_kept[OF m(2,3)] by (simp add: running_ok_def)
  have "others_same r s ?s" for r using m(2,3) by (simp add: others_same_def)
  then have st: "static_ok ?s" by (rule others_same_static[OF _ sched_okD(1)[OF ok]])
  have ns: "no_strays W R ?s" using sched_okD(7)[OF ok] m(3) unfolding no_strays_def kept_def by simp
  show ?thesis using ok st ns w r m(1) unfolding sched_ok_def queues_ok_def by auto
qed

section \<open>Removing a request\<close>

lemma sched_ok_remove:
  assumes ok: "sched_ok H f W R s" and r: "r \<in> set (W @ R)" and o: "others_same r s (s'\<lparr>vs_requests := vs_requests s\<rparr>)"
    and d: "vs_requests s' = dict_pop (vs_id s r) (vs_requests s)" and km: "km_inv (vs_km s') ys"
    and gone: "dict_get_default (km_req_to_blocks (vs_km s')) (vs_id s r) [] = []" "dict_get (km_num_cached_block (vs_km s')) (vs_id s r) = None"
      "dict_get_default (km_req_to_block_hashes (vs_km s')) (vs_id s r) [] = []"
    and f: "\<And>i. i \<noteq> vs_id s r \<Longrightarrow> f' i = f i"
  shows "sched_ok H f' (remove1 r W) (remove1 r R) s'"
proof -
  let ?t = "s'\<lparr>vs_requests := vs_requests s\<rparr>" and ?W = "remove1 r W" and ?R = "remove1 r R"
  note Q = queues_okD[OF sched_okD(2)[OF ok]]
  have dW: "distinct W" "distinct R" using Q(1) by simp_all
  have sets: "set ?W = set W - {r}" "set ?R = set R - {r}" using dW by simp_all
  have id: "vs_id s' k = vs_id s k" for k using others_same_id[OF o, of k] by simp
  have ne: "vs_id s k \<noteq> vs_id s r" if "k \<in> set (W @ R)" "k \<noteq> r" for k using inj_onD[OF Q(2)] that r by blast
  have kp: "kept (vs_km s) (vs_km s') i" if "i \<noteq> vs_id s r" for i using others_same_kept(2)[OF o that] by simp
  have "distinct (map (vs_id s) (?W @ ?R))"
  proof -
    have "distinct (?W @ ?R)" using Q(1) by (auto simp: sets)
    moreover have "inj_on (vs_id s) (set (?W @ ?R))" by (rule inj_on_subset[OF Q(2)]) (auto simp: sets)
    ultimately show ?thesis unfolding distinct_map ..
  qed
  moreover have "dict_get (vs_requests s') i = Some k \<longleftrightarrow> k \<in> set (?W @ ?R) \<and> vs_id s k = i" for i k
  proof -
    have "dict_get (vs_requests s) i = Some k \<longleftrightarrow> k \<in> set (W @ R) \<and> vs_id s k = i"
      using sched_okD(2)[OF ok] unfolding queues_ok_def by blast
    then show ?thesis using d ne[of k] by (auto simp: sets)
  qed
  moreover have "set (?W @ ?R) \<subseteq> {..<length (vs_objects s')}" using Q(3) o by (auto simp: sets others_same_def)
  moreover have "dict_ok (vs_requests s')" using d sched_okD(2)[OF ok] by (simp add: queues_ok_def)
  ultimately have qs: "queues_ok ?W ?R s'" unfolding queues_ok_def id by blast
  have st: "static_ok s'" using others_same_static[OF o sched_okD(1)[OF ok]] by (simp add: static_ok_def)
  have W: "waiting_ok H s' k" if "k \<in> set ?W" for k
  proof -
    have k: "k \<in> set W" "k \<noteq> r" "vs_id s k \<noteq> vs_id s r" using that ne[of k] by (auto simp: sets)
    then have "waiting_ok H ?t k" using others_waiting_ok[OF o k(2,3)] sched_okD(5)[OF ok] by simp
    then show ?thesis by (simp add: waiting_ok_def)
  qed
  have R: "running_ok H s' f' k" if "k \<in> set ?R" for k
  proof -
    have k: "k \<in> set R" "k \<noteq> r" "vs_id s k \<noteq> vs_id s r" using that ne[of k] by (auto simp: sets)
    have "running_ok H ?t f' k" by (rule others_running_ok[where f = f and f' = f' and k = k, OF o k(2,3) f[OF k(3)] sched_okD(6)[OF ok k(1)]])
    then show ?thesis by (simp add: running_ok_def)
  qed
  have N: "no_strays ?W ?R s'"
  proof -
    have S: "\<And>i. i \<notin> vs_id s ` set R \<Longrightarrow> dict_get_default (km_req_to_blocks (vs_km s)) i [] = [] \<and> dict_get (km_num_cached_block (vs_km s)) i = None"
      "\<And>i. i \<notin> vs_id s ` set (W @ R) \<Longrightarrow> dict_get_default (km_req_to_block_hashes (vs_km s)) i [] = []"
      using sched_okD(7)[OF ok] unfolding no_strays_def by blast+
    have 1: "dict_get_default (km_req_to_blocks (vs_km s')) i [] = [] \<and> dict_get (km_num_cached_block (vs_km s')) i = None"
      if i: "i \<notin> vs_id s ` set ?R" for i
    proof (cases "i = vs_id s r")
      case False
      then have "i \<notin> vs_id s ` set R" using i by (auto simp: sets)
      then show ?thesis using S(1) kp[OF False] by (simp add: kept_def)
    qed (use gone in simp)
    have 2: "dict_get_default (km_req_to_block_hashes (vs_km s')) i [] = []" if i: "i \<notin> vs_id s ` set (?W @ ?R)" for i
    proof (cases "i = vs_id s r")
      case False
      then have "i \<notin> vs_id s ` set (W @ R)" using i by (auto simp: sets)
      then show ?thesis using S(2) kp[OF False] by (simp add: kept_def)
    qed (use gone in simp)
    show ?thesis unfolding no_strays_def id using 1 2 by blast
  qed
  have "length ?R \<le> vs_max_num_running_reqs s'" using sched_okD(4)[OF ok] o by (auto simp: others_same_def length_remove1)
  then show ?thesis unfolding sched_ok_def using qs st W R N km by blast
qed

end
