(* ===== verification/V1_Running.thy ===== *)
theory V1_Running
  imports V1_Invariant
begin

text \<open>
  The first half of a scheduling step keeps the invariant: a running request gets its slots, if
  need be after the last requests were preempted, or is preempted itself. The first running
  request always gets them when the cache holds a request of the maximal length.
\<close>

section \<open>What a step leaves alone\<close>

text \<open>
  A step changes the status, the computed tokens and the events of a request, and nothing else;
  no request goes back to waiting for its grammar.
\<close>

definition step_obj :: "Request \<Rightarrow> Request \<Rightarrow> bool" where
  "step_obj q q' \<longleftrightarrow> q'\<lparr>rq_status := rq_status q, rq_num_computed_tokens := rq_num_computed_tokens q, rq_events := rq_events q\<rparr> = q \<and>
     (rq_status q' = WAITING_FOR_FSM \<longrightarrow> rq_status q = WAITING_FOR_FSM)"

lemma step_obj_refl [simp]: "step_obj q q"
  by (simp add: step_obj_def)

lemma step_obj_trans: "step_obj a b \<Longrightarrow> step_obj b c \<Longrightarrow> step_obj a c"
  by (cases a, cases b, cases c) (simp add: step_obj_def)

lemma step_objD:
  assumes "step_obj q q'"
  shows "rq_request_id q' = rq_request_id q" "rq_all_token_ids q' = rq_all_token_ids q" "same_text q q'"
    "rq_grammar q' = rq_grammar q" "rq_output_token_ids q' = rq_output_token_ids q" "rq_num_prompt_tokens q' = rq_num_prompt_tokens q"
    "rq_status q' = WAITING_FOR_FSM \<Longrightarrow> rq_status q = WAITING_FOR_FSM"
proof -
  show "rq_request_id q' = rq_request_id q" "rq_all_token_ids q' = rq_all_token_ids q" "same_text q q'"
    "rq_grammar q' = rq_grammar q" "rq_output_token_ids q' = rq_output_token_ids q" "rq_num_prompt_tokens q' = rq_num_prompt_tokens q"
    "rq_status q' = WAITING_FOR_FSM \<Longrightarrow> rq_status q = WAITING_FOR_FSM"
    using assms by (cases q, cases q', simp add: step_obj_def same_text_def)+
qed

definition step_same :: "V1Scheduler \<Rightarrow> V1Scheduler \<Rightarrow> bool" where
  "step_same s s' \<longleftrightarrow> length (vs_objects s') = length (vs_objects s) \<and> (\<forall>k. step_obj (vs_obj s k) (vs_obj s' k)) \<and>
     vs_max_num_scheduled_tokens s' = vs_max_num_scheduled_tokens s \<and> vs_max_num_running_reqs s' = vs_max_num_running_reqs s \<and>
     vs_max_model_len s' = vs_max_model_len s \<and> vs_block_size s' = vs_block_size s \<and> vs_max_loras s' = vs_max_loras s \<and>
     vs_log_stats s' = vs_log_stats s \<and> vs_requests s' = vs_requests s \<and>
     vs_encoder_cache_manager s' = vs_encoder_cache_manager s \<and> vs_finished_req_ids s' = vs_finished_req_ids s \<and>
     vs_cached_reqs_data s' = vs_cached_reqs_data s \<and> same_config (vs_km s) (vs_km s')"

lemma step_same_refl [simp]: "step_same s s"
  by (simp add: step_same_def)

lemma step_same_trans: "step_same s t \<Longrightarrow> step_same t u \<Longrightarrow> step_same s u"
  unfolding step_same_def by (auto intro: same_config_trans step_obj_trans)

lemma step_sameD:
  assumes "step_same s s'"
  shows "vs_id s' k = vs_id s k" "length (vs_objects s') = length (vs_objects s)" "same_config (vs_km s) (vs_km s')"
    "vs_max_num_scheduled_tokens s' = vs_max_num_scheduled_tokens s" "vs_block_size s' = vs_block_size s"
    "vs_max_model_len s' = vs_max_model_len s" "vs_max_num_running_reqs s' = vs_max_num_running_reqs s" "vs_max_loras s' = vs_max_loras s"
    "vs_encoder_cache_manager s' = vs_encoder_cache_manager s" "vs_finished_req_ids s' = vs_finished_req_ids s"
    "vs_cached_reqs_data s' = vs_cached_reqs_data s" "vs_requests s' = vs_requests s" "step_obj (vs_obj s k) (vs_obj s' k)"
    "vs_log_stats s' = vs_log_stats s"
  using assms by (simp_all add: step_same_def step_objD)

lemma km_update_others:
  assumes "same_config (vs_km s) m" "\<And>i. i \<noteq> vs_id s r \<Longrightarrow> kept (vs_km s) m i"
  shows "others_same r s (s\<lparr>vs_kv_cache_manager := m\<rparr>)" "step_same s (s\<lparr>vs_kv_cache_manager := m\<rparr>)"
  using assms by (simp_all add: others_same_def step_same_def)

lemma vs_put_others:
  assumes "\<And>q. step_obj q (g q)"
  shows "others_same r s (vs_put r g s)" "step_same s (vs_put r g s)"
proof -
  have o: "step_obj (vs_obj s k) (vs_obj (vs_put r g s) k)" for k
    using assms by (cases "r < length (vs_objects s)"; cases "k = r") (simp_all add: list_update_beyond)
  then show "others_same r s (vs_put r g s)" "step_same s (vs_put r g s)"
    using step_objD(1)[OF o] by (simp_all add: others_same_def step_same_def)
qed

section \<open>The requests a step does not touch\<close>

abbreviation vs_blocks :: "V1Scheduler \<Rightarrow> req_ref \<Rightarrow> kv_ref list" where
  "vs_blocks s r \<equiv> dict_get_default (km_req_to_blocks (vs_km s)) (vs_id s r) []"

definition unmoved :: "V1Scheduler \<Rightarrow> V1Scheduler \<Rightarrow> req_ref set \<Rightarrow> bool" where
  "unmoved s s' X \<longleftrightarrow> (\<forall>x \<in> X. vs_obj s' x = vs_obj s x \<and> vs_blocks s' x = vs_blocks s x)"

lemma unmoved_refl [simp]: "unmoved s s X"
  by (simp add: unmoved_def)

lemma unmovedD: "unmoved s s' X \<Longrightarrow> x \<in> X \<Longrightarrow> vs_obj s' x = vs_obj s x" "unmoved s s' X \<Longrightarrow> x \<in> X \<Longrightarrow> vs_blocks s' x = vs_blocks s x"
  unfolding unmoved_def by blast+

lemma unmoved_trans: "unmoved s t X \<Longrightarrow> unmoved t u Y \<Longrightarrow> Z \<subseteq> X \<Longrightarrow> Z \<subseteq> Y \<Longrightarrow> unmoved s u Z"
  unfolding unmoved_def by (metis subsetD)

lemma unmoved_subset: "unmoved s t X \<Longrightarrow> Z \<subseteq> X \<Longrightarrow> unmoved s t Z"
  unfolding unmoved_def by blast

lemma others_unmoved:
  assumes o: "others_same r s s'" and ok: "sched_ok H f W R s" and r: "r \<in> set (W @ R)" and X: "X \<subseteq> set (W @ R) - {r}"
  shows "unmoved s s' X"
  unfolding unmoved_def
proof (intro ballI conjI)
  fix x assume x: "x \<in> X"
  have "inj_on (vs_id s) (set (W @ R))" by (rule queues_okD(2)[OF sched_okD(2)[OF ok]])
  moreover have "x \<in> set (W @ R)" "x \<noteq> r" using x X by auto
  ultimately have "vs_id s x \<noteq> vs_id s r" using r by (meson inj_onD)
  then show "vs_obj s' x = vs_obj s x" "vs_blocks s' x = vs_blocks s x"
    using others_same_kept(2)[OF o, of "vs_id s x"] others_same_kept(3)[OF o \<open>x \<noteq> r\<close>] by (simp_all add: kept_def)
qed

text \<open>Block ids are positions in the pool.\<close>

lemma block_ids_same:
  assumes inv: "km_inv (vs_km s) xs" and bs: "set bs \<subseteq> set (vs_blocks s r)"
  shows "block_ids_of s bs = bs"
  unfolding block_ids_of_def
proof (rule map_idI)
  fix b assume "b \<in> set bs"
  then have "b < length (vp_blocks (km_block_pool (vs_km s)))" using held_refs(2)[OF inv, of b "vs_obj s r"] bs by auto
  then show "kb_block_id (vp_blocks (km_block_pool (vs_km s)) ! b) = b"
    using km_invD(2)[OF inv] by (simp add: pool_state_def pool_base_def)
qed

section \<open>Preemption\<close>

lemma run_slots_known: "run_slots H m q c \<Longrightarrow> known_hashes H m q (nat (c div int (km_block_size m)))"
  by (simp add: run_slots_def Let_def)

lemma preempt_last_ok:
  assumes ok: "sched_ok H f (vs_waiting s) (vs_running s) s" and R: "vs_running s = R @ [r]" and f: "f (vs_id s r) = 0"
  shows "\<exists>s'. preempt_last now s = Inr s' \<and> sched_ok H f (vs_waiting s') (vs_running s') s' \<and> vs_running s' = R \<and>
     vs_waiting s' = r # vs_waiting s \<and> others_same r s s' \<and> step_same s s' \<and> vs_scheduled_req_ids s' = vs_scheduled_req_ids s"
proof -
  have r: "r \<in> set (vs_running s)" "r < length (vs_objects s)" using R queues_okD(3)[OF sched_okD(2)[OF ok], of r] by auto
  have run: "running_ok H s f r" by (rule sched_okD(6)[OF ok r(1)])
  obtain xs where inv: "km_inv (vs_km s) xs" using sched_okD(3)[OF ok] by blast
  have kh: "known_hashes H (vs_km s) (vs_obj s r) (nat ((rq_num_computed_tokens (vs_obj s r) + f (vs_id s r)) div int (km_block_size (vs_km s))))"
    using run by (intro run_slots_known) (simp add: running_ok_def)
  obtain m ys where m: "KVCacheManager_free (vs_km s) (vs_obj s r) = Inr m" "km_inv m ys" "same_config (vs_km s) m"
    "wait_slots H m (vs_obj s r)" "\<And>i. i \<noteq> vs_id s r \<Longrightarrow> kept (vs_km s) m i"
    using free_view[OF inv kh] by blast
  define g :: "Request \<Rightarrow> Request" where "g = (\<lambda>q. q\<lparr>rq_status := PREEMPTED, rq_num_computed_tokens := 0\<rparr>)"
  define e :: "Request \<Rightarrow> Request" where "e = (\<lambda>q. if vs_log_stats s then q\<lparr>rq_events := rq_events q @ [(EV_PREEMPTED, now)]\<rparr> else q)"
  define s1 where "s1 = s\<lparr>vs_running := R, vs_waiting := r # vs_waiting s\<rparr>"
  define s2 where "s2 = s1\<lparr>vs_kv_cache_manager := m\<rparr>"
  define s' where "s' = vs_put r (\<lambda>q. e (g q)) s2"
  have run': "preempt_last now s = Inr s'"
    using R m(1) r(2) unfolding preempt_last_def Scheduler_request_preempted_def record_event_put s'_def s2_def s1_def e_def g_def Let_def
    by (simp add: vs_put_def)
  have o1: "others_same r s s1" "step_same s s1" by (simp_all add: s1_def others_same_def step_same_def)
  have o2: "others_same r s1 s2" "step_same s1 s2"
    unfolding s2_def using km_update_others[of s1 m r] m(3,5) by (simp_all add: s1_def)
  have o3: "others_same r s2 s'" "step_same s2 s'"
    unfolding s'_def by (rule vs_put_others; simp add: e_def g_def step_obj_def)+
  have o: "others_same r s s'" "step_same s s'"
    using others_same_trans[OF others_same_trans[OF o1(1) o2(1)] o3(1)] step_same_trans[OF step_same_trans[OF o1(2) o2(2)] o3(2)] by blast+
  have obj: "vs_obj s' r = e (g (vs_obj s r))" using r(2) by (simp add: s'_def s2_def s1_def)
  have st: "same_text (vs_obj s r) (vs_obj s' r)" by (simp add: obj same_text_def e_def g_def)
  have w: "waiting_ok H s' r"
    using run slots_same_text(2)[OF st, of H m] m(4) step_sameD(6)[OF o(2)] unfolding waiting_ok_def running_ok_def text_request_def
    by (simp add: obj) (simp add: e_def g_def s'_def s2_def)
  have q: "vs_running s' = R" "vs_waiting s' = r # vs_waiting s" by (simp_all add: s'_def s2_def s1_def)
  have d: "r \<notin> set R" using queues_okD(1)[OF sched_okD(2)[OF ok]] R by auto
  have "sched_ok H f (vs_waiting s') (vs_running s') s'"
  proof (rule sched_ok_change[OF ok o(1)])
    show "r \<in> set (vs_waiting s @ vs_running s)" using r(1) by simp
    show "km_inv (vs_km s') ys" using m(2) by (simp add: s'_def s2_def)
    show "mset (vs_waiting s' @ vs_running s') = mset (vs_waiting s @ vs_running s)" using q R by simp
    show "set (vs_running s') - {r} = set (vs_running s) - {r}" using q R by auto
    show "length (vs_running s') \<le> vs_max_num_running_reqs s" using sched_okD(4)[OF ok] q R by simp
  qed (use w q d in auto)
  moreover have "vs_scheduled_req_ids s' = vs_scheduled_req_ids s" by (simp add: s'_def s2_def s1_def)
  ultimately show ?thesis using run' q o by blast
qed

section \<open>Slots for a running request\<close>

text \<open>With every other request out of the way, all blocks that are not its own are free.\<close>

lemma holders_pos: "0 < holders d b \<Longrightarrow> dict_ok d \<Longrightarrow> \<exists>i. b \<in> set (dict_get_default d i [])"
proof (induction d)
  case (Cons e d)
  show ?case
  proof (cases "b \<in> set (snd e)")
    case True
    then show ?thesis by (intro exI[of _ "fst e"]) (cases e; simp add: dict_get_default_def)
  next
    case False
    then have "0 < holders d b" using Cons.prems(1) by (simp add: holders_def count_list_0_iff)
    then obtain i where i: "b \<in> set (dict_get_default d i [])" using Cons by (auto simp: dict_ok_def)
    then have "dict_has d i" by (cases "dict_get d i") (simp_all add: dict_get_default_def)
    then have "i \<in> fst ` set d" using dict_has_keys[of d i] by simp
    then have "fst e \<noteq> i" using Cons.prems(2) by (auto simp: dict_ok_def)
    then show ?thesis using i by (intro exI[of _ i]) (cases e; simp add: dict_get_default_def)
  qed
qed (simp add: holders_def)

lemma sole_holder_free:
  assumes inv: "km_inv m xs" and sole: "\<And>i. i \<noteq> rq_request_id q \<Longrightarrow> dict_get_default (km_req_to_blocks m) i [] = []"
  shows "length (vp_blocks (km_block_pool m)) \<le> length xs + length (km_blocks_of m q)"
proof -
  note st = km_invD(2)[OF inv]
  have "{..<length (vp_blocks (km_block_pool m))} \<subseteq> set xs \<union> set (km_blocks_of m q)"
  proof
    fix b assume b: "b \<in> {..<length (vp_blocks (km_block_pool m))}"
    show "b \<in> set xs \<union> set (km_blocks_of m q)"
    proof (cases "b \<in> set xs")
      case False
      then have "vp_refs (km_block_pool m) b \<noteq> 0" using pool_stateD(3)[OF st, of b] b by simp
      then have "0 < holders (km_req_to_blocks m) b" using km_invD(5)[OF inv, of b] by simp
      then obtain i where i: "b \<in> set (dict_get_default (km_req_to_blocks m) i [])" using holders_pos km_invD(4)[OF inv] by blast
      then have "i = rq_request_id q" using sole by fastforce
      then show ?thesis using i by simp
    qed simp
  qed
  then have "card {..<length (vp_blocks (km_block_pool m))} \<le> card (set xs \<union> set (km_blocks_of m q))" by (intro card_mono) simp_all
  also have "\<dots> \<le> card (set xs) + card (set (km_blocks_of m q))" by (rule card_Un_le)
  also have "\<dots> \<le> length xs + length (km_blocks_of m q)" by (simp add: add_mono card_length)
  finally show ?thesis by simp
qed

end
