(* ===== verification/V1_Running_Loop.thy ===== *)
theory V1_Running_Loop
  imports V1_Running "HOL-Library.Sublist"
begin

text \<open>
  The loop over the running requests: the allocation with preemption, one round, and the loop.
  While it runs, the requests before the index have their tokens and the others none yet.
\<close>

section \<open>Allocation with preemption\<close>

text \<open>What is needed of the request that asks for slots.\<close>

lemma running_grant:
  assumes ok: "sched_ok H f (vs_waiting s) (vs_running s) s" and r: "r \<in> set (vs_running s)" and f: "f (vs_id s r) = 0"
    and n: "0 < n" "rq_num_computed_tokens (vs_obj s r) + n \<le> int (length (rq_all_token_ids (vs_obj s r)))"
  shows "(\<exists>new m. KVCacheManager_allocate_slots H (vs_km s) (vs_obj s r) n [] = Inr (Some new, m) \<and>
       sched_ok H (f(vs_id s r := n)) (vs_waiting s) (vs_running s) (s\<lparr>vs_kv_cache_manager := m\<rparr>) \<and>
       others_same r s (s\<lparr>vs_kv_cache_manager := m\<rparr>) \<and> step_same s (s\<lparr>vs_kv_cache_manager := m\<rparr>) \<and>
       km_blocks_of m (vs_obj s r) = vs_blocks s r @ new) \<or>
     (\<exists>m. KVCacheManager_allocate_slots H (vs_km s) (vs_obj s r) n [] = Inr (None, m) \<and>
       sched_ok H f (vs_waiting s) (vs_running s) (s\<lparr>vs_kv_cache_manager := m\<rparr>) \<and>
       others_same r s (s\<lparr>vs_kv_cache_manager := m\<rparr>) \<and> step_same s (s\<lparr>vs_kv_cache_manager := m\<rparr>) \<and>
       kept (vs_km s) m (vs_id s r) \<and>
       (vs_running s = [r] \<longrightarrow> int (length (vp_blocks (km_block_pool (vs_km s)))) < km_max_num_blocks_per_req (vs_km s)))"
proof -
  let ?q = "vs_obj s r" and ?m = "vs_km s"
  obtain xs where inv: "km_inv ?m xs" using sched_okD(3)[OF ok] by blast
  note st = sched_okD(1)[OF ok, unfolded static_ok_def]
  have run: "text_request (vs_max_model_len s) ?q" "rq_status ?q = RUNNING" "0 \<le> rq_num_computed_tokens ?q"
    "rq_num_computed_tokens ?q < int (length (rq_all_token_ids ?q))" "run_slots H ?m ?q (rq_num_computed_tokens ?q)"
    using sched_okD(6)[OF ok r] f by (simp_all add: running_ok_def)
  have t: "rq_mm_positions ?q = []" "rq_spec_token_ids ?q = []" "length (rq_all_token_ids ?q) \<le> vs_max_model_len s"
    using run(1) by (simp_all add: text_request_def)
  have bs: "0 < int (km_block_size ?m)" using km_invD(1)[OF inv] by simp
  have cap: "rq_num_computed_tokens ?q + n \<le> km_max_num_blocks_per_req ?m * int (km_block_size ?m)"
  proof -
    have "int (vs_max_model_len s) \<le> km_max_num_blocks_per_req ?m * int (km_block_size ?m)"
      using st cdiv_bounds(1)[OF bs, of "int (vs_max_model_len s)"] by simp
    then show ?thesis using n(2) t(3) by linarith
  qed
  have cfg: "km_enable_caching ?m" "0 \<le> km_num_preallocate_blocks ?m" using st by simp_all
  note rr = run_ready[OF inv cfg t(1,2) run(5) n(1,2) cap]
  obtain k where k: "slots_ready H ?m ?q n [] (nat (rq_num_computed_tokens ?q div int (km_block_size ?m))) k" using rr(1) by blast
  show ?thesis
  proof (cases "blocks_needed ?m ?q n [] \<le> int (length xs) - int (num_evictable (km_block_pool ?m) [])")
    case True
    have "0 \<le> tokens_after ?m ?q n []" "tokens_after ?m ?q n [] \<le> int (length (rq_all_token_ids ?q))" using rr(2) run(3) n by simp_all
    moreover have "int (length (km_blocks_of ?m ?q @ [])) \<le> km_max_num_blocks_per_req ?m" using run(5) by (simp add: run_slots_def Let_def)
    ultimately obtain new m ys where a: "KVCacheManager_allocate_slots H ?m ?q n [] = Inr (Some new, m)" "km_inv m ys"
      "run_slots H m ?q (tokens_after ?m ?q n [])" "same_config ?m m" "\<And>i. i \<noteq> rq_request_id ?q \<Longrightarrow> kept ?m m i"
      "km_blocks_of m ?q = km_blocks_of ?m ?q @ [] @ new"
      using granted_kept[OF inv k t(2) _ _ _ True] by blast
    let ?s = "s\<lparr>vs_kv_cache_manager := m\<rparr>"
    note o = km_update_others[OF a(4,5)]
    have "sched_ok H (f(vs_id s r := n)) (vs_waiting s) (vs_running s) ?s"
      by (rule sched_ok_change[OF ok o(1), where ys = ys])
        (use a(2,3) rr(2) n run r sched_okD(4)[OF ok] queues_okD(1)[OF sched_okD(2)[OF ok]] in \<open>auto simp: running_ok_def\<close>)
    then show ?thesis using a(1,6) o by auto
  next
    case False
    have "n \<noteq> 0" using n by simp
    obtain m where a: "KVCacheManager_allocate_slots H ?m ?q n [] = Inr (None, m)" "km_inv m xs" "same_config ?m m" "\<And>i. kept ?m m i"
      using refused_kept[OF inv \<open>n \<noteq> 0\<close> False] by blast
    let ?s = "s\<lparr>vs_kv_cache_manager := m\<rparr>"
    note o = km_update_others[OF a(3,4)]
    have rk: "running_ok H ?s f r"
      using sched_okD(6)[OF ok r] run_slots_kept[OF a(3,4)] by (simp add: running_ok_def)
    have "sched_ok H f (vs_waiting s) (vs_running s) ?s"
      by (rule sched_ok_change[OF ok o(1), where ys = xs])
        (use a(2) rk r sched_okD(4)[OF ok] queues_okD(1)[OF sched_okD(2)[OF ok]] in auto)
    moreover have "int (length (vp_blocks (km_block_pool ?m))) < km_max_num_blocks_per_req ?m" if one: "vs_running s = [r]"
    proof -
      have "dict_get_default (km_req_to_blocks ?m) i [] = []" if "i \<noteq> rq_request_id ?q" for i
        using sched_okD(7)[OF ok] that one unfolding no_strays_def by simp
      then have "length (vp_blocks (km_block_pool ?m)) \<le> length xs + length (km_blocks_of ?m ?q)" by (rule sole_holder_free[OF inv])
      then show ?thesis using False rr(3) by (simp add: num_evictable_def)
    qed
    ultimately show ?thesis using a(1) a(4)[of "vs_id s r"] o by blast
  qed
qed

lemma allocate_or_preempt_some:
  assumes "KVCacheManager_allocate_slots H (vs_km s) (vs_obj s r) n [] = Inr (Some new, m)"
  shows "allocate_or_preempt H now r n s acc = Inr (Some new, s\<lparr>vs_kv_cache_manager := m\<rparr>, acc)"
  by (subst allocate_or_preempt.simps) (simp add: assms)

lemma allocate_or_preempt_none:
  assumes "KVCacheManager_allocate_slots H (vs_km s) (vs_obj s r) n [] = Inr (None, m)"
    "preempt_last now (s\<lparr>vs_kv_cache_manager := m\<rparr>) = Inr s'"
  shows "allocate_or_preempt H now r n s acc =
     (if last (vs_running s) = r then Inr (None, s', acc @ [last (vs_running s)])
      else allocate_or_preempt H now r n s' (acc @ [last (vs_running s)]))"
  by (subst allocate_or_preempt.simps) (simp add: assms)

text \<open>The loop keeps the requests before \<open>r\<close>; it preempts some after it, or all of them and \<open>r\<close> too.\<close>

lemma allocate_or_preempt_ok:
  assumes "sched_ok H f (vs_waiting s) (vs_running s) s" "vs_running s = pre @ r # post" "\<forall>x \<in> set (r # post). f (vs_id s x) = 0"
    "0 < n" "rq_num_computed_tokens (vs_obj s r) + n \<le> int (length (rq_all_token_ids (vs_obj s r)))"
  shows "\<exists>blocks s' P. allocate_or_preempt H now r n s acc = Inr (blocks, s', acc @ P) \<and> step_same s s' \<and>
     vs_scheduled_req_ids s' = vs_scheduled_req_ids s \<and>
     mset (vs_waiting s' @ vs_running s') = mset (vs_waiting s @ vs_running s) \<and> length (vs_running s') \<le> length (vs_running s) \<and>
     prefix (vs_running s') (vs_running s) \<and> unmoved s s' (set (vs_running s') - {r}) \<and>
     (case blocks of
        Some new \<Rightarrow> (\<exists>post'. vs_running s' = pre @ r # post') \<and> vs_obj s' r = vs_obj s r \<and> vs_blocks s' r = vs_blocks s r @ new \<and>
          (P = [] \<longrightarrow> vs_running s' = vs_running s \<and> vs_waiting s' = vs_waiting s \<and> vs_objects s' = vs_objects s) \<and>
          sched_ok H (f(vs_id s r := n)) (vs_waiting s') (vs_running s') s'
      | None \<Rightarrow> vs_running s' = pre \<and> P \<noteq> [] \<and> sched_ok H f (vs_waiting s') (vs_running s') s' \<and>
          (pre = [] \<longrightarrow> int (length (vp_blocks (km_block_pool (vs_km s)))) < km_max_num_blocks_per_req (vs_km s)))"
  using assms
proof (induction post arbitrary: s acc rule: rev_induct)
  case Nil
  have r: "r \<in> set (vs_running s)" "f (vs_id s r) = 0" using Nil.prems(2,3) by simp_all
  from running_grant[OF Nil.prems(1) r Nil.prems(4,5)] consider
    (some) new m where "KVCacheManager_allocate_slots H (vs_km s) (vs_obj s r) n [] = Inr (Some new, m)"
       "sched_ok H (f(vs_id s r := n)) (vs_waiting s) (vs_running s) (s\<lparr>vs_kv_cache_manager := m\<rparr>)" "step_same s (s\<lparr>vs_kv_cache_manager := m\<rparr>)"
       "others_same r s (s\<lparr>vs_kv_cache_manager := m\<rparr>)" "km_blocks_of m (vs_obj s r) = vs_blocks s r @ new"
  | (none) m where "KVCacheManager_allocate_slots H (vs_km s) (vs_obj s r) n [] = Inr (None, m)"
       "sched_ok H f (vs_waiting s) (vs_running s) (s\<lparr>vs_kv_cache_manager := m\<rparr>)" "step_same s (s\<lparr>vs_kv_cache_manager := m\<rparr>)"
       "others_same r s (s\<lparr>vs_kv_cache_manager := m\<rparr>)" "kept (vs_km s) m (vs_id s r)"
       "vs_running s = [r] \<longrightarrow> int (length (vp_blocks (km_block_pool (vs_km s)))) < km_max_num_blocks_per_req (vs_km s)"
    by blast
  then show ?case
  proof cases
    case some
    have um: "unmoved s (s\<lparr>vs_kv_cache_manager := m\<rparr>) (set (vs_running s) - {r})"
      by (rule others_unmoved[OF some(4) Nil.prems(1)]) (use r(1) in auto)
    then show ?thesis using some Nil.prems(2) allocate_or_preempt_some[OF some(1), of now acc]
      by (intro exI[of _ "Some new"] exI[of _ "s\<lparr>vs_kv_cache_manager := m\<rparr>"] exI[of _ "[]"]) simp
  next
    case none
    let ?s1 = "s\<lparr>vs_kv_cache_manager := m\<rparr>"
    have ok1: "sched_ok H f (vs_waiting ?s1) (vs_running ?s1) ?s1" using none(2) by simp
    have R1: "vs_running ?s1 = pre @ [r]" "f (vs_id ?s1 r) = 0" using Nil.prems(2) r(2) by simp_all
    obtain s' where p: "preempt_last now ?s1 = Inr s'" "sched_ok H f (vs_waiting s') (vs_running s') s'" "vs_running s' = pre"
      "vs_waiting s' = r # vs_waiting s" "step_same ?s1 s'" "vs_scheduled_req_ids s' = vs_scheduled_req_ids s" "others_same r ?s1 s'"
      using preempt_last_ok[OF ok1 R1, of now] by (elim exE conjE) simp
    have "others_same r s s'" by (rule others_same_trans[OF none(4) p(7)])
    then have um: "unmoved s s' (set (vs_running s') - {r})"
      by (rule others_unmoved[OF _ Nil.prems(1)]) (use r(1) p(3) Nil.prems(2) in auto)
    have "allocate_or_preempt H now r n s acc = Inr (None, s', acc @ [r])"
      using allocate_or_preempt_none[OF none(1) p(1), of acc] Nil.prems(2) by simp
    then show ?thesis using p step_same_trans[OF none(3) p(5)] none(6) Nil.prems(2) um
      by (intro exI[of _ None] exI[of _ s'] exI[of _ "[r]"]) (simp add: subset_insertI)
  qed
next
  case (snoc x post)
  have r: "r \<in> set (vs_running s)" "f (vs_id s r) = 0" using snoc.prems(2,3) by simp_all
  from running_grant[OF snoc.prems(1) r snoc.prems(4,5)] consider
    (some) new m where "KVCacheManager_allocate_slots H (vs_km s) (vs_obj s r) n [] = Inr (Some new, m)"
       "sched_ok H (f(vs_id s r := n)) (vs_waiting s) (vs_running s) (s\<lparr>vs_kv_cache_manager := m\<rparr>)" "step_same s (s\<lparr>vs_kv_cache_manager := m\<rparr>)"
       "others_same r s (s\<lparr>vs_kv_cache_manager := m\<rparr>)" "km_blocks_of m (vs_obj s r) = vs_blocks s r @ new"
  | (none) m where "KVCacheManager_allocate_slots H (vs_km s) (vs_obj s r) n [] = Inr (None, m)"
       "sched_ok H f (vs_waiting s) (vs_running s) (s\<lparr>vs_kv_cache_manager := m\<rparr>)" "step_same s (s\<lparr>vs_kv_cache_manager := m\<rparr>)"
       "others_same r s (s\<lparr>vs_kv_cache_manager := m\<rparr>)" "kept (vs_km s) m (vs_id s r)"
    by blast
  then show ?case
  proof cases
    case some
    have um: "unmoved s (s\<lparr>vs_kv_cache_manager := m\<rparr>) (set (vs_running s) - {r})"
      by (rule others_unmoved[OF some(4) snoc.prems(1)]) (use r(1) in auto)
    then show ?thesis using some snoc.prems(2) allocate_or_preempt_some[OF some(1), of now acc]
      by (intro exI[of _ "Some new"] exI[of _ "s\<lparr>vs_kv_cache_manager := m\<rparr>"] exI[of _ "[]"]) simp
  next
    case none
    let ?s1 = "s\<lparr>vs_kv_cache_manager := m\<rparr>"
    have ok1: "sched_ok H f (vs_waiting ?s1) (vs_running ?s1) ?s1" using none(2) by simp
    have R1: "vs_running ?s1 = (pre @ r # post) @ [x]" "f (vs_id ?s1 x) = 0" using snoc.prems(2,3) by simp_all
    obtain s2 where p: "preempt_last now ?s1 = Inr s2" "sched_ok H f (vs_waiting s2) (vs_running s2) s2" "vs_running s2 = pre @ r # post"
      "vs_waiting s2 = x # vs_waiting s" "others_same x ?s1 s2" "step_same ?s1 s2" "vs_scheduled_req_ids s2 = vs_scheduled_req_ids s"
      using preempt_last_ok[OF ok1 R1, of now] by (elim exE conjE) simp
    have ne: "r \<noteq> x" using queues_okD(1)[OF sched_okD(2)[OF snoc.prems(1)]] snoc.prems(2) by auto
    have s2: "step_same s s2" by (rule step_same_trans[OF none(3) p(6)])
    have obj: "vs_obj s2 r = vs_obj s r" using p(5) ne by (simp add: others_same_def)
    have z: "\<forall>y \<in> set (r # post). f (vs_id s2 y) = 0" using snoc.prems(3) step_sameD(1)[OF s2] by simp
    have c: "rq_num_computed_tokens (vs_obj s2 r) + n \<le> int (length (rq_all_token_ids (vs_obj s2 r)))" using snoc.prems(5) obj by simp
    from snoc.IH[OF p(2,3) z snoc.prems(4) c, of "acc @ [x]"] obtain blocks s' P where
      a: "allocate_or_preempt H now r n s2 (acc @ [x]) = Inr (blocks, s', (acc @ [x]) @ P)" "step_same s2 s'"
      "vs_scheduled_req_ids s' = vs_scheduled_req_ids s2" "mset (vs_waiting s' @ vs_running s') = mset (vs_waiting s2 @ vs_running s2)"
      "length (vs_running s') \<le> length (vs_running s2)"
      "case blocks of
        Some new \<Rightarrow> (\<exists>post'. vs_running s' = pre @ r # post') \<and> vs_obj s' r = vs_obj s2 r \<and> vs_blocks s' r = vs_blocks s2 r @ new \<and>
          (P = [] \<longrightarrow> vs_running s' = vs_running s2 \<and> vs_waiting s' = vs_waiting s2 \<and> vs_objects s' = vs_objects s2) \<and>
          sched_ok H (f(vs_id s2 r := n)) (vs_waiting s') (vs_running s') s'
      | None \<Rightarrow> vs_running s' = pre \<and> P \<noteq> [] \<and> sched_ok H f (vs_waiting s') (vs_running s') s' \<and>
          (pre = [] \<longrightarrow> int (length (vp_blocks (km_block_pool (vs_km s2)))) < km_max_num_blocks_per_req (vs_km s2))"
      "prefix (vs_running s') (vs_running s2)" "unmoved s2 s' (set (vs_running s') - {r})" by blast
    have xs: "x \<in> set (vs_running s)" using snoc.prems(2) by simp
    have d: "x \<notin> set (pre @ r # post)" using queues_okD(1)[OF sched_okD(2)[OF snoc.prems(1)]] snoc.prems(2) by auto
    have sub: "set (vs_running s2) \<subseteq> set (vs_running s)" "x \<notin> set (vs_running s')" using p(3) d snoc.prems(2) set_mono_prefix[OF a(7)] by auto
    have um1: "unmoved s ?s1 (set (vs_running s) - {r})" by (rule others_unmoved[OF none(4) snoc.prems(1)]) (use r(1) in auto)
    have um2: "unmoved ?s1 s2 (set (vs_running s) - {x})" by (rule others_unmoved[OF p(5) none(2)]) (use xs in auto)
    have um12: "unmoved s s2 (set (vs_running s') - {r})" by (rule unmoved_trans[OF um1 um2]) (use set_mono_prefix[OF a(7)] sub in auto)
    have um: "unmoved s s' (set (vs_running s') - {r})" by (rule unmoved_trans[OF um12 a(8)]) auto
    have "vs_blocks ?s1 r = vs_blocks s r" using none(5) by (simp add: kept_def)
    moreover have "vs_blocks s2 r = vs_blocks ?s1 r" using bspec[OF um2[unfolded unmoved_def], of r] r(1) ne by blast
    ultimately have br: "vs_blocks s2 r = vs_blocks s r" by simp
    have ss: "prefix (vs_running s') (vs_running s)" using prefix_order.trans[OF a(7), of "vs_running s"] p(3) snoc.prems(2) by simp
    have run: "allocate_or_preempt H now r n s acc = Inr (blocks, s', acc @ x # P)"
      using allocate_or_preempt_none[OF none(1) p(1), of acc] a(1) ne snoc.prems(2) by simp
    have ms: "mset (vs_waiting s' @ vs_running s') = mset (vs_waiting s @ vs_running s)" using a(4) p(3,4) snoc.prems(2) by simp
    show ?thesis
      using run step_same_trans[OF s2 a(2)] a(3,5,6) p(3,7) snoc.prems(2) ms obj um ss br step_sameD(1)[OF s2] same_configD[OF step_sameD(3)[OF s2]]
      by (intro exI[of _ blocks] exI[of _ s'] exI[of _ "x # P"]) (cases blocks; clarsimp)
  qed
qed

section \<open>The state of a step\<close>

definition sched_reqs :: "schedule_vars \<Rightarrow> req_ref list" where
  "sched_reqs v = sv_running_reqs v @ sv_new_reqs v @ sv_resumed_reqs v"

definition sched_fn :: "(string, int) dict \<Rightarrow> string \<Rightarrow> int" where
  "sched_fn d i = dict_get_default d i 0"

definition step_inv :: "kv_hasher \<Rightarrow> req_ref list \<Rightarrow> V1Scheduler \<Rightarrow> schedule_vars \<Rightarrow> bool" where
  "step_inv H W s v \<longleftrightarrow> sched_ok H (sched_fn (sv_num_scheduled v)) W (vs_running s) s \<and> dict_ok (sv_num_scheduled v) \<and>
     fst ` set (sv_num_scheduled v) = vs_id s ` set (sched_reqs v) \<and> distinct (sched_reqs v) \<and>
     set (sched_reqs v) \<subseteq> set (vs_running s) \<and> vs_scheduled_req_ids s = vs_id s ` set (sched_reqs v) \<and>
     fst ` set (sv_new_block_ids v) = vs_id s ` set (sched_reqs v) \<and> (\<forall>n \<in> set (dict_values (sv_num_scheduled v)). 0 < n) \<and>
     sv_token_budget v + sum_list (dict_values (sv_num_scheduled v)) = vs_max_num_scheduled_tokens s \<and> 0 \<le> sv_token_budget v \<and>
     sv_spec_tokens v = [] \<and> sv_encoder_inputs v = []"

lemma step_invD:
  assumes "step_inv H W s v"
  shows "sched_ok H (sched_fn (sv_num_scheduled v)) W (vs_running s) s" "dict_ok (sv_num_scheduled v)"
    "fst ` set (sv_num_scheduled v) = vs_id s ` set (sched_reqs v)" "distinct (sched_reqs v)" "set (sched_reqs v) \<subseteq> set (vs_running s)"
    "vs_scheduled_req_ids s = vs_id s ` set (sched_reqs v)" "fst ` set (sv_new_block_ids v) = vs_id s ` set (sched_reqs v)"
    "\<forall>n \<in> set (dict_values (sv_num_scheduled v)). 0 < n"
    "sv_token_budget v + sum_list (dict_values (sv_num_scheduled v)) = vs_max_num_scheduled_tokens s" "0 \<le> sv_token_budget v"
    "sv_spec_tokens v = []" "sv_encoder_inputs v = []"
  using assms unfolding step_inv_def by - (elim conjE, assumption)+

lemma sched_fn_set: "sched_fn (dict_set i n d) = (sched_fn d)(i := n)"
  by (rule ext) (simp add: sched_fn_def dict_get_default_def)

lemma sched_fn_fresh: "i \<notin> fst ` set d \<Longrightarrow> sched_fn d i = 0"
  using dict_has_keys[of d i] by (simp add: sched_fn_def dict_get_default_def)

lemma sched_fn_init: "sched_fn [] = (\<lambda>_. 0)"
  by (rule ext) (simp add: sched_fn_def dict_get_default_def)

text \<open>Recording one more scheduled request.\<close>

lemma step_inv_note:
  assumes inv: "step_inv H W0 s0 v" and ok: "sched_ok H ((sched_fn (sv_num_scheduled v))(vs_id s r := n)) W (vs_running s) s"
    and ids: "\<And>k. vs_id s k = vs_id s0 k" "vs_max_num_scheduled_tokens s = vs_max_num_scheduled_tokens s0"
    and r: "r \<in> set (vs_running s)" "r \<notin> set (sched_reqs v)" "set (sched_reqs v) \<subseteq> set (vs_running s)"
    and n: "0 < n" "n \<le> sv_token_budget v" and sc: "vs_scheduled_req_ids s = insert (vs_id s r) (vs_scheduled_req_ids s0)"
    and w: "sched_reqs w = xs @ r # ys" "sched_reqs v = xs @ ys" "sv_num_scheduled w = sv_num_scheduled v" "sv_new_block_ids w = sv_new_block_ids v"
      "sv_token_budget w = sv_token_budget v" "sv_spec_tokens w = sv_spec_tokens v" "sv_encoder_inputs w = sv_encoder_inputs v"
  shows "step_inv H W s (note_scheduled (vs_id s r) structured bids n w)"
proof -
  let ?v = "note_scheduled (vs_id s r) structured bids n w" and ?d = "sv_num_scheduled v"
  note I = step_invD[OF inv]
  have rq: "sched_reqs ?v = xs @ r # ys" using w(1) by (simp add: note_scheduled_def sched_reqs_def)
  have im: "vs_id s ` A = vs_id s0 ` A" for A using ids(1) by simp
  have inj: "inj_on (vs_id s) (set (vs_running s))"
    using queues_okD(2)[OF sched_okD(2)[OF ok]] by (rule inj_on_subset) simp
  have fresh: "vs_id s r \<notin> fst ` set ?d"
    unfolding I(3) im[symmetric] using inj_on_image_mem_iff[OF inj r(1) r(3)] r(2) by blast
  have d: "sv_num_scheduled ?v = ?d @ [(vs_id s r, n)]" using w(3) dict_set_fresh[OF fresh] by (simp add: note_scheduled_def)
  have set_rq: "set (sched_reqs ?v) = insert r (set (sched_reqs v))" unfolding rq w(2) by auto
  have "sched_fn (sv_num_scheduled ?v) = (sched_fn ?d)(vs_id s r := n)" using w(3) by (simp add: note_scheduled_def sched_fn_set)
  then have ok': "sched_ok H (sched_fn (sv_num_scheduled ?v)) W (vs_running s) s" using ok by simp
  have b: "fst ` set (sv_new_block_ids ?v) = insert (vs_id s r) (fst ` set (sv_new_block_ids v))" using w(4) by (simp add: note_scheduled_def)
  have t: "sv_token_budget ?v = sv_token_budget v - n" "sv_spec_tokens ?v = []" "sv_encoder_inputs ?v = []"
    using w(5-7) I(11,12) by (simp_all add: note_scheduled_def)
  have dk: "dict_ok (sv_num_scheduled ?v)" using I(2) fresh unfolding d by (simp add: dict_ok_def)
  have ks: "fst ` set (sv_num_scheduled ?v) = vs_id s ` set (sched_reqs ?v)" unfolding d set_rq using I(3) im by (simp add: ids(1))
  have ds: "distinct (sched_reqs ?v)" unfolding rq using I(4) r(2) w(2) by auto
  have sb: "set (sched_reqs ?v) \<subseteq> set (vs_running s)" unfolding set_rq using r by blast
  have sc': "vs_scheduled_req_ids s = vs_id s ` set (sched_reqs ?v)" unfolding set_rq sc I(6) im by (simp add: ids(1))
  have bk: "fst ` set (sv_new_block_ids ?v) = vs_id s ` set (sched_reqs ?v)" unfolding set_rq b I(7) im by (simp add: ids(1))
  have ps: "\<forall>n \<in> set (dict_values (sv_num_scheduled ?v)). 0 < n" unfolding d using I(8) n(1) by auto
  have sm: "sv_token_budget ?v + sum_list (dict_values (sv_num_scheduled ?v)) = vs_max_num_scheduled_tokens s"
    unfolding d t(1) ids(2) using I(9) by simp
  have "0 \<le> sv_token_budget ?v" using t(1) n(2) by simp
  then show ?thesis unfolding step_inv_def using ok' dk ks ds sb sc' bk ps sm t(2,3) by blast
qed

text \<open>Text requests have no encoder inputs and no speculative tokens.\<close>

lemma text_no_inputs: "text_request n q \<Longrightarrow> try_schedule_encoder_inputs e q c k b = Inr ([], k, b)"
  by (simp add: text_request_def try_schedule_encoder_inputs_def Request_has_encoder_inputs_def)

lemma schedule_encoder_none [simp]: "schedule_encoder r [] b sv = Inr sv"
  by (cases sv) (simp add: schedule_encoder_def)

lemma text_no_spec: "text_request n (vs_obj s r) \<Longrightarrow> trim_spec_tokens r k (s, v) = (s, v)"
  by (simp add: text_request_def trim_spec_tokens_def Let_def)

section \<open>One round\<close>

definition enough_blocks :: "V1Scheduler \<Rightarrow> bool" where
  "enough_blocks s \<longleftrightarrow> km_max_num_blocks_per_req (vs_km s) \<le> int (length (vp_blocks (km_block_pool (vs_km s))))"

lemma enough_blocks_same: "step_same s s' \<Longrightarrow> enough_blocks s' = enough_blocks s"
  using same_configD[OF step_sameD(3), of s s'] by (simp add: enough_blocks_def)

definition run_inv :: "kv_hasher \<Rightarrow> V1Scheduler \<Rightarrow> schedule_vars \<Rightarrow> bool" where
  "run_inv H s v \<longleftrightarrow> step_inv H (vs_waiting s) s v \<and> sv_new_reqs v = [] \<and> sv_resumed_reqs v = [] \<and>
     sv_running_reqs v = take (sv_req_index v) (vs_running s) \<and> sv_req_index v \<le> length (vs_running s)"

text \<open>
  The requests in \<open>A\<close> have new blocks, recorded in the dictionary; the other running requests have
  the blocks they had.
\<close>

definition granted :: "V1Scheduler \<Rightarrow> schedule_vars \<Rightarrow> V1Scheduler \<Rightarrow> schedule_vars \<Rightarrow> req_ref set \<Rightarrow> bool" where
  "granted s v s' v' A \<longleftrightarrow>
     (\<forall>i. i \<notin> vs_id s ` A \<longrightarrow> dict_get (sv_new_block_ids v') i = dict_get (sv_new_block_ids v) i) \<and>
     (\<forall>x \<in> set (vs_running s'). x \<notin> A \<longrightarrow> vs_blocks s' x = vs_blocks s x) \<and>
     (\<forall>x \<in> A. \<exists>new. dict_get (sv_new_block_ids v') (vs_id s x) = Some new \<and> vs_blocks s' x = vs_blocks s x @ new)"

lemma granted_refl [simp]: "granted s v s v {}"
  by (simp add: granted_def)

lemma granted_trans:
  assumes g: "granted s v s1 v1 A" "granted s1 v1 s2 v2 B" and ids: "\<And>k. vs_id s1 k = vs_id s k"
    and inj: "inj_on (vs_id s) (A \<union> B)" "A \<inter> B = {}" and A: "A \<subseteq> set (vs_running s2)"
    and R: "set (vs_running s2) \<subseteq> set (vs_running s1) \<union> B" and B: "\<And>x. x \<in> B \<Longrightarrow> x \<notin> set (vs_running s1) \<Longrightarrow> vs_blocks s1 x = vs_blocks s x"
  shows "granted s v s2 v2 (A \<union> B)"
proof -
  have im: "vs_id s1 ` X = vs_id s ` X" for X using ids by simp
  have out: "vs_id s x \<notin> vs_id s ` B" if "x \<in> A" for x using inj that by (force dest: inj_onD)
  have 1: "dict_get (sv_new_block_ids v2) i = dict_get (sv_new_block_ids v) i" if "i \<notin> vs_id s ` (A \<union> B)" for i
    using that g unfolding granted_def im image_Un by (metis UnCI)
  have 2: "vs_blocks s2 x = vs_blocks s x" if "x \<in> set (vs_running s2)" "x \<notin> A \<union> B" for x
    using that g R unfolding granted_def by (metis UnE UnI1 UnI2 subsetD)
  have 3: "\<exists>new. dict_get (sv_new_block_ids v2) (vs_id s x) = Some new \<and> vs_blocks s2 x = vs_blocks s x @ new" if "x \<in> A" for x
  proof -
    have "x \<notin> B" using inj(2) that by auto
    then have "vs_blocks s2 x = vs_blocks s1 x" using g(2) A that unfolding granted_def by blast
    moreover have "dict_get (sv_new_block_ids v2) (vs_id s x) = dict_get (sv_new_block_ids v1) (vs_id s x)"
      using g(2) out[OF that] unfolding granted_def im by blast
    ultimately show ?thesis using g(1) that unfolding granted_def by metis
  qed
  have 4: "\<exists>new. dict_get (sv_new_block_ids v2) (vs_id s x) = Some new \<and> vs_blocks s2 x = vs_blocks s x @ new" if "x \<in> B" for x
  proof -
    have "x \<notin> A" using inj(2) that by auto
    then have "vs_blocks s1 x = vs_blocks s x" using g(1) B that unfolding granted_def by blast
    then show ?thesis using g(2) that ids[of x] unfolding granted_def by metis
  qed
  show ?thesis unfolding granted_def using 1 2 3 4 by blast
qed

lemma schedule_running_step_ok:
  assumes ri: "run_inv H s v" and i: "sv_req_index v < length (vs_running s)" and b: "0 < sv_token_budget v"
  shows "\<exists>c s' v' P. schedule_running_step H now (s, v) = Inr (c, s', v') \<and> run_inv H s' v' \<and> step_same s s' \<and>
     mset (vs_waiting s' @ vs_running s') = mset (vs_waiting s @ vs_running s) \<and> sv_preempted_reqs v' = sv_preempted_reqs v @ P \<and>
     length (vs_running s') \<le> length (vs_running s) \<and> prefix (vs_running s') (vs_running s) \<and>
     (\<forall>x \<in> set (vs_running s'). vs_obj s' x = vs_obj s x) \<and>
     (P = [] \<longrightarrow> vs_running s' = vs_running s \<and> vs_waiting s' = vs_waiting s \<and> vs_objects s' = vs_objects s) \<and>
     (if c then sv_req_index v' = Suc (sv_req_index v) \<and> (\<exists>x. sv_running_reqs v' = sv_running_reqs v @ [x] \<and> granted s v s' v' {x})
      else P \<noteq> [] \<and> sv_running_reqs v' = sv_running_reqs v \<and> granted s v s' v' {} \<and> (sv_req_index v = 0 \<longrightarrow> \<not> enough_blocks s))"
proof -
  have inv: "step_inv H (vs_waiting s) s v" and em: "sv_new_reqs v = []" "sv_resumed_reqs v = []"
    and rr: "sv_running_reqs v = take (sv_req_index v) (vs_running s)" using ri by (simp_all add: run_inv_def)
  note I = step_invD[OF inv]
  define r where "r = vs_running s ! sv_req_index v"
  define pre where "pre = take (sv_req_index v) (vs_running s)"
  define post where "post = drop (Suc (sv_req_index v)) (vs_running s)"
  let ?q = "vs_obj s r" and ?f = "sched_fn (sv_num_scheduled v)"
  have R: "vs_running s = pre @ r # post" unfolding pre_def r_def post_def by (rule id_take_nth_drop[OF i])
  have sr: "sched_reqs v = pre" using em rr by (simp add: sched_reqs_def pre_def)
  have inj: "inj_on (vs_id s) (set (vs_running s))" using queues_okD(2)[OF sched_okD(2)[OF I(1)]] by (rule inj_on_subset) simp
  have dr: "distinct (vs_running s)" using queues_okD(1)[OF sched_okD(2)[OF I(1)]] by simp
  have out: "vs_id s x \<notin> vs_id s ` set pre" if "x \<in> set (r # post)" for x
    using inj_on_image_mem_iff[OF inj, of x "set pre"] that dr R by auto
  have f0: "\<forall>x \<in> set (r # post). ?f (vs_id s x) = 0" using out sched_fn_fresh I(3) sr by metis
  have rin: "r \<in> set (vs_running s)" using R by simp
  have run: "running_ok H s ?f r" by (rule sched_okD(6)[OF I(1) rin])
  then have tx: "text_request (vs_max_model_len s) ?q" and lt: "rq_num_computed_tokens ?q < int (length (rq_all_token_ids ?q))"
    by (simp_all add: running_ok_def)
  have nsp: "rq_spec_token_ids ?q = []" using tx by (simp add: text_request_def)
  define n where "n = min (int (Request_num_tokens_with_spec ?q) - rq_num_computed_tokens ?q) (sv_token_budget v)"
  have n: "0 < n" "n \<le> sv_token_budget v" "rq_num_computed_tokens ?q + n \<le> int (length (rq_all_token_ids ?q))"
    using lt b nsp by (auto simp: n_def Request_num_tokens_with_spec_def)
  have notin: "rq_request_id ?q \<notin> vs_scheduled_req_ids s" using out[of r] I(6) sr by simp
  obtain blocks s1 P where a: "allocate_or_preempt H now r n s (sv_preempted_reqs v) = Inr (blocks, s1, sv_preempted_reqs v @ P)"
    "step_same s s1" "vs_scheduled_req_ids s1 = vs_scheduled_req_ids s" "mset (vs_waiting s1 @ vs_running s1) = mset (vs_waiting s @ vs_running s)"
    "length (vs_running s1) \<le> length (vs_running s)"
    "case blocks of
        Some new \<Rightarrow> (\<exists>post'. vs_running s1 = pre @ r # post') \<and> vs_obj s1 r = vs_obj s r \<and> vs_blocks s1 r = vs_blocks s r @ new \<and>
          (P = [] \<longrightarrow> vs_running s1 = vs_running s \<and> vs_waiting s1 = vs_waiting s \<and> vs_objects s1 = vs_objects s) \<and>
          sched_ok H (?f(vs_id s r := n)) (vs_waiting s1) (vs_running s1) s1
      | None \<Rightarrow> vs_running s1 = pre \<and> P \<noteq> [] \<and> sched_ok H ?f (vs_waiting s1) (vs_running s1) s1 \<and>
          (pre = [] \<longrightarrow> int (length (vp_blocks (km_block_pool (vs_km s)))) < km_max_num_blocks_per_req (vs_km s))"
    "prefix (vs_running s1) (vs_running s)" "unmoved s s1 (set (vs_running s1) - {r})"
    using allocate_or_preempt_ok[OF I(1) R f0 n(1,3), of now "sv_preempted_reqs v"] by blast
  note id1 = step_sameD[OF a(2)]
  let ?v1 = "v\<lparr>sv_preempted_reqs := sv_preempted_reqs v @ P\<rparr>"
  show ?thesis
  proof (cases blocks)
    case None
    have step: "schedule_running_step H now (s, v) = Inr (False, s1, ?v1)"
      using notin n(1) a(1) None text_no_inputs[OF tx]
      by (simp add: schedule_running_step_def Let_def r_def[symmetric] n_def[symmetric])
    have A: "vs_running s1 = pre" "P \<noteq> []" "sched_ok H ?f (vs_waiting s1) (vs_running s1) s1"
      "pre = [] \<longrightarrow> int (length (vp_blocks (km_block_pool (vs_km s)))) < km_max_num_blocks_per_req (vs_km s)" using a(6) None by auto
    have same: "sched_reqs ?v1 = sched_reqs v" "vs_id s1 ` B = vs_id s ` B" for B using id1(1) by (simp_all add: sched_reqs_def)
    have sb: "set (sched_reqs v) \<subseteq> set (vs_running s1)" using sr A(1) by simp
    have "step_inv H (vs_waiting s1) s1 ?v1"
      using I(2-4,6-) A(3) a(3) id1(4) sb by (simp add: step_inv_def same)
    then have "run_inv H s1 ?v1" using em rr A(1) i by (simp add: run_inv_def pre_def)
    moreover have "sv_req_index v = 0 \<longrightarrow> \<not> enough_blocks s" using A(4) by (auto simp: pre_def enough_blocks_def)
    moreover have "r \<notin> set (vs_running s1)" using A(1) dr R by auto
    then have "granted s v s1 ?v1 {}" "\<forall>x \<in> set (vs_running s1). vs_obj s1 x = vs_obj s x"
      using a(8) by (auto simp: granted_def unmoved_def)
    ultimately show ?thesis using step a(2,4,5,7) A(2)
      by (intro exI[of _ False] exI[of _ s1] exI[of _ ?v1] exI[of _ P]) simp
  next
    case (Some new)
    have A: "vs_obj s1 r = ?q" "P = [] \<longrightarrow> vs_running s1 = vs_running s \<and> vs_waiting s1 = vs_waiting s \<and> vs_objects s1 = vs_objects s"
      "sched_ok H (?f(vs_id s r := n)) (vs_waiting s1) (vs_running s1) s1" using a(6) Some by simp_all
    obtain post' where R1: "vs_running s1 = pre @ r # post'" using a(6) Some by auto
    let ?s2 = "s1\<lparr>vs_scheduled_req_ids := insert (vs_id s r) (vs_scheduled_req_ids s1)\<rparr>"
    let ?w = "?v1\<lparr>sv_running_reqs := sv_running_reqs v @ [r]\<rparr>"
    let ?v2 = "note_scheduled (vs_id s r) (Request_use_structured_output ?q) (block_ids_of ?s2 new) n ?w"
    have step: "schedule_running_step H now (s, v) = Inr (True, ?s2, ?v2)"
      using notin n(1) a(1) Some text_no_inputs[OF tx] A(1) tx id1(6) text_no_spec[of "vs_max_model_len s" ?s2 r]
      by (simp add: schedule_running_step_def Let_def r_def[symmetric] n_def[symmetric])
    have st2: "step_same s ?s2" using a(2) by (simp add: step_same_def)
    have ok2: "sched_ok H (?f(vs_id ?s2 r := n)) (vs_waiting s1) (vs_running ?s2) ?s2"
      using A(3) id1(1) unfolding sched_ok_def static_ok_def queues_ok_def no_strays_def waiting_ok_def running_ok_def by simp
    have si: "step_inv H (vs_waiting s1) ?s2 (note_scheduled (vs_id ?s2 r) (Request_use_structured_output ?q) (block_ids_of ?s2 new) n ?w)"
    proof (rule step_inv_note[OF inv ok2])
      show "vs_id ?s2 k = vs_id s k" for k using id1(1) by simp
      show "r \<notin> set (sched_reqs v)" using dr R sr by simp
      show "set (sched_reqs v) \<subseteq> set (vs_running ?s2)" using sr R1 by auto
      show "sched_reqs ?w = pre @ r # []" "sched_reqs v = pre @ []" using em rr by (simp_all add: sched_reqs_def pre_def)
    qed (use R1 n id1(1,4) a(3) in simp_all)
    have "vs_id ?s2 r = vs_id s r" using id1(1) by simp
    then have si2: "step_inv H (vs_waiting s1) ?s2 ?v2" using si by simp
    have lp: "length pre = sv_req_index v" using i by (simp add: pre_def)
    have idx: "sv_req_index ?v2 = Suc (sv_req_index v)" "sv_running_reqs ?v2 = sv_running_reqs v @ [r]" "sv_new_reqs ?v2 = []" "sv_resumed_reqs ?v2 = []"
      "sv_preempted_reqs ?v2 = sv_preempted_reqs v @ P"
      using em by (simp_all add: note_scheduled_def)
    have "run_inv H ?s2 ?v2" unfolding run_inv_def using si2 idx rr R1 lp by (simp add: pre_def[symmetric])
    moreover have vo: "\<forall>x \<in> set (vs_running s1). vs_obj s1 x = vs_obj s x" using a(8) A(1) by (auto simp: unmoved_def)
    moreover have "granted s v ?s2 ?v2 {r}"
    proof -
      obtain xs where inv1: "km_inv (vs_km ?s2) xs" using sched_okD(3)[OF A(3)] by auto
      have b1: "vs_blocks s1 r = vs_blocks s r @ new" using a(6)[unfolded Some option.case] by blast
      have "block_ids_of ?s2 new = new" by (rule block_ids_same[OF inv1, of _ r]) (use b1 in simp)
      then have "dict_get (sv_new_block_ids ?v2) (vs_id s r) = Some new" by (simp add: note_scheduled_def)
      moreover have "vs_blocks ?s2 x = vs_blocks s x" if "x \<in> set (vs_running ?s2)" "x \<notin> {r}" for x
        using unmovedD(2)[OF a(8), of x] that by simp
      moreover have "dict_get (sv_new_block_ids ?v2) i = dict_get (sv_new_block_ids v) i" if "i \<notin> vs_id s ` {r}" for i
        using that by (simp add: note_scheduled_def)
      ultimately show ?thesis using b1 unfolding granted_def by simp
    qed
    ultimately show ?thesis using step st2 a(4,5,7) A(2) idx
      by (intro exI[of _ True] exI[of _ ?s2] exI[of _ ?v2] exI[of _ P]) simp
  qed
qed

section \<open>The loop\<close>

lemma schedule_running_ok:
  assumes "run_inv H s v" "length (vs_running s) - sv_req_index v \<le> fuel"
  shows "\<exists>s' v' P more. schedule_running H now fuel (s, v) = Inr (s', v') \<and> run_inv H s' v' \<and> step_same s s' \<and>
     mset (vs_waiting s' @ vs_running s') = mset (vs_waiting s @ vs_running s) \<and> sv_preempted_reqs v' = sv_preempted_reqs v @ P \<and>
     (P = [] \<longrightarrow> vs_running s' = vs_running s \<and> vs_waiting s' = vs_waiting s \<and> vs_objects s' = vs_objects s \<and>
        (sv_req_index v' = length (vs_running s') \<or> sv_token_budget v' \<le> 0)) \<and>
     sv_running_reqs v' = sv_running_reqs v @ more \<and> prefix (vs_running s') (vs_running s) \<and>
     (\<forall>x \<in> set (vs_running s'). vs_obj s' x = vs_obj s x) \<and> granted s v s' v' (set more) \<and>
     (sv_req_index v = 0 \<and> vs_running s \<noteq> [] \<and> 0 < sv_token_budget v \<and> enough_blocks s \<longrightarrow> more \<noteq> [])"
  using assms
proof (induction fuel arbitrary: s v)
  case fuel: 0
  have "sv_req_index v = length (vs_running s)" using fuel by (simp add: run_inv_def)
  then show ?case using fuel.prems(1)
    by (intro exI[of _ s] exI[of _ v] exI[of _ "[]"]) (auto simp: schedule_running.simps)
next
  case (Suc fuel)
  show ?case
  proof (cases "sv_req_index v < length (vs_running s) \<and> 0 < sv_token_budget v")
    case False
    then have "sv_req_index v = length (vs_running s) \<or> sv_token_budget v \<le> 0" using Suc.prems(1) by (auto simp: run_inv_def)
    then show ?thesis using Suc.prems(1) False
      by (intro exI[of _ s] exI[of _ v] exI[of _ "[]"]) (auto simp: schedule_running.simps)
  next
    case True
    obtain c s1 v1 P where a: "schedule_running_step H now (s, v) = Inr (c, s1, v1)" "run_inv H s1 v1" "step_same s s1"
     "mset (vs_waiting s1 @ vs_running s1) = mset (vs_waiting s @ vs_running s)" "sv_preempted_reqs v1 = sv_preempted_reqs v @ P"
     "length (vs_running s1) \<le> length (vs_running s)" "P = [] \<longrightarrow> vs_running s1 = vs_running s \<and> vs_waiting s1 = vs_waiting s \<and> vs_objects s1 = vs_objects s"
     "if c then sv_req_index v1 = Suc (sv_req_index v) \<and> (\<exists>x. sv_running_reqs v1 = sv_running_reqs v @ [x] \<and> granted s v s1 v1 {x})
      else P \<noteq> [] \<and> sv_running_reqs v1 = sv_running_reqs v \<and> granted s v s1 v1 {} \<and> (sv_req_index v = 0 \<longrightarrow> \<not> enough_blocks s)"
     "prefix (vs_running s1) (vs_running s)" "\<forall>x \<in> set (vs_running s1). vs_obj s1 x = vs_obj s x"
      using schedule_running_step_ok[OF Suc.prems(1), of now] True by blast
    have run: "schedule_running H now (Suc fuel) (s, v) = (if c then schedule_running H now fuel (s1, v1) else Inr (s1, v1))"
      using True a(1) by (simp add: schedule_running.simps[of H now "Suc fuel"])
    show ?thesis
    proof (cases c)
      case False
      then show ?thesis using run a by - (rule exI[of _ s1], rule exI[of _ v1], rule exI[of _ P], rule exI[of _ "[]"], auto)
    next
      case c: True
      obtain x where x: "sv_running_reqs v1 = sv_running_reqs v @ [x]" "sv_req_index v1 = Suc (sv_req_index v)" "granted s v s1 v1 {x}"
        using a(8) c by auto
      have "length (vs_running s1) - sv_req_index v1 \<le> fuel" using Suc.prems(2) a(6) x(2) by simp
      from Suc.IH[OF a(2) this] obtain s' v' P' more where b: "schedule_running H now fuel (s1, v1) = Inr (s', v')" "run_inv H s' v'"
        "step_same s1 s'" "mset (vs_waiting s' @ vs_running s') = mset (vs_waiting s1 @ vs_running s1)"
        "sv_preempted_reqs v' = sv_preempted_reqs v1 @ P'"
        "P' = [] \<longrightarrow> vs_running s' = vs_running s1 \<and> vs_waiting s' = vs_waiting s1 \<and> vs_objects s' = vs_objects s1 \<and>
          (sv_req_index v' = length (vs_running s') \<or> sv_token_budget v' \<le> 0)"
        "sv_running_reqs v' = sv_running_reqs v1 @ more" "prefix (vs_running s') (vs_running s1)"
        "\<forall>x \<in> set (vs_running s'). vs_obj s' x = vs_obj s1 x" "granted s1 v1 s' v' (set more)" by blast
      note I' = step_invD[of H "vs_waiting s'" s' v']
      have si: "step_inv H (vs_waiting s') s' v'" "sv_new_reqs v' = []" "sv_resumed_reqs v' = []" using b(2) by (simp_all add: run_inv_def)
      have sr: "sched_reqs v' = sv_running_reqs v @ x # more" using si(2,3) b(7) x(1) by (simp add: sched_reqs_def)
      have in': "set (x # more) \<subseteq> set (vs_running s')" "x \<notin> set more" using I'(4,5)[OF si(1)] sr by auto
      have in0: "set (x # more) \<subseteq> set (vs_running s)" using in'(1) set_mono_prefix[OF b(8)] set_mono_prefix[OF a(9)] by blast
      have "inj_on (vs_id s) (set (vs_running s))"
        using Suc.prems(1) queues_okD(2)[OF sched_okD(2)[OF step_invD(1)], of H "vs_waiting s" s v]
        by (auto simp: run_inv_def inj_on_Un)
      then have inj: "inj_on (vs_id s) ({x} \<union> set more)" by (rule inj_on_subset) (use in0 in auto)
      have "granted s v s' v' ({x} \<union> set more)"
        by (rule granted_trans[OF x(3) b(10) step_sameD(1)[OF a(3)] inj]) (use in' set_mono_prefix[OF b(8)] in auto)
      then have g: "granted s v s' v' (set (x # more))" by simp
      have ob: "\<forall>k \<in> set (vs_running s'). vs_obj s' k = vs_obj s k" using set_mono_prefix[OF b(8)] b(9) a(10) by (metis subsetD)
      have sub: "prefix (vs_running s') (vs_running s)" using prefix_order.trans[OF b(8) a(9)] .
      show ?thesis using run c b(1-7) a(4,5,7) x(1) g ob sub step_same_trans[OF a(3) b(3)]
        by - (rule exI[of _ s'], rule exI[of _ v'], rule exI[of _ "P @ P'"], rule exI[of _ "x # more"], auto)
    qed
  qed
qed

end
