(* ===== verification/V1_Waiting.thy ===== *)
theory V1_Waiting
  imports V1_Running_Loop "HOL-Library.Sublist"
begin

text \<open>
  The second half of a scheduling step keeps the invariant: the first waiting request is set
  aside, admitted with its cached prefix and new slots, or ends the loop. When nothing runs and
  the cache holds a request of the maximal length, it is never refused.
\<close>

section \<open>The first waiting request\<close>

definition for_grammar :: "V1Scheduler \<Rightarrow> req_ref \<Rightarrow> bool" where
  "for_grammar s r \<longleftrightarrow> rq_status (vs_obj s r) = WAITING_FOR_FSM \<and> \<not> rq_grammar (vs_obj s r)"

text \<open>A change of the first waiting request that leaves its slots empty.\<close>

lemma step_inv_waiting_change:
  assumes inv: "step_inv H W s v" and o: "others_same r s s'" "step_same s s'" and r: "r \<in> set W" and km: "km_inv (vs_km s') xs"
    and w: "waiting_ok H s' r" and q: "mset W' = mset W" "vs_running s' = vs_running s" "vs_scheduled_req_ids s' = vs_scheduled_req_ids s"
  shows "step_inv H W' s' v"
proof -
  note I = step_invD[OF inv]
  have nr: "r \<notin> set (vs_running s')" using queues_okD(1)[OF sched_okD(2)[OF I(1)]] r q(2) by auto
  have "sched_ok H (sched_fn (sv_num_scheduled v)) W' (vs_running s') s'"
    by (rule sched_ok_change[OF I(1) o(1) _ km]) (use r w nr q sched_okD(4)[OF I(1)] in auto)
  moreover have "vs_id s' ` B = vs_id s ` B" for B using step_sameD(1)[OF o(2)] by simp
  ultimately show ?thesis using I(2-) q(2,3) step_sameD(4)[OF o(2)] by (simp add: step_inv_def)
qed

lemma grammar_step_ok:
  assumes inv: "step_inv H W s v" and r: "r \<in> set W" "\<not> for_grammar s r"
  shows "\<exists>s'. grammar_step r s = Some s' \<and> step_inv H W s' v \<and> others_same r s s' \<and> step_same s s' \<and> vs_waiting s' = vs_waiting s \<and>
     vs_running s' = vs_running s \<and> rq_status (vs_obj s' r) \<in> {WAITING, PREEMPTED} \<and> vs_km s' = vs_km s \<and>
     (rq_status (vs_obj s' r) = PREEMPTED \<longleftrightarrow> rq_status (vs_obj s r) = PREEMPTED)"
proof -
  note I = step_invD[OF inv]
  note w = sched_okD(5)[OF I(1) r(1)]
  have st: "rq_status (vs_obj s r) \<in> {WAITING, WAITING_FOR_FSM, PREEMPTED}" using w by (simp add: waiting_ok_def)
  show ?thesis
  proof (cases "rq_status (vs_obj s r) = WAITING_FOR_FSM")
    case False
    then show ?thesis using inv st by (intro exI[of _ s]) (auto simp: grammar_step_def)
  next
    case True
    let ?g = "\<lambda>q. q\<lparr>rq_status := WAITING\<rparr>"
    let ?s = "vs_put r ?g s"
    have len: "r < length (vs_objects s)" using queues_okD(3)[OF sched_okD(2)[OF I(1)], of r] r(1) by simp
    have o: "others_same r s ?s" "step_same s ?s" by (rule vs_put_others; simp add: step_obj_def)+
    have "same_text (vs_obj s r) (vs_obj ?s r)" using len by (simp add: same_text_def)
    then have "waiting_ok H ?s r" using w len slots_same_text(2) by (simp add: waiting_ok_def text_request_def)
    moreover obtain xs where "km_inv (vs_km ?s) xs" using sched_okD(3)[OF I(1)] by auto
    ultimately have "step_inv H W ?s v" using step_inv_waiting_change[OF inv o r(1), of xs W] by simp
    then show ?thesis using True r(2) o len by (intro exI[of _ ?s]) (simp add: grammar_step_def for_grammar_def)
  qed
qed

text \<open>Its computed tokens and the tokens left; the last block is never taken from the cache alone.\<close>

lemma waiting_tokens_ok:
  assumes bs: "0 < vs_block_size s" and len: "length rs * vs_block_size s \<le> length (rq_all_token_ids q)" and ne: "rq_all_token_ids q \<noteq> []"
  shows "\<exists>rs' n. waiting_tokens s q rs (int (length rs * vs_block_size s)) = Inr (rs', int (length rs' * vs_block_size s), n) \<and>
     0 < n \<and> int (length rs' * vs_block_size s) + n = int (length (rq_all_token_ids q)) \<and> (rs' = rs \<or> rs' = butlast rs)"
proof (cases "length rs * vs_block_size s = length (rq_all_token_ids q)")
  case True
  then have rs: "rs \<noteq> []" using ne by auto
  then have e: "int (length (butlast rs) * vs_block_size s) = int (length rs * vs_block_size s) - int (vs_block_size s)"
    using bs by (cases rs) (simp_all add: algebra_simps)
  have "waiting_tokens s q rs (int (length rs * vs_block_size s)) =
     Inr (butlast rs, int (length (butlast rs) * vs_block_size s), int (vs_block_size s))"
    using True rs unfolding e by (simp add: waiting_tokens_def Request_num_tokens_def)
  then show ?thesis using bs True e by (intro exI[of _ "butlast rs"] exI[of _ "int (vs_block_size s)"]) simp
next
  case False
  let ?n = "int (length (rq_all_token_ids q)) - int (length rs * vs_block_size s)"
  have "0 < ?n" using False len by linarith
  then show ?thesis by (intro exI[of _ rs] exI[of _ ?n]) (simp add: waiting_tokens_def Request_num_tokens_def)
qed

section \<open>Admission\<close>

lemma admit_ok:
  assumes inv: "step_inv H W0 s0 v" and o: "others_same r s0 s" "step_same s0 s" and W: "mset (r # W) = mset W0"
    and q: "vs_running s = vs_running s0" "vs_scheduled_req_ids s = vs_scheduled_req_ids s0" "tl (vs_waiting s) = ws"
    and km: "km_inv (vs_km s) ys" and room: "length (vs_running s0) < vs_max_num_running_reqs s0"
    and tx: "text_request (vs_max_model_len s) (vs_obj s r)" and st: "rq_status (vs_obj s r) \<in> {WAITING, PREEMPTED}"
    and c: "0 \<le> c" "c < int (length (rq_all_token_ids (vs_obj s r)))" and n: "0 < n" "n \<le> sv_token_budget v"
    and slots: "run_slots H (vs_km s) (vs_obj s r) (c + n)"
  shows "\<exists>s' v'. admit_request now r blocks c n [] b s v = Inr (s', v') \<and> step_inv H W s' v' \<and> others_same r s s' \<and> step_same s s' \<and> vs_waiting s' = ws \<and>
     vs_running s' = vs_running s @ [r] \<and> sv_preempted_reqs v' = sv_preempted_reqs v \<and> sv_running_reqs v' = sv_running_reqs v \<and>
     insert r (set (sched_reqs v)) \<subseteq> set (sched_reqs v') \<and> vs_km s' = vs_km s \<and>
     sv_new_block_ids v' = dict_set (vs_id s r) (block_ids_of s blocks) (sv_new_block_ids v) \<and>
     sv_new_reqs v' = sv_new_reqs v @ (if rq_status (vs_obj s r) = PREEMPTED then [] else [r]) \<and>
     sv_resumed_reqs v' = sv_resumed_reqs v @ (if rq_status (vs_obj s r) = PREEMPTED then [r] else [])"
proof -
  note I = step_invD[OF inv]
  have rW: "r \<in> set W0" using W by (metis list.set_intros(1) mset_eq_setD)
  have nr: "r \<notin> set (vs_running s0)" using queues_okD(1)[OF sched_okD(2)[OF I(1)]] rW by auto
  have len: "r < length (vs_objects s)"
    using queues_okD(3)[OF sched_okD(2)[OF I(1)], of r] rW step_sameD(2)[OF o(2)] by simp
  define e :: "Request \<Rightarrow> Request" where "e = (\<lambda>q. if vs_log_stats s then q\<lparr>rq_events := rq_events q @ [(EV_SCHEDULED, now)]\<rparr> else q)"
  define g :: "Request \<Rightarrow> Request" where "g = (\<lambda>q. q\<lparr>rq_status := RUNNING, rq_num_computed_tokens := c\<rparr>)"
  define s1 where "s1 = s\<lparr>vs_waiting := ws, vs_running := vs_running s @ [r], vs_scheduled_req_ids := insert (vs_id s r) (vs_scheduled_req_ids s)\<rparr>"
  define s2 where "s2 = vs_put r e s1"
  define s' where "s' = vs_put r g s2"
  have s2: "Scheduler_request_scheduled now r s1 = s2"
    by (simp add: Scheduler_request_scheduled_def record_event_put s2_def e_def s1_def)
  have o1: "others_same r s s1" "step_same s s1" by (simp_all add: s1_def others_same_def step_same_def)
  have o2: "others_same r s1 s2" "step_same s1 s2" unfolding s2_def by (rule vs_put_others; simp add: e_def step_obj_def)+
  have o3: "others_same r s2 s'" "step_same s2 s'" unfolding s'_def by (rule vs_put_others; simp add: g_def step_obj_def)+
  have ss': "others_same r s s'" "step_same s s'"
    using others_same_trans[OF others_same_trans[OF o1(1) o2(1)] o3(1)] step_same_trans[OF step_same_trans[OF o1(2) o2(2)] o3(2)] by blast+
  have s0s': "others_same r s0 s'" "step_same s0 s'" using others_same_trans[OF o(1) ss'(1)] step_same_trans[OF o(2) ss'(2)] by blast+
  have obj: "vs_obj s' r = g (e (vs_obj s r))" using len by (simp add: s'_def s2_def s1_def)
  have km': "vs_km s' = vs_km s" "vs_running s' = vs_running s @ [r]" "vs_waiting s' = ws"
    "vs_scheduled_req_ids s' = insert (vs_id s r) (vs_scheduled_req_ids s)" by (simp_all add: s'_def s2_def s1_def)
  have same_q: "same_text (vs_obj s r) (vs_obj s' r)" by (simp add: obj same_text_def g_def e_def)
  let ?f = "(sched_fn (sv_num_scheduled v))(vs_id s' r := n)"
  have idr: "vs_id s' r = vs_id s0 r" "vs_id s r = vs_id s0 r" using step_sameD(1)[OF s0s'(2)] step_sameD(1)[OF o(2)] by simp_all
  have run: "running_ok H s' ?f r"
    using tx c n slots slots_same_text(1)[OF same_q, of H "vs_km s" "c + n"] step_sameD(6)[OF ss'(2)] km'(1)
    by (simp add: running_ok_def) (simp add: obj g_def e_def text_request_def)
  have ok: "sched_ok H ?f W (vs_running s') s'"
  proof (rule sched_ok_change[OF I(1) s0s'(1)])
    show "r \<in> set (W0 @ vs_running s0)" using rW by simp
    show "km_inv (vs_km s') ys" using km km' by simp
    show "mset (W @ vs_running s') = mset (W0 @ vs_running s0)" using W[symmetric] q km' by simp
    show "set (vs_running s') - {r} = set (vs_running s0) - {r}" using q km' by auto
    show "length (vs_running s') \<le> vs_max_num_running_reqs s0" using room q km' by simp
    show "waiting_ok H s' r" if "r \<in> set W"
    proof -
      have "mset (r # W @ vs_running s0) = mset (W0 @ vs_running s0)" using W by simp
      then have "distinct (r # W @ vs_running s0)" using queues_okD(1)[OF sched_okD(2)[OF I(1)]] mset_eq_imp_distinct_iff by blast
      then show ?thesis using that by simp
    qed
  qed (use run idr in auto)
  define w where "w = (if rq_status (vs_obj s r) = WAITING then v\<lparr>sv_new_reqs := sv_new_reqs v @ [r]\<rparr> else v\<lparr>sv_resumed_reqs := sv_resumed_reqs v @ [r]\<rparr>)"
  obtain xs ys' where xs: "sched_reqs w = xs @ r # ys'" "sched_reqs v = xs @ ys'"
  proof (cases "rq_status (vs_obj s r) = WAITING")
    case True
    then show ?thesis using that[of "sv_running_reqs v @ sv_new_reqs v" "sv_resumed_reqs v"] by (simp add: w_def sched_reqs_def)
  next
    case False
    then show ?thesis using that[of "sched_reqs v" "[]"] by (simp add: w_def sched_reqs_def)
  qed
  have wv: "sv_num_scheduled w = sv_num_scheduled v" "sv_new_block_ids w = sv_new_block_ids v" "sv_token_budget w = sv_token_budget v"
    "sv_spec_tokens w = sv_spec_tokens v" "sv_encoder_inputs w = sv_encoder_inputs v" "sv_preempted_reqs w = sv_preempted_reqs v"
    "sv_running_reqs w = sv_running_reqs v" by (simp_all add: w_def)
  have nw: "sv_new_reqs w = sv_new_reqs v @ (if rq_status (vs_obj s r) = PREEMPTED then [] else [r])"
    "sv_resumed_reqs w = sv_resumed_reqs v @ (if rq_status (vs_obj s r) = PREEMPTED then [r] else [])"
    using st by (auto simp: w_def)
  have bi: "block_ids_of s2 blocks = block_ids_of s blocks" by (simp add: block_ids_of_def s2_def s1_def)
  let ?v = "note_scheduled (vs_id s r) (Request_use_structured_output (vs_obj s r)) (block_ids_of s2 blocks) n w"
  have adm: "admit_request now r blocks c n [] b s v = Inr (s', ?v)"
    using st s2 q unfolding admit_request_def Let_def s1_def s'_def g_def w_def by (auto simp: Scheduler_request_scheduled_def)
  have sub: "set (sched_reqs v) \<subseteq> set (vs_running s')" using I(5) q km' by auto
  have fresh: "r \<notin> set (sched_reqs v)" using I(5) nr by blast
  have "step_inv H W s' (note_scheduled (vs_id s' r) (Request_use_structured_output (vs_obj s r)) (block_ids_of s2 blocks) n w)"
    by (rule step_inv_note[OF inv ok step_sameD(1)[OF s0s'(2)] step_sameD(4)[OF s0s'(2)] _ fresh sub n _ xs wv(1-5)])
      (use km' idr q in simp_all)
  then have si: "step_inv H W s' ?v" using idr by simp
  have "insert r (set (sched_reqs v)) \<subseteq> set (sched_reqs ?v)" using xs by (simp add: note_scheduled_def sched_reqs_def)
  then show ?thesis using adm si ss' km' wv(2,6,7) nw bi by (intro exI[of _ s'] exI[of _ ?v]) (simp add: note_scheduled_def)
qed

section \<open>One round\<close>

lemma text_len_cap:
  assumes "static_ok s" "0 < km_block_size (vs_km s)" "text_request (vs_max_model_len s) q"
  shows "int (length (rq_all_token_ids q)) \<le> km_max_num_blocks_per_req (vs_km s) * int (km_block_size (vs_km s))"
proof -
  have "int (vs_max_model_len s) \<le> km_max_num_blocks_per_req (vs_km s) * int (km_block_size (vs_km s))"
    using assms(1,2) cdiv_bounds(1)[of "int (vs_block_size s)" "int (vs_max_model_len s)"] by (simp add: static_ok_def)
  then show ?thesis using assms(3) by (simp add: text_request_def)
qed

lemma idle_all_free:
  assumes ok: "sched_ok H f W [] s" and inv: "km_inv (vs_km s) xs"
  shows "length (vp_blocks (km_block_pool (vs_km s))) \<le> length xs"
proof -
  have e: "dict_get_default (km_req_to_blocks (vs_km s)) i [] = []" for i
    using sched_okD(7)[OF ok] by (simp add: no_strays_def)
  have "length (vp_blocks (km_block_pool (vs_km s))) \<le> length xs + length (km_blocks_of (vs_km s) q)" for q
    by (rule sole_holder_free[OF inv e])
  then show ?thesis using e by simp
qed

lemma schedule_waiting_step_ok:
  assumes inv: "step_inv H (sk @ r # ws) s v" and W: "vs_waiting s = r # ws" and b: "0 < sv_token_budget v"
    and room: "length (vs_running s) < vs_max_num_running_reqs s"
  shows "\<exists>out s' v'. schedule_waiting_step H now loras (s, v) = Inr (out, loras, s', v') \<and> step_same s s' \<and> others_same r s s' \<and>
     sv_preempted_reqs v' = sv_preempted_reqs v \<and> sv_running_reqs v' = sv_running_reqs v \<and>
     (case out of
        StopWaiting \<Rightarrow> vs_waiting s' = r # ws \<and> vs_running s' = vs_running s \<and> step_inv H (sk @ r # ws) s' v' \<and> v' = v \<and>
          (vs_running s = [] \<longrightarrow> \<not> enough_blocks s)
      | SkipForGrammar r' \<Rightarrow> r' = r \<and> for_grammar s r \<and> vs_waiting s' = ws \<and> vs_running s' = vs_running s \<and>
          step_inv H (sk @ r # ws) s' v' \<and> v' = v
      | AdmittedRequest \<Rightarrow> vs_waiting s' = ws \<and> vs_running s' = vs_running s @ [r] \<and> step_inv H (sk @ ws) s' v' \<and>
          insert r (set (sched_reqs v)) \<subseteq> set (sched_reqs v') \<and> \<not> for_grammar s r \<and> granted s v s' v' {r} \<and>
          sv_new_reqs v' = sv_new_reqs v @ (if rq_status (vs_obj s r) = PREEMPTED then [] else [r]) \<and>
          sv_resumed_reqs v' = sv_resumed_reqs v @ (if rq_status (vs_obj s r) = PREEMPTED then [r] else []))"
proof (cases "for_grammar s r")
  case True
  let ?s = "s\<lparr>vs_waiting := tl (vs_waiting s)\<rparr>"
  have "grammar_step r s = None" using True by (simp add: grammar_step_def for_grammar_def)
  then have st: "schedule_waiting_step H now loras (s, v) = Inr (SkipForGrammar r, loras, ?s, v)"
    using W by (simp add: schedule_waiting_step_def Let_def)
  have ss: "step_same s ?s" "others_same r s ?s" by (simp_all add: step_same_def others_same_def)
  have rW: "r \<in> set (sk @ r # ws)" by simp
  note ok = step_invD(1)[OF inv]
  have w: "waiting_ok H ?s r" using sched_okD(5)[OF ok rW] by (simp add: waiting_ok_def)
  obtain xs where "km_inv (vs_km ?s) xs" using sched_okD(3)[OF ok] by auto
  then have "step_inv H (sk @ r # ws) ?s v" using step_inv_waiting_change[OF inv ss(2,1) rW _ w refl] by simp
  then show ?thesis using st ss True W by (intro exI[of _ "SkipForGrammar r"] exI[of _ ?s] exI[of _ v]) simp
next
  case False
  note ng = False
  have rW: "r \<in> set (sk @ r # ws)" by simp
  obtain s1 where g: "grammar_step r s = Some s1" "step_inv H (sk @ r # ws) s1 v" "step_same s s1" "vs_waiting s1 = vs_waiting s"
    "vs_running s1 = vs_running s" "rq_status (vs_obj s1 r) \<in> {WAITING, PREEMPTED}" "vs_km s1 = vs_km s"
    "others_same r s s1" "rq_status (vs_obj s1 r) = PREEMPTED \<longleftrightarrow> rq_status (vs_obj s r) = PREEMPTED"
    using grammar_step_ok[OF inv rW False] by blast
  let ?q = "vs_obj s1 r" and ?m = "vs_km s1"
  note I = step_invD[OF g(2)]
  note w = sched_okD(5)[OF I(1) rW]
  note so = sched_okD(1)[OF I(1)]
  note st = so[unfolded static_ok_def]
  have tx: "text_request (vs_max_model_len s1) ?q" "rq_num_computed_tokens ?q = 0" "wait_slots H ?m ?q"
    using w by (simp_all add: waiting_ok_def)
  have t: "rq_mm_positions ?q = []" "rq_spec_token_ids ?q = []" "rq_all_token_ids ?q \<noteq> []" using tx(1) by (simp_all add: text_request_def)
  obtain xs where km: "km_inv ?m xs" using sched_okD(3)[OF I(1)] by blast
  have cfg: "km_enable_caching ?m" "0 \<le> km_num_preallocate_blocks ?m" "km_block_size ?m = vs_block_size s1" using st by simp_all
  note bs = km_invD(1)[OF km]
  obtain rs0 m k where c: "KVCacheManager_get_computed_blocks H ?m ?q = Inr ((rs0, length rs0 * km_block_size ?m), m)" "km_inv m xs"
     "same_config ?m m" "\<And>i. i \<noteq> rq_request_id ?q \<Longrightarrow> kept ?m m i" "km_block_pool m = km_block_pool ?m"
     "km_blocks_of m ?q = []" "dict_get (km_num_cached_block m) (rq_request_id ?q) = None"
     "length rs0 \<le> k" "k \<le> length (km_hashes H ?m ?q)" "km_hashes_of m ?q = take k (km_hashes H ?m ?q)"
     "\<forall>i < length rs0. km_hash ?m (rs0 ! i) = Some (km_hashes H ?m ?q ! i)"
    using computed_view[OF km cfg(1) t(1) tx(3)] by blast
  note mc = same_configD[OF c(3)]
  have hq: "km_hashes H m ?q = km_hashes H ?m ?q" using mc(1) by simp
  let ?s2 = "s1\<lparr>vs_kv_cache_manager := m\<rparr>"
  have "length rs0 \<le> length (rq_all_token_ids ?q) div km_block_size ?m" using c(8,9) request_hashes_length[OF bs, of H ?q] by simp
  then have "length rs0 * km_block_size ?m \<le> length (rq_all_token_ids ?q) div km_block_size ?m * km_block_size ?m" by (rule mult_le_mono1)
  then have le: "length rs0 * km_block_size ?m \<le> length (rq_all_token_ids ?q)" using div_times_less_eq_dividend order_trans by blast
  obtain rs n1 where wt: "waiting_tokens ?s2 ?q rs0 (int (length rs0 * vs_block_size s1)) = Inr (rs, int (length rs * vs_block_size s1), n1)"
    "0 < n1" "int (length rs * vs_block_size s1) + n1 = int (length (rq_all_token_ids ?q))" "rs = rs0 \<or> rs = butlast rs0"
    using waiting_tokens_ok[of ?s2 rs0 ?q] bs le t(3) cfg(3) by auto
  have rsk: "length rs \<le> k" "\<forall>i < length rs. km_hash m (rs ! i) = Some (km_hashes H m ?q ! i)"
    using wt(4) c(5,8,11) hq by (auto simp: nth_butlast)
  define n where "n = min n1 (sv_token_budget v)"
  have n: "0 < n" "n \<le> sv_token_budget v" "int (length rs * km_block_size m) + n \<le> int (length (rq_all_token_ids ?q))"
    using wt(2,3) b cfg(3) mc(1) by (auto simp: n_def)
  have cap: "int (length rs * km_block_size m) + n \<le> km_max_num_blocks_per_req m * int (km_block_size m)"
    using n(3) text_len_cap[OF so bs tx(1)] mc by simp
  have khm: "k \<le> length (km_hashes H m ?q)" "km_hashes_of m ?q = take k (km_hashes H m ?q)" using c(9,10) hq by simp_all
  have cfgm: "km_enable_caching m" "0 \<le> km_num_preallocate_blocks m" using cfg mc by simp_all
  note wr = wait_ready[OF c(2) cfgm t(1,2) tx(2) c(6,7) rsk(1) khm rsk(2) n(1,3) cap]
  have step: "schedule_waiting_step H now loras (s, v) =
     (case KVCacheManager_allocate_slots H m ?q n rs of
        Inl e \<Rightarrow> Inl e
      | Inr (None, m1) \<Rightarrow> Inr (StopWaiting, loras, ?s2\<lparr>vs_kv_cache_manager := m1\<rparr>, v)
      | Inr (Some new, m1) \<Rightarrow> res_bind (admit_request now r (rs @ new) (int (length rs * vs_block_size s1)) n [] (sv_encoder_budget v)
            (?s2\<lparr>vs_kv_cache_manager := m1\<rparr>) v) (\<lambda>sv'. Inr (AdmittedRequest, loras, sv')))"
    using g(1) W c(1) wt(1,2) b n(1) text_no_inputs[OF tx(1)] st cfg(3)
    by (simp add: schedule_waiting_step_def Let_def lora_blocked_def n_def[symmetric] py_assert_def res_bind_def
        split: sum.splits option.splits prod.splits)
  show ?thesis
  proof (cases "blocks_needed m ?q n rs \<le> int (length xs) - int (num_evictable (km_block_pool m) rs)")
    case True
    have ta: "0 \<le> tokens_after m ?q n rs" "tokens_after m ?q n rs \<le> int (length (rq_all_token_ids ?q))" using wr(2) n by simp_all
    have ln: "int (length (km_blocks_of m ?q @ rs)) \<le> km_max_num_blocks_per_req m" using wr(4) c(6) by simp
    obtain new m1 ys where a: "KVCacheManager_allocate_slots H m ?q n rs = Inr (Some new, m1)" "km_inv m1 ys"
      "run_slots H m1 ?q (tokens_after m ?q n rs)" "same_config m m1" "\<And>i. i \<noteq> rq_request_id ?q \<Longrightarrow> kept m m1 i"
      "km_blocks_of m1 ?q = km_blocks_of m ?q @ rs @ new"
      using granted_kept[OF c(2) wr(1) t(2) ta ln True] by blast
    let ?s3 = "?s2\<lparr>vs_kv_cache_manager := m1\<rparr>"
    have o: "others_same r s1 ?s3" "step_same s1 ?s3"
      using km_update_others[of s1 m1 r] same_config_trans[OF c(3) a(4)] kept_trans[OF c(4) a(5)] by simp_all
    have cc: "0 \<le> int (length rs * vs_block_size s1)" "int (length rs * vs_block_size s1) < int (length (rq_all_token_ids (vs_obj ?s3 r)))"
      using wt(2,3) by simp_all
    have sl: "run_slots H (vs_km ?s3) (vs_obj ?s3 r) (int (length rs * vs_block_size s1) + n)"
      using a(3) wr(2) mc(1) cfg(3) by simp
    have "\<exists>s' v'. admit_request now r (rs @ new) (int (length rs * vs_block_size s1)) n [] (sv_encoder_budget v) ?s3 v = Inr (s', v') \<and>
       step_inv H (sk @ ws) s' v' \<and> others_same r ?s3 s' \<and> step_same ?s3 s' \<and> vs_waiting s' = ws \<and> vs_running s' = vs_running ?s3 @ [r] \<and>
       sv_preempted_reqs v' = sv_preempted_reqs v \<and> sv_running_reqs v' = sv_running_reqs v \<and> insert r (set (sched_reqs v)) \<subseteq> set (sched_reqs v') \<and> vs_km s' = vs_km ?s3 \<and>
       sv_new_block_ids v' = dict_set (vs_id ?s3 r) (block_ids_of ?s3 (rs @ new)) (sv_new_block_ids v) \<and>
       sv_new_reqs v' = sv_new_reqs v @ (if rq_status (vs_obj ?s3 r) = PREEMPTED then [] else [r]) \<and>
       sv_resumed_reqs v' = sv_resumed_reqs v @ (if rq_status (vs_obj ?s3 r) = PREEMPTED then [r] else [])"
      by (rule admit_ok[OF g(2) o]) (use g a(2) W tx(1) cc n(1,2) sl room step_sameD(7)[OF g(3)] in simp_all)
    then obtain s' v' where ad: "admit_request now r (rs @ new) (int (length rs * vs_block_size s1)) n [] (sv_encoder_budget v) ?s3 v = Inr (s', v')"
       "step_inv H (sk @ ws) s' v'" "step_same ?s3 s'" "others_same r ?s3 s'" "vs_waiting s' = ws" "vs_running s' = vs_running s @ [r]"
       "sv_preempted_reqs v' = sv_preempted_reqs v" "sv_running_reqs v' = sv_running_reqs v" "insert r (set (sched_reqs v)) \<subseteq> set (sched_reqs v')"
       "vs_km s' = m1" "sv_new_block_ids v' = dict_set (vs_id s1 r) (block_ids_of ?s3 (rs @ new)) (sv_new_block_ids v)"
       "sv_new_reqs v' = sv_new_reqs v @ (if rq_status (vs_obj s r) = PREEMPTED then [] else [r])"
       "sv_resumed_reqs v' = sv_resumed_reqs v @ (if rq_status (vs_obj s r) = PREEMPTED then [r] else [])"
      using g(5,9) by auto
    have ss': "step_same s s'" "others_same r s s'"
      by (rule step_same_trans[OF step_same_trans[OF g(3) o(2)] ad(3)], rule others_same_trans[OF others_same_trans[OF g(8) o(1)] ad(4)])
    have gr: "granted s v s' v' {r}"
    proof -
      note ok = step_invD(1)[OF inv]
      have b3: "vs_blocks ?s3 r = rs @ new" using a(6) c(6) by simp
      have "block_ids_of ?s3 (rs @ new) = rs @ new" by (rule block_ids_same[of ?s3 ys _ r]) (use a(2) b3 in simp_all)
      then have 1: "dict_get (sv_new_block_ids v') (vs_id s r) = Some (rs @ new)" using ad(11) step_sameD(1)[OF g(3)] by simp
      have 2: "dict_get (sv_new_block_ids v') i = dict_get (sv_new_block_ids v) i" if "i \<notin> vs_id s ` {r}" for i
        using that ad(11) step_sameD(1)[OF g(3)] by simp
      have "vs_blocks s r = []" using sched_okD(5)[OF ok rW] by (simp add: waiting_ok_def wait_slots_def)
      then have 3: "vs_blocks s' r = vs_blocks s r @ rs @ new" using b3 ad(10) step_sameD(1)[OF ss'(1)] step_sameD(1)[OF g(3)] by simp
      have "unmoved s s' (set ((sk @ r # ws) @ vs_running s) - {r})" by (rule others_unmoved[OF ss'(2) ok]) auto
      then have 4: "vs_blocks s' x = vs_blocks s x" if "x \<in> set (vs_running s')" "x \<notin> {r}" for x
        using unmovedD(2)[of s s' _ x] that ad(6) by auto
      show ?thesis unfolding granted_def using 1 2 3 4 by auto
    qed
    show ?thesis using step a(1) ad(1-9,12,13) ng gr ss' by (intro exI[of _ AdmittedRequest] exI[of _ s'] exI[of _ v']) simp
  next
    case False
    have "n \<noteq> 0" using n(1) by simp
    obtain m1 where a: "KVCacheManager_allocate_slots H m ?q n rs = Inr (None, m1)" "km_inv m1 xs" "same_config m m1" "\<And>i. kept m m1 i"
      using refused_kept[OF c(2) \<open>n \<noteq> 0\<close> False] by blast
    let ?s3 = "?s2\<lparr>vs_kv_cache_manager := m1\<rparr>"
    have o: "others_same r s1 ?s3" "step_same s1 ?s3"
      using km_update_others[of s1 m1 r] same_config_trans[OF c(3) a(3)] kept_trans[OF c(4) a(4)] by simp_all
    have "known_hashes H m ?q 0" using khm by (auto simp: known_hashes_def)
    then have "wait_slots H m ?q" using c(6,7) by (simp add: wait_slots_def)
    then have w3: "waiting_ok H ?s3 r" using w wait_slots_kept[OF a(3,4)] by (simp add: waiting_ok_def)
    have si: "step_inv H (sk @ r # ws) ?s3 v"
      by (rule step_inv_waiting_change[OF g(2) o rW _ w3 refl]) (use a(2) in simp_all)
    have "\<not> enough_blocks s" if idle: "vs_running s = []"
    proof
      assume "enough_blocks s"
      then have e: "km_max_num_blocks_per_req m \<le> int (length (vp_blocks (km_block_pool m)))"
        using mc g(7) by (simp add: enough_blocks_def)
      have "length (vp_blocks (km_block_pool m)) \<le> length xs"
        using idle_all_free[OF _ km] I(1) idle g(5) mc(5) by simp
      moreover have "num_evictable (km_block_pool m) rs \<le> length rs" by (simp add: num_evictable_def)
      ultimately show False using False e wr(3) by linarith
    qed
    then show ?thesis using step a(1) step_same_trans[OF g(3) o(2)] others_same_trans[OF g(8) o(1)] si g(4,5) W
      by (intro exI[of _ StopWaiting] exI[of _ ?s3] exI[of _ v]) simp
  qed
qed

section \<open>The loop\<close>

abbreviation not_for_grammar :: "V1Scheduler \<Rightarrow> req_ref list \<Rightarrow> req_ref list" where
  "not_for_grammar s \<equiv> filter (\<lambda>r. \<not> for_grammar s r)"

lemma not_for_grammar_same:
  assumes "others_same r s s'" "r \<notin> set W"
  shows "not_for_grammar s' W = not_for_grammar s W"
proof (rule filter_cong[OF refl])
  fix k assume "k \<in> set W"
  then have "vs_obj s' k = vs_obj s k" using assms by (auto simp: others_same_def)
  then show "(\<not> for_grammar s' k) = (\<not> for_grammar s k)" by (simp add: for_grammar_def)
qed

text \<open>
  The admitted requests join the running queue in the order in which they waited; only requests
  whose grammar is not compiled are passed over.
\<close>

lemma schedule_waiting_ok:
  assumes "step_inv H (rev sk @ vs_waiting s) s v" "length (vs_waiting s) \<le> fuel"
  shows "\<exists>sk' s' v' adm. schedule_waiting H now fuel loras sk (s, v) = Inr (sk', s', v') \<and>
     step_inv H (rev sk' @ vs_waiting s') s' v' \<and> step_same s s' \<and>
     mset (rev sk' @ vs_waiting s' @ vs_running s') = mset (rev sk @ vs_waiting s @ vs_running s) \<and>
     sv_preempted_reqs v' = sv_preempted_reqs v \<and> sv_running_reqs v' = sv_running_reqs v \<and>
     set (sched_reqs v) \<subseteq> set (sched_reqs v') \<and> vs_running s' = vs_running s @ adm \<and> set adm \<subseteq> set (sched_reqs v') \<and>
     prefix adm (not_for_grammar s (vs_waiting s)) \<and> granted s v s' v' (set adm) \<and>
     (\<forall>x. x \<notin> set (vs_waiting s) \<longrightarrow> vs_obj s' x = vs_obj s x) \<and>
     sv_new_reqs v' = sv_new_reqs v @ filter (\<lambda>x. rq_status (vs_obj s x) \<noteq> PREEMPTED) adm \<and>
     sv_resumed_reqs v' = sv_resumed_reqs v @ filter (\<lambda>x. rq_status (vs_obj s x) = PREEMPTED) adm \<and>
     (vs_running s = [] \<and> enough_blocks s \<and> 0 < sv_token_budget v \<and> 0 < vs_max_num_running_reqs s \<and>
        not_for_grammar s (vs_waiting s) \<noteq> [] \<longrightarrow> adm \<noteq> [])"
  using assms
proof (induction fuel arbitrary: sk s v loras)
  case fuel: 0
  then show ?case
    by - (rule exI[of _ sk], rule exI[of _ s], rule exI[of _ v], rule exI[of _ "[]"], simp add: schedule_waiting.simps)
next
  case (Suc fuel)
  let ?stop = "\<not> (vs_waiting s \<noteq> [] \<and> 0 < sv_token_budget v) \<or> length (vs_running s) = vs_max_num_running_reqs s"
  show ?case
  proof (cases ?stop)
    case True
    have "schedule_waiting H now (Suc fuel) loras sk (s, v) = Inr (sk, s, v)" using True by (subst schedule_waiting.simps) auto
    then show ?thesis using True Suc.prems(1)
      by - (rule exI[of _ sk], rule exI[of _ s], rule exI[of _ v], rule exI[of _ "[]"], auto)
  next
    case False
    then obtain r ws where W: "vs_waiting s = r # ws" by (cases "vs_waiting s") auto
    have b: "0 < sv_token_budget v" using False by simp
    note ok = step_invD(1)[OF Suc.prems(1)]
    have room: "length (vs_running s) < vs_max_num_running_reqs s" using False sched_okD(4)[OF ok] by simp
    have inv: "step_inv H (rev sk @ r # ws) s v" using Suc.prems(1) W by simp
    have d: "r \<notin> set ws" using queues_okD(1)[OF sched_okD(2)[OF ok]] W by simp
    obtain out s1 v1 where a: "schedule_waiting_step H now loras (s, v) = Inr (out, loras, s1, v1)" "step_same s s1" "others_same r s s1"
     "sv_preempted_reqs v1 = sv_preempted_reqs v" "sv_running_reqs v1 = sv_running_reqs v"
     "case out of
        StopWaiting \<Rightarrow> vs_waiting s1 = r # ws \<and> vs_running s1 = vs_running s \<and> step_inv H (rev sk @ r # ws) s1 v1 \<and> v1 = v \<and>
          (vs_running s = [] \<longrightarrow> \<not> enough_blocks s)
      | SkipForGrammar r' \<Rightarrow> r' = r \<and> for_grammar s r \<and> vs_waiting s1 = ws \<and> vs_running s1 = vs_running s \<and>
          step_inv H (rev sk @ r # ws) s1 v1 \<and> v1 = v
      | AdmittedRequest \<Rightarrow> vs_waiting s1 = ws \<and> vs_running s1 = vs_running s @ [r] \<and> step_inv H (rev sk @ ws) s1 v1 \<and>
          insert r (set (sched_reqs v)) \<subseteq> set (sched_reqs v1) \<and> \<not> for_grammar s r \<and> granted s v s1 v1 {r} \<and>
          sv_new_reqs v1 = sv_new_reqs v @ (if rq_status (vs_obj s r) = PREEMPTED then [] else [r]) \<and>
          sv_resumed_reqs v1 = sv_resumed_reqs v @ (if rq_status (vs_obj s r) = PREEMPTED then [r] else [])"
      using schedule_waiting_step_ok[OF inv W b room] by blast
    have um: "unmoved s s1 (set ((rev sk @ vs_waiting s) @ vs_running s) - {r})" by (rule others_unmoved[OF a(3) ok]) (use W in auto)
    have dq: "r \<notin> set (vs_running s)" "distinct (vs_waiting s)"
      using queues_okD(1)[OF sched_okD(2)[OF ok]] W by auto
    have blk: "vs_blocks s1 x = vs_blocks s x" if "x \<in> set ws \<or> x \<in> set (vs_running s)" for x
      using unmovedD(2)[OF um, of x] that d dq W by auto
    have objs: "vs_obj s1 x = vs_obj s x" if "x \<noteq> r" for x using others_same_kept(3)[OF a(3) that] .
    have injq: "inj_on (vs_id s) (set (vs_waiting s))" using queues_okD(2)[OF sched_okD(2)[OF ok]] by (rule inj_on_subset) auto
    note same = step_sameD[OF a(2)]
    have ng: "not_for_grammar s1 ws = not_for_grammar s ws" by (rule not_for_grammar_same[OF a(3) d])
    have run: "schedule_waiting H now (Suc fuel) loras sk (s, v) =
       (case out of StopWaiting \<Rightarrow> Inr (sk, s1, v1) | SkipForGrammar r \<Rightarrow> schedule_waiting H now fuel loras (r # sk) (s1, v1)
          | AdmittedRequest \<Rightarrow> schedule_waiting H now fuel loras sk (s1, v1))"
      using False a(1) by (subst schedule_waiting.simps) simp
    show ?thesis
    proof (cases out)
      case StopWaiting
      then have "v1 = v" "granted s v s1 v {}" using a(6) blk dq(1) by (auto simp: granted_def)
      then show ?thesis using run a W StopWaiting objs
        by - (rule exI[of _ sk], rule exI[of _ s1], rule exI[of _ v1], rule exI[of _ "[]"], auto)
    next
      case (SkipForGrammar r')
      then have A: "r' = r" "for_grammar s r" "vs_waiting s1 = ws" "vs_running s1 = vs_running s" "step_inv H (rev sk @ r # ws) s1 v" "v1 = v"
        using a(6) by auto
      have i1: "step_inv H (rev (r # sk) @ vs_waiting s1) s1 v" "length (vs_waiting s1) \<le> fuel" using A Suc.prems(2) W by simp_all
      from Suc.IH[OF i1, of loras] obtain sk' s' v' adm where
        h: "schedule_waiting H now fuel loras (r # sk) (s1, v) = Inr (sk', s', v')"
        "step_inv H (rev sk' @ vs_waiting s') s' v'" "step_same s1 s'"
        "mset (rev sk' @ vs_waiting s' @ vs_running s') = mset (rev (r # sk) @ vs_waiting s1 @ vs_running s1)"
        "sv_preempted_reqs v' = sv_preempted_reqs v" "sv_running_reqs v' = sv_running_reqs v"
        "set (sched_reqs v) \<subseteq> set (sched_reqs v')" "vs_running s' = vs_running s1 @ adm" "set adm \<subseteq> set (sched_reqs v')"
        "prefix adm (not_for_grammar s1 (vs_waiting s1))"
        "vs_running s1 = [] \<and> enough_blocks s1 \<and> 0 < sv_token_budget v \<and> 0 < vs_max_num_running_reqs s1 \<and>
          not_for_grammar s1 (vs_waiting s1) \<noteq> [] \<longrightarrow> adm \<noteq> []"
        "granted s1 v s' v' (set adm)" "\<forall>x. x \<notin> set (vs_waiting s1) \<longrightarrow> vs_obj s' x = vs_obj s1 x"
        "sv_new_reqs v' = sv_new_reqs v @ filter (\<lambda>x. rq_status (vs_obj s1 x) \<noteq> PREEMPTED) adm"
        "sv_resumed_reqs v' = sv_resumed_reqs v @ filter (\<lambda>x. rq_status (vs_obj s1 x) = PREEMPTED) adm"
        by blast
      have aw: "set adm \<subseteq> set ws" using set_mono_prefix[OF h(10)] A(3) by auto
      have ar: "r \<notin> set adm" using aw d by blast
      have st: "filter (\<lambda>x. P (rq_status (vs_obj s1 x))) adm = filter (\<lambda>x. P (rq_status (vs_obj s x))) adm" for P
        by (rule filter_cong[OF refl]) (use objs ar in metis)
      have g0: "granted s v s1 v {}" using blk A(4) by (auto simp: granted_def)
      have inj0: "inj_on (vs_id s) ({} \<union> set adm)" "{} \<inter> set adm = {}"
        using inj_on_subset[OF injq] aw W by auto
      have gr: "granted s v s' v' (set adm)"
        using granted_trans[OF g0 h(12) same(1) inj0] h(8) blk aw by auto
      have ob: "\<forall>x. x \<notin> set (vs_waiting s) \<longrightarrow> vs_obj s' x = vs_obj s x" using h(13) A(3) objs W by auto
      have "schedule_waiting H now (Suc fuel) loras sk (s, v) = Inr (sk', s', v')" using run SkipForGrammar A h(1) by simp
      moreover have "mset (rev sk' @ vs_waiting s' @ vs_running s') = mset (rev sk @ vs_waiting s @ vs_running s)" using h(4) A W by simp
      moreover have "not_for_grammar s (vs_waiting s) = not_for_grammar s1 (vs_waiting s1)" using ng A W by simp
      ultimately show ?thesis using h(2,5-11,14,15) gr ob st[of "\<lambda>z. z \<noteq> PREEMPTED"] st[of "\<lambda>z. z = PREEMPTED"] step_same_trans[OF a(2) h(3)] A(4) same(7) enough_blocks_same[OF a(2)]
        by - (rule exI[of _ sk'], rule exI[of _ s'], rule exI[of _ v'], rule exI[of _ adm], simp)
    next
      case AdmittedRequest
      then have A: "vs_waiting s1 = ws" "vs_running s1 = vs_running s @ [r]" "step_inv H (rev sk @ ws) s1 v1"
        "insert r (set (sched_reqs v)) \<subseteq> set (sched_reqs v1)" "\<not> for_grammar s r" "granted s v s1 v1 {r}"
        "sv_new_reqs v1 = sv_new_reqs v @ filter (\<lambda>x. rq_status (vs_obj s x) \<noteq> PREEMPTED) [r]"
        "sv_resumed_reqs v1 = sv_resumed_reqs v @ filter (\<lambda>x. rq_status (vs_obj s x) = PREEMPTED) [r]"
        using a(6) by auto
      have i1: "step_inv H (rev sk @ vs_waiting s1) s1 v1" "length (vs_waiting s1) \<le> fuel" using A Suc.prems(2) W by simp_all
      from Suc.IH[OF i1, of loras] obtain sk' s' v' adm where
        h: "schedule_waiting H now fuel loras sk (s1, v1) = Inr (sk', s', v')"
        "step_inv H (rev sk' @ vs_waiting s') s' v'" "step_same s1 s'"
        "mset (rev sk' @ vs_waiting s' @ vs_running s') = mset (rev sk @ vs_waiting s1 @ vs_running s1)"
        "sv_preempted_reqs v' = sv_preempted_reqs v1" "sv_running_reqs v' = sv_running_reqs v1"
        "set (sched_reqs v1) \<subseteq> set (sched_reqs v')" "vs_running s' = vs_running s1 @ adm" "set adm \<subseteq> set (sched_reqs v')"
        "prefix adm (not_for_grammar s1 (vs_waiting s1))"
        "granted s1 v1 s' v' (set adm)" "\<forall>x. x \<notin> set (vs_waiting s1) \<longrightarrow> vs_obj s' x = vs_obj s1 x"
        "sv_new_reqs v' = sv_new_reqs v1 @ filter (\<lambda>x. rq_status (vs_obj s1 x) \<noteq> PREEMPTED) adm"
        "sv_resumed_reqs v' = sv_resumed_reqs v1 @ filter (\<lambda>x. rq_status (vs_obj s1 x) = PREEMPTED) adm"
        by blast
      have aw: "set adm \<subseteq> set ws" using set_mono_prefix[OF h(10)] A(1) by auto
      have ar: "r \<notin> set adm" using aw d by blast
      have st: "filter (\<lambda>x. P (rq_status (vs_obj s1 x))) adm = filter (\<lambda>x. P (rq_status (vs_obj s x))) adm" for P
        by (rule filter_cong[OF refl]) (use objs ar in metis)
      have inj0: "inj_on (vs_id s) ({r} \<union> set adm)" "{r} \<inter> set adm = {}"
        using inj_on_subset[OF injq, of "{r} \<union> set adm"] aw ar W by auto
      have "granted s v s' v' ({r} \<union> set adm)"
        by (rule granted_trans[OF A(6) h(11) same(1) inj0]) (use h(8) blk aw A(2) in auto)
      then have gr: "granted s v s' v' (set (r # adm))" by simp
      have ob: "\<forall>x. x \<notin> set (vs_waiting s) \<longrightarrow> vs_obj s' x = vs_obj s x" using h(12) A(1) objs W by auto
      have nr: "sv_new_reqs v' = sv_new_reqs v @ filter (\<lambda>x. rq_status (vs_obj s x) \<noteq> PREEMPTED) (r # adm)"
        "sv_resumed_reqs v' = sv_resumed_reqs v @ filter (\<lambda>x. rq_status (vs_obj s x) = PREEMPTED) (r # adm)"
        using h(13,14) A(7,8) st[of "\<lambda>z. z \<noteq> PREEMPTED"] st[of "\<lambda>z. z = PREEMPTED"] by simp_all
      have "schedule_waiting H now (Suc fuel) loras sk (s, v) = Inr (sk', s', v')" using run AdmittedRequest h(1) by simp
      moreover have "mset (rev sk' @ vs_waiting s' @ vs_running s') = mset (rev sk @ vs_waiting s @ vs_running s)" using h(4) A W by simp
      moreover have "set (sched_reqs v) \<subseteq> set (sched_reqs v')" using A(4) h(7) by blast
      moreover have "prefix (r # adm) (not_for_grammar s (vs_waiting s))" using h(10) ng A W by simp
      ultimately show ?thesis using h(2,5-9) nr gr ob step_same_trans[OF a(2) h(3)] A(1-5) a(4,5)
        by - (rule exI[of _ sk'], rule exI[of _ s'], rule exI[of _ v'], rule exI[of _ "r # adm"], auto)
    qed
  qed
qed

end
