(* ===== verification/V1_Schedule.thy ===== *)
theory V1_Schedule
  imports V1_Waiting
begin

text \<open>
  A whole scheduling step: started between two steps of the engine it always succeeds, its output
  describes exactly what the requests were given, and it schedules something whenever it can.
\<close>

section \<open>Between two steps, and while a batch is executed\<close>

definition cached_ids_ok :: "V1Scheduler \<Rightarrow> bool" where
  "cached_ids_ok s \<longleftrightarrow> (\<forall>i d. dict_get (vs_cached_reqs_data s) i = Some d \<longrightarrow> cd_req_id d = i)"

definition in_flight :: "kv_hasher \<Rightarrow> (string, int) dict \<Rightarrow> V1Scheduler \<Rightarrow> bool" where
  "in_flight H d s \<longleftrightarrow> sched_ok H (sched_fn d) (vs_waiting s) (vs_running s) s \<and> dict_ok d \<and> fst ` set d = vs_scheduled_req_ids s \<and>
     vs_scheduled_req_ids s \<subseteq> vs_id s ` set (vs_running s) \<and> (\<forall>n \<in> set (dict_values d). 0 < n) \<and>
     0 \<le> vs_max_num_scheduled_tokens s \<and> cached_ids_ok s"

abbreviation at_rest :: "kv_hasher \<Rightarrow> V1Scheduler \<Rightarrow> bool" where
  "at_rest H s \<equiv> in_flight H [] s"

lemma in_flightD:
  assumes "in_flight H d s"
  shows "sched_ok H (sched_fn d) (vs_waiting s) (vs_running s) s" "dict_ok d" "fst ` set d = vs_scheduled_req_ids s"
    "vs_scheduled_req_ids s \<subseteq> vs_id s ` set (vs_running s)" "\<forall>n \<in> set (dict_values d). 0 < n"
    "0 \<le> vs_max_num_scheduled_tokens s" "cached_ids_ok s"
  using assms unfolding in_flight_def by - (elim conjE, assumption)+

section \<open>The loops of a step\<close>

lemma schedule_vars_init_simps [simp]:
  "sv_req_index (schedule_vars_init s) = 0" "sv_new_reqs (schedule_vars_init s) = []" "sv_resumed_reqs (schedule_vars_init s) = []"
  "sv_running_reqs (schedule_vars_init s) = []" "sv_preempted_reqs (schedule_vars_init s) = []"
  "sv_num_scheduled (schedule_vars_init s) = []" "sv_new_block_ids (schedule_vars_init s) = []"
  "sv_token_budget (schedule_vars_init s) = vs_max_num_scheduled_tokens s" "sv_spec_tokens (schedule_vars_init s) = []"
  "sv_encoder_inputs (schedule_vars_init s) = []" "sched_reqs (schedule_vars_init s) = []"
  by (simp_all add: schedule_vars_init_def sched_reqs_def)

lemma init_run_inv: "at_rest H s \<Longrightarrow> run_inv H s (schedule_vars_init s)"
  unfolding run_inv_def step_inv_def by (auto simp: in_flight_def)

lemma schedule_running_empty: "vs_running s = [] \<Longrightarrow> sv_req_index v = 0 \<Longrightarrow> schedule_running H now 0 (s, v) = Inr (s, v)"
  by (subst schedule_running.simps) simp

lemma step_inv_requeue:
  assumes "step_inv H W s v"
  shows "step_inv H W (s\<lparr>vs_waiting := W'\<rparr>) v"
  using assms unfolding step_inv_def sched_ok_def static_ok_def queues_ok_def no_strays_def waiting_ok_def running_ok_def by simp

text \<open>
  \<open>adm\<close> are the admitted requests, \<open>R\<close> the ones that keep running. The rest of the step checks and writes the output.
\<close>

lemma schedule_loops:
  assumes rest: "at_rest H s"
  shows "\<exists>s' v R adm. Scheduler_schedule H now s = res_bind (schedule_checks s' v) (\<lambda>_. schedule_output (s', v)) \<and>
     step_inv H (vs_waiting s') s' v \<and> step_same s s' \<and>
     mset (vs_waiting s' @ vs_running s') = mset (vs_waiting s @ vs_running s) \<and> vs_running s' = R @ adm \<and>
     prefix R (vs_running s) \<and> (\<forall>x \<in> set R. vs_obj s' x = vs_obj s x) \<and> prefix (sv_running_reqs v) R \<and>
     sv_new_reqs v = filter (\<lambda>x. rq_status (vs_obj s x) \<noteq> PREEMPTED) adm \<and>
     sv_resumed_reqs v = filter (\<lambda>x. rq_status (vs_obj s x) = PREEMPTED) adm \<and>
     granted s (schedule_vars_init s) s' v (set (sched_reqs v)) \<and>
     (R = vs_running s \<or> adm = []) \<and> prefix adm (not_for_grammar s (vs_waiting s)) \<and>
     (enough_blocks s \<and> 0 < vs_max_num_scheduled_tokens s \<longrightarrow>
       (vs_running s \<noteq> [] \<longrightarrow> sv_running_reqs v \<noteq> []) \<and>
       (vs_running s = [] \<and> 0 < vs_max_num_running_reqs s \<and> not_for_grammar s (vs_waiting s) \<noteq> [] \<longrightarrow> adm \<noteq> []))"
proof -
  let ?v0 = "schedule_vars_init s"
  obtain s1 v1 P more where a: "schedule_running H now (length (vs_running s)) (s, ?v0) = Inr (s1, v1)" "run_inv H s1 v1" "step_same s s1"
     "mset (vs_waiting s1 @ vs_running s1) = mset (vs_waiting s @ vs_running s)" "sv_preempted_reqs v1 = P"
     "P = [] \<longrightarrow> vs_running s1 = vs_running s \<and> vs_waiting s1 = vs_waiting s \<and> vs_objects s1 = vs_objects s \<and>
        (sv_req_index v1 = length (vs_running s1) \<or> sv_token_budget v1 \<le> 0)"
     "sv_running_reqs v1 = more" "prefix (vs_running s1) (vs_running s)"
     "\<forall>x \<in> set (vs_running s1). vs_obj s1 x = vs_obj s x" "granted s ?v0 s1 v1 (set more)"
     "vs_running s \<noteq> [] \<and> 0 < vs_max_num_scheduled_tokens s \<and> enough_blocks s \<longrightarrow> more \<noteq> []"
    using schedule_running_ok[OF init_run_inv[OF rest], of "length (vs_running s)" now] by auto
  have ri: "step_inv H (vs_waiting s1) s1 v1" "sv_new_reqs v1 = []" "sv_resumed_reqs v1 = []" using a(2) by (simp_all add: run_inv_def)
  note I1 = step_invD[OF ri(1)]
  have lo: "scheduled_loras s1 (sv_running_reqs v1) = Inr {}"
    using sched_okD(1)[OF I1(1)] by (simp add: scheduled_loras_def static_ok_def)
  have sr1: "sched_reqs v1 = more" using ri a(7) by (simp add: sched_reqs_def)
  have sub1: "set more \<subseteq> set (vs_running s1)" using I1(5) sr1 by simp
  have pm: "prefix more (vs_running s1)" using a(2,7) take_is_prefix[of "sv_req_index v1" "vs_running s1"] by (simp add: run_inv_def)
  show ?thesis
  proof (cases "P = []")
    case False
    let ?s = "s1\<lparr>vs_waiting := vs_waiting s1\<rparr>"
    have "Scheduler_schedule H now s = res_bind (schedule_checks s1 v1) (\<lambda>_. schedule_output (s1, v1))"
      using a(1,5) lo False by (simp add: Scheduler_schedule_def)
    moreover have "vs_running s \<noteq> []"
    proof
      assume "vs_running s = []"
      then have "schedule_running H now (length (vs_running s)) (s, ?v0) = Inr (s, ?v0)" using schedule_running_empty[of s ?v0] by simp
      then show False using a(1,5) False by auto
    qed
    ultimately show ?thesis using ri a(3,4,7-11) sr1 pm False
      by - (rule exI[of _ s1], rule exI[of _ v1], rule exI[of _ "vs_running s1"], rule exI[of _ "[]"], auto)
  next
    case True
    have eq: "vs_running s1 = vs_running s" "vs_waiting s1 = vs_waiting s" "vs_objects s1 = vs_objects s" using a(6) True by simp_all
    have "step_inv H (rev [] @ vs_waiting s1) s1 v1" using ri(1) by simp
    from schedule_waiting_ok[OF this, of "length (vs_waiting s1)" now "{}"] obtain sk s2 v2 adm where
      b: "schedule_waiting H now (length (vs_waiting s1)) {} [] (s1, v1) = Inr (sk, s2, v2)"
     "step_inv H (rev sk @ vs_waiting s2) s2 v2" "step_same s1 s2"
     "mset (rev sk @ vs_waiting s2 @ vs_running s2) = mset (rev [] @ vs_waiting s1 @ vs_running s1)"
     "sv_running_reqs v2 = sv_running_reqs v1"
     "set (sched_reqs v1) \<subseteq> set (sched_reqs v2)" "vs_running s2 = vs_running s1 @ adm" "set adm \<subseteq> set (sched_reqs v2)"
     "prefix adm (not_for_grammar s1 (vs_waiting s1))" "granted s1 v1 s2 v2 (set adm)"
     "\<forall>x. x \<notin> set (vs_waiting s1) \<longrightarrow> vs_obj s2 x = vs_obj s1 x"
     "sv_new_reqs v2 = sv_new_reqs v1 @ filter (\<lambda>x. rq_status (vs_obj s1 x) \<noteq> PREEMPTED) adm"
     "sv_resumed_reqs v2 = sv_resumed_reqs v1 @ filter (\<lambda>x. rq_status (vs_obj s1 x) = PREEMPTED) adm"
     "vs_running s1 = [] \<and> enough_blocks s1 \<and> 0 < sv_token_budget v1 \<and> 0 < vs_max_num_running_reqs s1 \<and>
        not_for_grammar s1 (vs_waiting s1) \<noteq> [] \<longrightarrow> adm \<noteq> []"
      by blast
    let ?s = "s2\<lparr>vs_waiting := rev sk @ vs_waiting s2\<rparr>"
    have run: "Scheduler_schedule H now s = res_bind (schedule_checks ?s v2) (\<lambda>_. schedule_output (?s, v2))"
      using a(1,5) lo True b(1) by (simp add: Scheduler_schedule_def Let_def)
    have ng: "not_for_grammar s1 (vs_waiting s1) = not_for_grammar s (vs_waiting s)" using eq by (simp add: for_grammar_def)
    have aw: "set adm \<subseteq> set (vs_waiting s)" using set_mono_prefix[OF b(9)] eq(2) by auto
    note I2 = step_invD[OF b(2)]
    have sr2: "sched_reqs v2 = more @ sv_new_reqs v2 @ sv_resumed_reqs v2" using b(5) a(7) by (simp add: sched_reqs_def)
    have set2: "set (sched_reqs v2) = set more \<union> set adm" using sr2 b(12,13) ri(2,3) by auto
    have Q: "distinct (vs_waiting s @ vs_running s)" "inj_on (vs_id s) (set (vs_waiting s @ vs_running s))"
      using queues_okD(1,2)[OF sched_okD(2)[OF in_flightD(1)[OF rest]]] by simp_all
    have inj: "inj_on (vs_id s) (set more \<union> set adm)" by (rule inj_on_subset[OF Q(2)]) (use aw sub1 set_mono_prefix[OF a(8)] in auto)
    have dj: "set more \<inter> set adm = {}" using aw sub1 set_mono_prefix[OF a(8)] Q(1) by auto
    have blk: "vs_blocks s1 x = vs_blocks s x" if "x \<in> set adm" for x
    proof -
      have "x \<in> set (vs_waiting s)" "x \<in> set (vs_waiting s1)" using that aw eq(2) by auto
      then have "waiting_ok H s x" "waiting_ok H s1 x" using sched_okD(5)[OF in_flightD(1)[OF rest]] sched_okD(5)[OF I1(1)] by blast+
      then show ?thesis by (simp add: waiting_ok_def wait_slots_def)
    qed
    have "granted s ?v0 s2 v2 (set more \<union> set adm)"
      by (rule granted_trans[OF a(10) b(10) step_sameD(1)[OF a(3)] inj dj]) (use b(7) sub1 blk in auto)
    then have gr: "granted s ?v0 ?s v2 (set (sched_reqs v2))" unfolding set2 by (simp add: granted_def)
    have same: "step_same s ?s" using step_same_trans[OF a(3) b(3)] by (simp add: step_same_def)
    have ob: "vs_obj s2 x = vs_obj s x" if "x \<in> set (vs_running s)" for x
    proof -
      have "x \<notin> set (vs_waiting s1)" using that Q(1) eq(2) by auto
      then show ?thesis using b(11) eq(3) by simp
    qed
    have prog: "(vs_running s \<noteq> [] \<longrightarrow> more \<noteq> []) \<and>
       (vs_running s = [] \<and> 0 < vs_max_num_running_reqs s \<and> not_for_grammar s (vs_waiting s) \<noteq> [] \<longrightarrow> adm \<noteq> [])"
      if p: "enough_blocks s" "0 < vs_max_num_scheduled_tokens s"
    proof (cases "vs_running s = []")
      case True
      then have "schedule_running H now (length (vs_running s)) (s, ?v0) = Inr (s, ?v0)" using schedule_running_empty[of s ?v0] by simp
      then have "s1 = s" "v1 = ?v0" using a(1) by simp_all
      then show ?thesis using b(14) p True by auto
    next
      case False
      then show ?thesis using a(11) p by blast
    qed
    have si: "step_inv H (vs_waiting ?s) ?s v2" using step_inv_requeue[OF b(2)] by simp
    have ms: "mset (vs_waiting ?s @ vs_running ?s) = mset (vs_waiting s @ vs_running s)" using b(4) a(4) by simp
    have ns: "sv_new_reqs v2 = filter (\<lambda>x. rq_status (vs_obj s x) \<noteq> PREEMPTED) adm"
      "sv_resumed_reqs v2 = filter (\<lambda>x. rq_status (vs_obj s x) = PREEMPTED) adm" using b(12,13) ri(2,3) eq(3) by simp_all
    show ?thesis
      using run si same ms gr prog ns ob b(5,7,9) a(7) pm eq(1) ng
      by - (rule exI[of _ ?s], rule exI[of _ v2], rule exI[of _ "vs_running s"], rule exI[of _ adm], auto)
  qed
qed

section \<open>The output\<close>

lemma sum_list_pos: "(\<forall>n \<in> set ns. 0 < n) \<Longrightarrow> ns \<noteq> [] \<Longrightarrow> 0 < (sum_list ns :: int)"
proof (induction ns)
  case (Cons n ns)
  then show ?case by (cases "ns = []") fastforce+
qed simp

lemma dict_item_has: "i \<in> fst ` set d \<Longrightarrow> dict_item d i = Inr (dict_get_default d i x)"
  using dict_has_keys[of d i] by (auto simp: dict_item_def dict_get_default_def)

text \<open>What the output says of a request that was running or is resumed.\<close>

definition cached_entry :: "V1Scheduler \<Rightarrow> schedule_vars \<Rightarrow> bool \<Rightarrow> req_ref \<Rightarrow> CachedRequestData" where
  "cached_entry s v resumed r =
     (let c = rq_num_computed_tokens (vs_obj s r)
      in \<lparr>cd_req_id = vs_id s r, cd_resumed_from_preemption = resumed,
          cd_new_token_ids = py_slice (rq_all_token_ids (vs_obj s r)) c (c + sched_fn (sv_num_scheduled v) (vs_id s r)),
          cd_new_block_ids = dict_get_default (sv_new_block_ids v) (vs_id s r) [], cd_num_computed_tokens = c\<rparr>)"

lemma make_cached_entry:
  assumes "cached_ids_ok s" "sv_spec_tokens v = []"
  shows "Scheduler_make_cached_request_data r (sched_fn (sv_num_scheduled v) (vs_id s r)) (length (dict_get_default (sv_spec_tokens v) (vs_id s r) []))
       (dict_get_default (sv_new_block_ids v) (vs_id s r) []) resumed s =
     (cached_entry s v resumed r, s\<lparr>vs_cached_reqs_data := dict_set (vs_id s r) (cached_entry s v resumed r) (vs_cached_reqs_data s)\<rparr>)"
proof (cases "dict_get (vs_cached_reqs_data s) (vs_id s r)")
  case None
  then show ?thesis using assms(2)
    by (simp add: Scheduler_make_cached_request_data_def CachedRequestData_from_request_def cached_entry_def Let_def dict_get_default_def)
next
  case (Some d)
  then have "cd_req_id d = vs_id s r" using assms(1) by (simp add: cached_ids_ok_def)
  then show ?thesis using assms(2) Some
    by (cases d) (simp add: Scheduler_make_cached_request_data_def cached_entry_def Let_def dict_get_default_def)
qed

lemma cached_ids_ok_set: "cached_ids_ok s \<Longrightarrow> cached_ids_ok (s\<lparr>vs_cached_reqs_data := dict_set (vs_id s r) (cached_entry s v resumed r) (vs_cached_reqs_data s)\<rparr>)"
  by (auto simp: cached_ids_ok_def cached_entry_def Let_def split: if_splits)

lemma make_cached_data_ok:
  assumes "cached_ids_ok s" "sv_spec_tokens v = []" "vs_id s ` set rs \<subseteq> fst ` set (sv_num_scheduled v)" "vs_id s ` set rs \<subseteq> fst ` set (sv_new_block_ids v)"
  shows "\<exists>c. make_cached_data v resumed rs s = Inr (map (cached_entry s v resumed) rs, s\<lparr>vs_cached_reqs_data := c\<rparr>) \<and>
     cached_ids_ok (s\<lparr>vs_cached_reqs_data := c\<rparr>)"
  using assms
proof (induction rs arbitrary: s)
  case Nil
  then show ?case by (intro exI[of _ "vs_cached_reqs_data s"]) simp
next
  case (Cons r rs)
  let ?s = "s\<lparr>vs_cached_reqs_data := dict_set (vs_id s r) (cached_entry s v resumed r) (vs_cached_reqs_data s)\<rparr>"
  have i: "dict_item (sv_num_scheduled v) (vs_id s r) = Inr (sched_fn (sv_num_scheduled v) (vs_id s r))"
    "dict_item (sv_new_block_ids v) (vs_id s r) = Inr (dict_get_default (sv_new_block_ids v) (vs_id s r) [])"
    using Cons.prems(3,4) unfolding sched_fn_def by (intro dict_item_has; simp)+
  have e: "cached_entry ?s v resumed = cached_entry s v resumed" by (rule ext) (simp add: cached_entry_def Let_def)
  have pre: "vs_id ?s ` set rs \<subseteq> fst ` set (sv_num_scheduled v)" "vs_id ?s ` set rs \<subseteq> fst ` set (sv_new_block_ids v)"
    using Cons.prems(3,4) by simp_all
  obtain c where c: "make_cached_data v resumed rs ?s = Inr (map (cached_entry s v resumed) rs, s\<lparr>vs_cached_reqs_data := c\<rparr>)"
    "cached_ids_ok (s\<lparr>vs_cached_reqs_data := c\<rparr>)"
    using Cons.IH[OF cached_ids_ok_set[OF Cons.prems(1)] Cons.prems(2) pre] unfolding e by auto
  show ?case using c i make_cached_entry[OF Cons.prems(1,2), of r resumed] by (intro exI[of _ c]) (simp add: Let_def)
qed

lemma schedule_output_ok:
  assumes inv: "step_inv H (vs_waiting s) s v" and c: "cached_ids_ok s"
  shows "\<exists>out s'. schedule_output (s, v) = Inr (out, s') \<and> in_flight H (sv_num_scheduled v) s' \<and>
     step_same s (s'\<lparr>vs_finished_req_ids := vs_finished_req_ids s, vs_cached_reqs_data := vs_cached_reqs_data s,
       vs_encoder_cache_manager := vs_encoder_cache_manager s\<rparr>) \<and>
     vs_objects s' = vs_objects s \<and> vs_running s' = vs_running s \<and> vs_waiting s' = vs_waiting s \<and> (\<forall>r. vs_blocks s' r = vs_blocks s r) \<and>
     vs_finished_req_ids s' = {} \<and> so_num_scheduled_tokens out = sv_num_scheduled v \<and>
     so_total_num_scheduled_tokens out = sum_list (dict_values (sv_num_scheduled v)) \<and> so_scheduled_spec_decode_tokens out = [] \<and>
     so_finished_req_ids out = vs_finished_req_ids s \<and>
     so_scheduled_new_reqs out = map (\<lambda>r. NewRequestData_from_request (vs_obj s r) (dict_get_default (sv_new_block_ids v) (vs_id s r) [])) (sv_new_reqs v) \<and>
     so_scheduled_cached_reqs out = map (cached_entry s v True) (sv_resumed_reqs v) @ map (cached_entry s v False) (sv_running_reqs v)"
proof -
  note I = step_invD[OF inv]
  note ok = I(1)
  obtain xs where km: "km_inv (vs_km s) xs" using sched_okD(3)[OF ok] by blast
  have "\<exists>n m. (case vs_running s of [] \<Rightarrow> Inr (0, vs_km s)
                | r # _ \<Rightarrow> KVCacheManager_get_num_common_prefix_blocks (vs_km s) (vs_obj s r) (int (length (vs_running s)))) = Inr (n, m) \<and>
     km_inv m xs \<and> same_config (vs_km s) m \<and> (\<forall>i. kept (vs_km s) m i)"
  proof (cases "vs_running s")
    case Nil
    then show ?thesis using km by (intro exI[of _ 0] exI[of _ "vs_km s"]) (simp add: same_config_def)
  next
    case (Cons r rs)
    then have "rq_status (vs_obj s r) = RUNNING" using sched_okD(6)[OF ok, of r] by (simp add: running_ok_def)
    moreover have "km_inv (km_set_blocks (vs_obj s r) (vs_blocks s r) (vs_km s)) xs" by (rule km_inv_touch_entry[OF km])
    ultimately show ?thesis using Cons
      by (auto simp: KVCacheManager_get_num_common_prefix_blocks_def Let_def kept_def km_set_blocks_def same_config_def dict_get_default_def)
  qed
  then obtain n m where m: "(case vs_running s of [] \<Rightarrow> Inr (0, vs_km s)
                | r # _ \<Rightarrow> KVCacheManager_get_num_common_prefix_blocks (vs_km s) (vs_obj s r) (int (length (vs_running s)))) = Inr (n, m)"
     "km_inv m xs" "same_config (vs_km s) m" "\<And>i. kept (vs_km s) m i" by blast
  let ?s1 = "s\<lparr>vs_kv_cache_manager := m\<rparr>"
  have o: "others_same r s ?s1" "step_same s ?s1" for r using km_update_others[of s m r] m(3,4) by blast+
  have ok1: "sched_ok H (sched_fn (sv_num_scheduled v)) (vs_waiting s) (vs_running s) ?s1" by (rule sched_ok_km[OF ok m(2-4)])
  have bl: "vs_blocks ?s1 r = vs_blocks s r" for r using m(4)[of "vs_id s r"] by (simp add: kept_def)
  have sub: "set (sv_new_reqs v) \<subseteq> set (sched_reqs v)" "set (sv_resumed_reqs v) \<subseteq> set (sched_reqs v)" "set (sv_running_reqs v) \<subseteq> set (sched_reqs v)"
    by (auto simp: sched_reqs_def)
  have keys: "vs_id s ` A \<subseteq> fst ` set (sv_num_scheduled v)" "vs_id s ` A \<subseteq> fst ` set (sv_new_block_ids v)" if "A \<subseteq> set (sched_reqs v)" for A
    using I(3,7) that by auto
  let ?nd = "\<lambda>r. NewRequestData_from_request (vs_obj s r) (dict_get_default (sv_new_block_ids v) (vs_id s r) [])"
  have new: "res_map (\<lambda>r. res_bind (dict_item (sv_new_block_ids v) (vs_id ?s1 r)) (\<lambda>ids. Inr (NewRequestData_from_request (vs_obj ?s1 r) ids)))
     (sv_new_reqs v) = Inr (map ?nd (sv_new_reqs v))"
  proof (rule res_map_ok)
    fix r assume "r \<in> set (sv_new_reqs v)"
    then have "vs_id s r \<in> fst ` set (sv_new_block_ids v)" using keys(2)[OF sub(1)] by blast
    then show "res_bind (dict_item (sv_new_block_ids v) (vs_id ?s1 r)) (\<lambda>ids. Inr (NewRequestData_from_request (vs_obj ?s1 r) ids)) = Inr (?nd r)"
      using dict_item_has[of _ "sv_new_block_ids v" "[]"] by simp
  qed
  have c1: "cached_ids_ok ?s1" using c by (simp add: cached_ids_ok_def)
  have e1: "cached_entry (s\<lparr>vs_kv_cache_manager := m, vs_cached_reqs_data := d\<rparr>) v b = cached_entry s v b" for d b by (rule ext) (simp add: cached_entry_def Let_def)
  have e0: "cached_entry ?s1 v b = cached_entry s v b" for b by (rule ext) (simp add: cached_entry_def Let_def)
  obtain d1 where d1: "make_cached_data v True (sv_resumed_reqs v) ?s1 =
       Inr (map (cached_entry s v True) (sv_resumed_reqs v), ?s1\<lparr>vs_cached_reqs_data := d1\<rparr>)" "cached_ids_ok (?s1\<lparr>vs_cached_reqs_data := d1\<rparr>)"
    using make_cached_data_ok[OF c1 I(11), of "sv_resumed_reqs v" True] keys[OF sub(2)] unfolding e0 by auto
  obtain d2 where d2: "make_cached_data v False (sv_running_reqs v) (?s1\<lparr>vs_cached_reqs_data := d1\<rparr>) =
       Inr (map (cached_entry s v False) (sv_running_reqs v), ?s1\<lparr>vs_cached_reqs_data := d2\<rparr>)" "cached_ids_ok (?s1\<lparr>vs_cached_reqs_data := d2\<rparr>)"
    using make_cached_data_ok[OF d1(2) I(11), of "sv_running_reqs v" False] keys[OF sub(3)] unfolding e1 by auto
  let ?e = "(vs_encoder_cache_manager s)\<lparr>ec_freed := []\<rparr>"
  let ?s' = "?s1\<lparr>vs_cached_reqs_data := d2, vs_encoder_cache_manager := ?e, vs_finished_req_ids := {}\<rparr>"
  let ?out = "\<lparr>so_scheduled_new_reqs = map ?nd (sv_new_reqs v),
      so_scheduled_cached_reqs = map (cached_entry s v True) (sv_resumed_reqs v) @ map (cached_entry s v False) (sv_running_reqs v),
      so_num_scheduled_tokens = sv_num_scheduled v, so_total_num_scheduled_tokens = sum_list (dict_values (sv_num_scheduled v)),
      so_scheduled_spec_decode_tokens = sv_spec_tokens v, so_scheduled_encoder_inputs = sv_encoder_inputs v,
      so_num_common_prefix_blocks = n, so_finished_req_ids = vs_finished_req_ids s,
      so_free_encoder_input_ids = ec_freed (vs_encoder_cache_manager s), so_structured_output_request_ids = sv_structured_output v\<rparr>"
  have run: "schedule_output (s, v) = Inr (?out, ?s')"
    unfolding schedule_output_def prod.case Let_def m(1)
    using new d1(1) d2(1) by (simp add: EncoderCacheManager_get_freed_ids_def)
  have "sched_ok H (sched_fn (sv_num_scheduled v)) (vs_waiting s) (vs_running s) ?s'"
    using ok1 unfolding sched_ok_def static_ok_def queues_ok_def no_strays_def waiting_ok_def running_ok_def by simp
  moreover have "0 \<le> vs_max_num_scheduled_tokens s" using I(8-10) sum_list_nonneg[of "dict_values (sv_num_scheduled v)"] by fastforce
  ultimately have fl: "in_flight H (sv_num_scheduled v) ?s'"
    using I(2,3,5,6,8) d2(2) unfolding in_flight_def cached_ids_ok_def by auto
  have same: "step_same s (?s'\<lparr>vs_finished_req_ids := vs_finished_req_ids s, vs_cached_reqs_data := vs_cached_reqs_data s,
       vs_encoder_cache_manager := vs_encoder_cache_manager s\<rparr>)" using o(2) by (simp add: step_same_def)
  show ?thesis using run fl same bl I(11) by (intro exI[of _ ?out] exI[of _ ?s']) simp
qed

lemma schedule_checks_ok:
  assumes "step_inv H W s v"
  shows "schedule_checks s v = Inr ()"
proof -
  note I = step_invD[OF assms]
  have "length (sched_reqs v) \<le> length (vs_running s)"
    using card_mono[OF _ I(5)] distinct_card[OF I(4)] card_length[of "vs_running s"] by simp
  then show ?thesis using I(9,10) sched_okD(4)[OF I(1)] by (simp add: schedule_checks_def sched_reqs_def)
qed

section \<open>The step\<close>

text \<open>What a scheduling step leaves alone: everything of a request but its status, its computed tokens and its events.\<close>

definition plan_same :: "V1Scheduler \<Rightarrow> V1Scheduler \<Rightarrow> bool" where
  "plan_same s s' \<longleftrightarrow> step_same s (s'\<lparr>vs_finished_req_ids := vs_finished_req_ids s, vs_cached_reqs_data := vs_cached_reqs_data s,
     vs_encoder_cache_manager := vs_encoder_cache_manager s\<rparr>)"

lemma plan_sameD:
  assumes "plan_same s s'"
  shows "vs_id s' k = vs_id s k" "length (vs_objects s') = length (vs_objects s)" "same_config (vs_km s) (vs_km s')"
    "vs_max_num_scheduled_tokens s' = vs_max_num_scheduled_tokens s" "vs_max_model_len s' = vs_max_model_len s"
    "vs_max_num_running_reqs s' = vs_max_num_running_reqs s" "vs_requests s' = vs_requests s" "step_obj (vs_obj s k) (vs_obj s' k)"
    "vs_log_stats s' = vs_log_stats s"
  using step_sameD[OF assms[unfolded plan_same_def]] by simp_all

definition cached_info :: "(string, int) dict \<Rightarrow> V1Scheduler \<Rightarrow> bool \<Rightarrow> nat list \<Rightarrow> req_ref \<Rightarrow> CachedRequestData" where
  "cached_info d s resumed new_block_ids r =
     (let q = vs_obj s r; c = rq_num_computed_tokens q
      in \<lparr>cd_req_id = rq_request_id q, cd_resumed_from_preemption = resumed,
          cd_new_token_ids = drop (nat c) (take (nat (c + sched_fn d (rq_request_id q))) (rq_all_token_ids q)),
          cd_new_block_ids = new_block_ids, cd_num_computed_tokens = c\<rparr>)"

lemma py_slice_nonneg: "0 \<le> a \<Longrightarrow> 0 \<le> b \<Longrightarrow> py_slice xs a b = drop (nat a) (take (nat b) xs)"
  using py_slice_nat[of xs "nat a" "nat b"] by simp

lemma schedule_ok:
  assumes rest: "at_rest H s"
  shows "\<exists>out s' R runs adm. Scheduler_schedule H now s = Inr (out, s') \<and> in_flight H (so_num_scheduled_tokens out) s' \<and> plan_same s s' \<and>
     mset (vs_waiting s' @ vs_running s') = mset (vs_waiting s @ vs_running s) \<and>
     vs_running s' = R @ adm \<and> prefix R (vs_running s) \<and> (R = vs_running s \<or> adm = []) \<and> (\<forall>x \<in> set R. vs_obj s' x = vs_obj s x) \<and>
     prefix adm (not_for_grammar s (vs_waiting s)) \<and> prefix runs R \<and> distinct (runs @ adm) \<and>
     vs_scheduled_req_ids s' = vs_id s ` set (runs @ adm) \<and>
     (\<forall>x \<in> set (vs_running s') - set (runs @ adm). vs_blocks s' x = vs_blocks s x) \<and>
     (\<forall>x \<in> set runs. prefix (vs_blocks s x) (vs_blocks s' x)) \<and>
     so_total_num_scheduled_tokens out = sum_list (dict_values (so_num_scheduled_tokens out)) \<and>
     so_total_num_scheduled_tokens out \<le> vs_max_num_scheduled_tokens s \<and> so_scheduled_spec_decode_tokens out = [] \<and>
     so_finished_req_ids out = vs_finished_req_ids s \<and> vs_finished_req_ids s' = {} \<and>
     so_scheduled_new_reqs out = map (\<lambda>r. NewRequestData_from_request (vs_obj s' r) (vs_blocks s' r)) (filter (\<lambda>x. rq_status (vs_obj s x) \<noteq> PREEMPTED) adm) \<and>
     so_scheduled_cached_reqs out =
       map (\<lambda>r. cached_info (so_num_scheduled_tokens out) s' True (vs_blocks s' r) r) (filter (\<lambda>x. rq_status (vs_obj s x) = PREEMPTED) adm) @
       map (\<lambda>r. cached_info (so_num_scheduled_tokens out) s' False (drop (length (vs_blocks s r)) (vs_blocks s' r)) r) runs \<and>
     (runs @ adm \<noteq> [] \<longrightarrow> 0 < so_total_num_scheduled_tokens out) \<and>
     (enough_blocks s \<and> 0 < vs_max_num_scheduled_tokens s \<longrightarrow>
       (vs_running s \<noteq> [] \<longrightarrow> runs \<noteq> []) \<and>
       (vs_running s = [] \<and> 0 < vs_max_num_running_reqs s \<and> not_for_grammar s (vs_waiting s) \<noteq> [] \<longrightarrow> adm \<noteq> []))"
proof -
  obtain t v R adm where a: "Scheduler_schedule H now s = res_bind (schedule_checks t v) (\<lambda>_. schedule_output (t, v))"
     "step_inv H (vs_waiting t) t v" "step_same s t"
     "mset (vs_waiting t @ vs_running t) = mset (vs_waiting s @ vs_running s)" "vs_running t = R @ adm"
     "prefix R (vs_running s)" "\<forall>x \<in> set R. vs_obj t x = vs_obj s x" "prefix (sv_running_reqs v) R"
     "sv_new_reqs v = filter (\<lambda>x. rq_status (vs_obj s x) \<noteq> PREEMPTED) adm"
     "sv_resumed_reqs v = filter (\<lambda>x. rq_status (vs_obj s x) = PREEMPTED) adm"
     "granted s (schedule_vars_init s) t v (set (sched_reqs v))" "R = vs_running s \<or> adm = []"
     "prefix adm (not_for_grammar s (vs_waiting s))"
     "enough_blocks s \<and> 0 < vs_max_num_scheduled_tokens s \<longrightarrow>
       (vs_running s \<noteq> [] \<longrightarrow> sv_running_reqs v \<noteq> []) \<and>
       (vs_running s = [] \<and> 0 < vs_max_num_running_reqs s \<and> not_for_grammar s (vs_waiting s) \<noteq> [] \<longrightarrow> adm \<noteq> [])"
    using schedule_loops[OF rest, of now] by blast
  note I = step_invD[OF a(2)]
  note id = step_sameD(1)[OF a(3)]
  let ?d = "sv_num_scheduled v" and ?runs = "sv_running_reqs v"
  have ct: "cached_ids_ok t" using in_flightD(7)[OF rest] step_sameD(11)[OF a(3)] by (simp add: cached_ids_ok_def)
  obtain out s' where b: "schedule_output (t, v) = Inr (out, s')" "in_flight H ?d s'"
     "step_same t (s'\<lparr>vs_finished_req_ids := vs_finished_req_ids t, vs_cached_reqs_data := vs_cached_reqs_data t,
       vs_encoder_cache_manager := vs_encoder_cache_manager t\<rparr>)"
     "vs_objects s' = vs_objects t" "vs_running s' = vs_running t" "vs_waiting s' = vs_waiting t" "\<And>r. vs_blocks s' r = vs_blocks t r"
     "vs_finished_req_ids s' = {}" "so_num_scheduled_tokens out = ?d"
     "so_total_num_scheduled_tokens out = sum_list (dict_values ?d)" "so_scheduled_spec_decode_tokens out = []"
     "so_finished_req_ids out = vs_finished_req_ids t"
     "so_scheduled_new_reqs out = map (\<lambda>r. NewRequestData_from_request (vs_obj t r) (dict_get_default (sv_new_block_ids v) (vs_id t r) [])) (sv_new_reqs v)"
     "so_scheduled_cached_reqs out = map (cached_entry t v True) (sv_resumed_reqs v) @ map (cached_entry t v False) ?runs"
    using schedule_output_ok[OF a(2) ct] by (elim exE conjE) blast
  have run: "Scheduler_schedule H now s = Inr (out, s')" using a(1) schedule_checks_ok[OF a(2)] b(1) by simp
  have same: "plan_same s s'"
    unfolding plan_same_def using step_same_trans[OF a(3) b(3)] step_sameD(9-11)[OF a(3)] by simp
  have S: "set (sched_reqs v) = set ?runs \<union> set adm" "distinct (?runs @ adm)"
  proof -
    show "set (sched_reqs v) = set ?runs \<union> set adm" using a(9,10) by (auto simp: sched_reqs_def)
    have "distinct (vs_running t)" using queues_okD(1)[OF sched_okD(2)[OF I(1)]] by simp
    then show "distinct (?runs @ adm)" using a(5) set_mono_prefix[OF a(8)] I(4) by (auto simp: sched_reqs_def)
  qed
  have Q: "distinct (vs_waiting s @ vs_running s)" using queues_okD(1)[OF sched_okD(2)[OF in_flightD(1)[OF rest]]] .
  have aw: "set adm \<subseteq> set (vs_waiting s)" using set_mono_prefix[OF a(13)] by auto
  have empty: "vs_blocks s x = []" if "x \<in> set adm" for x
    using sched_okD(5)[OF in_flightD(1)[OF rest], of x] aw that by (auto simp: waiting_ok_def wait_slots_def)
  have gr: "\<exists>new. dict_get (sv_new_block_ids v) (vs_id t x) = Some new \<and> vs_blocks s' x = vs_blocks s x @ new" if "x \<in> set (sched_reqs v)" for x
    using a(11) that b(7) id unfolding granted_def by metis
  have nb: "dict_get_default (sv_new_block_ids v) (vs_id t x) [] = drop (length (vs_blocks s x)) (vs_blocks s' x)" if "x \<in> set (sched_reqs v)" for x
    using gr[OF that] by (auto simp: dict_get_default_def)
  have nb0: "dict_get_default (sv_new_block_ids v) (vs_id t x) [] = vs_blocks s' x" if "x \<in> set adm" for x
    using nb[of x] empty[OF that] S(1) that by simp
  have ent: "cached_entry t v res x = cached_info ?d s' res (dict_get_default (sv_new_block_ids v) (vs_id t x) []) x" if "x \<in> set (sched_reqs v)" for res x
  proof -
    have "x \<in> set (vs_running t)" using that I(5) by blast
    then have "running_ok H t (sched_fn ?d) x" by (rule sched_okD(6)[OF I(1)])
    then show ?thesis using b(4) by (simp add: cached_entry_def cached_info_def Let_def py_slice_nonneg running_ok_def)
  qed
  have news: "so_scheduled_new_reqs out = map (\<lambda>r. NewRequestData_from_request (vs_obj s' r) (vs_blocks s' r)) (filter (\<lambda>x. rq_status (vs_obj s x) \<noteq> PREEMPTED) adm)"
    unfolding b(13) a(9) b(4) by (rule map_cong[OF refl]) (use nb0[unfolded b(4)] in auto)
  have cached: "so_scheduled_cached_reqs out =
       map (\<lambda>r. cached_info ?d s' True (vs_blocks s' r) r) (filter (\<lambda>x. rq_status (vs_obj s x) = PREEMPTED) adm) @
       map (\<lambda>r. cached_info ?d s' False (drop (length (vs_blocks s r)) (vs_blocks s' r)) r) ?runs"
  proof -
    have "map (cached_entry t v True) (sv_resumed_reqs v) = map (\<lambda>r. cached_info ?d s' True (vs_blocks s' r) r) (filter (\<lambda>x. rq_status (vs_obj s x) = PREEMPTED) adm)"
      unfolding a(10) by (rule map_cong[OF refl]) (use ent nb0 S(1) in auto)
    moreover have "map (cached_entry t v False) ?runs = map (\<lambda>r. cached_info ?d s' False (drop (length (vs_blocks s r)) (vs_blocks s' r)) r) ?runs"
      by (rule map_cong[OF refl]) (use ent nb S(1) in auto)
    ultimately show ?thesis unfolding b(14) by simp
  qed
  have tot: "sum_list (dict_values ?d) \<le> vs_max_num_scheduled_tokens s" using I(9,10) step_sameD(4)[OF a(3)] by linarith
  have prog: "0 < sum_list (dict_values ?d)" if "?runs @ adm \<noteq> []"
  proof -
    have "set (sched_reqs v) \<noteq> {}" using that S(1) by auto
    then have "?d \<noteq> []" using I(3) by auto
    then show ?thesis using sum_list_pos[OF I(8)] by simp
  qed
  have bl: "\<forall>x \<in> set (vs_running s') - set (?runs @ adm). vs_blocks s' x = vs_blocks s x"
    using a(11) b(5,7) S(1) unfolding granted_def by (metis DiffE set_append)
  have pf: "\<forall>x \<in> set ?runs. prefix (vs_blocks s x) (vs_blocks s' x)" using gr S(1) by (metis UnI1 prefixI)
  have ids: "vs_scheduled_req_ids s' = vs_id s ` set (?runs @ adm)"
    using in_flightD(3)[OF b(2)] I(3) S(1) id by auto
  show ?thesis
    by (rule exI[of _ out], rule exI[of _ s'], rule exI[of _ R], rule exI[of _ ?runs], rule exI[of _ adm], intro conjI)
      (use run b(2,5,6,8-12) same a(4-8,12-14) news cached tot prog bl pf ids S(2) step_sameD(10)[OF a(3)] b(4) in \<open>simp_all\<close>)
qed

end
