(* ===== verification/V1_Finish.thy ===== *)
theory V1_Finish
  imports V1_Schedule
begin

text \<open>
  Finishing requests: the stop condition, freeing a finished request, and the sampled tokens of a
  request, which are appended until one of them stops it.
\<close>

section \<open>The stop condition\<close>

definition stops :: "nat \<Rightarrow> Request \<Rightarrow> bool" where
  "stops max_model_len q \<longleftrightarrow> max_model_len \<le> Request_num_tokens q \<or> rq_max_tokens q \<le> int (Request_num_output_tokens q) \<or>
     (\<not> sp_ignore_eos (rq_sampling_params q) \<and> rq_eos_token_id q = Some (last (rq_output_token_ids q))) \<or>
     last (rq_output_token_ids q) \<in> set (sp_stop_token_ids (rq_sampling_params q))"

text \<open>Only the status and the stop reason may differ.\<close>

definition stop_obj :: "Request \<Rightarrow> Request \<Rightarrow> bool" where
  "stop_obj q q' \<longleftrightarrow> q'\<lparr>rq_status := rq_status q, rq_stop_reason := rq_stop_reason q\<rparr> = q"

lemma stop_objD:
  assumes "stop_obj q q'"
  shows "rq_request_id q' = rq_request_id q" "rq_all_token_ids q' = rq_all_token_ids q" "rq_output_token_ids q' = rq_output_token_ids q"
    "rq_num_computed_tokens q' = rq_num_computed_tokens q" "same_text q q'" "rq_sampling_params q' = rq_sampling_params q"
    "rq_events q' = rq_events q"
proof -
  show "rq_request_id q' = rq_request_id q" "rq_all_token_ids q' = rq_all_token_ids q" "rq_output_token_ids q' = rq_output_token_ids q"
    "rq_num_computed_tokens q' = rq_num_computed_tokens q" "same_text q q'" "rq_sampling_params q' = rq_sampling_params q"
    "rq_events q' = rq_events q"
    using assms by (cases q, cases q', simp add: stop_obj_def same_text_def)+
qed

lemma finished_statuses [simp]:
  "RequestStatus_is_finished FINISHED_STOPPED" "RequestStatus_is_finished FINISHED_LENGTH_CAPPED" "RequestStatus_is_finished FINISHED_ABORTED"
  "\<not> RequestStatus_is_finished RUNNING" "\<not> RequestStatus_is_finished WAITING" "\<not> RequestStatus_is_finished WAITING_FOR_FSM"
  "\<not> RequestStatus_is_finished PREEMPTED"
  by (simp_all add: RequestStatus_is_finished_def less_RequestStatus_def less_eq_RequestStatus_def)

lemma check_stop_ok:
  assumes "rq_output_token_ids q \<noteq> []"
  shows "\<exists>q'. Scheduler_check_stop s q = Inr (stops (vs_max_model_len s) q, q') \<and> stop_obj q q' \<and>
     (if stops (vs_max_model_len s) q then Request_is_finished q' else q' = q)"
proof -
  have "py_getitem (rq_output_token_ids q) (- 1) = Inr (last (rq_output_token_ids q))"
    using assms by (simp add: py_getitem_def last_conv_nth nat_diff_distrib Suc_le_eq)
  then show ?thesis
    by (auto simp: Scheduler_check_stop_def stops_def stop_obj_def Request_is_finished_def)
qed

section \<open>Freeing a finished request\<close>

text \<open>What taking the output of a batch leaves alone.\<close>

definition upd_same :: "V1Scheduler \<Rightarrow> V1Scheduler \<Rightarrow> bool" where
  "upd_same s s' \<longleftrightarrow> length (vs_objects s') = length (vs_objects s) \<and> (\<forall>k. vs_id s' k = vs_id s k) \<and> vs_waiting s' = vs_waiting s \<and>
     vs_running s' = vs_running s \<and> vs_max_num_scheduled_tokens s' = vs_max_num_scheduled_tokens s \<and>
     vs_max_model_len s' = vs_max_model_len s \<and> vs_max_num_running_reqs s' = vs_max_num_running_reqs s \<and>
     vs_log_stats s' = vs_log_stats s \<and> (cached_ids_ok s \<longrightarrow> cached_ids_ok s') \<and> same_config (vs_km s) (vs_km s')"

lemma upd_same_refl [simp]: "upd_same s s"
  by (simp add: upd_same_def)

lemma upd_same_trans: "upd_same s t \<Longrightarrow> upd_same t u \<Longrightarrow> upd_same s u"
  unfolding upd_same_def by (auto intro: same_config_trans)

lemma upd_sameD:
  assumes "upd_same s s'"
  shows "vs_id s' k = vs_id s k" "length (vs_objects s') = length (vs_objects s)" "vs_waiting s' = vs_waiting s" "vs_running s' = vs_running s"
    "vs_max_num_scheduled_tokens s' = vs_max_num_scheduled_tokens s" "vs_max_model_len s' = vs_max_model_len s"
    "vs_max_num_running_reqs s' = vs_max_num_running_reqs s" "cached_ids_ok s \<Longrightarrow> cached_ids_ok s'" "same_config (vs_km s) (vs_km s')"
    "vs_log_stats s' = vs_log_stats s"
  using assms by (simp_all add: upd_same_def)

lemma vs_put_upd:
  assumes "rq_request_id (g (vs_obj s r)) = vs_id s r"
  shows "upd_same s (vs_put r g s)" "others_same r s (vs_put r g s)"
proof -
  have "vs_id (vs_put r g s) k = vs_id s k" for k
    using assms by (cases "r < length (vs_objects s)"; cases "k = r") (simp_all add: list_update_beyond)
  then show "upd_same s (vs_put r g s)" "others_same r s (vs_put r g s)" by (simp_all add: upd_same_def others_same_def cached_ids_ok_def)
qed

lemma encoder_free_empty: "ec_cached e = [] \<Longrightarrow> EncoderCacheManager_free order e q = Inr e"
proof -
  assume c: "ec_cached e = []"
  have "res_fold (\<lambda>i e. EncoderCacheManager_free_encoder_input e q i) is e = Inr e" for "is"
    by (induction "is") (simp_all add: EncoderCacheManager_free_encoder_input_def c)
  then show ?thesis by (simp add: EncoderCacheManager_free_def)
qed

text \<open>The request leaves the scheduler, the rest keeps the invariant.\<close>

lemma free_request_sched:
  assumes ok: "sched_ok H f W R s0" and r: "r \<in> set (W @ R)" and o: "others_same r s0 s" and inv: "km_inv (vs_km s) xs"
    and fin: "Request_is_finished (vs_obj s r)" and kh: "known_hashes H (vs_km s) (vs_obj s r) n"
    and f: "\<And>i. i \<noteq> vs_id s0 r \<Longrightarrow> f' i = f i"
  shows "\<exists>s'. Scheduler_free_request order r s = Inr s' \<and> sched_ok H f' (remove1 r W) (remove1 r R) s' \<and> vs_objects s' = vs_objects s \<and>
     vs_scheduled_req_ids s' = vs_scheduled_req_ids s \<and> vs_finished_req_ids s' = insert (vs_id s0 r) (vs_finished_req_ids s) \<and> upd_same s s'"
proof -
  have id: "vs_id s r = vs_id s0 r" by (rule others_same_id[OF o])
  obtain m ys where m: "KVCacheManager_free (vs_km s) (vs_obj s r) = Inr m" "km_inv m ys" "same_config (vs_km s) m" "wait_slots H m (vs_obj s r)"
    "\<And>i. i \<noteq> vs_id s r \<Longrightarrow> kept (vs_km s) m i"
    using free_view[OF inv kh] by blast
  let ?m = "KVCacheManager_free_block_hashes m (vs_obj s r)"
  have e: "ec_cached (vs_encoder_cache_manager s) = []" using sched_okD(1)[OF ok] o by (simp add: static_ok_def others_same_def)
  have reqs: "vs_requests s = vs_requests s0" using o by (simp add: others_same_def)
  have has: "dict_get (vs_requests s) (vs_id s r) = Some r" using queues_okD(4)[OF sched_okD(2)[OF ok] r] reqs id by simp
  let ?s' = "s\<lparr>vs_kv_cache_manager := ?m, vs_encoder_cache_manager := vs_encoder_cache_manager s,
      vs_cached_reqs_data := dict_pop (vs_id s r) (vs_cached_reqs_data s), vs_requests := dict_pop (vs_id s r) (vs_requests s),
      vs_finished_req_ids := insert (vs_id s r) (vs_finished_req_ids s)\<rparr>"
  have run: "Scheduler_free_request order r s = Inr ?s'"
    using fin m(1) encoder_free_empty[OF e] has by (simp add: Scheduler_free_request_def Let_def)
  have kp: "kept (vs_km s) ?m i" if "i \<noteq> vs_id s r" for i
    using m(5)[OF that] that by (simp add: kept_def KVCacheManager_free_block_hashes_def dict_get_default_def)
  have cf: "same_config (vs_km s) ?m" using m(3) by (simp add: same_config_def KVCacheManager_free_block_hashes_def)
  have oo: "others_same r s0 (?s'\<lparr>vs_requests := vs_requests s0\<rparr>)"
    by (rule others_same_trans[OF o]) (use kp cf reqs in \<open>simp add: others_same_def\<close>)
  have "km_inv ?m ys" using m(2) by (simp add: km_inv_def KVCacheManager_free_block_hashes_def)
  then have "sched_ok H f' (remove1 r W) (remove1 r R) ?s'"
    by - (rule sched_ok_remove[OF ok r oo, where ys = ys],
      use m(4) f reqs id in \<open>simp_all add: KVCacheManager_free_block_hashes_def wait_slots_def dict_get_default_def\<close>)
  moreover have "upd_same s ?s'" using cf by (auto simp: upd_same_def cached_ids_ok_def split: if_splits)
  ultimately show ?thesis using run id by (intro exI[of _ ?s']) simp
qed

section \<open>The sampled tokens\<close>

abbreviation add_tokens :: "Request \<Rightarrow> int list \<Rightarrow> Request" where
  "add_tokens q ts \<equiv> Request_append_output_token_ids q ts"

text \<open>The tokens a request takes of the sampled ones: up to the first that stops it.\<close>

definition taken_tokens :: "nat \<Rightarrow> Request \<Rightarrow> int list \<Rightarrow> int list \<Rightarrow> bool \<Rightarrow> bool" where
  "taken_tokens max_model_len q ts toks stopped \<longleftrightarrow> prefix toks ts \<and> (stopped \<longleftrightarrow> toks \<noteq> [] \<and> stops max_model_len (add_tokens q toks)) \<and>
     (\<not> stopped \<longrightarrow> toks = ts) \<and> (\<forall>k. 0 < k \<longrightarrow> k < length toks \<longrightarrow> \<not> stops max_model_len (add_tokens q (take k toks)))"

lemma add_tokens_simps [simp]:
  "rq_request_id (add_tokens q ts) = rq_request_id q" "rq_all_token_ids (add_tokens q ts) = rq_all_token_ids q @ ts"
  "rq_output_token_ids (add_tokens q ts) = rq_output_token_ids q @ ts" "rq_status (add_tokens q ts) = rq_status q"
  "rq_num_computed_tokens (add_tokens q ts) = rq_num_computed_tokens q" "rq_lora_request (add_tokens q ts) = rq_lora_request q"
  "rq_mm_positions (add_tokens q ts) = rq_mm_positions q" "rq_spec_token_ids (add_tokens q ts) = rq_spec_token_ids q"
  "add_tokens (add_tokens q ts) us = add_tokens q (ts @ us)" "add_tokens q [] = q"
  "rq_sampling_params (add_tokens q ts) = rq_sampling_params q" "rq_events (add_tokens q ts) = rq_events q"
  by (simp_all add: Request_append_output_token_ids_def)

lemma taken_tokens_Cons:
  assumes no: "\<not> stops m (add_tokens q [t])" and tk: "taken_tokens m (add_tokens q [t]) ts toks stopped"
  shows "taken_tokens m q (t # ts) (t # toks) stopped"
proof -
  have t: "prefix toks ts" "stopped \<longleftrightarrow> toks \<noteq> [] \<and> stops m (add_tokens (add_tokens q [t]) toks)" "\<not> stopped \<Longrightarrow> toks = ts"
    "\<And>k. 0 < k \<Longrightarrow> k < length toks \<Longrightarrow> \<not> stops m (add_tokens (add_tokens q [t]) (take k toks))"
    using tk unfolding taken_tokens_def by blast+
  have 1: "\<not> stops m (add_tokens q (take k (t # toks)))" if "0 < k" "k < length (t # toks)" for k
  proof (cases k)
    case (Suc j)
    then show ?thesis using t(4)[of j] no that(2) by (cases "j = 0") simp_all
  qed (use that in simp)
  have 2: "stopped \<longleftrightarrow> stops m (add_tokens q (t # toks))" unfolding t(2) using no by (cases "toks = []") simp_all
  have 3: "\<not> stopped \<longrightarrow> t # toks = t # ts" using t(3) by blast
  show ?thesis unfolding taken_tokens_def
    by (intro conjI 3) (use t(1) 1 2 in simp_all)
qed

lemma take_sampled_ok:
  assumes ok: "sched_ok H f W R s0" and r: "r \<in> set R" and f: "\<forall>i. i \<noteq> vs_id s0 r \<longrightarrow> f' i = f i"
    and "others_same r s0 s" "km_inv (vs_km s) xs" "run_slots H (vs_km s) (vs_obj s r) c"
  shows "\<exists>toks stopped s'. take_sampled order r ts s = Inr (toks, stopped, s') \<and> taken_tokens (vs_max_model_len s) (vs_obj s r) ts toks stopped \<and>
     upd_same s s' \<and> (\<forall>k. k \<noteq> r \<longrightarrow> vs_obj s' k = vs_obj s k) \<and> vs_scheduled_req_ids s' = vs_scheduled_req_ids s \<and>
     stop_obj (add_tokens (vs_obj s r) toks) (vs_obj s' r) \<and>
     (if stopped then sched_ok H f' W (remove1 r R) s' \<and> Request_is_finished (vs_obj s' r) \<and>
        vs_finished_req_ids s' = insert (vs_id s0 r) (vs_finished_req_ids s)
      else others_same r s0 s' \<and> vs_km s' = vs_km s \<and> vs_obj s' r = add_tokens (vs_obj s r) ts \<and>
        vs_finished_req_ids s' = vs_finished_req_ids s)"
  using assms(4-)
proof (induction ts arbitrary: s)
  case Nil
  then show ?case by (simp add: taken_tokens_def stop_obj_def)
next
  case (Cons t ts)
  have len: "r < length (vs_objects s)"
    using queues_okD(3)[OF sched_okD(2)[OF ok], of r] r Cons.prems(1) by (simp add: others_same_def)
  let ?q = "add_tokens (vs_obj s r) [t]"
  let ?s1 = "vs_put r (\<lambda>q. add_tokens q [t]) s"
  have o1: "vs_obj ?s1 r = ?q" using len by simp
  have ne: "rq_output_token_ids ?q \<noteq> []" by simp
  obtain q' where q': "Scheduler_check_stop ?s1 ?q = Inr (stops (vs_max_model_len s) ?q, q')" "stop_obj ?q q'"
    "if stops (vs_max_model_len s) ?q then Request_is_finished q' else q' = ?q"
    using check_stop_ok[OF ne, of ?s1] by auto
  define s2 where "s2 = vs_put r (\<lambda>_. q') ?s1"
  have o2: "vs_obj s2 r = q'" using len by (simp add: s2_def)
  have p1: "upd_same s ?s1" "others_same r s ?s1" by (rule vs_put_upd; simp)+
  have p2: "upd_same ?s1 s2" "others_same r ?s1 s2" unfolding s2_def by (rule vs_put_upd; use stop_objD(1)[OF q'(2)] o1 in simp)+
  have p: "upd_same s s2" "others_same r s0 s2"
    using upd_same_trans[OF p1(1) p2(1)] others_same_trans[OF others_same_trans[OF Cons.prems(1) p1(2)] p2(2)] by blast+
  have km2: "vs_km s2 = vs_km s" "km_inv (vs_km s2) xs" using Cons.prems(2) by (simp_all add: s2_def)
  have bs: "0 < km_block_size (vs_km s)" using km_invD(1)[OF Cons.prems(2)] .
  have sl: "run_slots H (vs_km s2) (vs_obj s2 r) c"
    unfolding km2(1) o2 by (rule slots_append[OF bs _ _ _ Cons.prems(3), of _ "[t]"])
      (use stop_objD[OF q'(2)] in \<open>auto simp: same_text_def\<close>)
  have oth: "vs_obj s2 k = vs_obj s k" if "k \<noteq> r" for k using that by (simp add: s2_def)
  have e2: "vs_max_model_len s2 = vs_max_model_len s" "vs_scheduled_req_ids s2 = vs_scheduled_req_ids s"
    "vs_finished_req_ids s2 = vs_finished_req_ids s" by (simp_all add: s2_def)
  show ?case
  proof (cases "stops (vs_max_model_len s) ?q")
    case True
    have fin: "Request_is_finished (vs_obj s2 r)" using q'(3) True o2 by simp
    have rWR: "r \<in> set (W @ R)" using r by simp
    have rW: "r \<notin> set W" using queues_okD(1)[OF sched_okD(2)[OF ok]] r by auto
    obtain s3 where s3: "Scheduler_free_request order r s2 = Inr s3" "sched_ok H f' (remove1 r W) (remove1 r R) s3" "vs_objects s3 = vs_objects s2"
     "vs_scheduled_req_ids s3 = vs_scheduled_req_ids s2" "vs_finished_req_ids s3 = insert (vs_id s0 r) (vs_finished_req_ids s2)" "upd_same s2 s3"
      using free_request_sched[OF ok rWR p(2) km2(2) fin run_slots_known[OF sl] f[rule_format]] by blast
    have "take_sampled order r (t # ts) s = Inr ([t], True, s3)" using q'(1) True s3(1) o1 by (simp add: Let_def s2_def[symmetric])
    moreover have "taken_tokens (vs_max_model_len s) (vs_obj s r) (t # ts) [t] True" using True by (simp add: taken_tokens_def)
    moreover have "sched_ok H f' W (remove1 r R) s3" using s3(2) rW by (simp add: remove1_idem)
    ultimately show ?thesis using s3(3-5) upd_same_trans[OF p(1) s3(6)] q'(2) fin len o2 oth e2
      by - (rule exI[of _ "[t]"], rule exI[of _ True], rule exI[of _ s3], simp)
  next
    case False
    then have qq: "q' = ?q" using q'(3) by simp
    note IH = Cons.IH[OF p(2) km2(2) sl, unfolded o2 qq e2]
    obtain toks stopped s' where h: "take_sampled order r ts s2 = Inr (toks, stopped, s')"
     "taken_tokens (vs_max_model_len s) ?q ts toks stopped" "upd_same s2 s'" "\<forall>k. k \<noteq> r \<longrightarrow> vs_obj s' k = vs_obj s2 k"
     "vs_scheduled_req_ids s' = vs_scheduled_req_ids s" "stop_obj (add_tokens ?q toks) (vs_obj s' r)"
     "if stopped then sched_ok H f' W (remove1 r R) s' \<and> Request_is_finished (vs_obj s' r) \<and>
        vs_finished_req_ids s' = insert (vs_id s0 r) (vs_finished_req_ids s)
      else others_same r s0 s' \<and> vs_km s' = vs_km s2 \<and> vs_obj s' r = add_tokens ?q ts \<and> vs_finished_req_ids s' = vs_finished_req_ids s"
      using IH by (elim exE conjE) (rule that; assumption)
    have run: "take_sampled order r (t # ts) s = Inr (t # toks, stopped, s')" using q'(1) False h(1) o1 by (simp add: Let_def s2_def[symmetric])
    have tk: "taken_tokens (vs_max_model_len s) (vs_obj s r) (t # ts) (t # toks) stopped"
      by (rule taken_tokens_Cons[OF False h(2)])
    have u: "upd_same s s'" by (rule upd_same_trans[OF p(1) h(3)])
    have ob: "\<forall>k. k \<noteq> r \<longrightarrow> vs_obj s' k = vs_obj s k" using h(4) oth by simp
    have so: "stop_obj (add_tokens (vs_obj s r) (t # toks)) (vs_obj s' r)" using h(6) by simp
    have fi: "if stopped then sched_ok H f' W (remove1 r R) s' \<and> Request_is_finished (vs_obj s' r) \<and>
        vs_finished_req_ids s' = insert (vs_id s0 r) (vs_finished_req_ids s)
      else others_same r s0 s' \<and> vs_km s' = vs_km s \<and> vs_obj s' r = add_tokens (vs_obj s r) (t # ts) \<and>
        vs_finished_req_ids s' = vs_finished_req_ids s" using h(7) km2(1) by simp
    show ?thesis
      by (rule exI[of _ "t # toks"], rule exI[of _ stopped], rule exI[of _ s'], intro conjI run tk u ob h(5) so fi)
  qed
qed

end
