(* ===== verification/V1_Update_Correct.thy ===== *)
theory V1_Update_Correct
  imports V1_Finish
begin

text \<open>
  Taking the output of the model runner: what the runner must answer, what happens to one
  scheduled request, and to all of them. Afterwards the scheduler is at rest again.
\<close>

section \<open>The answer of the runner\<close>

text \<open>
  The runner answers for every scheduled request, with at least one token when all its tokens are
  computed, with log probabilities when they are asked for, and proposes no speculative tokens.
\<close>

definition reply_of :: "ModelRunnerOutput \<Rightarrow> string \<Rightarrow> int list" where
  "reply_of out i = mo_sampled_token_ids out ! dict_get_default (mo_req_id_to_index out) i 0"

definition reply_ok :: "ModelRunnerOutput \<Rightarrow> Request \<Rightarrow> int \<Rightarrow> bool" where
  "reply_ok out q n \<longleftrightarrow> dict_has (mo_req_id_to_index out) (rq_request_id q) \<and>
     dict_get_default (mo_req_id_to_index out) (rq_request_id q) 0 < length (mo_sampled_token_ids out) \<and>
     (rq_num_computed_tokens q + n = int (length (rq_all_token_ids q)) \<longrightarrow> reply_of out (rq_request_id q) \<noteq> []) \<and>
     (sp_logprobs (rq_sampling_params q) \<noteq> None \<longrightarrow> mo_logprobs out \<noteq> None)"

definition replies_ok :: "(string, int) dict \<Rightarrow> ModelRunnerOutput \<Rightarrow> V1Scheduler \<Rightarrow> bool" where
  "replies_ok d out s \<longleftrightarrow> mo_spec_token_ids out = None \<and>
     (\<forall>r \<in> set (vs_running s). vs_id s r \<in> fst ` set d \<longrightarrow> reply_ok out (vs_obj s r) (sched_fn d (vs_id s r)))"

section \<open>One request\<close>

lemma sched_ok_put_out:
  assumes ok: "sched_ok H f W R s" and r: "r \<notin> set (W @ R)"
  shows "sched_ok H f W R (vs_put r g s)"
proof -
  let ?s = "vs_put r g s"
  have ob: "vs_obj ?s k = vs_obj s k" if "k \<in> set (W @ R)" for k using that r by (cases "k = r") auto
  have im: "vs_id ?s ` A = vs_id s ` A" if "A \<subseteq> set (W @ R)" for A using that ob by (intro image_cong) auto
  have m: "map (vs_id ?s) (W @ R) = map (vs_id s) (W @ R)" using ob by (intro map_cong) auto
  have "dict_get (vs_requests s) i = Some k \<longleftrightarrow> k \<in> set (W @ R) \<and> vs_id ?s k = i" for i k
  proof -
    have "dict_get (vs_requests s) i = Some k \<longleftrightarrow> k \<in> set (W @ R) \<and> vs_id s k = i"
      using sched_okD(2)[OF ok] unfolding queues_ok_def by blast
    then show ?thesis using ob[of k] by metis
  qed
  then have q: "queues_ok W R ?s" using sched_okD(2)[OF ok] unfolding queues_ok_def m by simp
  have n: "no_strays W R ?s" using sched_okD(7)[OF ok] im[of "set R"] im[of "set (W @ R)"] unfolding no_strays_def by simp
  have w: "waiting_ok H ?s k = waiting_ok H s k" if "k \<in> set W" for k using ob[of k] that by (simp add: waiting_ok_def)
  have rr: "running_ok H ?s f k = running_ok H s f k" if "k \<in> set R" for k using ob[of k] that by (simp add: running_ok_def)
  show ?thesis using ok q n w rr unfolding sched_ok_def static_ok_def by simp
qed

lemma stops_computed [simp]: "stops m (add_tokens (q\<lparr>rq_num_computed_tokens := c\<rparr>) ts) = stops m (add_tokens q ts)"
  by (simp add: stops_def Request_append_output_token_ids_def Request_num_tokens_def Request_num_output_tokens_def)

lemma taken_computed [simp]: "taken_tokens m (q\<lparr>rq_num_computed_tokens := c\<rparr>) = taken_tokens m q"
  by (intro ext) (simp add: taken_tokens_def)

text \<open>The object of a request after its answer: tokens appended, computed tokens advanced.\<close>

definition answered :: "nat \<Rightarrow> int \<Rightarrow> int list \<Rightarrow> Request \<Rightarrow> Request \<Rightarrow> int list \<Rightarrow> bool \<Rightarrow> bool" where
  "answered max_model_len n reply q q' toks stopped \<longleftrightarrow>
     rq_all_token_ids q' = rq_all_token_ids q @ toks \<and> rq_output_token_ids q' = rq_output_token_ids q @ toks \<and>
     rq_num_computed_tokens q' = rq_num_computed_tokens q + n \<and>
     (if rq_num_computed_tokens q + n < int (length (rq_all_token_ids q)) then toks = [] \<and> \<not> stopped
      else taken_tokens max_model_len q reply toks stopped) \<and>
     (if stopped then Request_is_finished q' else rq_status q' = rq_status q)"

text \<open>The output that is sent to the client.\<close>

definition client_output :: "ModelRunnerOutput \<Rightarrow> Request \<Rightarrow> int list \<Rightarrow> EngineCoreOutput list \<Rightarrow> bool" where
  "client_output out q' toks outs \<longleftrightarrow>
     map (\<lambda>e. (eo_request_id e, eo_new_token_ids e, eo_finish_reason e)) outs =
       (if toks \<noteq> [] \<or> rq_request_id q' \<in> mo_prompt_logprobs out
        then [(rq_request_id q', toks, Request_get_finished_reason q')] else [])"

lemma request_output_ok:
  assumes len: "r < length (vs_objects s)"
  shows "\<exists>outs s' q'. request_output out j r toks lps s = (outs, s') \<and> s' = vs_put r (\<lambda>_. q') s \<and>
     (\<exists>ev. q' = (vs_obj s r)\<lparr>rq_events := ev\<rparr>) \<and> client_output out (vs_obj s r) toks outs"
proof (cases "toks \<noteq> [] \<or> vs_id s r \<in> mo_prompt_logprobs out")
  case False
  have "vs_put r (\<lambda>_. vs_obj s r) s = s" by (simp add: vs_put_def)
  moreover have "\<exists>ev. vs_obj s r = (vs_obj s r)\<lparr>rq_events := ev\<rparr>" by (rule exI[of _ "rq_events (vs_obj s r)"]) simp
  ultimately show ?thesis using False
    by - (rule exI[of _ "[]"], rule exI[of _ s], rule exI[of _ "vs_obj s r"], simp add: request_output_def client_output_def Let_def)
next
  case True
  obtain ev q1 where e: "Request_take_events (vs_obj s r) = (ev, q1)" by fastforce
  then have "q1 = (vs_obj s r)\<lparr>rq_events := []\<rparr>" by (cases "rq_events (vs_obj s r) = []") (auto simp: Request_take_events_def)
  then show ?thesis using True e by (auto simp: request_output_def client_output_def Let_def)
qed

lemma free_passed_none: "ec_cached e = [] \<Longrightarrow> free_passed_inputs order q e = Inr e"
  by (simp add: free_passed_inputs_def EncoderCacheManager_get_cached_input_ids_def dict_get_default_def)

lemma finished_reason: "Request_is_finished (q\<lparr>rq_events := ev\<rparr>) = Request_is_finished q"
  by (simp add: Request_is_finished_def)

lemma update_request_ok:
  assumes ok: "sched_ok H f W R s" and r: "r \<in> set R" and n: "0 < f (vs_id s r)" and sp: "so_scheduled_spec_decode_tokens sched = []"
    and spec: "mo_spec_token_ids out = None" and rep: "reply_ok out (vs_obj s r) (f (vs_id s r))" and sid: "vs_id s r \<in> vs_scheduled_req_ids s"
  shows "\<exists>outs acc stopped s' toks. update_request order sched out (f (vs_id s r)) r s = Inr (outs, acc, stopped, s') \<and> upd_same s s' \<and>
     sched_ok H (f(vs_id s r := 0)) W (if stopped then remove1 r R else R) s' \<and> (\<forall>k. k \<noteq> r \<longrightarrow> vs_obj s' k = vs_obj s k) \<and>
     vs_scheduled_req_ids s' = vs_scheduled_req_ids s - {vs_id s r} \<and>
     vs_finished_req_ids s' = (if stopped then insert (vs_id s r) (vs_finished_req_ids s) else vs_finished_req_ids s) \<and>
     answered (vs_max_model_len s) (f (vs_id s r)) (reply_of out (vs_id s r)) (vs_obj s r) (vs_obj s' r) toks stopped \<and>
     client_output out (vs_obj s' r) toks outs"
proof -
  let ?q = "vs_obj s r" and ?n = "f (vs_id s r)" and ?ts = "reply_of out (vs_id s r)"
  let ?c = "rq_num_computed_tokens ?q + ?n"
  obtain f' where f': "f' = f(vs_id s r := 0)" by blast
  have rWR: "r \<in> set (W @ R)" using r by simp
  have len: "r < length (vs_objects s)" using queues_okD(3)[OF sched_okD(2)[OF ok] rWR] .
  have dW: "distinct (W @ R)" "r \<notin> set W" using queues_okD(1)[OF sched_okD(2)[OF ok]] r by auto
  have run: "running_ok H s f r" by (rule sched_okD(6)[OF ok r])
  have tx: "text_request (vs_max_model_len s) ?q" "rq_status ?q = RUNNING" "run_slots H (vs_km s) ?q ?c" "0 \<le> rq_num_computed_tokens ?q"
    using run by (simp_all add: running_ok_def)
  obtain xs where km: "km_inv (vs_km s) xs" using sched_okD(3)[OF ok] by blast
  have bs: "0 < km_block_size (vs_km s)" using km_invD(1)[OF km] .
  have cle: "?c \<le> int (length (rq_all_token_ids ?q))" using tx(3) by (simp add: run_slots_def Let_def)
  have ec: "ec_cached (vs_encoder_cache_manager s) = []" using sched_okD(1)[OF ok] by (simp add: static_ok_def)
  obtain j where j: "dict_item (mo_req_id_to_index out) (vs_id s r) = Inr j" "py_getitem (mo_sampled_token_ids out) (int j) = Inr ?ts"
    using rep by (auto simp: reply_ok_def dict_item_def dict_get_default_def reply_of_def py_getitem_nat)
  let ?q1 = "?q\<lparr>rq_num_computed_tokens := ?c\<rparr>"
  have adv: "advance_computed sched ?n ?ts ?q = Inr ?q1" using cle sp by (simp add: advance_computed_def Request_num_tokens_def)
  define s1 where "s1 = vs_put r (\<lambda>_. ?q1) s"
  have s1': "(vs_put r (\<lambda>_. ?q1) s)\<lparr>vs_encoder_cache_manager := vs_encoder_cache_manager s\<rparr> = s1"
    by (simp add: s1_def vs_put_def)
  have p1: "upd_same s s1" "others_same r s s1" unfolding s1_def by (rule vs_put_upd; simp)+
  have ob1: "vs_obj s1 r = ?q1" "\<And>k. k \<noteq> r \<Longrightarrow> vs_obj s1 k = vs_obj s k" using len by (simp_all add: s1_def)
  have e1: "vs_km s1 = vs_km s" "vs_scheduled_req_ids s1 = vs_scheduled_req_ids s" "vs_finished_req_ids s1 = vs_finished_req_ids s"
    "vs_max_model_len s1 = vs_max_model_len s" by (simp_all add: s1_def)
  have sl1: "run_slots H (vs_km s1) (vs_obj s1 r) ?c" unfolding ob1 e1 using tx(3) slots_same_text(1)[of ?q ?q1] by (simp add: same_text_def)
  define part where "part = (if rq_num_computed_tokens ?q1 \<ge> int (Request_num_tokens ?q1)
               then res_bind (take_sampled order r ?ts s1) (\<lambda>(toks, stopped, s2).
                    res_bind (sampled_logprobs out j (vs_obj s2 r)) (\<lambda>lps. Inr (toks, stopped, lps, s2)))
               else Inr ([], False, None, s1))"
  have "\<exists>toks stopped lps s2. part = Inr (toks, stopped, lps, s2) \<and> upd_same s1 s2 \<and> (\<forall>k. k \<noteq> r \<longrightarrow> vs_obj s2 k = vs_obj s1 k) \<and>
     vs_scheduled_req_ids s2 = vs_scheduled_req_ids s1 \<and>
     answered (vs_max_model_len s) ?n ?ts ?q (vs_obj s2 r) toks stopped \<and>
     (if stopped then sched_ok H f' W (remove1 r R) s2 \<and> vs_finished_req_ids s2 = insert (vs_id s r) (vs_finished_req_ids s1)
      else others_same r s s2 \<and> vs_km s2 = vs_km s \<and> vs_obj s2 r = add_tokens ?q1 toks \<and> vs_finished_req_ids s2 = vs_finished_req_ids s1)"
  proof (cases "?c < int (length (rq_all_token_ids ?q))")
    case True
    then have "part = Inr ([], False, None, s1)" by (simp add: part_def Request_num_tokens_def)
    then show ?thesis using True p1(2) ob1(1) e1
      by - (rule exI[of _ "[]"], rule exI[of _ False], rule exI[of _ None], rule exI[of _ s1], simp add: answered_def)
  next
    case False
    have ff: "\<forall>i. i \<noteq> vs_id s r \<longrightarrow> f' i = f i" by (simp add: f')
    have km1: "km_inv (vs_km s1) xs" using km e1 by simp
    obtain toks stopped s2 where t: "take_sampled order r ?ts s1 = Inr (toks, stopped, s2)"
     "taken_tokens (vs_max_model_len s1) (vs_obj s1 r) ?ts toks stopped" "upd_same s1 s2" "\<forall>k. k \<noteq> r \<longrightarrow> vs_obj s2 k = vs_obj s1 k"
     "vs_scheduled_req_ids s2 = vs_scheduled_req_ids s1" "stop_obj (add_tokens (vs_obj s1 r) toks) (vs_obj s2 r)"
     "if stopped then sched_ok H f' W (remove1 r R) s2 \<and> Request_is_finished (vs_obj s2 r) \<and>
        vs_finished_req_ids s2 = insert (vs_id s r) (vs_finished_req_ids s1)
      else others_same r s s2 \<and> vs_km s2 = vs_km s1 \<and> vs_obj s2 r = add_tokens (vs_obj s1 r) ?ts \<and>
        vs_finished_req_ids s2 = vs_finished_req_ids s1"
      using take_sampled_ok[where f' = f' and order = order and ts = ?ts, OF ok r ff p1(2) km1 sl1] by (elim exE conjE) (rule that; assumption)
    have sd: "rq_sampling_params (vs_obj s2 r) = rq_sampling_params ?q" using stop_objD(6)[OF t(6)] ob1 by simp
    obtain lps where lps: "sampled_logprobs out j (vs_obj s2 r) = Inr lps"
      using rep unfolding sampled_logprobs_def sd reply_ok_def
      by (cases "sp_logprobs (rq_sampling_params ?q) = None"; cases "mo_logprobs out") auto
    have pt: "part = Inr (toks, stopped, lps, s2)" using False t(1) lps by (simp add: part_def Request_num_tokens_def)
    have an: "answered (vs_max_model_len s) ?n ?ts ?q (vs_obj s2 r) toks stopped"
      using False t(2,7) stop_objD[OF t(6)] unfolding answered_def ob1 e1 by (cases stopped) simp_all
    have tt: "\<not> stopped \<Longrightarrow> toks = ?ts" using t(2) unfolding taken_tokens_def by blast
    show ?thesis
      by (rule exI[of _ toks], rule exI[of _ stopped], rule exI[of _ lps], rule exI[of _ s2], intro conjI pt t(3,4,5) an)
        (use t(7) ob1 e1 tt in \<open>cases stopped; simp\<close>)
  qed
  then obtain toks stopped lps s2 where b: "part = Inr (toks, stopped, lps, s2)" "upd_same s1 s2" "\<forall>k. k \<noteq> r \<longrightarrow> vs_obj s2 k = vs_obj s1 k"
     "vs_scheduled_req_ids s2 = vs_scheduled_req_ids s1" "answered (vs_max_model_len s) ?n ?ts ?q (vs_obj s2 r) toks stopped"
     "if stopped then sched_ok H f' W (remove1 r R) s2 \<and> vs_finished_req_ids s2 = insert (vs_id s r) (vs_finished_req_ids s1)
      else others_same r s s2 \<and> vs_km s2 = vs_km s \<and> vs_obj s2 r = add_tokens ?q1 toks \<and> vs_finished_req_ids s2 = vs_finished_req_ids s1"
    by (elim exE conjE) (rule that; assumption)
  have len2: "r < length (vs_objects s2)" using len upd_sameD(2)[OF upd_same_trans[OF p1(1) b(2)]] by simp
  obtain outs s3 q3 ev where o: "request_output out j r toks lps s2 = (outs, s3)" "s3 = vs_put r (\<lambda>_. q3) s2"
    "q3 = (vs_obj s2 r)\<lparr>rq_events := ev\<rparr>" "client_output out (vs_obj s2 r) toks outs"
    using request_output_ok[OF len2, of out j toks lps] by blast
  let ?s4 = "s3\<lparr>vs_scheduled_req_ids := vs_scheduled_req_ids s3 - {vs_id s3 r}\<rparr>"
  have p3: "upd_same s2 s3" "others_same r s2 s3" unfolding o(2) by (rule vs_put_upd; simp add: o(3))+
  have ob3: "vs_obj s3 r = q3" using len2 by (simp add: o(2))
  have us: "upd_same s s3" using upd_same_trans[OF upd_same_trans[OF p1(1) b(2)] p3(1)] .
  have id3: "vs_id s3 r = vs_id s r" using upd_sameD(1)[OF us] .
  have sc3: "vs_scheduled_req_ids s3 = vs_scheduled_req_ids s" using b(4) e1 by (simp add: o(2))
  have run: "\<exists>acc. update_request order sched out ?n r s = Inr (outs, acc, stopped, ?s4)"
  proof -
    have "update_request order sched out ?n r s = res_bind part (\<lambda>(new_token_ids, stopped, new_logprobs, s2).
       let accepted = (if new_token_ids \<noteq> [] \<and> Request_use_structured_output (vs_obj s2 r) then [(vs_id s2 r, new_token_ids)] else []);
           (outputs, s3) = request_output out j r new_token_ids new_logprobs s2
       in if vs_id s3 r \<notin> vs_scheduled_req_ids s3 then Inl KeyError
          else Inr (outputs, accepted, stopped, s3\<lparr>vs_scheduled_req_ids := vs_scheduled_req_ids s3 - {vs_id s3 r}\<rparr>))"
      unfolding update_request_def j(1) res_bind_simps j(2) adv free_passed_none[OF ec] spec option.case Let_def s1' part_def ..
    then show ?thesis using b(1) o(1) sid sc3 id3 by (simp add: Let_def)
  qed
  have fin3: "vs_finished_req_ids s3 = (if stopped then insert (vs_id s r) (vs_finished_req_ids s) else vs_finished_req_ids s)"
    using b(6) e1 by (simp add: o(2))
  have an: "answered (vs_max_model_len s) ?n ?ts ?q (vs_obj s3 r) toks stopped"
    using b(5) unfolding ob3 o(3) answered_def by (simp add: finished_reason)
  have co: "client_output out (vs_obj s3 r) toks outs"
    using o(4) unfolding ob3 o(3) client_output_def by (simp add: Request_get_finished_reason_def)
  have "sched_ok H f' W (if stopped then remove1 r R else R) s3"
  proof (cases stopped)
    case True
    have "r \<notin> set (W @ remove1 r R)" using dW by simp
    then show ?thesis using True b(6) sched_ok_put_out by (simp add: o(2))
  next
    case False
    have os: "others_same r s s3" using others_same_trans[OF _ p3(2)] b(6) False by simp
    have ob: "vs_obj s3 r = (add_tokens ?q1 toks)\<lparr>rq_events := ev\<rparr>" using ob3 o(3) b(6) False by simp
    have km3: "vs_km s3 = vs_km s" using b(6) False by (simp add: o(2))
    have A: "if ?c < int (length (rq_all_token_ids ?q)) then toks = [] else taken_tokens (vs_max_model_len s) ?q ?ts toks False"
      using b(5) False unfolding answered_def by (auto split: if_splits)
    have sl: "run_slots H (vs_km s3) (vs_obj s3 r) ?c"
      unfolding km3 ob by (rule slots_append[OF bs _ _ _ tx(3), of _ toks]) simp_all
    have lt: "?c < int (length (rq_all_token_ids ?q) + length toks)"
    proof (cases "?c < int (length (rq_all_token_ids ?q))")
      case False
      then have "toks \<noteq> []" using A rep cle by (auto simp: taken_tokens_def reply_ok_def)
      then show ?thesis using cle False by simp
    qed simp
    have ml: "length (rq_all_token_ids ?q) + length toks \<le> vs_max_model_len s"
    proof (cases "toks = []")
      case True
      then show ?thesis using tx(1) by (simp add: text_request_def)
    next
      case False
      then have "\<not> stops (vs_max_model_len s) (add_tokens ?q toks)" using A by (auto simp: taken_tokens_def split: if_splits)
      then show ?thesis by (simp add: stops_def Request_num_tokens_def)
    qed
    have ro: "running_ok H s3 f' r"
      using tx sl lt ml n upd_sameD(6)[OF us] id3 unfolding running_ok_def text_request_def by (simp add: ob f')
    have "sched_ok H f' W R s3"
      by (rule sched_ok_change[OF ok os rWR, where ys = xs]) (use km km3 ro dW sched_okD(4)[OF ok] f' in auto)
    then show ?thesis using False by simp
  qed
  then have ok4: "sched_ok H (f(vs_id s r := 0)) W (if stopped then remove1 r R else R) ?s4"
    unfolding f' sched_ok_def static_ok_def queues_ok_def no_strays_def waiting_ok_def running_ok_def by simp
  have "cached_ids_ok ?s4 = cached_ids_ok s3" by (simp add: cached_ids_ok_def)
  then have us4: "upd_same s ?s4" using us by (simp add: upd_same_def)
  have ob4: "\<forall>k. k \<noteq> r \<longrightarrow> vs_obj ?s4 k = vs_obj s k" using b(3) ob1(2) by (simp add: o(2))
  obtain acc where acc: "update_request order sched out ?n r s = Inr (outs, acc, stopped, ?s4)" using run by blast
  show ?thesis
    by (rule exI[of _ outs], rule exI[of _ acc], rule exI[of _ stopped], rule exI[of _ ?s4], rule exI[of _ toks], intro conjI acc us4 ok4 ob4)
      (use sc3 id3 fin3 an co in simp_all)
qed

section \<open>All requests of the batch\<close>

text \<open>What the client receives for a request: the tokens that were appended, and whether it finished.\<close>

definition client_entries :: "ModelRunnerOutput \<Rightarrow> V1Scheduler \<Rightarrow> V1Scheduler \<Rightarrow> req_ref \<Rightarrow> (string \<times> int list \<times> FinishReason option) list" where
  "client_entries out s s' r =
     (let toks = drop (length (rq_all_token_ids (vs_obj s r))) (rq_all_token_ids (vs_obj s' r))
      in if toks \<noteq> [] \<or> vs_id s r \<in> mo_prompt_logprobs out
         then [(vs_id s r, toks, Request_get_finished_reason (vs_obj s' r))] else [])"

definition answer_ok :: "ModelRunnerOutput \<Rightarrow> V1Scheduler \<Rightarrow> V1Scheduler \<Rightarrow> int \<Rightarrow> req_ref \<Rightarrow> bool" where
  "answer_ok out s s' n r \<longleftrightarrow>
     (if n = 0 then vs_obj s' r = vs_obj s r
      else \<exists>toks. answered (vs_max_model_len s) n (reply_of out (vs_id s r)) (vs_obj s r) (vs_obj s' r) toks (Request_is_finished (vs_obj s' r)))"

lemma running_not_finished: "running_ok H s f r \<Longrightarrow> \<not> Request_is_finished (vs_obj s r)"
  by (simp add: running_ok_def Request_is_finished_def)

lemma update_requests_ok:
  assumes sp: "so_scheduled_spec_decode_tokens sched = []" and spec: "mo_spec_token_ids out = None"
    and "sched_ok H f W (pre @ rs) s"
    and "\<forall>r \<in> set rs. f (vs_id s r) = sched_fn (so_num_scheduled_tokens sched) (vs_id s r)"
    and "\<forall>r \<in> set rs. 0 < f (vs_id s r) \<longrightarrow> reply_ok out (vs_obj s r) (f (vs_id s r)) \<and> vs_id s r \<in> vs_scheduled_req_ids s"
  shows "\<exists>keep outs acc s'. update_requests order sched out rs s = Inr (keep, outs, acc, s') \<and> upd_same s s' \<and>
     sched_ok H (\<lambda>i. if i \<in> vs_id s ` set rs then 0 else f i) W (pre @ keep) s' \<and> (\<forall>k. k \<notin> set rs \<longrightarrow> vs_obj s' k = vs_obj s k) \<and>
     keep = filter (\<lambda>r. \<not> Request_is_finished (vs_obj s' r)) rs \<and>
     vs_scheduled_req_ids s' = vs_scheduled_req_ids s - {vs_id s r | r. r \<in> set rs \<and> f (vs_id s r) \<noteq> 0} \<and>
     vs_finished_req_ids s' = vs_finished_req_ids s \<union> vs_id s ` {r \<in> set rs. Request_is_finished (vs_obj s' r)} \<and>
     (\<forall>r \<in> set rs. answer_ok out s s' (f (vs_id s r)) r) \<and>
     map (\<lambda>e. (eo_request_id e, eo_new_token_ids e, eo_finish_reason e)) outs =
       concat (map (\<lambda>r. if f (vs_id s r) = 0 then [] else client_entries out s s' r) rs)"
  using assms(3-)
proof (induction rs arbitrary: pre s f)
  case Nil
  then show ?case by simp
next
  case (Cons r rs)
  let ?n = "f (vs_id s r)" and ?g = "\<lambda>i. if i \<in> vs_id s ` set (r # rs) then 0 else f i"
  have r: "r \<in> set (pre @ r # rs)" by simp
  have dist: "distinct (pre @ r # rs)" using queues_okD(1)[OF sched_okD(2)[OF Cons.prems(1)]] by simp
  have inj: "inj_on (vs_id s) (set (pre @ r # rs))" using queues_okD(2)[OF sched_okD(2)[OF Cons.prems(1)]] by (rule inj_on_subset) auto
  have run: "running_ok H s f r" by (rule sched_okD(6)[OF Cons.prems(1) r])
  have n0: "0 \<le> ?n" using run by (simp add: running_ok_def)
  have dg: "dict_get_default (so_num_scheduled_tokens sched) (vs_id s r) 0 = ?n" using Cons.prems(2) by (simp add: sched_fn_def)
  have rout: "vs_id s r \<notin> vs_id s ` set rs" using inj dist by (auto dest: inj_onD)
  show ?case
  proof (cases "?n = 0")
    case True
    have pre: "sched_ok H f W ((pre @ [r]) @ rs) s" using Cons.prems(1) by simp
    have f1: "\<forall>k \<in> set rs. f (vs_id s k) = sched_fn (so_num_scheduled_tokens sched) (vs_id s k)"
      "\<forall>k \<in> set rs. 0 < f (vs_id s k) \<longrightarrow> reply_ok out (vs_obj s k) (f (vs_id s k)) \<and> vs_id s k \<in> vs_scheduled_req_ids s"
      using Cons.prems(2,3) by simp_all
    obtain keep outs acc s' where h: "update_requests order sched out rs s = Inr (keep, outs, acc, s')"
     "upd_same s s'" "sched_ok H (\<lambda>i. if i \<in> vs_id s ` set rs then 0 else f i) W ((pre @ [r]) @ keep) s'" "\<forall>k. k \<notin> set rs \<longrightarrow> vs_obj s' k = vs_obj s k"
     "keep = filter (\<lambda>r. \<not> Request_is_finished (vs_obj s' r)) rs"
     "vs_scheduled_req_ids s' = vs_scheduled_req_ids s - {vs_id s r | r. r \<in> set rs \<and> f (vs_id s r) \<noteq> 0}"
     "vs_finished_req_ids s' = vs_finished_req_ids s \<union> vs_id s ` {r \<in> set rs. Request_is_finished (vs_obj s' r)}"
     "\<forall>r \<in> set rs. answer_ok out s s' (f (vs_id s r)) r"
     "map (\<lambda>e. (eo_request_id e, eo_new_token_ids e, eo_finish_reason e)) outs =
       concat (map (\<lambda>r. if f (vs_id s r) = 0 then [] else client_entries out s s' r) rs)"
      using Cons.IH[OF pre f1] by (elim exE conjE) (rule that; assumption)
    have ob: "vs_obj s' r = vs_obj s r" using h(4) dist by simp
    have fin: "\<not> Request_is_finished (vs_obj s' r)" using running_not_finished[OF run] ob by simp
    have "?g = (\<lambda>i. if i \<in> vs_id s ` set rs then 0 else f i)" using True by auto
    then have ok: "sched_ok H ?g W (pre @ r # keep) s'" using h(3) by simp
    have u1: "update_requests order sched out (r # rs) s = Inr (r # keep, outs, acc, s')" using dg True h(1) by simp
    have u2: "r # keep = filter (\<lambda>r. \<not> Request_is_finished (vs_obj s' r)) (r # rs)" using h(5) fin by simp
    have u3: "vs_scheduled_req_ids s' = vs_scheduled_req_ids s - {vs_id s k | k. k \<in> set (r # rs) \<and> f (vs_id s k) \<noteq> 0}"
      using h(6) True by auto
    have u4: "vs_finished_req_ids s' = vs_finished_req_ids s \<union> vs_id s ` {k \<in> set (r # rs). Request_is_finished (vs_obj s' k)}"
    proof -
      have "{k \<in> set (r # rs). Request_is_finished (vs_obj s' k)} = {k \<in> set rs. Request_is_finished (vs_obj s' k)}" using fin by auto
      then show ?thesis using h(7) by simp
    qed
    have u5: "\<forall>k \<in> set (r # rs). answer_ok out s s' (f (vs_id s k)) k" using h(8) ob True by (simp add: answer_ok_def)
    have u6: "\<forall>k. k \<notin> set (r # rs) \<longrightarrow> vs_obj s' k = vs_obj s k" using h(4) by simp
    have u7: "map (\<lambda>e. (eo_request_id e, eo_new_token_ids e, eo_finish_reason e)) outs =
       concat (map (\<lambda>r. if f (vs_id s r) = 0 then [] else client_entries out s s' r) (r # rs))" using h(9) True by simp
    show ?thesis
      by (rule exI[of _ "r # keep"], rule exI[of _ outs], rule exI[of _ acc], rule exI[of _ s'], intro conjI h(2) ok u1 u2 u3 u4 u5 u6 u7)
  next
    case False
    then have np: "0 < ?n" using n0 by simp
    have rep: "reply_ok out (vs_obj s r) ?n" "vs_id s r \<in> vs_scheduled_req_ids s" using Cons.prems(3) np by simp_all
    obtain outs1 acc1 stopped s1 toks where a: "update_request order sched out ?n r s = Inr (outs1, acc1, stopped, s1)" "upd_same s s1"
     "sched_ok H (f(vs_id s r := 0)) W (if stopped then remove1 r (pre @ r # rs) else pre @ r # rs) s1" "\<forall>k. k \<noteq> r \<longrightarrow> vs_obj s1 k = vs_obj s k"
     "vs_scheduled_req_ids s1 = vs_scheduled_req_ids s - {vs_id s r}"
     "vs_finished_req_ids s1 = (if stopped then insert (vs_id s r) (vs_finished_req_ids s) else vs_finished_req_ids s)"
     "answered (vs_max_model_len s) ?n (reply_of out (vs_id s r)) (vs_obj s r) (vs_obj s1 r) toks stopped"
     "client_output out (vs_obj s1 r) toks outs1"
      using update_request_ok[where order = order, OF Cons.prems(1) r np sp spec rep] by (elim exE conjE) (rule that; assumption)
    note id = upd_sameD(1)[OF a(2)]
    have st: "stopped \<longleftrightarrow> Request_is_finished (vs_obj s1 r)"
      using a(7) running_not_finished[OF run] by (auto simp: answered_def Request_is_finished_def split: if_splits)
    let ?pre = "if stopped then pre else pre @ [r]"
    have ok1: "sched_ok H (f(vs_id s r := 0)) W (?pre @ rs) s1" using a(3) dist by (cases stopped) (simp_all add: remove1_append)
    have ob1: "vs_obj s1 k = vs_obj s k" if "k \<in> set rs" for k using a(4) that dist by auto
    have fk: "(f(vs_id s r := 0)) (vs_id s k) = f (vs_id s k)" if "k \<in> set rs" for k using rout that by (metis fun_upd_other imageI)
    have f1: "\<forall>k \<in> set rs. (f(vs_id s r := 0)) (vs_id s1 k) = sched_fn (so_num_scheduled_tokens sched) (vs_id s1 k)"
      using Cons.prems(2) fk unfolding id by simp
    have f2: "\<forall>k \<in> set rs. 0 < (f(vs_id s r := 0)) (vs_id s1 k) \<longrightarrow>
       reply_ok out (vs_obj s1 k) ((f(vs_id s r := 0)) (vs_id s1 k)) \<and> vs_id s1 k \<in> vs_scheduled_req_ids s1"
      using Cons.prems(3) rout fk ob1 a(5) unfolding id by (metis DiffI imageI list.set_intros(2) singletonD)
    obtain keep outs acc s' where h: "update_requests order sched out rs s1 = Inr (keep, outs, acc, s')" "upd_same s1 s'"
     "sched_ok H (\<lambda>i. if i \<in> vs_id s1 ` set rs then 0 else (f(vs_id s r := 0)) i) W (?pre @ keep) s'" "\<forall>k. k \<notin> set rs \<longrightarrow> vs_obj s' k = vs_obj s1 k"
     "keep = filter (\<lambda>r. \<not> Request_is_finished (vs_obj s' r)) rs"
     "vs_scheduled_req_ids s' = vs_scheduled_req_ids s1 - {vs_id s1 k | k. k \<in> set rs \<and> (f(vs_id s r := 0)) (vs_id s1 k) \<noteq> 0}"
     "vs_finished_req_ids s' = vs_finished_req_ids s1 \<union> vs_id s1 ` {r \<in> set rs. Request_is_finished (vs_obj s' r)}"
     "\<forall>k \<in> set rs. answer_ok out s1 s' ((f(vs_id s r := 0)) (vs_id s1 k)) k"
     "map (\<lambda>e. (eo_request_id e, eo_new_token_ids e, eo_finish_reason e)) outs =
       concat (map (\<lambda>k. if (f(vs_id s r := 0)) (vs_id s1 k) = 0 then [] else client_entries out s1 s' k) rs)"
      using Cons.IH[OF ok1 f1 f2] by (elim exE conjE) (rule that; assumption)
    have ob: "vs_obj s' r = vs_obj s1 r" using h(4) dist by simp
    have run1: "update_requests order sched out (r # rs) s = Inr (if stopped then keep else r # keep, outs1 @ outs, acc1 @ acc, s')"
      using dg False a(1) h(1) by (simp add: Let_def)
    have us: "upd_same s s'" by (rule upd_same_trans[OF a(2) h(2)])
    have "(\<lambda>i. if i \<in> vs_id s1 ` set rs then 0 else (f(vs_id s r := 0)) i) = ?g" by (rule ext) (auto simp: id)
    then have ok: "sched_ok H ?g W (pre @ (if stopped then keep else r # keep)) s'" using h(3) by (cases stopped) simp_all
    have kp: "(if stopped then keep else r # keep) = filter (\<lambda>r. \<not> Request_is_finished (vs_obj s' r)) (r # rs)" using h(5) st ob by simp
    have obs: "\<forall>k. k \<notin> set (r # rs) \<longrightarrow> vs_obj s' k = vs_obj s k" using h(4) a(4) by simp
    have sc: "vs_scheduled_req_ids s' = vs_scheduled_req_ids s - {vs_id s k | k. k \<in> set (r # rs) \<and> f (vs_id s k) \<noteq> 0}"
      unfolding h(6) a(5) id using fk False by auto
    have fi: "vs_finished_req_ids s' = vs_finished_req_ids s \<union> vs_id s ` {k \<in> set (r # rs). Request_is_finished (vs_obj s' k)}"
    proof -
      have "{k \<in> set (r # rs). Request_is_finished (vs_obj s' k)} =
         (if stopped then {r} else {}) \<union> {k \<in> set rs. Request_is_finished (vs_obj s' k)}" using st ob by auto
      then show ?thesis unfolding h(7) a(6) id by (auto simp: image_Un)
    qed
    have an: "answer_ok out s s' (f (vs_id s k)) k" if "k \<in> set (r # rs)" for k
    proof (cases "k = r")
      case True
      then show ?thesis using a(7) st ob False by (auto simp: answer_ok_def)
    next
      case False
      then have k: "k \<in> set rs" using that by simp
      show ?thesis using bspec[OF h(8) k] unfolding id fk[OF k] answer_ok_def ob1[OF k] upd_sameD(6)[OF a(2)] .
    qed
    have ce: "client_entries out s s' r = map (\<lambda>e. (eo_request_id e, eo_new_token_ids e, eo_finish_reason e)) outs1"
      using a(7,8) ob id[of r] by (simp add: client_entries_def client_output_def answered_def)
    have ck: "client_entries out s1 s' k = client_entries out s s' k" if "k \<in> set rs" for k
      using ob1[OF that] by (simp add: client_entries_def)
    have mc: "map (\<lambda>k. if (f(vs_id s r := 0)) (vs_id s1 k) = 0 then [] else client_entries out s1 s' k) rs =
       map (\<lambda>k. if f (vs_id s k) = 0 then [] else client_entries out s s' k) rs"
      by (rule map_cong[OF refl]) (use fk ck id in simp)
    have os: "map (\<lambda>e. (eo_request_id e, eo_new_token_ids e, eo_finish_reason e)) (outs1 @ outs) =
       concat (map (\<lambda>r. if f (vs_id s r) = 0 then [] else client_entries out s s' r) (r # rs))"
      using ce h(9)[unfolded mc] False by simp
    show ?thesis
      by (rule exI[of _ "if stopped then keep else r # keep"], rule exI[of _ "outs1 @ outs"], rule exI[of _ "acc1 @ acc"], rule exI[of _ s'],
          intro conjI run1 us ok obs kp sc fi ballI an os)
  qed
qed

end
