(* ===== verification/V1_Engine.thy ===== *)
theory V1_Engine
  imports V1_Update_Correct
begin

text \<open>
  The operations of the scheduler on a state at rest, and the step of the engine core: all of
  them succeed and keep the state at rest.
\<close>

section \<open>Statistics and the output of a batch\<close>

lemma in_flight_km:
  assumes fl: "in_flight H d s" and m: "km_inv m xs" "same_config (vs_km s) m" "\<And>i. kept (vs_km s) m i"
  shows "in_flight H d (s\<lparr>vs_kv_cache_manager := m\<rparr>)"
  using sched_ok_km[OF in_flightD(1)[OF fl] m] fl unfolding in_flight_def cached_ids_ok_def by simp

lemma make_stats_ok:
  assumes fl: "in_flight H d s"
  shows "\<exists>st s'. Scheduler_make_stats s = Inr (st, s') \<and> in_flight H d s' \<and> upd_same s s' \<and> vs_objects s' = vs_objects s \<and>
     vs_requests s' = vs_requests s \<and> vs_finished_req_ids s' = vs_finished_req_ids s \<and> (st = None \<longleftrightarrow> \<not> vs_log_stats s)"
proof (cases "vs_log_stats s")
  case False
  then show ?thesis using fl by (intro exI[of _ None] exI[of _ s]) (simp add: Scheduler_make_stats_def)
next
  case True
  note ok = in_flightD(1)[OF fl]
  obtain xs where km: "km_inv (vs_km s) xs" using sched_okD(3)[OF ok] by blast
  have "vp_num_gpu_blocks (km_block_pool (vs_km s)) \<noteq> 0"
    using sched_okD(1)[OF ok] pool_baseD(5)[OF pool_stateD(1)[OF km_invD(2)[OF km]]] by (auto simp: static_ok_def)
  then obtain u where u: "KVCacheManager_usage (vs_km s) = Inr u" by (auto simp: KVCacheManager_usage_def BlockPool_v1_get_usage_def)
  let ?m = "(vs_km s)\<lparr>km_prefix_cache_stats := PrefixCacheStats_init\<rparr>"
  let ?s = "s\<lparr>vs_kv_cache_manager := ?m\<rparr>"
  have m: "km_inv ?m xs" "same_config (vs_km s) ?m" "\<And>i. kept (vs_km s) ?m i" using km by (simp_all add: km_inv_def same_config_def kept_def)
  have "\<exists>st. Scheduler_make_stats s = Inr (Some st, ?s)"
    using True u by (simp add: Scheduler_make_stats_def KVCacheManager_make_prefix_cache_stats_def)
  moreover have "cached_ids_ok ?s = cached_ids_ok s" by (simp add: cached_ids_ok_def)
  then have "upd_same s ?s" using m(2) by (simp add: upd_same_def)
  ultimately show ?thesis using in_flight_km[OF fl m] True by auto
qed

lemma in_flight_zero: "in_flight H d s \<Longrightarrow> i \<notin> vs_id s ` set (vs_running s) \<Longrightarrow> sched_fn d i = 0"
  using sched_fn_fresh[of i d] by (auto simp: in_flight_def)

lemma update_from_output_ok:
  assumes fl: "in_flight H (so_num_scheduled_tokens sched) s" and sp: "so_scheduled_spec_decode_tokens sched = []"
    and rep: "replies_ok (so_num_scheduled_tokens sched) out s"
  shows "\<exists>res s'. Scheduler_update_from_output order sched out s = Inr (res, s') \<and> at_rest H s' \<and>
     vs_waiting s' = vs_waiting s \<and> vs_running s' = filter (\<lambda>r. \<not> Request_is_finished (vs_obj s' r)) (vs_running s) \<and>
     (\<forall>k. k \<notin> set (vs_running s) \<longrightarrow> vs_obj s' k = vs_obj s k) \<and> (\<forall>k. vs_id s' k = vs_id s k) \<and>
     vs_finished_req_ids s' = vs_finished_req_ids s \<union> vs_id s ` {r \<in> set (vs_running s). Request_is_finished (vs_obj s' r)} \<and>
     (\<forall>r \<in> set (vs_running s). answer_ok out s s' (sched_fn (so_num_scheduled_tokens sched) (vs_id s r)) r) \<and>
     map (\<lambda>e. (eo_request_id e, eo_new_token_ids e, eo_finish_reason e)) (os_outputs res) =
       concat (map (\<lambda>r. if sched_fn (so_num_scheduled_tokens sched) (vs_id s r) = 0 then [] else client_entries out s s' r) (vs_running s)) \<and>
     vs_max_model_len s' = vs_max_model_len s \<and> vs_max_num_scheduled_tokens s' = vs_max_num_scheduled_tokens s \<and>
     vs_max_num_running_reqs s' = vs_max_num_running_reqs s \<and> same_config (vs_km s) (vs_km s')"
proof -
  let ?d = "so_num_scheduled_tokens sched"
  let ?f = "sched_fn ?d"
  note F = in_flightD[OF fl]
  have inj: "inj_on (vs_id s) (set (vs_running s))" using queues_okD(2)[OF sched_okD(2)[OF F(1)]] by (rule inj_on_subset) simp
  have pos: "\<exists>n>0. dict_get ?d i = Some n" if "i \<in> fst ` set ?d" for i
    using that F(2,5) dict_has_keys[of ?d i] dict_get_mem[OF F(2), of i] by force
  have keyed: "?f i \<noteq> 0 \<longleftrightarrow> i \<in> fst ` set ?d" for i
  proof (cases "i \<in> fst ` set ?d")
    case True
    then show ?thesis using pos[OF True] by (auto simp: sched_fn_def dict_get_default_def)
  qed (use sched_fn_fresh[of i ?d] in simp)
  have ok: "sched_ok H ?f (vs_waiting s) ([] @ vs_running s) s" using F(1) by simp
  have spec: "mo_spec_token_ids out = None" using rep by (simp add: replies_ok_def)
  have r1: "\<forall>r \<in> set (vs_running s). ?f (vs_id s r) = sched_fn ?d (vs_id s r)" by simp
  have r2: "\<forall>r \<in> set (vs_running s). 0 < ?f (vs_id s r) \<longrightarrow> reply_ok out (vs_obj s r) (?f (vs_id s r)) \<and> vs_id s r \<in> vs_scheduled_req_ids s"
    using rep keyed F(3) unfolding replies_ok_def by force
  obtain keep outs acc s1 where u: "update_requests order sched out (vs_running s) s = Inr (keep, outs, acc, s1)" "upd_same s s1"
     "sched_ok H (\<lambda>i. if i \<in> vs_id s ` set (vs_running s) then 0 else ?f i) (vs_waiting s) ([] @ keep) s1"
     "\<forall>k. k \<notin> set (vs_running s) \<longrightarrow> vs_obj s1 k = vs_obj s k"
     "keep = filter (\<lambda>r. \<not> Request_is_finished (vs_obj s1 r)) (vs_running s)"
     "vs_scheduled_req_ids s1 = vs_scheduled_req_ids s - {vs_id s r | r. r \<in> set (vs_running s) \<and> ?f (vs_id s r) \<noteq> 0}"
     "vs_finished_req_ids s1 = vs_finished_req_ids s \<union> vs_id s ` {r \<in> set (vs_running s). Request_is_finished (vs_obj s1 r)}"
     "\<forall>r \<in> set (vs_running s). answer_ok out s s1 (?f (vs_id s r)) r"
     "map (\<lambda>e. (eo_request_id e, eo_new_token_ids e, eo_finish_reason e)) outs =
       concat (map (\<lambda>r. if ?f (vs_id s r) = 0 then [] else client_entries out s s1 r) (vs_running s))"
    using update_requests_ok[where order = order, OF sp spec ok r1 r2] by (elim exE conjE) (rule that; assumption)
  let ?s2 = "s1\<lparr>vs_running := keep\<rparr>"
  have zero: "(\<lambda>i. if i \<in> vs_id s ` set (vs_running s) then 0 else ?f i) = sched_fn []"
    using in_flight_zero[OF fl] by (auto simp: sched_fn_init)
  have sc: "vs_scheduled_req_ids s1 = {}" using u(6) F(3,4) keyed by force
  have "sched_ok H (sched_fn []) (vs_waiting s1) keep ?s2"
    using u(3) upd_sameD(3)[OF u(2)] unfolding zero sched_ok_def static_ok_def queues_ok_def no_strays_def waiting_ok_def running_ok_def by simp
  then have rest: "at_rest H ?s2"
    using sc F(6) upd_sameD(5)[OF u(2)] upd_sameD(8)[OF u(2) F(7)] by (simp add: in_flight_def) (simp add: cached_ids_ok_def)
  obtain st s' where m: "Scheduler_make_stats ?s2 = Inr (st, s')" "at_rest H s'" "upd_same ?s2 s'" "vs_objects s' = vs_objects s1"
    "vs_finished_req_ids s' = vs_finished_req_ids s1"
    using make_stats_ok[OF rest] by auto
  let ?res = "\<lparr>os_outputs = outs, os_scheduler_stats = st, os_accepted = acc\<rparr>"
  have run: "Scheduler_update_from_output order sched out s = Inr (?res, s')"
    using u(1) m(1) by (simp add: Scheduler_update_from_output_def)
  have ao: "answer_ok out s s' n r = answer_ok out s s1 n r" for n r using m(4) by (simp add: answer_ok_def)
  have ce: "client_entries out s s' r = client_entries out s s1 r" for r using m(4) by (simp add: client_entries_def)
  have cf: "same_config (vs_km s) (vs_km s')" using same_config_trans[OF upd_sameD(9)[OF u(2)]] upd_sameD(9)[OF m(3)] by simp
  have o: "os_outputs ?res = outs" by simp
  show ?thesis
    by (rule exI[of _ ?res], rule exI[of _ s'], unfold o ce, intro conjI run m(2) cf u(9))
      (use u(4,5,7,8) m(4,5) upd_sameD[OF u(2)] upd_sameD(3-7)[OF m(3)] in \<open>simp_all add: ao\<close>)
qed

section \<open>Resetting the prefix cache\<close>

text \<open>It succeeds exactly when no request holds a block; then no block carries a hash any more.\<close>

lemma no_refs_no_holders: "dict_ok d \<Longrightarrow> (\<And>b. holders d b = 0) \<Longrightarrow> dict_get_default d i [] = []"
  using holders_le[of d i] by (metis count_list_0_iff equals0I le_zero_eq set_empty)

lemma reset_prefix_cache_rest:
  assumes fl: "in_flight H d s"
  shows "\<exists>ok s'. Scheduler_reset_prefix_cache s = (ok, s') \<and> in_flight H d s' \<and> vs_max_model_len s' = vs_max_model_len s \<and>
     (ok \<longleftrightarrow> (\<forall>b. holders (km_req_to_blocks (vs_km s)) b = 0)) \<and>
     (ok \<longrightarrow> (\<forall>b. vp_hash (km_block_pool (vs_km s')) b = None)) \<and> s' = s\<lparr>vs_kv_cache_manager := vs_km s'\<rparr>"
proof -
  let ?m = "vs_km s" and ?p = "km_block_pool (vs_km s)"
  obtain xs where inv: "km_inv ?m xs" using sched_okD(3)[OF in_flightD(1)[OF fl]] ..
  note I = km_invD[OF inv]
  note P = pool_baseD[OF pool_stateD(1)[OF I(2)]]
  have free: "vp_refs ?p b = 0 \<longleftrightarrow> b \<in> set xs" if "b < length (vp_blocks ?p)" for b using I(2) that by (simp add: pool_state_def)
  have sub: "distinct xs" "set xs \<subseteq> {..<length (vp_blocks ?p)}" using P(3,4) by auto
  have iff: "\<not> length xs < length (vp_blocks ?p) \<longleftrightarrow> (\<forall>b. holders (km_req_to_blocks ?m) b = 0)"
  proof
    assume "\<not> length xs < length (vp_blocks ?p)"
    then have "card {..<length (vp_blocks ?p)} \<le> card (set xs)" using sub(1) by (simp add: distinct_card)
    then have "set xs = {..<length (vp_blocks ?p)}" using sub(2) by (intro card_seteq) auto
    then have "vp_refs ?p b = 0" for b using free[of b] by (cases "b < length (vp_blocks ?p)") (auto simp: vp_refs_def)
    then show "\<forall>b. holders (km_req_to_blocks ?m) b = 0" using I(5) by simp
  next
    assume "\<forall>b. holders (km_req_to_blocks ?m) b = 0"
    then have "{..<length (vp_blocks ?p)} \<subseteq> set xs" using free I(5) by auto
    then have "card {..<length (vp_blocks ?p)} \<le> card (set xs)" by (intro card_mono) auto
    then show "\<not> length xs < length (vp_blocks ?p)" using sub(1) by (simp add: distinct_card)
  qed
  show ?thesis
  proof (cases "length xs < length (vp_blocks ?p)")
    case True
    then have "BlockPool_v1_reset_prefix_cache ?p = (False, ?p)" using reset_prefix_cache_ok[OF I(2)] by simp
    then have "Scheduler_reset_prefix_cache s = (False, s)" by (simp add: Scheduler_reset_prefix_cache_def KVCacheManager_reset_prefix_cache_def)
    then show ?thesis using fl iff True by (intro exI[of _ False] exI[of _ s]) auto
  next
    case False
    then obtain p where p: "BlockPool_v1_reset_prefix_cache ?p = (True, p)" "pool_state p xs" "same_pool ?p p" "vp_refs p = vp_refs ?p"
      "vp_hash p = (\<lambda>_. None)" using reset_prefix_cache_ok[OF I(2)] by auto
    define m where "m = ?m\<lparr>km_block_pool := p, km_prefix_cache_stats := (km_prefix_cache_stats ?m)\<lparr>ps_reset := True\<rparr>\<rparr>"
    have e: "Scheduler_reset_prefix_cache s = (True, s\<lparr>vs_kv_cache_manager := m\<rparr>)"
      using p(1) by (simp add: Scheduler_reset_prefix_cache_def KVCacheManager_reset_prefix_cache_def m_def)
    have z: "\<And>b. holders (km_req_to_blocks ?m) b = 0" using iff False by simp
    have nb: "dict_get_default (km_req_to_blocks ?m) i [] = []" for i by (rule no_refs_no_holders[OF I(4) z])
    have "km_inv m xs" using inv p z unfolding km_inv_def m_def same_pool_def by simp
    moreover have "same_config ?m m" using p(3) by (simp add: same_config_def m_def same_pool_def)
    moreover have "kept ?m m i" for i using nb[of i] by (simp add: kept_def m_def)
    ultimately have "in_flight H d (s\<lparr>vs_kv_cache_manager := m\<rparr>)" by (rule in_flight_km[OF fl])
    then show ?thesis using e iff False p(5)
      by (intro exI[of _ True] exI[of _ "s\<lparr>vs_kv_cache_manager := m\<rparr>"]) (auto simp: m_def)
  qed
qed

section \<open>Adding a request\<close>

text \<open>What the frontend hands over: a text request of legal length that is not known yet.\<close>

definition new_request :: "V1Scheduler \<Rightarrow> Request \<Rightarrow> bool" where
  "new_request s q \<longleftrightarrow> \<not> dict_has (vs_requests s) (rq_request_id q) \<and> text_request (vs_max_model_len s) q \<and>
     rq_status q \<in> {WAITING, WAITING_FOR_FSM} \<and> rq_num_computed_tokens q = 0"

lemma add_request_ok:
  assumes fl: "in_flight H d s" and new: "new_request s q"
  shows "in_flight H d (Scheduler_add_request now q s)"
    "vs_waiting (Scheduler_add_request now q s) = vs_waiting s @ [length (vs_objects s)]" "vs_running (Scheduler_add_request now q s) = vs_running s"
    "k < length (vs_objects s) \<Longrightarrow> vs_obj (Scheduler_add_request now q s) k = vs_obj s k"
    "same_text q (vs_obj (Scheduler_add_request now q s) (length (vs_objects s)))"
proof -
  let ?r = "length (vs_objects s)" and ?s' = "Scheduler_add_request now q s"
  let ?q = "if vs_log_stats s then q\<lparr>rq_events := rq_events q @ [(EV_QUEUED, now)]\<rparr> else q"
  note F = in_flightD[OF fl]
  note ok = F(1)
  have e: "?s' = s\<lparr>vs_objects := vs_objects s @ [?q], vs_waiting := vs_waiting s @ [?r], vs_requests := dict_set (rq_request_id q) ?r (vs_requests s)\<rparr>"
    by (simp add: Scheduler_add_request_def Scheduler_request_queued_def record_event_def vs_put_def Let_def)
  have ob: "vs_obj ?s' ?r = ?q" "\<And>k. k < ?r \<Longrightarrow> vs_obj ?s' k = vs_obj s k" by (simp_all add: e nth_append)
  have q: "rq_request_id ?q = rq_request_id q" "same_text q ?q" by (simp_all add: same_text_def)
  show "vs_waiting ?s' = vs_waiting s @ [?r]" "vs_running ?s' = vs_running s" by (simp_all add: e)
  show "k < ?r \<Longrightarrow> vs_obj ?s' k = vs_obj s k" by (rule ob(2))
  show "same_text q (vs_obj ?s' ?r)" unfolding ob(1) by (rule q(2))
  have live: "k < ?r" if "k \<in> set (vs_waiting s @ vs_running s)" for k using queues_okD(3)[OF sched_okD(2)[OF ok] that] .
  have obl: "vs_obj ?s' k = vs_obj s k" if "k \<in> set (vs_waiting s @ vs_running s)" for k using ob(2) live[OF that] .
  have fresh: "rq_request_id q \<noteq> vs_id s k" if "k \<in> set (vs_waiting s @ vs_running s)" for k
    using queues_okD(4)[OF sched_okD(2)[OF ok] that] new by (auto simp: new_request_def)
  let ?W = "vs_waiting s @ [?r]" and ?R = "vs_running s"
  have m: "map (vs_id ?s') (?W @ ?R) = map (vs_id s) (vs_waiting s) @ rq_request_id q # map (vs_id s) ?R"
    using obl ob(1) q(1) by simp
  have "distinct (map (vs_id s) (vs_waiting s @ ?R))" using sched_okD(2)[OF ok] by (simp add: queues_ok_def)
  then have d: "distinct (map (vs_id ?s') (?W @ ?R))" unfolding m using fresh by (force simp: distinct_append)
  have "dict_get (vs_requests ?s') i = Some k \<longleftrightarrow> k \<in> set (?W @ ?R) \<and> vs_id ?s' k = i" for i k
  proof -
    have old: "dict_get (vs_requests s) i = Some k \<longleftrightarrow> k \<in> set (vs_waiting s @ ?R) \<and> vs_id s k = i"
      using sched_okD(2)[OF ok] unfolding queues_ok_def by blast
    show ?thesis
    proof (cases "k = ?r")
      case True
      have "dict_get (vs_requests s) i \<noteq> Some ?r" using old live True by auto
      then show ?thesis using True ob(1) q(1) by (auto simp: e)
    next
      case False
      then show ?thesis using old fresh[of k] obl[of k] by (auto simp: e)
    qed
  qed
  then have qs: "queues_ok ?W ?R ?s'"
    using d live sched_okD(2)[OF ok] unfolding queues_ok_def by (auto simp: e less_Suc_eq)
  have ids: "vs_id ?s' ` set ?R = vs_id s ` set ?R" "vs_id ?s' ` set (?W @ ?R) = insert (rq_request_id q) (vs_id s ` set (vs_waiting s @ ?R))"
    using obl ob(1) q(1) by (auto intro!: image_eqI)
  have nos: "no_strays ?W ?R ?s'" using sched_okD(7)[OF ok] unfolding no_strays_def ids by (simp add: e)
  have out: "rq_request_id q \<notin> vs_id s ` set (vs_waiting s @ ?R)" using fresh by blast
  have wq: "waiting_ok H ?s' ?r"
  proof -
    have "wait_slots H (vs_km s) q"
      using sched_okD(7)[OF ok] out unfolding no_strays_def wait_slots_def known_hashes_def by auto
    then show ?thesis using new slots_same_text(2)[OF q(2)] ob(1) unfolding waiting_ok_def new_request_def text_request_def by (auto simp: e)
  qed
  have w: "waiting_ok H ?s' k" if "k \<in> set (vs_waiting s)" for k
    using sched_okD(5)[OF ok that] obl[of k] that by (simp add: waiting_ok_def) (simp add: e)
  have rr: "running_ok H ?s' (sched_fn d) k" if "k \<in> set ?R" for k
    using sched_okD(6)[OF ok that] obl[of k] that by (simp add: running_ok_def) (simp add: e)
  have "sched_ok H (sched_fn d) ?W ?R ?s'"
    unfolding sched_ok_def
  proof (intro conjI ballI)
    show "static_ok ?s'" using sched_okD(1)[OF ok] by (simp add: static_ok_def e)
    show "\<exists>xs. km_inv (vs_km ?s') xs" using sched_okD(3)[OF ok] by (simp add: e)
    show "length ?R \<le> vs_max_num_running_reqs ?s'" using sched_okD(4)[OF ok] by (simp add: e)
  qed (use qs nos wq w rr in auto)
  then show "in_flight H d ?s'" using F ids(1) unfolding in_flight_def by (simp add: e cached_ids_ok_def)
qed

text \<open>The grammar of a request is compiled by another thread.\<close>

definition compile_grammar :: "req_ref \<Rightarrow> V1Scheduler \<Rightarrow> V1Scheduler" where
  "compile_grammar r = vs_put r (\<lambda>q. q\<lparr>rq_grammar := True\<rparr>)"

lemma in_flight_inert:
  assumes fl: "in_flight H d s" and g: "\<And>q. same_text q (g q)" "\<And>q. rq_status (g q) = rq_status q" "\<And>q. rq_spec_token_ids (g q) = rq_spec_token_ids q"
    "\<And>q. rq_mm_positions (g q) = rq_mm_positions q" "\<And>q. rq_num_computed_tokens (g q) = rq_num_computed_tokens q"
  shows "in_flight H d (vs_put r g s)"
proof -
  let ?s = "vs_put r g s"
  note ok = in_flightD(1)[OF fl]
  have id: "rq_request_id (g q) = rq_request_id q" for q using g(1)[of q] by (simp add: same_text_def)
  have ids: "vs_id ?s k = vs_id s k" for k
    using id by (cases "r < length (vs_objects s)"; cases "k = r") (simp_all add: list_update_beyond)
  have st: "same_text (vs_obj s k) (vs_obj ?s k)" "rq_status (vs_obj ?s k) = rq_status (vs_obj s k)"
    "rq_spec_token_ids (vs_obj ?s k) = rq_spec_token_ids (vs_obj s k)" "rq_mm_positions (vs_obj ?s k) = rq_mm_positions (vs_obj s k)"
    "rq_num_computed_tokens (vs_obj ?s k) = rq_num_computed_tokens (vs_obj s k)" for k
    using g by (cases "r < length (vs_objects s)"; cases "k = r"; simp add: list_update_beyond same_text_def)+
  have tk: "rq_all_token_ids (vs_obj ?s k) = rq_all_token_ids (vs_obj s k)" for k using st(1)[of k] by (simp add: same_text_def)
  have w: "waiting_ok H ?s k = waiting_ok H s k" for k
    using slots_same_text(2)[OF st(1), of H] st(2-)[of k] tk[of k] by (simp add: waiting_ok_def text_request_def del: vs_put_simps(1))
  have rr: "running_ok H ?s f k = running_ok H s f k" for f k
    using slots_same_text(1)[OF st(1), of H] st(2-)[of k] tk[of k] ids[of k] by (simp add: running_ok_def text_request_def del: vs_put_simps(1))
  have "sched_ok H f W R ?s = sched_ok H f W R s" for f W R
    unfolding sched_ok_def queues_ok_def no_strays_def static_ok_def w rr ids by simp
  then show ?thesis using fl unfolding in_flight_def cached_ids_ok_def ids by simp
qed

lemma compile_grammar_ok: "in_flight H d s \<Longrightarrow> in_flight H d (compile_grammar r s)"
  unfolding compile_grammar_def by (rule in_flight_inert) (simp_all add: same_text_def)

section \<open>Aborting requests\<close>

lemma finish_request_ok:
  assumes fl: "at_rest H s" and st: "RequestStatus_is_finished st"
  shows "\<exists>s'. finish_request order st i s = Inr s' \<and> at_rest H s' \<and>
     (\<forall>k. dict_get (vs_requests s') k = (if k = i then None else dict_get (vs_requests s) k)) \<and>
     vs_finished_req_ids s' = (if dict_has (vs_requests s) i then insert i (vs_finished_req_ids s) else vs_finished_req_ids s) \<and>
     (\<forall>k. vs_id s k \<noteq> i \<longrightarrow> vs_obj s' k = vs_obj s k) \<and> vs_max_model_len s' = vs_max_model_len s \<and>
     vs_max_num_scheduled_tokens s' = vs_max_num_scheduled_tokens s \<and> vs_max_num_running_reqs s' = vs_max_num_running_reqs s \<and>
     same_config (vs_km s) (vs_km s')"
proof (cases "dict_get (vs_requests s) i")
  case None
  then show ?thesis using fl by (intro exI[of _ s]) (simp add: finish_request_def)
next
  case (Some r)
  note ok = in_flightD(1)[OF fl]
  have q: "\<And>k j. dict_get (vs_requests s) j = Some k \<longleftrightarrow> k \<in> set (vs_waiting s @ vs_running s) \<and> vs_id s k = j"
    using sched_okD(2)[OF ok] unfolding queues_ok_def by blast
  have r: "r \<in> set (vs_waiting s @ vs_running s)" "vs_id s r = i" using Some q by simp_all
  have len: "r < length (vs_objects s)" using queues_okD(3)[OF sched_okD(2)[OF ok] r(1)] .
  have dist: "distinct (vs_waiting s @ vs_running s)" using queues_okD(1)[OF sched_okD(2)[OF ok]] .
  have which: "rq_status (vs_obj s r) = RUNNING \<longleftrightarrow> r \<in> set (vs_running s)"
    using r(1) sched_okD(5,6)[OF ok, of r] by (auto simp: waiting_ok_def running_ok_def)
  let ?t = "s\<lparr>vs_waiting := remove1 r (vs_waiting s), vs_running := remove1 r (vs_running s)\<rparr>"
  let ?g = "\<lambda>q. q\<lparr>rq_status := st\<rparr>"
  have z: "vs_scheduled_req_ids s = {}" using in_flightD(3)[OF fl] by simp
  have step: "finish_request order st i s = Scheduler_free_request order r (vs_put r ?g ?t)"
  proof (cases "r \<in> set (vs_running s)")
    case True
    then have "r \<notin> set (vs_waiting s)" using dist by auto
    then have "finish_request order st i s =
       Scheduler_free_request order r (vs_put r ?g (?t\<lparr>vs_scheduled_req_ids := vs_scheduled_req_ids ?t - {vs_id s r}\<rparr>))"
      using True which Some by (simp add: finish_request_def remove1_idem)
    also have "?t\<lparr>vs_scheduled_req_ids := vs_scheduled_req_ids ?t - {vs_id s r}\<rparr> = ?t" using z by (cases s) simp
    finally show ?thesis .
  next
    case False
    then show ?thesis using r(1) which Some by (simp add: finish_request_def remove1_idem)
  qed
  have ot: "others_same r s ?t" by (simp add: others_same_def)
  have "others_same r ?t (vs_put r ?g ?t)" by (rule vs_put_upd) simp
  then have o: "others_same r s (vs_put r ?g ?t)" by (rule others_same_trans[OF ot])
  obtain xs where km: "km_inv (vs_km s) xs" using sched_okD(3)[OF ok] by blast
  have km': "km_inv (vs_km (vs_put r ?g ?t)) xs" using km by simp
  have ob: "vs_obj (vs_put r ?g ?t) r = ?g (vs_obj s r)" using len by simp
  have fin: "Request_is_finished (vs_obj (vs_put r ?g ?t) r)" unfolding ob using st by (simp add: Request_is_finished_def)
  obtain n where kh0: "known_hashes H (vs_km s) (vs_obj s r) n"
  proof (cases "r \<in> set (vs_running s)")
    case True
    then have "run_slots H (vs_km s) (vs_obj s r) (rq_num_computed_tokens (vs_obj s r) + sched_fn [] (vs_id s r))"
      using sched_okD(6)[OF ok] by (simp add: running_ok_def)
    then show ?thesis using that run_slots_known by blast
  next
    case False
    then show ?thesis using that r(1) sched_okD(5)[OF ok, of r] by (auto simp: waiting_ok_def wait_slots_def)
  qed
  have stx: "same_text (vs_obj s r) (?g (vs_obj s r))" by (simp add: same_text_def)
  have kh: "known_hashes H (vs_km (vs_put r ?g ?t)) (vs_obj (vs_put r ?g ?t) r) n"
    unfolding ob using kh0 same_text_hashes[OF stx] by (simp add: known_hashes_def)
  obtain s' where s': "Scheduler_free_request order r (vs_put r ?g ?t) = Inr s'"
     "sched_ok H (sched_fn []) (remove1 r (vs_waiting s)) (remove1 r (vs_running s)) s'" "vs_objects s' = vs_objects (vs_put r ?g ?t)"
     "vs_scheduled_req_ids s' = vs_scheduled_req_ids (vs_put r ?g ?t)"
     "vs_finished_req_ids s' = insert (vs_id s r) (vs_finished_req_ids (vs_put r ?g ?t))" "upd_same (vs_put r ?g ?t) s'"
    using free_request_sched[OF ok r(1) o km' fin kh, of "sched_fn []"] by blast
  have "cached_ids_ok (vs_put r ?g ?t)" using in_flightD(7)[OF fl] by (simp add: cached_ids_ok_def)
  then have rest: "at_rest H s'"
    using s'(2,4) upd_sameD(3-5,8)[OF s'(6)] z in_flightD(6)[OF fl] by (simp add: in_flight_def)
  have qs: "\<And>k j. dict_get (vs_requests s') j = Some k \<longleftrightarrow> k \<in> set (vs_waiting s' @ vs_running s') \<and> vs_id s' k = j"
    using sched_okD(2)[OF in_flightD(1)[OF rest]] unfolding queues_ok_def by blast
  have ids: "vs_id s' k = vs_id s k" for k using upd_sameD(1)[OF s'(6), of k] len by (cases "k = r") simp_all
  have sets: "set (vs_waiting s' @ vs_running s') = set (vs_waiting s @ vs_running s) - {r}"
    using upd_sameD(3,4)[OF s'(6)] dist by auto
  have inj: "inj_on (vs_id s) (set (vs_waiting s @ vs_running s))" using queues_okD(2)[OF sched_okD(2)[OF ok]] .
  have reqs: "dict_get (vs_requests s') j = (if j = i then None else dict_get (vs_requests s) j)" for j
  proof -
    have ne: "k \<noteq> r \<longleftrightarrow> vs_id s k \<noteq> i" if "k \<in> set (vs_waiting s @ vs_running s)" for k
      using inj_on_eq_iff[OF inj that r(1)] r(2) by metis
    have "dict_get (vs_requests s') j = Some k \<longleftrightarrow> j \<noteq> i \<and> dict_get (vs_requests s) j = Some k" for k
      unfolding qs q sets ids using ne by blast
    then show ?thesis by (metis not_Some_eq)
  qed
  have obs: "vs_obj s' k = vs_obj s k" if "vs_id s k \<noteq> i" for k using that r(2) s'(3) by (cases "k = r") auto
  show ?thesis
    by (rule exI[of _ s'], intro conjI) (use step s'(1,5) rest reqs Some obs r(2) upd_sameD(5-7,9)[OF s'(6)] in simp_all)
qed

lemma finish_requests_ok:
  assumes "at_rest H s" "RequestStatus_is_finished st"
  shows "\<exists>s'. Scheduler_finish_requests id_order order ids st s = Inr s' \<and> at_rest H s' \<and>
     (\<forall>k. dict_get (vs_requests s') k = (if k \<in> set (id_order (set ids)) then None else dict_get (vs_requests s) k)) \<and>
     vs_finished_req_ids s' = vs_finished_req_ids s \<union> {i \<in> set (id_order (set ids)). dict_has (vs_requests s) i}"
proof -
  have "\<exists>s'. res_fold (finish_request order st) is s = Inr s' \<and> at_rest H s' \<and>
     (\<forall>k. dict_get (vs_requests s') k = (if k \<in> set is then None else dict_get (vs_requests s) k)) \<and>
     vs_finished_req_ids s' = vs_finished_req_ids s \<union> {i \<in> set is. dict_has (vs_requests s) i}" for "is"
    using assms(1)
  proof (induction "is" arbitrary: s)
    case (Cons i "is")
    obtain s1 where a: "finish_request order st i s = Inr s1" "at_rest H s1"
      "\<forall>k. dict_get (vs_requests s1) k = (if k = i then None else dict_get (vs_requests s) k)"
      "vs_finished_req_ids s1 = (if dict_has (vs_requests s) i then insert i (vs_finished_req_ids s) else vs_finished_req_ids s)"
      using finish_request_ok[OF Cons.prems assms(2), of order i] by (elim exE conjE) (rule that; assumption)
    obtain s2 where b: "res_fold (finish_request order st) is s1 = Inr s2" "at_rest H s2"
     "\<forall>k. dict_get (vs_requests s2) k = (if k \<in> set is then None else dict_get (vs_requests s1) k)"
     "vs_finished_req_ids s2 = vs_finished_req_ids s1 \<union> {i \<in> set is. dict_has (vs_requests s1) i}"
      using Cons.IH[OF a(2)] by blast
    have "vs_finished_req_ids s2 = vs_finished_req_ids s \<union> {j \<in> set (i # is). dict_has (vs_requests s) j}"
      unfolding b(4) a(4) using a(3) by auto
    then show ?case using a(1,3) b(1-3) by (intro exI[of _ s2]) simp
  qed simp
  then show ?thesis using assms(2) by (simp add: Scheduler_finish_requests_def)
qed

section \<open>The new scheduler\<close>

definition text_config :: "SchedulerConfig \<Rightarrow> bool" where
  "text_config c \<longleftrightarrow> 0 < cf_num_gpu_blocks c \<and> 0 < cf_block_size c \<and> cf_enable_prefix_caching c \<and> cf_max_loras c = None \<and>
     \<not> cf_is_multimodal_model c \<and> 0 \<le> cf_max_num_batched_tokens c"

lemma scheduler_init_ok:
  assumes c: "text_config c"
  shows "\<exists>s. Scheduler_init c = Inr s \<and> at_rest H s \<and> vs_waiting s = [] \<and> vs_running s = [] \<and> vs_requests s = [] \<and>
     vs_max_model_len s = cf_max_model_len c \<and> vs_max_num_scheduled_tokens s = cf_max_num_batched_tokens c \<and>
     vs_max_num_running_reqs s = cf_max_num_seqs c \<and> vs_finished_req_ids s = {} \<and> vs_objects s = [] \<and>
     (enough_blocks s \<longleftrightarrow> cdiv (int (cf_max_model_len c)) (int (cf_block_size c)) \<le> int (cf_num_gpu_blocks c))"
proof -
  have pos: "0 < cf_block_size c" "0 < cf_num_gpu_blocks c" using c by (simp_all add: text_config_def)
  obtain m where m: "KVCacheManager_init (cf_block_size c) (cf_num_gpu_blocks c) (cf_max_model_len c) (cf_sliding_window c)
       (cf_enable_prefix_caching c) 64 = Inr m" "km_inv m [0..<cf_num_gpu_blocks c]" "km_req_to_blocks m = []" "km_req_to_block_hashes m = []"
     "km_num_cached_block m = []" "km_enable_caching m = cf_enable_prefix_caching c" "km_block_size m = cf_block_size c"
     "km_max_num_blocks_per_req m = cdiv (int (cf_max_model_len c)) (int (cf_block_size c))"
     "km_num_preallocate_blocks m = cdiv 64 (int (cf_block_size c))" and len: "length (vp_blocks (km_block_pool m)) = cf_num_gpu_blocks c"
    using manager_init_ok[OF pos, of "cf_max_model_len c" "cf_sliding_window c" "cf_enable_prefix_caching c" 64] by auto
  have pre: "0 \<le> km_num_preallocate_blocks m"
  proof -
    have b: "0 < int (cf_block_size c)" using pos by simp
    have "64 \<le> km_num_preallocate_blocks m * int (cf_block_size c)" using m(9) cdiv_bounds(1)[OF b, of 64] by simp
    then show ?thesis using b by (smt (verit) mult_nonpos_nonneg)
  qed
  obtain s where s: "Scheduler_init c = Inr s" "vs_km s = m" "vs_waiting s = []" "vs_running s = []" "vs_requests s = []"
     "vs_max_model_len s = cf_max_model_len c" "vs_max_num_scheduled_tokens s = cf_max_num_batched_tokens c"
     "vs_max_num_running_reqs s = cf_max_num_seqs c" "vs_finished_req_ids s = {}" "vs_objects s = []" "vs_max_loras s = None"
     "vs_block_size s = cf_block_size c" "vs_scheduled_req_ids s = {}" "vs_cached_reqs_data s = []" "ec_cached (vs_encoder_cache_manager s) = []"
    using c m(1) by (auto simp: Scheduler_init_def text_config_def compute_encoder_budget_def EncoderCacheManager_init_def)
  have "static_ok s" using s m(6-8) pre len c by (simp add: static_ok_def text_config_def)
  moreover have "queues_ok [] [] s" using s by (simp add: queues_ok_def)
  moreover have "no_strays [] [] s" using s m(3-5) by (simp add: no_strays_def dict_get_default_def)
  ultimately have "sched_ok H (sched_fn []) [] [] s" using s m(2) unfolding sched_ok_def by auto
  then have "at_rest H s" using s c by (simp add: in_flight_def text_config_def cached_ids_ok_def)
  then show ?thesis using s m(8) len by (auto simp: enough_blocks_def)
qed

end
