(* ===== verification/V1_Liveness.thy ===== *)
theory V1_Liveness
  imports V1_Run
begin

text \<open>
  Liveness of the engine core: when the cache holds a request of the maximal length, every step
  computes tokens of the first running request, which is never preempted. So it finishes, and the
  work left decreases with every step until no request is left.
\<close>

section \<open>The work left\<close>

abbreviation live_reqs :: "V1Scheduler \<Rightarrow> req_ref list" where
  "live_reqs s \<equiv> vs_waiting s @ vs_running s"

definition head_computed :: "V1Scheduler \<Rightarrow> nat" where
  "head_computed s = (case vs_running s of [] \<Rightarrow> 0 | r # _ \<Rightarrow> nat (rq_num_computed_tokens (vs_obj s r)))"

definition work_left :: "V1Scheduler \<Rightarrow> nat" where
  "work_left s = length (live_reqs s) * vs_max_model_len s - head_computed s"

text \<open>What the run needs: blocks for a longest request, a positive budget and batch, no grammar to wait for.\<close>

definition can_run :: "V1Scheduler \<Rightarrow> bool" where
  "can_run s \<longleftrightarrow> enough_blocks s \<and> 0 < vs_max_num_scheduled_tokens s \<and> 0 < vs_max_num_running_reqs s \<and>
     (\<forall>r \<in> set (live_reqs s). \<not> for_grammar s r)"

lemma running_computed:
  assumes "sched_ok H f W R s" "r \<in> set R"
  shows "0 \<le> rq_num_computed_tokens (vs_obj s r)" "rq_num_computed_tokens (vs_obj s r) < int (vs_max_model_len s)"
  using sched_okD(6)[OF assms] by (auto simp: running_ok_def text_request_def)

lemma head_computed_less:
  assumes "in_flight H d s" "vs_running s \<noteq> []"
  shows "head_computed s < vs_max_model_len s"
proof (cases "vs_running s")
  case (Cons r rs)
  have "r \<in> set (vs_running s)" using Cons by simp
  from running_computed[OF in_flightD(1)[OF assms(1)] this] show ?thesis using Cons by (simp add: head_computed_def)
qed (use assms in simp)

lemma live_max_len:
  assumes "in_flight H d s" "live_reqs s \<noteq> []"
  shows "0 < vs_max_model_len s"
proof -
  note ok = in_flightD(1)[OF assms(1)]
  obtain r where "r \<in> set (live_reqs s)" using assms(2) by (cases "live_reqs s") auto
  then have "text_request (vs_max_model_len s) (vs_obj s r)" using sched_okD(5,6)[OF ok, of r] by (auto simp: waiting_ok_def running_ok_def)
  then show ?thesis by (cases "rq_all_token_ids (vs_obj s r)") (auto simp: text_request_def)
qed

lemma nat_work:
  fixes L :: nat
  assumes "n' \<le> n" "c < L" "1 \<le> n" "c < c' \<or> n' < n"
  shows "n' * L - c' < n * L - c"
proof -
  have le: "1 * L \<le> n * L" by (rule mult_le_mono1[OF assms(3)])
  show ?thesis
  proof (cases "n' < n")
    case True
    then obtain k where n: "n = Suc (n' + k)" using less_iff_Suc_add by blast
    then have "n' * L + L \<le> n * L" by (simp add: algebra_simps)
    then show ?thesis using assms(2) by linarith
  next
    case False
    then have "n' * L \<le> n * L" "c < c'" using assms(1,4) by simp_all
    then show ?thesis using le assms(2) by linarith
  qed
qed

section \<open>A step with requests left\<close>

lemma engine_step_work:
  assumes rest: "at_rest H s" and run: "runner_ok execute_model" and can: "can_run s" and live: "live_reqs s \<noteq> []"
    and st: "EngineCore_step H order execute_model now s = Inr (res, s')"
  shows "work_left s' < work_left s" "can_run s'"
proof -
  let ?L = "vs_max_model_len s"
  have L: "0 < ?L" by (rule live_max_len[OF rest live])
  have C: "enough_blocks s" "0 < vs_max_num_scheduled_tokens s" "0 < vs_max_num_running_reqs s" "\<And>r. r \<in> set (live_reqs s) \<Longrightarrow> \<not> for_grammar s r"
    using can by (simp_all add: can_run_def)
  have ng: "not_for_grammar s (vs_waiting s) = vs_waiting s" using C(4) by (simp add: filter_id_conv)
  obtain sched s1 R runs adm where a: "Scheduler_schedule H now s = Inr (sched, s1)" "in_flight H (so_num_scheduled_tokens sched) s1" "plan_same s s1"
     "mset (vs_waiting s1 @ vs_running s1) = mset (vs_waiting s @ vs_running s)" "vs_running s1 = R @ adm" "prefix R (vs_running s)"
     "\<forall>x \<in> set R. vs_obj s1 x = vs_obj s x" "prefix runs R" "vs_scheduled_req_ids s1 = vs_id s ` set (runs @ adm)"
     "so_scheduled_spec_decode_tokens sched = []" "runs @ adm \<noteq> [] \<longrightarrow> 0 < so_total_num_scheduled_tokens sched"
     "enough_blocks s \<and> 0 < vs_max_num_scheduled_tokens s \<longrightarrow> (vs_running s \<noteq> [] \<longrightarrow> runs \<noteq> []) \<and>
       (vs_running s = [] \<and> 0 < vs_max_num_running_reqs s \<and> not_for_grammar s (vs_waiting s) \<noteq> [] \<longrightarrow> adm \<noteq> [])"
    using schedule_ok[OF rest, of now] by (elim exE conjE) (rule that; assumption)
  have some: "runs @ adm \<noteq> []" using a(12) C(1-3) live ng by (cases "vs_running s = []") auto
  have hr: "Scheduler_has_requests s" using live by (auto simp: has_requests_iff)
  obtain res2 t where t: "Scheduler_update_from_output order sched (execute_model sched) s1 = Inr (res2, t)" "at_rest H t"
     "vs_waiting t = vs_waiting s1" "vs_running t = filter (\<lambda>r. \<not> Request_is_finished (vs_obj t r)) (vs_running s1)"
     "\<forall>k. k \<notin> set (vs_running s1) \<longrightarrow> vs_obj t k = vs_obj s1 k"
     "\<forall>r \<in> set (vs_running s1). answer_ok (execute_model sched) s1 t (sched_fn (so_num_scheduled_tokens sched) (vs_id s1 r)) r"
     "vs_max_model_len t = vs_max_model_len s1" "vs_max_num_scheduled_tokens t = vs_max_num_scheduled_tokens s1"
     "vs_max_num_running_reqs t = vs_max_num_running_reqs s1" "same_config (vs_km s1) (vs_km t)"
    using update_from_output_ok[OF a(2,10) runner_replies[OF run], of order] by (elim exE conjE) (rule that; assumption)
  have s': "s' = t" using st hr a(1,11) some t(1) by (auto simp: EngineCore_step_def)
  note P = plan_sameD[OF a(3)]
  have same: "vs_max_model_len t = ?L" "same_config (vs_km s) (vs_km t)" using t(7) P(5) same_config_trans[OF P(3) t(10)] by simp_all
  have cnt1: "length (live_reqs s1) = length (live_reqs s)" using a(4) by (metis mset_eq_length)
  have cnt: "length (live_reqs t) \<le> length (live_reqs s)" unfolding cnt1[symmetric] using t(3,4) by simp
  have n1: "1 \<le> length (live_reqs s)" using live by (cases "live_reqs s") auto
  obtain h hs where h: "vs_running s1 = h # hs" "h \<in> set (runs @ adm)" "vs_running s \<noteq> [] \<Longrightarrow> vs_obj s1 h = vs_obj s h \<and> h = hd (vs_running s)"
  proof (cases "vs_running s = []")
    case True
    then have "R = []" "adm \<noteq> []" using a(6,12) C ng live by auto
    then show ?thesis using that[of "hd adm" "tl adm"] a(5) True by (cases adm) auto
  next
    case False
    then have ne: "runs \<noteq> []" using a(12) C by blast
    then obtain x xs where x: "runs = x # xs" by (cases runs) auto
    then obtain ys where y: "R = x # ys" using a(8) by (cases R) auto
    then have "hd (vs_running s) = x" using a(6) by (cases "vs_running s") auto
    then show ?thesis using that[of x "ys @ adm"] x y a(5,7) by auto
  qed
  let ?n = "sched_fn (so_num_scheduled_tokens sched) (vs_id s1 h)"
  have key: "vs_id s1 h \<in> fst ` set (so_num_scheduled_tokens sched)"
    using in_flightD(3)[OF a(2)] a(9) h(2) P(1) by auto
  have n: "0 < ?n"
  proof -
    obtain m where "(vs_id s1 h, m) \<in> set (so_num_scheduled_tokens sched)" using key by auto
    then have "dict_get (so_num_scheduled_tokens sched) (vs_id s1 h) = Some m" "0 < m"
      using dict_get_mem[OF in_flightD(2)[OF a(2)]] in_flightD(5)[OF a(2)] by force+
    then show ?thesis by (simp add: sched_fn_def dict_get_default_def)
  qed
  have h1: "h \<in> set (vs_running s1)" using h(1) by simp
  have an: "rq_num_computed_tokens (vs_obj t h) = rq_num_computed_tokens (vs_obj s1 h) + ?n"
    using bspec[OF t(6) h1] n by (auto simp: answer_ok_def answered_def)
  have c1: "0 \<le> rq_num_computed_tokens (vs_obj s1 h)" using running_computed(1)[OF in_flightD(1)[OF a(2)] h1] .
  have hc: "head_computed s < ?L" "head_computed s \<le> nat (rq_num_computed_tokens (vs_obj s1 h))"
  proof -
    show "head_computed s < ?L" using head_computed_less[OF rest] L by (cases "vs_running s = []") (simp_all add: head_computed_def)
    show "head_computed s \<le> nat (rq_num_computed_tokens (vs_obj s1 h))"
      using h(3) by (cases "vs_running s") (auto simp: head_computed_def)
  qed
  have dec: "head_computed s < head_computed t \<or> length (live_reqs t) < length (live_reqs s)"
  proof (cases "Request_is_finished (vs_obj t h)")
    case True
    then have "length (vs_running t) < length (vs_running s1)" unfolding t(4) h(1) by (simp add: le_imp_less_Suc)
    then show ?thesis using cnt1 t(3) by simp
  next
    case False
    then have "\<exists>zs. vs_running t = h # zs" unfolding t(4) h(1) by simp
    then have "head_computed t = nat (rq_num_computed_tokens (vs_obj t h))" by (auto simp: head_computed_def)
    moreover have "nat (rq_num_computed_tokens (vs_obj s1 h)) < nat (rq_num_computed_tokens (vs_obj t h))" using an n c1 by simp
    ultimately have "head_computed s < head_computed t" using hc(2) by linarith
    then show ?thesis ..
  qed
  show "work_left s' < work_left s" unfolding s' work_left_def same(1) by (rule nat_work[OF cnt hc(1) n1 dec])
  have fg: "\<not> for_grammar t r" if r: "r \<in> set (live_reqs t)" for r
  proof (cases "r \<in> set (vs_running t)")
    case True
    then have "rq_status (vs_obj t r) = RUNNING" using sched_okD(6)[OF in_flightD(1)[OF t(2)]] by (simp add: running_ok_def)
    then show ?thesis by (simp add: for_grammar_def)
  next
    case False
    then have w: "r \<in> set (vs_waiting s1)" using r t(3) by simp
    then have "r \<notin> set (vs_running s1)" using queues_okD(1)[OF sched_okD(2)[OF in_flightD(1)[OF a(2)]]] by auto
    then have o: "vs_obj t r = vs_obj s1 r" using t(5) by simp
    have "r \<in> set (live_reqs s)" using w mset_eq_setD[OF a(4)] by auto
    then have "\<not> for_grammar s r" by (rule C(4))
    then show ?thesis using step_objD(4,7)[OF P(8)[of r]] o by (auto simp: for_grammar_def)
  qed
  have "enough_blocks t" using C(1) same_configD[OF same(2)] by (simp add: enough_blocks_def)
  then show "can_run s'" unfolding s' can_run_def using C(2,3) t(8,9) P(4,6) fg by simp
qed

section \<open>Draining\<close>

text \<open>Steps of the engine, with the clock reading and the executor of each.\<close>

fun engine_steps :: "kv_hasher \<Rightarrow> (nat set \<Rightarrow> nat list) \<Rightarrow> (rat \<times> (SchedulerOutput \<Rightarrow> ModelRunnerOutput)) list \<Rightarrow> V1Scheduler \<Rightarrow> V1Scheduler result" where
  "engine_steps H order [] s = Inr s"
| "engine_steps H order ((now, execute_model) # steps) s =
     res_bind (EngineCore_step H order execute_model now s) (\<lambda>(_, s'). engine_steps H order steps s')"

lemma step_idle:
  assumes rest: "at_rest H s" and run: "runner_ok execute_model" and idle: "live_reqs s = []"
    and st: "EngineCore_step H order execute_model now s = Inr (res, s')"
  shows "live_reqs s' = []"
proof (cases "Scheduler_has_requests s")
  case False
  obtain m t where m: "Scheduler_make_stats s = Inr (m, t)" "upd_same s t" using make_stats_ok[OF rest] by blast
  then have "s' = t" using st False by (simp add: EngineCore_step_def)
  then show ?thesis using upd_sameD(3,4)[OF m(2)] idle by simp
next
  case True
  obtain sched s1 where a: "Scheduler_schedule H now s = Inr (sched, s1)" "in_flight H (so_num_scheduled_tokens sched) s1"
    "mset (vs_waiting s1 @ vs_running s1) = mset (vs_waiting s @ vs_running s)"
    "so_total_num_scheduled_tokens sched = sum_list (dict_values (so_num_scheduled_tokens sched))"
    using schedule_ok[OF rest, of now] by blast
  have e: "live_reqs s1 = []" using a(3) idle by simp
  then have "fst ` set (so_num_scheduled_tokens sched) = {}" using in_flightD(3,4)[OF a(2)] by simp
  then have z: "so_total_num_scheduled_tokens sched = 0" using a(4) by simp
  obtain m t where m: "Scheduler_make_stats s1 = Inr (m, t)" "upd_same s1 t" using make_stats_ok[OF a(2)] by blast
  then have "s' = t" using st True z a(1) by (simp add: EngineCore_step_def)
  then show ?thesis using upd_sameD(3,4)[OF m(2)] e by simp
qed

lemma engine_steps_idle:
  assumes "at_rest H s" "live_reqs s = []" "\<forall>(now, execute_model) \<in> set steps. runner_ok execute_model"
  shows "\<exists>s'. engine_steps H order steps s = Inr s' \<and> at_rest H s' \<and> live_reqs s' = []"
  using assms
proof (induction steps arbitrary: s)
  case (Cons x steps)
  obtain now execute_model where x: "x = (now, execute_model)" by fastforce
  have run: "runner_ok execute_model" using Cons.prems(3) x by simp
  obtain res s1 where st: "EngineCore_step H order execute_model now s = Inr (res, s1)" "at_rest H s1"
    using engine_step_ok[OF Cons.prems(1) run] by blast
  have "live_reqs s1 = []" by (rule step_idle[OF Cons.prems(1) run Cons.prems(2) st(1)])
  then show ?case using Cons.IH[OF st(2)] Cons.prems(3) st(1) x by simp
qed simp

lemma engine_steps_drain:
  assumes "at_rest H s" "can_run s" "\<forall>(now, execute_model) \<in> set steps. runner_ok execute_model"
    "live_reqs s = [] \<or> work_left s \<le> length steps"
  shows "\<exists>s'. engine_steps H order steps s = Inr s' \<and> at_rest H s' \<and> live_reqs s' = []"
  using assms
proof (induction steps arbitrary: s)
  case Nil
  have "live_reqs s = []"
  proof (rule ccontr)
    assume "live_reqs s \<noteq> []"
    then have n: "1 \<le> length (live_reqs s)" "0 < vs_max_model_len s" using live_max_len[OF Nil.prems(1)] by (cases "live_reqs s", auto)
    have "head_computed s < vs_max_model_len s"
      using head_computed_less[OF Nil.prems(1)] n(2) by (cases "vs_running s = []") (simp_all add: head_computed_def)
    moreover have "vs_max_model_len s \<le> length (live_reqs s) * vs_max_model_len s"
      using mult_le_mono1[OF n(1), of "vs_max_model_len s"] by (simp only: nat_mult_1)
    ultimately have "0 < work_left s" unfolding work_left_def by linarith
    then show False using Nil.prems(4) \<open>live_reqs s \<noteq> []\<close> by simp
  qed
  then show ?case using Nil.prems(1) by simp
next
  case (Cons x steps)
  obtain now execute_model where x: "x = (now, execute_model)" by fastforce
  have run: "runner_ok execute_model" using Cons.prems(3) x by simp
  obtain res s1 where st: "EngineCore_step H order execute_model now s = Inr (res, s1)" "at_rest H s1"
    using engine_step_ok[OF Cons.prems(1) run] by blast
  have nxt: "\<forall>(now, execute_model) \<in> set steps. runner_ok execute_model" using Cons.prems(3) by simp
  show ?case
  proof (cases "live_reqs s = []")
    case True
    have e1: "live_reqs s1 = []" by (rule step_idle[OF Cons.prems(1) run True st(1)])
    show ?thesis using engine_steps_idle[OF st(2) e1 nxt] st(1) x by simp
  next
    case False
    note w = engine_step_work[OF Cons.prems(1) run Cons.prems(2) False st(1)]
    have "work_left s1 \<le> length steps" using w(1) Cons.prems(4) False by auto
    then show ?thesis using Cons.IH[OF st(2) w(2) nxt] st(1) x by simp
  qed
qed

end
