(* ===== verification/Pipeline_Hang.thy ===== *)
theory Pipeline_Hang
  imports V1_Update_Correct
begin

text \<open>
  The engine core with a batch queue. What an update does to a request that is not running:
  nothing, so a request that is preempted while it is being executed stays marked as scheduled.
  Once every waiting request carries such a mark and nothing runs, the engine schedules no more.
\<close>

section \<open>An update and the marks of the waiting requests\<close>

definition marks_same :: "V1Scheduler \<Rightarrow> V1Scheduler \<Rightarrow> bool" where
  "marks_same s s' \<longleftrightarrow> vs_waiting s' = vs_waiting s \<and> vs_scheduled_req_ids s' = vs_scheduled_req_ids s \<and>
     vs_log_stats s' = vs_log_stats s \<and> (\<forall>k. vs_id s' k = vs_id s k)"

lemma marks_same_refl [simp]: "marks_same s s" by (simp add: marks_same_def)

lemma marks_same_trans: "marks_same s t \<Longrightarrow> marks_same t u \<Longrightarrow> marks_same s u" by (simp add: marks_same_def)

lemma marks_same_put: "rq_request_id (g (vs_obj s r)) = vs_id s r \<Longrightarrow> marks_same s (vs_put r g s)"
  unfolding marks_same_def by (auto simp: nth_list_update_eq nth_list_update list_update_beyond not_less vs_put_def)
    (metis list_update_beyond not_le nth_list_update)

lemma marked_stop_id: "Scheduler_check_stop s q = Inr (stopped, q') \<Longrightarrow> rq_request_id q' = rq_request_id q"
  by (auto simp: Scheduler_check_stop_def res_bind_Inr_iff split: if_splits)

lemma free_request_marks: "Scheduler_free_request order r s = Inr s' \<Longrightarrow> marks_same s s'"
  by (auto simp: Scheduler_free_request_def marks_same_def Let_def res_bind_Inr_iff split: if_splits)

lemma take_sampled_marks: "take_sampled order r ts s = Inr (toks, stopped, s') \<Longrightarrow> marks_same s s'"
proof (induction ts arbitrary: s toks stopped s')
  case (Cons t ts)
  define s1 where "s1 = vs_put r (\<lambda>q. Request_append_output_token_ids q [t]) s"
  obtain st q where c: "Scheduler_check_stop s1 (vs_obj s1 r) = Inr (st, q)"
    and rest: "(if st then res_bind (Scheduler_free_request order r (vs_put r (\<lambda>_. q) s1)) (\<lambda>s3. Inr ([t], True, s3))
      else res_bind (take_sampled order r ts (vs_put r (\<lambda>_. q) s1)) (\<lambda>(toks, st, s3). Inr (t # toks, st, s3))) = Inr (toks, stopped, s')"
    using Cons.prems by (auto simp: Let_def s1_def[symmetric] res_bind_Inr_iff)
  have "marks_same s s1" unfolding s1_def by (rule marks_same_put) (simp add: Request_append_output_token_ids_def)
  moreover have "marks_same s1 (vs_put r (\<lambda>_. q) s1)" by (rule marks_same_put) (rule marked_stop_id[OF c])
  moreover have "marks_same (vs_put r (\<lambda>_. q) s1) s'"
    using rest Cons.IH free_request_marks by (auto simp: res_bind_Inr_iff split: if_splits)
  ultimately show ?case using marks_same_trans by blast
qed simp

lemma marked_advance_id: "advance_computed sched n ts q = Inr q' \<Longrightarrow> rq_request_id q' = rq_request_id q"
  by (auto simp: advance_computed_def Let_def res_bind_Inr_iff split: option.splits)

lemma request_output_marks: "marks_same s (snd (request_output out j r toks lps s))"
  by (auto simp: request_output_def Let_def Request_take_events_def intro!: marks_same_put split: prod.splits)

definition unmark :: "req_ref \<Rightarrow> V1Scheduler \<Rightarrow> V1Scheduler" where
  "unmark r s = s\<lparr>vs_scheduled_req_ids := vs_scheduled_req_ids s - {vs_id s r}\<rparr>"

lemma unmark_after_output:
  assumes "(let accepted = a; (outputs, s3) = request_output out j r toks lps s2
     in if vs_id s3 r \<notin> vs_scheduled_req_ids s3 then Inl KeyError
        else Inr (outputs, accepted, stopped, s3\<lparr>vs_scheduled_req_ids := vs_scheduled_req_ids s3 - {vs_id s3 r}\<rparr>)) = Inr (outs, acc, st, s')"
    and "marks_same s s2"
  shows "\<exists>t. marks_same s t \<and> s' = unmark r t"
  using assms(1) marks_same_trans[OF assms(2) request_output_marks, of out j r toks lps]
  by (cases "request_output out j r toks lps s2") (auto simp: unmark_def split: if_splits)

lemma update_request_marks:
  assumes "update_request order sched out n r s = Inr (outs, acc, stopped, s')"
  shows "vs_waiting s' = vs_waiting s" "vs_scheduled_req_ids s' = vs_scheduled_req_ids s - {vs_id s r}"
    "vs_log_stats s' = vs_log_stats s" "vs_id s' k = vs_id s k"
proof -
  obtain j ts q e q1 where u: "py_getitem (mo_sampled_token_ids out) (int j) = Inr ts"
    "advance_computed sched n ts (vs_obj s r) = Inr q"
    "(case mo_spec_token_ids out of None \<Rightarrow> Inr q
        | Some specs \<Rightarrow> res_bind (py_getitem specs (int j)) (\<lambda>spec. Inr (q\<lparr>rq_spec_token_ids := spec\<rparr>))) = Inr q1"
    and rest: "(let s1 = (vs_put r (\<lambda>_. q1) s)\<lparr>vs_encoder_cache_manager := e\<rparr> in
     res_bind (if rq_num_computed_tokens q1 \<ge> int (Request_num_tokens q1)
               then res_bind (take_sampled order r ts s1) (\<lambda>(toks, stopped, s2).
                    res_bind (sampled_logprobs out j (vs_obj s2 r)) (\<lambda>lps. Inr (toks, stopped, lps, s2)))
               else Inr ([], False, None, s1)) (\<lambda>(new_token_ids, stopped, new_logprobs, s2).
     let accepted = (if new_token_ids \<noteq> [] \<and> Request_use_structured_output (vs_obj s2 r) then [(vs_id s2 r, new_token_ids)] else []);
         (outputs, s3) = request_output out j r new_token_ids new_logprobs s2
     in if vs_id s3 r \<notin> vs_scheduled_req_ids s3 then Inl KeyError
        else Inr (outputs, accepted, stopped, s3\<lparr>vs_scheduled_req_ids := vs_scheduled_req_ids s3 - {vs_id s3 r}\<rparr>))) = Inr (outs, acc, stopped, s')"
    using assms unfolding update_request_def by (elim res_bind_InrE) (rule that; assumption)
  let ?s1 = "(vs_put r (\<lambda>_. q1) s)\<lparr>vs_encoder_cache_manager := e\<rparr>"
  have q1: "rq_request_id q1 = vs_id s r" using u(3) marked_advance_id[OF u(2)] by (auto simp: res_bind_Inr_iff split: option.splits)
  have "marks_same s (vs_put r (\<lambda>_. q1) s)" by (rule marks_same_put) (rule q1)
  then have 1: "marks_same s ?s1" by (simp add: marks_same_def)
  have "\<exists>t. marks_same s t \<and> s' = unmark r t"
  proof (cases "rq_num_computed_tokens q1 \<ge> int (Request_num_tokens q1)")
    case True
    from rest[unfolded Let_def[of "(vs_put r (\<lambda>_. q1) s)\<lparr>vs_encoder_cache_manager := e\<rparr>"] if_P[OF True]] obtain toks stp s2 lps where
      t: "take_sampled order r ts ?s1 = Inr (toks, stp, s2)" and o: "(let accepted = (if toks \<noteq> [] \<and> Request_use_structured_output (vs_obj s2 r) then [(vs_id s2 r, toks)] else []);
         (outputs, s3) = request_output out j r toks lps s2
     in if vs_id s3 r \<notin> vs_scheduled_req_ids s3 then Inl KeyError
        else Inr (outputs, accepted, stp, s3\<lparr>vs_scheduled_req_ids := vs_scheduled_req_ids s3 - {vs_id s3 r}\<rparr>)) = Inr (outs, acc, stopped, s')"
      by (elim res_bind_InrE) (simp only: split_paired_all prod.case res_bind_simps res_bind_Inr_iff ex_simps sum.inject, blast)
    show ?thesis using unmark_after_output[OF o marks_same_trans[OF 1 take_sampled_marks[OF t]]] .
  next
    case False
    from rest[unfolded Let_def[of "(vs_put r (\<lambda>_. q1) s)\<lparr>vs_encoder_cache_manager := e\<rparr>"] if_not_P[OF False] res_bind_simps prod.case]
    show ?thesis by (rule unmark_after_output) (rule 1)
  qed
  then show "vs_waiting s' = vs_waiting s" "vs_scheduled_req_ids s' = vs_scheduled_req_ids s - {vs_id s r}"
    "vs_log_stats s' = vs_log_stats s" "vs_id s' k = vs_id s k"
    by (auto simp: marks_same_def unmark_def)
qed

lemma update_requests_marks:
  assumes "update_requests order sched out rs s = Inr (keep, outs, acc, s')"
  shows "vs_waiting s' = vs_waiting s \<and> vs_scheduled_req_ids s - vs_id s ` set rs \<subseteq> vs_scheduled_req_ids s' \<and>
     vs_scheduled_req_ids s' \<subseteq> vs_scheduled_req_ids s \<and> vs_log_stats s' = vs_log_stats s \<and> (\<forall>k. vs_id s' k = vs_id s k)"
  using assms
proof (induction rs arbitrary: s keep outs acc s')
  case (Cons r rs)
  let ?n = "dict_get_default (so_num_scheduled_tokens sched) (vs_id s r) 0"
  show ?case
  proof (cases "?n = 0")
    case True
    then obtain keep1 where "update_requests order sched out rs s = Inr (keep1, outs, acc, s')"
      using Cons.prems by (auto simp: res_bind_Inr_iff)
    from Cons.IH[OF this] show ?thesis by auto
  next
    case False
    then obtain o1 a1 st s1 keep1 o2 a2 where u: "update_request order sched out ?n r s = Inr (o1, a1, st, s1)"
      "update_requests order sched out rs s1 = Inr (keep1, o2, a2, s')"
      using Cons.prems by (auto simp: Let_def res_bind_Inr_iff)
    note 1 = update_request_marks[OF u(1)]
    have "vs_id s1 ` set rs = vs_id s ` set rs" using 1(4) by simp
    with Cons.IH[OF u(2)] 1 show ?thesis by auto
  qed
qed simp

lemma update_from_output_marks:
  assumes "Scheduler_update_from_output order sched out s = Inr (res, s')" "\<not> vs_log_stats s"
  shows "vs_waiting s' = vs_waiting s" "vs_scheduled_req_ids s - vs_id s ` set (vs_running s) \<subseteq> vs_scheduled_req_ids s'"
    "vs_scheduled_req_ids s' \<subseteq> vs_scheduled_req_ids s" "\<not> vs_log_stats s'" "vs_id s' k = vs_id s k"
proof -
  obtain keep outs acc s1 st s2 where u: "update_requests order sched out (vs_running s) s = Inr (keep, outs, acc, s1)"
    "Scheduler_make_stats (s1\<lparr>vs_running := keep\<rparr>) = Inr (st, s2)" "s' = s2"
    using assms(1) by (auto simp: Scheduler_update_from_output_def res_bind_Inr_iff)
  note m = update_requests_marks[OF u(1)]
  have "s2 = s1\<lparr>vs_running := keep\<rparr>" using u(2) m assms(2) by (simp add: Scheduler_make_stats_def)
  with u(3) m assms(2) show "vs_waiting s' = vs_waiting s" "vs_scheduled_req_ids s - vs_id s ` set (vs_running s) \<subseteq> vs_scheduled_req_ids s'"
    "vs_scheduled_req_ids s' \<subseteq> vs_scheduled_req_ids s" "\<not> vs_log_stats s'" "vs_id s' k = vs_id s k" by simp_all
qed

section \<open>Runs of the engine core\<close>

text \<open>Every step has its own iteration order, executor and clock.\<close>

type_synonym pipeline_input = "(nat set \<Rightarrow> nat list) \<times> (SchedulerOutput \<Rightarrow> ModelRunnerOutput) \<times> rat"

fun pipeline_run :: "kv_hasher \<Rightarrow> pipeline_input list \<Rightarrow> EngineCore \<Rightarrow> (update_result option list \<times> EngineCore) result" where
  "pipeline_run H [] c = Inr ([], c)"
| "pipeline_run H ((order, execute_model, now) # steps) c =
     res_bind (EngineCore_step_with_batch_queue H order execute_model now c) (\<lambda>(r, c1).
     res_bind (pipeline_run H steps c1) (\<lambda>(rs, c2). Inr (r # rs, c2)))"

definition no_output :: update_result where
  "no_output = \<lparr>os_outputs = [], os_scheduler_stats = None, os_accepted = []\<rparr>"

text \<open>Nothing runs and no request counts as unscheduled: the batches in flight are taken out, and that is all.\<close>

lemma stuck_step:
  assumes "vs_running (en_scheduler c) = []" "Scheduler_get_num_unscheduled_requests (en_scheduler c) \<le> 0" "\<not> vs_log_stats (en_scheduler c)"
  shows "EngineCore_step_with_batch_queue H order execute_model now c = Inr (Some no_output, c\<lparr>en_batch_queue := tl (en_batch_queue c)\<rparr>)"
  using assms by (cases "en_batch_queue c")
    (auto simp: EngineCore_step_with_batch_queue_def EngineCore_schedule_batch_def Scheduler_update_from_output_def
      Scheduler_make_stats_def no_output_def)

lemma stuck_run:
  assumes "vs_running (en_scheduler c) = []" "Scheduler_get_num_unscheduled_requests (en_scheduler c) \<le> 0" "\<not> vs_log_stats (en_scheduler c)"
  shows "pipeline_run H steps c = Inr (replicate (length steps) (Some no_output), c\<lparr>en_batch_queue := drop (length steps) (en_batch_queue c)\<rparr>)"
  using assms
proof (induction steps arbitrary: c)
  case (Cons i steps)
  obtain order execute_model now where i: "i = (order, execute_model, now)" by (cases i)
  let ?c = "c\<lparr>en_batch_queue := tl (en_batch_queue c)\<rparr>"
  have "pipeline_run H steps ?c = Inr (replicate (length steps) (Some no_output), ?c\<lparr>en_batch_queue := drop (length steps) (en_batch_queue ?c)\<rparr>)"
    by (rule Cons.IH) (use Cons.prems in simp_all)
  then show ?case using stuck_step[OF Cons.prems] by (simp add: i drop_Suc)
qed simp

lemma marked_requests_not_counted:
  assumes "finite (vs_scheduled_req_ids s)" "distinct (map (vs_id s) (vs_waiting s))" "vs_id s ` set (vs_waiting s) \<subseteq> vs_scheduled_req_ids s"
    "vs_running s = []"
  shows "Scheduler_get_num_unscheduled_requests s \<le> 0"
proof -
  have "length (vs_waiting s) = card (vs_id s ` set (vs_waiting s))" using distinct_card[OF assms(2)] by simp
  also have "\<dots> \<le> card (vs_scheduled_req_ids s)" using assms(1,3) by (rule card_mono)
  finally show ?thesis using assms(4) by (simp add: Scheduler_get_num_unscheduled_requests_def Scheduler_get_num_unfinished_requests_def)
qed

text \<open>
  A step that only takes a batch out, after which nothing runs: the waiting requests that were
  preempted while they were executed wait for ever.
\<close>

lemma preempted_in_flight_hangs:
  assumes step: "EngineCore_step_with_batch_queue H order execute_model now c = Inr (Some res, c')"
    and only_update: "Scheduler_get_num_unscheduled_requests (en_scheduler c) \<le> 0 \<or> en_batch_queue_size c \<le> length (en_batch_queue c)"
    and marks: "finite (vs_scheduled_req_ids (en_scheduler c))" "distinct (map (vs_id (en_scheduler c)) (vs_waiting (en_scheduler c)))"
      "\<forall>r \<in> set (vs_waiting (en_scheduler c)). vs_id (en_scheduler c) r \<in> vs_scheduled_req_ids (en_scheduler c) \<and>
         vs_id (en_scheduler c) r \<notin> vs_id (en_scheduler c) ` set (vs_running (en_scheduler c))"
    and last: "vs_running (en_scheduler c') = []" and stats: "\<not> vs_log_stats (en_scheduler c)"
  shows "vs_waiting (en_scheduler c') = vs_waiting (en_scheduler c)"
    "pipeline_run H' steps c' = Inr (replicate (length steps) (Some no_output), c'\<lparr>en_batch_queue := drop (length steps) (en_batch_queue c')\<rparr>)"
proof -
  let ?s = "en_scheduler c" and ?s' = "en_scheduler c'"
  have no: "EngineCore_schedule_batch H execute_model now c = Inr (False, c)" using only_update by (auto simp: EngineCore_schedule_batch_def)
  have k: "vs_waiting ?s' = vs_waiting ?s \<and> vs_scheduled_req_ids ?s - vs_id ?s ` set (vs_running ?s) \<subseteq> vs_scheduled_req_ids ?s' \<and>
      vs_scheduled_req_ids ?s' \<subseteq> vs_scheduled_req_ids ?s \<and> \<not> vs_log_stats ?s' \<and> (\<forall>k. vs_id ?s' k = vs_id ?s k)"
  proof (cases "en_batch_queue c")
    case Nil
    then have "?s' = ?s" using step no stats by (auto simp: EngineCore_step_with_batch_queue_def Scheduler_make_stats_def)
    then show ?thesis using stats by auto
  next
    case (Cons b rest)
    obtain out sched where b: "b = (out, sched)" by (cases b)
    obtain s' where u: "Scheduler_update_from_output order sched out ?s = Inr (res, s')" "c' = c\<lparr>en_scheduler := s', en_batch_queue := rest\<rparr>"
      using step no Cons b by (auto simp: EngineCore_step_with_batch_queue_def res_bind_Inr_iff)
    show ?thesis using update_from_output_marks[OF u(1) stats] u(2) by simp
  qed
  then show "vs_waiting ?s' = vs_waiting ?s" by simp
  have "Scheduler_get_num_unscheduled_requests ?s' \<le> 0"
  proof (rule marked_requests_not_counted)
    show "finite (vs_scheduled_req_ids ?s')" using k marks(1) finite_subset by blast
    show "distinct (map (vs_id ?s') (vs_waiting ?s'))" using k marks(2) by (simp cong: map_cong)
    show "vs_id ?s' ` set (vs_waiting ?s') \<subseteq> vs_scheduled_req_ids ?s'" using k marks(3) by auto
  qed (rule last)
  then show "pipeline_run H' steps c' = Inr (replicate (length steps) (Some no_output), c'\<lparr>en_batch_queue := drop (length steps) (en_batch_queue c')\<rparr>)"
    using k last by (intro stuck_run) auto
qed

end
