(* ===== verification/V1_Properties.thy ===== *)
theory V1_Properties
  imports V1_Liveness Pipeline_Hang
begin

text \<open>
  The properties of the v1 scheduler and engine core, each with an instance: an engine with five
  blocks of two tokens and requests of a few tokens.
\<close>

section \<open>The instance\<close>

definition demo_config :: "int \<Rightarrow> SchedulerConfig" where
  "demo_config budget =
     \<lparr>cf_max_num_seqs = 8, cf_max_num_batched_tokens = budget, cf_max_model_len = 8, cf_num_gpu_blocks = 5, cf_block_size = 2,
      cf_sliding_window = None, cf_enable_prefix_caching = True, cf_max_loras = None, cf_log_stats = False,
      cf_is_multimodal_model = False, cf_max_tokens_by_modality = [], cf_max_num_encoder_input_tokens = 0, cf_encoder_cache_size = 0\<rparr>"

definition demo_params :: "int \<Rightarrow> SamplingParams" where
  "demo_params n = SamplingParams_default\<lparr>sp_max_tokens := Some n, sp_ignore_eos := True\<rparr>"

definition demo_hasher :: kv_hasher where
  "demo_hasher = \<lparr>kh_tuple = (\<lambda>p ts e. p * 31 + sum_list ts + 1), kh_none = 7\<rparr>"

text \<open>A runner that samples the token 5 for every scheduled request.\<close>

definition demo_runner :: "SchedulerOutput \<Rightarrow> ModelRunnerOutput" where
  "demo_runner sched =
     \<lparr>mo_req_id_to_index = map (\<lambda>(i, n). (i, 0)) (so_num_scheduled_tokens sched), mo_sampled_token_ids = [[5]],
      mo_spec_token_ids = None, mo_logprobs = Some [], mo_prompt_logprobs = {}\<rparr>"

definition demo_add :: "string \<Rightarrow> int list \<Rightarrow> int \<Rightarrow> V1Scheduler \<Rightarrow> V1Scheduler result" where
  "demo_add i prompt n s =
     res_bind (Request_init i prompt 0 [] [] (demo_params n) None None) (\<lambda>q. Inr (Scheduler_add_request 0 q s))"

lemma demo_runner_index:
  assumes "i \<in> fst ` set d"
  shows "dict_get (map (\<lambda>(i, n). (i, 0)) d) i = Some (0::nat)"
  using assms by (induction d) auto

lemma demo_runner_ok: "runner_ok demo_runner"
  by (auto simp: runner_ok_def Let_def demo_runner_def reply_of_def dict_get_default_def demo_runner_index)

lemma demo_config_text: "text_config (demo_config 4)"
  by (simp add: text_config_def demo_config_def)

text \<open>The engine with one request of three tokens, of which two are to be generated.\<close>

lemma demo_engine:
  obtains s where "engine_state demo_hasher (demo_config 4) s" "vs_waiting s = [0]" "vs_running s = []" "vs_max_num_scheduled_tokens s = 4"
    "vs_max_num_running_reqs s = 8" "enough_blocks s" "rq_all_token_ids (vs_obj s 0) = [1, 2, 3]" "\<not> for_grammar s 0"
    "vs_max_model_len s = 8" "vs_finished_req_ids s = {}" "vs_id s 0 = ''a''"
proof -
  obtain s where s: "Scheduler_init (demo_config 4) = Inr s" "vs_waiting s = []" "vs_running s = []" "vs_requests s = []"
     "vs_max_model_len s = 8" "vs_max_num_scheduled_tokens s = 4" "vs_max_num_running_reqs s = 8" "vs_objects s = []" "enough_blocks s"
     "vs_finished_req_ids s = {}"
    using scheduler_init_ok[OF demo_config_text, of demo_hasher] by (auto simp: demo_config_def cdiv_def)
  obtain q where q: "Request_init ''a'' [1, 2, 3] 0 [] [] (demo_params 2) None None = Inr q" "rq_all_token_ids q = [1, 2, 3]" "rq_status q = WAITING" "rq_request_id q = ''a''"
    by (simp add: Request_init_def demo_params_def)
  have c: "client_request (cf_max_model_len (demo_config 4)) q"
    unfolding client_request_def using q(1) by (intro exI conjI) (auto simp: demo_config_def)
  let ?t = "Scheduler_add_request 0 q s"
  have "engine_state demo_hasher (demo_config 4) ?t"
    by (rule engine_state.add[OF engine_state.init[OF s(1)] c]) (simp add: s(4))
  then show ?thesis
    by (rule that) (use s q in \<open>auto simp: Scheduler_add_request_def Scheduler_request_queued_def record_event_def Let_def enough_blocks_def for_grammar_def\<close>)
qed

section \<open>Invariants of every run\<close>

text \<open>
  C1. No step of the engine core fails. In every state the engine reaches by adding and aborting
  requests, compiled grammars, cache resets and steps with a runner that answers, the next step succeeds for
  every such runner and every clock, no assertion, lookup or index of the code failing, and so does
  aborting any requests, which the scheduler then no longer knows.
\<close>

theorem v1_engine_never_fails:
  assumes "text_config c" "engine_state H c s"
  shows "(\<forall>execute_model order now. runner_ok execute_model \<longrightarrow>
       (\<exists>res s'. EngineCore_step H order execute_model now s = Inr (res, s') \<and> engine_state H c s')) \<and>
     (\<forall>id_order order ids. \<exists>s'. Scheduler_finish_requests id_order order ids FINISHED_ABORTED s = Inr s' \<and> engine_state H c s' \<and>
       (\<forall>i \<in> set (id_order (set ids)). dict_get (vs_requests s') i = None))"
proof -
  have rest: "at_rest H s" using engine_state_rest[OF assms] ..
  have "\<exists>res s'. EngineCore_step H order execute_model now s = Inr (res, s') \<and> engine_state H c s'" if "runner_ok execute_model"
    for execute_model order now
    using engine_step_ok[OF rest that, of order now] engine_state.step[OF assms(2) that] by blast
  moreover have "\<exists>s'. Scheduler_finish_requests id_order order ids FINISHED_ABORTED s = Inr s' \<and> engine_state H c s' \<and>
       (\<forall>i \<in> set (id_order (set ids)). dict_get (vs_requests s') i = None)" for id_order order ids
  proof -
    obtain s' where s': "Scheduler_finish_requests id_order order ids FINISHED_ABORTED s = Inr s'"
      "\<forall>k. dict_get (vs_requests s') k = (if k \<in> set (id_order (set ids)) then None else dict_get (vs_requests s) k)"
      using finish_requests_ok[OF rest, of FINISHED_ABORTED id_order order ids] by auto
    then show ?thesis using engine_state.abort[OF assms(2) s'(1)] by auto
  qed
  ultimately show ?thesis by blast
qed

theorem v1_engine_never_fails_witness:
  "\<exists>s res s1 s2. engine_state demo_hasher (demo_config 4) s \<and> vs_waiting s = [0] \<and>
     EngineCore_step demo_hasher (\<lambda>_. []) demo_runner 0 s = Inr (res, s1) \<and>
     Scheduler_finish_requests (\<lambda>_. [''a'']) (\<lambda>_. []) [''a''] FINISHED_ABORTED s = Inr s2 \<and> dict_get (vs_requests s2) ''a'' = None"
proof -
  obtain s where s: "engine_state demo_hasher (demo_config 4) s" "vs_waiting s = [0]" using demo_engine by auto
  from v1_engine_never_fails[OF demo_config_text s(1)] demo_runner_ok s show ?thesis by fastforce
qed

text \<open>
  C2. The queues, the requests and the blocks agree in every reachable state. A request the
  scheduler knows is in exactly one queue, no more requests run than allowed, a waiting request has
  computed nothing and holds no blocks, a running one holds blocks for all its computed tokens and
  has one left to compute, nobody else holds blocks, the reference count of every block is the
  number of requests that hold it, and only blocks with a hash are shared.
\<close>

theorem v1_queues_and_blocks_agree:
  assumes "text_config c" "engine_state H c s"
  shows "distinct (map (vs_id s) (live_reqs s)) \<and>
     (\<forall>i r. dict_get (vs_requests s) i = Some r \<longleftrightarrow> r \<in> set (live_reqs s) \<and> vs_id s r = i) \<and>
     length (vs_running s) \<le> vs_max_num_running_reqs s \<and> vs_scheduled_req_ids s = {} \<and>
     (\<forall>r \<in> set (vs_waiting s). rq_status (vs_obj s r) \<in> {WAITING, WAITING_FOR_FSM, PREEMPTED} \<and>
        rq_num_computed_tokens (vs_obj s r) = 0 \<and> vs_blocks s r = []) \<and>
     (\<forall>r \<in> set (vs_running s). rq_status (vs_obj s r) = RUNNING \<and> 0 \<le> rq_num_computed_tokens (vs_obj s r) \<and>
        rq_num_computed_tokens (vs_obj s r) < int (length (rq_all_token_ids (vs_obj s r))) \<and>
        length (rq_all_token_ids (vs_obj s r)) \<le> cf_max_model_len c \<and>
        rq_num_computed_tokens (vs_obj s r) \<le> int (length (vs_blocks s r)) * int (km_block_size (vs_km s))) \<and>
     (\<forall>i. i \<notin> vs_id s ` set (vs_running s) \<longrightarrow> dict_get_default (km_req_to_blocks (vs_km s)) i [] = []) \<and>
     (\<forall>b. vp_refs (km_block_pool (vs_km s)) b = int (holders (km_req_to_blocks (vs_km s)) b)) \<and>
     (\<forall>b. vp_hash (km_block_pool (vs_km s)) b = None \<longrightarrow> holders (km_req_to_blocks (vs_km s)) b \<le> 1)"
proof -
  have rest: "at_rest H s" and len: "vs_max_model_len s = cf_max_model_len c" using engine_state_rest[OF assms] by simp_all
  note ok = in_flightD(1)[OF rest]
  obtain xs where inv: "km_inv (vs_km s) xs" using sched_okD(3)[OF ok] ..
  have Q: "distinct (map (vs_id s) (live_reqs s))" "\<forall>i r. dict_get (vs_requests s) i = Some r \<longleftrightarrow> r \<in> set (live_reqs s) \<and> vs_id s r = i"
    using sched_okD(2)[OF ok] unfolding queues_ok_def by blast+
  have W: "rq_status (vs_obj s r) \<in> {WAITING, WAITING_FOR_FSM, PREEMPTED} \<and> rq_num_computed_tokens (vs_obj s r) = 0 \<and> vs_blocks s r = []"
    if "r \<in> set (vs_waiting s)" for r using sched_okD(5)[OF ok that] by (simp add: waiting_ok_def wait_slots_def)
  have R: "rq_status (vs_obj s r) = RUNNING \<and> 0 \<le> rq_num_computed_tokens (vs_obj s r) \<and>
        rq_num_computed_tokens (vs_obj s r) < int (length (rq_all_token_ids (vs_obj s r))) \<and>
        length (rq_all_token_ids (vs_obj s r)) \<le> cf_max_model_len c \<and>
        rq_num_computed_tokens (vs_obj s r) \<le> int (length (vs_blocks s r)) * int (km_block_size (vs_km s))"
    if "r \<in> set (vs_running s)" for r
    using sched_okD(6)[OF ok that] len by (simp add: running_ok_def text_request_def run_slots_def Let_def sched_fn_def dict_get_default_def)
  have N: "dict_get_default (km_req_to_blocks (vs_km s)) i [] = []" if "i \<notin> vs_id s ` set (vs_running s)" for i
    using sched_okD(7)[OF ok] that unfolding no_strays_def by blast
  show ?thesis using Q sched_okD(4)[OF ok] in_flightD(3)[OF rest] W R N km_invD(5,6)[OF inv] by (intro conjI) auto
qed

theorem v1_queues_and_blocks_agree_witness:
  "\<exists>s. engine_state demo_hasher (demo_config 4) s \<and> live_reqs s = [0] \<and> vs_blocks s 0 = [] \<and> dict_get (vs_requests s) (vs_id s 0) = Some 0"
proof -
  obtain s where s: "engine_state demo_hasher (demo_config 4) s" "vs_waiting s = [0]" "vs_running s = []" using demo_engine by auto
  from v1_queues_and_blocks_agree[OF demo_config_text s(1)] s show ?thesis by (intro exI[of _ s]) simp
qed

section \<open>A scheduling step\<close>

text \<open>
  C3. First come, first served within the budget. Between two steps scheduling succeeds. It keeps
  the live requests, lets a prefix of the running queue go on (preemption takes from its end) and
  appends a prefix of the waiting queue, passing over the requests whose grammar is being compiled;
  after a preemption nothing is admitted. The scheduled requests are a prefix of the ones that went
  on and the admitted ones, each gets at least one token, together at most the budget, and with
  enough blocks for one request of the maximal length something is scheduled whenever a request is ready.
\<close>

theorem v1_schedule_first_come_first_served:
  assumes "text_config c" "engine_state H c s"
  shows "\<exists>out s' R runs adm. Scheduler_schedule H now s = Inr (out, s') \<and>
     mset (live_reqs s') = mset (live_reqs s) \<and>
     vs_running s' = R @ adm \<and> prefix R (vs_running s) \<and> (R = vs_running s \<or> adm = []) \<and> length (vs_running s') \<le> vs_max_num_running_reqs s \<and>
     prefix adm (filter (\<lambda>r. \<not> for_grammar s r) (vs_waiting s)) \<and> prefix runs R \<and>
     fst ` set (so_num_scheduled_tokens out) = vs_id s ` set (runs @ adm) \<and> distinct (map fst (so_num_scheduled_tokens out)) \<and>
     (\<forall>n \<in> set (dict_values (so_num_scheduled_tokens out)). 0 < n) \<and>
     so_total_num_scheduled_tokens out = sum_list (dict_values (so_num_scheduled_tokens out)) \<and>
     so_total_num_scheduled_tokens out \<le> vs_max_num_scheduled_tokens s \<and>
     (enough_blocks s \<and> 0 < vs_max_num_scheduled_tokens s \<longrightarrow>
       (vs_running s \<noteq> [] \<longrightarrow> runs \<noteq> []) \<and>
       (vs_running s = [] \<and> 0 < vs_max_num_running_reqs s \<and> filter (\<lambda>r. \<not> for_grammar s r) (vs_waiting s) \<noteq> [] \<longrightarrow> adm \<noteq> []))"
proof -
  have rest: "at_rest H s" using engine_state_rest[OF assms] ..
  obtain out s' R runs adm where a: "Scheduler_schedule H now s = Inr (out, s')" "in_flight H (so_num_scheduled_tokens out) s'" "plan_same s s'"
     "mset (vs_waiting s' @ vs_running s') = mset (vs_waiting s @ vs_running s)" "vs_running s' = R @ adm" "prefix R (vs_running s)"
     "R = vs_running s \<or> adm = []" "prefix adm (not_for_grammar s (vs_waiting s))" "prefix runs R"
     "vs_scheduled_req_ids s' = vs_id s ` set (runs @ adm)"
     "so_total_num_scheduled_tokens out = sum_list (dict_values (so_num_scheduled_tokens out))"
     "so_total_num_scheduled_tokens out \<le> vs_max_num_scheduled_tokens s"
     "enough_blocks s \<and> 0 < vs_max_num_scheduled_tokens s \<longrightarrow> (vs_running s \<noteq> [] \<longrightarrow> runs \<noteq> []) \<and>
       (vs_running s = [] \<and> 0 < vs_max_num_running_reqs s \<and> not_for_grammar s (vs_waiting s) \<noteq> [] \<longrightarrow> adm \<noteq> [])"
    using schedule_ok[OF rest, of now] by (elim exE conjE) (rule that; assumption)
  have "length (vs_running s') \<le> vs_max_num_running_reqs s"
    using sched_okD(4)[OF in_flightD(1)[OF a(2)]] plan_sameD(6)[OF a(3)] by simp
  moreover have "distinct (map fst (so_num_scheduled_tokens out))" using in_flightD(2)[OF a(2)] by (simp add: dict_ok_def)
  moreover have "fst ` set (so_num_scheduled_tokens out) = vs_id s ` set (runs @ adm)" using in_flightD(3)[OF a(2)] a(10) by simp
  moreover note in_flightD(5)[OF a(2)]
  ultimately show ?thesis using a
    by - (rule exI[of _ out], rule exI[of _ s'], rule exI[of _ R], rule exI[of _ runs], rule exI[of _ adm], intro conjI; assumption)
qed

theorem v1_schedule_first_come_first_served_witness:
  "\<exists>s out s'. engine_state demo_hasher (demo_config 4) s \<and> vs_waiting s = [0] \<and> Scheduler_schedule demo_hasher 0 s = Inr (out, s') \<and>
     vs_running s' = [0] \<and> so_total_num_scheduled_tokens out \<le> 4"
proof -
  obtain s where s: "engine_state demo_hasher (demo_config 4) s" "vs_waiting s = [0]" "vs_running s = []" "vs_max_num_scheduled_tokens s = 4"
    "vs_max_num_running_reqs s = 8" "enough_blocks s" "\<not> for_grammar s 0" using demo_engine by auto
  obtain out s' R runs adm where a: "Scheduler_schedule demo_hasher 0 s = Inr (out, s')" "vs_running s' = R @ adm" "prefix R (vs_running s)" "prefix runs R"
     "prefix adm (filter (\<lambda>r. \<not> for_grammar s r) (vs_waiting s))" "so_total_num_scheduled_tokens out \<le> vs_max_num_scheduled_tokens s"
     "enough_blocks s \<and> 0 < vs_max_num_scheduled_tokens s \<longrightarrow> (vs_running s \<noteq> [] \<longrightarrow> runs \<noteq> []) \<and>
       (vs_running s = [] \<and> 0 < vs_max_num_running_reqs s \<and> filter (\<lambda>r. \<not> for_grammar s r) (vs_waiting s) \<noteq> [] \<longrightarrow> adm \<noteq> [])"
    using v1_schedule_first_come_first_served[OF demo_config_text s(1), of 0] by (elim exE conjE) (rule that; assumption)
  have "adm \<noteq> []" using a(7) s by simp
  then have "adm = [0]" using a(5) s by (auto simp: prefix_Cons)
  then show ?thesis using a(1,2,3,6) s by (intro exI[of _ s] exI[of _ out] exI[of _ s']) simp
qed

text \<open>
  C4. The output tells the runner what the scheduler decided. A new request comes with its prompt
  and all its blocks, a resumed one with all its blocks, a running one with exactly the blocks that
  were added to the ones it had; each cached entry carries the computed tokens and the token ids of
  the scheduled positions. Running requests that are not scheduled keep their blocks, and the ids
  of the requests finished since the last step are handed over once.
\<close>

theorem v1_schedule_output_tells_blocks:
  assumes "text_config c" "engine_state H c s"
  shows "\<exists>out s' runs adm. Scheduler_schedule H now s = Inr (out, s') \<and> prefix runs (vs_running s) \<and>
     set (runs @ adm) \<subseteq> set (vs_running s') \<and> vs_scheduled_req_ids s' = vs_id s ` set (runs @ adm) \<and>
     (\<forall>r \<in> set runs. vs_obj s' r = vs_obj s r \<and> prefix (vs_blocks s r) (vs_blocks s' r)) \<and>
     (\<forall>r \<in> set (vs_running s') - set (runs @ adm). vs_blocks s' r = vs_blocks s r) \<and>
     so_scheduled_new_reqs out =
       map (\<lambda>r. NewRequestData_from_request (vs_obj s' r) (vs_blocks s' r)) (filter (\<lambda>r. rq_status (vs_obj s r) \<noteq> PREEMPTED) adm) \<and>
     so_scheduled_cached_reqs out =
       map (\<lambda>r. cached_info (so_num_scheduled_tokens out) s' True (vs_blocks s' r) r) (filter (\<lambda>r. rq_status (vs_obj s r) = PREEMPTED) adm) @
       map (\<lambda>r. cached_info (so_num_scheduled_tokens out) s' False (drop (length (vs_blocks s r)) (vs_blocks s' r)) r) runs \<and>
     (\<forall>r \<in> set (vs_running s'). rq_num_computed_tokens (vs_obj s' r) + sched_fn (so_num_scheduled_tokens out) (vs_id s' r)
        \<le> int (length (vs_blocks s' r)) * int (km_block_size (vs_km s'))) \<and>
     so_finished_req_ids out = vs_finished_req_ids s \<and> vs_finished_req_ids s' = {}"
proof -
  have rest: "at_rest H s" using engine_state_rest[OF assms] ..
  obtain out s' R runs adm where a: "Scheduler_schedule H now s = Inr (out, s')" "in_flight H (so_num_scheduled_tokens out) s'"
     "vs_running s' = R @ adm" "prefix R (vs_running s)" "\<forall>x \<in> set R. vs_obj s' x = vs_obj s x" "prefix runs R"
     "vs_scheduled_req_ids s' = vs_id s ` set (runs @ adm)" "\<forall>x \<in> set (vs_running s') - set (runs @ adm). vs_blocks s' x = vs_blocks s x"
     "\<forall>x \<in> set runs. prefix (vs_blocks s x) (vs_blocks s' x)" "so_finished_req_ids out = vs_finished_req_ids s" "vs_finished_req_ids s' = {}"
     "so_scheduled_new_reqs out =
       map (\<lambda>r. NewRequestData_from_request (vs_obj s' r) (vs_blocks s' r)) (filter (\<lambda>x. rq_status (vs_obj s x) \<noteq> PREEMPTED) adm)"
     "so_scheduled_cached_reqs out =
       map (\<lambda>r. cached_info (so_num_scheduled_tokens out) s' True (vs_blocks s' r) r) (filter (\<lambda>x. rq_status (vs_obj s x) = PREEMPTED) adm) @
       map (\<lambda>r. cached_info (so_num_scheduled_tokens out) s' False (drop (length (vs_blocks s r)) (vs_blocks s' r)) r) runs"
    using schedule_ok[OF rest, of now] by (elim exE conjE) (rule that; assumption)
  have sub: "set runs \<subseteq> set R" using a(6) by (auto simp: prefix_def)
  have pr: "prefix runs (vs_running s)" using a(4,6) by (rule prefix_order.trans[rotated])
  have rn: "set (runs @ adm) \<subseteq> set (vs_running s')" using sub a(3) by auto
  have rs: "\<forall>r \<in> set runs. vs_obj s' r = vs_obj s r \<and> prefix (vs_blocks s r) (vs_blocks s' r)" using sub a(5,9) by blast
  have room: "rq_num_computed_tokens (vs_obj s' r) + sched_fn (so_num_scheduled_tokens out) (vs_id s' r)
        \<le> int (length (vs_blocks s' r)) * int (km_block_size (vs_km s'))" if "r \<in> set (vs_running s')" for r
    using sched_okD(6)[OF in_flightD(1)[OF a(2)] that] by (simp add: running_ok_def run_slots_def Let_def)
  then have "\<forall>r \<in> set (vs_running s'). rq_num_computed_tokens (vs_obj s' r) + sched_fn (so_num_scheduled_tokens out) (vs_id s' r)
        \<le> int (length (vs_blocks s' r)) * int (km_block_size (vs_km s'))" ..
  then show ?thesis using a pr rn rs
    by - (rule exI[of _ out], rule exI[of _ s'], rule exI[of _ runs], rule exI[of _ adm], intro conjI; assumption)
qed

theorem v1_schedule_output_tells_blocks_witness:
  "\<exists>s out s'. engine_state demo_hasher (demo_config 4) s \<and> vs_waiting s = [0] \<and> Scheduler_schedule demo_hasher 0 s = Inr (out, s') \<and>
     so_finished_req_ids out = {} \<and> vs_finished_req_ids s' = {}"
proof -
  obtain s where s: "engine_state demo_hasher (demo_config 4) s" "vs_waiting s = [0]" "vs_finished_req_ids s = {}"
    using demo_engine by auto
  from v1_schedule_output_tells_blocks[OF demo_config_text s(1), of 0] s show ?thesis by (elim exE conjE) (intro exI[of _ s] exI conjI; simp)
qed

section \<open>The output of the runner\<close>

text \<open>
  C5. Taking the sampled tokens. After a scheduling step the output of a runner that answers is
  taken without an error. A request that was not scheduled stays as it is; a scheduled one advances
  by its scheduled tokens, and when all its tokens are computed it takes the sampled tokens up to
  the first that stops it. The client is told exactly the tokens taken, in the order of the running
  queue, with the reason when the request finished; finished requests leave the queue and are
  recorded for the runner, all others keep running, and nothing stays marked as scheduled.
\<close>

theorem v1_update_takes_sampled_tokens:
  assumes "text_config c" "engine_state H c s" "runner_ok execute_model" "Scheduler_schedule H now s = Inr (sched, s1)"
  shows "\<exists>res s2. Scheduler_update_from_output order sched (execute_model sched) s1 = Inr (res, s2) \<and> vs_waiting s2 = vs_waiting s1 \<and>
     vs_running s2 = filter (\<lambda>r. \<not> Request_is_finished (vs_obj s2 r)) (vs_running s1) \<and> vs_scheduled_req_ids s2 = {} \<and>
     vs_finished_req_ids s2 = vs_id s1 ` {r \<in> set (vs_running s1). Request_is_finished (vs_obj s2 r)} \<and>
     (\<forall>r \<in> set (vs_running s1). sched_fn (so_num_scheduled_tokens sched) (vs_id s1 r) = 0 \<longrightarrow> vs_obj s2 r = vs_obj s1 r) \<and>
     (\<forall>r \<in> set (vs_running s1). sched_fn (so_num_scheduled_tokens sched) (vs_id s1 r) \<noteq> 0 \<longrightarrow>
        (\<exists>toks. answered (cf_max_model_len c) (sched_fn (so_num_scheduled_tokens sched) (vs_id s1 r))
           (reply_of (execute_model sched) (vs_id s1 r)) (vs_obj s1 r) (vs_obj s2 r) toks (Request_is_finished (vs_obj s2 r)))) \<and>
     map (\<lambda>e. (eo_request_id e, eo_new_token_ids e, eo_finish_reason e)) (os_outputs res) =
       concat (map (\<lambda>r. if sched_fn (so_num_scheduled_tokens sched) (vs_id s1 r) = 0 then []
                        else client_entries (execute_model sched) s1 s2 r) (vs_running s1))"
proof -
  have rest: "at_rest H s" and len: "vs_max_model_len s = cf_max_model_len c" using engine_state_rest[OF assms(1,2)] by simp_all
  have a: "in_flight H (so_num_scheduled_tokens sched) s1" "plan_same s s1" "so_scheduled_spec_decode_tokens sched = []" "vs_finished_req_ids s1 = {}"
    using schedule_ok[OF rest, of now] assms(4) by auto
  obtain res s2 where t: "Scheduler_update_from_output order sched (execute_model sched) s1 = Inr (res, s2)" "at_rest H s2"
     "vs_waiting s2 = vs_waiting s1" "vs_running s2 = filter (\<lambda>r. \<not> Request_is_finished (vs_obj s2 r)) (vs_running s1)"
     "vs_finished_req_ids s2 = vs_finished_req_ids s1 \<union> vs_id s1 ` {r \<in> set (vs_running s1). Request_is_finished (vs_obj s2 r)}"
     "\<forall>r \<in> set (vs_running s1). answer_ok (execute_model sched) s1 s2 (sched_fn (so_num_scheduled_tokens sched) (vs_id s1 r)) r"
     "map (\<lambda>e. (eo_request_id e, eo_new_token_ids e, eo_finish_reason e)) (os_outputs res) =
       concat (map (\<lambda>r. if sched_fn (so_num_scheduled_tokens sched) (vs_id s1 r) = 0 then []
                        else client_entries (execute_model sched) s1 s2 r) (vs_running s1))"
    using update_from_output_ok[OF a(1,3) runner_replies[OF assms(3)], of order] by (elim exE conjE) (rule that; assumption)
  have l1: "vs_max_model_len s1 = cf_max_model_len c" using plan_sameD(5)[OF a(2)] len by simp
  have u: "vs_obj s2 r = vs_obj s1 r" if "r \<in> set (vs_running s1)" "sched_fn (so_num_scheduled_tokens sched) (vs_id s1 r) = 0" for r
    using bspec[OF t(6) that(1)] that(2) by (simp add: answer_ok_def)
  have w: "\<exists>toks. answered (cf_max_model_len c) (sched_fn (so_num_scheduled_tokens sched) (vs_id s1 r))
           (reply_of (execute_model sched) (vs_id s1 r)) (vs_obj s1 r) (vs_obj s2 r) toks (Request_is_finished (vs_obj s2 r))"
    if "r \<in> set (vs_running s1)" "sched_fn (so_num_scheduled_tokens sched) (vs_id s1 r) \<noteq> 0" for r
    using bspec[OF t(6) that(1)] that(2) unfolding answer_ok_def l1 by (simp only: if_False)
  have e: "vs_scheduled_req_ids s2 = {}" using in_flightD(3)[OF t(2)] by simp
  have f: "vs_finished_req_ids s2 = vs_id s1 ` {r \<in> set (vs_running s1). Request_is_finished (vs_obj s2 r)}"
    using t(5) unfolding a(4) by (simp only: Un_empty_left)
  show ?thesis
    by (rule exI[of _ res], rule exI[of _ s2], intro conjI ballI impI) (fact t(1) t(3) t(4) e f t(7) | erule u w, assumption)+
qed

theorem v1_update_takes_sampled_tokens_witness:
  "\<exists>s sched s1 res s2. engine_state demo_hasher (demo_config 4) s \<and> vs_waiting s = [0] \<and> Scheduler_schedule demo_hasher 0 s = Inr (sched, s1) \<and>
     Scheduler_update_from_output (\<lambda>_. []) sched (demo_runner sched) s1 = Inr (res, s2) \<and> vs_scheduled_req_ids s2 = {}"
proof -
  obtain s where s: "engine_state demo_hasher (demo_config 4) s" "vs_waiting s = [0]" using demo_engine by auto
  have "at_rest demo_hasher s" using engine_state_rest[OF demo_config_text s(1)] ..
  then obtain sched s1 where a: "Scheduler_schedule demo_hasher 0 s = Inr (sched, s1)" using schedule_ok[of demo_hasher s 0] by blast
  from v1_update_takes_sampled_tokens[OF demo_config_text s(1) demo_runner_ok a, of "\<lambda>_. []"] show ?thesis using s a by blast
qed

section \<open>Liveness\<close>

text \<open>
  C6. Every request finishes. When the cache has blocks for one request of the maximal length, the
  budget and the batch size are positive and no grammar is being compiled, then after as many steps
  as there are live requests times the maximal length, whatever a runner that answers samples, no
  step has failed and no request is left; the prefix cache can then be reset.
\<close>

theorem v1_engine_drains:
  assumes "text_config c" "engine_state H c s" "enough_blocks s" "0 < vs_max_num_scheduled_tokens s" "0 < vs_max_num_running_reqs s"
    "\<forall>r \<in> set (live_reqs s). \<not> for_grammar s r" "\<forall>(now, execute_model) \<in> set steps. runner_ok execute_model"
    "length (live_reqs s) * cf_max_model_len c \<le> length steps"
  shows "\<exists>s' s''. engine_steps H order steps s = Inr s' \<and> vs_waiting s' = [] \<and> vs_running s' = [] \<and>
     Scheduler_reset_prefix_cache s' = (True, s'')"
proof -
  have rest: "at_rest H s" and len: "vs_max_model_len s = cf_max_model_len c" using engine_state_rest[OF assms(1,2)] by simp_all
  have "can_run s" using assms(3-6) by (simp add: can_run_def)
  moreover have "work_left s \<le> length steps" using assms(8) len by (simp add: work_left_def)
  ultimately obtain s' where s': "engine_steps H order steps s = Inr s'" "at_rest H s'" "live_reqs s' = []"
    using engine_steps_drain[OF rest _ assms(7)] by blast
  obtain xs where inv: "km_inv (vs_km s') xs" using sched_okD(3)[OF in_flightD(1)[OF s'(2)]] ..
  have none: "dict_get_default (km_req_to_blocks (vs_km s')) i [] = []" for i
    using sched_okD(7)[OF in_flightD(1)[OF s'(2)]] s'(3) by (simp add: no_strays_def)
  have "holders (km_req_to_blocks (vs_km s')) b = 0" for b
  proof -
    have "x = []" if "(i, x) \<in> set (km_req_to_blocks (vs_km s'))" for i x
      using none[of i] dict_get_mem[OF km_invD(4)[OF inv]] that by (simp add: dict_get_default_def)
    then have "\<forall>e \<in> set (km_req_to_blocks (vs_km s')). count_list (snd e) b = 0" by fastforce
    then show ?thesis unfolding holders_def by (simp add: sum_list_eq_0_iff)
  qed
  then obtain s'' where "Scheduler_reset_prefix_cache s' = (True, s'')" using reset_prefix_cache_rest[OF s'(2)] by auto
  then show ?thesis using s' by simp
qed

theorem v1_engine_drains_witness:
  "\<exists>s s'. engine_state demo_hasher (demo_config 4) s \<and> vs_waiting s = [0] \<and>
     engine_steps demo_hasher (\<lambda>_. []) (replicate 8 (0, demo_runner)) s = Inr s' \<and> vs_waiting s' = [] \<and> vs_running s' = []"
proof -
  obtain s where s: "engine_state demo_hasher (demo_config 4) s" "vs_waiting s = [0]" "vs_running s = []" "vs_max_num_scheduled_tokens s = 4"
    "vs_max_num_running_reqs s = 8" "enough_blocks s" "\<not> for_grammar s 0" using demo_engine by auto
  have "\<exists>s' s''. engine_steps demo_hasher (\<lambda>_. []) (replicate 8 (0, demo_runner)) s = Inr s' \<and> vs_waiting s' = [] \<and> vs_running s' = [] \<and>
     Scheduler_reset_prefix_cache s' = (True, s'')"
    by (rule v1_engine_drains[OF demo_config_text s(1,6)]) (use s demo_runner_ok in \<open>simp_all add: demo_config_def\<close>)
  then show ?thesis using s by blast
qed

section \<open>What the steps of the engine core lose\<close>

text \<open>
  The runner is not told of finished requests when nothing is left to run. With no live
  request but finished ones to report, the step schedules, which forgets the finished ids, and
  returns without calling the executor; the result is the same for every executor, even one that
  does not answer, and the engine then has nothing left to report.
\<close>

theorem EngineCore_step_drops_finished_ids:
  assumes "text_config c" "engine_state H c s" "vs_waiting s = []" "vs_running s = []" "vs_finished_req_ids s \<noteq> {}"
  shows "\<exists>out s1. Scheduler_schedule H now s = Inr (out, s1) \<and> so_finished_req_ids out = vs_finished_req_ids s \<and>
     (\<exists>res s'. (\<forall>execute_model. EngineCore_step H order execute_model now s = Inr (res, s')) \<and> os_outputs res = [] \<and>
        vs_finished_req_ids s' = {} \<and> \<not> Scheduler_has_requests s')"
proof -
  have rest: "at_rest H s" using engine_state_rest[OF assms(1,2)] ..
  obtain out s1 where a: "Scheduler_schedule H now s = Inr (out, s1)" "in_flight H (so_num_scheduled_tokens out) s1"
    "mset (vs_waiting s1 @ vs_running s1) = mset (vs_waiting s @ vs_running s)" "so_finished_req_ids out = vs_finished_req_ids s"
    "vs_finished_req_ids s1 = {}" "so_total_num_scheduled_tokens out = sum_list (dict_values (so_num_scheduled_tokens out))"
    using schedule_ok[OF rest, of now] by blast
  have e: "live_reqs s1 = []" using a(3) assms(3,4) by simp
  then have "fst ` set (so_num_scheduled_tokens out) = {}" using in_flightD(3,4)[OF a(2)] by simp
  then have z: "so_total_num_scheduled_tokens out = 0" using a(6) by simp
  obtain m t where m: "Scheduler_make_stats s1 = Inr (m, t)" "upd_same s1 t" "vs_finished_req_ids t = vs_finished_req_ids s1"
    using make_stats_ok[OF a(2)] by blast
  have hr: "Scheduler_has_requests s" using assms(5) by (simp add: has_requests_iff)
  have "EngineCore_step H order execute_model now s = Inr (\<lparr>os_outputs = [], os_scheduler_stats = m, os_accepted = []\<rparr>, t)" for execute_model
    using hr z a(1) m(1) by (simp add: EngineCore_step_def)
  moreover have "\<not> Scheduler_has_requests t" using m(3) a(5) upd_sameD(3,4)[OF m(2)] e by (simp add: has_requests_iff)
  ultimately show ?thesis using a(1,4,5) m(3) by (intro exI[of _ out] exI[of _ s1]) (fastforce simp: update_result.defs)
qed

theorem EngineCore_step_drops_finished_ids_witness:
  "\<exists>s res s'. engine_state demo_hasher (demo_config 4) s \<and> vs_finished_req_ids s = {''a''} \<and>
     EngineCore_step demo_hasher (\<lambda>_. []) demo_runner 0 s = Inr (res, s') \<and> vs_finished_req_ids s' = {}"
proof -
  obtain s0 where s0: "engine_state demo_hasher (demo_config 4) s0" "vs_waiting s0 = [0]" "vs_running s0 = []" "vs_finished_req_ids s0 = {}"
    "vs_id s0 0 = ''a''" using demo_engine by auto
  have rest: "at_rest demo_hasher s0" using engine_state_rest[OF demo_config_text s0(1)] ..
  have known: "dict_get (vs_requests s0) i = Some r \<longleftrightarrow> r = 0 \<and> i = ''a''" for i r
    using sched_okD(2)[OF in_flightD(1)[OF rest]] s0(2,3,5) unfolding queues_ok_def by auto
  obtain s where s: "Scheduler_finish_requests (\<lambda>_. [''a'']) (\<lambda>_. []) [''a''] FINISHED_ABORTED s0 = Inr s" "at_rest demo_hasher s"
     "\<forall>k. dict_get (vs_requests s) k = (if k \<in> set [''a''] then None else dict_get (vs_requests s0) k)"
     "vs_finished_req_ids s = vs_finished_req_ids s0 \<union> {i \<in> set [''a'']. dict_has (vs_requests s0) i}"
    using finish_requests_ok[OF rest, of FINISHED_ABORTED "\<lambda>_. [''a'']" "\<lambda>_. []" "[''a'']"] by auto
  have es: "engine_state demo_hasher (demo_config 4) s" by (rule engine_state.abort[OF s0(1) s(1)])
  have fin: "vs_finished_req_ids s = {''a''}" using s(4) s0(4) known[of "''a''" 0] by auto
  have "dict_get (vs_requests s) k = None" for k using s(3) known[of k] by (cases "dict_get (vs_requests s0) k") auto
  then have "r \<notin> set (live_reqs s)" for r using queues_okD(4)[OF sched_okD(2)[OF in_flightD(1)[OF s(2)]], of r] by auto
  then have "live_reqs s = []" using last_in_set by blast
  then have w: "vs_waiting s = []" "vs_running s = []" by simp_all
  have "vs_finished_req_ids s \<noteq> {}" using fin by simp
  from EngineCore_step_drops_finished_ids[OF demo_config_text es w this, of 0 "\<lambda>_. []"]
  obtain res s' where "\<forall>execute_model. EngineCore_step demo_hasher (\<lambda>_. []) execute_model 0 s = Inr (res, s')" "vs_finished_req_ids s' = {}"
    by (elim exE conjE) (rule that; assumption)
  then show ?thesis using es fin by (intro exI[of _ s] exI[of _ res] exI[of _ s']) simp
qed

text \<open>
  C7. With the batch queue a preempted request can hang the engine. A request preempted while a
  batch with it is in flight leaves the running queue but stays marked as scheduled, and no
  update takes such a mark away. So when a step that only takes a batch out leaves no request
  running, and every waiting request carries such a mark, the engine is stuck: the waiting requests
  are those from before, and every further run, whatever the iteration orders, the executors and the
  clocks, takes out the batches left in flight and does nothing else, all its outputs being empty.
  (No statistics are kept. Only a client that adds another request makes the engine schedule again.)
  The instance reaches such a state in eight steps from the start, with three requests, two
  sequences at most, a budget of four tokens and two batches in flight.
\<close>

theorem EngineCore_pipelined_preemption_hangs:
  assumes "EngineCore_step_with_batch_queue H order execute_model now c = Inr (Some res, c')"
    "Scheduler_get_num_unscheduled_requests (en_scheduler c) \<le> 0 \<or> en_batch_queue_size c \<le> length (en_batch_queue c)"
    "finite (vs_scheduled_req_ids (en_scheduler c))" "distinct (map (vs_id (en_scheduler c)) (vs_waiting (en_scheduler c)))"
    "\<forall>r \<in> set (vs_waiting (en_scheduler c)). vs_id (en_scheduler c) r \<in> vs_scheduled_req_ids (en_scheduler c) \<and>
       vs_id (en_scheduler c) r \<notin> vs_id (en_scheduler c) ` set (vs_running (en_scheduler c))"
    "vs_running (en_scheduler c') = []" "\<not> vs_log_stats (en_scheduler c)"
  shows "vs_waiting (en_scheduler c') = vs_waiting (en_scheduler c) \<and>
     (\<forall>steps. pipeline_run H' steps c' =
        Inr (replicate (length steps) (Some \<lparr>os_outputs = [], os_scheduler_stats = None, os_accepted = []\<rparr>),
             c'\<lparr>en_batch_queue := drop (length steps) (en_batch_queue c')\<rparr>))"
  using preempted_in_flight_hangs[OF assms] unfolding no_output_def by blast

definition pipeline_config :: SchedulerConfig where
  "pipeline_config = (demo_config 4)\<lparr>cf_max_num_seqs := 2\<rparr>"

definition pipeline_demo :: "EngineCore result" where
  "pipeline_demo = res_bind (Scheduler_init pipeline_config) (\<lambda>s. res_bind (demo_add ''A'' [1, 2, 3, 4] 1 s) (\<lambda>s.
     res_bind (demo_add ''B'' [6, 7] 2 s) (\<lambda>s. res_bind (demo_add ''C'' [8, 9, 8] 2 s) (\<lambda>s.
     Inr \<lparr>en_scheduler = s, en_batch_queue = [], en_batch_queue_size = 2\<rparr>))))"

definition demo_input :: pipeline_input where
  "demo_input = (\<lambda>_. [], demo_runner, 0)"

theorem EngineCore_pipelined_preemption_hangs_witness:
  "\<exists>c rs res c'. cf_max_num_seqs pipeline_config = 2 \<and> cf_max_num_batched_tokens pipeline_config = 4 \<and>
     res_bind pipeline_demo (pipeline_run demo_hasher (replicate 7 demo_input)) = Inr (rs, c) \<and>
     EngineCore_step_with_batch_queue demo_hasher (\<lambda>_. []) demo_runner 0 c = Inr (Some res, c') \<and>
     vs_waiting (en_scheduler c') = [2] \<and> rq_status (vs_obj (en_scheduler c') 2) = PREEMPTED \<and>
     (\<forall>steps. pipeline_run demo_hasher steps c' =
        Inr (replicate (length steps) (Some \<lparr>os_outputs = [], os_scheduler_stats = None, os_accepted = []\<rparr>), c'))"
proof -
  have "run_shows (res_bind pipeline_demo (pipeline_run demo_hasher (replicate 7 demo_input)))
    (\<lambda>x. vs_waiting (en_scheduler (snd x)) = [2] \<and> vs_running (en_scheduler (snd x)) = [1] \<and> vs_id (en_scheduler (snd x)) 2 = ''C'' \<and>
        vs_id (en_scheduler (snd x)) 1 = ''B'' \<and> vs_scheduled_req_ids (en_scheduler (snd x)) = {''B'', ''C''} \<and>
        \<not> vs_log_stats (en_scheduler (snd x)) \<and>
        run_shows (EngineCore_step_with_batch_queue demo_hasher (\<lambda>_. []) demo_runner 0 (snd x)) (\<lambda>y. fst y \<noteq> None \<and>
           vs_running (en_scheduler (snd y)) = [] \<and> rq_status (vs_obj (en_scheduler (snd y)) 2) = PREEMPTED \<and> en_batch_queue (snd y) = []))"
    by code_simp
  then obtain rs c res c' where c: "res_bind pipeline_demo (pipeline_run demo_hasher (replicate 7 demo_input)) = Inr (rs, c)"
    "vs_waiting (en_scheduler c) = [2]" "vs_running (en_scheduler c) = [1]" "vs_id (en_scheduler c) 2 = ''C''" "vs_id (en_scheduler c) 1 = ''B''"
    "vs_scheduled_req_ids (en_scheduler c) = {''B'', ''C''}" "\<not> vs_log_stats (en_scheduler c)"
    and s: "EngineCore_step_with_batch_queue demo_hasher (\<lambda>_. []) demo_runner 0 c = Inr (Some res, c')"
    "vs_running (en_scheduler c') = []" "rq_status (vs_obj (en_scheduler c') 2) = PREEMPTED" "en_batch_queue c' = []"
    by (elim run_showsE conjE) (simp only: split_paired_all fst_conv snd_conv not_None_eq, blast)
  have "Scheduler_get_num_unscheduled_requests (en_scheduler c) \<le> 0"
    using c by (simp add: Scheduler_get_num_unscheduled_requests_def Scheduler_get_num_unfinished_requests_def)
  then have u: "Scheduler_get_num_unscheduled_requests (en_scheduler c) \<le> 0 \<or> en_batch_queue_size c \<le> length (en_batch_queue c)" ..
  have m: "finite (vs_scheduled_req_ids (en_scheduler c))" "distinct (map (vs_id (en_scheduler c)) (vs_waiting (en_scheduler c)))"
    "\<forall>r \<in> set (vs_waiting (en_scheduler c)). vs_id (en_scheduler c) r \<in> vs_scheduled_req_ids (en_scheduler c) \<and>
       vs_id (en_scheduler c) r \<notin> vs_id (en_scheduler c) ` set (vs_running (en_scheduler c))" using c by simp_all
  have q: "c'\<lparr>en_batch_queue := []\<rparr> = c'" using s(4) by simp
  note hang = EngineCore_pipelined_preemption_hangs[OF s(1) u m s(2) c(7), of demo_hasher, unfolded s(4) drop_Nil q]
  have k: "cf_max_num_seqs pipeline_config = 2" "cf_max_num_batched_tokens pipeline_config = 4" by (simp_all add: pipeline_config_def demo_config_def)
  show ?thesis using hang c(2)
    by (intro exI[of _ c] exI[of _ rs] exI[of _ res] exI[of _ c'] conjI k c(1) s(1) s(3)) simp_all
qed

end
