(* ===== verification/V1_Status.thy ===== *)
theory V1_Status
  imports V1_Liveness
begin

text \<open>
  How a scheduling step changes the status of a request: a request that has run before stays
  running or preempted, and only a running request is preempted.
\<close>

abbreviation vs_status :: "V1Scheduler \<Rightarrow> req_ref \<Rightarrow> RequestStatus" where
  "vs_status s k \<equiv> rq_status (vs_obj s k)"

definition started :: "V1Scheduler \<Rightarrow> req_ref \<Rightarrow> bool" where
  "started s k \<longleftrightarrow> vs_status s k \<in> {PREEMPTED, RUNNING}"

definition status_step :: "req_ref set \<Rightarrow> V1Scheduler \<Rightarrow> V1Scheduler \<Rightarrow> bool" where
  "status_step R s s' \<longleftrightarrow> (\<forall>k. (started s k \<longrightarrow> started s' k) \<and> (k \<notin> R \<longrightarrow> vs_status s' k = PREEMPTED \<longrightarrow> vs_status s k = PREEMPTED))"

lemma status_step_refl: "vs_objects s' = vs_objects s \<Longrightarrow> status_step R s s'"
  by (simp add: status_step_def started_def)

lemma status_step_self [simp]: "status_step R s s"
  by (rule status_step_refl) simp

lemma status_step_trans: "status_step R s t \<Longrightarrow> status_step R t u \<Longrightarrow> status_step R s u"
  by (simp add: status_step_def)

lemma status_step_mono: "status_step R s t \<Longrightarrow> R \<subseteq> R' \<Longrightarrow> status_step R' s t"
  by (auto simp: status_step_def)

lemma status_step_put:
  assumes "started s r \<Longrightarrow> rq_status (g (vs_obj s r)) \<in> {PREEMPTED, RUNNING}"
    "r \<notin> R \<Longrightarrow> rq_status (g (vs_obj s r)) = PREEMPTED \<Longrightarrow> vs_status s r = PREEMPTED"
  shows "status_step R s (vs_put r g s)"
  using assms by (cases "r < length (vs_objects s)") (auto simp: status_step_def started_def nth_list_update list_update_beyond)

lemma record_event_status: "status_step R s (record_event e now r s)"
  by (cases "vs_log_stats s") (simp_all add: record_event_def status_step_refl, rule status_step_put, simp_all add: started_def)

lemma schedule_encoder_status: "schedule_encoder r inputs b (s, v) = Inr (s', v') \<Longrightarrow> vs_objects s' = vs_objects s \<and> vs_running s' = vs_running s"
  by (auto simp: schedule_encoder_def split: if_splits elim!: res_bind_InrE)

section \<open>The running requests\<close>

lemma preempt_last_status:
  assumes "preempt_last now s = Inr s'" "set (vs_running s) \<subseteq> R"
  shows "status_step R s s' \<and> set (vs_running s') \<subseteq> R"
proof -
  define r where "r = last (vs_running s)"
  define g :: "Request \<Rightarrow> Request" where "g = (\<lambda>q. q\<lparr>rq_status := PREEMPTED, rq_num_computed_tokens := 0\<rparr>)"
  obtain m where ne: "vs_running s \<noteq> []"
    and s': "s' = (let s3 = record_event EV_PREEMPTED now r (vs_put r g (s\<lparr>vs_running := butlast (vs_running s), vs_kv_cache_manager := m\<rparr>))
      in s3\<lparr>vs_waiting := r # vs_waiting s3\<rparr>)"
    using assms(1) unfolding preempt_last_def Scheduler_request_preempted_def Let_def r_def g_def
    by (auto split: if_splits elim!: res_bind_InrE)
  define t where "t = s\<lparr>vs_running := butlast (vs_running s), vs_kv_cache_manager := m\<rparr>"
  have r: "r \<in> R" using ne assms(2) by (auto simp: r_def)
  have 1: "status_step R s t" by (rule status_step_refl) (simp add: t_def)
  have 2: "status_step R t (vs_put r g t)" by (rule status_step_put) (use r in \<open>simp_all add: g_def\<close>)
  have 3: "status_step R (vs_put r g t) (record_event EV_PREEMPTED now r (vs_put r g t))" by (rule record_event_status)
  have 4: "status_step R (record_event EV_PREEMPTED now r (vs_put r g t)) s'" by (rule status_step_refl) (simp add: s' t_def Let_def)
  have "vs_running s' = butlast (vs_running s)" by (simp add: s' Let_def record_event_def)
  then show ?thesis
    using status_step_trans[OF status_step_trans[OF status_step_trans[OF 1 2] 3] 4] assms(2) by (auto dest: in_set_butlastD)
qed

lemma allocate_or_preempt_status:
  assumes "allocate_or_preempt H now r n s p = Inr (bs, s', p')" "set (vs_running s) \<subseteq> R"
  shows "status_step R s s' \<and> set (vs_running s') \<subseteq> R"
  using assms
proof (induction H now r n s p rule: allocate_or_preempt.induct)
  case (1 H now r n s p)
  obtain x m where a: "KVCacheManager_allocate_slots H (vs_kv_cache_manager s) (vs_obj s r) n [] = Inr (x, m)"
    using "1.prems"(1) by (subst (asm) allocate_or_preempt.simps) (auto split: sum.splits)
  let ?t = "s\<lparr>vs_kv_cache_manager := m\<rparr>"
  have t: "status_step R s ?t" by (rule status_step_refl) simp
  show ?case
  proof (cases x)
    case (Some new)
    then have "s' = ?t" using "1.prems"(1) a by (subst (asm) allocate_or_preempt.simps) simp
    then show ?thesis using t "1.prems"(2) by simp
  next
    case None
    then obtain s1 where s1: "preempt_last now ?t = Inr s1"
      using "1.prems"(1) a by (subst (asm) allocate_or_preempt.simps) (auto split: sum.splits)
    have p: "status_step R ?t s1 \<and> set (vs_running s1) \<subseteq> R" by (rule preempt_last_status[OF s1]) (use "1.prems"(2) in simp)
    then have st: "status_step R s s1" using status_step_trans[OF t] by blast
    show ?thesis
    proof (cases "last (vs_running s) = r")
      case True
      then have "s' = s1" using "1.prems"(1) a None s1 by (subst (asm) allocate_or_preempt.simps) simp
      then show ?thesis using st p by simp
    next
      case False
      then have rec: "allocate_or_preempt H now r n s1 (p @ [last (vs_running s)]) = Inr (bs, s', p')"
        using "1.prems"(1) a None s1 by (subst (asm) allocate_or_preempt.simps) simp
      have "status_step R s1 s' \<and> set (vs_running s') \<subseteq> R"
        by (rule "1.IH"[OF a refl None s1 False rec]) (use p in simp)
      then show ?thesis using status_step_trans[OF st] by blast
    qed
  qed
qed

lemma schedule_running_step_status:
  assumes "schedule_running_step H now (s, v) = Inr (c, s', v')" "set (vs_running s) \<subseteq> R"
  shows "status_step R s s' \<and> set (vs_running s') \<subseteq> R"
proof (cases "s' = s")
  case True
  then show ?thesis using assms(2) by (simp add: status_step_refl)
next
  case False
  let ?r = "vs_running s ! sv_req_index v"
  obtain inputs n b where "(if n = 0 then Inr (True, s, v\<lparr>sv_req_index := Suc (sv_req_index v)\<rparr>)
        else res_bind (allocate_or_preempt H now ?r n s (sv_preempted_reqs v)) (\<lambda>(blocks, s1, preempted).
                   let v1 = v\<lparr>sv_preempted_reqs := preempted\<rparr>
                   in case blocks of None \<Rightarrow> Inr (False, s1, v1)
                      | Some new_blocks \<Rightarrow>
                          let q1 = vs_obj s1 ?r;
                              s2 = s1\<lparr>vs_scheduled_req_ids := insert (rq_request_id q1) (vs_scheduled_req_ids s1)\<rparr>;
                              v2 = note_scheduled (rq_request_id q1) (Request_use_structured_output q1) (block_ids_of s2 new_blocks)
                                     n (v1\<lparr>sv_running_reqs := sv_running_reqs v1 @ [?r]\<rparr>)
                          in res_bind (schedule_encoder ?r inputs b (trim_spec_tokens ?r n (s2, v2))) (\<lambda>sv'.
                               Inr (True, sv')))) = Inr (c, s', v')"
    using assms(1) False unfolding schedule_running_step_def Let_def by (auto split: if_splits elim!: res_bind_InrE)
  then obtain blocks s1 p where a: "allocate_or_preempt H now ?r n s (sv_preempted_reqs v) = Inr (blocks, s1, p)"
    and rest: "case blocks of None \<Rightarrow> s' = s1
      | Some new_blocks \<Rightarrow> \<exists>v2. schedule_encoder ?r inputs b (trim_spec_tokens ?r n
            (s1\<lparr>vs_scheduled_req_ids := insert (vs_id s1 ?r) (vs_scheduled_req_ids s1)\<rparr>, v2)) = Inr (s', v')"
    using False by (auto simp: Let_def split: if_splits option.splits elim!: res_bind_InrE) blast
  have st: "status_step R s s1 \<and> set (vs_running s1) \<subseteq> R" by (rule allocate_or_preempt_status[OF a assms(2)])
  show ?thesis
  proof (cases blocks)
    case None
    then show ?thesis using rest st by simp
  next
    case (Some new)
    then obtain v2 where e: "schedule_encoder ?r inputs b (trim_spec_tokens ?r n
            (s1\<lparr>vs_scheduled_req_ids := insert (vs_id s1 ?r) (vs_scheduled_req_ids s1)\<rparr>, v2)) = Inr (s', v')" using rest by auto
    define t where "t = s1\<lparr>vs_scheduled_req_ids := insert (vs_id s1 ?r) (vs_scheduled_req_ids s1)\<rparr>"
    obtain u v3 where u: "trim_spec_tokens ?r n (t, v2) = (u, v3)" by fastforce
    have 1: "status_step R s1 t" by (rule status_step_refl) (simp add: t_def)
    have 2: "status_step R t u \<and> vs_running u = vs_running s1"
      using u by (auto simp: trim_spec_tokens_def Let_def t_def started_def intro!: status_step_put split: if_splits)
    have "vs_objects s' = vs_objects u \<and> vs_running s' = vs_running u"
      using e u schedule_encoder_status unfolding t_def[symmetric] by simp
    then show ?thesis using st 1 2 status_step_trans status_step_refl[of s' u R] by metis
  qed
qed

lemma schedule_running_status:
  assumes "schedule_running H now fuel (s, v) = Inr (s', v')" "set (vs_running s) \<subseteq> R"
  shows "status_step R s s'"
  using assms
proof (induction fuel arbitrary: s v)
  case 0
  then show ?case by (subst (asm) schedule_running.simps) (auto split: if_splits intro: status_step_refl)
next
  case (Suc fuel)
  show ?case
  proof (cases "sv_req_index v < length (vs_running s) \<and> 0 < sv_token_budget v")
    case False
    then show ?thesis using Suc.prems(1) by (subst (asm) schedule_running.simps) (auto intro: status_step_refl)
  next
    case True
    then obtain c s1 v1 where a: "schedule_running_step H now (s, v) = Inr (c, s1, v1)"
      and b: "(if c then schedule_running H now fuel (s1, v1) else Inr (s1, v1)) = Inr (s', v')"
      using Suc.prems(1) by (subst (asm) schedule_running.simps) (auto elim!: res_bind_InrE)
    note st = schedule_running_step_status[OF a Suc.prems(2)]
    show ?thesis
    proof (cases c)
      case True
      then show ?thesis using Suc.IH[of s1 v1] b st status_step_trans by auto
    qed (use b st in simp)
  qed
qed

section \<open>The waiting requests\<close>

lemma grammar_step_status: "grammar_step r s = Some s' \<Longrightarrow> status_step R s s'"
  by (auto simp: grammar_step_def started_def intro!: status_step_put split: if_splits)

lemma admit_request_status:
  assumes "admit_request now r blocks c n inputs b s v = Inr (s', v')"
  shows "status_step R s s'"
proof -
  define s1 where "s1 = s\<lparr>vs_waiting := tl (vs_waiting s), vs_running := vs_running s @ [r],
    vs_scheduled_req_ids := insert (vs_id s r) (vs_scheduled_req_ids s)\<rparr>"
  define s2 where "s2 = record_event EV_SCHEDULED now r s1"
  define s3 where "s3 = vs_put r (\<lambda>q. q\<lparr>rq_status := RUNNING, rq_num_computed_tokens := c\<rparr>) s2"
  obtain v2 where e: "schedule_encoder r inputs b (s3, v2) = Inr (s', v')"
    using assms unfolding admit_request_def Let_def Scheduler_request_scheduled_def s1_def[symmetric] s2_def[symmetric] s3_def[symmetric]
    by (elim res_bind_InrE) auto
  have 1: "status_step R s s1" by (rule status_step_refl) (simp add: s1_def)
  have 2: "status_step R s1 s2" unfolding s2_def by (rule record_event_status)
  have 3: "status_step R s2 s3" unfolding s3_def by (rule status_step_put) simp_all
  have 4: "status_step R s3 s'" using schedule_encoder_status[OF e] by (intro status_step_refl) simp
  show ?thesis by (rule status_step_trans[OF status_step_trans[OF status_step_trans[OF 1 2] 3] 4])
qed

lemma schedule_waiting_step_status:
  assumes "schedule_waiting_step H now loras (s0, v) = Inr (out, loras', s', v')"
  shows "status_step R s0 s'"
proof (cases "grammar_step (hd (vs_waiting s0)) s0")
  case None
  then show ?thesis using assms by (auto simp: schedule_waiting_step_def Let_def intro: status_step_refl)
next
  case (Some s)
  have g: "status_step R s0 s" by (rule grammar_step_status[OF Some])
  have "status_step R s s'"
  proof (cases "vs_objects s' = vs_objects s")
    case True
    then show ?thesis by (rule status_step_refl)
  next
    case False
    then obtain m blocks c n inputs b v1 v2 where "admit_request now (hd (vs_waiting s0)) blocks c n inputs b (s\<lparr>vs_kv_cache_manager := m\<rparr>) v1 = Inr (s', v2)"
      using assms Some unfolding schedule_waiting_step_def Let_def
      by (auto split: if_splits option.splits elim!: res_bind_InrE)
    from admit_request_status[OF this, of R] show ?thesis
      using status_step_trans[OF status_step_refl[of "s\<lparr>vs_kv_cache_manager := m\<rparr>" s R]] by simp
  qed
  then show ?thesis by (rule status_step_trans[OF g])
qed

lemma schedule_waiting_status:
  assumes "schedule_waiting H now fuel loras sk (s, v) = Inr (sk', s', v')"
  shows "status_step R s s'"
  using assms
proof (induction fuel arbitrary: loras sk s v)
  case 0
  then show ?case by (subst (asm) schedule_waiting.simps) (auto split: if_splits intro: status_step_refl)
next
  case (Suc fuel)
  show ?case
  proof (cases "\<not> (vs_waiting s \<noteq> [] \<and> sv_token_budget v > 0) \<or> length (vs_running s) = vs_max_num_running_reqs s")
    case True
    then show ?thesis using Suc.prems(1) by (subst (asm) schedule_waiting.simps) (auto intro: status_step_refl)
  next
    case False
    then obtain out l s1 v1 where a: "schedule_waiting_step H now loras (s, v) = Inr (out, l, s1, v1)"
      and b: "(case out of StopWaiting \<Rightarrow> Inr (sk, s1, v1) | SkipForGrammar r \<Rightarrow> schedule_waiting H now fuel l (r # sk) (s1, v1)
               | AdmittedRequest \<Rightarrow> schedule_waiting H now fuel l sk (s1, v1)) = Inr (sk', s', v')"
      using Suc.prems(1) by (subst (asm) schedule_waiting.simps) (auto elim!: res_bind_InrE)
    have st: "status_step R s s1" by (rule schedule_waiting_step_status[OF a])
    have "s' = s1 \<or> status_step R s1 s'" using b Suc.IH by (cases out) auto
    then show ?thesis using st status_step_trans by blast
  qed
qed

lemma make_cached_data_objects: "make_cached_data v x rs s = Inr (ds, s') \<Longrightarrow> vs_objects s' = vs_objects s"
  by (induction rs arbitrary: s ds) (auto simp: Let_def Scheduler_make_cached_request_data_def elim!: res_bind_InrE)

lemma schedule_status:
  assumes "Scheduler_schedule H now s = Inr (out, s')"
  shows "status_step (set (vs_running s)) s s'"
proof -
  let ?R = "set (vs_running s)"
  obtain s1 v1 loras sk s2 v2 where a: "schedule_running H now (length (vs_running s)) (s, schedule_vars_init s) = Inr (s1, v1)"
    and b: "(if sv_preempted_reqs v1 = [] then schedule_waiting H now (length (vs_waiting s1)) loras [] (s1, v1) else Inr ([], s1, v1)) = Inr (sk, s2, v2)"
    and c: "schedule_output (s2\<lparr>vs_waiting := rev sk @ vs_waiting s2\<rparr>, v2) = Inr (out, s')"
    using assms unfolding Scheduler_schedule_def Let_def by (auto elim!: res_bind_InrE)
  have 1: "status_step ?R s s1" by (rule schedule_running_status[OF a]) simp
  have 2: "status_step ?R s1 s2" using b schedule_waiting_status by (auto split: if_splits intro: status_step_refl)
  obtain x n m nr ds s3 ds2 s4 where d: "make_cached_data v2 True (sv_resumed_reqs v2) (s2\<lparr>vs_waiting := x, vs_kv_cache_manager := m\<rparr>) = Inr (ds, s3)"
    "make_cached_data v2 False (sv_running_reqs v2) s3 = Inr (ds2, s4)" "vs_objects s' = vs_objects s4"
    using c unfolding schedule_output_def Let_def by (auto elim!: res_bind_InrE split: prod.splits) 
  have "vs_objects s' = vs_objects s2" using make_cached_data_objects[OF d(1)] make_cached_data_objects[OF d(2)] d(3) by simp
  then have "status_step ?R s2 s'" by (rule status_step_refl)
  then show ?thesis using status_step_trans[OF status_step_trans[OF 1 2]] by blast
qed

end
