(* ===== verification/Input_Batch.thy ===== *)
theory Input_Batch
  imports KV_Request
begin

text \<open>
  The persistent batch of the model runner (v1/worker/gpu_input_batch.py, v1/worker/block_table.py,
  v1/sample/metadata.py): one row per request in parallel arrays, filled by \<open>add_request\<close>, left
  empty by \<open>remove_request\<close> and compacted by \<open>condense\<close>.

  An array of the CPU is the list of its entries; the array on the device is a second list that the
  code copies to. \<open>torch.empty\<close> leaves its entries as they are in memory, which is the argument
  \<open>raw\<close>. The list of output tokens of a row is the object the cached request state holds, so the
  batch keeps the reference of that state. A generator is its seed.
\<close>

section \<open>Slices of arrays\<close>

text \<open>
  The assignment \<open>row[a:b] = xs\<close> of numpy: the lengths must agree, except that one value is
  repeated. Copying the first \<open>n\<close> entries into another array; the entries are moved by \<open>copy_slice\<close>.
\<close>

definition np_assign :: "'a list \<Rightarrow> int \<Rightarrow> int \<Rightarrow> 'a list \<Rightarrow> 'a list result" where
  "np_assign row a b xs =
     (let lo = slice_index row a; k = slice_index row b - lo
      in if length xs = k then Inr (take lo row @ xs @ drop (lo + k) row)
         else if length xs = 1 then Inr (take lo row @ replicate k (hd xs) @ drop (lo + k) row)
         else Inl ValueError)"

definition copy_slice :: "'a list \<Rightarrow> 'a list \<Rightarrow> nat \<Rightarrow> 'a list" where
  "copy_slice from_tensor to_tensor n = take n from_tensor @ drop n to_tensor"

definition swap_entries :: "nat \<Rightarrow> nat \<Rightarrow> 'a list \<Rightarrow> 'a list" where
  "swap_entries i j xs = xs[i := xs ! j, j := xs ! i]"

definition swap_dict_values :: "nat \<Rightarrow> nat \<Rightarrow> (nat, 'v) dict \<Rightarrow> (nat, 'v) dict" where
  "swap_dict_values i j d =
     (let v1 = dict_get d i; v2 = dict_get d j;
          d1 = (case v1 of Some v \<Rightarrow> dict_set j v d | None \<Rightarrow> dict_pop j d)
      in case v2 of Some v \<Rightarrow> dict_set i v d1 | None \<Rightarrow> dict_pop i d1)"

section \<open>The block table\<close>

record BlockTable =
  bt_max_num_reqs :: nat
  bt_max_num_blocks_per_req :: nat
  bt_device :: "nat list list"
  bt_rows :: "nat list list"
  bt_num_blocks_per_row :: "nat list"

definition BlockTable_init :: "nat \<Rightarrow> nat \<Rightarrow> BlockTable" where
  "BlockTable_init max_num_reqs max_num_blocks_per_req =
     \<lparr>bt_max_num_reqs = max_num_reqs, bt_max_num_blocks_per_req = max_num_blocks_per_req,
      bt_device = replicate max_num_reqs (replicate max_num_blocks_per_req 0),
      bt_rows = replicate max_num_reqs (replicate max_num_blocks_per_req 0), bt_num_blocks_per_row = replicate max_num_reqs 0\<rparr>"

definition BlockTable_append_row :: "nat list \<Rightarrow> nat \<Rightarrow> BlockTable \<Rightarrow> BlockTable result" where
  "BlockTable_append_row block_ids row_idx t =
     (if block_ids = [] then Inr t
      else if row_idx \<ge> length (bt_num_blocks_per_row t) then Inl IndexError
      else let start = bt_num_blocks_per_row t ! row_idx; n = length block_ids
           in res_bind (np_assign (bt_rows t ! row_idx) (int start) (int (start + n)) block_ids) (\<lambda>row.
                Inr (t\<lparr>bt_num_blocks_per_row := (bt_num_blocks_per_row t)[row_idx := start + n], bt_rows := (bt_rows t)[row_idx := row]\<rparr>)))"

definition BlockTable_add_row :: "nat list \<Rightarrow> nat \<Rightarrow> BlockTable \<Rightarrow> BlockTable result" where
  "BlockTable_add_row block_ids row_idx t =
     (if row_idx \<ge> length (bt_num_blocks_per_row t) then Inl IndexError
      else BlockTable_append_row block_ids row_idx (t\<lparr>bt_num_blocks_per_row := (bt_num_blocks_per_row t)[row_idx := 0]\<rparr>))"

definition BlockTable_move_row :: "nat \<Rightarrow> nat \<Rightarrow> BlockTable \<Rightarrow> BlockTable" where
  "BlockTable_move_row src tgt t =
     (let n = bt_num_blocks_per_row t ! src
      in t\<lparr>bt_rows := (bt_rows t)[tgt := take n (bt_rows t ! src) @ drop n (bt_rows t ! tgt)],
           bt_num_blocks_per_row := (bt_num_blocks_per_row t)[tgt := n]\<rparr>)"

definition BlockTable_swap_row :: "nat \<Rightarrow> nat \<Rightarrow> BlockTable \<Rightarrow> BlockTable" where
  "BlockTable_swap_row src tgt t =
     t\<lparr>bt_num_blocks_per_row := swap_entries src tgt (bt_num_blocks_per_row t), bt_rows := swap_entries src tgt (bt_rows t)\<rparr>"

definition BlockTable_commit :: "nat \<Rightarrow> BlockTable \<Rightarrow> BlockTable" where
  "BlockTable_commit num_reqs t = t\<lparr>bt_device := copy_slice (bt_rows t) (bt_device t) num_reqs\<rparr>"

definition BlockTable_clear :: "BlockTable \<Rightarrow> BlockTable" where
  "BlockTable_clear t = t\<lparr>bt_device := map (map (\<lambda>_. 0)) (bt_device t), bt_rows := map (map (\<lambda>_. 0)) (bt_rows t)\<rparr>"

section \<open>The batch\<close>

record CachedRequestState =
  cs_req_id :: string
  cs_prompt_token_ids :: "int list"
  cs_sampling_params :: SamplingParams
  cs_generator :: "int option"
  cs_block_ids :: "nat list"
  cs_num_computed_tokens :: int
  cs_output_token_ids :: "int list"
  cs_lora_request :: "int option"

definition CachedRequestState_num_tokens :: "CachedRequestState \<Rightarrow> nat" where
  "CachedRequestState_num_tokens st = length (cs_prompt_token_ids st) + length (cs_output_token_ids st)"

text \<open>The tensors of the sampler, one entry per row; there is one set on the CPU and one on the device.\<close>

record sampling_tensors =
  tn_temperature :: "rat list"
  tn_top_p :: "rat list"
  tn_top_k :: "int list"
  tn_min_p :: "rat list"
  tn_frequency_penalties :: "rat list"
  tn_presence_penalties :: "rat list"
  tn_repetition_penalties :: "rat list"

record SamplingMetadata =
  sm_temperature :: "rat list option"
  sm_all_greedy :: bool
  sm_all_random :: bool
  sm_top_p :: "rat list option"
  sm_top_k :: "int list option"
  sm_min_p :: "rat list option"
  sm_max_num_logprobs :: "int option"
  sm_no_penalties :: bool
  sm_prompt_token_ids :: "int list list option"
  sm_frequency_penalties :: "rat list"
  sm_presence_penalties :: "rat list"
  sm_repetition_penalties :: "rat list"
  sm_logit_bias :: "(int, rat) dict option list"
  sm_allowed_token_ids_mask :: "bool list list option"

text \<open>
  The generators, the minimal tokens, the forbidden words and the output lists of the metadata are
  the objects of the batch itself.
\<close>

record InputBatch =
  ib_max_num_reqs :: nat
  ib_max_model_len :: nat
  ib_vocab_size :: nat
  ib_req_ids :: "string option list"
  ib_req_id_to_index :: "(string, nat) dict"
  ib_token_ids :: "int list list"
  ib_num_tokens :: "int list"
  ib_num_tokens_no_spec :: "int list"
  ib_num_prompt_tokens :: "nat list"
  ib_num_computed_tokens :: "int list"
  ib_block_table :: BlockTable
  ib_cpu :: sampling_tensors
  ib_device :: sampling_tensors
  ib_greedy_reqs :: "string set"
  ib_random_reqs :: "string set"
  ib_top_p_reqs :: "string set"
  ib_top_k_reqs :: "string set"
  ib_min_p_reqs :: "string set"
  ib_frequency_penalties_reqs :: "string set"
  ib_presence_penalties_reqs :: "string set"
  ib_repetition_penalties_reqs :: "string set"
  ib_min_tokens :: "(nat, int \<times> int set) dict"
  ib_request_lora_mapping :: "int list"
  ib_lora_id_to_request_ids :: "(int, string set) dict"
  ib_lora_id_to_lora_request :: "(int, int) dict"
  ib_generators :: "(nat, int) dict"
  ib_num_logprobs :: "(string, int) dict"
  ib_num_prompt_logprobs :: "(string, int) dict"
  ib_logit_bias :: "(int, rat) dict option list"
  ib_has_allowed_token_ids :: "string set"
  ib_allowed_mask_device :: "bool list list option"
  ib_allowed_mask :: "bool list list option"
  ib_bad_words_token_ids :: "(nat, int list list) dict"
  ib_req_output_token_ids :: "nat option list"
  ib_sampling_metadata :: SamplingMetadata

definition InputBatch_num_reqs :: "InputBatch \<Rightarrow> nat" where
  "InputBatch_num_reqs b = length (ib_req_id_to_index b)"

definition InputBatch_all_greedy :: "InputBatch \<Rightarrow> bool" where
  "InputBatch_all_greedy b \<longleftrightarrow> ib_random_reqs b = {}"

definition InputBatch_all_random :: "InputBatch \<Rightarrow> bool" where
  "InputBatch_all_random b \<longleftrightarrow> ib_greedy_reqs b = {}"

definition InputBatch_no_top_p :: "InputBatch \<Rightarrow> bool" where
  "InputBatch_no_top_p b \<longleftrightarrow> ib_top_p_reqs b = {}"

definition InputBatch_no_top_k :: "InputBatch \<Rightarrow> bool" where
  "InputBatch_no_top_k b \<longleftrightarrow> ib_top_k_reqs b = {}"

definition InputBatch_no_min_p :: "InputBatch \<Rightarrow> bool" where
  "InputBatch_no_min_p b \<longleftrightarrow> ib_min_p_reqs b = {}"

definition InputBatch_no_penalties :: "InputBatch \<Rightarrow> bool" where
  "InputBatch_no_penalties b \<longleftrightarrow> ib_presence_penalties_reqs b = {} \<and> ib_frequency_penalties_reqs b = {} \<and> ib_repetition_penalties_reqs b = {}"

definition InputBatch_max_num_logprobs :: "InputBatch \<Rightarrow> int option" where
  "InputBatch_max_num_logprobs b = (if ib_num_logprobs b = [] then None else Some (Max (set (dict_values (ib_num_logprobs b)))))"

definition InputBatch_no_prompt_logprob :: "InputBatch \<Rightarrow> bool" where
  "InputBatch_no_prompt_logprob b \<longleftrightarrow> ib_num_prompt_logprobs b = []"

definition InputBatch_no_allowed_token_ids :: "InputBatch \<Rightarrow> bool" where
  "InputBatch_no_allowed_token_ids b \<longleftrightarrow> ib_has_allowed_token_ids b = {}"

section \<open>Sampling metadata\<close>

text \<open>The prompts, padded with the size of the vocabulary, which is no token.\<close>

definition InputBatch_make_prompt_token_ids :: "InputBatch \<Rightarrow> int list list result" where
  "InputBatch_make_prompt_token_ids b =
     (let n = InputBatch_num_reqs b in
      res_bind (py_max id (take n (ib_num_prompt_tokens b))) (\<lambda>max_prompt_len.
        Inr (map (\<lambda>i. take (ib_num_prompt_tokens b ! i) (take max_prompt_len (ib_token_ids b ! i)) @
                      replicate (max_prompt_len - ib_num_prompt_tokens b ! i) (int (ib_vocab_size b))) [0..<n])))"

definition copy_sampling_tensors :: "InputBatch \<Rightarrow> sampling_tensors" where
  "copy_sampling_tensors b =
     (let n = InputBatch_num_reqs b; c = ib_cpu b; d = ib_device b;
          d1 = (if InputBatch_all_greedy b then d else d\<lparr>tn_temperature := copy_slice (tn_temperature c) (tn_temperature d) n\<rparr>);
          d2 = (if InputBatch_no_top_p b then d1 else d1\<lparr>tn_top_p := copy_slice (tn_top_p c) (tn_top_p d) n\<rparr>);
          d3 = (if InputBatch_no_top_k b then d2 else d2\<lparr>tn_top_k := copy_slice (tn_top_k c) (tn_top_k d) n\<rparr>);
          d4 = (if InputBatch_no_min_p b then d3 else d3\<lparr>tn_min_p := copy_slice (tn_min_p c) (tn_min_p d) n\<rparr>)
      in if InputBatch_no_penalties b then d4
         else d4\<lparr>tn_frequency_penalties := copy_slice (tn_frequency_penalties c) (tn_frequency_penalties d) n,
                 tn_presence_penalties := copy_slice (tn_presence_penalties c) (tn_presence_penalties d) n,
                 tn_repetition_penalties := copy_slice (tn_repetition_penalties c) (tn_repetition_penalties d) n\<rparr>)"

definition InputBatch_make_sampling_metadata :: "InputBatch \<Rightarrow> (SamplingMetadata \<times> InputBatch) result" where
  "InputBatch_make_sampling_metadata b =
     (let n = InputBatch_num_reqs b; d = copy_sampling_tensors b in
      res_bind (if InputBatch_no_penalties b then Inr None
                else res_bind (InputBatch_make_prompt_token_ids b) (\<lambda>rows. Inr (Some rows))) (\<lambda>prompt_token_ids.
      res_bind (if InputBatch_no_allowed_token_ids b then Inr (None, b)
                else case (ib_allowed_mask b, ib_allowed_mask_device b) of
                       (Some cpu, Some device) \<Rightarrow> (let device' = copy_slice cpu device n
                                                   in Inr (Some (take n device'), b\<lparr>ib_allowed_mask_device := Some device'\<rparr>))
                     | _ \<Rightarrow> Inl AssertionError) (\<lambda>(allowed_token_ids_mask, b1).
        Inr (\<lparr>sm_temperature = (if InputBatch_all_greedy b then None else Some (take n (tn_temperature d))),
              sm_all_greedy = InputBatch_all_greedy b, sm_all_random = InputBatch_all_random b,
              sm_top_p = (if InputBatch_no_top_p b then None else Some (take n (tn_top_p d))),
              sm_top_k = (if InputBatch_no_top_k b then None else Some (take n (tn_top_k d))),
              sm_min_p = (if InputBatch_no_min_p b then None else Some (take n (tn_min_p d))),
              sm_max_num_logprobs = InputBatch_max_num_logprobs b, sm_no_penalties = InputBatch_no_penalties b,
              sm_prompt_token_ids = prompt_token_ids, sm_frequency_penalties = take n (tn_frequency_penalties d),
              sm_presence_penalties = take n (tn_presence_penalties d), sm_repetition_penalties = take n (tn_repetition_penalties d),
              sm_logit_bias = take n (ib_logit_bias b), sm_allowed_token_ids_mask = allowed_token_ids_mask\<rparr>,
             b1\<lparr>ib_device := d\<rparr>))))"

definition InputBatch_refresh_sampling_metadata :: "InputBatch \<Rightarrow> InputBatch result" where
  "InputBatch_refresh_sampling_metadata b =
     res_bind (InputBatch_make_sampling_metadata b) (\<lambda>(sm, b1). Inr (b1\<lparr>ib_sampling_metadata := sm\<rparr>))"

text \<open>The metadata of the empty batch are made by the same method; \<open>raw\<close> is the memory of \<open>torch.empty\<close>.\<close>

definition raw_tensors :: "(nat \<Rightarrow> rat) \<Rightarrow> (nat \<Rightarrow> int) \<Rightarrow> nat \<Rightarrow> sampling_tensors" where
  "raw_tensors raw raw_int n =
     \<lparr>tn_temperature = map raw [0..<n], tn_top_p = map raw [0..<n], tn_top_k = map raw_int [0..<n], tn_min_p = map raw [0..<n],
      tn_frequency_penalties = map raw [0..<n], tn_presence_penalties = map raw [0..<n], tn_repetition_penalties = map raw [0..<n]\<rparr>"

definition no_metadata :: SamplingMetadata where
  "no_metadata = \<lparr>sm_temperature = None, sm_all_greedy = True, sm_all_random = True, sm_top_p = None, sm_top_k = None, sm_min_p = None,
     sm_max_num_logprobs = None, sm_no_penalties = True, sm_prompt_token_ids = None, sm_frequency_penalties = [],
     sm_presence_penalties = [], sm_repetition_penalties = [], sm_logit_bias = [], sm_allowed_token_ids_mask = None\<rparr>"

definition InputBatch_init :: "(nat \<Rightarrow> rat) \<Rightarrow> (nat \<Rightarrow> int) \<Rightarrow> nat \<Rightarrow> nat \<Rightarrow> nat \<Rightarrow> nat \<Rightarrow> InputBatch result" where
  "InputBatch_init raw raw_int max_num_reqs max_model_len max_num_blocks_per_req vocab_size =
     InputBatch_refresh_sampling_metadata
       \<lparr>ib_max_num_reqs = max_num_reqs, ib_max_model_len = max_model_len, ib_vocab_size = vocab_size, ib_req_ids = [],
        ib_req_id_to_index = [], ib_token_ids = replicate max_num_reqs (replicate max_model_len 0),
        ib_num_tokens = replicate max_num_reqs 0, ib_num_tokens_no_spec = replicate max_num_reqs 0,
        ib_num_prompt_tokens = replicate max_num_reqs 0, ib_num_computed_tokens = replicate max_num_reqs 0,
        ib_block_table = BlockTable_init max_num_reqs max_num_blocks_per_req,
        ib_cpu = raw_tensors raw raw_int max_num_reqs, ib_device = raw_tensors raw raw_int max_num_reqs,
        ib_greedy_reqs = {}, ib_random_reqs = {}, ib_top_p_reqs = {}, ib_top_k_reqs = {}, ib_min_p_reqs = {},
        ib_frequency_penalties_reqs = {}, ib_presence_penalties_reqs = {}, ib_repetition_penalties_reqs = {},
        ib_min_tokens = [], ib_request_lora_mapping = replicate max_num_reqs 0, ib_lora_id_to_request_ids = [],
        ib_lora_id_to_lora_request = [], ib_generators = [], ib_num_logprobs = [], ib_num_prompt_logprobs = [],
        ib_logit_bias = replicate max_num_reqs None, ib_has_allowed_token_ids = {}, ib_allowed_mask_device = None,
        ib_allowed_mask = None, ib_bad_words_token_ids = [], ib_req_output_token_ids = [], ib_sampling_metadata = no_metadata\<rparr>"

section \<open>Adding a request\<close>

definition add_if :: "bool \<Rightarrow> 'a \<Rightarrow> 'a set \<Rightarrow> 'a set" where
  "add_if c x A = (if c then insert x A else A)"

text \<open>The identity of a row and the lists that grow with it.\<close>

definition place_request :: "string \<Rightarrow> nat \<Rightarrow> nat \<Rightarrow> InputBatch \<Rightarrow> InputBatch result" where
  "place_request req_id st i b =
     (if i = length (ib_req_ids b)
      then Inr (b\<lparr>ib_req_ids := ib_req_ids b @ [Some req_id], ib_req_output_token_ids := ib_req_output_token_ids b @ [Some st],
                  ib_req_id_to_index := dict_set req_id i (ib_req_id_to_index b)\<rparr>)
      else if i < length (ib_req_ids b)
      then Inr (b\<lparr>ib_req_ids := (ib_req_ids b)[i := Some req_id], ib_req_output_token_ids := (ib_req_output_token_ids b)[i := Some st],
                  ib_req_id_to_index := dict_set req_id i (ib_req_id_to_index b)\<rparr>)
      else Inl IndexError)"

definition copy_tokens :: "CachedRequestState \<Rightarrow> nat \<Rightarrow> InputBatch \<Rightarrow> InputBatch result" where
  "copy_tokens q i b =
     (let n = length (cs_prompt_token_ids q); e = n + length (cs_output_token_ids q) in
      res_bind (np_assign (ib_token_ids b ! i) 0 (int n) (cs_prompt_token_ids q)) (\<lambda>row0.
      res_bind (np_assign row0 (int n) (int e) (cs_output_token_ids q)) (\<lambda>row.
      res_bind (BlockTable_add_row (cs_block_ids q) i (ib_block_table b)) (\<lambda>t.
        Inr (b\<lparr>ib_num_prompt_tokens := (ib_num_prompt_tokens b)[i := n], ib_token_ids := (ib_token_ids b)[i := row],
               ib_num_tokens := (ib_num_tokens b)[i := int (CachedRequestState_num_tokens q)],
               ib_num_tokens_no_spec := (ib_num_tokens_no_spec b)[i := int (CachedRequestState_num_tokens q)],
               ib_num_computed_tokens := (ib_num_computed_tokens b)[i := cs_num_computed_tokens q], ib_block_table := t\<rparr>)))))"

text \<open>The sampling parameters; the temperature of a greedy request is -1, so that nothing is divided by 0.\<close>

definition set_sampling_row :: "SamplingParams \<Rightarrow> nat \<Rightarrow> nat \<Rightarrow> sampling_tensors \<Rightarrow> sampling_tensors" where
  "set_sampling_row p vocab_size i t =
     \<lparr>tn_temperature = (tn_temperature t)[i := if SamplingParams_sampling_type p = GREEDY then - 1 else sp_temperature p],
      tn_top_p = (tn_top_p t)[i := sp_top_p p],
      tn_top_k = (tn_top_k t)[i := if 0 < sp_top_k p \<and> sp_top_k p < int vocab_size then sp_top_k p else int vocab_size],
      tn_min_p = (tn_min_p t)[i := sp_min_p p], tn_frequency_penalties = (tn_frequency_penalties t)[i := sp_frequency_penalty p],
      tn_presence_penalties = (tn_presence_penalties t)[i := sp_presence_penalty p],
      tn_repetition_penalties = (tn_repetition_penalties t)[i := sp_repetition_penalty p]\<rparr>"

definition note_sampling :: "string \<Rightarrow> SamplingParams \<Rightarrow> InputBatch \<Rightarrow> InputBatch" where
  "note_sampling req_id p b =
     (let greedy = (SamplingParams_sampling_type p = GREEDY)
      in b\<lparr>ib_greedy_reqs := add_if greedy req_id (ib_greedy_reqs b), ib_random_reqs := add_if (\<not> greedy) req_id (ib_random_reqs b),
           ib_top_p_reqs := add_if (sp_top_p p < 1) req_id (ib_top_p_reqs b),
           ib_top_k_reqs := add_if (0 < sp_top_k p \<and> sp_top_k p < int (ib_vocab_size b)) req_id (ib_top_k_reqs b),
           ib_min_p_reqs := add_if (sp_min_p p > sampling_eps) req_id (ib_min_p_reqs b),
           ib_frequency_penalties_reqs := add_if (sp_frequency_penalty p \<noteq> 0) req_id (ib_frequency_penalties_reqs b),
           ib_presence_penalties_reqs := add_if (sp_presence_penalty p \<noteq> 0) req_id (ib_presence_penalties_reqs b),
           ib_repetition_penalties_reqs := add_if (sp_repetition_penalty p \<noteq> 1) req_id (ib_repetition_penalties_reqs b)\<rparr>)"

text \<open>The entries that only some requests have; the others leave the row of the logit bias as it is.\<close>

definition note_options :: "CachedRequestState \<Rightarrow> nat \<Rightarrow> InputBatch \<Rightarrow> InputBatch" where
  "note_options q i b =
     (let p = cs_sampling_params q
      in b\<lparr>ib_min_tokens := (if sp_min_tokens p \<noteq> 0 then dict_set i (sp_min_tokens p, sp_all_stop_token_ids p) (ib_min_tokens b) else ib_min_tokens b),
           ib_generators := (case cs_generator q of Some g \<Rightarrow> dict_set i g (ib_generators b) | None \<Rightarrow> ib_generators b),
           ib_num_logprobs := (case sp_logprobs p of Some k \<Rightarrow> dict_set (cs_req_id q) k (ib_num_logprobs b) | None \<Rightarrow> ib_num_logprobs b),
           ib_num_prompt_logprobs :=
             (case sp_prompt_logprobs p of Some k \<Rightarrow> dict_set (cs_req_id q) k (ib_num_prompt_logprobs b) | None \<Rightarrow> ib_num_prompt_logprobs b),
           ib_logit_bias := (case sp_logit_bias p of Some d \<Rightarrow> (ib_logit_bias b)[i := Some d] | None \<Rightarrow> ib_logit_bias b),
           ib_bad_words_token_ids := dict_set i (sp_bad_words_token_ids p) (ib_bad_words_token_ids b)\<rparr>)"

text \<open>The mask is allocated when the first request needs it; a token that is allowed has the value False.\<close>

definition mask_allow :: "int \<Rightarrow> bool list \<Rightarrow> bool list result" where
  "mask_allow t row =
     (let i = (if t < 0 then int (length row) + t else t)
      in if 0 \<le> i \<and> i < int (length row) then Inr (row[nat i := False]) else Inl IndexError)"

definition set_allowed_mask :: "CachedRequestState \<Rightarrow> nat \<Rightarrow> InputBatch \<Rightarrow> InputBatch result" where
  "set_allowed_mask q i b =
     (case sp_allowed_token_ids (cs_sampling_params q) of None \<Rightarrow> Inr b
      | Some ids \<Rightarrow>
          if ids = [] then Inr b
          else let fresh = replicate (ib_max_num_reqs b) (replicate (ib_vocab_size b) False);
                   cpu = (case ib_allowed_mask b of None \<Rightarrow> fresh | Some rows \<Rightarrow> rows);
                   device = (case ib_allowed_mask b of None \<Rightarrow> Some fresh | Some _ \<Rightarrow> ib_allowed_mask_device b)
               in res_bind (res_fold mask_allow ids (replicate (length (cpu ! i)) True)) (\<lambda>row.
                    Inr (b\<lparr>ib_has_allowed_token_ids := insert (cs_req_id q) (ib_has_allowed_token_ids b),
                           ib_allowed_mask_device := device, ib_allowed_mask := Some (cpu[i := row])\<rparr>)))"

definition set_lora :: "CachedRequestState \<Rightarrow> nat \<Rightarrow> InputBatch \<Rightarrow> InputBatch" where
  "set_lora q i b =
     (case cs_lora_request q of
        None \<Rightarrow> b\<lparr>ib_request_lora_mapping := (ib_request_lora_mapping b)[i := 0]\<rparr>
      | Some lora_id \<Rightarrow>
          b\<lparr>ib_request_lora_mapping := (ib_request_lora_mapping b)[i := lora_id],
            ib_lora_id_to_request_ids :=
              dict_set lora_id (insert (cs_req_id q) (dict_get_default (ib_lora_id_to_request_ids b) lora_id {})) (ib_lora_id_to_request_ids b),
            ib_lora_id_to_lora_request := dict_set lora_id lora_id (ib_lora_id_to_lora_request b)\<rparr>)"

definition InputBatch_add_request :: "CachedRequestState \<Rightarrow> nat \<Rightarrow> nat option \<Rightarrow> InputBatch \<Rightarrow> InputBatch result" where
  "InputBatch_add_request q st req_index b =
     (let i = (case req_index of None \<Rightarrow> InputBatch_num_reqs b | Some i \<Rightarrow> i); p = cs_sampling_params q in
      res_bind (py_assert (i < ib_max_num_reqs b)) (\<lambda>_.
      res_bind (place_request (cs_req_id q) st i b) (\<lambda>b1.
      res_bind (copy_tokens q i b1) (\<lambda>b2.
      let b3 = note_sampling (cs_req_id q) p (b2\<lparr>ib_cpu := set_sampling_row p (ib_vocab_size b2) i (ib_cpu b2)\<rparr>) in
      res_bind (set_allowed_mask q i (note_options q i b3)) (\<lambda>b4. Inr (set_lora q i b4))))))"

section \<open>Removing and moving requests\<close>

definition remove_lora :: "string \<Rightarrow> nat \<Rightarrow> InputBatch \<Rightarrow> InputBatch result" where
  "remove_lora req_id i b =
     (let lora_id = ib_request_lora_mapping b ! i in
      if lora_id = 0 then Inr b
      else res_bind (dict_item (ib_lora_id_to_request_ids b) lora_id) (\<lambda>ids.
             let rest = ids - {req_id}; b1 = b\<lparr>ib_request_lora_mapping := (ib_request_lora_mapping b)[i := 0]\<rparr>
             in if rest \<noteq> {} then Inr (b1\<lparr>ib_lora_id_to_request_ids := dict_set lora_id rest (ib_lora_id_to_request_ids b)\<rparr>)
                else res_bind (dict_item (ib_lora_id_to_lora_request b) lora_id) (\<lambda>_.
                  Inr (b1\<lparr>ib_lora_id_to_request_ids := dict_pop lora_id (ib_lora_id_to_request_ids b),
                          ib_lora_id_to_lora_request := dict_pop lora_id (ib_lora_id_to_lora_request b)\<rparr>))))"

definition InputBatch_remove_request :: "string \<Rightarrow> InputBatch \<Rightarrow> (nat option \<times> InputBatch) result" where
  "InputBatch_remove_request req_id b =
     (case dict_get (ib_req_id_to_index b) req_id of None \<Rightarrow> Inr (None, b)
      | Some i \<Rightarrow>
          let b1 = b\<lparr>ib_req_id_to_index := dict_pop req_id (ib_req_id_to_index b), ib_req_ids := (ib_req_ids b)[i := None],
                     ib_req_output_token_ids := (ib_req_output_token_ids b)[i := None],
                     ib_greedy_reqs := ib_greedy_reqs b - {req_id}, ib_random_reqs := ib_random_reqs b - {req_id},
                     ib_top_p_reqs := ib_top_p_reqs b - {req_id}, ib_top_k_reqs := ib_top_k_reqs b - {req_id},
                     ib_min_p_reqs := ib_min_p_reqs b - {req_id}, ib_min_tokens := dict_pop i (ib_min_tokens b),
                     ib_frequency_penalties_reqs := ib_frequency_penalties_reqs b - {req_id},
                     ib_presence_penalties_reqs := ib_presence_penalties_reqs b - {req_id},
                     ib_repetition_penalties_reqs := ib_repetition_penalties_reqs b - {req_id},
                     ib_generators := dict_pop i (ib_generators b), ib_num_logprobs := dict_pop req_id (ib_num_logprobs b),
                     ib_num_prompt_logprobs := dict_pop req_id (ib_num_prompt_logprobs b)\<rparr>
          in res_bind (remove_lora req_id i b1) (\<lambda>b2.
               Inr (Some i, b2\<lparr>ib_logit_bias := (ib_logit_bias b2)[i := None], ib_has_allowed_token_ids := ib_has_allowed_token_ids b2 - {req_id},
                     ib_allowed_mask := map_option (\<lambda>rows. rows[i := map (\<lambda>_. False) (rows ! i)]) (ib_allowed_mask b2),
                     ib_bad_words_token_ids := dict_pop i (ib_bad_words_token_ids b2)\<rparr>)))"

text \<open>
  Swapping two rows. Assigning tensor rows crosswise does not swap them: the right-hand sides are
  views, so the first assignment has already overwritten what the second one reads.
\<close>

definition swap_tensors :: "nat \<Rightarrow> nat \<Rightarrow> sampling_tensors \<Rightarrow> sampling_tensors" where
  "swap_tensors i j t =
     \<lparr>tn_temperature = swap_entries i j (tn_temperature t), tn_top_p = swap_entries i j (tn_top_p t),
      tn_top_k = swap_entries i j (tn_top_k t), tn_min_p = swap_entries i j (tn_min_p t),
      tn_frequency_penalties = swap_entries i j (tn_frequency_penalties t),
      tn_presence_penalties = swap_entries i j (tn_presence_penalties t),
      tn_repetition_penalties = swap_entries i j (tn_repetition_penalties t)\<rparr>"

definition assign_crosswise :: "nat \<Rightarrow> nat \<Rightarrow> 'a list \<Rightarrow> 'a list" where
  "assign_crosswise i j rows = (let rows1 = rows[i := rows ! j] in rows1[j := rows1 ! i])"

definition InputBatch_swap_states :: "nat \<Rightarrow> nat \<Rightarrow> InputBatch \<Rightarrow> InputBatch result" where
  "InputBatch_swap_states i j b =
     res_bind (py_getitem (ib_req_ids b) (int i)) (\<lambda>old_i. res_bind (py_getitem (ib_req_ids b) (int j)) (\<lambda>old_j.
     case (old_i, old_j) of
       (Some id_i, Some id_j) \<Rightarrow>
         res_bind (dict_item (ib_req_id_to_index b) id_i) (\<lambda>k_i. res_bind (dict_item (ib_req_id_to_index b) id_j) (\<lambda>k_j.
         Inr (b\<lparr>ib_req_ids := swap_entries i j (ib_req_ids b), ib_req_output_token_ids := swap_entries i j (ib_req_output_token_ids b),
                ib_req_id_to_index := dict_set id_j k_i (dict_set id_i k_j (ib_req_id_to_index b)),
                ib_num_tokens := swap_entries i j (ib_num_tokens b), ib_num_tokens_no_spec := swap_entries i j (ib_num_tokens_no_spec b),
                ib_num_prompt_tokens := swap_entries i j (ib_num_prompt_tokens b),
                ib_num_computed_tokens := swap_entries i j (ib_num_computed_tokens b), ib_cpu := swap_tensors i j (ib_cpu b),
                ib_token_ids := swap_entries i j (ib_token_ids b), ib_generators := swap_dict_values i j (ib_generators b),
                ib_min_tokens := swap_dict_values i j (ib_min_tokens b),
                ib_bad_words_token_ids := swap_dict_values i j (ib_bad_words_token_ids b),
                ib_request_lora_mapping := swap_entries i j (ib_request_lora_mapping b),
                ib_logit_bias := swap_entries i j (ib_logit_bias b),
                ib_allowed_mask := map_option (assign_crosswise i j) (ib_allowed_mask b),
                ib_block_table := BlockTable_swap_row i j (ib_block_table b)\<rparr>)))
     | _ \<Rightarrow> Inl AssertionError))"

definition move_dict_value :: "nat \<Rightarrow> nat \<Rightarrow> (nat, 'v) dict \<Rightarrow> (nat, 'v) dict" where
  "move_dict_value src tgt d = (case dict_get d src of None \<Rightarrow> d | Some v \<Rightarrow> dict_set tgt v (dict_pop src d))"

definition move_tensors :: "nat \<Rightarrow> nat \<Rightarrow> sampling_tensors \<Rightarrow> sampling_tensors" where
  "move_tensors src tgt t =
     \<lparr>tn_temperature = (tn_temperature t)[tgt := tn_temperature t ! src], tn_top_p = (tn_top_p t)[tgt := tn_top_p t ! src],
      tn_top_k = (tn_top_k t)[tgt := tn_top_k t ! src], tn_min_p = (tn_min_p t)[tgt := tn_min_p t ! src],
      tn_frequency_penalties = (tn_frequency_penalties t)[tgt := tn_frequency_penalties t ! src],
      tn_presence_penalties = (tn_presence_penalties t)[tgt := tn_presence_penalties t ! src],
      tn_repetition_penalties = (tn_repetition_penalties t)[tgt := tn_repetition_penalties t ! src]\<rparr>"

text \<open>Moving the last row to an empty one, which copies only the tokens counted in the row.\<close>

definition move_row :: "nat \<Rightarrow> nat \<Rightarrow> InputBatch \<Rightarrow> InputBatch result" where
  "move_row src tgt b =
     (case ib_req_ids b ! src of None \<Rightarrow> Inl AssertionError
      | Some req_id \<Rightarrow>
          let n = ib_num_tokens b ! src in
          res_bind (np_assign (ib_token_ids b ! tgt) 0 n (py_slice (ib_token_ids b ! src) 0 n)) (\<lambda>row.
          Inr (b\<lparr>ib_req_ids := (ib_req_ids b)[tgt := Some req_id, src := None],
                 ib_req_output_token_ids := (ib_req_output_token_ids b)[tgt := ib_req_output_token_ids b ! src, src := None],
                 ib_req_id_to_index := dict_set req_id tgt (ib_req_id_to_index b), ib_token_ids := (ib_token_ids b)[tgt := row],
                 ib_num_tokens := (ib_num_tokens b)[tgt := n],
                 ib_num_tokens_no_spec := (ib_num_tokens_no_spec b)[tgt := ib_num_tokens_no_spec b ! src],
                 ib_num_prompt_tokens := (ib_num_prompt_tokens b)[tgt := ib_num_prompt_tokens b ! src],
                 ib_num_computed_tokens := (ib_num_computed_tokens b)[tgt := ib_num_computed_tokens b ! src],
                 ib_block_table := BlockTable_move_row src tgt (ib_block_table b), ib_cpu := move_tensors src tgt (ib_cpu b),
                 ib_generators := move_dict_value src tgt (ib_generators b), ib_min_tokens := move_dict_value src tgt (ib_min_tokens b),
                 ib_request_lora_mapping := (ib_request_lora_mapping b)[tgt := ib_request_lora_mapping b ! src],
                 ib_logit_bias := (ib_logit_bias b)[tgt := ib_logit_bias b ! src],
                 ib_allowed_mask := map_option (\<lambda>rows. rows[tgt := rows ! src]) (ib_allowed_mask b),
                 ib_bad_words_token_ids := move_dict_value src tgt (ib_bad_words_token_ids b)\<rparr>)))"

text \<open>The largest index up to \<open>i\<close> that is not empty; None stands for the index -1.\<close>

fun last_used :: "nat list \<Rightarrow> nat \<Rightarrow> nat option" where
  "last_used holes 0 = (if 0 \<in> set holes then None else Some 0)"
| "last_used holes (Suc i) = (if Suc i \<in> set holes then last_used holes i else Some (Suc i))"

text \<open>The loop takes the smallest empty index first, so it runs over the empty indices in ascending order.\<close>

fun condense_loop :: "nat list \<Rightarrow> nat option \<Rightarrow> InputBatch \<Rightarrow> InputBatch result" where
  "condense_loop [] lst b = Inr b"
| "condense_loop (e # es) lst b =
     (case Option.bind lst (last_used (e # es)) of None \<Rightarrow> Inr b
      | Some l \<Rightarrow> if e \<ge> l then Inr b
                  else res_bind (move_row l e b) (condense_loop es (if l = 0 then None else Some (l - 1))))"

definition InputBatch_condense :: "nat list \<Rightarrow> InputBatch \<Rightarrow> InputBatch result" where
  "InputBatch_condense empty_req_indices b =
     (let n = InputBatch_num_reqs b in
      if n = 0 then Inr (b\<lparr>ib_req_ids := [], ib_req_output_token_ids := []\<rparr>)
      else res_bind (condense_loop (rev empty_req_indices) (Some (n + length empty_req_indices - 1)) b) (\<lambda>b1.
        Inr (b1\<lparr>ib_req_ids := take (InputBatch_num_reqs b1) (ib_req_ids b1),
                ib_req_output_token_ids := take (InputBatch_num_reqs b1) (ib_req_output_token_ids b1)\<rparr>)))"

definition InputBatch_make_lora_inputs :: "nat list \<Rightarrow> InputBatch \<Rightarrow> int list \<times> int list \<times> int set" where
  "InputBatch_make_lora_inputs num_scheduled_tokens b =
     (let mapping = take (InputBatch_num_reqs b) (ib_request_lora_mapping b)
      in (mapping, concat (map2 replicate num_scheduled_tokens mapping), set (dict_values (ib_lora_id_to_lora_request b))))"

end
