(* ===== verification/Model_Runner.thy ===== *)
theory Model_Runner
  imports V1_Update Input_Batch
begin

text \<open>
  The state of the model runner between two steps (v1/worker/gpu_model_runner.py): the cached
  request states and the persistent batch, updated with the output of the scheduler by
  \<open>_update_states\<close>, and the arrays \<open>_prepare_inputs\<close> computes for the model: positions, token ids
  and the slots of the KV cache.

  Cached request states are objects that the dictionary of requests and the batch share, so they
  live in a store. The two sets the update iterates are taken in the order the argument \<open>id_order\<close>
  gives. The encoder outputs are tensors: the cache keeps the ids of the inputs it holds. Models
  with M-RoPE positions, the hook that reorders the batch for MLA, and the attention metadata are
  not modelled; what the forward pass and the sampler compute is the argument of type \<open>sampler\<close>.
  Arrays of different lengths in one operation are an error of numpy, and so is a batch whose list
  of ids is longer than the number of its requests.
\<close>

section \<open>The state\<close>

record GPUModelRunner =
  gr_block_size :: nat
  gr_states :: "CachedRequestState list"
  gr_requests :: "(string, nat) dict"
  gr_batch :: InputBatch
  gr_encoder_cache :: "(string, nat list) dict"

definition GPUModelRunner_init :: "nat \<Rightarrow> InputBatch \<Rightarrow> GPUModelRunner" where
  "GPUModelRunner_init block_size b =
     \<lparr>gr_block_size = block_size, gr_states = [], gr_requests = [], gr_batch = b, gr_encoder_cache = []\<rparr>"

abbreviation gr_state :: "GPUModelRunner \<Rightarrow> nat \<Rightarrow> CachedRequestState" where
  "gr_state w r \<equiv> gr_states w ! r"

definition gr_put :: "nat \<Rightarrow> CachedRequestState \<Rightarrow> GPUModelRunner \<Rightarrow> GPUModelRunner" where
  "gr_put r st w = w\<lparr>gr_states := (gr_states w)[r := st]\<rparr>"

section \<open>Updating the states\<close>

text \<open>Removing requests from the batch, with the rows they leave empty.\<close>

fun remove_rows :: "string list \<Rightarrow> bool \<Rightarrow> InputBatch \<Rightarrow> (nat list \<times> InputBatch) result" where
  "remove_rows [] must_exist b = Inr ([], b)"
| "remove_rows (i # ids) must_exist b =
     res_bind (InputBatch_remove_request i b) (\<lambda>(req_index, b1).
       case req_index of
         None \<Rightarrow> if must_exist then Inl AssertionError else remove_rows ids must_exist b1
       | Some k \<Rightarrow> res_bind (remove_rows ids must_exist b1) (\<lambda>(ks, b2). Inr (k # ks, b2)))"

definition free_encoder_output :: "string \<times> nat \<Rightarrow> (string, nat list) dict \<Rightarrow> (string, nat list) dict" where
  "free_encoder_output x d =
     (let (req_id, input_id) = x in
      case dict_get d req_id of None \<Rightarrow> d
      | Some outputs \<Rightarrow> let rest = remove1 input_id outputs in if rest = [] then dict_pop req_id d else dict_set req_id rest d)"

text \<open>Finished requests leave the cached states and the batch, requests that are not scheduled only the batch.\<close>

definition drop_requests :: "(string set \<Rightarrow> string list) \<Rightarrow> SchedulerOutput \<Rightarrow> GPUModelRunner \<Rightarrow> (nat list \<times> GPUModelRunner) result" where
  "drop_requests id_order sched w =
     (let finished = id_order (so_finished_req_ids sched);
          w1 = w\<lparr>gr_requests := fold dict_pop finished (gr_requests w), gr_encoder_cache := fold dict_pop finished (gr_encoder_cache w)\<rparr>
      in res_bind (remove_rows finished False (gr_batch w1)) (\<lambda>(ks1, b1).
         let w2 = w1\<lparr>gr_encoder_cache := fold free_encoder_output (so_free_encoder_input_ids sched) (gr_encoder_cache w1)\<rparr>;
             unscheduled = set (dict_keys (ib_req_id_to_index b1)) - set (dict_keys (so_num_scheduled_tokens sched))
         in res_bind (remove_rows (id_order unscheduled) True b1) (\<lambda>(ks2, b2). Inr (ks1 @ ks2, w2\<lparr>gr_batch := b2\<rparr>))))"

definition CachedRequestState_new :: "NewRequestData \<Rightarrow> CachedRequestState" where
  "CachedRequestState_new d =
     \<lparr>cs_req_id = nd_req_id d, cs_prompt_token_ids = nd_prompt_token_ids d, cs_sampling_params = nd_sampling_params d,
      cs_generator = (if SamplingParams_sampling_type (nd_sampling_params d) = RANDOM_SEED then sp_seed (nd_sampling_params d) else None),
      cs_block_ids = nd_block_ids d, cs_num_computed_tokens = nd_num_computed_tokens d, cs_output_token_ids = [],
      cs_lora_request = nd_lora_request d\<rparr>"

definition new_request_state :: "NewRequestData \<Rightarrow> GPUModelRunner \<Rightarrow> GPUModelRunner" where
  "new_request_state d w =
     w\<lparr>gr_states := gr_states w @ [CachedRequestState_new d], gr_requests := dict_set (nd_req_id d) (length (gr_states w)) (gr_requests w)\<rparr>"

text \<open>The cached state of a running or resumed request: the tokens that are new to it, and its blocks.\<close>

definition update_cached_state :: "CachedRequestData \<Rightarrow> CachedRequestState \<Rightarrow> CachedRequestState result" where
  "update_cached_state d st =
     (let c = cd_num_computed_tokens d; new = cd_new_token_ids d; st1 = st\<lparr>cs_num_computed_tokens := c\<rparr>;
          num_new_tokens = c + int (length new) - int (CachedRequestState_num_tokens st1)
      in res_bind (if num_new_tokens = 1 then res_bind (py_getitem new (- 1)) (\<lambda>t. Inr [t])
                   else if num_new_tokens > 0 then Inr (py_slice new (- num_new_tokens) (int (length new))) else Inr []) (\<lambda>tokens.
           Inr (st1\<lparr>cs_output_token_ids := cs_output_token_ids st1 @ tokens,
                    cs_block_ids := (if cd_resumed_from_preemption d then cd_new_block_ids d else cs_block_ids st1 @ cd_new_block_ids d)\<rparr>)))"

text \<open>The row of a request that is in the batch.\<close>

definition update_row :: "SchedulerOutput \<Rightarrow> CachedRequestData \<Rightarrow> nat \<Rightarrow> InputBatch \<Rightarrow> InputBatch result" where
  "update_row sched d i b =
     (let c = cd_num_computed_tokens d; new = cd_new_token_ids d; e = c + int (length new);
          spec = dict_get_default (so_scheduled_spec_decode_tokens sched) (cd_req_id d) [] in
      res_bind (BlockTable_append_row (cd_new_block_ids d) i (ib_block_table b)) (\<lambda>t.
      res_bind (np_assign (ib_token_ids b ! i) c e new) (\<lambda>row.
      res_bind (if spec = [] then Inr row else np_assign row e (e + int (length spec)) spec) (\<lambda>row1.
        Inr (b\<lparr>ib_num_computed_tokens := (ib_num_computed_tokens b)[i := c], ib_block_table := t, ib_token_ids := (ib_token_ids b)[i := row1],
               ib_num_tokens_no_spec := (ib_num_tokens_no_spec b)[i := e],
               ib_num_tokens := (ib_num_tokens b)[i := e + int (length spec)]\<rparr>)))))"

text \<open>The running and resumed requests, with the ids of those that have to enter the batch.\<close>

fun update_cached :: "SchedulerOutput \<Rightarrow> CachedRequestData list \<Rightarrow> GPUModelRunner \<Rightarrow> (string list \<times> GPUModelRunner) result" where
  "update_cached sched [] w = Inr ([], w)"
| "update_cached sched (d # ds) w =
     res_bind (dict_item (gr_requests w) (cd_req_id d)) (\<lambda>r.
     res_bind (update_cached_state d (gr_state w r)) (\<lambda>st.
     let w1 = gr_put r st w in
     case dict_get (ib_req_id_to_index (gr_batch w1)) (cd_req_id d) of
       None \<Rightarrow> res_bind (update_cached sched ds w1) (\<lambda>(ids, w2). Inr (cd_req_id d # ids, w2))
     | Some i \<Rightarrow> res_bind (update_row sched d i (gr_batch w1)) (\<lambda>b. update_cached sched ds (w1\<lparr>gr_batch := b\<rparr>))))"

text \<open>Entering requests: the smallest empty rows first, then new rows; the rows still empty are returned in ascending order.\<close>

fun enter_batch :: "string list \<Rightarrow> nat list \<Rightarrow> GPUModelRunner \<Rightarrow> (nat list \<times> GPUModelRunner) result" where
  "enter_batch [] holes w = Inr (holes, w)"
| "enter_batch (i # ids) holes w =
     res_bind (dict_item (gr_requests w) i) (\<lambda>r.
     res_bind (InputBatch_add_request (gr_state w r) r (case holes of [] \<Rightarrow> None | k # _ \<Rightarrow> Some k) (gr_batch w)) (\<lambda>b.
       enter_batch ids (tl holes) (w\<lparr>gr_batch := b\<rparr>)))"

definition GPUModelRunner_update_states :: "(string set \<Rightarrow> string list) \<Rightarrow> SchedulerOutput \<Rightarrow> GPUModelRunner \<Rightarrow> GPUModelRunner result" where
  "GPUModelRunner_update_states id_order sched w =
     res_bind (drop_requests id_order sched w) (\<lambda>(removed, w1).
     let w2 = fold new_request_state (so_scheduled_new_reqs sched) w1 in
     res_bind (update_cached sched (so_scheduled_cached_reqs sched) w2) (\<lambda>(ids, w3).
     let to_add = map nd_req_id (so_scheduled_new_reqs sched) @ ids; batch_changed = (removed \<noteq> [] \<or> to_add \<noteq> []) in
     res_bind (enter_batch to_add (sort removed) w3) (\<lambda>(holes, w4).
     res_bind (if holes = [] then Inr (gr_batch w4) else InputBatch_condense (rev holes) (gr_batch w4)) (\<lambda>b.
     res_bind (if batch_changed then InputBatch_refresh_sampling_metadata b else Inr b) (\<lambda>b1. Inr (w4\<lparr>gr_batch := b1\<rparr>))))))"

section \<open>The inputs of the model\<close>

record model_inputs =
  mi_num_scheduled :: "nat list"
  mi_positions :: "int list"
  mi_input_ids :: "int list"
  mi_slot_mapping :: "int list"
  mi_query_start_loc :: "nat list"
  mi_seq_lens :: "int list"

text \<open>numpy's repeat, the running sum, and torch's selection by index from a flattened array.\<close>

definition np_repeat :: "'a list \<Rightarrow> nat list \<Rightarrow> 'a list" where
  "np_repeat xs ns = concat (map2 (\<lambda>x n. replicate n x) xs ns)"

fun cumsum_from :: "nat \<Rightarrow> nat list \<Rightarrow> nat list" where
  "cumsum_from acc [] = []"
| "cumsum_from acc (n # ns) = (acc + n) # cumsum_from (acc + n) ns"

definition index_select :: "'a list list \<Rightarrow> int list \<Rightarrow> 'a list result" where
  "index_select rows ks = res_map (\<lambda>k. if 0 \<le> k \<and> k < int (length (concat rows)) then Inr (concat rows ! nat k) else Inl IndexError) ks"

definition GPUModelRunner_prepare_inputs :: "SchedulerOutput \<Rightarrow> GPUModelRunner \<Rightarrow> (model_inputs \<times> GPUModelRunner) result" where
  "GPUModelRunner_prepare_inputs sched w =
     (let b = gr_batch w; num_reqs = InputBatch_num_reqs b; bs = int (gr_block_size w) in
      res_bind (py_assert (so_total_num_scheduled_tokens sched > 0)) (\<lambda>_.
      res_bind (py_assert (num_reqs > 0)) (\<lambda>_.
      let b1 = b\<lparr>ib_block_table := BlockTable_commit num_reqs (ib_block_table b)\<rparr> in
      res_bind (res_map (\<lambda>req_id. case req_id of None \<Rightarrow> Inl KeyError | Some i \<Rightarrow> dict_item (so_num_scheduled_tokens sched) i) (ib_req_ids b1)) (\<lambda>ns.
      let num_scheduled = map nat ns;
          req_indices = np_repeat [0..<num_reqs] num_scheduled;
          cu_num_tokens = cumsum_from 0 num_scheduled;
          cumsums_offsets = np_repeat (map2 (\<lambda>a n. a - n) cu_num_tokens num_scheduled) num_scheduled;
          arange = map2 (\<lambda>a o'. int a - int o') [0..<nat (so_total_num_scheduled_tokens sched)] cumsums_offsets;
          positions = map2 (\<lambda>r a. ib_num_computed_tokens b1 ! r + a) req_indices arange;
          token_indices = map2 (\<lambda>p r. p + int r * int (ib_max_model_len b1)) positions req_indices
      in if length ns \<noteq> num_reqs then Inl IndexError
         else if nat (so_total_num_scheduled_tokens sched) \<noteq> sum_list num_scheduled then Inl ValueError
         else res_bind (index_select (ib_token_ids b1) token_indices) (\<lambda>input_ids.
         let block_table_indices = map2 (\<lambda>r p. int r * int (bt_max_num_blocks_per_req (ib_block_table b1)) + p div bs) req_indices positions in
         res_bind (index_select (bt_rows (ib_block_table b1)) block_table_indices) (\<lambda>block_numbers.
           Inr (\<lparr>mi_num_scheduled = num_scheduled, mi_positions = positions, mi_input_ids = input_ids,
                 mi_slot_mapping = map2 (\<lambda>n p. int n * bs + p mod bs) block_numbers positions,
                 mi_query_start_loc = 0 # cu_num_tokens,
                 mi_seq_lens = map2 (\<lambda>c n. c + int n) (take num_reqs (ib_num_computed_tokens b1)) num_scheduled\<rparr>,
                w\<lparr>gr_batch := b1\<rparr>)))))))"

text \<open>
  A step of the runner for a text model on one pipeline stage, without speculative decoding: one
  sampled token for every row, whether or not all tokens of the request were computed. Without
  scheduled tokens only the states are updated. The forward pass with its padding, the grammar
  mask and the rewinding of generators whose token is ignored happen on the device: they are part
  of the argument \<open>S\<close>, which sees the inputs and the sampling metadata.
\<close>

record sampler =
  model_token :: "model_inputs \<Rightarrow> SamplingMetadata \<Rightarrow> nat \<Rightarrow> int"
  model_logprobs :: "model_inputs \<Rightarrow> SamplingMetadata \<Rightarrow> nat \<Rightarrow> logprob_row"
  model_prompt_logprobs :: "model_inputs \<Rightarrow> string set"

definition EMPTY_MODEL_RUNNER_OUTPUT :: ModelRunnerOutput where
  "EMPTY_MODEL_RUNNER_OUTPUT =
     \<lparr>mo_req_id_to_index = [], mo_sampled_token_ids = [], mo_spec_token_ids = None, mo_logprobs = None, mo_prompt_logprobs = {}\<rparr>"

definition GPUModelRunner_execute_model :: "(string set \<Rightarrow> string list) \<Rightarrow> sampler \<Rightarrow> SchedulerOutput \<Rightarrow> GPUModelRunner \<Rightarrow>
    (ModelRunnerOutput \<times> GPUModelRunner) result" where
  "GPUModelRunner_execute_model id_order S sched w =
     res_bind (GPUModelRunner_update_states id_order sched w) (\<lambda>w1.
     if so_total_num_scheduled_tokens sched = 0 then Inr (EMPTY_MODEL_RUNNER_OUTPUT, w1)
     else res_bind (GPUModelRunner_prepare_inputs sched w1) (\<lambda>(inputs, w2).
       let b = gr_batch w2; n = InputBatch_num_reqs b; sm = ib_sampling_metadata b
       in Inr (\<lparr>mo_req_id_to_index = ib_req_id_to_index b, mo_sampled_token_ids = map (\<lambda>i. [model_token S inputs sm i]) [0..<n],
                mo_spec_token_ids = None,
                mo_logprobs = (if sm_max_num_logprobs sm = None then None else Some (map (model_logprobs S inputs sm) [0..<n])),
                mo_prompt_logprobs = model_prompt_logprobs S inputs\<rparr>, w2)))"

end
