(* ===== verification/Batch_Correct.thy ===== *)
theory Batch_Correct
  imports Input_Batch
begin

text \<open>
  The persistent batch as a finite map. The parallel arrays, the dictionaries keyed by a row and the
  sets of request ids together say one thing: which requests are in the batch, and what is
  stored for each. \<open>batch_of\<close> is that map; \<open>batch_inv\<close> is the invariant under which adding and removing
  a request are updates of it and moving a row to another place changes nothing.

  The requests of these lemmas use no LoRA adapter, no logit bias and no list of allowed tokens:
  the last two do not survive \<open>condense\<close> (see the findings).
\<close>

section \<open>The map a batch stands for\<close>

record batch_row =
  br_state :: "nat option"
  br_tokens :: "int list"
  br_num_tokens :: int
  br_num_tokens_no_spec :: int
  br_num_prompt :: nat
  br_num_computed :: int
  br_blocks :: "nat list"
  br_sampling :: "rat list \<times> int"
  br_classes :: "bool list"
  br_logprobs :: "int option \<times> int option"
  br_min_tokens :: "(int \<times> int set) option"
  br_generator :: "int option"
  br_bad_words :: "int list list option"

definition tensor_row :: "sampling_tensors \<Rightarrow> nat \<Rightarrow> rat list \<times> int" where
  "tensor_row t k = ([tn_temperature t ! k, tn_top_p t ! k, tn_min_p t ! k, tn_frequency_penalties t ! k, tn_presence_penalties t ! k,
      tn_repetition_penalties t ! k], tn_top_k t ! k)"

definition classes_of :: "InputBatch \<Rightarrow> string \<Rightarrow> bool list" where
  "classes_of b i = map (\<lambda>A. i \<in> A) [ib_greedy_reqs b, ib_random_reqs b, ib_top_p_reqs b, ib_top_k_reqs b, ib_min_p_reqs b,
      ib_frequency_penalties_reqs b, ib_presence_penalties_reqs b, ib_repetition_penalties_reqs b]"

definition row_at :: "InputBatch \<Rightarrow> string \<Rightarrow> nat \<Rightarrow> batch_row" where
  "row_at b i k =
     \<lparr>br_state = ib_req_output_token_ids b ! k, br_tokens = take (nat (ib_num_tokens b ! k)) (ib_token_ids b ! k),
      br_num_tokens = ib_num_tokens b ! k, br_num_tokens_no_spec = ib_num_tokens_no_spec b ! k,
      br_num_prompt = ib_num_prompt_tokens b ! k, br_num_computed = ib_num_computed_tokens b ! k,
      br_blocks = take (bt_num_blocks_per_row (ib_block_table b) ! k) (bt_rows (ib_block_table b) ! k),
      br_sampling = tensor_row (ib_cpu b) k, br_classes = classes_of b i,
      br_logprobs = (dict_get (ib_num_logprobs b) i, dict_get (ib_num_prompt_logprobs b) i),
      br_min_tokens = dict_get (ib_min_tokens b) k, br_generator = dict_get (ib_generators b) k,
      br_bad_words = dict_get (ib_bad_words_token_ids b) k\<rparr>"

definition batch_of :: "InputBatch \<Rightarrow> string \<Rightarrow> batch_row option" where
  "batch_of b i = map_option (row_at b i) (dict_get (ib_req_id_to_index b) i)"

text \<open>What adding a request stores for it.\<close>

definition sampling_row :: "SamplingParams \<Rightarrow> nat \<Rightarrow> rat list \<times> int" where
  "sampling_row p vocab_size =
     ([if SamplingParams_sampling_type p = GREEDY then - 1 else sp_temperature p, sp_top_p p, sp_min_p p, sp_frequency_penalty p,
       sp_presence_penalty p, sp_repetition_penalty p],
      if 0 < sp_top_k p \<and> sp_top_k p < int vocab_size then sp_top_k p else int vocab_size)"

definition sampling_classes :: "SamplingParams \<Rightarrow> nat \<Rightarrow> bool list" where
  "sampling_classes p vocab_size =
     [SamplingParams_sampling_type p = GREEDY, SamplingParams_sampling_type p \<noteq> GREEDY, sp_top_p p < 1,
      0 < sp_top_k p \<and> sp_top_k p < int vocab_size, sp_min_p p > sampling_eps, sp_frequency_penalty p \<noteq> 0,
      sp_presence_penalty p \<noteq> 0, sp_repetition_penalty p \<noteq> 1]"

definition fresh_row :: "CachedRequestState \<Rightarrow> nat \<Rightarrow> nat \<Rightarrow> batch_row" where
  "fresh_row q st vocab_size =
     (let p = cs_sampling_params q in
      \<lparr>br_state = Some st, br_tokens = cs_prompt_token_ids q @ cs_output_token_ids q,
       br_num_tokens = int (CachedRequestState_num_tokens q), br_num_tokens_no_spec = int (CachedRequestState_num_tokens q),
       br_num_prompt = length (cs_prompt_token_ids q), br_num_computed = cs_num_computed_tokens q, br_blocks = cs_block_ids q,
       br_sampling = sampling_row p vocab_size, br_classes = sampling_classes p vocab_size,
       br_logprobs = (sp_logprobs p, sp_prompt_logprobs p),
       br_min_tokens = (if sp_min_tokens p \<noteq> 0 then Some (sp_min_tokens p, sp_all_stop_token_ids p) else None),
       br_generator = cs_generator q, br_bad_words = Some (sp_bad_words_token_ids p)\<rparr>)"

section \<open>The invariant\<close>

definition slot_id :: "InputBatch \<Rightarrow> nat \<Rightarrow> string option" where
  "slot_id b k = (if k < length (ib_req_ids b) then ib_req_ids b ! k else None)"

definition tensors_ok :: "nat \<Rightarrow> sampling_tensors \<Rightarrow> bool" where
  "tensors_ok n t \<longleftrightarrow> length (tn_temperature t) = n \<and> length (tn_top_p t) = n \<and> length (tn_top_k t) = n \<and> length (tn_min_p t) = n \<and>
     length (tn_frequency_penalties t) = n \<and> length (tn_presence_penalties t) = n \<and> length (tn_repetition_penalties t) = n"

definition table_ok :: "nat \<Rightarrow> BlockTable \<Rightarrow> bool" where
  "table_ok n t \<longleftrightarrow> length (bt_rows t) = n \<and> length (bt_num_blocks_per_row t) = n \<and>
     (\<forall>row \<in> set (bt_rows t). length row = bt_max_num_blocks_per_req t) \<and>
     (\<forall>k \<in> set (bt_num_blocks_per_row t). k \<le> bt_max_num_blocks_per_req t)"

definition arrays_ok :: "InputBatch \<Rightarrow> bool" where
  "arrays_ok b \<longleftrightarrow> (let n = ib_max_num_reqs b in
     length (ib_req_ids b) \<le> n \<and> length (ib_req_output_token_ids b) = length (ib_req_ids b) \<and> length (ib_token_ids b) = n \<and>
     (\<forall>row \<in> set (ib_token_ids b). length row = ib_max_model_len b) \<and>
     length (ib_num_tokens b) = n \<and> length (ib_num_tokens_no_spec b) = n \<and> length (ib_num_prompt_tokens b) = n \<and>
     length (ib_num_computed_tokens b) = n \<and> length (ib_request_lora_mapping b) = n \<and> length (ib_logit_bias b) = n \<and>
     tensors_ok n (ib_cpu b) \<and> tensors_ok n (ib_device b) \<and> table_ok n (ib_block_table b))"

definition index_ok :: "InputBatch \<Rightarrow> bool" where
  "index_ok b \<longleftrightarrow> dict_ok (ib_req_id_to_index b) \<and> (\<forall>i k. dict_get (ib_req_id_to_index b) i = Some k \<longleftrightarrow> slot_id b k = Some i)"

definition rest_ok :: "InputBatch \<Rightarrow> bool" where
  "rest_ok b \<longleftrightarrow>
     (\<forall>i. dict_get (ib_req_id_to_index b) i = None \<longrightarrow> True \<notin> set (classes_of b i) \<and>
        dict_get (ib_num_logprobs b) i = None \<and> dict_get (ib_num_prompt_logprobs b) i = None) \<and>
     (\<forall>k. slot_id b k = None \<longrightarrow> dict_get (ib_min_tokens b) k = None \<and> dict_get (ib_generators b) k = None \<and>
        dict_get (ib_bad_words_token_ids b) k = None)"

definition plain_ok :: "InputBatch \<Rightarrow> bool" where
  "plain_ok b \<longleftrightarrow> (\<forall>x \<in> set (ib_request_lora_mapping b). x = 0) \<and> (\<forall>x \<in> set (ib_logit_bias b). x = None) \<and>
     ib_allowed_mask b = None \<and> ib_has_allowed_token_ids b = {}"

definition batch_inv :: "InputBatch \<Rightarrow> bool" where
  "batch_inv b \<longleftrightarrow> arrays_ok b \<and> index_ok b \<and> rest_ok b \<and> plain_ok b"

definition plain_params :: "SamplingParams \<Rightarrow> bool" where
  "plain_params p \<longleftrightarrow> sp_logit_bias p = None \<and> sp_allowed_token_ids p = None"

definition fits_row :: "InputBatch \<Rightarrow> CachedRequestState \<Rightarrow> bool" where
  "fits_row b q \<longleftrightarrow> CachedRequestState_num_tokens q \<le> ib_max_model_len b \<and>
     length (cs_block_ids q) \<le> bt_max_num_blocks_per_req (ib_block_table b) \<and> plain_params (cs_sampling_params q) \<and> cs_lora_request q = None"

text \<open>The sizes of the batch, which no operation changes.\<close>

definition same_shape :: "InputBatch \<Rightarrow> InputBatch \<Rightarrow> bool" where
  "same_shape b b' \<longleftrightarrow> ib_max_num_reqs b' = ib_max_num_reqs b \<and> ib_max_model_len b' = ib_max_model_len b \<and>
     ib_vocab_size b' = ib_vocab_size b \<and>
     bt_max_num_blocks_per_req (ib_block_table b') = bt_max_num_blocks_per_req (ib_block_table b)"

lemma same_shape_refl [simp, intro]: "same_shape b b"
  by (simp add: same_shape_def)

lemma same_shape_trans: "same_shape a b \<Longrightarrow> same_shape b c \<Longrightarrow> same_shape a c"
  by (simp add: same_shape_def)

lemma index_unique: "index_ok b \<Longrightarrow> slot_id b k = Some i \<Longrightarrow> slot_id b l = Some i \<Longrightarrow> k = l"
  unfolding index_ok_def by (metis option.inject)

lemma slot_bound: "slot_id b k = Some i \<Longrightarrow> k < length (ib_req_ids b)"
  by (simp add: slot_id_def split: if_splits)

lemma slot_bound_max: "arrays_ok b \<Longrightarrow> slot_id b k = Some i \<Longrightarrow> k < ib_max_num_reqs b"
  using slot_bound[of b k i] by (simp add: arrays_ok_def Let_def)

lemma batch_of_Some_iff: "index_ok b \<Longrightarrow> batch_of b i = Some row \<longleftrightarrow> (\<exists>k. slot_id b k = Some i \<and> row = row_at b i k)"
  by (auto simp: batch_of_def index_ok_def)

lemma batch_of_slot: "index_ok b \<Longrightarrow> slot_id b k = Some i \<Longrightarrow> batch_of b i = Some (row_at b i k)"
  by (auto simp: batch_of_Some_iff)

lemma batch_of_None_iff: "batch_of b i = None \<longleftrightarrow> dict_get (ib_req_id_to_index b) i = None"
  by (simp add: batch_of_def)

lemma dom_batch_of: "dom (batch_of b) = set (dict_keys (ib_req_id_to_index b))"
  using dom_map_of_conv_image_fst[of "ib_req_id_to_index b"] by (auto simp: batch_of_def dom_def)

lemma np_assign_exact:
  assumes "a + length xs \<le> length row" "e = int (a + length xs)"
  shows "np_assign row (int a) e xs = Inr (take a row @ xs @ drop (a + length xs) row)"
proof -
  have "slice_index row (int a) = a" "slice_index row e = a + length xs" using assms by (simp_all add: slice_index_def)
  then show ?thesis by (simp add: np_assign_def)
qed

lemma index_ok_vacate:
  assumes "index_ok b" "slot_id b k = Some i" "slot_id b' = (slot_id b)(k := None)"
    "dict_get (ib_req_id_to_index b') = (dict_get (ib_req_id_to_index b))(i := None)" "dict_ok (ib_req_id_to_index b')"
  shows "index_ok b'"
proof -
  have iff: "dict_get (ib_req_id_to_index b) j = Some l \<longleftrightarrow> slot_id b l = Some j" for j l using assms(1) by (simp add: index_ok_def)
  have "dict_get (ib_req_id_to_index b') j = Some l \<longleftrightarrow> slot_id b' l = Some j" for j l
  proof (cases "j = i")
    case True
    then show ?thesis unfolding assms(3,4) using index_unique[OF assms(1,2), of l] by auto
  next
    case False
    then have "slot_id b l = Some j \<Longrightarrow> l \<noteq> k" using assms(2) by auto
    then show ?thesis unfolding assms(3,4) using False iff[of j l] by (cases "l = k") auto
  qed
  then show ?thesis using assms(5) by (simp add: index_ok_def)
qed

section \<open>Removing a request\<close>

lemma remove_request_absent: "dict_get (ib_req_id_to_index b) i = None \<Longrightarrow> InputBatch_remove_request i b = Inr (None, b)"
  by (simp add: InputBatch_remove_request_def)

lemma remove_request_ok:
  assumes inv: "batch_inv b" and k: "dict_get (ib_req_id_to_index b) i = Some k"
  shows "\<exists>b'. InputBatch_remove_request i b = Inr (Some k, b') \<and> batch_inv b' \<and> slot_id b' = (slot_id b)(k := None) \<and>
     batch_of b' = (batch_of b)(i := None) \<and> same_shape b b' \<and> length (ib_req_ids b') = length (ib_req_ids b)"
proof -
  have a: "arrays_ok b" and x: "index_ok b" and r: "rest_ok b" and p: "plain_ok b" using inv by (simp_all add: batch_inv_def)
  have s: "slot_id b k = Some i" using x k by (simp add: index_ok_def)
  have kn: "k < length (ib_req_ids b)" "k < ib_max_num_reqs b" using slot_bound[OF s] slot_bound_max[OF a s] .
  have lora: "ib_request_lora_mapping b ! k = 0" using p a kn by (simp add: plain_ok_def arrays_ok_def Let_def)
  define c where c: "c = b\<lparr>ib_req_id_to_index := dict_pop i (ib_req_id_to_index b), ib_req_ids := (ib_req_ids b)[k := None],
                     ib_req_output_token_ids := (ib_req_output_token_ids b)[k := None],
                     ib_greedy_reqs := ib_greedy_reqs b - {i}, ib_random_reqs := ib_random_reqs b - {i},
                     ib_top_p_reqs := ib_top_p_reqs b - {i}, ib_top_k_reqs := ib_top_k_reqs b - {i},
                     ib_min_p_reqs := ib_min_p_reqs b - {i}, ib_min_tokens := dict_pop k (ib_min_tokens b),
                     ib_frequency_penalties_reqs := ib_frequency_penalties_reqs b - {i},
                     ib_presence_penalties_reqs := ib_presence_penalties_reqs b - {i},
                     ib_repetition_penalties_reqs := ib_repetition_penalties_reqs b - {i},
                     ib_generators := dict_pop k (ib_generators b), ib_num_logprobs := dict_pop i (ib_num_logprobs b),
                     ib_num_prompt_logprobs := dict_pop i (ib_num_prompt_logprobs b)\<rparr>"
  define b' where b: "b' = c\<lparr>ib_logit_bias := (ib_logit_bias c)[k := None], ib_has_allowed_token_ids := ib_has_allowed_token_ids c - {i},
                     ib_allowed_mask := map_option (\<lambda>rows. rows[k := map (\<lambda>_. False) (rows ! k)]) (ib_allowed_mask c),
                     ib_bad_words_token_ids := dict_pop k (ib_bad_words_token_ids c)\<rparr>"
  have "ib_request_lora_mapping c ! k = 0" using lora by (simp add: c)
  then have "remove_lora i k c = Inr c" by (simp add: remove_lora_def)
  then have b': "InputBatch_remove_request i b = Inr (Some k, b')"
    by (simp only: InputBatch_remove_request_def k option.case Let_def c[symmetric] res_bind_simps b)
  note d = b c
  have s': "slot_id b' = (slot_id b)(k := None)" using kn unfolding d slot_id_def by (auto simp: fun_eq_iff nth_list_update)
  have "dict_get (ib_req_id_to_index b') = (dict_get (ib_req_id_to_index b))(i := None)" "dict_ok (ib_req_id_to_index b')"
    using x by (simp_all add: d index_ok_def)
  then have x': "index_ok b'" by (rule index_ok_vacate[OF x s s'])
  have o: "batch_of b' j = ((batch_of b)(i := None)) j" for j
  proof (cases "batch_of b j")
    case None
    then show ?thesis by (simp add: batch_of_def d)
  next
    case (Some row)
    then obtain l where l: "slot_id b l = Some j" "row = row_at b j l" using batch_of_Some_iff[OF x] by auto
    show ?thesis
    proof (cases "j = i")
      case True
      then show ?thesis by (simp add: batch_of_def d)
    next
      case False
      then have lk: "l \<noteq> k" using l(1) s by auto
      then have "batch_of b' j = Some (row_at b' j l)" using batch_of_slot[OF x'] l(1) by (simp add: s')
      also have "row_at b' j l = row_at b j l" using lk False by (simp add: row_at_def d classes_of_def)
      finally show ?thesis using False Some l(2) by simp
    qed
  qed
  have "arrays_ok b'" using a by (simp add: arrays_ok_def d Let_def)
  moreover have "rest_ok b'" using r unfolding rest_ok_def s' by (simp add: d classes_of_def)
  moreover have "plain_ok b'" using p unfolding plain_ok_def by (auto simp: d dest!: set_update_subset_insert[THEN subsetD])
  ultimately have "batch_inv b'" using x' by (simp add: batch_inv_def)
  moreover have "same_shape b b'" "length (ib_req_ids b') = length (ib_req_ids b)" by (simp_all add: d same_shape_def)
  moreover have "batch_of b' = (batch_of b)(i := None)" using o by (rule ext)
  ultimately show ?thesis using b' s' by (intro exI[of _ b'] conjI)
qed

section \<open>Adding a request\<close>

lemma index_ok_occupy:
  assumes "index_ok b" "slot_id b k = None" "dict_get (ib_req_id_to_index b) i = None" "slot_id b' = (slot_id b)(k \<mapsto> i)"
    "dict_get (ib_req_id_to_index b') = (dict_get (ib_req_id_to_index b))(i \<mapsto> k)" "dict_ok (ib_req_id_to_index b')"
  shows "index_ok b'"
proof -
  have iff: "dict_get (ib_req_id_to_index b) j = Some l \<longleftrightarrow> slot_id b l = Some j" for j l using assms(1) by (simp add: index_ok_def)
  have "dict_get (ib_req_id_to_index b') j = Some l \<longleftrightarrow> slot_id b' l = Some j" for j l
    unfolding assms(4,5) using iff[of j l] iff[of i l] iff[of j k] assms(2,3) by (cases "j = i"; cases "l = k") auto
  then show ?thesis using assms(6) by (simp add: index_ok_def)
qed

lemma place_request_ok:
  assumes "k \<le> length (ib_req_ids b)" "length (ib_req_output_token_ids b) = length (ib_req_ids b)"
  shows "\<exists>ids outs. place_request i st k b = Inr (b\<lparr>ib_req_ids := ids, ib_req_output_token_ids := outs,
       ib_req_id_to_index := dict_set i k (ib_req_id_to_index b)\<rparr>) \<and>
     length ids = max (length (ib_req_ids b)) (Suc k) \<and> length outs = length ids \<and>
     (\<forall>l. (if l < length ids then ids ! l else None) = ((slot_id b)(k \<mapsto> i)) l) \<and>
     outs ! k = Some st \<and> (\<forall>l. l \<noteq> k \<longrightarrow> l < length (ib_req_ids b) \<longrightarrow> outs ! l = ib_req_output_token_ids b ! l)"
proof (cases "k = length (ib_req_ids b)")
  case True
  then show ?thesis using assms
    by (intro exI[of _ "ib_req_ids b @ [Some i]"] exI[of _ "ib_req_output_token_ids b @ [Some st]"])
       (auto simp: place_request_def slot_id_def nth_append)
next
  case False
  then show ?thesis using assms
    by (intro exI[of _ "(ib_req_ids b)[k := Some i]"] exI[of _ "(ib_req_output_token_ids b)[k := Some st]"])
       (auto simp: place_request_def slot_id_def nth_list_update)
qed

lemma table_add_row_ok:
  assumes "table_ok n t" "k < n" "length ids \<le> bt_max_num_blocks_per_req t"
  shows "\<exists>t'. BlockTable_add_row ids k t = Inr t' \<and> table_ok n t' \<and> bt_max_num_blocks_per_req t' = bt_max_num_blocks_per_req t \<and>
     (\<forall>l < n. take (bt_num_blocks_per_row t' ! l) (bt_rows t' ! l) =
        (if l = k then ids else take (bt_num_blocks_per_row t ! l) (bt_rows t ! l)))"
proof (cases "ids = []")
  case True
  then show ?thesis using assms
    by (auto simp: BlockTable_add_row_def BlockTable_append_row_def table_ok_def nth_list_update dest!: set_update_subset_insert[THEN subsetD])
next
  case False
  define row where "row = bt_rows t ! k"
  have l: "length row = bt_max_num_blocks_per_req t" using assms(1,2) by (simp add: row_def table_ok_def)
  have "np_assign row (int 0) (int (0 + length ids)) ids = Inr (take 0 row @ ids @ drop (0 + length ids) row)"
    by (rule np_assign_exact) (use assms(3) l in simp_all)
  then have "BlockTable_add_row ids k t = Inr (t\<lparr>bt_num_blocks_per_row := (bt_num_blocks_per_row t)[k := length ids],
      bt_rows := (bt_rows t)[k := ids @ drop (length ids) row]\<rparr>)"
    using False assms(1,2) by (simp add: BlockTable_add_row_def BlockTable_append_row_def table_ok_def row_def[symmetric] Let_def)
  then show ?thesis using assms l
    by (auto simp: table_ok_def nth_list_update dest!: set_update_subset_insert[THEN subsetD])
qed

lemma copy_tokens_ok:
  assumes a: "arrays_ok b" and k: "k < ib_max_num_reqs b" and q: "fits_row b q"
  shows "\<exists>row t. copy_tokens q k b = Inr (b\<lparr>ib_num_prompt_tokens := (ib_num_prompt_tokens b)[k := length (cs_prompt_token_ids q)],
         ib_token_ids := (ib_token_ids b)[k := row], ib_num_tokens := (ib_num_tokens b)[k := int (CachedRequestState_num_tokens q)],
         ib_num_tokens_no_spec := (ib_num_tokens_no_spec b)[k := int (CachedRequestState_num_tokens q)],
         ib_num_computed_tokens := (ib_num_computed_tokens b)[k := cs_num_computed_tokens q], ib_block_table := t\<rparr>) \<and>
     length row = ib_max_model_len b \<and>
     take (CachedRequestState_num_tokens q) row = cs_prompt_token_ids q @ cs_output_token_ids q \<and>
     table_ok (ib_max_num_reqs b) t \<and> bt_max_num_blocks_per_req t = bt_max_num_blocks_per_req (ib_block_table b) \<and>
     (\<forall>l < ib_max_num_reqs b. take (bt_num_blocks_per_row t ! l) (bt_rows t ! l) =
        (if l = k then cs_block_ids q else take (bt_num_blocks_per_row (ib_block_table b) ! l) (bt_rows (ib_block_table b) ! l)))"
proof -
  define row where "row = ib_token_ids b ! k"
  define p where "p = cs_prompt_token_ids q"
  define o' where "o' = cs_output_token_ids q"
  have n: "CachedRequestState_num_tokens q = length p + length o'" by (simp add: CachedRequestState_num_tokens_def p_def o'_def)
  have L: "length row = ib_max_model_len b" using a k by (simp add: arrays_ok_def Let_def row_def)
  have le: "length p + length o' \<le> length row" using q n L by (simp add: fits_row_def)
  have tab: "table_ok (ib_max_num_reqs b) (ib_block_table b)" using a by (simp add: arrays_ok_def Let_def)
  obtain t where t: "BlockTable_add_row (cs_block_ids q) k (ib_block_table b) = Inr t" "table_ok (ib_max_num_reqs b) t"
    "bt_max_num_blocks_per_req t = bt_max_num_blocks_per_req (ib_block_table b)"
    "\<forall>l < ib_max_num_reqs b. take (bt_num_blocks_per_row t ! l) (bt_rows t ! l) =
        (if l = k then cs_block_ids q else take (bt_num_blocks_per_row (ib_block_table b) ! l) (bt_rows (ib_block_table b) ! l))"
    using table_add_row_ok[OF tab k] q by (auto simp: fits_row_def)
  have 1: "np_assign row 0 (int (length p)) p = Inr (p @ drop (length p) row)"
    using np_assign_exact[of 0 p row "int (length p)"] le by simp
  have 2: "np_assign (p @ drop (length p) row) (int (length p)) (int (length p + length o')) o' =
      Inr (p @ o' @ drop (length p + length o') row)"
    using np_assign_exact[of "length p" o' "p @ drop (length p) row" "int (length p + length o')"] le by (simp add: add.commute)
  have "copy_tokens q k b = Inr (b\<lparr>ib_num_prompt_tokens := (ib_num_prompt_tokens b)[k := length (cs_prompt_token_ids q)],
         ib_token_ids := (ib_token_ids b)[k := p @ o' @ drop (length p + length o') row],
         ib_num_tokens := (ib_num_tokens b)[k := int (CachedRequestState_num_tokens q)],
         ib_num_tokens_no_spec := (ib_num_tokens_no_spec b)[k := int (CachedRequestState_num_tokens q)],
         ib_num_computed_tokens := (ib_num_computed_tokens b)[k := cs_num_computed_tokens q], ib_block_table := t\<rparr>)"
    by (simp only: copy_tokens_def Let_def p_def[symmetric] o'_def[symmetric] row_def[symmetric] 1 2 t(1) res_bind_simps of_nat_add[symmetric])
  then show ?thesis using t(2-4) le L n
    by (intro exI[of _ "p @ o' @ drop (length p + length o') row"] exI[of _ t] conjI) (simp_all add: p_def o'_def)
qed

lemma batch_add_request_ok:
  assumes inv: "batch_inv b" and q: "fits_row b q" and fresh: "dict_get (ib_req_id_to_index b) (cs_req_id q) = None"
    and k: "k = (case req_index of None \<Rightarrow> InputBatch_num_reqs b | Some k \<Rightarrow> k)" "k < ib_max_num_reqs b"
      "k \<le> length (ib_req_ids b)" "slot_id b k = None"
  shows "\<exists>b'. InputBatch_add_request q st req_index b = Inr b' \<and> batch_inv b' \<and> slot_id b' = (slot_id b)(k \<mapsto> cs_req_id q) \<and>
     batch_of b' = (batch_of b)(cs_req_id q \<mapsto> fresh_row q st (ib_vocab_size b)) \<and> same_shape b b' \<and>
     length (ib_req_ids b') = max (length (ib_req_ids b)) (Suc k)"
proof -
  define i where "i = cs_req_id q"
  define p where "p = cs_sampling_params q"
  have a: "arrays_ok b" and x: "index_ok b" and r: "rest_ok b" and pl: "plain_ok b" using inv by (simp_all add: batch_inv_def)
  obtain ids outs where po: "place_request i st k b = Inr (b\<lparr>ib_req_ids := ids, ib_req_output_token_ids := outs,
       ib_req_id_to_index := dict_set i k (ib_req_id_to_index b)\<rparr>)"
    and ids: "length ids = max (length (ib_req_ids b)) (Suc k)" "\<forall>l. (if l < length ids then ids ! l else None) = ((slot_id b)(k \<mapsto> i)) l"
    and outs: "length outs = length ids" "outs ! k = Some st" "\<forall>l. l \<noteq> k \<longrightarrow> l < length (ib_req_ids b) \<longrightarrow> outs ! l = ib_req_output_token_ids b ! l"
    using place_request_ok[OF k(3), of i st] a unfolding arrays_ok_def Let_def by blast
  define b1 where "b1 = b\<lparr>ib_req_ids := ids, ib_req_output_token_ids := outs, ib_req_id_to_index := dict_set i k (ib_req_id_to_index b)\<rparr>"
  have "arrays_ok b1" using a ids(1) outs(1) k(2) unfolding arrays_ok_def Let_def b1_def by simp
  moreover have "k < ib_max_num_reqs b1" "fits_row b1 q" using k(2) q by (simp_all add: b1_def fits_row_def)
  ultimately obtain row t where ct: "copy_tokens q k b1 = Inr (b1\<lparr>ib_num_prompt_tokens := (ib_num_prompt_tokens b1)[k := length (cs_prompt_token_ids q)],
         ib_token_ids := (ib_token_ids b1)[k := row], ib_num_tokens := (ib_num_tokens b1)[k := int (CachedRequestState_num_tokens q)],
         ib_num_tokens_no_spec := (ib_num_tokens_no_spec b1)[k := int (CachedRequestState_num_tokens q)],
         ib_num_computed_tokens := (ib_num_computed_tokens b1)[k := cs_num_computed_tokens q], ib_block_table := t\<rparr>)"
    and row: "length row = ib_max_model_len b1" "take (CachedRequestState_num_tokens q) row = cs_prompt_token_ids q @ cs_output_token_ids q"
    and t: "table_ok (ib_max_num_reqs b1) t" "bt_max_num_blocks_per_req t = bt_max_num_blocks_per_req (ib_block_table b1)"
     "\<forall>l < ib_max_num_reqs b1. take (bt_num_blocks_per_row t ! l) (bt_rows t ! l) =
        (if l = k then cs_block_ids q else take (bt_num_blocks_per_row (ib_block_table b1) ! l) (bt_rows (ib_block_table b1) ! l))"
    using copy_tokens_ok[of b1 k q] by blast
  define b2 where "b2 = b1\<lparr>ib_num_prompt_tokens := (ib_num_prompt_tokens b1)[k := length (cs_prompt_token_ids q)],
         ib_token_ids := (ib_token_ids b1)[k := row], ib_num_tokens := (ib_num_tokens b1)[k := int (CachedRequestState_num_tokens q)],
         ib_num_tokens_no_spec := (ib_num_tokens_no_spec b1)[k := int (CachedRequestState_num_tokens q)],
         ib_num_computed_tokens := (ib_num_computed_tokens b1)[k := cs_num_computed_tokens q], ib_block_table := t\<rparr>"
  define b3 where "b3 = note_sampling i p (b2\<lparr>ib_cpu := set_sampling_row p (ib_vocab_size b2) k (ib_cpu b2)\<rparr>)"
  define b4 where "b4 = note_options q k b3"
  define b5 where "b5 = set_lora q k b4"
  have params: "sp_logit_bias p = None" "sp_allowed_token_ids p = None" "cs_lora_request q = None"
    using q by (simp_all add: fits_row_def plain_params_def p_def)
  have run: "InputBatch_add_request q st req_index b = Inr b5"
    using params(2) k(2) unfolding InputBatch_add_request_def Let_def k(1)[symmetric]
    by (simp add: i_def[symmetric] po b1_def[symmetric] ct b2_def[symmetric] p_def[symmetric] b3_def[symmetric] b4_def[symmetric]
      b5_def[symmetric] set_allowed_mask_def del: InputBatch.update_defs)
  note d = b5_def b4_def b3_def b2_def b1_def set_lora_def note_options_def note_sampling_def params params(1)[unfolded p_def] Let_def
  have sel: "ib_req_ids b5 = ids" "ib_req_output_token_ids b5 = outs" "ib_req_id_to_index b5 = dict_set i k (ib_req_id_to_index b)"
    "ib_max_num_reqs b5 = ib_max_num_reqs b" "ib_max_model_len b5 = ib_max_model_len b" "ib_vocab_size b5 = ib_vocab_size b"
    "ib_token_ids b5 = (ib_token_ids b)[k := row]" "ib_block_table b5 = t" "ib_device b5 = ib_device b"
    "ib_num_tokens b5 = (ib_num_tokens b)[k := int (CachedRequestState_num_tokens q)]"
    "ib_num_tokens_no_spec b5 = (ib_num_tokens_no_spec b)[k := int (CachedRequestState_num_tokens q)]"
    "ib_num_prompt_tokens b5 = (ib_num_prompt_tokens b)[k := length (cs_prompt_token_ids q)]"
    "ib_num_computed_tokens b5 = (ib_num_computed_tokens b)[k := cs_num_computed_tokens q]"
    "ib_cpu b5 = set_sampling_row p (ib_vocab_size b) k (ib_cpu b)"
    "ib_logit_bias b5 = ib_logit_bias b" "ib_request_lora_mapping b5 = (ib_request_lora_mapping b)[k := 0]"
    "ib_allowed_mask b5 = ib_allowed_mask b" "ib_has_allowed_token_ids b5 = ib_has_allowed_token_ids b"
    by (simp_all add: d)
  have cls: "classes_of b5 j = (if j = i then map2 (\<or>) (sampling_classes p (ib_vocab_size b)) (classes_of b i) else classes_of b j)" for j
    by (auto simp: d classes_of_def sampling_classes_def add_if_def)
  have opt: "dict_get (ib_min_tokens b5) =
      (if sp_min_tokens p \<noteq> 0 then (dict_get (ib_min_tokens b))(k \<mapsto> (sp_min_tokens p, sp_all_stop_token_ids p)) else dict_get (ib_min_tokens b))"
    "dict_get (ib_generators b5) = (case cs_generator q of Some g \<Rightarrow> (dict_get (ib_generators b))(k \<mapsto> g) | None \<Rightarrow> dict_get (ib_generators b))"
    "dict_get (ib_num_logprobs b5) = (case sp_logprobs p of Some n \<Rightarrow> (dict_get (ib_num_logprobs b))(i \<mapsto> n) | None \<Rightarrow> dict_get (ib_num_logprobs b))"
    "dict_get (ib_num_prompt_logprobs b5) =
      (case sp_prompt_logprobs p of Some n \<Rightarrow> (dict_get (ib_num_prompt_logprobs b))(i \<mapsto> n) | None \<Rightarrow> dict_get (ib_num_prompt_logprobs b))"
    "dict_get (ib_bad_words_token_ids b5) = (dict_get (ib_bad_words_token_ids b))(k \<mapsto> sp_bad_words_token_ids p)"
    by (simp_all add: d i_def p_def split: option.split)
  have s5: "slot_id b5 = (slot_id b)(k \<mapsto> i)"
  proof
    fix l
    show "slot_id b5 l = ((slot_id b)(k \<mapsto> i)) l" unfolding slot_id_def[of b5 l] sel by (rule ids(2)[rule_format])
  qed
  have fr: "dict_get (ib_req_id_to_index b) i = None" using fresh by (simp add: i_def)
  have "dict_get (ib_req_id_to_index b5) = (dict_get (ib_req_id_to_index b))(i \<mapsto> k)" "dict_ok (ib_req_id_to_index b5)"
    using x by (simp_all add: sel index_ok_def)
  then have x5: "index_ok b5" by (rule index_ok_occupy[OF x k(4) fr s5])
  have n: "length (ib_req_ids b) \<le> ib_max_num_reqs b" "tensors_ok (ib_max_num_reqs b) (ib_cpu b)"
    "\<forall>row \<in> set (ib_token_ids b). length row = ib_max_model_len b" using a by (simp_all add: arrays_ok_def Let_def)
  have "\<forall>row \<in> set (ib_token_ids b5). length row = ib_max_model_len b5"
    using n(3) row(1) set_update_subset_insert[of "ib_token_ids b" k row] unfolding sel by (auto simp: b1_def)
  moreover have "tensors_ok (ib_max_num_reqs b) (ib_cpu b5)" using n(2) by (simp add: tensors_ok_def set_sampling_row_def sel)
  ultimately have a5: "arrays_ok b5" using a n(1) k(2) ids(1) outs(1) t(1) by (simp add: arrays_ok_def sel Let_def b1_def)
  have "x = 0" if "x \<in> set ((ib_request_lora_mapping b)[k := 0])" for x
    using that pl set_update_subset_insert[of "ib_request_lora_mapping b" k 0] by (auto simp: plain_ok_def)
  then have p5: "plain_ok b5" using pl unfolding plain_ok_def sel by blast
  have r5: "rest_ok b5"
    using r unfolding rest_ok_def s5 sel dict_get_set cls opt by (auto split: option.split)
  have new: "row_at b5 i k = fresh_row q st (ib_vocab_size b)"
  proof -
    have none: "True \<notin> set (classes_of b i)" "dict_get (ib_num_logprobs b) i = None" "dict_get (ib_num_prompt_logprobs b) i = None"
      "dict_get (ib_min_tokens b) k = None" "dict_get (ib_generators b) k = None"
      using r fr k(4) by (simp_all add: rest_ok_def)
    have "map2 (\<or>) (sampling_classes p (ib_vocab_size b)) (classes_of b i) = sampling_classes p (ib_vocab_size b)"
      using none(1) by (simp add: classes_of_def sampling_classes_def)
    moreover have "tensor_row (ib_cpu b5) k = sampling_row p (ib_vocab_size b)"
      using n(2) k(2) by (simp add: sel set_sampling_row_def tensor_row_def sampling_row_def tensors_ok_def)
    ultimately show ?thesis using a k(2) none(2-) outs(2) row(2) t(3)
      by (simp add: row_at_def fresh_row_def cls opt arrays_ok_def Let_def p_def[symmetric] sel b1_def split: option.split)
  qed
  have old: "row_at b5 j l = row_at b j l" if "j \<noteq> i" "l \<noteq> k" "slot_id b l = Some j" for j l
  proof -
    have "tensor_row (ib_cpu b5) l = tensor_row (ib_cpu b) l" using that(2) by (simp add: sel set_sampling_row_def tensor_row_def)
    then show ?thesis using that outs(3) t(3) slot_bound[OF that(3)] slot_bound_max[OF a that(3)]
      by (simp add: row_at_def cls opt sel b1_def split: option.split)
  qed
  have "batch_of b5 j = ((batch_of b)(i \<mapsto> fresh_row q st (ib_vocab_size b))) j" for j
  proof (cases "j = i")
    case True
    then show ?thesis using batch_of_slot[OF x5, of k i] new by (simp add: s5)
  next
    case False
    show ?thesis
    proof (cases "batch_of b j")
      case None
      then show ?thesis using False by (simp add: batch_of_def sel)
    next
      case (Some br)
      then obtain l where l: "slot_id b l = Some j" "br = row_at b j l" using batch_of_Some_iff[OF x] by auto
      then have "l \<noteq> k" using k(4) by auto
      then show ?thesis using batch_of_slot[OF x5, of l j] l False old[OF False _ l(1)] Some by (simp add: s5)
    qed
  qed
  then have "batch_of b5 = (batch_of b)(i \<mapsto> fresh_row q st (ib_vocab_size b))" by (rule ext)
  moreover have "batch_inv b5" using a5 x5 r5 p5 by (simp add: batch_inv_def)
  moreover have "same_shape b b5" "length (ib_req_ids b5) = max (length (ib_req_ids b)) (Suc k)"
    using ids(1) t(2) by (simp_all add: sel b1_def same_shape_def)
  ultimately show ?thesis using run s5 unfolding i_def by (intro exI[of _ b5] conjI)
qed

section \<open>Moving a row\<close>

definition counts_ok :: "InputBatch \<Rightarrow> bool" where
  "counts_ok b \<longleftrightarrow> (\<forall>i row. batch_of b i = Some row \<longrightarrow> 0 \<le> br_num_tokens row \<and> br_num_tokens row \<le> int (ib_max_model_len b))"

lemma index_ok_move:
  assumes "index_ok b" "slot_id b src = Some i" "slot_id b tgt = None" "slot_id b' = (slot_id b)(tgt \<mapsto> i, src := None)"
    "dict_get (ib_req_id_to_index b') = (dict_get (ib_req_id_to_index b))(i \<mapsto> tgt)" "dict_ok (ib_req_id_to_index b')"
  shows "index_ok b'"
proof -
  have ne: "tgt \<noteq> src" using assms(2,3) by auto
  have iff: "dict_get (ib_req_id_to_index b) j = Some l \<longleftrightarrow> slot_id b l = Some j" for j l using assms(1) by (simp add: index_ok_def)
  have "dict_get (ib_req_id_to_index b') j = Some l \<longleftrightarrow> slot_id b' l = Some j" for j l
  proof (cases "j = i")
    case True
    then show ?thesis unfolding assms(4,5) using index_unique[OF assms(1,2), of l] ne by auto
  next
    case False
    then show ?thesis unfolding assms(4,5) using iff[of j l] iff[of j tgt] assms(2,3) by auto
  qed
  then show ?thesis using assms(6) by (simp add: index_ok_def)
qed

lemma table_move_row_ok:
  assumes "table_ok n t" "src < n" "tgt < n"
  shows "table_ok n (BlockTable_move_row src tgt t)"
    "bt_max_num_blocks_per_req (BlockTable_move_row src tgt t) = bt_max_num_blocks_per_req t"
    "l < n \<Longrightarrow> take (bt_num_blocks_per_row (BlockTable_move_row src tgt t) ! l) (bt_rows (BlockTable_move_row src tgt t) ! l) =
       (if l = tgt then take (bt_num_blocks_per_row t ! src) (bt_rows t ! src) else take (bt_num_blocks_per_row t ! l) (bt_rows t ! l))"
proof -
  let ?n = "bt_num_blocks_per_row t ! src"
  have l: "length (bt_rows t ! src) = bt_max_num_blocks_per_req t" "length (bt_rows t ! tgt) = bt_max_num_blocks_per_req t"
    "?n \<le> bt_max_num_blocks_per_req t" using assms by (simp_all add: table_ok_def)
  show "table_ok n (BlockTable_move_row src tgt t)"
    using assms l unfolding table_ok_def
    by (auto simp: BlockTable_move_row_def Let_def dest!: set_update_subset_insert[THEN subsetD])
  show "bt_max_num_blocks_per_req (BlockTable_move_row src tgt t) = bt_max_num_blocks_per_req t"
    by (simp add: BlockTable_move_row_def Let_def)
  show "l < n \<Longrightarrow> take (bt_num_blocks_per_row (BlockTable_move_row src tgt t) ! l) (bt_rows (BlockTable_move_row src tgt t) ! l) =
       (if l = tgt then take (bt_num_blocks_per_row t ! src) (bt_rows t ! src) else take (bt_num_blocks_per_row t ! l) (bt_rows t ! l))"
    using assms l by (simp add: BlockTable_move_row_def Let_def nth_list_update table_ok_def)
qed

lemma move_dict_value_get:
  assumes "dict_get d tgt = None" "src \<noteq> tgt"
  shows "dict_get (move_dict_value src tgt d) = (dict_get d)(tgt := dict_get d src, src := None)"
  using assms by (auto simp: move_dict_value_def fun_eq_iff split: option.split)

lemma move_row_ok:
  assumes inv: "batch_inv b" and src: "slot_id b src = Some i" and tgt: "slot_id b tgt = None" "tgt < src" and c: "counts_ok b"
  shows "\<exists>b'. move_row src tgt b = Inr b' \<and> batch_inv b' \<and> slot_id b' = (slot_id b)(tgt \<mapsto> i, src := None) \<and>
     batch_of b' = batch_of b \<and> same_shape b b' \<and> length (ib_req_ids b') = length (ib_req_ids b) \<and> InputBatch_num_reqs b' = InputBatch_num_reqs b"
proof -
  have a: "arrays_ok b" and x: "index_ok b" and r: "rest_ok b" and pl: "plain_ok b" using inv by (simp_all add: batch_inv_def)
  have l: "src < length (ib_req_ids b)" "tgt < length (ib_req_ids b)" "src < ib_max_num_reqs b" "tgt < ib_max_num_reqs b"
    using slot_bound[OF src] slot_bound_max[OF a src] tgt(2) by simp_all
  have id: "ib_req_ids b ! src = Some i" using src l by (simp add: slot_id_def)
  define n where "n = ib_num_tokens b ! src"
  have nt: "br_num_tokens (row_at b i src) = n" by (simp add: row_at_def n_def)
  have n: "0 \<le> n" "n \<le> int (ib_max_model_len b)"
    using c batch_of_slot[OF x src] nt unfolding counts_ok_def by fastforce+
  have L: "length (ib_token_ids b ! src) = ib_max_model_len b" "length (ib_token_ids b ! tgt) = ib_max_model_len b"
    using a l by (simp_all add: arrays_ok_def Let_def)
  define row where "row = take (nat n) (ib_token_ids b ! src) @ drop (nat n) (ib_token_ids b ! tgt)"
  have sl: "py_slice (ib_token_ids b ! src) 0 n = take (nat n) (ib_token_ids b ! src)"
    using py_slice_nat[of "ib_token_ids b ! src" 0 "nat n"] n by simp
  have np: "np_assign (ib_token_ids b ! tgt) 0 n (py_slice (ib_token_ids b ! src) 0 n) = Inr row"
    using np_assign_exact[of 0 "take (nat n) (ib_token_ids b ! src)" "ib_token_ids b ! tgt" n] n L unfolding sl row_def by simp
  define t where "t = BlockTable_move_row src tgt (ib_block_table b)"
  define b' where "b' = b\<lparr>ib_req_ids := (ib_req_ids b)[tgt := Some i, src := None],
                 ib_req_output_token_ids := (ib_req_output_token_ids b)[tgt := ib_req_output_token_ids b ! src, src := None],
                 ib_req_id_to_index := dict_set i tgt (ib_req_id_to_index b), ib_token_ids := (ib_token_ids b)[tgt := row],
                 ib_num_tokens := (ib_num_tokens b)[tgt := n],
                 ib_num_tokens_no_spec := (ib_num_tokens_no_spec b)[tgt := ib_num_tokens_no_spec b ! src],
                 ib_num_prompt_tokens := (ib_num_prompt_tokens b)[tgt := ib_num_prompt_tokens b ! src],
                 ib_num_computed_tokens := (ib_num_computed_tokens b)[tgt := ib_num_computed_tokens b ! src],
                 ib_block_table := t, ib_cpu := move_tensors src tgt (ib_cpu b),
                 ib_generators := move_dict_value src tgt (ib_generators b), ib_min_tokens := move_dict_value src tgt (ib_min_tokens b),
                 ib_request_lora_mapping := (ib_request_lora_mapping b)[tgt := ib_request_lora_mapping b ! src],
                 ib_logit_bias := (ib_logit_bias b)[tgt := ib_logit_bias b ! src],
                 ib_allowed_mask := map_option (\<lambda>rows. rows[tgt := rows ! src]) (ib_allowed_mask b),
                 ib_bad_words_token_ids := move_dict_value src tgt (ib_bad_words_token_ids b)\<rparr>"
  have run: "move_row src tgt b = Inr b'"
    by (simp only: move_row_def id option.case Let_def n_def[symmetric] np res_bind_simps b'_def t_def)
  have sel: "ib_req_ids b' = (ib_req_ids b)[tgt := Some i, src := None]"
    "ib_req_output_token_ids b' = (ib_req_output_token_ids b)[tgt := ib_req_output_token_ids b ! src, src := None]"
    "ib_req_id_to_index b' = dict_set i tgt (ib_req_id_to_index b)" "ib_token_ids b' = (ib_token_ids b)[tgt := row]"
    "ib_num_tokens b' = (ib_num_tokens b)[tgt := n]"
    "ib_num_tokens_no_spec b' = (ib_num_tokens_no_spec b)[tgt := ib_num_tokens_no_spec b ! src]"
    "ib_num_prompt_tokens b' = (ib_num_prompt_tokens b)[tgt := ib_num_prompt_tokens b ! src]"
    "ib_num_computed_tokens b' = (ib_num_computed_tokens b)[tgt := ib_num_computed_tokens b ! src]"
    "ib_block_table b' = t" "ib_cpu b' = move_tensors src tgt (ib_cpu b)" "ib_device b' = ib_device b"
    "ib_request_lora_mapping b' = (ib_request_lora_mapping b)[tgt := ib_request_lora_mapping b ! src]"
    "ib_logit_bias b' = (ib_logit_bias b)[tgt := ib_logit_bias b ! src]" "ib_has_allowed_token_ids b' = ib_has_allowed_token_ids b"
    "ib_allowed_mask b' = map_option (\<lambda>rows. rows[tgt := rows ! src]) (ib_allowed_mask b)"
    "ib_max_num_reqs b' = ib_max_num_reqs b" "ib_max_model_len b' = ib_max_model_len b" "ib_vocab_size b' = ib_vocab_size b"
    "ib_num_logprobs b' = ib_num_logprobs b" "ib_num_prompt_logprobs b' = ib_num_prompt_logprobs b"
    by (simp_all add: b'_def)
  have cls: "classes_of b' = classes_of b" by (simp add: b'_def classes_of_def fun_eq_iff)
  have holes: "dict_get (ib_generators b) tgt = None" "dict_get (ib_min_tokens b) tgt = None" "dict_get (ib_bad_words_token_ids b) tgt = None"
    using r tgt(1) by (simp_all add: rest_ok_def)
  have opt: "dict_get (ib_generators b') = (dict_get (ib_generators b))(tgt := dict_get (ib_generators b) src, src := None)"
    "dict_get (ib_min_tokens b') = (dict_get (ib_min_tokens b))(tgt := dict_get (ib_min_tokens b) src, src := None)"
    "dict_get (ib_bad_words_token_ids b') = (dict_get (ib_bad_words_token_ids b))(tgt := dict_get (ib_bad_words_token_ids b) src, src := None)"
    using move_dict_value_get[OF holes(1), of src] move_dict_value_get[OF holes(2), of src] move_dict_value_get[OF holes(3), of src] tgt(2)
    by (simp_all add: b'_def)
  have tab: "table_ok (ib_max_num_reqs b) (ib_block_table b)" using a by (simp add: arrays_ok_def Let_def)
  note tr = table_move_row_ok[OF tab l(3,4), folded t_def]
  have s': "slot_id b' = (slot_id b)(tgt \<mapsto> i, src := None)"
    using l tgt(2) by (auto simp: slot_id_def sel fun_eq_iff nth_list_update)
  have "dict_get (ib_req_id_to_index b') = (dict_get (ib_req_id_to_index b))(i \<mapsto> tgt)" "dict_ok (ib_req_id_to_index b')"
    using x by (simp_all add: sel index_ok_def)
  then have x': "index_ok b'" by (rule index_ok_move[OF x src tgt(1) s'])
  have a_parts: "tensors_ok (ib_max_num_reqs b) (ib_cpu b)" "\<forall>row \<in> set (ib_token_ids b). length row = ib_max_model_len b"
    using a by (simp_all add: arrays_ok_def Let_def)
  have "length row = ib_max_model_len b" using L n by (simp add: row_def)
  then have "\<forall>row \<in> set (ib_token_ids b'). length row = ib_max_model_len b'"
    using a_parts(2) set_update_subset_insert[of "ib_token_ids b" tgt row] unfolding sel by auto
  moreover have "tensors_ok (ib_max_num_reqs b) (ib_cpu b')" using a_parts(1) by (simp add: tensors_ok_def move_tensors_def sel)
  ultimately have a': "arrays_ok b'" using a tr(1) by (simp add: arrays_ok_def sel Let_def)
  have z: "ib_request_lora_mapping b ! src = 0" "ib_logit_bias b ! src = None"
    using pl a l by (simp_all add: plain_ok_def arrays_ok_def Let_def)
  have p': "plain_ok b'"
    using pl set_update_subset_insert[of "ib_request_lora_mapping b" tgt 0] set_update_subset_insert[of "ib_logit_bias b" tgt None]
    unfolding plain_ok_def sel z by auto
  have r': "rest_ok b'" using r tgt(2) unfolding rest_ok_def s' sel cls opt by auto
  have moved: "row_at b' i tgt = row_at b i src"
  proof -
    have "tensor_row (ib_cpu b') tgt = tensor_row (ib_cpu b) src" using a_parts(1) l by (simp add: sel move_tensors_def tensor_row_def tensors_ok_def)
    moreover have "take (nat n) row = take (nat n) (ib_token_ids b ! src)" using L n by (simp add: row_def)
    ultimately show ?thesis using a l tgt(2) tr(3)[of tgt]
      by (simp add: row_at_def cls opt sel arrays_ok_def Let_def n_def[symmetric])
  qed
  have kept: "row_at b' j k = row_at b j k" if "j \<noteq> i" "slot_id b k = Some j" for j k
  proof -
    have k: "k \<noteq> tgt" "k \<noteq> src" "k < ib_max_num_reqs b" using that src tgt slot_bound_max[OF a that(2)] by auto
    then have "tensor_row (ib_cpu b') k = tensor_row (ib_cpu b) k" by (simp add: sel move_tensors_def tensor_row_def)
    then show ?thesis using k tr(3)[of k] by (simp add: row_at_def cls opt sel)
  qed
  have idx: "dict_get (ib_req_id_to_index b) i = Some src" using x src by (simp add: index_ok_def)
  have "batch_of b' j = batch_of b j" for j
  proof (cases "batch_of b j")
    case None
    then show ?thesis using idx by (auto simp: batch_of_def sel)
  next
    case (Some br)
    then obtain k where k: "slot_id b k = Some j" "br = row_at b j k" using batch_of_Some_iff[OF x] by auto
    show ?thesis
    proof (cases "j = i")
      case True
      then have "k = src" using index_unique[OF x] k(1) src by blast
      then show ?thesis using batch_of_slot[OF x', of tgt j] moved k Some True tgt(2) by (simp add: s')
    next
      case False
      then have "k \<noteq> tgt" "k \<noteq> src" using k(1) src tgt(1) by auto
      then show ?thesis using batch_of_slot[OF x', of k j] kept[OF False k(1)] k Some by (simp add: s')
    qed
  qed
  then have "batch_of b' = batch_of b" by (rule ext)
  moreover have "batch_inv b'" using a' x' r' p' by (simp add: batch_inv_def)
  moreover have "same_shape b b'" "length (ib_req_ids b') = length (ib_req_ids b)" using tr(2) by (simp_all add: sel same_shape_def)
  moreover have "InputBatch_num_reqs b' = InputBatch_num_reqs b"
    using idx x dict_length_set[of "ib_req_id_to_index b" i tgt] by (simp add: InputBatch_num_reqs_def sel index_ok_def)
  ultimately show ?thesis using run s' by (intro exI[of _ b'] conjI)
qed

section \<open>Condensing\<close>

lemma last_used_None: "last_used holes l = None \<longleftrightarrow> {0..l} \<subseteq> set holes"
proof (induction l)
  case (Suc l)
  have "{0..Suc l} = insert (Suc l) {0..l}" by auto
  then show ?case using Suc by simp
qed simp

lemma last_used_Some: "last_used holes l = Some l' \<Longrightarrow> l' \<le> l \<and> l' \<notin> set holes \<and> {l'<..l} \<subseteq> set holes"
proof (induction l)
  case (Suc l)
  have "l' \<le> l \<Longrightarrow> {l'<..Suc l} = insert (Suc l) {l'<..l}" by auto
  then show ?case using Suc by (auto split: if_splits)
qed (auto split: if_splits)

lemma condense_loop_ok:
  assumes "batch_inv b" "counts_ok b" "sorted_wrt (<) es" "case lst of None \<Rightarrow> True | Some l \<Rightarrow> l < length (ib_req_ids b)"
    "\<And>k. k < length (ib_req_ids b) \<Longrightarrow> slot_id b k = None \<longleftrightarrow> k \<in> set es \<or> (case lst of None \<Rightarrow> True | Some l \<Rightarrow> l < k)"
  shows "\<exists>b' m. condense_loop es lst b = Inr b' \<and> batch_inv b' \<and> batch_of b' = batch_of b \<and> same_shape b b' \<and>
     length (ib_req_ids b') = length (ib_req_ids b) \<and> (\<forall>k < length (ib_req_ids b). slot_id b' k \<noteq> None \<longleftrightarrow> k < m) \<and>
     InputBatch_num_reqs b' = InputBatch_num_reqs b"
  using assms
proof (induction es arbitrary: lst b)
  case Nil
  have "slot_id b k \<noteq> None \<longleftrightarrow> k < (case lst of None \<Rightarrow> 0 | Some l \<Rightarrow> Suc l)" if "k < length (ib_req_ids b)" for k
    using Nil.prems(5)[OF that] by (auto split: option.splits)
  then show ?case using Nil.prems(1) by (intro exI[of _ b]) (auto simp: same_shape_def)
next
  case (Cons e es)
  let ?n = "length (ib_req_ids b)"
  have stop: ?case if "condense_loop (e # es) lst b = Inr b" "\<And>k. k < ?n \<Longrightarrow> slot_id b k \<noteq> None \<longleftrightarrow> k < m" for m
    using that Cons.prems(1) by (intro exI[of _ b]) auto
  show ?case
  proof (cases "Option.bind lst (last_used (e # es))")
    case None
    have "slot_id b k \<noteq> None \<longleftrightarrow> k < 0" if k: "k < ?n" for k
    proof (cases lst)
      case None
      then show ?thesis using Cons.prems(5)[OF k] by simp
    next
      case (Some l)
      then have "{0..l} \<subseteq> set (e # es)" using None last_used_None[of "e # es" l] by simp
      then have "k \<le> l \<Longrightarrow> k \<in> set (e # es)" by (meson atLeastAtMost_iff subsetD zero_le)
      then show ?thesis using Cons.prems(5)[OF k] Some by fastforce
    qed
    then show ?thesis using None by (intro stop[of 0]) simp_all
  next
    case (Some l')
    then obtain l where l: "lst = Some l" "last_used (e # es) l = Some l'" by (cases lst) auto
    note lu = last_used_Some[OF l(2)]
    have ln: "l' < ?n" using lu Cons.prems(4) l(1) by simp
    have sl: "slot_id b k = None \<longleftrightarrow> k \<in> set (e # es) \<or> l' < k" if "k < ?n" for k
      using Cons.prems(5)[OF that] lu l(1) greaterThanAtMost_iff[of k l' l] by fastforce
    show ?thesis
    proof (cases "e \<ge> l'")
      case True
      then have "k \<in> set (e # es) \<Longrightarrow> l' < k" for k using Cons.prems(3) lu by fastforce
      then have "slot_id b k = None \<longleftrightarrow> l' < k" if "k < ?n" for k using sl[OF that] by blast
      then have "slot_id b k \<noteq> None \<longleftrightarrow> k < Suc l'" if "k < ?n" for k using that by (simp add: not_less less_Suc_eq_le)
      then show ?thesis using Some True by (intro stop[of "Suc l'"]) simp_all
    next
      case False
      have e: "slot_id b e = None" using sl[of e] False ln by simp
      obtain i where i: "slot_id b l' = Some i" using sl[OF ln] lu by auto
      obtain b1 where b1: "move_row l' e b = Inr b1" "batch_inv b1" "slot_id b1 = (slot_id b)(e \<mapsto> i, l' := None)"
        "batch_of b1 = batch_of b" "same_shape b b1" "length (ib_req_ids b1) = ?n" "InputBatch_num_reqs b1 = InputBatch_num_reqs b"
        using move_row_ok[OF Cons.prems(1) i e _ Cons.prems(2)] False by auto
      have "counts_ok b1" using Cons.prems(2) b1(4,5) by (simp add: counts_ok_def same_shape_def)
      moreover have "slot_id b1 k = None \<longleftrightarrow> k \<in> set es \<or> (case Some (l' - 1) of None \<Rightarrow> True | Some l \<Rightarrow> l < k)"
        if "k < length (ib_req_ids b1)" for k
      proof -
        have "k < ?n" using that b1(6) by simp
        moreover have "e \<notin> set es" "l' \<notin> set es" using Cons.prems(3) lu by auto
        ultimately show ?thesis using sl[of k] False unfolding b1(3) by auto
      qed
      moreover have "case Some (l' - 1) of None \<Rightarrow> True | Some l \<Rightarrow> l < length (ib_req_ids b1)" using ln b1(6) by simp
      moreover have "sorted_wrt (<) es" using Cons.prems(3) by simp
      ultimately obtain b' m where r: "condense_loop es (Some (l' - 1)) b1 = Inr b'" "batch_inv b'" "batch_of b' = batch_of b1" "same_shape b1 b'"
        "length (ib_req_ids b') = length (ib_req_ids b1)" "\<forall>k < length (ib_req_ids b1). slot_id b' k \<noteq> None \<longleftrightarrow> k < m"
        "InputBatch_num_reqs b' = InputBatch_num_reqs b1"
        using Cons.IH[of b1 "Some (l' - 1)"] b1(2) by blast
      have "condense_loop (e # es) lst b = Inr b'" using Some False b1(1) r(1) by simp
      then show ?thesis using r b1 same_shape_trans[OF b1(5) r(4)] by (intro exI[of _ b'] exI[of _ m]) simp
    qed
  qed
qed

definition compact :: "InputBatch \<Rightarrow> bool" where
  "compact b \<longleftrightarrow> length (ib_req_ids b) = InputBatch_num_reqs b"

lemma num_reqs_card:
  assumes "index_ok b"
  shows "InputBatch_num_reqs b = card {k. slot_id b k \<noteq> None}"
proof -
  have iff: "dict_get (ib_req_id_to_index b) i = Some k \<longleftrightarrow> slot_id b k = Some i" for i k using assms by (simp add: index_ok_def)
  have "bij_betw (\<lambda>k. the (slot_id b k)) {k. slot_id b k \<noteq> None} (fst ` set (ib_req_id_to_index b))"
  proof (rule bij_betwI')
    fix k l
    assume "k \<in> {k. slot_id b k \<noteq> None}" "l \<in> {k. slot_id b k \<noteq> None}"
    then show "(the (slot_id b k) = the (slot_id b l)) = (k = l)" using index_unique[OF assms] by fastforce
  next
    fix k
    assume "k \<in> {k. slot_id b k \<noteq> None}"
    then have "dict_get (ib_req_id_to_index b) (the (slot_id b k)) = Some k" using iff by simp
    then show "the (slot_id b k) \<in> fst ` set (ib_req_id_to_index b)" by (metis image_eqI fst_conv map_of_SomeD)
  next
    fix i
    assume "i \<in> fst ` set (ib_req_id_to_index b)"
    then obtain k where "dict_get (ib_req_id_to_index b) i = Some k" using dict_has_keys[of "ib_req_id_to_index b" i] by auto
    then have "slot_id b k = Some i" using iff by simp
    then show "\<exists>k \<in> {k. slot_id b k \<noteq> None}. i = the (slot_id b k)" by force
  qed
  then show ?thesis using bij_betw_same_card dict_length_card assms unfolding InputBatch_num_reqs_def index_ok_def by metis
qed

lemma num_reqs_le_length: "index_ok b \<Longrightarrow> InputBatch_num_reqs b \<le> length (ib_req_ids b)"
  unfolding num_reqs_card using card_mono[of "{..<length (ib_req_ids b)}" "{k. slot_id b k \<noteq> None}"] slot_bound[of b] by fastforce

lemma compact_slots:
  assumes "index_ok b" "compact b" "k < length (ib_req_ids b)"
  shows "slot_id b k \<noteq> None"
proof -
  have "{k. slot_id b k \<noteq> None} \<subseteq> {..<length (ib_req_ids b)}" using slot_bound[of b] by fastforce
  moreover have "card {k. slot_id b k \<noteq> None} = card {..<length (ib_req_ids b)}"
    using assms num_reqs_card[OF assms(1)] by (simp add: compact_def)
  ultimately have "{k. slot_id b k \<noteq> None} = {..<length (ib_req_ids b)}" by (intro card_subset_eq) simp_all
  then show ?thesis using assms(3) by blast
qed

lemma full_compact:
  assumes "index_ok b" "\<And>k. k < length (ib_req_ids b) \<Longrightarrow> slot_id b k \<noteq> None"
  shows "compact b"
proof -
  have "{k. slot_id b k \<noteq> None} = {..<length (ib_req_ids b)}" using assms(2) slot_bound[of b] by fastforce
  then show ?thesis using num_reqs_card[OF assms(1)] by (simp add: compact_def)
qed

lemma trim_ok:
  assumes inv: "batch_inv b" and m: "m \<le> length (ib_req_ids b)" "\<And>k. m \<le> k \<Longrightarrow> slot_id b k = None"
  shows "batch_inv (b\<lparr>ib_req_ids := take m (ib_req_ids b), ib_req_output_token_ids := take m (ib_req_output_token_ids b)\<rparr>)"
    "batch_of (b\<lparr>ib_req_ids := take m (ib_req_ids b), ib_req_output_token_ids := take m (ib_req_output_token_ids b)\<rparr>) = batch_of b"
    "slot_id (b\<lparr>ib_req_ids := take m (ib_req_ids b), ib_req_output_token_ids := take m (ib_req_output_token_ids b)\<rparr>) = slot_id b"
proof -
  let ?b = "b\<lparr>ib_req_ids := take m (ib_req_ids b), ib_req_output_token_ids := take m (ib_req_output_token_ids b)\<rparr>"
  have x: "index_ok b" using inv by (simp add: batch_inv_def)
  show s: "slot_id ?b = slot_id b"
  proof
    fix k
    show "slot_id ?b k = slot_id b k"
    proof (cases "k < m")
      case True
      then show ?thesis using m(1) by (simp add: slot_id_def)
    next
      case False
      then show ?thesis using m(2)[of k] by (simp add: slot_id_def)
    qed
  qed
  have c: "classes_of ?b = classes_of b" by (simp add: classes_of_def fun_eq_iff)
  have x': "index_ok ?b" using x unfolding index_ok_def s by simp
  show "batch_inv ?b"
    using inv x' m(1) unfolding batch_inv_def rest_ok_def s c by (simp add: arrays_ok_def plain_ok_def Let_def)
  show "batch_of ?b = batch_of b"
  proof
    fix i
    show "batch_of ?b i = batch_of b i"
    proof (cases "dict_get (ib_req_id_to_index b) i")
      case (Some k)
      then have "slot_id b k = Some i" using x by (simp add: index_ok_def)
      then have "k < m" using m(2)[of k] by (cases "k < m") auto
      then have "row_at ?b i k = row_at b i k" by (simp add: row_at_def c)
      then show ?thesis using Some by (simp add: batch_of_def)
    qed (simp add: batch_of_def)
  qed
qed

lemma condense_ok:
  assumes inv: "batch_inv b" "counts_ok b" and h: "sorted_wrt (<) (rev holes)"
    "set holes = {k. k < length (ib_req_ids b) \<and> slot_id b k = None}"
  shows "\<exists>b'. InputBatch_condense holes b = Inr b' \<and> batch_inv b' \<and> batch_of b' = batch_of b \<and> same_shape b b' \<and> compact b'"
proof -
  have x: "index_ok b" using inv(1) by (simp add: batch_inv_def)
  let ?n = "InputBatch_num_reqs b"
  have split: "{..<length (ib_req_ids b)} = {k. slot_id b k \<noteq> None} \<union> set holes" using h(2) slot_bound[of b] by fastforce
  have "distinct (rev holes)" using h(1) strict_sorted_iff by blast
  then have "card (set holes) = length holes" by (simp add: distinct_card)
  moreover have "finite {k. slot_id b k \<noteq> None}" by (rule finite_subset[of _ "{..<length (ib_req_ids b)}"]) (use split in blast)+
  ultimately have len: "length (ib_req_ids b) = ?n + length holes"
    using arg_cong[OF split, of card] h(2) num_reqs_card[OF x] card_Un_disjoint[of "{k. slot_id b k \<noteq> None}" "set holes"] by fastforce
  show ?thesis
  proof (cases "?n = 0")
    case True
    then have "slot_id b k = None" for k
      using num_reqs_card[OF x] \<open>finite {k. slot_id b k \<noteq> None}\<close> by simp
    then show ?thesis using True trim_ok[OF inv(1), of 0]
      by (intro exI[of _ "b\<lparr>ib_req_ids := [], ib_req_output_token_ids := []\<rparr>"])
         (simp add: InputBatch_condense_def same_shape_def compact_def InputBatch_num_reqs_def)
  next
    case False
    have "case Some (?n + length holes - 1) of None \<Rightarrow> True | Some l \<Rightarrow> l < length (ib_req_ids b)" using False len by simp
    moreover have "slot_id b k = None \<longleftrightarrow> k \<in> set (rev holes) \<or> (case Some (?n + length holes - 1) of None \<Rightarrow> True | Some l \<Rightarrow> l < k)"
      if "k < length (ib_req_ids b)" for k
    proof -
      have "\<not> ?n + length holes - 1 < k" using that len by simp
      then show ?thesis using that h(2) by simp
    qed
    ultimately obtain b1 m where b1: "condense_loop (rev holes) (Some (?n + length holes - 1)) b = Inr b1" "batch_inv b1" "batch_of b1 = batch_of b"
      "same_shape b b1" "length (ib_req_ids b1) = length (ib_req_ids b)" "\<forall>k < length (ib_req_ids b). slot_id b1 k \<noteq> None \<longleftrightarrow> k < m"
      "InputBatch_num_reqs b1 = ?n"
      using condense_loop_ok[OF inv h(1), of "Some (?n + length holes - 1)"] by blast
    have x1: "index_ok b1" using b1(2) by (simp add: batch_inv_def)
    have "{k. slot_id b1 k \<noteq> None} = {..<min m (length (ib_req_ids b))}" using b1(5,6) slot_bound[of b1] by fastforce
    then have n1: "?n = min m (length (ib_req_ids b))" using num_reqs_card[OF x1] b1(7) by (metis card_lessThan)
    have n: "?n \<le> length (ib_req_ids b1)" "slot_id b1 k = None" if "?n \<le> k" for k
      using n1 b1(5,6) that slot_bound[of b1 k] by (force, cases "slot_id b1 k") auto
    define b2 where "b2 = b1\<lparr>ib_req_ids := take ?n (ib_req_ids b1), ib_req_output_token_ids := take ?n (ib_req_output_token_ids b1)\<rparr>"
    have "InputBatch_condense holes b = Inr b2" using False b1(1,7) by (simp add: InputBatch_condense_def b2_def Let_def)
    moreover have "batch_inv b2" "batch_of b2 = batch_of b" unfolding b2_def using trim_ok[OF b1(2) n(1)[OF order_refl] n(2)] b1(3) by simp_all
    moreover have "same_shape b b2" using b1(4) by (simp add: same_shape_def b2_def)
    moreover have "compact b2" using n(1)[OF order_refl] b1(7) by (simp add: compact_def b2_def InputBatch_num_reqs_def)
    ultimately show ?thesis by blast
  qed
qed

section \<open>Sampling metadata\<close>

lemma class_present:
  assumes "batch_inv b" "n < 8" "classes_of b i ! n"
  shows "dict_get (ib_req_id_to_index b) i \<noteq> None"
proof
  assume "dict_get (ib_req_id_to_index b) i = None"
  then have "True \<notin> set (classes_of b i)" using assms(1) by (simp add: batch_inv_def rest_ok_def)
  moreover have "length (classes_of b i) = 8" by (simp add: classes_of_def)
  ultimately show False using assms(2,3) nth_mem[of n "classes_of b i"] by simp
qed

lemma prompt_token_ids_ok:
  assumes "batch_inv b" "\<not> InputBatch_no_penalties b"
  shows "\<exists>rows. InputBatch_make_prompt_token_ids b = Inr rows \<and> length rows = InputBatch_num_reqs b"
proof -
  have x: "arrays_ok b" "index_ok b" using assms(1) by (simp_all add: batch_inv_def)
  from assms(2) obtain i n where "n < 8" "classes_of b i ! n"
  proof -
    assume t: "\<And>n i. n < 8 \<Longrightarrow> classes_of b i ! n \<Longrightarrow> thesis"
    from assms(2) consider i where "i \<in> ib_frequency_penalties_reqs b" | i where "i \<in> ib_presence_penalties_reqs b"
      | i where "i \<in> ib_repetition_penalties_reqs b" by (auto simp: InputBatch_no_penalties_def)
    then show thesis
    proof cases
      case (1 i) then show ?thesis using t[of 5 i] by (simp add: classes_of_def)
    next
      case (2 i) then show ?thesis using t[of 6 i] by (simp add: classes_of_def)
    next
      case (3 i) then show ?thesis using t[of 7 i] by (simp add: classes_of_def)
    qed
  qed
  then have "dict_get (ib_req_id_to_index b) i \<noteq> None" by (rule class_present[OF assms(1)])
  then have "InputBatch_num_reqs b > 0" by (cases "ib_req_id_to_index b") (simp_all add: InputBatch_num_reqs_def)
  moreover have "InputBatch_num_reqs b \<le> length (ib_num_prompt_tokens b)"
    using num_reqs_le_length[OF x(2)] x(1) by (simp add: arrays_ok_def Let_def)
  ultimately have "take (InputBatch_num_reqs b) (ib_num_prompt_tokens b) \<noteq> []" by auto
  then obtain m where "py_max id (take (InputBatch_num_reqs b) (ib_num_prompt_tokens b)) = Inr m" using py_max_ok by blast
  then show ?thesis by (simp add: InputBatch_make_prompt_token_ids_def Let_def)
qed

lemma copied_tensors:
  assumes "arrays_ok b" "k < InputBatch_num_reqs b" "InputBatch_num_reqs b \<le> ib_max_num_reqs b"
  shows "tensors_ok (ib_max_num_reqs b) (copy_sampling_tensors b)"
    "\<not> InputBatch_all_greedy b \<Longrightarrow> tn_temperature (copy_sampling_tensors b) ! k = tn_temperature (ib_cpu b) ! k"
    "\<not> InputBatch_no_top_p b \<Longrightarrow> tn_top_p (copy_sampling_tensors b) ! k = tn_top_p (ib_cpu b) ! k"
    "\<not> InputBatch_no_top_k b \<Longrightarrow> tn_top_k (copy_sampling_tensors b) ! k = tn_top_k (ib_cpu b) ! k"
    "\<not> InputBatch_no_min_p b \<Longrightarrow> tn_min_p (copy_sampling_tensors b) ! k = tn_min_p (ib_cpu b) ! k"
    "\<not> InputBatch_no_penalties b \<Longrightarrow> tn_frequency_penalties (copy_sampling_tensors b) ! k = tn_frequency_penalties (ib_cpu b) ! k \<and>
       tn_presence_penalties (copy_sampling_tensors b) ! k = tn_presence_penalties (ib_cpu b) ! k \<and>
       tn_repetition_penalties (copy_sampling_tensors b) ! k = tn_repetition_penalties (ib_cpu b) ! k"
  using assms by (simp_all add: copy_sampling_tensors_def Let_def tensors_ok_def arrays_ok_def copy_slice_def nth_append)

lemma copied_tensors_ok:
  assumes "arrays_ok b" "InputBatch_num_reqs b \<le> ib_max_num_reqs b"
  shows "tensors_ok (ib_max_num_reqs b) (copy_sampling_tensors b)"
  using assms by (simp add: copy_sampling_tensors_def Let_def tensors_ok_def arrays_ok_def copy_slice_def)

lemma refresh_ok:
  assumes inv: "batch_inv b"
  shows "\<exists>sm. InputBatch_refresh_sampling_metadata b = Inr (b\<lparr>ib_device := copy_sampling_tensors b, ib_sampling_metadata := sm\<rparr>) \<and>
     (let n = InputBatch_num_reqs b; d = copy_sampling_tensors b in
        sm_temperature sm = (if InputBatch_all_greedy b then None else Some (take n (tn_temperature d))) \<and>
        sm_all_greedy sm = InputBatch_all_greedy b \<and> sm_all_random sm = InputBatch_all_random b \<and>
        sm_top_p sm = (if InputBatch_no_top_p b then None else Some (take n (tn_top_p d))) \<and>
        sm_top_k sm = (if InputBatch_no_top_k b then None else Some (take n (tn_top_k d))) \<and>
        sm_min_p sm = (if InputBatch_no_min_p b then None else Some (take n (tn_min_p d))) \<and>
        sm_max_num_logprobs sm = InputBatch_max_num_logprobs b \<and> sm_no_penalties sm = InputBatch_no_penalties b \<and>
        sm_frequency_penalties sm = take n (tn_frequency_penalties d) \<and> sm_presence_penalties sm = take n (tn_presence_penalties d) \<and>
        sm_repetition_penalties sm = take n (tn_repetition_penalties d)) \<and>
     batch_inv (b\<lparr>ib_device := copy_sampling_tensors b, ib_sampling_metadata := sm\<rparr>) \<and>
     batch_of (b\<lparr>ib_device := copy_sampling_tensors b, ib_sampling_metadata := sm\<rparr>) = batch_of b"
proof -
  have x: "arrays_ok b" "index_ok b" "rest_ok b" "plain_ok b" using inv by (simp_all add: batch_inv_def)
  have none: "InputBatch_no_allowed_token_ids b" using x(4) by (simp add: InputBatch_no_allowed_token_ids_def plain_ok_def)
  have n: "InputBatch_num_reqs b \<le> ib_max_num_reqs b"
    using num_reqs_le_length[OF x(2)] x(1) by (simp add: arrays_ok_def Let_def)
  obtain pt where pt: "(if InputBatch_no_penalties b then Inr None else res_bind (InputBatch_make_prompt_token_ids b) (\<lambda>rows. Inr (Some rows))) = Inr pt"
    using prompt_token_ids_ok[OF inv] by (cases "InputBatch_no_penalties b") auto
  have row: "row_at (b\<lparr>ib_device := d, ib_sampling_metadata := sm\<rparr>) = row_at b" for d sm
    by (simp add: row_at_def classes_of_def fun_eq_iff)
  have same: "slot_id (b\<lparr>ib_device := d, ib_sampling_metadata := sm\<rparr>) = slot_id b"
    "classes_of (b\<lparr>ib_device := d, ib_sampling_metadata := sm\<rparr>) = classes_of b"
    "batch_of (b\<lparr>ib_device := d, ib_sampling_metadata := sm\<rparr>) = batch_of b" for d sm
    by (simp_all add: slot_id_def classes_of_def batch_of_def row fun_eq_iff)
  have "batch_inv (b\<lparr>ib_device := copy_sampling_tensors b, ib_sampling_metadata := sm\<rparr>)" for sm
    using x copied_tensors_ok[OF x(1) n] unfolding batch_inv_def rest_ok_def index_ok_def same by (simp add: arrays_ok_def plain_ok_def Let_def)
  moreover define n' where "n' = InputBatch_num_reqs b"
  define d where "d = copy_sampling_tensors b"
  define sm where "sm = \<lparr>sm_temperature = (if InputBatch_all_greedy b then None else Some (take n' (tn_temperature d))),
              sm_all_greedy = InputBatch_all_greedy b, sm_all_random = InputBatch_all_random b,
              sm_top_p = (if InputBatch_no_top_p b then None else Some (take n' (tn_top_p d))),
              sm_top_k = (if InputBatch_no_top_k b then None else Some (take n' (tn_top_k d))),
              sm_min_p = (if InputBatch_no_min_p b then None else Some (take n' (tn_min_p d))),
              sm_max_num_logprobs = InputBatch_max_num_logprobs b, sm_no_penalties = InputBatch_no_penalties b,
              sm_prompt_token_ids = pt, sm_frequency_penalties = take n' (tn_frequency_penalties d),
              sm_presence_penalties = take n' (tn_presence_penalties d), sm_repetition_penalties = take n' (tn_repetition_penalties d),
              sm_logit_bias = take n' (ib_logit_bias b), sm_allowed_token_ids_mask = None\<rparr>"
  have "InputBatch_refresh_sampling_metadata b = Inr (b\<lparr>ib_device := d, ib_sampling_metadata := sm\<rparr>)"
    unfolding InputBatch_refresh_sampling_metadata_def InputBatch_make_sampling_metadata_def Let_def pt
    by (simp only: none if_True res_bind_simps prod.case n'_def[symmetric] d_def[symmetric] sm_def)
  moreover have "sm_temperature sm = (if InputBatch_all_greedy b then None else Some (take n' (tn_temperature d)))"
    "sm_all_greedy sm = InputBatch_all_greedy b" "sm_all_random sm = InputBatch_all_random b"
    "sm_top_p sm = (if InputBatch_no_top_p b then None else Some (take n' (tn_top_p d)))"
    "sm_top_k sm = (if InputBatch_no_top_k b then None else Some (take n' (tn_top_k d)))"
    "sm_min_p sm = (if InputBatch_no_min_p b then None else Some (take n' (tn_min_p d)))"
    "sm_max_num_logprobs sm = InputBatch_max_num_logprobs b" "sm_no_penalties sm = InputBatch_no_penalties b"
    "sm_frequency_penalties sm = take n' (tn_frequency_penalties d)" "sm_presence_penalties sm = take n' (tn_presence_penalties d)"
    "sm_repetition_penalties sm = take n' (tn_repetition_penalties d)" unfolding sm_def by simp_all
  ultimately show ?thesis using same(3)[of sm d] unfolding Let_def n'_def[symmetric] d_def[symmetric]
    by (intro exI[of _ sm] conjI; (assumption|rule refl)?) (simp_all add: d_def n'_def)
qed

end
