(* ===== verification/Metadata_Correct.thy ===== *)
theory Metadata_Correct
  imports Batch_Correct
begin

text \<open>
  The sampling metadata describe the requests of the batch in the order of their rows: after a
  refresh they are what the request's own parameters say, and they stay so as long as no row
  comes, goes or moves.
\<close>

section \<open>The requests in the order of their rows\<close>

definition batch_ids :: "InputBatch \<Rightarrow> string list" where
  "batch_ids b = map the (ib_req_ids b)"

lemma batch_ids_ok:
  assumes "batch_inv b" "compact b"
  shows "distinct (batch_ids b)" "set (batch_ids b) = dom (batch_of b)" "length (batch_ids b) = InputBatch_num_reqs b"
    "k < length (batch_ids b) \<Longrightarrow> slot_id b k = Some (batch_ids b ! k)" "ib_req_ids b = map Some (batch_ids b)"
proof -
  have x: "index_ok b" using assms(1) by (simp add: batch_inv_def)
  show l: "length (batch_ids b) = InputBatch_num_reqs b" using assms(2) by (simp add: batch_ids_def compact_def)
  show s: "slot_id b k = Some (batch_ids b ! k)" if "k < length (batch_ids b)" for k
    using compact_slots[OF x assms(2), of k] that by (auto simp: batch_ids_def slot_id_def)
  show "ib_req_ids b = map Some (batch_ids b)"
    using s by (intro nth_equalityI) (auto simp: batch_ids_def slot_id_def split: if_splits)
  show "distinct (batch_ids b)" using index_unique[OF x] s unfolding distinct_conv_nth by metis
  show "set (batch_ids b) = dom (batch_of b)"
  proof (intro equalityI subsetI)
    fix i
    assume "i \<in> set (batch_ids b)"
    then obtain k where "k < length (batch_ids b)" "batch_ids b ! k = i" by (auto simp: in_set_conv_nth)
    then show "i \<in> dom (batch_of b)" using batch_of_slot[OF x s] by (metis domI)
  next
    fix i
    assume "i \<in> dom (batch_of b)"
    then obtain k where k: "slot_id b k = Some i" using batch_of_Some_iff[OF x] by blast
    then have "k < length (batch_ids b)" using slot_bound[OF k] by (simp add: batch_ids_def)
    then show "i \<in> set (batch_ids b)" using k s by (metis nth_mem option.inject)
  qed
qed

section \<open>Metadata as a function of the rows\<close>

type_synonym sampling_view = "((rat list \<times> int) \<times> bool list \<times> int option) list"

definition view_of :: "InputBatch \<Rightarrow> sampling_view" where
  "view_of b = map (\<lambda>i. let row = the (batch_of b i) in (br_sampling row, br_classes row, fst (br_logprobs row))) (batch_ids b)"

definition some_uses :: "nat \<Rightarrow> sampling_view \<Rightarrow> bool" where
  "some_uses c view \<longleftrightarrow> (\<exists>(_, classes, _) \<in> set view. classes ! c)"

definition column :: "nat \<Rightarrow> sampling_view \<Rightarrow> rat list" where
  "column c view = map (\<lambda>(params, _, _). fst params ! c) view"

text \<open>
  What the sampler is told: a tensor for every parameter some request uses, one entry per request,
  and as many log probabilities as any request asks for.
\<close>

definition describes :: "SamplingMetadata \<Rightarrow> sampling_view \<Rightarrow> bool" where
  "describes sm view \<longleftrightarrow>
     (sm_all_greedy sm \<longleftrightarrow> \<not> some_uses 1 view) \<and> (sm_all_random sm \<longleftrightarrow> \<not> some_uses 0 view) \<and>
     sm_temperature sm = (if some_uses 1 view then Some (column 0 view) else None) \<and>
     sm_top_p sm = (if some_uses 2 view then Some (column 1 view) else None) \<and>
     sm_top_k sm = (if some_uses 3 view then Some (map (\<lambda>(params, _, _). snd params) view) else None) \<and>
     sm_min_p sm = (if some_uses 4 view then Some (column 2 view) else None) \<and>
     (sm_no_penalties sm \<longleftrightarrow> \<not> some_uses 5 view \<and> \<not> some_uses 6 view \<and> \<not> some_uses 7 view) \<and>
     (\<not> sm_no_penalties sm \<longrightarrow> sm_frequency_penalties sm = column 3 view \<and> sm_presence_penalties sm = column 4 view \<and>
        sm_repetition_penalties sm = column 5 view) \<and>
     (\<forall>(_, _, n) \<in> set view. case n of None \<Rightarrow> True | Some k \<Rightarrow> \<exists>m. sm_max_num_logprobs sm = Some m \<and> k \<le> m)"

definition metadata_ok :: "InputBatch \<Rightarrow> bool" where
  "metadata_ok b \<longleftrightarrow> describes (ib_sampling_metadata b) (view_of b)"

lemma view_slots:
  assumes "batch_inv b" "compact b"
  shows "view_of b = map (\<lambda>k. (tensor_row (ib_cpu b) k, classes_of b (batch_ids b ! k), dict_get (ib_num_logprobs b) (batch_ids b ! k)))
    [0..<InputBatch_num_reqs b]"
proof (rule nth_equalityI)
  note I = batch_ids_ok[OF assms]
  have x: "index_ok b" using assms(1) by (simp add: batch_inv_def)
  show "length (view_of b) = length (map (\<lambda>k. (tensor_row (ib_cpu b) k, classes_of b (batch_ids b ! k), dict_get (ib_num_logprobs b) (batch_ids b ! k)))
    [0..<InputBatch_num_reqs b])" by (simp add: view_of_def I(3))
  fix k
  assume "k < length (view_of b)"
  then have k: "k < length (batch_ids b)" by (simp add: view_of_def)
  have "batch_of b (batch_ids b ! k) = Some (row_at b (batch_ids b ! k) k)" by (rule batch_of_slot[OF x I(4)[OF k]])
  then show "view_of b ! k = map (\<lambda>k. (tensor_row (ib_cpu b) k, classes_of b (batch_ids b ! k), dict_get (ib_num_logprobs b) (batch_ids b ! k)))
    [0..<InputBatch_num_reqs b] ! k" using k I(3) by (simp add: view_of_def row_at_def)
qed

lemma uses_class:
  assumes "batch_inv b" "compact b" "c < 8"
  shows "some_uses c (view_of b) \<longleftrightarrow> (\<exists>i. classes_of b i ! c)"
proof
  assume "\<exists>i. classes_of b i ! c"
  then obtain i where i: "classes_of b i ! c" by blast
  have "i \<in> dom (batch_of b)" using class_present[OF assms(1,3) i] by (auto simp: batch_of_def)
  then obtain k where "k < length (batch_ids b)" "batch_ids b ! k = i" unfolding batch_ids_ok(2)[OF assms(1,2), symmetric] in_set_conv_nth by blast
  then show "some_uses c (view_of b)" using i batch_ids_ok(3)[OF assms(1,2)]
    unfolding some_uses_def view_slots[OF assms(1,2)] by force
qed (auto simp: some_uses_def view_slots[OF assms(1,2)])

lemma class_sets:
  "(\<exists>i. classes_of b i ! 0) \<longleftrightarrow> \<not> InputBatch_all_random b" "(\<exists>i. classes_of b i ! 1) \<longleftrightarrow> \<not> InputBatch_all_greedy b"
  "(\<exists>i. classes_of b i ! 2) \<longleftrightarrow> \<not> InputBatch_no_top_p b" "(\<exists>i. classes_of b i ! 3) \<longleftrightarrow> \<not> InputBatch_no_top_k b"
  "(\<exists>i. classes_of b i ! 4) \<longleftrightarrow> \<not> InputBatch_no_min_p b"
  "\<not> (\<exists>i. classes_of b i ! 5) \<and> \<not> (\<exists>i. classes_of b i ! 6) \<and> \<not> (\<exists>i. classes_of b i ! 7) \<longleftrightarrow> InputBatch_no_penalties b"
  by (auto simp: classes_of_def InputBatch_all_random_def InputBatch_all_greedy_def InputBatch_no_top_p_def InputBatch_no_top_k_def
      InputBatch_no_min_p_def InputBatch_no_penalties_def)

lemma dict_value_mem: "dict_get d i = Some k \<Longrightarrow> k \<in> set (dict_values d)"
  by (force dest: map_of_SomeD)

lemma refresh_describes:
  assumes inv: "batch_inv b" "compact b" and r: "InputBatch_refresh_sampling_metadata b = Inr b'"
  shows "metadata_ok b'"
proof -
  let ?n = "InputBatch_num_reqs b" and ?d = "copy_sampling_tensors b" and ?v = "view_of b"
  obtain sm where sm: "InputBatch_refresh_sampling_metadata b = Inr (b\<lparr>ib_device := ?d, ib_sampling_metadata := sm\<rparr>)"
    "sm_temperature sm = (if InputBatch_all_greedy b then None else Some (take ?n (tn_temperature ?d)))"
    "sm_all_greedy sm = InputBatch_all_greedy b" "sm_all_random sm = InputBatch_all_random b"
    "sm_top_p sm = (if InputBatch_no_top_p b then None else Some (take ?n (tn_top_p ?d)))"
    "sm_top_k sm = (if InputBatch_no_top_k b then None else Some (take ?n (tn_top_k ?d)))"
    "sm_min_p sm = (if InputBatch_no_min_p b then None else Some (take ?n (tn_min_p ?d)))"
    "sm_max_num_logprobs sm = InputBatch_max_num_logprobs b" "sm_no_penalties sm = InputBatch_no_penalties b"
    "sm_frequency_penalties sm = take ?n (tn_frequency_penalties ?d)" "sm_presence_penalties sm = take ?n (tn_presence_penalties ?d)"
    "sm_repetition_penalties sm = take ?n (tn_repetition_penalties ?d)"
    "batch_of (b\<lparr>ib_device := ?d, ib_sampling_metadata := sm\<rparr>) = batch_of b"
    using refresh_ok[OF inv(1)] unfolding Let_def by blast
  have b': "b' = b\<lparr>ib_device := ?d, ib_sampling_metadata := sm\<rparr>" using r sm(1) by simp
  have v: "view_of b' = ?v" unfolding view_of_def b' sm(13) by (simp add: batch_ids_def)
  have x: "arrays_ok b" "index_ok b" using inv(1) by (simp_all add: batch_inv_def)
  have n: "?n \<le> ib_max_num_reqs b" using num_reqs_le_length[OF x(2)] x(1) by (simp add: arrays_ok_def Let_def)
  have t: "tensors_ok (ib_max_num_reqs b) ?d" by (rule copied_tensors_ok[OF x(1) n])
  have col: "column c ?v = map (\<lambda>k. fst (tensor_row (ib_cpu b) k) ! c) [0..<?n]" for c
    by (simp add: column_def view_slots[OF inv])
  have tk: "take ?n xs = map ((!) xs) [0..<?n]" if "length xs = ib_max_num_reqs b" for xs :: "'a list"
    using that n by (intro nth_equalityI) simp_all
  have C: "sm_temperature sm = Some (column 0 ?v)" if "\<not> InputBatch_all_greedy b"
    using that t copied_tensors(2)[OF x(1) _ n that] by (simp add: sm(2) col tk tensors_ok_def tensor_row_def)
  have P: "sm_top_p sm = Some (column 1 ?v)" if "\<not> InputBatch_no_top_p b"
    using that t copied_tensors(3)[OF x(1) _ n that] by (simp add: sm(5) col tk tensors_ok_def tensor_row_def)
  have K: "sm_top_k sm = Some (map (\<lambda>(params, _, _). snd params) ?v)" if "\<not> InputBatch_no_top_k b"
    using that t copied_tensors(4)[OF x(1) _ n that] by (simp add: sm(6) view_slots[OF inv] tk tensors_ok_def tensor_row_def)
  have M: "sm_min_p sm = Some (column 2 ?v)" if "\<not> InputBatch_no_min_p b"
    using that t copied_tensors(5)[OF x(1) _ n that] by (simp add: sm(7) col tk tensors_ok_def tensor_row_def)
  have N: "sm_frequency_penalties sm = column 3 ?v" "sm_presence_penalties sm = column 4 ?v" "sm_repetition_penalties sm = column 5 ?v"
    if "\<not> InputBatch_no_penalties b"
    using that t copied_tensors(6)[OF x(1) _ n that] by (simp_all add: sm(10-12) col tk tensors_ok_def tensor_row_def)
  have L: "case l of None \<Rightarrow> True | Some k \<Rightarrow> \<exists>m. sm_max_num_logprobs sm = Some m \<and> k \<le> m" if mem: "(p, c, l) \<in> set ?v" for p c l
  proof (cases l)
    case (Some k)
    then obtain i where "dict_get (ib_num_logprobs b) i = Some k" using mem by (auto simp: view_slots[OF inv])
    then have "k \<in> set (dict_values (ib_num_logprobs b))" "ib_num_logprobs b \<noteq> []" by (auto dest: dict_value_mem)
    then show ?thesis using Some by (simp add: sm(8) InputBatch_max_num_logprobs_def)
  qed simp
  have uses: "some_uses 0 ?v \<longleftrightarrow> \<not> InputBatch_all_random b" "some_uses 1 ?v \<longleftrightarrow> \<not> InputBatch_all_greedy b"
    "some_uses 2 ?v \<longleftrightarrow> \<not> InputBatch_no_top_p b" "some_uses 3 ?v \<longleftrightarrow> \<not> InputBatch_no_top_k b" "some_uses 4 ?v \<longleftrightarrow> \<not> InputBatch_no_min_p b"
    "\<not> some_uses 5 ?v \<and> \<not> some_uses 6 ?v \<and> \<not> some_uses 7 ?v \<longleftrightarrow> InputBatch_no_penalties b"
    using uses_class[OF inv, of 0] uses_class[OF inv, of 1] uses_class[OF inv, of 2] uses_class[OF inv, of 3] uses_class[OF inv, of 4]
      uses_class[OF inv, of 5] uses_class[OF inv, of 6] uses_class[OF inv, of 7] class_sets[of b] by simp_all
  have "describes sm ?v"
    unfolding describes_def
  proof (intro conjI)
    show "\<forall>(_, _, n) \<in> set ?v. case n of None \<Rightarrow> True | Some k \<Rightarrow> \<exists>m. sm_max_num_logprobs sm = Some m \<and> k \<le> m" using L by blast
    show "sm_no_penalties sm \<longleftrightarrow> \<not> some_uses 5 ?v \<and> \<not> some_uses 6 ?v \<and> \<not> some_uses 7 ?v" using uses(6) sm(9) by simp
    show "\<not> sm_no_penalties sm \<longrightarrow> sm_frequency_penalties sm = column 3 ?v \<and> sm_presence_penalties sm = column 4 ?v \<and>
        sm_repetition_penalties sm = column 5 ?v" using N sm(9) by simp
  qed (use uses C P K M sm in simp_all)
  then show ?thesis by (simp add: metadata_ok_def v) (simp add: b')
qed

section \<open>Changes that leave the metadata valid\<close>

definition same_sampling :: "InputBatch \<Rightarrow> InputBatch \<Rightarrow> bool" where
  "same_sampling b b' \<longleftrightarrow> ib_req_ids b' = ib_req_ids b \<and> ib_req_id_to_index b' = ib_req_id_to_index b \<and> ib_cpu b' = ib_cpu b \<and>
     classes_of b' = classes_of b \<and> ib_num_logprobs b' = ib_num_logprobs b \<and> ib_sampling_metadata b' = ib_sampling_metadata b"

lemma same_sampling_refl [simp]: "same_sampling b b"
  by (simp add: same_sampling_def)

lemma same_sampling_trans: "same_sampling a b \<Longrightarrow> same_sampling b c \<Longrightarrow> same_sampling a c"
  by (simp add: same_sampling_def)

lemma same_sampling_metadata:
  assumes "same_sampling b b'" "batch_inv b" "compact b" "batch_inv b'" "compact b'"
  shows "metadata_ok b' = metadata_ok b"
proof -
  have "view_of b' = view_of b"
    using assms(1) unfolding view_slots[OF assms(2,3)] view_slots[OF assms(4,5)] same_sampling_def
    by (simp add: batch_ids_def InputBatch_num_reqs_def)
  then show ?thesis using assms(1) by (simp add: metadata_ok_def same_sampling_def)
qed

end
