(* ===== verification/Runner_Correct.thy ===== *)
theory Runner_Correct
  imports Model_Runner Metadata_Correct
begin

text \<open>
  The model runner keeps, for every request it knows, the tokens and blocks the scheduler sent, and
  for every request of the step a row of the batch that agrees with them. The lemmas follow
  \<open>_update_states\<close> (rows leave, states change, rows enter, the batch is condensed) and
  \<open>_prepare_inputs\<close>.
\<close>

section \<open>Rows that leave\<close>

lemma remove_rows_ok:
  assumes "batch_inv b" "distinct ids" "must_exist \<Longrightarrow> set ids \<subseteq> dom (batch_of b)"
  shows "\<exists>ks b'. remove_rows ids must_exist b = Inr (ks, b') \<and> batch_inv b' \<and> batch_of b' = (batch_of b) |` (- set ids) \<and>
     (\<forall>k. slot_id b' k = (if k \<in> set ks then None else slot_id b k)) \<and>
     set ks = {k. \<exists>i \<in> set ids. slot_id b k = Some i} \<and> distinct ks \<and> length (ib_req_ids b') = length (ib_req_ids b) \<and> same_shape b b'"
  using assms
proof (induction ids arbitrary: b)
  case Nil
  then show ?case by (auto simp: restrict_map_def)
next
  case (Cons i ids)
  have x: "index_ok b" using Cons.prems(1) by (simp add: batch_inv_def)
  show ?case
  proof (cases "dict_get (ib_req_id_to_index b) i")
    case None
    then have no: "batch_of b i = None" by (simp add: batch_of_None_iff)
    then have me: "\<not> must_exist" using Cons.prems(3) by auto
    obtain ks b' where ih: "remove_rows ids must_exist b = Inr (ks, b')" "batch_inv b'" "batch_of b' = (batch_of b) |` (- set ids)"
      "\<forall>k. slot_id b' k = (if k \<in> set ks then None else slot_id b k)" "set ks = {k. \<exists>i \<in> set ids. slot_id b k = Some i}" "distinct ks"
      "length (ib_req_ids b') = length (ib_req_ids b)" "same_shape b b'"
      using Cons.IH[OF Cons.prems(1)] Cons.prems(2) me by auto
    have ns: "slot_id b k \<noteq> Some i" for k
    proof
      assume "slot_id b k = Some i"
      then have "dict_get (ib_req_id_to_index b) i = Some k" using x by (simp add: index_ok_def)
      then show False using None by simp
    qed
    have "set ks = {k. \<exists>i \<in> set (i # ids). slot_id b k = Some i}" unfolding ih(5) using ns by auto
    moreover have "(batch_of b) |` (- set ids) = (batch_of b) |` (- set (i # ids))"
      using no by (auto simp: restrict_map_def fun_eq_iff)
    moreover have "remove_rows (i # ids) must_exist b = Inr (ks, b')" using ih(1) me by (simp add: remove_request_absent[OF None])
    ultimately show ?thesis using ih(2,3,4,6-8) by (intro exI[of _ ks] exI[of _ b'] conjI) simp_all
  next
    case (Some k)
    obtain b1 where b1: "InputBatch_remove_request i b = Inr (Some k, b1)" "batch_inv b1" "slot_id b1 = (slot_id b)(k := None)"
     "batch_of b1 = (batch_of b)(i := None)" "same_shape b b1" "length (ib_req_ids b1) = length (ib_req_ids b)"
      using remove_request_ok[OF Cons.prems(1) Some] by blast
    have s: "slot_id b k = Some i" using Some x by (simp add: index_ok_def)
    have "must_exist \<Longrightarrow> set ids \<subseteq> dom (batch_of b1)" using Cons.prems(2,3) unfolding b1(4) by auto
    then obtain ks b' where ih: "remove_rows ids must_exist b1 = Inr (ks, b')" "batch_inv b'" "batch_of b' = (batch_of b1) |` (- set ids)"
      "\<forall>l. slot_id b' l = (if l \<in> set ks then None else slot_id b1 l)" "set ks = {l. \<exists>j \<in> set ids. slot_id b1 l = Some j}" "distinct ks"
      "length (ib_req_ids b') = length (ib_req_ids b1)" "same_shape b1 b'"
      using Cons.IH[OF b1(2)] Cons.prems(2) by auto
    have "remove_rows (i # ids) must_exist b = Inr (k # ks, b')" using b1(1) ih(1) by simp
    moreover have "batch_of b' = (batch_of b) |` (- set (i # ids))"
      unfolding ih(3) b1(4) by (auto simp: restrict_map_def fun_eq_iff)
    moreover have "\<forall>l. slot_id b' l = (if l \<in> set (k # ks) then None else slot_id b l)" using ih(4) b1(3) by simp
    moreover have "set (k # ks) = {l. \<exists>j \<in> set (i # ids). slot_id b l = Some j}"
    proof (rule set_eqI)
      fix l
      have "slot_id b l = Some i \<longleftrightarrow> l = k" using s index_unique[OF x s, of l] by blast
      then show "l \<in> set (k # ks) \<longleftrightarrow> l \<in> {l. \<exists>j \<in> set (i # ids). slot_id b l = Some j}"
        unfolding list.set ih(5) b1(3) using s by (cases "l = k") simp_all
    qed
    moreover have "distinct (k # ks)" using ih(5,6) unfolding b1(3) by simp
    moreover have "length (ib_req_ids b') = length (ib_req_ids b)" "same_shape b b'"
      using ih(7,8) b1(5,6) same_shape_trans[OF b1(5) ih(8)] by simp_all
    ultimately show ?thesis using ih(2) by (intro exI[of _ "k # ks"] exI[of _ b'] conjI)
  qed
qed

section \<open>Rows that enter\<close>

definition state_of :: "GPUModelRunner \<Rightarrow> string \<Rightarrow> CachedRequestState option" where
  "state_of w i = map_option (gr_state w) (dict_get (gr_requests w) i)"

text \<open>The requests and their states agree: a reference leads to the state of the request.\<close>

definition states_ok :: "GPUModelRunner \<Rightarrow> bool" where
  "states_ok w \<longleftrightarrow> (\<forall>i r. dict_get (gr_requests w) i = Some r \<longrightarrow> r < length (gr_states w) \<and> cs_req_id (gr_state w r) = i)"

definition row_of :: "GPUModelRunner \<Rightarrow> string \<Rightarrow> batch_row option" where
  "row_of w i = (case dict_get (gr_requests w) i of None \<Rightarrow> None
     | Some r \<Rightarrow> Some (fresh_row (gr_state w r) r (ib_vocab_size (gr_batch w))))"

text \<open>The empty rows among those in use.\<close>

definition holes_of :: "InputBatch \<Rightarrow> nat set" where
  "holes_of b = {k. k < length (ib_req_ids b) \<and> slot_id b k = None}"

lemma enter_batch_ok:
  assumes "batch_inv (gr_batch w)" "states_ok w" "distinct ids" "set ids \<inter> dom (batch_of (gr_batch w)) = {}"
    "sorted_wrt (<) holes" "set holes = holes_of (gr_batch w)"
    "\<And>i. i \<in> set ids \<Longrightarrow> \<exists>q. state_of w i = Some q \<and> fits_row (gr_batch w) q"
    "InputBatch_num_reqs (gr_batch w) + length ids \<le> ib_max_num_reqs (gr_batch w)"
  shows "\<exists>holes' b'. enter_batch ids holes w = Inr (holes', w\<lparr>gr_batch := b'\<rparr>) \<and> batch_inv b' \<and>
     batch_of b' = (\<lambda>i. if i \<in> set ids then row_of w i else batch_of (gr_batch w) i) \<and> same_shape (gr_batch w) b' \<and>
     sorted_wrt (<) holes' \<and> set holes' = holes_of b'"
  using assms
proof (induction ids arbitrary: holes w)
  case Nil
  then show ?case by (intro exI[of _ holes] exI[of _ "gr_batch w"]) simp
next
  case (Cons i ids)
  let ?b = "gr_batch w"
  have x: "index_ok ?b" using Cons.prems(1) by (simp add: batch_inv_def)
  obtain q r where r: "dict_get (gr_requests w) i = Some r" "q = gr_state w r" "fits_row ?b q"
    using Cons.prems(7)[of i] by (auto simp: state_of_def)
  have q: "cs_req_id q = i" using Cons.prems(2) r by (simp add: states_ok_def)
  have fr: "dict_get (ib_req_id_to_index ?b) (cs_req_id q) = None" using Cons.prems(4) q by (auto simp: batch_of_None_iff[symmetric])
  define ri where "ri = (case holes of [] \<Rightarrow> None | k # _ \<Rightarrow> Some k)"
  define k where "k = (case ri of None \<Rightarrow> InputBatch_num_reqs ?b | Some k \<Rightarrow> k)"
  have nn: "InputBatch_num_reqs ?b < ib_max_num_reqs ?b" using Cons.prems(8) by simp
  have a: "length (ib_req_ids ?b) \<le> ib_max_num_reqs ?b" using Cons.prems(1) by (simp add: batch_inv_def arrays_ok_def Let_def)
  have k: "k < ib_max_num_reqs ?b" "k \<le> length (ib_req_ids ?b)" "slot_id ?b k = None"
    "holes = [] \<Longrightarrow> k = length (ib_req_ids ?b)" "holes \<noteq> [] \<Longrightarrow> k < length (ib_req_ids ?b) \<and> k = hd holes"
  proof -
    have "k < ib_max_num_reqs ?b \<and> k \<le> length (ib_req_ids ?b) \<and> slot_id ?b k = None \<and> (holes = [] \<longrightarrow> k = length (ib_req_ids ?b)) \<and>
       (holes \<noteq> [] \<longrightarrow> k < length (ib_req_ids ?b) \<and> k = hd holes)"
    proof (cases holes)
      case Nil
      then have "\<And>l. l < length (ib_req_ids ?b) \<Longrightarrow> slot_id ?b l \<noteq> None" using Cons.prems(6) by (auto simp: holes_of_def)
      then have "k = length (ib_req_ids ?b)" using full_compact[OF x] Nil by (simp add: k_def ri_def compact_def)
      then show ?thesis using nn Nil by (simp add: k_def ri_def slot_id_def)
    next
      case (Cons h hs)
      then have "h \<in> holes_of ?b" using Cons.prems(6) by auto
      then show ?thesis using Cons a by (simp add: k_def ri_def holes_of_def)
    qed
    then show "k < ib_max_num_reqs ?b" "k \<le> length (ib_req_ids ?b)" "slot_id ?b k = None"
      "holes = [] \<Longrightarrow> k = length (ib_req_ids ?b)" "holes \<noteq> [] \<Longrightarrow> k < length (ib_req_ids ?b) \<and> k = hd holes" by blast+
  qed
  obtain b1 where b1: "InputBatch_add_request q r ri ?b = Inr b1" "batch_inv b1" "slot_id b1 = (slot_id ?b)(k \<mapsto> i)"
     "batch_of b1 = (batch_of ?b)(i \<mapsto> fresh_row q r (ib_vocab_size ?b))" "same_shape ?b b1"
     "length (ib_req_ids b1) = max (length (ib_req_ids ?b)) (Suc k)"
    using batch_add_request_ok[OF Cons.prems(1) r(3) fr, of k ri] k(1-3) unfolding k_def q by blast
  define w1 where "w1 = w\<lparr>gr_batch := b1\<rparr>"
  have "InputBatch_num_reqs b1 = Suc (InputBatch_num_reqs ?b)"
  proof -
    have "{l. slot_id b1 l \<noteq> None} = insert k {l. slot_id ?b l \<noteq> None}" using b1(3) by auto
    moreover have "finite {l. slot_id ?b l \<noteq> None}" by (rule finite_subset[of _ "{..<length (ib_req_ids ?b)}"]) (auto dest: slot_bound)
    ultimately show ?thesis using num_reqs_card[of b1] num_reqs_card[OF x] b1(2) k(3) by (simp add: batch_inv_def)
  qed
  then have "InputBatch_num_reqs (gr_batch w1) + length ids \<le> ib_max_num_reqs (gr_batch w1)"
    using Cons.prems(8) b1(5) by (simp add: w1_def same_shape_def)
  moreover have "set (tl holes) = holes_of (gr_batch w1)"
  proof (cases holes)
    case Nil
    then show ?thesis using k(4) b1(3,6) Cons.prems(6) by (auto simp: w1_def holes_of_def)
  next
    case (Cons h hs)
    then have "k = h" "h < length (ib_req_ids ?b)" "h \<notin> set hs" using k(5) Cons.prems(5) by auto
    then have "holes_of b1 = holes_of ?b - {h}" using b1(3,6) by (auto simp: holes_of_def)
    then show ?thesis using Cons Cons.prems(6) \<open>h \<notin> set hs\<close> by (auto simp: w1_def)
  qed
  moreover have "sorted_wrt (<) (tl holes)" using Cons.prems(5) by (cases holes) simp_all
  moreover have "set ids \<inter> dom (batch_of (gr_batch w1)) = {}" using Cons.prems(3,4) b1(4) by (auto simp: w1_def)
  moreover have "\<exists>q. state_of w1 j = Some q \<and> fits_row (gr_batch w1) q" if "j \<in> set ids" for j
    using Cons.prems(7)[of j] that b1(5) by (auto simp: w1_def state_of_def fits_row_def same_shape_def)
  moreover have "states_ok w1" "distinct ids" "batch_inv (gr_batch w1)" using Cons.prems(2,3) b1(2) by (simp_all add: w1_def states_ok_def)
  ultimately obtain holes' b' where ih: "enter_batch ids (tl holes) w1 = Inr (holes', w1\<lparr>gr_batch := b'\<rparr>)" "batch_inv b'"
     "batch_of b' = (\<lambda>i. if i \<in> set ids then row_of w1 i else batch_of (gr_batch w1) i)" "same_shape (gr_batch w1) b'"
     "sorted_wrt (<) holes'" "set holes' = holes_of b'"
    using Cons.IH[of w1 "tl holes"] by blast
  have "enter_batch (i # ids) holes w = Inr (holes', w\<lparr>gr_batch := b'\<rparr>)"
    using ih(1) b1(1) r by (simp add: dict_item_def ri_def w1_def)
  moreover have "batch_of b' = (\<lambda>j. if j \<in> set (i # ids) then row_of w j else batch_of ?b j)"
    using ih(3) b1(4,5) Cons.prems(3) r by (auto simp: w1_def row_of_def same_shape_def fun_eq_iff split: option.split)
  ultimately show ?case using ih b1(5) same_shape_trans by (intro exI[of _ holes'] exI[of _ b']) (simp add: w1_def)
qed

section \<open>Rows that stay\<close>

lemma table_append_row_ok:
  assumes "table_ok n t" "k < n" "bt_num_blocks_per_row t ! k + length ids \<le> bt_max_num_blocks_per_req t"
  shows "\<exists>t'. BlockTable_append_row ids k t = Inr t' \<and> table_ok n t' \<and> bt_max_num_blocks_per_req t' = bt_max_num_blocks_per_req t \<and>
     (\<forall>l < n. take (bt_num_blocks_per_row t' ! l) (bt_rows t' ! l) =
        (if l = k then take (bt_num_blocks_per_row t ! k) (bt_rows t ! k) @ ids else take (bt_num_blocks_per_row t ! l) (bt_rows t ! l)))"
proof (cases "ids = []")
  case True
  then show ?thesis using assms by (auto simp: BlockTable_append_row_def)
next
  case False
  define row where "row = bt_rows t ! k"
  define m where "m = bt_num_blocks_per_row t ! k"
  have l: "length row = bt_max_num_blocks_per_req t" using assms(1,2) by (simp add: row_def table_ok_def)
  have "np_assign row (int m) (int (m + length ids)) ids = Inr (take m row @ ids @ drop (m + length ids) row)"
    by (rule np_assign_exact) (use assms(3) l m_def in simp_all)
  then have "BlockTable_append_row ids k t = Inr (t\<lparr>bt_num_blocks_per_row := (bt_num_blocks_per_row t)[k := m + length ids],
      bt_rows := (bt_rows t)[k := take m row @ ids @ drop (m + length ids) row]\<rparr>)"
    using False assms(1,2) by (simp add: BlockTable_append_row_def table_ok_def row_def[symmetric] m_def[symmetric] Let_def)
  then show ?thesis using assms l
    by (auto simp: table_ok_def nth_list_update row_def[symmetric] m_def[symmetric] dest!: set_update_subset_insert[THEN subsetD])
qed

definition extended_row :: "CachedRequestData \<Rightarrow> batch_row \<Rightarrow> batch_row" where
  "extended_row d row =
     (let c = cd_num_computed_tokens d; new = cd_new_token_ids d; e = c + int (length new)
      in row\<lparr>br_tokens := take (nat c) (br_tokens row) @ new, br_num_tokens := e, br_num_tokens_no_spec := e, br_num_computed := c,
             br_blocks := br_blocks row @ cd_new_block_ids d\<rparr>)"

lemma update_row_ok:
  assumes inv: "batch_inv b" "counts_ok b" and row: "batch_of b i = Some row" and k: "dict_get (ib_req_id_to_index b) i = Some k"
    and c: "0 \<le> cd_num_computed_tokens d" "cd_num_computed_tokens d \<le> br_num_tokens row"
      "cd_num_computed_tokens d + int (length (cd_new_token_ids d)) \<le> int (ib_max_model_len b)"
      "length (br_blocks row) + length (cd_new_block_ids d) \<le> bt_max_num_blocks_per_req (ib_block_table b)"
    and d: "dict_get_default (so_scheduled_spec_decode_tokens sched) (cd_req_id d) [] = []"
  shows "\<exists>b'. update_row sched d k b = Inr b' \<and> batch_inv b' \<and> slot_id b' = slot_id b \<and> batch_of b' = (batch_of b)(i \<mapsto> extended_row d row) \<and>
     same_shape b b' \<and> length (ib_req_ids b') = length (ib_req_ids b) \<and> ib_req_id_to_index b' = ib_req_id_to_index b"
proof -
  have a: "arrays_ok b" and x: "index_ok b" and r: "rest_ok b" and pl: "plain_ok b" using inv(1) by (simp_all add: batch_inv_def)
  have s: "slot_id b k = Some i" using x k by (simp add: index_ok_def)
  have kn: "k < ib_max_num_reqs b" by (rule slot_bound_max[OF a s])
  have rw: "row = row_at b i k" using batch_of_slot[OF x s] row by simp
  have tab: "table_ok (ib_max_num_reqs b) (ib_block_table b)" using a by (simp add: arrays_ok_def Let_def)
  define c where "c = nat (cd_num_computed_tokens d)"
  define new where "new = cd_new_token_ids d"
  define tokens where "tokens = ib_token_ids b ! k"
  have ce: "cd_num_computed_tokens d = int c" using assms(5) by (simp add: c_def)
  have L: "length tokens = ib_max_model_len b" using a kn by (simp add: arrays_ok_def Let_def tokens_def)
  have "bt_num_blocks_per_row (ib_block_table b) ! k \<le> length (bt_rows (ib_block_table b) ! k)" using tab kn by (simp add: table_ok_def)
  then have "length (br_blocks row) = bt_num_blocks_per_row (ib_block_table b) ! k" unfolding rw row_at_def by simp
  then obtain t where t: "BlockTable_append_row (cd_new_block_ids d) k (ib_block_table b) = Inr t" "table_ok (ib_max_num_reqs b) t"
    "bt_max_num_blocks_per_req t = bt_max_num_blocks_per_req (ib_block_table b)"
    "\<forall>l < ib_max_num_reqs b. take (bt_num_blocks_per_row t ! l) (bt_rows t ! l) =
       (if l = k then take (bt_num_blocks_per_row (ib_block_table b) ! k) (bt_rows (ib_block_table b) ! k) @ cd_new_block_ids d
        else take (bt_num_blocks_per_row (ib_block_table b) ! l) (bt_rows (ib_block_table b) ! l))"
    using table_append_row_ok[OF tab kn, of "cd_new_block_ids d"] assms(8) by auto
  define tokens' where "tokens' = take c tokens @ new @ drop (c + length new) tokens"
  have np: "np_assign tokens (int c) (int c + int (length new)) new = Inr tokens'"
    using np_assign_exact[of c new tokens "int c + int (length new)"] assms(7) ce L by (simp add: tokens'_def new_def)
  define b' where "b' = b\<lparr>ib_num_computed_tokens := (ib_num_computed_tokens b)[k := int c], ib_block_table := t,
      ib_token_ids := (ib_token_ids b)[k := tokens'], ib_num_tokens_no_spec := (ib_num_tokens_no_spec b)[k := int c + int (length new)],
      ib_num_tokens := (ib_num_tokens b)[k := int c + int (length new)]\<rparr>"
  have run: "update_row sched d k b = Inr b'"
    by (simp add: update_row_def Let_def d ce t(1) tokens_def[symmetric] new_def[symmetric] np b'_def)
  have s': "slot_id b' = slot_id b" and cls: "classes_of b' = classes_of b" by (simp_all add: b'_def slot_id_def classes_of_def fun_eq_iff)
  have x': "index_ok b'" using x unfolding index_ok_def s' by (simp add: b'_def)
  have "length tokens' = ib_max_model_len b" using L assms(7) ce by (simp add: tokens'_def new_def)
  moreover have "\<forall>row \<in> set (ib_token_ids b). length row = ib_max_model_len b" using a by (simp add: arrays_ok_def Let_def)
  ultimately have "\<forall>row \<in> set (ib_token_ids b'). length row = ib_max_model_len b'"
    using set_update_subset_insert[of "ib_token_ids b" k tokens'] by (auto simp: b'_def)
  then have "arrays_ok b'" using a t(2) by (simp add: arrays_ok_def Let_def b'_def)
  moreover have "rest_ok b'" using r unfolding rest_ok_def s' cls by (simp add: b'_def)
  moreover have "plain_ok b'" using pl by (simp add: plain_ok_def b'_def)
  ultimately have inv': "batch_inv b'" using x' by (simp add: batch_inv_def)
  have "c \<le> nat (ib_num_tokens b ! k)" using assms(6) ce unfolding rw by (simp add: row_at_def)
  then have "take c (take (nat (ib_num_tokens b ! k)) tokens) = take c tokens" by (simp add: min_def)
  moreover have "take (nat (int c + int (length new))) tokens' = take c tokens @ new"
    using L assms(7) ce by (simp add: tokens'_def new_def nat_add_distrib)
  ultimately have "row_at b' i k = extended_row d row"
    using a kn t(4) unfolding rw
    by (simp add: row_at_def extended_row_def Let_def b'_def cls arrays_ok_def ce tokens_def[symmetric] new_def[symmetric] classes_of_def)
  moreover have "row_at b' j l = row_at b j l" if "l \<noteq> k" "l < ib_max_num_reqs b" for j l
    using that t(4) by (simp add: row_at_def b'_def classes_of_def)
  moreover have "l < ib_max_num_reqs b" if "dict_get (ib_req_id_to_index b) j = Some l" for j l
    using x that slot_bound_max[OF a] by (simp add: index_ok_def)
  moreover have "l \<noteq> k" if "dict_get (ib_req_id_to_index b) j = Some l" "j \<noteq> i" for j l
    using x that s by (auto simp: index_ok_def)
  ultimately have "batch_of b' j = ((batch_of b)(i \<mapsto> extended_row d row)) j" for j
    using k by (cases "dict_get (ib_req_id_to_index b) j") (auto simp: batch_of_def b'_def)
  then have "batch_of b' = (batch_of b)(i \<mapsto> extended_row d row)" by (rule ext)
  moreover have "same_shape b b'" "length (ib_req_ids b') = length (ib_req_ids b)" "ib_req_id_to_index b' = ib_req_id_to_index b"
    using t(3) by (simp_all add: b'_def same_shape_def)
  ultimately show ?thesis using run inv' s' by (intro exI[of _ b'] conjI)
qed

section \<open>States and rows agree\<close>

text \<open>
  The row of a request holds a prefix of the tokens of its state, at least the computed ones: while
  a prompt is computed in chunks, the row counts only the tokens sent so far.
\<close>

abbreviation cs_tokens :: "CachedRequestState \<Rightarrow> int list" where
  "cs_tokens st \<equiv> cs_prompt_token_ids st @ cs_output_token_ids st"

definition row_of_state :: "CachedRequestState \<Rightarrow> nat \<Rightarrow> nat \<Rightarrow> int \<Rightarrow> batch_row" where
  "row_of_state st r vocab_size n =
     (fresh_row st r vocab_size)\<lparr>br_tokens := take (nat n) (cs_tokens st), br_num_tokens := n, br_num_tokens_no_spec := n\<rparr>"

definition row_ok :: "GPUModelRunner \<Rightarrow> string \<Rightarrow> batch_row \<Rightarrow> bool" where
  "row_ok w i row \<longleftrightarrow> (\<exists>r n. dict_get (gr_requests w) i = Some r \<and>
     row = row_of_state (gr_state w r) r (ib_vocab_size (gr_batch w)) n \<and> 0 \<le> cs_num_computed_tokens (gr_state w r) \<and>
     cs_num_computed_tokens (gr_state w r) \<le> n \<and> n \<le> int (CachedRequestState_num_tokens (gr_state w r)))"

definition rows_ok :: "GPUModelRunner \<Rightarrow> bool" where
  "rows_ok w \<longleftrightarrow> (\<forall>i row. batch_of (gr_batch w) i = Some row \<longrightarrow> row_ok w i row)"

definition states_fit :: "GPUModelRunner \<Rightarrow> bool" where
  "states_fit w \<longleftrightarrow> (\<forall>i st. state_of w i = Some st \<longrightarrow> fits_row (gr_batch w) st)"

definition runner_inv :: "GPUModelRunner \<Rightarrow> bool" where
  "runner_inv w \<longleftrightarrow> batch_inv (gr_batch w) \<and> states_ok w \<and> rows_ok w \<and> states_fit w"

lemma row_of_state_sel [simp]:
  "br_tokens (row_of_state st r V n) = take (nat n) (cs_tokens st)" "br_num_tokens (row_of_state st r V n) = n"
  "br_num_tokens_no_spec (row_of_state st r V n) = n" "br_num_computed (row_of_state st r V n) = cs_num_computed_tokens st"
  "br_blocks (row_of_state st r V n) = cs_block_ids st" "br_state (row_of_state st r V n) = Some r"
  by (simp_all add: row_of_state_def fresh_row_def Let_def)

lemma fresh_row_of_state: "fresh_row st r V = row_of_state st r V (int (CachedRequestState_num_tokens st))"
  by (simp add: row_of_state_def fresh_row_def Let_def CachedRequestState_num_tokens_def)

lemma rows_ok_counts: "rows_ok w \<Longrightarrow> states_fit w \<Longrightarrow> counts_ok (gr_batch w)"
proof -
  assume r: "rows_ok w" "states_fit w"
  show "counts_ok (gr_batch w)"
    unfolding counts_ok_def
  proof (intro allI impI)
    fix i row
    assume "batch_of (gr_batch w) i = Some row"
    then have "row_ok w i row" using r(1) by (simp add: rows_ok_def)
    then obtain r n where k: "dict_get (gr_requests w) i = Some r" "br_num_tokens row = n" "0 \<le> cs_num_computed_tokens (gr_state w r)"
      "cs_num_computed_tokens (gr_state w r) \<le> n" "n \<le> int (CachedRequestState_num_tokens (gr_state w r))"
      by (auto simp: row_ok_def)
    then have "state_of w i = Some (gr_state w r)" by (simp add: state_of_def)
    then have "fits_row (gr_batch w) (gr_state w r)" using r(2) by (simp add: states_fit_def)
    then show "0 \<le> br_num_tokens row \<and> br_num_tokens row \<le> int (ib_max_model_len (gr_batch w))" using k by (simp add: fits_row_def)
  qed
qed

section \<open>Running and resumed requests\<close>

definition advance :: "CachedRequestData \<Rightarrow> CachedRequestState \<Rightarrow> CachedRequestState" where
  "advance d st =
     (let c = cd_num_computed_tokens d; new = cd_new_token_ids d; k = nat (c + int (length new) - int (CachedRequestState_num_tokens st))
      in st\<lparr>cs_num_computed_tokens := c, cs_output_token_ids := cs_output_token_ids st @ drop (length new - k) new,
            cs_block_ids := (if cd_resumed_from_preemption d then cd_new_block_ids d else cs_block_ids st @ cd_new_block_ids d)\<rparr>)"

text \<open>
  What the scheduler sends for a request the runner knows: the next tokens of the request, of which the
  runner knows a prefix that covers the computed ones.
\<close>

definition cached_ok :: "InputBatch \<Rightarrow> CachedRequestData \<Rightarrow> int list \<Rightarrow> CachedRequestState \<Rightarrow> bool" where
  "cached_ok b d toks st \<longleftrightarrow> (let c = nat (cd_num_computed_tokens d); n = length (cd_new_token_ids d); m = CachedRequestState_num_tokens st in
     0 \<le> cd_num_computed_tokens d \<and> c \<le> m \<and> cs_tokens st = take m toks \<and> m \<le> length toks \<and>
     cd_new_token_ids d = take n (drop c toks) \<and> c + n \<le> length toks \<and> length toks \<le> ib_max_model_len b \<and>
     (cd_resumed_from_preemption d \<longrightarrow> batch_of b (cd_req_id d) = None) \<and>
     (\<forall>row. batch_of b (cd_req_id d) = Some row \<longrightarrow> cd_num_computed_tokens d \<le> br_num_tokens row) \<and>
     length ((if cd_resumed_from_preemption d then [] else cs_block_ids st) @ cd_new_block_ids d) \<le> bt_max_num_blocks_per_req (ib_block_table b))"

lemma advance_tokens:
  assumes "cached_ok b d toks st"
  shows "cs_tokens (advance d st) = take (max (CachedRequestState_num_tokens st) (nat (cd_num_computed_tokens d) + length (cd_new_token_ids d))) toks"
    "CachedRequestState_num_tokens (advance d st) =
       max (CachedRequestState_num_tokens st) (nat (cd_num_computed_tokens d) + length (cd_new_token_ids d))"
proof -
  define c where "c = nat (cd_num_computed_tokens d)"
  define new where "new = cd_new_token_ids d"
  define m where "m = CachedRequestState_num_tokens st"
  have h: "cd_num_computed_tokens d = int c" "c \<le> m" "cs_tokens st = take m toks" "m \<le> length toks" "new = take (length new) (drop c toks)"
    "c + length new \<le> length toks" using assms by (simp_all add: cached_ok_def Let_def c_def new_def m_def)
  define k where "k = nat (int c + int (length new) - int m)"
  have e: "cs_tokens (advance d st) = take m toks @ drop (length new - k) new"
    using h(3) by (simp add: advance_def Let_def h(1) new_def[symmetric] m_def[symmetric] k_def)
  have "drop (length new - k) new = drop m (take (max m (c + length new)) toks)"
  proof (cases "c + length new \<le> m")
    case True
    then show ?thesis by (simp add: k_def)
  next
    case False
    then have k: "length new - k = m - c" using h(2) by (simp add: k_def nat_diff_distrib)
    have "drop (m - c) new = drop (m - c) (take (length new) (drop c toks))" using h(5) by simp
    also have "\<dots> = drop m (take (c + length new) toks)" using h(2) by (simp add: drop_take add.commute)
    finally show ?thesis using False k by (simp add: max_def)
  qed
  then have t: "cs_tokens (advance d st) = take (max m (c + length new)) toks"
    unfolding e using append_take_drop_id[of m "take (max m (c + length new)) toks"] by (simp add: min_def)
  then show "cs_tokens (advance d st) = take (max (CachedRequestState_num_tokens st) (nat (cd_num_computed_tokens d) + length (cd_new_token_ids d))) toks"
    by (simp add: m_def c_def new_def)
  have "length (cs_tokens (advance d st)) = max m (c + length new)" unfolding t using h by simp
  then show "CachedRequestState_num_tokens (advance d st) =
       max (CachedRequestState_num_tokens st) (nat (cd_num_computed_tokens d) + length (cd_new_token_ids d))"
    by (simp add: CachedRequestState_num_tokens_def m_def c_def new_def)
qed

lemma update_cached_state_ok:
  assumes "cached_ok b d toks st"
  shows "update_cached_state d st = Inr (advance d st)"
proof -
  define new where "new = cd_new_token_ids d"
  define k where "k = cd_num_computed_tokens d + int (length new) - int (CachedRequestState_num_tokens st)"
  have le: "k \<le> int (length new)" using assms unfolding cached_ok_def Let_def k_def by linarith
  have sel: "(if k = 1 then res_bind (py_getitem new (- 1)) (\<lambda>t. Inr [t])
      else if k > 0 then Inr (py_slice new (- k) (int (length new))) else Inr []) = Inr (drop (length new - nat k) new)"
  proof (cases "k = 1")
    case True
    then have "new \<noteq> []" using le by auto
    then have "drop (length new - 1) new = [last new]" by (cases new rule: rev_cases) simp_all
    then show ?thesis using True \<open>new \<noteq> []\<close> by (simp add: py_getitem_def last_conv_nth nat_diff_distrib Suc_le_eq)
  next
    case False
    then show ?thesis using le by (auto simp: py_slice_def slice_index_def nat_diff_distrib)
  qed
  have n: "CachedRequestState_num_tokens (st\<lparr>cs_num_computed_tokens := c\<rparr>) = CachedRequestState_num_tokens st" for c
    by (simp add: CachedRequestState_num_tokens_def)
  show ?thesis
    unfolding update_cached_state_def Let_def n new_def[symmetric] k_def[symmetric] sel advance_def by simp
qed

text \<open>One request: its state advances, and its row with it when it has one.\<close>

lemma advance_sel [simp]:
  "cs_req_id (advance d st) = cs_req_id st" "cs_prompt_token_ids (advance d st) = cs_prompt_token_ids st"
  "cs_sampling_params (advance d st) = cs_sampling_params st" "cs_generator (advance d st) = cs_generator st"
  "cs_lora_request (advance d st) = cs_lora_request st" "cs_num_computed_tokens (advance d st) = cd_num_computed_tokens d"
  "cs_block_ids (advance d st) = (if cd_resumed_from_preemption d then cd_new_block_ids d else cs_block_ids st @ cd_new_block_ids d)"
  by (simp_all add: advance_def Let_def)

lemma advance_fits:
  assumes "cached_ok b d toks st" "fits_row b st"
  shows "fits_row b (advance d st)"
  using assms advance_tokens(2)[OF assms(1)] unfolding fits_row_def cached_ok_def Let_def by auto

lemma extended_row_of_state:
  assumes "cached_ok b d toks st" "\<not> cd_resumed_from_preemption d" "cd_num_computed_tokens d \<le> n" "n \<le> int (CachedRequestState_num_tokens st)"
  shows "extended_row d (row_of_state st r V n) =
     row_of_state (advance d st) r V (cd_num_computed_tokens d + int (length (cd_new_token_ids d)))"
proof -
  define c where "c = nat (cd_num_computed_tokens d)"
  define m where "m = CachedRequestState_num_tokens st"
  define l where "l = length (cd_new_token_ids d)"
  have h: "cd_num_computed_tokens d = int c" "c \<le> m" "cs_tokens st = take m toks" "m \<le> length toks"
    "cd_new_token_ids d = take l (drop c toks)" using assms(1) by (simp_all add: cached_ok_def Let_def c_def m_def l_def)
  have n: "c \<le> nat n" "nat n \<le> m" using assms(3,4) h(1) by (simp_all add: m_def)
  have "take c (take (nat n) (take m toks)) @ take l (drop c toks) = take (c + l) toks"
    using n by (simp add: min_def take_add)
  moreover have "take (c + l) (take (max m (c + l)) toks) = take (c + l) toks" by (simp add: min_def)
  moreover have "nat (int c + int l) = c + l" by simp
  moreover have at: "cs_tokens (advance d st) = take (max m (c + l)) toks"
    using advance_tokens(1)[OF assms(1)] by (simp only: c_def m_def l_def)
  ultimately have "take c (take (nat n) (cs_tokens st)) @ cd_new_token_ids d = take (nat (int c + int l)) (cs_tokens (advance d st))"
    unfolding at h(3) h(5) by (simp only:)
  then show ?thesis using assms(2)
    by (simp add: extended_row_def row_of_state_def fresh_row_def Let_def h(1) c_def[symmetric] l_def[symmetric] del: append_assoc)
qed

lemma cached_ok_cong:
  "same_shape b b' \<Longrightarrow> batch_of b' (cd_req_id d) = batch_of b (cd_req_id d) \<Longrightarrow> cached_ok b' d toks st = cached_ok b d toks st"
  by (simp add: cached_ok_def same_shape_def)

lemma state_of_put:
  assumes "states_ok w" "dict_get (gr_requests w) i = Some r" "cs_req_id st = i"
  shows "state_of (gr_put r st w) = (state_of w)(i \<mapsto> st)" "states_ok (gr_put r st w)"
proof -
  have r: "r < length (gr_states w)" using assms by (simp add: states_ok_def)
  have ne: "s \<noteq> r" if "dict_get (gr_requests w) j = Some s" "j \<noteq> i" for j s
    using assms that by (auto simp: states_ok_def)
  show "state_of (gr_put r st w) = (state_of w)(i \<mapsto> st)"
  proof
    fix j
    show "state_of (gr_put r st w) j = ((state_of w)(i \<mapsto> st)) j"
      using r assms(2) ne[of j] by (cases "dict_get (gr_requests w) j") (auto simp: state_of_def gr_put_def nth_list_update)
  qed
  show "states_ok (gr_put r st w)" using assms r ne unfolding states_ok_def by (auto simp: gr_put_def nth_list_update)
qed

lemma update_cached_ok:
  assumes "runner_inv w" "distinct (map cd_req_id ds)"
    "\<forall>d \<in> set ds. \<exists>st. state_of w (cd_req_id d) = Some st \<and> cached_ok (gr_batch w) d (toks (cd_req_id d)) st"
    "so_scheduled_spec_decode_tokens sched = []"
  shows "\<exists>w'. update_cached sched ds w = Inr (filter (\<lambda>i. batch_of (gr_batch w) i = None) (map cd_req_id ds), w') \<and> runner_inv w' \<and>
     gr_requests w' = gr_requests w \<and> same_shape (gr_batch w) (gr_batch w') \<and> gr_block_size w' = gr_block_size w \<and>
     state_of w' = (\<lambda>i. case find (\<lambda>d. cd_req_id d = i) ds of None \<Rightarrow> state_of w i | Some d \<Rightarrow> map_option (advance d) (state_of w i)) \<and>
     ib_req_id_to_index (gr_batch w') = ib_req_id_to_index (gr_batch w) \<and> slot_id (gr_batch w') = slot_id (gr_batch w) \<and>
     length (ib_req_ids (gr_batch w')) = length (ib_req_ids (gr_batch w)) \<and>
     (\<forall>d \<in> set ds. \<forall>row. batch_of (gr_batch w') (cd_req_id d) = Some row \<longrightarrow>
        br_num_tokens row = cd_num_computed_tokens d + int (length (cd_new_token_ids d))) \<and>
     (\<forall>i. i \<notin> cd_req_id ` set ds \<longrightarrow> batch_of (gr_batch w') i = batch_of (gr_batch w) i)"
  using assms
proof (induction ds arbitrary: w)
  case Nil
  then show ?case by simp
next
  case (Cons d ds)
  let ?i = "cd_req_id d" and ?b = "gr_batch w"
  have inv: "batch_inv ?b" "states_ok w" "rows_ok w" "states_fit w" using Cons.prems(1) by (simp_all add: runner_inv_def)
  have x: "index_ok ?b" using inv(1) by (simp add: batch_inv_def)
  obtain st where st: "state_of w ?i = Some st" "cached_ok ?b d (toks ?i) st" using bspec[OF Cons.prems(3), of d] by auto
  then obtain r where r: "dict_get (gr_requests w) ?i = Some r" "st = gr_state w r" by (auto simp: state_of_def)
  have id: "cs_req_id (advance d st) = ?i" using inv(2) r by (simp add: states_ok_def)
  have st_fit: "fits_row ?b (advance d st)" using advance_fits[OF st(2)] inv(4) st(1) by (simp add: states_fit_def)
  define w1 where "w1 = gr_put r (advance d st) w"
  have b1: "gr_batch w1 = ?b" "gr_requests w1 = gr_requests w" "gr_block_size w1 = gr_block_size w" by (simp_all add: w1_def gr_put_def)
  note put = state_of_put[OF inv(2) r(1) id, folded w1_def]
  have fit1: "states_fit w1" using inv(4) st_fit by (simp add: states_fit_def put(1) b1)
  have gs: "gr_state w1 r = advance d st" using put(1) r(1) by (simp add: state_of_def b1 fun_eq_iff split: if_splits)
  have other: "row_ok w1 j row" if a: "row_ok w j row" "j \<noteq> ?i" for j row
  proof -
    obtain s where s: "dict_get (gr_requests w) j = Some s" using a(1) by (auto simp: row_ok_def)
    then have "gr_state w1 s = gr_state w s" using fun_cong[OF put(1), of j] a(2) by (simp add: state_of_def b1)
    then show ?thesis using a(1) s by (simp add: row_ok_def b1)
  qed
  have upd: "update_cached_state d (gr_state w r) = Inr (advance d st)" using update_cached_state_ok[OF st(2)] r(2) by simp
  text \<open>Both cases leave a runner that satisfies the invariant, with the row of this request extended if it has one.\<close>
  have step: "\<exists>w2. update_cached sched (d # ds) w =
       res_bind (update_cached sched ds w2) (\<lambda>(ids, w3). Inr ((if batch_of ?b ?i = None then [?i] else []) @ ids, w3)) \<and>
      runner_inv w2 \<and> gr_requests w2 = gr_requests w \<and> gr_states w2 = gr_states w1 \<and> gr_block_size w2 = gr_block_size w \<and>
      same_shape ?b (gr_batch w2) \<and>
      ib_req_id_to_index (gr_batch w2) = ib_req_id_to_index ?b \<and> slot_id (gr_batch w2) = slot_id ?b \<and>
      length (ib_req_ids (gr_batch w2)) = length (ib_req_ids ?b) \<and>
      (\<forall>row. batch_of (gr_batch w2) ?i = Some row \<longrightarrow> br_num_tokens row = cd_num_computed_tokens d + int (length (cd_new_token_ids d))) \<and>
      (\<forall>i. i \<noteq> ?i \<longrightarrow> batch_of (gr_batch w2) i = batch_of ?b i)"
  proof (cases "dict_get (ib_req_id_to_index ?b) ?i")
    case None
    then have no: "batch_of ?b ?i = None" by (simp add: batch_of_None_iff)
    have "update_cached sched (d # ds) w = res_bind (update_cached sched ds w1) (\<lambda>(ids, w3). Inr (?i # ids, w3))"
      using None by (simp add: dict_item_def r(1) upd w1_def[symmetric] b1)
    moreover have "rows_ok w1" unfolding rows_ok_def b1
    proof (intro allI impI)
      fix i row
      assume "batch_of ?b i = Some row"
      then show "row_ok w1 i row" using other[of i row] inv(3) no by (cases "i = ?i") (simp_all add: rows_ok_def)
    qed
    ultimately show ?thesis using no inv(1) put(2) fit1 b1 by (intro exI[of _ w1]) (simp add: runner_inv_def)
  next
    case (Some k)
    then obtain row where row: "batch_of ?b ?i = Some row" by (auto simp: batch_of_def)
    then have "row_ok w ?i row" using inv(3) by (simp add: rows_ok_def)
    then obtain n where n: "row = row_of_state st r (ib_vocab_size ?b) n" "0 \<le> cs_num_computed_tokens st" "cs_num_computed_tokens st \<le> n"
      "n \<le> int (CachedRequestState_num_tokens st)" using r by (auto simp: row_ok_def)
    have c: "0 \<le> cd_num_computed_tokens d" "cd_num_computed_tokens d \<le> n" "\<not> cd_resumed_from_preemption d"
      "cd_num_computed_tokens d + int (length (cd_new_token_ids d)) \<le> int (ib_max_model_len ?b)"
      "length (br_blocks row) + length (cd_new_block_ids d) \<le> bt_max_num_blocks_per_req (ib_block_table ?b)"
      using st(2) row n(1) unfolding cached_ok_def Let_def by auto
    obtain b' where b': "update_row sched d k ?b = Inr b'" "batch_inv b'" "slot_id b' = slot_id ?b" "batch_of b' = (batch_of ?b)(?i \<mapsto> extended_row d row)"
      "same_shape ?b b'" "length (ib_req_ids b') = length (ib_req_ids ?b)" "ib_req_id_to_index b' = ib_req_id_to_index ?b"
      using update_row_ok[OF inv(1) rows_ok_counts[OF inv(3,4)] row Some c(1) _ c(4,5), of sched] c(2) n(1) Cons.prems(4)
      by (auto simp: dict_get_default_def)
    define w2 where "w2 = w1\<lparr>gr_batch := b'\<rparr>"
    have e: "extended_row d row = row_of_state (advance d st) r (ib_vocab_size ?b) (cd_num_computed_tokens d + int (length (cd_new_token_ids d)))"
      unfolding n(1) by (rule extended_row_of_state[OF st(2) c(3,2) n(4)])
    have "cd_num_computed_tokens d + int (length (cd_new_token_ids d)) \<le> int (CachedRequestState_num_tokens (advance d st))"
      using advance_tokens(2)[OF st(2)] c(1) by simp
    then have "row_ok w2 ?i (extended_row d row)" unfolding row_ok_def using r(1) gs e c(1) b'(5)
      by (intro exI[of _ r] exI[of _ "cd_num_computed_tokens d + int (length (cd_new_token_ids d))"]) (simp add: w2_def b1 same_shape_def)
    moreover have "row_ok w2 j row'" if "batch_of ?b j = Some row'" "j \<noteq> ?i" for j row'
      using other[of j row'] that inv(3) b'(5) by (simp add: rows_ok_def row_ok_def w2_def b1 same_shape_def)
    ultimately have "rows_ok w2" unfolding rows_ok_def by (simp add: w2_def b'(4))
    moreover have "states_ok w2" "states_fit w2" using put(2) fit1 b'(5)
      by (simp_all add: w2_def states_ok_def states_fit_def state_of_def fits_row_def same_shape_def b1)
    moreover have "update_cached sched (d # ds) w = update_cached sched ds w2"
      using Some b'(1) by (simp add: dict_item_def r(1) upd w1_def[symmetric] b1 w2_def)
    moreover have "update_cached sched ds w2 = res_bind (update_cached sched ds w2) (\<lambda>(ids, w3). Inr ([] @ ids, w3))"
      by (simp add: res_bind_def split: sum.split)
    ultimately show ?thesis using row b' b1 e by (intro exI[of _ w2]) (simp add: runner_inv_def w2_def)
  qed
  obtain w2 where w2: "update_cached sched (d # ds) w =
       res_bind (update_cached sched ds w2) (\<lambda>(ids, w3). Inr ((if batch_of ?b ?i = None then [?i] else []) @ ids, w3))"
      "runner_inv w2" "gr_requests w2 = gr_requests w" "gr_states w2 = gr_states w1" "gr_block_size w2 = gr_block_size w"
      "same_shape ?b (gr_batch w2)" "ib_req_id_to_index (gr_batch w2) = ib_req_id_to_index ?b" "slot_id (gr_batch w2) = slot_id ?b"
      "length (ib_req_ids (gr_batch w2)) = length (ib_req_ids ?b)"
      "\<forall>row. batch_of (gr_batch w2) ?i = Some row \<longrightarrow> br_num_tokens row = cd_num_computed_tokens d + int (length (cd_new_token_ids d))"
      "\<forall>i. i \<noteq> ?i \<longrightarrow> batch_of (gr_batch w2) i = batch_of ?b i"
    using step by (elim exE conjE) (rule that; assumption)
  have s2: "state_of w2 = (state_of w)(?i \<mapsto> advance d st)" using put(1) w2(3,4) b1(2) by (simp add: state_of_def fun_eq_iff)
  have ne: "cd_req_id e \<noteq> ?i" if "e \<in> set ds" for e using Cons.prems(2) imageI[OF that, of cd_req_id] by auto
  have pre: "\<forall>e \<in> set ds. \<exists>st. state_of w2 (cd_req_id e) = Some st \<and> cached_ok (gr_batch w2) e (toks (cd_req_id e)) st"
  proof
    fix e
    assume e: "e \<in> set ds"
    then show "\<exists>st. state_of w2 (cd_req_id e) = Some st \<and> cached_ok (gr_batch w2) e (toks (cd_req_id e)) st"
      using bspec[OF Cons.prems(3), of e] ne[OF e] w2(11) cached_ok_cong[OF w2(6), of e] by (simp add: s2)
  qed
  have dist: "distinct (map cd_req_id ds)" using Cons.prems(2) by simp
  have ih: "\<exists>w'. update_cached sched ds w2 = Inr (filter (\<lambda>i. batch_of (gr_batch w2) i = None) (map cd_req_id ds), w') \<and> runner_inv w' \<and>
     gr_requests w' = gr_requests w2 \<and> same_shape (gr_batch w2) (gr_batch w') \<and> gr_block_size w' = gr_block_size w2 \<and>
     state_of w' = (\<lambda>i. case find (\<lambda>d. cd_req_id d = i) ds of None \<Rightarrow> state_of w2 i | Some d \<Rightarrow> map_option (advance d) (state_of w2 i)) \<and>
     ib_req_id_to_index (gr_batch w') = ib_req_id_to_index (gr_batch w2) \<and> slot_id (gr_batch w') = slot_id (gr_batch w2) \<and>
     length (ib_req_ids (gr_batch w')) = length (ib_req_ids (gr_batch w2)) \<and>
     (\<forall>d \<in> set ds. \<forall>row. batch_of (gr_batch w') (cd_req_id d) = Some row \<longrightarrow>
        br_num_tokens row = cd_num_computed_tokens d + int (length (cd_new_token_ids d))) \<and>
     (\<forall>i. i \<notin> cd_req_id ` set ds \<longrightarrow> batch_of (gr_batch w') i = batch_of (gr_batch w2) i)"
    by (rule Cons.IH[OF w2(2) dist pre Cons.prems(4)])
  obtain w' where w': "update_cached sched ds w2 = Inr (filter (\<lambda>i. batch_of (gr_batch w2) i = None) (map cd_req_id ds), w')" "runner_inv w'"
     "gr_requests w' = gr_requests w2" "same_shape (gr_batch w2) (gr_batch w')" "gr_block_size w' = gr_block_size w2"
     "state_of w' = (\<lambda>i. case find (\<lambda>d. cd_req_id d = i) ds of None \<Rightarrow> state_of w2 i | Some d \<Rightarrow> map_option (advance d) (state_of w2 i))"
     "ib_req_id_to_index (gr_batch w') = ib_req_id_to_index (gr_batch w2)" "slot_id (gr_batch w') = slot_id (gr_batch w2)"
     "length (ib_req_ids (gr_batch w')) = length (ib_req_ids (gr_batch w2))"
     "\<forall>d \<in> set ds. \<forall>row. batch_of (gr_batch w') (cd_req_id d) = Some row \<longrightarrow>
        br_num_tokens row = cd_num_computed_tokens d + int (length (cd_new_token_ids d))"
     "\<forall>i. i \<notin> cd_req_id ` set ds \<longrightarrow> batch_of (gr_batch w') i = batch_of (gr_batch w2) i"
    using ih by (elim exE conjE) (rule that; assumption)
  have "filter (\<lambda>i. batch_of (gr_batch w2) i = None) (map cd_req_id ds) = filter (\<lambda>i. batch_of ?b i = None) (map cd_req_id ds)"
    using w2(7) by (simp add: batch_of_None_iff)
  then have "update_cached sched (d # ds) w = Inr (filter (\<lambda>i. batch_of ?b i = None) (map cd_req_id (d # ds)), w')"
    unfolding w2(1) w'(1) by simp
  moreover have "find (\<lambda>e. cd_req_id e = ?i) ds = None" using ne by (auto simp: find_None_iff)
  then have "state_of w' = (\<lambda>i. case find (\<lambda>d. cd_req_id d = i) (d # ds) of None \<Rightarrow> state_of w i | Some d \<Rightarrow> map_option (advance d) (state_of w i))"
    unfolding w'(6) s2 using st(1) by (auto simp: fun_eq_iff split: option.split)
  moreover have "?i \<notin> cd_req_id ` set ds" using Cons.prems(2) by simp
  then have "\<forall>e \<in> set (d # ds). \<forall>row. batch_of (gr_batch w') (cd_req_id e) = Some row \<longrightarrow>
        br_num_tokens row = cd_num_computed_tokens e + int (length (cd_new_token_ids e))"
    using w'(10,11) w2(10) by auto
  moreover have "\<forall>i. i \<notin> cd_req_id ` set (d # ds) \<longrightarrow> batch_of (gr_batch w') i = batch_of ?b i" using w'(11) w2(11) by simp
  moreover have "gr_requests w' = gr_requests w" "gr_block_size w' = gr_block_size w" "same_shape ?b (gr_batch w')"
    "ib_req_id_to_index (gr_batch w') = ib_req_id_to_index ?b" "slot_id (gr_batch w') = slot_id ?b"
    "length (ib_req_ids (gr_batch w')) = length (ib_req_ids ?b)"
    using w'(3,5,7,8,9) w2(3,5,7,8,9) same_shape_trans[OF w2(6) w'(4)] by simp_all
  ultimately show ?case using w'(2) by (intro exI[of _ w'] conjI)
qed

section \<open>Finished, unscheduled and new requests\<close>

text \<open>The order in which the sets are iterated lists each element once.\<close>

definition lists_sets :: "(string set \<Rightarrow> string list) \<Rightarrow> bool" where
  "lists_sets id_order \<longleftrightarrow> (\<forall>A. finite A \<longrightarrow> distinct (id_order A) \<and> set (id_order A) = A)"

lemma dict_get_fold_pop: "dict_get (fold dict_pop ks d) = (dict_get d) |` (- set ks)"
  by (induction ks arbitrary: d) (auto simp: restrict_map_def fun_eq_iff)

lemma drop_requests_ok:
  assumes inv: "runner_inv w" and full: "compact (gr_batch w)" and ids: "lists_sets id_order" "finite (so_finished_req_ids sched)"
  shows "\<exists>ks w'. drop_requests id_order sched w = Inr (ks, w') \<and> runner_inv w' \<and>
     state_of w' = (state_of w) |` (- so_finished_req_ids sched) \<and>
     batch_of (gr_batch w') = (batch_of (gr_batch w)) |` (set (dict_keys (so_num_scheduled_tokens sched)) - so_finished_req_ids sched) \<and>
     distinct ks \<and> set ks = holes_of (gr_batch w') \<and> same_shape (gr_batch w) (gr_batch w') \<and> gr_block_size w' = gr_block_size w \<and>
     gr_states w' = gr_states w"
proof -
  let ?b = "gr_batch w"
  let ?F = "so_finished_req_ids sched" and ?K = "set (dict_keys (so_num_scheduled_tokens sched))"
  have i: "batch_inv ?b" "states_ok w" "rows_ok w" "states_fit w" using inv by (simp_all add: runner_inv_def)
  have x: "index_ok ?b" using i(1) by (simp add: batch_inv_def)
  define finished where "finished = id_order ?F"
  have f: "distinct finished" "set finished = ?F" using ids by (simp_all add: finished_def lists_sets_def)
  obtain ks1 b1 where b1: "remove_rows finished False ?b = Inr (ks1, b1)" "batch_inv b1" "batch_of b1 = (batch_of ?b) |` (- ?F)"
     "\<forall>k. slot_id b1 k = (if k \<in> set ks1 then None else slot_id ?b k)" "set ks1 = {k. \<exists>i \<in> ?F. slot_id ?b k = Some i}" "distinct ks1"
     "length (ib_req_ids b1) = length (ib_req_ids ?b)" "same_shape ?b b1"
    using remove_rows_ok[OF i(1) f(1), of False] unfolding f(2) by auto
  define un where "un = id_order (set (dict_keys (ib_req_id_to_index b1)) - ?K)"
  have u: "distinct un" "set un = dom (batch_of b1) - ?K" using ids(1) by (simp_all add: un_def lists_sets_def dom_batch_of)
  obtain ks2 b2 where b2: "remove_rows un True b1 = Inr (ks2, b2)" "batch_inv b2" "batch_of b2 = (batch_of b1) |` (- set un)"
     "\<forall>k. slot_id b2 k = (if k \<in> set ks2 then None else slot_id b1 k)" "set ks2 = {k. \<exists>i \<in> set un. slot_id b1 k = Some i}" "distinct ks2"
     "length (ib_req_ids b2) = length (ib_req_ids b1)" "same_shape b1 b2"
    using remove_rows_ok[OF b1(2) u(1), of True] u(2) by auto
  define w1 where "w1 = w\<lparr>gr_requests := fold dict_pop finished (gr_requests w), gr_encoder_cache := fold dict_pop finished (gr_encoder_cache w)\<rparr>"
  define w' where "w' = w1\<lparr>gr_encoder_cache := fold free_encoder_output (so_free_encoder_input_ids sched) (gr_encoder_cache w1), gr_batch := b2\<rparr>"
  have run: "drop_requests id_order sched w = Inr (ks1 @ ks2, w')"
    by (simp add: drop_requests_def Let_def finished_def[symmetric] b1(1) b2(1)[unfolded un_def, simplified] w'_def w1_def)
  have g: "gr_batch w' = b2" "gr_states w' = gr_states w" "dict_get (gr_requests w') = (dict_get (gr_requests w)) |` (- ?F)"
    "gr_block_size w' = gr_block_size w"
    by (simp_all add: w'_def w1_def dict_get_fold_pop f(2))
  have st: "state_of w' = (state_of w) |` (- ?F)" by (auto simp: state_of_def g restrict_map_def fun_eq_iff)
  have bo: "batch_of b2 = (batch_of ?b) |` (?K - ?F)" unfolding b2(3) u(2) b1(3) by (auto simp: restrict_map_def fun_eq_iff)
  have sh: "same_shape ?b b2" by (rule same_shape_trans[OF b1(8) b2(8)])
  have "states_ok w'" using i(2) by (simp add: states_ok_def g restrict_map_def)
  moreover have "states_fit w'" using i(4) sh by (auto simp: states_fit_def st g restrict_map_def fits_row_def same_shape_def)
  moreover have "rows_ok w'" unfolding rows_ok_def g(1) bo
  proof (intro allI impI)
    fix j row
    assume "((batch_of ?b) |` (?K - ?F)) j = Some row"
    then have j: "batch_of ?b j = Some row" "j \<notin> ?F" by (auto simp: restrict_map_def split: if_splits)
    then have "row_ok w j row" using i(3) by (simp add: rows_ok_def)
    then show "row_ok w' j row" using j(2) sh by (simp add: row_ok_def g same_shape_def)
  qed
  ultimately have inv': "runner_inv w'" using b2(2) by (simp add: runner_inv_def g)
  have "set ks1 \<inter> set ks2 = {}" using b1(4) b2(5) by auto
  then have dist: "distinct (ks1 @ ks2)" using b1(6) b2(6) by simp
  have "k \<in> set (ks1 @ ks2) \<longleftrightarrow> k \<in> holes_of b2" for k
  proof
    assume "k \<in> set (ks1 @ ks2)"
    then have "slot_id b2 k = None" using b1(4) b2(4) by auto
    moreover have "\<exists>i. slot_id ?b k = Some i" using \<open>k \<in> set (ks1 @ ks2)\<close> b1(4,5) b2(5) by (auto split: if_splits)
    then have "k < length (ib_req_ids ?b)" using slot_bound[of ?b k] by auto
    ultimately show "k \<in> holes_of b2" using b1(7) b2(7) by (simp add: holes_of_def)
  next
    assume "k \<in> holes_of b2"
    then have "k < length (ib_req_ids ?b)" "slot_id b2 k = None" using b1(7) b2(7) by (simp_all add: holes_of_def)
    moreover have "slot_id ?b k \<noteq> None" by (rule compact_slots[OF x full calculation(1)])
    ultimately show "k \<in> set (ks1 @ ks2)" using b1(4) b2(4) by (auto split: if_splits)
  qed
  then have "set (ks1 @ ks2) = holes_of b2" by blast
  then show ?thesis using run inv' st bo dist sh g by (intro exI[of _ "ks1 @ ks2"] exI[of _ w']) simp
qed

lemma new_requests_ok:
  assumes "runner_inv w" "distinct (map nd_req_id ds)"
    "\<And>d. d \<in> set ds \<Longrightarrow> batch_of (gr_batch w) (nd_req_id d) = None \<and> fits_row (gr_batch w) (CachedRequestState_new d)"
  shows "runner_inv (fold new_request_state ds w) \<and> gr_batch (fold new_request_state ds w) = gr_batch w \<and>
     gr_block_size (fold new_request_state ds w) = gr_block_size w \<and>
     state_of (fold new_request_state ds w) =
       (\<lambda>i. case find (\<lambda>d. nd_req_id d = i) ds of None \<Rightarrow> state_of w i | Some d \<Rightarrow> Some (CachedRequestState_new d))"
  using assms
proof (induction ds arbitrary: w)
  case (Cons d ds)
  let ?i = "nd_req_id d"
  define w1 where "w1 = new_request_state d w"
  have inv: "batch_inv (gr_batch w)" "states_ok w" "rows_ok w" "states_fit w" using Cons.prems(1) by (simp_all add: runner_inv_def)
  have b: "gr_batch w1 = gr_batch w" "gr_block_size w1 = gr_block_size w" by (simp_all add: w1_def new_request_state_def)
  have keep: "gr_state w1 r = gr_state w r" if "dict_get (gr_requests w) j = Some r" for j r
    using inv(2) that by (simp add: states_ok_def w1_def new_request_state_def nth_append)
  have s1: "state_of w1 = (state_of w)(?i \<mapsto> CachedRequestState_new d)"
  proof
    fix j
    show "state_of w1 j = ((state_of w)(?i \<mapsto> CachedRequestState_new d)) j"
    proof (cases "j = ?i")
      case True
      then show ?thesis by (simp add: state_of_def w1_def new_request_state_def)
    next
      case False
      then have "dict_get (gr_requests w1) j = dict_get (gr_requests w) j" by (simp add: w1_def new_request_state_def)
      then show ?thesis using False keep[of j] by (cases "dict_get (gr_requests w) j") (simp_all add: state_of_def)
    qed
  qed
  have "states_ok w1" using inv(2) by (auto simp: states_ok_def w1_def new_request_state_def nth_append CachedRequestState_new_def less_Suc_eq)
  moreover have "states_fit w1" using inv(4) Cons.prems(3)[of d] by (simp add: states_fit_def s1 b)
  moreover have "rows_ok w1" unfolding rows_ok_def b
  proof (intro allI impI)
    fix j row
    assume j: "batch_of (gr_batch w) j = Some row"
    then have "row_ok w j row" "j \<noteq> ?i" using inv(3) Cons.prems(3)[of d] by (auto simp: rows_ok_def)
    then show "row_ok w1 j row" using keep[of j] unfolding row_ok_def b by (auto simp: w1_def new_request_state_def)
  qed
  ultimately have inv1: "runner_inv w1" using inv(1) by (simp add: runner_inv_def b)
  have dist: "distinct (map nd_req_id ds)" using Cons.prems(2) by simp
  have "runner_inv (fold new_request_state ds w1) \<and> gr_batch (fold new_request_state ds w1) = gr_batch w1 \<and>
     gr_block_size (fold new_request_state ds w1) = gr_block_size w1 \<and>
     state_of (fold new_request_state ds w1) =
       (\<lambda>i. case find (\<lambda>d. nd_req_id d = i) ds of None \<Rightarrow> state_of w1 i | Some d \<Rightarrow> Some (CachedRequestState_new d))"
    by (rule Cons.IH[OF inv1 dist]) (use Cons.prems(3) b in auto)
  moreover have "find (\<lambda>e. nd_req_id e = ?i) ds = None" 
    unfolding find_None_iff using Cons.prems(2) by (auto intro: rev_image_eqI)
  ultimately show ?case using s1 b by (auto simp: w1_def[symmetric] fun_eq_iff split: option.split)
qed simp

section \<open>The whole update\<close>

text \<open>
  What \<open>_update_states\<close> needs of the scheduler's output: every scheduled request is announced once,
  as new or as known; a new one is not in the batch any more; the batch is large enough.
\<close>

definition announces :: "GPUModelRunner \<Rightarrow> SchedulerOutput \<Rightarrow> (string \<Rightarrow> int list) \<Rightarrow> bool" where
  "announces w sched toks \<longleftrightarrow> so_scheduled_spec_decode_tokens sched = [] \<and> finite (so_finished_req_ids sched) \<and>
     distinct (map nd_req_id (so_scheduled_new_reqs sched) @ map cd_req_id (so_scheduled_cached_reqs sched)) \<and>
     set (map nd_req_id (so_scheduled_new_reqs sched) @ map cd_req_id (so_scheduled_cached_reqs sched)) =
       set (dict_keys (so_num_scheduled_tokens sched)) \<and>
     dict_ok (so_num_scheduled_tokens sched) \<and> length (so_num_scheduled_tokens sched) \<le> ib_max_num_reqs (gr_batch w) \<and>
     (\<forall>d \<in> set (so_scheduled_new_reqs sched).
        (batch_of (gr_batch w) (nd_req_id d) = None \<or> nd_req_id d \<in> so_finished_req_ids sched) \<and>
        fits_row (gr_batch w) (CachedRequestState_new d) \<and> 0 \<le> nd_num_computed_tokens d \<and>
        nd_num_computed_tokens d \<le> int (length (nd_prompt_token_ids d))) \<and>
     (\<forall>d \<in> set (so_scheduled_cached_reqs sched). cd_req_id d \<notin> so_finished_req_ids sched \<and>
        (\<exists>st. state_of w (cd_req_id d) = Some st \<and> cached_ok (gr_batch w) d (toks (cd_req_id d)) st))"

definition state_after :: "GPUModelRunner \<Rightarrow> SchedulerOutput \<Rightarrow> string \<Rightarrow> CachedRequestState option" where
  "state_after w sched i =
     (case find (\<lambda>d. nd_req_id d = i) (so_scheduled_new_reqs sched) of Some d \<Rightarrow> Some (CachedRequestState_new d)
      | None \<Rightarrow> (case find (\<lambda>d. cd_req_id d = i) (so_scheduled_cached_reqs sched) of Some d \<Rightarrow> map_option (advance d) (state_of w i)
          | None \<Rightarrow> if i \<in> so_finished_req_ids sched then None else state_of w i))"

lemma find_key:
  assumes "distinct (map f ds)" "d \<in> set ds"
  shows "find (\<lambda>e. f e = f d) ds = Some d"
  using assms by (induction ds) auto

lemma find_key_None: "k \<notin> f ` set ds \<Longrightarrow> find (\<lambda>e. f e = k) ds = None"
  by (induction ds) auto

lemma compact_index: "index_ok b \<Longrightarrow> InputBatch_num_reqs b = card (dom (batch_of b))"
  unfolding dom_batch_of InputBatch_num_reqs_def index_ok_def by (simp add: dict_length_card)

lemma runner_inv_batch:
  assumes "runner_inv w" "batch_inv b" "batch_of b = batch_of (gr_batch w)" "same_shape (gr_batch w) b"
  shows "runner_inv (w\<lparr>gr_batch := b\<rparr>)"
  using assms by (auto simp: runner_inv_def rows_ok_def row_ok_def states_ok_def states_fit_def state_of_def fits_row_def same_shape_def)

lemma entered_rows_ok:
  assumes "runner_inv w" "batch_inv b" "same_shape (gr_batch w) b"
    "batch_of b = (\<lambda>i. if i \<in> A then row_of w i else batch_of (gr_batch w) i)"
    "\<And>i st. i \<in> A \<Longrightarrow> state_of w i = Some st \<Longrightarrow>
       0 \<le> cs_num_computed_tokens st \<and> cs_num_computed_tokens st \<le> int (CachedRequestState_num_tokens st)"
  shows "runner_inv (w\<lparr>gr_batch := b\<rparr>)"
proof -
  have "row_ok (w\<lparr>gr_batch := b\<rparr>) i row" if r: "batch_of b i = Some row" for i row
  proof (cases "i \<in> A")
    case True
    then obtain s where s: "dict_get (gr_requests w) i = Some s" "row = fresh_row (gr_state w s) s (ib_vocab_size b)"
      using r assms(3) unfolding assms(4) by (auto simp: row_of_def same_shape_def split: option.splits)
    then have "state_of w i = Some (gr_state w s)" by (simp add: state_of_def)
    from assms(5)[OF True this] show ?thesis using s unfolding row_ok_def fresh_row_of_state
      by (intro exI[of _ s] exI[of _ "int (CachedRequestState_num_tokens (gr_state w s))"]) simp
  next
    case False
    then have "row_ok w i row" using r assms(1) unfolding assms(4) by (simp add: runner_inv_def rows_ok_def)
    then show ?thesis using assms(3) by (simp add: row_ok_def same_shape_def)
  qed
  then have "rows_ok (w\<lparr>gr_batch := b\<rparr>)" by (simp add: rows_ok_def)
  then show ?thesis using assms(1,2,3)
    by (auto simp: runner_inv_def states_ok_def states_fit_def state_of_def fits_row_def same_shape_def)
qed

text \<open>Without rows that leave or enter, the metadata stay as they are.\<close>

lemma remove_rows_none: "remove_rows ids must_exist b = Inr ([], b') \<Longrightarrow> b' = b"
  by (induction ids arbitrary: b)
    (auto simp: InputBatch_remove_request_def Let_def split: option.splits if_splits elim!: res_bind_InrE)

lemma drop_requests_none: "drop_requests id_order sched w = Inr ([], w') \<Longrightarrow> gr_batch w' = gr_batch w"
  by (auto simp: drop_requests_def Let_def elim!: res_bind_InrE dest!: remove_rows_none)

lemma update_row_sampling: "update_row sched d k b = Inr b' \<Longrightarrow> same_sampling b b'"
  by (auto simp: update_row_def Let_def same_sampling_def classes_of_def fun_eq_iff elim!: res_bind_InrE)

lemma update_cached_sampling: "update_cached sched ds w = Inr (ids, w') \<Longrightarrow> same_sampling (gr_batch w) (gr_batch w')"
proof (induction ds arbitrary: w ids)
  case (Cons d ds)
  obtain r st where st: "update_cached_state d (gr_state w r) = Inr st"
    and a: "(case dict_get (ib_req_id_to_index (gr_batch (gr_put r st w))) (cd_req_id d) of
       None \<Rightarrow> res_bind (update_cached sched ds (gr_put r st w)) (\<lambda>(ids, w2). Inr (cd_req_id d # ids, w2))
     | Some i \<Rightarrow> res_bind (update_row sched d i (gr_batch (gr_put r st w))) (\<lambda>b. update_cached sched ds ((gr_put r st w)\<lparr>gr_batch := b\<rparr>))) =
       Inr (ids, w')"
    using Cons.prems by (auto simp: Let_def elim!: res_bind_InrE)
  have g: "gr_batch (gr_put r st w) = gr_batch w" by (simp add: gr_put_def)
  show ?case
  proof (cases "dict_get (ib_req_id_to_index (gr_batch w)) (cd_req_id d)")
    case None
    then obtain ids' where "update_cached sched ds (gr_put r st w) = Inr (ids', w')" using a by (auto simp: g elim!: res_bind_InrE)
    from Cons.IH[OF this] show ?thesis by (simp add: g)
  next
    case (Some i)
    then obtain b where b: "update_row sched d i (gr_batch w) = Inr b" "update_cached sched ds ((gr_put r st w)\<lparr>gr_batch := b\<rparr>) = Inr (ids, w')"
      using a by (auto simp: g elim!: res_bind_InrE)
    from same_sampling_trans[OF update_row_sampling[OF b(1)]] Cons.IH[OF b(2)] show ?thesis by simp
  qed
qed simp

lemma update_states_ok:
  assumes inv: "runner_inv w" and full: "compact (gr_batch w)" and ids: "lists_sets id_order" and so: "announces w sched toks"
  shows "\<exists>w'. GPUModelRunner_update_states id_order sched w = Inr w' \<and> runner_inv w' \<and> compact (gr_batch w') \<and>
     state_of w' = state_after w sched \<and> dom (batch_of (gr_batch w')) = set (dict_keys (so_num_scheduled_tokens sched)) \<and>
     same_shape (gr_batch w) (gr_batch w') \<and> gr_block_size w' = gr_block_size w \<and>
     (metadata_ok (gr_batch w) \<longrightarrow> metadata_ok (gr_batch w')) \<and>
     (\<forall>d \<in> set (so_scheduled_new_reqs sched). \<forall>row. batch_of (gr_batch w') (nd_req_id d) = Some row \<longrightarrow>
        br_num_tokens row = int (length (nd_prompt_token_ids d))) \<and>
     (\<forall>d \<in> set (so_scheduled_cached_reqs sched). \<forall>row. batch_of (gr_batch w') (cd_req_id d) = Some row \<longrightarrow>
        cd_num_computed_tokens d + int (length (cd_new_token_ids d)) \<le> br_num_tokens row)"
proof -
  let ?b = "gr_batch w" and ?F = "so_finished_req_ids sched" and ?K = "set (dict_keys (so_num_scheduled_tokens sched))"
  define news where "news = so_scheduled_new_reqs sched"
  define cached where "cached = so_scheduled_cached_reqs sched"
  have so: "so_scheduled_spec_decode_tokens sched = []" "finite ?F" "distinct (map nd_req_id news)" "distinct (map cd_req_id cached)"
    "nd_req_id ` set news \<inter> cd_req_id ` set cached = {}" "nd_req_id ` set news \<union> cd_req_id ` set cached = ?K"
    "dict_ok (so_num_scheduled_tokens sched)" "length (so_num_scheduled_tokens sched) \<le> ib_max_num_reqs ?b"
    "\<And>d. d \<in> set news \<Longrightarrow> (batch_of ?b (nd_req_id d) = None \<or> nd_req_id d \<in> ?F) \<and> fits_row ?b (CachedRequestState_new d) \<and>
        0 \<le> nd_num_computed_tokens d \<and> nd_num_computed_tokens d \<le> int (length (nd_prompt_token_ids d))"
    "\<And>d. d \<in> set cached \<Longrightarrow> cd_req_id d \<notin> ?F \<and> (\<exists>st. state_of w (cd_req_id d) = Some st \<and> cached_ok ?b d (toks (cd_req_id d)) st)"
    using so unfolding announces_def news_def[symmetric] cached_def[symmetric] by auto
  obtain ks w1 where w1: "drop_requests id_order sched w = Inr (ks, w1)" "runner_inv w1" "state_of w1 = (state_of w) |` (- ?F)"
     "batch_of (gr_batch w1) = (batch_of ?b) |` (?K - ?F)" "distinct ks" "set ks = holes_of (gr_batch w1)" "same_shape ?b (gr_batch w1)"
     "gr_block_size w1 = gr_block_size w"
    using drop_requests_ok[OF inv full ids so(2)] by blast
  define w2 where "w2 = fold new_request_state news w1"
  have "batch_of (gr_batch w1) (nd_req_id d) = None \<and> fits_row (gr_batch w1) (CachedRequestState_new d)" if "d \<in> set news" for d
    using so(9)[OF that] w1(4,7) by (auto simp: restrict_map_def fits_row_def same_shape_def)
  then have w2: "runner_inv w2" "gr_batch w2 = gr_batch w1" "gr_block_size w2 = gr_block_size w"
    "state_of w2 = (\<lambda>i. case find (\<lambda>d. nd_req_id d = i) news of None \<Rightarrow> state_of w1 i | Some d \<Rightarrow> Some (CachedRequestState_new d))"
    using new_requests_ok[OF w1(2) so(3)] w1(8) by (simp_all add: w2_def)
  have cached2: "\<forall>d \<in> set cached. \<exists>st. state_of w2 (cd_req_id d) = Some st \<and> cached_ok (gr_batch w2) d (toks (cd_req_id d)) st"
  proof
    fix d
    assume d: "d \<in> set cached"
    have F: "cd_req_id d \<notin> ?F" and K: "cd_req_id d \<in> ?K" using so(6,10) d by blast+
    obtain st where st: "state_of w (cd_req_id d) = Some st" "cached_ok ?b d (toks (cd_req_id d)) st" using so(10)[OF d] by blast
    have "cd_req_id d \<notin> nd_req_id ` set news" using so(5) d by blast
    then have "state_of w2 (cd_req_id d) = Some st" using F st(1) by (simp add: w2(4) w1(3) find_key_None)
    moreover have "batch_of (gr_batch w1) (cd_req_id d) = batch_of ?b (cd_req_id d)" using F K by (simp add: w1(4))
    ultimately show "\<exists>st. state_of w2 (cd_req_id d) = Some st \<and> cached_ok (gr_batch w2) d (toks (cd_req_id d)) st"
      using st(2) cached_ok_cong[OF w1(7)] by (simp add: w2(2))
  qed
  define late where "late = filter (\<lambda>i. batch_of (gr_batch w2) i = None) (map cd_req_id cached)"
  obtain w3 where w3: "update_cached sched cached w2 = Inr (late, w3)" "runner_inv w3"
     "gr_requests w3 = gr_requests w2" "same_shape (gr_batch w2) (gr_batch w3)" "gr_block_size w3 = gr_block_size w2"
     "state_of w3 = (\<lambda>i. case find (\<lambda>d. cd_req_id d = i) cached of None \<Rightarrow> state_of w2 i | Some d \<Rightarrow> map_option (advance d) (state_of w2 i))"
     "ib_req_id_to_index (gr_batch w3) = ib_req_id_to_index (gr_batch w2)" "slot_id (gr_batch w3) = slot_id (gr_batch w2)"
     "length (ib_req_ids (gr_batch w3)) = length (ib_req_ids (gr_batch w2))"
     "\<forall>d \<in> set cached. \<forall>row. batch_of (gr_batch w3) (cd_req_id d) = Some row \<longrightarrow>
        br_num_tokens row = cd_num_computed_tokens d + int (length (cd_new_token_ids d))"
    using update_cached_ok[OF w2(1) so(4) cached2 so(1)] unfolding late_def[symmetric] by (elim exE conjE) (rule that; assumption)
  let ?b3 = "gr_batch w3"
  have sh3: "same_shape ?b ?b3" using same_shape_trans[OF w1(7)] w3(4) by (simp add: w2(2))
  have st3: "state_of w3 i = state_after w sched i" for i
  proof (cases "find (\<lambda>d. cd_req_id d = i) cached")
    case None
    then show ?thesis unfolding w3(6) w2(4) w1(3) state_after_def news_def[symmetric] cached_def[symmetric]
      by (cases "find (\<lambda>d. nd_req_id d = i) news") (simp_all add: restrict_map_def)
  next
    case (Some d)
    then have d: "d \<in> set cached" "cd_req_id d = i" by (auto simp: find_Some_iff)
    then have "i \<notin> ?F" "i \<notin> nd_req_id ` set news" using so(5,10) by blast+
    then show ?thesis unfolding w3(6) w2(4) w1(3) state_after_def news_def[symmetric] cached_def[symmetric]
      using Some by (simp add: find_key_None restrict_map_def)
  qed
  have x3: "index_ok ?b3" "batch_inv ?b3" "states_ok w3" "rows_ok w3" "states_fit w3" using w3(2) by (simp_all add: runner_inv_def batch_inv_def)
  have dom2: "dom (batch_of (gr_batch w2)) \<subseteq> ?K - ?F" unfolding w2(2) w1(4) by (auto simp: restrict_map_def split: if_splits)
  have dom3: "dom (batch_of ?b3) = dom (batch_of (gr_batch w2))" by (simp add: dom_batch_of w3(7))
  have late: "set late = cd_req_id ` set cached - dom (batch_of ?b3)" "distinct late"
    using so(4) unfolding dom3 by (auto simp: late_def)
  define to_add where "to_add = map nd_req_id news @ late"
  have new_fresh: "nd_req_id ` set news \<inter> dom (batch_of ?b3) = {}"
  proof -
    have "batch_of (gr_batch w1) (nd_req_id d) = None" if "d \<in> set news" for d
      using so(9)[OF that] unfolding w1(4) by (auto simp: restrict_map_def)
    then show ?thesis unfolding dom3 w2(2) by auto
  qed
  have add: "distinct to_add" "set to_add \<inter> dom (batch_of ?b3) = {}" "set to_add \<union> dom (batch_of ?b3) = ?K"
    using so(3,5,6) late new_fresh dom2 dom3 unfolding to_add_def by (auto simp: to_add_def)
  have holes: "sorted_wrt (<) (sort ks)" "set (sort ks) = holes_of ?b3"
    using w1(5,6) w3(8,9) by (simp_all add: holes_of_def w2(2) strict_sorted_iff)
  have fit: "\<exists>q. state_of w3 i = Some q \<and> fits_row ?b3 q" if i: "i \<in> set to_add" for i
  proof -
    have "state_of w3 i \<noteq> None"
    proof (cases "i \<in> nd_req_id ` set news")
      case True
      then obtain d where "d \<in> set news" "nd_req_id d = i" by blast
      then show ?thesis using find_key[OF so(3)] unfolding st3 state_after_def news_def[symmetric] by auto
    next
      case False
      then obtain d where d: "d \<in> set cached" "cd_req_id d = i" using i late(1) by (auto simp: to_add_def)
      then show ?thesis using find_key[OF so(4) d(1)] so(10)[OF d(1)] find_key_None[OF False]
        unfolding st3 state_after_def news_def[symmetric] cached_def[symmetric] by auto
    qed
    then show ?thesis using x3(5) by (auto simp: states_fit_def)
  qed
  have cap: "InputBatch_num_reqs ?b3 + length to_add \<le> ib_max_num_reqs ?b3"
  proof -
    have "finite (dom (batch_of ?b3))" by (simp add: dom_batch_of)
    then have "card ?K = card (set to_add) + card (dom (batch_of ?b3))"
      using add(2) unfolding add(3)[symmetric] by (intro card_Un_disjoint) simp_all
    moreover have "card ?K = length (so_num_scheduled_tokens sched)" using so(7) by (simp add: dict_length_card)
    ultimately show ?thesis using so(8) sh3 add(1) compact_index[OF x3(1)] by (simp add: distinct_card same_shape_def)
  qed
  obtain holes' b4 where b4: "enter_batch to_add (sort ks) w3 = Inr (holes', w3\<lparr>gr_batch := b4\<rparr>)" "batch_inv b4"
     "batch_of b4 = (\<lambda>i. if i \<in> set to_add then row_of w3 i else batch_of ?b3 i)" "same_shape ?b3 b4"
     "sorted_wrt (<) holes'" "set holes' = holes_of b4"
    using enter_batch_ok[OF x3(2,3) add(1,2) holes fit cap] by blast
  have state_new: "state_of w3 (nd_req_id d) = Some (CachedRequestState_new d)" if "d \<in> set news" for d
    using find_key[OF so(3) that] unfolding st3 state_after_def news_def[symmetric] by simp
  have state_cached: "\<exists>st. state_of w3 (cd_req_id d) = Some (advance d st) \<and> cached_ok ?b d (toks (cd_req_id d)) st" if "d \<in> set cached" for d
  proof -
    have "cd_req_id d \<notin> nd_req_id ` set news" using so(5) that by blast
    then show ?thesis using find_key[OF so(4) that] so(10)[OF that] find_key_None[of "cd_req_id d" nd_req_id news]
      unfolding st3 state_after_def news_def[symmetric] cached_def[symmetric] by auto
  qed
  have num_new: "CachedRequestState_num_tokens (CachedRequestState_new d) = length (nd_prompt_token_ids d)" for d
    by (simp add: CachedRequestState_num_tokens_def CachedRequestState_new_def)
  have computed: "0 \<le> cs_num_computed_tokens st \<and> cs_num_computed_tokens st \<le> int (CachedRequestState_num_tokens st)"
    if i: "i \<in> set to_add" and st: "state_of w3 i = Some st" for i st
  proof (cases "i \<in> nd_req_id ` set news")
    case True
    then obtain d where d: "d \<in> set news" "nd_req_id d = i" by blast
    then have "st = CachedRequestState_new d" using state_new st by auto
    then show ?thesis using so(9)[OF d(1)] num_new[of d] by (simp add: CachedRequestState_new_def)
  next
    case False
    then obtain d where d: "d \<in> set cached" "cd_req_id d = i" using i late(1) by (auto simp: to_add_def)
    then obtain st0 where "st = advance d st0" "cached_ok ?b d (toks (cd_req_id d)) st0" using state_cached st by force
    then show ?thesis using advance_tokens(2)[of ?b d "toks (cd_req_id d)" st0] by (auto simp: cached_ok_def Let_def)
  qed
  define w4 where "w4 = w3\<lparr>gr_batch := b4\<rparr>"
  have w4: "runner_inv w4" unfolding w4_def by (rule entered_rows_ok[OF w3(2) b4(2,4,3) computed])
  have g4: "gr_batch w4 = b4" by (simp add: w4_def)
  have count4: "counts_ok b4" using rows_ok_counts[of w4] w4 by (simp add: runner_inv_def g4)
  have x4: "index_ok b4" using b4(2) by (simp add: batch_inv_def)
  obtain b5 where b5: "(if holes' = [] then Inr b4 else InputBatch_condense (rev holes') b4) = Inr b5" "batch_inv b5" "batch_of b5 = batch_of b4"
    "same_shape b4 b5" "compact b5"
  proof (cases "holes' = []")
    case True
    then have "compact b4" using b4(6) by (intro full_compact[OF x4]) (auto simp: holes_of_def)
    then show ?thesis using that[of b4] True b4(2) by simp
  next
    case False
    have h: "sorted_wrt (<) (rev (rev holes'))" "set (rev holes') = {k. k < length (ib_req_ids b4) \<and> slot_id b4 k = None}"
      using b4(5,6) by (simp_all add: holes_of_def)
    show ?thesis using condense_ok[OF b4(2) count4 h] False that by auto
  qed
  obtain b6 where b6: "(if ks \<noteq> [] \<or> to_add \<noteq> [] then InputBatch_refresh_sampling_metadata b5 else Inr b5) = Inr b6" "batch_inv b6"
    "batch_of b6 = batch_of b5" "same_shape b5 b6" "compact b6"
  proof (cases "ks \<noteq> [] \<or> to_add \<noteq> []")
    case True
    obtain sm where sm: "InputBatch_refresh_sampling_metadata b5 = Inr (b5\<lparr>ib_device := copy_sampling_tensors b5, ib_sampling_metadata := sm\<rparr>)"
      "batch_inv (b5\<lparr>ib_device := copy_sampling_tensors b5, ib_sampling_metadata := sm\<rparr>)"
      "batch_of (b5\<lparr>ib_device := copy_sampling_tensors b5, ib_sampling_metadata := sm\<rparr>) = batch_of b5"
      using refresh_ok[OF b5(2)] by blast
    show ?thesis using that[OF _ sm(2,3)] sm(1) True b5(5) by (simp add: same_shape_def compact_def InputBatch_num_reqs_def)
  next
    case False
    then show ?thesis using that[of b5] b5 by simp
  qed
  have meta: "metadata_ok b6" if ok: "metadata_ok ?b"
  proof (cases "ks \<noteq> [] \<or> to_add \<noteq> []")
    case True
    then show ?thesis using refresh_describes[OF b5(2,5)] b6(1) by simp
  next
    case False
    then have "gr_batch w1 = ?b" "holes' = []" "b4 = ?b3" using w1(1) b4(1) by (auto dest: drop_requests_none) (cases w3, simp)
    then have e: "b6 = ?b3" "gr_batch w2 = ?b" using False b5(1) b6(1) by (simp_all add: w2(2))
    have "same_sampling ?b b6" using update_cached_sampling[OF w3(1)] unfolding e .
    from same_sampling_metadata[OF this _ full b6(2,5)] inv ok show ?thesis by (simp add: runner_inv_def)
  qed
  define w' where "w' = w4\<lparr>gr_batch := b6\<rparr>"
  have run: "GPUModelRunner_update_states id_order sched w = Inr w'"
    unfolding GPUModelRunner_update_states_def Let_def
    by (simp only: w1(1) res_bind_simps prod.case news_def[symmetric] w2_def[symmetric] cached_def[symmetric] w3(1) to_add_def[symmetric] b4(1)
      w4_def[symmetric] g4 b5(1) b6(1) w'_def)
  have bo: "batch_of b6 = (\<lambda>i. if i \<in> set to_add then row_of w3 i else batch_of ?b3 i)" by (simp add: b6(3) b5(3) b4(3))
  have inv': "runner_inv w'" unfolding w'_def
    by (rule runner_inv_batch[OF w4]) (use b6 b5 same_shape_trans[OF b5(4) b6(4)] in \<open>simp_all add: g4\<close>)
  have st': "state_of w' = state_after w sched" using st3 by (simp add: w'_def w4_def state_of_def fun_eq_iff)
  have row_some: "row_of w3 i \<noteq> None" if "i \<in> set to_add" for i
    using fit[OF that] by (auto simp: row_of_def state_of_def split: option.split)
  have dom6: "dom (batch_of b6) = ?K" unfolding bo using row_some add(3) by (auto simp: dom_def)
  have sh6: "same_shape ?b b6"
    using same_shape_trans[OF sh3 same_shape_trans[OF b4(4) same_shape_trans[OF b5(4) b6(4)]]] .
  have row_num: "br_num_tokens row = int (CachedRequestState_num_tokens st)"
    if "row_of w3 i = Some row" "state_of w3 i = Some st" for i row st
    using that by (auto simp: row_of_def state_of_def fresh_row_of_state split: option.splits)
  have nn: "br_num_tokens row = int (length (nd_prompt_token_ids d))" if d: "d \<in> set news" and "batch_of b6 (nd_req_id d) = Some row" for d row
  proof -
    have "nd_req_id d \<in> set to_add" using d by (simp add: to_add_def)
    then have "row_of w3 (nd_req_id d) = Some row" using that(2) by (simp add: bo)
    from row_num[OF this state_new[OF d]] show ?thesis by (simp add: num_new)
  qed
  have cc: "cd_num_computed_tokens d + int (length (cd_new_token_ids d)) \<le> br_num_tokens row"
    if d: "d \<in> set cached" and r: "batch_of b6 (cd_req_id d) = Some row" for d row
  proof (cases "cd_req_id d \<in> set to_add")
    case True
    obtain st where st: "state_of w3 (cd_req_id d) = Some (advance d st)" "cached_ok ?b d (toks (cd_req_id d)) st" using state_cached[OF d] by blast
    have "row_of w3 (cd_req_id d) = Some row" using r True by (simp add: bo)
    from row_num[OF this st(1)] show ?thesis using advance_tokens(2)[OF st(2)] st(2) by (simp add: cached_ok_def Let_def)
  next
    case False
    then show ?thesis using r w3(10) d by (simp add: bo)
  qed
  show ?thesis using run inv' b6(5) st' dom6 sh6 meta nn cc w3(5) w2(3)
    by (intro exI[of _ w'] conjI) (simp_all add: w'_def w4_def news_def cached_def)
qed

section \<open>The inputs of the model\<close>

text \<open>All arrays of the inputs run over the pairs of a row and an offset among its scheduled tokens.\<close>

definition cells :: "nat list \<Rightarrow> (nat \<times> nat) list" where
  "cells ns = concat (map (\<lambda>k. map (Pair k) [0..<ns ! k]) [0..<length ns])"

lemma cells_snoc: "cells (ns @ [n]) = cells ns @ map (Pair (length ns)) [0..<n]"
  unfolding cells_def by (auto simp: nth_append intro!: arg_cong[of _ _ concat] map_cong)

lemma cells_mem: "(k, j) \<in> set (cells ns) \<longleftrightarrow> k < length ns \<and> j < ns ! k"
  by (force simp: cells_def)

lemma cells_length: "length (cells ns) = sum_list ns"
  by (induction ns rule: rev_induct) (simp_all add: cells_snoc, simp add: cells_def)

lemma map_cells: "map f (cells ns) = concat (map (\<lambda>k. map (\<lambda>j. f (k, j)) [0..<ns ! k]) [0..<length ns])"
  by (simp add: cells_def map_concat comp_def)

lemma np_repeat_cells: "length xs = length ns \<Longrightarrow> np_repeat xs ns = map (\<lambda>(k, j). xs ! k) (cells ns)"
proof (induction ns arbitrary: xs rule: rev_induct)
  case (snoc n ns)
  then obtain ys y where xs: "xs = ys @ [y]" "length ys = length ns" by (cases xs rule: rev_cases) auto
  have "map (\<lambda>(k, j). xs ! k) (cells ns) = map (\<lambda>(k, j). ys ! k) (cells ns)"
    by (auto simp: xs nth_append cells_mem)
  moreover have "np_repeat xs (ns @ [n]) = np_repeat ys ns @ replicate n y" by (simp add: np_repeat_def xs)
  ultimately show ?case using snoc.IH[OF xs(2)] xs by (simp add: cells_snoc comp_def map_replicate_const nth_append)
qed (simp add: np_repeat_def cells_def)

lemma cumsum_from_nth: "k < length ns \<Longrightarrow> cumsum_from a ns ! k = a + sum_list (take (Suc k) ns)"
  by (induction a ns arbitrary: k rule: cumsum_from.induct) (auto simp: nth_Cons split: nat.split)

lemma cumsum_from_length [simp]: "length (cumsum_from a ns) = length ns"
  by (induction a ns rule: cumsum_from.induct) simp_all

lemma cells_index:
  assumes "k < length ns" "j < ns ! k"
  shows "cells ns ! (sum_list (take k ns) + j) = (k, j)"
  using assms
proof (induction ns rule: rev_induct)
  case (snoc n ns)
  show ?case
  proof (cases "k < length ns")
    case True
    then have j: "j < ns ! k" using snoc.prems(2) by (simp add: nth_append)
    have "sum_list (take k ns) + j < sum_list (take (Suc k) ns)" using True j by (simp add: take_Suc_conv_app_nth)
    also have "\<dots> \<le> sum_list ns" by (metis append_take_drop_id le_add1 sum_list_append)
    finally have "sum_list (take k ns) + j < length (cells ns)" by (simp add: cells_length)
    then show ?thesis using snoc.IH[OF True j] True by (simp add: cells_snoc nth_append)
  next
    case False
    then have k: "k = length ns" "j < n" using snoc.prems by (simp_all add: nth_append)
    then show ?thesis by (simp add: cells_snoc nth_append cells_length)
  qed
qed simp

lemma arange_cells:
  "map2 (\<lambda>a o'. int a - int o') [0..<sum_list ns] (np_repeat (map2 (\<lambda>a n. a - n) (cumsum_from 0 ns) ns) ns) =
     map (\<lambda>(k, j). int j) (cells ns)" (is "?l = ?r")
proof (rule nth_equalityI)
  let ?off = "map2 (\<lambda>a n. a - n) (cumsum_from 0 ns) ns"
  have r: "np_repeat ?off ns = map (\<lambda>(k, j). ?off ! k) (cells ns)" by (rule np_repeat_cells) simp
  show "length ?l = length ?r" unfolding r by (simp add: cells_length)
  fix q
  assume "q < length ?l"
  then have q: "q < length (cells ns)" unfolding r by (simp add: cells_length)
  obtain k j where kj: "cells ns ! q = (k, j)" by (cases "cells ns ! q")
  then have m: "k < length ns" "j < ns ! k" using q by (metis cells_mem nth_mem)+
  have "sum_list (take k ns) + j < length (cells ns)"
  proof -
    have "sum_list (take k ns) + j < sum_list (take (Suc k) ns)" using m by (simp add: take_Suc_conv_app_nth)
    also have "\<dots> \<le> sum_list ns" by (metis append_take_drop_id le_add1 sum_list_append)
    finally show ?thesis by (simp add: cells_length)
  qed
  moreover have "distinct (cells ns)"
    by (induction ns rule: rev_induct) (auto simp: cells_snoc cells_mem distinct_map inj_on_def, simp add: cells_def)
  ultimately have qe: "q = sum_list (take k ns) + j"
    using cells_index[OF m] kj q nth_eq_iff_index_eq by metis
  have "?off ! k = sum_list (take k ns)" using m by (simp add: cumsum_from_nth take_Suc_conv_app_nth)
  moreover have "?l ! q = int q - int (?off ! k)" unfolding r using q kj by (simp add: cells_length)
  ultimately show "?l ! q = ?r ! q" using q kj qe by simp
qed

lemma map2_maps: "map2 f (map g ps) (map h ps) = map (\<lambda>p. f (g p) (h p)) ps"
  by (induction ps) simp_all

lemma res_map_maps: "(\<And>p. p \<in> set ps \<Longrightarrow> f (g p) = Inr (h p)) \<Longrightarrow> res_map f (map g ps) = Inr (map h ps)"
  by (induction ps) simp_all

lemma concat_nth_rows:
  "\<forall>row \<in> set rows. length row = l \<Longrightarrow> k < length rows \<Longrightarrow> j < l \<Longrightarrow>
     k * l + j < length (concat rows) \<and> concat rows ! (k * l + j) = rows ! k ! j"
proof (induction rows arbitrary: k)
  case (Cons row rows)
  show ?case
  proof (cases k)
    case 0
    then show ?thesis using Cons.prems by (simp add: nth_append)
  next
    case (Suc m)
    then show ?thesis using Cons.IH[of m] Cons.prems by (simp add: nth_append add.assoc)
  qed
qed simp

definition num_scheduled :: "SchedulerOutput \<Rightarrow> string \<Rightarrow> nat" where
  "num_scheduled sched i = nat (dict_get_default (so_num_scheduled_tokens sched) i 0)"

text \<open>The positions, tokens and slots of the next tokens of a row.\<close>

definition row_positions :: "batch_row \<Rightarrow> nat \<Rightarrow> int list" where
  "row_positions row n = map (\<lambda>j. br_num_computed row + int j) [0..<n]"

definition row_tokens :: "batch_row \<Rightarrow> nat \<Rightarrow> int list" where
  "row_tokens row n = take n (drop (nat (br_num_computed row)) (br_tokens row))"

definition row_slots :: "int \<Rightarrow> batch_row \<Rightarrow> nat \<Rightarrow> int list" where
  "row_slots bs row n = map (\<lambda>p. int (br_blocks row ! nat (p div bs)) * bs + p mod bs) (row_positions row n)"

lemma sum_list_int: "sum_list (map (\<lambda>i. int (f i)) xs) = int (sum_list (map f xs))"
  by (induction xs) simp_all

lemma dict_values_default:
  assumes "dict_ok d" "\<And>n. n \<in> set (dict_values d) \<Longrightarrow> 0 \<le> n"
  shows "dict_values d = map (\<lambda>i. int (nat (dict_get_default d i 0))) (dict_keys d)"
proof -
  have "snd y = int (nat (dict_get_default d (fst y) 0))" if y: "y \<in> set d" for y
  proof -
    have "dict_get d (fst y) = Some (snd y)" using dict_get_mem[OF assms(1), of "fst y" "snd y"] y by simp
    moreover have "0 \<le> snd y" using assms(2) y by simp
    ultimately show ?thesis by (simp add: dict_get_default_def)
  qed
  then show ?thesis by simp
qed

lemma prepare_inputs_ok:
  assumes inv: "runner_inv w" and full: "compact (gr_batch w)" and bs: "0 < gr_block_size w"
    and keys: "dom (batch_of (gr_batch w)) = set (dict_keys (so_num_scheduled_tokens sched))" "dict_ok (so_num_scheduled_tokens sched)"
    and total: "so_total_num_scheduled_tokens sched = sum_list (dict_values (so_num_scheduled_tokens sched))"
      "0 < so_total_num_scheduled_tokens sched"
    and pos: "\<And>n. n \<in> set (dict_values (so_num_scheduled_tokens sched)) \<Longrightarrow> 0 \<le> n"
    and room: "\<And>i row. batch_of (gr_batch w) i = Some row \<Longrightarrow>
      br_num_computed row + int (num_scheduled sched i) \<le> br_num_tokens row \<and>
      br_num_computed row + int (num_scheduled sched i) \<le> int (gr_block_size w * length (br_blocks row))"
  shows "\<exists>inputs b'. GPUModelRunner_prepare_inputs sched w = Inr (inputs, w\<lparr>gr_batch := b'\<rparr>) \<and>
     batch_inv b' \<and> compact b' \<and> batch_of b' = batch_of (gr_batch w) \<and> same_shape (gr_batch w) b' \<and>
     ib_req_id_to_index b' = ib_req_id_to_index (gr_batch w) \<and> ib_sampling_metadata b' = ib_sampling_metadata (gr_batch w) \<and>
     (let ids = batch_ids (gr_batch w); row = (\<lambda>i. the (batch_of (gr_batch w) i)); n = num_scheduled sched in
        mi_num_scheduled inputs = map n ids \<and>
        mi_positions inputs = concat (map (\<lambda>i. row_positions (row i) (n i)) ids) \<and>
        mi_input_ids inputs = concat (map (\<lambda>i. row_tokens (row i) (n i)) ids) \<and>
        mi_slot_mapping inputs = concat (map (\<lambda>i. row_slots (int (gr_block_size w)) (row i) (n i)) ids) \<and>
        mi_query_start_loc inputs = 0 # cumsum_from 0 (map n ids) \<and>
        mi_seq_lens inputs = map (\<lambda>i. br_num_computed (row i) + int (n i)) ids)"
proof -
  let ?b = "gr_batch w"
  have i: "batch_inv ?b" "rows_ok w" "states_fit w" using inv by (simp_all add: runner_inv_def)
  have a: "arrays_ok ?b" and x: "index_ok ?b" using i(1) by (simp_all add: batch_inv_def)
  define ids where "ids = batch_ids ?b"
  define num where "num = InputBatch_num_reqs ?b"
  define ns where "ns = map (num_scheduled sched) ids"
  define L where "L = ib_max_model_len ?b"
  define B where "B = bt_max_num_blocks_per_req (ib_block_table ?b)"
  define bsz where "bsz = int (gr_block_size w)"
  note id = batch_ids_ok[OF i(1) full, folded ids_def]
  have len: "length ids = num" "length ns = num" using id(3) by (simp_all add: num_def ns_def)
  define row where "row = (\<lambda>k. row_at ?b (ids ! k) k)"
  have row: "batch_of ?b (ids ! k) = Some (row k)" if "k < num" for k
    using batch_of_slot[OF x id(4)] that len(1) by (simp add: row_def)
  have kmax: "k < ib_max_num_reqs ?b" if "k < num" for k using slot_bound_max[OF a id(4)] that len(1) by simp
  define b1 where "b1 = ?b\<lparr>ib_block_table := BlockTable_commit num (ib_block_table ?b)\<rparr>"
  have same: "ib_token_ids b1 = ib_token_ids ?b" "ib_num_computed_tokens b1 = ib_num_computed_tokens ?b" "ib_max_model_len b1 = L"
    "bt_max_num_blocks_per_req (ib_block_table b1) = B" "bt_rows (ib_block_table b1) = bt_rows (ib_block_table ?b)" "ib_req_ids b1 = ib_req_ids ?b"
    by (simp_all add: b1_def BlockTable_commit_def L_def B_def)
  have get: "dict_item (so_num_scheduled_tokens sched) (ids ! k) = Inr (int (ns ! k))" if k: "k < num" for k
  proof -
    have "ids ! k \<in> set (dict_keys (so_num_scheduled_tokens sched))" using row[OF k] keys(1) by blast
    then obtain n where n: "dict_get (so_num_scheduled_tokens sched) (ids ! k) = Some n"
      using dict_has_keys[of "so_num_scheduled_tokens sched" "ids ! k"] by auto
    then have "0 \<le> n" using pos map_of_SomeD[OF n] by (metis imageI list.set_map snd_conv)
    then show ?thesis using n k len by (simp add: dict_item_def ns_def num_scheduled_def dict_get_default_def)
  qed
  have nums: "res_map (\<lambda>req_id. case req_id of None \<Rightarrow> Inl KeyError | Some i \<Rightarrow> dict_item (so_num_scheduled_tokens sched) i) (ib_req_ids b1) =
     Inr (map int ns)"
  proof -
    have e: "ib_req_ids b1 = map (\<lambda>k. Some (ids ! k)) [0..<num]" "map int ns = map (\<lambda>k. int (ns ! k)) [0..<num]"
      unfolding same id(5) by (rule nth_equalityI; simp add: len)+
    show ?thesis unfolding e by (rule res_map_maps) (simp add: get)
  qed
  have sum: "nat (so_total_num_scheduled_tokens sched) = sum_list ns"
  proof -
    have "sum_list (dict_values (so_num_scheduled_tokens sched)) =
        sum_list (map (\<lambda>i. int (num_scheduled sched i)) (dict_keys (so_num_scheduled_tokens sched)))"
      using arg_cong[OF dict_values_default[OF keys(2) pos], of sum_list] by (simp only: num_scheduled_def)
    also have "\<dots> = sum_list (map (\<lambda>i. int (num_scheduled sched i)) ids)"
      unfolding sum_list_distinct_conv_sum_set[OF id(1)] sum_list_distinct_conv_sum_set[OF keys(2)[unfolded dict_ok_def]]
      by (simp only: id(2) keys(1))
    finally show ?thesis unfolding total(1) ns_def by (simp only: sum_list_int nat_int)
  qed
  define ps where "ps = cells ns"
  define c where "c = (\<lambda>k. ib_num_computed_tokens ?b ! k)"
  have mem: "k < num \<and> j < ns ! k" if "(k, j) \<in> set ps" for k j using that len by (simp add: ps_def cells_mem)
  have rowk: "br_num_computed (row k) = c k" "br_tokens (row k) = take (nat (br_num_tokens (row k))) (ib_token_ids ?b ! k)"
    "br_blocks (row k) = take (bt_num_blocks_per_row (ib_block_table ?b) ! k) (bt_rows (ib_block_table ?b) ! k)" for k
    by (simp_all add: row_def row_at_def c_def)
  have rk: "0 \<le> c k \<and> br_num_tokens (row k) \<le> int L" if "k < num" for k
  proof -
    have "row_ok w (ids ! k) (row k)" using i(2) row[OF that] by (simp add: rows_ok_def)
    moreover have "counts_ok ?b" by (rule rows_ok_counts[OF i(2,3)])
    ultimately show ?thesis using row[OF that] rowk(1)[of k] unfolding counts_ok_def L_def by (auto simp: row_ok_def)
  qed
  have rm: "c k + int (ns ! k) \<le> br_num_tokens (row k) \<and> c k + int (ns ! k) \<le> bsz * int (length (br_blocks (row k)))" if "k < num" for k
    using room[OF row[OF that]] that len unfolding rowk(1) by (simp add: ns_def bsz_def)
  have tokl: "\<forall>r \<in> set (ib_token_ids ?b). length r = L" "length (ib_token_ids ?b) = ib_max_num_reqs ?b"
    "table_ok (ib_max_num_reqs ?b) (ib_block_table ?b)" using a by (simp_all add: arrays_ok_def Let_def L_def)
  have btl: "\<forall>r \<in> set (bt_rows (ib_block_table ?b)). length r = B" "length (bt_rows (ib_block_table ?b)) = ib_max_num_reqs ?b"
    using tokl(3) by (simp_all add: table_ok_def B_def)
  define positions where "positions = map (\<lambda>(k, j). c k + int j) ps"
  have ri: "np_repeat [0..<num] ns = map fst ps"
    using np_repeat_cells[of "[0..<num]" ns] len by (auto simp: ps_def cells_mem)
  have ar: "map2 (\<lambda>a o'. int a - int o') [0..<sum_list ns] (np_repeat (map2 (\<lambda>a n. a - n) (cumsum_from 0 ns) ns) ns) = map (\<lambda>p. int (snd p)) ps"
    using arange_cells[of ns] by (simp add: ps_def case_prod_beta)
  have po: "map2 (\<lambda>r a. ib_num_computed_tokens b1 ! r + a) (map fst ps) (map (\<lambda>p. int (snd p)) ps) = positions"
    unfolding map2_maps positions_def same c_def by (simp add: case_prod_beta)
  have ti: "index_select (ib_token_ids b1) (map2 (\<lambda>p r. p + int r * int (ib_max_model_len b1)) positions (map fst ps)) =
      Inr (map (\<lambda>(k, j). br_tokens (row k) ! (nat (c k) + j)) ps)"
    unfolding positions_def map2_maps same index_select_def
  proof (rule res_map_maps)
    fix p
    assume p: "p \<in> set ps"
    obtain k j where kj: "p = (k, j)" by (cases p)
    then have m: "k < num" "j < ns ! k" using mem p by auto
    define q where "q = nat (c k) + j"
    have q: "c k + int j = int q" "q < nat (br_num_tokens (row k))" "q < L" using rk[OF m(1)] rm[OF m(1)] m(2) by (auto simp: q_def)
    have e: "c k + int j + int k * int L = int (k * L + q)" using q(1) by simp
    show "(if 0 \<le> (case p of (k, j) \<Rightarrow> c k + int j) + int (fst p) * int L \<and>
          (case p of (k, j) \<Rightarrow> c k + int j) + int (fst p) * int L < int (length (concat (ib_token_ids ?b)))
         then Inr (concat (ib_token_ids ?b) ! nat ((case p of (k, j) \<Rightarrow> c k + int j) + int (fst p) * int L)) else Inl IndexError) =
        Inr (case p of (k, j) \<Rightarrow> br_tokens (row k) ! (nat (c k) + j))"
      unfolding kj prod.case fst_conv e q_def[symmetric]
      using concat_nth_rows[OF tokl(1), of k q] kmax[OF m(1)] tokl(2) q(2,3) rowk(2)[of k] by (simp only: nat_int of_nat_less_iff of_nat_0_le_iff nth_take simp_thms if_True)
  qed
  define block where "block = (\<lambda>(k, j). br_blocks (row k) ! nat ((c k + int j) div bsz))"
  have bi: "index_select (bt_rows (ib_block_table b1)) (map2 (\<lambda>r p. int r * int (bt_max_num_blocks_per_req (ib_block_table b1)) + p div bsz) (map fst ps) positions) =
      Inr (map block ps)"
    unfolding positions_def map2_maps same index_select_def
  proof (rule res_map_maps)
    fix p
    assume p: "p \<in> set ps"
    obtain k j where kj: "p = (k, j)" by (cases p)
    then have m: "k < num" "j < ns ! k" using mem p by auto
    define q where "q = nat (c k) + j"
    have q: "c k + int j = int q" using rk[OF m(1)] by (simp add: q_def)
    have "int q < bsz * int (length (br_blocks (row k)))" using rm[OF m(1)] m(2) q by simp
    then have "q < gr_block_size w * length (br_blocks (row k))" unfolding bsz_def by (simp only: of_nat_mult[symmetric] of_nat_less_iff)
    then have d: "q div gr_block_size w < length (br_blocks (row k))" by (metis less_mult_imp_div_less mult.commute)
    define q' where "q' = q div gr_block_size w"
    have e: "int q div bsz = int q'" "int k * int B + int q' = int (k * B + q')" by (simp_all add: bsz_def q'_def zdiv_int)
    have "q' < B" "br_blocks (row k) ! q' = bt_rows (ib_block_table ?b) ! k ! q'"
      using d btl kmax[OF m(1)] unfolding rowk(3) q'_def[symmetric] by simp_all
    then show "(if 0 \<le> int (fst p) * int B + (case p of (k, j) \<Rightarrow> c k + int j) div bsz \<and>
          int (fst p) * int B + (case p of (k, j) \<Rightarrow> c k + int j) div bsz < int (length (concat (bt_rows (ib_block_table ?b))))
         then Inr (concat (bt_rows (ib_block_table ?b)) ! nat (int (fst p) * int B + (case p of (k, j) \<Rightarrow> c k + int j) div bsz)) else Inl IndexError) =
        Inr (block p)"
      unfolding kj prod.case fst_conv block_def q e
      using concat_nth_rows[OF btl(1), of k q'] kmax[OF m(1)] btl(2) by (simp only: nat_int of_nat_less_iff of_nat_0_le_iff simp_thms if_True)
  qed
  have sm: "map2 (\<lambda>n p. int n * bsz + p mod bsz) (map block ps) positions = map (\<lambda>(k, j). int (block (k, j)) * bsz + (c k + int j) mod bsz) ps"
    unfolding positions_def map2_maps by (simp add: case_prod_beta)
  define inputs where "inputs = \<lparr>mi_num_scheduled = ns, mi_positions = positions, mi_input_ids = map (\<lambda>(k, j). br_tokens (row k) ! (nat (c k) + j)) ps,
     mi_slot_mapping = map (\<lambda>(k, j). int (block (k, j)) * bsz + (c k + int j) mod bsz) ps, mi_query_start_loc = 0 # cumsum_from 0 ns,
     mi_seq_lens = map2 (\<lambda>c n. c + int n) (take num (ib_num_computed_tokens b1)) ns\<rparr>"
  have "sum_list ns > 0" "num > 0" using total(2) sum len by (auto intro: Nat.gr0I)
  then have as: "py_assert (so_total_num_scheduled_tokens sched > 0) = Inr ()" "py_assert (num > 0) = Inr ()" using total(2) by simp_all
  have nn: "map nat (map int ns) = ns" by (simp add: comp_def)
  have run: "GPUModelRunner_prepare_inputs sched w = Inr (inputs, w\<lparr>gr_batch := b1\<rparr>)"
    unfolding GPUModelRunner_prepare_inputs_def Let_def num_def[symmetric] b1_def[symmetric] nums bsz_def[symmetric]
    by (simp only: as nn length_map len(2) sum res_bind_simps ri ar po ti bi sm inputs_def simp_thms if_False)
  have over: "map f ids = map (\<lambda>k. f (ids ! k)) [0..<num]" for f :: "string \<Rightarrow> 'a"
    by (rule nth_equalityI) (simp_all add: len)
  have n_at: "num_scheduled sched (ids ! k) = ns ! k" if "k < num" for k using that len by (simp add: ns_def)
  have arr: "map f ps = concat (map (\<lambda>i. g (the (batch_of ?b i)) (num_scheduled sched i)) ids)"
    if g: "\<And>k. k < num \<Longrightarrow> g (row k) (ns ! k) = map (\<lambda>j. f (k, j)) [0..<ns ! k]" for f :: "nat \<times> nat \<Rightarrow> int" and g
    unfolding ps_def map_cells len(2) over[of "\<lambda>i. g (the (batch_of ?b i)) (num_scheduled sched i)"]
    by (rule arg_cong[of _ _ concat], rule map_cong[OF refl]) (simp add: row n_at g)
  have P: "positions = concat (map (\<lambda>i. row_positions (the (batch_of ?b i)) (num_scheduled sched i)) ids)"
    unfolding positions_def by (rule arr) (simp add: row_positions_def rowk(1))
  have T: "map (\<lambda>(k, j). br_tokens (row k) ! (nat (c k) + j)) ps =
      concat (map (\<lambda>i. row_tokens (the (batch_of ?b i)) (num_scheduled sched i)) ids)"
  proof (rule arr)
    fix k
    assume k: "k < num"
    have "nat (br_num_tokens (row k)) \<le> L" using rk[OF k] by linarith
    then have "nat (br_num_tokens (row k)) \<le> length (ib_token_ids ?b ! k)" using tokl kmax[OF k] by simp
    then have "length (br_tokens (row k)) = nat (br_num_tokens (row k))" unfolding rowk(2) by simp
    moreover have "nat (c k) + ns ! k \<le> nat (br_num_tokens (row k))" using rm[OF k] rk[OF k] by linarith
    ultimately have le: "nat (c k) + ns ! k \<le> length (br_tokens (row k))" by simp
    show "row_tokens (row k) (ns ! k) = map (\<lambda>j. case (k, j) of (k, j) \<Rightarrow> br_tokens (row k) ! (nat (c k) + j)) [0..<ns ! k]"
      by (rule nth_equalityI) (use le in \<open>simp_all add: row_tokens_def rowk(1)\<close>)
  qed
  have S: "map (\<lambda>(k, j). int (block (k, j)) * bsz + (c k + int j) mod bsz) ps =
      concat (map (\<lambda>i. row_slots bsz (the (batch_of ?b i)) (num_scheduled sched i)) ids)"
    by (rule arr) (simp add: row_slots_def row_positions_def block_def rowk(1))
  have Q: "map2 (\<lambda>c n. c + int n) (take num (ib_num_computed_tokens b1)) ns =
      map (\<lambda>i. br_num_computed (the (batch_of ?b i)) + int (num_scheduled sched i)) ids"
  proof (rule nth_equalityI)
    have l: "num \<le> length (ib_num_computed_tokens ?b)" using a num_reqs_le_length[OF x] by (simp add: arrays_ok_def Let_def num_def)
    then show "length (map2 (\<lambda>c n. c + int n) (take num (ib_num_computed_tokens b1)) ns) =
        length (map (\<lambda>i. br_num_computed (the (batch_of ?b i)) + int (num_scheduled sched i)) ids)" by (simp add: same len)
    fix k
    assume "k < length (map2 (\<lambda>c n. c + int n) (take num (ib_num_computed_tokens b1)) ns)"
    then have k: "k < num" using len by simp
    then show "map2 (\<lambda>c n. c + int n) (take num (ib_num_computed_tokens b1)) ns ! k =
        map (\<lambda>i. br_num_computed (the (batch_of ?b i)) + int (num_scheduled sched i)) ids ! k"
      using l len row[OF k] n_at[OF k] rowk(1)[of k] by (simp add: same c_def)
  qed
  have b1: "slot_id b1 = slot_id ?b" "classes_of b1 = classes_of ?b" by (simp_all add: b1_def slot_id_def classes_of_def fun_eq_iff)
  have "row_at b1 = row_at ?b" by (simp add: row_at_def b1(2) fun_eq_iff) (simp add: b1_def BlockTable_commit_def)
  moreover have "ib_req_id_to_index b1 = ib_req_id_to_index ?b" by (simp add: b1_def)
  ultimately have bo: "batch_of b1 = batch_of ?b" by (intro ext) (simp only: batch_of_def)
  have "table_ok n (BlockTable_commit num t) = table_ok n t" for n t by (simp add: table_ok_def BlockTable_commit_def)
  then have "batch_inv b1"
    using i(1) unfolding batch_inv_def rest_ok_def index_ok_def b1 by (simp add: arrays_ok_def plain_ok_def b1_def Let_def)
  moreover have "compact b1" "same_shape ?b b1" "ib_req_id_to_index b1 = ib_req_id_to_index ?b" "ib_sampling_metadata b1 = ib_sampling_metadata ?b"
    using full same(4) by (simp_all add: b1_def compact_def InputBatch_num_reqs_def same_shape_def BlockTable_commit_def)
  ultimately show ?thesis using run bo P T S Q unfolding Let_def ids_def[symmetric] bsz_def[symmetric]
    by (intro exI[of _ inputs] exI[of _ b1] conjI) (simp_all add: inputs_def ns_def)
qed

end
