(* ===== verification/Engine_Runner.thy ===== *)
theory Engine_Runner
  imports V1_Status Runner_Correct
begin

text \<open>
  The engine core with the model runner as its executor: the scheduler and the runner keep the same
  requests in two representations and exchange only differences. The invariant says that the
  runner's states mirror the scheduler's requests, and a step keeps it.
\<close>

section \<open>Blocks that stay when requests finish\<close>

definition blocks_kept :: "string set \<Rightarrow> V1Scheduler \<Rightarrow> V1Scheduler \<Rightarrow> bool" where
  "blocks_kept J s s' \<longleftrightarrow> (\<forall>k. vs_id s' k = vs_id s k \<and> rq_sampling_params (vs_obj s' k) = rq_sampling_params (vs_obj s k)) \<and>
     (\<forall>j. j \<notin> J \<longrightarrow> dict_get_default (km_req_to_blocks (vs_km s')) j [] = dict_get_default (km_req_to_blocks (vs_km s)) j [])"

lemma blocks_kept_refl [simp]: "blocks_kept J s s"
  by (simp add: blocks_kept_def)

lemma blocks_kept_trans: "blocks_kept J s t \<Longrightarrow> blocks_kept K t u \<Longrightarrow> blocks_kept (J \<union> K) s u"
  by (simp add: blocks_kept_def)

lemma blocks_kept_mono: "blocks_kept J s t \<Longrightarrow> J \<subseteq> K \<Longrightarrow> blocks_kept K s t"
  by (auto simp: blocks_kept_def)

lemma blocks_kept_put:
  "rq_request_id (g (vs_obj s r)) = vs_id s r \<Longrightarrow> rq_sampling_params (g (vs_obj s r)) = rq_sampling_params (vs_obj s r) \<Longrightarrow>
    blocks_kept J s (vs_put r g s)"
  by (cases "r < length (vs_objects s)") (auto simp: blocks_kept_def nth_list_update list_update_beyond)

lemma check_stop_id:
  "Scheduler_check_stop s q = Inr (b, q') \<Longrightarrow> rq_request_id q' = rq_request_id q \<and> rq_sampling_params q' = rq_sampling_params q"
  by (auto simp: Scheduler_check_stop_def res_bind_def split: if_splits sum.splits)

lemma free_blocks: "KVCacheManager_free m q = Inr m' \<Longrightarrow> km_req_to_blocks m' = dict_pop (rq_request_id q) (km_req_to_blocks m)"
  by (auto simp: KVCacheManager_free_def Let_def res_bind_def split: sum.splits)

lemma free_request_blocks:
  assumes "Scheduler_free_request order r s = Inr s'"
  shows "blocks_kept {vs_id s r} s s'"
proof -
  obtain m e where m: "KVCacheManager_free (vs_km s) (vs_obj s r) = Inr m" and
    s': "s' = s\<lparr>vs_kv_cache_manager := KVCacheManager_free_block_hashes m (vs_obj s r), vs_encoder_cache_manager := e,
        vs_cached_reqs_data := dict_pop (vs_id s r) (vs_cached_reqs_data s), vs_requests := dict_pop (vs_id s r) (vs_requests s),
        vs_finished_req_ids := insert (vs_id s r) (vs_finished_req_ids s)\<rparr>"
    using assms by (auto simp: Scheduler_free_request_def Let_def res_bind_def split: if_splits sum.splits)
  show ?thesis using free_blocks[OF m] by (simp add: blocks_kept_def s' KVCacheManager_free_block_hashes_def dict_get_default_def)
qed

lemma take_sampled_blocks:
  "take_sampled order r ts s = Inr (toks, stopped, s') \<Longrightarrow> blocks_kept (if stopped then {vs_id s r} else {}) s s'"
proof (induction ts arbitrary: s toks)
  case (Cons t ts)
  define s1 where "s1 = vs_put r (\<lambda>q. Request_append_output_token_ids q [t]) s"
  have 1: "blocks_kept {} s s1" unfolding s1_def by (rule blocks_kept_put) (simp_all add: Request_append_output_token_ids_def)
  obtain st q where q: "Scheduler_check_stop s1 (vs_obj s1 r) = Inr (st, q)"
    and rest: "(if st then res_bind (Scheduler_free_request order r (vs_put r (\<lambda>_. q) s1)) (\<lambda>s3. Inr ([t], True, s3))
      else res_bind (take_sampled order r ts (vs_put r (\<lambda>_. q) s1)) (\<lambda>(toks, st, s3). Inr (t # toks, st, s3))) = Inr (toks, stopped, s')"
    using Cons.prems unfolding take_sampled.simps Let_def s1_def[symmetric] by (auto elim!: res_bind_InrE)
  define s2 where "s2 = vs_put r (\<lambda>_. q) s1"
  have 2: "blocks_kept {} s1 s2" unfolding s2_def by (rule blocks_kept_put) (use check_stop_id[OF q] in simp_all)
  have 12: "blocks_kept {} s s2" using blocks_kept_trans[OF 1 2] by simp
  show ?case
  proof (cases st)
    case True
    then have "Scheduler_free_request order r s2 = Inr s'" "stopped" using rest by (auto simp: s2_def elim!: res_bind_InrE)
    then show ?thesis using blocks_kept_trans[OF 12 free_request_blocks] 12 by (simp add: blocks_kept_def)
  next
    case False
    then obtain toks' where "take_sampled order r ts s2 = Inr (toks', stopped, s')" using rest by (auto simp: s2_def elim!: res_bind_InrE)
    from blocks_kept_trans[OF 12 Cons.IH[OF this]] show ?thesis using 12 by (simp add: blocks_kept_def)
  qed
qed simp

lemma advance_computed_id:
  "advance_computed out n g q = Inr q' \<Longrightarrow> rq_request_id q' = rq_request_id q \<and> rq_sampling_params q' = rq_sampling_params q"
  by (auto simp: advance_computed_def Let_def res_bind_def split: option.splits sum.splits)

lemma request_output_blocks: "request_output out j r toks lps s = (outs, s') \<Longrightarrow> blocks_kept {} s s'"
  by (auto simp: request_output_def Let_def Request_take_events_def split: if_splits prod.splits intro!: blocks_kept_put)

lemma update_request_blocks:
  assumes "update_request order sched out n r s = Inr (outs, acc, stopped, s')"
  shows "blocks_kept (if stopped then {vs_id s r} else {}) s s'"
proof -
  obtain j generated q e q1 x where q: "advance_computed sched n generated (vs_obj s r) = Inr q"
    and q1: "(case mo_spec_token_ids out of None \<Rightarrow> Inr q
               | Some specs \<Rightarrow> res_bind (py_getitem specs (int j)) (\<lambda>spec. Inr (q\<lparr>rq_spec_token_ids := spec\<rparr>))) = Inr q1"
    and x: "(if rq_num_computed_tokens q1 \<ge> int (Request_num_tokens q1)
               then res_bind (take_sampled order r generated ((vs_put r (\<lambda>_. q1) s)\<lparr>vs_encoder_cache_manager := e\<rparr>)) (\<lambda>(toks, stopped, s2).
                    res_bind (sampled_logprobs out j (vs_obj s2 r)) (\<lambda>lps. Inr (toks, stopped, lps, s2)))
               else Inr ([], False, None, (vs_put r (\<lambda>_. q1) s)\<lparr>vs_encoder_cache_manager := e\<rparr>)) = Inr x"
    and y: "(case x of (new_token_ids, stopped, new_logprobs, s2) \<Rightarrow> case request_output out j r new_token_ids new_logprobs s2 of (outputs, s3) \<Rightarrow>
        if vs_id s3 r \<notin> vs_scheduled_req_ids s3 then Inl KeyError
        else Inr (outputs, if new_token_ids \<noteq> [] \<and> Request_use_structured_output (vs_obj s2 r) then [(vs_id s2 r, new_token_ids)] else [],
              stopped, s3\<lparr>vs_scheduled_req_ids := vs_scheduled_req_ids s3 - {vs_id s3 r}\<rparr>)) = Inr (outs, acc, stopped, s')"
    using assms unfolding update_request_def Let_def by (elim res_bind_InrE) (rule that; assumption)
  obtain toks lps s2 s3 where s2: "x = (toks, stopped, lps, s2)" and o: "request_output out j r toks lps s2 = (outs, s3)"
    and s': "s' = s3\<lparr>vs_scheduled_req_ids := vs_scheduled_req_ids s3 - {vs_id s3 r}\<rparr>"
    using y by (auto split: prod.splits if_split_asm)
  have "rq_request_id q1 = vs_id s r" "rq_sampling_params q1 = rq_sampling_params (vs_obj s r)"
    using advance_computed_id[OF q] q1 by (auto split: option.splits elim!: res_bind_InrE)
  then have "blocks_kept {} s (vs_put r (\<lambda>_. q1) s)" by (intro blocks_kept_put)
  then have 1: "blocks_kept {} s ((vs_put r (\<lambda>_. q1) s)\<lparr>vs_encoder_cache_manager := e\<rparr>)" by (simp add: blocks_kept_def)
  have "blocks_kept (if stopped then {vs_id s r} else {}) s s2"
  proof (cases "rq_num_computed_tokens q1 \<ge> int (Request_num_tokens q1)")
    case True
    then have "take_sampled order r generated ((vs_put r (\<lambda>_. q1) s)\<lparr>vs_encoder_cache_manager := e\<rparr>) = Inr (toks, stopped, s2)"
      using x by (auto simp: s2 elim!: res_bind_InrE)
    from blocks_kept_trans[OF 1 take_sampled_blocks[OF this]] 1 show ?thesis by (simp add: blocks_kept_def)
  next
    case False
    then show ?thesis using x 1 by (auto simp: s2)
  qed
  moreover have "blocks_kept {} s2 s'" using request_output_blocks[OF o] unfolding s' by (simp add: blocks_kept_def)
  ultimately show ?thesis using blocks_kept_trans by fastforce
qed

lemma update_requests_blocks:
  assumes "update_requests order sched out rs s = Inr (keep, outs, acc, s')" "distinct (map (vs_id s) rs)"
  shows "blocks_kept (vs_id s ` (set rs - set keep)) s s' \<and> set keep \<subseteq> set rs"
  using assms
proof (induction rs arbitrary: s keep outs acc)
  case (Cons r rs)
  show ?case
  proof (cases "dict_get_default (so_num_scheduled_tokens sched) (vs_id s r) 0 = 0")
    case True
    then obtain keep' where k: "update_requests order sched out rs s = Inr (keep', outs, acc, s')" "keep = r # keep'"
      using Cons.prems(1) by (auto elim!: res_bind_InrE)
    from Cons.IH[OF k(1)] Cons.prems(2) show ?thesis unfolding k(2) by (auto elim!: blocks_kept_mono)
  next
    case False
    then obtain o1 a1 st s1 keep' o2 a2 where u: "update_request order sched out (dict_get_default (so_num_scheduled_tokens sched) (vs_id s r) 0) r s = Inr (o1, a1, st, s1)"
      and k: "update_requests order sched out rs s1 = Inr (keep', o2, a2, s')" "keep = (if st then keep' else r # keep')"
      using Cons.prems(1) by (auto simp: Let_def elim!: res_bind_InrE)
    have 1: "blocks_kept (if st then {vs_id s r} else {}) s s1" by (rule update_request_blocks[OF u])
    then have id: "vs_id s1 = vs_id s" by (simp add: blocks_kept_def fun_eq_iff)
    have ih: "blocks_kept (vs_id s ` (set rs - set keep')) s1 s' \<and> set keep' \<subseteq> set rs" using Cons.IH[OF k(1)] Cons.prems(2) unfolding id by simp
    then have r: "r \<notin> set keep'" using Cons.prems(2) by auto
    have "blocks_kept ((if st then {vs_id s r} else {}) \<union> vs_id s ` (set rs - set keep')) s s'"
      using blocks_kept_trans[OF 1] ih by blast
    then have "blocks_kept (vs_id s ` (set (r # rs) - set keep)) s s'"
      by (rule blocks_kept_mono) (use r Cons.prems(2) in \<open>auto simp: k(2)\<close>)
    then show ?thesis using ih by (auto simp: k(2))
  qed
qed simp

lemma finish_request_blocks:
  assumes "finish_request order st i s = Inr s'" "\<And>r. dict_get (vs_requests s) i = Some r \<Longrightarrow> vs_id s r = i"
  shows "blocks_kept {i} s s'"
proof (cases "dict_get (vs_requests s) i")
  case None
  then show ?thesis using assms(1) by (simp add: finish_request_def)
next
  case (Some r)
  obtain s1 where s1: "(if rq_status (vs_obj s r) = RUNNING
      then (if r \<notin> set (vs_running s) then Inl ValueError
            else Inr (s\<lparr>vs_running := remove1 r (vs_running s), vs_scheduled_req_ids := vs_scheduled_req_ids s - {vs_id s r}\<rparr>))
      else (if r \<notin> set (vs_waiting s) then Inl ValueError else Inr (s\<lparr>vs_waiting := remove1 r (vs_waiting s)\<rparr>))) = Inr s1"
    and f: "Scheduler_free_request order r (vs_put r (\<lambda>q. q\<lparr>rq_status := st\<rparr>) s1) = Inr s'"
    using assms(1) Some by (auto simp: finish_request_def)
  have "blocks_kept {} s s1" using s1 by (auto simp: blocks_kept_def split: if_splits)
  moreover have "blocks_kept {} s1 (vs_put r (\<lambda>q. q\<lparr>rq_status := st\<rparr>) s1)" by (rule blocks_kept_put) simp_all
  ultimately have 1: "blocks_kept {} s (vs_put r (\<lambda>q. q\<lparr>rq_status := st\<rparr>) s1)" using blocks_kept_trans by fastforce
  then have "vs_id (vs_put r (\<lambda>q. q\<lparr>rq_status := st\<rparr>) s1) r = i" using assms(2)[OF Some] unfolding blocks_kept_def by metis
  then show ?thesis using blocks_kept_trans[OF 1 free_request_blocks[OF f]] by simp
qed

section \<open>The mirror\<close>

text \<open>
  The runner knows a request when its state holds the tokens of the request, all or all but the
  last, which the scheduler has sampled since.
\<close>

definition knows :: "V1Scheduler \<Rightarrow> GPUModelRunner \<Rightarrow> req_ref \<Rightarrow> bool" where
  "knows s w r \<longleftrightarrow> (\<exists>st. state_of w (vs_id s r) = Some st \<and>
     (let toks = rq_all_token_ids (vs_obj s r); m = CachedRequestState_num_tokens st
      in cs_tokens st = take m toks \<and> m \<le> length toks \<and> length toks \<le> Suc m \<and>
         cs_sampling_params st = rq_sampling_params (vs_obj s r)))"

definition plain_request :: "Request \<Rightarrow> bool" where
  "plain_request q \<longleftrightarrow> plain_params (rq_sampling_params q) \<and> rq_lora_request q = None \<and> rq_num_prompt_tokens q = length (rq_all_token_ids q)"

definition mirror_run :: "V1Scheduler \<Rightarrow> GPUModelRunner \<Rightarrow> req_ref \<Rightarrow> bool" where
  "mirror_run s w r \<longleftrightarrow> knows s w r \<and> (\<forall>st. state_of w (vs_id s r) = Some st \<longrightarrow> cs_block_ids st = vs_blocks s r) \<and>
     (\<forall>row. batch_of (gr_batch w) (vs_id s r) = Some row \<longrightarrow> rq_num_computed_tokens (vs_obj s r) \<le> br_num_tokens row) \<and>
     vs_id s r \<notin> vs_finished_req_ids s"

definition mirror_wait :: "V1Scheduler \<Rightarrow> GPUModelRunner \<Rightarrow> req_ref \<Rightarrow> bool" where
  "mirror_wait s w r \<longleftrightarrow>
     (if rq_status (vs_obj s r) = PREEMPTED
      then knows s w r \<and> batch_of (gr_batch w) (vs_id s r) = None \<and> vs_id s r \<notin> vs_finished_req_ids s
      else state_of w (vs_id s r) = None \<and> plain_request (vs_obj s r))"

definition same_sizes :: "V1Scheduler \<Rightarrow> GPUModelRunner \<Rightarrow> bool" where
  "same_sizes s w \<longleftrightarrow> gr_block_size w = km_block_size (vs_km s) \<and>
     km_max_num_blocks_per_req (vs_km s) = int (bt_max_num_blocks_per_req (ib_block_table (gr_batch w))) \<and>
     ib_max_model_len (gr_batch w) = vs_max_model_len s \<and> vs_max_num_running_reqs s \<le> ib_max_num_reqs (gr_batch w)"

definition mirror :: "V1Scheduler \<Rightarrow> GPUModelRunner \<Rightarrow> bool" where
  "mirror s w \<longleftrightarrow> runner_inv w \<and> compact (gr_batch w) \<and> metadata_ok (gr_batch w) \<and> same_sizes s w \<and> finite (vs_finished_req_ids s) \<and>
     (\<forall>r \<in> set (vs_running s). mirror_run s w r) \<and> (\<forall>r \<in> set (vs_waiting s). mirror_wait s w r)"

definition tokens_of :: "V1Scheduler \<Rightarrow> string \<Rightarrow> int list" where
  "tokens_of s i = (case dict_get (vs_requests s) i of None \<Rightarrow> [] | Some r \<Rightarrow> rq_all_token_ids (vs_obj s r))"

lemma batch_state: "runner_inv w \<Longrightarrow> state_of w i = None \<Longrightarrow> batch_of (gr_batch w) i = None"
proof (rule ccontr)
  assume w: "runner_inv w" "state_of w i = None" "batch_of (gr_batch w) i \<noteq> None"
  then obtain row where "batch_of (gr_batch w) i = Some row" by blast
  then have "row_ok w i row" using w(1) by (simp add: runner_inv_def rows_ok_def)
  then show False using w(2) by (auto simp: row_ok_def state_of_def)
qed

section \<open>What the scheduler announces\<close>

lemma running_ok_facts:
  assumes "sched_ok H f W R s" "r \<in> set R"
  shows "0 \<le> rq_num_computed_tokens (vs_obj s r)" "0 \<le> f (vs_id s r)"
    "rq_num_computed_tokens (vs_obj s r) < int (length (rq_all_token_ids (vs_obj s r)))"
    "rq_num_computed_tokens (vs_obj s r) + f (vs_id s r) \<le> int (length (rq_all_token_ids (vs_obj s r)))"
    "rq_num_computed_tokens (vs_obj s r) + f (vs_id s r) \<le> int (length (vs_blocks s r)) * int (km_block_size (vs_km s))"
    "int (length (vs_blocks s r)) \<le> km_max_num_blocks_per_req (vs_km s)"
    "length (rq_all_token_ids (vs_obj s r)) \<le> vs_max_model_len s"
  using sched_okD(6)[OF assms] by (simp_all add: running_ok_def run_slots_def Let_def text_request_def)

lemma cached_info_sel [simp]:
  "cd_req_id (cached_info d s x bs r) = vs_id s r" "cd_resumed_from_preemption (cached_info d s x bs r) = x"
  "cd_new_block_ids (cached_info d s x bs r) = bs" "cd_num_computed_tokens (cached_info d s x bs r) = rq_num_computed_tokens (vs_obj s r)"
  by (simp_all add: cached_info_def Let_def)

lemma cached_info_tokens:
  assumes "sched_ok H (sched_fn d) W R s" "r \<in> set R"
  shows "cd_new_token_ids (cached_info d s x bs r) =
      take (nat (sched_fn d (vs_id s r))) (drop (nat (rq_num_computed_tokens (vs_obj s r))) (rq_all_token_ids (vs_obj s r)))"
    "length (cd_new_token_ids (cached_info d s x bs r)) = nat (sched_fn d (vs_id s r))"
proof -
  note F = running_ok_facts[OF assms]
  show e: "cd_new_token_ids (cached_info d s x bs r) =
      take (nat (sched_fn d (vs_id s r))) (drop (nat (rq_num_computed_tokens (vs_obj s r))) (rq_all_token_ids (vs_obj s r)))"
    using F(1,2) by (simp add: cached_info_def Let_def drop_take nat_add_distrib)
  show "length (cd_new_token_ids (cached_info d s x bs r)) = nat (sched_fn d (vs_id s r))"
    unfolding e using F(1,2,4) by simp
qed

lemma cached_info_ok:
  assumes ok: "sched_ok H (sched_fn d) W R s1" "r \<in> set R" and st: "state_of w (vs_id s1 r) = Some st"
    and k: "cs_tokens st = take (CachedRequestState_num_tokens st) (rq_all_token_ids (vs_obj s1 r))"
      "CachedRequestState_num_tokens st \<le> length (rq_all_token_ids (vs_obj s1 r))"
      "length (rq_all_token_ids (vs_obj s1 r)) \<le> Suc (CachedRequestState_num_tokens st)"
    and sz: "same_sizes s1 w"
    and b: "x \<Longrightarrow> batch_of (gr_batch w) (vs_id s1 r) = None"
      "\<And>row. batch_of (gr_batch w) (vs_id s1 r) = Some row \<Longrightarrow> rq_num_computed_tokens (vs_obj s1 r) \<le> br_num_tokens row"
      "(if x then [] else cs_block_ids st) @ bs = vs_blocks s1 r"
  shows "cached_ok (gr_batch w) (cached_info d s1 x bs r) (rq_all_token_ids (vs_obj s1 r)) st"
proof -
  note F = running_ok_facts[OF ok]
  note T = cached_info_tokens[OF ok, of x bs]
  have "nat (rq_num_computed_tokens (vs_obj s1 r)) \<le> CachedRequestState_num_tokens st" using F(1,3) k(3) by linarith
  moreover have "nat (rq_num_computed_tokens (vs_obj s1 r)) + nat (sched_fn d (vs_id s1 r)) \<le> length (rq_all_token_ids (vs_obj s1 r))"
    using F(1,2,4) by linarith
  ultimately show ?thesis using F(1,6,7) T k sz b unfolding cached_ok_def Let_def same_sizes_def by simp
qed

text \<open>What \<open>schedule\<close> did, as far as the runner is concerned: the running requests it scheduled and the admitted ones.\<close>

definition planned :: "kv_hasher \<Rightarrow> V1Scheduler \<Rightarrow> SchedulerOutput \<Rightarrow> V1Scheduler \<Rightarrow> req_ref list \<Rightarrow> req_ref list \<Rightarrow> bool" where
  "planned H s out s' runs adm \<longleftrightarrow>
     in_flight H (so_num_scheduled_tokens out) s' \<and> plan_same s s' \<and> mset (live_reqs s') = mset (live_reqs s) \<and>
     (\<exists>R. vs_running s' = R @ adm \<and> prefix R (vs_running s) \<and> prefix runs R \<and> (\<forall>x \<in> set R. vs_obj s' x = vs_obj s x)) \<and>
     set adm \<subseteq> set (vs_waiting s) \<and> distinct (runs @ adm) \<and> vs_scheduled_req_ids s' = vs_id s ` set (runs @ adm) \<and>
     (\<forall>x \<in> set (vs_running s') - set (runs @ adm). vs_blocks s' x = vs_blocks s x) \<and>
     (\<forall>x \<in> set runs. prefix (vs_blocks s x) (vs_blocks s' x)) \<and>
     so_total_num_scheduled_tokens out = sum_list (dict_values (so_num_scheduled_tokens out)) \<and>
     so_scheduled_spec_decode_tokens out = [] \<and> so_finished_req_ids out = vs_finished_req_ids s \<and> vs_finished_req_ids s' = {} \<and>
     so_scheduled_new_reqs out =
       map (\<lambda>r. NewRequestData_from_request (vs_obj s' r) (vs_blocks s' r)) (filter (\<lambda>x. rq_status (vs_obj s x) \<noteq> PREEMPTED) adm) \<and>
     so_scheduled_cached_reqs out =
       map (\<lambda>r. cached_info (so_num_scheduled_tokens out) s' True (vs_blocks s' r) r) (filter (\<lambda>x. rq_status (vs_obj s x) = PREEMPTED) adm) @
       map (\<lambda>r. cached_info (so_num_scheduled_tokens out) s' False (drop (length (vs_blocks s r)) (vs_blocks s' r)) r) runs \<and>
     (runs @ adm \<noteq> [] \<longrightarrow> 0 < so_total_num_scheduled_tokens out) \<and>
     (enough_blocks s \<and> 0 < vs_max_num_scheduled_tokens s \<longrightarrow> vs_running s \<noteq> [] \<longrightarrow> runs \<noteq> [])"

lemma schedule_planned:
  assumes "at_rest H s"
  shows "\<exists>out s' runs adm. Scheduler_schedule H now s = Inr (out, s') \<and> planned H s out s' runs adm"
proof -
  obtain out s' R runs adm where a: "Scheduler_schedule H now s = Inr (out, s')" "in_flight H (so_num_scheduled_tokens out) s'" "plan_same s s'"
     "mset (vs_waiting s' @ vs_running s') = mset (vs_waiting s @ vs_running s)"
     "vs_running s' = R @ adm" "prefix R (vs_running s)" "\<forall>x \<in> set R. vs_obj s' x = vs_obj s x"
     "prefix adm (not_for_grammar s (vs_waiting s))" "prefix runs R" "distinct (runs @ adm)"
     "vs_scheduled_req_ids s' = vs_id s ` set (runs @ adm)"
     "\<forall>x \<in> set (vs_running s') - set (runs @ adm). vs_blocks s' x = vs_blocks s x" "\<forall>x \<in> set runs. prefix (vs_blocks s x) (vs_blocks s' x)"
     "so_total_num_scheduled_tokens out = sum_list (dict_values (so_num_scheduled_tokens out))" "so_scheduled_spec_decode_tokens out = []"
     "so_finished_req_ids out = vs_finished_req_ids s" "vs_finished_req_ids s' = {}"
     "so_scheduled_new_reqs out = map (\<lambda>r. NewRequestData_from_request (vs_obj s' r) (vs_blocks s' r)) (filter (\<lambda>x. rq_status (vs_obj s x) \<noteq> PREEMPTED) adm)"
     "so_scheduled_cached_reqs out =
       map (\<lambda>r. cached_info (so_num_scheduled_tokens out) s' True (vs_blocks s' r) r) (filter (\<lambda>x. rq_status (vs_obj s x) = PREEMPTED) adm) @
       map (\<lambda>r. cached_info (so_num_scheduled_tokens out) s' False (drop (length (vs_blocks s r)) (vs_blocks s' r)) r) runs"
     "runs @ adm \<noteq> [] \<longrightarrow> 0 < so_total_num_scheduled_tokens out"
     "enough_blocks s \<and> 0 < vs_max_num_scheduled_tokens s \<longrightarrow> (vs_running s \<noteq> [] \<longrightarrow> runs \<noteq> []) \<and>
       (vs_running s = [] \<and> 0 < vs_max_num_running_reqs s \<and> not_for_grammar s (vs_waiting s) \<noteq> [] \<longrightarrow> adm \<noteq> [])"
    using schedule_ok[OF assms, of now] by (elim exE conjE) (rule that; assumption)
  have "set adm \<subseteq> set (vs_waiting s)" using set_mono_prefix[OF a(8)] by auto
  moreover have "\<exists>R. vs_running s' = R @ adm \<and> prefix R (vs_running s) \<and> prefix runs R \<and> (\<forall>x \<in> set R. vs_obj s' x = vs_obj s x)"
    using a(5,6,7,9) by blast
  moreover have "enough_blocks s \<and> 0 < vs_max_num_scheduled_tokens s \<longrightarrow> vs_running s \<noteq> [] \<longrightarrow> runs \<noteq> []" using a(21) by blast
  ultimately have "planned H s out s' runs adm" unfolding planned_def using a by - (intro conjI; assumption)
  then show ?thesis using a(1) by blast
qed

lemma plannedD:
  assumes "planned H s out s' runs adm"
  shows "in_flight H (so_num_scheduled_tokens out) s'" "plan_same s s'" "mset (live_reqs s') = mset (live_reqs s)"
     "set (runs @ adm) \<subseteq> set (vs_running s')" "set runs \<subseteq> set (vs_running s)" "set (vs_running s') \<subseteq> set (vs_running s) \<union> set adm"
     "x \<in> set (vs_running s') \<Longrightarrow> x \<notin> set adm \<Longrightarrow> vs_obj s' x = vs_obj s x"
     "set adm \<subseteq> set (vs_waiting s)" "distinct (runs @ adm)" "vs_scheduled_req_ids s' = vs_id s ` set (runs @ adm)"
     "x \<in> set (vs_running s') \<Longrightarrow> x \<notin> set (runs @ adm) \<Longrightarrow> vs_blocks s' x = vs_blocks s x"
     "x \<in> set runs \<Longrightarrow> prefix (vs_blocks s x) (vs_blocks s' x)"
     "so_total_num_scheduled_tokens out = sum_list (dict_values (so_num_scheduled_tokens out))" "so_scheduled_spec_decode_tokens out = []"
     "so_finished_req_ids out = vs_finished_req_ids s" "vs_finished_req_ids s' = {}"
     "so_scheduled_new_reqs out = map (\<lambda>r. NewRequestData_from_request (vs_obj s' r) (vs_blocks s' r)) (filter (\<lambda>x. rq_status (vs_obj s x) \<noteq> PREEMPTED) adm)"
     "so_scheduled_cached_reqs out =
       map (\<lambda>r. cached_info (so_num_scheduled_tokens out) s' True (vs_blocks s' r) r) (filter (\<lambda>x. rq_status (vs_obj s x) = PREEMPTED) adm) @
       map (\<lambda>r. cached_info (so_num_scheduled_tokens out) s' False (drop (length (vs_blocks s r)) (vs_blocks s' r)) r) runs"
     "runs @ adm \<noteq> [] \<Longrightarrow> 0 < so_total_num_scheduled_tokens out"
     "enough_blocks s \<Longrightarrow> 0 < vs_max_num_scheduled_tokens s \<Longrightarrow> vs_running s \<noteq> [] \<Longrightarrow> runs \<noteq> []"
  using assms unfolding planned_def by (auto dest!: set_mono_prefix)

lemma planned_text:
  assumes "planned H s out s' runs adm"
  shows "rq_all_token_ids (vs_obj s' r) = rq_all_token_ids (vs_obj s r)" "vs_id s' r = vs_id s r"
    "rq_sampling_params (vs_obj s' r) = rq_sampling_params (vs_obj s r)" "rq_lora_request (vs_obj s' r) = rq_lora_request (vs_obj s r)"
    "rq_num_prompt_tokens (vs_obj s' r) = rq_num_prompt_tokens (vs_obj s r)"
proof -
  have o: "step_obj (vs_obj s r) (vs_obj s' r)" by (rule plan_sameD(8)[OF plannedD(2)[OF assms]])
  show "rq_all_token_ids (vs_obj s' r) = rq_all_token_ids (vs_obj s r)" "vs_id s' r = vs_id s r"
    "rq_lora_request (vs_obj s' r) = rq_lora_request (vs_obj s r)" "rq_num_prompt_tokens (vs_obj s' r) = rq_num_prompt_tokens (vs_obj s r)"
    using step_objD[OF o] by (simp_all add: same_text_def)
  have e: "(vs_obj s' r)\<lparr>rq_status := rq_status (vs_obj s r), rq_num_computed_tokens := rq_num_computed_tokens (vs_obj s r),
      rq_events := rq_events (vs_obj s r)\<rparr> = vs_obj s r" using o by (simp add: step_obj_def)
  show "rq_sampling_params (vs_obj s' r) = rq_sampling_params (vs_obj s r)" by (subst e[symmetric]) simp
qed

lemma tokens_of_live: "at_rest H s \<Longrightarrow> r \<in> set (live_reqs s) \<Longrightarrow> tokens_of s (vs_id s r) = rq_all_token_ids (vs_obj s r)"
  using queues_okD(4)[OF sched_okD(2)[OF in_flightD(1)]] by (simp add: tokens_of_def)

lemma same_sizes_planned:
  assumes "planned H s out s' runs adm"
  shows "same_sizes s' w = same_sizes s w"
  using plan_sameD(5,6)[OF plannedD(2)[OF assms]] same_configD[OF plan_sameD(3)[OF plannedD(2)[OF assms]]] by (simp add: same_sizes_def)

text \<open>An admitted request is new to the runner or comes back after a preemption.\<close>

lemma admitted_new_ok:
  assumes p: "planned H s out s' runs adm" and m: "mirror s w" and r: "r \<in> set adm" "rq_status (vs_obj s r) \<noteq> PREEMPTED"
  defines "d \<equiv> NewRequestData_from_request (vs_obj s' r) (vs_blocks s' r)"
  shows "batch_of (gr_batch w) (nd_req_id d) = None" "fits_row (gr_batch w) (CachedRequestState_new d)" "0 \<le> nd_num_computed_tokens d"
    "nd_num_computed_tokens d \<le> int (length (nd_prompt_token_ids d))" "nd_prompt_token_ids d = rq_all_token_ids (vs_obj s r)"
    "nd_req_id d = vs_id s r" "nd_block_ids d = vs_blocks s' r" "nd_num_computed_tokens d = rq_num_computed_tokens (vs_obj s' r)"
proof -
  note P = plannedD[OF p] and T = planned_text[OF p]
  have w: "mirror_wait s w r" "runner_inv w" "same_sizes s' w"
    using m r(1) P(8) same_sizes_planned[OF p, of w] unfolding mirror_def by blast+
  then have st: "state_of w (vs_id s r) = None" "plain_request (vs_obj s r)" using r(2) by (simp_all add: mirror_wait_def)
  have r': "r \<in> set (vs_running s')" using r(1) P(4) by auto
  note F = running_ok_facts[OF in_flightD(1)[OF P(1)] r']
  show "nd_req_id d = vs_id s r" "nd_block_ids d = vs_blocks s' r" "nd_num_computed_tokens d = rq_num_computed_tokens (vs_obj s' r)"
    by (simp_all add: d_def NewRequestData_from_request_def T)
  show pr: "nd_prompt_token_ids d = rq_all_token_ids (vs_obj s r)"
    using st(2) by (simp add: d_def NewRequestData_from_request_def T plain_request_def)
  show "batch_of (gr_batch w) (nd_req_id d) = None" using batch_state[OF w(2) st(1)] by (simp add: d_def NewRequestData_from_request_def T)
  show "0 \<le> nd_num_computed_tokens d" using F(1) by (simp add: d_def NewRequestData_from_request_def)
  show "nd_num_computed_tokens d \<le> int (length (nd_prompt_token_ids d))" unfolding pr using F(3) by (simp add: d_def NewRequestData_from_request_def T)
  show "fits_row (gr_batch w) (CachedRequestState_new d)"
    using pr F(6,7) w(3) st(2) T
    by (simp add: fits_row_def CachedRequestState_num_tokens_def CachedRequestState_new_def same_sizes_def plain_request_def)
      (simp add: d_def NewRequestData_from_request_def)
qed

lemma resumed_ok:
  assumes p: "planned H s out s' runs adm" and m: "mirror s w" and r: "r \<in> set adm" "rq_status (vs_obj s r) = PREEMPTED"
  shows "\<exists>st. state_of w (vs_id s r) = Some st \<and> vs_id s r \<notin> vs_finished_req_ids s \<and>
    cached_ok (gr_batch w) (cached_info (so_num_scheduled_tokens out) s' True (vs_blocks s' r) r) (rq_all_token_ids (vs_obj s r)) st"
proof -
  note P = plannedD[OF p] and T = planned_text[OF p]
  have w: "mirror_wait s w r" "same_sizes s' w"
    using m r(1) P(8) same_sizes_planned[OF p, of w] unfolding mirror_def by blast+
  then obtain st where st: "state_of w (vs_id s r) = Some st" "cs_tokens st = take (CachedRequestState_num_tokens st) (rq_all_token_ids (vs_obj s r))"
    "CachedRequestState_num_tokens st \<le> length (rq_all_token_ids (vs_obj s r))"
    "length (rq_all_token_ids (vs_obj s r)) \<le> Suc (CachedRequestState_num_tokens st)" "batch_of (gr_batch w) (vs_id s r) = None"
    "vs_id s r \<notin> vs_finished_req_ids s"
    using r(2) by (auto simp: mirror_wait_def knows_def Let_def)
  have r': "r \<in> set (vs_running s')" using r(1) P(4) by auto
  have "cached_ok (gr_batch w) (cached_info (so_num_scheduled_tokens out) s' True (vs_blocks s' r) r) (rq_all_token_ids (vs_obj s' r)) st"
    by (rule cached_info_ok[OF in_flightD(1)[OF P(1)] r']) (use st T w(2) in simp_all)
  then show ?thesis using st T by auto
qed

lemma running_announced_ok:
  assumes p: "planned H s out s' runs adm" and m: "mirror s w" and rest: "at_rest H s" and r: "r \<in> set runs"
  shows "\<exists>st. state_of w (vs_id s r) = Some st \<and> vs_id s r \<notin> vs_finished_req_ids s \<and>
    cached_ok (gr_batch w) (cached_info (so_num_scheduled_tokens out) s' False (drop (length (vs_blocks s r)) (vs_blocks s' r)) r)
      (rq_all_token_ids (vs_obj s r)) st"
proof -
  note P = plannedD[OF p] and T = planned_text[OF p]
  have w: "mirror_run s w r" "same_sizes s' w"
    using m r P(5) same_sizes_planned[OF p, of w] unfolding mirror_def by blast+
  then obtain st where st: "state_of w (vs_id s r) = Some st" "cs_tokens st = take (CachedRequestState_num_tokens st) (rq_all_token_ids (vs_obj s r))"
    "CachedRequestState_num_tokens st \<le> length (rq_all_token_ids (vs_obj s r))"
    "length (rq_all_token_ids (vs_obj s r)) \<le> Suc (CachedRequestState_num_tokens st)" "cs_block_ids st = vs_blocks s r"
    "\<And>row. batch_of (gr_batch w) (vs_id s r) = Some row \<Longrightarrow> rq_num_computed_tokens (vs_obj s r) \<le> br_num_tokens row"
    "vs_id s r \<notin> vs_finished_req_ids s"
    by (auto simp: mirror_run_def knows_def Let_def)
  have r': "r \<in> set (vs_running s')" using r P(4) by auto
  have ob: "vs_obj s' r = vs_obj s r" by (rule P(7)[OF r']) (use r P(9) in auto)
  obtain more where "vs_blocks s' r = vs_blocks s r @ more" using P(12)[OF r] by (auto simp: prefix_def)
  then have bl: "vs_blocks s r @ drop (length (vs_blocks s r)) (vs_blocks s' r) = vs_blocks s' r" by simp
  have "cached_ok (gr_batch w) (cached_info (so_num_scheduled_tokens out) s' False (drop (length (vs_blocks s r)) (vs_blocks s' r)) r)
      (rq_all_token_ids (vs_obj s' r)) st"
    by (rule cached_info_ok[OF in_flightD(1)[OF P(1)] r']) (use st T w(2) bl ob in \<open>simp_all del: append_eq_conv_conj\<close>)
  then show ?thesis using st T by auto
qed

lemma planned_ids:
  assumes p: "planned H s out s' runs adm" and rest: "at_rest H s"
  shows "distinct (map (vs_id s) (runs @ adm))" "set (dict_keys (so_num_scheduled_tokens out)) = vs_id s ` set (runs @ adm)"
    "length (so_num_scheduled_tokens out) \<le> vs_max_num_running_reqs s"
proof -
  note P = plannedD[OF p]
  have sub: "set (runs @ adm) \<subseteq> set (live_reqs s)" using P(5,8) by auto
  have "inj_on (vs_id s) (set (runs @ adm))"
    using queues_okD(2)[OF sched_okD(2)[OF in_flightD(1)[OF rest]]] sub by (rule inj_on_subset)
  then show d: "distinct (map (vs_id s) (runs @ adm))" using P(9) by (simp only: distinct_map)
  show k: "set (dict_keys (so_num_scheduled_tokens out)) = vs_id s ` set (runs @ adm)" using in_flightD(3)[OF P(1)] P(10) by simp
  have "length (so_num_scheduled_tokens out) = card (vs_id s ` set (runs @ adm))"
    using dict_length_card[OF in_flightD(2)[OF P(1)]] k by simp
  also have "\<dots> \<le> card (set (runs @ adm))" by (rule card_image_le) simp
  also have "\<dots> \<le> card (set (vs_running s'))" by (rule card_mono[OF _ P(4)]) simp
  also have "\<dots> \<le> length (vs_running s')" by (rule card_length)
  also have "\<dots> \<le> vs_max_num_running_reqs s" using sched_okD(4)[OF in_flightD(1)[OF P(1)]] plan_sameD(6)[OF P(2)] by simp
  finally show "length (so_num_scheduled_tokens out) \<le> vs_max_num_running_reqs s" .
qed

lemma schedule_announces:
  assumes p: "planned H s out s' runs adm" and m: "mirror s w" and rest: "at_rest H s"
  shows "announces w out (tokens_of s)"
proof -
  note P = plannedD[OF p] and T = planned_text[OF p] and I = planned_ids[OF p rest]
  let ?new = "filter (\<lambda>x. rq_status (vs_obj s x) \<noteq> PREEMPTED) adm" and ?again = "filter (\<lambda>x. rq_status (vs_obj s x) = PREEMPTED) adm"
  have live: "tokens_of s (vs_id s r) = rq_all_token_ids (vs_obj s r)" if "r \<in> set runs \<or> r \<in> set adm" for r
    using tokens_of_live[OF rest, of r] that P(5,8) by auto
  have ids: "map nd_req_id (so_scheduled_new_reqs out) = map (vs_id s) ?new"
    "map cd_req_id (so_scheduled_cached_reqs out) = map (vs_id s) (?again @ runs)"
    by (simp_all add: P(17,18) NewRequestData_from_request_def T)
  have d: "distinct (map (vs_id s) ?new @ map (vs_id s) (?again @ runs))"
  proof -
    have "inj_on (vs_id s) (set (runs @ adm))" using I(1) by (simp only: distinct_map)
    then have "inj_on (vs_id s) (set (?new @ ?again @ runs))" by (rule inj_on_subset) auto
    moreover have "distinct (?new @ ?again @ runs)" using P(9) by auto
    ultimately have "distinct (map (vs_id s) (?new @ ?again @ runs))" by (simp only: distinct_map)
    then show ?thesis by simp
  qed
  have keys: "set (map (vs_id s) ?new @ map (vs_id s) (?again @ runs)) = set (dict_keys (so_num_scheduled_tokens out))"
    unfolding I(2) by auto
  have N: "\<forall>d \<in> set (so_scheduled_new_reqs out). (batch_of (gr_batch w) (nd_req_id d) = None \<or> nd_req_id d \<in> so_finished_req_ids out) \<and>
        fits_row (gr_batch w) (CachedRequestState_new d) \<and> 0 \<le> nd_num_computed_tokens d \<and>
        nd_num_computed_tokens d \<le> int (length (nd_prompt_token_ids d))"
    unfolding P(17) using admitted_new_ok[OF p m] by auto
  have C: "\<forall>d \<in> set (so_scheduled_cached_reqs out). cd_req_id d \<notin> so_finished_req_ids out \<and>
        (\<exists>st. state_of w (cd_req_id d) = Some st \<and> cached_ok (gr_batch w) d (tokens_of s (cd_req_id d)) st)"
  proof
    fix d
    assume "d \<in> set (so_scheduled_cached_reqs out)"
    then consider r where "r \<in> set adm" "rq_status (vs_obj s r) = PREEMPTED" "d = cached_info (so_num_scheduled_tokens out) s' True (vs_blocks s' r) r"
      | r where "r \<in> set runs" "d = cached_info (so_num_scheduled_tokens out) s' False (drop (length (vs_blocks s r)) (vs_blocks s' r)) r"
      unfolding P(18) by auto
    then show "cd_req_id d \<notin> so_finished_req_ids out \<and>
        (\<exists>st. state_of w (cd_req_id d) = Some st \<and> cached_ok (gr_batch w) d (tokens_of s (cd_req_id d)) st)"
    proof cases
      case (1 r)
      then show ?thesis using resumed_ok[OF p m 1(1,2)] live[of r] by (auto simp: P(15) T)
    next
      case (2 r)
      then show ?thesis using running_announced_ok[OF p m rest 2(1)] live[of r] by (auto simp: P(15) T)
    qed
  qed
  have "length (so_num_scheduled_tokens out) \<le> ib_max_num_reqs (gr_batch w)" "finite (so_finished_req_ids out)"
    using I(3) m by (simp_all add: mirror_def same_sizes_def P(15))
  then show ?thesis unfolding announces_def ids using P(14) d keys N C in_flightD(2)[OF P(1)] by blast
qed

section \<open>The runner after the update\<close>

text \<open>
  While a step is in flight, the runner knows every running request with its blocks, and exactly the
  scheduled ones have a row, which holds the tokens to compute.
\<close>

definition flight_state :: "V1Scheduler \<Rightarrow> int \<Rightarrow> req_ref \<Rightarrow> CachedRequestState \<Rightarrow> bool" where
  "flight_state s n r st \<longleftrightarrow> (let toks = rq_all_token_ids (vs_obj s r); m = CachedRequestState_num_tokens st in
     cs_tokens st = take m toks \<and> m \<le> length toks \<and> length toks \<le> Suc m \<and> cs_block_ids st = vs_blocks s r \<and>
     cs_sampling_params st = rq_sampling_params (vs_obj s r) \<and>
     (0 < n \<longrightarrow> cs_num_computed_tokens st = rq_num_computed_tokens (vs_obj s r) \<and> rq_num_computed_tokens (vs_obj s r) + n \<le> int m))"

definition flight_row :: "V1Scheduler \<Rightarrow> int \<Rightarrow> req_ref \<Rightarrow> batch_row \<Rightarrow> bool" where
  "flight_row s n r row \<longleftrightarrow> br_num_computed row = rq_num_computed_tokens (vs_obj s r) \<and>
     rq_num_computed_tokens (vs_obj s r) + n \<le> br_num_tokens row \<and> br_blocks row = vs_blocks s r \<and>
     br_tokens row = take (nat (br_num_tokens row)) (rq_all_token_ids (vs_obj s r))"

definition in_flight_runner :: "V1Scheduler \<Rightarrow> SchedulerOutput \<Rightarrow> GPUModelRunner \<Rightarrow> bool" where
  "in_flight_runner s out w \<longleftrightarrow> runner_inv w \<and> compact (gr_batch w) \<and> metadata_ok (gr_batch w) \<and> same_sizes s w \<and>
     dom (batch_of (gr_batch w)) = set (dict_keys (so_num_scheduled_tokens out)) \<and>
     (\<forall>r \<in> set (vs_running s).
        (\<exists>st. state_of w (vs_id s r) = Some st \<and> flight_state s (sched_fn (so_num_scheduled_tokens out) (vs_id s r)) r st) \<and>
        (\<forall>row. batch_of (gr_batch w) (vs_id s r) = Some row \<longrightarrow>
           flight_row s (sched_fn (so_num_scheduled_tokens out) (vs_id s r)) r row)) \<and>
     (\<forall>r \<in> set (vs_waiting s). mirror_wait s w r)"

lemma state_after_new:
  assumes "announces w out toks" "d \<in> set (so_scheduled_new_reqs out)"
  shows "state_after w out (nd_req_id d) = Some (CachedRequestState_new d)"
proof -
  have "distinct (map nd_req_id (so_scheduled_new_reqs out))" using assms(1) by (simp add: announces_def)
  from find_key[OF this assms(2)] show ?thesis by (simp add: state_after_def)
qed

lemma state_after_cached:
  assumes "announces w out toks" "d \<in> set (so_scheduled_cached_reqs out)"
  shows "state_after w out (cd_req_id d) = map_option (advance d) (state_of w (cd_req_id d))"
proof -
  have D: "distinct (map cd_req_id (so_scheduled_cached_reqs out))"
    "nd_req_id ` set (so_scheduled_new_reqs out) \<inter> cd_req_id ` set (so_scheduled_cached_reqs out) = {}" using assms(1) by (simp_all add: announces_def)
  then have "cd_req_id d \<notin> nd_req_id ` set (so_scheduled_new_reqs out)" using assms(2) by blast
  then show ?thesis using find_key[OF D(1) assms(2)] by (simp add: state_after_def find_key_None)
qed

lemma state_after_rest:
  assumes "announces w out toks" "i \<notin> set (dict_keys (so_num_scheduled_tokens out))"
  shows "state_after w out i = (if i \<in> so_finished_req_ids out then None else state_of w i)"
proof -
  have "i \<notin> nd_req_id ` set (so_scheduled_new_reqs out)" "i \<notin> cd_req_id ` set (so_scheduled_cached_reqs out)"
    using assms unfolding announces_def by auto
  then show ?thesis by (simp add: state_after_def find_key_None)
qed

lemma advanced_flight:
  assumes ok: "sched_ok H (sched_fn d) W R s" "r \<in> set R" and c: "cached_ok b (cached_info d s x bs r) (rq_all_token_ids (vs_obj s r)) st"
    and k: "length (rq_all_token_ids (vs_obj s r)) \<le> Suc (CachedRequestState_num_tokens st)"
    and bs: "(if x then [] else cs_block_ids st) @ bs = vs_blocks s r" and sp: "cs_sampling_params st = rq_sampling_params (vs_obj s r)"
  shows "flight_state s (sched_fn d (vs_id s r)) r (advance (cached_info d s x bs r) st)"
proof -
  note F = running_ok_facts[OF ok] and A = advance_tokens[OF c]
  have l: "length (cd_new_token_ids (cached_info d s x bs r)) = nat (sched_fn d (vs_id s r))" by (rule cached_info_tokens(2)[OF ok])
  let ?m = "max (CachedRequestState_num_tokens st) (nat (rq_num_computed_tokens (vs_obj s r)) + nat (sched_fn d (vs_id s r)))"
  have m: "CachedRequestState_num_tokens (advance (cached_info d s x bs r) st) = ?m" using A(2) l by simp
  have le: "CachedRequestState_num_tokens st \<le> length (rq_all_token_ids (vs_obj s r))" using c by (simp add: cached_ok_def Let_def)
  have "nat (rq_num_computed_tokens (vs_obj s r)) + nat (sched_fn d (vs_id s r)) \<le> length (rq_all_token_ids (vs_obj s r))" using F(1,2,4) by linarith
  then have 1: "?m \<le> length (rq_all_token_ids (vs_obj s r))" "length (rq_all_token_ids (vs_obj s r)) \<le> Suc ?m" using le k by simp_all
  have 2: "rq_num_computed_tokens (vs_obj s r) + sched_fn d (vs_id s r) \<le> int ?m" using F(1,2) by linarith
  have 3: "cs_block_ids (advance (cached_info d s x bs r) st) = vs_blocks s r" using bs by (cases x) simp_all
  show ?thesis unfolding flight_state_def Let_def m using A(1) l 1 2 3 sp by simp
qed

lemma unscheduled_zero:
  assumes "i \<notin> set (dict_keys d)"
  shows "sched_fn d i = 0"
proof -
  have "dict_get d i = None" using assms by (simp add: map_of_eq_None_iff)
  then show ?thesis by (simp add: sched_fn_def dict_get_default_def)
qed

lemma flight_states:
  assumes p: "planned H s out s' runs adm" and m: "mirror s w" and rest: "at_rest H s" and r: "r \<in> set (vs_running s')"
  shows "\<exists>st. state_after w out (vs_id s r) = Some st \<and> flight_state s' (sched_fn (so_num_scheduled_tokens out) (vs_id s r)) r st"
proof -
  note P = plannedD[OF p] and T = planned_text[OF p] and I = planned_ids[OF p rest]
  note an = schedule_announces[OF p m rest]
  note ok = in_flightD(1)[OF P(1)]
  let ?d = "so_num_scheduled_tokens out"
  consider "r \<in> set adm" "rq_status (vs_obj s r) \<noteq> PREEMPTED" | "r \<in> set adm" "rq_status (vs_obj s r) = PREEMPTED" | "r \<in> set runs"
    | "r \<notin> set (runs @ adm)" by auto
  then show ?thesis
  proof cases
    case 1
    define d where "d = NewRequestData_from_request (vs_obj s' r) (vs_blocks s' r)"
    have "d \<in> set (so_scheduled_new_reqs out)" using 1 by (auto simp: P(17) d_def)
    from state_after_new[OF an this] have s1: "state_after w out (vs_id s r) = Some (CachedRequestState_new d)"
      by (simp add: d_def NewRequestData_from_request_def T)
    note N = admitted_new_ok[OF p m 1, folded d_def] and F = running_ok_facts[OF ok r]
    have "nd_sampling_params d = rq_sampling_params (vs_obj s r)" by (simp add: d_def NewRequestData_from_request_def T)
    then have "flight_state s' (sched_fn ?d (vs_id s r)) r (CachedRequestState_new d)"
      using N(5,7,8) F(4) unfolding flight_state_def Let_def
      by (simp add: CachedRequestState_new_def CachedRequestState_num_tokens_def T)
    then show ?thesis using s1 by simp
  next
    case 2
    define d where "d = cached_info ?d s' True (vs_blocks s' r) r"
    have "d \<in> set (so_scheduled_cached_reqs out)" using 2 by (auto simp: P(18) d_def)
    from state_after_cached[OF an this] have s1: "state_after w out (vs_id s r) = map_option (advance d) (state_of w (vs_id s r))"
      by (simp add: d_def T)
    obtain st where st: "state_of w (vs_id s r) = Some st" "cached_ok (gr_batch w) d (rq_all_token_ids (vs_obj s r)) st"
      using resumed_ok[OF p m 2] by (auto simp: d_def)
    have "mirror_wait s w r" using m 2(1) P(8) unfolding mirror_def by blast
    then have k: "length (rq_all_token_ids (vs_obj s' r)) \<le> Suc (CachedRequestState_num_tokens st)"
      "cs_sampling_params st = rq_sampling_params (vs_obj s' r)"
      using 2(2) st(1) by (simp_all add: mirror_wait_def knows_def Let_def T)
    have "flight_state s' (sched_fn ?d (vs_id s' r)) r (advance d st)"
      unfolding d_def by (rule advanced_flight[OF ok r _ k(1)]) (use st k(2) in \<open>simp_all add: d_def T\<close>)
    then show ?thesis using s1 st(1) by (simp add: T)
  next
    case 3
    define d where "d = cached_info ?d s' False (drop (length (vs_blocks s r)) (vs_blocks s' r)) r"
    have "d \<in> set (so_scheduled_cached_reqs out)" using 3 by (auto simp: P(18) d_def)
    from state_after_cached[OF an this] have s1: "state_after w out (vs_id s r) = map_option (advance d) (state_of w (vs_id s r))"
      by (simp add: d_def T)
    obtain st where st: "state_of w (vs_id s r) = Some st" "cached_ok (gr_batch w) d (rq_all_token_ids (vs_obj s r)) st"
      using running_announced_ok[OF p m rest 3] by (auto simp: d_def)
    have "mirror_run s w r" using m 3 P(5) unfolding mirror_def by blast
    then have k: "length (rq_all_token_ids (vs_obj s' r)) \<le> Suc (CachedRequestState_num_tokens st)" "cs_block_ids st = vs_blocks s r"
      "cs_sampling_params st = rq_sampling_params (vs_obj s' r)"
      using st(1) by (simp_all add: mirror_run_def knows_def Let_def T)
    obtain more where "vs_blocks s' r = vs_blocks s r @ more" using P(12)[OF 3] by (auto simp: prefix_def)
    then have bl: "cs_block_ids st @ drop (length (vs_blocks s r)) (vs_blocks s' r) = vs_blocks s' r" using k(2) by simp
    have "flight_state s' (sched_fn ?d (vs_id s' r)) r (advance d st)"
      unfolding d_def by (rule advanced_flight[OF ok r _ k(1)]) (use st(2) bl k(3) in \<open>simp_all add: d_def T\<close>)
    then show ?thesis using s1 st(1) by (simp add: T)
  next
    case 4
    have ob: "vs_obj s' r = vs_obj s r" by (rule P(7)[OF r]) (use 4 in simp)
    have rs: "r \<in> set (vs_running s)" using P(6) r 4 by auto
    then have mr: "mirror_run s w r" using m unfolding mirror_def by blast
    have "vs_id s r \<notin> vs_id s ` set (runs @ adm)"
    proof
      assume "vs_id s r \<in> vs_id s ` set (runs @ adm)"
      then obtain k where k: "k \<in> set (runs @ adm)" "vs_id s k = vs_id s r" by (elim imageE) simp
      have "k \<in> set (live_reqs s)" using k(1) P(5,8) by auto
      then have "k = r" using inj_onD[OF queues_okD(2)[OF sched_okD(2)[OF in_flightD(1)[OF rest]]] k(2)] rs by simp
      then show False using k(1) 4 by simp
    qed
    then have key: "vs_id s r \<notin> set (dict_keys ?d)" unfolding I(2) .
    have "state_after w out (vs_id s r) = state_of w (vs_id s r)"
      using state_after_rest[OF an key] mr by (simp add: mirror_run_def P(15))
    moreover have "vs_blocks s' r = vs_blocks s r" by (rule P(11)[OF r 4])
    ultimately show ?thesis using mr unscheduled_zero[OF key] ob
      by (auto simp: mirror_run_def knows_def flight_state_def Let_def)
  qed
qed

lemma live_id_unique:
  assumes "at_rest H s" "r \<in> set (live_reqs s)" "k \<in> set (live_reqs s)" "vs_id s r = vs_id s k"
  shows "r = k"
  using inj_onD[OF queues_okD(2)[OF sched_okD(2)[OF in_flightD(1)[OF assms(1)]]] assms(4,2,3)] .

lemma scheduled_positive:
  assumes "in_flight H d s" "i \<in> set (dict_keys d)"
  shows "0 < sched_fn d i"
proof -
  obtain m where "(i, m) \<in> set d" using assms(2) by auto
  then have "dict_get d i = Some m" "0 < m" using dict_get_mem[OF in_flightD(2)[OF assms(1)]] in_flightD(5)[OF assms(1)] by force+
  then show ?thesis by (simp add: sched_fn_def dict_get_default_def)
qed

text \<open>The row of a scheduled request holds at least the tokens to compute.\<close>

lemma flight_rows:
  assumes p: "planned H s out s' runs adm" and m: "mirror s w" and rest: "at_rest H s" and r: "r \<in> set (vs_running s')"
    and w': "runner_inv w'" "state_of w' = state_after w out" "dom (batch_of (gr_batch w')) = set (dict_keys (so_num_scheduled_tokens out))"
      "\<forall>d \<in> set (so_scheduled_new_reqs out). \<forall>row. batch_of (gr_batch w') (nd_req_id d) = Some row \<longrightarrow>
        br_num_tokens row = int (length (nd_prompt_token_ids d))"
      "\<forall>d \<in> set (so_scheduled_cached_reqs out). \<forall>row. batch_of (gr_batch w') (cd_req_id d) = Some row \<longrightarrow>
        cd_num_computed_tokens d + int (length (cd_new_token_ids d)) \<le> br_num_tokens row"
    and row: "batch_of (gr_batch w') (vs_id s r) = Some row"
  shows "flight_row s' (sched_fn (so_num_scheduled_tokens out) (vs_id s r)) r row"
proof -
  note P = plannedD[OF p] and T = planned_text[OF p] and I = planned_ids[OF p rest]
  let ?d = "so_num_scheduled_tokens out"
  let ?n = "sched_fn ?d (vs_id s r)"
  note ok = in_flightD(1)[OF P(1)]
  note F = running_ok_facts[OF ok r]
  have key: "vs_id s r \<in> set (dict_keys ?d)" using row w'(3) by blast
  then obtain k where k: "k \<in> set (runs @ adm)" "vs_id s r = vs_id s k" unfolding I(2) by (rule imageE) simp
  have "r \<in> set (live_reqs s)" "k \<in> set (live_reqs s)" using r k(1) P(5,6,8) by auto
  then have "r = k" using live_id_unique[OF rest] k(2) by blast
  then have sch: "r \<in> set (runs @ adm)" using k(1) by simp
  obtain st where st: "state_of w' (vs_id s r) = Some st" "flight_state s' ?n r st"
    using flight_states[OF p m rest r] w'(2) by auto
  obtain x n where x: "dict_get (gr_requests w') (vs_id s r) = Some x" "row = row_of_state (gr_state w' x) x (ib_vocab_size (gr_batch w')) n"
    "cs_num_computed_tokens (gr_state w' x) \<le> n" "n \<le> int (CachedRequestState_num_tokens (gr_state w' x))"
    using w'(1) row unfolding runner_inv_def rows_ok_def row_ok_def by blast
  then have e: "gr_state w' x = st" using st(1) by (simp add: state_of_def)
  have c: "cs_num_computed_tokens st = rq_num_computed_tokens (vs_obj s' r)" "cs_block_ids st = vs_blocks s' r"
    "cs_tokens st = take (CachedRequestState_num_tokens st) (rq_all_token_ids (vs_obj s' r))"
    using st(2) scheduled_positive[OF P(1) key] by (simp_all add: flight_state_def Let_def)
  have ge: "rq_num_computed_tokens (vs_obj s' r) + ?n \<le> n"
  proof (cases "r \<in> set adm \<and> rq_status (vs_obj s r) \<noteq> PREEMPTED")
    case True
    define d where "d = NewRequestData_from_request (vs_obj s' r) (vs_blocks s' r)"
    have d: "d \<in> set (so_scheduled_new_reqs out)" using True by (auto simp: P(17) d_def)
    note N = admitted_new_ok[OF p m conjunct1[OF True] conjunct2[OF True], folded d_def]
    have "n = int (length (rq_all_token_ids (vs_obj s r)))" using bspec[OF w'(4) d] row N(5,6) x(2) by simp
    then show ?thesis using F(4) by (simp add: T)
  next
    case False
    obtain y bs where "cached_info ?d s' y bs r \<in> set (so_scheduled_cached_reqs out)"
      using False sch unfolding P(18) by auto
    from bspec[OF w'(5) this] row have "rq_num_computed_tokens (vs_obj s' r) + int (length (cd_new_token_ids (cached_info ?d s' y bs r))) \<le> n"
      using x(2) by (simp add: T)
    then show ?thesis using cached_info_tokens(2)[OF ok r, of y bs] F(2) by (simp add: T)
  qed
  have "nat n \<le> CachedRequestState_num_tokens st" using x(4) e by simp
  then have "take (nat n) (cs_tokens st) = take (nat n) (rq_all_token_ids (vs_obj s' r))" unfolding c(3) by (simp add: min_def)
  then show ?thesis using ge c(1,2) unfolding flight_row_def x(2) e by simp
qed

text \<open>A request left waiting: preempted in this step or before, or not yet known to the runner.\<close>

lemma left_waiting:
  assumes p: "planned H s out s' runs adm" and m: "mirror s w" and rest: "at_rest H s" and r: "r \<in> set (vs_waiting s')"
    and st: "status_step (set (vs_running s)) s s'"
    and w': "runner_inv w'" "state_of w' = state_after w out" "dom (batch_of (gr_batch w')) = set (dict_keys (so_num_scheduled_tokens out))"
  shows "mirror_wait s' w' r"
proof -
  note P = plannedD[OF p] and T = planned_text[OF p] and I = planned_ids[OF p rest] and an = schedule_announces[OF p m rest]
  note ok = in_flightD(1)[OF P(1)] and ok0 = in_flightD(1)[OF rest]
  have live: "r \<in> set (live_reqs s)" using r mset_eq_setD[OF P(3)] by auto
  have nr: "r \<notin> set (vs_running s')" using r queues_okD(1)[OF sched_okD(2)[OF ok]] by auto
  then have na: "r \<notin> set (runs @ adm)" using P(4) by blast
  have key: "vs_id s r \<notin> set (dict_keys (so_num_scheduled_tokens out))"
  proof
    assume "vs_id s r \<in> set (dict_keys (so_num_scheduled_tokens out))"
    then obtain k where k: "k \<in> set (runs @ adm)" "vs_id s r = vs_id s k" unfolding I(2) by (rule imageE) simp
    then have "k \<in> set (live_reqs s)" using P(5,8) by auto
    then show False using live_id_unique[OF rest live _ k(2)] k(1) na by blast
  qed
  have b: "batch_of (gr_batch w') (vs_id s r) = None" using key w'(3) by blast
  have state: "state_of w' (vs_id s r) = (if vs_id s r \<in> vs_finished_req_ids s then None else state_of w (vs_id s r))"
    using state_after_rest[OF an key] w'(2) by (simp add: P(15))
  have waits: "vs_status s' r \<in> {WAITING, WAITING_FOR_FSM, PREEMPTED}" using sched_okD(5)[OF ok r] by (simp add: waiting_ok_def)
  have known: ?thesis if k: "knows s w r" "vs_id s r \<notin> vs_finished_req_ids s" "started s r"
  proof -
    have "vs_status s' r = PREEMPTED" using st k(3) waits by (auto simp: status_step_def started_def)
    moreover have "knows s' w' r" using k(1,2) state by (auto simp: knows_def Let_def T)
    ultimately show ?thesis using b by (simp add: mirror_wait_def T P(16))
  qed
  show ?thesis
  proof (cases "r \<in> set (vs_running s)")
    case True
    then have "mirror_run s w r" "started s r" using m sched_okD(6)[OF ok0] by (simp_all add: mirror_def running_ok_def started_def)
    then show ?thesis using known by (simp add: mirror_run_def)
  next
    case False
    then have mw: "mirror_wait s w r" using live m by (simp add: mirror_def)
    show ?thesis
    proof (cases "vs_status s r = PREEMPTED")
      case True
      then show ?thesis using known mw by (simp add: mirror_wait_def started_def)
    next
      case ne: False
      then have "vs_status s' r \<noteq> PREEMPTED" using st False unfolding status_step_def by blast
      moreover have "plain_request (vs_obj s' r)" using mw ne by (simp add: mirror_wait_def plain_request_def T)
      moreover have "state_of w' (vs_id s r) = None" using mw ne state by (simp add: mirror_wait_def)
      ultimately show ?thesis by (simp add: mirror_wait_def T)
    qed
  qed
qed

lemma runner_in_flight:
  assumes p: "planned H s out s' runs adm" and m: "mirror s w" and rest: "at_rest H s"
    and st: "status_step (set (vs_running s)) s s'" and ids: "lists_sets id_order"
  shows "\<exists>w'. GPUModelRunner_update_states id_order out w = Inr w' \<and> in_flight_runner s' out w'"
proof -
  note P = plannedD[OF p] and T = planned_text[OF p] and an = schedule_announces[OF p m rest]
  have w: "runner_inv w" "compact (gr_batch w)" "same_sizes s w" "metadata_ok (gr_batch w)" using m by (simp_all add: mirror_def)
  obtain w' where w': "GPUModelRunner_update_states id_order out w = Inr w'" "runner_inv w'" "compact (gr_batch w')"
     "state_of w' = state_after w out" "dom (batch_of (gr_batch w')) = set (dict_keys (so_num_scheduled_tokens out))"
     "same_shape (gr_batch w) (gr_batch w')" "gr_block_size w' = gr_block_size w"
     "metadata_ok (gr_batch w) \<longrightarrow> metadata_ok (gr_batch w')"
     "\<forall>d \<in> set (so_scheduled_new_reqs out). \<forall>row. batch_of (gr_batch w') (nd_req_id d) = Some row \<longrightarrow>
        br_num_tokens row = int (length (nd_prompt_token_ids d))"
     "\<forall>d \<in> set (so_scheduled_cached_reqs out). \<forall>row. batch_of (gr_batch w') (cd_req_id d) = Some row \<longrightarrow>
        cd_num_computed_tokens d + int (length (cd_new_token_ids d)) \<le> br_num_tokens row"
    using update_states_ok[OF w(1,2) ids an] by (elim exE conjE) (rule that; assumption)
  have sz: "same_sizes s' w'" using same_sizes_planned[OF p, of w] w(3) w'(6,7) by (simp add: same_sizes_def same_shape_def)
  have run: "(\<exists>st. state_of w' (vs_id s' r) = Some st \<and> flight_state s' (sched_fn (so_num_scheduled_tokens out) (vs_id s' r)) r st) \<and>
      (\<forall>row. batch_of (gr_batch w') (vs_id s' r) = Some row \<longrightarrow> flight_row s' (sched_fn (so_num_scheduled_tokens out) (vs_id s' r)) r row)"
    if "r \<in> set (vs_running s')" for r
    using flight_states[OF p m rest that] flight_rows[OF p m rest that w'(2,4,5,9,10)] w'(4) by (simp add: T)
  have "\<forall>r \<in> set (vs_waiting s'). mirror_wait s' w' r" using left_waiting[OF p m rest _ st w'(2,4,5)] by blast
  then have "in_flight_runner s' out w'" unfolding in_flight_runner_def using w(4) w'(2,3,5,8) sz run by blast
  then show ?thesis using w'(1) by blast
qed

section \<open>The inputs of the model\<close>

text \<open>
  The tokens, positions and cache slots the scheduler has planned for a request, read from the
  scheduler alone.
\<close>

definition request_of :: "V1Scheduler \<Rightarrow> string \<Rightarrow> req_ref" where
  "request_of s i = the (dict_get (vs_requests s) i)"

definition planned_positions :: "V1Scheduler \<Rightarrow> int \<Rightarrow> req_ref \<Rightarrow> int list" where
  "planned_positions s n r = map (\<lambda>j. rq_num_computed_tokens (vs_obj s r) + int j) [0..<nat n]"

definition planned_tokens :: "V1Scheduler \<Rightarrow> int \<Rightarrow> req_ref \<Rightarrow> int list" where
  "planned_tokens s n r = take (nat n) (drop (nat (rq_num_computed_tokens (vs_obj s r))) (rq_all_token_ids (vs_obj s r)))"

definition planned_slots :: "V1Scheduler \<Rightarrow> int \<Rightarrow> req_ref \<Rightarrow> int list" where
  "planned_slots s n r = (let bs = int (km_block_size (vs_km s)) in
     map (\<lambda>p. int (vs_blocks s r ! nat (p div bs)) * bs + p mod bs) (planned_positions s n r))"

lemma flight_row_inputs:
  assumes "flight_row s n r row" "0 \<le> n" "0 \<le> rq_num_computed_tokens (vs_obj s r)"
  shows "row_positions row (nat n) = planned_positions s n r" "row_tokens row (nat n) = planned_tokens s n r"
    "row_slots (int (km_block_size (vs_km s))) row (nat n) = planned_slots s n r"
proof -
  have R: "br_num_computed row = rq_num_computed_tokens (vs_obj s r)" "rq_num_computed_tokens (vs_obj s r) + n \<le> br_num_tokens row"
     "br_blocks row = vs_blocks s r" "br_tokens row = take (nat (br_num_tokens row)) (rq_all_token_ids (vs_obj s r))"
    using assms(1) by (simp_all add: flight_row_def)
  show 1: "row_positions row (nat n) = planned_positions s n r" by (simp add: row_positions_def planned_positions_def R(1))
  have "nat n + nat (rq_num_computed_tokens (vs_obj s r)) \<le> nat (br_num_tokens row)" using R(2) assms(2,3) by linarith
  then show "row_tokens row (nat n) = planned_tokens s n r"
    unfolding row_tokens_def planned_tokens_def R(1,4) drop_take by simp
  show "row_slots (int (km_block_size (vs_km s))) row (nat n) = planned_slots s n r"
    by (simp add: row_slots_def planned_slots_def 1 R(3) Let_def)
qed

end
