(* ===== verification/Engine_Loop.thy ===== *)
theory Engine_Loop
  imports Engine_Runner
begin

text \<open>
  The steps of the engine core with the model runner as the executor: the inputs of the model are
  what the scheduler has planned, the answer of the runner is one the scheduler takes, and after
  the update the runner mirrors the scheduler again.
\<close>

section \<open>The inputs of a step\<close>

text \<open>The requests of the step in the order of their rows.\<close>

definition batch_reqs :: "V1Scheduler \<Rightarrow> InputBatch \<Rightarrow> req_ref list" where
  "batch_reqs s b = map (request_of s) (batch_ids b)"

definition inputs_planned :: "V1Scheduler \<Rightarrow> (string, int) dict \<Rightarrow> req_ref list \<Rightarrow> model_inputs \<Rightarrow> bool" where
  "inputs_planned s d rs inputs \<longleftrightarrow> (let n = (\<lambda>r. sched_fn d (vs_id s r)) in
     mi_num_scheduled inputs = map (\<lambda>r. nat (n r)) rs \<and>
     mi_positions inputs = concat (map (\<lambda>r. planned_positions s (n r) r) rs) \<and>
     mi_input_ids inputs = concat (map (\<lambda>r. planned_tokens s (n r) r) rs) \<and>
     mi_slot_mapping inputs = concat (map (\<lambda>r. planned_slots s (n r) r) rs) \<and>
     mi_query_start_loc inputs = 0 # cumsum_from 0 (map (\<lambda>r. nat (n r)) rs) \<and>
     mi_seq_lens inputs = map (\<lambda>r. rq_num_computed_tokens (vs_obj s r) + n r) rs)"

lemma in_flight_runnerD:
  assumes "in_flight_runner s out w"
  shows "runner_inv w" "compact (gr_batch w)" "metadata_ok (gr_batch w)" "same_sizes s w"
    "dom (batch_of (gr_batch w)) = set (dict_keys (so_num_scheduled_tokens out))"
    "r \<in> set (vs_running s) \<Longrightarrow> \<exists>st. state_of w (vs_id s r) = Some st \<and> flight_state s (sched_fn (so_num_scheduled_tokens out) (vs_id s r)) r st"
    "r \<in> set (vs_running s) \<Longrightarrow> batch_of (gr_batch w) (vs_id s r) = Some row \<Longrightarrow>
       flight_row s (sched_fn (so_num_scheduled_tokens out) (vs_id s r)) r row"
    "r \<in> set (vs_waiting s) \<Longrightarrow> mirror_wait s w r"
  using assms unfolding in_flight_runner_def by blast+

lemma keyed_request:
  assumes fl: "in_flight H d s" and i: "i \<in> set (dict_keys d)"
  shows "request_of s i \<in> set (vs_running s)" "vs_id s (request_of s i) = i"
proof -
  obtain r where r: "r \<in> set (vs_running s)" "vs_id s r = i" using i in_flightD(3,4)[OF fl] by fastforce
  have "dict_get (vs_requests s) (vs_id s r) = Some r" using queues_okD(4)[OF sched_okD(2)[OF in_flightD(1)[OF fl]]] r(1) by simp
  then have "request_of s i = r" using r(2) by (simp add: request_of_def)
  then show "request_of s i \<in> set (vs_running s)" "vs_id s (request_of s i) = i" using r by simp_all
qed

lemma batch_reqs_ok:
  assumes fl: "in_flight H (so_num_scheduled_tokens out) s" and w: "in_flight_runner s out w"
  shows "map (vs_id s) (batch_reqs s (gr_batch w)) = batch_ids (gr_batch w)" "distinct (batch_reqs s (gr_batch w))"
    "set (batch_reqs s (gr_batch w)) = {r \<in> set (vs_running s). vs_id s r \<in> set (dict_keys (so_num_scheduled_tokens out))}"
proof -
  let ?ids = "batch_ids (gr_batch w)" and ?K = "set (dict_keys (so_num_scheduled_tokens out))"
  note W = in_flight_runnerD[OF w]
  have b: "batch_inv (gr_batch w)" using W(1) by (simp add: runner_inv_def)
  note I = batch_ids_ok[OF b W(2)]
  have keys: "set ?ids = ?K" using I(2) W(5) by simp
  note Q = keyed_request[OF fl]
  show m: "map (vs_id s) (batch_reqs s (gr_batch w)) = ?ids"
    unfolding batch_reqs_def map_map by (rule map_idI) (use Q(2) keys in simp)
  show "distinct (batch_reqs s (gr_batch w))" using I(1) m by (metis distinct_map)
  show "set (batch_reqs s (gr_batch w)) = {r \<in> set (vs_running s). vs_id s r \<in> ?K}"
  proof (intro equalityI subsetI)
    fix r
    assume "r \<in> set (batch_reqs s (gr_batch w))"
    then obtain i where "i \<in> ?K" "r = request_of s i" using keys by (auto simp: batch_reqs_def)
    then show "r \<in> {r \<in> set (vs_running s). vs_id s r \<in> ?K}" using Q by simp
  next
    fix r
    assume r: "r \<in> {r \<in> set (vs_running s). vs_id s r \<in> ?K}"
    have "request_of s (vs_id s r) = r"
      using queues_okD(4)[OF sched_okD(2)[OF in_flightD(1)[OF fl]]] r by (simp add: request_of_def)
    then show "r \<in> set (batch_reqs s (gr_batch w))" using r keys by (force simp: batch_reqs_def)
  qed
qed

lemma sum_list_positive_key:
  assumes "0 < sum_list (dict_values (d :: (string, int) dict))"
  shows "\<exists>i. i \<in> set (dict_keys d)"
  using assms by (cases d) auto

lemma batch_ids_cong:
  assumes "batch_inv b" "compact b" "batch_inv b'" "compact b'" "ib_req_id_to_index b' = ib_req_id_to_index b"
  shows "batch_ids b' = batch_ids b"
proof (rule nth_equalityI)
  have l: "InputBatch_num_reqs b' = InputBatch_num_reqs b" by (simp add: InputBatch_num_reqs_def assms(5))
  then show "length (batch_ids b') = length (batch_ids b)" by (simp add: batch_ids_ok(3)[OF assms(1,2)] batch_ids_ok(3)[OF assms(3,4)])
  fix k
  assume k: "k < length (batch_ids b')"
  then have kb: "k < length (batch_ids b)" using l by (simp add: batch_ids_ok(3)[OF assms(1,2)] batch_ids_ok(3)[OF assms(3,4)])
  have x: "index_ok b" "index_ok b'" using assms(1,3) by (simp_all add: batch_inv_def)
  have "slot_id b' k = Some (batch_ids b' ! k)" by (rule batch_ids_ok(4)[OF assms(3,4) k])
  then have "dict_get (ib_req_id_to_index b) (batch_ids b' ! k) = Some k" using x(2) assms(5) by (simp add: index_ok_def)
  then have "slot_id b k = Some (batch_ids b' ! k)" using x(1) by (simp add: index_ok_def)
  then show "batch_ids b' ! k = batch_ids b ! k" using batch_ids_ok(4)[OF assms(1,2) kb] by simp
qed

lemma runner_inputs:
  assumes fl: "in_flight H (so_num_scheduled_tokens out) s" and w: "in_flight_runner s out w"
    and total: "so_total_num_scheduled_tokens out = sum_list (dict_values (so_num_scheduled_tokens out))" "0 < so_total_num_scheduled_tokens out"
  shows "\<exists>inputs b'. GPUModelRunner_prepare_inputs out w = Inr (inputs, w\<lparr>gr_batch := b'\<rparr>) \<and> in_flight_runner s out (w\<lparr>gr_batch := b'\<rparr>) \<and>
     batch_ids b' = batch_ids (gr_batch w) \<and> inputs_planned s (so_num_scheduled_tokens out) (batch_reqs s (gr_batch w)) inputs"
proof -
  let ?d = "so_num_scheduled_tokens out" and ?b = "gr_batch w"
  note W = in_flight_runnerD[OF w] and ok = in_flightD(1)[OF fl]
  note Q = keyed_request[OF fl] and R = batch_reqs_ok[OF fl w]
  have b: "batch_inv ?b" using W(1) by (simp add: runner_inv_def)
  have bs: "gr_block_size w = km_block_size (vs_km s)" using W(4) by (simp add: same_sizes_def)
  have ns: "num_scheduled out i = nat (sched_fn ?d i)" for i by (simp add: num_scheduled_def sched_fn_def)
  have facts: "flight_row s (sched_fn ?d i) (request_of s i) row \<and> 0 \<le> rq_num_computed_tokens (vs_obj s (request_of s i)) \<and> 0 < sched_fn ?d i \<and>
      rq_num_computed_tokens (vs_obj s (request_of s i)) + sched_fn ?d i \<le>
        int (length (vs_blocks s (request_of s i))) * int (km_block_size (vs_km s))"
    if row: "batch_of ?b i = Some row" for i row
  proof -
    have i: "i \<in> set (dict_keys ?d)" using row W(5) by blast
    then have r: "request_of s i \<in> set (vs_running s)" "vs_id s (request_of s i) = i" using Q by blast+
    show ?thesis using W(7)[OF r(1), of row] row running_ok_facts(1,5)[OF ok r(1)] scheduled_positive[OF fl i] unfolding r(2) by simp
  qed
  obtain i where i: "i \<in> set (dict_keys ?d)" using sum_list_positive_key total by metis
  then obtain row where row: "batch_of ?b i = Some row" using W(5) by blast
  have bs0: "0 < gr_block_size w"
  proof (rule ccontr)
    assume "\<not> 0 < gr_block_size w"
    then show False using facts[OF row] bs by auto
  qed
  have room: "br_num_computed row + int (num_scheduled out i) \<le> br_num_tokens row \<and>
      br_num_computed row + int (num_scheduled out i) \<le> int (gr_block_size w * length (br_blocks row))" if "batch_of ?b i = Some row" for i row
    using facts[OF that] by (simp add: ns flight_row_def bs algebra_simps)
  have pos: "\<And>n. n \<in> set (dict_values ?d) \<Longrightarrow> 0 \<le> n" using in_flightD(5)[OF fl] by force
  obtain inputs b' where p: "GPUModelRunner_prepare_inputs out w = Inr (inputs, w\<lparr>gr_batch := b'\<rparr>)"
     "batch_inv b'" "compact b'" "batch_of b' = batch_of ?b" "same_shape ?b b'"
     "ib_req_id_to_index b' = ib_req_id_to_index ?b" "ib_sampling_metadata b' = ib_sampling_metadata ?b"
     "let ids = batch_ids ?b; row = (\<lambda>i. the (batch_of ?b i)); n = num_scheduled out in
        mi_num_scheduled inputs = map n ids \<and>
        mi_positions inputs = concat (map (\<lambda>i. row_positions (row i) (n i)) ids) \<and>
        mi_input_ids inputs = concat (map (\<lambda>i. row_tokens (row i) (n i)) ids) \<and>
        mi_slot_mapping inputs = concat (map (\<lambda>i. row_slots (int (gr_block_size w)) (row i) (n i)) ids) \<and>
        mi_query_start_loc inputs = 0 # cumsum_from 0 (map n ids) \<and>
        mi_seq_lens inputs = map (\<lambda>i. br_num_computed (row i) + int (n i)) ids"
    using prepare_inputs_ok[OF W(1,2) bs0 W(5) in_flightD(2)[OF fl] total pos room] by blast
  have ids: "batch_ids b' = batch_ids ?b" by (rule batch_ids_cong[OF b W(2) p(2,3,6)])
  have meta: "metadata_ok b'" using W(3) unfolding metadata_ok_def view_of_def p(4,7) ids .
  have inv: "runner_inv (w\<lparr>gr_batch := b'\<rparr>)" by (rule runner_inv_batch[OF W(1) p(2,4,5)])
  have "same_sizes s (w\<lparr>gr_batch := b'\<rparr>)" using W(4) p(5) by (simp add: same_sizes_def same_shape_def)
  moreover have "state_of (w\<lparr>gr_batch := b'\<rparr>) = state_of w" by (simp add: state_of_def fun_eq_iff)
  moreover have "mirror_wait s (w\<lparr>gr_batch := b'\<rparr>) r = mirror_wait s w r" for r
    unfolding mirror_wait_def knows_def calculation(2) by (simp add: p(4))
  ultimately have fr: "in_flight_runner s out (w\<lparr>gr_batch := b'\<rparr>)"
    using w inv p(3,4) meta unfolding in_flight_runner_def by simp
  have each: "row_positions (the (batch_of ?b i)) (num_scheduled out i) = planned_positions s (sched_fn ?d i) (request_of s i)"
    "row_tokens (the (batch_of ?b i)) (num_scheduled out i) = planned_tokens s (sched_fn ?d i) (request_of s i)"
    "row_slots (int (gr_block_size w)) (the (batch_of ?b i)) (num_scheduled out i) = planned_slots s (sched_fn ?d i) (request_of s i)"
    "br_num_computed (the (batch_of ?b i)) + int (num_scheduled out i) = rq_num_computed_tokens (vs_obj s (request_of s i)) + sched_fn ?d i"
    "vs_id s (request_of s i) = i"
    if i: "i \<in> set (batch_ids ?b)" for i
  proof -
    have d: "i \<in> dom (batch_of ?b)" using i batch_ids_ok(2)[OF b W(2)] by simp
    then obtain row where row: "batch_of ?b i = Some row" by blast
    note f = facts[OF row]
    then have n: "0 \<le> sched_fn ?d i" by simp
    note in_eqs = flight_row_inputs[OF conjunct1[OF f] n conjunct1[OF conjunct2[OF f]]]
    show "row_positions (the (batch_of ?b i)) (num_scheduled out i) = planned_positions s (sched_fn ?d i) (request_of s i)"
      "row_tokens (the (batch_of ?b i)) (num_scheduled out i) = planned_tokens s (sched_fn ?d i) (request_of s i)"
      "row_slots (int (gr_block_size w)) (the (batch_of ?b i)) (num_scheduled out i) = planned_slots s (sched_fn ?d i) (request_of s i)"
      using in_eqs by (simp_all add: row ns bs)
    show "br_num_computed (the (batch_of ?b i)) + int (num_scheduled out i) = rq_num_computed_tokens (vs_obj s (request_of s i)) + sched_fn ?d i"
      using f n by (simp add: row ns flight_row_def)
    show "vs_id s (request_of s i) = i" using Q(2)[of i] d W(5) by simp
  qed
  have mp: "map f (batch_reqs s ?b) = map (\<lambda>i. f (request_of s i)) (batch_ids ?b)" for f :: "req_ref \<Rightarrow> 'a" by (simp add: batch_reqs_def)
  have "inputs_planned s ?d (batch_reqs s ?b) inputs"
    using p(8) each unfolding inputs_planned_def Let_def mp by (simp add: ns cong: map_cong)
  then show ?thesis using p(1) fr ids by blast
qed

section \<open>The answer of the runner\<close>

lemma row_logprobs:
  assumes "runner_inv w" "batch_of (gr_batch w) i = Some row" "state_of w i = Some st"
  shows "fst (br_logprobs row) = sp_logprobs (cs_sampling_params st)"
proof -
  have "row_ok w i row" using assms(1,2) by (simp add: runner_inv_def rows_ok_def)
  then show ?thesis using assms(3) by (auto simp: row_ok_def state_of_def row_of_state_def fresh_row_def Let_def)
qed

text \<open>One token for every request of the step, and log probabilities when a request asks for them.\<close>

definition one_reply :: "SchedulerOutput \<Rightarrow> ModelRunnerOutput \<Rightarrow> bool" where
  "one_reply sched out \<longleftrightarrow> (\<forall>i \<in> set (dict_keys (so_num_scheduled_tokens sched)). length (reply_of out i) = 1)"

lemma runner_answers:
  assumes fl: "in_flight H (so_num_scheduled_tokens out) s" and w: "in_flight_runner s out w"
    and mo: "mo_req_id_to_index mo = ib_req_id_to_index (gr_batch w)" "mo_spec_token_ids mo = None"
      "mo_sampled_token_ids mo = map (\<lambda>k. [f k]) [0..<InputBatch_num_reqs (gr_batch w)]"
      "mo_logprobs mo = None \<longleftrightarrow> sm_max_num_logprobs (ib_sampling_metadata (gr_batch w)) = None"
  shows "replies_ok (so_num_scheduled_tokens out) mo s" "one_reply out mo"
proof -
  let ?d = "so_num_scheduled_tokens out" and ?b = "gr_batch w"
  note W = in_flight_runnerD[OF w]
  have b: "batch_inv ?b" using W(1) by (simp add: runner_inv_def)
  have x: "index_ok ?b" using b by (simp add: batch_inv_def)
  note I = batch_ids_ok[OF b W(2)]
  have at: "\<exists>k. dict_get (mo_req_id_to_index mo) i = Some k \<and> k < length (mo_sampled_token_ids mo) \<and> reply_of mo i = [f k]"
    if i: "i \<in> set (dict_keys ?d)" for i
  proof -
    obtain row where "batch_of ?b i = Some row" using i W(5) by blast
    then obtain k where k: "slot_id ?b k = Some i" using batch_of_Some_iff[OF x] by blast
    then have "k < InputBatch_num_reqs ?b" using slot_bound[OF k] W(2) by (simp add: compact_def)
    moreover have "dict_get (ib_req_id_to_index ?b) i = Some k" using k x by (simp add: index_ok_def)
    ultimately show ?thesis by (simp add: mo reply_of_def dict_get_default_def)
  qed
  then show "one_reply out mo" by (force simp: one_reply_def)
  have lp: "mo_logprobs mo \<noteq> None" if r: "r \<in> set (vs_running s)" "vs_id s r \<in> set (dict_keys ?d)" "sp_logprobs (rq_sampling_params (vs_obj s r)) \<noteq> None" for r
  proof -
    obtain row where row: "batch_of ?b (vs_id s r) = Some row" using r(2) W(5) by blast
    obtain st where st: "state_of w (vs_id s r) = Some st" "cs_sampling_params st = rq_sampling_params (vs_obj s r)"
      using W(6)[OF r(1)] by (auto simp: flight_state_def Let_def)
    have "fst (br_logprobs row) = sp_logprobs (rq_sampling_params (vs_obj s r))" using row_logprobs[OF W(1) row st(1)] st(2) by simp
    then obtain k where k: "fst (br_logprobs row) = Some k" using r(3) by auto
    have "vs_id s r \<in> set (batch_ids ?b)" using I(2) row by blast
    then have "(br_sampling row, br_classes row, fst (br_logprobs row)) \<in> set (view_of ?b)" using row by (force simp: view_of_def)
    then have "\<exists>m. sm_max_num_logprobs (ib_sampling_metadata ?b) = Some m \<and> k \<le> m"
      using W(3) k unfolding metadata_ok_def describes_def by fastforce
    then show ?thesis using mo(4) by auto
  qed
  have "reply_ok mo (vs_obj s r) (sched_fn ?d (vs_id s r))" if "r \<in> set (vs_running s)" "vs_id s r \<in> fst ` set ?d" for r
    using at[of "vs_id s r"] lp[OF that(1)] that(2) by (auto simp: reply_ok_def dict_get_default_def)
  then show "replies_ok ?d mo s" using mo(2) by (simp add: replies_ok_def)
qed

lemma runner_executes:
  assumes fl: "in_flight H (so_num_scheduled_tokens out) s" and w: "in_flight_runner s out w1"
    and up: "GPUModelRunner_update_states id_order out w = Inr w1"
    and total: "so_total_num_scheduled_tokens out = sum_list (dict_values (so_num_scheduled_tokens out))" "0 < so_total_num_scheduled_tokens out"
  shows "\<exists>mo w2. GPUModelRunner_execute_model id_order S out w = Inr (mo, w2) \<and> in_flight_runner s out w2 \<and>
     replies_ok (so_num_scheduled_tokens out) mo s \<and> one_reply out mo \<and>
     (\<exists>inputs. inputs_planned s (so_num_scheduled_tokens out) (batch_reqs s (gr_batch w2)) inputs \<and>
        mo_sampled_token_ids mo = map (\<lambda>k. [model_token S inputs (ib_sampling_metadata (gr_batch w2)) k]) [0..<length (batch_reqs s (gr_batch w2))] \<and>
        mo_req_id_to_index mo = ib_req_id_to_index (gr_batch w2))"
proof -
  obtain inputs b' where p: "GPUModelRunner_prepare_inputs out w1 = Inr (inputs, w1\<lparr>gr_batch := b'\<rparr>)"
    "in_flight_runner s out (w1\<lparr>gr_batch := b'\<rparr>)" "batch_ids b' = batch_ids (gr_batch w1)"
    "inputs_planned s (so_num_scheduled_tokens out) (batch_reqs s (gr_batch w1)) inputs"
    using runner_inputs[OF fl w total] by blast
  define w2 where "w2 = w1\<lparr>gr_batch := b'\<rparr>"
  have g: "gr_batch w2 = b'" by (simp add: w2_def)
  define mo where "mo = \<lparr>mo_req_id_to_index = ib_req_id_to_index b',
     mo_sampled_token_ids = map (\<lambda>i. [model_token S inputs (ib_sampling_metadata b') i]) [0..<InputBatch_num_reqs b'], mo_spec_token_ids = None,
     mo_logprobs = (if sm_max_num_logprobs (ib_sampling_metadata b') = None then None
       else Some (map (model_logprobs S inputs (ib_sampling_metadata b')) [0..<InputBatch_num_reqs b'])),
     mo_prompt_logprobs = model_prompt_logprobs S inputs\<rparr>"
  have e: "GPUModelRunner_execute_model id_order S out w = Inr (mo, w2)"
    using total(2) unfolding GPUModelRunner_execute_model_def up res_bind_simps p(1) prod.case Let_def
    by (simp add: mo_def w2_def)
  have fr: "in_flight_runner s out w2" using p(2) by (simp add: w2_def)
  note W = in_flight_runnerD[OF fr]
  have b: "batch_inv b'" using W(1) by (simp add: runner_inv_def g)
  have n: "InputBatch_num_reqs b' = length (batch_reqs s b')" using batch_ids_ok(3)[OF b] W(2) by (simp add: batch_reqs_def g)
  have shape: "mo_req_id_to_index mo = ib_req_id_to_index (gr_batch w2)" "mo_spec_token_ids mo = None"
      "mo_sampled_token_ids mo = map (\<lambda>k. [model_token S inputs (ib_sampling_metadata b') k]) [0..<InputBatch_num_reqs (gr_batch w2)]"
      "mo_logprobs mo = None \<longleftrightarrow> sm_max_num_logprobs (ib_sampling_metadata (gr_batch w2)) = None"
    by (simp_all add: mo_def g)
  note a = runner_answers[OF fl fr shape]
  have "batch_reqs s b' = batch_reqs s (gr_batch w1)" by (simp add: batch_reqs_def p(3))
  then show ?thesis using e fr a p(4) n by (intro exI[of _ mo] exI[of _ w2] conjI exI[of _ inputs]) (simp_all add: mo_def g)
qed

section \<open>What the runner sees of a request\<close>

text \<open>Requests equal up to the grammar, which the runner does not see.\<close>

definition same_request :: "Request \<Rightarrow> Request \<Rightarrow> bool" where
  "same_request q q' \<longleftrightarrow> q'\<lparr>rq_grammar := rq_grammar q\<rparr> = q"

lemma same_request_refl [simp]: "same_request q q"
  by (simp add: same_request_def)

lemma same_requestD:
  assumes "same_request q q'"
  shows "rq_request_id q' = rq_request_id q" "rq_all_token_ids q' = rq_all_token_ids q" "rq_status q' = rq_status q"
    "rq_sampling_params q' = rq_sampling_params q" "rq_num_computed_tokens q' = rq_num_computed_tokens q"
    "rq_lora_request q' = rq_lora_request q" "rq_num_prompt_tokens q' = rq_num_prompt_tokens q"
  using assms by (cases q, cases q', simp add: same_request_def)+

lemma mirror_wait_same:
  assumes "mirror_wait s w r" "same_request (vs_obj s r) (vs_obj s' r)" "vs_id s r \<in> vs_finished_req_ids s' \<Longrightarrow> vs_id s r \<in> vs_finished_req_ids s"
  shows "mirror_wait s' w r"
  using assms(1,3) same_requestD[OF assms(2)] by (auto simp: mirror_wait_def knows_def plain_request_def Let_def)

lemma mirror_run_same:
  assumes "mirror_run s w r" "same_request (vs_obj s r) (vs_obj s' r)" "vs_id s r \<in> vs_finished_req_ids s' \<Longrightarrow> vs_id s r \<in> vs_finished_req_ids s"
    "vs_blocks s' r = vs_blocks s r"
  shows "mirror_run s' w r"
  using assms(1,3,4) same_requestD[OF assms(2)] by (auto simp: mirror_run_def knows_def Let_def)

section \<open>The update\<close>

lemma make_stats_blocks: "Scheduler_make_stats s = Inr (m, s') \<Longrightarrow> blocks_kept {} s s' \<and> vs_objects s' = vs_objects s"
  by (auto simp: Scheduler_make_stats_def KVCacheManager_make_prefix_cache_stats_def blocks_kept_def split: if_splits elim!: res_bind_InrE)

lemma update_from_output_blocks:
  assumes "Scheduler_update_from_output order sched out s = Inr (res, s')" "distinct (map (vs_id s) (vs_running s))"
  shows "blocks_kept (vs_id s ` (set (vs_running s) - set (vs_running s'))) s s'"
proof -
  obtain keep outs acc s1 st where u: "update_requests order sched out (vs_running s) s = Inr (keep, outs, acc, s1)"
    and m: "Scheduler_make_stats (s1\<lparr>vs_running := keep\<rparr>) = Inr (st, s')"
    using assms(1) unfolding Scheduler_update_from_output_def by (auto elim!: res_bind_InrE)
  have 1: "blocks_kept (vs_id s ` (set (vs_running s) - set keep)) s s1" using update_requests_blocks[OF u assms(2)] by blast
  have 2: "blocks_kept {} s1 (s1\<lparr>vs_running := keep\<rparr>)" by (simp add: blocks_kept_def)
  have 3: "blocks_kept {} (s1\<lparr>vs_running := keep\<rparr>) s'" using make_stats_blocks[OF m] by blast
  have "vs_running s' = keep" using m by (auto simp: Scheduler_make_stats_def Let_def split: if_splits prod.splits elim!: res_bind_InrE)
  then show ?thesis using blocks_kept_trans[OF blocks_kept_trans[OF 1 2] 3] by simp
qed

text \<open>What the update makes of a running request that goes on.\<close>

lemma answered_knows:
  assumes a: "answer_ok out s s' n r" and f: "flight_state s n r st" and n: "0 \<le> n"
    and one: "0 < n \<Longrightarrow> length (reply_of out (vs_id s r)) = 1"
    and le: "rq_num_computed_tokens (vs_obj s r) + n \<le> int (length (rq_all_token_ids (vs_obj s r)))"
  shows "let toks = rq_all_token_ids (vs_obj s' r); m = CachedRequestState_num_tokens st in
      cs_tokens st = take m toks \<and> m \<le> length toks \<and> length toks \<le> Suc m"
    "rq_num_computed_tokens (vs_obj s' r) = rq_num_computed_tokens (vs_obj s r) + n"
proof -
  let ?a = "rq_all_token_ids (vs_obj s r)" and ?m = "CachedRequestState_num_tokens st" and ?c = "rq_num_computed_tokens (vs_obj s r)"
  have F: "cs_tokens st = take ?m ?a" "?m \<le> length ?a" "length ?a \<le> Suc ?m" "0 < n \<Longrightarrow> ?c + n \<le> int ?m"
    using f by (simp_all add: flight_state_def Let_def)
  have "(\<exists>toks. rq_all_token_ids (vs_obj s' r) = ?a @ toks \<and> length toks \<le> 1 \<and> (toks \<noteq> [] \<longrightarrow> 0 < n \<and> ?c + n = int (length ?a))) \<and>
     rq_num_computed_tokens (vs_obj s' r) = ?c + n"
  proof (cases "n = 0")
    case True
    then show ?thesis using a by (simp add: answer_ok_def)
  next
    case False
    then obtain toks stopped where t: "answered (vs_max_model_len s) n (reply_of out (vs_id s r)) (vs_obj s r) (vs_obj s' r) toks stopped"
      using a unfolding answer_ok_def if_not_P[OF False] by (elim exE) (rule that)
    have p: "0 < n" using False n by simp
    have T: "rq_all_token_ids (vs_obj s' r) = ?a @ toks" "rq_num_computed_tokens (vs_obj s' r) = ?c + n"
      "if ?c + n < int (length ?a) then toks = [] \<and> \<not> stopped else taken_tokens (vs_max_model_len s) (vs_obj s r) (reply_of out (vs_id s r)) toks stopped"
      using t unfolding answered_def by blast+
    have "length toks \<le> 1 \<and> (toks \<noteq> [] \<longrightarrow> 0 < n \<and> ?c + n = int (length ?a))"
    proof (cases "?c + n < int (length ?a)")
      case True
      have "toks = []" using T(3) unfolding if_P[OF True] by blast
      then show ?thesis by simp
    next
      case False
      have "taken_tokens (vs_max_model_len s) (vs_obj s r) (reply_of out (vs_id s r)) toks stopped" using T(3) unfolding if_not_P[OF False] .
      then have "prefix toks (reply_of out (vs_id s r))" unfolding taken_tokens_def by blast
      from prefix_length_le[OF this] have "length toks \<le> 1" unfolding one[OF p] .
      moreover have "?c + n = int (length ?a)" using False le by linarith
      ultimately show ?thesis using p by blast
    qed
    then show ?thesis using T(1,2) by blast
  qed
  then obtain toks where t: "rq_all_token_ids (vs_obj s' r) = ?a @ toks" "length toks \<le> 1" "toks \<noteq> [] \<Longrightarrow> 0 < n \<and> ?c + n = int (length ?a)"
    and c: "rq_num_computed_tokens (vs_obj s' r) = ?c + n" by blast
  show "rq_num_computed_tokens (vs_obj s' r) = ?c + n" by (rule c)
  have full: "?m = length ?a" if ne: "toks \<noteq> []" using t(3)[OF ne] F(2) F(4)[OF conjunct1[OF t(3)[OF ne]]] by linarith
  show "let toks = rq_all_token_ids (vs_obj s' r); m = CachedRequestState_num_tokens st in
      cs_tokens st = take m toks \<and> m \<le> length toks \<and> length toks \<le> Suc m"
  proof (cases "toks = []")
    case True
    then show ?thesis unfolding Let_def t(1) using F(1-3) by simp
  next
    case False
    then show ?thesis unfolding Let_def t(1) full[OF False] using F(1) t(2) full[OF False] by simp
  qed
qed

lemma mirror_after_update:
  assumes fl: "in_flight H (so_num_scheduled_tokens sched) s" and sp: "so_scheduled_spec_decode_tokens sched = []"
    and w: "in_flight_runner s sched w" and fin: "vs_finished_req_ids s = {}"
    and rep: "replies_ok (so_num_scheduled_tokens sched) out s" "one_reply sched out"
    and upd: "Scheduler_update_from_output order sched out s = Inr (res, s')"
  shows "mirror s' w"
proof -
  let ?d = "so_num_scheduled_tokens sched"
  note W = in_flight_runnerD[OF w] and ok = in_flightD(1)[OF fl]
  obtain t: "at_rest H s'" "vs_waiting s' = vs_waiting s" "vs_running s' = filter (\<lambda>r. \<not> Request_is_finished (vs_obj s' r)) (vs_running s)"
     "\<forall>k. k \<notin> set (vs_running s) \<longrightarrow> vs_obj s' k = vs_obj s k" "\<forall>k. vs_id s' k = vs_id s k"
     "vs_finished_req_ids s' = vs_finished_req_ids s \<union> vs_id s ` {r \<in> set (vs_running s). Request_is_finished (vs_obj s' r)}"
     "\<forall>r \<in> set (vs_running s). answer_ok out s s' (sched_fn ?d (vs_id s r)) r"
     "vs_max_model_len s' = vs_max_model_len s" "vs_max_num_running_reqs s' = vs_max_num_running_reqs s" "same_config (vs_km s) (vs_km s')"
    using update_from_output_ok[OF fl sp rep(1), of order] upd by fastforce
  have inj: "inj_on (vs_id s) (set (live_reqs s))" using queues_okD(2)[OF sched_okD(2)[OF ok]] .
  have dist: "distinct (map (vs_id s) (vs_running s))"
    using queues_okD(1)[OF sched_okD(2)[OF ok]] inj_on_subset[OF inj, of "set (vs_running s)"] by (simp add: distinct_map)
  have kept: "blocks_kept (vs_id s ` (set (vs_running s) - set (vs_running s'))) s s'" by (rule update_from_output_blocks[OF upd dist])
  have out: "vs_id s r \<notin> vs_id s ` (set (vs_running s) - set (vs_running s'))" "vs_id s r \<notin> vs_finished_req_ids s'"
    if r: "r \<in> set (live_reqs s)" "r \<in> set (vs_running s) \<Longrightarrow> \<not> Request_is_finished (vs_obj s' r)" for r
  proof -
    have "r = k" if "k \<in> set (vs_running s)" "vs_id s r = vs_id s k" for k using inj_onD[OF inj that(2) r(1)] that(1) by simp
    then show "vs_id s r \<notin> vs_id s ` (set (vs_running s) - set (vs_running s'))" "vs_id s r \<notin> vs_finished_req_ids s'"
      using r(2) by (auto simp: t(3,6) fin)
  qed
  have run: "mirror_run s' w r" if r': "r \<in> set (vs_running s')" for r
  proof -
    have r: "r \<in> set (vs_running s)" "\<not> Request_is_finished (vs_obj s' r)" using r' unfolding t(3) by simp_all
    let ?n = "sched_fn ?d (vs_id s r)"
    note F = running_ok_facts[OF ok r(1)]
    obtain st where st: "state_of w (vs_id s r) = Some st" "flight_state s ?n r st" using W(6)[OF r(1)] by blast
    have one: "length (reply_of out (vs_id s r)) = 1" if n: "0 < ?n"
    proof -
      have "vs_id s r \<in> set (dict_keys ?d)" using n unscheduled_zero[of "vs_id s r" ?d] by fastforce
      then show ?thesis using rep(2) unfolding one_reply_def by blast
    qed
    note A = answered_knows[OF bspec[OF t(7) r(1)] st(2) F(2) one F(4)]
    have lv: "r \<in> set (live_reqs s)" using r(1) by simp
    have b: "vs_blocks s' r = vs_blocks s r" using kept out(1)[OF lv r(2)] t(5) by (simp add: blocks_kept_def)
    have sp': "rq_sampling_params (vs_obj s' r) = rq_sampling_params (vs_obj s r)" using kept by (simp add: blocks_kept_def)
    have "knows s' w r" using A(1) st sp' t(5) by (auto simp: knows_def Let_def flight_state_def)
    moreover have "cs_block_ids st = vs_blocks s' r" using st(2) b by (simp add: flight_state_def Let_def)
    moreover have "rq_num_computed_tokens (vs_obj s' r) \<le> br_num_tokens row" if "batch_of (gr_batch w) (vs_id s r) = Some row" for row
      using W(7)[OF r(1) that] A(2) by (simp add: flight_row_def)
    ultimately show ?thesis using st(1) out(2)[OF lv r(2)] t(5) by (simp add: mirror_run_def)
  qed
  have wait: "mirror_wait s' w r" if r: "r \<in> set (vs_waiting s')" for r
  proof -
    have rw: "r \<in> set (vs_waiting s)" using r by (simp add: t(2))
    then have nr: "r \<notin> set (vs_running s)" using queues_okD(1)[OF sched_okD(2)[OF ok]] by auto
    have "vs_id s r \<notin> vs_finished_req_ids s'" by (rule out(2)) (use rw nr in simp_all)
    then show ?thesis using mirror_wait_same[OF W(8)[OF rw], of s'] t(4) nr by simp
  qed
  have "same_sizes s' w" using W(4) t(8,9) same_configD[OF t(10)] by (simp add: same_sizes_def)
  moreover have "finite (vs_finished_req_ids s')" by (simp add: t(6) fin)
  ultimately show ?thesis unfolding mirror_def using W(1-3) run wait by blast
qed

section \<open>Changes of the scheduler between two steps\<close>

definition same_limits :: "V1Scheduler \<Rightarrow> V1Scheduler \<Rightarrow> bool" where
  "same_limits s s' \<longleftrightarrow> vs_max_model_len s' = vs_max_model_len s \<and> vs_max_num_running_reqs s' = vs_max_num_running_reqs s \<and>
     vs_max_num_scheduled_tokens s' = vs_max_num_scheduled_tokens s \<and> same_config (vs_km s) (vs_km s')"

lemma same_limits_refl [simp]: "same_limits s s"
  by (simp add: same_limits_def)

lemma same_limits_trans: "same_limits s t \<Longrightarrow> same_limits t u \<Longrightarrow> same_limits s u"
  by (auto simp: same_limits_def intro: same_config_trans)

lemma same_limitsD:
  assumes "same_limits s s'"
  shows "same_sizes s' w = same_sizes s w" "enough_blocks s' = enough_blocks s" "vs_max_num_scheduled_tokens s' = vs_max_num_scheduled_tokens s"
    "vs_max_model_len s' = vs_max_model_len s" "vs_max_num_running_reqs s' = vs_max_num_running_reqs s"
  using assms same_configD[of "vs_km s" "vs_km s'"] by (auto simp: same_limits_def same_sizes_def enough_blocks_def)

lemma mirror_same:
  assumes m: "mirror s w" and q: "set (vs_running s') \<subseteq> set (vs_running s)" "set (vs_waiting s') \<subseteq> set (vs_waiting s)"
    and o: "\<forall>r \<in> set (live_reqs s'). same_request (vs_obj s r) (vs_obj s' r) \<and> (vs_id s r \<in> vs_finished_req_ids s' \<longrightarrow> vs_id s r \<in> vs_finished_req_ids s)"
    and b: "\<forall>r \<in> set (vs_running s'). vs_blocks s' r = vs_blocks s r" and f: "finite (vs_finished_req_ids s')" and l: "same_limits s s'"
  shows "mirror s' w"
proof -
  have M: "runner_inv w" "compact (gr_batch w)" "metadata_ok (gr_batch w)" "same_sizes s w"
    "\<And>r. r \<in> set (vs_running s) \<Longrightarrow> mirror_run s w r" "\<And>r. r \<in> set (vs_waiting s) \<Longrightarrow> mirror_wait s w r"
    using m by (simp_all add: mirror_def)
  have "mirror_run s' w r" if r: "r \<in> set (vs_running s')" for r
    by (rule mirror_run_same[OF M(5)]) (use r q o b in auto)
  moreover have "mirror_wait s' w r" if r: "r \<in> set (vs_waiting s')" for r
    by (rule mirror_wait_same[OF M(6)]) (use r q o in auto)
  ultimately show ?thesis unfolding mirror_def same_limitsD(1)[OF l] using M(1-4) f by blast
qed

lemma mirror_make_stats:
  assumes "in_flight H d s" "mirror s w"
  shows "\<exists>m s'. Scheduler_make_stats s = Inr (m, s') \<and> in_flight H d s' \<and> mirror s' w \<and> same_limits s s'"
proof -
  obtain m s' where m: "Scheduler_make_stats s = Inr (m, s')" "in_flight H d s'" "upd_same s s'" "vs_objects s' = vs_objects s"
    "vs_finished_req_ids s' = vs_finished_req_ids s" using make_stats_ok[OF assms(1)] by blast
  note U = upd_sameD[OF m(3)]
  have l: "same_limits s s'" using U(5-7,9) by (simp add: same_limits_def)
  have "mirror s' w"
    by (rule mirror_same[OF assms(2) _ _ _ _ _ l])
      (use U(3,4) m(4,5) make_stats_blocks[OF m(1)] assms(2) in \<open>simp_all add: blocks_kept_def mirror_def\<close>)
  then show ?thesis using m(1,2) l by blast
qed

lemma status_running:
  assumes "at_rest H s" "r \<in> set (live_reqs s)"
  shows "r \<in> set (vs_running s) \<longleftrightarrow> vs_status s r = RUNNING"
  using assms sched_okD(5,6)[OF in_flightD(1)[OF assms(1)], of r] by (auto simp: waiting_ok_def running_ok_def)

lemma live_request_iff: "at_rest H s \<Longrightarrow> dict_get (vs_requests s) i = Some r \<longleftrightarrow> r \<in> set (live_reqs s) \<and> vs_id s r = i"
  using sched_okD(2)[OF in_flightD(1)] unfolding queues_ok_def by blast

lemma mirror_finish_request:
  assumes rest: "at_rest H s" and m: "mirror s w" and st: "RequestStatus_is_finished st" and f: "finish_request order st i s = Inr s'"
  shows "at_rest H s' \<and> mirror s' w \<and> same_limits s s'"
proof -
  obtain a: "at_rest H s'" "\<forall>k. dict_get (vs_requests s') k = (if k = i then None else dict_get (vs_requests s) k)"
     "vs_finished_req_ids s' = (if dict_has (vs_requests s) i then insert i (vs_finished_req_ids s) else vs_finished_req_ids s)"
     "\<forall>k. vs_id s k \<noteq> i \<longrightarrow> vs_obj s' k = vs_obj s k" "same_limits s s'"
    using finish_request_ok[OF rest st, of order i] f unfolding same_limits_def by fastforce
  have "\<And>r. dict_get (vs_requests s) i = Some r \<Longrightarrow> vs_id s r = i" using live_request_iff[OF rest] by blast
  then have kept: "blocks_kept {i} s s'" by (rule finish_request_blocks[OF f])
  have live: "r \<in> set (live_reqs s) \<and> vs_id s r \<noteq> i \<and> vs_obj s' r = vs_obj s r" if r: "r \<in> set (live_reqs s')" for r
  proof -
    have "dict_get (vs_requests s') (vs_id s' r) = Some r" using live_request_iff[OF a(1)] r by blast
    then have "vs_id s' r \<noteq> i" "dict_get (vs_requests s) (vs_id s' r) = Some r" using a(2) by (auto split: if_splits)
    moreover have "vs_id s' r = vs_id s r" using kept by (simp add: blocks_kept_def)
    ultimately show ?thesis using live_request_iff[OF rest] a(4) by auto
  qed
  have q: "set (vs_running s') \<subseteq> set (vs_running s)" "set (vs_waiting s') \<subseteq> set (vs_waiting s)"
  proof -
    have same: "r \<in> set (vs_running s') \<longleftrightarrow> r \<in> set (vs_running s)" if "r \<in> set (live_reqs s')" for r
      using live[OF that] status_running[OF rest, of r] status_running[OF a(1) that] by simp
    have disj: "set (vs_waiting s') \<inter> set (vs_running s') = {}" using queues_okD(1)[OF sched_okD(2)[OF in_flightD(1)[OF a(1)]]] by auto
    show "set (vs_running s') \<subseteq> set (vs_running s)" using same by auto
    show "set (vs_waiting s') \<subseteq> set (vs_waiting s)" using same live disj by fastforce
  qed
  have "vs_blocks s' r = vs_blocks s r" if "r \<in> set (vs_running s')" for r using live[of r] kept that by (simp add: blocks_kept_def)
  moreover have "finite (vs_finished_req_ids s')" using m by (simp add: a(3) mirror_def)
  ultimately have "mirror s' w" by (intro mirror_same[OF m q _ _ _ a(5)]) (use live a(3) in auto)
  then show ?thesis using a(1,5) by blast
qed

lemma mirror_finish_requests:
  assumes "at_rest H s" "mirror s w" "RequestStatus_is_finished st" "Scheduler_finish_requests id_order order ids st s = Inr s'"
  shows "at_rest H s' \<and> mirror s' w \<and> same_limits s s'"
proof -
  have "res_fold (finish_request order st) (id_order (set ids)) s = Inr s'" using assms(3,4) by (simp add: Scheduler_finish_requests_def)
  then show ?thesis
  proof (rule res_fold_inv[where P = "\<lambda>t. at_rest H t \<and> mirror t w \<and> same_limits s t"])
    show "at_rest H s \<and> mirror s w \<and> same_limits s s" using assms(1,2) by simp
  next
    fix x t t' assume t: "at_rest H t \<and> mirror t w \<and> same_limits s t" "finish_request order st x t = Inr t'"
    then show "at_rest H t' \<and> mirror t' w \<and> same_limits s t'"
      using mirror_finish_request[OF _ _ assms(3) t(2), of H w] same_limits_trans by blast
  qed
qed

lemma mirror_reset:
  assumes "at_rest H s" "mirror s w" "Scheduler_reset_prefix_cache s = (ok, s')"
  shows "at_rest H s' \<and> mirror s' w \<and> same_limits s s'"
proof -
  have r: "at_rest H s'" "s' = s\<lparr>vs_kv_cache_manager := vs_km s'\<rparr>" using reset_prefix_cache_rest[OF assms(1)] assms(3) by auto
  have km: "km_req_to_blocks (vs_km s') = km_req_to_blocks (vs_km s)" "same_config (vs_km s) (vs_km s')"
  proof -
    obtain m where m: "KVCacheManager_reset_prefix_cache (vs_km s) = (ok, m)" "vs_km s' = m"
      using assms(3) by (auto simp: Scheduler_reset_prefix_cache_def split: prod.splits)
    have "km_req_to_blocks m = km_req_to_blocks (vs_km s) \<and> same_config (vs_km s) m"
      using m(1) by (auto simp: KVCacheManager_reset_prefix_cache_def BlockPool_v1_reset_prefix_cache_def same_config_def Let_def
        split: prod.splits if_splits)
    then show "km_req_to_blocks (vs_km s') = km_req_to_blocks (vs_km s)" "same_config (vs_km s) (vs_km s')" by (simp_all add: m(2))
  qed
  have e: "vs_objects s' = vs_objects s" "vs_running s' = vs_running s" "vs_waiting s' = vs_waiting s"
    "vs_finished_req_ids s' = vs_finished_req_ids s" by (subst r(2), simp)+
  have l: "same_limits s s'" unfolding same_limits_def using km(2) by (intro conjI) (subst r(2), simp)+
  have "mirror s' w" by (rule mirror_same[OF assms(2) _ _ _ _ _ l]) (use e km assms(2) in \<open>simp_all add: mirror_def\<close>)
  then show ?thesis using r(1) l by blast
qed

end
