(* ===== verification/Engine_Runs.thy ===== *)
theory Engine_Runs
  imports Engine_Loop
begin

text \<open>
  The engine core whose executor is the model runner, as one system: the scheduler and the runner
  change together in a step, and only the scheduler in between. In every reachable state the
  runner mirrors the scheduler, so that no step of the two fails.
\<close>

section \<open>A step of both\<close>

definition EngineCore_runner_step :: "kv_hasher \<Rightarrow> (nat set \<Rightarrow> nat list) \<Rightarrow> (string set \<Rightarrow> string list) \<Rightarrow> sampler \<Rightarrow> rat \<Rightarrow>
    V1Scheduler \<times> GPUModelRunner \<Rightarrow> (update_result \<times> V1Scheduler \<times> GPUModelRunner) result" where
  "EngineCore_runner_step H order id_order S now sw =
     (let (s, w) = sw in
      if \<not> Scheduler_has_requests s
      then res_bind (Scheduler_make_stats s) (\<lambda>(stats, s1). Inr (\<lparr>os_outputs = [], os_scheduler_stats = stats, os_accepted = []\<rparr>, s1, w))
      else res_bind (Scheduler_schedule H now s) (\<lambda>(sched, s1).
        if so_total_num_scheduled_tokens sched = 0
        then res_bind (Scheduler_make_stats s1) (\<lambda>(stats, s2). Inr (\<lparr>os_outputs = [], os_scheduler_stats = stats, os_accepted = []\<rparr>, s2, w))
        else res_bind (GPUModelRunner_execute_model id_order S sched w) (\<lambda>(out, w1).
          res_bind (Scheduler_update_from_output order sched out s1) (\<lambda>(res, s2). Inr (res, s2, w1)))))"

definition executor :: "(string set \<Rightarrow> string list) \<Rightarrow> sampler \<Rightarrow> GPUModelRunner \<Rightarrow> SchedulerOutput \<Rightarrow> ModelRunnerOutput" where
  "executor id_order S w sched = (case GPUModelRunner_execute_model id_order S sched w of Inl _ \<Rightarrow> EMPTY_MODEL_RUNNER_OUTPUT | Inr (out, _) \<Rightarrow> out)"

text \<open>For the scheduler it is a step with that executor.\<close>

lemma runner_step_scheduler:
  assumes "EngineCore_runner_step H order id_order S now (s, w) = Inr (res, s', w')"
  shows "EngineCore_step H order (executor id_order S w) now s = Inr (res, s')"
  using assms by (auto simp: EngineCore_runner_step_def EngineCore_step_def executor_def split: if_splits elim!: res_bind_InrE)

text \<open>A step without scheduled tokens, when no request runs.\<close>

lemma mirror_idle:
  assumes p: "planned H s out s' runs adm" and m: "mirror s w" and rest: "at_rest H s" and st: "status_step (set (vs_running s)) s s'"
    and z: "so_total_num_scheduled_tokens out = 0" and no: "vs_running s = []"
  shows "mirror s' w"
proof -
  note P = plannedD[OF p] and T = planned_text[OF p]
  have e: "runs @ adm = []" using P(19) z by auto
  then have nr: "vs_running s' = []" using P(6) no by auto
  have "mirror_wait s' w r" if r: "r \<in> set (vs_waiting s')" for r
  proof -
    have rw: "r \<in> set (vs_waiting s)" using r mset_eq_setD[OF P(3)] no nr by auto
    then have mw: "mirror_wait s w r" using m by (simp add: mirror_def)
    have waits: "vs_status s' r \<in> {WAITING, WAITING_FOR_FSM, PREEMPTED}" using sched_okD(5)[OF in_flightD(1)[OF P(1)] r] by (simp add: waiting_ok_def)
    have "vs_status s' r = PREEMPTED \<longleftrightarrow> vs_status s r = PREEMPTED"
      using st waits no unfolding status_step_def started_def by auto
    then show ?thesis using mw by (simp add: mirror_wait_def knows_def plain_request_def Let_def T P(16) split: if_splits)
  qed
  then show ?thesis using m same_sizes_planned[OF p, of w] by (simp add: mirror_def nr P(16))
qed

lemma planned_limits: "planned H s out s' runs adm \<Longrightarrow> same_limits s s'"
  using plan_sameD(3-6)[OF plannedD(2)] by (simp add: same_limits_def)

text \<open>What a step with work does: the runner executes what was planned, and the scheduler takes its answer.\<close>

lemma runner_step_ok:
  assumes rest: "at_rest H s" and m: "mirror s w" and ids: "lists_sets id_order"
    and room: "enough_blocks s" "0 < vs_max_num_scheduled_tokens s"
  shows "\<exists>res s' w'. EngineCore_runner_step H order id_order S now (s, w) = Inr (res, s', w') \<and> at_rest H s' \<and> mirror s' w' \<and> same_limits s s'"
    "Scheduler_schedule H now s = Inr (sched, s1) \<Longrightarrow> so_total_num_scheduled_tokens sched \<noteq> 0 \<Longrightarrow>
      \<exists>out w' inputs. GPUModelRunner_execute_model id_order S sched w = Inr (out, w') \<and> in_flight H (so_num_scheduled_tokens sched) s1 \<and>
        in_flight_runner s1 sched w' \<and> inputs_planned s1 (so_num_scheduled_tokens sched) (batch_reqs s1 (gr_batch w')) inputs \<and>
        mo_sampled_token_ids out =
          map (\<lambda>k. [model_token S inputs (ib_sampling_metadata (gr_batch w')) k]) [0..<length (batch_reqs s1 (gr_batch w'))] \<and>
        mo_req_id_to_index out = ib_req_id_to_index (gr_batch w')"
proof -
  obtain sched0 t runs adm where a: "Scheduler_schedule H now s = Inr (sched0, t)" "planned H s sched0 t runs adm"
    using schedule_planned[OF rest, of now] by blast
  note P = plannedD[OF a(2)] and st = schedule_status[OF a(1)] and L = planned_limits[OF a(2)]
  have exec: "\<exists>out w2. GPUModelRunner_execute_model id_order S sched0 w = Inr (out, w2) \<and> in_flight_runner t sched0 w2 \<and>
     replies_ok (so_num_scheduled_tokens sched0) out t \<and> one_reply sched0 out \<and>
     (\<exists>inputs. inputs_planned t (so_num_scheduled_tokens sched0) (batch_reqs t (gr_batch w2)) inputs \<and>
        mo_sampled_token_ids out = map (\<lambda>k. [model_token S inputs (ib_sampling_metadata (gr_batch w2)) k]) [0..<length (batch_reqs t (gr_batch w2))] \<and>
        mo_req_id_to_index out = ib_req_id_to_index (gr_batch w2))" if nz: "so_total_num_scheduled_tokens sched0 \<noteq> 0"
  proof -
    obtain w1 where w1: "GPUModelRunner_update_states id_order sched0 w = Inr w1" "in_flight_runner t sched0 w1"
      using runner_in_flight[OF a(2) m rest st ids] by blast
    have "0 \<le> sum_list (dict_values (so_num_scheduled_tokens sched0))" by (rule sum_list_nonneg) (use in_flightD(5)[OF P(1)] in force)
    then have pos: "0 < so_total_num_scheduled_tokens sched0" using nz P(13) by simp
    show ?thesis by (rule runner_executes[OF P(1) w1(2,1) P(13) pos])
  qed
  show "\<exists>res s' w'. EngineCore_runner_step H order id_order S now (s, w) = Inr (res, s', w') \<and> at_rest H s' \<and> mirror s' w' \<and> same_limits s s'"
  proof (cases "Scheduler_has_requests s")
    case False
    then show ?thesis using mirror_make_stats[OF rest m] by (auto simp: EngineCore_runner_step_def)
  next
    case True
    show ?thesis
    proof (cases "so_total_num_scheduled_tokens sched0 = 0")
      case z: True
      have e: "runs @ adm = []" using P(19) z by auto
      then have no: "vs_running s = []" using P(20)[OF room] by auto
      have i: "at_rest H t"
      proof -
        have "fst ` set (so_num_scheduled_tokens sched0) = {}" using in_flightD(3)[OF P(1)] P(10) e by simp
        then show ?thesis using P(1) by simp
      qed
      obtain x u where u: "Scheduler_make_stats t = Inr (x, u)" "at_rest H u" "mirror u w" "same_limits t u"
        using mirror_make_stats[OF i mirror_idle[OF a(2) m rest st z no]] by blast
      then show ?thesis using True z a(1) same_limits_trans[OF L u(4)] by (simp add: EngineCore_runner_step_def)
    next
      case nz: False
      obtain out w2 where w2: "GPUModelRunner_execute_model id_order S sched0 w = Inr (out, w2)" "in_flight_runner t sched0 w2"
        "replies_ok (so_num_scheduled_tokens sched0) out t" "one_reply sched0 out" using exec[OF nz] by blast
      obtain res u where u: "Scheduler_update_from_output order sched0 out t = Inr (res, u)" "at_rest H u"
        "vs_max_model_len u = vs_max_model_len t" "vs_max_num_scheduled_tokens u = vs_max_num_scheduled_tokens t"
        "vs_max_num_running_reqs u = vs_max_num_running_reqs t" "same_config (vs_km t) (vs_km u)"
        using update_from_output_ok[OF P(1,14) w2(3), of order] by blast
      have "mirror u w2" by (rule mirror_after_update[OF P(1,14) w2(2) P(16) w2(3,4) u(1)])
      moreover have "same_limits s u" using same_limits_trans[OF L] u(3-6) by (simp add: same_limits_def)
      ultimately show ?thesis using True nz a(1) w2(1) u(1,2) by (simp add: EngineCore_runner_step_def)
    qed
  qed
  show "\<exists>out w' inputs. GPUModelRunner_execute_model id_order S sched w = Inr (out, w') \<and> in_flight H (so_num_scheduled_tokens sched) s1 \<and>
        in_flight_runner s1 sched w' \<and> inputs_planned s1 (so_num_scheduled_tokens sched) (batch_reqs s1 (gr_batch w')) inputs \<and>
        mo_sampled_token_ids out =
          map (\<lambda>k. [model_token S inputs (ib_sampling_metadata (gr_batch w')) k]) [0..<length (batch_reqs s1 (gr_batch w'))] \<and>
        mo_req_id_to_index out = ib_req_id_to_index (gr_batch w')"
    if "Scheduler_schedule H now s = Inr (sched, s1)" "so_total_num_scheduled_tokens sched \<noteq> 0"
    using exec P(1) that a(1) by auto
qed

section \<open>Reachable states\<close>

text \<open>A request of a client without LoRA, logit bias and list of allowed tokens, under an id the runner does not know.\<close>

definition plain_client_request :: "nat \<Rightarrow> Request \<Rightarrow> bool" where
  "plain_client_request max_model_len q \<longleftrightarrow> client_request max_model_len q \<and> plain_params (rq_sampling_params q) \<and> rq_lora_request q = None"

inductive engine_runs :: "kv_hasher \<Rightarrow> (string set \<Rightarrow> string list) \<Rightarrow> SchedulerConfig \<Rightarrow> V1Scheduler \<times> GPUModelRunner \<Rightarrow> bool"
  for H id_order c where
  init: "Scheduler_init c = Inr s \<Longrightarrow>
    InputBatch_init raw raw_int (cf_max_num_seqs c) (cf_max_model_len c) max_num_blocks vocab_size = Inr b \<Longrightarrow>
    int max_num_blocks = cdiv (int (cf_max_model_len c)) (int (cf_block_size c)) \<Longrightarrow>
    engine_runs H id_order c (s, GPUModelRunner_init (cf_block_size c) b)"
| add: "engine_runs H id_order c (s, w) \<Longrightarrow> plain_client_request (cf_max_model_len c) q \<Longrightarrow>
    \<not> dict_has (vs_requests s) (rq_request_id q) \<Longrightarrow> \<not> dict_has (gr_requests w) (rq_request_id q) \<Longrightarrow>
    engine_runs H id_order c (Scheduler_add_request now q s, w)"
| compiled: "engine_runs H id_order c (s, w) \<Longrightarrow> engine_runs H id_order c (compile_grammar r s, w)"
| abort: "engine_runs H id_order c (s, w) \<Longrightarrow> Scheduler_finish_requests abort_order order ids FINISHED_ABORTED s = Inr s' \<Longrightarrow>
    engine_runs H id_order c (s', w)"
| reset: "engine_runs H id_order c (s, w) \<Longrightarrow> Scheduler_reset_prefix_cache s = (ok, s') \<Longrightarrow> engine_runs H id_order c (s', w)"
| step: "engine_runs H id_order c sw \<Longrightarrow> EngineCore_runner_step H order id_order S now sw = Inr (res, sw') \<Longrightarrow> engine_runs H id_order c sw'"

text \<open>The engine checks at the start that the cache holds a request of the maximal length.\<close>

definition fitting_config :: "SchedulerConfig \<Rightarrow> bool" where
  "fitting_config c \<longleftrightarrow> text_config c \<and> 0 < cf_max_num_batched_tokens c \<and>
     cdiv (int (cf_max_model_len c)) (int (cf_block_size c)) \<le> int (cf_num_gpu_blocks c)"

lemma batch_init_ok:
  assumes "InputBatch_init raw raw_int n L B V = Inr b"
  shows "batch_inv b" "compact b" "metadata_ok b" "batch_of b = (\<lambda>_. None)" "ib_max_num_reqs b = n" "ib_max_model_len b = L"
    "bt_max_num_blocks_per_req (ib_block_table b) = B"
proof -
  define b0 where "b0 = \<lparr>ib_max_num_reqs = n, ib_max_model_len = L, ib_vocab_size = V, ib_req_ids = [],
        ib_req_id_to_index = [], ib_token_ids = replicate n (replicate L 0),
        ib_num_tokens = replicate n 0, ib_num_tokens_no_spec = replicate n 0,
        ib_num_prompt_tokens = replicate n 0, ib_num_computed_tokens = replicate n 0,
        ib_block_table = BlockTable_init n B,
        ib_cpu = raw_tensors raw raw_int n, ib_device = raw_tensors raw raw_int n,
        ib_greedy_reqs = {}, ib_random_reqs = {}, ib_top_p_reqs = {}, ib_top_k_reqs = {}, ib_min_p_reqs = {},
        ib_frequency_penalties_reqs = {}, ib_presence_penalties_reqs = {}, ib_repetition_penalties_reqs = {},
        ib_min_tokens = [], ib_request_lora_mapping = replicate n 0, ib_lora_id_to_request_ids = [],
        ib_lora_id_to_lora_request = [], ib_generators = [], ib_num_logprobs = [], ib_num_prompt_logprobs = [],
        ib_logit_bias = replicate n None, ib_has_allowed_token_ids = {}, ib_allowed_mask_device = None,
        ib_allowed_mask = None, ib_bad_words_token_ids = [], ib_req_output_token_ids = [], ib_sampling_metadata = no_metadata\<rparr>"
  have r: "InputBatch_refresh_sampling_metadata b0 = Inr b" using assms by (simp only: InputBatch_init_def b0_def)
  have "arrays_ok b0" by (simp add: arrays_ok_def b0_def tensors_ok_def raw_tensors_def table_ok_def BlockTable_init_def Let_def)
  moreover have "index_ok b0" by (simp add: index_ok_def b0_def slot_id_def)
  moreover have "rest_ok b0" by (simp add: rest_ok_def b0_def classes_of_def)
  moreover have "plain_ok b0" by (simp add: plain_ok_def b0_def)
  ultimately have i0: "batch_inv b0" by (simp add: batch_inv_def)
  have c0: "compact b0" by (simp add: compact_def b0_def InputBatch_num_reqs_def)
  obtain sm where sm: "b = b0\<lparr>ib_device := copy_sampling_tensors b0, ib_sampling_metadata := sm\<rparr>" "batch_inv b" "batch_of b = batch_of b0"
    using refresh_ok[OF i0] r by (auto simp: Let_def)
  show "batch_inv b" by (rule sm(2))
  show "compact b" using c0 by (simp add: sm(1) compact_def InputBatch_num_reqs_def)
  show "metadata_ok b" by (rule refresh_describes[OF i0 c0 r])
  show "batch_of b = (\<lambda>_. None)" unfolding sm(3) by (simp add: batch_of_def b0_def fun_eq_iff)
  show "ib_max_num_reqs b = n" "ib_max_model_len b = L" "bt_max_num_blocks_per_req (ib_block_table b) = B"
    by (simp_all add: sm(1) b0_def BlockTable_init_def)
qed

lemma mirror_init:
  assumes c: "text_config c" and s: "Scheduler_init c = Inr s" and b: "InputBatch_init raw raw_int (cf_max_num_seqs c) (cf_max_model_len c) B V = Inr b"
    and B: "int B = cdiv (int (cf_max_model_len c)) (int (cf_block_size c))"
  shows "mirror s (GPUModelRunner_init (cf_block_size c) b)"
proof -
  let ?w = "GPUModelRunner_init (cf_block_size c) b"
  note I = batch_init_ok[OF b]
  obtain t: "at_rest undefined s" "vs_waiting s = []" "vs_running s = []" "vs_max_model_len s = cf_max_model_len c"
    "vs_max_num_running_reqs s = cf_max_num_seqs c" "vs_finished_req_ids s = {}"
    using scheduler_init_ok[OF c, of undefined] s by auto
  have km: "km_block_size (vs_km s) = vs_block_size s" "km_max_num_blocks_per_req (vs_km s) = cdiv (int (vs_max_model_len s)) (int (vs_block_size s))"
    using sched_okD(1)[OF in_flightD(1)[OF t(1)]] by (simp_all add: static_ok_def)
  have bs: "vs_block_size s = cf_block_size c" using s by (auto simp: Scheduler_init_def elim!: res_bind_InrE)
  have g: "gr_batch ?w = b" "gr_block_size ?w = cf_block_size c" "gr_requests ?w = []" by (simp_all add: GPUModelRunner_init_def)
  have "runner_inv ?w" using I(1,4) by (simp add: runner_inv_def g states_ok_def rows_ok_def states_fit_def state_of_def)
  then show ?thesis using I t km bs B unfolding mirror_def same_sizes_def g by simp
qed

lemma mirror_add:
  assumes rest: "at_rest H s" and m: "mirror s w" and q: "plain_client_request (vs_max_model_len s) q"
    "\<not> dict_has (vs_requests s) (rq_request_id q)" "\<not> dict_has (gr_requests w) (rq_request_id q)"
  shows "at_rest H (Scheduler_add_request now q s) \<and> mirror (Scheduler_add_request now q s) w \<and> same_limits s (Scheduler_add_request now q s)"
proof -
  let ?s = "Scheduler_add_request now q s" and ?r = "length (vs_objects s)"
  have cr: "client_request (vs_max_model_len s) q" using q(1) by (simp add: plain_client_request_def)
  note A = add_request_ok[where now = now, OF rest client_new_request[OF cr q(2)]]
  have km: "vs_km ?s = vs_km s" "vs_max_model_len ?s = vs_max_model_len s" "vs_max_num_running_reqs ?s = vs_max_num_running_reqs s"
    "vs_max_num_scheduled_tokens ?s = vs_max_num_scheduled_tokens s" "vs_finished_req_ids ?s = vs_finished_req_ids s"
    by (simp_all add: Scheduler_add_request_def Scheduler_request_queued_def record_event_def Let_def)
  have l: "same_limits s ?s" using km by (simp add: same_limits_def)
  have M: "runner_inv w" "compact (gr_batch w)" "metadata_ok (gr_batch w)" "same_sizes s w" "finite (vs_finished_req_ids s)"
    "\<And>r. r \<in> set (vs_running s) \<Longrightarrow> mirror_run s w r" "\<And>r. r \<in> set (vs_waiting s) \<Longrightarrow> mirror_wait s w r"
    using m by (simp_all add: mirror_def)
  have len: "k < ?r" if "k \<in> set (live_reqs s)" for k using queues_okD(3)[OF sched_okD(2)[OF in_flightD(1)[OF rest]] that] .
  have run: "mirror_run ?s w k" if k: "k \<in> set (vs_running s)" for k
    by (rule mirror_run_same[OF M(6)[OF k]]) (use A(4)[of k] len[of k] k km in simp_all)
  have wait: "mirror_wait ?s w k" if k: "k \<in> set (vs_waiting s)" for k
    by (rule mirror_wait_same[OF M(7)[OF k]]) (use A(4)[of k] len[of k] k km in simp_all)
  have new: "rq_request_id (vs_obj ?s ?r) = rq_request_id q" "rq_status (vs_obj ?s ?r) = rq_status q"
    "rq_sampling_params (vs_obj ?s ?r) = rq_sampling_params q" "rq_lora_request (vs_obj ?s ?r) = rq_lora_request q"
    "rq_num_prompt_tokens (vs_obj ?s ?r) = rq_num_prompt_tokens q" "rq_all_token_ids (vs_obj ?s ?r) = rq_all_token_ids q"
    by (simp_all add: Scheduler_add_request_def Scheduler_request_queued_def record_event_def Let_def)
  have q0: "rq_num_prompt_tokens q = length (rq_all_token_ids q)" "rq_status q \<noteq> PREEMPTED"
    using cr by (auto simp: client_request_def Request_init_def split: option.splits if_splits elim!: res_bind_InrE)
  have "mirror_wait ?s w ?r"
    using q(1,3) q0 unfolding mirror_wait_def new by (simp add: plain_request_def new plain_client_request_def state_of_def)
  then have "mirror ?s w" unfolding mirror_def same_limitsD(1)[OF l] A(2,3) using M run wait by (simp add: km)
  then show ?thesis using A(1) l by blast
qed

lemma mirror_compile:
  assumes rest: "at_rest H s" and m: "mirror s w"
  shows "at_rest H (compile_grammar r s) \<and> mirror (compile_grammar r s) w \<and> same_limits s (compile_grammar r s)"
proof -
  let ?s = "compile_grammar r s"
  have l: "same_limits s ?s" by (simp add: same_limits_def compile_grammar_def)
  have o: "same_request (vs_obj s k) (vs_obj ?s k)" for k
    by (cases "r < length (vs_objects s)"; cases "k = r") (simp_all add: compile_grammar_def same_request_def list_update_beyond)
  have "mirror ?s w"
    by (rule mirror_same[OF m _ _ _ _ _ l]) (use o same_requestD(1)[OF o] m in \<open>auto simp: compile_grammar_def mirror_def simp del: vs_put_simps(1)\<close>)
  then show ?thesis using compile_grammar_ok[OF rest] l by blast
qed

lemma engine_runs_mirror:
  assumes c: "fitting_config c" and ids: "lists_sets id_order" and run: "engine_runs H id_order c sw"
  shows "at_rest H (fst sw) \<and> mirror (fst sw) (snd sw) \<and> enough_blocks (fst sw) \<and> 0 < vs_max_num_scheduled_tokens (fst sw) \<and>
    vs_max_model_len (fst sw) = cf_max_model_len c \<and> vs_max_num_running_reqs (fst sw) = cf_max_num_seqs c"
  using run
proof (induction rule: engine_runs.induct)
  case (init s raw raw_int B V b)
  have t: "text_config c" using c by (simp add: fitting_config_def)
  show ?case using mirror_init[OF t init] scheduler_init_ok[OF t, of H] init(1) c by (auto simp: fitting_config_def)
next
  case (add s w q now)
  then show ?case using mirror_add[of H s w q now] same_limitsD(2-5) by auto
next
  case (compiled s w r)
  then show ?case using mirror_compile[of H s w r] same_limitsD(2-5) by auto
next
  case (abort s w abort_order order reqs s')
  then show ?case using mirror_finish_requests[of H s w FINISHED_ABORTED abort_order order reqs s'] same_limitsD(2-5) by auto
next
  case (reset s w ok s')
  then show ?case using mirror_reset[of H s w ok s'] same_limitsD(2-5) by auto
next
  case (step sw order S now res sw')
  obtain s w where sw: "sw = (s, w)" by fastforce
  then obtain s' w' where "EngineCore_runner_step H order id_order S now (s, w) = Inr (res, s', w')" "at_rest H s'" "mirror s' w'" "same_limits s s'"
    "sw' = (s', w')"
    using runner_step_ok(1)[of H s w id_order order S now] step ids by fastforce
  then show ?case using step(3) sw same_limitsD(2-5)[of s s'] by simp
qed

end
