(* ===== verification/Stale_Rows.thy ===== *)
theory Stale_Rows
  imports Engine_Runs
begin

text \<open>
  What becomes of a row the runner was never told to drop: \<open>EngineCore.step\<close> forgets the ids of
  finished requests when nothing else is left to do, and a new request under such an id is entered
  next to the stale row. The batch then has more ids than requests, and preparing the inputs fails.
\<close>

lemma dict_set_known_length: "dict_has d k \<Longrightarrow> length (dict_set k v d) = length d"
  by (induction d) auto

lemma add_stale_row:
  assumes a: "arrays_ok b" "plain_ok b" "compact b" and q: "fits_row b q" and stale: "dict_get (ib_req_id_to_index b) (cs_req_id q) \<noteq> None"
    and k: "InputBatch_num_reqs b < ib_max_num_reqs b"
  shows "\<exists>b'. InputBatch_add_request q st None b = Inr b' \<and> ib_req_ids b' = ib_req_ids b @ [Some (cs_req_id q)] \<and>
     InputBatch_num_reqs b' = InputBatch_num_reqs b \<and> ib_has_allowed_token_ids b' = {} \<and>
     length (ib_num_prompt_tokens b') = ib_max_num_reqs b"
proof -
  define i where "i = cs_req_id q"
  define p where "p = cs_sampling_params q"
  let ?k = "InputBatch_num_reqs b"
  have len: "length (ib_req_ids b) = ?k" using a(3) by (simp add: compact_def)
  define b1 where "b1 = b\<lparr>ib_req_ids := ib_req_ids b @ [Some i], ib_req_output_token_ids := ib_req_output_token_ids b @ [Some st],
    ib_req_id_to_index := dict_set i ?k (ib_req_id_to_index b)\<rparr>"
  have po: "place_request i st ?k b = Inr b1" by (simp add: place_request_def len b1_def)
  have "arrays_ok b1" using a(1) k len unfolding arrays_ok_def Let_def b1_def by simp
  moreover have "?k < ib_max_num_reqs b1" "fits_row b1 q" using k q by (simp_all add: b1_def fits_row_def)
  ultimately obtain row t where ct: "copy_tokens q ?k b1 = Inr (b1\<lparr>ib_num_prompt_tokens := (ib_num_prompt_tokens b1)[?k := length (cs_prompt_token_ids q)],
         ib_token_ids := (ib_token_ids b1)[?k := row], ib_num_tokens := (ib_num_tokens b1)[?k := int (CachedRequestState_num_tokens q)],
         ib_num_tokens_no_spec := (ib_num_tokens_no_spec b1)[?k := int (CachedRequestState_num_tokens q)],
         ib_num_computed_tokens := (ib_num_computed_tokens b1)[?k := cs_num_computed_tokens q], ib_block_table := t\<rparr>)"
    using copy_tokens_ok[of b1 ?k q] by blast
  define b2 where "b2 = b1\<lparr>ib_num_prompt_tokens := (ib_num_prompt_tokens b1)[?k := length (cs_prompt_token_ids q)],
         ib_token_ids := (ib_token_ids b1)[?k := row], ib_num_tokens := (ib_num_tokens b1)[?k := int (CachedRequestState_num_tokens q)],
         ib_num_tokens_no_spec := (ib_num_tokens_no_spec b1)[?k := int (CachedRequestState_num_tokens q)],
         ib_num_computed_tokens := (ib_num_computed_tokens b1)[?k := cs_num_computed_tokens q], ib_block_table := t\<rparr>"
  define b3 where "b3 = note_sampling i p (b2\<lparr>ib_cpu := set_sampling_row p (ib_vocab_size b2) ?k (ib_cpu b2)\<rparr>)"
  define b4 where "b4 = note_options q ?k b3"
  define b5 where "b5 = set_lora q ?k b4"
  have params: "sp_logit_bias p = None" "sp_allowed_token_ids p = None" "cs_lora_request q = None"
    using q by (simp_all add: fits_row_def plain_params_def p_def)
  have run: "InputBatch_add_request q st None b = Inr b5"
    using params(2) k unfolding InputBatch_add_request_def Let_def
    by (simp add: i_def[symmetric] po ct b2_def[symmetric] p_def[symmetric] b3_def[symmetric] b4_def[symmetric]
      b5_def[symmetric] set_allowed_mask_def del: InputBatch.update_defs)
  note d = b5_def b4_def b3_def b2_def b1_def set_lora_def note_options_def note_sampling_def params params(1)[unfolded p_def] Let_def
  have sel: "ib_req_ids b5 = ib_req_ids b @ [Some i]" "ib_req_id_to_index b5 = dict_set i ?k (ib_req_id_to_index b)"
    "ib_has_allowed_token_ids b5 = ib_has_allowed_token_ids b" "length (ib_num_prompt_tokens b5) = length (ib_num_prompt_tokens b)"
    by (simp_all add: d)
  have has: "dict_has (ib_req_id_to_index b) i" using stale by (simp add: i_def)
  have "length (dict_set i ?k (ib_req_id_to_index b)) = length (ib_req_id_to_index b)"
    by (rule dict_set_known_length[OF has])
  then show ?thesis using run sel a(1,2) by (simp add: i_def InputBatch_num_reqs_def plain_ok_def arrays_ok_def Let_def)
qed

lemma refresh_stale:
  assumes "ib_has_allowed_token_ids b = {}" "0 < InputBatch_num_reqs b" "ib_num_prompt_tokens b \<noteq> []"
  shows "\<exists>b'. InputBatch_refresh_sampling_metadata b = Inr b' \<and> ib_req_ids b' = ib_req_ids b \<and> InputBatch_num_reqs b' = InputBatch_num_reqs b"
proof -
  have none: "InputBatch_no_allowed_token_ids b" using assms(1) by (simp add: InputBatch_no_allowed_token_ids_def)
  have "take (InputBatch_num_reqs b) (ib_num_prompt_tokens b) \<noteq> []" using assms(2,3) by simp
  then obtain m where m: "py_max id (take (InputBatch_num_reqs b) (ib_num_prompt_tokens b)) = Inr m" using py_max_ok by blast
  obtain pt where pt: "(if InputBatch_no_penalties b then Inr None else res_bind (InputBatch_make_prompt_token_ids b) (\<lambda>rows. Inr (Some rows))) = Inr pt"
    using m by (cases "InputBatch_no_penalties b") (simp_all add: InputBatch_make_prompt_token_ids_def Let_def)
  show ?thesis
    unfolding InputBatch_refresh_sampling_metadata_def InputBatch_make_sampling_metadata_def Let_def pt
    by (simp add: none InputBatch_num_reqs_def)
qed

lemma dict_keys_single: "dict_ok d \<Longrightarrow> set (dict_keys d) = {i} \<Longrightarrow> \<exists>n. d = [(i, n)]"
proof (cases d)
  case (Cons x xs)
  assume "dict_ok d" "set (dict_keys d) = {i}"
  then have "fst x = i" "xs = []" using Cons by (auto simp: dict_ok_def) (cases xs; auto)+
  then show ?thesis using Cons by (cases x) simp
qed simp

lemma stale_row_fails:
  assumes inv: "runner_inv w" and full: "compact (gr_batch w)" and ids: "lists_sets id_order" and stale: "dom (batch_of (gr_batch w)) = {i}"
    and two: "1 < ib_max_num_reqs (gr_batch w)"
    and sched: "so_scheduled_new_reqs sched = [d]" "nd_req_id d = i" "so_scheduled_cached_reqs sched = []" "so_num_scheduled_tokens sched = [(i, n)]"
      "0 < so_total_num_scheduled_tokens sched" "so_finished_req_ids sched = {}"
    and fit: "fits_row (gr_batch w) (CachedRequestState_new d)"
  shows "GPUModelRunner_execute_model id_order S sched w = Inl IndexError"
proof -
  let ?b = "gr_batch w" and ?q = "CachedRequestState_new d" and ?r = "length (gr_states w)"
  have x: "arrays_ok ?b" "index_ok ?b" "plain_ok ?b" using inv by (simp_all add: runner_inv_def batch_inv_def)
  have nil: "id_order {} = []" using ids unfolding lists_sets_def by (metis finite.emptyI set_empty)
  have keys: "set (dict_keys (ib_req_id_to_index ?b)) = {i}" using stale by (simp add: dom_batch_of)
  have num: "InputBatch_num_reqs ?b = 1" using compact_index[OF x(2)] stale by simp
  have slots: "ib_req_ids ?b = [Some i]"
  proof -
    have b: "batch_inv ?b" using inv by (simp add: runner_inv_def)
    note I = batch_ids_ok[OF b full]
    have "length (batch_ids ?b) = 1" "set (batch_ids ?b) = {i}" using I(2,3) stale num by simp_all
    then have "batch_ids ?b = [i]" by (cases "batch_ids ?b") auto
    then show ?thesis using I(5) by simp
  qed
  define E where "E = fold free_encoder_output (so_free_encoder_input_ids sched) (gr_encoder_cache w)"
  have drop: "drop_requests id_order sched w = Inr ([], w\<lparr>gr_encoder_cache := E\<rparr>)"
  proof -
    have "fst ` set (ib_req_id_to_index ?b) - {i} = {}" using keys by simp
    then have none: "id_order (fst ` set (ib_req_id_to_index ?b) - {i}) = []" using nil by (simp only:)
    show ?thesis unfolding drop_requests_def Let_def sched(4,6) nil E_def
      by (cases w) (use none nil in simp)
  qed
  define w2 where "w2 = new_request_state d (w\<lparr>gr_encoder_cache := E\<rparr>)"
  have W: "gr_batch w2 = ?b" "gr_state w2 ?r = ?q" "dict_get (gr_requests w2) i = Some ?r"
    by (simp_all add: w2_def new_request_state_def sched(2))
  have qid: "cs_req_id ?q = i" by (simp add: CachedRequestState_new_def sched(2))
  have old: "dict_get (ib_req_id_to_index ?b) (cs_req_id ?q) \<noteq> None" using keys dict_has_keys[of "ib_req_id_to_index ?b" i] by (simp add: qid)
  obtain b4 where b4: "InputBatch_add_request ?q ?r None ?b = Inr b4" "ib_req_ids b4 = [Some i, Some i]" "InputBatch_num_reqs b4 = 1"
    "ib_has_allowed_token_ids b4 = {}" "length (ib_num_prompt_tokens b4) = ib_max_num_reqs ?b"
    using add_stale_row[OF x(1,3) full fit old, of ?r] num two slots qid by auto
  have ne: "ib_num_prompt_tokens b4 \<noteq> []" using b4(5) two by auto
  obtain b5 where b5: "InputBatch_refresh_sampling_metadata b4 = Inr b5" "ib_req_ids b5 = [Some i, Some i]" "InputBatch_num_reqs b5 = 1"
    using refresh_stale[OF b4(4) _ ne] b4(2,3) by auto
  have enter: "enter_batch [i] [] w2 = Inr ([], w2\<lparr>gr_batch := b4\<rparr>)"
    using b4(1) W by (simp add: dict_item_def)
  have up: "GPUModelRunner_update_states id_order sched w = Inr (w2\<lparr>gr_batch := b5\<rparr>)"
    unfolding GPUModelRunner_update_states_def Let_def drop res_bind_simps prod.case sched(1,3) fold_simps w2_def[symmetric]
    using enter b5(1) by (simp add: sched(2))
  have "GPUModelRunner_prepare_inputs sched (w2\<lparr>gr_batch := b5\<rparr>) = Inl IndexError"
    using sched(4,5) b5(2,3) by (cases "ib_req_id_to_index b5") (simp_all add: GPUModelRunner_prepare_inputs_def Let_def py_assert_def InputBatch_num_reqs_def dict_item_def)
  then show ?thesis using sched(5) up by (simp add: GPUModelRunner_execute_model_def)
qed

text \<open>A step when no request is live: nothing is executed, and the finished ids are forgotten.\<close>

lemma idle_step:
  assumes rest: "at_rest H s" and m: "mirror s w" and ids: "lists_sets id_order"
    and room: "enough_blocks s" "0 < vs_max_num_scheduled_tokens s" and no: "vs_waiting s = []" "vs_running s = []"
  shows "\<exists>res s'. EngineCore_runner_step H order id_order S now (s, w) = Inr (res, s', w) \<and> at_rest H s' \<and> same_limits s s' \<and>
    vs_finished_req_ids s' = {} \<and> vs_waiting s' = [] \<and> vs_running s' = [] \<and> mirror s' w"
proof -
  obtain res s' w' where 1: "EngineCore_runner_step H order id_order S now (s, w) = Inr (res, s', w')" "at_rest H s'" "mirror s' w'" "same_limits s s'"
    using runner_step_ok(1)[OF rest m ids room] by blast
  show ?thesis
  proof (cases "vs_finished_req_ids s = {}")
    case True
    obtain st t where t: "Scheduler_make_stats s = Inr (st, t)" "upd_same s t" "vs_finished_req_ids t = vs_finished_req_ids s"
      using make_stats_ok[OF rest] by blast
    have "s' = t" "w' = w" using 1(1) t(1) True no by (simp_all add: EngineCore_runner_step_def has_requests_iff)
    then show ?thesis using 1 t True no upd_sameD(3,4)[OF t(2)] by auto
  next
    case False
    obtain sched u runs adm where a: "Scheduler_schedule H now s = Inr (sched, u)" "planned H s sched u runs adm"
      using schedule_planned[OF rest, of now] by blast
    note P = plannedD[OF a(2)]
    have live: "vs_waiting u = []" "vs_running u = []" using P(3) no by simp_all
    have "set (runs @ adm) = {}" using P(4) live by simp
    then have "set (dict_keys (so_num_scheduled_tokens sched)) = {}" using in_flightD(3)[OF P(1)] P(10) by simp
    then have z: "so_total_num_scheduled_tokens sched = 0" using P(13) by simp
    obtain st t where t: "Scheduler_make_stats u = Inr (st, t)" "upd_same u t" "vs_finished_req_ids t = vs_finished_req_ids u"
      using make_stats_ok[OF P(1)] by blast
    have "s' = t" "w' = w" using 1(1) t(1) a(1) z False by (simp_all add: EngineCore_runner_step_def has_requests_iff)
    then show ?thesis using 1 t P(16) live upd_sameD(3,4)[OF t(2)] by auto
  qed
qed

text \<open>A single request waits: the step schedules it.\<close>

lemma single_scheduled:
  assumes rest: "at_rest H s" and w: "vs_waiting s = [r]" "vs_running s = []" "rq_status (vs_obj s r) = WAITING"
    and room: "enough_blocks s" "0 < vs_max_num_scheduled_tokens s" "0 < vs_max_num_running_reqs s"
  obtains sched s' where "Scheduler_schedule H now s = Inr (sched, s')" "planned H s sched s' [] [r]" "vs_running s' = [r]" "vs_waiting s' = []"
    "dict_keys (so_num_scheduled_tokens sched) = [vs_id s r]" "0 < so_total_num_scheduled_tokens sched"
    "so_scheduled_new_reqs sched = [NewRequestData_from_request (vs_obj s' r) (vs_blocks s' r)]" "so_scheduled_cached_reqs sched = []"
    "so_finished_req_ids sched = vs_finished_req_ids s" "plan_same s s'"
proof -
  obtain sched s' runs adm where a: "Scheduler_schedule H now s = Inr (sched, s')" "planned H s sched s' runs adm" "adm \<noteq> []"
  proof -
    obtain sched s' runs adm where b: "Scheduler_schedule H now s = Inr (sched, s')" "planned H s sched s' runs adm"
      using schedule_planned[OF rest, of now] by blast
    note P = plannedD[OF b(2)]
    obtain R adm' where c: "vs_running s' = R @ adm'" "prefix R (vs_running s)"
        "enough_blocks s \<and> 0 < vs_max_num_scheduled_tokens s \<longrightarrow> (vs_running s = [] \<and> 0 < vs_max_num_running_reqs s \<and>
          not_for_grammar s (vs_waiting s) \<noteq> [] \<longrightarrow> adm' \<noteq> [])"
      using schedule_ok[OF rest, of now] b(1) by auto
    have "not_for_grammar s (vs_waiting s) \<noteq> []" using w by (simp add: for_grammar_def)
    then have "vs_running s' \<noteq> []" using c room w(2) by simp
    then have "adm \<noteq> []" using P(6) w(2) by auto
    then show ?thesis using that b by blast
  qed
  note P = plannedD[OF a(2)] and fl = plannedD(1)[OF a(2)]
  have runs: "runs = []" using P(5) w(2) by auto
  then have adm: "adm = [r]" using P(8,9) a(3) w(1) by (cases adm; cases "tl adm") auto
  have run: "vs_running s' = [r]"
  proof -
    have "vs_running s' = [] @ adm" using a(2) w(2) unfolding planned_def by auto
    then show ?thesis by (simp add: adm)
  qed
  have "vs_waiting s' = []" using P(3) w(1,2) run by simp
  moreover have "vs_id s' r = vs_id s r" by (rule planned_text(2)[OF a(2)])
  moreover have "dict_keys (so_num_scheduled_tokens sched) = [vs_id s r]"
  proof -
    have k: "set (dict_keys (so_num_scheduled_tokens sched)) = {vs_id s r}" using in_flightD(3)[OF fl] P(10) runs adm by simp
    obtain n where "so_num_scheduled_tokens sched = [(vs_id s r, n)]" using dict_keys_single[OF in_flightD(2)[OF fl] k] by blast
    then show ?thesis by simp
  qed
  moreover have "0 < so_total_num_scheduled_tokens sched" using P(19) adm by simp
  ultimately show ?thesis using that a(1,2) P(2,15,17,18) run runs adm w(3) by simp
qed

text \<open>The step after a request under the id of a stale row.\<close>

lemma resubmitted_fails:
  assumes rest: "at_rest H s" and m: "mirror s w" and ids: "lists_sets id_order"
    and room: "enough_blocks s" "0 < vs_max_num_scheduled_tokens s" "2 \<le> vs_max_num_running_reqs s"
    and no: "vs_waiting s = []" "vs_running s = []" "vs_finished_req_ids s = {}" and row: "dom (batch_of (gr_batch w)) = {i}"
    and q: "plain_client_request (vs_max_model_len s) q" "rq_request_id q = i" "rq_status q = WAITING"
  shows "EngineCore_runner_step H order id_order S now (Scheduler_add_request now' q s, w) = Inl IndexError"
proof -
  let ?t = "Scheduler_add_request now' q s" and ?r = "length (vs_objects s)"
  have "dict_get (vs_requests s) j = None" for j
    using sched_okD(2)[OF in_flightD(1)[OF rest]] no(1,2) by (cases "dict_get (vs_requests s) j") (simp_all add: queues_ok_def)
  then have unknown: "\<not> dict_has (vs_requests s) (rq_request_id q)" by simp
  have cr: "client_request (vs_max_model_len s) q" using q(1) by (simp add: plain_client_request_def)
  note A = add_request_ok[where now = now', OF rest client_new_request[OF cr unknown]]
  have new: "rq_request_id (vs_obj ?t ?r) = i" "rq_status (vs_obj ?t ?r) = WAITING"
    "rq_sampling_params (vs_obj ?t ?r) = rq_sampling_params q" "rq_lora_request (vs_obj ?t ?r) = rq_lora_request q"
    "rq_num_prompt_tokens (vs_obj ?t ?r) = rq_num_prompt_tokens q" "rq_all_token_ids (vs_obj ?t ?r) = rq_all_token_ids q"
    and same: "vs_km ?t = vs_km s" "vs_max_model_len ?t = vs_max_model_len s" "vs_max_num_running_reqs ?t = vs_max_num_running_reqs s"
    "vs_max_num_scheduled_tokens ?t = vs_max_num_scheduled_tokens s" "vs_finished_req_ids ?t = {}"
    using q no by (simp_all add: Scheduler_add_request_def Scheduler_request_queued_def record_event_def Let_def)
  have wait: "vs_waiting ?t = [?r]" "vs_running ?t = []" using A(2,3) no by simp_all
  have room': "enough_blocks ?t" "0 < vs_max_num_scheduled_tokens ?t" "0 < vs_max_num_running_reqs ?t"
    using room same by (simp_all add: enough_blocks_def)
  obtain sched u where a: "Scheduler_schedule H now ?t = Inr (sched, u)" "planned H ?t sched u [] [?r]" "vs_running u = [?r]"
    "dict_keys (so_num_scheduled_tokens sched) = [i]" "0 < so_total_num_scheduled_tokens sched"
    "so_scheduled_new_reqs sched = [NewRequestData_from_request (vs_obj u ?r) (vs_blocks u ?r)]" "so_scheduled_cached_reqs sched = []"
    "so_finished_req_ids sched = {}"
    using single_scheduled[OF A(1) wait new(2) room', of now] new(1) same(5) by metis
  note T = planned_text[OF a(2)] and P = plannedD[OF a(2)]
  have q0: "rq_num_prompt_tokens q = length (rq_all_token_ids q)"
    using cr by (auto simp: client_request_def Request_init_def split: option.splits if_splits elim!: res_bind_InrE)
  have w: "runner_inv w" "compact (gr_batch w)" "same_sizes s w" using m by (simp_all add: mirror_def)
  have "same_limits s u" using planned_limits[OF a(2)] same by (simp add: same_limits_def)
  from same_limitsD(1)[OF this] w(3) have sz: "same_sizes u w" by blast
  note F = running_ok_facts[OF in_flightD(1)[OF P(1)], of ?r, simplified a(3), simplified]
  have fit: "fits_row (gr_batch w) (CachedRequestState_new (NewRequestData_from_request (vs_obj u ?r) (vs_blocks u ?r)))"
    using F(6,7) sz q(1) q0 T new
    by (simp add: fits_row_def CachedRequestState_num_tokens_def CachedRequestState_new_def same_sizes_def NewRequestData_from_request_def plain_client_request_def)
  have two: "1 < ib_max_num_reqs (gr_batch w)" using w(3) room(3) by (simp add: same_sizes_def)
  obtain n where n: "so_num_scheduled_tokens sched = [(i, n)]" using a(4) by (cases "so_num_scheduled_tokens sched"; cases "hd (so_num_scheduled_tokens sched)") auto
  have "nd_req_id (NewRequestData_from_request (vs_obj u ?r) (vs_blocks u ?r)) = i" using T(2) new(1) by (simp add: NewRequestData_from_request_def)
  from stale_row_fails[OF w(1,2) ids row two a(6) this a(7) n a(5,8) fit]
  have "GPUModelRunner_execute_model id_order S sched w = Inl IndexError" .
  moreover have "Scheduler_has_requests ?t" using wait by (simp add: has_requests_iff)
  ultimately show ?thesis using a(1,5) by (simp add: EngineCore_runner_step_def)
qed

end
