(* ===== verification/Condense_Faults.thy ===== *)
theory Condense_Faults
  imports Runner_Correct
begin

text \<open>
  What condensing the batch does to the two fields it does not move correctly: the logit bias stays
  behind in the row a request leaves, and of a prompt that is scheduled in chunks only the
  scheduled part moves. Both for any batch in which the last row moves to the one empty row.
\<close>

section \<open>The operations around one empty row\<close>

definition batch_core :: "InputBatch \<Rightarrow> string option list \<times> (string, nat) dict \<times> int list list \<times> nat list \<times> int list \<times> nat" where
  "batch_core b = (ib_req_ids b, ib_req_id_to_index b, ib_token_ids b, ib_num_prompt_tokens b, ib_num_tokens b, ib_vocab_size b)"

lemma remove_lora_fields:
  assumes "remove_lora i k b = Inr b'"
  shows "batch_core b' = batch_core b \<and> ib_logit_bias b' = ib_logit_bias b"
proof (cases "ib_request_lora_mapping b ! k = 0")
  case True
  then show ?thesis using assms by (simp add: remove_lora_def)
next
  case False
  then obtain ids where r: "(let rest = ids - {i}; b1 = b\<lparr>ib_request_lora_mapping := (ib_request_lora_mapping b)[k := 0]\<rparr>
             in if rest \<noteq> {} then Inr (b1\<lparr>ib_lora_id_to_request_ids := dict_set (ib_request_lora_mapping b ! k) rest (ib_lora_id_to_request_ids b)\<rparr>)
                else res_bind (dict_item (ib_lora_id_to_lora_request b) (ib_request_lora_mapping b ! k)) (\<lambda>_.
                  Inr (b1\<lparr>ib_lora_id_to_request_ids := dict_pop (ib_request_lora_mapping b ! k) (ib_lora_id_to_request_ids b),
                          ib_lora_id_to_lora_request := dict_pop (ib_request_lora_mapping b ! k) (ib_lora_id_to_lora_request b)\<rparr>))) = Inr b'"
    using assms unfolding remove_lora_def Let_def by (simp del: InputBatch.update_defs) (elim res_bind_InrE, blast)
  then show ?thesis by (cases "ids - {i} = {}") (auto simp: batch_core_def Let_def res_bind_Inr_iff)
qed

lemma remove_request_fields:
  assumes "InputBatch_remove_request j b = Inr (k, b')" "dict_get (ib_req_id_to_index b) j = Some e"
  shows "ib_req_ids b' = (ib_req_ids b)[e := None]" "ib_req_id_to_index b' = dict_pop j (ib_req_id_to_index b)"
    "ib_logit_bias b' = (ib_logit_bias b)[e := None]" "ib_token_ids b' = ib_token_ids b"
    "ib_num_prompt_tokens b' = ib_num_prompt_tokens b" "ib_num_tokens b' = ib_num_tokens b" "ib_vocab_size b' = ib_vocab_size b"
proof -
  obtain c c' where c: "c = b\<lparr>ib_req_id_to_index := dict_pop j (ib_req_id_to_index b), ib_req_ids := (ib_req_ids b)[e := None],
                     ib_req_output_token_ids := (ib_req_output_token_ids b)[e := None],
                     ib_greedy_reqs := ib_greedy_reqs b - {j}, ib_random_reqs := ib_random_reqs b - {j},
                     ib_top_p_reqs := ib_top_p_reqs b - {j}, ib_top_k_reqs := ib_top_k_reqs b - {j},
                     ib_min_p_reqs := ib_min_p_reqs b - {j}, ib_min_tokens := dict_pop e (ib_min_tokens b),
                     ib_frequency_penalties_reqs := ib_frequency_penalties_reqs b - {j},
                     ib_presence_penalties_reqs := ib_presence_penalties_reqs b - {j},
                     ib_repetition_penalties_reqs := ib_repetition_penalties_reqs b - {j},
                     ib_generators := dict_pop e (ib_generators b), ib_num_logprobs := dict_pop j (ib_num_logprobs b),
                     ib_num_prompt_logprobs := dict_pop j (ib_num_prompt_logprobs b)\<rparr>" "remove_lora j e c = Inr c'"
    "b' = c'\<lparr>ib_logit_bias := (ib_logit_bias c')[e := None], ib_has_allowed_token_ids := ib_has_allowed_token_ids c' - {j},
                     ib_allowed_mask := map_option (\<lambda>rows. rows[e := map (\<lambda>_. False) (rows ! e)]) (ib_allowed_mask c'),
                     ib_bad_words_token_ids := dict_pop e (ib_bad_words_token_ids c')\<rparr>"
    using assms unfolding InputBatch_remove_request_def Let_def
    by (simp only: option.case) (elim res_bind_InrE, rule that[OF refl], assumption, simp only: sum.inject prod.inject)
  show "ib_req_ids b' = (ib_req_ids b)[e := None]" "ib_req_id_to_index b' = dict_pop j (ib_req_id_to_index b)"
    "ib_logit_bias b' = (ib_logit_bias b)[e := None]" "ib_token_ids b' = ib_token_ids b"
    "ib_num_prompt_tokens b' = ib_num_prompt_tokens b" "ib_num_tokens b' = ib_num_tokens b" "ib_vocab_size b' = ib_vocab_size b"
    using remove_lora_fields[OF c(2)] by (simp_all add: c(1,3) batch_core_def)
qed

lemma move_row_fields:
  assumes "move_row l e b = Inr b'"
  obtains i row where "ib_req_ids b ! l = Some i" "ib_req_ids b' = (ib_req_ids b)[e := Some i, l := None]"
    "ib_req_id_to_index b' = dict_set i e (ib_req_id_to_index b)" "ib_logit_bias b' = (ib_logit_bias b)[e := ib_logit_bias b ! l]"
    "np_assign (ib_token_ids b ! e) 0 (ib_num_tokens b ! l) (py_slice (ib_token_ids b ! l) 0 (ib_num_tokens b ! l)) = Inr row"
    "ib_token_ids b' = (ib_token_ids b)[e := row]" "ib_num_prompt_tokens b' = (ib_num_prompt_tokens b)[e := ib_num_prompt_tokens b ! l]"
    "ib_vocab_size b' = ib_vocab_size b"
  using assms by (auto simp: move_row_def Let_def res_bind_Inr_iff split: option.splits)

text \<open>With the row e empty and the last row l after it, condensing is that one move.\<close>

lemma condense_one_hole:
  assumes "InputBatch_condense [e] b = Inr b'" "InputBatch_num_reqs b = l" "e < l"
  obtains b1 where "move_row l e b = Inr b1" "ib_req_ids b' = take (InputBatch_num_reqs b1) (ib_req_ids b1)"
    "ib_req_id_to_index b' = ib_req_id_to_index b1" "ib_logit_bias b' = ib_logit_bias b1" "ib_token_ids b' = ib_token_ids b1"
    "ib_num_prompt_tokens b' = ib_num_prompt_tokens b1" "ib_vocab_size b' = ib_vocab_size b1"
proof -
  have "last_used [e] l = Some l" using assms(3) by (cases l) auto
  then show ?thesis using assms that by (auto simp: InputBatch_condense_def Let_def res_bind_Inr_iff)
qed

text \<open>A compact batch: the request of every row, and the rows by request.\<close>

lemma compact_rows:
  assumes "index_ok b" "compact b" "k < InputBatch_num_reqs b"
  obtains i where "ib_req_ids b ! k = Some i" "dict_get (ib_req_id_to_index b) i = Some k"
proof -
  have "{k. slot_id b k \<noteq> None} \<subseteq> {..<length (ib_req_ids b)}" by (auto simp: slot_id_def split: if_splits)
  moreover have "card {k. slot_id b k \<noteq> None} = card {..<length (ib_req_ids b)}"
    using num_reqs_card[OF assms(1)] assms(2) by (simp add: compact_def)
  ultimately have "{k. slot_id b k \<noteq> None} = {..<length (ib_req_ids b)}" by (intro card_subset_eq) auto
  then have "slot_id b k \<noteq> None" using assms(2,3) by (auto simp: compact_def)
  then obtain i where i: "slot_id b k = Some i" by blast
  then have "ib_req_ids b ! k = Some i" by (simp add: slot_id_def split: if_splits)
  moreover have "dict_get (ib_req_id_to_index b) i = Some k" using i assms(1) by (simp add: index_ok_def)
  ultimately show ?thesis by (rule that)
qed

text \<open>The request j in row e leaves the compact batch; the request i of the last row l moves to row e.\<close>

lemma remove_and_condense:
  assumes inv: "index_ok b" "compact b" and j: "dict_get (ib_req_id_to_index b) j = Some e" and l: "InputBatch_num_reqs b = Suc l" "e < l"
    and rem: "InputBatch_remove_request j b = Inr (k, b1)"
    and mid: "ib_req_ids b2 = ib_req_ids b1" "ib_req_id_to_index b2 = ib_req_id_to_index b1"
    and con: "InputBatch_condense [e] b2 = Inr b3"
  obtains i row where "dict_get (ib_req_id_to_index b) i = Some l" "i \<noteq> j" "ib_req_ids b3 = (take l (ib_req_ids b))[e := Some i]"
    "ib_req_id_to_index b3 = dict_set i e (dict_pop j (ib_req_id_to_index b))" "InputBatch_num_reqs b3 = l"
    "ib_logit_bias b3 = (ib_logit_bias b2)[e := ib_logit_bias b2 ! l]"
    "np_assign (ib_token_ids b2 ! e) 0 (ib_num_tokens b2 ! l) (py_slice (ib_token_ids b2 ! l) 0 (ib_num_tokens b2 ! l)) = Inr row"
    "ib_token_ids b3 = (ib_token_ids b2)[e := row]" "ib_num_prompt_tokens b3 = (ib_num_prompt_tokens b2)[e := ib_num_prompt_tokens b2 ! l]"
    "ib_vocab_size b3 = ib_vocab_size b2"
proof -
  note R = remove_request_fields[OF rem j]
  obtain i where i: "ib_req_ids b ! l = Some i" "dict_get (ib_req_id_to_index b) i = Some l"
    using compact_rows[OF inv, of l] l(1) by auto
  have ij: "i \<noteq> j" using i(2) j l(2) by auto
  have ok: "dict_ok (ib_req_id_to_index b)" using inv(1) by (simp add: index_ok_def)
  have mem: "dict_has (ib_req_id_to_index b) j" using j by simp
  have n2: "InputBatch_num_reqs b2 = l"
    using dict_length_pop[OF ok mem] l(1) by (simp add: InputBatch_num_reqs_def mid(2) R(2))
  obtain c where c: "move_row l e b2 = Inr c" "ib_req_ids b3 = take (InputBatch_num_reqs c) (ib_req_ids c)"
    "ib_req_id_to_index b3 = ib_req_id_to_index c" "ib_logit_bias b3 = ib_logit_bias c" "ib_token_ids b3 = ib_token_ids c"
    "ib_num_prompt_tokens b3 = ib_num_prompt_tokens c" "ib_vocab_size b3 = ib_vocab_size c"
    using condense_one_hole[OF con n2 l(2)] by metis
  obtain i' row where m: "ib_req_ids b2 ! l = Some i'" "ib_req_ids c = (ib_req_ids b2)[e := Some i', l := None]"
    "ib_req_id_to_index c = dict_set i' e (ib_req_id_to_index b2)" "ib_logit_bias c = (ib_logit_bias b2)[e := ib_logit_bias b2 ! l]"
    "np_assign (ib_token_ids b2 ! e) 0 (ib_num_tokens b2 ! l) (py_slice (ib_token_ids b2 ! l) 0 (ib_num_tokens b2 ! l)) = Inr row"
    "ib_token_ids c = (ib_token_ids b2)[e := row]" "ib_num_prompt_tokens c = (ib_num_prompt_tokens b2)[e := ib_num_prompt_tokens b2 ! l]"
    "ib_vocab_size c = ib_vocab_size b2"
    using move_row_fields[OF c(1)] by metis
  have i': "i' = i" using m(1) i(1) l(2) by (simp add: mid(1) R(1))
  have has: "dict_has (dict_pop j (ib_req_id_to_index b)) i" using i(2) ij by simp
  have nc: "InputBatch_num_reqs c = l"
    using dict_length_set[OF dict_ok_pop[OF ok]] has n2 by (simp add: InputBatch_num_reqs_def m(3) i' mid(2) R(2))
  have ids: "ib_req_ids b3 = (take l (ib_req_ids b))[e := Some i]"
    using l by (simp add: c(2) nc m(2) i' mid(1) R(1) take_update_swap list_update_beyond)
  show ?thesis
    by (rule that[of i row]) (use i(2) ij ids nc c m i' mid(2) R(2) in \<open>simp_all add: InputBatch_num_reqs_def\<close>)
qed

section \<open>The logit bias that stays behind\<close>

lemma add_request_at_end:
  assumes "InputBatch_add_request q st None b = Inr b'" "ib_req_ids b = xs" "length xs = InputBatch_num_reqs b"
    "sp_logit_bias (cs_sampling_params q) = None"
  shows "ib_req_ids b' = xs @ [Some (cs_req_id q)]" "ib_logit_bias b' = ib_logit_bias b"
    "ib_req_id_to_index b' = dict_set (cs_req_id q) (InputBatch_num_reqs b) (ib_req_id_to_index b)"
proof -
  let ?i = "InputBatch_num_reqs b" and ?p = "cs_sampling_params q"
  obtain b1 b2 b3 where s: "place_request (cs_req_id q) st ?i b = Inr b1" "copy_tokens q ?i b1 = Inr b2"
    "set_allowed_mask q ?i (note_options q ?i (note_sampling (cs_req_id q) ?p
       (b2\<lparr>ib_cpu := set_sampling_row ?p (ib_vocab_size b2) ?i (ib_cpu b2)\<rparr>))) = Inr b3" "b' = set_lora q ?i b3"
    using assms(1) unfolding InputBatch_add_request_def Let_def by (elim res_bind_InrE) (simp only: option.case that sum.inject)
  have 1: "b1 = b\<lparr>ib_req_ids := ib_req_ids b @ [Some (cs_req_id q)], ib_req_output_token_ids := ib_req_output_token_ids b @ [Some st],
                  ib_req_id_to_index := dict_set (cs_req_id q) ?i (ib_req_id_to_index b)\<rparr>"
    using s(1) assms(2,3) by (simp add: place_request_def)
  have 2: "ib_req_ids b2 = ib_req_ids b1 \<and> ib_req_id_to_index b2 = ib_req_id_to_index b1 \<and> ib_logit_bias b2 = ib_logit_bias b1"
    using s(2) by (auto simp: copy_tokens_def Let_def res_bind_Inr_iff)
  have m: "ib_req_ids y = ib_req_ids x \<and> ib_req_id_to_index y = ib_req_id_to_index x \<and> ib_logit_bias y = ib_logit_bias x"
    if "set_allowed_mask q ?i x = Inr y" for x y
    using that by (auto simp: set_allowed_mask_def Let_def res_bind_Inr_iff split: option.splits if_splits)
  have l: "ib_req_ids (set_lora q ?i x) = ib_req_ids x \<and> ib_req_id_to_index (set_lora q ?i x) = ib_req_id_to_index x \<and>
      ib_logit_bias (set_lora q ?i x) = ib_logit_bias x" for x
    by (simp add: set_lora_def split: option.split)
  show "ib_req_ids b' = xs @ [Some (cs_req_id q)]" "ib_logit_bias b' = ib_logit_bias b"
    "ib_req_id_to_index b' = dict_set (cs_req_id q) ?i (ib_req_id_to_index b)"
    using m[OF s(3)] l[of b3] 1 2 s(4) assms(2,4) by (simp_all add: note_options_def note_sampling_def Let_def)
qed

lemma refresh_logit_bias:
  assumes "InputBatch_refresh_sampling_metadata b = Inr b'"
  shows "sm_logit_bias (ib_sampling_metadata b') = take (InputBatch_num_reqs b) (ib_logit_bias b)" "ib_req_ids b' = ib_req_ids b"
    "sm_prompt_token_ids (ib_sampling_metadata b') = Some rows \<Longrightarrow> InputBatch_make_prompt_token_ids b = Inr rows"
  using assms by (auto simp: InputBatch_refresh_sampling_metadata_def InputBatch_make_sampling_metadata_def Let_def res_bind_Inr_iff
      split: if_splits option.splits)

lemma stale_logit_bias:
  assumes inv: "arrays_ok b" "index_ok b" "compact b" and j: "dict_get (ib_req_id_to_index b) j = Some e"
    and l: "InputBatch_num_reqs b = Suc l" "e < l" and bias: "ib_logit_bias b ! l = d"
    and rem: "InputBatch_remove_request j b = Inr (k, b1)" and con: "InputBatch_condense [e] b1 = Inr b2"
    and add: "InputBatch_add_request q st None b2 = Inr b3" "sp_logit_bias (cs_sampling_params q) = None"
      "dict_get (ib_req_id_to_index b2) (cs_req_id q) = None"
    and ref: "InputBatch_refresh_sampling_metadata b3 = Inr b4"
  shows "ib_req_ids b4 ! l = Some (cs_req_id q)" "sm_logit_bias (ib_sampling_metadata b4) ! l = d"
    "length (sm_logit_bias (ib_sampling_metadata b4)) = Suc l"
proof -
  note R = remove_request_fields[OF rem j]
  obtain i where c: "ib_req_ids b2 = (take l (ib_req_ids b))[e := Some i]" "InputBatch_num_reqs b2 = l"
    "ib_logit_bias b2 = (ib_logit_bias b1)[e := ib_logit_bias b1 ! l]"
    "ib_req_id_to_index b2 = dict_set i e (dict_pop j (ib_req_id_to_index b))"
    using remove_and_condense[OF inv(2,3) j l rem refl refl con] by metis
  have len: "length (ib_req_ids b2) = l" "length (ib_logit_bias b) = ib_max_num_reqs b" "Suc l \<le> ib_max_num_reqs b"
    using inv(1,3) l c(1) by (simp_all add: arrays_ok_def Let_def compact_def)
  note A = add_request_at_end[OF add(1) refl _ add(2)]
  have "dict_ok (ib_req_id_to_index b2)" using inv(2) c(4) by (simp add: index_ok_def)
  then have n: "InputBatch_num_reqs b3 = Suc l" using A(3) len(1) c(2) add(3) by (simp add: InputBatch_num_reqs_def dict_length_set)
  note M = refresh_logit_bias[OF ref]
  show "ib_req_ids b4 ! l = Some (cs_req_id q)" using M(2) A(1) len(1) c(2) by (simp add: nth_append)
  show "sm_logit_bias (ib_sampling_metadata b4) ! l = d" using M(1) A(2) len c R(3) l(2) bias n by simp
  show "length (sm_logit_bias (ib_sampling_metadata b4)) = Suc l" using M(1) A(2) len c R(3) n by simp
qed

section \<open>The prompt that is split\<close>

lemma update_row_fields:
  assumes "update_row sched d l b = Inr b'" "dict_get_default (so_scheduled_spec_decode_tokens sched) (cd_req_id d) [] = []"
    "cd_num_computed_tokens d = int c" "c + length (cd_new_token_ids d) \<le> length (ib_token_ids b ! l)"
  obtains row where "ib_req_ids b' = ib_req_ids b" "ib_req_id_to_index b' = ib_req_id_to_index b" "ib_vocab_size b' = ib_vocab_size b"
    "ib_num_prompt_tokens b' = ib_num_prompt_tokens b" "ib_token_ids b' = (ib_token_ids b)[l := row]" "length row = length (ib_token_ids b ! l)"
    "ib_num_tokens b' = (ib_num_tokens b)[l := int (c + length (cd_new_token_ids d))]"
proof -
  have n: "np_assign (ib_token_ids b ! l) (int c) (int c + int (length (cd_new_token_ids d))) (cd_new_token_ids d) =
      Inr (take c (ib_token_ids b ! l) @ cd_new_token_ids d @ drop (c + length (cd_new_token_ids d)) (ib_token_ids b ! l))"
    using assms(4) by (intro np_assign_exact) simp_all
  show ?thesis
    by (rule that[of "take c (ib_token_ids b ! l) @ cd_new_token_ids d @ drop (c + length (cd_new_token_ids d)) (ib_token_ids b ! l)"])
      (use assms n in \<open>auto simp: update_row_def Let_def res_bind_Inr_iff\<close>)
qed

lemma make_prompt_row:
  assumes "InputBatch_make_prompt_token_ids b = Inr rows" "e < InputBatch_num_reqs b" "e < length (ib_num_prompt_tokens b)"
    "ib_num_prompt_tokens b ! e = p" "p \<le> length (ib_token_ids b ! e)"
  shows "length rows = InputBatch_num_reqs b" "take p (rows ! e) = take p (ib_token_ids b ! e)"
proof -
  obtain m where m: "py_max id (take (InputBatch_num_reqs b) (ib_num_prompt_tokens b)) = Inr m"
    "rows = map (\<lambda>i. take (ib_num_prompt_tokens b ! i) (take m (ib_token_ids b ! i)) @
                      replicate (m - ib_num_prompt_tokens b ! i) (int (ib_vocab_size b))) [0..<InputBatch_num_reqs b]"
    using assms(1) by (auto simp: InputBatch_make_prompt_token_ids_def Let_def res_bind_Inr_iff)
  have "p \<in> set (take (InputBatch_num_reqs b) (ib_num_prompt_tokens b))"
    using assms(2-4) by (auto simp: in_set_conv_nth intro!: exI[of _ e])
  then have "p \<le> m" using py_max_ge[OF m(1)] by fastforce
  then show "length rows = InputBatch_num_reqs b" "take p (rows ! e) = take p (ib_token_ids b ! e)"
    using m(2) assms(2,4,5) by (simp_all add: min_def)
qed

lemma split_prompt:
  assumes inv: "arrays_ok b" "index_ok b" "compact b" and j: "dict_get (ib_req_id_to_index b) j = Some e"
    and i: "dict_get (ib_req_id_to_index b) i = Some l" and l: "InputBatch_num_reqs b = Suc l" "e < l"
    and rem: "InputBatch_remove_request j b = Inr (k, b1)" and upd: "update_row sched d l b1 = Inr b2"
    and d: "dict_get_default (so_scheduled_spec_decode_tokens sched) (cd_req_id d) [] = []" "cd_num_computed_tokens d = int c"
      "n = c + length (cd_new_token_ids d)" "n < p"
    and p: "p = ib_num_prompt_tokens b ! l" "p \<le> ib_max_model_len b"
    and con: "InputBatch_condense [e] b2 = Inr b3" and rows: "InputBatch_make_prompt_token_ids b3 = Inr rows"
  shows "dict_get (ib_req_id_to_index b3) i = Some e" "length rows = l" "p \<le> length (rows ! e)"
    "take n (rows ! e) = take n (ib_token_ids b2 ! l)" "drop n (take p (rows ! e)) = drop n (take p (ib_token_ids b ! e))"
proof -
  note R = remove_request_fields[OF rem j]
  have A: "length (ib_token_ids b) = ib_max_num_reqs b" "length (ib_num_tokens b) = ib_max_num_reqs b"
    "length (ib_num_prompt_tokens b) = ib_max_num_reqs b" "Suc l \<le> ib_max_num_reqs b"
    "\<And>row. row \<in> set (ib_token_ids b) \<Longrightarrow> length row = ib_max_model_len b"
    using inv(1,3) l by (simp_all add: arrays_ok_def Let_def compact_def)
  have len: "length (ib_token_ids b ! l) = ib_max_model_len b" "length (ib_token_ids b ! e) = ib_max_model_len b"
    using A(1,4,5) l(2) by simp_all
  have "c + length (cd_new_token_ids d) \<le> length (ib_token_ids b1 ! l)" using d(3,4) p(2) len by (simp add: R)
  then obtain row where u: "ib_req_ids b2 = ib_req_ids b1" "ib_req_id_to_index b2 = ib_req_id_to_index b1"
    "ib_num_prompt_tokens b2 = ib_num_prompt_tokens b1" "ib_token_ids b2 = (ib_token_ids b1)[l := row]" "length row = length (ib_token_ids b1 ! l)"
    "ib_num_tokens b2 = (ib_num_tokens b1)[l := int n]"
    using update_row_fields[OF upd d(1,2)] unfolding d(3) by metis
  obtain i' row' where m: "dict_get (ib_req_id_to_index b) i' = Some l" "i' \<noteq> j" "InputBatch_num_reqs b3 = l"
    "ib_req_id_to_index b3 = dict_set i' e (dict_pop j (ib_req_id_to_index b))"
    "np_assign (ib_token_ids b2 ! e) 0 (ib_num_tokens b2 ! l) (py_slice (ib_token_ids b2 ! l) 0 (ib_num_tokens b2 ! l)) = Inr row'"
    "ib_token_ids b3 = (ib_token_ids b2)[e := row']" "ib_num_prompt_tokens b3 = (ib_num_prompt_tokens b2)[e := ib_num_prompt_tokens b2 ! l]"
    using remove_and_condense[OF inv(2,3) j l rem u(1,2) con] by metis
  have "i' = i" using inv(2) i m(1) unfolding index_ok_def by force
  then show "dict_get (ib_req_id_to_index b3) i = Some e" using m(4) by simp
  have nt: "ib_num_tokens b2 ! l = int n" using A(2,4) by (simp add: u(6) R)
  have te: "ib_token_ids b2 ! e = ib_token_ids b ! e" "ib_token_ids b2 ! l = row" using l(2) A(1,4) by (simp_all add: u(4) R)
  have lr: "length row = ib_max_model_len b" using u(5) len(1) by (simp add: R)
  have sl: "py_slice row 0 (int n) = take n row" using py_slice_nat[of row 0 n] by simp
  have nl: "n \<le> ib_max_model_len b" using d(4) p(2) by simp
  have "np_assign (ib_token_ids b ! e) (int 0) (int n) (take n row) = Inr (take 0 (ib_token_ids b ! e) @ take n row @ drop (0 + length (take n row)) (ib_token_ids b ! e))"
    using nl lr len(2) by (intro np_assign_exact) simp_all
  then have row': "row' = take n row @ drop n (ib_token_ids b ! e)" using m(5) nl lr by (simp add: nt te sl)
  have e3: "ib_token_ids b3 ! e = row'" "ib_num_prompt_tokens b3 ! e = p" "e < length (ib_num_prompt_tokens b3)"
    using l(2) A p(1) by (simp_all add: m(6,7) u(3,4) R)
  have lr': "length row' = ib_max_model_len b" using row' nl lr len(2) by simp
  have M: "length rows = l" "take p (rows ! e) = take p row'"
    using make_prompt_row[OF rows, of e p] m(3) l(2) e3 p(2) lr' by simp_all
  show "length rows = l" by (rule M)
  have "length (take p (rows ! e)) = p" using p(2) lr' by (simp add: M(2))
  then show "p \<le> length (rows ! e)" by simp
  have "take n (take p (rows ! e)) = take n row" using nl lr d(4) by (simp add: M(2) row')
  then show "take n (rows ! e) = take n (ib_token_ids b2 ! l)" using d(4) by (simp add: te(2) min_def)
  show "drop n (take p (rows ! e)) = drop n (take p (ib_token_ids b ! e))" using nl lr d(4) by (simp add: M(2) row' drop_take)
qed

end
