(* ===== verification/Batch_Properties.thy ===== *)
theory Batch_Properties
  imports Stale_Rows Condense_Faults V1_Properties
begin

text \<open>
  The properties of the persistent batch and of the model runner under the engine core, with
  instances: the engine of V1_Properties with its runner.
\<close>

section \<open>The instance\<close>

definition demo_sampler :: sampler where
  "demo_sampler = \<lparr>model_token = (\<lambda>inputs sm k. 5), model_logprobs = (\<lambda>inputs sm k. undefined), model_prompt_logprobs = (\<lambda>inputs. {})\<rparr>"

definition demo_id_order :: "string set \<Rightarrow> string list" where
  "demo_id_order A = map (map char_of) (sorted_list_of_set (map of_char ` A :: nat list set))"

lemma demo_id_order_lists: "lists_sets demo_id_order"
proof -
  have "distinct (demo_id_order A) \<and> set (demo_id_order A) = A" if "finite A" for A
  proof -
    let ?f = "map of_char :: string \<Rightarrow> nat list" and ?g = "map char_of :: nat list \<Rightarrow> string"
    have gf: "?g (?f x) = x" for x by (simp add: map_idI)
    have s: "set (sorted_list_of_set (?f ` A)) = ?f ` A" "distinct (sorted_list_of_set (?f ` A))" using that by simp_all
    have "?g ` (?f ` A) = A" using gf by (simp only: image_image image_ident)
    moreover have "inj_on ?g (?f ` A)" by (rule inj_onI) (use gf in \<open>auto simp del: map_map\<close>)
    ultimately show ?thesis unfolding demo_id_order_def distinct_map using s by (simp add: list.set_map)
  qed
  then show ?thesis by (simp add: lists_sets_def)
qed

definition demo_batch :: "InputBatch result" where
  "demo_batch = InputBatch_init (\<lambda>_. 0) (\<lambda>_. 0) 8 8 4 10"

lemma demo_batch_ok: "\<exists>b. demo_batch = Inr b"
proof -
  have "case demo_batch of Inl _ \<Rightarrow> False | Inr _ \<Rightarrow> True" by code_simp
  then show ?thesis by (auto split: sum.splits)
qed

lemma demo_fitting: "fitting_config (demo_config 4)"
  unfolding fitting_config_def using demo_config_text by (simp add: demo_config_def cdiv_def)

text \<open>The engine and its runner with one request of three tokens, of which two are to be generated.\<close>

lemma demo_request_ok:
  obtains q where "plain_client_request 8 q" "rq_request_id q = ''a''" "rq_status q = WAITING" "rq_all_token_ids q = [1, 2, 3]"
proof -
  obtain q where q: "Request_init ''a'' [1, 2, 3] 0 [] [] (demo_params 2) None None = Inr q" "rq_all_token_ids q = [1, 2, 3]" "rq_status q = WAITING"
    "rq_request_id q = ''a''" "rq_sampling_params q = demo_params 2" "rq_lora_request q = None"
    by (simp add: Request_init_def demo_params_def)
  have "client_request 8 q" unfolding client_request_def using q(1) by (intro exI conjI) auto
  then show ?thesis
    by (intro that[of q]) (use q in \<open>simp_all add: plain_client_request_def plain_params_def demo_params_def SamplingParams_default_def\<close>)
qed

lemma demo_system:
  obtains s w where "engine_runs demo_hasher demo_id_order (demo_config 4) (s, w)" "vs_waiting s = [0]" "vs_running s = []"
    "vs_id s 0 = ''a''" "rq_status (vs_obj s 0) = WAITING" "enough_blocks s" "0 < vs_max_num_running_reqs s" "vs_max_num_scheduled_tokens s = 4"
proof -
  obtain s where s: "Scheduler_init (demo_config 4) = Inr s" "vs_waiting s = []" "vs_running s = []" "vs_requests s = []"
     "vs_max_num_scheduled_tokens s = 4" "vs_max_num_running_reqs s = 8" "vs_objects s = []" "enough_blocks s"
    using scheduler_init_ok[OF demo_config_text, of demo_hasher] by (auto simp: demo_config_def cdiv_def)
  obtain b where b: "demo_batch = Inr b" using demo_batch_ok ..
  obtain q where q: "plain_client_request 8 q" "rq_request_id q = ''a''" "rq_status q = WAITING" using demo_request_ok by metis
  let ?w = "GPUModelRunner_init (cf_block_size (demo_config 4)) b"
  have i: "engine_runs demo_hasher demo_id_order (demo_config 4) (s, ?w)"
    by (rule engine_runs.init[OF s(1)]) (use b in \<open>simp_all add: demo_batch_def demo_config_def cdiv_def\<close>)
  have "engine_runs demo_hasher demo_id_order (demo_config 4) (Scheduler_add_request 0 q s, ?w)"
    by (rule engine_runs.add[OF i]) (use q s(4) in \<open>simp_all add: demo_config_def GPUModelRunner_init_def\<close>)
  then show ?thesis
    by (rule that) (use s q in \<open>auto simp: Scheduler_add_request_def Scheduler_request_queued_def record_event_def Let_def enough_blocks_def\<close>)
qed

section \<open>The engine with its runner\<close>

text \<open>
  C8. The engine and its runner never fail together. In every state the engine core and the model
  runner reach from construction by adding text requests under ids the runner does not know,
  compiling grammars, aborting, resetting the prefix cache and stepping, the next step of both
  succeeds; for the scheduler it is a step with an executor that answers what the runner computes.
\<close>

theorem v1_runner_never_fails:
  assumes "fitting_config c" "lists_sets id_order" "engine_runs H id_order c (s, w)"
  shows "\<exists>res s' w'. EngineCore_runner_step H order id_order S now (s, w) = Inr (res, s', w') \<and>
     EngineCore_step H order (executor id_order S w) now s = Inr (res, s') \<and> engine_runs H id_order c (s', w')"
proof -
  have i: "at_rest H s" "mirror s w" "enough_blocks s" "0 < vs_max_num_scheduled_tokens s" using engine_runs_mirror[OF assms] by simp_all
  obtain res s' w' where r: "EngineCore_runner_step H order id_order S now (s, w) = Inr (res, s', w')"
    using runner_step_ok(1)[OF i(1,2) assms(2) i(3,4), of order S now] by blast
  show ?thesis using r runner_step_scheduler[OF r] engine_runs.step[OF assms(3) r] by blast
qed

theorem v1_runner_never_fails_witness:
  "\<exists>s w res s' w'. engine_runs demo_hasher demo_id_order (demo_config 4) (s, w) \<and> vs_waiting s = [0] \<and>
     EngineCore_runner_step demo_hasher (\<lambda>_. []) demo_id_order demo_sampler 0 (s, w) = Inr (res, s', w')"
proof -
  obtain s w where s: "engine_runs demo_hasher demo_id_order (demo_config 4) (s, w)" "vs_waiting s = [0]" using demo_system by metis
  then show ?thesis using v1_runner_never_fails[OF demo_fitting demo_id_order_lists s(1), of "\<lambda>_. []" demo_sampler 0] by blast
qed

text \<open>
  C9. The model computes what the scheduler planned. When a scheduling step of a reachable state
  has work, the runner hands the model exactly the scheduled requests, each with the positions
  after its computed tokens, the token ids at these positions and the slots of the KV cache where
  the blocks the scheduler gave the request hold them, and the answer for a request is the token
  the model samples for its row.
\<close>

theorem v1_runner_computes_planned:
  assumes "fitting_config c" "lists_sets id_order" "engine_runs H id_order c (s, w)"
    "Scheduler_schedule H now s = Inr (sched, s1)" "so_total_num_scheduled_tokens sched \<noteq> 0"
  shows "\<exists>out w' inputs rs. GPUModelRunner_execute_model id_order S sched w = Inr (out, w') \<and> distinct rs \<and>
     set rs = {r \<in> set (vs_running s1). dict_has (so_num_scheduled_tokens sched) (vs_id s1 r)} \<and>
     (let n = (\<lambda>r. dict_get_default (so_num_scheduled_tokens sched) (vs_id s1 r) 0) in
        mi_num_scheduled inputs = map (\<lambda>r. nat (n r)) rs \<and>
        mi_positions inputs = concat (map (\<lambda>r. planned_positions s1 (n r) r) rs) \<and>
        mi_input_ids inputs = concat (map (\<lambda>r. planned_tokens s1 (n r) r) rs) \<and>
        mi_slot_mapping inputs = concat (map (\<lambda>r. planned_slots s1 (n r) r) rs) \<and>
        mi_seq_lens inputs = map (\<lambda>r. rq_num_computed_tokens (vs_obj s1 r) + n r) rs) \<and>
     (\<forall>k < length rs. dict_get (mo_req_id_to_index out) (vs_id s1 (rs ! k)) = Some k \<and>
        mo_sampled_token_ids out ! k = [model_token S inputs (ib_sampling_metadata (gr_batch w')) k])"
proof -
  have i: "at_rest H s" "mirror s w" "enough_blocks s" "0 < vs_max_num_scheduled_tokens s" using engine_runs_mirror[OF assms(1-3)] by simp_all
  obtain out w' inputs where r: "GPUModelRunner_execute_model id_order S sched w = Inr (out, w')"
    "in_flight H (so_num_scheduled_tokens sched) s1" "in_flight_runner s1 sched w'"
    "inputs_planned s1 (so_num_scheduled_tokens sched) (batch_reqs s1 (gr_batch w')) inputs"
    "mo_sampled_token_ids out = map (\<lambda>k. [model_token S inputs (ib_sampling_metadata (gr_batch w')) k]) [0..<length (batch_reqs s1 (gr_batch w'))]"
    "mo_req_id_to_index out = ib_req_id_to_index (gr_batch w')"
    using runner_step_ok(2)[OF i(1,2) assms(2) i(3,4) assms(4,5), of S] by blast
  define rs where "rs = batch_reqs s1 (gr_batch w')"
  note R = batch_reqs_ok[OF r(2,3), folded rs_def] and W = in_flight_runnerD[OF r(3)]
  have b: "batch_inv (gr_batch w')" using W(1) by (simp add: runner_inv_def)
  have index: "dict_get (ib_req_id_to_index (gr_batch w')) (vs_id s1 (rs ! k)) = Some k" if k: "k < length rs" for k
  proof -
    have l: "k < length (batch_ids (gr_batch w'))" using k arg_cong[OF R(1), of length] by simp
    have "slot_id (gr_batch w') k = Some (batch_ids (gr_batch w') ! k)" by (rule batch_ids_ok(4)[OF b W(2) l])
    then have "dict_get (ib_req_id_to_index (gr_batch w')) (batch_ids (gr_batch w') ! k) = Some k" using b by (simp add: batch_inv_def index_ok_def)
    then show ?thesis unfolding R(1)[symmetric] using k by simp
  qed
  have "set rs = {r \<in> set (vs_running s1). dict_has (so_num_scheduled_tokens sched) (vs_id s1 r)}" unfolding dict_has_keys by (rule R(3))
  then show ?thesis
    by (intro exI[of _ out] exI[of _ w'] exI[of _ inputs] exI[of _ rs])
      (use r(1,4,5,6) R(2) index in \<open>simp add: inputs_planned_def sched_fn_def rs_def Let_def\<close>)
qed

theorem v1_runner_computes_planned_witness:
  "\<exists>s w sched s1 out w' (inputs :: model_inputs). engine_runs demo_hasher demo_id_order (demo_config 4) (s, w) \<and>
     Scheduler_schedule demo_hasher 0 s = Inr (sched, s1) \<and>
     GPUModelRunner_execute_model demo_id_order demo_sampler sched w = Inr (out, w') \<and>
     mi_input_ids inputs = planned_tokens s1 (dict_get_default (so_num_scheduled_tokens sched) ''a'' 0) 0 \<and>
     mo_sampled_token_ids out ! 0 = [5]"
proof -
  obtain s w where s: "engine_runs demo_hasher demo_id_order (demo_config 4) (s, w)" "vs_waiting s = [0]" "vs_running s = []"
    "vs_id s 0 = ''a''" "rq_status (vs_obj s 0) = WAITING" "enough_blocks s" "0 < vs_max_num_running_reqs s" "vs_max_num_scheduled_tokens s = 4"
    using demo_system by metis
  have rest: "at_rest demo_hasher s" using engine_runs_mirror[OF demo_fitting demo_id_order_lists s(1)] by simp
  have pos: "0 < vs_max_num_scheduled_tokens s" using s(8) by simp
  obtain sched s1 where a: "Scheduler_schedule demo_hasher 0 s = Inr (sched, s1)" "vs_running s1 = [0]"
    "dict_keys (so_num_scheduled_tokens sched) = [vs_id s 0]" "0 < so_total_num_scheduled_tokens sched" "plan_same s s1"
    using single_scheduled[OF rest s(2,3,5,6) pos s(7), of 0] by metis
  have nz: "so_total_num_scheduled_tokens sched \<noteq> 0" using a(4) by simp
  have id: "vs_id s1 0 = ''a''" using plan_sameD(1)[OF a(5), of 0] s(4) by simp
  have has: "dict_has (so_num_scheduled_tokens sched) ''a''" using a(3) s(4) dict_has_keys by auto
  obtain out w' inputs rs where r: "GPUModelRunner_execute_model demo_id_order demo_sampler sched w = Inr (out, w')" "distinct rs"
    "set rs = {r \<in> set (vs_running s1). dict_has (so_num_scheduled_tokens sched) (vs_id s1 r)}"
    "let n = (\<lambda>r. dict_get_default (so_num_scheduled_tokens sched) (vs_id s1 r) 0) in
        mi_num_scheduled inputs = map (\<lambda>r. nat (n r)) rs \<and>
        mi_positions inputs = concat (map (\<lambda>r. planned_positions s1 (n r) r) rs) \<and>
        mi_input_ids inputs = concat (map (\<lambda>r. planned_tokens s1 (n r) r) rs) \<and>
        mi_slot_mapping inputs = concat (map (\<lambda>r. planned_slots s1 (n r) r) rs) \<and>
        mi_seq_lens inputs = map (\<lambda>r. rq_num_computed_tokens (vs_obj s1 r) + n r) rs"
    "\<forall>k < length rs. dict_get (mo_req_id_to_index out) (vs_id s1 (rs ! k)) = Some k \<and>
        mo_sampled_token_ids out ! k = [model_token demo_sampler inputs (ib_sampling_metadata (gr_batch w')) k]"
    using v1_runner_computes_planned[OF demo_fitting demo_id_order_lists s(1) a(1) nz, of demo_sampler] by (elim exE conjE) (rule that; assumption)
  have "set rs = {0}" using r(3) a(2) id has by auto
  then have rs: "rs = [0]" using r(2) by (cases rs; cases "tl rs") auto
  have "mi_input_ids inputs = planned_tokens s1 (dict_get_default (so_num_scheduled_tokens sched) ''a'' 0) 0"
    using r(4) id unfolding rs by (simp add: Let_def)
  moreover have "mo_sampled_token_ids out ! 0 = [5]"
    using r(5) unfolding rs by (simp add: demo_sampler_def)
  ultimately show ?thesis using s(1) a(1) r(1)
    by blast
qed



section \<open>The persistent batch\<close>

text \<open>
  C11. The batch implements a finite map from request ids to rows. Removing a request takes its row
  out and says which place became free, and leaves the batch as it is when there is none; adding a
  request, at the end of a batch without empty places or into an empty place, stores exactly its
  state and what its sampling parameters say; condensing fills the empty places and keeps every row.
\<close>

theorem InputBatch_refines_map:
  assumes "batch_inv b"
  shows "(\<forall>i. case dict_get (ib_req_id_to_index b) i of
       None \<Rightarrow> InputBatch_remove_request i b = Inr (None, b) \<and> batch_of b i = None
     | Some k \<Rightarrow> \<exists>b'. InputBatch_remove_request i b = Inr (Some k, b') \<and> batch_inv b' \<and> batch_of b' = (batch_of b)(i := None) \<and>
         slot_id b' k = None) \<and>
     (\<forall>q st place. fits_row b q \<and> batch_of b (cs_req_id q) = None \<and>
        (case place of None \<Rightarrow> compact b \<and> InputBatch_num_reqs b < ib_max_num_reqs b
         | Some k \<Rightarrow> k < length (ib_req_ids b) \<and> slot_id b k = None) \<longrightarrow>
        (\<exists>b'. InputBatch_add_request q st place b = Inr b' \<and> batch_inv b' \<and>
           batch_of b' = (batch_of b)(cs_req_id q \<mapsto> fresh_row q st (ib_vocab_size b)))) \<and>
     (\<forall>holes. counts_ok b \<and> sorted_wrt (<) (rev holes) \<and> set holes = {k. k < length (ib_req_ids b) \<and> slot_id b k = None} \<longrightarrow>
        (\<exists>b'. InputBatch_condense holes b = Inr b' \<and> batch_inv b' \<and> batch_of b' = batch_of b \<and>
           length (ib_req_ids b') = InputBatch_num_reqs b'))"
proof (intro conjI allI impI)
  fix i
  show "case dict_get (ib_req_id_to_index b) i of
       None \<Rightarrow> InputBatch_remove_request i b = Inr (None, b) \<and> batch_of b i = None
     | Some k \<Rightarrow> \<exists>b'. InputBatch_remove_request i b = Inr (Some k, b') \<and> batch_inv b' \<and> batch_of b' = (batch_of b)(i := None) \<and>
         slot_id b' k = None"
  proof (cases "dict_get (ib_req_id_to_index b) i")
    case None
    then show ?thesis using remove_request_absent[OF None] by (simp add: batch_of_def)
  next
    case (Some k)
    then show ?thesis using remove_request_ok[OF assms Some] by auto
  qed
next
  fix q st and place :: "nat option"
  assume p: "fits_row b q \<and> batch_of b (cs_req_id q) = None \<and>
        (case place of None \<Rightarrow> compact b \<and> InputBatch_num_reqs b < ib_max_num_reqs b
         | Some k \<Rightarrow> k < length (ib_req_ids b) \<and> slot_id b k = None)"
  define k where "k = (case place of None \<Rightarrow> InputBatch_num_reqs b | Some k \<Rightarrow> k)"
  have a: "length (ib_req_ids b) \<le> ib_max_num_reqs b" using assms by (simp add: batch_inv_def arrays_ok_def Let_def)
  have k: "k < ib_max_num_reqs b" "k \<le> length (ib_req_ids b)" "slot_id b k = None"
    using p a by (auto simp: k_def compact_def slot_id_def split: option.splits)
  have "dict_get (ib_req_id_to_index b) (cs_req_id q) = None" using p by (simp add: batch_of_def)
  with batch_add_request_ok[OF assms _ this k_def k] p
  show "\<exists>b'. InputBatch_add_request q st place b = Inr b' \<and> batch_inv b' \<and>
           batch_of b' = (batch_of b)(cs_req_id q \<mapsto> fresh_row q st (ib_vocab_size b))" by blast
next
  fix holes
  assume h: "counts_ok b \<and> sorted_wrt (<) (rev holes) \<and> set holes = {k. k < length (ib_req_ids b) \<and> slot_id b k = None}"
  show "\<exists>b'. InputBatch_condense holes b = Inr b' \<and> batch_inv b' \<and> batch_of b' = batch_of b \<and>
           length (ib_req_ids b') = InputBatch_num_reqs b'"
    using condense_ok[OF assms, of holes] h by (auto simp: compact_def)
qed

definition demo_request :: "string \<Rightarrow> int list \<Rightarrow> SamplingParams \<Rightarrow> CachedRequestState" where
  "demo_request i prompt p =
     \<lparr>cs_req_id = i, cs_prompt_token_ids = prompt, cs_sampling_params = p, cs_generator = None, cs_block_ids = [0],
      cs_num_computed_tokens = 0, cs_output_token_ids = [], cs_lora_request = None\<rparr>"

lemma demo_batch_facts:
  obtains b where "demo_batch = Inr b" "batch_inv b" "compact b" "batch_of b = (\<lambda>_. None)" "ib_max_num_reqs b = 8" "InputBatch_num_reqs b = 0"
    "fits_row b (demo_request i [1, 2] (demo_params 2))"
proof -
  obtain b where b: "demo_batch = Inr b" using demo_batch_ok ..
  note I = batch_init_ok[OF b[unfolded demo_batch_def]]
  have x: "index_ok b" using I(1) by (simp add: batch_inv_def)
  have "InputBatch_num_reqs b = 0" using compact_index[OF x] I(4) by simp
  moreover have "fits_row b (demo_request i [1, 2] (demo_params 2))"
    by (simp add: fits_row_def I(6,7) demo_request_def CachedRequestState_num_tokens_def plain_params_def demo_params_def SamplingParams_default_def)
  ultimately show ?thesis using that b I by blast
qed

theorem InputBatch_refines_map_witness:
  "\<exists>b b1 b2 k. demo_batch = Inr b \<and> InputBatch_add_request (demo_request ''a'' [1, 2] (demo_params 2)) 0 None b = Inr b1 \<and>
     batch_of b1 ''a'' = Some (fresh_row (demo_request ''a'' [1, 2] (demo_params 2)) 0 (ib_vocab_size b)) \<and>
     InputBatch_remove_request ''a'' b1 = Inr (Some k, b2) \<and> batch_of b2 ''a'' = None"
proof -
  let ?q = "demo_request ''a'' [1, 2] (demo_params 2)"
  obtain b where b: "demo_batch = Inr b" "batch_inv b" "compact b" "batch_of b = (\<lambda>_. None)" "ib_max_num_reqs b = 8" "InputBatch_num_reqs b = 0"
    "fits_row b ?q" using demo_batch_facts by metis
  have id: "cs_req_id ?q = ''a''" by (simp add: demo_request_def)
  obtain b1 where b1: "InputBatch_add_request ?q 0 None b = Inr b1" "batch_inv b1" "batch_of b1 = [''a'' \<mapsto> fresh_row ?q 0 (ib_vocab_size b)]"
    using InputBatch_refines_map[OF b(2), THEN conjunct2, THEN conjunct1, rule_format, of ?q None 0] b id by auto
  obtain k where k: "dict_get (ib_req_id_to_index b1) ''a'' = Some k" using b1(3) by (auto simp: batch_of_def fun_eq_iff split: if_splits)
  obtain b2 where b2: "InputBatch_remove_request ''a'' b1 = Inr (Some k, b2)" "batch_of b2 = (batch_of b1)(''a'' := None)"
    using InputBatch_refines_map[OF b1(2), THEN conjunct1, rule_format, of "''a''"] k by auto
  show ?thesis
    by (rule exI[of _ b], rule exI[of _ b1], rule exI[of _ b2], rule exI[of _ k]) (use b(1) b1(1,3) b2 in simp)
qed

text \<open>
  C12. The sampling metadata describe the requests in the order of their rows. Refreshing them in a
  batch without empty places succeeds, keeps every row, and leaves metadata with a tensor for every
  parameter some request uses, one entry per request, taken from the request's own parameters; a
  tensor that no request needs is left out, and enough log probabilities are kept for everybody.
\<close>

theorem InputBatch_refresh_describes_rows:
  assumes "batch_inv b" "compact b"
  shows "\<exists>b'. InputBatch_refresh_sampling_metadata b = Inr b' \<and> batch_inv b' \<and> batch_of b' = batch_of b \<and>
     ib_req_ids b' = ib_req_ids b \<and> describes (ib_sampling_metadata b') (view_of b)"
proof -
  obtain sm where sm: "InputBatch_refresh_sampling_metadata b = Inr (b\<lparr>ib_device := copy_sampling_tensors b, ib_sampling_metadata := sm\<rparr>)"
    "batch_inv (b\<lparr>ib_device := copy_sampling_tensors b, ib_sampling_metadata := sm\<rparr>)"
    "batch_of (b\<lparr>ib_device := copy_sampling_tensors b, ib_sampling_metadata := sm\<rparr>) = batch_of b"
    using refresh_ok[OF assms(1)] by (auto simp: Let_def)
  define b' where "b' = b\<lparr>ib_device := copy_sampling_tensors b, ib_sampling_metadata := sm\<rparr>"
  have "view_of b' = view_of b" using sm(3) by (simp add: view_of_def b'_def batch_ids_def)
  moreover have "metadata_ok b'" using refresh_describes[OF assms sm(1)] by (simp add: b'_def)
  ultimately show ?thesis using sm unfolding metadata_ok_def b'_def[symmetric] by (simp add: b'_def)
qed

theorem InputBatch_refresh_describes_rows_witness:
  "\<exists>b b1 b2. demo_batch = Inr b \<and> InputBatch_add_request (demo_request ''a'' [1, 2] (demo_params 2)) 0 None b = Inr b1 \<and>
     InputBatch_refresh_sampling_metadata b1 = Inr b2 \<and> describes (ib_sampling_metadata b2) (view_of b1) \<and> batch_of b2 ''a'' \<noteq> None"
proof -
  let ?q = "demo_request ''a'' [1, 2] (demo_params 2)"
  obtain b where b: "demo_batch = Inr b" "batch_inv b" "compact b" "batch_of b = (\<lambda>_. None)" "ib_max_num_reqs b = 8" "InputBatch_num_reqs b = 0"
    "fits_row b ?q" using demo_batch_facts by metis
  have id: "cs_req_id ?q = ''a''" by (simp add: demo_request_def)
  have new: "dict_get (ib_req_id_to_index b) (cs_req_id ?q) = None" using b(4) by (simp add: batch_of_def fun_eq_iff)
  have len: "length (ib_req_ids b) = 0" using b(3,6) by (simp add: compact_def)
  obtain b1 where b1: "InputBatch_add_request ?q 0 None b = Inr b1" "batch_inv b1" "batch_of b1 = [''a'' \<mapsto> fresh_row ?q 0 (ib_vocab_size b)]"
    "length (ib_req_ids b1) = 1"
    using batch_add_request_ok[OF b(2,7) new refl, of None 0] b(4-6) len id by (auto simp: slot_id_def)
  have x: "index_ok b1" using b1(2) by (simp add: batch_inv_def)
  have full: "compact b1" using compact_index[OF x] b1(3,4) by (simp add: compact_def)
  obtain b2 where "InputBatch_refresh_sampling_metadata b1 = Inr b2" "batch_of b2 = batch_of b1" "describes (ib_sampling_metadata b2) (view_of b1)"
    using InputBatch_refresh_describes_rows[OF b1(2) full] by blast
  then show ?thesis using b(1) b1(1,3) by (intro exI[of _ b] exI[of _ b1] exI[of _ b2]) simp
qed

section \<open>What the batch and the runner get wrong\<close>

text \<open>
  C13. A request id that is used again can crash the engine. When no request is live and the batch
  still has the row of the finished request i, a step drops the finished ids without telling the
  runner; when a client then submits a new request under the same id, the next step enters it
  next to the stale row and fails with an index error while preparing the inputs.
\<close>

theorem EngineCore_resubmitted_id_crashes:
  assumes "fitting_config c" "2 \<le> cf_max_num_seqs c" "lists_sets id_order" "engine_runs H id_order c (s, w)"
    "vs_waiting s = []" "vs_running s = []" "dom (batch_of (gr_batch w)) = {i}"
    "plain_client_request (cf_max_model_len c) q" "rq_request_id q = i" "rq_status q = WAITING"
  shows "\<exists>res s'. EngineCore_runner_step H order id_order S now (s, w) = Inr (res, s', w) \<and> vs_finished_req_ids s' = {} \<and>
     EngineCore_runner_step H order id_order S now'' (Scheduler_add_request now' q s', w) = Inl IndexError"
proof -
  have i: "at_rest H s" "mirror s w" "enough_blocks s" "0 < vs_max_num_scheduled_tokens s" "vs_max_model_len s = cf_max_model_len c"
    "vs_max_num_running_reqs s = cf_max_num_seqs c" using engine_runs_mirror[OF assms(1,3,4)] by simp_all
  obtain res s' where 1: "EngineCore_runner_step H order id_order S now (s, w) = Inr (res, s', w)" "at_rest H s'" "same_limits s s'"
    "vs_finished_req_ids s' = {}" "vs_waiting s' = []" "vs_running s' = []" "mirror s' w"
    using idle_step[OF i(1,2) assms(3) i(3,4) assms(5,6), of order S now] by blast
  have lim: "enough_blocks s'" "0 < vs_max_num_scheduled_tokens s'" "2 \<le> vs_max_num_running_reqs s'" "plain_client_request (vs_max_model_len s') q"
    using same_limitsD(2-5)[OF 1(3)] i(3-6) assms(2,8) by auto
  show ?thesis using 1(1,4) resubmitted_fails[OF 1(2,7) assms(3) lim(1-3) 1(5,6,4) assms(7) lim(4) assms(9,10)] by blast
qed

text \<open>The first step executes the request of the instance, which is then aborted: its row stays.\<close>

lemma demo_stale_row:
  obtains s w where "engine_runs demo_hasher demo_id_order (demo_config 4) (s, w)" "vs_waiting s = []" "vs_running s = []"
    "dom (batch_of (gr_batch w)) = {''a''}"
proof -
  obtain s w where s: "engine_runs demo_hasher demo_id_order (demo_config 4) (s, w)" "vs_waiting s = [0]" "vs_running s = []"
    "vs_id s 0 = ''a''" "rq_status (vs_obj s 0) = WAITING" "enough_blocks s" "0 < vs_max_num_running_reqs s" "vs_max_num_scheduled_tokens s = 4"
    using demo_system by metis
  have i: "at_rest demo_hasher s" "mirror s w" "0 < vs_max_num_scheduled_tokens s"
    using engine_runs_mirror[OF demo_fitting demo_id_order_lists s(1)] by simp_all
  obtain sched s1 where a: "Scheduler_schedule demo_hasher 0 s = Inr (sched, s1)" "planned demo_hasher s sched s1 [] [0]" "vs_running s1 = [0]"
    "vs_waiting s1 = []" "dict_keys (so_num_scheduled_tokens sched) = [vs_id s 0]" "0 < so_total_num_scheduled_tokens sched"
    using single_scheduled[OF i(1) s(2,3,5,6) i(3) s(7), of 0] by metis
  note P = plannedD[OF a(2)]
  obtain w1 where w1: "GPUModelRunner_update_states demo_id_order sched w = Inr w1" "in_flight_runner s1 sched w1"
    using runner_in_flight[OF a(2) i(2,1) schedule_status[OF a(1)] demo_id_order_lists] by blast
  obtain out w2 where w2: "GPUModelRunner_execute_model demo_id_order demo_sampler sched w = Inr (out, w2)" "in_flight_runner s1 sched w2"
    "replies_ok (so_num_scheduled_tokens sched) out s1"
    using runner_executes[OF P(1) w1(2,1) P(13) a(6), of demo_sampler] by blast
  obtain res s2 where s2: "Scheduler_update_from_output (\<lambda>_. []) sched out s1 = Inr (res, s2)" "at_rest demo_hasher s2" "vs_waiting s2 = []"
    "set (vs_running s2) \<subseteq> {0}" "\<forall>k. vs_id s2 k = vs_id s1 k"
    using update_from_output_ok[OF P(1,14) w2(3), of "\<lambda>_. []"] a(3,4) by auto
  have "EngineCore_runner_step demo_hasher (\<lambda>_. []) demo_id_order demo_sampler 0 (s, w) = Inr (res, s2, w2)"
    using a(1,6) s(2) w2(1) s2(1) by (simp add: EngineCore_runner_step_def has_requests_iff)
  from engine_runs.step[OF s(1) this] have r2: "engine_runs demo_hasher demo_id_order (demo_config 4) (s2, w2)" .
  obtain s3 where s3: "Scheduler_finish_requests (\<lambda>_. [''a'']) (\<lambda>_. []) [''a''] FINISHED_ABORTED s2 = Inr s3" "at_rest demo_hasher s3"
     "\<forall>k. dict_get (vs_requests s3) k = (if k \<in> set [''a''] then None else dict_get (vs_requests s2) k)"
    using finish_requests_ok[OF s2(2), of FINISHED_ABORTED "\<lambda>_. [''a'']" "\<lambda>_. []" "[''a'']"] by auto
  have "dict_get (vs_requests s2) k = Some r \<Longrightarrow> k = ''a''" for k r
    using sched_okD(2)[OF in_flightD(1)[OF s2(2)]] s2(3,4,5) s(4) P(1) planned_text(2)[OF a(2), of 0] by (auto simp: queues_ok_def)
  then have "dict_get (vs_requests s3) k = None" for k using s3(3) by (cases "dict_get (vs_requests s2) k") auto
  then have "r \<notin> set (live_reqs s3)" for r using queues_okD(4)[OF sched_okD(2)[OF in_flightD(1)[OF s3(2)]], of r] by auto
  then have "live_reqs s3 = []" using last_in_set by blast
  moreover have "dom (batch_of (gr_batch w2)) = {''a''}" using in_flight_runnerD(5)[OF w2(2)] a(5) s(4) by simp
  ultimately show ?thesis using that[OF engine_runs.abort[OF r2 s3(1)]] by simp
qed

theorem EngineCore_resubmitted_id_crashes_witness:
  "\<exists>s w q res s'. engine_runs demo_hasher demo_id_order (demo_config 4) (s, w) \<and>
     EngineCore_runner_step demo_hasher (\<lambda>_. []) demo_id_order demo_sampler 0 (s, w) = Inr (res, s', w) \<and>
     EngineCore_runner_step demo_hasher (\<lambda>_. []) demo_id_order demo_sampler 0 (Scheduler_add_request 0 q s', w) = Inl IndexError"
proof -
  obtain s w where s: "engine_runs demo_hasher demo_id_order (demo_config 4) (s, w)" "vs_waiting s = []" "vs_running s = []"
    "dom (batch_of (gr_batch w)) = {''a''}" using demo_stale_row by metis
  obtain q where q: "plain_client_request (cf_max_model_len (demo_config 4)) q" "rq_request_id q = ''a''" "rq_status q = WAITING"
    using demo_request_ok by (auto simp: demo_config_def)
  have two: "2 \<le> cf_max_num_seqs (demo_config 4)" by (simp add: demo_config_def)
  show ?thesis
    using EngineCore_resubmitted_id_crashes[OF demo_fitting two demo_id_order_lists s q, of "\<lambda>_. []" demo_sampler 0 0 0] s(1) by blast
qed

definition demo_enter :: "string \<Rightarrow> int list \<Rightarrow> SamplingParams \<Rightarrow> InputBatch result \<Rightarrow> InputBatch result" where
  "demo_enter i prompt p x = res_bind x (InputBatch_add_request (demo_request i prompt p) 0 None)"

definition biased_params :: SamplingParams where
  "biased_params = SamplingParams_default\<lparr>sp_logit_bias := Some [(3, 1)]\<rparr>"

definition small_batch :: "InputBatch result" where
  "small_batch = InputBatch_init (\<lambda>_. 0) (\<lambda>_. 0) 3 4 2 10"

text \<open>
  C14. Condensing leaves the logit bias of a moved row behind. In any compact batch, let the request
  j of a row e leave, so that the request of the last row l moves to row e, and let then any new
  request without a bias enter, which takes row l: the metadata give the new request the bias of
  the request that has moved.
\<close>

theorem InputBatch_condense_leaves_logit_bias:
  assumes "arrays_ok b" "index_ok b" "compact b" "dict_get (ib_req_id_to_index b) j = Some e" "InputBatch_num_reqs b = Suc l" "e < l"
    "ib_logit_bias b ! l = Some bias"
    "InputBatch_remove_request j b = Inr (k, b1)" "InputBatch_condense [e] b1 = Inr b2"
    "InputBatch_add_request q st None b2 = Inr b3" "sp_logit_bias (cs_sampling_params q) = None"
    "dict_get (ib_req_id_to_index b2) (cs_req_id q) = None" "InputBatch_refresh_sampling_metadata b3 = Inr b4"
  shows "ib_req_ids b4 ! l = Some (cs_req_id q) \<and> length (sm_logit_bias (ib_sampling_metadata b4)) = Suc l \<and>
     sm_logit_bias (ib_sampling_metadata b4) ! l = Some bias"
  using stale_logit_bias[OF assms] by blast

definition bias_batch :: "InputBatch result" where
  "bias_batch = demo_enter ''B'' [8] biased_params (demo_enter ''A'' [9] SamplingParams_default small_batch)"

lemma two_rows_ok:
  assumes "ib_req_id_to_index b = [(i, 0), (j, 1)]" "ib_req_ids b = [Some i, Some j]" "i \<noteq> j"
  shows "index_ok b" "compact b" "InputBatch_num_reqs b = Suc 1"
  using assms by (auto simp: index_ok_def dict_ok_def slot_id_def compact_def InputBatch_num_reqs_def nth_Cons split: if_splits nat.splits)

theorem InputBatch_condense_leaves_logit_bias_witness:
  "\<exists>b b1 b2 b3 b4. bias_batch = Inr b \<and> InputBatch_remove_request ''A'' b = Inr (Some 0, b1) \<and> InputBatch_condense [0] b1 = Inr b2 \<and>
     InputBatch_add_request (demo_request ''C'' [7] SamplingParams_default) 0 None b2 = Inr b3 \<and>
     InputBatch_refresh_sampling_metadata b3 = Inr b4 \<and> ib_req_ids b4 ! 1 = Some ''C'' \<and>
     sm_logit_bias (ib_sampling_metadata b4) ! 1 = Some [(3, 1)] \<and> sp_logit_bias SamplingParams_default = None"
proof -
  have "run_shows bias_batch (\<lambda>b. arrays_ok b \<and> ib_req_id_to_index b = [(''A'', 0), (''B'', 1)] \<and> ib_req_ids b = [Some ''A'', Some ''B''] \<and>
      ib_logit_bias b ! 1 = Some [(3, 1)] \<and>
      run_shows (InputBatch_remove_request ''A'' b) (\<lambda>x. fst x = Some 0 \<and>
      run_shows (InputBatch_condense [0] (snd x)) (\<lambda>b2. dict_get (ib_req_id_to_index b2) ''C'' = None \<and>
      run_shows (InputBatch_add_request (demo_request ''C'' [7] SamplingParams_default) 0 None b2) (\<lambda>b3.
      run_shows (InputBatch_refresh_sampling_metadata b3) (\<lambda>_. True)))))"
    by code_simp
  then obtain b x b2 b3 b4 where b: "bias_batch = Inr b" "arrays_ok b" "ib_req_id_to_index b = [(''A'', 0), (''B'', 1)]"
    "ib_req_ids b = [Some ''A'', Some ''B'']" "ib_logit_bias b ! 1 = Some [(3, 1)]"
    and x: "InputBatch_remove_request ''A'' b = Inr x" "fst x = Some 0" and c: "InputBatch_condense [0] (snd x) = Inr b2"
    "InputBatch_add_request (demo_request ''C'' [7] SamplingParams_default) 0 None b2 = Inr b3"
    "dict_get (ib_req_id_to_index b2) ''C'' = None" "InputBatch_refresh_sampling_metadata b3 = Inr b4"
    by (elim run_showsE conjE) (rule that; assumption)
  obtain b1 where b1: "x = (Some 0, b1)" using x(2) by (cases x) simp
  note r = x(1)[unfolded b1] c[unfolded b1 snd_conv]
  have two: "index_ok b" "compact b" "InputBatch_num_reqs b = Suc 1" using two_rows_ok[OF b(3,4)] by simp_all
  have p: "sp_logit_bias SamplingParams_default = None" by (simp add: SamplingParams_default_def)
  have q: "cs_req_id (demo_request ''C'' [7] SamplingParams_default) = ''C''"
    "sp_logit_bias (cs_sampling_params (demo_request ''C'' [7] SamplingParams_default)) = None" using p by (simp_all add: demo_request_def)
  have j: "dict_get (ib_req_id_to_index b) ''A'' = Some 0" by (simp add: b(3))
  from InputBatch_condense_leaves_logit_bias[OF b(2) two(1,2) j two(3) _ b(5) r(1-3) q(2) _ r(5)] r(4) q(1)
  have "ib_req_ids b4 ! 1 = Some ''C''" "sm_logit_bias (ib_sampling_metadata b4) ! 1 = Some [(3, 1)]" by simp_all
  then show ?thesis using b(1) r p by blast
qed

definition penalty_params :: SamplingParams where
  "penalty_params = SamplingParams_default\<lparr>sp_frequency_penalty := 1\<rparr>"

definition empty_schedule :: SchedulerOutput where
  "empty_schedule =
     \<lparr>so_scheduled_new_reqs = [], so_scheduled_cached_reqs = [], so_num_scheduled_tokens = [], so_total_num_scheduled_tokens = 0,
      so_scheduled_spec_decode_tokens = [], so_scheduled_encoder_inputs = [], so_num_common_prefix_blocks = 0, so_finished_req_ids = {},
      so_free_encoder_input_ids = [], so_structured_output_request_ids = []\<rparr>"

text \<open>
  C15. In the middle of a chunked prompt the rest of the prompt does not move with its row. In any
  compact batch, let the request j of a row e leave and the row l of the last request i be updated
  with tokens up to position n, inside its prompt of p tokens (no speculative tokens); condensing
  moves i to row e. Of the prompt that the metadata then give the penalties for i, the first n
  tokens are those of i, and all others are those the row of j had before.
\<close>

theorem InputBatch_condense_splits_prompt:
  assumes "arrays_ok b" "index_ok b" "compact b" "dict_get (ib_req_id_to_index b) j = Some e" "dict_get (ib_req_id_to_index b) i = Some l"
    "InputBatch_num_reqs b = Suc l" "e < l"
    "InputBatch_remove_request j b = Inr (k, b1)" "update_row sched d l b1 = Inr b2"
    "dict_get_default (so_scheduled_spec_decode_tokens sched) (cd_req_id d) [] = []" "cd_num_computed_tokens d = int c"
    "n = c + length (cd_new_token_ids d)" "n < p" "p = ib_num_prompt_tokens b ! l" "p \<le> ib_max_model_len b"
    "InputBatch_condense [e] b2 = Inr b3" "InputBatch_make_prompt_token_ids b3 = Inr rows"
  shows "dict_get (ib_req_id_to_index b3) i = Some e \<and> length rows = l \<and> p \<le> length (rows ! e) \<and>
     take n (rows ! e) = take n (ib_token_ids b2 ! l) \<and> drop n (take p (rows ! e)) = drop n (take p (ib_token_ids b ! e))"
  using split_prompt[OF assms] by blast

definition penalty_batch :: "InputBatch result" where
  "penalty_batch = demo_enter ''B'' [1, 2, 3, 4] penalty_params (demo_enter ''A'' [9, 9, 9, 9] SamplingParams_default small_batch)"

definition chunk_example :: CachedRequestData where
  "chunk_example = \<lparr>cd_req_id = ''B'', cd_resumed_from_preemption = False, cd_new_token_ids = [2], cd_new_block_ids = [], cd_num_computed_tokens = 1\<rparr>"

theorem InputBatch_condense_splits_prompt_witness:
  "\<exists>b b1 b2 b3 rows. penalty_batch = Inr b \<and> InputBatch_remove_request ''A'' b = Inr (Some 0, b1) \<and>
     update_row empty_schedule chunk_example 1 b1 = Inr b2 \<and> InputBatch_condense [0] b2 = Inr b3 \<and>
     InputBatch_make_prompt_token_ids b3 = Inr rows \<and> take 2 (rows ! 0) = [1, 2] \<and> drop 2 (take 4 (rows ! 0)) = [9, 9]"
proof -
  have "run_shows penalty_batch (\<lambda>b. arrays_ok b \<and> ib_req_id_to_index b = [(''A'', 0), (''B'', 1)] \<and> ib_req_ids b = [Some ''A'', Some ''B''] \<and>
      ib_num_prompt_tokens b ! 1 = 4 \<and> ib_max_model_len b = 4 \<and> ib_token_ids b ! 0 = [9, 9, 9, 9] \<and>
      run_shows (InputBatch_remove_request ''A'' b) (\<lambda>x. fst x = Some 0 \<and>
      run_shows (update_row empty_schedule chunk_example 1 (snd x)) (\<lambda>b2. ib_token_ids b2 ! 1 = [1, 2, 3, 4] \<and>
      run_shows (InputBatch_condense [0] b2) (\<lambda>b3.
      run_shows (InputBatch_make_prompt_token_ids b3) (\<lambda>_. True)))))"
    by code_simp
  then obtain b x b2 b3 rows where b: "penalty_batch = Inr b" "arrays_ok b" "ib_req_id_to_index b = [(''A'', 0), (''B'', 1)]"
    "ib_req_ids b = [Some ''A'', Some ''B'']" "ib_num_prompt_tokens b ! 1 = 4" "ib_max_model_len b = 4" "ib_token_ids b ! 0 = [9, 9, 9, 9]"
    and x: "InputBatch_remove_request ''A'' b = Inr x" "fst x = Some 0" and c: "update_row empty_schedule chunk_example 1 (snd x) = Inr b2"
    "ib_token_ids b2 ! 1 = [1, 2, 3, 4]" "InputBatch_condense [0] b2 = Inr b3" "InputBatch_make_prompt_token_ids b3 = Inr rows"
    by (elim run_showsE conjE) (rule that; assumption)
  obtain b1 where b1: "x = (Some 0, b1)" using x(2) by (cases x) simp
  note r = x(1)[unfolded b1] c[unfolded b1 snd_conv]
  have two: "index_ok b" "compact b" "InputBatch_num_reqs b = Suc 1" using two_rows_ok[OF b(3,4)] by simp_all
  have ix: "dict_get (ib_req_id_to_index b) ''A'' = Some 0" "dict_get (ib_req_id_to_index b) ''B'' = Some 1" by (simp_all add: b(3))
  have d: "dict_get_default (so_scheduled_spec_decode_tokens empty_schedule) (cd_req_id chunk_example) [] = []"
    "cd_num_computed_tokens chunk_example = int 1" "2 = 1 + length (cd_new_token_ids chunk_example)"
    by (simp_all add: empty_schedule_def chunk_example_def dict_get_default_def)
  have "(2::nat) < 4" "4 = ib_num_prompt_tokens b ! 1" "4 \<le> ib_max_model_len b" using b(5,6) by simp_all
  from InputBatch_condense_splits_prompt[OF b(2) two(1,2) ix two(3) _ r(1,2) d this r(4,5)] b(7) r(3)
  have "take 2 (rows ! 0) = [1, 2]" "drop 2 (take 4 (rows ! 0)) = [9, 9]" by simp_all
  then show ?thesis using b(1) r by blast
qed

text \<open>Swapping two rows of the mask of allowed tokens makes them equal.\<close>

lemma mask_rows_not_swapped: "i < length rows \<Longrightarrow> j < length rows \<Longrightarrow> assign_crosswise i j rows = rows[i := rows ! j]"
  by (cases "i = j") (auto simp: assign_crosswise_def Let_def list_eq_iff_nth_eq nth_list_update)

end
