(* ===== verification/Spec2Isabelle.thy ===== *)
theory Spec2Isabelle
  imports Evictors Policy_Scheduler Prefix_Properties KV_Properties V1_Properties Batch_Properties
begin

text \<open>
  Verification of the KV-cache management and the scheduling of this vLLM fork (the directory
  vllm/vllm of the repository; the paths below are relative to it). A request is a list of tokens;
  the keys and values of its computed tokens are kept in blocks of a fixed number of tokens. The
  repository has two engines. The older one allocates blocks through allocators that keep freed
  blocks in an evictor, whose policy is what this fork adds. The v1 engine has its own block pool,
  KV-cache manager and scheduler. This root theory loads all theories; the properties stand in the
  theory of their component or in a theory ..._Properties, each after a text with its number.

  \<^bold>\<open>Eviction policies\<close> (core/evictor.py, and run_scheduler.py of vllm_cache_bench for the
  configuration string).
  \<^item> Prelude: Python errors as values of a sum type, dictionaries as association lists in insertion
    order, slices and indices, parsing of numbers, generic lemmas.
  \<^item> Evictor_Base: configuration parser, statistics, block metadata, and the locale
    \<open>evictor_contract\<close>: what the allocator may rely on. Heapq: the standard library's heap.
  \<^item> LRU_Evictor, PDP_Evictor with PDP_Distance, LRUML_Evictor with LRUML_Correct: the three
    evictors, each with its invariant and an interpretation of the contract; the lemmas say which
    block is evicted, that eviction returns, and that every waiting block comes out once.
  \<^item> Shadow_Cache, Policy_Scheduler: the metadata caches that replay accesses under one policy and
    the scheduler that picks a policy from their hit rates and freezes it.
  \<^item> Evictors: the dispatch over the classes and the contract of all of them.

  \<^bold>\<open>Allocators\<close> (core/block/common.py, naive_block.py, prefix_caching_block.py).
  \<^item> Block_Common: reference counts, the copy-on-write tracker, the pool of block objects, the
    cached id list of a sequence, the metric of cache hits. Naive_Allocator: blocks without reuse.
  \<^item> Prefix_Block, Prefix_Allocator, Prefix_Operations, Prefix_Trackers: the block with its memoised
    content hash, the allocator that reuses blocks by content hash, the trackers of sequences.
  \<^item> Prefix_Correct, Prefix_Refcount, Prefix_Reuse, Prefix_Lifecycle, Prefix_Lookup: every block is
    free, in use or cached and waiting (\<open>pa_inv\<close>); what a hit, a miss, a release, a reset and a lookup
    do. Prefix_Runs: runs of the allocator from its constructor (\<open>allocator_run\<close>), in which the
    references of a block are the objects that hold it, so that no block is lost; fork and swapping
    are not steps of these runs. Prefix_Properties: the properties, among them that the tracker of a
    sequence and the blocks compute the same hashes, unless a hash inside the chain is the one of
    the string None.

  \<^bold>\<open>KV cache of the v1 engine\<close> (v1/core/kv_cache_utils.py, block_pool.py, kv_cache_manager.py,
  encoder_cache_manager.py, v1/request.py, v1/kv_cache_interface.py).
  \<^item> KV_Blocks: block objects and the doubly linked free queue, which implements the locale
    \<open>free_queue\<close>; KV_Block_Pool with KV_Pool_Correct: the pool, reference counts and block hashes;
    KV_Request: requests and the hashes of their token blocks; KV_Cache_Manager with
    KV_Manager_Correct: slots of requests; KV_Config: the size of the cache of a list of workers; Encoder_Cache: encoder
    outputs and the choice of encoder inputs. KV_Properties: their properties.

  \<^bold>\<open>Scheduler and engine core of the v1 engine\<close> (v1/core/scheduler.py, v1/core/scheduler_output.py,
  v1/outputs.py, v1/engine/core.py).
  \<^item> V1_Scheduler: \<open>schedule\<close>, with the record \<open>V1Scheduler\<close> for the object's attributes and
    \<open>schedule_vars\<close> for the local variables of the method; requests are objects shared by queues
    and dictionaries, so they live in a store and the queues hold references. V1_Update: taking the
    runner's output, adding, aborting and freeing requests, and both step functions of EngineCore.
  \<^item> V1_Slots, V1_Invariant: what the manager's slots mean to the scheduler and the invariant
    \<open>sched_ok\<close>; V1_Running, V1_Running_Loop, V1_Waiting, V1_Schedule: the loops of a scheduling step;
    V1_Finish, V1_Update_Correct: the update; V1_Engine, V1_Run: the operations between two steps
    (\<open>at_rest\<close>) and the reachable states (\<open>engine_state\<close>); V1_Liveness: all requests finish.
    Pipeline_Hang: with a batch queue, waiting requests whose marks nobody takes away.
    V1_Properties: no step fails, queues and blocks agree, first come first served within the
    budget, the output tells the runner the blocks and tokens, sampled tokens are taken up to the
    first stop, every request finishes, and two losses: finished ids that the runner never hears
    of, and requests that wait forever after a preemption in flight, once nothing else runs.

  \<^bold>\<open>Model runner of the v1 engine\<close> (v1/worker/gpu_input_batch.py, block_table.py,
  gpu_model_runner.py, v1/sample/metadata.py, sampling_params.py).
  \<^item> Sampling_Params: the parameters of a request, their normalisation and checks. Input_Batch: the
    persistent batch, one row per request in parallel arrays, with its block table and the sampling
    metadata made from it. Model_Runner: the cached request states, \<open>_update_states\<close>,
    \<open>_prepare_inputs\<close> and \<open>execute_model\<close> around the forward pass, which is an argument.
  \<^item> Batch_Correct: the batch as a finite map from ids to rows (\<open>batch_of\<close>) under its invariant
    \<open>batch_inv\<close>; Metadata_Correct: the metadata describe the rows; Runner_Correct: updating the
    states does to the map what the scheduler's output announces, and the inputs are those of the
    rows.
  \<^item> V1_Status, Engine_Runner, Engine_Loop: the scheduler and the runner hold the same requests in
    two representations and exchange differences; the relation \<open>mirror\<close> holds between two steps,
    \<open>in_flight_runner\<close> during one. Engine_Runs: the step of both, \<open>EngineCore_runner_step\<close>, and the
    reachable states \<open>engine_runs\<close>. Stale_Rows: a row the runner was not told to drop. Condense_Faults:
    the two fields of a row that condensing does not move correctly.
    Batch_Properties: no step of the two fails, the model computes what the scheduler planned, the
    runner mirrors the scheduler, the batch refines a map, and what the batch and the runner get
    wrong: a reused id, a stale logit bias, a prompt split by condensing.

  \<^bold>\<open>Conventions.\<close> A raised exception is \<open>Inl\<close> of the error, a result \<open>Inr\<close>. Floats are rationals; a
  function of numpy, the builtin hash, the sorted dictionary, the registry of modalities, the
  executor and the order in which Python iterates a set are arguments. An operation that reads the
  clock has one reading as its argument. Logging and printing are left out.

  \<^bold>\<open>Fuel.\<close> Loops without structural recursion have fuel or a measure. The fuel is a bound of the
  code's own data, and a lemma shows that it is enough: the entries of the sorted dictionary for
  peeking, these plus the table for evicting, the length of the object store for walks along
  previous blocks, the number of blocks for evicting cached blocks and for the free queue, the
  lengths of the running and the waiting queue for the loops of the scheduler.

  \<^bold>\<open>Bounds.\<close> The properties of the v1 scheduler are about text requests with prefix caching, without
  LoRA, encoder inputs and speculative tokens (\<open>text_config\<close>, \<open>client_request\<close>, \<open>runner_ok\<close>); the
  definitions model these as well. The properties of the batch and the runner also leave out logit
  biases and lists of allowed tokens (\<open>plain_params\<close>), and the reachable states of engine and runner
  take new requests only under ids the runner does not know; what happens otherwise is a property
  of its own. The tensors hold rationals and integers: rounding to float32 and the width of int32
  are not modelled.

  \<^bold>\<open>Not modelled.\<close> The learned predictor's network and its training (core/learn_conversation.py,
  torch), the thread that runs it and the device moves; the forward pass, kernels, models, attention
  backends and the distributed executors, which are third-party computations or glue around them;
  in the GPU runner M-RoPE positions, the hook that reorders the batch for MLA, the encoder, prompt
  log probabilities, speculative decoding and graph capture; the other runners and the workers;
  the scheduler, block manager and block table of the older engine (core/scheduler.py,
  block_manager.py, block/block_table.py, cpu_gpu_block_allocator.py); configuration and argument
  parsing (config.py, engine/arg_utils.py), entry points, servers, tokenizers and the processes and
  sockets around the engine core; tests, benchmarks and the vendored csrc.
\<close>

end
